(* ===== verification/Prelude.thy ===== *)
theory Prelude
  imports Main "HOL-Library.Word"
begin

unbundle bit_operations_syntax

text \<open>
  Shared vocabulary of the development.

  The C integer types of the sources are words of the same width, so that \<open>+\<close>, \<open>-\<close> and
  \<open>*\<close> wrap as unsigned C arithmetic does; a C cast between unsigned types is \<open>ucast\<close>.
  Indices into arrays (slots of a table, positions of a loop) are naturals, and the sentinel
  \<open>UINT32_MAX\<close> that the sources use for ``no index'' keeps its value.
  The collections below gather the facts that the component proofs hand to the simplifier:
  \<open>frame_simps\<close> (what an operation leaves unchanged), \<open>len_simps\<close> (lengths of the arrays
  an operation returns) and \<open>inv_intros\<close> (invariant preservation).
\<close>

named_theorems frame_simps
named_theorems len_simps
named_theorems inv_intros

type_synonym u8 = "8 word"
type_synonym u16 = "16 word"
type_synonym u32 = "32 word"
type_synonym u64 = "64 word"

type_synonym bytes = "u8 list"

abbreviation UINT32_MAX :: nat where
  "UINT32_MAX \<equiv> 4294967295"

abbreviation U32_MAX :: u32 where
  "U32_MAX \<equiv> 4294967295"

abbreviation U64_MAX :: u64 where
  "U64_MAX \<equiv> 18446744073709551615"

text \<open>\<open>TGEN_MIN\<close>, \<open>TGEN_MAX\<close> and \<open>TGEN_CLAMP\<close> are the order's own \<open>min\<close> and \<open>max\<close>.\<close>

definition TGEN_CLAMP :: "'a::linorder \<Rightarrow> 'a \<Rightarrow> 'a \<Rightarrow> 'a" where
  "TGEN_CLAMP v lo hi = max lo (min v hi)"

lemma TGEN_CLAMP_bounds:
  "lo \<le> hi \<Longrightarrow> lo \<le> TGEN_CLAMP v lo hi \<and> TGEN_CLAMP v lo hi \<le> hi"
  by (auto simp: TGEN_CLAMP_def)

subsection \<open>Words\<close>

lemma unat_lt_u8: "unat (x :: u8) < 256"
  using unsigned_less [of x, where ?'a = nat] by simp

lemma unat_lt_u16: "unat (x :: u16) < 65536"
  using unsigned_less [of x, where ?'a = nat] by simp

lemma unat_lt_u32: "unat (x :: u32) < 4294967296"
  using unsigned_less [of x, where ?'a = nat] by simp

lemma unat_lt_u64: "unat (x :: u64) < 18446744073709551616"
  using unsigned_less [of x, where ?'a = nat] by simp

lemma word_nat_add_no_wrap:
  fixes a b :: "'a::len word"
  assumes "unat a + unat b < 2 ^ LENGTH('a)"
  shows "unat (a + b) = unat a + unat b"
  using assms by (simp add: unat_word_ariths)

lemma word_nat_mult_no_wrap:
  fixes a b :: "'a::len word"
  assumes "unat a * unat b < 2 ^ LENGTH('a)"
  shows "unat (a * b) = unat a * unat b"
  using assms by (simp add: unat_word_ariths)

lemma word_nat_sub:
  fixes a b :: "'a::len word"
  assumes "b \<le> a"
  shows "unat (a - b) = unat a - unat b"
  using assms by (simp add: unat_sub)

lemma word_of_nat_unat: "word_of_nat (unat x) = (x :: 'a::len word)"
  by simp

lemma unat_word_of_nat: "n < 2 ^ LENGTH('a) \<Longrightarrow> unat (word_of_nat n :: 'a::len word) = n"
  by (simp add: unsigned_of_nat take_bit_nat_eq_self)

lemma bit_unat_iff: "bit (unat v) n \<longleftrightarrow> bit (v :: 'a::len word) n"
  by (simp add: bit_unsigned_iff)

lemma unat_2_power: "n < LENGTH('a) \<Longrightarrow> unat ((2::'a::len word) ^ n) = 2 ^ n"
  by (metis (no_types) nat_power_eq of_nat_numeral of_nat_power take_bit_nat_eq_self_iff unat_of_nat power_strict_increasing_iff one_less_numeral_iff semiring_norm(76) take_bit_eq_mod unsigned_of_nat mod_less)

lemma xor_zero_imp_eq:
  fixes a b :: "'a::len word"
  assumes "a XOR b = 0"
  shows "a = b"
  by (metis assms xor.assoc xor_self_eq xor.left_neutral xor.right_neutral)

lemma log2_bounds:
  fixes x :: nat
  assumes "0 < x"
  obtains m where "2 ^ m \<le> x" and "x < 2 ^ Suc m"
proof -
  from assms have "\<exists>m. 2 ^ m \<le> x \<and> x < 2 ^ Suc m"
  proof (induction x rule: less_induct)
    case (less x)
    show ?case
    proof (cases "x = 1")
      case True
      then show ?thesis by (intro exI [of _ 0]) simp
    next
      case False
      with less.prems have "0 < x div 2" "x div 2 < x" by auto
      with less.IH obtain m where "2 ^ m \<le> x div 2" "x div 2 < 2 ^ Suc m" by blast
      then have "2 ^ Suc m \<le> x \<and> x < 2 ^ Suc (Suc m)" by auto
      then show ?thesis by blast
    qed
  qed
  with that show ?thesis by blast
qed

text \<open>Masking with a power of two minus one is reduction modulo the power.\<close>

lemma and_mask_nat_mod:
  fixes x :: nat
  shows "x AND (2 ^ n - 1) = x mod 2 ^ n"
proof -
  have "x AND (2 ^ n - 1) = x AND mask n"
    by (simp add: mask_eq_exp_minus_1)
  then show ?thesis
    by (simp add: take_bit_eq_mask [symmetric] take_bit_eq_mod)
qed

subsection \<open>Options\<close>

lemma option_eqI: "(\<And>j. a = Some j \<longleftrightarrow> b = Some j) \<Longrightarrow> a = b"
  by (cases a; cases b) auto

subsection \<open>Lists as C arrays\<close>

lemma nth_update_if:
  "i < length xs \<Longrightarrow> xs[j := v] ! i = (if i = j then v else xs ! i)"
  by (simp add: nth_list_update)

lemma length_takeWhile_lt: "\<exists>x\<in>set xs. \<not> P x \<Longrightarrow> length (takeWhile P xs) < length xs"
  by (induction xs) auto

end
