(* ===== verification/SndBuf.thy ===== *)
theory SndBuf
  imports Prelude
begin

text \<open>
  The TCP send buffer of \<^verbatim>\<open>net/tcp_snd_buf.h\<close> and \<^verbatim>\<open>net/tcp_snd_buf.c\<close>: one linear array that
  holds the bytes from the oldest unacknowledged one on.  The interface \<open>byte_queue\<close> states what the
  TCP code relies on (appends go to the back, acknowledgements remove from the front) and derives that
  over any history the stream is neither reordered nor lost; the buffer is interpreted as such a queue.
\<close>

definition TCP_SND_BUF_DEFAULT_CAP :: u32 where "TCP_SND_BUF_DEFAULT_CAP = 65536"

record tcp_snd_buf =
  sb_data :: bytes
  sb_cap :: u32
  sb_len :: u32
  sb_base_seq :: u32

text \<open>
  \<^verbatim>\<open>rte_malloc\<close> is the DPDK allocator: the arguments say whether the descriptor was allocated and
  which memory of \<open>cap\<close> bytes (of arbitrary content) was returned for the data.
\<close>

definition tcp_snd_buf_alloc :: "bool \<Rightarrow> (u32 \<Rightarrow> bytes option) \<Rightarrow> u32 \<Rightarrow> tcp_snd_buf option" where
  "tcp_snd_buf_alloc hdr_ok malloc cap0 =
     (let cap = (if cap0 = 0 then TCP_SND_BUF_DEFAULT_CAP else cap0)
      in if \<not> hdr_ok then None
         else case malloc cap of
                None \<Rightarrow> None
              | Some mem \<Rightarrow> Some \<lparr>sb_data = mem, sb_cap = cap, sb_len = 0, sb_base_seq = 0\<rparr>)"

text \<open>\<^verbatim>\<open>memcpy\<close> of \<open>n\<close> bytes of \<open>src\<close> to offset \<open>off\<close> of an array.\<close>

definition write_at :: "bytes \<Rightarrow> nat \<Rightarrow> bytes \<Rightarrow> nat \<Rightarrow> bytes" where
  "write_at dst off src n = take off dst @ take n src @ drop (off + n) dst"

text \<open>The number of bytes stored is returned with the new buffer.\<close>

definition tcp_snd_buf_append :: "tcp_snd_buf \<Rightarrow> bytes \<Rightarrow> u32 \<Rightarrow> u32 \<times> tcp_snd_buf" where
  "tcp_snd_buf_append sb data len =
     (let space = sb_cap sb - sb_len sb;
          len = (if len > space then space else len)
      in if len = 0 then (0, sb)
         else (len, sb\<lparr>sb_data := write_at (sb_data sb) (unat (sb_len sb)) data (unat len),
                       sb_len := sb_len sb + len\<rparr>))"

definition tcp_snd_buf_ack :: "tcp_snd_buf \<Rightarrow> u32 \<Rightarrow> tcp_snd_buf" where
  "tcp_snd_buf_ack sb acked =
     (if acked \<ge> sb_len sb
      then sb\<lparr>sb_base_seq := sb_base_seq sb + sb_len sb, sb_len := 0\<rparr>
      else sb\<lparr>sb_data := write_at (sb_data sb) 0 (drop (unat acked) (sb_data sb))
                           (unat (sb_len sb - acked)),
              sb_base_seq := sb_base_seq sb + acked,
              sb_len := sb_len sb - acked\<rparr>)"

definition tcp_snd_buf_unsent_len :: "tcp_snd_buf \<Rightarrow> u32 \<Rightarrow> u32" where
  "tcp_snd_buf_unsent_len sb in_flight =
     (if in_flight < sb_len sb then sb_len sb - in_flight else 0)"

subsection \<open>The queue the buffer implements\<close>

definition snd_buf_ok :: "tcp_snd_buf \<Rightarrow> bool" where
  "snd_buf_ok sb \<longleftrightarrow> length (sb_data sb) = unat (sb_cap sb) \<and> sb_len sb \<le> sb_cap sb"

definition sb_bytes :: "tcp_snd_buf \<Rightarrow> bytes" where
  "sb_bytes sb = take (unat (sb_len sb)) (sb_data sb)"

datatype sb_op = Append bytes | Ack u32

text \<open>
  One call of the buffer's interface: the new buffer, the bytes accepted and the bytes dropped from the
  front.  An append of more than \<open>2 ^ 32 - 1\<close> bytes cannot be expressed by the C signature.
\<close>

definition sb_step :: "tcp_snd_buf \<Rightarrow> sb_op \<Rightarrow> tcp_snd_buf" where
  "sb_step sb p =
     (case p of
        Append xs \<Rightarrow> snd (tcp_snd_buf_append sb xs (word_of_nat (length xs)))
      | Ack n \<Rightarrow> tcp_snd_buf_ack sb n)"

fun sb_op_valid :: "sb_op \<Rightarrow> bool" where
  "sb_op_valid (Append xs) \<longleftrightarrow> length xs < 2 ^ 32"
| "sb_op_valid (Ack n) \<longleftrightarrow> True"

definition sb_accept :: "tcp_snd_buf \<Rightarrow> sb_op \<Rightarrow> bytes" where
  "sb_accept sb p =
     (case p of
        Append xs \<Rightarrow> take (unat (fst (tcp_snd_buf_append sb xs (word_of_nat (length xs))))) xs
      | Ack n \<Rightarrow> [])"

definition sb_removed :: "tcp_snd_buf \<Rightarrow> sb_op \<Rightarrow> nat" where
  "sb_removed sb p =
     (case p of Append xs \<Rightarrow> 0 | Ack n \<Rightarrow> min (unat n) (unat (sb_len sb)))"

fun sb_run :: "tcp_snd_buf \<Rightarrow> sb_op list \<Rightarrow> tcp_snd_buf" where
  "sb_run sb [] = sb"
| "sb_run sb (p # ps) = sb_run (sb_step sb p) ps"

fun sb_accepted :: "tcp_snd_buf \<Rightarrow> sb_op list \<Rightarrow> bytes" where
  "sb_accepted sb [] = []"
| "sb_accepted sb (p # ps) = sb_accept sb p @ sb_accepted (sb_step sb p) ps"

fun sb_acked :: "tcp_snd_buf \<Rightarrow> sb_op list \<Rightarrow> nat" where
  "sb_acked sb [] = 0"
| "sb_acked sb (p # ps) = sb_removed sb p + sb_acked (sb_step sb p) ps"

text \<open>
  The contract of a FIFO of bytes, for any representation: one step appends the accepted bytes at the
  back and drops the removed ones at the front, and the label of the front byte advances with them.
\<close>

locale byte_queue =
  fixes ok :: "'s \<Rightarrow> bool"
    and contents :: "'s \<Rightarrow> bytes"
    and label :: "'s \<Rightarrow> u32"
    and valid :: "'o \<Rightarrow> bool"
    and step :: "'s \<Rightarrow> 'o \<Rightarrow> 's"
    and accept :: "'s \<Rightarrow> 'o \<Rightarrow> bytes"
    and removed :: "'s \<Rightarrow> 'o \<Rightarrow> nat"
  assumes step_ok: "ok s \<Longrightarrow> valid p \<Longrightarrow> ok (step s p)"
    and step_contents:
      "ok s \<Longrightarrow> valid p \<Longrightarrow> contents (step s p) = drop (removed s p) (contents s @ accept s p)"
    and step_removed: "ok s \<Longrightarrow> valid p \<Longrightarrow> removed s p \<le> length (contents s)"
    and step_label: "ok s \<Longrightarrow> valid p \<Longrightarrow> label (step s p) = label s + word_of_nat (removed s p)"
begin

fun run :: "'s \<Rightarrow> 'o list \<Rightarrow> 's" where
  "run s [] = s"
| "run s (p # ps) = run (step s p) ps"

fun accepted :: "'s \<Rightarrow> 'o list \<Rightarrow> bytes" where
  "accepted s [] = []"
| "accepted s (p # ps) = accept s p @ accepted (step s p) ps"

fun acked :: "'s \<Rightarrow> 'o list \<Rightarrow> nat" where
  "acked s [] = 0"
| "acked s (p # ps) = removed s p + acked (step s p) ps"

lemma run_ok: "ok s \<Longrightarrow> list_all valid ps \<Longrightarrow> ok (run s ps)"
  by (induction ps arbitrary: s) (auto simp: step_ok)

lemma run_contents:
  "ok s \<Longrightarrow> list_all valid ps \<Longrightarrow>
     contents (run s ps) = drop (acked s ps) (contents s @ accepted s ps) \<and>
     acked s ps \<le> length (contents s @ accepted s ps)"
proof (induction ps arbitrary: s)
  case (Cons p ps)
  then have ok: "ok (step s p)" "valid p" by (auto simp: step_ok)
  with Cons have IH: "contents (run s (p # ps)) =
        drop (acked (step s p) ps) (contents (step s p) @ accepted (step s p) ps)"
      "acked (step s p) ps \<le> length (contents (step s p) @ accepted (step s p) ps)"
    by auto
  have r: "removed s p \<le> length (contents s)" using Cons.prems ok by (auto intro: step_removed)
  have c: "contents (step s p) = drop (removed s p) (contents s @ accept s p)"
    using Cons.prems ok step_contents by blast
  have "contents (step s p) @ accepted (step s p) ps =
      drop (removed s p) (contents s @ accepted s (p # ps))"
    using r by (simp add: c)
  with IH r show ?case by (auto simp: add.commute)
qed simp

lemma run_label:
  "ok s \<Longrightarrow> list_all valid ps \<Longrightarrow> label (run s ps) = label s + word_of_nat (acked s ps)"
  by (induction ps arbitrary: s) (auto simp: step_ok step_label)

end

subsection \<open>The buffer is such a queue\<close>

lemma sb_bytes_length: "snd_buf_ok sb \<Longrightarrow> length (sb_bytes sb) = unat (sb_len sb)"
  by (auto simp: snd_buf_ok_def sb_bytes_def word_le_nat_alt)

lemma snd_buf_alloc_ok:
  assumes "tcp_snd_buf_alloc h malloc cap = Some sb" and "\<And>n m. malloc n = Some m \<Longrightarrow> length m = unat n"
  shows "snd_buf_ok sb \<and> sb_bytes sb = []"
  using assms
  by (auto simp: tcp_snd_buf_alloc_def snd_buf_ok_def sb_bytes_def Let_def split: if_splits option.splits)

text \<open>Appending stores the longest prefix that fits and leaves the rest to the caller.\<close>

lemma snd_buf_append_spec:
  assumes ok: "snd_buf_ok sb" and len: "unat len \<le> length xs"
    and app: "tcp_snd_buf_append sb xs len = (n, sb')"
  shows "snd_buf_ok sb'" and "sb_bytes sb' = sb_bytes sb @ take (unat n) xs"
    and "unat n = min (unat len) (unat (sb_cap sb) - length (sb_bytes sb))"
    and "sb_base_seq sb' = sb_base_seq sb" and "sb_cap sb' = sb_cap sb"
proof -
  have le: "sb_len sb \<le> sb_cap sb" and ld: "length (sb_data sb) = unat (sb_cap sb)"
    using ok by (auto simp: snd_buf_ok_def)
  have sp: "unat (sb_cap sb - sb_len sb) = unat (sb_cap sb) - unat (sb_len sb)"
    using le by (rule word_nat_sub)
  define m where "m = (if len > sb_cap sb - sb_len sb then sb_cap sb - sb_len sb else len)"
  have um: "unat m = min (unat len) (unat (sb_cap sb) - unat (sb_len sb))"
    by (auto simp: m_def sp word_less_nat_alt)
  have n: "n = m" using app by (auto simp: tcp_snd_buf_append_def Let_def m_def split: if_splits)
  show "unat n = min (unat len) (unat (sb_cap sb) - length (sb_bytes sb))"
    using um n ok by (simp add: sb_bytes_length)
  have sum: "unat (sb_len sb + m) = unat (sb_len sb) + unat m"
    using um le unat_lt_u32 [of "sb_cap sb"]
    by (intro word_nat_add_no_wrap) (auto simp: word_le_nat_alt)
  have "m = 0 \<Longrightarrow> sb' = sb"
    using app by (auto simp: tcp_snd_buf_append_def Let_def m_def split: if_splits)
  moreover have "m \<noteq> 0 \<Longrightarrow> sb' = sb\<lparr>sb_data := write_at (sb_data sb) (unat (sb_len sb)) xs (unat m),
                       sb_len := sb_len sb + m\<rparr>"
    using app by (auto simp: tcp_snd_buf_append_def Let_def m_def split: if_splits)
  ultimately have "snd_buf_ok sb' \<and> sb_bytes sb' = sb_bytes sb @ take (unat n) xs \<and>
      sb_base_seq sb' = sb_base_seq sb \<and> sb_cap sb' = sb_cap sb"
    using ok um len le by (cases "m = 0")
      (auto simp: n snd_buf_ok_def sb_bytes_def write_at_def sum word_le_nat_alt)
  then show "snd_buf_ok sb'" "sb_bytes sb' = sb_bytes sb @ take (unat n) xs"
    "sb_base_seq sb' = sb_base_seq sb" "sb_cap sb' = sb_cap sb" by auto
qed

lemma snd_buf_ack_spec:
  assumes ok: "snd_buf_ok sb"
  shows "snd_buf_ok (tcp_snd_buf_ack sb n)"
    and "sb_bytes (tcp_snd_buf_ack sb n) = drop (unat n) (sb_bytes sb)"
    and "sb_base_seq (tcp_snd_buf_ack sb n) =
           sb_base_seq sb + word_of_nat (min (unat n) (length (sb_bytes sb)))"
    and "sb_cap (tcp_snd_buf_ack sb n) = sb_cap sb"
proof -
  have le: "sb_len sb \<le> sb_cap sb" and ld: "length (sb_data sb) = unat (sb_cap sb)"
    using ok by (auto simp: snd_buf_ok_def)
  have "snd_buf_ok (tcp_snd_buf_ack sb n) \<and>
    sb_bytes (tcp_snd_buf_ack sb n) = drop (unat n) (sb_bytes sb) \<and>
    sb_base_seq (tcp_snd_buf_ack sb n) =
           sb_base_seq sb + word_of_nat (min (unat n) (length (sb_bytes sb)))"
  proof (cases "n \<ge> sb_len sb")
    case True
    then have m: "min (unat n) (length (sb_bytes sb)) = unat (sb_len sb)"
      using ok by (auto simp: sb_bytes_length word_le_nat_alt)
    have "tcp_snd_buf_ack sb n = sb\<lparr>sb_base_seq := sb_base_seq sb + sb_len sb, sb_len := 0\<rparr>"
      using True by (simp add: tcp_snd_buf_ack_def)
    then show ?thesis
      using ok True sb_bytes_length [OF ok] unfolding m
      by (simp add: snd_buf_ok_def word_le_nat_alt) (simp add: sb_bytes_def)
  next
    case False
    then have d: "unat (sb_len sb - n) = unat (sb_len sb) - unat n"
      by (intro word_nat_sub) simp
    have "unat n < unat (sb_len sb)" using False by (simp add: word_le_nat_alt)
    then show ?thesis
      using False ok le ld d
      by (auto simp: tcp_snd_buf_ack_def snd_buf_ok_def sb_bytes_def write_at_def word_le_nat_alt
          take_drop min_def)
  qed
  then show "snd_buf_ok (tcp_snd_buf_ack sb n)"
    "sb_bytes (tcp_snd_buf_ack sb n) = drop (unat n) (sb_bytes sb)"
    "sb_base_seq (tcp_snd_buf_ack sb n) =
           sb_base_seq sb + word_of_nat (min (unat n) (length (sb_bytes sb)))" by auto
  show "sb_cap (tcp_snd_buf_ack sb n) = sb_cap sb"
    by (simp add: tcp_snd_buf_ack_def)
qed

lemma sb_step_append:
  assumes "snd_buf_ok sb" and "length xs < 2 ^ 32"
  shows "snd_buf_ok (sb_step sb (Append xs))"
    and "sb_bytes (sb_step sb (Append xs)) = sb_bytes sb @ sb_accept sb (Append xs)"
    and "sb_base_seq (sb_step sb (Append xs)) = sb_base_seq sb"
proof -
  obtain n sb' where a: "tcp_snd_buf_append sb xs (word_of_nat (length xs)) = (n, sb')" by force
  have "unat (word_of_nat (length xs) :: u32) \<le> length xs"
    using assms by (simp add: unat_of_nat)
  note spec = snd_buf_append_spec [OF assms(1) this a]
  show "snd_buf_ok (sb_step sb (Append xs))"
    "sb_bytes (sb_step sb (Append xs)) = sb_bytes sb @ sb_accept sb (Append xs)"
    "sb_base_seq (sb_step sb (Append xs)) = sb_base_seq sb"
    using spec by (auto simp: sb_step_def sb_accept_def a)
qed

interpretation sbq: byte_queue snd_buf_ok sb_bytes sb_base_seq sb_op_valid sb_step sb_accept sb_removed
proof
  fix sb :: tcp_snd_buf and p :: sb_op
  assume ok: "snd_buf_ok sb" and v: "sb_op_valid p"
  note ack = snd_buf_ack_spec [OF ok] and app = sb_step_append [OF ok]
  note defs = sb_step_def sb_accept_def sb_removed_def
  show "snd_buf_ok (sb_step sb p)"
    using ack app v by (cases p) (auto simp: sb_step_def)
  show "sb_removed sb p \<le> length (sb_bytes sb)"
    using ok by (cases p) (auto simp: defs sb_bytes_length)
  show "sb_bytes (sb_step sb p) = drop (sb_removed sb p) (sb_bytes sb @ sb_accept sb p)"
    using ack app v ok by (cases p) (auto simp: defs sb_bytes_length min_def)
  show "sb_base_seq (sb_step sb p) = sb_base_seq sb + word_of_nat (sb_removed sb p)"
    using ack app v ok by (cases p) (auto simp: defs sb_bytes_length)
qed

lemma sb_run_eq: "sb_run sb ps = sbq.run sb ps"
  and sb_accepted_eq: "sb_accepted sb ps = sbq.accepted sb ps"
  and sb_acked_eq: "sb_acked sb ps = sbq.acked sb ps"
  by (induction ps arbitrary: sb) auto

text \<open>
  C5. Over any history of appends and acknowledgements on a well-formed send buffer, the buffer holds
  exactly the accepted byte stream less the acknowledged prefix, in order, and \<open>base_seq\<close> is the
  sequence number of its first byte: nothing is lost, duplicated or reordered.
\<close>

theorem snd_buf_stream:
  assumes "snd_buf_ok sb" and "list_all sb_op_valid ps"
  shows "sb_bytes (sb_run sb ps) = drop (sb_acked sb ps) (sb_bytes sb @ sb_accepted sb ps) \<and>
    sb_base_seq (sb_run sb ps) = sb_base_seq sb + word_of_nat (sb_acked sb ps) \<and>
    snd_buf_ok (sb_run sb ps)"
  using sbq.run_contents [OF assms] sbq.run_label [OF assms] sbq.run_ok [OF assms]
  by (simp add: sb_run_eq sb_accepted_eq sb_acked_eq)

theorem snd_buf_stream_witness:
  "let sb = \<lparr>sb_data = [0, 0, 0, 0], sb_cap = 4, sb_len = 0, sb_base_seq = 4294967295\<rparr>;
       ps = [Append [1, 2, 3], Ack 2, Append [4, 5, 6, 7]]
   in sb_bytes (sb_run sb ps) = drop (sb_acked sb ps) (sb_bytes sb @ sb_accepted sb ps) \<and>
      sb_base_seq (sb_run sb ps) = sb_base_seq sb + word_of_nat (sb_acked sb ps) \<and>
      snd_buf_ok (sb_run sb ps)"
  unfolding Let_def by (rule snd_buf_stream) (simp_all add: snd_buf_ok_def)

text \<open>
  An append stores the longest prefix that fits, reports its length, and leaves the bytes already
  queued and their sequence numbers alone.
\<close>

theorem snd_buf_append_prefix:
  assumes "snd_buf_ok sb" and "unat len \<le> length xs"
  shows "let (n, sb') = tcp_snd_buf_append sb xs len in
    unat n = min (unat len) (unat (sb_cap sb) - length (sb_bytes sb)) \<and>
    sb_bytes sb' = sb_bytes sb @ take (unat n) xs \<and> snd_buf_ok sb' \<and>
    sb_base_seq sb' = sb_base_seq sb"
proof -
  obtain n sb' where a: "tcp_snd_buf_append sb xs len = (n, sb')" by force
  from snd_buf_append_spec [OF assms a] show ?thesis by (simp add: a)
qed

theorem snd_buf_append_prefix_witness:
  "let sb = \<lparr>sb_data = [9, 0, 0], sb_cap = 3, sb_len = 1, sb_base_seq = 5\<rparr> in
   let (n, sb') = tcp_snd_buf_append sb [1, 2, 3] 3 in
    unat n = min (unat (3::u32)) (unat (sb_cap sb) - length (sb_bytes sb)) \<and>
    sb_bytes sb' = sb_bytes sb @ take (unat n) [1, 2, 3] \<and> snd_buf_ok sb' \<and>
    sb_base_seq sb' = sb_base_seq sb"
  unfolding Let_def [of "\<lparr>sb_data = [9, 0, 0], sb_cap = 3, sb_len = 1, sb_base_seq = 5\<rparr>"]
  by (rule snd_buf_append_prefix) (simp_all add: snd_buf_ok_def)

end
