(* ===== verification/TcpOptions.thy ===== *)
theory TcpOptions
  imports Prelude
begin

text \<open>
  TCP options of \<^verbatim>\<open>net/tcp_options.h\<close> and \<^verbatim>\<open>net/tcp_options.c\<close>: the parser of a received segment's
  options and the two writers.  The parser reads the memory that follows the 20-byte header; a writer's
  result is the list of bytes it stores, whose length is the value the C function returns.
\<close>

definition TCPOPT_EOL :: u8 where "TCPOPT_EOL = 0"
definition TCPOPT_NOP :: u8 where "TCPOPT_NOP = 1"
definition TCPOPT_MSS :: u8 where "TCPOPT_MSS = 2"
definition TCPOPT_WINDOW_SCALE :: u8 where "TCPOPT_WINDOW_SCALE = 3"
definition TCPOPT_SACK_PERM :: u8 where "TCPOPT_SACK_PERM = 4"
definition TCPOPT_SACK :: u8 where "TCPOPT_SACK = 5"
definition TCPOPT_TIMESTAMP :: u8 where "TCPOPT_TIMESTAMP = 8"

lemmas tcpopt_defs = TCPOPT_EOL_def TCPOPT_NOP_def TCPOPT_MSS_def TCPOPT_WINDOW_SCALE_def
  TCPOPT_SACK_PERM_def TCPOPT_SACK_def TCPOPT_TIMESTAMP_def

type_synonym sack_block = "u32 \<times> u32"

record tcp_parsed_opts =
  po_mss :: u16
  po_wscale :: u8
  po_has_mss :: bool
  po_has_wscale :: bool
  po_has_sack_perm :: bool
  po_has_timestamps :: bool
  po_ts_val :: u32
  po_ts_ecr :: u32
  po_sack :: "sack_block list"
  po_sack_count :: nat

text \<open>The record after \<^verbatim>\<open>memset(out, 0, sizeof(*out))\<close>.\<close>

definition po_zero :: tcp_parsed_opts where
  "po_zero = \<lparr>po_mss = 0, po_wscale = 0, po_has_mss = False, po_has_wscale = False,
     po_has_sack_perm = False, po_has_timestamps = False, po_ts_val = 0, po_ts_ecr = 0,
     po_sack = replicate 4 (0, 0), po_sack_count = 0\<rparr>"

definition be16 :: "u8 \<Rightarrow> u8 \<Rightarrow> u16" where
  "be16 a b = push_bit 8 (ucast a) OR ucast b"

definition be32 :: "u8 \<Rightarrow> u8 \<Rightarrow> u8 \<Rightarrow> u8 \<Rightarrow> u32" where
  "be32 a b c d = push_bit 24 (ucast a) OR push_bit 16 (ucast b) OR push_bit 8 (ucast c) OR ucast d"

definition be32_at :: "bytes \<Rightarrow> nat \<Rightarrow> u32" where
  "be32_at v i = be32 (v ! i) (v ! (i + 1)) (v ! (i + 2)) (v ! (i + 3))"

text \<open>The loop over the blocks of one SACK option; \<open>n\<close> blocks are left.\<close>

fun sack_loop :: "nat \<Rightarrow> bytes \<Rightarrow> tcp_parsed_opts \<Rightarrow> tcp_parsed_opts" where
  "sack_loop 0 v out = out"
| "sack_loop (Suc n) v out =
     (if po_sack_count out < 4
      then sack_loop n (drop 8 v)
             (out\<lparr>po_sack := (po_sack out)[po_sack_count out := (be32_at v 0, be32_at v 4)],
                  po_sack_count := po_sack_count out + 1\<rparr>)
      else out)"

text \<open>The \<^verbatim>\<open>switch (kind)\<close>, for an option of length \<open>len\<close> with value bytes \<open>v\<close>.\<close>

definition opt_apply :: "u8 \<Rightarrow> nat \<Rightarrow> bytes \<Rightarrow> tcp_parsed_opts \<Rightarrow> tcp_parsed_opts" where
  "opt_apply kind len v out =
     (if kind = TCPOPT_MSS then
        (if len = 4 then out\<lparr>po_mss := be16 (v ! 0) (v ! 1), po_has_mss := True\<rparr> else out)
      else if kind = TCPOPT_WINDOW_SCALE then
        (if len = 3 then out\<lparr>po_wscale := (if v ! 0 > 14 then 14 else v ! 0), po_has_wscale := True\<rparr>
         else out)
      else if kind = TCPOPT_SACK_PERM then out\<lparr>po_has_sack_perm := True\<rparr>
      else if kind = TCPOPT_TIMESTAMP then
        (if len = 10
         then out\<lparr>po_ts_val := be32_at v 0, po_ts_ecr := be32_at v 4, po_has_timestamps := True\<rparr>
         else out)
      else if kind = TCPOPT_SACK then
        (if 10 \<le> len \<and> po_sack_count out < 4 then sack_loop ((len - 2) div 8) v out else out)
      else out)"

text \<open>The main loop: the bytes between \<open>p\<close> and \<open>end\<close>.\<close>

function opt_loop :: "bytes \<Rightarrow> tcp_parsed_opts \<Rightarrow> tcp_parsed_opts" where
  "opt_loop [] out = out"
| "opt_loop (kind # p) out =
     (if kind = TCPOPT_EOL then out
      else if kind = TCPOPT_NOP then opt_loop p out
      else case p of
             [] \<Rightarrow> out
           | len # v \<Rightarrow>
               if unat len < 2 \<or> unat len - 2 > length v then out
               else opt_loop (drop (unat len - 2) v) (opt_apply kind (unat len) v out))"
  by pat_completeness auto
termination
  by (relation "measure (\<lambda>(p, _). length p)") auto

definition tcp_options_parse :: "u8 \<Rightarrow> bytes \<Rightarrow> int \<times> tcp_parsed_opts" where
  "tcp_options_parse data_off mem =
     (let doff = drop_bit 4 data_off AND 0x0F
      in if doff < 5 then (-1, po_zero)
         else (0, opt_loop (take (unat (doff - 5) * 4) mem) po_zero))"

subsection \<open>Writers\<close>

definition bytes16 :: "u16 \<Rightarrow> bytes" where
  "bytes16 x = [ucast (drop_bit 8 x), ucast x]"

definition bytes32 :: "u32 \<Rightarrow> bytes" where
  "bytes32 x = [ucast (drop_bit 24 x), ucast (drop_bit 16 x), ucast (drop_bit 8 x), ucast x]"

text \<open>
  The writers emit one option after the other; \<^verbatim>\<open>NEED(n)\<close> leaves for \<open>done\<close> at the first one
  that does not fit.  The result is what was written and the space that remains.
\<close>

fun emit :: "nat \<Rightarrow> bytes list \<Rightarrow> bytes \<times> nat" where
  "emit remaining [] = ([], remaining)"
| "emit remaining (c # cs) =
     (if remaining < length c then ([], remaining)
      else let (rest, r) = emit (remaining - length c) cs in (c @ rest, r))"

text \<open>The padding loop at \<open>done\<close>; \<open>n\<close> is the space that remains.\<close>

fun pad_nop :: "bytes \<Rightarrow> nat \<Rightarrow> bytes" where
  "pad_nop out 0 = out"
| "pad_nop out (Suc n) = (if length out mod 4 \<noteq> 0 then pad_nop (out @ [TCPOPT_NOP]) n else out)"

definition tcp_options_write_syn ::
  "nat \<Rightarrow> u16 \<Rightarrow> u8 \<Rightarrow> bool \<Rightarrow> bool \<Rightarrow> u32 \<Rightarrow> u32 \<Rightarrow> bytes" where
  "tcp_options_write_syn bufsz mss wscale sack_perm timestamps ts_val ts_ecr =
     (let (out, remaining) =
        emit bufsz
          ([[TCPOPT_MSS, 4] @ bytes16 mss] @
           (if sack_perm then [[TCPOPT_SACK_PERM, 2]] else []) @
           (if timestamps then [[TCPOPT_TIMESTAMP, 10] @ bytes32 ts_val @ bytes32 ts_ecr] else []) @
           [[TCPOPT_NOP, TCPOPT_WINDOW_SCALE, 3, wscale]])
      in pad_nop out remaining)"

text \<open>A null \<open>sack\<close> pointer is the empty list; the array holds at least \<open>sack_count\<close> blocks.\<close>

definition tcp_options_write_data ::
  "nat \<Rightarrow> bool \<Rightarrow> u32 \<Rightarrow> u32 \<Rightarrow> sack_block list \<Rightarrow> nat \<Rightarrow> bytes" where
  "tcp_options_write_data bufsz timestamps ts_val ts_ecr sack sack_count =
     (let sb_count = (if sack_count > 4 then 4 else sack_count);
          (out, remaining) =
        emit bufsz
          ((if timestamps
            then [[TCPOPT_NOP, TCPOPT_NOP, TCPOPT_TIMESTAMP, 10] @ bytes32 ts_val @ bytes32 ts_ecr]
            else []) @
           (if sack \<noteq> [] \<and> sack_count > 0
            then [[TCPOPT_NOP, TCPOPT_NOP, TCPOPT_SACK, word_of_nat (2 + sb_count * 8)] @
                  concat (map (\<lambda>(l, r). bytes32 l @ bytes32 r) (take sb_count sack))]
            else []))
      in pad_nop out remaining)"

text \<open>The data offset byte a sender stores for options of the given length.\<close>

definition data_off_of :: "nat \<Rightarrow> u8" where
  "data_off_of optlen = push_bit 4 (word_of_nat ((20 + optlen) div 4))"

subsection \<open>Byte order\<close>

lemma be16_bytes16: "be16 (ucast (drop_bit 8 x)) (ucast x) = x"
  by (rule bit_word_eqI)
    (auto simp: be16_def bit_or_iff bit_push_bit_iff bit_unsigned_iff bit_drop_bit_eq)

lemma be32_bytes32:
  "be32 (ucast (drop_bit 24 x)) (ucast (drop_bit 16 x)) (ucast (drop_bit 8 x)) (ucast x) = x"
proof (rule bit_word_eqI)
  fix n :: nat
  assume "n < LENGTH(32)"
  then have "n < 8 \<or> (8 \<le> n \<and> n < 16) \<or> (16 \<le> n \<and> n < 24) \<or> (24 \<le> n \<and> n < 32)" by simp linarith
  then show "bit (be32 (ucast (drop_bit 24 x)) (ucast (drop_bit 16 x)) (ucast (drop_bit 8 x)) (ucast x)) n
      = bit x n"
    by (elim disjE) (auto simp: be32_def bit_or_iff bit_push_bit_iff bit_unsigned_iff bit_drop_bit_eq)
qed

lemma be32_at_bytes32 [simp]:
  "be32_at (bytes32 x @ ys) 0 = x"
  "be32_at (bytes32 x @ bytes32 y @ ys) 4 = y"
  by (simp_all add: be32_at_def bytes32_def be32_bytes32)

lemma length_bytes [simp]: "length (bytes16 a) = 2" "length (bytes32 b) = 4"
  by (simp_all add: bytes16_def bytes32_def)

lemma le_10_cases:
  fixes k :: nat
  assumes "k \<le> 10"
  shows "k = 0 \<or> k = 1 \<or> k = 2 \<or> k = 3 \<or> k = 4 \<or> k = 5 \<or> k = 6 \<or> k = 7 \<or> k = 8 \<or> k = 9 \<or> k = 10"
  using assms by presburger

lemma data_off_doff:
  assumes "optlen \<le> 40" and "4 dvd optlen"
  shows "drop_bit 4 (data_off_of optlen) AND 0x0F = word_of_nat (5 + optlen div 4)"
proof -
  obtain k where k: "optlen = 4 * k" using assms(2) by (elim dvdE)
  with assms(1) have "k \<le> 10" by simp
  then show ?thesis by (auto simp: k data_off_of_def dest!: le_10_cases)
qed

lemma parse_written:
  assumes "length opts \<le> 40" and "4 dvd length opts"
  shows "tcp_options_parse (data_off_of (length opts)) (opts @ mem) = (0, opt_loop opts po_zero)"
proof -
  obtain k where k: "length opts = 4 * k" using assms(2) by (elim dvdE)
  with assms(1) have "k \<le> 10" by simp
  then have "\<not> (word_of_nat (5 + k) :: u8) < 5" "unat ((word_of_nat (5 + k) :: u8) - 5) = k"
    by (auto dest!: le_10_cases)
  then show ?thesis
    using data_off_doff [OF assms] by (simp add: tcp_options_parse_def k Let_def)
qed

subsection \<open>Round trips\<close>

lemma pad_nop_aligned: "length out mod 4 = 0 \<Longrightarrow> pad_nop out n = out"
  by (cases n) auto

lemma opt_loop_skip:
  "opt_loop (TCPOPT_NOP # p) out = opt_loop p out"
  by (simp add: tcpopt_defs)

lemma opt_loop_mss:
  "opt_loop (TCPOPT_MSS # 4 # bytes16 mss @ p) out = opt_loop p (out\<lparr>po_mss := mss, po_has_mss := True\<rparr>)"
  by (simp add: tcpopt_defs opt_apply_def bytes16_def be16_bytes16)

lemma opt_loop_sack_perm:
  "opt_loop (TCPOPT_SACK_PERM # 2 # p) out = opt_loop p (out\<lparr>po_has_sack_perm := True\<rparr>)"
  by (simp add: tcpopt_defs opt_apply_def)

lemma opt_loop_wscale:
  "opt_loop (TCPOPT_WINDOW_SCALE # 3 # ws # p) out =
     opt_loop p (out\<lparr>po_wscale := min ws 14, po_has_wscale := True\<rparr>)"
  by (simp add: tcpopt_defs opt_apply_def min_def not_less)

lemma opt_loop_timestamp:
  "opt_loop (TCPOPT_TIMESTAMP # 10 # bytes32 v @ bytes32 e @ p) out =
     opt_loop p (out\<lparr>po_ts_val := v, po_ts_ecr := e, po_has_timestamps := True\<rparr>)"
  by (simp add: tcpopt_defs opt_apply_def)

lemma opt_loop_timestamp_last:
  "opt_loop (TCPOPT_TIMESTAMP # 10 # bytes32 v @ bytes32 e) out =
     out\<lparr>po_ts_val := v, po_ts_ecr := e, po_has_timestamps := True\<rparr>"
  using opt_loop_timestamp [of v e "[]"] by (simp del: opt_loop.simps(2))

lemmas opt_loop_written = opt_loop_skip opt_loop_mss opt_loop_sack_perm opt_loop_wscale opt_loop_timestamp
  opt_loop_timestamp_last

lemma pad_nop_two:
  assumes "length out mod 4 = 2" and "2 \<le> n"
  shows "pad_nop out n = out @ [TCPOPT_NOP, TCPOPT_NOP]"
proof -
  obtain m where n: "n = Suc (Suc m)" using assms(2) by (metis add_2_eq_Suc le_Suc_ex)
  have "Suc (length out) mod 4 = 3" "Suc (Suc (length out)) mod 4 = 0"
    using assms(1) by presburger+
  then show ?thesis using assms(1) by (simp add: n pad_nop_aligned)
qed

text \<open>What a SYN's options are, written out.\<close>

lemma write_syn_bytes:
  assumes "20 \<le> bufsz"
  shows "tcp_options_write_syn bufsz mss ws sp ts v e =
     [TCPOPT_MSS, 4] @ bytes16 mss @ (if sp then [TCPOPT_SACK_PERM, 2] else []) @
     (if ts then [TCPOPT_TIMESTAMP, 10] @ bytes32 v @ bytes32 e else []) @
     [TCPOPT_NOP, TCPOPT_WINDOW_SCALE, 3, ws] @
     (if sp = ts then [] else [TCPOPT_NOP, TCPOPT_NOP])"
proof -
  obtain k where "bufsz = 20 + k" using assms le_Suc_ex by blast
  then show ?thesis
    by (cases sp; cases ts)
      (simp_all add: tcp_options_write_syn_def pad_nop_aligned pad_nop_two bytes16_def bytes32_def)
qed

lemma write_syn_length:
  assumes "20 \<le> bufsz"
  shows "length (tcp_options_write_syn bufsz mss ws sp ts v e) =
     (if ts then 20 else if sp then 12 else 8)"
  by (simp add: write_syn_bytes [OF assms])

text \<open>
  C38. The options of a SYN are read back by the parser as they were meant: MSS, window scale (at most
  14), SACK-permitted and timestamps, for every choice of flags and for whatever bytes follow; their
  length is a multiple of 4 and at most 20.
\<close>

theorem options_syn_roundtrip:
  assumes "20 \<le> bufsz"
  shows "let opts = tcp_options_write_syn bufsz mss ws sp ts v e in
    4 dvd length opts \<and> length opts \<le> 20 \<and>
    tcp_options_parse (data_off_of (length opts)) (opts @ payload) =
      (0, po_zero\<lparr>po_mss := mss, po_has_mss := True, po_has_sack_perm := sp,
            po_ts_val := (if ts then v else 0), po_ts_ecr := (if ts then e else 0),
            po_has_timestamps := ts, po_wscale := min ws 14, po_has_wscale := True\<rparr>)"
proof -
  define opts where "opts = tcp_options_write_syn bufsz mss ws sp ts v e"
  have len: "length opts = (if ts then 20 else if sp then 12 else 8)"
    unfolding opts_def by (rule write_syn_length [OF assms])
  then have "tcp_options_parse (data_off_of (length opts)) (opts @ payload) = (0, opt_loop opts po_zero)"
    by (intro parse_written) auto
  moreover have "opt_loop opts po_zero =
      po_zero\<lparr>po_mss := mss, po_has_mss := True, po_has_sack_perm := sp,
            po_ts_val := (if ts then v else 0), po_ts_ecr := (if ts then e else 0),
            po_has_timestamps := ts, po_wscale := min ws 14, po_has_wscale := True\<rparr>"
    unfolding opts_def write_syn_bytes [OF assms]
    by (cases sp; cases ts) (simp_all add: opt_loop_written po_zero_def del: opt_loop.simps(2))
  ultimately show ?thesis using len unfolding opts_def [symmetric] Let_def by auto
qed

theorem options_syn_roundtrip_witness:
  "let opts = tcp_options_write_syn 40 1460 7 True True 5 0 in
    4 dvd length opts \<and> length opts \<le> 20 \<and>
    tcp_options_parse (data_off_of (length opts)) (opts @ [1, 2, 3]) =
      (0, po_zero\<lparr>po_mss := 1460, po_has_mss := True, po_has_sack_perm := True,
            po_ts_val := (if True then 5 else 0), po_ts_ecr := (if True then 0 else 0),
            po_has_timestamps := True, po_wscale := min 7 14, po_has_wscale := True\<rparr>)"
  by (rule options_syn_roundtrip) simp

subsection \<open>Data segments\<close>

lemma sack_blocks_length:
  "length (concat (map (\<lambda>(l, r). bytes32 l @ bytes32 r) bs)) = 8 * length bs"
  by (induction bs) auto

lemma sack_loop_blocks:
  assumes "po_sack_count out + length bs \<le> 4" and "length (po_sack out) = 4"
  shows "sack_loop (length bs) (concat (map (\<lambda>(l, r). bytes32 l @ bytes32 r) bs) @ p) out =
     out\<lparr>po_sack := take (po_sack_count out) (po_sack out) @ bs @
            drop (po_sack_count out + length bs) (po_sack out),
         po_sack_count := po_sack_count out + length bs\<rparr>"
  using assms
proof (induction bs arbitrary: out)
  case (Cons b bs)
  obtain l r where b: "b = (l, r)" by force
  let ?c = "po_sack_count out"
  have c: "?c < 4" using Cons.prems by simp
  have "take (Suc ?c) ((po_sack out)[?c := (l, r)]) = take ?c (po_sack out) @ [(l, r)]"
    using Cons.prems c by (simp add: take_Suc_conv_app_nth)
  then show ?case
    using Cons.prems c by (simp add: b Cons.IH)
qed simp

lemma opt_loop_sack:
  assumes "0 < length bs" and "length bs \<le> 4" and "po_sack_count out = 0" and "length (po_sack out) = 4"
  shows "opt_loop (TCPOPT_SACK # word_of_nat (2 + length bs * 8) #
             concat (map (\<lambda>(l, r). bytes32 l @ bytes32 r) bs) @ p) out =
     opt_loop p (out\<lparr>po_sack := bs @ drop (length bs) (po_sack out), po_sack_count := length bs\<rparr>)"
proof -
  have u: "unat (word_of_nat (2 + length bs * 8) :: u8) = 2 + length bs * 8"
    using assms(2) by (subst unat_word_of_nat) auto
  have "opt_apply TCPOPT_SACK (2 + length bs * 8)
      (concat (map (\<lambda>(l, r). bytes32 l @ bytes32 r) bs) @ p) out =
      out\<lparr>po_sack := bs @ drop (length bs) (po_sack out), po_sack_count := length bs\<rparr>"
    using assms by (simp add: opt_apply_def tcpopt_defs sack_loop_blocks Suc_le_eq)
  then show ?thesis
    using u by (simp add: sack_blocks_length tcpopt_defs)
qed

lemma write_data_bytes:
  assumes "length bs = n" and "n \<le> 4" and "(if ts then 12 else 0) + (if 0 < n then 4 + 8 * n else 0) \<le> bufsz"
  shows "tcp_options_write_data bufsz ts v e bs n =
     (if ts then [TCPOPT_NOP, TCPOPT_NOP, TCPOPT_TIMESTAMP, 10] @ bytes32 v @ bytes32 e else []) @
     (if 0 < n then [TCPOPT_NOP, TCPOPT_NOP, TCPOPT_SACK, word_of_nat (2 + n * 8)] @
        concat (map (\<lambda>(l, r). bytes32 l @ bytes32 r) bs) else [])"
proof (cases "0 < n")
  case True
  have len: "length (concat (map (\<lambda>(l, r). bytes32 l @ bytes32 r) bs)) = 8 * n"
    using assms(1) by (simp add: sack_blocks_length)
  have "16 + 8 * n \<le> bufsz \<Longrightarrow> \<not> bufsz - 12 < 4 + 8 * n" by linarith
  moreover have "(16 + 8 * n) mod 4 = 0" "(4 + 8 * n) mod 4 = 0" by presburger+
  ultimately show ?thesis
    using assms True len
    by (cases ts) (auto simp: tcp_options_write_data_def pad_nop_aligned)
next
  case False
  then show ?thesis using assms
    by (cases ts) (auto simp: tcp_options_write_data_def pad_nop_aligned)
qed

text \<open>
  Timestamps and SACK blocks written into a data segment are read back unchanged whenever the
  options fit: always without timestamps, and up to three blocks with them.
\<close>

lemma options_data_roundtrip:
  assumes "length bs = n" and "n \<le> (if ts then 3 else 4)"
  shows "let opts = tcp_options_write_data 40 ts v e bs n in
    4 dvd length opts \<and> length opts \<le> 40 \<and>
    tcp_options_parse (data_off_of (length opts)) (opts @ payload) =
      (0, po_zero\<lparr>po_ts_val := (if ts then v else 0), po_ts_ecr := (if ts then e else 0),
            po_has_timestamps := ts, po_sack := bs @ replicate (4 - n) (0, 0), po_sack_count := n\<rparr>)"
proof -
  define opts where "opts = tcp_options_write_data 40 ts v e bs n"
  have n4: "n \<le> 4" using assms(2) by (auto split: if_splits)
  have opts: "opts = (if ts then [TCPOPT_NOP, TCPOPT_NOP, TCPOPT_TIMESTAMP, 10] @ bytes32 v @ bytes32 e else []) @
     (if 0 < n then [TCPOPT_NOP, TCPOPT_NOP, TCPOPT_SACK, word_of_nat (2 + n * 8)] @
        concat (map (\<lambda>(l, r). bytes32 l @ bytes32 r) bs) else [])"
    unfolding opts_def using assms n4 by (intro write_data_bytes) (auto split: if_splits)
  have len: "length opts = (if ts then 12 else 0) + (if 0 < n then 4 + 8 * n else 0)"
    using assms(1) by (simp add: opts sack_blocks_length)
  then have al: "4 dvd length opts" "length opts \<le> 40" using assms(2) by (auto split: if_splits)
  define sl where sl: "sl = (word_of_nat (2 + n * 8) :: u8)"
  have sack: "opt_loop (TCPOPT_SACK # sl #
             concat (map (\<lambda>(l, r). bytes32 l @ bytes32 r) bs)) out =
     out\<lparr>po_sack := bs @ drop n (po_sack out), po_sack_count := n\<rparr>"
    if "0 < n" "po_sack_count out = 0" "length (po_sack out) = 4" for out
    using opt_loop_sack [of bs out "[]"] that n4 assms(1) by (simp add: sl del: opt_loop.simps(2))
  have "opt_loop opts po_zero =
      po_zero\<lparr>po_ts_val := (if ts then v else 0), po_ts_ecr := (if ts then e else 0),
            po_has_timestamps := ts, po_sack := bs @ replicate (4 - n) (0, 0), po_sack_count := n\<rparr>"
    using assms(1) unfolding opts sl [symmetric]
    by (cases ts; cases "0 < n")
      (simp_all add: opt_loop_written sack po_zero_def del: opt_loop.simps(2))
  with parse_written [OF al(2,1)] al show ?thesis unfolding opts_def [symmetric] Let_def by simp
qed

lemma options_data_roundtrip_witness:
  "let opts = tcp_options_write_data 40 True 9 8 [(1, 2), (3, 4), (5, 6)] 3 in
    4 dvd length opts \<and> length opts \<le> 40 \<and>
    tcp_options_parse (data_off_of (length opts)) (opts @ [7]) =
      (0, po_zero\<lparr>po_ts_val := (if True then 9 else 0), po_ts_ecr := (if True then 8 else 0),
            po_has_timestamps := True, po_sack := [(1, 2), (3, 4), (5, 6)] @ replicate (4 - 3) (0, 0),
            po_sack_count := 3\<rparr>)"
  by (rule options_data_roundtrip) simp_all

text \<open>
  With timestamps, four SACK blocks need 48 bytes: the option is left out altogether rather than cut to
  the three blocks that fit.
\<close>

lemma options_data_four_blocks_dropped:
  assumes "length bs = 4"
  shows "tcp_options_write_data 40 True v e bs 4 =
    [TCPOPT_NOP, TCPOPT_NOP, TCPOPT_TIMESTAMP, 10] @ bytes32 v @ bytes32 e"
proof -
  have "length (concat (map (\<lambda>(l, r). bytes32 l @ bytes32 r) bs)) = 32"
    using assms by (simp add: sack_blocks_length)
  with assms show ?thesis
    by (auto simp: tcp_options_write_data_def pad_nop_aligned)
qed

subsection \<open>Robustness of the parser\<close>

definition opts_ok :: "tcp_parsed_opts \<Rightarrow> bool" where
  "opts_ok out \<longleftrightarrow> po_wscale out \<le> 14 \<and> po_sack_count out \<le> 4 \<and> length (po_sack out) = 4"

lemma sack_loop_ok: "opts_ok out \<Longrightarrow> opts_ok (sack_loop n v out)"
  by (induction n v out rule: sack_loop.induct) (auto simp: opts_ok_def)

lemma opt_apply_ok: "opts_ok out \<Longrightarrow> opts_ok (opt_apply kind len v out)"
  unfolding opt_apply_def
  by (auto simp: sack_loop_ok) (auto simp: opts_ok_def not_less)

lemma opt_loop_ok: "opts_ok out \<Longrightarrow> opts_ok (opt_loop p out)"
proof (induction p out rule: opt_loop.induct)
  case (2 kind p out)
  then show ?case by (auto split: list.splits simp: opt_apply_ok)
qed simp

text \<open>
  On any received bytes the parser ends with a window scale of at most 14 and at most four SACK
  blocks, all stored inside the four-element array; it reports an error exactly when the header length
  is below five words.
\<close>

lemma options_parse_robust:
  "(let (rc, out) = tcp_options_parse data_off mem in
    po_wscale out \<le> 14 \<and> po_sack_count out \<le> 4 \<and> length (po_sack out) = 4 \<and>
    (rc = -1 \<longleftrightarrow> drop_bit 4 data_off AND 0x0F < 5) \<and> rc \<in> {0, -1})"
proof -
  have z: "opts_ok po_zero" by (simp add: opts_ok_def po_zero_def)
  then have "opts_ok (opt_loop p po_zero)" for p by (rule opt_loop_ok)
  with z show ?thesis by (auto simp: tcp_options_parse_def Let_def opts_ok_def)
qed

end
