(* ===== verification/TcbTypes.thy ===== *)
theory TcbTypes
  imports SndBuf TcpOptions
begin

text \<open>
  The data of a worker's connections: the transmission control block of \<^verbatim>\<open>net/tcp_tcb.h\<close>, the TCB
  store, the timer wheel of \<^verbatim>\<open>net/tcp_timer.h\<close>, and the time-stamp counter they read.

  All of it is per worker, so the C globals \<^verbatim>\<open>g_tcb_stores[w]\<close> and \<^verbatim>\<open>g_timer_wheels[w]\<close> are
  fields of one record \<open>conn\<close>; a \<^verbatim>\<open>tcb_t *\<close> is the index of the block in the array \<open>tcbs\<close>.
  A larger state (the worker) extends this record, and every operation on connections is stated for all
  extensions.  \<^verbatim>\<open>rte_rdtsc()\<close> is an input: \<open>tsc_reads\<close> is the sequence of values it returns and
  \<open>tsc_pos\<close> the number of reads made so far.
\<close>

datatype tcp_state = TCP_CLOSED | TCP_LISTEN | TCP_SYN_SENT | TCP_SYN_RECEIVED | TCP_ESTABLISHED
  | TCP_FIN_WAIT_1 | TCP_FIN_WAIT_2 | TCP_CLOSE_WAIT | TCP_CLOSING | TCP_LAST_ACK | TCP_TIME_WAIT

text \<open>The C code compares states by their enumeration value.\<close>

fun tcp_state_nr :: "tcp_state \<Rightarrow> nat" where
  "tcp_state_nr TCP_CLOSED = 0"
| "tcp_state_nr TCP_LISTEN = 1"
| "tcp_state_nr TCP_SYN_SENT = 2"
| "tcp_state_nr TCP_SYN_RECEIVED = 3"
| "tcp_state_nr TCP_ESTABLISHED = 4"
| "tcp_state_nr TCP_FIN_WAIT_1 = 5"
| "tcp_state_nr TCP_FIN_WAIT_2 = 6"
| "tcp_state_nr TCP_CLOSE_WAIT = 7"
| "tcp_state_nr TCP_CLOSING = 8"
| "tcp_state_nr TCP_LAST_ACK = 9"
| "tcp_state_nr TCP_TIME_WAIT = 10"

lemma tcp_state_nr_inject: "tcp_state_nr a = tcp_state_nr b \<longleftrightarrow> a = b"
  by (cases a; cases b) simp_all

instantiation tcp_state :: linorder
begin

definition less_eq_tcp_state :: "tcp_state \<Rightarrow> tcp_state \<Rightarrow> bool" where
  "less_eq_tcp_state a b \<longleftrightarrow> tcp_state_nr a \<le> tcp_state_nr b"

definition less_tcp_state :: "tcp_state \<Rightarrow> tcp_state \<Rightarrow> bool" where
  "less_tcp_state a b \<longleftrightarrow> tcp_state_nr a < tcp_state_nr b"

instance
  by standard (auto simp: less_eq_tcp_state_def less_tcp_state_def tcp_state_nr_inject)

end

record tcb =
  src_ip :: u32
  dst_ip :: u32
  src_port :: u16
  dst_port :: u16
  ip_version :: u8
  src_ip6 :: bytes
  dst_ip6 :: bytes
  snd_una :: u32
  snd_nxt :: u32
  snd_wnd :: u32
  rcv_nxt :: u32
  rcv_wnd :: u32
  cwnd :: u32
  ssthresh :: u32
  dup_ack_count :: u8
  in_fast_recovery :: bool
  rto_deadline_tsc :: u64
  srtt_us :: u32
  rttvar_us :: u32
  rto_us :: u32
  retransmit_count :: u8
  ts_val :: u32
  ts_ecr :: u32
  wscale_local :: u8
  wscale_remote :: u8
  sack_enabled :: bool
  ts_enabled :: bool
  nagle_enabled :: bool
  mss_local :: u16
  mss_remote :: u16
  state :: tcp_state
  lcore_id :: u8
  port_id :: u16
  active_open :: bool
  dst_mac :: bytes
  dst_mac_valid :: bool
  ooo_count :: u8
  sack_blocks :: "sack_block list"
  sack_block_count :: nat
  delayed_ack_tsc :: u64
  pending_ack :: bool
  pending_ack_seq :: u32
  timewait_deadline_tsc :: u64
  app_state :: u64
  app_ctx :: nat
  tls_hs_start_tsc :: u64
  http_req_sent_tsc :: u64
  http_content_length :: u32
  http_body_rx :: u32
  http_txn_count :: u32
  think_deadline_tsc :: u64
  srv_stream_total :: u32
  srv_stream_sent :: u32
  graceful_close :: bool
  dscp :: u8
  vlan_id :: u16
  cc_algo :: u8
  cubic_wmax :: u32
  cubic_epoch_start :: u64
  cubic_origin_point :: u32
  cubic_k_us :: u32
  snd_buf :: "tcp_snd_buf option"
  tw_next :: nat
  tw_prev :: nat
  tw_slot :: nat
  dack_next :: nat
  in_dack_list :: bool
  in_use :: bool

text \<open>A block after \<^verbatim>\<open>memset(tcb, 0, sizeof(*tcb))\<close>.\<close>

definition tcb_zero :: tcb where
  "tcb_zero = \<lparr>src_ip = 0, dst_ip = 0, src_port = 0, dst_port = 0, ip_version = 0,
     src_ip6 = replicate 16 0, dst_ip6 = replicate 16 0, snd_una = 0, snd_nxt = 0, snd_wnd = 0,
     rcv_nxt = 0, rcv_wnd = 0, cwnd = 0, ssthresh = 0, dup_ack_count = 0, in_fast_recovery = False,
     rto_deadline_tsc = 0, srtt_us = 0, rttvar_us = 0, rto_us = 0, retransmit_count = 0, ts_val = 0,
     ts_ecr = 0, wscale_local = 0, wscale_remote = 0, sack_enabled = False, ts_enabled = False,
     nagle_enabled = False, mss_local = 0, mss_remote = 0, state = TCP_CLOSED, lcore_id = 0,
     port_id = 0, active_open = False, dst_mac = replicate 6 0, dst_mac_valid = False, ooo_count = 0,
     sack_blocks = replicate 4 (0, 0), sack_block_count = 0, delayed_ack_tsc = 0, pending_ack = False,
     pending_ack_seq = 0, timewait_deadline_tsc = 0, app_state = 0, app_ctx = 0, tls_hs_start_tsc = 0,
     http_req_sent_tsc = 0, http_content_length = 0, http_body_rx = 0, http_txn_count = 0,
     think_deadline_tsc = 0, srv_stream_total = 0, srv_stream_sent = 0, graceful_close = False,
     dscp = 0, vlan_id = 0, cc_algo = 0, cubic_wmax = 0, cubic_epoch_start = 0,
     cubic_origin_point = 0, cubic_k_us = 0, snd_buf = None, tw_next = 0, tw_prev = 0, tw_slot = 0,
     dack_next = 0, in_dack_list = False, in_use = False\<rparr>"

text \<open>
  The store: \<open>ht\<close> is the open-addressing hash table (-1 empty, -2 tombstone, otherwise a block's
  index) and the first \<open>free_top\<close> entries of \<open>free_stack\<close> are the free blocks.
\<close>

record tcb_store =
  tcbs :: "tcb list"
  capacity :: nat
  count :: u32
  ht :: "int list"
  ht_size :: nat
  ht_mask :: nat
  free_stack :: "nat list"
  free_top :: nat

record conn = tcb_store +
  tw_slots :: "nat list"
  tw_overflow :: nat
  tw_current :: nat
  tw_last_tick_tsc :: u64
  tw_tsc_per_slot :: u64
  tw_dack_head :: nat
  tsc_hz :: u64
  tsc_reads :: "nat \<Rightarrow> u64"
  tsc_pos :: nat

definition tcb_at :: "'a tcb_store_scheme \<Rightarrow> nat \<Rightarrow> tcb" where
  "tcb_at st i = tcbs st ! i"

definition upd_tcb :: "nat \<Rightarrow> (tcb \<Rightarrow> tcb) \<Rightarrow> 'a tcb_store_scheme \<Rightarrow> 'a tcb_store_scheme" where
  "upd_tcb i f st = st\<lparr>tcbs := (tcbs st)[i := f (tcbs st ! i)]\<rparr>"

definition rdtsc :: "'a conn_scheme \<Rightarrow> u64 \<times> 'a conn_scheme" where
  "rdtsc st = (tsc_reads st (tsc_pos st), st\<lparr>tsc_pos := tsc_pos st + 1\<rparr>)"

subsection \<open>Reading and updating blocks\<close>

lemma tcb_at_upd [simp]:
  "i < length (tcbs st) \<Longrightarrow> tcb_at (upd_tcb i f st) i = f (tcb_at st i)"
  "i \<noteq> j \<Longrightarrow> tcb_at (upd_tcb i f st) j = tcb_at st j"
  by (simp_all add: tcb_at_def upd_tcb_def)

lemma tcb_at_upd_if:
  "i < length (tcbs st) \<Longrightarrow> tcb_at (upd_tcb i f st) j = (if j = i then f (tcb_at st i) else tcb_at st j)"
  by simp

lemma upd_tcb_frame [frame_simps, simp]:
  "capacity (upd_tcb i f st) = capacity st" "count (upd_tcb i f st) = count st"
  "ht (upd_tcb i f st) = ht st" "ht_size (upd_tcb i f st) = ht_size st"
  "ht_mask (upd_tcb i f st) = ht_mask st"
  "free_stack (upd_tcb i f st) = free_stack st" "free_top (upd_tcb i f st) = free_top st"
  "tcb_store.more (upd_tcb i f st) = tcb_store.more st"
  "length (tcbs (upd_tcb i f st)) = length (tcbs st)"
  by (simp_all add: upd_tcb_def)

lemma upd_tcb_frame_conn [frame_simps, simp]:
  "tw_slots (upd_tcb i f st) = tw_slots st" "tw_overflow (upd_tcb i f st) = tw_overflow st"
  "tw_current (upd_tcb i f st) = tw_current st" "tw_last_tick_tsc (upd_tcb i f st) = tw_last_tick_tsc st"
  "tw_tsc_per_slot (upd_tcb i f st) = tw_tsc_per_slot st" "tw_dack_head (upd_tcb i f st) = tw_dack_head st"
  "tsc_hz (upd_tcb i f st) = tsc_hz st" "tsc_reads (upd_tcb i f st) = tsc_reads st"
  "tsc_pos (upd_tcb i f st) = tsc_pos st"
  by (simp_all add: upd_tcb_def)

lemma tcbs_upd_tcb: "tcbs (upd_tcb i f st) = (tcbs st)[i := f (tcbs st ! i)]"
  by (simp add: upd_tcb_def)

lemma tcb_zero_simps [simp]:
  "in_use tcb_zero = False" "state tcb_zero = TCP_CLOSED" "tw_slot tcb_zero = 0" "tw_next tcb_zero = 0"
  "tw_prev tcb_zero = 0" "snd_buf tcb_zero = None" "app_state tcb_zero = 0" "snd_nxt tcb_zero = 0"
  "rcv_nxt tcb_zero = 0" "in_dack_list tcb_zero = False" "dack_next tcb_zero = 0"
  by (simp_all add: tcb_zero_def)

end
