(* ===== verification/TimerWheel.thy ===== *)
theory TimerWheel
  imports TcbTypes
begin

text \<open>
  The timer wheel of \<^verbatim>\<open>net/tcp_timer.c\<close>, less the firing of timers: 4096 slots of doubly linked
  chains of TCBs threaded through the blocks themselves, and an overflow chain, addressed here as slot
  4096 like in the code.  \<open>wheel_ok st cs\<close> says that the pointers represent the family of chains
  \<open>cs\<close>; every operation is shown to implement its effect on the chains.
\<close>

definition TIMER_WHEEL_BITS :: nat where "TIMER_WHEEL_BITS = 12"
definition TIMER_WHEEL_SLOTS :: nat where "TIMER_WHEEL_SLOTS = 4096"
definition TIMER_WHEEL_MASK :: nat where "TIMER_WHEEL_MASK = 4095"
definition TIMER_SLOT_NONE :: nat where "TIMER_SLOT_NONE = UINT32_MAX"

definition TCP_HTTP_RSP_TIMEOUT_US :: u64 where "TCP_HTTP_RSP_TIMEOUT_US = 5000000"
definition TCP_TLS_HS_TIMEOUT_S :: u64 where "TCP_TLS_HS_TIMEOUT_S = 5"

lemmas timer_consts = TIMER_WHEEL_BITS_def TIMER_WHEEL_SLOTS_def TIMER_WHEEL_MASK_def TIMER_SLOT_NONE_def

definition wheel_head :: "'a conn_scheme \<Rightarrow> nat \<Rightarrow> nat" where
  "wheel_head st slot = (if slot = TIMER_WHEEL_SLOTS then tw_overflow st else tw_slots st ! slot)"

definition set_wheel_head :: "nat \<Rightarrow> nat \<Rightarrow> 'a conn_scheme \<Rightarrow> 'a conn_scheme" where
  "set_wheel_head slot v st =
     (if slot = TIMER_WHEEL_SLOTS then st\<lparr>tw_overflow := v\<rparr>
      else st\<lparr>tw_slots := (tw_slots st)[slot := v]\<rparr>)"

definition wheel_remove :: "nat \<Rightarrow> 'a conn_scheme \<Rightarrow> 'a conn_scheme" where
  "wheel_remove i st =
     (let tcb = tcb_at st i; slot = tw_slot tcb
      in if slot = TIMER_SLOT_NONE then st
         else
           let st = (if tw_prev tcb = UINT32_MAX then set_wheel_head slot (tw_next tcb) st
                     else upd_tcb (tw_prev tcb) (\<lambda>t. t\<lparr>tw_next := tw_next tcb\<rparr>) st);
               st = (if tw_next tcb \<noteq> UINT32_MAX
                     then upd_tcb (tw_next tcb) (\<lambda>t. t\<lparr>tw_prev := tw_prev tcb\<rparr>) st else st)
           in upd_tcb i (\<lambda>t. t\<lparr>tw_slot := TIMER_SLOT_NONE, tw_next := UINT32_MAX, tw_prev := UINT32_MAX\<rparr>) st)"

definition wheel_insert_slot :: "nat \<Rightarrow> nat \<Rightarrow> 'a conn_scheme \<Rightarrow> 'a conn_scheme" where
  "wheel_insert_slot i slot st =
     (let head = wheel_head st slot;
          st = upd_tcb i (\<lambda>t. t\<lparr>tw_prev := UINT32_MAX, tw_next := head\<rparr>) st;
          st = (if head \<noteq> UINT32_MAX then upd_tcb head (\<lambda>t. t\<lparr>tw_prev := i\<rparr>) st else st);
          st = set_wheel_head slot i st
      in upd_tcb i (\<lambda>t. t\<lparr>tw_slot := slot\<rparr>) st)"

text \<open>
  The earliest deadline of a block; the last case reads the clock, so the state is threaded through.
\<close>

definition min_deadline :: "u64 \<Rightarrow> u64 \<Rightarrow> u64" where
  "min_deadline dl earliest = (if dl \<noteq> 0 \<and> dl < earliest then dl else earliest)"

definition tcb_earliest_deadline :: "nat \<Rightarrow> 'a conn_scheme \<Rightarrow> u64 \<times> 'a conn_scheme" where
  "tcb_earliest_deadline i st =
     (let tcb = tcb_at st i;
          e = U64_MAX;
          e = min_deadline (rto_deadline_tsc tcb) e;
          e = min_deadline (timewait_deadline_tsc tcb) e;
          e = min_deadline (think_deadline_tsc tcb) e;
          e = (if http_req_sent_tsc tcb \<noteq> 0 \<and> http_req_sent_tsc tcb < e
               then min e (http_req_sent_tsc tcb + TCP_HTTP_RSP_TIMEOUT_US * (tsc_hz st div 1000000))
               else e);
          e = (if state tcb = TCP_ESTABLISHED \<and> (app_state tcb = 1 \<or> app_state tcb = 2) \<and>
                  timewait_deadline_tsc tcb \<noteq> 0
               then min e (timewait_deadline_tsc tcb + TCP_TLS_HS_TIMEOUT_S * tsc_hz st)
               else e)
      in if state tcb = TCP_ESTABLISHED \<and> app_state tcb = 12
         then let (now, st) = rdtsc st in (if now < e then now else e, st)
         else (e, st))"

text \<open>
  \<^verbatim>\<open>tcp_timer_init\<close> for one worker.
\<close>

definition tcp_timer_init :: "'a conn_scheme \<Rightarrow> 'a conn_scheme" where
  "tcp_timer_init st =
     (let (now, st) = rdtsc st
      in st\<lparr>tw_slots := replicate TIMER_WHEEL_SLOTS UINT32_MAX, tw_overflow := UINT32_MAX,
            tw_dack_head := UINT32_MAX, tw_current := 0, tw_tsc_per_slot := tsc_hz st div 1000,
            tw_last_tick_tsc := now\<rparr>)"

text \<open>
  The slot a deadline falls into: 4096 is the overflow chain.  The width of a slot is not zero: it is a thousandth of the clock's
  frequency, which \<open>env_ok\<close> asks to be at least 1 MHz; the division of a narrower clock is not followed here.
\<close>

definition target_slot :: "u64 \<Rightarrow> u64 \<Rightarrow> u64 \<Rightarrow> nat \<Rightarrow> nat" where
  "target_slot deadline now tsc_per_slot current =
     (let delta_tsc = (if deadline > now then deadline - now else 0);
          slots_ahead = unat (ucast (delta_tsc div tsc_per_slot) :: u32)
      in if slots_ahead \<ge> TIMER_WHEEL_SLOTS then TIMER_WHEEL_SLOTS
         else (current + slots_ahead) AND TIMER_WHEEL_MASK)"

definition tcp_timer_schedule :: "nat \<Rightarrow> u64 \<Rightarrow> 'a conn_scheme \<Rightarrow> 'a conn_scheme" where
  "tcp_timer_schedule i deadline_tsc st =
     (let st = (if tw_slot (tcb_at st i) \<noteq> TIMER_SLOT_NONE then wheel_remove i st else st);
          (now, st) = rdtsc st
      in wheel_insert_slot i (target_slot deadline_tsc now (tw_tsc_per_slot st) (tw_current st)) st)"

definition tcp_timer_cancel :: "nat \<Rightarrow> 'a conn_scheme \<Rightarrow> 'a conn_scheme" where
  "tcp_timer_cancel i st = wheel_remove i st"

definition tcp_timer_resched :: "nat \<Rightarrow> 'a conn_scheme \<Rightarrow> 'a conn_scheme" where
  "tcp_timer_resched i st =
     (let (dl, st) = tcb_earliest_deadline i st
      in if dl = U64_MAX
         then (if tw_slot (tcb_at st i) \<noteq> TIMER_SLOT_NONE then wheel_remove i st else st)
         else tcp_timer_schedule i dl st)"

definition tcp_timer_dack_add :: "nat \<Rightarrow> 'a conn_scheme \<Rightarrow> 'a conn_scheme" where
  "tcp_timer_dack_add i st =
     (if in_dack_list (tcb_at st i) then st
      else (upd_tcb i (\<lambda>t. t\<lparr>dack_next := tw_dack_head st, in_dack_list := True\<rparr>) st)
             \<lparr>tw_dack_head := i\<rparr>)"

subsection \<open>Chains\<close>

text \<open>The blocks' links from a head, with the expected back link of the first element.\<close>

fun dll :: "tcb list \<Rightarrow> nat \<Rightarrow> nat \<Rightarrow> nat list \<Rightarrow> bool" where
  "dll ts prev h [] \<longleftrightarrow> h = UINT32_MAX"
| "dll ts prev h (x # xs) \<longleftrightarrow>
     h = x \<and> x < length ts \<and> tw_prev (ts ! x) = prev \<and> dll ts x (tw_next (ts ! x)) xs"

text \<open>
  \<open>wheel_ok st cs\<close>: the wheel's pointers represent the chains \<open>cs\<close>, each block of a chain is live
  and knows its slot, and each live block that claims a slot is in that slot's chain.
\<close>

definition wheel_ok :: "'a conn_scheme \<Rightarrow> (nat \<Rightarrow> nat list) \<Rightarrow> bool" where
  "wheel_ok st cs \<longleftrightarrow>
     length (tw_slots st) = TIMER_WHEEL_SLOTS \<and> length (tcbs st) < UINT32_MAX \<and>
     (\<forall>s\<le>TIMER_WHEEL_SLOTS. dll (tcbs st) UINT32_MAX (wheel_head st s) (cs s) \<and> distinct (cs s) \<and>
        (\<forall>x\<in>set (cs s). in_use (tcb_at st x) \<and> tw_slot (tcb_at st x) = s)) \<and>
     (\<forall>x<length (tcbs st). in_use (tcb_at st x) \<and> tw_slot (tcb_at st x) \<noteq> TIMER_SLOT_NONE \<longrightarrow>
        tw_slot (tcb_at st x) \<le> TIMER_WHEEL_SLOTS \<and> x \<in> set (cs (tw_slot (tcb_at st x))))"

lemma dll_lt: "dll ts p h xs \<Longrightarrow> x \<in> set xs \<Longrightarrow> x < length ts"
  by (induction xs arbitrary: p h) auto

text \<open>Links of blocks outside the chain do not matter, nor do other fields.\<close>

lemma dll_cong:
  assumes "dll ts p h xs" "length ts' = length ts"
    "\<And>x. x \<in> set xs \<Longrightarrow> tw_next (ts' ! x) = tw_next (ts ! x) \<and> tw_prev (ts' ! x) = tw_prev (ts ! x)"
  shows "dll ts' p h xs"
  using assms by (induction xs arbitrary: p h) auto

lemma dll_next_mem:
  "dll ts p h xs \<Longrightarrow> i \<in> set xs \<Longrightarrow> tw_next (ts ! i) = UINT32_MAX \<or> tw_next (ts ! i) \<in> set xs"
proof (induction xs arbitrary: p h)
  case (Cons x xs)
  then show ?case by (cases xs) auto
qed simp

lemma dll_prev_mem:
  "dll ts p h xs \<Longrightarrow> i \<in> set xs \<Longrightarrow> tw_prev (ts ! i) = p \<or> tw_prev (ts ! i) \<in> set xs"
  by (induction xs arbitrary: p h) auto

lemma dll_irrefl:
  assumes "dll ts p h xs" "i \<in> set xs" "distinct xs" "p \<notin> set xs" "length ts < UINT32_MAX"
  shows "tw_prev (ts ! i) \<noteq> i \<and> tw_next (ts ! i) \<noteq> i"
  using assms
proof (induction xs arbitrary: p h)
  case (Cons x xs)
  then show ?case by (cases xs) auto
qed simp

text \<open>Changing only the back link of the first element.\<close>

lemma dll_set_prev:
  assumes "dll ts p h xs" "distinct xs" "length ts' = length ts"
    "\<And>x. x \<in> set xs \<Longrightarrow> tw_next (ts' ! x) = tw_next (ts ! x)"
    "\<And>x. x \<in> set xs \<Longrightarrow> tw_prev (ts' ! x) = (if x = h then q else tw_prev (ts ! x))"
  shows "dll ts' q h xs"
proof (cases xs)
  case Nil
  then show ?thesis using assms(1) by simp
next
  case (Cons x ys)
  with assms have "dll ts x (tw_next (ts ! x)) ys" "h = x" "x \<notin> set ys" "x < length ts" by auto
  have "tw_next (ts' ! y) = tw_next (ts ! y) \<and> tw_prev (ts' ! y) = tw_prev (ts ! y)" if "y \<in> set ys" for y
    using assms(4,5) [of y] that Cons \<open>h = x\<close> \<open>x \<notin> set ys\<close> by (auto split: if_splits)
  with \<open>dll ts x (tw_next (ts ! x)) ys\<close> assms(3) have "dll ts' x (tw_next (ts ! x)) ys"
    by (rule dll_cong)
  then show ?thesis using assms(3) assms(4,5) [of x] Cons \<open>h = x\<close> \<open>x < length ts\<close> by simp
qed

text \<open>Unlinking an element: its neighbours are joined.\<close>

lemma dll_unlink:
  assumes d: "dll ts p h xs" "distinct xs" "i \<in> set xs" "length ts' = length ts"
    and p: "p \<notin> set xs" and len: "length ts < UINT32_MAX"
    and nx: "\<And>x. x \<in> set xs \<Longrightarrow> x \<noteq> i \<Longrightarrow> x \<noteq> tw_prev (ts ! i) \<Longrightarrow> tw_next (ts' ! x) = tw_next (ts ! x)"
    and nx': "tw_prev (ts ! i) \<in> set xs \<Longrightarrow> tw_next (ts' ! (tw_prev (ts ! i))) = tw_next (ts ! i)"
    and pv: "\<And>x. x \<in> set xs \<Longrightarrow> x \<noteq> i \<Longrightarrow> x \<noteq> tw_next (ts ! i) \<Longrightarrow> tw_prev (ts' ! x) = tw_prev (ts ! x)"
    and pv': "tw_next (ts ! i) \<in> set xs \<Longrightarrow> tw_prev (ts' ! (tw_next (ts ! i))) = tw_prev (ts ! i)"
  shows "dll ts' p (if h = i then tw_next (ts ! i) else h) (remove1 i xs) \<and>
         (h = i \<longleftrightarrow> tw_prev (ts ! i) = p) \<and> (tw_prev (ts ! i) = p \<or> tw_prev (ts ! i) \<in> set xs)"
  using assms
proof (induction xs arbitrary: p h)
  case (Cons x xs)
  from Cons.prems have hx: "h = x" "x < length ts" "tw_prev (ts ! x) = p" "dll ts x (tw_next (ts ! x)) xs"
    "x \<notin> set xs" "distinct xs" by auto
  show ?case
  proof (cases "x = i")
    case True
    have "dll ts' p (tw_next (ts ! i)) xs"
    proof (rule dll_set_prev [where ts = ts and p = i])
      fix y assume y: "y \<in> set xs"
      have "y \<noteq> i" "y \<noteq> tw_prev (ts ! i)" using y hx True Cons.prems(5) by auto
      with y Cons.prems show "tw_next (ts' ! y) = tw_next (ts ! y)" by auto
      show "tw_prev (ts' ! y) = (if y = tw_next (ts ! i) then p else tw_prev (ts ! y))"
        using y \<open>y \<noteq> i\<close> Cons.prems hx True by auto
    qed (use hx True Cons.prems in auto)
    then show ?thesis using hx True by simp
  next
    case False
    then have i: "i \<in> set xs" using Cons.prems by auto
    have IH: "dll ts' x (if tw_next (ts ! x) = i then tw_next (ts ! i) else tw_next (ts ! x)) (remove1 i xs) \<and>
       (tw_next (ts ! x) = i \<longleftrightarrow> tw_prev (ts ! i) = x) \<and> (tw_prev (ts ! i) = x \<or> tw_prev (ts ! i) \<in> set xs)"
      by (rule Cons.IH) (use hx i Cons.prems in auto)
    have nxt: "tw_next (ts' ! x) = (if tw_next (ts ! x) = i then tw_next (ts ! i) else tw_next (ts ! x))"
      using IH Cons.prems False by auto
    have "tw_next (ts ! i) \<noteq> x"
      using dll_next_mem [OF hx(4) i] hx(2,5) Cons.prems(6) by auto
    then have "tw_prev (ts' ! x) = p" using Cons.prems False hx by auto
    with IH nxt hx False Cons.prems show ?thesis by auto
  qed
qed simp

subsection \<open>Frames\<close>

text \<open>A block without its wheel links: what the wheel operations never change.\<close>

definition tcb_core :: "tcb \<Rightarrow> tcb" where
  "tcb_core t = t\<lparr>tw_next := 0, tw_prev := 0, tw_slot := 0\<rparr>"

lemma tcb_core_simps [simp]:
  "tcb_core (t\<lparr>tw_next := a\<rparr>) = tcb_core t" "tcb_core (t\<lparr>tw_prev := b\<rparr>) = tcb_core t"
  "tcb_core (t\<lparr>tw_slot := c\<rparr>) = tcb_core t"
  by (simp_all add: tcb_core_def)

lemma map_core_upd [simp]:
  assumes "\<And>t. tcb_core (f t) = tcb_core t"
  shows "map tcb_core (tcbs (upd_tcb i f st)) = map tcb_core (tcbs st)"
  by (cases "i < length (tcbs st)")
    (auto simp: tcbs_upd_tcb list_eq_iff_nth_eq nth_list_update assms)

lemma set_wheel_head_frame [simp]:
  "tcbs (set_wheel_head s v st) = tcbs st" "tcb_at (set_wheel_head s v st) = tcb_at st"
  "capacity (set_wheel_head s v st) = capacity st" "count (set_wheel_head s v st) = count st"
  "ht (set_wheel_head s v st) = ht st" "ht_size (set_wheel_head s v st) = ht_size st"
  "ht_mask (set_wheel_head s v st) = ht_mask st"
  "free_stack (set_wheel_head s v st) = free_stack st" "free_top (set_wheel_head s v st) = free_top st"
  "tw_current (set_wheel_head s v st) = tw_current st"
  "tw_last_tick_tsc (set_wheel_head s v st) = tw_last_tick_tsc st"
  "tw_tsc_per_slot (set_wheel_head s v st) = tw_tsc_per_slot st"
  "tw_dack_head (set_wheel_head s v st) = tw_dack_head st"
  "tsc_hz (set_wheel_head s v st) = tsc_hz st" "tsc_pos (set_wheel_head s v st) = tsc_pos st"
  "tsc_reads (set_wheel_head s v st) = tsc_reads st" "conn.more (set_wheel_head s v st) = conn.more st"
  "length (tw_slots (set_wheel_head s v st)) = length (tw_slots st)"
  by (auto simp: set_wheel_head_def tcb_at_def fun_eq_iff)

lemma wheel_head_set:
  assumes "length (tw_slots st) = TIMER_WHEEL_SLOTS" "s \<le> TIMER_WHEEL_SLOTS" "r \<le> TIMER_WHEEL_SLOTS"
  shows "wheel_head (set_wheel_head s v st) r = (if r = s then v else wheel_head st r)"
  using assms by (auto simp: wheel_head_def set_wheel_head_def)

lemma wheel_head_upd_tcb [simp]: "wheel_head (upd_tcb i f st) r = wheel_head st r"
  by (simp add: wheel_head_def)

text \<open>The part of the state that the wheel operations leave alone.\<close>

definition wheel_frame :: "'a conn_scheme \<Rightarrow> 'a conn_scheme \<Rightarrow> bool" where
  "wheel_frame st st' \<longleftrightarrow>
     map tcb_core (tcbs st') = map tcb_core (tcbs st) \<and> capacity st' = capacity st \<and>
     count st' = count st \<and> ht st' = ht st \<and> ht_size st' = ht_size st \<and> ht_mask st' = ht_mask st \<and>
     free_stack st' = free_stack st \<and> free_top st' = free_top st \<and> tw_current st' = tw_current st \<and>
     tw_last_tick_tsc st' = tw_last_tick_tsc st \<and> tw_tsc_per_slot st' = tw_tsc_per_slot st \<and>
     tw_dack_head st' = tw_dack_head st \<and> tsc_hz st' = tsc_hz st \<and> tsc_reads st' = tsc_reads st \<and>
     conn.more st' = conn.more st"

lemma wheel_frame_refl [simp]: "wheel_frame st st"
  by (simp add: wheel_frame_def)

lemma wheel_frame_trans: "wheel_frame a b \<Longrightarrow> wheel_frame b c \<Longrightarrow> wheel_frame a c"
  by (simp add: wheel_frame_def)

lemma wheel_frame_upd_tcb:
  "(\<And>t. tcb_core (f t) = tcb_core t) \<Longrightarrow> wheel_frame st (upd_tcb i f st)"
  by (simp add: wheel_frame_def upd_tcb_def map_core_upd [unfolded upd_tcb_def, simplified])

lemma wheel_frame_set_head: "wheel_frame st (set_wheel_head s v st)"
  by (simp add: wheel_frame_def)

lemma wheel_frame_rdtsc: "wheel_frame st (snd (rdtsc st))"
  by (simp add: wheel_frame_def rdtsc_def)

lemma wheel_remove_frame: "wheel_frame st (wheel_remove i st)"
  unfolding wheel_remove_def Let_def
  by (auto intro!: wheel_frame_trans [OF _ wheel_frame_upd_tcb] wheel_frame_set_head wheel_frame_upd_tcb
      split: if_splits)

lemma wheel_insert_frame: "wheel_frame st (wheel_insert_slot i s st)"
  unfolding wheel_insert_slot_def Let_def
  by (auto intro!: wheel_frame_trans [OF _ wheel_frame_upd_tcb] wheel_frame_trans [OF _ wheel_frame_set_head]
      wheel_frame_upd_tcb split: if_splits)

subsection \<open>The operations on chains\<close>

lemma wheel_okD:
  assumes "wheel_ok st cs"
  shows "length (tw_slots st) = TIMER_WHEEL_SLOTS" "length (tcbs st) < UINT32_MAX"
    "s \<le> TIMER_WHEEL_SLOTS \<Longrightarrow> dll (tcbs st) UINT32_MAX (wheel_head st s) (cs s)"
    "s \<le> TIMER_WHEEL_SLOTS \<Longrightarrow> distinct (cs s)"
    "s \<le> TIMER_WHEEL_SLOTS \<Longrightarrow> x \<in> set (cs s) \<Longrightarrow> in_use (tcb_at st x) \<and> tw_slot (tcb_at st x) = s"
    "s \<le> TIMER_WHEEL_SLOTS \<Longrightarrow> x \<in> set (cs s) \<Longrightarrow> x < length (tcbs st)"
    "x < length (tcbs st) \<Longrightarrow> in_use (tcb_at st x) \<Longrightarrow> tw_slot (tcb_at st x) \<noteq> TIMER_SLOT_NONE \<Longrightarrow>
       tw_slot (tcb_at st x) \<le> TIMER_WHEEL_SLOTS \<and> x \<in> set (cs (tw_slot (tcb_at st x)))"
  using assms by (auto simp: wheel_ok_def intro: dll_lt)

lemma wheel_okI:
  assumes "length (tw_slots st) = TIMER_WHEEL_SLOTS" "length (tcbs st) < UINT32_MAX"
    "\<And>s. s \<le> TIMER_WHEEL_SLOTS \<Longrightarrow> dll (tcbs st) UINT32_MAX (wheel_head st s) (cs s)"
    "\<And>s. s \<le> TIMER_WHEEL_SLOTS \<Longrightarrow> distinct (cs s)"
    "\<And>s x. s \<le> TIMER_WHEEL_SLOTS \<Longrightarrow> x \<in> set (cs s) \<Longrightarrow> in_use (tcb_at st x) \<and> tw_slot (tcb_at st x) = s"
    "\<And>x. x < length (tcbs st) \<Longrightarrow> in_use (tcb_at st x) \<Longrightarrow> tw_slot (tcb_at st x) \<noteq> TIMER_SLOT_NONE \<Longrightarrow>
       tw_slot (tcb_at st x) \<le> TIMER_WHEEL_SLOTS \<and> x \<in> set (cs (tw_slot (tcb_at st x)))"
  shows "wheel_ok st cs"
  using assms unfolding wheel_ok_def by blast

text \<open>Only the links, the slots, the liveness flags and the heads matter.\<close>

lemma wheel_ok_cong:
  assumes ok: "wheel_ok st cs" and len: "length (tcbs st') = length (tcbs st)"
    and f: "\<And>x. x < length (tcbs st) \<Longrightarrow>
        tw_next (tcb_at st' x) = tw_next (tcb_at st x) \<and> tw_prev (tcb_at st' x) = tw_prev (tcb_at st x) \<and>
        tw_slot (tcb_at st' x) = tw_slot (tcb_at st x) \<and> in_use (tcb_at st' x) = in_use (tcb_at st x)"
    and h: "tw_slots st' = tw_slots st" "tw_overflow st' = tw_overflow st"
  shows "wheel_ok st' cs"
proof (rule wheel_okI)
  fix s assume s: "s \<le> TIMER_WHEEL_SLOTS"
  have "wheel_head st' s = wheel_head st s" using h by (simp add: wheel_head_def)
  moreover have "tw_next (tcbs st' ! x) = tw_next (tcbs st ! x) \<and> tw_prev (tcbs st' ! x) = tw_prev (tcbs st ! x)"
    if "x \<in> set (cs s)" for x
    using f [OF wheel_okD(6) [OF ok s that]] by (simp add: tcb_at_def)
  ultimately show "dll (tcbs st') UINT32_MAX (wheel_head st' s) (cs s)"
    using dll_cong [OF wheel_okD(3) [OF ok s] len] by simp
  show "distinct (cs s)" using ok s by (rule wheel_okD(4))
  fix x assume x: "x \<in> set (cs s)"
  show "in_use (tcb_at st' x) \<and> tw_slot (tcb_at st' x) = s"
    using wheel_okD(5) [OF ok s x] f [OF wheel_okD(6) [OF ok s x]] by simp
next
  fix x assume "x < length (tcbs st')" "in_use (tcb_at st' x)" "tw_slot (tcb_at st' x) \<noteq> TIMER_SLOT_NONE"
  then show "tw_slot (tcb_at st' x) \<le> TIMER_WHEEL_SLOTS \<and> x \<in> set (cs (tw_slot (tcb_at st' x)))"
    using wheel_okD(7) [OF ok, of x] f [of x] len by simp
qed (use wheel_okD(1,2) [OF ok] len h in auto)

lemma wheel_remove_unscheduled:
  "tw_slot (tcb_at st i) = TIMER_SLOT_NONE \<Longrightarrow> wheel_remove i st = st"
  by (simp add: wheel_remove_def)

lemma wheel_remove_ok:
  assumes ok: "wheel_ok st cs" and i: "i < length (tcbs st)" "in_use (tcb_at st i)"
  shows "wheel_ok (wheel_remove i st) (\<lambda>s. remove1 i (cs s))"
proof (cases "tw_slot (tcb_at st i) = TIMER_SLOT_NONE")
  case True
  then have "i \<notin> set (cs s)" if "s \<le> TIMER_WHEEL_SLOTS" for s
    using wheel_okD(5) [OF ok that] that by (auto simp: timer_consts)
  then show ?thesis
    using ok True by (simp add: wheel_remove_unscheduled wheel_ok_def remove1_idem)
next
  case False
  define sl where "sl = tw_slot (tcb_at st i)"
  have sl: "sl \<le> TIMER_WHEEL_SLOTS" "i \<in> set (cs sl)"
    using wheel_okD(7) [OF ok i False] by (auto simp: sl_def)
  have notin: "i \<notin> set (cs s)" if "s \<le> TIMER_WHEEL_SLOTS" "s \<noteq> sl" for s
    using wheel_okD(5) [OF ok that(1)] that(2) sl_def by auto
  define pv nx where "pv = tw_prev (tcb_at st i)" and "nx = tw_next (tcb_at st i)"
  define st1 where "st1 = (if pv = UINT32_MAX then set_wheel_head sl nx st
                     else upd_tcb pv (\<lambda>t. t\<lparr>tw_next := nx\<rparr>) st)"
  define st2 where "st2 = (if nx \<noteq> UINT32_MAX then upd_tcb nx (\<lambda>t. t\<lparr>tw_prev := pv\<rparr>) st1 else st1)"
  define st3 where "st3 = upd_tcb i (\<lambda>t. t\<lparr>tw_slot := TIMER_SLOT_NONE, tw_next := UINT32_MAX, tw_prev := UINT32_MAX\<rparr>) st2"
  have eq: "wheel_remove i st = st3"
    using False by (simp add: wheel_remove_def Let_def st3_def st2_def st1_def sl_def pv_def nx_def)
  let ?ts = "tcbs st" and ?ts3 = "tcbs st3"
  have d: "dll ?ts UINT32_MAX (wheel_head st sl) (cs sl)" and dist: "distinct (cs sl)"
    using wheel_okD(3,4) [OF ok sl(1)] by auto
  have len: "length ?ts < UINT32_MAX" by (rule wheel_okD(2) [OF ok])
  have pv_nx: "pv = UINT32_MAX \<or> pv \<in> set (cs sl)" "nx = UINT32_MAX \<or> nx \<in> set (cs sl)"
    using dll_prev_mem [OF d sl(2)] dll_next_mem [OF d sl(2)] by (auto simp: pv_def nx_def tcb_at_def)
  have max: "UINT32_MAX \<notin> set (cs sl)" using wheel_okD(6) [OF ok sl(1), of UINT32_MAX] len by auto
  have ne: "pv \<noteq> i" "nx \<noteq> i"
    using dll_irrefl [OF d sl(2) dist max len] by (auto simp: pv_def nx_def tcb_at_def)
  have rng: "pv = UINT32_MAX \<or> pv < length ?ts" "nx = UINT32_MAX \<or> nx < length ?ts"
    using pv_nx wheel_okD(6) [OF ok sl(1)] by auto
  have len3: "length ?ts3 = length ?ts" by (simp add: st3_def st2_def st1_def)
  have at3: "tcb_at st3 x = (if x = i then (tcb_at st2 i)\<lparr>tw_slot := TIMER_SLOT_NONE, tw_next := UINT32_MAX, tw_prev := UINT32_MAX\<rparr>
       else if x = pv \<and> x = nx then (tcb_at st x)\<lparr>tw_next := nx, tw_prev := pv\<rparr>
       else if x = pv then (tcb_at st x)\<lparr>tw_next := nx\<rparr>
       else if x = nx then (tcb_at st x)\<lparr>tw_prev := pv\<rparr> else tcb_at st x)" if "x < length ?ts" for x
    using that rng i len by (auto simp: st3_def st2_def st1_def tcb_at_upd_if)
  show ?thesis unfolding eq
  proof (rule wheel_okI)
    show "length (tw_slots st3) = TIMER_WHEEL_SLOTS"
      using wheel_okD(1) [OF ok] by (simp add: st3_def st2_def st1_def)
    show "length ?ts3 < UINT32_MAX" using len len3 by simp
  next
    fix s assume s: "s \<le> TIMER_WHEEL_SLOTS"
    have hd: "wheel_head st3 s = (if pv = UINT32_MAX \<and> s = sl then nx else wheel_head st s)"
      using wheel_okD(1) [OF ok] s sl by (simp add: st3_def st2_def st1_def wheel_head_set)
    show "dll ?ts3 UINT32_MAX (wheel_head st3 s) (remove1 i (cs s))"
    proof (cases "s = sl")
      case True
      have "dll ?ts3 UINT32_MAX (if wheel_head st sl = i then tw_next (?ts ! i) else wheel_head st sl) (remove1 i (cs sl)) \<and>
         (wheel_head st sl = i \<longleftrightarrow> tw_prev (?ts ! i) = UINT32_MAX) \<and>
         (tw_prev (?ts ! i) = UINT32_MAX \<or> tw_prev (?ts ! i) \<in> set (cs sl))"
        using at3 wheel_okD(6) [OF ok sl(1)] ne max
        by (intro dll_unlink [OF d dist sl(2) len3 max len])
          (auto simp: pv_def nx_def tcb_at_def split: if_splits)
      then show ?thesis using True hd by (auto simp: pv_def nx_def tcb_at_def split: if_splits)
    next
      case False
      have out: "x \<noteq> i \<and> x \<noteq> pv \<and> x \<noteq> nx" if "x \<in> set (cs s)" for x
        using that False notin [OF s] pv_nx wheel_okD(5,6) [OF ok s that] wheel_okD(5) [OF ok sl(1)] len by auto
      have "dll ?ts3 UINT32_MAX (wheel_head st s) (cs s)"
        using wheel_okD(3) [OF ok s] len3
        by (rule dll_cong) (use at3 out wheel_okD(6) [OF ok s] in \<open>auto simp: tcb_at_def\<close>)
      then show ?thesis using False hd notin [OF s] by (simp add: remove1_idem)
    qed
    show "distinct (remove1 i (cs s))" using wheel_okD(4) [OF ok s] by simp
    fix x assume "x \<in> set (remove1 i (cs s))"
    then have x: "x \<in> set (cs s)" "x \<noteq> i" using wheel_okD(4) [OF ok s] by auto
    show "in_use (tcb_at st3 x) \<and> tw_slot (tcb_at st3 x) = s"
      using wheel_okD(5,6) [OF ok s x(1)] x(2) at3 by auto
  next
    fix x assume x: "x < length ?ts3" "in_use (tcb_at st3 x)" "tw_slot (tcb_at st3 x) \<noteq> TIMER_SLOT_NONE"
    then have "x \<noteq> i" using at3 len3 by auto
    then have "in_use (tcb_at st x)" "tw_slot (tcb_at st3 x) = tw_slot (tcb_at st x)"
      using x at3 [of x] len3 by (auto split: if_splits)
    then show "tw_slot (tcb_at st3 x) \<le> TIMER_WHEEL_SLOTS \<and> x \<in> set (remove1 i (cs (tw_slot (tcb_at st3 x))))"
      using wheel_okD(7) [OF ok, of x] x len3 \<open>x \<noteq> i\<close> by auto
  qed
qed

lemma wheel_remove_unlinked:
  assumes "i < length (tcbs st)"
  shows "tw_slot (tcb_at (wheel_remove i st) i) = TIMER_SLOT_NONE"
  using assms by (auto simp: wheel_remove_def Let_def)

lemma wheel_insert_ok:
  assumes ok: "wheel_ok st cs" and i: "i < length (tcbs st)" "in_use (tcb_at st i)"
    and un: "tw_slot (tcb_at st i) = TIMER_SLOT_NONE" and sl: "sl \<le> TIMER_WHEEL_SLOTS"
  shows "wheel_ok (wheel_insert_slot i sl st) (cs(sl := i # cs sl))"
proof -
  have notin: "i \<notin> set (cs s)" if "s \<le> TIMER_WHEEL_SLOTS" for s
    using wheel_okD(5) [OF ok that] un that by (auto simp: timer_consts)
  define h where "h = wheel_head st sl"
  define st1 where "st1 = upd_tcb i (\<lambda>t. t\<lparr>tw_prev := UINT32_MAX, tw_next := h\<rparr>) st"
  define st2 where "st2 = (if h \<noteq> UINT32_MAX then upd_tcb h (\<lambda>t. t\<lparr>tw_prev := i\<rparr>) st1 else st1)"
  define st3 where "st3 = set_wheel_head sl i st2"
  define st4 where "st4 = upd_tcb i (\<lambda>t. t\<lparr>tw_slot := sl\<rparr>) st3"
  have eq: "wheel_insert_slot i sl st = st4"
    by (simp add: wheel_insert_slot_def Let_def st4_def st3_def st2_def st1_def h_def)
  let ?ts = "tcbs st" and ?ts4 = "tcbs st4"
  have d: "dll ?ts UINT32_MAX h (cs sl)" and dist: "distinct (cs sl)"
    using wheel_okD(3,4) [OF ok sl] by (auto simp: h_def)
  have len: "length ?ts < UINT32_MAX" by (rule wheel_okD(2) [OF ok])
  have len4: "length ?ts4 = length ?ts" by (simp add: st4_def st3_def st2_def st1_def)
  have h: "h = UINT32_MAX \<or> h \<in> set (cs sl)" using d by (cases "cs sl") auto
  then have hr: "h = UINT32_MAX \<or> h < length ?ts" "h \<noteq> i"
    using wheel_okD(6) [OF ok sl] notin [OF sl] i len by auto
  have at4: "tcb_at st4 x = (if x = i then (tcb_at st i)\<lparr>tw_prev := UINT32_MAX, tw_next := h, tw_slot := sl\<rparr>
       else if x = h then (tcb_at st x)\<lparr>tw_prev := i\<rparr> else tcb_at st x)" if "x < length ?ts" for x
    using that hr i len by (auto simp: st4_def st3_def st2_def st1_def tcb_at_upd_if)
  show ?thesis unfolding eq
  proof (rule wheel_okI)
    show "length (tw_slots st4) = TIMER_WHEEL_SLOTS"
      using wheel_okD(1) [OF ok] by (simp add: st4_def st3_def st2_def st1_def)
    show "length ?ts4 < UINT32_MAX" using len len4 by simp
  next
    fix s assume s: "s \<le> TIMER_WHEEL_SLOTS"
    have hd: "wheel_head st4 s = (if s = sl then i else wheel_head st s)"
      using wheel_okD(1) [OF ok] s sl by (simp add: st4_def st3_def st2_def st1_def wheel_head_set)
    have out: "x \<noteq> i \<and> x < length ?ts" if "x \<in> set (cs s)" for x
      using that notin [OF s] wheel_okD(6) [OF ok s that] by auto
    show "dll ?ts4 UINT32_MAX (wheel_head st4 s) ((cs(sl := i # cs sl)) s)"
    proof (cases "s = sl")
      case True
      have "dll ?ts4 i h (cs sl)"
        using d dist len4 by (rule dll_set_prev) (use at4 out True in \<open>auto simp: tcb_at_def\<close>)
      then show ?thesis using True hd at4 [OF i(1)] len4 i by (simp add: tcb_at_def)
    next
      case False
      then have "x \<noteq> h" if "x \<in> set (cs s)" for x
        using h wheel_okD(5) [OF ok s that] wheel_okD(5) [OF ok sl, of h] out [OF that] len by auto
      then have "tw_next (?ts4 ! x) = tw_next (?ts ! x) \<and> tw_prev (?ts4 ! x) = tw_prev (?ts ! x)"
        if "x \<in> set (cs s)" for x
        using at4 [of x] out [OF that] that by (simp add: tcb_at_def)
      then have "dll ?ts4 UINT32_MAX (wheel_head st s) (cs s)"
        by (rule dll_cong [OF wheel_okD(3) [OF ok s] len4])
      then show ?thesis using False hd by simp
    qed
    show "distinct ((cs(sl := i # cs sl)) s)" using wheel_okD(4) [OF ok s] notin [OF s] by auto
    fix x assume "x \<in> set ((cs(sl := i # cs sl)) s)"
    then have "x = i \<and> s = sl \<or> x \<in> set (cs s)" by (auto split: if_splits)
    then show "in_use (tcb_at st4 x) \<and> tw_slot (tcb_at st4 x) = s"
    proof
      assume "x = i \<and> s = sl"
      then show ?thesis using at4 [OF i(1)] i(2) by simp
    next
      assume "x \<in> set (cs s)"
      then show ?thesis using wheel_okD(5) [OF ok s, of x] out [of x] at4 [of x] by auto
    qed
  next
    fix x assume x: "x < length ?ts4" "in_use (tcb_at st4 x)" "tw_slot (tcb_at st4 x) \<noteq> TIMER_SLOT_NONE"
    then show "tw_slot (tcb_at st4 x) \<le> TIMER_WHEEL_SLOTS \<and> x \<in> set ((cs(sl := i # cs sl)) (tw_slot (tcb_at st4 x)))"
      using wheel_okD(7) [OF ok, of x] at4 [of x] len4 sl by (auto split: if_splits)
  qed
qed

subsection \<open>Scheduling and cancelling\<close>

text \<open>Facts a wheel frame gives about single blocks.\<close>

lemma wheel_frame_length: "wheel_frame st st' \<Longrightarrow> length (tcbs st') = length (tcbs st)"
  by (auto simp: wheel_frame_def dest: map_eq_imp_length_eq)

lemma wheel_frame_core:
  assumes "wheel_frame st st'" "i < length (tcbs st)"
  shows "tcb_core (tcb_at st' i) = tcb_core (tcb_at st i)"
proof -
  have "map tcb_core (tcbs st') ! i = map tcb_core (tcbs st) ! i"
    using assms by (simp add: wheel_frame_def)
  then show ?thesis using assms wheel_frame_length [OF assms(1)] by (simp add: tcb_at_def)
qed

lemma wheel_frame_in_use:
  assumes "wheel_frame st st'" "i < length (tcbs st)"
  shows "in_use (tcb_at st' i) = in_use (tcb_at st i)"
proof -
  have "in_use (tcb_core t) = in_use t" for t by (simp add: tcb_core_def)
  with wheel_frame_core [OF assms] show ?thesis by metis
qed

lemma wheel_ok_rdtsc: "wheel_ok (snd (rdtsc st)) cs = wheel_ok st cs"
  by (simp add: wheel_ok_def rdtsc_def wheel_head_def tcb_at_def)

lemma target_slot_le: "target_slot dl now tps cur \<le> TIMER_WHEEL_SLOTS"
proof -
  have "x AND 4095 < 4096" for x :: nat
    using and_mask_nat_mod [of x 12] by simp
  then show ?thesis
    by (auto simp: target_slot_def Let_def timer_consts intro: less_imp_le)
qed

lemma schedule_frame: "wheel_frame st (tcp_timer_schedule i dl st)"
  unfolding tcp_timer_schedule_def Let_def case_prod_beta
  by (intro wheel_frame_trans [OF _ wheel_insert_frame] wheel_frame_trans [OF _ wheel_frame_rdtsc])
    (simp add: wheel_remove_frame)

lemma cancel_frame: "wheel_frame st (tcp_timer_cancel i st)"
  by (simp add: tcp_timer_cancel_def wheel_remove_frame)

lemma tcb_earliest_deadline_frame: "wheel_frame st (snd (tcb_earliest_deadline i st))"
  using wheel_frame_rdtsc [of st] by (auto simp: tcb_earliest_deadline_def Let_def case_prod_beta)

lemma resched_frame: "wheel_frame st (tcp_timer_resched i st)"
  unfolding tcp_timer_resched_def Let_def case_prod_beta
  by (rule wheel_frame_trans [OF tcb_earliest_deadline_frame [of st i]])
    (simp add: wheel_remove_frame schedule_frame)

lemma schedule_ok:
  assumes ok: "wheel_ok st cs" and i: "i < length (tcbs st)" "in_use (tcb_at st i)"
  shows "\<exists>s\<le>TIMER_WHEEL_SLOTS. wheel_ok (tcp_timer_schedule i dl st)
           ((\<lambda>s. remove1 i (cs s))(s := i # remove1 i (cs s)))"
proof -
  define st1 where "st1 = wheel_remove i st"
  have st1: "(if tw_slot (tcb_at st i) \<noteq> TIMER_SLOT_NONE then wheel_remove i st else st) = st1"
    by (auto simp: st1_def wheel_remove_unscheduled)
  define st2 where "st2 = snd (rdtsc st1)"
  define s where "s = target_slot dl (fst (rdtsc st1)) (tw_tsc_per_slot st2) (tw_current st2)"
  have eq: "tcp_timer_schedule i dl st = wheel_insert_slot i s st2"
    unfolding tcp_timer_schedule_def Let_def case_prod_beta st1 s_def st2_def by simp
  have ok2: "wheel_ok st2 (\<lambda>s. remove1 i (cs s))"
    unfolding st2_def wheel_ok_rdtsc st1_def by (rule wheel_remove_ok [OF ok i])
  have fr: "wheel_frame st st2"
    unfolding st2_def st1_def by (rule wheel_frame_trans [OF wheel_remove_frame wheel_frame_rdtsc])
  have "tw_slot (tcb_at st2 i) = TIMER_SLOT_NONE"
    using wheel_remove_unlinked [OF i(1)] by (simp add: st2_def st1_def rdtsc_def tcb_at_def)
  with ok2 fr i have "wheel_ok (wheel_insert_slot i s st2)
      ((\<lambda>s. remove1 i (cs s))(s := i # remove1 i (cs s)))"
    using target_slot_le wheel_insert_ok [of st2 "\<lambda>s. remove1 i (cs s)" i s]
    by (simp add: wheel_frame_length [OF fr] wheel_frame_in_use [OF fr i(1)] s_def)
  then show ?thesis unfolding eq s_def using target_slot_le by blast
qed

lemma resched_ok:
  assumes ok: "wheel_ok st cs" and i: "i < length (tcbs st)" "in_use (tcb_at st i)"
  shows "\<exists>cs'. wheel_ok (tcp_timer_resched i st) cs' \<and>
           (\<forall>s\<le>TIMER_WHEEL_SLOTS. remove1 i (cs' s) = remove1 i (cs s))"
proof -
  define st1 where "st1 = snd (tcb_earliest_deadline i st)"
  have st1: "st1 = st \<or> st1 = snd (rdtsc st)"
    by (auto simp: st1_def tcb_earliest_deadline_def Let_def case_prod_beta)
  have ok1: "wheel_ok st1 cs" using ok st1 wheel_ok_rdtsc by metis
  have i1: "i < length (tcbs st1)" "in_use (tcb_at st1 i)"
    using i st1 by (auto simp: rdtsc_def tcb_at_def)
  show ?thesis
  proof (cases "fst (tcb_earliest_deadline i st) = U64_MAX")
    case True
    then have "tcp_timer_resched i st = wheel_remove i st1"
      by (auto simp: tcp_timer_resched_def case_prod_beta st1_def wheel_remove_unscheduled)
    with wheel_remove_ok [OF ok1 i1] show ?thesis
      by (intro exI [of _ "\<lambda>s. remove1 i (cs s)"])
        (use wheel_okD(4) [OF ok] in \<open>auto simp: remove1_idem distinct_remove1_removeAll\<close>)
  next
    case False
    then have "tcp_timer_resched i st = tcp_timer_schedule i (fst (tcb_earliest_deadline i st)) st1"
      by (simp add: tcp_timer_resched_def case_prod_beta st1_def)
    with schedule_ok [OF ok1 i1] obtain s where "wheel_ok (tcp_timer_resched i st)
        ((\<lambda>s. remove1 i (cs s))(s := i # remove1 i (cs s)))" by metis
    then show ?thesis
      by (intro exI conjI allI impI)
        (assumption, use wheel_okD(4) [OF ok] in \<open>auto simp: remove1_idem distinct_remove1_removeAll\<close>)
  qed
qed

subsection \<open>The interface of the wheel\<close>

text \<open>
  What the TCP code relies on: a representation of the wheel by chains, and requests that move one live
  block.  Whatever the sequence of requests, a block is linked at most once, and it is linked exactly
  when the last request for it was to schedule it.
\<close>

datatype timer_req = Schedule nat u64 | Cancel nat

fun req_tcb :: "timer_req \<Rightarrow> nat" where
  "req_tcb (Schedule i d) = i"
| "req_tcb (Cancel i) = i"

fun is_schedule :: "timer_req \<Rightarrow> bool" where
  "is_schedule (Schedule i d) = True"
| "is_schedule (Cancel i) = False"

text \<open>Whether block \<open>i\<close> is scheduled after the requests, given whether it was before.\<close>

fun last_req :: "nat \<Rightarrow> bool \<Rightarrow> timer_req list \<Rightarrow> bool" where
  "last_req i b [] = b"
| "last_req i b (r # rs) = last_req i (if req_tcb r = i then is_schedule r else b) rs"

definition linked :: "(nat \<Rightarrow> nat list) \<Rightarrow> nat \<Rightarrow> bool" where
  "linked cs i \<longleftrightarrow> (\<exists>s\<le>TIMER_WHEEL_SLOTS. i \<in> set (cs s))"

locale timer_service =
  fixes rep :: "'s \<Rightarrow> (nat \<Rightarrow> nat list) \<Rightarrow> bool"
    and live :: "'s \<Rightarrow> nat \<Rightarrow> bool"
    and schedule :: "nat \<Rightarrow> u64 \<Rightarrow> 's \<Rightarrow> 's"
    and cancel :: "nat \<Rightarrow> 's \<Rightarrow> 's"
  assumes rep_distinct: "rep s cs \<Longrightarrow> k \<le> TIMER_WHEEL_SLOTS \<Longrightarrow> distinct (cs k)"
    and schedule_rep: "rep s cs \<Longrightarrow> live s i \<Longrightarrow>
      \<exists>k\<le>TIMER_WHEEL_SLOTS. rep (schedule i d s) ((\<lambda>k. remove1 i (cs k))(k := i # remove1 i (cs k)))"
    and cancel_rep: "rep s cs \<Longrightarrow> live s i \<Longrightarrow> rep (cancel i s) (\<lambda>k. remove1 i (cs k))"
    and schedule_live: "live (schedule i d s) j \<longleftrightarrow> live s j"
    and cancel_live: "live (cancel i s) j \<longleftrightarrow> live s j"
begin

fun serve :: "timer_req \<Rightarrow> 's \<Rightarrow> 's" where
  "serve (Schedule i d) s = schedule i d s"
| "serve (Cancel i) s = cancel i s"

lemma serve_live: "live (serve r s) j \<longleftrightarrow> live s j"
  by (cases r) (simp_all add: schedule_live cancel_live)

lemma serve_rep:
  assumes "rep s cs" "live s (req_tcb r)"
  shows "\<exists>cs'. rep (serve r s) cs' \<and>
    (\<forall>j. linked cs' j \<longleftrightarrow> (if j = req_tcb r then is_schedule r else linked cs j))"
proof (cases r)
  case (Schedule i d)
  from schedule_rep [OF assms(1), of i d] assms(2) Schedule obtain k where
    k: "k \<le> TIMER_WHEEL_SLOTS" "rep (schedule i d s) ((\<lambda>k. remove1 i (cs k))(k := i # remove1 i (cs k)))"
    by auto
  have "linked ((\<lambda>k. remove1 i (cs k))(k := i # remove1 i (cs k))) j \<longleftrightarrow> (if j = i then True else linked cs j)" for j
    using k(1) rep_distinct [OF assms(1)] by (cases "j = i") (auto simp: linked_def, metis)
  with k Schedule show ?thesis by auto
next
  case (Cancel i)
  have "linked (\<lambda>k. remove1 i (cs k)) j \<longleftrightarrow> (if j = i then False else linked cs j)" for j
    using rep_distinct [OF assms(1)] by (auto simp: linked_def)
  with cancel_rep [OF assms(1), of i] assms(2) Cancel show ?thesis by auto
qed

lemma serve_all_rep:
  assumes "rep s cs" "\<forall>r\<in>set rs. live s (req_tcb r)"
  shows "\<exists>cs'. rep (fold serve rs s) cs' \<and> (\<forall>j. linked cs' j \<longleftrightarrow> last_req j (linked cs j) rs)"
  using assms
proof (induction rs arbitrary: s cs)
  case (Cons r rs)
  from serve_rep [OF Cons.prems(1), of r] Cons.prems(2) obtain cs' where
    cs': "rep (serve r s) cs'" "\<forall>j. linked cs' j \<longleftrightarrow> (if j = req_tcb r then is_schedule r else linked cs j)"
    by auto
  have "\<forall>q\<in>set rs. live (serve r s) (req_tcb q)" using Cons.prems(2) by (simp add: serve_live)
  from Cons.IH [OF cs'(1) this] cs'(2) show ?case by (auto split: if_splits)
qed auto

end

definition tcb_live :: "'a conn_scheme \<Rightarrow> nat \<Rightarrow> bool" where
  "tcb_live st i \<longleftrightarrow> i < length (tcbs st) \<and> in_use (tcb_at st i)"

lemma tcb_live_frame: "wheel_frame st st' \<Longrightarrow> tcb_live st' i \<longleftrightarrow> tcb_live st i"
  using wheel_frame_in_use wheel_frame_length by (fastforce simp: tcb_live_def)

interpretation wheel: timer_service wheel_ok tcb_live tcp_timer_schedule tcp_timer_cancel
proof
  fix s :: "'a conn_scheme" and cs :: "nat \<Rightarrow> nat list" and i :: nat and d :: u64
  assume a: "wheel_ok s cs" "tcb_live s i"
  then have i: "i < length (tcbs s)" "in_use (tcb_at s i)" by (auto simp: tcb_live_def)
  show "\<exists>k\<le>TIMER_WHEEL_SLOTS. wheel_ok (tcp_timer_schedule i d s) ((\<lambda>k. remove1 i (cs k))(k := i # remove1 i (cs k)))"
    by (rule schedule_ok [OF a(1) i])
  show "wheel_ok (tcp_timer_cancel i s) (\<lambda>k. remove1 i (cs k))"
    unfolding tcp_timer_cancel_def by (rule wheel_remove_ok [OF a(1) i])
qed (simp_all add: wheel_okD(4) tcb_live_frame [OF schedule_frame] tcb_live_frame [OF cancel_frame])

fun serve_req :: "timer_req \<Rightarrow> 'a conn_scheme \<Rightarrow> 'a conn_scheme" where
  "serve_req (Schedule i d) st = tcp_timer_schedule i d st"
| "serve_req (Cancel i) st = tcp_timer_cancel i st"

lemma serve_req_eq: "serve_req = wheel.serve"
proof (intro ext)
  fix r and st :: "'a conn_scheme"
  show "serve_req r st = wheel.serve r st" by (cases r) simp_all
qed

text \<open>
  C4. After any sequence of schedule and cancel requests for live blocks, the wheel's pointers again
  represent well-formed doubly linked chains, and a block is on a chain exactly when the last request
  for it was to schedule it (or it had none and was on a chain before).
\<close>

theorem timer_wheel_requests:
  assumes "wheel_ok st cs" and "\<forall>r\<in>set rs. tcb_live st (req_tcb r)"
  shows "\<exists>cs'. wheel_ok (fold serve_req rs st) cs' \<and>
    (\<forall>j. linked cs' j \<longleftrightarrow> last_req j (linked cs j) rs)"
  using wheel.serve_all_rep [OF assms] by (simp add: serve_req_eq)

text \<open>
  A wheel with two live blocks; its first slot is linked by hand.
\<close>

definition demo_conn :: conn where
  "demo_conn = \<lparr>tcbs = [tcb_zero\<lparr>in_use := True, tw_next := UINT32_MAX, tw_prev := UINT32_MAX,
                         tw_slot := UINT32_MAX\<rparr>,
                       tcb_zero\<lparr>in_use := True, tw_next := UINT32_MAX, tw_prev := UINT32_MAX,
                         tw_slot := UINT32_MAX\<rparr>],
     capacity = 2, count = 2, ht = [0, 1, -1, -1], ht_size = 4, ht_mask = 3, free_stack = [1, 0], free_top = 0,
     tw_slots = replicate 4096 UINT32_MAX, tw_overflow = UINT32_MAX, tw_current = 0,
     tw_last_tick_tsc = 0, tw_tsc_per_slot = 1000, tw_dack_head = UINT32_MAX, tsc_hz = 1000000,
     tsc_reads = (\<lambda>_. 0), tsc_pos = 0\<rparr>"

lemma demo_conn_ok: "wheel_ok demo_conn (\<lambda>_. [])"
proof (rule wheel_okI)
  fix x assume "x < length (tcbs demo_conn)" "tw_slot (tcb_at demo_conn x) \<noteq> TIMER_SLOT_NONE"
  then show "tw_slot (tcb_at demo_conn x) \<le> TIMER_WHEEL_SLOTS \<and> x \<in> set []"
    by (auto simp: demo_conn_def tcb_at_def timer_consts less_Suc_eq)
qed (auto simp: demo_conn_def wheel_head_def timer_consts)

theorem timer_wheel_requests_witness:
  "\<exists>cs'. wheel_ok (fold serve_req [Schedule 0 5000, Schedule 1 5000, Cancel 0] demo_conn) cs' \<and>
    (\<forall>j. linked cs' j \<longleftrightarrow> last_req j (linked (\<lambda>_. []) j) [Schedule 0 5000, Schedule 1 5000, Cancel 0])"
  by (rule timer_wheel_requests [OF demo_conn_ok]) (auto simp: tcb_live_def demo_conn_def tcb_at_def)

subsection \<open>When a scheduled timer is visited\<close>

text \<open>
  The tick advances \<^verbatim>\<open>current\<close> before it processes a slot, so a slot is first visited after the
  least positive number of advances that reaches it.
\<close>

definition first_visit :: "nat \<Rightarrow> nat \<Rightarrow> nat" where
  "first_visit current slot = (LEAST n. 0 < n \<and> (current + n) mod TIMER_WHEEL_SLOTS = slot)"

lemma target_slot_eq:
  "target_slot dl now tps cur =
     (let k = unat (ucast ((if dl > now then dl - now else 0) div tps) :: u32)
      in if k \<ge> 4096 then 4096 else (cur + k) mod 4096)"
  using and_mask_nat_mod [of _ 12] by (simp add: target_slot_def Let_def timer_consts)

text \<open>
  A timer whose deadline lies \<open>k\<close> whole slots ahead (1 to 4095) is visited after exactly \<open>k\<close>
  advances of the wheel, but one whose deadline is due or less than a slot away is put into the slot
  just passed and is visited only after a full revolution of 4096 advances.
\<close>

theorem timer_visit_delay:
  assumes "cur < TIMER_WHEEL_SLOTS"
    and "k = unat (ucast ((if dl > now then dl - now else 0) div tps) :: u32)" and "k < TIMER_WHEEL_SLOTS"
  shows "first_visit cur (target_slot dl now tps cur) = (if k = 0 then 4096 else k)"
proof -
  have t: "target_slot dl now tps cur = (cur + k) mod 4096"
    using assms(2,3) by (simp add: target_slot_eq timer_consts)
  show ?thesis unfolding first_visit_def t
  proof (rule Least_equality)
    show "0 < (if k = 0 then 4096 else k) \<and>
        (cur + (if k = 0 then 4096 else k)) mod TIMER_WHEEL_SLOTS = (cur + k) mod 4096"
      by (simp add: timer_consts)
    fix n assume n: "0 < n \<and> (cur + n) mod TIMER_WHEEL_SLOTS = (cur + k) mod 4096"
    show "(if k = 0 then 4096 else k) \<le> n"
    proof (rule ccontr)
      assume "\<not> (if k = 0 then 4096 else k) \<le> n"
      then have "n < 4096" "k = 0 \<or> n < k" using assms(3) by (auto simp: timer_consts split: if_splits)
      with n assms(1,3) show False by (auto simp: timer_consts mod_if split: if_splits)
    qed
  qed
qed

theorem timer_visit_delay_witness:
  "first_visit 7 (target_slot 4999 1000 1000 7) = (if (3::nat) = 0 then 4096 else 3)"
  by (rule timer_visit_delay) (simp_all add: timer_consts)

end
