(* ===== verification/Util.thy ===== *)
theory Util
  imports Prelude
begin

text \<open>
  The helpers of \<^verbatim>\<open>common/util.h\<close>, \<^verbatim>\<open>common/util.c\<close> and the macros of
  \<^verbatim>\<open>common/types.h\<close>: TSC conversions, powers of two, the xorshift64 generator, UUID and
  CIDR strings.  The generator's thread-local state \<^verbatim>\<open>g_prng_state\<close> is passed explicitly.
  \<^verbatim>\<open>inet_pton\<close> belongs to the C library; the CIDR parser takes it as an argument.
\<close>

definition TGEN_MAX_PORTS :: nat where "TGEN_MAX_PORTS = 16"
definition TGEN_MAX_LCORES :: nat where "TGEN_MAX_LCORES = 128"
definition TGEN_MAX_WORKERS :: nat where "TGEN_MAX_WORKERS = 124"
definition TGEN_MAX_MGMT_CORES :: nat where "TGEN_MAX_MGMT_CORES = 4"

subsection \<open>TSC conversions\<close>

definition tgen_tsc_to_us :: "u64 \<Rightarrow> u64 \<Rightarrow> u64" where
  "tgen_tsc_to_us g_tsc_hz delta =
     delta * 1000000 div (if g_tsc_hz \<noteq> 0 then g_tsc_hz else 1000000000)"

definition tgen_tsc_to_ns :: "u64 \<Rightarrow> u64 \<Rightarrow> u64" where
  "tgen_tsc_to_ns g_tsc_hz delta =
     delta * 1000000000 div (if g_tsc_hz \<noteq> 0 then g_tsc_hz else 1000000000)"

text \<open>The last step of \<^verbatim>\<open>tgen_calibrate_tsc\<close>: the frequency from two clock readings.\<close>

definition calibrated_hz :: "u64 \<Rightarrow> u64 \<Rightarrow> u64 \<Rightarrow> u64" where
  "calibrated_hz tsc0 tsc1 elapsed_ns = (tsc1 - tsc0) * 1000000000 div elapsed_ns"

subsection \<open>Powers of two\<close>

definition tgen_is_pow2 :: "u64 \<Rightarrow> bool" where
  "tgen_is_pow2 v \<longleftrightarrow> v \<noteq> 0 \<and> v AND (v - 1) = 0"

definition tgen_next_pow2_u64 :: "u64 \<Rightarrow> u64" where
  "tgen_next_pow2_u64 v =
     (if v = 0 then 1
      else
        let v = v - 1;
            v = v OR drop_bit 1 v;
            v = v OR drop_bit 2 v;
            v = v OR drop_bit 4 v;
            v = v OR drop_bit 8 v;
            v = v OR drop_bit 16 v;
            v = v OR drop_bit 32 v
        in v + 1)"

subsection \<open>Pseudo-random numbers\<close>

definition tgen_prng_seed :: "u64 \<Rightarrow> u64" where
  "tgen_prng_seed seed = (if seed \<noteq> 0 then seed else 1)"

text \<open>The new state is also the value returned.\<close>

definition tgen_rand64 :: "u64 \<Rightarrow> u64" where
  "tgen_rand64 x0 =
     (let x = x0 XOR push_bit 13 x0;
          x = x XOR drop_bit 7 x;
          x = x XOR push_bit 17 x
      in x)"

text \<open>
  \<^verbatim>\<open>tgen_rand_range\<close> returns the value and the new generator state; \<open>None\<close> is the
  division by zero that \<^verbatim>\<open>hi - lo + 1\<close> wrapping to 0 causes.
\<close>

definition tgen_rand_range :: "u64 \<Rightarrow> u64 \<Rightarrow> u64 \<Rightarrow> (u64 \<times> u64) option" where
  "tgen_rand_range st lo hi =
     (if hi \<le> lo then Some (lo, st)
      else if hi - lo + 1 = 0 then None
      else Some (lo + tgen_rand64 st mod (hi - lo + 1), tgen_rand64 st))"

fun tgen_rand_run :: "nat \<Rightarrow> u64 \<Rightarrow> u64" where
  "tgen_rand_run 0 x = x"
| "tgen_rand_run (Suc n) x = tgen_rand_run n (tgen_rand64 x)"

subsection \<open>UUID strings\<close>

definition hexdigit :: "nat \<Rightarrow> char" where
  "hexdigit n = ''0123456789abcdef'' ! n"

text \<open>\<^verbatim>\<open>%02x\<close> of a byte, and the bytes of a 64-bit value in memory (little-endian).\<close>

definition hex2 :: "u8 \<Rightarrow> string" where
  "hex2 b = [hexdigit (unat b div 16), hexdigit (unat b mod 16)]"

definition le_bytes :: "u64 \<Rightarrow> bytes" where
  "le_bytes a = map (\<lambda>i. ucast (drop_bit (8 * i) a)) [0..<8]"

definition uuid_raw :: "u64 \<Rightarrow> u64 \<Rightarrow> bytes" where
  "uuid_raw a b =
     (let raw = le_bytes a @ le_bytes b;
          raw = raw[6 := (raw ! 6 AND 0x0f) OR 0x40]
      in raw[8 := (raw ! 8 AND 0x3f) OR 0x80])"

definition tgen_uuid_v4 :: "u64 \<Rightarrow> string \<times> u64" where
  "tgen_uuid_v4 st =
     (let a = tgen_rand64 st;
          b = tgen_rand64 a;
          raw = uuid_raw a b
      in (concat (map hex2 (take 4 raw)) @ ''-'' @
          concat (map hex2 (take 2 (drop 4 raw))) @ ''-'' @
          concat (map hex2 (take 2 (drop 6 raw))) @ ''-'' @
          concat (map hex2 (take 2 (drop 8 raw))) @ ''-'' @
          concat (map hex2 (drop 10 raw)), b))"

subsection \<open>Addresses as strings\<close>

text \<open>\<^verbatim>\<open>tgen_mac_str\<close>; \<^verbatim>\<open>snprintf\<close> writes at most \<open>len - 1\<close> characters.\<close>

definition tgen_mac_str :: "bytes \<Rightarrow> nat \<Rightarrow> string" where
  "tgen_mac_str mac len =
     take (len - 1)
       (hex2 (mac ! 0) @ '':'' @ hex2 (mac ! 1) @ '':'' @ hex2 (mac ! 2) @ '':'' @
        hex2 (mac ! 3) @ '':'' @ hex2 (mac ! 4) @ '':'' @ hex2 (mac ! 5))"

definition tgen_is_ipv6 :: "string option \<Rightarrow> bool" where
  "tgen_is_ipv6 str = (case str of None \<Rightarrow> False | Some s \<Rightarrow> CHR '':'' \<in> set s)"

text \<open>The C library's \<^verbatim>\<open>atoi\<close>: blanks, an optional sign, then decimal digits.\<close>

definition is_space :: "char \<Rightarrow> bool" where
  "is_space c \<longleftrightarrow> of_char c = (32::nat) \<or> (9 \<le> (of_char c :: nat) \<and> (of_char c :: nat) \<le> 13)"

definition is_digit :: "char \<Rightarrow> bool" where
  "is_digit c \<longleftrightarrow> 48 \<le> (of_char c :: nat) \<and> (of_char c :: nat) \<le> 57"

fun atoi_digits :: "int \<Rightarrow> string \<Rightarrow> int" where
  "atoi_digits acc [] = acc"
| "atoi_digits acc (c # cs) =
     (if is_digit c then atoi_digits (acc * 10 + (of_char c - 48)) cs else acc)"

definition atoi :: "string \<Rightarrow> int" where
  "atoi s =
     (case dropWhile is_space s of
        [] \<Rightarrow> 0
      | c # cs \<Rightarrow> if c = CHR ''-'' then - atoi_digits 0 cs
                  else if c = CHR ''+'' then atoi_digits 0 cs
                  else atoi_digits 0 (c # cs))"

definition tgen_parse_ipv4 :: "(string \<Rightarrow> u32 option) \<Rightarrow> string \<Rightarrow> u32 option" where
  "tgen_parse_ipv4 inet_pton str = inet_pton str"

text \<open>
  \<^verbatim>\<open>tgen_parse_cidr\<close>: the copy into a 32-byte buffer keeps 31 characters; the length is stored
  before the address is parsed, so it is also returned when the address is bad.  The result is the
  return code and what the two output pointers receive (\<open>None\<close>: not written).
\<close>

definition tgen_parse_cidr ::
  "(string \<Rightarrow> u32 option) \<Rightarrow> string \<Rightarrow> int \<times> u32 option \<times> u8 option" where
  "tgen_parse_cidr inet_pton str =
     (let tmp = take 31 str;
          addr = takeWhile (\<lambda>c. c \<noteq> CHR ''/'') tmp
      in if CHR ''/'' \<notin> set tmp then (-1, None, None)
         else
           let len = atoi (drop (length addr + 1) tmp)
           in if len < 0 \<or> len > 32 then (-1, None, None)
              else (case tgen_parse_ipv4 inet_pton addr of
                      None \<Rightarrow> (-1, None, Some (word_of_int len))
                    | Some net \<Rightarrow> (0, Some net, Some (word_of_int len))))"

subsection \<open>Rounding up to a power of two\<close>

text \<open>
  The six shift-and-or steps copy every bit to all positions below it, so the value before the
  final increment is a mask.
\<close>

lemma bit_smear_step:
  fixes w v :: u64
  assumes w: "\<And>n. bit w n \<longleftrightarrow> (\<exists>k<d. bit v (n + k))"
  shows "bit (w OR drop_bit d w) n \<longleftrightarrow> (\<exists>k<2 * d. bit v (n + k))"
proof -
  have "(\<exists>k<d. bit v (n + k)) \<or> (\<exists>k<d. bit v (n + d + k)) \<longleftrightarrow> (\<exists>k<2 * d. bit v (n + k))"
  proof
    assume "(\<exists>k<d. bit v (n + k)) \<or> (\<exists>k<d. bit v (n + d + k))"
    then show "\<exists>k<2 * d. bit v (n + k)"
    proof
      assume "\<exists>k<d. bit v (n + k)"
      then obtain k where "k < d" "bit v (n + k)" by blast
      then show ?thesis by (intro exI [of _ k]) auto
    next
      assume "\<exists>k<d. bit v (n + d + k)"
      then obtain k where "k < d" "bit v (n + d + k)" by blast
      then show ?thesis by (intro exI [of _ "d + k"]) (auto simp: ac_simps)
    qed
  next
    assume "\<exists>k<2 * d. bit v (n + k)"
    then obtain k where k: "k < 2 * d" "bit v (n + k)" by blast
    show "(\<exists>k<d. bit v (n + k)) \<or> (\<exists>k<d. bit v (n + d + k))"
    proof (cases "k < d")
      case True
      with k show ?thesis by blast
    next
      case False
      with k have "k - d < d" "bit v (n + d + (k - d))" by auto
      then show ?thesis by blast
    qed
  qed
  then show ?thesis
    by (simp add: bit_or_iff bit_drop_bit_eq w add.commute add.left_commute)
qed

definition smear :: "u64 \<Rightarrow> u64" where
  "smear v =
     (let v = v OR drop_bit 1 v;
          v = v OR drop_bit 2 v;
          v = v OR drop_bit 4 v;
          v = v OR drop_bit 8 v;
          v = v OR drop_bit 16 v;
          v = v OR drop_bit 32 v
      in v)"

lemma bit_smear: "bit (smear v) n \<longleftrightarrow> (\<exists>k<64. bit v (n + k))"
proof -
  have 0: "bit v n \<longleftrightarrow> (\<exists>k<1. bit v (n + k))" for n by simp
  note 1 = bit_smear_step [OF 0]
  note 2 = bit_smear_step [OF 1]
  note 4 = bit_smear_step [OF 2]
  note 8 = bit_smear_step [OF 4]
  note 16 = bit_smear_step [OF 8]
  note 32 = bit_smear_step [OF 16]
  from 32 [of n] show ?thesis by (simp add: smear_def Let_def)
qed

lemma bit_top_unique:
  fixes v :: u64
  assumes "2 ^ m \<le> unat v" and "unat v < 2 ^ Suc m"
  shows "bit v m" and "bit v n \<Longrightarrow> n \<le> m"
proof -
  have "unat v div 2 ^ m = 1"
    using assms by (intro div_nat_eqI) auto
  then show "bit v m"
    by (simp add: bit_unat_iff [symmetric] bit_iff_odd)
next
  assume "bit v n"
  then have "odd (unat v div 2 ^ n)"
    by (simp add: bit_unat_iff [symmetric] bit_iff_odd)
  then have "\<not> unat v < 2 ^ n" by (auto dest: div_less)
  with assms(2) have "(2::nat) ^ n < 2 ^ Suc m" by linarith
  then have "n < Suc m" by (rule power_less_imp_less_exp [rotated]) simp
  then show "n \<le> m" by simp
qed

lemma smear_mask:
  assumes "2 ^ m \<le> unat v" and "unat v < 2 ^ Suc m"
  shows "smear v = mask (Suc m)"
proof (rule bit_word_eqI)
  fix n :: nat
  assume n: "n < LENGTH(64)"
  note top = bit_top_unique [OF assms]
  have m: "m < 64" using top(1) bit_imp_le_length by fastforce
  show "bit (smear v) n = bit (mask (Suc m) :: u64) n"
  proof
    assume "bit (smear v) n"
    then obtain k where "bit v (n + k)" by (auto simp: bit_smear)
    then have "n \<le> m" using top(2) by fastforce
    with n show "bit (mask (Suc m) :: u64) n" by (simp add: bit_mask_iff)
  next
    assume "bit (mask (Suc m) :: u64) n"
    then have "n \<le> m" by (simp add: bit_mask_iff less_Suc_eq_le)
    with top(1) m have "m - n < 64" "bit v (n + (m - n))" by auto
    then show "bit (smear v) n" unfolding bit_smear by blast
  qed
qed

lemma tgen_next_pow2_u64_smear: "v \<noteq> 0 \<Longrightarrow> tgen_next_pow2_u64 v = smear (v - 1) + 1"
  by (simp add: tgen_next_pow2_u64_def smear_def Let_def)

lemma next_pow2_in_range:
  assumes "0 < unat v" and "unat v \<le> 2 ^ 63"
  shows "\<exists>n. unat (tgen_next_pow2_u64 v) = 2 ^ n \<and> unat v \<le> 2 ^ n \<and> 2 ^ n < 2 * unat v"
proof (cases "unat v = 1")
  case True
  have "v = word_of_nat (unat v)" by simp
  with True have "v = 1" by simp
  then show ?thesis
    by (intro exI [of _ 0]) (simp add: tgen_next_pow2_u64_def)
next
  case False
  from assms have v: "v \<noteq> 0" by auto
  have uv: "unat (v - 1) = unat v - 1" using v by (simp add: unat_minus_one)
  with False assms have pos: "0 < unat (v - 1)" by simp
  from log2_bounds [OF pos] obtain m where m: "2 ^ m \<le> unat (v - 1)" "unat (v - 1) < 2 ^ Suc m" .
  have "(2::nat) ^ m < 2 ^ 63" using m uv assms by linarith
  then have m63: "m < 63" by (rule power_less_imp_less_exp [rotated]) simp
  have "tgen_next_pow2_u64 v = mask (Suc m) + 1"
    using tgen_next_pow2_u64_smear [OF v] smear_mask [OF m] by simp
  also have "\<dots> = 2 ^ Suc m" by (simp add: mask_eq_exp_minus_1)
  finally have eq: "tgen_next_pow2_u64 v = 2 ^ Suc m" .
  have "unat ((2::u64) ^ Suc m) = 2 ^ Suc m"
    using m63 by (intro unat_2_power) simp
  then have "unat (tgen_next_pow2_u64 v) = 2 ^ Suc m" by (simp only: eq)
  with m uv assms show ?thesis by (intro exI [of _ "Suc m"]) auto
qed

lemma next_pow2_out_of_range:
  assumes "2 ^ 63 < unat v"
  shows "tgen_next_pow2_u64 v = 0"
proof -
  have v: "v \<noteq> 0" using assms by auto
  have uv: "unat (v - 1) = unat v - 1" using v by (simp add: unat_minus_one)
  have "2 ^ 63 \<le> unat (v - 1)" "unat (v - 1) < 2 ^ Suc 63"
    using assms uv unat_lt_u64 [of "v - 1"] by auto
  from smear_mask [OF this] tgen_next_pow2_u64_smear [OF v] show ?thesis
    by (simp add: mask_eq_exp_minus_1)
qed

text \<open>
  \<open>tgen_next_pow2_u64\<close> returns the least power of two that is at least its argument, for every
  argument up to \<open>2 ^ 63\<close>; 0 is rounded to 1, and above \<open>2 ^ 63\<close>, where no such value fits in 64 bits,
  the result wraps to 0.
\<close>

theorem next_pow2_correct:
  "tgen_next_pow2_u64 v =
     (if v = 0 then 1 else if 2 ^ 63 < unat v then 0
      else word_of_nat (LEAST p. (\<exists>n. p = 2 ^ n) \<and> unat v \<le> p))"
proof (cases "v = 0 \<or> 2 ^ 63 < unat v")
  case True
  then show ?thesis
  proof (cases "v = 0")
    case True
    then show ?thesis by (simp add: tgen_next_pow2_u64_def)
  next
    case False
    with True have "2 ^ 63 < unat v" by blast
    with False show ?thesis by (simp add: next_pow2_out_of_range)
  qed
next
  case False
  then have "0 < unat v" "unat v \<le> 2 ^ 63" by (auto simp: unat_gt_0)
  from next_pow2_in_range [OF this] obtain n
    where n: "unat (tgen_next_pow2_u64 v) = 2 ^ n" "unat v \<le> 2 ^ n" "2 ^ n < 2 * unat v" by blast
  have "(LEAST p. (\<exists>k. p = 2 ^ k) \<and> unat v \<le> p) = 2 ^ n"
  proof (rule Least_equality)
    fix p :: nat
    assume p: "(\<exists>k. p = 2 ^ k) \<and> unat v \<le> p"
    then obtain k where k: "p = 2 ^ k" by blast
    have "(2::nat) ^ n < 2 ^ Suc k" using n p k by simp
    then have "n < Suc k" by (rule power_less_imp_less_exp [rotated]) simp
    then show "2 ^ n \<le> p" by (simp add: k)
  qed (use n in blast)
  then have "word_of_nat (LEAST p. (\<exists>n. p = 2 ^ n) \<and> unat v \<le> p) = tgen_next_pow2_u64 v"
    by (metis n(1) word_of_nat_unat)
  with False show ?thesis by auto
qed

subsection \<open>The generator\<close>

lemma xor_shift_nonzero_left:
  fixes x :: u64
  assumes "x XOR push_bit d x = 0" and "0 < d"
  shows "x = 0"
proof (rule ccontr)
  assume "x \<noteq> 0"
  then obtain n where "bit x n" by (auto simp: bit_eq_iff)
  define l where "l = (LEAST n. bit x n)"
  have l: "bit x l" unfolding l_def using \<open>bit x n\<close> by (rule LeastI)
  have "bit (push_bit d x) l"
    using xor_zero_imp_eq [OF assms(1)] l by simp
  then have "d \<le> l" "bit x (l - d)" by (auto simp: bit_push_bit_iff)
  then have "l \<le> l - d" unfolding l_def by (auto intro: Least_le)
  with assms(2) \<open>d \<le> l\<close> show False by simp
qed

lemma xor_shift_nonzero_right:
  fixes x :: u64
  assumes "x XOR drop_bit d x = 0" and "0 < d"
  shows "x = 0"
proof (rule ccontr)
  assume "x \<noteq> 0"
  then have "0 < unat x" by (simp add: unat_gt_0)
  from log2_bounds [OF this] obtain m where m: "2 ^ m \<le> unat x" "unat x < 2 ^ Suc m" .
  have "x = drop_bit d x" using assms(1) by (rule xor_zero_imp_eq)
  then have "bit (drop_bit d x) m" using bit_top_unique(1) [OF m] by simp
  then have "bit x (d + m)" by (simp add: bit_drop_bit_eq)
  then have "d + m \<le> m" by (rule bit_top_unique(2) [OF m])
  with assms(2) show False by simp
qed

lemma tgen_rand64_nonzero: "x \<noteq> 0 \<Longrightarrow> tgen_rand64 x \<noteq> 0"
  unfolding tgen_rand64_def Let_def
  by (metis xor_shift_nonzero_left xor_shift_nonzero_right zero_less_numeral)

text \<open>
  From any seed, the state of the xorshift64 generator never becomes 0, the fixed point at which
  it would return 0 for ever.
\<close>

theorem prng_never_zero: "tgen_rand_run n (tgen_prng_seed seed) \<noteq> 0"
proof -
  have "x \<noteq> 0 \<Longrightarrow> tgen_rand_run n x \<noteq> 0" for x
    by (induction n arbitrary: x) (auto simp: tgen_rand64_nonzero)
  then show ?thesis by (simp add: tgen_prng_seed_def)
qed

text \<open>The range helper stays in its interval, and fails only on the full 64-bit interval.\<close>

lemma tgen_rand_range_bounds:
  assumes "tgen_rand_range st lo hi = Some (r, st')" "lo \<le> hi"
  shows "lo \<le> r \<and> r \<le> hi"
proof (cases "hi \<le> lo")
  case True
  with assms show ?thesis by (auto simp: tgen_rand_range_def)
next
  case False
  define n where "n = hi - lo + 1"
  with False assms have n: "n \<noteq> 0" and r: "r = lo + tgen_rand64 st mod n"
    by (auto simp: tgen_rand_range_def split: if_splits)
  have d: "unat (hi - lo) = unat hi - unat lo" and lt: "unat lo < unat hi"
    using False by (simp_all add: word_nat_sub word_le_nat_alt)
  have "unat (hi - lo) + 1 < 2 ^ 64"
    using n unat_eq_zero [of n] unat_lt_u64 [of "hi - lo"]
    by (auto simp: n_def unat_word_ariths mod_Suc split: if_splits)
  then have un: "unat n = unat hi - unat lo + 1"
    unfolding n_def d [symmetric] by (subst word_nat_add_no_wrap) simp_all
  have "unat (tgen_rand64 st mod n) \<le> unat hi - unat lo"
    using un by (simp add: unat_mod)
  then have "unat r = unat lo + unat (tgen_rand64 st mod n)"
    unfolding r using lt unat_lt_u64 [of hi] by (intro word_nat_add_no_wrap) simp
  with \<open>unat (tgen_rand64 st mod n) \<le> unat hi - unat lo\<close> lt show ?thesis
    by (simp add: word_le_nat_alt)
qed

lemma tgen_rand_range_None_iff:
  "tgen_rand_range st lo hi = None \<longleftrightarrow> lo = 0 \<and> hi = U64_MAX"
proof -
  have "hi - lo + 1 = 0 \<longleftrightarrow> hi - lo = - 1"
    by (simp add: eq_neg_iff_add_eq_0)
  moreover have "\<not> hi \<le> lo \<and> hi - lo = - 1 \<longleftrightarrow> lo = 0 \<and> hi = - 1"
  proof
    assume h: "\<not> hi \<le> lo \<and> hi - lo = - 1"
    then have "unat hi - unat lo = unat (- 1 :: u64)"
      by (metis word_nat_sub linear)
    then have "unat hi - unat lo = 18446744073709551615" by (simp add: unsigned_minus_1_eq_mask mask_eq_exp_minus_1)
    then have "unat lo = 0" using unat_lt_u64 [of hi] by linarith
    then have "lo = 0" by (simp add: unat_eq_zero)
    with h show "lo = 0 \<and> hi = - 1" by simp
  qed auto
  ultimately show ?thesis by (auto simp: tgen_rand_range_def)
qed

subsection \<open>UUID and CIDR strings\<close>

lemma uuid_version_bits: "drop_bit 4 ((x AND 0x0f) OR 0x40 :: u8) = 4"
  by simp

lemma uuid_variant_bits: "drop_bit 6 ((x AND 0x3f) OR 0x80 :: u8) = 2"
  by simp

lemma le_bytes_list: "le_bytes a = [ucast a, ucast (drop_bit 8 a), ucast (drop_bit 16 a), ucast (drop_bit 24 a),
   ucast (drop_bit 32 a), ucast (drop_bit 40 a), ucast (drop_bit 48 a), ucast (drop_bit 56 a)]"
  by (simp add: le_bytes_def upt_rec)

lemma uuid_version_nibble: "unat ((x AND 0x0f) OR 0x40 :: u8) div 16 = 4"
proof -
  have "unat (drop_bit 4 ((x AND 0x0f) OR 0x40 :: u8)) = 4" by (simp only: uuid_version_bits) simp
  then show ?thesis by (simp add: drop_bit_eq_div unat_div)
qed

lemma uuid_variant_nibble: "unat ((x AND 0x3f) OR 0x80 :: u8) div 16 \<in> {8, 9, 10, 11}"
proof -
  have "unat (drop_bit 6 ((x AND 0x3f) OR 0x80 :: u8)) = 2" by (simp only: uuid_variant_bits) simp
  then have "unat ((x AND 0x3f) OR 0x80 :: u8) div 64 = 2" by (simp add: drop_bit_eq_div unat_div)
  then have "128 \<le> unat ((x AND 0x3f) OR 0x80 :: u8) \<and> unat ((x AND 0x3f) OR 0x80 :: u8) < 192"
    by arith
  then have "8 \<le> unat ((x AND 0x3f) OR 0x80 :: u8) div 16 \<and>
      unat ((x AND 0x3f) OR 0x80 :: u8) div 16 < 12"
    by arith
  then show ?thesis by auto
qed

text \<open>
  \<open>tgen_uuid_v4\<close> writes 36 characters in the 8-4-4-4-12 layout, with version digit \<open>4\<close> and a
  variant digit among \<open>8\<close>, \<open>9\<close>, \<open>a\<close>, \<open>b\<close>, whatever the generator's state.
\<close>

theorem uuid_v4_format:
  "let s = fst (tgen_uuid_v4 st) in
    length s = 36 \<and> s ! 8 = CHR ''-'' \<and> s ! 13 = CHR ''-'' \<and> s ! 18 = CHR ''-'' \<and>
    s ! 23 = CHR ''-'' \<and> s ! 14 = CHR ''4'' \<and> s ! 19 \<in> set ''89ab''"
proof -
  define s where s: "s = fst (tgen_uuid_v4 st)"
  obtain v where v: "s ! 19 = hexdigit (unat ((v AND 0x3f) OR 0x80 :: u8) div 16)"
    unfolding s by (simp add: tgen_uuid_v4_def uuid_raw_def Let_def le_bytes_list hex2_def)
  have "s ! 19 \<in> set ''89ab''" using uuid_variant_nibble [of v] by (auto simp: v hexdigit_def)
  then show ?thesis unfolding s Let_def
    by (simp add: tgen_uuid_v4_def uuid_raw_def Let_def le_bytes_list hex2_def hexdigit_def uuid_version_nibble)
qed

lemma unat_word_of_int_small:
  assumes "0 \<le> l" and "l \<le> 32"
  shows "unat (word_of_int l :: u8) = nat l"
  using assms by (simp add: unsigned_of_int take_bit_eq_mod)

text \<open>
  A successful \<open>tgen_parse_cidr\<close> stores a prefix length of at most 32 and the address that
  \<^verbatim>\<open>inet_pton\<close> gives for the part before the slash.
\<close>

theorem parse_cidr_result:
  assumes "tgen_parse_cidr inet_pton str = (0, net, len)"
  shows "\<exists>a l. net = Some a \<and> len = Some l \<and> unat l \<le> 32 \<and>
           inet_pton (takeWhile (\<lambda>c. c \<noteq> CHR ''/'') (take 31 str)) = Some a"
proof -
  define tmp where "tmp = take 31 str"
  define addr where "addr = takeWhile (\<lambda>c. c \<noteq> CHR ''/'') tmp"
  define l where "l = atoi (drop (length addr + 1) tmp)"
  from assms have "(\<exists>a. inet_pton addr = Some a \<and> net = Some a) \<and> len = Some (word_of_int l) \<and> 0 \<le> l \<and> l \<le> 32"
    unfolding tgen_parse_cidr_def tgen_parse_ipv4_def Let_def
      tmp_def [symmetric] addr_def [symmetric] l_def [symmetric]
    by (cases "inet_pton addr") (auto split: if_splits)
  then show ?thesis
    unfolding tmp_def [symmetric] addr_def [symmetric] by (auto simp: unat_word_of_int_small)
qed

text \<open>
  The characters after the slash are not checked: a missing length is accepted as 0, although the
  header of \<^verbatim>\<open>tgen_parse_cidr\<close> promises -1 on a parse error.
\<close>

lemma parse_cidr_missing_length:
  assumes "inet_pton ''10.0.0.0'' = Some b"
  shows "tgen_parse_cidr inet_pton ''10.0.0.0/'' = (0, Some b, Some 0)"
  using assms by (simp add: tgen_parse_cidr_def tgen_parse_ipv4_def atoi_def)

theorem parse_cidr_result_witness:
  "\<exists>a l. Some 10 = Some a \<and> Some (8::u8) = Some l \<and> unat l \<le> 32 \<and>
     (\<lambda>s. if s = ''10.0.0.0'' then Some (10::u32) else None)
       (takeWhile (\<lambda>c. c \<noteq> CHR ''/'') (take 31 ''10.0.0.0/8'')) = Some a"
  by (rule parse_cidr_result)
    (simp add: tgen_parse_cidr_def tgen_parse_ipv4_def atoi_def is_space_def is_digit_def)

end
