(* ===== verification/TcbStore.thy ===== *)
theory TcbStore
  imports TimerWheel Util
begin

text \<open>
  The per-worker TCB store of \<^verbatim>\<open>net/tcp_tcb.c\<close>: a stack of free blocks and an open-addressing hash
  table with linear probing and tombstones.  \<open>store_ok\<close> is its invariant; the interface
  \<open>conn_table\<close> states the store as a bounded finite map from connection tuples to blocks, and the
  store is interpreted as such a table.
\<close>

type_synonym tuple4 = "u32 \<times> u16 \<times> u32 \<times> u16"

definition tuple_hash :: "tuple4 \<Rightarrow> u32" where
  "tuple_hash key =
     (case key of (s_ip, s_port, d_ip, d_port) \<Rightarrow>
        let k = push_bit 32 (ucast s_ip) XOR ucast d_ip XOR push_bit 16 (ucast s_port) XOR ucast d_port :: u64;
            k = k XOR drop_bit 33 k;
            k = k * 0xff51afd7ed558ccd;
            k = k XOR drop_bit 33 k;
            k = k * 0xc4ceb9fe1a85ec53;
            k = k XOR drop_bit 33 k
        in ucast k)"

text \<open>
  Initialisation; the three flags say whether the three \<^verbatim>\<open>rte_zmalloc_socket\<close> calls succeed.
\<close>

definition free_stack_init :: "nat \<Rightarrow> nat list" where
  "free_stack_init cap = map (\<lambda>i. cap - 1 - i) [0..<cap]"

definition tcb_store_init :: "bool \<Rightarrow> bool \<Rightarrow> bool \<Rightarrow> u32 \<Rightarrow> 'a tcb_store_scheme \<Rightarrow> int \<times> 'a tcb_store_scheme" where
  "tcb_store_init ok_tcbs ok_ht ok_free cap st =
     (let st = st\<lparr>tcbs := [], capacity := 0, count := 0, ht := [], ht_size := 0, ht_mask := 0,
                  free_stack := [], free_top := 0\<rparr>
      in if \<not> ok_tcbs then (-1, st)
         else
           let size = ucast (tgen_next_pow2_u64 (ucast cap * 2)) :: u32;
               st = st\<lparr>ht_size := unat size, ht_mask := unat (size - 1)\<rparr>
           in if \<not> ok_ht \<or> \<not> ok_free then (-1, st)
              else (0, st\<lparr>tcbs := replicate (unat cap) tcb_zero,
                          ht := replicate (unat size) (-1),
                          free_stack := free_stack_init (unat cap), free_top := unat cap,
                          capacity := unat cap, count := 0\<rparr>))"

text \<open>The slots a tuple probes, in order.\<close>

definition probes :: "'a tcb_store_scheme \<Rightarrow> tuple4 \<Rightarrow> nat list" where
  "probes st key =
     (let h = unat (tuple_hash key) AND ht_mask st
      in map (\<lambda>k. (h + k) AND ht_mask st) [0..<ht_size st])"

fun ht_insert :: "int list \<Rightarrow> int \<Rightarrow> nat list \<Rightarrow> int list" where
  "ht_insert tab idx [] = tab"
| "ht_insert tab idx (slot # rest) =
     (if tab ! slot = -1 \<or> tab ! slot = -2 then tab[slot := idx] else ht_insert tab idx rest)"

fun ht_delete :: "int list \<Rightarrow> int \<Rightarrow> nat list \<Rightarrow> int list" where
  "ht_delete tab idx [] = tab"
| "ht_delete tab idx (slot # rest) =
     (if tab ! slot = idx then tab[slot := -2]
      else if tab ! slot = -1 then tab else ht_delete tab idx rest)"

definition tcb_matches :: "tuple4 \<Rightarrow> tcb \<Rightarrow> bool" where
  "tcb_matches key t \<longleftrightarrow>
     (case key of (s_ip, s_port, d_ip, d_port) \<Rightarrow>
        in_use t \<and> src_ip t = s_ip \<and> src_port t = s_port \<and> dst_ip t = d_ip \<and> dst_port t = d_port)"

fun ht_find :: "tcb list \<Rightarrow> int list \<Rightarrow> tuple4 \<Rightarrow> nat list \<Rightarrow> nat option" where
  "ht_find ts tab key [] = None"
| "ht_find ts tab key (slot # rest) =
     (let idx = tab ! slot
      in if idx = -1 then None
         else if idx < 0 then ht_find ts tab key rest
         else if tcb_matches key (ts ! nat idx) then Some (nat idx)
         else ht_find ts tab key rest)"

definition tcb_alloc :: "tuple4 \<Rightarrow> 'a tcb_store_scheme \<Rightarrow> nat option \<times> 'a tcb_store_scheme" where
  "tcb_alloc key st =
     (case key of (s_ip, s_port, d_ip, d_port) \<Rightarrow>
      if free_top st = 0 then (None, st)
      else
        let idx = free_stack st ! (free_top st - 1);
            st = st\<lparr>free_top := free_top st - 1\<rparr>;
            st = upd_tcb idx (\<lambda>_. tcb_zero\<lparr>src_ip := s_ip, src_port := s_port, dst_ip := d_ip,
                   dst_port := d_port, in_use := True, tw_slot := TIMER_SLOT_NONE,
                   tw_next := UINT32_MAX, tw_prev := UINT32_MAX, dack_next := UINT32_MAX\<rparr>) st;
            st = st\<lparr>ht := ht_insert (ht st) (int idx) (probes st key)\<rparr>
        in (Some idx, st\<lparr>count := count st + 1\<rparr>))"

definition tcb_lookup :: "tuple4 \<Rightarrow> 'a tcb_store_scheme \<Rightarrow> nat option" where
  "tcb_lookup key st = ht_find (tcbs st) (ht st) key (probes st key)"

definition key_of :: "tcb \<Rightarrow> tuple4" where
  "key_of t = (src_ip t, src_port t, dst_ip t, dst_port t)"

text \<open>Releasing the send buffer is part of zeroing the block, which owns it.\<close>

definition tcb_free :: "nat \<Rightarrow> 'a conn_scheme \<Rightarrow> 'a conn_scheme" where
  "tcb_free i st =
     (if \<not> in_use (tcb_at st i) then st
      else
        let st = tcp_timer_cancel i st;
            key = key_of (tcb_at st i);
            st = upd_tcb i (\<lambda>_. tcb_zero) st;
            st = st\<lparr>count := count st - 1\<rparr>;
            st = st\<lparr>free_stack := (free_stack st)[free_top st := i], free_top := free_top st + 1\<rparr>
        in st\<lparr>ht := ht_delete (ht st) (int i) (probes st key)\<rparr>)"

definition tcb_store_reset :: "'a conn_scheme \<Rightarrow> 'a conn_scheme" where
  "tcb_store_reset st =
     (if tcbs st = [] then st
      else st\<lparr>tw_slots := replicate TIMER_WHEEL_SLOTS UINT32_MAX, tw_overflow := UINT32_MAX,
              tw_dack_head := UINT32_MAX, tcbs := replicate (capacity st) tcb_zero, count := 0,
              ht := replicate (ht_size st) (-1), free_stack := free_stack_init (capacity st),
              free_top := capacity st\<rparr>)"

subsection \<open>Probing\<close>

text \<open>
  \<open>placed tab ps i\<close>: some slot of the probe sequence holds \<open>i\<close> and no slot before it is empty.
\<close>

definition placed :: "int list \<Rightarrow> nat list \<Rightarrow> nat \<Rightarrow> bool" where
  "placed tab ps i \<longleftrightarrow>
     (\<exists>as s bs. ps = as @ s # bs \<and> tab ! s = int i \<and> (\<forall>x\<in>set as. tab ! x \<noteq> -1))"

lemma ht_find_sound: "ht_find ts tab key ps = Some i \<Longrightarrow> tcb_matches key (ts ! i)"
  by (induction ps) (auto simp: Let_def split: if_splits)

lemma ht_find_complete:
  assumes "placed tab ps i" "tcb_matches key (ts ! i)"
  shows "\<exists>j. ht_find ts tab key ps = Some j"
proof -
  from assms(1) obtain as s bs where ps: "ps = as @ s # bs" "tab ! s = int i" "\<forall>x\<in>set as. tab ! x \<noteq> -1"
    by (auto simp: placed_def)
  then show ?thesis unfolding ps(1)
    using assms(2) by (induction as) (auto simp: Let_def)
qed

lemma ht_find_index:
  assumes "ht_find ts tab key ps = Some i"
  shows "\<exists>s\<in>set ps. tab ! s = int i"
  using assms by (induction ps) (auto simp: Let_def split: if_splits)

lemma ht_insert_cases:
  assumes "\<exists>s\<in>set ps. tab ! s = -1 \<or> tab ! s = -2"
  shows "\<exists>as s bs. ps = as @ s # bs \<and> (tab ! s = -1 \<or> tab ! s = -2) \<and>
     (\<forall>x\<in>set as. tab ! x \<noteq> -1 \<and> tab ! x \<noteq> -2) \<and> ht_insert tab idx ps = tab[s := idx]"
  using assms
proof (induction ps)
  case (Cons p ps)
  show ?case
  proof (cases "tab ! p = -1 \<or> tab ! p = -2")
    case True
    then show ?thesis by (intro exI [of _ "[]"]) auto
  next
    case False
    with Cons obtain as s bs where "ps = as @ s # bs" "tab ! s = -1 \<or> tab ! s = -2"
      "\<forall>x\<in>set as. tab ! x \<noteq> -1 \<and> tab ! x \<noteq> -2" "ht_insert tab idx ps = tab[s := idx]" by auto
    with False show ?thesis by (intro exI [of _ "p # as"]) auto
  qed
qed simp

lemma ht_delete_placed:
  assumes "placed tab ps i"
  shows "\<exists>s\<in>set ps. tab ! s = int i \<and> ht_delete tab (int i) ps = tab[s := -2]"
proof -
  from assms obtain as s bs where ps: "ps = as @ s # bs" "tab ! s = int i" "\<forall>x\<in>set as. tab ! x \<noteq> -1"
    by (auto simp: placed_def)
  then show ?thesis unfolding ps(1) by (induction as) auto
qed

text \<open>A slot that is not empty may be overwritten by anything but the empty mark, except where \<open>i\<close> is.\<close>

lemma placed_update:
  assumes "placed tab ps i" and "v \<noteq> -1" and "tab ! s \<noteq> int i" and "\<forall>x\<in>set ps. x < length tab"
  shows "placed (tab[s := v]) ps i"
proof -
  from assms(1) obtain as t bs where ps: "ps = as @ t # bs" "tab ! t = int i" "\<forall>x\<in>set as. tab ! x \<noteq> -1"
    by (auto simp: placed_def)
  have "s \<noteq> t" using ps(2) assms(3) by auto
  moreover have "\<forall>x\<in>set as. tab[s := v] ! x \<noteq> -1"
    using ps assms(2,4) by (auto simp: nth_update_if)
  ultimately show ?thesis
    unfolding placed_def using ps by (intro exI [of _ as] exI [of _ t] exI [of _ bs]) simp
qed

text \<open>With a table of a power of two, every slot is probed exactly once.\<close>

lemma probes_mod:
  assumes "ht_size st = 2 ^ b" "ht_mask st = ht_size st - 1"
  shows "probes st key = map (\<lambda>k. (unat (tuple_hash key) mod 2 ^ b + k) mod 2 ^ b) [0..<2 ^ b]"
  using assms by (simp add: probes_def Let_def and_mask_nat_mod del: One_nat_def)

lemma probes_set:
  assumes "ht_size st = 2 ^ b" "ht_mask st = ht_size st - 1"
  shows "set (probes st key) = {..<ht_size st}"
proof -
  define n h where "n = (2::nat) ^ b" and "h = unat (tuple_hash key) mod 2 ^ b"
  have n: "0 < n" "h < n" by (simp_all add: n_def h_def)
  have "x \<in> (\<lambda>k. (h + k) mod n) ` {0..<n}" if "x < n" for x
  proof (rule image_eqI)
    show "x = (h + (if h \<le> x then x - h else n + x - h)) mod n" using that n by auto
    show "(if h \<le> x then x - h else n + x - h) \<in> {0..<n}" using that n by auto
  qed
  then have "(\<lambda>k. (h + k) mod n) ` {0..<n} = {..<n}" using n by auto
  then show ?thesis
    unfolding probes_mod [OF assms] by (simp add: assms(1) n_def h_def)
qed

subsection \<open>The invariant\<close>

definition store_shape :: "'a tcb_store_scheme \<Rightarrow> bool" where
  "store_shape st \<longleftrightarrow>
     length (tcbs st) = capacity st \<and> capacity st < 2 ^ 31 \<and> capacity st \<le> ht_size st \<and>
     (\<exists>b. ht_size st = 2 ^ b) \<and> ht_mask st = ht_size st - 1 \<and> length (ht st) = ht_size st \<and>
     length (free_stack st) = capacity st"

text \<open>The free stack holds the unused blocks, once each, and \<open>count\<close> the number of used ones.\<close>

definition free_ok :: "'a tcb_store_scheme \<Rightarrow> bool" where
  "free_ok st \<longleftrightarrow>
     free_top st \<le> capacity st \<and> distinct (take (free_top st) (free_stack st)) \<and>
     set (take (free_top st) (free_stack st)) = {i. i < capacity st \<and> \<not> in_use (tcb_at st i)} \<and>
     count st = word_of_nat (capacity st - free_top st)"

text \<open>
  The hash table holds each used block once, where a probe for its tuple finds it before an empty slot.
\<close>

definition ht_ok :: "'a tcb_store_scheme \<Rightarrow> bool" where
  "ht_ok st \<longleftrightarrow>
     (\<forall>s<ht_size st. ht st ! s \<in> {-1, -2} \<or>
        (\<exists>i<capacity st. ht st ! s = int i \<and> in_use (tcb_at st i))) \<and>
     (\<forall>s<ht_size st. \<forall>r<ht_size st. ht st ! s = ht st ! r \<and> 0 \<le> ht st ! s \<longrightarrow> s = r) \<and>
     (\<forall>i<capacity st. in_use (tcb_at st i) \<longrightarrow> placed (ht st) (probes st (key_of (tcb_at st i))) i)"

definition store_ok :: "'a tcb_store_scheme \<Rightarrow> bool" where
  "store_ok st \<longleftrightarrow> store_shape st \<and> free_ok st \<and> ht_ok st"

lemma store_shapeD:
  assumes "store_shape st"
  shows "length (tcbs st) = capacity st" "capacity st < 2 ^ 31" "length (ht st) = ht_size st"
    "length (free_stack st) = capacity st"
  using assms by (simp_all add: store_shape_def)

lemma free_okD:
  assumes "free_ok st"
  shows "free_top st \<le> capacity st" "distinct (take (free_top st) (free_stack st))"
    "set (take (free_top st) (free_stack st)) = {i. i < capacity st \<and> \<not> in_use (tcb_at st i)}"
    "count st = word_of_nat (capacity st - free_top st)"
  using assms by (simp_all add: free_ok_def)

text \<open>The code never opens a second connection with the tuple of a live one.\<close>

definition keys_unique :: "'a tcb_store_scheme \<Rightarrow> bool" where
  "keys_unique st \<longleftrightarrow>
     (\<forall>i<capacity st. \<forall>j<capacity st. in_use (tcb_at st i) \<and> in_use (tcb_at st j) \<and>
        key_of (tcb_at st i) = key_of (tcb_at st j) \<longrightarrow> i = j)"

lemma tcb_matches_iff: "tcb_matches key t \<longleftrightarrow> in_use t \<and> key_of t = key"
  by (auto simp: tcb_matches_def key_of_def split: prod.splits)

lemma shape_probes:
  assumes "store_shape st"
  shows "set (probes st key) = {..<ht_size st}"
proof -
  from assms obtain b where "ht_size st = 2 ^ b" "ht_mask st = ht_size st - 1"
    by (auto simp: store_shape_def)
  then show ?thesis by (rule probes_set)
qed

lemma probes_cong:
  "ht_size st' = ht_size st \<Longrightarrow> ht_mask st' = ht_mask st \<Longrightarrow> probes st' key = probes st key"
  by (simp add: probes_def)

text \<open>
  Lookup finds a block exactly when some live block has the tuple; the block found has it.
\<close>

lemma lookup_sound:
  assumes "store_ok st" "tcb_lookup key st = Some i"
  shows "i < capacity st \<and> in_use (tcb_at st i) \<and> key_of (tcb_at st i) = key"
proof -
  have m: "tcb_matches key (tcbs st ! i)"
    using assms(2) unfolding tcb_lookup_def by (rule ht_find_sound)
  from ht_find_index [OF assms(2) [unfolded tcb_lookup_def]] obtain s where
    s: "s \<in> set (probes st key)" "ht st ! s = int i" by blast
  then have "s < ht_size st" using assms(1) shape_probes [of st key] by (simp add: store_ok_def)
  with s assms(1) have "i < capacity st" by (auto simp: store_ok_def ht_ok_def)
  with m show ?thesis by (simp add: tcb_matches_iff tcb_at_def)
qed

lemma lookup_complete:
  assumes "store_ok st" "i < capacity st" "in_use (tcb_at st i)"
  shows "\<exists>j. tcb_lookup (key_of (tcb_at st i)) st = Some j"
proof -
  have "placed (ht st) (probes st (key_of (tcb_at st i))) i"
    using assms by (auto simp: store_ok_def ht_ok_def)
  moreover have "tcb_matches (key_of (tcb_at st i)) (tcbs st ! i)"
    using assms(3) by (simp add: tcb_matches_iff tcb_at_def)
  ultimately show ?thesis unfolding tcb_lookup_def by (rule ht_find_complete)
qed

lemma lookup_unique:
  assumes "store_ok st" "keys_unique st"
  shows "tcb_lookup key st = Some i \<longleftrightarrow>
    i < capacity st \<and> in_use (tcb_at st i) \<and> key_of (tcb_at st i) = key"
proof
  assume "tcb_lookup key st = Some i"
  then show "i < capacity st \<and> in_use (tcb_at st i) \<and> key_of (tcb_at st i) = key"
    by (rule lookup_sound [OF assms(1)])
next
  assume i: "i < capacity st \<and> in_use (tcb_at st i) \<and> key_of (tcb_at st i) = key"
  with lookup_complete [OF assms(1), of i] obtain j where j: "tcb_lookup key st = Some j" by auto
  from lookup_sound [OF assms(1) j] i assms(2) have "j = i" by (auto simp: keys_unique_def)
  with j show "tcb_lookup key st = Some i" by simp
qed

subsection \<open>Allocation\<close>

text \<open>The table always has a reusable slot while a block is free.\<close>

lemma ht_has_room:
  assumes "store_ok st" "0 < free_top st"
  shows "\<exists>s\<in>set (probes st key). ht st ! s = -1 \<or> ht st ! s = -2"
proof (rule ccontr)
  assume "\<not> ?thesis"
  then have full: "\<forall>s<ht_size st. ht st ! s \<noteq> -1 \<and> ht st ! s \<noteq> -2"
    using assms(1) shape_probes [of st key] by (simp add: store_ok_def)
  define used where "used = {i. i < capacity st \<and> in_use (tcb_at st i)}"
  have ok: "store_shape st" "free_ok st" "ht_ok st" using assms(1) by (auto simp: store_ok_def)
  have "(\<lambda>s. nat (ht st ! s)) ` {..<ht_size st} \<subseteq> used"
  proof
    fix i assume "i \<in> (\<lambda>s. nat (ht st ! s)) ` {..<ht_size st}"
    then obtain s where s: "s < ht_size st" "i = nat (ht st ! s)" by auto
    with full ok(3) obtain j where "j < capacity st" "ht st ! s = int j" "in_use (tcb_at st j)"
      unfolding ht_ok_def by blast
    with s show "i \<in> used" by (simp add: used_def)
  qed
  moreover have "inj_on (\<lambda>s. nat (ht st ! s)) {..<ht_size st}"
  proof (rule inj_onI)
    fix s r assume a: "s \<in> {..<ht_size st}" "r \<in> {..<ht_size st}" "nat (ht st ! s) = nat (ht st ! r)"
    have "0 \<le> ht st ! s" if "s < ht_size st" for s
    proof -
      from full ok(3) that obtain j where "ht st ! s = int j" unfolding ht_ok_def by blast
      then show ?thesis by simp
    qed
    with a have "ht st ! s = ht st ! r" "0 \<le> ht st ! s" by (auto simp: nat_eq_iff)
    with a ok(3) show "s = r" by (auto simp: ht_ok_def)
  qed
  moreover have fin: "finite used" by (simp add: used_def)
  ultimately have "ht_size st \<le> card used" using card_inj_on_le by fastforce
  moreover have "used \<subset> {..<capacity st}"
  proof -
    have "free_stack st ! 0 \<in> set (take (free_top st) (free_stack st))"
      using assms(2) ok nth_mem [of 0 "take (free_top st) (free_stack st)"]
      by (simp add: store_shape_def free_ok_def)
    then have "free_stack st ! 0 < capacity st" "free_stack st ! 0 \<notin> used"
      using ok(2) by (auto simp: free_ok_def used_def)
    then show ?thesis by (auto simp: used_def)
  qed
  then have "card used < capacity st" using psubset_card_mono [of "{..<capacity st}" used] by simp
  ultimately show False using ok(1) by (simp add: store_shape_def)
qed


text \<open>A block freshly set up by the allocator.\<close>

definition fresh_tcb :: "tuple4 \<Rightarrow> tcb" where
  "fresh_tcb key =
     (case key of (s_ip, s_port, d_ip, d_port) \<Rightarrow>
        tcb_zero\<lparr>src_ip := s_ip, src_port := s_port, dst_ip := d_ip,
                   dst_port := d_port, in_use := True, tw_slot := TIMER_SLOT_NONE,
                   tw_next := UINT32_MAX, tw_prev := UINT32_MAX, dack_next := UINT32_MAX\<rparr>)"

lemma fresh_tcb_simps [simp]:
  "in_use (fresh_tcb key)" "key_of (fresh_tcb key) = key" "tw_slot (fresh_tcb key) = TIMER_SLOT_NONE"
  by (simp_all add: fresh_tcb_def key_of_def split: prod.splits)

lemma tcb_alloc_eq:
  "tcb_alloc key st =
     (if free_top st = 0 then (None, st)
      else let idx = free_stack st ! (free_top st - 1) in
        (Some idx, (upd_tcb idx (\<lambda>_. fresh_tcb key) st)
           \<lparr>free_top := free_top st - 1, ht := ht_insert (ht st) (int idx) (probes st key),
            count := count st + 1\<rparr>))"
  by (simp add: tcb_alloc_def fresh_tcb_def upd_tcb_def probes_def Let_def split: prod.splits)

lemma free_top_index:
  assumes "store_ok st" "0 < free_top st"
  defines "idx \<equiv> free_stack st ! (free_top st - 1)"
  shows "idx < capacity st \<and> \<not> in_use (tcb_at st idx) \<and>
    set (take (free_top st - 1) (free_stack st)) = {i. i < capacity st \<and> \<not> in_use (tcb_at st i)} - {idx} \<and>
    distinct (take (free_top st - 1) (free_stack st))"
proof -
  have ok: "store_shape st" "free_ok st" using assms by (auto simp: store_ok_def)
  then have l: "free_top st - 1 < length (free_stack st)" using assms(2) store_shapeD(4) free_okD(1) by fastforce
  have t: "take (free_top st) (free_stack st) = take (free_top st - 1) (free_stack st) @ [idx]"
    using take_Suc_conv_app_nth [OF l] assms(2) by (simp add: idx_def)
  note set = free_okD(3) [OF ok(2)] and dist = free_okD(2) [OF ok(2)]
  from set have "idx \<in> {i. i < capacity st \<and> \<not> in_use (tcb_at st i)}" unfolding t by auto
  moreover from set dist have "set (take (free_top st - 1) (free_stack st)) =
      {i. i < capacity st \<and> \<not> in_use (tcb_at st i)} - {idx}" unfolding t by auto
  moreover from dist have "distinct (take (free_top st - 1) (free_stack st))" unfolding t by simp
  ultimately show ?thesis by simp
qed

lemma tcb_alloc_ok:
  assumes ok: "store_ok st" and a: "tcb_alloc key st = (Some i, st')"
  shows "store_ok st' \<and> i < capacity st \<and> \<not> in_use (tcb_at st i) \<and> tcb_at st' i = fresh_tcb key \<and>
    (\<forall>j. j \<noteq> i \<longrightarrow> tcb_at st' j = tcb_at st j) \<and> capacity st' = capacity st"
proof -
  define idx where "idx = free_stack st ! (free_top st - 1)"
  have ft: "0 < free_top st" and i: "i = idx"
    and st': "st' = (upd_tcb i (\<lambda>_. fresh_tcb key) st)\<lparr>free_top := free_top st - 1,
       ht := ht_insert (ht st) (int i) (probes st key), count := count st + 1\<rparr>"
    using a by (auto simp: tcb_alloc_eq idx_def Let_def split: if_splits)
  note idx = free_top_index [OF ok ft, folded idx_def, folded i]
  have oks: "store_shape st" "free_ok st" "ht_ok st" using ok by (auto simp: store_ok_def)
  have len: "i < length (tcbs st)" using idx oks(1) by (simp add: store_shape_def)
  have at: "tcb_at st' j = (if j = i then fresh_tcb key else tcb_at st j)" for j
    using len by (simp add: st' tcb_at_def upd_tcb_def)
  have pr: "probes st' k = probes st k" for k by (simp add: st' probes_def)
  from ht_insert_cases [OF ht_has_room [OF ok ft], of key "int i"] obtain as s bs where
    s: "probes st key = as @ s # bs" "ht st ! s = -1 \<or> ht st ! s = -2"
      "\<forall>x\<in>set as. ht st ! x \<noteq> -1 \<and> ht st ! x \<noteq> -2" "ht st' = (ht st)[s := int i]"
    by (auto simp: st')
  have "s \<in> set (probes st key)" by (simp add: s(1))
  then have ss: "s < ht_size st" using shape_probes [OF oks(1)] by simp
  have lht: "length (ht st) = ht_size st" using oks(1) by (simp add: store_shape_def)
  have new: "ht st ! r \<noteq> int i" if "r < ht_size st" for r
    using oks(3) that idx unfolding ht_ok_def by fastforce
  have cap: "capacity st' = capacity st" "ht_size st' = ht_size st" by (simp_all add: st')
  have "store_shape st'" using oks(1) lht s(4) by (simp add: store_shape_def st')
  moreover have "free_ok st'"
  proof -
    have "{j. j < capacity st \<and> \<not> in_use (tcb_at st' j)} = {j. j < capacity st \<and> \<not> in_use (tcb_at st j)} - {i}"
      using at by auto
    moreover have "count st + 1 = word_of_nat (capacity st - (free_top st - 1))"
    proof -
      have "capacity st - (free_top st - 1) = Suc (capacity st - free_top st)"
        using ft free_okD(1) [OF oks(2)] by simp
      then show ?thesis unfolding free_okD(4) [OF oks(2)] by (simp only: of_nat_Suc add.commute)
    qed
    moreover have "free_top st - 1 \<le> capacity st" using free_okD(1) [OF oks(2)] by simp
    moreover have "capacity st' = capacity st" "free_top st' = free_top st - 1"
      "free_stack st' = free_stack st" "count st' = count st + 1" by (simp_all add: st')
    ultimately show ?thesis using idx unfolding free_ok_def by metis
  qed
  moreover have "ht_ok st'"
    unfolding ht_ok_def cap
  proof (intro conjI allI impI)
    fix r assume r: "r < ht_size st"
    show "ht st' ! r \<in> {-1, -2} \<or> (\<exists>j<capacity st. ht st' ! r = int j \<and> in_use (tcb_at st' j))"
    proof (cases "r = s")
      case True
      then show ?thesis using idx at ss lht s(4) by auto
    next
      case False
      have "ht st ! r \<in> {-1, -2} \<or> (\<exists>j<capacity st. ht st ! r = int j \<and> in_use (tcb_at st j))"
        using r oks(3) unfolding ht_ok_def by simp
      moreover have "in_use (tcb_at st' j)" if "in_use (tcb_at st j)" for j using at that by simp
      ultimately show ?thesis using False s(4) by auto
    qed
  next
    fix r q assume "r < ht_size st" "q < ht_size st" "ht st' ! r = ht st' ! q \<and> 0 \<le> ht st' ! r"
    then show "r = q"
      using new [of r] new [of q] oks(3) ss lht unfolding s(4) ht_ok_def
      by (auto simp: nth_update_if split: if_splits)
  next
    fix j assume j: "j < capacity st" "in_use (tcb_at st' j)"
    show "placed (ht st') (probes st' (key_of (tcb_at st' j))) j"
    proof (cases "j = i")
      case True
      have "placed ((ht st)[s := int i]) (probes st key) i"
        unfolding placed_def
      proof (intro exI conjI)
        show "probes st key = as @ s # bs" by (rule s(1))
        show "(ht st)[s := int i] ! s = int i" using ss lht by simp
        show "\<forall>x\<in>set as. (ht st)[s := int i] ! x \<noteq> -1"
          using s(3) ss lht by (auto simp: nth_list_update)
      qed
      then show ?thesis using True at s(4) pr by simp
    next
      case False
      have "placed (ht st) (probes st (key_of (tcb_at st j))) j"
        using j False at oks(3) unfolding ht_ok_def by simp
      moreover have "ht st ! s \<noteq> int j" using s(2) by auto
      ultimately have "placed ((ht st)[s := int i]) (probes st (key_of (tcb_at st j))) j"
        using shape_probes [OF oks(1)] lht by (intro placed_update) auto
      then show ?thesis using False at s(4) pr by simp
    qed
  qed
  ultimately show ?thesis using idx at by (simp add: store_ok_def) (simp add: st')
qed


subsection \<open>Release\<close>

text \<open>The store depends on the blocks only through liveness and tuple.\<close>

lemma store_ok_cong:
  assumes "length (tcbs st') = length (tcbs st)" "capacity st' = capacity st" "count st' = count st"
    "ht st' = ht st" "ht_size st' = ht_size st" "ht_mask st' = ht_mask st"
    "free_stack st' = free_stack st" "free_top st' = free_top st"
    "\<And>i. i < length (tcbs st) \<Longrightarrow> in_use (tcb_at st' i) = in_use (tcb_at st i) \<and> key_of (tcb_at st' i) = key_of (tcb_at st i)"
  shows "store_ok st \<Longrightarrow> store_ok st'"
proof -
  assume ok: "store_ok st"
  then have len: "length (tcbs st) = capacity st" by (simp add: store_ok_def store_shapeD)
  have u: "in_use (tcb_at st' i) = in_use (tcb_at st i)" "key_of (tcb_at st' i) = key_of (tcb_at st i)"
    if "i < capacity st" for i using assms(9) that len by auto
  have "store_shape st'" using ok assms by (simp add: store_ok_def store_shape_def)
  moreover have "{i. i < capacity st \<and> \<not> in_use (tcb_at st' i)} = {i. i < capacity st \<and> \<not> in_use (tcb_at st i)}"
    using u by auto
  then have "free_ok st'" using ok assms by (simp add: store_ok_def free_ok_def)
  moreover have "ht_ok st'"
    using ok u assms(2,4) probes_cong [OF assms(5,6)] assms(5)
    by (simp add: store_ok_def ht_ok_def) blast
  ultimately show "store_ok st'" by (simp add: store_ok_def)
qed

lemma core_key_of:
  assumes "tcb_core t' = tcb_core t"
  shows "in_use t' = in_use t \<and> key_of t' = key_of t"
proof -
  have "in_use (tcb_core x) = in_use x \<and> key_of (tcb_core x) = key_of x" for x
    by (simp add: tcb_core_def key_of_def)
  with assms show ?thesis by metis
qed

lemma store_ok_wheel_frame:
  assumes "wheel_frame st st'" "store_ok st"
  shows "store_ok st'"
proof (rule store_ok_cong [OF _ _ _ _ _ _ _ _ _ assms(2)])
  fix i assume "i < length (tcbs st)"
  then show "in_use (tcb_at st' i) = in_use (tcb_at st i) \<and> key_of (tcb_at st' i) = key_of (tcb_at st i)"
    using wheel_frame_core [OF assms(1)] core_key_of by blast
qed (use assms(1) wheel_frame_length in \<open>auto simp: wheel_frame_def\<close>)

text \<open>The store part of releasing a block that is no longer on the wheel.\<close>

definition release :: "nat \<Rightarrow> 'a tcb_store_scheme \<Rightarrow> 'a tcb_store_scheme" where
  "release i st =
     (upd_tcb i (\<lambda>_. tcb_zero) st)\<lparr>count := count st - 1,
        free_stack := (free_stack st)[free_top st := i], free_top := free_top st + 1,
        ht := ht_delete (ht st) (int i) (probes st (key_of (tcb_at st i)))\<rparr>"

lemma tcb_free_release:
  "tcb_free i st = (if in_use (tcb_at st i) then release i (tcp_timer_cancel i st) else st)"
  by (simp add: tcb_free_def release_def upd_tcb_def probes_def Let_def)

lemma free_top_less:
  assumes "store_ok st" "i < capacity st" "in_use (tcb_at st i)"
  shows "free_top st < capacity st"
proof -
  have ok: "free_ok st" "store_shape st" using assms(1) by (auto simp: store_ok_def)
  define F where "F = {j. j < capacity st \<and> \<not> in_use (tcb_at st j)}"
  have "F \<subset> {..<capacity st}" using assms(2,3) by (auto simp: F_def)
  then have "card F < capacity st" using psubset_card_mono [of "{..<capacity st}" F] by simp
  moreover have "card F = free_top st"
    using distinct_card [OF free_okD(2) [OF ok(1)]] free_okD(1,3) [OF ok(1)] store_shapeD(4) [OF ok(2)]
    by (simp add: F_def)
  ultimately show ?thesis by simp
qed

lemma release_ok:
  assumes ok: "store_ok st" and i: "i < capacity st" "in_use (tcb_at st i)"
  shows "store_ok (release i st) \<and> tcb_at (release i st) i = tcb_zero \<and>
    (\<forall>j. j \<noteq> i \<longrightarrow> tcb_at (release i st) j = tcb_at st j)"
proof -
  define st' where "st' = release i st"
  have oks: "store_shape st" "free_ok st" "ht_ok st" using ok by (auto simp: store_ok_def)
  have len: "i < length (tcbs st)" using i store_shapeD(1) [OF oks(1)] by simp
  have at: "tcb_at st' j = (if j = i then tcb_zero else tcb_at st j)" for j
    using len by (simp add: st'_def release_def tcb_at_def upd_tcb_def)
  have pr: "probes st' k = probes st k" for k by (simp add: st'_def release_def probes_def)
  note ft = free_top_less [OF ok i]
  have lht: "length (ht st) = ht_size st" and lfs: "length (free_stack st) = capacity st"
    using store_shapeD(3,4) [OF oks(1)] by auto
  have "placed (ht st) (probes st (key_of (tcb_at st i))) i" using oks(3) i by (auto simp: ht_ok_def)
  from ht_delete_placed [OF this] obtain s where
    s: "s \<in> set (probes st (key_of (tcb_at st i)))" "ht st ! s = int i" "ht st' = (ht st)[s := -2]"
    by (auto simp: st'_def release_def)
  have ss: "s < ht_size st" using s(1) shape_probes [OF oks(1), of "key_of (tcb_at st i)"] by simp
  have cap: "capacity st' = capacity st" "ht_size st' = ht_size st" by (simp_all add: st'_def release_def)
  have "store_shape st'" using oks(1) lht s(3) by (simp add: store_shape_def st'_def release_def)
  moreover have "free_ok st'"
  proof -
    have "take (free_top st') (free_stack st') = take (free_top st) (free_stack st) @ [i]"
      using ft lfs by (simp add: st'_def release_def take_Suc_conv_app_nth)
    moreover have "{j. j < capacity st \<and> \<not> in_use (tcb_at st' j)} = insert i {j. j < capacity st \<and> \<not> in_use (tcb_at st j)}"
      using at i by auto
    moreover have "count st - 1 = word_of_nat (capacity st - (free_top st + 1))"
    proof -
      have "capacity st - free_top st = Suc (capacity st - (free_top st + 1))" using ft by simp
      then show ?thesis unfolding free_okD(4) [OF oks(2)] by (simp only: of_nat_Suc) simp
    qed
    ultimately show ?thesis
      using free_okD [OF oks(2)] ft i by (simp add: free_ok_def cap) (simp add: st'_def release_def)
  qed
  moreover have "ht_ok st'"
    unfolding ht_ok_def cap
  proof (intro conjI allI impI)
    fix r assume r: "r < ht_size st"
    show "ht st' ! r \<in> {-1, -2} \<or> (\<exists>j<capacity st. ht st' ! r = int j \<and> in_use (tcb_at st' j))"
    proof (cases "r = s")
      case True
      then show ?thesis using ss lht s(3) by simp
    next
      case False
      then have "ht st ! r \<noteq> int i" using oks(3) r ss s(2) unfolding ht_ok_def by fastforce
      moreover have "ht st ! r \<in> {-1, -2} \<or> (\<exists>j<capacity st. ht st ! r = int j \<and> in_use (tcb_at st j))"
        using r oks(3) unfolding ht_ok_def by simp
      ultimately show ?thesis using False at s(3) by auto
    qed
  next
    fix r q assume "r < ht_size st" "q < ht_size st" "ht st' ! r = ht st' ! q \<and> 0 \<le> ht st' ! r"
    then show "r = q"
      using oks(3) ss lht unfolding s(3) ht_ok_def by (auto simp: nth_update_if split: if_splits)
  next
    fix j assume j: "j < capacity st" "in_use (tcb_at st' j)"
    then have ji: "j \<noteq> i" using at by auto
    have "placed (ht st) (probes st (key_of (tcb_at st j))) j"
      using j ji at oks(3) unfolding ht_ok_def by simp
    moreover have "ht st ! s \<noteq> int j" using s(2) ji by simp
    ultimately have "placed ((ht st)[s := -2]) (probes st (key_of (tcb_at st j))) j"
      using shape_probes [OF oks(1)] lht by (intro placed_update) auto
    then show "placed (ht st') (probes st' (key_of (tcb_at st' j))) j" using ji at s(3) pr by simp
  qed
  ultimately have "store_ok st'" by (simp add: store_ok_def)
  then show ?thesis using at unfolding st'_def by auto
qed

lemma tcb_free_ok:
  assumes "store_ok st" "i < capacity st" "in_use (tcb_at st i)"
  shows "store_ok (tcb_free i st) \<and> tcb_at (tcb_free i st) i = tcb_zero \<and>
    (\<forall>j<capacity st. j \<noteq> i \<longrightarrow> tcb_core (tcb_at (tcb_free i st) j) = tcb_core (tcb_at st j)) \<and>
    capacity (tcb_free i st) = capacity st"
proof -
  define st1 where "st1 = tcp_timer_cancel i st"
  have fr: "wheel_frame st st1" unfolding st1_def by (rule cancel_frame)
  have ok1: "store_ok st1" by (rule store_ok_wheel_frame [OF fr assms(1)])
  have cap: "capacity st1 = capacity st" using fr by (simp add: wheel_frame_def)
  have len: "length (tcbs st) = capacity st" using assms(1) by (simp add: store_ok_def store_shapeD)
  then have "i < length (tcbs st)" using assms(2) by simp
  then have use: "in_use (tcb_at st1 i)" using wheel_frame_in_use [OF fr] assms(3) by simp
  have core: "tcb_core (tcb_at st1 j) = tcb_core (tcb_at st j)" if "j < capacity st" for j
    using wheel_frame_core [OF fr] len that by simp
  have eq: "tcb_free i st = release i st1" using assms(3) by (simp add: tcb_free_release st1_def)
  from release_ok [OF ok1 _ use] assms(2) cap core show ?thesis
    unfolding eq by (auto simp: release_def)
qed


subsection \<open>The wheel under allocation and release\<close>

lemma wheel_ok_outside:
  assumes ok: "wheel_ok st cs" and i: "\<forall>s\<le>TIMER_WHEEL_SLOTS. i \<notin> set (cs s)"
    and at: "\<And>x. x < length (tcbs st) \<Longrightarrow> x \<noteq> i \<Longrightarrow> tcb_at st' x = tcb_at st x"
    and new: "i < length (tcbs st) \<Longrightarrow> \<not> in_use (tcb_at st' i) \<or> tw_slot (tcb_at st' i) = TIMER_SLOT_NONE"
    and len: "length (tcbs st') = length (tcbs st)"
    and h: "tw_slots st' = tw_slots st" "tw_overflow st' = tw_overflow st"
  shows "wheel_ok st' cs"
proof (rule wheel_okI)
  fix s assume s: "s \<le> TIMER_WHEEL_SLOTS"
  have eq: "tcb_at st' x = tcb_at st x" if "x \<in> set (cs s)" for x
    using at [OF wheel_okD(6) [OF ok s that]] i s that by auto
  have "wheel_head st' s = wheel_head st s" using h by (simp add: wheel_head_def)
  then show "dll (tcbs st') UINT32_MAX (wheel_head st' s) (cs s)"
    using dll_cong [OF wheel_okD(3) [OF ok s] len] eq by (simp add: tcb_at_def)
  show "distinct (cs s)" using ok s by (rule wheel_okD(4))
  fix x assume x: "x \<in> set (cs s)"
  show "in_use (tcb_at st' x) \<and> tw_slot (tcb_at st' x) = s"
    using wheel_okD(5) [OF ok s x] eq [OF x] by simp
next
  fix x assume x: "x < length (tcbs st')" "in_use (tcb_at st' x)" "tw_slot (tcb_at st' x) \<noteq> TIMER_SLOT_NONE"
  then have "x \<noteq> i" using new len by auto
  then show "tw_slot (tcb_at st' x) \<le> TIMER_WHEEL_SLOTS \<and> x \<in> set (cs (tw_slot (tcb_at st' x)))"
    using wheel_okD(7) [OF ok, of x] at [of x] x len by simp
qed (use wheel_okD(1,2) [OF ok] len h in auto)

lemma tcb_alloc_wheel_ok:
  assumes "store_ok st" "wheel_ok st cs" "tcb_alloc key st = (Some i, st')"
  shows "wheel_ok st' cs"
proof -
  note a = tcb_alloc_ok [OF assms(1,3)]
  have st': "\<exists>t fs h n c. st' = (upd_tcb i (\<lambda>_. t) st)\<lparr>free_top := fs, ht := h, count := c\<rparr>"
    using assms(3) by (auto simp: tcb_alloc_eq Let_def split: if_splits)
  have "i \<notin> set (cs s)" if "s \<le> TIMER_WHEEL_SLOTS" for s
    using wheel_okD(5) [OF assms(2) that] a by auto
  then show ?thesis
    using a st' by (intro wheel_ok_outside [OF assms(2), of i]) auto
qed

lemma tcb_free_wheel_ok:
  assumes "wheel_ok st cs" "i < length (tcbs st)"
  shows "\<exists>cs'. wheel_ok (tcb_free i st) cs'"
proof (cases "in_use (tcb_at st i)")
  case True
  define st1 where "st1 = tcp_timer_cancel i st"
  have ok1: "wheel_ok st1 (\<lambda>s. remove1 i (cs s))"
    unfolding st1_def tcp_timer_cancel_def by (rule wheel_remove_ok [OF assms True])
  have eq: "tcb_free i st = release i st1" using True by (simp add: tcb_free_release st1_def)
  have "\<forall>s\<le>TIMER_WHEEL_SLOTS. i \<notin> set (remove1 i (cs s))"
    using wheel_okD(4) [OF assms(1)] by simp
  then have "wheel_ok (release i st1) (\<lambda>s. remove1 i (cs s))"
    by (rule wheel_ok_outside [OF ok1]) (auto simp: release_def tcb_at_def upd_tcb_def)
  then show ?thesis unfolding eq by blast
next
  case False
  then show ?thesis using assms by (auto simp: tcb_free_release)
qed

lemma wheel_ok_empty:
  assumes "length (tcbs st) < UINT32_MAX" "\<forall>i<length (tcbs st). \<not> in_use (tcb_at st i)"
    "tw_slots st = replicate TIMER_WHEEL_SLOTS UINT32_MAX" "tw_overflow st = UINT32_MAX"
  shows "wheel_ok st (\<lambda>_. [])"
  by (rule wheel_okI) (use assms in \<open>auto simp: wheel_head_def\<close>)

subsection \<open>Initialisation and reset\<close>

lemma free_stack_init: "set (free_stack_init n) = {..<n} \<and> distinct (free_stack_init n) \<and> length (free_stack_init n) = n"
proof -
  have "(\<lambda>i. n - 1 - i) ` {0..<n} = {..<n}"
  proof
    show "{..<n} \<subseteq> (\<lambda>i. n - 1 - i) ` {0..<n}"
    proof
      fix x assume "x \<in> {..<n}"
      then show "x \<in> (\<lambda>i. n - 1 - i) ` {0..<n}" by (intro image_eqI [of _ _ "n - 1 - x"]) auto
    qed
  qed auto
  moreover have "inj_on (\<lambda>i. n - 1 - i) {0..<n}" by (auto simp: inj_on_def)
  ultimately show ?thesis by (simp add: free_stack_init_def distinct_map)
qed

text \<open>A store with the right shape, all blocks zeroed, an empty table and a full free stack.\<close>

lemma store_ok_empty:
  assumes "store_shape st" "tcbs st = replicate (capacity st) tcb_zero" "ht st = replicate (ht_size st) (-1)"
    "free_stack st = free_stack_init (capacity st)" "free_top st = capacity st" "count st = 0"
  shows "store_ok st"
proof -
  have "\<not> in_use (tcb_at st i)" if "i < capacity st" for i
    using assms(2) that by (simp add: tcb_at_def)
  moreover from this have "{i. i < capacity st \<and> \<not> in_use (tcb_at st i)} = {..<capacity st}" by auto
  ultimately show ?thesis
    using assms free_stack_init [of "capacity st"] by (simp add: store_ok_def free_ok_def ht_ok_def)
qed

lemma tcb_store_init_ok:
  assumes "0 < cap" "unat cap \<le> 2 ^ 30" and "tcb_store_init a b c cap st = (0, st')"
  shows "store_ok st' \<and> capacity st' = unat cap \<and> (\<forall>i<capacity st'. \<not> in_use (tcb_at st' i))"
proof -
  let ?v = "(ucast cap :: u64) * 2"
  have uc: "unat (ucast cap :: u64) = unat cap"
    using unat_lt_u32 [of cap] by (simp add: unsigned_ucast_eq take_bit_nat_eq_self)
  have v: "unat ?v = 2 * unat cap"
    using assms(2) uc by (subst word_nat_mult_no_wrap) auto
  have "0 < unat ?v" "unat ?v \<le> 2 ^ 63" using assms(1,2) v by (auto simp: word_less_nat_alt)
  from next_pow2_in_range [OF this] obtain n where
    n: "unat (tgen_next_pow2_u64 ?v) = 2 ^ n" "2 * unat cap \<le> 2 ^ n" "(2::nat) ^ n < 4 * unat cap"
    using v by auto
  have "(2::nat) ^ n < 2 ^ 32" using n(3) assms(2) by simp
  then have "n < 32" by (rule power_less_imp_less_exp [rotated]) simp
  then have size: "unat (ucast (tgen_next_pow2_u64 ?v) :: u32) = 2 ^ n"
    by (simp add: unsigned_ucast_eq n(1) take_bit_nat_eq_self)
  define size' where "size' = (ucast (tgen_next_pow2_u64 ?v) :: u32)"
  have "size' \<noteq> 0" using size unfolding size'_def by auto
  then have mask: "unat (size' - 1) = 2 ^ n - 1"
    using size by (simp add: unat_minus_one size'_def)
  have st': "st' = st\<lparr>tcbs := replicate (unat cap) tcb_zero, capacity := unat cap, count := 0,
      ht := replicate (unat size') (-1), ht_size := unat size', ht_mask := unat (size' - 1),
      free_stack := free_stack_init (unat cap), free_top := unat cap\<rparr>"
    using assms(3) by (auto simp: tcb_store_init_def Let_def size'_def split: if_splits)
  have "store_shape st'"
    using size mask n(2) assms(2) free_stack_init by (auto simp: store_shape_def st' size'_def)
  then have "store_ok st'" by (rule store_ok_empty) (simp_all add: st')
  moreover have "\<forall>i<capacity st'. \<not> in_use (tcb_at st' i)" by (simp add: st' tcb_at_def)
  ultimately show ?thesis by (simp add: st')
qed

lemma tcb_store_reset_ok:
  assumes "store_ok st"
  shows "store_ok (tcb_store_reset st)"
proof (cases "tcbs st = []")
  case True
  then show ?thesis using assms by (simp add: tcb_store_reset_def)
next
  case False
  have "store_shape (tcb_store_reset st)"
    using assms False free_stack_init by (simp add: store_ok_def store_shape_def tcb_store_reset_def)
  then show ?thesis
    by (rule store_ok_empty) (use False in \<open>simp_all add: tcb_store_reset_def\<close>)
qed

subsection \<open>The store as a bounded map\<close>

datatype 'k conn_op = Open 'k | Close 'k

text \<open>The abstract table: a set of at most \<open>cap\<close> open connections.\<close>

fun spec_op :: "nat \<Rightarrow> 'k conn_op \<Rightarrow> 'k set \<Rightarrow> 'k set" where
  "spec_op cap (Open k) S = (if k \<in> S \<or> card S = cap then S else insert k S)"
| "spec_op cap (Close k) S = S - {k}"

locale conn_table =
  fixes ok :: "'s \<Rightarrow> bool"
    and lookup :: "'k \<Rightarrow> 's \<Rightarrow> nat option"
    and alloc :: "'k \<Rightarrow> 's \<Rightarrow> nat option \<times> 's"
    and free :: "nat \<Rightarrow> 's \<Rightarrow> 's"
    and cap :: "'s \<Rightarrow> nat"
  assumes alloc_new: "ok s \<Longrightarrow> lookup k s = None \<Longrightarrow> alloc k s = (Some i, s') \<Longrightarrow>
      ok s' \<and> cap s' = cap s \<and> (\<forall>k'. lookup k' s' = (if k' = k then Some i else lookup k' s))"
    and alloc_full: "ok s \<Longrightarrow> alloc k s = (None, s') \<Longrightarrow> s' = s"
    and alloc_None_iff: "ok s \<Longrightarrow> fst (alloc k s) = None \<longleftrightarrow> card {k. lookup k s \<noteq> None} = cap s"
    and free_found: "ok s \<Longrightarrow> lookup k s = Some i \<Longrightarrow>
      ok (free i s) \<and> cap (free i s) = cap s \<and>
      (\<forall>k'. lookup k' (free i s) = (if k' = k then None else lookup k' s))"
begin

definition opened :: "'s \<Rightarrow> 'k set" where
  "opened s = {k. lookup k s \<noteq> None}"

fun apply_op :: "'k conn_op \<Rightarrow> 's \<Rightarrow> 's" where
  "apply_op (Open k) s = (if lookup k s = None then snd (alloc k s) else s)"
| "apply_op (Close k) s = (case lookup k s of None \<Rightarrow> s | Some i \<Rightarrow> free i s)"

lemma apply_op_refines:
  assumes "ok s"
  shows "ok (apply_op p s) \<and> cap (apply_op p s) = cap s \<and> opened (apply_op p s) = spec_op (cap s) p (opened s)"
proof (cases p)
  case (Open k)
  obtain r s' where a: "alloc k s = (r, s')" by force
  show ?thesis
  proof (cases "lookup k s = None")
    case True
    show ?thesis
    proof (cases r)
      case None
      then have "s' = s" "card (opened s) = cap s"
        using alloc_full [OF assms, of k s'] alloc_None_iff [OF assms, of k] a by (auto simp: opened_def)
      then show ?thesis using Open True a assms by simp
    next
      case (Some i)
      then have "card (opened s) \<noteq> cap s" using alloc_None_iff [OF assms, of k] a by (simp add: opened_def)
      moreover have "k \<notin> opened s" using True by (simp add: opened_def)
      moreover have "ok s' \<and> cap s' = cap s \<and> (\<forall>k'. lookup k' s' = (if k' = k then Some i else lookup k' s))"
        using alloc_new [OF assms True] a Some by blast
      ultimately show ?thesis using Open True a by (auto simp: opened_def)
    qed
  next
    case False
    then show ?thesis using Open assms by (auto simp: opened_def)
  qed
next
  case (Close k)
  show ?thesis
  proof (cases "lookup k s")
    case None
    then show ?thesis using Close assms by (auto simp: opened_def)
  next
    case (Some i)
    from free_found [OF assms Some] show ?thesis using Close Some by (auto simp: opened_def)
  qed
qed

lemma run_refines:
  "ok s \<Longrightarrow> ok (fold apply_op ps s) \<and> cap (fold apply_op ps s) = cap s \<and>
     opened (fold apply_op ps s) = fold (spec_op (cap s)) ps (opened s)"
  by (induction ps arbitrary: s) (simp_all add: apply_op_refines)

end


definition table_ok :: "'a conn_scheme \<Rightarrow> bool" where
  "table_ok st \<longleftrightarrow> store_ok st \<and> keys_unique st"

lemma keys_unique_cong:
  assumes "capacity st' = capacity st"
    "\<And>i. i < capacity st \<Longrightarrow> in_use (tcb_at st' i) \<Longrightarrow> in_use (tcb_at st i) \<and> key_of (tcb_at st' i) = key_of (tcb_at st i)"
  shows "keys_unique st \<Longrightarrow> keys_unique st'"
  using assms unfolding keys_unique_def by metis

lemma alloc_unique_keys:
  assumes "table_ok st" "tcb_lookup key st = None" "tcb_alloc key st = (Some i, st')"
  shows "table_ok st' \<and> capacity st' = capacity st \<and>
    (\<forall>k. tcb_lookup k st' = (if k = key then Some i else tcb_lookup k st))"
proof -
  have ok: "store_ok st" "keys_unique st" using assms(1) by (auto simp: table_ok_def)
  note a = tcb_alloc_ok [OF ok(1) assms(3)]
  have fresh: "key_of (tcb_at st j) \<noteq> key" if "j < capacity st" "in_use (tcb_at st j)" for j
    using lookup_complete [OF ok(1) that] assms(2) by auto
  have u': "keys_unique st'"
    unfolding keys_unique_def
  proof (intro allI impI)
    fix x y assume x: "x < capacity st'" "y < capacity st'"
      and "in_use (tcb_at st' x) \<and> in_use (tcb_at st' y) \<and> key_of (tcb_at st' x) = key_of (tcb_at st' y)"
    then show "x = y"
      using a fresh [of x] fresh [of y] ok(2) unfolding keys_unique_def
      by (cases "x = i"; cases "y = i") auto
  qed
  have ok': "store_ok st'" using a by simp
  have iff: "tcb_lookup k st' = Some j \<longleftrightarrow> (if k = key then j = i else tcb_lookup k st = Some j)" for k j
    using a fresh [of j] unfolding lookup_unique [OF ok' u'] lookup_unique [OF ok]
    by (cases "j = i") auto
  have "tcb_lookup k st' = (if k = key then Some i else tcb_lookup k st)" for k
    by (rule option_eqI) (use iff [of k] in auto)
  then show ?thesis using a ok' u' by (simp add: table_ok_def)
qed

lemma free_unique_keys:
  assumes "table_ok st" "tcb_lookup key st = Some i"
  shows "table_ok (tcb_free i st) \<and> capacity (tcb_free i st) = capacity st \<and>
    (\<forall>k. tcb_lookup k (tcb_free i st) = (if k = key then None else tcb_lookup k st))"
proof -
  have ok: "store_ok st" "keys_unique st" using assms(1) by (auto simp: table_ok_def)
  note l = lookup_sound [OF ok(1) assms(2)]
  define st' where "st' = tcb_free i st"
  from tcb_free_ok [OF ok(1)] l have f: "store_ok st'" "tcb_at st' i = tcb_zero"
    "capacity st' = capacity st"
    "\<And>j. j < capacity st \<Longrightarrow> j \<noteq> i \<Longrightarrow> in_use (tcb_at st' j) = in_use (tcb_at st j) \<and> key_of (tcb_at st' j) = key_of (tcb_at st j)"
    unfolding st'_def by (auto dest: core_key_of)
  have u': "keys_unique st'"
  proof (rule keys_unique_cong [OF f(3) _ ok(2)])
    fix j assume "j < capacity st" "in_use (tcb_at st' j)"
    then show "in_use (tcb_at st j) \<and> key_of (tcb_at st' j) = key_of (tcb_at st j)"
      using f(2) f(4) [of j] by (cases "j = i") auto
  qed
  have iff: "tcb_lookup k st' = Some j \<longleftrightarrow> (k \<noteq> key \<and> tcb_lookup k st = Some j)" for k j
  proof -
    have "j < capacity st \<and> in_use (tcb_at st j) \<and> key_of (tcb_at st j) = key \<Longrightarrow> j = i"
      using l ok(2) unfolding keys_unique_def by blast
    then show ?thesis
      using f l unfolding lookup_unique [OF f(1) u'] lookup_unique [OF ok] by (cases "j = i") auto
  qed
  have "tcb_lookup k st' = (if k = key then None else tcb_lookup k st)" for k
    by (rule option_eqI) (use iff [of k] in auto)
  then show ?thesis using f u' by (simp add: table_ok_def st'_def)
qed

lemma opened_card:
  assumes "table_ok st"
  shows "card {k. tcb_lookup k st \<noteq> None} = capacity st - free_top st"
proof -
  have ok: "store_ok st" "keys_unique st" using assms by (auto simp: table_ok_def)
  have oks: "free_ok st" "store_shape st" using ok(1) by (auto simp: store_ok_def)
  define U F where "U = {i. i < capacity st \<and> in_use (tcb_at st i)}"
    and "F = {i. i < capacity st \<and> \<not> in_use (tcb_at st i)}"
  have "{k. tcb_lookup k st \<noteq> None} = (\<lambda>i. key_of (tcb_at st i)) ` U"
  proof (intro set_eqI iffI)
    fix k assume "k \<in> {k. tcb_lookup k st \<noteq> None}"
    then obtain i where "tcb_lookup k st = Some i" by auto
    from lookup_sound [OF ok(1) this] show "k \<in> (\<lambda>i. key_of (tcb_at st i)) ` U" by (auto simp: U_def)
  next
    fix k assume "k \<in> (\<lambda>i. key_of (tcb_at st i)) ` U"
    then obtain i where "k = key_of (tcb_at st i)" "i < capacity st" "in_use (tcb_at st i)" by (auto simp: U_def)
    with lookup_complete [OF ok(1)] show "k \<in> {k. tcb_lookup k st \<noteq> None}" by fastforce
  qed
  moreover have "inj_on (\<lambda>i. key_of (tcb_at st i)) U"
    using ok(2) unfolding keys_unique_def U_def inj_on_def by blast
  ultimately have "card {k. tcb_lookup k st \<noteq> None} = card U" by (simp add: card_image)
  moreover have "card U + card F = capacity st"
  proof -
    have "U \<union> F = {..<capacity st}" "U \<inter> F = {}" by (auto simp: U_def F_def)
    then show ?thesis using card_Un_disjoint [of U F] by (simp add: U_def F_def)
  qed
  moreover have "card F = free_top st"
    using distinct_card [OF free_okD(2) [OF oks(1)]] free_okD(1,3) [OF oks(1)] store_shapeD(4) [OF oks(2)]
    by (simp add: F_def)
  ultimately show ?thesis by simp
qed

interpretation store: conn_table table_ok tcb_lookup tcb_alloc tcb_free capacity
proof
  fix s :: "'a conn_scheme" and k :: tuple4 and s' :: "'a conn_scheme"
  assume ok: "table_ok s"
  then have ft: "free_top s \<le> capacity s" by (simp add: table_ok_def store_ok_def free_okD)
  show "s' = s" if "tcb_alloc k s = (None, s')"
    using that by (auto simp: tcb_alloc_eq Let_def split: if_splits)
  show "fst (tcb_alloc k s) = None \<longleftrightarrow> card {k. tcb_lookup k s \<noteq> None} = capacity s"
    using ft unfolding opened_card [OF ok] by (auto simp: tcb_alloc_eq Let_def)
qed (fact alloc_unique_keys, fact free_unique_keys)

text \<open>
  Opens of new tuples.  \<open>tcb_alloc\<close> itself does not look for a duplicate: \<^verbatim>\<open>tcp_fsm_input\<close> has looked the tuple up before, and an active
  open uses a port that was free in the pool, which makes its tuple new (unless the RSS filter was applied again while connections hold ports).
\<close>

fun store_op :: "tuple4 conn_op \<Rightarrow> 'a conn_scheme \<Rightarrow> 'a conn_scheme" where
  "store_op (Open k) st = (if tcb_lookup k st = None then snd (tcb_alloc k st) else st)"
| "store_op (Close k) st = (case tcb_lookup k st of None \<Rightarrow> st | Some i \<Rightarrow> tcb_free i st)"

lemma store_op_eq: "store_op = store.apply_op"
proof (intro ext)
  fix p and st :: "'a conn_scheme"
  show "store_op p st = store.apply_op p st" by (cases p) simp_all
qed

text \<open>
  C3. The TCB store refines a bounded set of connections: after any sequence of opens and closes, from any
  well-formed store, exactly the tuples of the abstract set are found by lookup, a new tuple being
  refused only when all blocks are in use.  Tombstones and probe collisions never lose a connection.
\<close>

theorem store_refines_bounded_set:
  assumes "table_ok st"
  shows "table_ok (fold store_op ps st) \<and>
    {k. tcb_lookup k (fold store_op ps st) \<noteq> None} =
      fold (spec_op (capacity st)) ps {k. tcb_lookup k st \<noteq> None}"
  using store.run_refines [OF assms] by (simp add: store_op_eq store.opened_def)


text \<open>A freshly initialised store for two connections.\<close>

definition demo_store :: conn where
  "demo_store = snd (tcb_store_init True True True 2 demo_conn)"

lemma demo_store_init: "tcb_store_init True True True 2 demo_conn = (0, demo_store)"
  by (simp add: demo_store_def tcb_store_init_def Let_def)

lemma demo_store_ok: "table_ok demo_store"
proof -
  have "store_ok demo_store \<and> capacity demo_store = unat (2::u32) \<and>
      (\<forall>i<capacity demo_store. \<not> in_use (tcb_at demo_store i))"
    by (rule tcb_store_init_ok [OF _ _ demo_store_init]) simp_all
  then show ?thesis unfolding table_ok_def keys_unique_def by auto
qed

theorem store_refines_bounded_set_witness:
  "let ps = [Open (1, 2, 3, 4), Open (5, 6, 7, 8), Close (1, 2, 3, 4), Open (9, 9, 9, 9)] in
    table_ok (fold store_op ps demo_store) \<and>
    {k. tcb_lookup k (fold store_op ps demo_store) \<noteq> None} =
      fold (spec_op (capacity demo_store)) ps {k. tcb_lookup k demo_store \<noteq> None}"
  unfolding Let_def by (rule store_refines_bounded_set [OF demo_store_ok])

text \<open>
  Initialisation with a capacity of up to \<open>2 ^ 30\<close> yields a well-formed empty store whose hash
  table is a power of two of at least the number of blocks.
\<close>

theorem store_init_correct:
  assumes "0 < cap" and "unat cap \<le> 2 ^ 30" and "tcb_store_init a b c cap st = (0, st')"
  shows "store_ok st' \<and> capacity st' = unat cap \<and> free_top st' = capacity st' \<and>
    (\<forall>key. tcb_lookup key st' = None)"
proof -
  note i = tcb_store_init_ok [OF assms]
  have "free_top st' = capacity st'"
    using assms(3) by (auto simp: tcb_store_init_def Let_def split: if_splits)
  moreover have "tcb_lookup key st' = None" for key
    using i lookup_sound [of st' key] by (cases "tcb_lookup key st'") auto
  ultimately show ?thesis using i by simp
qed

theorem store_init_correct_witness:
  "store_ok demo_store \<and> capacity demo_store = unat (2::u32) \<and> free_top demo_store = capacity demo_store \<and>
    (\<forall>key. tcb_lookup key demo_store = None)"
  by (rule store_init_correct [OF _ _ demo_store_init]) simp_all

subsection \<open>The store and the wheel together\<close>

definition conn_ok :: "'a conn_scheme \<Rightarrow> bool" where
  "conn_ok st \<longleftrightarrow> store_ok st \<and> (\<exists>cs. wheel_ok st cs)"

lemma conn_ok_alloc [inv_intros]:
  assumes "conn_ok st"
  shows "conn_ok (snd (tcb_alloc key st))"
proof (cases "fst (tcb_alloc key st)")
  case None
  then show ?thesis using assms by (auto simp: tcb_alloc_eq Let_def split: if_splits)
next
  case (Some i)
  then have a: "tcb_alloc key st = (Some i, snd (tcb_alloc key st))" by (metis prod.collapse)
  from assms obtain cs where ok: "store_ok st" "wheel_ok st cs" by (auto simp: conn_ok_def)
  with tcb_alloc_ok [OF ok(1) a] tcb_alloc_wheel_ok [OF ok a] show ?thesis by (auto simp: conn_ok_def)
qed

lemma conn_ok_free [inv_intros]:
  assumes "conn_ok st" "i < capacity st"
  shows "conn_ok (tcb_free i st)"
proof (cases "in_use (tcb_at st i)")
  case True
  from assms obtain cs where ok: "store_ok st" "wheel_ok st cs" by (auto simp: conn_ok_def)
  have "i < length (tcbs st)" using ok(1) assms(2) by (simp add: store_ok_def store_shapeD)
  with tcb_free_ok [OF ok(1) assms(2) True] tcb_free_wheel_ok [OF ok(2)] show ?thesis
    by (auto simp: conn_ok_def)
next
  case False
  then show ?thesis using assms by (simp add: tcb_free_release)
qed

lemma conn_ok_reset [inv_intros]:
  assumes "conn_ok st" "0 < capacity st"
  shows "conn_ok (tcb_store_reset st)"
proof -
  have ok: "store_ok st" using assms by (simp add: conn_ok_def)
  have ne: "tcbs st \<noteq> []" using ok assms(2) by (auto simp: store_ok_def store_shape_def)
  have "capacity st < UINT32_MAX" using ok by (simp add: store_ok_def store_shape_def)
  then have "wheel_ok (tcb_store_reset st) (\<lambda>_. [])"
    using ne by (intro wheel_ok_empty) (auto simp: tcb_store_reset_def tcb_at_def)
  with tcb_store_reset_ok [OF ok] show ?thesis by (auto simp: conn_ok_def)
qed

lemma conn_ok_resched [inv_intros]:
  assumes "conn_ok st" "i < capacity st" "in_use (tcb_at st i)"
  shows "conn_ok (tcp_timer_resched i st)"
proof -
  from assms obtain cs where ok: "store_ok st" "wheel_ok st cs" by (auto simp: conn_ok_def)
  have "i < length (tcbs st)" using ok(1) assms(2) by (simp add: store_ok_def store_shapeD)
  from resched_ok [OF ok(2) this assms(3)] store_ok_wheel_frame [OF resched_frame ok(1)]
  show ?thesis by (auto simp: conn_ok_def)
qed

text \<open>Updates of one block that keep its tuple, liveness and wheel links.\<close>

lemma conn_ok_upd_tcb [inv_intros]:
  assumes "conn_ok st"
    and "\<And>t. in_use (f t) = in_use t \<and> key_of (f t) = key_of t \<and> tw_next (f t) = tw_next t \<and>
           tw_prev (f t) = tw_prev t \<and> tw_slot (f t) = tw_slot t"
  shows "conn_ok (upd_tcb i f st)"
proof -
  from assms obtain cs where ok: "store_ok st" "wheel_ok st cs" by (auto simp: conn_ok_def)
  have at: "tcb_at (upd_tcb i f st) x = (if x = i \<and> i < length (tcbs st) then f (tcb_at st i) else tcb_at st x)" for x
    by (cases "i < length (tcbs st)") (auto simp: upd_tcb_def tcb_at_def list_update_beyond)
  have "store_ok (upd_tcb i f st)"
    by (rule store_ok_cong [OF _ _ _ _ _ _ _ _ _ ok(1)]) (simp_all add: at assms(2))
  moreover have "wheel_ok (upd_tcb i f st) cs"
    by (rule wheel_ok_cong [OF ok(2)]) (simp_all add: at assms(2))
  ultimately show ?thesis by (auto simp: conn_ok_def)
qed

text \<open>
  Releasing a block does not take it off the delayed-ACK list: the list's head stays, and the zeroed
  \<^verbatim>\<open>dack_next\<close> of the released block now leads to block 0 instead of to its old successor.
\<close>

lemma tcb_free_keeps_dack_head: "tw_dack_head (tcb_free i st) = tw_dack_head st"
proof -
  have "tw_dack_head (release i s) = tw_dack_head s" for s :: "'a conn_scheme"
    by (simp add: release_def upd_tcb_def)
  then show ?thesis using cancel_frame [of st i] by (simp add: tcb_free_release wheel_frame_def)
qed

lemma tcb_free_dack_next:
  assumes "i < capacity st" "in_use (tcb_at st i)" "store_ok st"
  shows "dack_next (tcb_at (tcb_free i st) i) = 0"
  using tcb_free_ok [OF assms(3,1,2)] by simp

end
