(* ===== verification/PortPool.thy ===== *)
theory PortPool
  imports Prelude
begin

text \<open>
  The ephemeral port pool of \<^verbatim>\<open>net/tcp_port_pool.c\<close>: bitmaps of available ports, one per source
  address in a small hash table with a shared fallback, a TIME_WAIT ring for released ports, and the RSS
  filter that divides the ports among the workers.

  The ring indices \<^verbatim>\<open>tw_head\<close> and \<^verbatim>\<open>tw_tail\<close> are only ever stored masked with
  \<^verbatim>\<open>TW_RING_MASK\<close> = 65535; they are 16-bit words, whose wrap-around is that mask.
\<close>

definition TGEN_EPHEM_LO :: nat where "TGEN_EPHEM_LO = 10000"
definition TGEN_EPHEM_HI :: nat where "TGEN_EPHEM_HI = 60000"
definition TGEN_EPHEM_CNT :: nat where "TGEN_EPHEM_CNT = 50000"
definition BITMAP_WORDS :: nat where "BITMAP_WORDS = 782"
definition TW_RING_SIZE :: nat where "TW_RING_SIZE = 65536"
definition N_IP_SLOTS :: nat where "N_IP_SLOTS = 64"
definition TGEN_TCP_TIMEWAIT_MS :: u64 where "TGEN_TCP_TIMEWAIT_MS = 4000"

lemmas port_consts = TGEN_EPHEM_LO_def TGEN_EPHEM_HI_def TGEN_EPHEM_CNT_def BITMAP_WORDS_def

record ip_pool =
  ipp_src_ip :: u32
  ipp_cursor :: nat
  ipp_map :: "u64 list"

record tw_entry =
  twe_src_ip :: u32
  twe_port :: u16
  twe_release_tsc :: u64

record worker_pool =
  ip_pools :: "ip_pool list"
  shared :: ip_pool
  tw_ring :: "tw_entry list"
  tw_head :: u16
  tw_tail :: u16
  tw_hold_tsc :: u64
  port_exhaustion_events :: u64

subsection \<open>Bitmaps\<close>

definition bm_set :: "u64 list \<Rightarrow> nat \<Rightarrow> u64 list" where
  "bm_set bm n = bm[n div 64 := bm ! (n div 64) OR push_bit (n mod 64) 1]"

definition bm_clear :: "u64 list \<Rightarrow> nat \<Rightarrow> u64 list" where
  "bm_clear bm n = bm[n div 64 := bm ! (n div 64) AND NOT (push_bit (n mod 64) 1)]"

definition bm_test :: "u64 list \<Rightarrow> nat \<Rightarrow> bool" where
  "bm_test bm n \<longleftrightarrow> drop_bit (n mod 64) (bm ! (n div 64)) AND 1 \<noteq> 0"

text \<open>\<^verbatim>\<open>__builtin_ctzll\<close> of a nonzero word: the number of zero bits below the lowest one.\<close>

definition ctz :: "u64 \<Rightarrow> nat" where
  "ctz x = length (takeWhile (\<lambda>n. \<not> bit x n) [0..<64])"

text \<open>One word of the scan, and the scan over a range of words.\<close>

definition word_hit :: "u64 \<Rightarrow> nat \<Rightarrow> nat option" where
  "word_hit word i =
     (if word \<noteq> 0 \<and> i * 64 + ctz word < TGEN_EPHEM_CNT then Some (i * 64 + ctz word) else None)"

fun scan_words :: "(nat \<Rightarrow> u64) \<Rightarrow> nat list \<Rightarrow> nat option" where
  "scan_words word [] = None"
| "scan_words word (i # is) =
     (case word_hit (word i) i of Some pos \<Rightarrow> Some pos | None \<Rightarrow> scan_words word is)"

definition bm_find_next :: "u64 list \<Rightarrow> nat \<Rightarrow> nat option" where
  "bm_find_next bm start =
     (let w = start div 64; b = start mod 64 in
      case word_hit (bm ! w AND push_bit b (NOT 0)) w of
        Some pos \<Rightarrow> Some pos
      | None \<Rightarrow>
          (case scan_words (\<lambda>i. bm ! i) [w + 1..<BITMAP_WORDS] of
             Some pos \<Rightarrow> Some pos
           | None \<Rightarrow>
               scan_words (\<lambda>i. if i = w then bm ! i AND NOT (push_bit b (NOT 0)) else bm ! i) [0..<w + 1]))"

subsection \<open>Per-address pools\<close>

text \<open>A pointer to a pool: the shared one or a slot.\<close>

datatype pool_ref = Shared | Slot nat

definition pool_at :: "worker_pool \<Rightarrow> pool_ref \<Rightarrow> ip_pool" where
  "pool_at wp r = (case r of Shared \<Rightarrow> shared wp | Slot s \<Rightarrow> ip_pools wp ! s)"

definition upd_pool :: "pool_ref \<Rightarrow> (ip_pool \<Rightarrow> ip_pool) \<Rightarrow> worker_pool \<Rightarrow> worker_pool" where
  "upd_pool r f wp =
     (case r of Shared \<Rightarrow> wp\<lparr>shared := f (shared wp)\<rparr>
      | Slot s \<Rightarrow> wp\<lparr>ip_pools := (ip_pools wp)[s := f (ip_pools wp ! s)]\<rparr>)"

definition ip_hash :: "u32 \<Rightarrow> nat" where
  "ip_hash src_ip =
     (let h = src_ip XOR 0x811c9dc5;
          h = (h XOR drop_bit 16 h) * 0x45d9f3b;
          h = h XOR drop_bit 16 h
      in unat h mod N_IP_SLOTS)"

fun ip_pool_probe :: "u32 \<Rightarrow> nat list \<Rightarrow> worker_pool \<Rightarrow> pool_ref \<times> worker_pool" where
  "ip_pool_probe src_ip [] wp = (Shared, wp)"
| "ip_pool_probe src_ip (s # ss) wp =
     (if ipp_src_ip (ip_pools wp ! s) = src_ip then (Slot s, wp)
      else if ipp_src_ip (ip_pools wp ! s) = 0
           then (Slot s, upd_pool (Slot s)
                   (\<lambda>p. p\<lparr>ipp_src_ip := src_ip, ipp_map := ipp_map (shared wp), ipp_cursor := 0\<rparr>) wp)
           else ip_pool_probe src_ip ss wp)"

definition ip_probes :: "u32 \<Rightarrow> nat list" where
  "ip_probes src_ip = map (\<lambda>i. (ip_hash src_ip + i) mod N_IP_SLOTS) [0..<N_IP_SLOTS]"

definition ip_pool_get :: "u32 \<Rightarrow> worker_pool \<Rightarrow> pool_ref \<times> worker_pool" where
  "ip_pool_get src_ip wp =
     (if src_ip = 0 then (Shared, wp) else ip_pool_probe src_ip (ip_probes src_ip) wp)"

subsection \<open>The public interface\<close>

text \<open>One worker's share of \<^verbatim>\<open>tcp_port_pool_init\<close>, for a successful allocation.\<close>

definition full_map :: "u64 list" where
  "full_map = replicate BITMAP_WORDS (NOT 0)"

definition worker_pool_init :: "u64 \<Rightarrow> worker_pool" where
  "worker_pool_init g_tsc_hz =
     \<lparr>ip_pools = replicate N_IP_SLOTS \<lparr>ipp_src_ip = 0, ipp_cursor = 0, ipp_map = full_map\<rparr>,
      shared = \<lparr>ipp_src_ip = 0, ipp_cursor = 0, ipp_map = full_map\<rparr>,
      tw_ring = replicate TW_RING_SIZE \<lparr>twe_src_ip = 0, twe_port = 0, twe_release_tsc = 0\<rparr>,
      tw_head = 0, tw_tail = 0, tw_hold_tsc = TGEN_TCP_TIMEWAIT_MS * g_tsc_hz div 1000,
      port_exhaustion_events = 0\<rparr>"

definition tcp_port_pool_reset :: "worker_pool \<Rightarrow> worker_pool" where
  "tcp_port_pool_reset wp =
     wp\<lparr>shared := (shared wp)\<lparr>ipp_map := full_map, ipp_cursor := 0\<rparr>,
        ip_pools := map (\<lambda>p. p\<lparr>ipp_src_ip := 0, ipp_map := replicate BITMAP_WORDS 0, ipp_cursor := 0\<rparr>)
                      (ip_pools wp),
        tw_head := 0, tw_tail := 0\<rparr>"

text \<open>The port, or \<open>None\<close> for \<^verbatim>\<open>-ENOBUFS\<close>.\<close>

definition tcp_port_alloc :: "u32 \<Rightarrow> worker_pool \<Rightarrow> u16 option \<times> worker_pool" where
  "tcp_port_alloc src_ip wp =
     (let (r, wp) = ip_pool_get src_ip wp; ip = pool_at wp r
      in case bm_find_next (ipp_map ip) (ipp_cursor ip) of
           None \<Rightarrow> (None, wp\<lparr>port_exhaustion_events := port_exhaustion_events wp + 1\<rparr>)
         | Some n \<Rightarrow>
             (Some (word_of_nat (TGEN_EPHEM_LO + n)),
              upd_pool r (\<lambda>p. p\<lparr>ipp_map := bm_clear (ipp_map p) n,
                              ipp_cursor := (n + 1) mod TGEN_EPHEM_CNT\<rparr>) wp))"

definition port_release :: "u32 \<Rightarrow> u16 \<Rightarrow> worker_pool \<Rightarrow> worker_pool" where
  "port_release src_ip port wp =
     (let (r, wp) = ip_pool_get src_ip wp
      in upd_pool r (\<lambda>p. p\<lparr>ipp_map := bm_set (ipp_map p) (unat port - TGEN_EPHEM_LO)\<rparr>) wp)"

text \<open>\<open>now\<close> is the value of \<^verbatim>\<open>rte_rdtsc()\<close>.\<close>

definition tcp_port_free :: "u64 \<Rightarrow> u32 \<Rightarrow> u16 \<Rightarrow> worker_pool \<Rightarrow> worker_pool" where
  "tcp_port_free now src_ip port wp =
     (if unat port < TGEN_EPHEM_LO \<or> unat port \<ge> TGEN_EPHEM_HI then wp
      else
        let next_tail = tw_tail wp + 1
        in if next_tail = tw_head wp then port_release src_ip port wp
           else wp\<lparr>tw_ring := (tw_ring wp)[unat (tw_tail wp) :=
                     \<lparr>twe_src_ip = src_ip, twe_port = port, twe_release_tsc = now + tw_hold_tsc wp\<rparr>],
                   tw_tail := next_tail\<rparr>)"

definition tcp_port_free_immediate :: "u32 \<Rightarrow> u16 \<Rightarrow> worker_pool \<Rightarrow> worker_pool" where
  "tcp_port_free_immediate src_ip port wp =
     (if unat port < TGEN_EPHEM_LO \<or> unat port \<ge> TGEN_EPHEM_HI then wp else port_release src_ip port wp)"

lemma ip_pool_probe_ring [simp]:
  "tw_ring (snd (ip_pool_probe ip ss wp)) = tw_ring wp"
  "tw_head (snd (ip_pool_probe ip ss wp)) = tw_head wp"
  "tw_tail (snd (ip_pool_probe ip ss wp)) = tw_tail wp"
  "tw_hold_tsc (snd (ip_pool_probe ip ss wp)) = tw_hold_tsc wp"
  by (induction ss) (auto simp: upd_pool_def)

lemma ip_pool_get_ring [simp]:
  "tw_ring (snd (ip_pool_get ip wp)) = tw_ring wp"
  "tw_head (snd (ip_pool_get ip wp)) = tw_head wp"
  "tw_tail (snd (ip_pool_get ip wp)) = tw_tail wp"
  "tw_hold_tsc (snd (ip_pool_get ip wp)) = tw_hold_tsc wp"
  by (auto simp: ip_pool_get_def)

lemma upd_pool_ring [simp]:
  "tw_ring (upd_pool r f wp) = tw_ring wp" "tw_head (upd_pool r f wp) = tw_head wp"
  "tw_tail (upd_pool r f wp) = tw_tail wp" "tw_hold_tsc (upd_pool r f wp) = tw_hold_tsc wp"
  by (auto simp: upd_pool_def split: pool_ref.split)

lemma port_release_ring [simp]:
  "tw_ring (port_release ip port wp) = tw_ring wp"
  "tw_head (port_release ip port wp) = tw_head wp"
  "tw_tail (port_release ip port wp) = tw_tail wp"
  "tw_hold_tsc (port_release ip port wp) = tw_hold_tsc wp"
  by (auto simp: port_release_def case_prod_beta)

text \<open>The tick ends because the distance from head to tail shrinks.\<close>

function tcp_port_pool_tick :: "u64 \<Rightarrow> worker_pool \<Rightarrow> worker_pool" where
  "tcp_port_pool_tick now_tsc wp =
     (if tw_head wp \<noteq> tw_tail wp then
        let e = tw_ring wp ! unat (tw_head wp)
        in if now_tsc < twe_release_tsc e then wp
           else tcp_port_pool_tick now_tsc
                  ((port_release (twe_src_ip e) (twe_port e) wp)\<lparr>tw_head := tw_head wp + 1\<rparr>)
      else wp)"
  by auto
termination
proof (relation "measure (\<lambda>(_, wp). unat (tw_tail wp - tw_head wp))")
  fix now and wp :: worker_pool and e
  assume "tw_head wp \<noteq> tw_tail wp"
  then have "tw_tail wp - tw_head wp \<noteq> 0" by auto
  then have "unat (tw_tail wp - tw_head wp - 1) < unat (tw_tail wp - tw_head wp)"
    by (simp add: unat_minus_one unat_gt_0)
  then show "((now, (port_release (twe_src_ip e) (twe_port e) wp)\<lparr>tw_head := tw_head wp + 1\<rparr>), (now, wp))
      \<in> measure (\<lambda>(_, wp). unat (tw_tail wp - tw_head wp))"
    by (simp add: diff_diff_eq)
qed simp

declare tcp_port_pool_tick.simps [simp del]

subsection \<open>The RSS filter\<close>

text \<open>
  \<^verbatim>\<open>rte_softrss\<close> and the device queries are DPDK's: the filter takes the hash function, the table
  size the device reports and, when the query succeeds, the table.  \<open>None\<close> in the list of pools is a
  worker without a pool.
\<close>

definition rss_target :: "(u32 list \<Rightarrow> u32) \<Rightarrow> nat \<Rightarrow> (nat \<Rightarrow> nat) option \<Rightarrow> nat \<Rightarrow> nat \<Rightarrow>
    u32 \<Rightarrow> u32 \<Rightarrow> u16 \<Rightarrow> nat \<Rightarrow> nat" where
  "rss_target softrss dev_reta_size reta n_rxq n_workers src_ip_host dst_ip_host dst_port n =
     (let reta_size = (if dev_reta_size = 0 then 128 else dev_reta_size);
          sport = (word_of_nat (TGEN_EPHEM_LO + n) :: u16);
          tuple = [src_ip_host, dst_ip_host, push_bit 16 (ucast sport) OR ucast dst_port];
          reta_idx = unat (softrss tuple) AND (reta_size - 1);
          target_q = (case reta of Some t \<Rightarrow> t reta_idx | None \<Rightarrow> reta_idx mod n_rxq)
      in if target_q \<ge> n_workers then target_q mod n_workers else target_q)"

definition rss_set :: "bool \<Rightarrow> nat \<Rightarrow> worker_pool \<Rightarrow> worker_pool" where
  "rss_set mine n wp =
     (let upd = (\<lambda>p. p\<lparr>ipp_map := (if mine then bm_set (ipp_map p) n else bm_clear (ipp_map p) n)\<rparr>)
      in wp\<lparr>shared := upd (shared wp),
            ip_pools := map (\<lambda>p. if ipp_src_ip p = 0 then p else upd p) (ip_pools wp)\<rparr>)"

text \<open>The loop body for one port: every worker's pool.\<close>

definition rss_filter_bit :: "(nat \<Rightarrow> nat) \<Rightarrow> nat \<Rightarrow> nat \<Rightarrow> worker_pool option list \<Rightarrow> worker_pool option list" where
  "rss_filter_bit target n_workers n pools =
     map (\<lambda>(w, wp). if w < n_workers then map_option (rss_set (w = target n) n) wp else wp)
       (enumerate 0 pools)"

definition tcp_port_pool_apply_rss_filter :: "(u32 list \<Rightarrow> u32) \<Rightarrow> nat \<Rightarrow> (nat \<Rightarrow> nat) option \<Rightarrow> nat \<Rightarrow> nat \<Rightarrow>
    u32 \<Rightarrow> u32 \<Rightarrow> u16 \<Rightarrow> worker_pool option list \<Rightarrow> worker_pool option list" where
  "tcp_port_pool_apply_rss_filter softrss reta_size reta n_rxq n_workers src_ip dst_ip dst_port pools =
     (if n_rxq \<le> 1 \<or> n_workers \<le> 1 then pools
      else fold (rss_filter_bit (rss_target softrss reta_size reta n_rxq n_workers src_ip dst_ip dst_port) n_workers)
             [0..<TGEN_EPHEM_CNT] pools)"


subsection \<open>The bitmap search\<close>

lemma bm_test_bit: "bm_test bm n \<longleftrightarrow> bit (bm ! (n div 64)) (n mod 64)"
proof -
  have "drop_bit (n mod 64) x AND 1 \<noteq> 0 \<longleftrightarrow> odd (drop_bit (n mod 64) x)" for x :: u64
    by (simp add: and_one_eq odd_iff_mod_2_eq_one)
  then show ?thesis by (simp add: bm_test_def bit_iff_odd_drop_bit)
qed

lemma bm_set_test:
  assumes "n div 64 < length bm" "m div 64 < length bm"
  shows "bm_test (bm_set bm n) m \<longleftrightarrow> m = n \<or> bm_test bm m"
proof -
  have "m = n \<longleftrightarrow> m div 64 = n div 64 \<and> m mod 64 = n mod 64"
    by (metis mod_div_decomp)
  then show ?thesis
    using assms by (cases "m div 64 = n div 64")
      (auto simp: bm_test_bit bm_set_def bit_or_iff bit_push_bit_iff bit_1_iff bit_exp_iff)
qed

lemma bm_clear_test:
  assumes "n div 64 < length bm" "m div 64 < length bm"
  shows "bm_test (bm_clear bm n) m \<longleftrightarrow> m \<noteq> n \<and> bm_test bm m"
proof -
  have "m = n \<longleftrightarrow> m div 64 = n div 64 \<and> m mod 64 = n mod 64"
    by (metis mod_div_decomp)
  then show ?thesis
    using assms by (cases "m div 64 = n div 64")
      (auto simp: bm_test_bit bm_clear_def bit_and_iff bit_not_iff bit_push_bit_iff bit_1_iff bit_exp_iff)
qed

lemma bm_length [simp]: "length (bm_set bm n) = length bm" "length (bm_clear bm n) = length bm"
  by (simp_all add: bm_set_def bm_clear_def)

lemma ctz_props:
  assumes "x \<noteq> 0"
  shows "ctz x < 64" "bit x (ctz x)" "m < ctz x \<Longrightarrow> \<not> bit x m"
proof -
  from assms obtain n where "bit x n" by (auto simp: bit_eq_iff)
  moreover have "n < 64" using calculation bit_imp_le_length by fastforce
  ultimately have ex: "\<exists>k\<in>set [0..<64]. bit x k" by auto
  define P where "P = (\<lambda>n. \<not> bit x n)"
  have lt: "ctz x < 64"
    using length_takeWhile_lt [of "[0..<64]" P] ex by (auto simp: ctz_def P_def)
  then show "ctz x < 64" .
  then have "\<not> P ([0..<64] ! ctz x)"
    using nth_length_takeWhile [of P "[0..<64]"] by (simp add: ctz_def P_def)
  then show "bit x (ctz x)" using lt by (simp add: P_def)
  show "\<not> bit x m" if "m < ctz x"
  proof -
    have "takeWhile P [0..<64] ! m = [0..<64] ! m"
      using that by (intro takeWhile_nth) (simp add: ctz_def P_def)
    then have "P m" using nth_mem [of m "takeWhile P [0..<64]"] that lt
      by (auto simp: ctz_def P_def dest: set_takeWhileD)
    then show ?thesis by (simp add: P_def)
  qed
qed

text \<open>
  The available positions of a word function, and the least one in a range of words.
\<close>

definition avail :: "(nat \<Rightarrow> u64) \<Rightarrow> nat \<Rightarrow> bool" where
  "avail word p \<longleftrightarrow> p < TGEN_EPHEM_CNT \<and> bit (word (p div 64)) (p mod 64)"

definition first_in :: "(nat \<Rightarrow> u64) \<Rightarrow> nat \<Rightarrow> nat \<Rightarrow> nat option \<Rightarrow> bool" where
  "first_in word lo hi r \<longleftrightarrow>
     (case r of
        None \<Rightarrow> \<forall>p. lo \<le> p \<and> p < hi \<longrightarrow> \<not> avail word p
      | Some q \<Rightarrow> avail word q \<and> lo \<le> q \<and> q < hi \<and> (\<forall>p. lo \<le> p \<and> p < q \<longrightarrow> \<not> avail word p))"

lemma word_hit_first: "first_in word (i * 64) (i * 64 + 64) (word_hit (word i) i)"
proof -
  have dm: "p div 64 = i \<and> p mod 64 = p - i * 64" if "i * 64 \<le> p" "p < i * 64 + 64" for p
  proof -
    have "p div 64 = i" using that by (intro div_nat_eqI) auto
    then show ?thesis using minus_div_mult_eq_mod [of p 64] by simp
  qed
  show ?thesis
  proof (cases "word i = 0")
    case True
    then show ?thesis by (auto simp: first_in_def word_hit_def avail_def dest: dm)
  next
    case False
    note c = ctz_props [OF False]
    have below: "\<not> avail word p" if "i * 64 \<le> p" "p < i * 64 + ctz (word i)" for p
      using dm [of p] c(1) c(3) [of "p - i * 64"] that by (auto simp: avail_def)
    have hit: "bit (word ((i * 64 + ctz (word i)) div 64)) ((i * 64 + ctz (word i)) mod 64)"
      using dm [of "i * 64 + ctz (word i)"] c(1,2) by auto
    show ?thesis
    proof (cases "i * 64 + ctz (word i) < TGEN_EPHEM_CNT")
      case True
      then show ?thesis using False c(1) hit below by (simp add: first_in_def word_hit_def avail_def)
    next
      case nf: False
      then have "\<not> avail word p" if "i * 64 \<le> p" for p
        using below [OF that] by (auto simp: avail_def)
      then show ?thesis using False nf by (simp add: first_in_def word_hit_def)
    qed
  qed
qed

lemma first_in_append:
  assumes "first_in word lo mid None" "first_in word mid hi r" "lo \<le> mid"
  shows "first_in word lo hi r"
  using assms by (auto simp: first_in_def split: option.splits) (metis not_le)+

lemma first_in_extend:
  "first_in word lo mid (Some q) \<Longrightarrow> mid \<le> hi \<Longrightarrow> first_in word lo hi (Some q)"
  by (simp add: first_in_def)

lemma scan_words_first:
  "a \<le> b \<Longrightarrow> first_in word (a * 64) (b * 64) (scan_words word [a..<b])"
proof (induction "b - a" arbitrary: a)
  case 0
  then show ?case by (auto simp: first_in_def)
next
  case (Suc d)
  then have ab: "a < b" "[a..<b] = a # [Suc a..<b]" by (auto simp: upt_rec)
  have IH: "first_in word (Suc a * 64) (b * 64) (scan_words word [Suc a..<b])"
    using Suc.hyps(2) ab(1) by (intro Suc.hyps(1)) auto
  have le: "a * 64 + 64 \<le> b * 64" using ab(1) by simp
  show ?case
  proof (cases "word_hit (word a) a")
    case None
    then have "first_in word (a * 64) (a * 64 + 64) None" using word_hit_first [of word a] by simp
    then show ?thesis using first_in_append [OF _ IH] None ab(2) by (simp add: add.commute)
  next
    case (Some q)
    then show ?thesis
      using word_hit_first [of word a] first_in_extend [OF _ le] ab(2) by auto
  qed
qed

lemma first_in_cong:
  assumes "\<And>p. lo \<le> p \<Longrightarrow> p < hi \<Longrightarrow> p < TGEN_EPHEM_CNT \<Longrightarrow> avail word p = avail word' p"
  shows "first_in word lo hi r \<Longrightarrow> first_in word' lo hi r"
  using assms by (auto simp: first_in_def avail_def split: option.splits)

abbreviation free_bit :: "u64 list \<Rightarrow> nat \<Rightarrow> bool" where
  "free_bit bm p \<equiv> p < TGEN_EPHEM_CNT \<and> bm_test bm p"

lemma avail_bm: "avail (\<lambda>i. bm ! i) p \<longleftrightarrow> free_bit bm p"
  by (simp add: avail_def bm_test_bit)

lemma first_in_mask:
  assumes "first_in word' lo hi r" "lo \<le> lo'"
    "\<And>p. lo \<le> p \<Longrightarrow> p < hi \<Longrightarrow> avail word' p \<longleftrightarrow> avail word p \<and> lo' \<le> p"
  shows "first_in word lo' hi r"
proof -
  have *: "lo \<le> p \<and> avail word' p" if "lo' \<le> p" "p < hi" "avail word p" for p
    using assms(2) assms(3) [of p] that by auto
  show ?thesis
  proof (cases r)
    case None
    then have "\<not> avail word p" if "lo' \<le> p" "p < hi" for p
      using assms(1) * that by (auto simp: first_in_def)
    then show ?thesis using None by (simp add: first_in_def)
  next
    case (Some q)
    then have q: "avail word' q" "lo \<le> q" "q < hi" "\<And>p. lo \<le> p \<Longrightarrow> p < q \<Longrightarrow> \<not> avail word' p"
      using assms(1) by (auto simp: first_in_def)
    have "\<not> avail word p" if "lo' \<le> p" "p < q" for p
      using q(3) q(4) [of p] * [of p] that by auto
    then show ?thesis using Some q assms(3) [of q] by (simp add: first_in_def)
  qed
qed

lemma first_in_mask_upper:
  assumes "first_in word' lo hi r" "first_in word mid hi' None" "mid \<le> hi" "hi \<le> hi'"
    "\<And>p. lo \<le> p \<Longrightarrow> p < hi \<Longrightarrow> avail word' p \<longleftrightarrow> avail word p \<and> p < mid"
  shows "first_in word lo hi' r"
proof (cases r)
  case None
  have "\<not> avail word p" if "lo \<le> p" "p < hi'" for p
    using assms that None by (cases "p < mid") (auto simp: first_in_def)
  then show ?thesis using None by (simp add: first_in_def)
next
  case (Some q)
  then have q: "avail word' q" "lo \<le> q" "q < hi" "\<And>p. lo \<le> p \<Longrightarrow> p < q \<Longrightarrow> \<not> avail word' p"
    using assms(1) by (auto simp: first_in_def)
  have "\<not> avail word p" if "lo \<le> p" "p < q" for p
    using assms(5) [of p] assms(5) [of q] q that by auto
  then show ?thesis using Some q assms(4) assms(5) [of q] by (simp add: first_in_def)
qed

lemma word_range:
  fixes p :: nat
  shows "w * 64 \<le> p \<and> p < w * 64 + 64 \<longleftrightarrow> p div 64 = w"
  using dividend_less_div_times [of 64 p] div_times_less_eq_dividend [of p 64] by auto

lemma bm_find_next_first:
  fixes bm :: "u64 list"
  assumes "start < TGEN_EPHEM_CNT"
  defines "word \<equiv> (\<lambda>i. bm ! i)"
  shows "if \<exists>p\<ge>start. avail word p
     then first_in word start (BITMAP_WORDS * 64) (bm_find_next bm start)
     else first_in word 0 (BITMAP_WORDS * 64) (bm_find_next bm start)"
proof -
  define w b where "w = start div 64" and "b = start mod 64"
  have start: "w * 64 + b = start" "b < 64" by (simp_all add: w_def b_def)
  have wW: "w + 1 \<le> BITMAP_WORDS" using assms(1) by (simp add: w_def port_consts less_mult_imp_div_less)
  define hi where "hi = (\<lambda>i. if i = w then bm ! i AND push_bit b (NOT 0) else bm ! i)"
  define lo where "lo = (\<lambda>i. if i = w then bm ! i AND NOT (push_bit b (NOT 0)) else bm ! i)"
  have pw: "p mod 64 = p - w * 64" if "p div 64 = w" for p
    using minus_div_mult_eq_mod [of p 64] that by simp
  have hi_av: "avail hi p \<longleftrightarrow> avail word p \<and> start \<le> p" if "w * 64 \<le> p" "p < w * 64 + 64" for p
  proof -
    have "p div 64 = w" using word_range that by blast
    moreover have "b \<le> p mod 64 \<longleftrightarrow> start \<le> p" using pw [OF calculation] start that by auto
    ultimately show ?thesis by (auto simp: avail_def hi_def word_def bit_and_iff bit_push_bit_iff bit_not_iff bit_mask_iff)
  qed
  have lo_av: "avail lo p \<longleftrightarrow> avail word p \<and> p < start" if "p < (w + 1) * 64" for p
  proof (cases "p div 64 = w")
    case True
    have "b \<le> p mod 64 \<longleftrightarrow> start \<le> p" using pw [OF True] start True word_range by auto
    then show ?thesis using True by (auto simp: avail_def lo_def word_def bit_and_iff bit_push_bit_iff bit_not_iff bit_mask_iff)
  next
    case False
    then have "p < w * 64" using that word_range [of w p] by auto
    then have "p < start" using start by simp
    then show ?thesis using False by (auto simp: avail_def lo_def word_def)
  qed
  have r1: "first_in word start ((w + 1) * 64) (word_hit (hi w) w)"
    using first_in_mask [OF word_hit_first [of hi w], of start word] hi_av start by (simp add: add.commute)
  have r2: "first_in word ((w + 1) * 64) (BITMAP_WORDS * 64) (scan_words word [w + 1..<BITMAP_WORDS])"
    by (rule scan_words_first [OF wW])
  have r3: "first_in lo 0 ((w + 1) * 64) (scan_words lo [0..<w + 1])"
    using scan_words_first [of 0 "w + 1" lo] by simp
  have le: "start \<le> (w + 1) * 64" "(w + 1) * 64 \<le> BITMAP_WORDS * 64" using start wW by auto
  have eq: "bm_find_next bm start =
      (case word_hit (hi w) w of Some pos \<Rightarrow> Some pos
       | None \<Rightarrow> (case scan_words word [w + 1..<BITMAP_WORDS] of Some pos \<Rightarrow> Some pos
                  | None \<Rightarrow> scan_words lo [0..<w + 1]))"
    unfolding bm_find_next_def Let_def hi_def lo_def word_def w_def b_def by simp
  have all: "p < BITMAP_WORDS * 64" if "avail word p" for p
    using that by (simp add: avail_def port_consts)
  show ?thesis
  proof (cases "word_hit (hi w) w")
    case (Some q)
    then have f: "first_in word start (BITMAP_WORDS * 64) (bm_find_next bm start)"
      using first_in_extend [OF _ le(2)] r1 by (simp add: eq)
    then have "\<exists>p\<ge>start. avail word p" using Some by (auto simp: eq first_in_def)
    then show ?thesis using f by simp
  next
    case None
    then have r12: "first_in word start (BITMAP_WORDS * 64) (scan_words word [w + 1..<BITMAP_WORDS])"
      using first_in_append [OF _ r2 le(1)] r1 by simp
    show ?thesis
    proof (cases "scan_words word [w + 1..<BITMAP_WORDS]")
      case (Some q)
      then have "\<exists>p\<ge>start. avail word p" using r12 by (auto simp: first_in_def)
      then show ?thesis using None Some r12 by (simp add: eq)
    next
      case None2: None
      then have none: "\<not> (\<exists>p\<ge>start. avail word p)" using r12 all by (auto simp: first_in_def)
      have "first_in word 0 (BITMAP_WORDS * 64) (scan_words lo [0..<w + 1])"
        using first_in_mask_upper [OF r3, of word start] r12 None2 le lo_av by simp
      then show ?thesis using none None None2 by (auto simp: eq)
    qed
  qed
qed

lemma first_in_Least:
  assumes "first_in word lo hi r" "\<And>p. avail word p \<Longrightarrow> p < hi"
  shows "r = (if \<exists>p\<ge>lo. avail word p then Some (LEAST p. avail word p \<and> lo \<le> p) else None)"
proof (cases r)
  case None
  then show ?thesis using assms by (auto simp: first_in_def)
next
  case (Some q)
  then have q: "avail word q" "lo \<le> q" "\<forall>p. lo \<le> p \<and> p < q \<longrightarrow> \<not> avail word p"
    using assms(1) by (auto simp: first_in_def)
  then have "(LEAST p. avail word p \<and> lo \<le> p) = q"
    by (intro Least_equality) (auto simp: not_less [symmetric])
  then show ?thesis using q Some by auto
qed

text \<open>
  C36. The word-wise bitmap search returns the first available port at or after the cursor, wraps to the
  first available port of the whole range when there is none, and reports exhaustion only when no port
  is available; the padding bits beyond the last port are never returned.
\<close>

theorem bm_find_next_correct:
  assumes "start < TGEN_EPHEM_CNT"
  shows "bm_find_next bm start =
    (if \<exists>p\<ge>start. free_bit bm p then Some (LEAST p. free_bit bm p \<and> start \<le> p)
     else if \<exists>p. free_bit bm p then Some (LEAST p. free_bit bm p) else None)"
proof -
  have all: "p < BITMAP_WORDS * 64" if "avail (\<lambda>i. bm ! i) p" for p
    using that by (simp add: avail_def port_consts)
  note f = bm_find_next_first [OF assms, of bm]
  show ?thesis
  proof (cases "\<exists>p\<ge>start. avail (\<lambda>i. bm ! i) p")
    case True
    then have "first_in (\<lambda>i. bm ! i) start (BITMAP_WORDS * 64) (bm_find_next bm start)" using f by simp
    from first_in_Least [OF this all] show ?thesis using True by (simp add: avail_bm)
  next
    case False
    then have "first_in (\<lambda>i. bm ! i) 0 (BITMAP_WORDS * 64) (bm_find_next bm start)" using f by simp
    from first_in_Least [OF this all] show ?thesis using False by (auto simp: avail_bm)
  qed
qed

theorem bm_find_next_correct_witness:
  "bm_find_next [5, 0] 1 =
    (if \<exists>p\<ge>1. free_bit [5, 0] p then Some (LEAST p. free_bit [5, 0] p \<and> 1 \<le> p)
     else if \<exists>p. free_bit [5, 0] p then Some (LEAST p. free_bit [5, 0] p) else None)"
  by (rule bm_find_next_correct) (simp add: port_consts)


subsection \<open>The pool of a source address\<close>

definition ip_pool_ok :: "ip_pool \<Rightarrow> bool" where
  "ip_pool_ok p \<longleftrightarrow> length (ipp_map p) = BITMAP_WORDS \<and> ipp_cursor p < TGEN_EPHEM_CNT"

definition pool_ok :: "worker_pool \<Rightarrow> bool" where
  "pool_ok wp \<longleftrightarrow> length (ip_pools wp) = N_IP_SLOTS \<and> (\<forall>p\<in>set (ip_pools wp). ip_pool_ok p) \<and>
     ip_pool_ok (shared wp) \<and> length (tw_ring wp) = TW_RING_SIZE"

definition src_ips :: "worker_pool \<Rightarrow> u32 list" where
  "src_ips wp = map ipp_src_ip (ip_pools wp)"

text \<open>The bit positions available to a source address.\<close>

definition ports_for :: "u32 \<Rightarrow> worker_pool \<Rightarrow> nat set" where
  "ports_for src_ip wp =
     (let (r, wp') = ip_pool_get src_ip wp in {p. free_bit (ipp_map (pool_at wp' r)) p})"

lemma ip_probes_range: "s \<in> set (ip_probes ip) \<Longrightarrow> s < N_IP_SLOTS"
  by (auto simp: ip_probes_def N_IP_SLOTS_def)

text \<open>
  The pool chosen for an address depends only on the addresses in the slots, and once chosen it stays
  chosen.
\<close>

lemma ip_pool_probe_cases:
  assumes "ip_pool_probe ip ss wp = (r, wp')" "\<forall>s\<in>set ss. s < length (ip_pools wp)" "ip \<noteq> 0"
  shows "(r = Shared \<and> wp' = wp \<and> (\<forall>s\<in>set ss. src_ips wp ! s \<noteq> ip \<and> src_ips wp ! s \<noteq> 0)) \<or>
    (\<exists>as s bs. r = Slot s \<and> ss = as @ s # bs \<and>
       (\<forall>x\<in>set as. src_ips wp ! x \<noteq> ip \<and> src_ips wp ! x \<noteq> 0) \<and>
       (src_ips wp ! s = ip \<and> wp' = wp \<or>
        src_ips wp ! s = 0 \<and> wp' = upd_pool (Slot s)
          (\<lambda>p. p\<lparr>ipp_src_ip := ip, ipp_map := ipp_map (shared wp), ipp_cursor := 0\<rparr>) wp))"
  using assms
proof (induction ss)
  case (Cons s ss)
  then have s: "src_ips wp ! s = ipp_src_ip (ip_pools wp ! s)" by (simp add: src_ips_def)
  consider "src_ips wp ! s = ip" | "src_ips wp ! s = 0" | "src_ips wp ! s \<noteq> ip" "src_ips wp ! s \<noteq> 0" by blast
  then show ?case
  proof cases
    case 1
    then show ?thesis using Cons.prems s by (intro disjI2 exI [of _ "[]"]) auto
  next
    case 2
    then show ?thesis using Cons.prems s by (intro disjI2 exI [of _ "[]"]) auto
  next
    case 3
    then have "ip_pool_probe ip ss wp = (r, wp')" using Cons.prems(1) s by simp
    from Cons.IH [OF this] Cons.prems(2,3)
    consider (none) "r = Shared" "wp' = wp" "\<forall>s\<in>set ss. src_ips wp ! s \<noteq> ip \<and> src_ips wp ! s \<noteq> 0"
      | (some) as t bs where "r = Slot t" "ss = as @ t # bs"
          "\<forall>x\<in>set as. src_ips wp ! x \<noteq> ip \<and> src_ips wp ! x \<noteq> 0"
          "src_ips wp ! t = ip \<and> wp' = wp \<or> src_ips wp ! t = 0 \<and> wp' = upd_pool (Slot t)
            (\<lambda>p. p\<lparr>ipp_src_ip := ip, ipp_map := ipp_map (shared wp), ipp_cursor := 0\<rparr>) wp"
      by auto
    then show ?thesis
    proof cases
      case none
      then show ?thesis using 3 by simp
    next
      case some
      then show ?thesis using 3 by (intro disjI2 exI [of _ "s # as"] exI [of _ t] exI [of _ bs]) simp
    qed
  qed
qed simp

lemma ip_pool_probe_found:
  assumes "\<forall>x\<in>set as. src_ips wp ! x \<noteq> ip \<and> src_ips wp ! x \<noteq> 0" "src_ips wp ! s = ip"
    "\<forall>s\<in>set (as @ s # bs). s < length (ip_pools wp)"
  shows "ip_pool_probe ip (as @ s # bs) wp = (Slot s, wp)"
  using assms by (induction as) (auto simp: src_ips_def)

lemma ip_pool_probe_none:
  assumes "\<forall>x\<in>set ss. src_ips wp ! x \<noteq> ip \<and> src_ips wp ! x \<noteq> 0"
    "\<forall>s\<in>set ss. s < length (ip_pools wp)"
  shows "ip_pool_probe ip ss wp = (Shared, wp)"
  using assms by (induction ss) (auto simp: src_ips_def)

lemma src_ips_claim:
  "s < length (ip_pools wp) \<Longrightarrow>
   src_ips (upd_pool (Slot s) f wp) = (src_ips wp)[s := ipp_src_ip (f (ip_pools wp ! s))]"
  by (simp add: src_ips_def upd_pool_def map_update)

lemma length_ip_pools [simp]: "length (ip_pools (upd_pool r f wp)) = length (ip_pools wp)"
  by (auto simp: upd_pool_def split: pool_ref.split)

definition ref_ok :: "worker_pool \<Rightarrow> pool_ref \<Rightarrow> bool" where
  "ref_ok wp r \<longleftrightarrow> (case r of Shared \<Rightarrow> True | Slot s \<Rightarrow> s < length (ip_pools wp))"

text \<open>What fetching the pool establishes: fetching it again, in any state with the same addresses, gives it.\<close>

lemma ip_pool_get_stable:
  assumes ok: "pool_ok wp" and g: "ip_pool_get ip wp = (r, wp')"
  shows "ref_ok wp' r" "pool_ok wp'" "shared wp' = shared wp"
    "src_ips wp'' = src_ips wp' \<Longrightarrow> ip_pool_get ip wp'' = (r, wp'')"
    "r = Slot s \<Longrightarrow> src_ips wp' ! s = ip \<and> ip \<noteq> 0"
    "ip' \<noteq> 0 \<Longrightarrow> ip' \<noteq> ip \<Longrightarrow> s < N_IP_SLOTS \<Longrightarrow> src_ips wp ! s = ip' \<Longrightarrow>
       src_ips wp' ! s = ip' \<and> ip_pools wp' ! s = ip_pools wp ! s \<and> r \<noteq> Slot s"
proof -
  have len: "length (ip_pools wp) = N_IP_SLOTS" using ok by (simp add: pool_ok_def)
  have "ref_ok wp' r \<and> pool_ok wp' \<and> shared wp' = shared wp \<and>
    (src_ips wp'' = src_ips wp' \<longrightarrow> ip_pool_get ip wp'' = (r, wp'')) \<and>
    (\<forall>s. r = Slot s \<longrightarrow> src_ips wp' ! s = ip \<and> ip \<noteq> 0) \<and>
    (\<forall>s ip'. ip' \<noteq> 0 \<and> ip' \<noteq> ip \<and> s < N_IP_SLOTS \<and> src_ips wp ! s = ip' \<longrightarrow>
       src_ips wp' ! s = ip' \<and> ip_pools wp' ! s = ip_pools wp ! s \<and> r \<noteq> Slot s)"
  proof (cases "ip = 0")
    case True
    then show ?thesis using g ok by (auto simp: ip_pool_get_def ref_ok_def)
  next
    case False
    have rng: "\<forall>s\<in>set (ip_probes ip). s < length (ip_pools wp)" using ip_probes_range len by auto
    have l'': "length (ip_pools wp'') = length (ip_pools wp')" if "src_ips wp'' = src_ips wp'"
      using that unfolding src_ips_def by (rule map_eq_imp_length_eq)
    from ip_pool_probe_cases [of ip "ip_probes ip" wp r wp'] g False rng
    consider (none) "r = Shared" "wp' = wp" "\<forall>s\<in>set (ip_probes ip). src_ips wp ! s \<noteq> ip \<and> src_ips wp ! s \<noteq> 0"
      | (old) as s bs where "r = Slot s" "ip_probes ip = as @ s # bs"
          "\<forall>x\<in>set as. src_ips wp ! x \<noteq> ip \<and> src_ips wp ! x \<noteq> 0" "src_ips wp ! s = ip" "wp' = wp"
      | (new) as s bs where "r = Slot s" "ip_probes ip = as @ s # bs"
          "\<forall>x\<in>set as. src_ips wp ! x \<noteq> ip \<and> src_ips wp ! x \<noteq> 0" "src_ips wp ! s = 0"
          "wp' = upd_pool (Slot s)
            (\<lambda>p. p\<lparr>ipp_src_ip := ip, ipp_map := ipp_map (shared wp), ipp_cursor := 0\<rparr>) wp"
      by (auto simp: ip_pool_get_def)
    then show ?thesis
    proof cases
      case none
      have "ip_pool_get ip wp'' = (r, wp'')" if "src_ips wp'' = src_ips wp'"
        using ip_pool_probe_none [of "ip_probes ip" wp'' ip] none that rng l'' False
        by (simp add: ip_pool_get_def)
      then show ?thesis using none ok by (auto simp: ref_ok_def)
    next
      case old
      have "ip_pool_get ip wp'' = (r, wp'')" if "src_ips wp'' = src_ips wp'"
        using ip_pool_probe_found [of as wp'' ip s bs] old that rng l'' False
        by (simp add: ip_pool_get_def)
      then show ?thesis using old ok rng False by (auto simp: ref_ok_def)
    next
      case new
      have s: "s < length (ip_pools wp)" using rng new(2) by simp
      have src: "src_ips wp' = (src_ips wp)[s := ip]" using s new(5) by (simp add: src_ips_claim)
      have as': "\<forall>x\<in>set as. src_ips wp' ! x \<noteq> ip \<and> src_ips wp' ! x \<noteq> 0"
      proof
        fix x assume x: "x \<in> set as"
        then have "x \<noteq> s" using new(3,4) by auto
        then show "src_ips wp' ! x \<noteq> ip \<and> src_ips wp' ! x \<noteq> 0" using x new(3) src by simp
      qed
      have ls: "length (src_ips wp) = length (ip_pools wp)" by (simp add: src_ips_def)
      have "ip_pool_get ip wp'' = (r, wp'')" if "src_ips wp'' = src_ips wp'"
        using ip_pool_probe_found [of as wp'' ip s bs] new as' src s ls that rng l'' False
        by (simp add: ip_pool_get_def)
      moreover have "pool_ok wp'"
      proof -
        have "ip_pool_ok ((ip_pools wp ! s)\<lparr>ipp_src_ip := ip, ipp_map := ipp_map (shared wp), ipp_cursor := 0\<rparr>)"
          using ok by (simp add: pool_ok_def ip_pool_ok_def port_consts)
        then show ?thesis
          using ok new(5) set_update_subset_insert [of "ip_pools wp" s]
          by (fastforce simp: pool_ok_def upd_pool_def)
      qed
      moreover have "ref_ok wp' r" using new s by (simp add: ref_ok_def)
      moreover have "shared wp' = shared wp" using new by (simp add: upd_pool_def)
      moreover have "src_ips wp' ! s = ip" using src s ls by simp
      moreover have "src_ips wp' ! t = ip' \<and> ip_pools wp' ! t = ip_pools wp ! t \<and> r \<noteq> Slot t"
        if "ip' \<noteq> 0" "ip' \<noteq> ip" "src_ips wp ! t = ip'" for t ip'
      proof -
        have "t \<noteq> s" using that new(4) by auto
        then show ?thesis using that new(1,5) src by (simp add: upd_pool_def)
      qed
      ultimately show ?thesis using new(1) False by auto
    qed
  qed
  then show "ref_ok wp' r" "pool_ok wp'" "shared wp' = shared wp"
    "src_ips wp'' = src_ips wp' \<Longrightarrow> ip_pool_get ip wp'' = (r, wp'')"
    "r = Slot s \<Longrightarrow> src_ips wp' ! s = ip \<and> ip \<noteq> 0"
    "ip' \<noteq> 0 \<Longrightarrow> ip' \<noteq> ip \<Longrightarrow> s < N_IP_SLOTS \<Longrightarrow> src_ips wp ! s = ip' \<Longrightarrow>
       src_ips wp' ! s = ip' \<and> ip_pools wp' ! s = ip_pools wp ! s \<and> r \<noteq> Slot s"
    by blast+
qed


lemma pool_at_upd:
  "ref_ok wp r \<Longrightarrow> pool_at (upd_pool r f wp) r = f (pool_at wp r)"
  by (auto simp: pool_at_def upd_pool_def ref_ok_def split: pool_ref.splits)

lemma src_ips_upd:
  assumes "\<And>p. ipp_src_ip (f p) = ipp_src_ip p"
  shows "src_ips (upd_pool r f wp) = src_ips wp"
proof (cases r)
  case (Slot s)
  then show ?thesis
    by (cases "s < length (ip_pools wp)")
      (auto simp: src_ips_def upd_pool_def assms list_eq_iff_nth_eq nth_list_update)
qed (simp add: src_ips_def upd_pool_def)

lemma pool_ok_upd:
  assumes "pool_ok wp" "ref_ok wp r" "ip_pool_ok (f (pool_at wp r))"
  shows "pool_ok (upd_pool r f wp)"
proof (cases r)
  case (Slot s)
  then show ?thesis
    using assms set_update_subset_insert [of "ip_pools wp" s "f (ip_pools wp ! s)"]
    by (auto simp: pool_ok_def upd_pool_def pool_at_def)
qed (use assms in \<open>simp add: pool_ok_def upd_pool_def pool_at_def\<close>)

lemma pool_at_ok: "pool_ok wp \<Longrightarrow> ref_ok wp r \<Longrightarrow> ip_pool_ok (pool_at wp r)"
  by (auto simp: pool_ok_def pool_at_def ref_ok_def split: pool_ref.splits)

text \<open>Changing the pool of an address, in a way that keeps its address, changes its ports accordingly.\<close>

lemma ports_for_upd:
  assumes "pool_ok wp" "ip_pool_get ip wp = (r, wp')" "\<And>p. ipp_src_ip (f p) = ipp_src_ip p"
  shows "ports_for ip (upd_pool r f wp') = {p. free_bit (ipp_map (f (pool_at wp' r))) p}"
proof -
  note st = ip_pool_get_stable [OF assms(1,2)]
  have "ip_pool_get ip (upd_pool r f wp') = (r, upd_pool r f wp')"
    by (rule st(4)) (simp add: src_ips_upd assms(3))
  then show ?thesis by (simp add: ports_for_def pool_at_upd [OF st(1)])
qed

lemma ports_for_get:
  assumes "ip_pool_get ip wp = (r, wp')"
  shows "ports_for ip wp = {p. free_bit (ipp_map (pool_at wp' r)) p}"
  using assms by (simp add: ports_for_def)

lemma free_bit_div: "p < TGEN_EPHEM_CNT \<Longrightarrow> p div 64 < BITMAP_WORDS"
  by (simp add: port_consts less_mult_imp_div_less)

lemma port_alloc_spec:
  assumes ok: "pool_ok wp" and a: "tcp_port_alloc ip wp = (res, wp2)"
  shows "pool_ok wp2 \<and>
    (case res of
       None \<Rightarrow> ports_for ip wp = {} \<and> ports_for ip wp2 = {}
     | Some port \<Rightarrow> TGEN_EPHEM_LO \<le> unat port \<and> unat port < TGEN_EPHEM_HI \<and>
         unat port - TGEN_EPHEM_LO \<in> ports_for ip wp \<and>
         ports_for ip wp2 = ports_for ip wp - {unat port - TGEN_EPHEM_LO})"
proof -
  obtain r wp' where g: "ip_pool_get ip wp = (r, wp')" by force
  note st = ip_pool_get_stable [OF ok g]
  define p where "p = pool_at wp' r"
  have p: "length (ipp_map p) = BITMAP_WORDS" "ipp_cursor p < TGEN_EPHEM_CNT"
    using pool_at_ok [OF st(2,1)] by (auto simp: p_def ip_pool_ok_def)
  note fn = bm_find_next_correct [OF p(2), of "ipp_map p"]
  note ports = ports_for_get [OF g, folded p_def]
  show ?thesis
  proof (cases "bm_find_next (ipp_map p) (ipp_cursor p)")
    case None
    then have none: "\<forall>q. \<not> free_bit (ipp_map p) q" using fn by (auto split: if_splits)
    define wp3 where "wp3 = wp'\<lparr>port_exhaustion_events := port_exhaustion_events wp' + 1\<rparr>"
    have res: "res = None" "wp2 = wp3"
      using a g None by (auto simp: tcp_port_alloc_def p_def wp3_def)
    have "ip_pool_get ip wp3 = (r, wp3)" by (rule st(4)) (simp add: wp3_def src_ips_def)
    moreover have "pool_at wp3 r = p" by (auto simp: wp3_def p_def pool_at_def split: pool_ref.split)
    ultimately have "ports_for ip wp3 = {}" using none by (simp add: ports_for_def)
    moreover have "pool_ok wp3" using st(2) by (simp add: wp3_def pool_ok_def)
    ultimately show ?thesis using res none ports by auto
  next
    case (Some n)
    then have n: "free_bit (ipp_map p) n"
      using fn by (auto split: if_splits intro: LeastI2_ex LeastI2_wellorder_ex)
    define f where "f = (\<lambda>q :: ip_pool. q\<lparr>ipp_map := bm_clear (ipp_map q) n, ipp_cursor := (n + 1) mod TGEN_EPHEM_CNT\<rparr>)"
    have res: "res = Some (word_of_nat (TGEN_EPHEM_LO + n))" "wp2 = upd_pool r f wp'"
      using a g Some by (auto simp: tcp_port_alloc_def p_def f_def)
    have u: "unat (word_of_nat (TGEN_EPHEM_LO + n) :: u16) = TGEN_EPHEM_LO + n"
      using n by (intro unat_word_of_nat) (simp add: port_consts)
    have "ports_for ip wp2 = {q. free_bit (ipp_map (f p)) q}"
      unfolding res(2) using ports_for_upd [OF ok g, of f] by (simp add: f_def p_def)
    also have "\<dots> = ports_for ip wp - {n}"
      using n p(1) by (auto simp: ports f_def bm_clear_test free_bit_div)
    finally have "ports_for ip wp2 = ports_for ip wp - {n}" .
    moreover have "pool_ok wp2"
      unfolding res(2)
      by (rule pool_ok_upd [OF st(2,1)]) (use p in \<open>simp add: f_def ip_pool_ok_def p_def port_consts\<close>)
    ultimately show ?thesis using res u n ports by (simp add: port_consts)
  qed
qed

lemma port_release_spec:
  assumes ok: "pool_ok wp" and port: "TGEN_EPHEM_LO \<le> unat port" "unat port < TGEN_EPHEM_HI"
  shows "pool_ok (port_release ip port wp) \<and>
    ports_for ip (port_release ip port wp) = insert (unat port - TGEN_EPHEM_LO) (ports_for ip wp)"
proof -
  obtain r wp' where g: "ip_pool_get ip wp = (r, wp')" by force
  note st = ip_pool_get_stable [OF ok g]
  define n where "n = unat port - TGEN_EPHEM_LO"
  have n: "n < TGEN_EPHEM_CNT" using port by (simp add: n_def port_consts)
  define f where "f = (\<lambda>q :: ip_pool. q\<lparr>ipp_map := bm_set (ipp_map q) n\<rparr>)"
  have eq: "port_release ip port wp = upd_pool r f wp'" by (simp add: port_release_def g f_def n_def)
  have p: "ip_pool_ok (pool_at wp' r)" by (rule pool_at_ok [OF st(2,1)])
  have "ports_for ip (upd_pool r f wp') = {q. free_bit (ipp_map (f (pool_at wp' r))) q}"
    by (rule ports_for_upd [OF ok g]) (simp add: f_def)
  also have "\<dots> = insert n (ports_for ip wp)"
    using n p by (auto simp: ports_for_get [OF g] f_def bm_set_test free_bit_div ip_pool_ok_def)
  finally show ?thesis
    unfolding eq n_def [symmetric]
    using pool_ok_upd [OF st(2,1), of f] p by (simp add: f_def ip_pool_ok_def)
qed

text \<open>
  The contract of a source of ports, for clients that take ports and give back the ones they hold: the
  ports held and the ports available always partition the initial supply.
\<close>

datatype port_op = Take | Give nat

locale port_source =
  fixes ok :: "'s \<Rightarrow> bool"
    and avl :: "'s \<Rightarrow> nat set"
    and take_port :: "'s \<Rightarrow> nat option \<times> 's"
    and give_port :: "nat \<Rightarrow> 's \<Rightarrow> 's"
    and valid :: "nat \<Rightarrow> bool"
  assumes avl_valid: "ok s \<Longrightarrow> p \<in> avl s \<Longrightarrow> valid p"
    and take_some: "ok s \<Longrightarrow> take_port s = (Some p, s') \<Longrightarrow> ok s' \<and> p \<in> avl s \<and> avl s' = avl s - {p}"
    and take_none: "ok s \<Longrightarrow> take_port s = (None, s') \<Longrightarrow> ok s' \<and> avl s = {} \<and> avl s' = {}"
    and give: "ok s \<Longrightarrow> valid p \<Longrightarrow> ok (give_port p s) \<and> avl (give_port p s) = insert p (avl s)"
begin

fun client :: "port_op \<Rightarrow> nat set \<times> 's \<Rightarrow> nat set \<times> 's" where
  "client Take (held, s) =
     (case take_port s of (None, s') \<Rightarrow> (held, s') | (Some p, s') \<Rightarrow> (insert p held, s'))"
| "client (Give p) (held, s) = (if p \<in> held then (held - {p}, give_port p s) else (held, s))"

lemma client_partition:
  assumes "ok s" "held \<inter> avl s = {}" "\<forall>p\<in>held. valid p" "client op (held, s) = (held', s')"
  shows "ok s' \<and> held' \<inter> avl s' = {} \<and> held' \<union> avl s' = held \<union> avl s \<and> (\<forall>p\<in>held'. valid p)"
proof (cases op)
  case Take
  obtain r t where t: "take_port s = (r, t)" by force
  show ?thesis
  proof (cases r)
    case None
    from take_none [OF assms(1) t [unfolded None]] show ?thesis using assms Take t None by auto
  next
    case (Some p)
    from take_some [OF assms(1) t [unfolded Some]] show ?thesis
      using assms Take t Some avl_valid [OF assms(1)] by auto
  qed
next
  case (Give p)
  then show ?thesis
    using assms give [OF assms(1), of p] by (auto split: if_splits)
qed

lemma run_partition:
  assumes "ok s" "fold client ops ({}, s) = (held, s')"
  shows "ok s' \<and> held \<inter> avl s' = {} \<and> held \<union> avl s' = avl s"
proof -
  have "ok s1 \<and> h1 \<inter> avl s1 = {} \<and> h1 \<union> avl s1 = S \<and> (\<forall>p\<in>h1. valid p) \<Longrightarrow>
      fold client ops (h1, s1) = (h2, s2) \<Longrightarrow>
      ok s2 \<and> h2 \<inter> avl s2 = {} \<and> h2 \<union> avl s2 = S" for h1 s1 h2 s2 S
  proof (induction ops arbitrary: h1 s1)
    case (Cons q ops)
    obtain h3 s3 where q: "client q (h1, s1) = (h3, s3)" by force
    from client_partition [OF _ _ _ q] Cons.prems(1) Cons.IH [of s3 h3] Cons.prems(2) q show ?case by auto
  qed simp
  from this [of s "{}" "avl s" held s'] assms show ?thesis by simp
qed

end

definition take_for :: "u32 \<Rightarrow> worker_pool \<Rightarrow> nat option \<times> worker_pool" where
  "take_for ip wp = (let (r, wp') = tcp_port_alloc ip wp in (map_option (\<lambda>p. unat p - TGEN_EPHEM_LO) r, wp'))"

definition give_for :: "u32 \<Rightarrow> nat \<Rightarrow> worker_pool \<Rightarrow> worker_pool" where
  "give_for ip p wp = tcp_port_free_immediate ip (word_of_nat (TGEN_EPHEM_LO + p)) wp"

interpretation pool: port_source pool_ok "ports_for ip" "take_for ip" "give_for ip" "\<lambda>p. p < TGEN_EPHEM_CNT"
  for ip
proof
  fix s :: worker_pool and p s'
  assume ok: "pool_ok s"
  show "p < TGEN_EPHEM_CNT" if "p \<in> ports_for ip s"
    using that by (auto simp: ports_for_def split: prod.splits)
  obtain r t where a: "tcp_port_alloc ip s = (r, t)" by force
  note spec = port_alloc_spec [OF ok a]
  show "pool_ok s' \<and> p \<in> ports_for ip s \<and> ports_for ip s' = ports_for ip s - {p}"
    if "take_for ip s = (Some p, s')"
    using that spec a by (auto simp: take_for_def)
  show "pool_ok s' \<and> ports_for ip s = {} \<and> ports_for ip s' = {}" if "take_for ip s = (None, s')"
    using that spec a by (auto simp: take_for_def)
  show "pool_ok (give_for ip p s) \<and> ports_for ip (give_for ip p s) = insert p (ports_for ip s)"
    if "p < TGEN_EPHEM_CNT"
  proof -
    have u: "unat (word_of_nat (TGEN_EPHEM_LO + p) :: u16) = TGEN_EPHEM_LO + p"
      using that by (intro unat_word_of_nat) (simp add: port_consts)
    then show ?thesis
      using port_release_spec [OF ok, of "word_of_nat (TGEN_EPHEM_LO + p)" ip] that
      by (simp add: give_for_def tcp_port_free_immediate_def port_consts)
  qed
qed

fun port_client :: "u32 \<Rightarrow> port_op \<Rightarrow> nat set \<times> worker_pool \<Rightarrow> nat set \<times> worker_pool" where
  "port_client ip Take (held, wp) =
     (case take_for ip wp of (None, wp') \<Rightarrow> (held, wp') | (Some p, wp') \<Rightarrow> (insert p held, wp'))"
| "port_client ip (Give p) (held, wp) = (if p \<in> held then (held - {p}, give_for ip p wp) else (held, wp))"

lemma port_client_eq: "port_client ip = pool.client ip"
proof (intro ext)
  fix op and x :: "nat set \<times> worker_pool"
  show "port_client ip op x = pool.client ip op x" by (cases op; cases x) auto
qed

text \<open>
  C6. Whatever ports a source address takes and gives back, the ports it holds and the ports still
  available to it partition its initial supply: no port is handed out twice while it is held, and none
  is lost.
\<close>

theorem port_pool_partition:
  assumes "pool_ok wp" and "fold (port_client ip) ops ({}, wp) = (held, wp')"
  shows "pool_ok wp' \<and> held \<inter> ports_for ip wp' = {} \<and> held \<union> ports_for ip wp' = ports_for ip wp"
  using pool.run_partition [OF assms(1)] assms(2) by (simp add: port_client_eq)

lemma full_map_free: "p < TGEN_EPHEM_CNT \<Longrightarrow> bm_test full_map p"
  by (simp add: bm_test_bit full_map_def free_bit_div)

lemma worker_pool_init_ok: "pool_ok (worker_pool_init hz)"
  by (simp add: pool_ok_def worker_pool_init_def ip_pool_ok_def full_map_def port_consts)

theorem port_pool_partition_witness:
  "let r = fold (port_client 7) [Take] ({}, worker_pool_init 1000) in
   pool_ok (snd r) \<and> fst r \<inter> ports_for 7 (snd r) = {} \<and>
   fst r \<union> ports_for 7 (snd r) = ports_for 7 (worker_pool_init 1000)"
  unfolding Let_def by (rule port_pool_partition [OF worker_pool_init_ok]) (rule prod.collapse [symmetric])


subsection \<open>The TIME_WAIT ring\<close>

text \<open>The entries between head and tail, oldest first.\<close>

definition tw_list :: "worker_pool \<Rightarrow> tw_entry list" where
  "tw_list wp = map (\<lambda>k. tw_ring wp ! unat (tw_head wp + word_of_nat k)) [0..<unat (tw_tail wp - tw_head wp)]"

lemma tw_list_Cons:
  assumes "tw_head wp \<noteq> tw_tail wp"
  shows "tw_list wp = tw_ring wp ! unat (tw_head wp) # tw_list (wp\<lparr>tw_head := tw_head wp + 1\<rparr>)"
proof -
  have "tw_tail wp - tw_head wp \<noteq> 0" using assms by auto
  define m where "m = unat (tw_tail wp - (tw_head wp + 1))"
  have m: "unat (tw_tail wp - tw_head wp) = Suc m" "unat (tw_tail wp - (tw_head wp + 1)) = m"
    using unat_minus_one [OF \<open>tw_tail wp - tw_head wp \<noteq> 0\<close>] \<open>tw_tail wp - tw_head wp \<noteq> 0\<close>
    by (simp_all add: m_def diff_diff_eq unat_gt_0)
  have "[0..<Suc m] = 0 # map Suc [0..<m]" by (simp add: map_Suc_upt upt_conv_Cons)
  then show ?thesis by (simp add: tw_list_def m add.assoc comp_def)
qed

lemma tw_list_push:
  assumes "length (tw_ring wp) = TW_RING_SIZE" "tw_tail wp + 1 \<noteq> tw_head wp"
  shows "tw_list (wp\<lparr>tw_ring := (tw_ring wp)[unat (tw_tail wp) := e], tw_tail := tw_tail wp + 1\<rparr>) =
     tw_list wp @ [e]"
proof -
  define n where "n = unat (tw_tail wp - tw_head wp)"
  have ne: "tw_tail wp + 1 - tw_head wp \<noteq> 0" using assms(2) by auto
  have n: "unat (tw_tail wp + 1 - tw_head wp) = Suc n"
    using unat_minus_one [OF ne] ne unfolding n_def by (simp add: unat_gt_0 diff_diff_eq2 algebra_simps)
  have tail: "tw_head wp + word_of_nat n = tw_tail wp"
    unfolding n_def by simp
  have lt: "unat x < length (tw_ring wp)" for x :: u16
    using unat_lt_u16 [of x] assms(1) by (simp add: TW_RING_SIZE_def)
  have other: "tw_head wp + word_of_nat k \<noteq> tw_tail wp" if "k < n" for k
  proof
    assume "tw_head wp + word_of_nat k = tw_tail wp"
    then have "(word_of_nat k :: u16) = word_of_nat n" using tail by (metis add_left_cancel)
    moreover have "n < 2 ^ 16" using unat_lt_u16 [of "tw_tail wp - tw_head wp"] by (simp add: n_def)
    ultimately have "k = n" using that unat_word_of_nat [where ?'a = 16, of k] unat_word_of_nat [where ?'a = 16, of n] by simp
    then show False using that by simp
  qed
  have "unat (tw_tail wp) \<noteq> unat (tw_head wp + word_of_nat k)" if "k < n" for k
    using other [OF that] by (metis word_unat_eq_iff)
  then show ?thesis
    using lt tail by (simp add: tw_list_def n n_def [symmetric] nth_list_update)
qed

text \<open>The tick is a fold over the entries at the front of the ring that are due.\<close>

definition due :: "u64 \<Rightarrow> tw_entry \<Rightarrow> bool" where
  "due now e \<longleftrightarrow> twe_release_tsc e \<le> now"

lemma tw_list_release [simp]: "tw_list (port_release ip port wp) = tw_list wp"
  by (simp add: tw_list_def)

lemma port_release_head:
  "port_release ip port (wp\<lparr>tw_head := h\<rparr>) = (port_release ip port wp)\<lparr>tw_head := h\<rparr>"
proof -
  have p: "ip_pool_probe ip ss (wp\<lparr>tw_head := h\<rparr>) = (let (r, wp') = ip_pool_probe ip ss wp in (r, wp'\<lparr>tw_head := h\<rparr>))" for ss
    by (induction ss) (auto simp: upd_pool_def)
  have u: "upd_pool r f (wp\<lparr>tw_head := h\<rparr>) = (upd_pool r f wp)\<lparr>tw_head := h\<rparr>" for r f and wp :: worker_pool
    by (simp add: upd_pool_def split: pool_ref.split)
  show ?thesis
    by (simp add: port_release_def ip_pool_get_def p u split: prod.split)
qed

lemma fold_release_head:
  "fold (\<lambda>e. port_release (twe_src_ip e) (twe_port e)) es (wp\<lparr>tw_head := h\<rparr>) =
     (fold (\<lambda>e. port_release (twe_src_ip e) (twe_port e)) es wp)\<lparr>tw_head := h\<rparr>"
  by (induction es arbitrary: wp) (simp_all add: port_release_head)

text \<open>
  The tick gives back exactly the due entries at the front of the TIME_WAIT ring, oldest first, and
  keeps the rest in the ring.
\<close>

lemma tick_fold:
  "tcp_port_pool_tick now wp =
     (fold (\<lambda>e. port_release (twe_src_ip e) (twe_port e)) (takeWhile (due now) (tw_list wp)) wp)
       \<lparr>tw_head := tw_head wp + word_of_nat (length (takeWhile (due now) (tw_list wp)))\<rparr> \<and>
   tw_list (tcp_port_pool_tick now wp) = dropWhile (due now) (tw_list wp)"
proof (induction now wp rule: tcp_port_pool_tick.induct)
  case (1 now wp)
  let ?e = "tw_ring wp ! unat (tw_head wp)"
  let ?wp1 = "(port_release (twe_src_ip ?e) (twe_port ?e) wp)\<lparr>tw_head := tw_head wp + 1\<rparr>"
  show ?case
  proof (cases "tw_head wp = tw_tail wp")
    case True
    then have "tw_list wp = []" by (simp add: tw_list_def)
    then show ?thesis using True by (simp add: tcp_port_pool_tick.simps [of now wp])
  next
    case ne: False
    note l = tw_list_Cons [OF ne]
    show ?thesis
    proof (cases "due now ?e")
      case False
      then show ?thesis using ne l by (simp add: tcp_port_pool_tick.simps [of now wp] due_def not_le Let_def)
    next
      case True
      have l1: "tw_list ?wp1 = tw_list (wp\<lparr>tw_head := tw_head wp + 1\<rparr>)" by (simp add: tw_list_def)
      have t: "tcp_port_pool_tick now wp = tcp_port_pool_tick now ?wp1"
        using ne True by (simp add: tcp_port_pool_tick.simps [of now wp] due_def not_less Let_def)
      have IH: "tcp_port_pool_tick now ?wp1 =
          (fold (\<lambda>e. port_release (twe_src_ip e) (twe_port e)) (takeWhile (due now) (tw_list ?wp1)) ?wp1)
            \<lparr>tw_head := tw_head ?wp1 + word_of_nat (length (takeWhile (due now) (tw_list ?wp1)))\<rparr> \<and>
          tw_list (tcp_port_pool_tick now ?wp1) = dropWhile (due now) (tw_list ?wp1)"
        by (rule 1 [OF ne refl]) (use True in \<open>simp add: due_def not_less\<close>)
      have "dropWhile (due now) (tw_list wp) = dropWhile (due now) (tw_list ?wp1)"
        using l True l1 by simp
      with conjunct2 [OF IH] have "tw_list (tcp_port_pool_tick now wp) = dropWhile (due now) (tw_list wp)"
        by (simp only: t)
      moreover have "tcp_port_pool_tick now wp =
         (fold (\<lambda>e. port_release (twe_src_ip e) (twe_port e)) (takeWhile (due now) (tw_list wp)) wp)
           \<lparr>tw_head := tw_head wp + word_of_nat (length (takeWhile (due now) (tw_list wp)))\<rparr>"
        unfolding t conjunct1 [OF IH] using l True l1 by (simp add: fold_release_head add.assoc)
      ultimately show ?thesis by blast
    qed
  qed
qed

lemma takeWhile_sorted_filter:
  "sorted (map twe_release_tsc es) \<Longrightarrow> takeWhile (due now) es = filter (due now) es \<and>
     dropWhile (due now) es = filter (\<lambda>e. \<not> due now e) es"
proof (induction es)
  case (Cons e es)
  show ?case
  proof (cases "due now e")
    case False
    then have "\<not> due now x" if "x \<in> set es" for x
      using Cons.prems that by (auto simp: due_def)
    then show ?thesis using False by (simp add: filter_empty_conv)
  qed (use Cons in auto)
qed simp

text \<open>
  While the clock is monotonic (so that release times are sorted along the ring), a tick ends the
  hold-off of exactly the ports whose release time has come; all others stay held.
\<close>

theorem port_tick_releases_due:
  assumes "sorted (map twe_release_tsc (tw_list wp))"
  shows "tw_list (tcp_port_pool_tick now wp) = filter (\<lambda>e. now < twe_release_tsc e) (tw_list wp) \<and>
    tcp_port_pool_tick now wp =
      (fold (\<lambda>e. port_release (twe_src_ip e) (twe_port e))
         (filter (\<lambda>e. twe_release_tsc e \<le> now) (tw_list wp)) wp)
      \<lparr>tw_head := tw_head wp + word_of_nat (length (filter (\<lambda>e. twe_release_tsc e \<le> now) (tw_list wp)))\<rparr>"
proof -
  have d: "due now = (\<lambda>e. twe_release_tsc e \<le> now)" by (simp add: fun_eq_iff due_def)
  have f: "takeWhile (due now) (tw_list wp) = filter (\<lambda>e. twe_release_tsc e \<le> now) (tw_list wp)"
    "dropWhile (due now) (tw_list wp) = filter (\<lambda>e. now < twe_release_tsc e) (tw_list wp)"
    using takeWhile_sorted_filter [OF assms, of now] by (simp_all add: d not_le)
  from tick_fold [of now wp] show ?thesis unfolding f by blast
qed

definition demo_pool :: worker_pool where
  "demo_pool = tcp_port_free 100 7 10000 (worker_pool_init 0)"

theorem port_tick_releases_due_witness:
  "tw_list (tcp_port_pool_tick 500 demo_pool) = filter (\<lambda>e. 500 < twe_release_tsc e) (tw_list demo_pool) \<and>
    tcp_port_pool_tick 500 demo_pool =
      (fold (\<lambda>e. port_release (twe_src_ip e) (twe_port e))
         (filter (\<lambda>e. twe_release_tsc e \<le> 500) (tw_list demo_pool)) demo_pool)
      \<lparr>tw_head := tw_head demo_pool + word_of_nat (length (filter (\<lambda>e. twe_release_tsc e \<le> 500) (tw_list demo_pool)))\<rparr>"
proof (rule port_tick_releases_due)
  have "length (tw_list demo_pool) = 1"
    by (simp add: demo_pool_def tw_list_def tcp_port_free_def worker_pool_init_def port_consts)
  then show "sorted (map twe_release_tsc (tw_list demo_pool))"
    by (cases "tw_list demo_pool") auto
qed

text \<open>
  Freeing a port of the ephemeral range queues it for release one hold-off time later and makes no
  port available, unless the ring is full: then the port is available at once.
\<close>

theorem port_free_holdoff:
  assumes "pool_ok wp" and "TGEN_EPHEM_LO \<le> unat port" and "unat port < TGEN_EPHEM_HI"
  shows "let wp' = tcp_port_free now ip port wp in
    if tw_tail wp + 1 = tw_head wp
    then ports_for ip wp' = insert (unat port - TGEN_EPHEM_LO) (ports_for ip wp) \<and> tw_list wp' = tw_list wp
    else (\<forall>ip'. ports_for ip' wp' = ports_for ip' wp) \<and>
      tw_list wp' = tw_list wp @ [\<lparr>twe_src_ip = ip, twe_port = port, twe_release_tsc = now + tw_hold_tsc wp\<rparr>]"
proof (cases "tw_tail wp + 1 = tw_head wp")
  case True
  then show ?thesis using port_release_spec [OF assms, of ip] assms(2,3) by (simp add: tcp_port_free_def)
next
  case False
  define e where "e = \<lparr>twe_src_ip = ip, twe_port = port, twe_release_tsc = now + tw_hold_tsc wp\<rparr>"
  define wp' where "wp' = wp\<lparr>tw_ring := (tw_ring wp)[unat (tw_tail wp) := e], tw_tail := tw_tail wp + 1\<rparr>"
  have eq: "tcp_port_free now ip port wp = wp'"
    using False assms(2,3) by (simp add: tcp_port_free_def wp'_def e_def)
  have g: "ip_pool_probe ip' ss (wp\<lparr>tw_ring := r, tw_tail := t\<rparr>) =
      (let (q, w) = ip_pool_probe ip' ss wp in (q, w\<lparr>tw_ring := r, tw_tail := t\<rparr>))" for ip' ss r t
    by (induction ss) (auto simp: upd_pool_def)
  have "ports_for ip' wp' = ports_for ip' wp" for ip'
    by (auto simp: ports_for_def ip_pool_get_def wp'_def g pool_at_def split: prod.split pool_ref.split)
  moreover have "tw_list wp' = tw_list wp @ [e]"
    unfolding wp'_def by (rule tw_list_push) (use assms(1) False in \<open>auto simp: pool_ok_def\<close>)
  ultimately show ?thesis using False by (simp add: eq e_def)
qed

theorem port_free_holdoff_witness:
  "let wp = worker_pool_init 1000; wp' = tcp_port_free 5 9 10001 wp in
    if tw_tail wp + 1 = tw_head wp
    then ports_for 9 wp' = insert (unat (10001::u16) - TGEN_EPHEM_LO) (ports_for 9 wp) \<and> tw_list wp' = tw_list wp
    else (\<forall>ip'. ports_for ip' wp' = ports_for ip' wp) \<and>
      tw_list wp' = tw_list wp @ [\<lparr>twe_src_ip = 9, twe_port = 10001, twe_release_tsc = 5 + tw_hold_tsc wp\<rparr>]"
  using port_free_holdoff [OF worker_pool_init_ok [of 1000], of 10001 5 9]
  by (simp add: port_consts Let_def)

subsection \<open>The RSS filter\<close>

text \<open>A bitmap, and all pools in use of a worker, after the first \<open>m\<close> ports.\<close>

definition rss_map :: "(nat \<Rightarrow> bool) \<Rightarrow> nat \<Rightarrow> u64 list \<Rightarrow> bool" where
  "rss_map mine m bm \<longleftrightarrow> length bm = BITMAP_WORDS \<and> (\<forall>p<m. bm_test bm p \<longleftrightarrow> mine p)"

lemma rss_map_step:
  assumes "rss_map mine m bm" "m < TGEN_EPHEM_CNT"
  shows "rss_map mine (Suc m) (if mine m then bm_set bm m else bm_clear bm m)"
proof -
  have d: "p div 64 < BITMAP_WORDS" if "p < Suc m" for p using that assms(2) by (intro free_bit_div) simp
  show ?thesis using assms(1) d by (auto simp: rss_map_def bm_set_test bm_clear_test less_Suc_eq)
qed

definition rss_pool :: "(nat \<Rightarrow> bool) \<Rightarrow> nat \<Rightarrow> worker_pool \<Rightarrow> bool" where
  "rss_pool mine m wp \<longleftrightarrow> pool_ok wp \<and> rss_map mine m (ipp_map (shared wp)) \<and> (\<forall>p\<in>set (ip_pools wp). ipp_src_ip p \<noteq> 0 \<longrightarrow> rss_map mine m (ipp_map p))"

lemma rss_pool_step:
  assumes "rss_pool mine m wp" "m < TGEN_EPHEM_CNT"
  shows "rss_pool mine (Suc m) (rss_set (mine m) m wp)"
  using assms(1) rss_map_step [OF _ assms(2), of mine]
  by (auto simp: rss_pool_def rss_set_def pool_ok_def ip_pool_ok_def Let_def rss_map_def split: if_splits)

lemma rss_pool_fold:
  assumes "pool_ok wp" "m \<le> TGEN_EPHEM_CNT"
  shows "rss_pool mine m (fold (\<lambda>n. rss_set (mine n) n) [0..<m] wp)"
  using assms(2)
proof (induction m)
  case 0
  then show ?case using assms(1) by (auto simp: rss_pool_def rss_map_def pool_ok_def ip_pool_ok_def)
next
  case (Suc m)
  then show ?case using rss_pool_step [of mine m "fold (\<lambda>n. rss_set (mine n) n) [0..<m] wp"] by simp
qed

text \<open>Every address, also one that gets its own pool only later, then finds the same ports.\<close>

lemma rss_pool_probe:
  assumes "rss_pool mine m wp" "ip \<noteq> 0" "\<forall>s\<in>set ss. s < N_IP_SLOTS" "ip_pool_probe ip ss wp = (r, wp')"
  shows "rss_map mine m (ipp_map (pool_at wp' r))"
  using assms(3,4)
proof (induction ss)
  case Nil
  then show ?case using assms(1) by (simp add: pool_at_def rss_pool_def)
next
  case (Cons s ss)
  have l: "s < length (ip_pools wp)" using Cons.prems(1) assms(1) by (simp add: rss_pool_def pool_ok_def)
  have at: "ip_pools wp ! s \<in> set (ip_pools wp)" using l by simp
  show ?case
  proof (cases "ipp_src_ip (ip_pools wp ! s) = ip")
    case True
    then show ?thesis using Cons.prems(2) assms(1,2) at by (auto simp: rss_pool_def pool_at_def)
  next
    case False
    then show ?thesis using Cons l assms(1) by (auto simp: pool_at_def upd_pool_def rss_pool_def split: if_splits)
  qed
qed

lemma rss_pool_ports:
  assumes "rss_pool mine TGEN_EPHEM_CNT wp"
  shows "ports_for ip wp = {p. p < TGEN_EPHEM_CNT \<and> mine p}"
proof -
  obtain r wp' where g: "ip_pool_get ip wp = (r, wp')" by fastforce
  have "rss_map mine TGEN_EPHEM_CNT (ipp_map (pool_at wp' r))"
  proof (cases "ip = 0")
    case True
    then show ?thesis using g assms by (auto simp: ip_pool_get_def pool_at_def rss_pool_def)
  next
    case False
    then show ?thesis using g rss_pool_probe [OF assms False, of "ip_probes ip"] ip_probes_range by (auto simp: ip_pool_get_def)
  qed
  then show ?thesis using g by (auto simp: ports_for_def rss_map_def)
qed

lemma rss_filter_bit_nth:
  assumes "w < length pools" "length pools = n_workers"
  shows "rss_filter_bit target n_workers n pools ! w = map_option (rss_set (w = target n) n) (pools ! w)"
  using assms by (simp add: rss_filter_bit_def nth_enumerate_eq)

lemma rss_filter_bit_length [simp]: "length (rss_filter_bit t n b pools) = length pools"
  by (simp add: rss_filter_bit_def)

lemma rss_filter_fold_nth:
  assumes "w < length pools" "length pools = n_workers"
  shows "fold (rss_filter_bit target n_workers) ns pools ! w = map_option (fold (\<lambda>n. rss_set (w = target n) n) ns) (pools ! w)"
proof -
  have "w < length pools \<Longrightarrow> length pools = n_workers \<Longrightarrow> fold (rss_filter_bit target n_workers) ns pools ! w = map_option (fold (\<lambda>n. rss_set (w = target n) n) ns) (pools ! w)" for pools
    by (induction ns arbitrary: pools) (simp_all add: rss_filter_bit_nth option.map_comp comp_def option.map_id)
  then show ?thesis using assms by blast
qed

text \<open>
  C37. With several queues and workers, the RSS filter divides the ephemeral ports among the workers.  A port goes to the worker \<open>rss_target\<close>: the one whose number is
  the queue that the NIC's hash of the connection's addresses and ports selects through the indirection table (modulo the number of workers), which is one of the workers.
  After the filter, the ports available to a worker are exactly those, in its shared pool, in the pool of every source address it has, and for every address that gets
  its pool later (also ports that a running connection holds are available again).  The device's table has at most 512 entries, what the code has room for.
\<close>

theorem rss_filter_partitions:
  assumes "1 < n_rxq" "1 < n_workers" "reta_size \<le> 512" "length pools = n_workers" "\<forall>w<n_workers. \<exists>wp. pools ! w = Some wp \<and> pool_ok wp"
  shows "(\<forall>p. rss_target softrss reta_size reta n_rxq n_workers src_ip dst_ip dst_port p < n_workers) \<and>
    (\<forall>w<n_workers. \<exists>wp. tcp_port_pool_apply_rss_filter softrss reta_size reta n_rxq n_workers src_ip dst_ip dst_port pools ! w = Some wp \<and> pool_ok wp \<and>
       (\<forall>ip. ports_for ip wp = {p. p < TGEN_EPHEM_CNT \<and> rss_target softrss reta_size reta n_rxq n_workers src_ip dst_ip dst_port p = w}))"
proof (intro conjI allI impI)
  fix p show "rss_target softrss reta_size reta n_rxq n_workers src_ip dst_ip dst_port p < n_workers" using assms(2) by (simp add: rss_target_def Let_def)
next
  fix w assume w: "w < n_workers"
  define target where "target = rss_target softrss reta_size reta n_rxq n_workers src_ip dst_ip dst_port"
  from assms(5) w obtain wp where wp: "pools ! w = Some wp" "pool_ok wp" by blast
  have r: "rss_pool (\<lambda>n. w = target n) TGEN_EPHEM_CNT (fold (\<lambda>n. rss_set (w = target n) n) [0..<TGEN_EPHEM_CNT] wp)" by (rule rss_pool_fold [OF wp(2) order_refl])
  have "tcp_port_pool_apply_rss_filter softrss reta_size reta n_rxq n_workers src_ip dst_ip dst_port pools ! w = Some (fold (\<lambda>n. rss_set (w = target n) n) [0..<TGEN_EPHEM_CNT] wp)"
    using assms(1,2,4) w wp(1) rss_filter_fold_nth [of w pools n_workers target "[0..<TGEN_EPHEM_CNT]"] by (simp add: tcp_port_pool_apply_rss_filter_def target_def)
  then show "\<exists>wp. tcp_port_pool_apply_rss_filter softrss reta_size reta n_rxq n_workers src_ip dst_ip dst_port pools ! w = Some wp \<and> pool_ok wp \<and>
       (\<forall>ip. ports_for ip wp = {p. p < TGEN_EPHEM_CNT \<and> rss_target softrss reta_size reta n_rxq n_workers src_ip dst_ip dst_port p = w})"
    using rss_pool_ports [OF r] r unfolding target_def [symmetric] by (intro exI conjI) (auto simp: rss_pool_def)
qed
theorem rss_filter_partitions_witness:
  "\<exists>wp. tcp_port_pool_apply_rss_filter (\<lambda>t. t ! 2) 128 None 2 2 1 2 81 [Some (worker_pool_init 5), Some (worker_pool_init 5)] ! 1 = Some wp \<and>
    0 \<in> ports_for 9 wp \<and> 443 \<in> ports_for 0 wp"
proof -
  have t: "rss_target (\<lambda>t. t ! 2) 128 None 2 2 1 2 81 0 = 1" "rss_target (\<lambda>t. t ! 2) 128 None 2 2 1 2 81 443 = 1" by (simp_all add: rss_target_def port_consts)
  from rss_filter_partitions [of 2 2 128 "[Some (worker_pool_init 5), Some (worker_pool_init 5)]" "\<lambda>t. t ! 2" None 1 2 81]
  obtain wp where "tcp_port_pool_apply_rss_filter (\<lambda>t. t ! 2) 128 None 2 2 1 2 81 [Some (worker_pool_init 5), Some (worker_pool_init 5)] ! 1 = Some wp"
    "\<forall>ip. ports_for ip wp = {p. p < TGEN_EPHEM_CNT \<and> rss_target (\<lambda>t. t ! 2) 128 None 2 2 1 2 81 p = 1}"
    by (auto simp: less_2_cases_iff worker_pool_init_ok)
  then show ?thesis using t by (intro exI [of _ wp]) (auto simp: port_consts)
qed

end
