(* ===== verification/Histogram.thy ===== *)
theory Histogram
  imports Prelude
begin

text \<open>
  The latency histogram of \<^verbatim>\<open>telemetry/histogram.h\<close> and \<^verbatim>\<open>telemetry/histogram.c\<close>: 64 buckets by
  the position of the highest bit.  The percentile's target rank is computed in floating point; it is an
  argument here.  The lemmas relate the buckets to the list of recorded samples.
\<close>

definition HIST_BUCKETS :: nat where "HIST_BUCKETS = 64"

record histogram =
  h_counts :: "u64 list"
  h_total_count :: u64
  h_total_sum_us :: u64
  h_min_us :: u64
  h_max_us :: u64

definition hist_reset :: histogram where
  "hist_reset = \<lparr>h_counts = replicate HIST_BUCKETS 0, h_total_count = 0, h_total_sum_us = 0,
     h_min_us = U64_MAX, h_max_us = 0\<rparr>"

text \<open>\<^verbatim>\<open>__builtin_clzll\<close> of a nonzero word: the number of zero bits above the highest one.\<close>

definition clz :: "u64 \<Rightarrow> nat" where
  "clz x = length (takeWhile (\<lambda>n. \<not> bit x (63 - n)) [0..<64])"

definition hist_bucket :: "u64 \<Rightarrow> nat" where
  "hist_bucket us =
     (let idx = 63 - clz (us OR 1) in if idx \<ge> HIST_BUCKETS then HIST_BUCKETS - 1 else idx)"

definition hist_record :: "u64 \<Rightarrow> histogram \<Rightarrow> histogram" where
  "hist_record us h =
     (let idx = hist_bucket us
      in h\<lparr>h_counts := (h_counts h)[idx := h_counts h ! idx + 1],
           h_total_count := h_total_count h + 1,
           h_total_sum_us := h_total_sum_us h + us,
           h_min_us := (if us < h_min_us h then us else h_min_us h),
           h_max_us := (if us > h_max_us h then us else h_max_us h)\<rparr>)"

text \<open>The loop that injects the missed samples; it ends because \<open>extra\<close> decreases.\<close>

function inject :: "u64 \<Rightarrow> u64 \<Rightarrow> histogram \<Rightarrow> histogram" where
  "inject interval extra h =
     (if interval \<noteq> 0 \<and> extra \<ge> interval then inject interval (extra - interval) (hist_record extra h) else h)"
  by auto
termination
proof (relation "measure (\<lambda>(_, extra, _). unat extra)")
  fix interval extra :: u64 and h :: histogram
  assume a: "interval \<noteq> 0 \<and> extra \<ge> interval"
  then have "unat (extra - interval) = unat extra - unat interval" by (intro word_nat_sub) simp
  moreover have "0 < unat interval" "unat interval \<le> unat extra"
    using a by (auto simp: unat_gt_0 word_le_nat_alt)
  ultimately show "((interval, extra - interval, hist_record extra h), (interval, extra, h))
      \<in> measure (\<lambda>(_, extra, _). unat extra)" by simp
qed simp

declare inject.simps [simp del]

definition hist_record_corrected :: "u64 \<Rightarrow> u64 \<Rightarrow> histogram \<Rightarrow> histogram" where
  "hist_record_corrected us interval h =
     (let h = hist_record us h
      in if interval = 0 \<or> us \<le> interval then h else inject interval (us - interval) h)"

text \<open>
  The scan of the buckets; \<open>None\<close> is the undefined shift by 64 that the last bucket would need.
\<close>

fun percentile_scan :: "u64 \<Rightarrow> u64 list \<Rightarrow> nat \<Rightarrow> u64 \<Rightarrow> u64 \<Rightarrow> u64 option" where
  "percentile_scan target [] i seen max_us = Some max_us"
| "percentile_scan target (c # cs) i seen max_us =
     (let seen = seen + c
      in if seen \<ge> target then (if i + 1 < 64 then Some (push_bit (i + 1) 1) else None)
         else percentile_scan target cs (i + 1) seen max_us)"

text \<open>\<open>rank\<close> is \<^verbatim>\<open>(uint64_t)((p / 100.0) * (double)h->total_count)\<close>.\<close>

definition hist_percentile :: "histogram \<Rightarrow> u64 \<Rightarrow> u64 option" where
  "hist_percentile h rank =
     (if h_total_count h = 0 then Some 0
      else
        let target = (if rank = 0 then 1 else rank)
        in percentile_scan target (h_counts h) 0 0 (h_max_us h))"

definition hist_copy :: "histogram \<Rightarrow> histogram" where
  "hist_copy src = src"

subsection \<open>Buckets\<close>

lemma clz_props:
  assumes "x \<noteq> 0"
  shows "clz x < 64" "bit x (63 - clz x)" "m < clz x \<Longrightarrow> \<not> bit x (63 - m)"
proof -
  define P where "P = (\<lambda>n. \<not> bit x (63 - n))"
  from assms obtain n where n: "bit x n" by (auto simp: bit_eq_iff)
  then have "n < 64" using bit_imp_le_length by fastforce
  then have ex: "\<exists>k\<in>set [0..<64]. \<not> P k" using n by (intro bexI [of _ "63 - n"]) (auto simp: P_def)
  then have lt: "length (takeWhile P [0..<64]) < length [0..<64]" by (rule length_takeWhile_lt)
  then show "clz x < 64" by (simp add: clz_def P_def)
  have "\<not> P ([0..<64] ! length (takeWhile P [0..<64]))" using lt by (rule nth_length_takeWhile)
  then show "bit x (63 - clz x)" using lt by (simp add: clz_def P_def)
  show "\<not> bit x (63 - m)" if "m < clz x"
  proof -
    have m: "m < length (takeWhile P [0..<64])" using that by (simp add: clz_def P_def)
    have "takeWhile P [0..<64] ! m = [0..<64] ! m" using m by (rule takeWhile_nth)
    then have "P m" using nth_mem [OF m] m lt by (auto dest: set_takeWhileD)
    then show ?thesis by (simp add: P_def)
  qed
qed

text \<open>A sample lies in bucket \<open>i\<close> when its highest bit is \<open>i\<close>; 0 goes with 1.\<close>

lemma hist_bucket_bounds:
  "2 ^ hist_bucket us \<le> unat (us OR 1) \<and> unat (us OR 1) < 2 ^ (hist_bucket us + 1) \<and> hist_bucket us < 64"
proof -
  define x where "x = us OR 1"
  have "bit x 0" by (simp add: x_def bit_or_iff)
  then have x: "x \<noteq> 0" by auto
  note c = clz_props [OF x]
  define i where "i = 63 - clz x"
  have b: "hist_bucket us = i" using c(1) by (simp add: hist_bucket_def Let_def x_def i_def HIST_BUCKETS_def)
  from x have "0 < unat x" by (simp add: unat_gt_0)
  from log2_bounds [OF this] obtain m where m: "2 ^ m \<le> unat x" "unat x < 2 ^ Suc m" .
  have "m = i"
  proof -
    have bm: "bit x m"
    proof -
      have "unat x div 2 ^ m = 1" using m by (intro div_nat_eqI) auto
      then show ?thesis by (simp add: bit_unat_iff [symmetric] bit_iff_odd)
    qed
    then have m64: "m < 64" using bit_imp_le_length by fastforce
    have "\<not> 63 - m < clz x" using c(3) [of "63 - m"] bm m64 by auto
    then have "m \<le> i" using c(1) m64 by (simp add: i_def)
    moreover have "i \<le> m"
    proof -
      have "odd (unat x div 2 ^ i)" using c(2) by (simp add: i_def bit_unat_iff [symmetric] bit_iff_odd)
      then have "2 ^ i \<le> unat x" by (metis div_less even_zero not_le)
      with m have "(2::nat) ^ i < 2 ^ Suc m" by linarith
      then have "i < Suc m" by (rule power_less_imp_less_exp [rotated]) simp
      then show ?thesis by simp
    qed
    ultimately show ?thesis by simp
  qed
  with m b c(1) show ?thesis by (simp add: x_def i_def)
qed

lemma unat_or_1: "unat (us OR 1 :: u64) = (if odd (unat us) then unat us else unat us + 1)"
proof -
  have "unat (us OR 1) = unat us OR 1" by (simp add: unsigned_or_eq)
  also have "\<dots> = unat us + of_bool (even (unat us))" by (simp add: or_Suc_0_eq)
  finally show ?thesis by simp
qed

lemma bucket_less_iff:
  assumes "0 < i" "i \<le> 64"
  shows "hist_bucket us < i \<longleftrightarrow> unat us < 2 ^ i"
proof -
  note b = hist_bucket_bounds [of us]
  have ev: "even ((2::nat) ^ i)" using assms by simp
  have "unat (us OR 1) < 2 ^ i \<longleftrightarrow> unat us < 2 ^ i"
  proof -
    have "Suc (unat us) \<noteq> 2 ^ i" if "even (unat us)" using ev that by (metis even_Suc)
    then show ?thesis unfolding unat_or_1 by auto
  qed
  moreover have "unat (us OR 1) < 2 ^ i \<longleftrightarrow> hist_bucket us < i"
  proof
    assume "unat (us OR 1) < 2 ^ i"
    with b have "(2::nat) ^ hist_bucket us < 2 ^ i" by linarith
    then show "hist_bucket us < i" by (rule power_less_imp_less_exp [rotated]) simp
  next
    assume "hist_bucket us < i"
    then have "(2::nat) ^ (hist_bucket us + 1) \<le> 2 ^ i" by (intro power_increasing) auto
    with b show "unat (us OR 1) < 2 ^ i" by linarith
  qed
  ultimately show ?thesis by simp
qed

subsection \<open>Recording\<close>

text \<open>The histogram of a list of samples, and what its fields hold.\<close>

definition hist_of :: "u64 list \<Rightarrow> histogram" where
  "hist_of xs = fold hist_record xs hist_reset"

definition in_bucket :: "nat \<Rightarrow> u64 list \<Rightarrow> nat" where
  "in_bucket i xs = length (filter (\<lambda>x. hist_bucket x = i) xs)"

lemma in_bucket_simps [simp]:
  "in_bucket i [] = 0"
  "in_bucket i (xs @ ys) = in_bucket i xs + in_bucket i ys"
  "in_bucket i [x] = (if hist_bucket x = i then 1 else 0)"
  by (simp_all add: in_bucket_def)

definition min_of :: "u64 list \<Rightarrow> u64" where
  "min_of xs = fold min xs U64_MAX"

definition max_of :: "u64 list \<Rightarrow> u64" where
  "max_of xs = fold max xs 0"

lemma hist_of_snoc: "hist_of (xs @ [x]) = hist_record x (hist_of xs)"
  by (simp add: hist_of_def)

lemma hist_of_fields:
  "h_counts (hist_of xs) = map (\<lambda>i. word_of_nat (in_bucket i xs)) [0..<64] \<and>
   h_total_count (hist_of xs) = word_of_nat (length xs) \<and>
   h_total_sum_us (hist_of xs) = sum_list xs \<and>
   h_min_us (hist_of xs) = min_of xs \<and> h_max_us (hist_of xs) = max_of xs"
proof (induction xs rule: rev_induct)
  case Nil
  then show ?case
    by (simp add: hist_of_def hist_reset_def HIST_BUCKETS_def min_of_def max_of_def map_replicate_const)
next
  case (snoc x xs)
  have lt: "hist_bucket x < 64" using hist_bucket_bounds by blast
  have "(map (\<lambda>i. word_of_nat (in_bucket i xs)) [0..<64])[hist_bucket x := word_of_nat (in_bucket (hist_bucket x) xs) + 1]
      = map (\<lambda>i. word_of_nat (in_bucket i (xs @ [x])) :: u64) [0..<64]"
    using lt by (intro nth_equalityI) (auto simp: nth_list_update add.commute)
  moreover have "(if x < a then x else a) = min x a" "(if a < x then x else a) = max x a" for a
    by (auto simp: min_def max_def)
  ultimately show ?case
    using snoc lt by (simp add: hist_of_snoc hist_record_def Let_def min_of_def max_of_def add.commute)
qed

text \<open>
  The percentile scan on the buckets of a list of samples: the running sum is the number of samples
  below the bucket's upper bound.
\<close>

definition below :: "nat \<Rightarrow> u64 list \<Rightarrow> nat" where
  "below i xs = length (filter (\<lambda>x. hist_bucket x < i) xs)"

lemma below_Suc: "below (Suc i) xs = below i xs + in_bucket i xs"
  by (induction xs) (auto simp: below_def in_bucket_def less_Suc_eq)

lemma below_le: "below i xs \<le> length xs"
  by (simp add: below_def)

lemma below_all: "below 64 xs = length xs"
proof -
  have "filter (\<lambda>x. hist_bucket x < 64) xs = xs" using hist_bucket_bounds by (simp add: filter_id_conv)
  then show ?thesis by (simp add: below_def)
qed

lemma percentile_scan_hist:
  assumes "length xs < 2 ^ 64" "below i xs < unat target" "unat target \<le> length xs" "i \<le> 64"
  shows "\<exists>j. i \<le> j \<and> j < 64 \<and> below j xs < unat target \<and> unat target \<le> below (Suc j) xs \<and>
     percentile_scan target (map (\<lambda>i. word_of_nat (in_bucket i xs)) [i..<64]) i (word_of_nat (below i xs)) mx =
       (if j + 1 < 64 then Some (push_bit (j + 1) 1) else None)"
  using assms
proof (induction "64 - i" arbitrary: i)
  case 0
  then show ?case using below_all [of xs] by simp
next
  case (Suc d)
  then have i: "i < 64" "[i..<64] = i # [Suc i..<64]" by (auto simp: upt_conv_Cons)
  have sum: "word_of_nat (below i xs) + word_of_nat (in_bucket i xs) = (word_of_nat (below (Suc i) xs) :: u64)"
    by (simp add: below_Suc)
  have u: "unat (word_of_nat (below (Suc i) xs) :: u64) = below (Suc i) xs"
    using below_le [of "Suc i" xs] Suc.prems(1) by (intro unat_word_of_nat) simp
  show ?case
  proof (cases "unat target \<le> below (Suc i) xs")
    case True
    then have "target \<le> word_of_nat (below (Suc i) xs)" by (simp add: word_le_nat_alt u)
    then have "percentile_scan target (map (\<lambda>i. word_of_nat (in_bucket i xs)) [i..<64]) i (word_of_nat (below i xs)) mx =
      (if i + 1 < 64 then Some (push_bit (i + 1) 1) else None)"
      unfolding i(2) list.map percentile_scan.simps Let_def sum by simp
    then show ?thesis using True i Suc.prems by (intro exI [of _ i]) simp
  next
    case False
    then have n: "\<not> target \<le> word_of_nat (below (Suc i) xs)" by (simp add: word_le_nat_alt u)
    have "\<exists>j. Suc i \<le> j \<and> j < 64 \<and> below j xs < unat target \<and> unat target \<le> below (Suc j) xs \<and>
      percentile_scan target (map (\<lambda>i. word_of_nat (in_bucket i xs)) [Suc i..<64]) (Suc i)
        (word_of_nat (below (Suc i) xs)) mx = (if j + 1 < 64 then Some (push_bit (j + 1) 1) else None)"
      by (rule Suc.hyps) (use Suc.hyps(2) Suc.prems False i in auto)
    then obtain j where j: "Suc i \<le> j" "j < 64" "below j xs < unat target" "unat target \<le> below (Suc j) xs"
      "percentile_scan target (map (\<lambda>i. word_of_nat (in_bucket i xs)) [Suc i..<64]) (Suc i)
        (word_of_nat (below (Suc i) xs)) mx = (if j + 1 < 64 then Some (push_bit (j + 1) 1) else None)"
      by blast
    have "percentile_scan target (map (\<lambda>i. word_of_nat (in_bucket i xs)) [i..<64]) i (word_of_nat (below i xs)) mx =
      (if j + 1 < 64 then Some (push_bit (j + 1) 1) else None)"
      unfolding i(2) list.map percentile_scan.simps Let_def sum using n j(5) by simp
    with j show ?thesis by (intro exI [of _ j]) simp
  qed
qed

text \<open>
  C39. For recorded samples below \<open>2 ^ 63\<close> microseconds and a rank between 1 and their number, the
  percentile is a power of two that bounds the sample of that rank within a factor of two: at least
  \<open>rank\<close> samples lie below it, and fewer than \<open>rank\<close> lie below half of it.
\<close>

theorem hist_percentile_bounds:
  assumes "length xs < 2 ^ 64" and "\<forall>x\<in>set xs. unat x < 2 ^ 63"
    and "1 \<le> unat rank" and "unat rank \<le> length xs"
  shows "\<exists>j. hist_percentile (hist_of xs) rank = Some (push_bit j 1) \<and> 1 \<le> j \<and> j \<le> 63 \<and>
    unat rank \<le> length (filter (\<lambda>x. unat x < 2 ^ j) xs) \<and>
    (1 < j \<longrightarrow> length (filter (\<lambda>x. unat x < 2 ^ (j - 1)) xs) < unat rank)"
proof -
  have below: "below i xs = length (filter (\<lambda>x. unat x < 2 ^ i) xs)" if "0 < i" "i \<le> 64" for i
    using that by (simp add: below_def bucket_less_iff)
  have z: "below 0 xs = 0" by (simp add: below_def)
  have r: "rank \<noteq> 0" using assms(3) by auto
  have "(word_of_nat (length xs) :: u64) \<noteq> 0"
  proof -
    have "unat (word_of_nat (length xs) :: u64) = length xs"
      by (rule unat_word_of_nat) (use assms(1) in simp)
    then show ?thesis using assms(3,4) by auto
  qed
  then have p: "hist_percentile (hist_of xs) rank =
      percentile_scan rank (map (\<lambda>i. word_of_nat (in_bucket i xs)) [0..<64]) 0 (word_of_nat (below 0 xs)) (max_of xs)"
    using r hist_of_fields [of xs] by (simp add: hist_percentile_def z)
  obtain j where j: "j < 64" "below j xs < unat rank" "unat rank \<le> below (Suc j) xs"
    "hist_percentile (hist_of xs) rank = (if j + 1 < 64 then Some (push_bit (j + 1) 1) else None)"
    using percentile_scan_hist [OF assms(1), of 0 rank "max_of xs"] assms(3,4) unfolding p z by auto
  have "below 63 xs = length xs"
    using assms(2) by (simp add: below filter_id_conv)
  then have "j \<noteq> 63" using j(2) assms(4) by auto
  then have "j + 1 < 64" using j(1) by simp
  then show ?thesis using j below [of "j + 1"] below [of j] by (intro exI [of _ "j + 1"]) auto
qed

theorem hist_percentile_bounds_witness:
  "\<exists>j. hist_percentile (hist_of [3, 100, 7]) 2 = Some (push_bit j 1) \<and> 1 \<le> j \<and> j \<le> 63 \<and>
    unat (2::u64) \<le> length (filter (\<lambda>x. unat x < 2 ^ j) [3, 100, 7::u64]) \<and>
    \<not> (1 < j \<and> \<not> length (filter (\<lambda>x. unat x < 2 ^ (j - 1)) [3, 100, 7::u64]) < unat (2::u64))"
  using hist_percentile_bounds [of "[3, 100, 7]" 2] by auto

text \<open>
  Coordinated-omission correction: besides the sample itself, the multiples of the interval down from it
  are recorded.
\<close>

fun missed :: "nat \<Rightarrow> u64 \<Rightarrow> u64 \<Rightarrow> u64 list" where
  "missed 0 interval us = []"
| "missed (Suc n) interval us = (us - interval) # missed n interval (us - interval)"

lemma inject_fold:
  assumes "interval \<noteq> 0" "interval \<le> us"
  shows "inject interval (us - interval) h =
    fold hist_record (missed (unat us div unat interval - 1) interval us) h"
  using assms
proof (induction "unat us div unat interval - 1" arbitrary: us h)
  case 0
  have pos: "0 < unat interval" using 0 by (simp add: unat_gt_0)
  have le: "unat interval \<le> unat us" using 0 by (simp add: word_le_nat_alt)
  then have "unat us div unat interval = 1" using 0 pos div_greater_zero_iff [of "unat us" "unat interval"] by linarith
  then have "unat us - unat interval < unat interval"
    using pos le by (metis div_mult_mod_eq mod_less_divisor mult.left_neutral add_diff_cancel_left')
  then have "\<not> interval \<le> us - interval"
    using 0 by (simp add: word_le_nat_alt word_nat_sub)
  then show ?case using \<open>unat us div unat interval = 1\<close> by (simp add: inject.simps [of interval "us - interval"])
next
  case (Suc n)
  have pos: "0 < unat interval" using Suc.prems by (simp add: unat_gt_0)
  have le: "unat interval \<le> unat us" using Suc.prems by (simp add: word_le_nat_alt)
  have u: "unat (us - interval) = unat us - unat interval" using Suc.prems by (simp add: word_nat_sub)
  have d: "unat (us - interval) div unat interval = unat us div unat interval - 1"
    unfolding u using le_div_geq [OF pos le] by simp
  then have n: "n = unat (us - interval) div unat interval - 1" using Suc.hyps(2) by simp
  have "0 < unat (us - interval) div unat interval" using d Suc.hyps(2) by simp
  then have ge: "interval \<le> us - interval" using pos by (simp add: word_le_nat_alt div_greater_zero_iff)
  have "inject interval (us - interval) h = inject interval (us - interval - interval) (hist_record (us - interval) h)"
    using ge Suc.prems(1) by (simp add: inject.simps [of interval "us - interval"])
  also have "\<dots> = fold hist_record (missed n interval (us - interval)) (hist_record (us - interval) h)"
    using Suc.hyps(1) [OF n Suc.prems(1) ge] n by simp
  finally show ?case using Suc.hyps(2) [symmetric] by simp
qed

text \<open>
  Recording with coordinated-omission correction ends and records the sample together with exactly
  one further sample for each whole interval it missed: \<open>us div interval\<close> samples in all.
\<close>

theorem hist_corrected_samples:
  assumes "interval \<noteq> 0" and "interval < us"
  shows "hist_record_corrected us interval (hist_of xs) =
      hist_of (xs @ us # missed (unat us div unat interval - 1) interval us) \<and>
    length (us # missed (unat us div unat interval - 1) interval us) = unat us div unat interval"
proof -
  have "unat interval \<le> unat us" "0 < unat interval"
    using assms by (auto simp: word_less_nat_alt unat_gt_0)
  then have "0 < unat us div unat interval" by (simp add: div_greater_zero_iff)
  moreover have "length (missed n i u) = n" for n i u by (induction n i u rule: missed.induct) auto
  ultimately show ?thesis
    using assms inject_fold [OF assms(1) less_imp_le [OF assms(2)]]
    by (simp add: hist_record_corrected_def hist_of_def Let_def not_le)
qed

theorem hist_corrected_samples_witness:
  "hist_record_corrected 35 10 (hist_of []) =
      hist_of ([] @ 35 # missed (unat (35::u64) div unat (10::u64) - 1) 10 35) \<and>
    length (35 # missed (unat (35::u64) div unat (10::u64) - 1) 10 35) = unat (35::u64) div unat (10::u64)"
  by (rule hist_corrected_samples) simp_all

end
