(* ===== verification/Metrics.thy ===== *)
theory Metrics
  imports Histogram Util
begin

text \<open>
  The per-worker counters of \<^verbatim>\<open>telemetry/metrics.h\<close> and \<^verbatim>\<open>telemetry/metrics.c\<close> and the CPU
  counters of \<^verbatim>\<open>telemetry/cpu_stats.c\<close>: 64-bit counters that wrap, a snapshot that adds up the
  workers' slabs and merges their histograms.  The increment macros are record updates.
\<close>

record worker_metrics =
  m_tx_pkts :: u64
  m_tx_bytes :: u64
  m_rx_pkts :: u64
  m_rx_bytes :: u64
  m_ip_bad_cksum :: u64
  m_ip_frag_dropped :: u64
  m_ip_not_for_us :: u64
  m_arp_reply_tx :: u64
  m_arp_request_tx :: u64
  m_arp_miss :: u64
  m_icmp_echo_tx :: u64
  m_icmp_bad_cksum :: u64
  m_icmp_unreachable_tx :: u64
  m_udp_tx :: u64
  m_udp_rx :: u64
  m_udp_bad_cksum :: u64
  m_tcp_conn_open :: u64
  m_tcp_conn_close :: u64
  m_tcp_syn_sent :: u64
  m_tcp_retransmit :: u64
  m_tcp_reset_rx :: u64
  m_tcp_reset_sent :: u64
  m_tcp_bad_cksum :: u64
  m_tcp_syn_queue_drops :: u64
  m_tcp_ooo_pkts :: u64
  m_tcp_duplicate_acks :: u64
  m_tcp_payload_tx :: u64
  m_tcp_payload_rx :: u64
  m_tls_handshake_ok :: u64
  m_tls_handshake_fail :: u64
  m_tls_records_tx :: u64
  m_tls_records_rx :: u64
  m_http_req_tx :: u64
  m_http_rsp_rx :: u64
  m_http_rsp_1xx :: u64
  m_http_rsp_2xx :: u64
  m_http_rsp_3xx :: u64
  m_http_rsp_4xx :: u64
  m_http_rsp_5xx :: u64
  m_http_parse_err :: u64

definition wm_zero :: worker_metrics where
  "wm_zero = \<lparr>
     m_tx_pkts = 0, m_tx_bytes = 0, m_rx_pkts = 0, m_rx_bytes = 0, m_ip_bad_cksum = 0,
     m_ip_frag_dropped = 0, m_ip_not_for_us = 0, m_arp_reply_tx = 0, m_arp_request_tx = 0,
     m_arp_miss = 0, m_icmp_echo_tx = 0, m_icmp_bad_cksum = 0, m_icmp_unreachable_tx = 0,
     m_udp_tx = 0, m_udp_rx = 0, m_udp_bad_cksum = 0, m_tcp_conn_open = 0, m_tcp_conn_close = 0,
     m_tcp_syn_sent = 0, m_tcp_retransmit = 0, m_tcp_reset_rx = 0, m_tcp_reset_sent = 0,
     m_tcp_bad_cksum = 0, m_tcp_syn_queue_drops = 0, m_tcp_ooo_pkts = 0, m_tcp_duplicate_acks = 0,
     m_tcp_payload_tx = 0, m_tcp_payload_rx = 0, m_tls_handshake_ok = 0, m_tls_handshake_fail = 0,
     m_tls_records_tx = 0, m_tls_records_rx = 0, m_http_req_tx = 0, m_http_rsp_rx = 0,
     m_http_rsp_1xx = 0, m_http_rsp_2xx = 0, m_http_rsp_3xx = 0, m_http_rsp_4xx = 0,
     m_http_rsp_5xx = 0, m_http_parse_err = 0\<rparr>"

text \<open>The \<^verbatim>\<open>ACC\<close> lines of the snapshot.\<close>

definition wm_acc :: "worker_metrics \<Rightarrow> worker_metrics \<Rightarrow> worker_metrics" where
  "wm_acc t s = \<lparr>
     m_tx_pkts = m_tx_pkts t + m_tx_pkts s, m_tx_bytes = m_tx_bytes t + m_tx_bytes s,
     m_rx_pkts = m_rx_pkts t + m_rx_pkts s, m_rx_bytes = m_rx_bytes t + m_rx_bytes s,
     m_ip_bad_cksum = m_ip_bad_cksum t + m_ip_bad_cksum s,
     m_ip_frag_dropped = m_ip_frag_dropped t + m_ip_frag_dropped s,
     m_ip_not_for_us = m_ip_not_for_us t + m_ip_not_for_us s,
     m_arp_reply_tx = m_arp_reply_tx t + m_arp_reply_tx s,
     m_arp_request_tx = m_arp_request_tx t + m_arp_request_tx s,
     m_arp_miss = m_arp_miss t + m_arp_miss s,
     m_icmp_echo_tx = m_icmp_echo_tx t + m_icmp_echo_tx s,
     m_icmp_bad_cksum = m_icmp_bad_cksum t + m_icmp_bad_cksum s,
     m_icmp_unreachable_tx = m_icmp_unreachable_tx t + m_icmp_unreachable_tx s,
     m_udp_tx = m_udp_tx t + m_udp_tx s, m_udp_rx = m_udp_rx t + m_udp_rx s,
     m_udp_bad_cksum = m_udp_bad_cksum t + m_udp_bad_cksum s,
     m_tcp_conn_open = m_tcp_conn_open t + m_tcp_conn_open s,
     m_tcp_conn_close = m_tcp_conn_close t + m_tcp_conn_close s,
     m_tcp_syn_sent = m_tcp_syn_sent t + m_tcp_syn_sent s,
     m_tcp_retransmit = m_tcp_retransmit t + m_tcp_retransmit s,
     m_tcp_reset_rx = m_tcp_reset_rx t + m_tcp_reset_rx s,
     m_tcp_reset_sent = m_tcp_reset_sent t + m_tcp_reset_sent s,
     m_tcp_bad_cksum = m_tcp_bad_cksum t + m_tcp_bad_cksum s,
     m_tcp_syn_queue_drops = m_tcp_syn_queue_drops t + m_tcp_syn_queue_drops s,
     m_tcp_ooo_pkts = m_tcp_ooo_pkts t + m_tcp_ooo_pkts s,
     m_tcp_duplicate_acks = m_tcp_duplicate_acks t + m_tcp_duplicate_acks s,
     m_tcp_payload_tx = m_tcp_payload_tx t + m_tcp_payload_tx s,
     m_tcp_payload_rx = m_tcp_payload_rx t + m_tcp_payload_rx s,
     m_tls_handshake_ok = m_tls_handshake_ok t + m_tls_handshake_ok s,
     m_tls_handshake_fail = m_tls_handshake_fail t + m_tls_handshake_fail s,
     m_tls_records_tx = m_tls_records_tx t + m_tls_records_tx s,
     m_tls_records_rx = m_tls_records_rx t + m_tls_records_rx s,
     m_http_req_tx = m_http_req_tx t + m_http_req_tx s,
     m_http_rsp_rx = m_http_rsp_rx t + m_http_rsp_rx s,
     m_http_rsp_1xx = m_http_rsp_1xx t + m_http_rsp_1xx s,
     m_http_rsp_2xx = m_http_rsp_2xx t + m_http_rsp_2xx s,
     m_http_rsp_3xx = m_http_rsp_3xx t + m_http_rsp_3xx s,
     m_http_rsp_4xx = m_http_rsp_4xx t + m_http_rsp_4xx s,
     m_http_rsp_5xx = m_http_rsp_5xx t + m_http_rsp_5xx s,
     m_http_parse_err = m_http_parse_err t + m_http_parse_err s\<rparr>"

text \<open>The counter macros with more than one field.\<close>

definition worker_metrics_add_tx :: "u64 \<Rightarrow> u64 \<Rightarrow> worker_metrics \<Rightarrow> worker_metrics" where
  "worker_metrics_add_tx pkts bytes m = m\<lparr>m_tx_pkts := m_tx_pkts m + pkts, m_tx_bytes := m_tx_bytes m + bytes\<rparr>"

definition worker_metrics_add_rx :: "u64 \<Rightarrow> u64 \<Rightarrow> worker_metrics \<Rightarrow> worker_metrics" where
  "worker_metrics_add_rx pkts bytes m = m\<lparr>m_rx_pkts := m_rx_pkts m + pkts, m_rx_bytes := m_rx_bytes m + bytes\<rparr>"

definition worker_metrics_add_http_rsp :: "int \<Rightarrow> worker_metrics \<Rightarrow> worker_metrics" where
  "worker_metrics_add_http_rsp code m =
     (let m = m\<lparr>m_http_rsp_rx := m_http_rsp_rx m + 1\<rparr>
      in if code < 200 then m\<lparr>m_http_rsp_1xx := m_http_rsp_1xx m + 1\<rparr>
         else if code < 300 then m\<lparr>m_http_rsp_2xx := m_http_rsp_2xx m + 1\<rparr>
         else if code < 400 then m\<lparr>m_http_rsp_3xx := m_http_rsp_3xx m + 1\<rparr>
         else if code < 500 then m\<lparr>m_http_rsp_4xx := m_http_rsp_4xx m + 1\<rparr>
         else m\<lparr>m_http_rsp_5xx := m_http_rsp_5xx m + 1\<rparr>)"

subsection \<open>Snapshots\<close>

record metrics_snapshot_t =
  snap_total :: worker_metrics
  snap_per_worker :: "worker_metrics list"
  snap_latency :: histogram
  snap_n_workers :: nat

text \<open>One worker's contribution to the merged histogram.\<close>

definition hist_acc :: "histogram \<Rightarrow> histogram \<Rightarrow> histogram" where
  "hist_acc t s =
     t\<lparr>h_counts := map2 (+) (h_counts t) (h_counts s),
       h_total_count := h_total_count t + sum_list (h_counts s),
       h_total_sum_us := h_total_sum_us t + h_total_sum_us s,
       h_min_us := (if h_min_us s < h_min_us t then h_min_us s else h_min_us t),
       h_max_us := (if h_max_us s > h_max_us t then h_max_us s else h_max_us t)\<rparr>"

text \<open>
  \<open>g_metrics\<close> and \<open>g_latency_hist\<close> are the global arrays of \<^verbatim>\<open>TGEN_MAX_WORKERS\<close> slabs; the
  workers beyond the counted ones have zero slabs in the snapshot.
\<close>

definition metrics_snapshot ::
  "worker_metrics list \<Rightarrow> histogram list \<Rightarrow> nat \<Rightarrow> metrics_snapshot_t" where
  "metrics_snapshot g_metrics g_latency_hist n_workers =
     (let n = min n_workers TGEN_MAX_WORKERS
      in \<lparr>snap_total = fold (\<lambda>s t. wm_acc t s) (take n g_metrics) wm_zero,
          snap_per_worker = take n g_metrics @ replicate (TGEN_MAX_WORKERS - n) wm_zero,
          snap_latency = fold (\<lambda>s t. hist_acc t s) (take n g_latency_hist) hist_reset,
          snap_n_workers = n_workers\<rparr>)"

definition metrics_reset ::
  "worker_metrics list \<Rightarrow> histogram list \<Rightarrow> nat \<Rightarrow> worker_metrics list \<times> histogram list" where
  "metrics_reset g_metrics g_latency_hist n_workers =
     (let n = min n_workers TGEN_MAX_WORKERS
      in (replicate n wm_zero @ drop n g_metrics, replicate n hist_reset @ drop n g_latency_hist))"

subsection \<open>CPU counters\<close>

record cpu_stats =
  cycles_rx :: u64
  cycles_tx :: u64
  cycles_timer :: u64
  cycles_ipc :: u64
  cycles_idle :: u64
  cycles_total :: u64
  window_start_tsc :: u64
  loop_count :: u64

definition cpu_zero :: cpu_stats where
  "cpu_zero = \<lparr>cycles_rx = 0, cycles_tx = 0, cycles_timer = 0, cycles_ipc = 0, cycles_idle = 0,
     cycles_total = 0, window_start_tsc = 0, loop_count = 0\<rparr>"

record cpu_stats_snapshot_t =
  cpu_per_worker :: "cpu_stats list"
  cpu_n_workers :: nat
  cpu_tsc_hz :: u64

definition cpu_stats_snapshot :: "u64 \<Rightarrow> u64 \<Rightarrow> cpu_stats list \<Rightarrow> nat \<Rightarrow> cpu_stats_snapshot_t" where
  "cpu_stats_snapshot g_tsc_hz rte_tsc_hz g_cpu_stats n_workers =
     (let n = min n_workers TGEN_MAX_WORKERS
      in \<lparr>cpu_per_worker = take n g_cpu_stats @ replicate (TGEN_MAX_WORKERS - n) cpu_zero,
          cpu_n_workers = n_workers, cpu_tsc_hz = (if g_tsc_hz \<noteq> 0 then g_tsc_hz else rte_tsc_hz)\<rparr>)"

definition cpu_stats_reset :: "u64 \<Rightarrow> cpu_stats list \<Rightarrow> nat \<Rightarrow> cpu_stats list" where
  "cpu_stats_reset now g_cpu_stats n_workers =
     (let n = min n_workers TGEN_MAX_WORKERS
      in replicate n (cpu_zero\<lparr>window_start_tsc := now\<rparr>) @ drop n g_cpu_stats)"

subsection \<open>Totals\<close>

text \<open>All counters of a slab.\<close>

definition wm_fields :: "(worker_metrics \<Rightarrow> u64) list" where
  "wm_fields = [
     m_tx_pkts, m_tx_bytes, m_rx_pkts, m_rx_bytes, m_ip_bad_cksum, m_ip_frag_dropped,
     m_ip_not_for_us, m_arp_reply_tx, m_arp_request_tx, m_arp_miss, m_icmp_echo_tx,
     m_icmp_bad_cksum, m_icmp_unreachable_tx, m_udp_tx, m_udp_rx, m_udp_bad_cksum, m_tcp_conn_open,
     m_tcp_conn_close, m_tcp_syn_sent, m_tcp_retransmit, m_tcp_reset_rx, m_tcp_reset_sent,
     m_tcp_bad_cksum, m_tcp_syn_queue_drops, m_tcp_ooo_pkts, m_tcp_duplicate_acks,
     m_tcp_payload_tx, m_tcp_payload_rx, m_tls_handshake_ok, m_tls_handshake_fail,
     m_tls_records_tx, m_tls_records_rx, m_http_req_tx, m_http_rsp_rx, m_http_rsp_1xx,
     m_http_rsp_2xx, m_http_rsp_3xx, m_http_rsp_4xx, m_http_rsp_5xx, m_http_parse_err]"

lemma wm_acc_field: "f \<in> set wm_fields \<Longrightarrow> f (wm_acc t s) = f t + f s"
  unfolding wm_fields_def list.set insert_iff empty_iff by (elim disjE) (simp_all add: wm_acc_def)

lemma wm_zero_field: "f \<in> set wm_fields \<Longrightarrow> f wm_zero = 0"
  unfolding wm_fields_def list.set insert_iff empty_iff by (elim disjE) (simp_all add: wm_zero_def)

lemma wm_fold_field:
  assumes "f \<in> set wm_fields"
  shows "f (fold (\<lambda>s t. wm_acc t s) ws t) = f t + sum_list (map f ws)"
  by (induction ws arbitrary: t) (simp_all add: wm_acc_field [OF assms] add.assoc)

subsection \<open>Merging histograms\<close>

text \<open>The minimum and maximum of two lists.\<close>

lemma fold_min_min: "fold min xs (min a b) = min a (fold min xs b)" for a :: u64
proof (induction xs arbitrary: b)
  case (Cons x xs)
  then show ?case by (simp add: min.left_commute [of x a b] Cons.IH)
qed simp

lemma fold_max_max: "fold max xs (max a b) = max a (fold max xs b)" for a :: u64
proof (induction xs arbitrary: b)
  case (Cons x xs)
  then show ?case by (simp add: max.left_commute [of x a b] Cons.IH)
qed simp

lemma u64_max_top: "x \<le> U64_MAX"
proof -
  have "unat x \<le> unat U64_MAX" using unat_lt_u64 [of x] by simp
  then show ?thesis by (simp add: word_le_nat_alt)
qed

lemma min_of_append: "min_of (xs @ ys) = min (min_of xs) (min_of ys)"
  using fold_min_min [of ys "fold min xs U64_MAX" U64_MAX] by (simp add: min_of_def min_absorb1 [OF u64_max_top])

lemma max_of_append: "max_of (xs @ ys) = max (max_of xs) (max_of ys)"
  using fold_max_max [of ys "fold max xs 0" 0] by (simp add: max_of_def max_absorb1)

lemma sum_in_bucket: "sum_list (map (\<lambda>i. word_of_nat (in_bucket i xs)) [0..<64]) = (word_of_nat (length xs) :: u64)"
proof -
  have "sum_list (map (\<lambda>i. word_of_nat (in_bucket i xs)) [0..<k]) = (word_of_nat (below k xs) :: u64)" for k
    by (induction k) (simp_all add: below_Suc, simp add: below_def)
  from this [of 64] show ?thesis by (simp add: below_all)
qed

lemma hist_eqI:
  assumes "h_counts a = h_counts b" "h_total_count a = h_total_count b" "h_total_sum_us a = h_total_sum_us b"
    "h_min_us a = h_min_us b" "h_max_us a = h_max_us (b :: histogram)"
  shows "a = b"
  using assms by (cases a; cases b) simp

lemma hist_acc_of: "hist_acc (hist_of xs) (hist_of ys) = hist_of (xs @ ys)"
proof (rule hist_eqI)
  note f = hist_of_fields
  have "map2 (+) (map (\<lambda>i. word_of_nat (in_bucket i xs)) [0..<64]) (map (\<lambda>i. word_of_nat (in_bucket i ys)) [0..<64])
      = map (\<lambda>i. word_of_nat (in_bucket i (xs @ ys)) :: u64) [0..<64]"
    by (intro nth_equalityI) auto
  then show "h_counts (hist_acc (hist_of xs) (hist_of ys)) = h_counts (hist_of (xs @ ys))"
    by (simp add: hist_acc_def f)
  show "h_total_count (hist_acc (hist_of xs) (hist_of ys)) = h_total_count (hist_of (xs @ ys))"
    using sum_in_bucket [of ys] by (simp add: hist_acc_def f)
  show "h_total_sum_us (hist_acc (hist_of xs) (hist_of ys)) = h_total_sum_us (hist_of (xs @ ys))"
    by (simp add: hist_acc_def f)
  show "h_min_us (hist_acc (hist_of xs) (hist_of ys)) = h_min_us (hist_of (xs @ ys))"
    by (auto simp: hist_acc_def f min_of_append min_def)
  show "h_max_us (hist_acc (hist_of xs) (hist_of ys)) = h_max_us (hist_of (xs @ ys))"
    by (auto simp: hist_acc_def f max_of_append max_def)
qed

lemma hist_merge: "fold (\<lambda>s t. hist_acc t s) (map hist_of xss) (hist_of ys) = hist_of (ys @ concat xss)"
  by (induction xss arbitrary: ys) (simp_all add: hist_acc_of)

text \<open>
  The snapshot's total of every counter is the sum of the counted workers' slabs, and its latency
  histogram is the histogram of all their samples together, as if one worker had recorded them all.
\<close>

theorem metrics_snapshot_aggregates:
  assumes "g_latency_hist = map hist_of samples" and "f \<in> set wm_fields"
  shows "let n = min n_workers TGEN_MAX_WORKERS; snap = metrics_snapshot g_metrics g_latency_hist n_workers in
    f (snap_total snap) = sum_list (map f (take n g_metrics)) \<and>
    snap_latency snap = hist_of (concat (take n samples))"
proof -
  have "hist_reset = hist_of []" by (simp add: hist_of_def)
  then have "fold (\<lambda>s t. hist_acc t s) (take n g_latency_hist) hist_reset = hist_of (concat (take n samples))" for n
    using hist_merge [of "take n samples" "[]"] assms(1) by (simp add: take_map)
  then show ?thesis
    by (simp add: metrics_snapshot_def Let_def wm_fold_field [OF assms(2)] wm_zero_field [OF assms(2)])
qed

theorem metrics_snapshot_aggregates_witness:
  "let n = min 2 TGEN_MAX_WORKERS;
       ms = [wm_zero\<lparr>m_tx_pkts := 3\<rparr>, wm_zero\<lparr>m_tx_pkts := 4\<rparr>];
       snap = metrics_snapshot ms (map hist_of [[5, 6], [7]]) 2 in
    m_tx_pkts (snap_total snap) = sum_list (map m_tx_pkts (take n ms)) \<and>
    snap_latency snap = hist_of (concat (take n [[5, 6], [7]]))"
  using metrics_snapshot_aggregates [OF refl, of m_tx_pkts 2 "[wm_zero\<lparr>m_tx_pkts := 3\<rparr>, wm_zero\<lparr>m_tx_pkts := 4\<rparr>]" "[[5, 6], [7]]"]
  by (simp only: Let_def) (simp add: wm_fields_def)

text \<open>
  A response is counted in the total and in exactly one status class.
\<close>

lemma http_rsp_classes:
  "let m' = worker_metrics_add_http_rsp code m;
       classes = (\<lambda>m. m_http_rsp_1xx m + m_http_rsp_2xx m + m_http_rsp_3xx m + m_http_rsp_4xx m + m_http_rsp_5xx m)
   in m_http_rsp_rx m' = m_http_rsp_rx m + 1 \<and> classes m' = classes m + 1"
  by (simp add: worker_metrics_add_http_rsp_def Let_def)

end
