(* ===== verification/Congestion.thy ===== *)
theory Congestion
  imports TcbTypes
begin

text \<open>
  Congestion control of \<^verbatim>\<open>net/tcp_congestion.c\<close>: New Reno and CUBIC on the fields of one TCB.
  Divisions by zero are the result \<open>None\<close>.  The three floating-point computations of CUBIC (the time
  \<open>K\<close>, the target window and the reduction by \<open>\<beta>\<close>) are arguments, bundled in \<open>cubic_math\<close>.
\<close>

definition CC_NEWRENO :: u8 where "CC_NEWRENO = 0"
definition CC_CUBIC :: u8 where "CC_CUBIC = 1"

definition CWND_CAP :: u32 where "CWND_CAP = 67108864"

definition cc_max :: "u32 \<Rightarrow> u32 \<Rightarrow> u32" where
  "cc_max a b = (if a > b then a else b)"

definition cc_min :: "u32 \<Rightarrow> u32 \<Rightarrow> u32" where
  "cc_min a b = (if a < b then a else b)"

record cubic_math =
  cm_k_us :: "u32 \<Rightarrow> u32"
  cm_target_bytes :: "u64 \<Rightarrow> u32 \<Rightarrow> u32 \<Rightarrow> u32 \<Rightarrow> u16 \<Rightarrow> u32"
  cm_beta :: "u32 \<Rightarrow> u32"

definition div32 :: "u32 \<Rightarrow> u32 \<Rightarrow> u32 option" where
  "div32 a b = (if b = 0 then None else Some (a div b))"

definition cwnd_capped :: "tcb \<Rightarrow> tcb" where
  "cwnd_capped t = (if cwnd t > CWND_CAP then t\<lparr>cwnd := CWND_CAP\<rparr> else t)"

definition cwnd_add_inc :: "u32 \<Rightarrow> tcb \<Rightarrow> tcb" where
  "cwnd_add_inc inc t = t\<lparr>cwnd := cwnd t + (if inc = 0 then 1 else inc)\<rparr>"

definition newreno_on_ack :: "u32 \<Rightarrow> tcb \<Rightarrow> tcb option" where
  "newreno_on_ack acked t =
     (if in_fast_recovery t then Some (t\<lparr>cwnd := ssthresh t, in_fast_recovery := False\<rparr>)
      else if cwnd t < ssthresh t then
        Some (cwnd_capped (t\<lparr>cwnd := cwnd t + cc_min acked (ucast (mss_remote t))\<rparr>))
      else
        (case div32 (ucast (mss_remote t) * ucast (mss_remote t)) (cwnd t) of
           None \<Rightarrow> None
         | Some inc \<Rightarrow> Some (cwnd_capped (cwnd_add_inc inc t))))"

text \<open>The first acknowledgement of a congestion-avoidance epoch.\<close>

definition cubic_start_epoch :: "cubic_math \<Rightarrow> u64 \<Rightarrow> tcb \<Rightarrow> tcb option" where
  "cubic_start_epoch cm now_tsc t =
     (if cubic_epoch_start t \<noteq> 0 then Some t
      else if mss_remote t = 0 then None
      else
        let mss = ucast (mss_remote t);
            wmax_mss = cubic_wmax t div mss;
            cwnd_mss = cwnd t div mss;
            diff = (if wmax_mss > cwnd_mss then wmax_mss - cwnd_mss else 0)
        in Some (t\<lparr>cubic_epoch_start := now_tsc,
                  cubic_k_us := (if cwnd t < cubic_wmax t then cm_k_us cm diff else 0),
                  cubic_origin_point := cubic_wmax t div mss\<rparr>))"

definition cubic_ca :: "cubic_math \<Rightarrow> u64 \<Rightarrow> u64 \<Rightarrow> tcb \<Rightarrow> tcb option" where
  "cubic_ca cm now_tsc hz t =
     (case cubic_start_epoch cm now_tsc t of
        None \<Rightarrow> None
      | Some t \<Rightarrow>
          if hz = 0 then None
          else
            let elapsed_us = (now_tsc - cubic_epoch_start t) * 1000000 div hz;
                rtt_us = (if srtt_us t > 0 then srtt_us t else 200000);
                target_bytes = cm_target_bytes cm elapsed_us (cubic_k_us t) (cubic_origin_point t) rtt_us (mss_remote t);
                mss = ucast (mss_remote t)
            in case div32 (if target_bytes > cwnd t then (target_bytes - cwnd t) * mss else mss * mss) (cwnd t) of
                 None \<Rightarrow> None
               | Some inc \<Rightarrow> Some (cwnd_capped (cwnd_add_inc inc t)))"

text \<open>The clock is read only in CUBIC's congestion avoidance.\<close>

definition cubic_on_ack :: "cubic_math \<Rightarrow> nat \<Rightarrow> u32 \<Rightarrow> 'a conn_scheme \<Rightarrow> 'a conn_scheme option" where
  "cubic_on_ack cm i acked st =
     (let t = tcb_at st i
      in if in_fast_recovery t
         then Some (upd_tcb i (\<lambda>t. t\<lparr>cwnd := ssthresh t, in_fast_recovery := False\<rparr>) st)
         else if cwnd t < ssthresh t
         then Some (upd_tcb i (\<lambda>t. t\<lparr>cwnd := cwnd t + cc_min acked (ucast (mss_remote t))\<rparr>) st)
         else
           let (now_tsc, st) = rdtsc st
           in map_option (\<lambda>t. upd_tcb i (\<lambda>_. t) st) (cubic_ca cm now_tsc (tsc_hz st) t))"

definition congestion_on_ack :: "cubic_math \<Rightarrow> nat \<Rightarrow> u32 \<Rightarrow> 'a conn_scheme \<Rightarrow> 'a conn_scheme option" where
  "congestion_on_ack cm i acked st =
     (if acked = 0 then Some st
      else
        let st = upd_tcb i (\<lambda>t. t\<lparr>dup_ack_count := 0\<rparr>) st; t = tcb_at st i
        in if app_ctx t = 1 then Some (upd_tcb i (\<lambda>t. t\<lparr>cwnd := U32_MAX\<rparr>) st)
           else if cc_algo t = CC_CUBIC then cubic_on_ack cm i acked st
           else map_option (\<lambda>t. upd_tcb i (\<lambda>_. t) st) (newreno_on_ack acked t))"

definition congestion_fast_retransmit :: "cubic_math \<Rightarrow> tcb \<Rightarrow> tcb" where
  "congestion_fast_retransmit cm t =
     (if app_ctx t = 1 then t
      else
        let flight = snd_nxt t - snd_una t;
            mss = ucast (mss_remote t) :: u32;
            t = (if cc_algo t = CC_CUBIC
                 then t\<lparr>cubic_wmax := cwnd t, cubic_epoch_start := 0,
                        ssthresh := cc_max (cm_beta cm (cwnd t)) (2 * mss)\<rparr>
                 else t\<lparr>ssthresh := cc_max (flight div 2) (2 * mss)\<rparr>)
        in t\<lparr>cwnd := ssthresh t + 3 * mss, in_fast_recovery := True\<rparr>)"

definition congestion_on_rto :: "cubic_math \<Rightarrow> tcb \<Rightarrow> tcb" where
  "congestion_on_rto cm t =
     (if app_ctx t = 1 then t
      else
        let flight = snd_nxt t - snd_una t;
            mss = ucast (mss_remote t) :: u32;
            t = (if cc_algo t = CC_CUBIC
                 then t\<lparr>cubic_wmax := cwnd t, cubic_epoch_start := 0,
                        ssthresh := cc_max (cm_beta cm (cwnd t)) (2 * mss)\<rparr>
                 else t\<lparr>ssthresh := cc_max (flight div 2) (2 * mss)\<rparr>)
        in t\<lparr>cwnd := mss, in_fast_recovery := False, dup_ack_count := 0\<rparr>)"

subsection \<open>New Reno\<close>

lemma unat_mss: "unat (ucast (m :: u16) :: u32) = unat m"
  using unat_lt_u16 [of m] by (simp add: unsigned_ucast_eq take_bit_nat_eq_self)

lemma unat_mss_bound: "unat (ucast (m :: u16) :: u32) \<le> 65535"
  using unat_lt_u16 [of m] by (simp add: unat_mss)

lemma cc_max_ge: "a \<le> cc_max a b \<and> b \<le> cc_max a b" "unat (cc_max a b) = max (unat a) (unat b)"
  by (auto simp: cc_max_def word_le_nat_alt word_less_nat_alt)

lemma cc_min_nat: "unat (cc_min a b) = min (unat a) (unat b)"
  by (auto simp: cc_min_def word_less_nat_alt)

lemma unat_two_mss: "unat (2 * (ucast (m :: u16) :: u32)) = 2 * unat m"
  using unat_lt_u16 [of m] by (subst word_nat_mult_no_wrap) (simp_all add: unat_mss)

lemma unat_three_mss: "unat (3 * (ucast (m :: u16) :: u32)) = 3 * unat m"
  using unat_lt_u16 [of m] by (subst word_nat_mult_no_wrap) (simp_all add: unat_mss)

lemma cwnd_capped_nat: "unat (cwnd (cwnd_capped t)) = min (unat (cwnd t)) 67108864"
  by (auto simp: cwnd_capped_def CWND_CAP_def word_less_nat_alt)

text \<open>
  New Reno's window after an acknowledgement, as a number: leaving fast recovery it is the slow-start
  threshold; in slow start it grows by the acknowledged bytes but at most one segment; otherwise by
  \<open>max 1 (mss\<^sup>2 div cwnd)\<close>; the last two never exceed 64 MiB and never wrap.
\<close>

theorem newreno_window:
  assumes "0 < cwnd t" and "unat (cwnd t) \<le> 2 ^ 31"
  shows "\<exists>t'. newreno_on_ack acked t = Some t' \<and> \<not> in_fast_recovery t' \<and>
    unat (cwnd t') =
      (if in_fast_recovery t then unat (ssthresh t)
       else if cwnd t < ssthresh t then min (unat (cwnd t) + min (unat acked) (unat (mss_remote t))) 67108864
       else min (unat (cwnd t) + max 1 (unat (mss_remote t) * unat (mss_remote t) div unat (cwnd t))) 67108864)"
proof -
  let ?mss = "ucast (mss_remote t) :: u32"
  have m: "unat ?mss = unat (mss_remote t)" "unat (mss_remote t) \<le> 65535"
    using unat_lt_u16 [of "mss_remote t"] by (simp_all add: unat_mss)
  have sq: "unat (mss_remote t) * unat (mss_remote t) \<le> 65535 * 65535"
    using m(2) by (rule mult_le_mono) (rule m(2))
  have msq: "unat (?mss * ?mss) = unat (mss_remote t) * unat (mss_remote t)"
    using sq m by (subst word_nat_mult_no_wrap) simp_all
  consider (fr) "in_fast_recovery t" | (ss) "\<not> in_fast_recovery t" "cwnd t < ssthresh t"
    | (ca) "\<not> in_fast_recovery t" "\<not> cwnd t < ssthresh t" by blast
  then show ?thesis
  proof cases
    case fr
    then show ?thesis by (simp add: newreno_on_ack_def)
  next
    case ss
    have "unat (cwnd t + cc_min acked ?mss) = unat (cwnd t) + min (unat acked) (unat (mss_remote t))"
      using assms(2) m by (subst word_nat_add_no_wrap) (simp_all add: cc_min_nat)
    then show ?thesis using ss
      by (simp add: newreno_on_ack_def cwnd_capped_nat) (simp add: cwnd_capped_def)
  next
    case ca
    define inc where "inc = ?mss * ?mss div cwnd t"
    have inc: "unat inc = unat (mss_remote t) * unat (mss_remote t) div unat (cwnd t)"
      by (simp add: inc_def unat_div msq)
    have pos: "0 < unat (cwnd t)" using assms(1) by (simp add: word_less_nat_alt)
    have sum: "unat (cwnd t) + max 1 (unat inc) < 2 ^ 32"
    proof (cases "unat (cwnd t) = 1")
      case True
      have "unat inc \<le> 65535 * 65535" unfolding inc using sq True by simp
      then show ?thesis using True by simp
    next
      case False
      then have "unat inc \<le> unat (mss_remote t) * unat (mss_remote t) div 2"
        unfolding inc using pos by (intro div_le_mono2) auto
      also have "\<dots> \<le> 65535 * 65535 div 2" using sq by (rule div_le_mono)
      finally show ?thesis using assms(2) by simp
    qed
    have "unat (if inc = 0 then 1 else inc) = max 1 (unat inc)"
      by (auto simp: unat_eq_zero Suc_le_eq max_def unat_gt_0)
    then have "unat (cwnd t + (if inc = 0 then 1 else inc)) = unat (cwnd t) + max 1 (unat inc)"
      using sum by (subst word_nat_add_no_wrap) simp_all
    moreover have "cwnd t \<noteq> 0" using assms(1) by auto
    ultimately show ?thesis
      using ca by (simp add: newreno_on_ack_def div32_def cwnd_capped_nat cwnd_add_inc_def inc_def [symmetric] inc [symmetric])
        (simp add: cwnd_capped_def)
  qed
qed

theorem newreno_window_witness:
  "\<exists>t'. newreno_on_ack 5000 (tcb_zero\<lparr>cwnd := 14600, ssthresh := 20000, mss_remote := 1460\<rparr>) = Some t' \<and>
     \<not> in_fast_recovery t' \<and> unat (cwnd t') = 16060"
  using newreno_window [of "tcb_zero\<lparr>cwnd := 14600, ssthresh := 20000, mss_remote := 1460\<rparr>" 5000]
  by (simp add: tcb_zero_def)

text \<open>
  The only acknowledgement that traps is one with an empty window and no slow start; a peer that
  announces a maximum segment size of 0 leads there.
\<close>

lemma newreno_traps_iff:
  "newreno_on_ack acked t = None \<longleftrightarrow> \<not> in_fast_recovery t \<and> cwnd t = 0 \<and> ssthresh t = 0"
  by (auto simp: newreno_on_ack_def div32_def word_gt_0 split: if_splits option.splits)

lemma rto_with_zero_mss_traps:
  assumes "mss_remote t = 0" "app_ctx t \<noteq> 1" "cc_algo t \<noteq> CC_CUBIC" "snd_nxt t - snd_una t \<le> 1"
  shows "newreno_on_ack acked (congestion_on_rto cm t) = None"
proof -
  have "unat (snd_nxt t - snd_una t) \<le> 1" using assms(4) by (simp add: word_le_nat_alt)
  then have "unat ((snd_nxt t - snd_una t) div 2) = 0" by (simp add: unat_div)
  then have "(snd_nxt t - snd_una t) div 2 = 0" by (simp add: unat_eq_zero)
  then show ?thesis using assms
    by (simp add: newreno_traps_iff congestion_on_rto_def Let_def cc_max_def)
qed

subsection \<open>Loss\<close>

text \<open>
  A retransmission timeout sets the window to one segment, and a fast retransmit to the threshold
  plus three segments; in both cases the threshold is at least two segments, with either algorithm.
\<close>

theorem loss_response:
  assumes "app_ctx t \<noteq> 1" and "cc_algo t = CC_CUBIC \<longrightarrow> unat (cm_beta cm (cwnd t)) < 2 ^ 32 - 196608"
  shows "let r = congestion_on_rto cm t; f = congestion_fast_retransmit cm t in
    unat (cwnd r) = unat (mss_remote t) \<and> 2 * unat (mss_remote t) \<le> unat (ssthresh r) \<and>
    \<not> in_fast_recovery r \<and> dup_ack_count r = 0 \<and>
    unat (cwnd f) = unat (ssthresh f) + 3 * unat (mss_remote t) \<and>
    2 * unat (mss_remote t) \<le> unat (ssthresh f) \<and> in_fast_recovery f"
proof -
  let ?mss = "ucast (mss_remote t) :: u32" and ?fl = "snd_nxt t - snd_una t"
  have m: "unat (mss_remote t) \<le> 65535" using unat_lt_u16 [of "mss_remote t"] by simp
  have fl: "unat (?fl div 2) < 2 ^ 31" using unat_lt_u32 [of ?fl] by (simp add: unat_div)
  define thr where "thr = (if cc_algo t = CC_CUBIC then cc_max (cm_beta cm (cwnd t)) (2 * ?mss) else cc_max (?fl div 2) (2 * ?mss))"
  have thr: "unat thr < 2 ^ 32 - 196608" "2 * unat (mss_remote t) \<le> unat thr"
    using assms(2) m fl by (auto simp: thr_def cc_max_ge(2) unat_two_mss)
  have "unat (thr + 3 * ?mss) = unat thr + 3 * unat (mss_remote t)"
    using thr(1) m by (subst word_nat_add_no_wrap) (simp_all add: unat_three_mss)
  then show ?thesis
    using assms(1) thr(2)
    by (cases "cc_algo t = CC_CUBIC")
      (simp_all add: congestion_on_rto_def congestion_fast_retransmit_def Let_def thr_def unat_mss)
qed

theorem loss_response_witness:
  "let t = tcb_zero\<lparr>cwnd := 29200, mss_remote := 1460, snd_nxt := 10000, snd_una := 0\<rparr>;
       r = congestion_on_rto \<lparr>cm_k_us = id, cm_target_bytes = \<lambda>_ _ _ _ _. 0, cm_beta = id\<rparr> t;
       f = congestion_fast_retransmit \<lparr>cm_k_us = id, cm_target_bytes = \<lambda>_ _ _ _ _. 0, cm_beta = id\<rparr> t in
    unat (cwnd r) = unat (mss_remote t) \<and> 2 * unat (mss_remote t) \<le> unat (ssthresh r) \<and>
    \<not> in_fast_recovery r \<and> dup_ack_count r = 0 \<and>
    unat (cwnd f) = unat (ssthresh f) + 3 * unat (mss_remote t) \<and>
    2 * unat (mss_remote t) \<le> unat (ssthresh f) \<and> in_fast_recovery f"
  using loss_response [of "tcb_zero\<lparr>cwnd := 29200, mss_remote := 1460, snd_nxt := 10000, snd_una := 0\<rparr>"
      "\<lparr>cm_k_us = id, cm_target_bytes = \<lambda>_ _ _ _ _. 0, cm_beta = id\<rparr>"]
  by (simp only: Let_def) (simp add: tcb_zero_def CC_CUBIC_def)

subsection \<open>CUBIC\<close>

text \<open>In congestion avoidance CUBIC keeps the 64 MiB cap; its slow start does not.\<close>

lemma cubic_ca_capped:
  "cubic_ca cm now hz t = Some t' \<Longrightarrow> cwnd t' \<le> CWND_CAP"
  by (auto simp: cubic_ca_def cwnd_capped_def Let_def not_less split: option.splits if_splits)

lemma cubic_slow_start_uncapped:
  assumes "i < length (tcbs st)" "tcb_at st i = tcb_zero\<lparr>cwnd := CWND_CAP, ssthresh := U32_MAX, mss_remote := 1460\<rparr>"
  shows "\<exists>st'. cubic_on_ack cm i 1460 st = Some st' \<and> cwnd (tcb_at st' i) > CWND_CAP"
  using assms by (simp add: cubic_on_ack_def Let_def CWND_CAP_def cc_min_def tcb_zero_def)

end
