(* ===== verification/Neighbor.thy ===== *)
theory Neighbor
  imports Util
begin

text \<open>
  Next-hop resolution: the read side of the ARP cache (\<^verbatim>\<open>net/arp.c\<close>) and of the IPv6 neighbour cache
  (\<^verbatim>\<open>net/ndp.c\<close>).  The DPDK hash of the ARP cache is the finite map \<open>arp_table\<close> from an address to
  the position of its entry; the read-write lock is the atomicity of the operations.  \<open>ae_hold\<close> are the first
  \<^verbatim>\<open>hold_count\<close> packets of the hold queue.
\<close>

datatype arp_state = ARP_STATE_FREE | ARP_STATE_PENDING | ARP_STATE_RESOLVED | ARP_STATE_STALE
  | ARP_STATE_FAILED

record arp_entry =
  ae_mac :: bytes
  ae_state :: arp_state
  ae_expire_tsc :: u64
  ae_fail_count :: u8
  ae_hold :: "bytes list"

record arp_port =
  arp_table :: "u32 \<Rightarrow> nat option"
  arp_entries :: "arp_entry list"
  arp_local_ip :: u32
  arp_gateway_ip :: u32
  arp_netmask :: u32
  arp_local_mac :: bytes

definition arp_lookup :: "arp_port list \<Rightarrow> u16 \<Rightarrow> u32 \<Rightarrow> bytes option" where
  "arp_lookup g_arp port_id ip_net =
     (if unat port_id \<ge> TGEN_MAX_PORTS then None
      else
        let a = g_arp ! unat port_id
        in case arp_table a ip_net of
             None \<Rightarrow> None
           | Some idx \<Rightarrow>
               if ae_state (arp_entries a ! idx) = ARP_STATE_RESOLVED
               then Some (ae_mac (arp_entries a ! idx)) else None)"

definition arp_nexthop :: "arp_port list \<Rightarrow> u16 \<Rightarrow> u32 \<Rightarrow> u32" where
  "arp_nexthop g_arp port_id dst_ip_net =
     (if unat port_id \<ge> TGEN_MAX_PORTS then dst_ip_net
      else
        let a = g_arp ! unat port_id
        in if arp_gateway_ip a = 0 \<or> arp_netmask a = 0 then dst_ip_net
           else if dst_ip_net AND arp_netmask a = arp_local_ip a AND arp_netmask a then dst_ip_net
           else arp_gateway_ip a)"

datatype ndp_state = NDP_STATE_FREE | NDP_STATE_PENDING | NDP_STATE_REACHABLE | NDP_STATE_STALE
  | NDP_STATE_FAILED

record ndp_entry =
  ne_ip6 :: bytes
  ne_mac :: bytes
  ne_state :: ndp_state
  ne_expire_tsc :: u64
  ne_fail_count :: u8

record ndp_port =
  ndp_entries :: "ndp_entry list"
  ndp_count :: nat
  ndp_local_ip6 :: bytes
  ndp_local_ip6_ll :: bytes
  ndp_local_mac :: bytes
  ndp_has_ip6 :: bool

definition ndp_lookup :: "ndp_port list \<Rightarrow> u16 \<Rightarrow> bytes \<Rightarrow> bytes option" where
  "ndp_lookup g_ndp port_id ip6 =
     (if unat port_id \<ge> TGEN_MAX_PORTS then None
      else
        let s = g_ndp ! unat port_id
        in map_option ne_mac
             (find (\<lambda>e. ne_state e = NDP_STATE_REACHABLE \<and> ne_ip6 e = ip6)
                (take (ndp_count s) (ndp_entries s))))"

subsection \<open>What a lookup returns\<close>

lemma arp_lookup_resolved:
  "arp_lookup g p ip = Some mac \<longleftrightarrow>
     unat p < TGEN_MAX_PORTS \<and>
     (\<exists>idx. arp_table (g ! unat p) ip = Some idx \<and>
        ae_state (arp_entries (g ! unat p) ! idx) = ARP_STATE_RESOLVED \<and>
        ae_mac (arp_entries (g ! unat p) ! idx) = mac)"
  by (auto simp: arp_lookup_def Let_def not_le split: option.splits if_splits)

text \<open>An address on the local subnet is resolved directly, any other through the gateway.\<close>

lemma arp_nexthop_cases:
  assumes "unat p < TGEN_MAX_PORTS" "arp_gateway_ip (g ! unat p) \<noteq> 0" "arp_netmask (g ! unat p) \<noteq> 0"
  shows "arp_nexthop g p ip =
    (if (ip XOR arp_local_ip (g ! unat p)) AND arp_netmask (g ! unat p) = 0 then ip
     else arp_gateway_ip (g ! unat p))"
proof -
  let ?a = "g ! unat p"
  have "ip AND arp_netmask ?a = arp_local_ip ?a AND arp_netmask ?a \<longleftrightarrow>
    (ip XOR arp_local_ip ?a) AND arp_netmask ?a = 0"
    by (auto simp: bit_eq_iff bit_and_iff bit_xor_iff)
  then show ?thesis using assms by (simp add: arp_nexthop_def Let_def)
qed

end
