(* ===== verification/CoreAssign.thy ===== *)
theory CoreAssign
  imports Util
begin

text \<open>
  The assignment of logical cores to roles, \<^verbatim>\<open>core/core_assign.c\<close>.
\<close>

datatype lcore_role = LCORE_ROLE_WORKER | LCORE_ROLE_PRIMARY_MGMT | LCORE_ROLE_TELEMETRY
  | LCORE_ROLE_CLI_API | LCORE_ROLE_WATCHDOG | LCORE_ROLE_IDLE

definition tgen_is_worker :: "lcore_role list \<Rightarrow> nat \<Rightarrow> bool" where
  "tgen_is_worker role lcore_id =
     (if lcore_id \<ge> TGEN_MAX_LCORES then False else role ! lcore_id = LCORE_ROLE_WORKER)"

definition tgen_is_mgmt :: "lcore_role list \<Rightarrow> nat \<Rightarrow> bool" where
  "tgen_is_mgmt role lcore_id =
     (if lcore_id \<ge> TGEN_MAX_LCORES then False
      else role ! lcore_id \<in> {LCORE_ROLE_PRIMARY_MGMT, LCORE_ROLE_TELEMETRY, LCORE_ROLE_CLI_API,
                              LCORE_ROLE_WATCHDOG})"

end
