(* ===== verification/Worker.thy ===== *)
theory Worker
  imports TcbStore PortPool Metrics Congestion Neighbor CoreAssign "HOL-Library.Monad_Syntax"
begin

text \<open>
  The state of one worker and its surroundings.

  The record \<open>worker\<close> extends the connections (TCB store, timer wheel, clock) by everything else a
  worker owns: port pool, counters, latency histogram, the batch of segments waiting for transmission,
  the IP identification counter, the listener table and the TLS sessions.  Three fields record what happened: \<open>wire\<close> the
  frames the network device accepted, \<open>seg_log\<close> the segments \<^verbatim>\<open>tcp_send_segment\<close> reported as sent (they
  are in the batch or with the device), and \<open>mbufs_held\<close> counts the packet buffers the worker owns.

  The record \<open>env\<close> holds what the worker calls but does not own: the results of DPDK and OpenSSL, the
  allocator, the configuration of the ports, and the caches and constants that other threads wrote.  A
  DPDK call whose result may differ from call to call is a function of the number \<open>ext_pos\<close> of such
  calls made so far.  \<open>e_uninit\<close> is the content of stack memory behind the bytes a call has written.

  Every operation returns an option: \<open>None\<close> stands for a division by zero, a read through an invalid
  pointer or a write beyond a buffer.
\<close>

subsection \<open>Frames\<close>

record ipv4_hdr =
  ip_tos :: u8
  ip_total_length :: u16
  ip_packet_id :: u16
  ip_fragment_offset :: u16
  ip_ttl :: u8
  ip_proto :: u8
  ip_hdr_cksum :: u16
  ip_src :: u32
  ip_dst :: u32

record ipv6_hdr =
  ip6_vtc_flow :: u32
  ip6_payload_len :: u16
  ip6_proto :: u8
  ip6_hop_limits :: u8
  ip6_src :: bytes
  ip6_dst :: bytes

datatype l3_hdr = IPv4 ipv4_hdr | IPv6 ipv6_hdr

record tcp_hdr =
  th_src_port :: u16
  th_dst_port :: u16
  th_seq :: u32
  th_ack :: u32
  th_data_off :: u8
  th_flags :: u8
  th_win :: u16
  th_cksum :: u16

text \<open>\<open>f_cksum_offload\<close> is the set of transmit checksum flags in \<^verbatim>\<open>ol_flags\<close>: all of them or none.\<close>

record frame =
  f_eth_src :: bytes
  f_eth_dst :: bytes
  f_vlan_tci :: "u16 option"
  f_etype :: u16
  f_l3 :: l3_hdr
  f_tcp :: tcp_hdr
  f_opts :: bytes
  f_payload :: bytes
  f_l2_len :: nat
  f_l3_len :: nat
  f_l4_len :: nat
  f_cksum_offload :: bool
  f_port :: u16

subsection \<open>Listeners and sessions\<close>

datatype srv_handler = SRV_HANDLER_NONE | SRV_HANDLER_ECHO | SRV_HANDLER_DISCARD
  | SRV_HANDLER_CHARGEN | SRV_HANDLER_HTTP | SRV_HANDLER_HTTPS | SRV_HANDLER_TLS_ECHO

record srv_listener =
  l_port :: u16
  l_handler :: srv_handler
  l_active :: bool
  l_conns_accepted :: u64
  l_conns_active :: u64
  l_rx_bytes :: u64
  l_tx_bytes :: u64
  l_http_resps_sent :: u64

record srv_table =
  srv_listeners :: "srv_listener list"
  srv_count :: nat
  srv_serving :: bool
  srv_http_response :: bytes
  srv_http_response_len :: u32
  srv_chunked_body_size :: u32
  srv_chargen_buf :: bytes

text \<open>
  A TLS session: the number stands for the state of the OpenSSL objects \<^verbatim>\<open>SSL\<close> and its two memory
  BIOs, which only OpenSSL reads and changes.
\<close>

record tls_session =
  ts_ssl :: nat
  ts_handshake_done :: bool
  ts_shutdown_sent :: bool
  ts_worker_idx :: nat

record http_prebuilt_req =
  hp_hdr :: bytes
  hp_hdr_len :: u32
  hp_keep_alive :: bool
  hp_txn_per_conn :: u32
  hp_think_time_us :: u32
  hp_expected_interval_us :: u64

subsection \<open>Surroundings\<close>

record port_caps =
  pc_has_ipv4_cksum_offload :: bool
  pc_has_tcp_cksum_offload :: bool
  pc_max_rx_queues :: u32
  pc_max_tx_queues :: u32
  pc_mgmt_tx_q :: u16
  pc_mac_addr :: bytes

text \<open>
  OpenSSL on the state of a session: each call returns its result and the new state.
  \<open>ssl_new\<close> gets the role (server or not); \<open>ssl_do_handshake\<close> returns \<^verbatim>\<open>rc\<close> and the code of
  \<^verbatim>\<open>SSL_get_error\<close>; \<open>ssl_read\<close> and \<open>ssl_wbio_read\<close> get the size of the buffer and return the bytes read,
  none when the C function returns 0 or less.
\<close>

datatype ssl_error = SSL_WANT_READ | SSL_WANT_WRITE | SSL_OTHER

record openssl =
  ssl_new :: "nat \<Rightarrow> bool \<Rightarrow> nat option"
  ssl_rbio_write :: "nat \<Rightarrow> bytes \<Rightarrow> nat"
  ssl_do_handshake :: "nat \<Rightarrow> int \<times> ssl_error \<times> nat"
  ssl_wbio_pending :: "nat \<Rightarrow> nat"
  ssl_wbio_read :: "nat \<Rightarrow> nat \<Rightarrow> bytes \<times> nat"
  ssl_write :: "nat \<Rightarrow> bytes \<Rightarrow> int \<times> nat"
  ssl_read :: "nat \<Rightarrow> nat \<Rightarrow> bytes \<times> ssl_error \<times> nat"
  ssl_shutdown :: "nat \<Rightarrow> nat"

record env =
  e_lcore_id :: nat
  e_role :: "lcore_role list"
  e_port_caps :: "nat \<Rightarrow> port_caps"
  e_arp :: "arp_port list"
  e_ndp :: "ndp_port list"
  e_isn_secret0 :: u64
  e_isn_secret1 :: u64
  e_g_tsc_hz :: u64
  e_mbuf_alloc :: "nat \<Rightarrow> bool"
  e_mbuf_tailroom :: nat
  e_tx_burst :: "nat \<Rightarrow> nat \<Rightarrow> nat"
  e_malloc_hdr :: "nat \<Rightarrow> bool"
  e_malloc :: "nat \<Rightarrow> u32 \<Rightarrow> bytes option"
  e_ipv4_cksum :: "ipv4_hdr \<Rightarrow> u16"
  e_hdr_cksum :: "bytes \<Rightarrow> u16"
  e_phdr_cksum :: "ipv4_hdr \<Rightarrow> u16"
  e_udptcp_cksum :: "ipv4_hdr \<Rightarrow> bytes \<Rightarrow> u16"
  e_raw_cksum :: "bytes \<Rightarrow> u16"
  e_cubic :: cubic_math
  e_http_req :: "nat \<Rightarrow> http_prebuilt_req option"
  e_tls_client_ctx :: bool
  e_tls_server_ctx :: bool
  e_ssl :: openssl
  e_uninit :: "nat \<Rightarrow> bytes"

subsection \<open>The worker\<close>

record worker = conn +
  w_idx :: nat
  ports :: worker_pool
  metrics :: worker_metrics
  latency :: histogram
  tx_buf :: "frame list"
  tx_port_id :: u16
  tx_queue :: u16
  ip_id :: u32
  srv :: srv_table
  sessions :: "nat \<Rightarrow> tls_session option"
  saved_src6 :: bytes
  saved_dst6 :: bytes
  wire :: "(u16 \<times> u16 \<times> frame) list"
  seg_log :: "frame list"
  mbufs_held :: int
  ext_pos :: nat

definition upd_metrics :: "(worker_metrics \<Rightarrow> worker_metrics) \<Rightarrow> worker \<Rightarrow> worker" where
  "upd_metrics f w = w\<lparr>metrics := f (metrics w)\<rparr>"

definition next_ext :: "worker \<Rightarrow> worker" where
  "next_ext w = w\<lparr>ext_pos := ext_pos w + 1\<rparr>"

text \<open>Allocating, freeing and transmitting packet buffers.\<close>

definition mbuf_alloc :: "env \<Rightarrow> worker \<Rightarrow> bool \<times> worker" where
  "mbuf_alloc e w =
     (if e_mbuf_alloc e (ext_pos w) then (True, (next_ext w)\<lparr>mbufs_held := mbufs_held w + 1\<rparr>)
      else (False, next_ext w))"

definition mbuf_free :: "worker \<Rightarrow> worker" where
  "mbuf_free w = w\<lparr>mbufs_held := mbufs_held w - 1\<rparr>"

definition eth_tx_burst :: "env \<Rightarrow> u16 \<Rightarrow> u16 \<Rightarrow> frame list \<Rightarrow> worker \<Rightarrow> nat \<times> worker" where
  "eth_tx_burst e pid q pkts w =
     (let sent = min (e_tx_burst e (ext_pos w) (length pkts)) (length pkts)
      in (sent, (next_ext w)\<lparr>wire := wire w @ map (\<lambda>p. (pid, q, p)) (take sent pkts),
                             mbufs_held := mbufs_held w - int sent\<rparr>))"

definition is_worker_lcore :: "env \<Rightarrow> bool" where
  "is_worker_lcore e = tgen_is_worker (e_role e) (e_lcore_id e)"

subsection \<open>Results of operations\<close>

text \<open>\<open>yields m P\<close>: the operation returns, and its result satisfies \<open>P\<close>.\<close>

definition yields :: "'a option \<Rightarrow> ('a \<Rightarrow> bool) \<Rightarrow> bool" where
  "yields m P \<longleftrightarrow> (\<exists>x. m = Some x \<and> P x)"

lemma yields_Some [simp]: "yields (Some x) P \<longleftrightarrow> P x"
  by (simp add: yields_def)

lemma yields_None [simp]: "\<not> yields None P"
  by (simp add: yields_def)

lemma yields_bind: "yields (m \<bind> f) P \<longleftrightarrow> yields m (\<lambda>x. yields (f x) P)"
  by (cases m) simp_all

lemma yields_mono: "yields m P \<Longrightarrow> (\<And>x. P x \<Longrightarrow> Q x) \<Longrightarrow> yields m Q"
  by (auto simp: yields_def)

lemma yields_bindI: "yields m P \<Longrightarrow> (\<And>x. P x \<Longrightarrow> yields (f x) Q) \<Longrightarrow> yields (m \<bind> f) Q"
  by (auto simp: yields_def)

lemma yields_if: "yields (if c then a else b) P \<longleftrightarrow> (c \<longrightarrow> yields a P) \<and> (\<not> c \<longrightarrow> yields b P)"
  by simp

end
