(* ===== verification/TlsSession.thy ===== *)
theory TlsSession
  imports Worker
begin

text \<open>
  TLS sessions: the engine of \<^verbatim>\<open>tls/tls_engine.c\<close> over OpenSSL's memory BIOs, and the per-worker session
  table of \<^verbatim>\<open>tls/tls_session.c\<close>.  Positive results of \<^verbatim>\<open>tls_encrypt\<close> and \<^verbatim>\<open>tls_decrypt\<close> are the number
  of bytes written to the caller's buffer, so the bytes themselves are returned with them.
\<close>

definition TGEN_MAX_TLS_SESSIONS :: nat where "TGEN_MAX_TLS_SESSIONS = 1000000"

definition EINVAL :: int where "EINVAL = 22"
definition ENOENT :: int where "ENOENT = 2"
definition ENOMEM :: int where "ENOMEM = 12"

subsection \<open>Engine\<close>

text \<open>\<^verbatim>\<open>ssl_new\<close> covers the two BIOs, \<^verbatim>\<open>SSL_new\<close> and the setting of the role.\<close>

definition tls_session_new :: "openssl \<Rightarrow> nat \<Rightarrow> bool \<Rightarrow> nat \<Rightarrow> int \<times> tls_session option" where
  "tls_session_new ossl k is_server widx =
     (case ssl_new ossl k is_server of
        None \<Rightarrow> (-ENOMEM, None)
      | Some s \<Rightarrow> (0, Some \<lparr>ts_ssl = s, ts_handshake_done = False, ts_shutdown_sent = False,
                         ts_worker_idx = widx\<rparr>))"

definition tls_handshake ::
  "openssl \<Rightarrow> tls_session \<Rightarrow> bytes \<Rightarrow> nat \<Rightarrow> int \<times> bytes \<times> tls_session" where
  "tls_handshake ossl sess ciphertext_in ct_buf_cap =
     (let s = (if ciphertext_in \<noteq> [] then ssl_rbio_write ossl (ts_ssl sess) ciphertext_in else ts_ssl sess);
          (rc, err, s) = ssl_do_handshake ossl s;
          pending = ssl_wbio_pending ossl s;
          (out, s) = (if pending > 0 \<and> ct_buf_cap > 0
                      then let to_read = min pending ct_buf_cap; (b, s) = ssl_wbio_read ossl s to_read
                           in (take to_read b, s)
                      else ([], s));
          sess = sess\<lparr>ts_ssl := s\<rparr>
      in if rc = 1 then (1, out, sess\<lparr>ts_handshake_done := True\<rparr>)
         else if err = SSL_WANT_READ \<or> err = SSL_WANT_WRITE then (0, out, sess)
         else (-1, out, sess))"

definition tls_encrypt :: "openssl \<Rightarrow> tls_session \<Rightarrow> bytes \<Rightarrow> nat \<Rightarrow> int \<times> bytes \<times> tls_session" where
  "tls_encrypt ossl sess plaintext ct_buf_len =
     (let (rc, s) = ssl_write ossl (ts_ssl sess) plaintext
      in if rc \<le> 0 then (-1, [], sess\<lparr>ts_ssl := s\<rparr>)
         else let (b, s) = ssl_wbio_read ossl s ct_buf_len; out = take ct_buf_len b
              in (int (length out), out, sess\<lparr>ts_ssl := s\<rparr>))"

definition tls_decrypt :: "openssl \<Rightarrow> tls_session \<Rightarrow> bytes \<Rightarrow> nat \<Rightarrow> int \<times> bytes \<times> tls_session" where
  "tls_decrypt ossl sess ciphertext pt_buf_len =
     (let s = (if ciphertext \<noteq> [] then ssl_rbio_write ossl (ts_ssl sess) ciphertext else ts_ssl sess);
          (b, err, s) = ssl_read ossl s pt_buf_len; out = take pt_buf_len b; sess = sess\<lparr>ts_ssl := s\<rparr>
      in if out = [] then (if err = SSL_WANT_READ then 0 else -1, [], sess)
         else (int (length out), out, sess))"

definition tls_shutdown :: "openssl \<Rightarrow> tls_session \<Rightarrow> nat \<Rightarrow> bytes \<times> tls_session" where
  "tls_shutdown ossl sess ct_buf_len =
     (if ts_shutdown_sent sess then ([], sess)
      else let s = ssl_shutdown ossl (ts_ssl sess); (b, s) = ssl_wbio_read ossl s ct_buf_len
           in (take ct_buf_len b, sess\<lparr>ts_ssl := s, ts_shutdown_sent := True\<rparr>))"

subsection \<open>Session table\<close>

definition tls_session_get :: "nat \<Rightarrow> worker \<Rightarrow> tls_session option" where
  "tls_session_get conn_idx w =
     (if w_idx w \<ge> TGEN_MAX_WORKERS \<or> conn_idx \<ge> TGEN_MAX_TLS_SESSIONS then None
      else sessions w conn_idx)"

definition tls_session_put :: "nat \<Rightarrow> tls_session \<Rightarrow> worker \<Rightarrow> worker" where
  "tls_session_put conn_idx sess w = w\<lparr>sessions := (sessions w)(conn_idx := Some sess)\<rparr>"

text \<open>
  The allocation of the session object is a call of the allocator; a session already attached to the
  connection is overwritten, not freed.
\<close>

definition tls_session_attach :: "env \<Rightarrow> nat \<Rightarrow> bool \<Rightarrow> worker \<Rightarrow> int \<times> worker" where
  "tls_session_attach e conn_idx is_server w =
     (if w_idx w \<ge> TGEN_MAX_WORKERS \<or> conn_idx \<ge> TGEN_MAX_TLS_SESSIONS then (-EINVAL, w)
      else if \<not> (if is_server then e_tls_server_ctx e else e_tls_client_ctx e) then (-ENOENT, w)
      else if \<not> e_malloc_hdr e (ext_pos w) then (-ENOMEM, next_ext w)
      else
        (case tls_session_new (e_ssl e) (ext_pos w) is_server (w_idx w) of
           (rc, None) \<Rightarrow> (rc, next_ext w)
         | (rc, Some sess) \<Rightarrow> (0, tls_session_put conn_idx sess (next_ext w))))"

definition tls_session_detach :: "nat \<Rightarrow> worker \<Rightarrow> worker" where
  "tls_session_detach conn_idx w =
     (if w_idx w \<ge> TGEN_MAX_WORKERS \<or> conn_idx \<ge> TGEN_MAX_TLS_SESSIONS then w
      else w\<lparr>sessions := (sessions w)(conn_idx := None)\<rparr>)"

subsection \<open>Table laws\<close>

lemma tls_attach_get:
  "tls_session_attach e ci srv_side w = (0, w') \<Longrightarrow>
     \<exists>sess. tls_session_get ci w' = Some sess \<and> \<not> ts_handshake_done sess \<and>
       (\<forall>cj. cj \<noteq> ci \<longrightarrow> tls_session_get cj w' = tls_session_get cj w)"
  by (auto simp: tls_session_attach_def tls_session_new_def tls_session_get_def tls_session_put_def
      next_ext_def EINVAL_def ENOENT_def ENOMEM_def split: if_splits option.splits)

lemma tls_attach_error:
  "tls_session_attach e ci srv_side w = (rc, w') \<Longrightarrow> rc \<noteq> 0 \<Longrightarrow> tls_session_get cj w' = tls_session_get cj w"
  by (auto simp: tls_session_attach_def tls_session_new_def tls_session_get_def tls_session_put_def
      next_ext_def EINVAL_def ENOENT_def ENOMEM_def split: if_splits option.splits)

lemma tls_detach_get:
  "tls_session_get cj (tls_session_detach ci w) = (if cj = ci then None else tls_session_get cj w)"
  by (auto simp: tls_session_detach_def tls_session_get_def)

end
