(* ===== verification/TcpSend.thy ===== *)
theory TcpSend
  imports TlsSession
begin

text \<open>
  The sending half of \<^verbatim>\<open>net/tcp_fsm.c\<close>: building and batching segments, the retransmission timeout, the
  send buffer's drain loop, and the calls the rest of the program makes on a connection (connect, send,
  close, reset, timeout).  Checksums are those of \<^verbatim>\<open>net/tcp_checksum.h\<close> on a little-endian machine.
\<close>

definition TCP_DELAYED_ACK_US :: u64 where "TCP_DELAYED_ACK_US = 40000"
definition TCP_MAX_RETRANSMITS :: u32 where "TCP_MAX_RETRANSMITS = 15"
definition TCP_INITIAL_RTO_US :: u32 where "TCP_INITIAL_RTO_US = 200000"
definition TCP_MAX_RTO_US :: u32 where "TCP_MAX_RTO_US = 60000000"
definition TCP_TX_BATCH_MAX :: nat where "TCP_TX_BATCH_MAX = 64"

definition FIN_FLAG :: u8 where "FIN_FLAG = 0x01"
definition SYN_FLAG :: u8 where "SYN_FLAG = 0x02"
definition RST_FLAG :: u8 where "RST_FLAG = 0x04"
definition PSH_FLAG :: u8 where "PSH_FLAG = 0x08"
definition ACK_FLAG :: u8 where "ACK_FLAG = 0x10"

lemmas tcp_flag_defs = FIN_FLAG_def SYN_FLAG_def RST_FLAG_def PSH_FLAG_def ACK_FLAG_def

definition has_flag :: "u8 \<Rightarrow> u8 \<Rightarrow> bool" where
  "has_flag flags b \<longleftrightarrow> flags AND b \<noteq> 0"

definition SEQ_LT :: "u32 \<Rightarrow> u32 \<Rightarrow> bool" where "SEQ_LT a b \<longleftrightarrow> sint (a - b) < 0"
definition SEQ_LE :: "u32 \<Rightarrow> u32 \<Rightarrow> bool" where "SEQ_LE a b \<longleftrightarrow> sint (a - b) \<le> 0"
definition SEQ_GT :: "u32 \<Rightarrow> u32 \<Rightarrow> bool" where "SEQ_GT a b \<longleftrightarrow> sint (a - b) > 0"
definition SEQ_GE :: "u32 \<Rightarrow> u32 \<Rightarrow> bool" where "SEQ_GE a b \<longleftrightarrow> sint (a - b) \<ge> 0"

subsection \<open>Connection teardown\<close>

definition tls_detach_if_needed :: "nat \<Rightarrow> worker \<Rightarrow> worker" where
  "tls_detach_if_needed i w =
     (if app_state (tcb_at w i) \<ge> 2
      then upd_tcb i (\<lambda>t. t\<lparr>app_state := 0\<rparr>) (tls_session_detach i w) else w)"

definition port_free_immediate :: "nat \<Rightarrow> worker \<Rightarrow> worker" where
  "port_free_immediate i w =
     w\<lparr>ports := tcp_port_free_immediate (src_ip (tcb_at w i)) (src_port (tcb_at w i)) (ports w)\<rparr>"

definition port_free_timewait :: "nat \<Rightarrow> worker \<Rightarrow> worker" where
  "port_free_timewait i w =
     (let (now, w) = rdtsc w
      in w\<lparr>ports := tcp_port_free now (src_ip (tcb_at w i)) (src_port (tcb_at w i)) (ports w)\<rparr>)"

subsection \<open>Initial sequence numbers\<close>

definition isn_generate :: "env \<Rightarrow> u32 \<Rightarrow> u16 \<Rightarrow> u32 \<Rightarrow> u16 \<Rightarrow> worker \<Rightarrow> u32 \<times> worker" where
  "isn_generate e sip sport dip dport w =
     (let v = e_isn_secret0 e XOR (push_bit 32 (ucast sip) OR ucast dip);
          v = v XOR (push_bit 16 (ucast sport) OR ucast dport) * 0x9E3779B97F4A7C15;
          v = v XOR e_isn_secret1 e;
          v = (v XOR drop_bit 30 v) * 0xbf58476d1ce4e5b9;
          v = (v XOR drop_bit 27 v) * 0x94d049bb133111eb;
          (now, w) = rdtsc w
      in (ucast (drop_bit 32 v) + ucast (drop_bit 8 now), w))"

subsection \<open>Transmit batch\<close>

definition tcp_tx_flush :: "env \<Rightarrow> worker \<Rightarrow> worker" where
  "tcp_tx_flush e w =
     (if tx_buf w = [] then w
      else
        let (sent, w') = eth_tx_burst e (tx_port_id w) (tx_queue w) (tx_buf w) w
        in (w'\<lparr>mbufs_held := mbufs_held w' - int (length (tx_buf w) - sent)\<rparr>)\<lparr>tx_buf := []\<rparr>)"

definition tcp_tx_enqueue :: "env \<Rightarrow> u16 \<Rightarrow> u16 \<Rightarrow> frame \<Rightarrow> worker \<Rightarrow> worker" where
  "tcp_tx_enqueue e pid tx_q m w =
     (let w = (if tx_buf w \<noteq> [] \<and> (tx_port_id w \<noteq> pid \<or> tx_queue w \<noteq> tx_q \<or>
                                   length (tx_buf w) \<ge> TCP_TX_BATCH_MAX)
               then tcp_tx_flush e w else w)
      in w\<lparr>tx_port_id := pid, tx_queue := tx_q, tx_buf := tx_buf w @ [m]\<rparr>)"

subsection \<open>Checksums\<close>

text \<open>The segment in memory; the checksum field is stored in host order.\<close>

definition le16 :: "u16 \<Rightarrow> bytes" where
  "le16 x = [ucast x, ucast (drop_bit 8 x)]"

definition segment_bytes :: "tcp_hdr \<Rightarrow> bytes \<Rightarrow> bytes \<Rightarrow> bytes" where
  "segment_bytes h opts payload =
     bytes16 (th_src_port h) @ bytes16 (th_dst_port h) @ bytes32 (th_seq h) @ bytes32 (th_ack h) @
     [th_data_off h, th_flags h] @ bytes16 (th_win h) @ le16 (th_cksum h) @ [0, 0] @ opts @ payload"

definition frame_segment :: "frame \<Rightarrow> bytes" where
  "frame_segment f = segment_bytes (f_tcp f) (f_opts f) (f_payload f)"

definition set_tcp_cksum :: "u16 \<Rightarrow> frame \<Rightarrow> frame" where
  "set_tcp_cksum c f = f\<lparr>f_tcp := (f_tcp f)\<lparr>th_cksum := c\<rparr>\<rparr>"

definition tcp_checksum_set :: "env \<Rightarrow> ipv4_hdr \<Rightarrow> bool \<Rightarrow> frame \<Rightarrow> frame" where
  "tcp_checksum_set e ip hw_cksum f =
     (let f = set_tcp_cksum 0 f; ip = ip\<lparr>ip_hdr_cksum := 0\<rparr>
      in if hw_cksum
         then set_tcp_cksum (e_phdr_cksum e ip) (f\<lparr>f_l3 := IPv4 ip, f_cksum_offload := True\<rparr>)
         else
           let ip = ip\<lparr>ip_hdr_cksum := e_ipv4_cksum e ip\<rparr>
           in set_tcp_cksum (e_udptcp_cksum e ip (frame_segment f)) (f\<lparr>f_l3 := IPv4 ip\<rparr>))"

definition pseudo_hdr6 :: "bytes \<Rightarrow> bytes \<Rightarrow> u16 \<Rightarrow> bytes" where
  "pseudo_hdr6 src dst seg_len = src @ dst @ bytes32 (ucast seg_len) @ [0, 0, 0, 6]"

definition fold16 :: "u32 \<Rightarrow> u32" where
  "fold16 c = (drop_bit 16 c AND 0xFFFF) + (c AND 0xFFFF)"

definition tcp_checksum_set_v6 :: "env \<Rightarrow> bytes \<Rightarrow> bytes \<Rightarrow> u16 \<Rightarrow> bool \<Rightarrow> frame \<Rightarrow> frame" where
  "tcp_checksum_set_v6 e src6 dst6 seg_len hw_cksum f =
     (let f = set_tcp_cksum 0 f;
          ph = ucast (e_raw_cksum e (pseudo_hdr6 src6 dst6 seg_len))
      in if hw_cksum
         then set_tcp_cksum (ucast (NOT (fold16 ph))) (f\<lparr>f_cksum_offload := True\<rparr>)
         else
           let c = fold16 (ph + ucast (e_raw_cksum e (take (unat seg_len) (frame_segment f))));
               c = c + drop_bit 16 c
           in set_tcp_cksum (ucast (NOT c AND 0xFFFF)) f)"

text \<open>Verification of a received segment; 0 when correct.\<close>

definition tcp_checksum_verify_stripped_v6 :: "env \<Rightarrow> bytes \<Rightarrow> bytes \<Rightarrow> bytes \<Rightarrow> u16 \<Rightarrow> int" where
  "tcp_checksum_verify_stripped_v6 e src6 dst6 seg seg_len =
     (let c = fold16 (ucast (e_raw_cksum e (pseudo_hdr6 src6 dst6 seg_len)) +
                      ucast (e_raw_cksum e (take (unat seg_len) seg)));
          c = c + drop_bit 16 c
      in if c AND 0xFFFF = 0xFFFF then 0 else -1)"

definition tcp_checksum_verify_stripped :: "env \<Rightarrow> bytes \<Rightarrow> bytes \<Rightarrow> bytes \<Rightarrow> u16 \<Rightarrow> int" where
  "tcp_checksum_verify_stripped e src4 dst4 seg seg_len =
     (let c = fold16 (ucast (e_raw_cksum e (src4 @ dst4 @ [0, 6] @ bytes16 seg_len)) +
                      ucast (e_raw_cksum e (take (unat seg_len) seg)));
          c = c + drop_bit 16 c
      in if c AND 0xFFFF = 0xFFFF then 0 else -1)"

subsection \<open>Segments\<close>

definition RTE_ETHER_TYPE_IPV4 :: u16 where "RTE_ETHER_TYPE_IPV4 = 0x0800"
definition RTE_ETHER_TYPE_IPV6 :: u16 where "RTE_ETHER_TYPE_IPV6 = 0x86DD"
definition RTE_IPV4_HDR_DF_FLAG :: u16 where "RTE_IPV4_HDR_DF_FLAG = 0x4000"

definition is_v6 :: "tcb \<Rightarrow> bool" where
  "is_v6 t \<longleftrightarrow> ip_version t = 6"

definition segment_options :: "u8 \<Rightarrow> u32 \<Rightarrow> tcb \<Rightarrow> bytes" where
  "segment_options flags ts t =
     (if has_flag flags SYN_FLAG
      then tcp_options_write_syn 40 (mss_local t) (wscale_local t) True True ts (ts_ecr t)
      else tcp_options_write_data 40 (ts_enabled t) ts (ts_ecr t)
             (if sack_block_count t \<noteq> 0 then sack_blocks t else []) (sack_block_count t))"

text \<open>The destination address of the frame, and the block with the address cached.\<close>

definition lookup_dst_mac :: "env \<Rightarrow> tcb \<Rightarrow> bytes option" where
  "lookup_dst_mac e t =
     (if is_v6 t then ndp_lookup (e_ndp e) (port_id t) (dst_ip6 t)
      else arp_lookup (e_arp e) (port_id t) (arp_nexthop (e_arp e) (port_id t) (dst_ip t)))"

definition frame_dst_mac :: "env \<Rightarrow> tcb \<Rightarrow> bytes" where
  "frame_dst_mac e t =
     (if dst_mac_valid t then dst_mac t
      else case lookup_dst_mac e t of Some mac \<Rightarrow> mac | None \<Rightarrow> replicate 6 0xFF)"

definition cache_dst_mac :: "env \<Rightarrow> tcb \<Rightarrow> tcb" where
  "cache_dst_mac e t =
     (if dst_mac_valid t then t
      else case lookup_dst_mac e t of
             Some mac \<Rightarrow> t\<lparr>dst_mac := mac, dst_mac_valid := True\<rparr> | None \<Rightarrow> t)"

definition eth_hdr_sz :: "tcb \<Rightarrow> nat" where
  "eth_hdr_sz t = 14 + (if vlan_id t \<noteq> 0 then 4 else 0)"

definition ip_hdr_sz :: "tcb \<Rightarrow> nat" where
  "ip_hdr_sz t = (if is_v6 t then 40 else 20)"

definition segment_l3 :: "nat \<Rightarrow> u32 \<Rightarrow> tcb \<Rightarrow> l3_hdr" where
  "segment_l3 seg_len ipid t =
     (if is_v6 t
      then IPv6 \<lparr>ip6_vtc_flow = 0x60000000 OR push_bit 20 (push_bit 2 (ucast (dscp t))),
                 ip6_payload_len = word_of_nat seg_len, ip6_proto = 6, ip6_hop_limits = 64,
                 ip6_src = src_ip6 t, ip6_dst = dst_ip6 t\<rparr>
      else IPv4 \<lparr>ip_tos = push_bit 2 (dscp t), ip_total_length = word_of_nat (20 + seg_len),
                 ip_packet_id = ucast (ipid AND 0xFFFF), ip_fragment_offset = RTE_IPV4_HDR_DF_FLAG,
                 ip_ttl = 64, ip_proto = 6, ip_hdr_cksum = 0, ip_src = src_ip t, ip_dst = dst_ip t\<rparr>)"

definition segment_tcp :: "u8 \<Rightarrow> u32 \<Rightarrow> u32 \<Rightarrow> nat \<Rightarrow> tcb \<Rightarrow> tcp_hdr" where
  "segment_tcp flags sq ak tcp_hdr_sz t =
     \<lparr>th_src_port = src_port t, th_dst_port = dst_port t, th_seq = sq, th_ack = ak,
      th_data_off = push_bit 4 (word_of_nat (tcp_hdr_sz div 4) AND 0x0F), th_flags = flags,
      th_win = ucast (drop_bit (unat (wscale_local t)) (rcv_wnd t)), th_cksum = 0\<rparr>"

definition build_frame ::
  "env \<Rightarrow> u8 \<Rightarrow> bytes \<Rightarrow> bytes \<Rightarrow> u32 \<Rightarrow> u32 \<Rightarrow> u32 \<Rightarrow> tcb \<Rightarrow> frame" where
  "build_frame e flags opts payload sq ak ipid t =
     (let tcp_hdr_sz = 20 + length opts; seg_len = tcp_hdr_sz + length payload;
          hw = pc_has_tcp_cksum_offload (e_port_caps e (unat (port_id t)));
          f = \<lparr>f_eth_src = pc_mac_addr (e_port_caps e (unat (port_id t))),
               f_eth_dst = frame_dst_mac e t,
               f_vlan_tci = (if vlan_id t \<noteq> 0 then Some (vlan_id t AND 0x0FFF) else None),
               f_etype = (if is_v6 t then RTE_ETHER_TYPE_IPV6 else RTE_ETHER_TYPE_IPV4),
               f_l3 = segment_l3 seg_len ipid t, f_tcp = segment_tcp flags sq ak tcp_hdr_sz t,
               f_opts = opts, f_payload = payload, f_l2_len = eth_hdr_sz t, f_l3_len = ip_hdr_sz t,
               f_l4_len = tcp_hdr_sz, f_cksum_offload = False, f_port = port_id t\<rparr>
      in case f_l3 f of
           IPv4 ip \<Rightarrow> tcp_checksum_set e ip hw f
         | IPv6 _ \<Rightarrow> tcp_checksum_set_v6 e (src_ip6 t) (dst_ip6 t) (word_of_nat seg_len) hw f)"

text \<open>Batching on a worker core, immediate transmission on the management core.\<close>

definition transmit_frame :: "env \<Rightarrow> frame \<Rightarrow> worker \<Rightarrow> (bool \<times> worker) option" where
  "transmit_frame e f w =
     (let pc = e_port_caps e (unat (f_port f))
      in if is_worker_lcore e
         then if pc_max_tx_queues pc = 0 then None
              else Some (True, tcp_tx_enqueue e (f_port f)
                     (ucast (ucast (word_of_nat (w_idx w) :: u16) mod pc_max_tx_queues pc)) f w)
         else let (sent, w) = eth_tx_burst e (f_port f) (pc_mgmt_tx_q pc) [f] w
              in Some (if sent = 0 then (False, mbuf_free w) else (True, w)))"

text \<open>
  \<open>tcp_send_segment\<close> returns 0 or -1.  The division of the clock traps below 1 MHz; the length passed
  to \<^verbatim>\<open>rte_pktmbuf_append\<close> is cut to 16 bits, so a longer segment would be written beyond the
  appended area.
\<close>

definition tcp_send_segment ::
  "env \<Rightarrow> nat \<Rightarrow> u8 \<Rightarrow> bytes \<Rightarrow> u32 \<Rightarrow> u32 \<Rightarrow> u32 \<Rightarrow> worker \<Rightarrow> (int \<times> worker) option" where
  "tcp_send_segment e i flags payload payload_len sq ak w =
     (let (got, w) = mbuf_alloc e w
      in if \<not> got then Some (-1, w)
         else if e_g_tsc_hz e div 1000000 = 0 \<or> unat payload_len > length payload then None
         else
           let (now, w) = rdtsc w;
               ts = ucast (now div (e_g_tsc_hz e div 1000000));
               t = tcb_at w i;
               opts = segment_options flags ts t;
               pl = take (unat payload_len) payload;
               seg_len = 20 + length opts + length pl;
               total = eth_hdr_sz t + ip_hdr_sz t + seg_len;
               appended = total mod 65536
           in if appended > e_mbuf_tailroom e then Some (-1, mbuf_free w)
              else if appended < total then None
              else
                let f = build_frame e flags opts pl sq ak (ip_id w) t;
                    w = (if is_v6 t then w else w\<lparr>ip_id := ip_id w + 1\<rparr>);
                    w = upd_tcb i (cache_dst_mac e) w
                in do { (sent, w) \<leftarrow> transmit_frame e f w;
                        if \<not> sent then Some (-1, w)
                        else
                          let w = upd_metrics (worker_metrics_add_tx 1 (word_of_nat seg_len)) w;
                              w = w\<lparr>seg_log := seg_log w @ [f]\<rparr>;
                              w = (if has_flag flags ACK_FLAG \<and> \<not> has_flag flags SYN_FLAG
                                   then upd_tcb i (\<lambda>t. t\<lparr>pending_ack := False\<rparr>) w else w)
                          in Some (0, w) })"

subsection \<open>Retransmission timeout\<close>

definition update_rtt :: "u32 \<Rightarrow> tcb \<Rightarrow> tcb" where
  "update_rtt rtt_us t =
     (let t = (if srtt_us t = 0 then t\<lparr>srtt_us := rtt_us, rttvar_us := rtt_us div 2\<rparr>
               else
                 let delta = (if rtt_us > srtt_us t then rtt_us - srtt_us t else srtt_us t - rtt_us)
                 in t\<lparr>rttvar_us := (3 * rttvar_us t + delta) div 4,
                      srtt_us := (7 * srtt_us t + rtt_us) div 8\<rparr>);
          rto = srtt_us t + 4 * rttvar_us t
      in t\<lparr>rto_us := TGEN_CLAMP rto 200000 TCP_MAX_RTO_US\<rparr>)"

definition arm_rto :: "env \<Rightarrow> nat \<Rightarrow> worker \<Rightarrow> worker" where
  "arm_rto e i w =
     (let (now, w) = rdtsc w
      in tcp_timer_resched i
           (upd_tcb i (\<lambda>t. t\<lparr>rto_deadline_tsc := now + ucast (rto_us t) * e_g_tsc_hz e div 1000000\<rparr>) w))"

subsection \<open>Sending data\<close>

definition tcb_effective_mss :: "tcb \<Rightarrow> u32" where
  "tcb_effective_mss t =
     (let opts = (if ts_enabled t then 12 else 0) :: u32
      in if ucast (mss_remote t) > opts then ucast (mss_remote t) - opts else 1)"

definition add_payload_tx :: "u32 \<Rightarrow> worker \<Rightarrow> worker" where
  "add_payload_tx n = upd_metrics (\<lambda>m. m\<lparr>m_tcp_payload_tx := m_tcp_payload_tx m + ucast n\<rparr>)"

text \<open>The bytes the window admits at this moment.\<close>

definition window_avail :: "tcb \<Rightarrow> u32" where
  "window_avail t =
     (let in_flight = snd_nxt t - snd_una t; wnd = min (cwnd t) (snd_wnd t)
      in if wnd > in_flight then wnd - in_flight else 0)"

definition data_sent :: "nat \<Rightarrow> u32 \<Rightarrow> worker \<Rightarrow> worker" where
  "data_sent i n w = add_payload_tx n (upd_tcb i (\<lambda>t. t\<lparr>snd_nxt := snd_nxt t + n\<rparr>) w)"

text \<open>
  The two loops that send data: from the send buffer, and directly from the caller's bytes in
  throughput mode.  A loop that would not end is the value \<open>None\<close>.
\<close>

partial_function (option) drain_loop ::
  "env \<Rightarrow> nat \<Rightarrow> tcp_snd_buf \<Rightarrow> u32 \<Rightarrow> u32 \<Rightarrow> worker \<Rightarrow> worker option" where
  "drain_loop e i sb eff_mss offset w =
     (if \<not> offset < sb_len sb then Some w
      else
        let t = tcb_at w i; send_len = min (sb_len sb - offset) (window_avail t)
        in if send_len = 0 then Some w
           else
             let send_len = min send_len eff_mss
             in do { (rc, w) \<leftarrow> tcp_send_segment e i (ACK_FLAG OR PSH_FLAG) (drop (unat offset) (sb_data sb))
                                 send_len (snd_nxt t) (rcv_nxt t) w;
                     if rc < 0 then Some w
                     else drain_loop e i sb eff_mss (offset + send_len) (data_sent i send_len w) })"

definition snd_buf_drain :: "env \<Rightarrow> nat \<Rightarrow> worker \<Rightarrow> worker option" where
  "snd_buf_drain e i w =
     (let t = tcb_at w i
      in case snd_buf t of
           None \<Rightarrow> Some w
         | Some sb \<Rightarrow>
             if sb_len sb = 0 then Some w
             else drain_loop e i sb (tcb_effective_mss t) (snd_nxt t - snd_una t) w)"

partial_function (option) direct_loop ::
  "env \<Rightarrow> nat \<Rightarrow> bytes \<Rightarrow> u32 \<Rightarrow> u32 \<Rightarrow> u32 \<Rightarrow> worker \<Rightarrow> (u32 \<times> worker) option" where
  "direct_loop e i data len eff_mss total_sent w =
     (if \<not> total_sent < len then Some (total_sent, w)
      else
        let t = tcb_at w i; send_len = min (len - total_sent) (window_avail t)
        in if send_len = 0 then Some (total_sent, w)
           else
             let send_len = min send_len eff_mss
             in do { (rc, w) \<leftarrow> tcp_send_segment e i (ACK_FLAG OR PSH_FLAG) (drop (unat total_sent) data)
                                 send_len (snd_nxt t) (rcv_nxt t) w;
                     if rc < 0 then Some (total_sent, w)
                     else direct_loop e i data len eff_mss (total_sent + send_len) (data_sent i send_len w) })"

text \<open>The send buffer a connection gets on its first send; the allocator is called twice.\<close>

definition ensure_snd_buf :: "env \<Rightarrow> nat \<Rightarrow> u32 \<Rightarrow> worker \<Rightarrow> bool \<times> worker" where
  "ensure_snd_buf e i len w =
     (case snd_buf (tcb_at w i) of
        Some _ \<Rightarrow> (True, w)
      | None \<Rightarrow>
          let cap = (if len > TCP_SND_BUF_DEFAULT_CAP then len + 4096 else TCP_SND_BUF_DEFAULT_CAP)
          in case tcp_snd_buf_alloc (e_malloc_hdr e (ext_pos w)) (e_malloc e (ext_pos w)) cap of
               None \<Rightarrow> (False, next_ext w)
             | Some sb \<Rightarrow>
                 (True, upd_tcb i (\<lambda>t. t\<lparr>snd_buf := Some (sb\<lparr>sb_base_seq := snd_una t\<rparr>)\<rparr>) (next_ext w)))"

definition queue_data :: "nat \<Rightarrow> bytes \<Rightarrow> u32 \<Rightarrow> worker \<Rightarrow> u32 \<times> worker" where
  "queue_data i data len w =
     (case snd_buf (tcb_at w i) of
        None \<Rightarrow> (0, w)
      | Some sb \<Rightarrow>
          let (queued, sb) = tcp_snd_buf_append sb data len
          in (queued, upd_tcb i (\<lambda>t. t\<lparr>snd_buf := Some sb\<rparr>) w))"

definition tcp_fsm_send :: "env \<Rightarrow> nat \<Rightarrow> bytes \<Rightarrow> u32 \<Rightarrow> worker \<Rightarrow> (int \<times> worker) option" where
  "tcp_fsm_send e i data len w =
     (let t = tcb_at w i
      in if state t \<noteq> TCP_ESTABLISHED \<and> state t \<noteq> TCP_CLOSE_WAIT then Some (-1, w)
         else if app_ctx t = 1 then
           do { (total_sent, w) \<leftarrow> direct_loop e i data len (tcb_effective_mss t) 0 w;
                let w = (if total_sent > 0 \<and> rto_deadline_tsc (tcb_at w i) = 0 then arm_rto e i w else w)
                in Some (sint total_sent, w) }
         else
           let (ok, w) = ensure_snd_buf e i len w
           in if \<not> ok then Some (-1, w)
              else if unat len > length data then None
              else
                let (queued, w) = queue_data i data len w
                in do { w \<leftarrow> snd_buf_drain e i w;
                        let t = tcb_at w i;
                            w = (if snd_nxt t \<noteq> snd_una t \<and> rto_deadline_tsc t = 0 then arm_rto e i w else w)
                        in Some (sint queued, w) })"

subsection \<open>Opening and closing\<close>

definition tcp_fsm_close :: "env \<Rightarrow> nat \<Rightarrow> worker \<Rightarrow> (int \<times> worker) option" where
  "tcp_fsm_close e i w =
     (let t = tcb_at w i
      in if state t \<noteq> TCP_ESTABLISHED \<and> state t \<noteq> TCP_CLOSE_WAIT then Some (-1, w)
         else
           do { (_, w) \<leftarrow> tcp_send_segment e i (FIN_FLAG OR ACK_FLAG) [] 0 (snd_nxt t) (rcv_nxt t) w;
                let w = upd_tcb i (\<lambda>t. t\<lparr>snd_nxt := snd_nxt t + 1,
                          state := (if state t = TCP_ESTABLISHED then TCP_FIN_WAIT_1 else TCP_LAST_ACK)\<rparr>) w
                in Some (0, arm_rto e i w) })"

definition tcp_fsm_reset :: "env \<Rightarrow> nat \<Rightarrow> worker \<Rightarrow> worker option" where
  "tcp_fsm_reset e i w =
     (let w = (if state (tcb_at w i) \<ge> TCP_ESTABLISHED
               then upd_metrics (\<lambda>m. m\<lparr>m_tcp_conn_close := m_tcp_conn_close m + 1\<rparr>) w else w);
          t = tcb_at w i
      in do { (_, w) \<leftarrow> tcp_send_segment e i (RST_FLAG OR ACK_FLAG) [] 0 (snd_nxt t) (rcv_nxt t) w;
              let w = tcb_free i (port_free_immediate i (tls_detach_if_needed i w))
              in Some (upd_metrics (\<lambda>m. m\<lparr>m_tcp_reset_sent := m_tcp_reset_sent m + 1\<rparr>) w) })"

fun reset_loop :: "env \<Rightarrow> nat list \<Rightarrow> worker \<Rightarrow> worker option" where
  "reset_loop e [] w = Some w"
| "reset_loop e (i # is) w =
     (if \<not> in_use (tcb_at w i) then reset_loop e is w
      else
        do { (_, w) \<leftarrow> tcp_send_segment e i (RST_FLAG OR ACK_FLAG) [] 0
                          (snd_nxt (tcb_at w i)) (rcv_nxt (tcb_at w i)) w;
             reset_loop e is (upd_tcb i (\<lambda>t. t\<lparr>snd_buf := None\<rparr>) (tls_detach_if_needed i w)) })"

definition tcp_fsm_reset_all :: "env \<Rightarrow> worker \<Rightarrow> worker option" where
  "tcp_fsm_reset_all e w = map_option tcb_store_reset (reset_loop e [0..<capacity w] w)"

definition tcp_fsm_listen :: "u16 \<Rightarrow> worker \<Rightarrow> int \<times> worker" where
  "tcp_fsm_listen local_port w = (0, w)"

text \<open>The retransmission for a state; the buffer of an open connection is sent again from \<open>snd_una\<close>.\<close>

definition retransmit :: "env \<Rightarrow> nat \<Rightarrow> worker \<Rightarrow> worker option" where
  "retransmit e i w =
     (let t = tcb_at w i
      in if state t = TCP_SYN_SENT
         then map_option snd (tcp_send_segment e i SYN_FLAG [] 0 (snd_una t) 0 w)
         else if state t = TCP_SYN_RECEIVED
         then map_option snd (tcp_send_segment e i (SYN_FLAG OR ACK_FLAG) [] 0 (snd_una t) (rcv_nxt t) w)
         else if state t = TCP_FIN_WAIT_1 \<or> state t = TCP_LAST_ACK
         then map_option snd (tcp_send_segment e i (FIN_FLAG OR ACK_FLAG) [] 0 (snd_una t) (rcv_nxt t) w)
         else if (state t = TCP_ESTABLISHED \<or> state t = TCP_CLOSE_WAIT) \<and>
                 (case snd_buf t of None \<Rightarrow> False | Some sb \<Rightarrow> sb_len sb > 0)
         then snd_buf_drain e i (upd_tcb i (\<lambda>t. t\<lparr>snd_nxt := snd_una t\<rparr>) w)
         else Some w)"

definition tcp_fsm_rto_expired :: "env \<Rightarrow> nat \<Rightarrow> worker \<Rightarrow> worker option" where
  "tcp_fsm_rto_expired e i w =
     (let w = upd_tcb i (\<lambda>t. t\<lparr>retransmit_count := retransmit_count t + 1\<rparr>) w; t = tcb_at w i;
          max_retries = (if state t = TCP_SYN_SENT then 3 else TCP_MAX_RETRANSMITS)
      in if ucast (retransmit_count t) > max_retries then tcp_fsm_reset e i w
         else
           let w = upd_tcb i (\<lambda>t. congestion_on_rto (e_cubic e)
                                   (t\<lparr>rto_us := min (rto_us t * 2) TCP_MAX_RTO_US\<rparr>)) w
           in do { w \<leftarrow> retransmit e i w;
                   Some (upd_metrics (\<lambda>m. m\<lparr>m_tcp_retransmit := m_tcp_retransmit m + 1\<rparr>) (arm_rto e i w)) })"

definition connect_init :: "env \<Rightarrow> u16 \<Rightarrow> u32 \<Rightarrow> tcb \<Rightarrow> tcb" where
  "connect_init e pid isn t =
     t\<lparr>state := TCP_SYN_SENT, ip_version := 4, snd_nxt := isn, snd_una := isn, rcv_wnd := 65535 * 128,
       mss_local := 1460, wscale_local := 7, cwnd := min (10 * 1460) (max (2 * 1460) 4380),
       ssthresh := U32_MAX, nagle_enabled := True, rto_us := TCP_INITIAL_RTO_US,
       lcore_id := word_of_nat (e_lcore_id e), port_id := pid, active_open := True, ts_enabled := True\<rparr>"

definition preresolve :: "bytes option \<Rightarrow> tcb \<Rightarrow> tcb" where
  "preresolve mac t = (case mac of None \<Rightarrow> t | Some mac \<Rightarrow> t\<lparr>dst_mac := mac, dst_mac_valid := True\<rparr>)"

definition tcp_fsm_connect ::
  "env \<Rightarrow> u32 \<Rightarrow> u16 \<Rightarrow> u32 \<Rightarrow> u16 \<Rightarrow> u16 \<Rightarrow> worker \<Rightarrow> (nat option \<times> worker) option" where
  "tcp_fsm_connect e sip sport dip dport pid w =
     (let (sport, w) = (if sport = 0
                        then (let (r, wp) = tcp_port_alloc sip (ports w) in (r, w\<lparr>ports := wp\<rparr>))
                        else (Some sport, w))
      in case sport of
           None \<Rightarrow> Some (None, w)
         | Some sport \<Rightarrow>
             (case tcb_alloc (sip, sport, dip, dport) w of
                (None, w) \<Rightarrow> Some (None, w)
              | (Some i, w) \<Rightarrow>
                  let (isn, w) = isn_generate e sip sport dip dport w;
                      w = upd_tcb i (preresolve (arp_lookup (e_arp e) pid (arp_nexthop (e_arp e) pid dip)) \<circ>
                                     connect_init e pid isn) w;
                      (now, w) = rdtsc w;
                      w = upd_tcb i (\<lambda>t. t\<lparr>timewait_deadline_tsc := now\<rparr>) w
                  in do { (_, w) \<leftarrow> tcp_send_segment e i SYN_FLAG [] 0 (snd_nxt (tcb_at w i)) 0 w;
                          let w = arm_rto e i (upd_tcb i (\<lambda>t. t\<lparr>snd_nxt := snd_nxt t + 1\<rparr>) w)
                          in Some (Some i, upd_metrics (\<lambda>m. m\<lparr>m_tcp_syn_sent := m_tcp_syn_sent m + 1\<rparr>) w) }))"

end
