(* ===== verification/TcpSendInv.thy ===== *)
theory TcpSendInv
  imports TcpSend
begin

text \<open>
  The invariant of a worker and what the sending operations do to it: every operation returns, keeps
  the invariant, and touches only its own connection.
\<close>

subsection \<open>Frames of the worker's fields\<close>

lemma tcb_at_worker_upd [simp]:
  "tcb_at (w\<lparr>ports := a1\<rparr>) i = tcb_at w i" "tcb_at (w\<lparr>metrics := a2\<rparr>) i = tcb_at w i"
  "tcb_at (w\<lparr>latency := a3\<rparr>) i = tcb_at w i" "tcb_at (w\<lparr>tx_buf := a4\<rparr>) i = tcb_at w i"
  "tcb_at (w\<lparr>tx_port_id := a5\<rparr>) i = tcb_at w i" "tcb_at (w\<lparr>tx_queue := a6\<rparr>) i = tcb_at w i"
  "tcb_at (w\<lparr>ip_id := a7\<rparr>) i = tcb_at w i" "tcb_at (w\<lparr>srv := a8\<rparr>) i = tcb_at w i"
  "tcb_at (w\<lparr>sessions := a9\<rparr>) i = tcb_at w i" "tcb_at (w\<lparr>wire := b1\<rparr>) i = tcb_at w i"
  "tcb_at (w\<lparr>mbufs_held := b2\<rparr>) i = tcb_at w i" "tcb_at (w\<lparr>ext_pos := b3\<rparr>) i = tcb_at w i"
  "tcb_at (w\<lparr>tsc_pos := b4\<rparr>) i = tcb_at w i" "tcb_at (w\<lparr>seg_log := b5\<rparr>) i = tcb_at w i"
  by (simp_all add: tcb_at_def)

lemma upd_tcb_worker [simp]:
  "w_idx (upd_tcb i f w) = w_idx w" "ports (upd_tcb i f w) = ports w"
  "metrics (upd_tcb i f w) = metrics w" "latency (upd_tcb i f w) = latency w"
  "tx_buf (upd_tcb i f w) = tx_buf w" "tx_port_id (upd_tcb i f w) = tx_port_id w"
  "tx_queue (upd_tcb i f w) = tx_queue w" "ip_id (upd_tcb i f w) = ip_id w"
  "srv (upd_tcb i f w) = srv w" "sessions (upd_tcb i f w) = sessions w"
  "saved_src6 (upd_tcb i f w) = saved_src6 w" "saved_dst6 (upd_tcb i f w) = saved_dst6 w"
  "wire (upd_tcb i f w) = wire w" "mbufs_held (upd_tcb i f w) = mbufs_held w"
  "ext_pos (upd_tcb i f w) = ext_pos w" "seg_log (upd_tcb i f w) = seg_log w"
  by (simp_all add: upd_tcb_def)

text \<open>Operations on connections leave the rest of the worker alone.\<close>

lemma worker_more_eq:
  assumes "conn.more w' = conn.more w"
  shows "w_idx w' = w_idx w" "ports w' = ports w" "metrics w' = metrics w" "latency w' = latency w"
    "tx_buf w' = tx_buf w" "tx_port_id w' = tx_port_id w" "tx_queue w' = tx_queue w" "ip_id w' = ip_id w"
    "srv w' = srv w" "sessions w' = sessions w" "saved_src6 w' = saved_src6 w" "saved_dst6 w' = saved_dst6 w"
    "wire w' = wire w" "mbufs_held w' = mbufs_held w" "ext_pos w' = ext_pos w" "seg_log w' = seg_log w"
  using assms by (cases w; cases w'; simp)+

lemma conn_ok_cong:
  fixes st :: "'a conn_scheme" and st' :: "'b conn_scheme"
  assumes "tcbs st' = tcbs st" "capacity st' = capacity st" "count st' = count st"
    "ht st' = ht st" "ht_size st' = ht_size st" "ht_mask st' = ht_mask st"
    "free_stack st' = free_stack st" "free_top st' = free_top st"
    "tw_slots st' = tw_slots st" "tw_overflow st' = tw_overflow st"
  shows "conn_ok st' = conn_ok st"
proof -
  have at: "tcb_at st' = tcb_at st" using assms(1) by (simp add: tcb_at_def fun_eq_iff)
  have "store_ok st' = store_ok st"
    by (simp add: store_ok_def store_shape_def free_ok_def ht_ok_def probes_def at assms)
  moreover have "wheel_ok st' cs = wheel_ok st cs" for cs
    by (simp add: wheel_ok_def wheel_head_def at assms)
  ultimately show ?thesis by (simp add: conn_ok_def)
qed

lemma conn_ok_worker_upd [simp]:
  "conn_ok (w\<lparr>ports := a1\<rparr>) = conn_ok w" "conn_ok (w\<lparr>metrics := a2\<rparr>) = conn_ok w"
  "conn_ok (w\<lparr>latency := a3\<rparr>) = conn_ok w" "conn_ok (w\<lparr>tx_buf := a4\<rparr>) = conn_ok w"
  "conn_ok (w\<lparr>tx_port_id := a5\<rparr>) = conn_ok w" "conn_ok (w\<lparr>tx_queue := a6\<rparr>) = conn_ok w"
  "conn_ok (w\<lparr>ip_id := a7\<rparr>) = conn_ok w" "conn_ok (w\<lparr>srv := a8\<rparr>) = conn_ok w"
  "conn_ok (w\<lparr>sessions := a9\<rparr>) = conn_ok w" "conn_ok (w\<lparr>wire := b1\<rparr>) = conn_ok w"
  "conn_ok (w\<lparr>mbufs_held := b2\<rparr>) = conn_ok w" "conn_ok (w\<lparr>ext_pos := b3\<rparr>) = conn_ok w"
  "conn_ok (w\<lparr>tsc_pos := b4\<rparr>) = conn_ok w" "conn_ok (w\<lparr>seg_log := b5\<rparr>) = conn_ok w"
  by (rule conn_ok_cong; simp)+

subsection \<open>Invariants\<close>

text \<open>
  A block: its send buffer is well formed, its peer's segment size fits a frame, once the peer's
  options are known the congestion window cannot lead to a division by zero (the slow start threshold is
  not zero, except after a retransmitted SYN), and a block that is not in use is closed and has no
  application.
\<close>

definition MAX_MSS :: nat where "MAX_MSS = 65400"

definition cc_ok :: "tcb \<Rightarrow> bool" where
  "cc_ok t \<longleftrightarrow> mss_remote t \<noteq> 0 \<and>
     (app_ctx t = 1 \<or> ssthresh t \<noteq> 0 \<or> 2 \<le> cwnd t \<and> cwnd t \<le> CWND_CAP \<and> \<not> in_fast_recovery t)"

definition tcb_ok :: "tcb \<Rightarrow> bool" where
  "tcb_ok t \<longleftrightarrow> (\<forall>sb. snd_buf t = Some sb \<longrightarrow> snd_buf_ok sb) \<and> unat (mss_remote t) \<le> MAX_MSS \<and>
     (state t \<notin> {TCP_CLOSED, TCP_LISTEN, TCP_SYN_SENT} \<longrightarrow> cc_ok t) \<and>
     (state t = TCP_SYN_SENT \<longrightarrow> \<not> in_fast_recovery t) \<and>
     (in_use t \<or> state t = TCP_CLOSED \<and> app_state t = 0)"

definition worker_ok :: "worker \<Rightarrow> bool" where
  "worker_ok w \<longleftrightarrow> conn_ok w \<and> (\<forall>i<capacity w. tcb_ok (tcb_at w i)) \<and> pool_ok (ports w) \<and>
     tsc_hz w \<noteq> 0 \<and> mbufs_held w = int (length (tx_buf w)) \<and> length (tx_buf w) \<le> TCP_TX_BATCH_MAX"

text \<open>What is asked of the surroundings: a clock of at least 1 MHz, transmit queues on every port, and
  an allocator that returns as much memory as it is asked for.\<close>

definition env_ok :: "env \<Rightarrow> bool" where
  "env_ok e \<longleftrightarrow> e_g_tsc_hz e div 1000000 \<noteq> 0 \<and> (\<forall>p. pc_max_tx_queues (e_port_caps e p) \<noteq> 0) \<and>
     (\<forall>k cap mem. e_malloc e k cap = Some mem \<longrightarrow> length mem = unat cap)"

lemma worker_okD:
  assumes "worker_ok w"
  shows "conn_ok w" "i < capacity w \<Longrightarrow> tcb_ok (tcb_at w i)" "pool_ok (ports w)" "tsc_hz w \<noteq> 0"
    "mbufs_held w = int (length (tx_buf w))" "length (tx_buf w) \<le> TCP_TX_BATCH_MAX"
    "length (tcbs w) = capacity w" "store_ok w"
  using assms by (auto simp: worker_ok_def conn_ok_def store_ok_def store_shape_def)

lemma worker_ok_transfer:
  assumes "worker_ok w" "conn_ok w'" "capacity w' = capacity w" "tsc_hz w' = tsc_hz w"
    "ports w' = ports w" "tx_buf w' = tx_buf w" "mbufs_held w' = mbufs_held w"
    "\<And>j. j < capacity w \<Longrightarrow> tcb_ok (tcb_at w' j)"
  shows "worker_ok w'"
  using assms by (auto simp: worker_ok_def)

lemma worker_ok_fields [simp]:
  "worker_ok (w\<lparr>metrics := a2\<rparr>) = worker_ok w" "worker_ok (w\<lparr>latency := a3\<rparr>) = worker_ok w"
  "worker_ok (w\<lparr>tx_port_id := a5\<rparr>) = worker_ok w" "worker_ok (w\<lparr>tx_queue := a6\<rparr>) = worker_ok w"
  "worker_ok (w\<lparr>ip_id := a7\<rparr>) = worker_ok w" "worker_ok (w\<lparr>srv := a8\<rparr>) = worker_ok w"
  "worker_ok (w\<lparr>sessions := a9\<rparr>) = worker_ok w" "worker_ok (w\<lparr>wire := b1\<rparr>) = worker_ok w"
  "worker_ok (w\<lparr>ext_pos := b3\<rparr>) = worker_ok w" "worker_ok (w\<lparr>tsc_pos := b4\<rparr>) = worker_ok w"
  "worker_ok (w\<lparr>seg_log := b5\<rparr>) = worker_ok w"
  by (simp_all add: worker_ok_def)

text \<open>Updates of one block that keep its tuple, liveness and wheel links.\<close>

definition link_neutral :: "(tcb \<Rightarrow> tcb) \<Rightarrow> bool" where
  "link_neutral f \<longleftrightarrow> (\<forall>t. in_use (f t) = in_use t \<and> key_of (f t) = key_of t \<and> tw_next (f t) = tw_next t \<and>
     tw_prev (f t) = tw_prev t \<and> tw_slot (f t) = tw_slot t)"

lemma worker_ok_upd_tcb:
  assumes "worker_ok w" "link_neutral f" "i < capacity w" "tcb_ok (f (tcb_at w i))"
  shows "worker_ok (upd_tcb i f w)"
proof (rule worker_ok_transfer [OF assms(1)])
  show "conn_ok (upd_tcb i f w)"
    by (rule conn_ok_upd_tcb [OF worker_okD(1) [OF assms(1)]]) (use assms(2) in \<open>simp add: link_neutral_def\<close>)
  show "tcb_ok (tcb_at (upd_tcb i f w) j)" if "j < capacity w" for j
    using that assms worker_okD(2,7) [OF assms(1)] by (cases "j = i") simp_all
qed simp_all

lemma tcb_ok_core: "tcb_core t = tcb_core t' \<Longrightarrow> tcb_ok t = tcb_ok t'"
proof -
  have "tcb_ok (tcb_core t) = tcb_ok t" for t by (simp add: tcb_ok_def tcb_core_def cc_ok_def)
  then show "tcb_core t = tcb_core t' \<Longrightarrow> tcb_ok t = tcb_ok t'" by metis
qed

lemma worker_ok_wheel_frame:
  assumes "worker_ok w" "wheel_frame w w'" "conn_ok w'"
  shows "worker_ok w'"
proof -
  have m: "conn.more w' = conn.more w" using assms(2) by (simp add: wheel_frame_def)
  show ?thesis
  proof (rule worker_ok_transfer [OF assms(1,3)])
    show "tcb_ok (tcb_at w' j)" if "j < capacity w" for j
      using that wheel_frame_core [OF assms(2), of j] worker_okD(2,7) [OF assms(1)] tcb_ok_core by metis
  qed (use assms(2) in \<open>simp_all add: wheel_frame_def worker_more_eq [OF m]\<close>)
qed

lemma worker_ok_resched:
  assumes "worker_ok w" "i < capacity w" "in_use (tcb_at w i)"
  shows "worker_ok (tcp_timer_resched i w)"
  by (rule worker_ok_wheel_frame [OF assms(1) resched_frame conn_ok_resched [OF worker_okD(1) [OF assms(1)] assms(2,3)]])

subsection \<open>Frames of sending\<close>

text \<open>
  A block without the fields that sending changes, and a block without the fields that the
  transmission of one segment changes.
\<close>

definition tcb_app :: "tcb \<Rightarrow> tcb" where
  "tcb_app t = t\<lparr>snd_nxt := 0, snd_buf := None, rto_deadline_tsc := 0, dst_mac := [], dst_mac_valid := False,
     pending_ack := False, tw_next := 0, tw_prev := 0, tw_slot := 0\<rparr>"

definition tcb_seg :: "tcb \<Rightarrow> tcb" where
  "tcb_seg t = t\<lparr>dst_mac := [], dst_mac_valid := False, pending_ack := False\<rparr>"

lemma tcb_appD:
  assumes "tcb_app t' = tcb_app t"
  shows "src_ip t' = src_ip t" "dst_ip t' = dst_ip t" "src_port t' = src_port t" "dst_port t' = dst_port t"
    "ip_version t' = ip_version t" "snd_una t' = snd_una t" "snd_wnd t' = snd_wnd t" "rcv_nxt t' = rcv_nxt t"
    "rcv_wnd t' = rcv_wnd t" "cwnd t' = cwnd t" "ssthresh t' = ssthresh t" "in_fast_recovery t' = in_fast_recovery t"
    "mss_remote t' = mss_remote t" "ts_enabled t' = ts_enabled t" "state t' = state t" "app_state t' = app_state t"
    "app_ctx t' = app_ctx t" "graceful_close t' = graceful_close t" "in_use t' = in_use t" "key_of t' = key_of t"
    "retransmit_count t' = retransmit_count t" "rto_us t' = rto_us t" "port_id t' = port_id t"
    "cc_algo t' = cc_algo t" "wscale_remote t' = wscale_remote t" "in_dack_list t' = in_dack_list t"
    "dack_next t' = dack_next t" "http_content_length t' = http_content_length t"
    "http_body_rx t' = http_body_rx t" "srv_stream_total t' = srv_stream_total t"
    "srv_stream_sent t' = srv_stream_sent t" "active_open t' = active_open t"
    "timewait_deadline_tsc t' = timewait_deadline_tsc t" "http_req_sent_tsc t' = http_req_sent_tsc t"
    "think_deadline_tsc t' = think_deadline_tsc t"
  using assms by (cases t; cases t'; simp add: tcb_app_def key_of_def)+

lemma tcb_segD:
  assumes "tcb_seg t' = tcb_seg t"
  shows "tcb_app t' = tcb_app t" "snd_nxt t' = snd_nxt t" "snd_buf t' = snd_buf t"
    "rto_deadline_tsc t' = rto_deadline_tsc t" "tw_next t' = tw_next t" "tw_prev t' = tw_prev t"
    "tw_slot t' = tw_slot t"
  using assms by (cases t; cases t'; simp add: tcb_app_def tcb_seg_def)+

definition sends :: "nat \<Rightarrow> worker \<Rightarrow> worker \<Rightarrow> bool" where
  "sends i w w' \<longleftrightarrow> capacity w' = capacity w \<and> tcb_app (tcb_at w' i) = tcb_app (tcb_at w i) \<and>
     (\<forall>j<capacity w. j \<noteq> i \<longrightarrow> tcb_core (tcb_at w' j) = tcb_core (tcb_at w j)) \<and>
     ports w' = ports w \<and> srv w' = srv w \<and> sessions w' = sessions w \<and> w_idx w' = w_idx w \<and>
     latency w' = latency w \<and> saved_src6 w' = saved_src6 w \<and> saved_dst6 w' = saved_dst6 w \<and>
     tsc_hz w' = tsc_hz w \<and> tsc_reads w' = tsc_reads w \<and> tw_current w' = tw_current w \<and>
     tw_last_tick_tsc w' = tw_last_tick_tsc w \<and> tw_tsc_per_slot w' = tw_tsc_per_slot w \<and>
     tw_dack_head w' = tw_dack_head w"

lemma sends_refl [simp]: "sends i w w"
  by (simp add: sends_def)

lemma sends_trans: "sends i a b \<Longrightarrow> sends i b c \<Longrightarrow> sends i a c"
  by (auto simp: sends_def)

lemma sendsD:
  assumes "sends i w w'"
  shows "capacity w' = capacity w" "tcb_app (tcb_at w' i) = tcb_app (tcb_at w i)"
    "j < capacity w \<Longrightarrow> j \<noteq> i \<Longrightarrow> tcb_core (tcb_at w' j) = tcb_core (tcb_at w j)"
    "ports w' = ports w" "srv w' = srv w" "sessions w' = sessions w" "w_idx w' = w_idx w"
    "latency w' = latency w" "tsc_hz w' = tsc_hz w" "saved_src6 w' = saved_src6 w" "saved_dst6 w' = saved_dst6 w"
  using assms by (simp_all add: sends_def)

lemmas sends_tcbD = tcb_appD [OF sendsD(2)]

lemma sends_metrics [simp]: "sends i w (upd_metrics f w') = sends i w w'"
  by (simp add: sends_def upd_metrics_def)

lemma worker_ok_metrics [simp]: "worker_ok (upd_metrics f w) = worker_ok w"
  by (simp add: upd_metrics_def)

lemma upd_metrics_simps [simp]:
  "tcb_at (upd_metrics f w) i = tcb_at w i" "capacity (upd_metrics f w) = capacity w"
  "tcbs (upd_metrics f w) = tcbs w" "ports (upd_metrics f w) = ports w" "sessions (upd_metrics f w) = sessions w"
  "srv (upd_metrics f w) = srv w" "w_idx (upd_metrics f w) = w_idx w" "conn_ok (upd_metrics f w) = conn_ok w"
  "seg_log (upd_metrics f w) = seg_log w"
  by (simp_all add: upd_metrics_def)

lemma sends_upd_tcb:
  assumes "\<And>t. tcb_app (f t) = tcb_app t"
  shows "sends i w (upd_tcb i f w)"
proof -
  have "tcb_app (tcb_at (upd_tcb i f w) i) = tcb_app (tcb_at w i)"
    by (cases "i < length (tcbs w)") (auto simp: assms upd_tcb_def tcb_at_def list_update_beyond)
  then show ?thesis by (simp add: sends_def)
qed

lemma sends_wheel_frame:
  assumes "wheel_frame w w'" "length (tcbs w) = capacity w" "i < capacity w"
  shows "sends i w w'"
proof -
  have m: "conn.more w' = conn.more w" using assms(1) by (simp add: wheel_frame_def)
  have app: "tcb_app t' = tcb_app t" if "tcb_core t' = tcb_core t" for t t'
    using that by (cases t; cases t'; simp add: tcb_app_def tcb_core_def)
  have "tcb_app (tcb_at w' i) = tcb_app (tcb_at w i)"
    using wheel_frame_core [OF assms(1)] assms(2,3) by (intro app) simp
  moreover have "\<forall>j<capacity w. j \<noteq> i \<longrightarrow> tcb_core (tcb_at w' j) = tcb_core (tcb_at w j)"
    using wheel_frame_core [OF assms(1)] assms(2) by simp
  ultimately show ?thesis
    unfolding sends_def worker_more_eq [OF m] using assms(1) by (simp add: wheel_frame_def)
qed

subsection \<open>One segment\<close>

lemma emit_length: "length (fst (emit n cs)) + snd (emit n cs) = n"
  by (induction n cs rule: emit.induct) (auto simp: Let_def case_prod_beta)

lemma pad_nop_length: "length (pad_nop out n) \<le> length out + n"
proof (induction out n rule: pad_nop.induct)
  case (2 out n)
  then show ?case by (cases "length out mod 4 \<noteq> 0") auto
qed simp

lemma emit_pad_length: "emit n cs = (out, r) \<Longrightarrow> length (pad_nop out r) \<le> n"
  using emit_length [of n cs] pad_nop_length [of out r] by simp

lemma segment_options_length: "length (segment_options flags ts t) \<le> 40"
  by (auto simp: segment_options_def tcp_options_write_syn_def tcp_options_write_data_def case_prod_beta Let_def
      intro!: emit_pad_length simp del: emit.simps pad_nop.simps)

text \<open>Steps that change only the batch, the counters and the record of transmitted frames.\<close>

definition tx_same :: "worker \<Rightarrow> worker \<Rightarrow> bool" where
  "tx_same w w' \<longleftrightarrow> conn.truncate w' = conn.truncate w \<and> ports w' = ports w \<and> srv w' = srv w \<and>
     sessions w' = sessions w \<and> w_idx w' = w_idx w \<and> latency w' = latency w \<and>
     saved_src6 w' = saved_src6 w \<and> saved_dst6 w' = saved_dst6 w \<and> seg_log w' = seg_log w"

definition held_ok :: "int \<Rightarrow> worker \<Rightarrow> bool" where
  "held_ok d w \<longleftrightarrow> mbufs_held w = int (length (tx_buf w)) + d \<and> length (tx_buf w) \<le> TCP_TX_BATCH_MAX"

lemma tx_sameD:
  assumes "tx_same w w'"
  shows "tcbs w' = tcbs w" "capacity w' = capacity w" "tcb_at w' i = tcb_at w i" "conn_ok w' = conn_ok w"
    "tsc_hz w' = tsc_hz w" "sends i w w'" "ports w' = ports w" "seg_log w' = seg_log w"
proof -
  have e: "conn.truncate w' = conn.truncate w" using assms by (simp add: tx_same_def)
  then have f: "tcbs w' = tcbs w" "capacity w' = capacity w" "count w' = count w"
    "ht w' = ht w" "ht_size w' = ht_size w" "ht_mask w' = ht_mask w"
    "free_stack w' = free_stack w" "free_top w' = free_top w"
    "tw_slots w' = tw_slots w" "tw_overflow w' = tw_overflow w" "tsc_hz w' = tsc_hz w"
    "tsc_reads w' = tsc_reads w" "tw_current w' = tw_current w" "tw_last_tick_tsc w' = tw_last_tick_tsc w"
    "tw_tsc_per_slot w' = tw_tsc_per_slot w" "tw_dack_head w' = tw_dack_head w"
    by (simp_all add: conn.truncate_def)
  show "tcbs w' = tcbs w" "capacity w' = capacity w" "tsc_hz w' = tsc_hz w" "ports w' = ports w"
    "seg_log w' = seg_log w"
    using assms f by (simp_all add: tx_same_def)
  show "tcb_at w' i = tcb_at w i" by (simp add: tcb_at_def f)
  show "conn_ok w' = conn_ok w" by (rule conn_ok_cong) (simp_all add: f)
  show "sends i w w'" using assms f by (simp add: sends_def tx_same_def tcb_at_def)
qed

lemma tcp_tx_flush_spec:
  "held_ok d w \<Longrightarrow> tx_same w (tcp_tx_flush e w) \<and> held_ok d (tcp_tx_flush e w) \<and> tx_buf (tcp_tx_flush e w) = []"
  by (auto simp: tcp_tx_flush_def eth_tx_burst_def Let_def next_ext_def conn.truncate_def of_nat_diff tx_same_def
      held_ok_def)

lemma tx_same_trans: "tx_same a b \<Longrightarrow> tx_same b c \<Longrightarrow> tx_same a c"
  by (simp add: tx_same_def)

lemma tcp_tx_enqueue_spec:
  assumes "held_ok 1 w"
  shows "tx_same w (tcp_tx_enqueue e pid q m w) \<and> held_ok 0 (tcp_tx_enqueue e pid q m w)"
proof -
  define w1 where "w1 = (if tx_buf w \<noteq> [] \<and> (tx_port_id w \<noteq> pid \<or> tx_queue w \<noteq> q \<or>
    length (tx_buf w) \<ge> TCP_TX_BATCH_MAX) then tcp_tx_flush e w else w)"
  have "tx_same w w1 \<and> held_ok 1 w1" "length (tx_buf w1) < TCP_TX_BATCH_MAX"
    using assms tcp_tx_flush_spec [OF assms, of e]
    by (auto simp: w1_def tx_same_def held_ok_def TCP_TX_BATCH_MAX_def)
  moreover have "tcp_tx_enqueue e pid q m w = w1\<lparr>tx_port_id := pid, tx_queue := q, tx_buf := tx_buf w1 @ [m]\<rparr>"
    unfolding tcp_tx_enqueue_def Let_def w1_def by (rule refl)
  ultimately show ?thesis by (simp add: tx_same_def held_ok_def conn.truncate_def)
qed

lemma transmit_frame_spec:
  assumes "env_ok e" "held_ok 1 w"
  shows "yields (transmit_frame e f w) (\<lambda>(sent, w'). tx_same w w' \<and> held_ok 0 w')"
proof (cases "is_worker_lcore e")
  case True
  then show ?thesis using assms tcp_tx_enqueue_spec [OF assms(2)]
    by (simp add: transmit_frame_def Let_def env_ok_def)
next
  case False
  then show ?thesis using assms
    by (auto simp: transmit_frame_def Let_def eth_tx_burst_def mbuf_free_def next_ext_def tx_same_def
        held_ok_def conn.truncate_def)
qed

text \<open>The invariant while \<open>d\<close> packet buffers are in the operation's hands.\<close>

definition worker_inv :: "int \<Rightarrow> worker \<Rightarrow> bool" where
  "worker_inv d w \<longleftrightarrow> conn_ok w \<and> (\<forall>i<capacity w. tcb_ok (tcb_at w i)) \<and> pool_ok (ports w) \<and>
     tsc_hz w \<noteq> 0 \<and> held_ok d w"

lemma worker_ok_inv: "worker_ok w \<longleftrightarrow> worker_inv 0 w"
  by (auto simp: worker_ok_def worker_inv_def held_ok_def)

lemma worker_inv_ok: "worker_inv d w \<longleftrightarrow> worker_ok (w\<lparr>mbufs_held := mbufs_held w - d\<rparr>) "
  by (auto simp: worker_ok_def worker_inv_def held_ok_def)

lemma worker_inv_tx_same: "worker_inv d w \<Longrightarrow> tx_same w w' \<Longrightarrow> held_ok d' w' \<Longrightarrow> worker_inv d' w'"
  unfolding worker_inv_def using tx_sameD [of w w'] by simp

lemma link_neutral_seg:
  assumes "\<And>t. tcb_seg (f t) = tcb_seg t"
  shows "link_neutral f"
  unfolding link_neutral_def
proof
  fix t
  note d = tcb_segD [OF assms [of t]]
  show "in_use (f t) = in_use t \<and> key_of (f t) = key_of t \<and> tw_next (f t) = tw_next t \<and>
     tw_prev (f t) = tw_prev t \<and> tw_slot (f t) = tw_slot t"
    by (simp add: d tcb_appD [OF d(1)])
qed

lemma tcb_ok_seg:
  assumes "tcb_seg t' = tcb_seg t"
  shows "tcb_ok t' = tcb_ok t"
  using tcb_segD [OF assms] tcb_appD [OF tcb_segD(1) [OF assms]] by (simp add: tcb_ok_def cc_ok_def)

text \<open>What the transmission of a segment of connection \<open>i\<close> does.\<close>

definition seg_sent :: "nat \<Rightarrow> worker \<Rightarrow> worker \<Rightarrow> bool" where
  "seg_sent i w w' \<longleftrightarrow> sends i w w' \<and> tcb_seg (tcb_at w' i) = tcb_seg (tcb_at w i) \<and> tcbs w' = (tcbs w)[i := tcb_at w' i]"

lemma upd_tcb_held: "(upd_tcb i f w)\<lparr>mbufs_held := n\<rparr> = upd_tcb i f (w\<lparr>mbufs_held := n\<rparr>)"
  by (simp add: upd_tcb_def)

lemma worker_inv_seg_upd:
  assumes "worker_inv d w" "\<And>t. tcb_seg (f t) = tcb_seg t" "i < capacity w"
  shows "worker_inv d (upd_tcb i f w)"
proof -
  let ?w = "w\<lparr>mbufs_held := mbufs_held w - d\<rparr>"
  have ok: "worker_ok ?w" using assms(1) by (simp add: worker_inv_ok)
  have "worker_ok (upd_tcb i f ?w)"
  proof (rule worker_ok_upd_tcb [OF ok link_neutral_seg])
    show "tcb_ok (f (tcb_at ?w i))"
      using tcb_ok_seg [OF assms(2) [of "tcb_at w i"]] worker_okD(2) [OF ok, of i] assms(3) by simp
  qed (use assms in simp_all)
  then show ?thesis by (simp add: worker_inv_ok upd_tcb_held)
qed

lemma cache_dst_mac_seg: "tcb_seg (cache_dst_mac e t) = tcb_seg t"
  by (auto simp: cache_dst_mac_def tcb_seg_def split: option.splits)

lemma segment_total_fits:
  assumes "n \<le> MAX_MSS"
  shows "eth_hdr_sz t + ip_hdr_sz t + (20 + length (segment_options flags ts t) + n) < 65536"
  using assms segment_options_length [of flags ts t]
  by (auto simp: eth_hdr_sz_def ip_hdr_sz_def MAX_MSS_def)

lemma seg_sent_refl [simp]: "seg_sent i w w"
  by (simp add: seg_sent_def tcb_at_def)

lemma seg_sent_upd:
  assumes "\<And>t. tcb_seg (f t) = tcb_seg t"
  shows "seg_sent i w (upd_tcb i f w)"
proof -
  have "sends i w (upd_tcb i f w)"
    by (rule sends_upd_tcb) (rule tcb_segD(1) [OF assms])
  moreover have "tcb_seg (tcb_at (upd_tcb i f w) i) = tcb_seg (tcb_at w i)"
    by (cases "i < length (tcbs w)") (auto simp: assms upd_tcb_def tcb_at_def list_update_beyond)
  ultimately show ?thesis
    by (cases "i < length (tcbs w)") (auto simp: seg_sent_def upd_tcb_def tcb_at_def list_update_beyond)
qed

lemma seg_sent_tx_same: "tx_same w w' \<Longrightarrow> seg_sent i w w'"
  using tx_sameD [of w w'] by (simp add: seg_sent_def) (simp add: tcb_at_def)

lemma seg_sent_trans:
  assumes "seg_sent i a b" "seg_sent i b c"
  shows "seg_sent i a c"
proof -
  have "tcbs c = (tcbs a)[i := tcb_at c i]" using assms by (metis seg_sent_def list_update_overwrite)
  then show ?thesis using assms sends_trans [of i a b c] by (simp add: seg_sent_def)
qed

lemma seg_sent_metrics [simp]: "seg_sent i w (upd_metrics f w') = seg_sent i w w'"
  by (simp add: seg_sent_def)

text \<open>The segment that a successful call reports.\<close>

definition segment_of :: "u8 \<Rightarrow> bytes \<Rightarrow> u32 \<Rightarrow> u32 \<Rightarrow> tcb \<Rightarrow> frame \<Rightarrow> bool" where
  "segment_of flags pl sq ak t f \<longleftrightarrow> f_payload f = pl \<and> th_seq (f_tcp f) = sq \<and> th_ack (f_tcp f) = ak \<and>
     th_flags (f_tcp f) = flags \<and> th_src_port (f_tcp f) = src_port t \<and> th_dst_port (f_tcp f) = dst_port t \<and>
     f_port f = port_id t"

lemma build_frame_segment_of: "segment_of flags pl sq ak t (build_frame e flags opts pl sq ak ipid t)"
  by (simp add: build_frame_def Let_def segment_l3_def segment_tcp_def tcp_checksum_set_def set_tcp_cksum_def
      tcp_checksum_set_v6_def segment_of_def)

definition seg_post :: "nat \<Rightarrow> u8 \<Rightarrow> bytes \<Rightarrow> u32 \<Rightarrow> u32 \<Rightarrow> worker \<Rightarrow> int \<times> worker \<Rightarrow> bool" where
  "seg_post i flags pl sq ak w = (\<lambda>(rc, w'). worker_ok w' \<and> seg_sent i w w' \<and>
     (rc = 0 \<and> (\<exists>f. seg_log w' = seg_log w @ [f] \<and> segment_of flags pl sq ak (tcb_at w i) f) \<or>
      rc = -1 \<and> seg_log w' = seg_log w))"

text \<open>The main fact about \<open>tcp_send_segment\<close>: it returns, and keeps the invariant.\<close>

lemma send_segment_ok:
  assumes ok: "worker_ok w" "env_ok e" "i < capacity w"
    and pl: "unat plen \<le> length payload" "unat plen \<le> MAX_MSS"
  shows "yields (tcp_send_segment e i flags payload plen sq ak w)
    (seg_post i flags (take (unat plen) payload) sq ak w)"
proof (cases "e_mbuf_alloc e (ext_pos w)")
  case False
  then show ?thesis using ok
    by (simp add: seg_post_def tcp_send_segment_def mbuf_alloc_def Let_def seg_sent_tx_same tx_same_def next_ext_def conn.truncate_def)
next
  case True
  define w0 where "w0 = (next_ext w)\<lparr>mbufs_held := mbufs_held w + 1\<rparr>"
  define w1 where "w1 = snd (rdtsc w0)"
  define opts where "opts = segment_options flags (ucast (fst (rdtsc w0) div (e_g_tsc_hz e div 1000000))) (tcb_at w1 i)"
  define seg_len where "seg_len = 20 + length opts + unat plen"
  define f where "f = build_frame e flags opts (take (unat plen) payload) sq ak (ip_id w1) (tcb_at w1 i)"
  define w2 where "w2 = (if is_v6 (tcb_at w1 i) then w1 else w1\<lparr>ip_id := ip_id w1 + 1\<rparr>)"
  define w3 where "w3 = upd_tcb i (cache_dst_mac e) w2"
  define log where "log = (\<lambda>w. (upd_metrics (worker_metrics_add_tx 1 (word_of_nat seg_len)) w)\<lparr>seg_log := seg_log w @ [f]\<rparr>)"
  define fin where "fin = (\<lambda>w. if has_flag flags ACK_FLAG \<and> \<not> has_flag flags SYN_FLAG
     then upd_tcb i (\<lambda>t. t\<lparr>pending_ack := False\<rparr>) (log w) else log w)"
  have fits: "eth_hdr_sz (tcb_at w1 i) + ip_hdr_sz (tcb_at w1 i) + seg_len < 65536"
    unfolding seg_len_def opts_def by (rule segment_total_fits [OF pl(2)])
  have hz: "e_g_tsc_hz e div 1000000 \<noteq> 0" using ok(2) by (simp add: env_ok_def)
  have eq: "tcp_send_segment e i flags payload plen sq ak w =
    (if eth_hdr_sz (tcb_at w1 i) + ip_hdr_sz (tcb_at w1 i) + seg_len > e_mbuf_tailroom e then Some (-1, mbuf_free w1)
     else transmit_frame e f w3 \<bind> (\<lambda>(sent, w). if \<not> sent then Some (-1, w)
       else Some (0, fin w)))"
    using True hz pl(1) fits
    unfolding w3_def w2_def fin_def log_def f_def seg_len_def opts_def w1_def w0_def tcp_send_segment_def mbuf_alloc_def
      Let_def case_prod_beta
    by (simp add: min_absorb2 cong: if_cong)
  have "seg_sent i w w1" "conn_ok w1 = conn_ok w" "tcb_at w1 = tcb_at w" "ports w1 = ports w"
    "tsc_hz w1 = tsc_hz w" "capacity w1 = capacity w" "seg_log w1 = seg_log w"
    by (auto simp: w1_def w0_def rdtsc_def next_ext_def seg_sent_def sends_def tcb_at_def fun_eq_iff)
  moreover have "held_ok 1 w1" using ok(1)
    by (simp add: w1_def w0_def rdtsc_def next_ext_def worker_ok_inv worker_inv_def held_ok_def)
  ultimately have s1: "worker_inv 1 w1" "seg_sent i w w1" "capacity w1 = capacity w" "seg_log w1 = seg_log w"
      "tcb_at w1 i = tcb_at w i"
    using ok(1) by (simp_all add: worker_ok_inv worker_inv_def)
  have c2: "tx_same w1 w2" by (simp add: w2_def tx_same_def conn.truncate_def)
  have "held_ok 1 w2" using s1(1) by (simp add: w2_def worker_inv_def held_ok_def)
  then have s2: "worker_inv 1 w2" "seg_sent i w w2" "capacity w2 = capacity w" "seg_log w2 = seg_log w"
    using s1 c2 worker_inv_tx_same seg_sent_trans [OF s1(2) seg_sent_tx_same] tx_sameD [OF c2] by auto
  have s3: "worker_inv 1 w3" "seg_sent i w w3" "capacity w3 = capacity w" "seg_log w3 = seg_log w"
    unfolding w3_def using s2 ok(3) seg_sent_trans [OF s2(2) seg_sent_upd] worker_inv_seg_upd
    by (auto simp: cache_dst_mac_seg)
  have fin: "worker_ok (fin v) \<and> seg_sent i w (fin v) \<and> seg_log (fin v) = seg_log v @ [f]"
    if "worker_inv 0 v" "seg_sent i w v" "capacity v = capacity w" for v
  proof -
    have seg: "tcb_seg (t\<lparr>pending_ack := False\<rparr>) = tcb_seg t" for t by (simp add: tcb_seg_def)
    have log: "worker_inv 0 (log v)" "seg_sent i w (log v)" "capacity (log v) = capacity w"
        "seg_log (log v) = seg_log v @ [f]"
      using that by (simp_all add: log_def upd_metrics_def seg_sent_def sends_def flip: worker_ok_inv)
    show ?thesis
      unfolding fin_def worker_ok_inv
      using log ok(3) worker_inv_seg_upd [OF log(1), where f = "\<lambda>t. t\<lparr>pending_ack := False\<rparr>", OF seg, of i]
        seg_sent_trans [OF log(2) seg_sent_upd [where f = "\<lambda>t. t\<lparr>pending_ack := False\<rparr>", OF seg]]
      by simp
  qed
  have free: "worker_ok (mbuf_free w1)" "seg_sent i w (mbuf_free w1)" "seg_log (mbuf_free w1) = seg_log w"
    using s1 by (simp_all add: worker_ok_inv worker_inv_def mbuf_free_def held_ok_def seg_sent_def sends_def)
  have "yields (transmit_frame e f w3 \<bind> (\<lambda>(sent, w). if \<not> sent then Some (-1 :: int, w) else Some (0, fin w)))
     (seg_post i flags (take (unat plen) payload) sq ak w)"
  proof (rule yields_bindI [OF transmit_frame_spec [OF ok(2)]])
    show "held_ok 1 w3" using s3 by (simp add: worker_inv_def)
    fix x :: "bool \<times> worker" assume "case x of (sent, w') \<Rightarrow> tx_same w3 w' \<and> held_ok 0 w'"
    then obtain sent v where x: "x = (sent, v)" "tx_same w3 v" "held_ok 0 v" by (cases x) auto
    have v: "worker_inv 0 v" "seg_sent i w v" "capacity v = capacity w" "seg_log v = seg_log w"
      using worker_inv_tx_same [OF s3(1) x(2,3)] seg_sent_trans [OF s3(2) seg_sent_tx_same [OF x(2)]]
        tx_sameD [OF x(2)] s3(3,4) by auto
    have "segment_of flags (take (unat plen) payload) sq ak (tcb_at w i) f"
      unfolding f_def s1(5) by (rule build_frame_segment_of)
    then show "yields (case x of (sent, w) \<Rightarrow> if \<not> sent then Some (-1 :: int, w) else Some (0, fin w))
      (seg_post i flags (take (unat plen) payload) sq ak w)"
      using v fin [OF v(1-3)] by (simp add: x(1) worker_ok_inv seg_post_def)
  qed
  then show ?thesis unfolding eq using free by (simp add: seg_post_def)
qed

text \<open>A device and an allocator that never refuse a segment with up to \<open>n\<close> bytes of data.\<close>

definition tx_reliable :: "env \<Rightarrow> nat \<Rightarrow> bool" where
  "tx_reliable e n \<longleftrightarrow> (\<forall>k. e_mbuf_alloc e k) \<and> is_worker_lcore e \<and> 118 + n \<le> e_mbuf_tailroom e"

lemma transmit_worker_sent:
  "is_worker_lcore e \<Longrightarrow> transmit_frame e f w = Some (sent, w') \<Longrightarrow> sent"
  by (auto simp: transmit_frame_def Let_def split: if_splits)

lemma send_segment_reliable:
  assumes "tx_reliable e n" "unat plen \<le> n" "tcp_send_segment e i flags payload plen sq ak w = Some (rc, w')"
  shows "rc = 0"
proof -
  have le: "(eth_hdr_sz t + ip_hdr_sz t + (20 + length (segment_options flags ts t) + length (take (unat plen) payload)))
      mod 65536 \<le> e_mbuf_tailroom e" for t ts
    using assms(1,2) segment_options_length [of flags ts t] mod_less_eq_dividend
      [of "eth_hdr_sz t + ip_hdr_sz t + (20 + length (segment_options flags ts t) + length (take (unat plen) payload))" 65536]
    by (auto simp: tx_reliable_def eth_hdr_sz_def ip_hdr_sz_def split: if_splits)
  have "is_worker_lcore e" "\<And>k. e_mbuf_alloc e k" using assms(1) by (auto simp: tx_reliable_def)
  then show ?thesis
    using assms(3) le transmit_worker_sent
    by (auto simp: tcp_send_segment_def mbuf_alloc_def case_prod_beta Let_def not_less [symmetric]
        bind_eq_Some_conv split: if_splits)
qed

subsection \<open>Arming the timer\<close>

lemma worker_ok_rdtsc [simp]: "worker_ok (snd (rdtsc w)) = worker_ok w"
  by (simp add: rdtsc_def)

lemma rdtsc_simps [simp]:
  "tcb_at (snd (rdtsc w)) i = tcb_at w i" "capacity (snd (rdtsc w)) = capacity w" "tcbs (snd (rdtsc w)) = tcbs w"
  "seg_log (snd (rdtsc w)) = seg_log w" "ports (snd (rdtsc w)) = ports w" "sessions (snd (rdtsc w)) = sessions w"
  "srv (snd (rdtsc w)) = srv w" "w_idx (snd (rdtsc w)) = w_idx w" "metrics (snd (rdtsc w)) = metrics w"
  "latency (snd (rdtsc w)) = latency w"
  by (simp_all add: rdtsc_def tcb_at_def)

lemma sends_rdtsc [simp]: "sends i w (snd (rdtsc w))"
  by (simp add: sends_def rdtsc_def tcb_at_def)

text \<open>Everything but the wheel is as before a call of the timer.\<close>

lemma resched_effect:
  assumes "worker_ok w" "i < capacity w" "in_use (tcb_at w i)"
  shows "worker_ok (tcp_timer_resched i w)" "sends i w (tcp_timer_resched i w)"
    "tcb_core (tcb_at (tcp_timer_resched i w) i) = tcb_core (tcb_at w i)"
    "seg_log (tcp_timer_resched i w) = seg_log w" "metrics (tcp_timer_resched i w) = metrics w"
proof -
  have m: "conn.more (tcp_timer_resched i w) = conn.more w" using resched_frame [of w i] by (simp add: wheel_frame_def)
  show "worker_ok (tcp_timer_resched i w)" by (rule worker_ok_resched [OF assms])
  show "sends i w (tcp_timer_resched i w)"
    by (rule sends_wheel_frame [OF resched_frame worker_okD(7) [OF assms(1)] assms(2)])
  show "tcb_core (tcb_at (tcp_timer_resched i w) i) = tcb_core (tcb_at w i)"
    using wheel_frame_core [OF resched_frame, of i w] worker_okD(7) [OF assms(1)] assms(2) by simp
  show "seg_log (tcp_timer_resched i w) = seg_log w" "metrics (tcp_timer_resched i w) = metrics w"
    by (rule worker_more_eq [OF m])+
qed

lemma tcb_coreD:
  assumes "tcb_core t' = tcb_core t"
  shows "snd_nxt t' = snd_nxt t" "snd_buf t' = snd_buf t" "rto_deadline_tsc t' = rto_deadline_tsc t"
    "tcb_app t' = tcb_app t"
  using assms by (cases t; cases t'; simp add: tcb_core_def tcb_app_def)+

lemma arm_rto_effect:
  assumes "worker_ok w" "i < capacity w" "in_use (tcb_at w i)"
  shows "worker_ok (arm_rto e i w)" "sends i w (arm_rto e i w)"
    "snd_nxt (tcb_at (arm_rto e i w) i) = snd_nxt (tcb_at w i)"
    "snd_buf (tcb_at (arm_rto e i w) i) = snd_buf (tcb_at w i)"
    "rto_deadline_tsc (tcb_at (arm_rto e i w) i) =
       fst (rdtsc w) + ucast (rto_us (tcb_at w i)) * e_g_tsc_hz e div 1000000"
    "seg_log (arm_rto e i w) = seg_log w" "metrics (arm_rto e i w) = metrics w"
proof -
  define f where "f = (\<lambda>t :: tcb. t\<lparr>rto_deadline_tsc := fst (rdtsc w) + ucast (rto_us t) * e_g_tsc_hz e div 1000000\<rparr>)"
  define v where "v = upd_tcb i f (snd (rdtsc w))"
  have eq: "arm_rto e i w = tcp_timer_resched i v"
    by (simp add: arm_rto_def v_def f_def case_prod_beta Let_def)
  have len: "i < length (tcbs w)" using worker_okD(7) [OF assms(1)] assms(2) by simp
  have v: "worker_ok v" unfolding v_def
    by (rule worker_ok_upd_tcb)
      (use assms worker_okD(2) [OF assms(1,2)] in \<open>simp_all add: link_neutral_def f_def key_of_def tcb_ok_def cc_ok_def\<close>)
  have sv: "sends i w v" unfolding v_def
    by (rule sends_trans [OF sends_rdtsc sends_upd_tcb]) (simp add: f_def tcb_app_def)
  have at: "tcb_at v i = f (tcb_at w i)" using len by (simp add: v_def)
  have iu: "in_use (tcb_at v i)" using assms by (simp add: at f_def)
  have ic: "i < capacity v" using assms by (simp add: v_def)
  note r = resched_effect [OF v ic iu]
  note d = tcb_coreD [OF r(3)]
  show "worker_ok (arm_rto e i w)" "sends i w (arm_rto e i w)" unfolding eq using r(1,2) sv sends_trans by blast+
  show "snd_nxt (tcb_at (arm_rto e i w) i) = snd_nxt (tcb_at w i)"
    "snd_buf (tcb_at (arm_rto e i w) i) = snd_buf (tcb_at w i)"
    "rto_deadline_tsc (tcb_at (arm_rto e i w) i) =
       fst (rdtsc w) + ucast (rto_us (tcb_at w i)) * e_g_tsc_hz e div 1000000"
    unfolding eq d at by (simp_all add: f_def)
  show "seg_log (arm_rto e i w) = seg_log w" "metrics (arm_rto e i w) = metrics w"
    unfolding eq r(4,5) by (simp_all add: v_def)
qed

subsection \<open>The drain loop\<close>

lemma tcb_effective_mss_pos: "0 < tcb_effective_mss t"
  by (auto simp: tcb_effective_mss_def Let_def word_less_nat_alt unat_sub word_le_nat_alt)

lemma tcb_effective_mss_le: "mss_remote t \<noteq> 0 \<Longrightarrow> unat (tcb_effective_mss t) \<le> unat (mss_remote t)"
  by (auto simp: tcb_effective_mss_def Let_def word_less_nat_alt unat_sub word_le_nat_alt unat_mss unat_gt_0 Suc_le_eq
      simp flip: unat_gt_0)

lemma window_avail_step:
  assumes "k \<le> window_avail t"
  shows "window_avail (t\<lparr>snd_nxt := snd_nxt t + k\<rparr>) = window_avail t - k"
proof (cases "min (cwnd t) (snd_wnd t) > snd_nxt t - snd_una t")
  case True
  define fl where "fl = snd_nxt t - snd_una t"
  define wnd where "wnd = min (cwnd t) (snd_wnd t)"
  have lt: "fl < wnd" using True by (simp add: fl_def wnd_def)
  then have k: "k \<le> wnd - fl" using assms by (simp add: window_avail_def Let_def fl_def wnd_def)
  have un: "unat (wnd - fl) = unat wnd - unat fl" using lt by (intro word_nat_sub) simp
  then have le: "unat fl + unat k \<le> unat wnd" using k lt by (simp add: word_le_nat_alt word_less_nat_alt)
  then have flk: "unat (fl + k) = unat fl + unat k"
    using unat_lt_u32 [of wnd] by (intro word_nat_add_no_wrap) simp
  have flk': "snd_nxt t + k - snd_una t = fl + k" by (simp add: fl_def)
  have "window_avail (t\<lparr>snd_nxt := snd_nxt t + k\<rparr>) =
      (if min (cwnd t) (snd_wnd t) > snd_nxt t + k - snd_una t
       then min (cwnd t) (snd_wnd t) - (snd_nxt t + k - snd_una t) else 0)"
    by (simp add: window_avail_def Let_def)
  then have "window_avail (t\<lparr>snd_nxt := snd_nxt t + k\<rparr>) = (if wnd > fl + k then wnd - (fl + k) else 0)"
    unfolding flk' wnd_def .
  moreover have "window_avail t = wnd - fl"
    using lt by (simp add: window_avail_def Let_def fl_def wnd_def del: min_less_iff_conj)
  moreover have "(if wnd > fl + k then wnd - (fl + k) else 0) = wnd - fl - k"
  proof (cases "wnd > fl + k")
    case False
    then have "unat wnd = unat fl + unat k" using le flk by (simp add: word_less_nat_alt)
    then have "wnd = fl + k" using flk by (metis word_of_nat_unat)
    then show ?thesis by simp
  qed (simp add: algebra_simps)
  ultimately show ?thesis by simp
next
  case False
  then have "window_avail t = 0" by (simp add: window_avail_def Let_def del: min_less_iff_conj)
  moreover from this have "k = 0" using assms by simp
  ultimately show ?thesis by simp
qed

text \<open>Segments of a stream, one after the other, from sequence number \<open>sq\<close>.\<close>

fun stream_segments :: "u32 \<Rightarrow> u32 \<Rightarrow> frame list \<Rightarrow> bool" where
  "stream_segments mss sq [] = True"
| "stream_segments mss sq (f # fs) =
     (th_seq (f_tcp f) = sq \<and> f_payload f \<noteq> [] \<and> length (f_payload f) \<le> unat mss \<and>
      th_flags (f_tcp f) = ACK_FLAG OR PSH_FLAG \<and> stream_segments mss (sq + word_of_nat (length (f_payload f))) fs)"

text \<open>
  What a loop that sends the \<open>lim\<close> first bytes of \<open>data\<close> from position \<open>off\<close> on achieves:
  \<open>n\<close> bytes go out, within the window, as segments that carry them in order.
\<close>

definition sent_upto ::
  "env \<Rightarrow> nat \<Rightarrow> bytes \<Rightarrow> u32 \<Rightarrow> u32 \<Rightarrow> u32 \<Rightarrow> worker \<Rightarrow> u32 \<Rightarrow> worker \<Rightarrow> bool" where
  "sent_upto e i data lim mss off w n w' \<longleftrightarrow>
     worker_ok w' \<and> sends i w w' \<and> snd_buf (tcb_at w' i) = snd_buf (tcb_at w i) \<and>
     rto_deadline_tsc (tcb_at w' i) = rto_deadline_tsc (tcb_at w i) \<and>
     snd_nxt (tcb_at w' i) = snd_nxt (tcb_at w i) + n \<and>
     n \<le> window_avail (tcb_at w i) \<and> (off < lim \<longrightarrow> n \<le> lim - off) \<and> (\<not> off < lim \<longrightarrow> n = 0) \<and>
     (\<exists>fs. seg_log w' = seg_log w @ fs \<and> stream_segments mss (snd_nxt (tcb_at w i)) fs \<and>
        concat (map f_payload fs) = take (unat n) (drop (unat off) data)) \<and>
     (tx_reliable e (unat mss) \<and> off < lim \<longrightarrow> n = min (lim - off) (window_avail (tcb_at w i)))"

lemma sent_upto_0:
  assumes "worker_ok w'" "seg_sent i w w'" "seg_log w' = seg_log w" "\<not> (tx_reliable e (unat mss) \<and> off < lim) \<or>
    min (lim - off) (window_avail (tcb_at w i)) = 0"
  shows "sent_upto e i data lim mss off w 0 w'"
  using assms tcb_segD [of "tcb_at w' i" "tcb_at w i"] by (auto simp: sent_upto_def seg_sent_def)

lemma data_sent_effect:
  assumes "worker_ok w" "i < capacity w"
  shows "worker_ok (data_sent i n w)" "sends i w (data_sent i n w)" "capacity (data_sent i n w) = capacity w"
    "tcb_at (data_sent i n w) i = (tcb_at w i)\<lparr>snd_nxt := snd_nxt (tcb_at w i) + n\<rparr>"
    "seg_log (data_sent i n w) = seg_log w"
proof -
  have "worker_ok (upd_tcb i (\<lambda>t. t\<lparr>snd_nxt := snd_nxt t + n\<rparr>) w)"
    by (rule worker_ok_upd_tcb [OF assms(1) _ assms(2)])
      (use worker_okD(2) [OF assms] in \<open>simp_all add: link_neutral_def key_of_def tcb_ok_def cc_ok_def\<close>)
  then show "worker_ok (data_sent i n w)" by (simp add: data_sent_def add_payload_tx_def)
  show "sends i w (data_sent i n w)" "capacity (data_sent i n w) = capacity w"
    "seg_log (data_sent i n w) = seg_log w"
    by (simp_all add: data_sent_def add_payload_tx_def sends_upd_tcb tcb_app_def)
  show "tcb_at (data_sent i n w) i = (tcb_at w i)\<lparr>snd_nxt := snd_nxt (tcb_at w i) + n\<rparr>"
    using worker_okD(7) [OF assms(1)] assms(2) by (simp add: data_sent_def add_payload_tx_def)
qed

text \<open>One iteration, followed by whatever the rest of the loop achieves.\<close>

lemma sent_upto_step:
  assumes seg: "seg_sent i w w1" "worker_ok w1" "seg_log w1 = seg_log w @ [f]"
      "segment_of (ACK_FLAG OR PSH_FLAG) (take (unat s) (drop (unat off) data)) (snd_nxt (tcb_at w i)) ak (tcb_at w i) f"
    and i: "i < capacity w" and off: "off < lim" "unat lim \<le> length data"
    and s: "s = min (min (lim - off) (window_avail (tcb_at w i))) mss" "0 < s"
    and rest: "sent_upto e i data lim mss (off + s) (data_sent i s w1) n w'"
  shows "sent_upto e i data lim mss off w (s + n) w'"
proof -
  let ?t = "tcb_at w i" and ?t1 = "tcb_at w1 i" and ?w2 = "data_sent i s w1"
  have i1: "i < capacity w1" using i seg(1) sendsD(1) [of i w w1] by (simp add: seg_sent_def)
  note d = data_sent_effect [OF seg(2) i1]
  have t1: "tcb_seg ?t1 = tcb_seg ?t" using seg(1) by (simp add: seg_sent_def)
  note q = tcb_segD [OF t1] and qa = tcb_appD [OF tcb_segD(1) [OF t1]]
  have wa: "window_avail ?t1 = window_avail ?t" by (simp add: window_avail_def Let_def q qa)
  have sle: "s \<le> lim - off" "s \<le> window_avail ?t" "s \<le> mss" by (auto simp: s(1) min.coboundedI1)
  have uoff: "unat (lim - off) = unat lim - unat off" using off(1) by (intro word_nat_sub) simp
  have us: "unat s \<le> unat lim - unat off" using sle(1) uoff by (simp add: word_le_nat_alt)
  have olt: "unat off < unat lim" using off(1) by (simp add: word_less_nat_alt)
  have ostep: "unat (off + s) = unat off + unat s"
    using us olt unat_lt_u32 [of lim] by (intro word_nat_add_no_wrap) simp
  have wstep: "window_avail (tcb_at ?w2 i) = window_avail ?t - s"
    unfolding d(4) using window_avail_step [of s ?t1] sle(2) wa by simp
  have spos: "0 < unat s" using s(2) by (simp add: word_less_nat_alt)
  note r = rest [unfolded sent_upto_def wstep]
  have nle: "n \<le> window_avail ?t - s" using r by simp
  have un: "unat (s + n) = unat s + unat n"
    using nle sle(2) unat_lt_u32 [of "window_avail ?t"] word_nat_sub [OF sle(2)]
    by (intro word_nat_add_no_wrap) (simp add: word_le_nat_alt)
  have n2: "unat n \<le> unat lim - unat (off + s)"
  proof (cases "off + s < lim")
    case True
    then have "unat (lim - (off + s)) = unat lim - unat (off + s)" by (intro word_nat_sub) simp
    then show ?thesis using r True by (simp add: word_le_nat_alt)
  qed (use r in simp)
  obtain fs where fs: "seg_log w' = seg_log ?w2 @ fs" "stream_segments mss (snd_nxt (tcb_at ?w2 i)) fs"
      "concat (map f_payload fs) = take (unat n) (drop (unat (off + s)) data)"
    using r by blast
  have pl: "f_payload f = take (unat s) (drop (unat off) data)" "th_seq (f_tcp f) = snd_nxt ?t"
      "th_flags (f_tcp f) = ACK_FLAG OR PSH_FLAG"
    using seg(4) by (simp_all add: segment_of_def)
  have len: "length (f_payload f) = unat s" using us olt off(2) by (simp add: pl(1))
  have log: "seg_log w' = seg_log w @ f # fs" using fs(1) d(5) seg(3) by simp
  have str: "stream_segments mss (snd_nxt ?t) (f # fs)"
    using fs(2) len pl spos sle(3) q(2) by (auto simp: d(4) word_of_nat_unat word_le_nat_alt)
  have cat: "concat (map f_payload (f # fs)) = take (unat (s + n)) (drop (unat off) data)"
    unfolding un using fs(3) by (simp add: pl(1) ostep take_add add.commute [of "unat s" "unat off"])
  have "sends i w w'"
    using seg(1) d(2) r sends_trans unfolding seg_sent_def by blast
  moreover have "s + n \<le> window_avail ?t" "s + n \<le> lim - off"
    using nle sle(2) un us n2 ostep uoff word_nat_sub [OF sle(2)] by (auto simp: word_le_nat_alt)
  moreover have "s + n = min (lim - off) (window_avail ?t)" if rel: "tx_reliable e (unat mss)"
  proof (cases "off + s < lim")
    case True
    then have "n = min (lim - (off + s)) (window_avail ?t - s)" using r rel by simp
    moreover have "unat (lim - (off + s)) = unat lim - unat (off + s)" using True by (intro word_nat_sub) simp
    ultimately have "unat (s + n) = unat (min (lim - off) (window_avail ?t))"
      using un ostep uoff word_nat_sub [OF sle(2)] sle(2) us
      by (auto simp: min_def word_le_nat_alt split: if_splits)
    then show ?thesis by (metis word_of_nat_unat)
  next
    case False
    then have "unat s = unat lim - unat off" using us ostep by (simp add: word_less_nat_alt)
    then have "s = lim - off" using uoff by (metis word_of_nat_unat)
    then show ?thesis using r False sle(2) by (simp add: min_def)
  qed
  ultimately show ?thesis
    unfolding sent_upto_def using r off(1) log str cat q(2,3,4) d(4) by auto
qed

lemma loop_measure:
  assumes "off < lim" "s \<le> lim - off" "0 < s"
  shows "unat (lim - (off + s)) < unat (lim - (off :: u32))"
proof -
  have "unat (lim - off - s) = unat (lim - off) - unat s" by (rule word_nat_sub [OF assms(2)])
  moreover have "0 < unat s" using assms(3) by (simp add: word_less_nat_alt)
  moreover have "unat s \<le> unat (lim - off)" using assms(2) by (simp add: word_le_nat_alt)
  ultimately show ?thesis by (simp add: algebra_simps)
qed

text \<open>The segment both loops send; what follows depends on its result.\<close>

lemma loop_segment:
  assumes s_def: "s = min (min (lim - off) (window_avail (tcb_at w i))) mss" and ok: "worker_ok w" "env_ok e" "i < capacity w" and mss: "0 < mss" "unat mss \<le> MAX_MSS"
    and off: "off < lim" "unat lim \<le> length data" and ne: "min (lim - off) (window_avail (tcb_at w i)) \<noteq> 0"
  shows "0 < s" "s \<le> lim - off"
    "yields (tcp_send_segment e i (ACK_FLAG OR PSH_FLAG) (drop (unat off) data) s (snd_nxt (tcb_at w i))
        (rcv_nxt (tcb_at w i)) w)
      (\<lambda>(rc, w1). (rc < 0 \<and> sent_upto e i data lim mss off w 0 w1) \<or>
         (\<not> rc < 0 \<and> worker_ok (data_sent i s w1) \<and> i < capacity (data_sent i s w1) \<and>
          (\<forall>n w'. sent_upto e i data lim mss (off + s) (data_sent i s w1) n w' \<longrightarrow>
             sent_upto e i data lim mss off w (s + n) w')))"
proof -
  show pos: "0 < s" using ne mss(1) by (auto simp: s_def min_def word_gt_0)
  show sle: "s \<le> lim - off" by (auto simp: s_def min.coboundedI1)
  have sm: "unat s \<le> unat mss" using min.cobounded2 [of _ mss] by (simp add: s_def word_le_nat_alt)
  have uoff: "unat (lim - off) = unat lim - unat off" using off(1) by (intro word_nat_sub) simp
  have "unat s \<le> length (drop (unat off) data)"
    using sle off uoff by (simp add: word_le_nat_alt)
  note seg = send_segment_ok [OF ok this, of "ACK_FLAG OR PSH_FLAG" "snd_nxt (tcb_at w i)" "rcv_nxt (tcb_at w i)"]
  have "unat s \<le> MAX_MSS" using sm mss(2) by simp
  from seg [OF this] obtain rc w1 where r: "tcp_send_segment e i (ACK_FLAG OR PSH_FLAG) (drop (unat off) data) s
      (snd_nxt (tcb_at w i)) (rcv_nxt (tcb_at w i)) w = Some (rc, w1)" and
    p: "seg_post i (ACK_FLAG OR PSH_FLAG) (take (unat s) (drop (unat off) data)) (snd_nxt (tcb_at w i))
      (rcv_nxt (tcb_at w i)) w (rc, w1)"
    by (auto simp: yields_def)
  have rel: "rc = 0" if "tx_reliable e (unat mss)" using send_segment_reliable [OF that sm r] .
  have w1: "worker_ok w1" "seg_sent i w w1" using p by (auto simp: seg_post_def)
  then have i1: "i < capacity w1" using sendsD(1) [of i w w1] ok(3) by (simp add: seg_sent_def)
  consider (fail) "rc = -1" "seg_log w1 = seg_log w"
    | (sent) f where "rc = 0" "seg_log w1 = seg_log w @ [f]" "segment_of (ACK_FLAG OR PSH_FLAG)
        (take (unat s) (drop (unat off) data)) (snd_nxt (tcb_at w i)) (rcv_nxt (tcb_at w i)) (tcb_at w i) f"
    using p by (auto simp: seg_post_def)
  then show "yields (tcp_send_segment e i (ACK_FLAG OR PSH_FLAG) (drop (unat off) data) s
      (snd_nxt (tcb_at w i)) (rcv_nxt (tcb_at w i)) w)
      (\<lambda>(rc, w1). (rc < 0 \<and> sent_upto e i data lim mss off w 0 w1) \<or>
         (\<not> rc < 0 \<and> worker_ok (data_sent i s w1) \<and> i < capacity (data_sent i s w1) \<and>
          (\<forall>n w'. sent_upto e i data lim mss (off + s) (data_sent i s w1) n w' \<longrightarrow>
             sent_upto e i data lim mss off w (s + n) w')))"
  proof cases
    case fail
    then have "\<not> tx_reliable e (unat mss)" using rel by auto
    then show ?thesis unfolding r using fail sent_upto_0 [OF w1] by simp
  next
    case sent
    then show ?thesis unfolding r
      using data_sent_effect [OF w1(1) i1] i1 sent_upto_step [OF w1(2,1) sent(2,3) ok(3) off s_def pos] by simp
  qed
qed

lemma drain_loop_ok:
  assumes "env_ok e" "0 < mss" "unat mss \<le> MAX_MSS" "unat (sb_len sb) \<le> length (sb_data sb)"
  shows "worker_ok w \<Longrightarrow> i < capacity w \<Longrightarrow>
    yields (drain_loop e i sb mss off w) (\<lambda>w'. \<exists>n. sent_upto e i (sb_data sb) (sb_len sb) mss off w n w')"
proof (induction "unat (sb_len sb - off)" arbitrary: off w rule: less_induct)
  case less
  let ?P = "\<lambda>w'. \<exists>n. sent_upto e i (sb_data sb) (sb_len sb) mss off w n w'"
  define s0 where "s0 = min (sb_len sb - off) (window_avail (tcb_at w i))"
  show ?case
  proof (cases "off < sb_len sb \<and> s0 \<noteq> 0")
    case False
    then have "drain_loop e i sb mss off w = Some w"
      by (subst drain_loop.simps) (auto simp: Let_def s0_def)
    moreover have "sent_upto e i (sb_data sb) (sb_len sb) mss off w 0 w"
      by (rule sent_upto_0) (use less.prems False in \<open>auto simp: s0_def\<close>)
    ultimately show ?thesis by auto
  next
    case True
    note seg = loop_segment [OF refl less.prems(1) assms(1) less.prems(2) assms(2,3) _ assms(4) True [THEN conjunct2, unfolded s0_def]]
    note seg = seg [OF True [THEN conjunct1]]
    define s where "s = min s0 mss"
    have eq: "drain_loop e i sb mss off w =
       tcp_send_segment e i (ACK_FLAG OR PSH_FLAG) (drop (unat off) (sb_data sb)) s (snd_nxt (tcb_at w i))
         (rcv_nxt (tcb_at w i)) w \<bind>
       (\<lambda>(rc, w). if rc < 0 then Some w else drain_loop e i sb mss (off + s) (data_sent i s w))"
      using True unfolding s_def s0_def
      by (subst drain_loop.simps) (simp only: Let_def simp_thms if_True if_False not_less not_le split: if_split)
    show ?thesis unfolding eq
    proof (rule yields_bindI [OF seg(3) [folded s0_def, folded s_def]], clarsimp split del: if_split)
      fix rc :: int and w1
      assume r: "rc < 0 \<and> sent_upto e i (sb_data sb) (sb_len sb) mss off w 0 w1 \<or>
        (\<not> rc < 0 \<and> worker_ok (data_sent i s w1) \<and> i < capacity (data_sent i s w1) \<and>
         (\<forall>n w'. sent_upto e i (sb_data sb) (sb_len sb) mss (off + s) (data_sent i s w1) n w' \<longrightarrow>
            sent_upto e i (sb_data sb) (sb_len sb) mss off w (s + n) w'))"
      show "yields (if rc < 0 then Some w1 else drain_loop e i sb mss (off + s) (data_sent i s w1)) ?P"
      proof (cases "rc < 0")
        case False
        have "yields (drain_loop e i sb mss (off + s) (data_sent i s w1))
          (\<lambda>w'. \<exists>n. sent_upto e i (sb_data sb) (sb_len sb) mss (off + s) (data_sent i s w1) n w')"
          using r False True seg(1,2) [folded s0_def, folded s_def]
          by (intro less.hyps loop_measure) auto
        then show ?thesis using r False by (auto elim!: yields_mono)
      qed (use r in auto)
    qed
  qed
qed


subsection \<open>Allocation of a block\<close>

lemma alloc_more: "conn.more (snd (tcb_alloc key w)) = conn.more w" "tsc_hz (snd (tcb_alloc key w)) = tsc_hz w"
  for w :: worker
  by (simp_all add: tcb_alloc_eq upd_tcb_def Let_def)

lemma fresh_tcb_fields [simp]:
  "state (fresh_tcb key) = TCP_CLOSED" "app_state (fresh_tcb key) = 0" "app_ctx (fresh_tcb key) = 0"
  "snd_buf (fresh_tcb key) = None" "mss_remote (fresh_tcb key) = 0" "in_fast_recovery (fresh_tcb key) = False"
  by (simp_all add: fresh_tcb_def tcb_zero_def split: prod.splits)

lemma worker_alloc_effect:
  assumes "worker_ok w" "tcb_alloc key w = (Some i, w')"
  shows "worker_ok w'" "tcb_at w' i = fresh_tcb key" "i < capacity w" "\<not> in_use (tcb_at w i)"
    "srv w' = srv w" "capacity w' = capacity w" "w_idx w' = w_idx w" "sessions w' = sessions w" "j \<noteq> i \<Longrightarrow> tcb_at w' j = tcb_at w j"
proof -
  have w': "w' = snd (tcb_alloc key w)" by (simp add: assms(2))
  note a = tcb_alloc_ok [OF worker_okD(8) [OF assms(1)] assms(2)]
  note m = worker_more_eq [OF alloc_more(1) [of key w, folded w']]
  show f: "tcb_at w' i = fresh_tcb key" "i < capacity w" "\<not> in_use (tcb_at w i)" "srv w' = srv w" "capacity w' = capacity w" "w_idx w' = w_idx w"
    "sessions w' = sessions w" "j \<noteq> i \<Longrightarrow> tcb_at w' j = tcb_at w j"
    using a m by simp_all
  show "worker_ok w'"
  proof (rule worker_ok_transfer [OF assms(1)])
    show "conn_ok w'" unfolding w' by (rule conn_ok_alloc [OF worker_okD(1) [OF assms(1)]])
    show "tcb_ok (tcb_at w' j)" if "j < capacity w" for j
      using a worker_okD(2) [OF assms(1) that] by (cases "j = i") (simp_all add: tcb_ok_def MAX_MSS_def)
  qed (use m f alloc_more(2) [of key w] in \<open>simp_all add: w'\<close>)
qed

end
