(* ===== verification/Scenario.thy ===== *)
theory Scenario
  imports TcpSendInv
begin

text \<open>
  A small worker to evaluate operations on: a store of two blocks, the surroundings of one port, and a
  worker with one live connection in a given state.
\<close>

lemma demo_store_conn_ok: "conn_ok demo_store"
proof -
  have s: "store_ok demo_store" using demo_store_ok by (simp add: table_ok_def)
  moreover have "wheel_ok demo_store (\<lambda>_. [])"
    by (rule wheel_okI)
      (auto simp: demo_store_def tcb_store_init_def demo_conn_def Let_def wheel_head_def timer_consts tcb_at_def tcb_zero_def less_Suc_eq)
  ultimately show ?thesis by (auto simp: conn_ok_def)
qed

definition demo_caps :: port_caps where
  "demo_caps = \<lparr>pc_has_ipv4_cksum_offload = False, pc_has_tcp_cksum_offload = True, pc_max_rx_queues = 4, pc_max_tx_queues = 4, pc_mgmt_tx_q = 3, pc_mac_addr = [2, 0, 0, 0, 0, 1]\<rparr>"

definition demo_arp :: arp_port where
  "demo_arp = \<lparr>arp_table = (\<lambda>_. None), arp_entries = [], arp_local_ip = 1, arp_gateway_ip = 0, arp_netmask = 0,
     arp_local_mac = [2, 0, 0, 0, 0, 1]\<rparr>"

definition demo_ssl :: openssl where
  "demo_ssl = \<lparr>ssl_new = (\<lambda>_ _. None), ssl_rbio_write = (\<lambda>s _. s), ssl_do_handshake = (\<lambda>s. (-1, SSL_OTHER, s)),
     ssl_wbio_pending = (\<lambda>_. 0), ssl_wbio_read = (\<lambda>s _. ([], s)), ssl_write = (\<lambda>s _. (-1, s)),
     ssl_read = (\<lambda>s _. ([], SSL_OTHER, s)), ssl_shutdown = (\<lambda>s. s)\<rparr>"

definition demo_env :: env where
  "demo_env = \<lparr>e_lcore_id = 1, e_role = replicate 128 LCORE_ROLE_WORKER, e_port_caps = (\<lambda>_. demo_caps),
     e_arp = replicate 16 demo_arp, e_ndp = replicate 16 \<lparr>ndp_entries = [], ndp_count = 0, ndp_local_ip6 = [], ndp_local_ip6_ll = [], ndp_local_mac = [], ndp_has_ip6 = False\<rparr>,
     e_isn_secret0 = 1, e_isn_secret1 = 2, e_g_tsc_hz = 1000000, e_mbuf_alloc = (\<lambda>_. True), e_mbuf_tailroom = 2048,
     e_tx_burst = (\<lambda>_ n. n), e_malloc_hdr = (\<lambda>_. True), e_malloc = (\<lambda>_ n. Some (replicate (unat n) 0)),
     e_ipv4_cksum = (\<lambda>_. 0), e_hdr_cksum = (\<lambda>_. 0), e_phdr_cksum = (\<lambda>_. 0), e_udptcp_cksum = (\<lambda>_ _. 0), e_raw_cksum = (\<lambda>_. 0),
     e_cubic = \<lparr>cm_k_us = (\<lambda>_. 0), cm_target_bytes = (\<lambda>_ _ _ _ _. 0), cm_beta = (\<lambda>w. w div 2)\<rparr>,
     e_http_req = (\<lambda>_. None), e_tls_client_ctx = False, e_tls_server_ctx = False, e_ssl = demo_ssl,
     e_uninit = (\<lambda>_. [])\<rparr>"

lemma demo_env_ok: "env_ok demo_env"
  by (simp add: env_ok_def demo_env_def demo_caps_def)

definition demo_listener :: srv_listener where
  "demo_listener = \<lparr>l_port = 80, l_handler = SRV_HANDLER_ECHO, l_active = True, l_conns_accepted = 0, l_conns_active = 0,
     l_rx_bytes = 0, l_tx_bytes = 0, l_http_resps_sent = 0\<rparr>"

definition demo_srv :: srv_table where
  "demo_srv = \<lparr>srv_listeners = [demo_listener], srv_count = 1, srv_serving = True, srv_http_response = [],
     srv_http_response_len = 0, srv_chunked_body_size = 0, srv_chargen_buf = replicate 1460 65\<rparr>"

definition demo_worker :: worker where
  "demo_worker = conn.extend demo_store
     (worker.fields 0 (worker_pool_init 1000000) wm_zero hist_reset [] 0 0 0 demo_srv (\<lambda>_. None)
        (replicate 16 0) (replicate 16 0) [] [] 0 0)"

lemma demo_worker_simps [simp]:
  "tcbs demo_worker = tcbs demo_store" "capacity demo_worker = 2" "free_top demo_worker = 2"
  "tsc_hz demo_worker = 1000000" "ports demo_worker = worker_pool_init 1000000" "srv demo_worker = demo_srv"
  "sessions demo_worker = (\<lambda>_. None)" "tx_buf demo_worker = []" "mbufs_held demo_worker = 0"
  "tcb_at demo_worker i = tcb_at demo_store i"
  by (simp_all add: demo_worker_def conn.extend_def worker.fields_def demo_store_def tcb_store_init_def demo_conn_def Let_def tcb_at_def)

lemma demo_blocks: "i < 2 \<Longrightarrow> tcb_at demo_store i = tcb_zero"
  by (simp add: demo_store_def tcb_store_init_def demo_conn_def Let_def tcb_at_def)

lemma demo_worker_ok: "worker_ok demo_worker"
proof -
  have "conn_ok demo_worker" using demo_store_conn_ok
    by (subst conn_ok_cong [where st = demo_store])
      (simp_all add: demo_worker_def conn.extend_def worker.fields_def)
  moreover have "tcb_ok tcb_zero" by (simp add: tcb_ok_def) (simp add: tcb_zero_def)
  ultimately show ?thesis
    using demo_blocks by (simp add: worker_ok_def worker_pool_init_ok)
qed

text \<open>One live connection, from 10.0.0.1:80 to 10.0.0.2:1234.\<close>

definition demo_key :: tuple4 where
  "demo_key = (0x0a000001, 80, 0x0a000002, 1234)"

definition demo_set :: "tcp_state \<Rightarrow> tcb \<Rightarrow> tcb" where
  "demo_set s t = t\<lparr>state := s, mss_remote := 1460, cwnd := 14600, ssthresh := U32_MAX, rto_us := 1000000,
     snd_una := 1000, snd_nxt := 1000, snd_wnd := 65535, rcv_nxt := 5000, rcv_wnd := 8388480\<rparr>"

definition demo_live :: "tcp_state \<Rightarrow> worker" where
  "demo_live s = upd_tcb 0 (demo_set s) (snd (tcb_alloc demo_key demo_worker))"

lemma demo_alloc: "tcb_alloc demo_key demo_worker = (Some 0, snd (tcb_alloc demo_key demo_worker))"
proof -
  have "free_stack demo_worker ! 1 = 0"
    by (simp add: demo_worker_def conn.extend_def worker.fields_def demo_store_def tcb_store_init_def free_stack_init_def Let_def)
  then show ?thesis by (simp add: tcb_alloc_eq Let_def)
qed

lemma demo_live:
  "worker_ok (demo_live s)" "capacity (demo_live s) = 2" "tcb_at (demo_live s) 0 = demo_set s (fresh_tcb demo_key)"
  "tcb_at (demo_live s) 1 = tcb_zero" "srv (demo_live s) = demo_srv"
proof -
  note a = worker_alloc_effect [OF demo_worker_ok demo_alloc]
  let ?w = "snd (tcb_alloc demo_key demo_worker)"
  have len: "0 < length (tcbs ?w)" using worker_okD(7) [OF a(1)] a(6) by simp
  show "capacity (demo_live s) = 2" "tcb_at (demo_live s) 0 = demo_set s (fresh_tcb demo_key)" "srv (demo_live s) = demo_srv"
    using a(2,5,6) len by (simp_all add: demo_live_def)
  show "tcb_at (demo_live s) 1 = tcb_zero" using a(9) [of 1] demo_blocks [of 1] by (simp add: demo_live_def)
  show "worker_ok (demo_live s)" unfolding demo_live_def
    by (rule worker_ok_upd_tcb [OF a(1)])
      (use a(2,6) in \<open>simp_all add: demo_set_def link_neutral_def key_of_def tcb_ok_def cc_ok_def MAX_MSS_def\<close>)
qed

lemma demo_lookup: "tcb_lookup demo_key (demo_live s) = Some 0"
proof -
  note ok = worker_okD(8) [OF demo_live(1) [of s]]
  have k: "key_of (demo_set s (fresh_tcb demo_key)) = demo_key"
    using fresh_tcb_simps(2) [of demo_key] by (simp add: demo_set_def key_of_def)
  have u: "in_use (demo_set s (fresh_tcb demo_key))" by (simp add: demo_set_def)
  obtain j where j: "tcb_lookup demo_key (demo_live s) = Some j"
    using lookup_complete [OF ok, of 0] k u by (auto simp: demo_live(2,3))
  from lookup_sound [OF ok this] have "j < 2" "in_use (tcb_at (demo_live s) j)" by (simp_all add: demo_live(2))
  then have "j = 0" using demo_live(4) [of s] by (cases j) (auto simp: tcb_zero_def less_Suc_eq)
  with j show ?thesis by simp
qed

end
