(* ===== verification/TcpConn.thy ===== *)
theory TcpConn
  imports Scenario
begin

text \<open>
  The calls on a connection: send, close, reset, timeout and connect.  Each returns, keeps the worker's
  invariant and leaves other connections alone; the theorems say what it does to its own connection.
\<close>

subsection \<open>Sending\<close>

lemma direct_loop_ok:
  assumes "env_ok e" "0 < mss" "unat mss \<le> MAX_MSS" "unat len \<le> length data"
  shows "worker_ok w \<Longrightarrow> i < capacity w \<Longrightarrow>
    yields (direct_loop e i data len mss off w)
      (\<lambda>(total, w'). \<exists>n. total = off + n \<and> sent_upto e i data len mss off w n w')"
proof (induction "unat (len - off)" arbitrary: off w rule: less_induct)
  case less
  let ?P = "\<lambda>(total, w'). \<exists>n. total = off + n \<and> sent_upto e i data len mss off w n w'"
  define s0 where "s0 = min (len - off) (window_avail (tcb_at w i))"
  show ?case
  proof (cases "off < len \<and> s0 \<noteq> 0")
    case False
    then have "direct_loop e i data len mss off w = Some (off, w)"
      by (subst direct_loop.simps) (auto simp: Let_def s0_def)
    moreover have "sent_upto e i data len mss off w 0 w"
      by (rule sent_upto_0) (use less.prems False in \<open>auto simp: s0_def\<close>)
    ultimately show ?thesis by auto
  next
    case True
    define s where "s = min s0 mss"
    note seg = loop_segment [OF refl less.prems(1) assms(1) less.prems(2) assms(2,3) True [THEN conjunct1] assms(4)
        True [THEN conjunct2, unfolded s0_def], folded s0_def, folded s_def]
    have eq: "direct_loop e i data len mss off w =
       tcp_send_segment e i (ACK_FLAG OR PSH_FLAG) (drop (unat off) data) s (snd_nxt (tcb_at w i))
         (rcv_nxt (tcb_at w i)) w \<bind>
       (\<lambda>(rc, w). if rc < 0 then Some (off, w) else direct_loop e i data len mss (off + s) (data_sent i s w))"
      using True unfolding s_def s0_def
      by (subst direct_loop.simps) (simp only: Let_def simp_thms if_True if_False not_less not_le split: if_split)
    show ?thesis unfolding eq
    proof (rule yields_bindI [OF seg(3)], clarsimp split del: if_split)
      fix rc :: int and w1
      assume r: "rc < 0 \<and> sent_upto e i data len mss off w 0 w1 \<or>
        (\<not> rc < 0 \<and> worker_ok (data_sent i s w1) \<and> i < capacity (data_sent i s w1) \<and>
         (\<forall>n w'. sent_upto e i data len mss (off + s) (data_sent i s w1) n w' \<longrightarrow>
            sent_upto e i data len mss off w (s + n) w'))"
      show "yields (if rc < 0 then Some (off, w1) else direct_loop e i data len mss (off + s) (data_sent i s w1)) ?P"
      proof (cases "rc < 0")
        case False
        have "yields (direct_loop e i data len mss (off + s) (data_sent i s w1))
          (\<lambda>(total, w'). \<exists>n. total = off + s + n \<and> sent_upto e i data len mss (off + s) (data_sent i s w1) n w')"
          using r False True seg(1,2) by (intro less.hyps loop_measure) auto
        then show ?thesis using r False by (auto simp: add.assoc elim!: yields_mono)
      qed (use r in auto)
    qed
  qed
qed

lemma tcb_effective_mss_bound:
  assumes "tcb_ok t"
  shows "0 < tcb_effective_mss t" "unat (tcb_effective_mss t) \<le> MAX_MSS"
proof -
  show "0 < tcb_effective_mss t" by (rule tcb_effective_mss_pos)
  have "unat (mss_remote t) \<le> MAX_MSS" using assms by (simp add: tcb_ok_def)
  then show "unat (tcb_effective_mss t) \<le> MAX_MSS"
    using tcb_effective_mss_le [of t]
    by (cases "mss_remote t = 0") (auto simp: tcb_effective_mss_def MAX_MSS_def Let_def)
qed

lemma snd_buf_drain_ok:
  assumes "worker_ok w" "env_ok e" "i < capacity w"
  shows "yields (snd_buf_drain e i w) (\<lambda>w'. worker_ok w' \<and> sends i w w' \<and>
     snd_buf (tcb_at w' i) = snd_buf (tcb_at w i) \<and> rto_deadline_tsc (tcb_at w' i) = rto_deadline_tsc (tcb_at w i))"
proof (cases "snd_buf (tcb_at w i)")
  case (Some sb)
  have tok: "tcb_ok (tcb_at w i)" by (rule worker_okD(2) [OF assms(1,3)])
  then have "snd_buf_ok sb" using Some by (simp add: tcb_ok_def)
  then have "unat (sb_len sb) \<le> length (sb_data sb)" by (simp add: snd_buf_ok_def word_le_nat_alt)
  from drain_loop_ok [OF assms(2) tcb_effective_mss_bound [OF tok] this assms(1,3)]
  have "yields (drain_loop e i sb (tcb_effective_mss (tcb_at w i)) off w) (\<lambda>w'. worker_ok w' \<and> sends i w w' \<and>
     snd_buf (tcb_at w' i) = snd_buf (tcb_at w i) \<and> rto_deadline_tsc (tcb_at w' i) = rto_deadline_tsc (tcb_at w i))" for off
    by (rule yields_mono) (auto simp: sent_upto_def)
  then show ?thesis using assms Some by (simp add: snd_buf_drain_def Let_def)
qed (use assms in \<open>simp add: snd_buf_drain_def\<close>)

text \<open>Giving a connection a new, well-formed send buffer.\<close>

lemma set_snd_buf_effect:
  assumes "worker_ok w" "i < capacity w" "snd_buf_ok sb"
  shows "worker_ok (upd_tcb i (\<lambda>t. t\<lparr>snd_buf := Some sb\<rparr>) w)" "sends i w (upd_tcb i (\<lambda>t. t\<lparr>snd_buf := Some sb\<rparr>) w)"
proof -
  show "worker_ok (upd_tcb i (\<lambda>t. t\<lparr>snd_buf := Some sb\<rparr>) w)"
    by (rule worker_ok_upd_tcb [OF assms(1) _ assms(2)])
      (use worker_okD(2) [OF assms(1,2)] assms(3) in \<open>simp_all add: link_neutral_def key_of_def tcb_ok_def cc_ok_def\<close>)
  show "sends i w (upd_tcb i (\<lambda>t. t\<lparr>snd_buf := Some sb\<rparr>) w)" by (rule sends_upd_tcb) (simp add: tcb_app_def)
qed

lemma next_ext_simps [simp]:
  "worker_ok (next_ext w) = worker_ok w" "tcb_at (next_ext w) i = tcb_at w i" "capacity (next_ext w) = capacity w"
  "sends i v (next_ext w) = sends i v w" "seg_log (next_ext w) = seg_log w"
  by (simp_all add: next_ext_def sends_def)

lemma ensure_snd_buf_ok:
  assumes "worker_ok w" "env_ok e" "i < capacity w" "ensure_snd_buf e i len w = (ok, w')"
  shows "worker_ok w' \<and> sends i w w' \<and> (ok \<longrightarrow> snd_buf (tcb_at w' i) \<noteq> None)"
proof (cases "snd_buf (tcb_at w i)")
  case (Some sb)
  then show ?thesis using assms by (simp add: ensure_snd_buf_def)
next
  case None
  define cap where "cap = (if len > TCP_SND_BUF_DEFAULT_CAP then len + 4096 else TCP_SND_BUF_DEFAULT_CAP)"
  show ?thesis
  proof (cases "tcp_snd_buf_alloc (e_malloc_hdr e (ext_pos w)) (e_malloc e (ext_pos w)) cap")
    case None
    with \<open>snd_buf (tcb_at w i) = None\<close> show ?thesis using assms by (auto simp: ensure_snd_buf_def cap_def [symmetric])
  next
    case (Some sb)
    have sb: "snd_buf_ok (sb\<lparr>sb_base_seq := snd_una (tcb_at w i)\<rparr>)"
      using snd_buf_alloc_ok [OF Some] assms(2) by (simp add: env_ok_def snd_buf_ok_def)
    have "w' = upd_tcb i (\<lambda>t. t\<lparr>snd_buf := Some (sb\<lparr>sb_base_seq := snd_una t\<rparr>)\<rparr>) (next_ext w)"
      using assms(4) Some None by (simp add: ensure_snd_buf_def cap_def [symmetric])
    also have "\<dots> = upd_tcb i (\<lambda>t. t\<lparr>snd_buf := Some (sb\<lparr>sb_base_seq := snd_una (tcb_at w i)\<rparr>)\<rparr>) (next_ext w)"
      by (simp add: upd_tcb_def next_ext_def tcb_at_def)
    finally have w': "w' = \<dots>" .
    have i: "i < length (tcbs w)" using worker_okD(7) [OF assms(1)] assms(3) by simp
    show ?thesis
      using set_snd_buf_effect [of "next_ext w" i, OF _ _ sb] assms i sends_trans [of i w "next_ext w" w']
      by (simp add: w') (simp add: next_ext_def)
  qed
qed

lemma queue_data_ok:
  assumes "worker_ok w" "i < capacity w" "unat len \<le> length data" "queue_data i data len w = (n, w')"
  shows "worker_ok w' \<and> sends i w w'"
proof (cases "snd_buf (tcb_at w i)")
  case (Some sb)
  obtain m sb' where a: "tcp_snd_buf_append sb data len = (m, sb')" by (cases "tcp_snd_buf_append sb data len")
  have "snd_buf_ok sb" using worker_okD(2) [OF assms(1,2)] Some by (simp add: tcb_ok_def)
  from snd_buf_append_spec(1) [OF this assms(3) a] show ?thesis
    using assms(4) Some a set_snd_buf_effect [OF assms(1,2)] by (auto simp: queue_data_def)
qed (use assms in \<open>simp add: queue_data_def\<close>)

text \<open>The timer is armed or not at the end of a send.\<close>

lemma arm_if_ok:
  assumes "worker_ok v" "sends i w v" "i < capacity w" "in_use (tcb_at w i)"
  shows "worker_ok (if c then arm_rto e i v else v) \<and> sends i w (if c then arm_rto e i v else v)"
proof -
  have "i < capacity v" "in_use (tcb_at v i)" using assms sendsD(1) [OF assms(2)] sends_tcbD(19) [OF assms(2)] by simp_all
  with arm_rto_effect(1,2) [OF assms(1) this] sends_trans [OF assms(2)] assms show ?thesis by auto
qed

lemma tcp_fsm_send_ok:
  assumes "worker_ok w" "env_ok e" "i < capacity w" "in_use (tcb_at w i)" "unat len \<le> length data"
  shows "yields (tcp_fsm_send e i data len w) (\<lambda>(rc, w'). worker_ok w' \<and> sends i w w')"
proof -
  let ?t = "tcb_at w i"
  consider (bad) "state ?t \<noteq> TCP_ESTABLISHED \<and> state ?t \<noteq> TCP_CLOSE_WAIT"
    | (direct) "\<not> (state ?t \<noteq> TCP_ESTABLISHED \<and> state ?t \<noteq> TCP_CLOSE_WAIT)" "app_ctx ?t = 1"
    | (queued) "\<not> (state ?t \<noteq> TCP_ESTABLISHED \<and> state ?t \<noteq> TCP_CLOSE_WAIT)" "app_ctx ?t \<noteq> 1" by blast
  then show ?thesis
  proof cases
    case direct
    have "yields (direct_loop e i data len (tcb_effective_mss ?t) 0 w) (\<lambda>(total, w'). worker_ok w' \<and> sends i w w')"
      by (rule yields_mono [OF direct_loop_ok [OF assms(2) tcb_effective_mss_bound [OF worker_okD(2) [OF assms(1,3)]] assms(5,1,3)]])
        (auto simp: sent_upto_def)
    then have "yields (direct_loop e i data len (tcb_effective_mss ?t) 0 w \<bind> (\<lambda>(total_sent, w).
        Some (sint total_sent, if total_sent > 0 \<and> rto_deadline_tsc (tcb_at w i) = 0 then arm_rto e i w else w)))
      (\<lambda>(rc, w'). worker_ok w' \<and> sends i w w')"
      by (rule yields_bindI) (use arm_if_ok [of _ i w] assms(3,4) in \<open>auto simp del: if_image_distrib split del: if_split\<close>)
    then show ?thesis using direct by (simp only: tcp_fsm_send_def Let_def if_True if_False simp_thms)
  next
    case queued
    obtain ok w1 where e1: "ensure_snd_buf e i len w = (ok, w1)" by (cases "ensure_snd_buf e i len w")
    obtain n w2 where e2: "queue_data i data len w1 = (n, w2)" by (cases "queue_data i data len w1")
    note r1 = ensure_snd_buf_ok [OF assms(1-3) e1]
    then have c1: "i < capacity w1" using assms(3) sendsD(1) [of i w w1] by simp
    note r2 = queue_data_ok [OF _ c1 assms(5) e2]
    have c2: "i < capacity w2" using c1 r1 r2 sendsD(1) [of i w1 w2] by simp
    have s2: "sends i w w2" using r1 r2 sends_trans [of i w w1 w2] by simp
    have "yields (snd_buf_drain e i w2) (\<lambda>w'. worker_ok w' \<and> sends i w w')"
      by (rule yields_mono [OF snd_buf_drain_ok [OF _ assms(2) c2]]) (use r1 r2 sends_trans [OF s2] in auto)
    then have "yields (snd_buf_drain e i w2 \<bind> (\<lambda>w. Some (sint n,
        if snd_nxt (tcb_at w i) \<noteq> snd_una (tcb_at w i) \<and> rto_deadline_tsc (tcb_at w i) = 0 then arm_rto e i w else w)))
      (\<lambda>(rc, w'). worker_ok w' \<and> sends i w w')"
      by (rule yields_bindI) (use arm_if_ok [of _ i w] assms(3,4) in \<open>auto simp del: if_image_distrib split del: if_split\<close>)
    then show ?thesis
      using queued r1 assms(5) by (simp only: tcp_fsm_send_def Let_def e1 e2 prod.case if_False simp_thms) simp
  qed (use assms in \<open>simp add: tcp_fsm_send_def\<close>)
qed

subsection \<open>Teardown\<close>

lemma tcb_ok_zero: "tcb_ok tcb_zero"
  by (simp add: tcb_ok_def) (simp add: tcb_zero_def)

lemma tcb_free_more: "conn.more (tcb_free i st) = conn.more st"
proof -
  have "conn.more (release i s) = conn.more s" for s :: "'a conn_scheme"
    by (simp add: release_def upd_tcb_def)
  then show ?thesis using cancel_frame [of st i] by (simp add: tcb_free_release wheel_frame_def)
qed

lemma tcb_free_tsc_hz: "tsc_hz (tcb_free i st) = tsc_hz st"
proof -
  have "tsc_hz (release i s) = tsc_hz s" for s :: "'a conn_scheme"
    by (simp add: release_def upd_tcb_def)
  then show ?thesis using cancel_frame [of st i] by (simp add: tcb_free_release wheel_frame_def)
qed

lemma worker_free_effect:
  assumes "worker_ok w" "i < capacity w" "in_use (tcb_at w i)"
  shows "worker_ok (tcb_free i w)" "tcb_at (tcb_free i w) i = tcb_zero" "capacity (tcb_free i w) = capacity w"
    "j < capacity w \<Longrightarrow> j \<noteq> i \<Longrightarrow> tcb_core (tcb_at (tcb_free i w) j) = tcb_core (tcb_at w j)"
proof -
  note f = tcb_free_ok [OF worker_okD(8) [OF assms(1)] assms(2,3)]
  show "tcb_at (tcb_free i w) i = tcb_zero" "capacity (tcb_free i w) = capacity w"
    "j < capacity w \<Longrightarrow> j \<noteq> i \<Longrightarrow> tcb_core (tcb_at (tcb_free i w) j) = tcb_core (tcb_at w j)"
    using f by simp_all
  show "worker_ok (tcb_free i w)"
  proof (rule worker_ok_transfer [OF assms(1) conn_ok_free [OF worker_okD(1) [OF assms(1)] assms(2)]])
    show "tcb_ok (tcb_at (tcb_free i w) j)" if "j < capacity w" for j
      using f that tcb_ok_zero tcb_ok_core worker_okD(2) [OF assms(1) that] by metis
  qed (use f in \<open>simp_all add: worker_more_eq [OF tcb_free_more] tcb_free_tsc_hz\<close>)
qed

lemma pool_ok_free_immediate: "pool_ok wp \<Longrightarrow> pool_ok (tcp_port_free_immediate ip port wp)"
  using port_release_spec [of wp port ip] by (auto simp: tcp_port_free_immediate_def not_le not_less)

lemma pool_ok_free: "pool_ok wp \<Longrightarrow> pool_ok (tcp_port_free now ip port wp)"
  using port_release_spec [of wp port ip]
  by (auto simp: tcp_port_free_def Let_def not_le not_less) (auto simp: pool_ok_def)

lemma tls_detach_effect:
  assumes "worker_ok w" "i < capacity w"
  shows "worker_ok (tls_detach_if_needed i w)" "capacity (tls_detach_if_needed i w) = capacity w"
    "tcb_at (tls_detach_if_needed i w) i = (if app_state (tcb_at w i) \<ge> 2 then (tcb_at w i)\<lparr>app_state := 0\<rparr> else tcb_at w i)"
    "j \<noteq> i \<Longrightarrow> tcb_at (tls_detach_if_needed i w) j = tcb_at w j"
    "j \<noteq> i \<Longrightarrow> sessions (tls_detach_if_needed i w) j = sessions w j"
    "tls_session_get i (tls_detach_if_needed i w) = (if app_state (tcb_at w i) \<ge> 2 then None else tls_session_get i w)"
    "ports (tls_detach_if_needed i w) = ports w" "metrics (tls_detach_if_needed i w) = metrics w"
    "srv (tls_detach_if_needed i w) = srv w" "w_idx (tls_detach_if_needed i w) = w_idx w"
    "latency (tls_detach_if_needed i w) = latency w" "seg_log (tls_detach_if_needed i w) = seg_log w"
    "saved_src6 (tls_detach_if_needed i w) = saved_src6 w" "saved_dst6 (tls_detach_if_needed i w) = saved_dst6 w"
    "mbufs_held (tls_detach_if_needed i w) = mbufs_held w" "tx_buf (tls_detach_if_needed i w) = tx_buf w"
proof -
  have d: "tls_session_detach i w = w \<or> tls_session_detach i w = w\<lparr>sessions := (sessions w)(i := None)\<rparr>"
    by (simp add: tls_session_detach_def)
  then have wd: "worker_ok (tls_session_detach i w)" "capacity (tls_session_detach i w) = capacity w"
    "tcb_at (tls_session_detach i w) = tcb_at w" "tcbs (tls_session_detach i w) = tcbs w"
    using assms(1) by (auto simp: tcb_at_def)
  have "worker_ok (upd_tcb i (\<lambda>t. t\<lparr>app_state := 0\<rparr>) (tls_session_detach i w))"
    by (rule worker_ok_upd_tcb)
      (use wd assms worker_okD(2) [OF assms] in \<open>auto simp: link_neutral_def key_of_def tcb_ok_def cc_ok_def\<close>)
  then show "worker_ok (tls_detach_if_needed i w)" using assms by (simp add: tls_detach_if_needed_def)
  have len: "i < length (tcbs (tls_session_detach i w))" using worker_okD(7) [OF assms(1)] assms(2) wd(4) by simp
  then show "tcb_at (tls_detach_if_needed i w) i = (if app_state (tcb_at w i) \<ge> 2 then (tcb_at w i)\<lparr>app_state := 0\<rparr> else tcb_at w i)"
    "j \<noteq> i \<Longrightarrow> tcb_at (tls_detach_if_needed i w) j = tcb_at w j" "capacity (tls_detach_if_needed i w) = capacity w"
    using wd by (simp_all add: tls_detach_if_needed_def)
  show "tls_session_get i (tls_detach_if_needed i w) = (if app_state (tcb_at w i) \<ge> 2 then None else tls_session_get i w)"
    by (simp add: tls_detach_if_needed_def tls_session_get_def tls_session_detach_def)
qed (auto simp: tls_detach_if_needed_def tls_session_detach_def)

text \<open>A released connection: its block is zero again, and nothing else of the worker has changed.\<close>

definition torn_down :: "nat \<Rightarrow> worker \<Rightarrow> worker \<Rightarrow> bool" where
  "torn_down i w w' \<longleftrightarrow> worker_ok w' \<and> capacity w' = capacity w \<and> tcb_at w' i = tcb_zero \<and>
     (\<forall>j<capacity w. j \<noteq> i \<longrightarrow> tcb_core (tcb_at w' j) = tcb_core (tcb_at w j)) \<and>
     (\<forall>j. j \<noteq> i \<longrightarrow> sessions w' j = sessions w j) \<and> srv w' = srv w \<and> w_idx w' = w_idx w \<and>
     latency w' = latency w \<and> saved_src6 w' = saved_src6 w \<and> saved_dst6 w' = saved_dst6 w"

lemma torn_down_metrics [simp]: "torn_down i w (upd_metrics f w') = torn_down i w w'"
  by (simp add: torn_down_def upd_metrics_def)

lemma torn_down_sends:
  assumes "sends i w w1" "torn_down i w1 w2"
  shows "torn_down i w w2"
  using assms by (auto simp: torn_down_def sends_def)

lemma release_effect:
  assumes ok: "worker_ok w" "i < capacity w" "in_use (tcb_at w i)" and wp: "pool_ok wp"
  defines "w' \<equiv> tcb_free i ((tls_detach_if_needed i w)\<lparr>ports := wp\<rparr>)"
  shows "torn_down i w w'" "ports w' = wp" "metrics w' = metrics w" "seg_log w' = seg_log w"
    "tls_session_get i w' = (if app_state (tcb_at w i) \<ge> 2 then None else tls_session_get i w)"
proof -
  define v where "v = (tls_detach_if_needed i w)\<lparr>ports := wp\<rparr>"
  note d = tls_detach_effect [OF ok(1,2)]
  have v: "worker_ok v" using d(1) wp by (simp add: v_def worker_ok_def)
  have iv: "i < capacity v" "in_use (tcb_at v i)" using ok d(2,3) by (simp_all add: v_def)
  note f = worker_free_effect [OF v iv]
  note m = worker_more_eq [OF tcb_free_more [of i v]]
  have w': "w' = tcb_free i v" by (simp add: w'_def v_def)
  show "torn_down i w w'"
    unfolding torn_down_def w' using f m d by (simp add: v_def)
  show "ports w' = wp" "metrics w' = metrics w" "seg_log w' = seg_log w"
    unfolding w' m by (simp_all add: v_def d)
  show "tls_session_get i w' = (if app_state (tcb_at w i) \<ge> 2 then None else tls_session_get i w)"
  proof -
    have "tls_session_get i w' = tls_session_get i (tls_detach_if_needed i w)"
      using m(1,10) unfolding w' tls_session_get_def by (simp add: v_def)
    then show ?thesis by (simp only: d(6))
  qed
qed

subsection \<open>Close and reset\<close>

lemma seg_sentD:
  assumes "seg_sent i w w'"
  shows "sends i w w'" "tcb_seg (tcb_at w' i) = tcb_seg (tcb_at w i)" "capacity w' = capacity w"
    "in_use (tcb_at w' i) = in_use (tcb_at w i)" "state (tcb_at w' i) = state (tcb_at w i)"
    "j \<noteq> i \<Longrightarrow> tcb_at w' j = tcb_at w j"
proof -
  show s: "sends i w w'" "tcb_seg (tcb_at w' i) = tcb_seg (tcb_at w i)" using assms by (simp_all add: seg_sent_def)
  show "capacity w' = capacity w" "in_use (tcb_at w' i) = in_use (tcb_at w i)" "state (tcb_at w' i) = state (tcb_at w i)"
    by (rule sendsD(1) [OF s(1)], rule sends_tcbD(19) [OF s(1)], rule sends_tcbD(15) [OF s(1)])
  show "j \<noteq> i \<Longrightarrow> tcb_at w' j = tcb_at w j"
    using assms unfolding seg_sent_def tcb_at_def by (metis nth_list_update_neq)
qed

text \<open>A control segment: no data.\<close>

lemma send_control_ok:
  assumes "worker_ok w" "env_ok e" "i < capacity w"
  shows "yields (tcp_send_segment e i flags [] 0 sq ak w) (seg_post i flags [] sq ak w)"
  using send_segment_ok [OF assms, of 0 "[]" flags sq ak] by (simp add: MAX_MSS_def)

lemma seg_postD:
  assumes "seg_post i flags pl sq ak w (rc, w')"
  shows "worker_ok w'" "seg_sent i w w'" "rc = 0 \<or> rc = -1"
  using assms by (auto simp: seg_post_def)

text \<open>
  The block after an active or passive close, and the connection a close leaves behind.
\<close>

definition closed_tcb :: "tcb \<Rightarrow> tcb" where
  "closed_tcb t = t\<lparr>snd_nxt := snd_nxt t + 1,
     state := (if state t = TCP_ESTABLISHED then TCP_FIN_WAIT_1 else TCP_LAST_ACK)\<rparr>"

text \<open>Steps of connection \<open>i\<close>: other connections and the listener configuration stay as they are.\<close>

definition conn_step :: "nat \<Rightarrow> worker \<Rightarrow> worker \<Rightarrow> bool" where
  "conn_step i w w' \<longleftrightarrow> capacity w' = capacity w \<and> w_idx w' = w_idx w \<and>
     (\<forall>j<capacity w. j \<noteq> i \<longrightarrow> tcb_core (tcb_at w' j) = tcb_core (tcb_at w j)) \<and>
     (\<forall>j. j \<noteq> i \<longrightarrow> sessions w' j = sessions w j)"

lemma conn_step_refl [simp]: "conn_step i w w"
  by (simp add: conn_step_def)

lemma conn_step_trans: "conn_step i a b \<Longrightarrow> conn_step i b c \<Longrightarrow> conn_step i a c"
  by (auto simp: conn_step_def)

lemma conn_step_sends: "sends i w w' \<Longrightarrow> conn_step i w w'"
  by (simp add: conn_step_def sends_def)

lemma conn_step_torn: "torn_down i w w' \<Longrightarrow> conn_step i w w'"
  by (simp add: conn_step_def torn_down_def)

lemma conn_step_upd [simp]: "conn_step i w (upd_tcb i f w') = conn_step i w w'"
  by (simp add: conn_step_def)

lemma conn_step_metrics [simp]: "conn_step i w (upd_metrics f w') = conn_step i w w'"
  by (simp add: conn_step_def)

lemma conn_step_fields [simp]:
  "conn_step i w (w'\<lparr>latency := h\<rparr>) = conn_step i w w'" "conn_step i w (w'\<lparr>srv := v\<rparr>) = conn_step i w w'"
  "conn_step i w (w'\<lparr>ports := p\<rparr>) = conn_step i w w'"
  by (simp_all add: conn_step_def)

lemma conn_step_capacity: "conn_step i w w' \<Longrightarrow> capacity w' = capacity w"
  by (simp add: conn_step_def)

lemma tcp_fsm_close_ok:
  assumes "worker_ok w" "env_ok e" "i < capacity w" "in_use (tcb_at w i)"
  shows "yields (tcp_fsm_close e i w) (\<lambda>(rc, w'). worker_ok w' \<and> conn_step i w w' \<and> in_use (tcb_at w' i) \<and>
     srv w' = srv w \<and> app_state (tcb_at w' i) = app_state (tcb_at w i) \<and> app_ctx (tcb_at w' i) = app_ctx (tcb_at w i) \<and>
     state (tcb_at w' i) = (if state (tcb_at w i) = TCP_ESTABLISHED then TCP_FIN_WAIT_1
       else if state (tcb_at w i) = TCP_CLOSE_WAIT then TCP_LAST_ACK else state (tcb_at w i)) \<and>
     (rc = 0 \<longrightarrow> snd_nxt (tcb_at w' i) = snd_nxt (tcb_at w i) + 1) \<and>
     rc = (if state (tcb_at w i) \<in> {TCP_ESTABLISHED, TCP_CLOSE_WAIT} then 0 else -1))"
proof (cases "state (tcb_at w i) = TCP_ESTABLISHED \<or> state (tcb_at w i) = TCP_CLOSE_WAIT")
  case True
  from send_control_ok [OF assms(1-3), of "FIN_FLAG OR ACK_FLAG" "snd_nxt (tcb_at w i)" "rcv_nxt (tcb_at w i)"]
  obtain v w1 where s: "tcp_send_segment e i (FIN_FLAG OR ACK_FLAG) [] 0 (snd_nxt (tcb_at w i)) (rcv_nxt (tcb_at w i)) w = Some (v, w1)"
    and p: "seg_post i (FIN_FLAG OR ACK_FLAG) [] (snd_nxt (tcb_at w i)) (rcv_nxt (tcb_at w i)) w (v, w1)"
    by (auto simp: yields_def)
  note w1 = seg_postD [OF p] note d = seg_sentD [OF w1(2)]
  have i1: "i < capacity w1" "i < length (tcbs w1)" using assms(3) d(3) worker_okD(7) [OF w1(1)] by simp_all
  have "tcb_ok (closed_tcb (tcb_at w1 i))"
    using worker_okD(2) [OF w1(1) i1(1)] True d(5) by (auto simp: closed_tcb_def tcb_ok_def cc_ok_def)
  then have w2: "worker_ok (upd_tcb i closed_tcb w1)"
    using w1(1) i1 by (intro worker_ok_upd_tcb) (auto simp: link_neutral_def closed_tcb_def key_of_def)
  have at: "tcb_at (upd_tcb i closed_tcb w1) i = closed_tcb (tcb_at w1 i)" using i1(2) by simp
  then have u: "in_use (tcb_at (upd_tcb i closed_tcb w1) i)" using d(4) assms(4) by (simp add: closed_tcb_def)
  note r = arm_rto_effect [OF w2 _ u, of e]
  have c: "i < capacity (upd_tcb i closed_tcb w1)" using i1 by simp
  have q: "sends i (upd_tcb i closed_tcb w1) (arm_rto e i (upd_tcb i closed_tcb w1))" by (rule r(2) [OF c])
  have "conn_step i w (arm_rto e i (upd_tcb i closed_tcb w1))"
    using conn_step_trans [OF _ conn_step_sends [OF q]] conn_step_sends [OF d(1)] by simp
  moreover have "state (tcb_at (arm_rto e i (upd_tcb i closed_tcb w1)) i) = state (closed_tcb (tcb_at w1 i))"
    "in_use (tcb_at (arm_rto e i (upd_tcb i closed_tcb w1)) i)"
    "snd_nxt (tcb_at (arm_rto e i (upd_tcb i closed_tcb w1)) i) = snd_nxt (tcb_at w i) + 1"
    using sends_tcbD(15,19) [OF q] u r(3) [OF c] tcb_segD(2) [OF d(2)] unfolding at by (simp_all add: closed_tcb_def)
  moreover have "srv (arm_rto e i (upd_tcb i closed_tcb w1)) = srv w"
    "app_state (tcb_at (arm_rto e i (upd_tcb i closed_tcb w1)) i) = app_state (tcb_at w i)"
    "app_ctx (tcb_at (arm_rto e i (upd_tcb i closed_tcb w1)) i) = app_ctx (tcb_at w i)"
    using sends_tcbD(16,17) [OF q] sendsD(5) [OF q] sendsD(5) [OF d(1)] sends_tcbD(16,17) [OF d(1)] unfolding at
    by (simp_all add: closed_tcb_def)
  moreover have "tcp_fsm_close e i w = Some (0, arm_rto e i (upd_tcb i closed_tcb w1))"
    using s True by (auto simp: tcp_fsm_close_def Let_def closed_tcb_def [abs_def])
  ultimately show ?thesis using True r(1) [OF c] d(5) by (auto simp: closed_tcb_def)
next
  case False
  then show ?thesis using assms by (simp add: tcp_fsm_close_def)
qed

text \<open>The counters a reset touches besides those of the segment it sends.\<close>

lemma tcp_fsm_reset_ok:
  assumes "worker_ok w" "env_ok e" "i < capacity w" "in_use (tcb_at w i)"
  shows "yields (tcp_fsm_reset e i w) (\<lambda>w'. torn_down i w w' \<and>
     ports w' = tcp_port_free_immediate (src_ip (tcb_at w i)) (src_port (tcb_at w i)) (ports w) \<and>
     (app_state (tcb_at w i) \<ge> 2 \<longrightarrow> tls_session_get i w' = None) \<and>
     (seg_log w' = seg_log w \<or> (\<exists>f. seg_log w' = seg_log w @ [f] \<and> segment_of (RST_FLAG OR ACK_FLAG) []
        (snd_nxt (tcb_at w i)) (rcv_nxt (tcb_at w i)) (tcb_at w i) f)))"
proof -
  define w0 where "w0 = (if state (tcb_at w i) \<ge> TCP_ESTABLISHED
    then upd_metrics (\<lambda>m. m\<lparr>m_tcp_conn_close := m_tcp_conn_close m + 1\<rparr>) w else w)"
  have w0: "worker_ok w0" "tcb_at w0 i = tcb_at w i" "capacity w0 = capacity w" "sends i w w0" "seg_log w0 = seg_log w"
    "ports w0 = ports w" using assms(1) by (simp_all add: w0_def)
  have i0: "i < capacity w0" using assms(3) w0(3) by simp
  from send_control_ok [OF w0(1) assms(2) i0, of "RST_FLAG OR ACK_FLAG" "snd_nxt (tcb_at w i)" "rcv_nxt (tcb_at w i)"]
  obtain v w1 where s: "tcp_send_segment e i (RST_FLAG OR ACK_FLAG) [] 0 (snd_nxt (tcb_at w i)) (rcv_nxt (tcb_at w i)) w0 = Some (v, w1)"
    and p: "seg_post i (RST_FLAG OR ACK_FLAG) [] (snd_nxt (tcb_at w i)) (rcv_nxt (tcb_at w i)) w0 (v, w1)"
    by (auto simp: yields_def)
  note w1 = seg_postD [OF p] note d = seg_sentD [OF w1(2)] and a = sends_tcbD [OF seg_sentD(1) [OF w1(2)]]
  have i1: "i < capacity w1" "in_use (tcb_at w1 i)" using assms i0 w0 d by simp_all
  define wp where "wp = tcp_port_free_immediate (src_ip (tcb_at w i)) (src_port (tcb_at w i)) (ports w)"
  have wp: "pool_ok wp" using worker_okD(3) [OF assms(1)] by (simp add: wp_def pool_ok_free_immediate)
  note t = tls_detach_effect [OF w1(1) i1(1)]
  note r = release_effect [OF w1(1) i1 wp]
  have pf: "port_free_immediate i (tls_detach_if_needed i w1) = (tls_detach_if_needed i w1)\<lparr>ports := wp\<rparr>"
    using a sendsD(4) [OF d(1)] w0 by (simp add: port_free_immediate_def wp_def t(3,7))
  have "tcp_fsm_reset e i w =
     Some (upd_metrics (\<lambda>m. m\<lparr>m_tcp_reset_sent := m_tcp_reset_sent m + 1\<rparr>)
        (tcb_free i ((tls_detach_if_needed i w1)\<lparr>ports := wp\<rparr>)))"
    using s w0(2) unfolding tcp_fsm_reset_def w0_def [symmetric] Let_def by (simp add: pf)
  moreover have "torn_down i w (tcb_free i ((tls_detach_if_needed i w1)\<lparr>ports := wp\<rparr>))"
    by (rule torn_down_sends [OF sends_trans [OF w0(4) d(1)] r(1)])
  moreover have "seg_log w1 = seg_log w \<or> (\<exists>f. seg_log w1 = seg_log w @ [f] \<and> segment_of (RST_FLAG OR ACK_FLAG) []
        (snd_nxt (tcb_at w i)) (rcv_nxt (tcb_at w i)) (tcb_at w i) f)"
    using p unfolding seg_post_def prod.case w0(2,5) by blast
  moreover have "app_state (tcb_at w1 i) = app_state (tcb_at w i)" using a(16) w0(2) by simp
  moreover have "tls_session_get i (upd_metrics g v) = tls_session_get i v" for g v by (simp add: tls_session_get_def)
  ultimately show ?thesis using r(2,4,5) by (simp add: wp_def)
qed

subsection \<open>Timeout\<close>

lemma send_control_sends:
  assumes "worker_ok w" "env_ok e" "i < capacity w"
  shows "yields (map_option snd (tcp_send_segment e i flags [] 0 sq ak w)) (\<lambda>w'. worker_ok w' \<and> sends i w w')"
  using send_control_ok [OF assms, of flags sq ak] by (auto simp: yields_def dest: seg_postD(1) seg_sentD(1) [OF seg_postD(2)])

text \<open>Going back to the first unacknowledged byte.\<close>

lemma rewind_effect:
  assumes "worker_ok w" "i < capacity w"
  shows "worker_ok (upd_tcb i (\<lambda>t. t\<lparr>snd_nxt := snd_una t\<rparr>) w)" "sends i w (upd_tcb i (\<lambda>t. t\<lparr>snd_nxt := snd_una t\<rparr>) w)"
proof -
  show "worker_ok (upd_tcb i (\<lambda>t. t\<lparr>snd_nxt := snd_una t\<rparr>) w)"
    by (rule worker_ok_upd_tcb [OF assms(1) _ assms(2)])
      (use worker_okD(2) [OF assms] in \<open>simp_all add: link_neutral_def key_of_def tcb_ok_def cc_ok_def\<close>)
  show "sends i w (upd_tcb i (\<lambda>t. t\<lparr>snd_nxt := snd_una t\<rparr>) w)" by (rule sends_upd_tcb) (simp add: tcb_app_def)
qed

lemma retransmit_ok:
  assumes "worker_ok w" "env_ok e" "i < capacity w"
  shows "yields (retransmit e i w) (\<lambda>w'. worker_ok w' \<and> sends i w w')"
proof -
  note r = rewind_effect [OF assms(1,3)]
  have "yields (snd_buf_drain e i (upd_tcb i (\<lambda>t. t\<lparr>snd_nxt := snd_una t\<rparr>) w)) (\<lambda>w'. worker_ok w' \<and> sends i w w')"
    by (rule yields_mono [OF snd_buf_drain_ok [OF r(1) assms(2)]]) (use assms(3) sends_trans [OF r(2)] in auto)
  then show ?thesis
    using send_control_sends [OF assms] assms(1) unfolding retransmit_def Let_def by simp
qed

lemma cc_ok_rto:
  assumes "mss_remote t \<noteq> 0"
  shows "cc_ok (congestion_on_rto cm (t\<lparr>rto_us := x\<rparr>))"
proof (cases "app_ctx t = 1")
  case False
  have "0 < unat (2 * (ucast (mss_remote t) :: u32))" using assms by (simp add: unat_two_mss unat_gt_0)
  then have "cc_max y (2 * (ucast (mss_remote t) :: u32)) \<noteq> 0" for y
    using cc_max_ge(2) [of y "2 * ucast (mss_remote t)"] by (metis max.strict_coboundedI2 less_irrefl unat_0)
  then show ?thesis using False assms by (simp add: congestion_on_rto_def Let_def cc_ok_def)
qed (use assms in \<open>simp add: congestion_on_rto_def cc_ok_def\<close>)

lemma congestion_on_rto_frame [simp]:
  "state (congestion_on_rto cm t) = state t" "snd_buf (congestion_on_rto cm t) = snd_buf t"
  "mss_remote (congestion_on_rto cm t) = mss_remote t" "in_use (congestion_on_rto cm t) = in_use t"
  "key_of (congestion_on_rto cm t) = key_of t" "tw_next (congestion_on_rto cm t) = tw_next t"
  "tw_prev (congestion_on_rto cm t) = tw_prev t" "tw_slot (congestion_on_rto cm t) = tw_slot t"
  "app_state (congestion_on_rto cm t) = app_state t" "app_ctx (congestion_on_rto cm t) = app_ctx t" "rto_us (congestion_on_rto cm t) = rto_us t" "retransmit_count (congestion_on_rto cm t) = retransmit_count t"
  by (simp_all add: congestion_on_rto_def Let_def key_of_def)

text \<open>The block at the moment of a timeout: one more attempt, the timeout doubled, the window reset.\<close>

definition backed_off :: "env \<Rightarrow> tcb \<Rightarrow> tcb" where
  "backed_off e t = congestion_on_rto (e_cubic e)
     (t\<lparr>retransmit_count := retransmit_count t + 1, rto_us := min (rto_us t * 2) TCP_MAX_RTO_US\<rparr>)"

definition max_retries :: "tcb \<Rightarrow> u32" where
  "max_retries t = (if state t = TCP_SYN_SENT then 3 else TCP_MAX_RETRANSMITS)"

lemma backed_off_frame [simp]:
  "app_state (backed_off e t) = app_state t" "app_ctx (backed_off e t) = app_ctx t"
  "state (backed_off e t) = state t" "snd_buf (backed_off e t) = snd_buf t"
  "mss_remote (backed_off e t) = mss_remote t" "in_use (backed_off e t) = in_use t"
  "key_of (backed_off e t) = key_of t" "rto_us (backed_off e t) = min (rto_us t * 2) TCP_MAX_RTO_US"
  "retransmit_count (backed_off e t) = retransmit_count t + 1"
  by (simp_all add: backed_off_def) (simp add: key_of_def)

lemma congestion_on_rto_recovery: "app_ctx t = 1 \<Longrightarrow> in_fast_recovery (congestion_on_rto cm t) = in_fast_recovery t"
  "app_ctx t \<noteq> 1 \<Longrightarrow> \<not> in_fast_recovery (congestion_on_rto cm t)"
  by (simp_all add: congestion_on_rto_def Let_def)

lemma tcb_ok_backed_off:
  assumes "tcb_ok t"
  shows "tcb_ok (backed_off e t)"
proof -
  have "\<not> in_fast_recovery (backed_off e t)" if "\<not> in_fast_recovery t"
    using that by (cases "app_ctx t = 1") (simp_all add: backed_off_def congestion_on_rto_recovery)
  moreover have "mss_remote t \<noteq> 0 \<Longrightarrow> cc_ok (backed_off e t)"
    using cc_ok_rto [of "t\<lparr>retransmit_count := retransmit_count t + 1\<rparr>"] by (simp add: backed_off_def)
  ultimately show ?thesis using assms by (auto simp: tcb_ok_def) (auto simp: cc_ok_def backed_off_def)
qed

lemma rto_expired_eq:
  assumes "i < length (tcbs w)"
  shows "tcp_fsm_rto_expired e i w =
    (if ucast (retransmit_count (tcb_at w i) + 1) > max_retries (tcb_at w i)
     then tcp_fsm_reset e i (upd_tcb i (\<lambda>t. t\<lparr>retransmit_count := retransmit_count t + 1\<rparr>) w)
     else do { w \<leftarrow> retransmit e i (upd_tcb i (backed_off e) w);
               Some (upd_metrics (\<lambda>m. m\<lparr>m_tcp_retransmit := m_tcp_retransmit m + 1\<rparr>) (arm_rto e i w)) })"
proof -
  have "upd_tcb i f (upd_tcb i g w) = upd_tcb i (\<lambda>t. f (g t)) w" for f g
    using assms by (simp add: upd_tcb_def)
  then show ?thesis
    using assms by (simp add: tcp_fsm_rto_expired_def Let_def max_retries_def backed_off_def [abs_def])
qed

lemma rto_expired_ok:
  assumes "worker_ok w" "env_ok e" "i < capacity w" "in_use (tcb_at w i)"
  shows "\<exists>w'. tcp_fsm_rto_expired e i w = Some w' \<and> worker_ok w' \<and> conn_step i w w' \<and> srv w' = srv w \<and>
    (if ucast (retransmit_count (tcb_at w i) + 1) > max_retries (tcb_at w i)
     then tcb_at w' i = tcb_zero
     else app_state (tcb_at w' i) = app_state (tcb_at w i) \<and> app_ctx (tcb_at w' i) = app_ctx (tcb_at w i) \<and> in_use (tcb_at w' i) \<and> state (tcb_at w' i) = state (tcb_at w i) \<and>
          rto_us (tcb_at w' i) = min (rto_us (tcb_at w i) * 2) TCP_MAX_RTO_US \<and>
          retransmit_count (tcb_at w' i) = retransmit_count (tcb_at w i) + 1)"
proof -
  have len: "i < length (tcbs w)" using worker_okD(7) [OF assms(1)] assms(3) by simp
  let ?f = "\<lambda>t. t\<lparr>retransmit_count := retransmit_count t + 1\<rparr>"
  have t: "tcb_ok (tcb_at w i)" by (rule worker_okD(2) [OF assms(1,3)])
  show ?thesis
  proof (cases "ucast (retransmit_count (tcb_at w i) + 1) > max_retries (tcb_at w i)")
    case True
    have "worker_ok (upd_tcb i ?f w)"
      by (rule worker_ok_upd_tcb [OF assms(1) _ assms(3)])
        (use t in \<open>simp_all add: link_neutral_def key_of_def tcb_ok_def cc_ok_def\<close>)
    from tcp_fsm_reset_ok [OF this assms(2), of i]
    obtain w' where w': "tcp_fsm_reset e i (upd_tcb i ?f w) = Some w'" "torn_down i (upd_tcb i ?f w) w'"
      using assms(3,4) len by (auto simp: yields_def)
    moreover have "conn_step i w w'"
      using conn_step_trans [OF _ conn_step_torn [OF w'(2)], of w] by simp
    ultimately show ?thesis unfolding rto_expired_eq [OF len] using True by (simp add: torn_down_def)
  next
    case False
    let ?w1 = "upd_tcb i (backed_off e) w"
    have w1: "worker_ok ?w1"
      by (rule worker_ok_upd_tcb [OF assms(1) _ assms(3)])
        (use t tcb_ok_backed_off in \<open>auto simp: link_neutral_def\<close>, simp_all add: backed_off_def)
    from retransmit_ok [OF w1 assms(2), of i] obtain w2
      where w2: "retransmit e i ?w1 = Some w2" "worker_ok w2" "sends i ?w1 w2"
      using assms(3) by (auto simp: yields_def)
    have i2: "i < capacity w2" "in_use (tcb_at w2 i)"
      using sendsD(1) [OF w2(3)] sends_tcbD(19) [OF w2(3)] assms(3,4) len by simp_all
    note a = arm_rto_effect [OF w2(2) i2, of e]
    have s: "sends i ?w1 (arm_rto e i w2)" by (rule sends_trans [OF w2(3) a(2)])
    have "conn_step i w (arm_rto e i w2)" using conn_step_trans [OF _ conn_step_sends [OF s], of w] by simp
    with False w2 a(1) sends_tcbD(15,16,17,19,21,22) [OF s] sendsD(5) [OF s] assms(4) len show ?thesis
      unfolding rto_expired_eq [OF len] by simp
  qed
qed

text \<open>
  C10. A retransmission timeout either gives the connection up - exactly when its count of attempts exceeds
  the limit of its state, 3 for an unanswered SYN and 15 otherwise - and then the block is zero again and
  free; or it keeps the connection in its state, doubles the timeout up to 60 seconds and arms the timer
  that far ahead.  It always returns, keeps the worker's invariant and touches no other connection.
\<close>

theorem rto_expired_behaviour:
  assumes "worker_ok w" "env_ok e" "i < capacity w" "in_use (tcb_at w i)"
  shows "\<exists>w'. tcp_fsm_rto_expired e i w = Some w' \<and> worker_ok w' \<and> conn_step i w w' \<and>
    (if ucast (retransmit_count (tcb_at w i) + 1) > max_retries (tcb_at w i)
     then tcb_at w' i = tcb_zero
     else in_use (tcb_at w' i) \<and> state (tcb_at w' i) = state (tcb_at w i) \<and>
          rto_us (tcb_at w' i) = min (rto_us (tcb_at w i) * 2) TCP_MAX_RTO_US \<and>
          retransmit_count (tcb_at w' i) = retransmit_count (tcb_at w i) + 1)"
  using rto_expired_ok [OF assms] by (auto split: if_splits)

theorem rto_expired_behaviour_witness:
  "\<exists>w'. tcp_fsm_rto_expired demo_env 0 (demo_live TCP_SYN_SENT) = Some w' \<and> worker_ok w' \<and>
    state (tcb_at w' 0) = TCP_SYN_SENT \<and> rto_us (tcb_at w' 0) = 2000000 \<and> retransmit_count (tcb_at w' 0) = 1"
proof -
  have f: "in_use (fresh_tcb demo_key)" "retransmit_count (fresh_tcb demo_key) = 0"
    by (simp_all add: fresh_tcb_def demo_key_def tcb_zero_def)
  have "in_use (tcb_at (demo_live TCP_SYN_SENT) 0)" unfolding demo_live(3) by (simp add: demo_set_def)
  from rto_expired_behaviour [OF demo_live(1) demo_env_ok, of 0 TCP_SYN_SENT] this
  show ?thesis unfolding demo_live(2,3) by (auto simp: demo_set_def f max_retries_def TCP_MAX_RTO_US_def)
qed

end
