(* ===== verification/Http11.thy ===== *)
theory Http11
  imports Metrics
begin

text \<open>
  HTTP/1.1 messages (\<^verbatim>\<open>app/http11.c\<close>): the request and response builders, the chunk framing, and the
  response parser.  A C string is the list of its bytes without the terminating NUL, a null pointer is
  \<open>None\<close>.  Results \<open>None\<close> stand for a read or write outside a buffer.
\<close>

subsection \<open>Text\<close>

definition str :: "string \<Rightarrow> bytes" where
  "str s = map of_char s"

definition CRLF :: bytes where "CRLF = [13, 10]"

definition ENOSPC :: int where "ENOSPC = 28"
definition EBADMSG :: int where "EBADMSG = 74"

text \<open>The digits \<^verbatim>\<open>snprintf\<close> prints for \<^verbatim>\<open>%u\<close> (base 10) and \<^verbatim>\<open>%x\<close> (base 16).\<close>

fun digits :: "nat \<Rightarrow> nat \<Rightarrow> bytes" where
  "digits base n =
     (if n < base \<or> base < 2 then [of_char (hexdigit n)] else digits base (n div base) @ [of_char (hexdigit (n mod base))])"

declare digits.simps [simp del]

text \<open>
  \<^verbatim>\<open>append\<close>: the text is dropped when it does not fit, and no caller looks at the result.
  \<open>append_tmp\<close> appends text that \<^verbatim>\<open>snprintf\<close> put into a buffer of \<open>sz\<close> bytes: the length is that of
  the untruncated text, so a longer text makes \<^verbatim>\<open>memcpy\<close> read the terminating NUL or beyond the buffer.
\<close>

definition append_to :: "nat \<Rightarrow> bytes \<Rightarrow> bytes \<Rightarrow> bytes" where
  "append_to cap s out = (if length out + length s \<ge> cap then out else out @ s)"

definition append_tmp :: "nat \<Rightarrow> nat \<Rightarrow> bytes \<Rightarrow> bytes \<Rightarrow> bytes option" where
  "append_tmp sz cap s out =
     (if length out + length s \<ge> cap then Some out
      else if length s < sz then Some (out @ s)
      else if length s = sz then Some (out @ take (sz - 1) s @ [0]) else None)"

definition appends :: "nat \<Rightarrow> bytes list \<Rightarrow> bytes \<Rightarrow> bytes" where
  "appends cap ss out = fold (append_to cap) ss out"

text \<open>Storing bytes at an offset of an array; the part of the array not listed is zero.\<close>

definition put_at :: "nat \<Rightarrow> bytes \<Rightarrow> bytes \<Rightarrow> bytes" where
  "put_at k d buf = take k (buf @ replicate (k - length buf) 0) @ d @ drop (k + length d) buf"

subsection \<open>Connections and requests\<close>

datatype http_method = HTTP_METHOD_GET | HTTP_METHOD_POST | HTTP_METHOD_PUT | HTTP_METHOD_DELETE
  | HTTP_METHOD_HEAD

record http_request =
  hr_method :: http_method
  hr_url :: "bytes option"
  hr_host :: "bytes option"
  hr_content_type :: "bytes option"
  hr_body :: "bytes option"
  hr_body_len :: u32
  hr_keep_alive :: bool
  hr_extra_headers :: "bytes option"

definition HTTP_MAX_HEADERS :: u8 where "HTTP_MAX_HEADERS = 32"
definition HTTP_MAX_BODY :: nat where "HTTP_MAX_BODY = 1048576"

text \<open>
  A parsed response.  The header table's pointers lead into a buffer that is gone when the callback
  runs, so only its size is kept; the body is the bytes its pointer and length denote.
\<close>

record http_response =
  rs_status_code :: u16
  rs_content_length :: u32
  rs_keep_alive :: bool
  rs_chunked :: bool
  rs_header_count :: u8
  rs_body :: "bytes option"
  rs_body_len :: u32

definition rsp_zero :: http_response where
  "rsp_zero = \<lparr>rs_status_code = 0, rs_content_length = 0, rs_keep_alive = False, rs_chunked = False,
     rs_header_count = 0, rs_body = None, rs_body_len = 0\<rparr>"

datatype http_state = HTTP_IDLE | HTTP_WAIT_STATUS | HTTP_WAIT_HEADERS | HTTP_WAIT_BODY
  | HTTP_WAIT_CHUNK | HTTP_DONE

record http_conn =
  hc_rx_buf :: bytes
  hc_rx_head :: u32
  hc_rx_parsed :: u32
  hc_rsp :: http_response
  hc_tx_hdr :: bytes
  hc_tx_hdr_len :: u32
  hc_pipeline_depth :: u8
  hc_state :: http_state

definition http11_conn_init :: http_conn where
  "http11_conn_init = \<lparr>hc_rx_buf = [], hc_rx_head = 0, hc_rx_parsed = 0, hc_rsp = rsp_zero, hc_tx_hdr = [],
     hc_tx_hdr_len = 0, hc_pipeline_depth = 0, hc_state = HTTP_IDLE\<rparr>"

fun method_str :: "http_method \<Rightarrow> bytes" where
  "method_str HTTP_METHOD_GET = str ''GET''"
| "method_str HTTP_METHOD_POST = str ''POST''"
| "method_str HTTP_METHOD_PUT = str ''PUT''"
| "method_str HTTP_METHOD_DELETE = str ''DELETE''"
| "method_str HTTP_METHOD_HEAD = str ''HEAD''"

definition has_body :: "bytes option \<Rightarrow> u32 \<Rightarrow> bool" where
  "has_body body len \<longleftrightarrow> body \<noteq> None \<and> len > 0"

text \<open>The pieces of the request's head, in the order they are appended.\<close>

definition request_pieces :: "http_request \<Rightarrow> bytes list" where
  "request_pieces req =
     [method_str (hr_method req), str '' '',
      (case hr_url req of Some u \<Rightarrow> u | None \<Rightarrow> str ''/''), str '' HTTP/1.1'' @ CRLF, str ''Host: '',
      (case hr_host req of Some h \<Rightarrow> h | None \<Rightarrow> str ''localhost''), CRLF,
      (if hr_keep_alive req then str ''Connection: keep-alive'' else str ''Connection: close'') @ CRLF] @
     (if has_body (hr_body req) (hr_body_len req)
      then (case hr_content_type req of Some c \<Rightarrow> [str ''Content-Type: '', c, CRLF] | None \<Rightarrow> []) @
           [str ''Content-Length: '' @ digits 10 (unat (hr_body_len req)) @ CRLF]
      else []) @
     (case hr_extra_headers req of Some x \<Rightarrow> if x \<noteq> [] then [x] else [] | None \<Rightarrow> []) @ [CRLF]"

text \<open>Headers that do not fit are left out; a body that does not fit is an error.\<close>

definition append_body :: "nat \<Rightarrow> bytes option \<Rightarrow> u32 \<Rightarrow> bytes \<Rightarrow> (int \<times> bytes) option" where
  "append_body cap body body_len out =
     (if has_body body body_len
      then if length out + unat body_len \<ge> cap then Some (-ENOSPC, out)
           else if unat body_len > length (the body) then None
           else Some (int (length out + unat body_len), out @ take (unat body_len) (the body))
      else Some (int (length out), out))"

definition http11_tx_request :: "http_conn \<Rightarrow> http_request \<Rightarrow> (int \<times> http_conn) option" where
  "http11_tx_request conn req =
     (case append_body 2048 (hr_body req) (hr_body_len req) (appends 2048 (request_pieces req) []) of
        None \<Rightarrow> None
      | Some (rc, out) \<Rightarrow>
          let conn = conn\<lparr>hc_tx_hdr := put_at 0 out (hc_tx_hdr conn)\<rparr>
          in if rc < 0 then Some (rc, conn)
             else Some (rc, conn\<lparr>hc_tx_hdr_len := word_of_int rc,
                                 hc_pipeline_depth := hc_pipeline_depth conn + 1,
                                 hc_state := HTTP_WAIT_STATUS\<rparr>))"

subsection \<open>Responses and chunks\<close>

definition status_line :: "u16 \<Rightarrow> bytes option \<Rightarrow> bytes" where
  "status_line status status_str =
     str ''HTTP/1.1 '' @ digits 10 (unat status) @ str '' '' @
     (case status_str of Some s \<Rightarrow> s | None \<Rightarrow> []) @ CRLF"

definition type_pieces :: "bytes option \<Rightarrow> bytes list" where
  "type_pieces content_type = (case content_type of Some c \<Rightarrow> [str ''Content-Type: '', c, CRLF] | None \<Rightarrow> [])"

definition http11_tx_response ::
  "nat \<Rightarrow> u16 \<Rightarrow> bytes option \<Rightarrow> bytes option \<Rightarrow> bytes option \<Rightarrow> u32 \<Rightarrow> (int \<times> bytes) option" where
  "http11_tx_response buf_len status status_str content_type body body_len =
     (case append_tmp 128 buf_len (status_line status status_str) [] of
        None \<Rightarrow> None
      | Some out \<Rightarrow>
          append_body buf_len body body_len
            (appends buf_len (type_pieces content_type @
               [str ''Content-Length: '' @ digits 10 (unat body_len) @ CRLF,
                str ''Connection: keep-alive'' @ CRLF, CRLF]) out))"

definition http11_tx_response_chunked_hdr ::
  "nat \<Rightarrow> u16 \<Rightarrow> bytes option \<Rightarrow> bytes option \<Rightarrow> (int \<times> bytes) option" where
  "http11_tx_response_chunked_hdr buf_len status status_str content_type =
     (case append_tmp 128 buf_len (status_line status status_str) [] of
        None \<Rightarrow> None
      | Some out \<Rightarrow>
          let out = appends buf_len (type_pieces content_type @
                [str ''Transfer-Encoding: chunked'' @ CRLF, str ''Connection: keep-alive'' @ CRLF, CRLF]) out
          in Some (int (length out), out))"

definition http11_tx_chunk :: "nat \<Rightarrow> bytes \<Rightarrow> u32 \<Rightarrow> (int \<times> bytes) option" where
  "http11_tx_chunk buf_len data data_len =
     (let hdr = digits 16 (unat data_len) @ CRLF; total = length hdr + unat data_len + 2
      in if total > buf_len then Some (-ENOSPC, [])
         else if unat data_len > length data then None
         else Some (int total, hdr @ take (unat data_len) data @ CRLF))"

definition http11_tx_chunk_end :: "nat \<Rightarrow> int \<times> bytes" where
  "http11_tx_chunk_end buf_len = (if buf_len < 5 then (-ENOSPC, []) else (5, str ''0'' @ CRLF @ CRLF))"

subsection \<open>Parsing numbers and lines\<close>

text \<open>\<^verbatim>\<open>find_crlf\<close>: the offset after the first line end.\<close>

fun find_crlf :: "bytes \<Rightarrow> nat option" where
  "find_crlf (a # b # s) =
     (if a = 13 \<and> b = 10 then Some 2 else map_option Suc (find_crlf (b # s)))"
| "find_crlf _ = None"

text \<open>\<^verbatim>\<open>atoi\<close> and \<^verbatim>\<open>strtoul\<close> on bytes; a list's end is the NUL that follows.\<close>

definition atoi_bytes :: "bytes \<Rightarrow> int" where
  "atoi_bytes s = atoi (map (\<lambda>b. char_of (unat b)) s)"

definition digit_val :: "nat \<Rightarrow> u8 \<Rightarrow> nat option" where
  "digit_val base c =
     (let v = (if 48 \<le> c \<and> c \<le> 57 then unat c - 48
               else if 97 \<le> c \<and> c \<le> 122 then unat c - 87
               else if 65 \<le> c \<and> c \<le> 90 then unat c - 55 else base)
      in if v < base then Some v else None)"

fun number_val :: "nat \<Rightarrow> nat \<Rightarrow> bytes \<Rightarrow> nat" where
  "number_val base acc [] = acc"
| "number_val base acc (c # s) =
     (case digit_val base c of None \<Rightarrow> acc | Some v \<Rightarrow> number_val base (acc * base + v) s)"

definition is_space_byte :: "u8 \<Rightarrow> bool" where
  "is_space_byte c \<longleftrightarrow> c = 32 \<or> (9 \<le> c \<and> c \<le> 13)"

definition skip_0x :: "nat \<Rightarrow> bytes \<Rightarrow> bytes" where
  "skip_0x base s =
     (case s of a # b # c # r \<Rightarrow>
        if base = 16 \<and> a = 48 \<and> (b = 120 \<or> b = 88) \<and> digit_val 16 c \<noteq> None then c # r else s
      | _ \<Rightarrow> s)"

definition strtoul :: "nat \<Rightarrow> bytes \<Rightarrow> u64" where
  "strtoul base s =
     (let s = dropWhile is_space_byte s;
          neg = (s \<noteq> [] \<and> hd s = 45);
          s = (if s \<noteq> [] \<and> (hd s = 45 \<or> hd s = 43) then tl s else s);
          v = number_val base 0 (skip_0x base s)
      in if v \<ge> 2 ^ 64 then U64_MAX else if neg then - word_of_nat v else word_of_nat v)"

definition to_lower :: "u8 \<Rightarrow> u8" where
  "to_lower c = (if 65 \<le> c \<and> c \<le> 90 then c + 32 else c)"

fun contains :: "bytes \<Rightarrow> bytes \<Rightarrow> bool" where
  "contains p [] \<longleftrightarrow> p = []"
| "contains p (c # s) \<longleftrightarrow> take (length p) (c # s) = p \<or> contains p s"

definition parse_status_line :: "bytes \<Rightarrow> nat \<Rightarrow> http_response \<Rightarrow> http_response option" where
  "parse_status_line line len rsp =
     (if len < 12 then None
      else if take 7 line \<noteq> str ''HTTP/1.'' then None
      else Some (rsp\<lparr>rs_status_code := word_of_int (atoi_bytes (drop 9 line))\<rparr>))"

text \<open>\<open>line\<close> is the copy in the 512-byte buffer, followed by a NUL; its C strings end at a NUL.\<close>

definition c_string :: "bytes \<Rightarrow> bytes" where
  "c_string s = takeWhile (\<lambda>c. c \<noteq> 0) s"

definition parse_header :: "bytes \<Rightarrow> http_response \<Rightarrow> http_response" where
  "parse_header line rsp =
     (if 58 \<notin> set line then rsp
      else
        let name = takeWhile (\<lambda>c. c \<noteq> 58) line;
            val = c_string (dropWhile (\<lambda>c. c = 32) (drop (length name + 1) line));
            val = rev (dropWhile (\<lambda>c. c = 13 \<or> c = 10) (rev val));
            name = map to_lower (c_string name);
            rsp = (if name = str ''content-length''
                   then rsp\<lparr>rs_content_length := ucast (strtoul 10 val)\<rparr>
                   else if name = str ''transfer-encoding'' \<and> contains (str ''chunked'') val
                   then rsp\<lparr>rs_chunked := True\<rparr>
                   else if name = str ''connection''
                   then rsp\<lparr>rs_keep_alive := contains (str ''keep-alive'') (map to_lower val)\<rparr>
                   else rsp)
        in if rs_header_count rsp < HTTP_MAX_HEADERS
           then rsp\<lparr>rs_header_count := rs_header_count rsp + 1\<rparr> else rsp)"

subsection \<open>The response parser\<close>

text \<open>
  The receive buffer keeps the parsed response in its last \<open>HTTP_RSP_SIZE\<close> bytes; data that reaches
  there is \<open>None\<close>.
\<close>

definition HTTP_RX_CAP :: nat where "HTTP_RX_CAP = HTTP_MAX_BODY + 4096"
definition HTTP_RSP_SIZE :: nat where "HTTP_RSP_SIZE = 552"

record http_rx =
  rx_conn :: http_conn
  rx_metrics :: worker_metrics
  rx_delivered :: "http_response list"

datatype rx_control = Again http_rx | Leave int http_rx | Crash

definition rx_bytes :: "http_conn \<Rightarrow> bytes" where
  "rx_bytes c = take (unat (hc_rx_head c) - unat (hc_rx_parsed c)) (drop (unat (hc_rx_parsed c)) (hc_rx_buf c))"

definition add_parse_err :: "http_rx \<Rightarrow> http_rx" where
  "add_parse_err r = r\<lparr>rx_metrics := (rx_metrics r)\<lparr>m_http_parse_err := m_http_parse_err (rx_metrics r) + 1\<rparr>\<rparr>"

definition consume :: "u32 \<Rightarrow> http_conn \<Rightarrow> http_conn" where
  "consume n c = c\<lparr>hc_rx_parsed := hc_rx_parsed c + n\<rparr>"

definition rx_status :: "http_rx \<Rightarrow> rx_control" where
  "rx_status r =
     (let c = rx_conn r
      in case find_crlf (rx_bytes c) of
           None \<Rightarrow> Leave 0 r
         | Some n \<Rightarrow>
             (case parse_status_line (drop (unat (hc_rx_parsed c)) (hc_rx_buf c)) (n - 2) rsp_zero of
                None \<Rightarrow> Leave (-EBADMSG) (add_parse_err r)
              | Some rsp \<Rightarrow>
                  Again (r\<lparr>rx_conn := (consume (word_of_nat n) c)\<lparr>hc_state := HTTP_WAIT_HEADERS, hc_rsp := rsp\<rparr>\<rparr>)))"

definition rx_header :: "http_rx \<Rightarrow> rx_control" where
  "rx_header r =
     (let c = rx_conn r
      in case find_crlf (rx_bytes c) of
           None \<Rightarrow> Leave 0 r
         | Some n \<Rightarrow>
             if n = 2
             then Again (r\<lparr>rx_conn := (consume 2 c)\<lparr>hc_state :=
                    if rs_chunked (hc_rsp c) then HTTP_WAIT_CHUNK else HTTP_WAIT_BODY\<rparr>\<rparr>)
             else Again (r\<lparr>rx_conn := (consume (word_of_nat n) c)\<lparr>hc_rsp :=
                    parse_header (take (min (n - 2) 511) (rx_bytes c)) (hc_rsp c)\<rparr>\<rparr>))"

definition rx_body :: "http_rx \<Rightarrow> rx_control" where
  "rx_body r =
     (let c = rx_conn r; rsp = hc_rsp c; cl = rs_content_length rsp
      in if cl = 0
         then Again (r\<lparr>rx_conn := c\<lparr>hc_rsp := rsp\<lparr>rs_body := None, rs_body_len := 0\<rparr>, hc_state := HTTP_DONE\<rparr>\<rparr>)
         else if length (rx_bytes c) \<ge> unat cl
         then Again (r\<lparr>rx_conn := (consume cl c)\<lparr>hc_rsp := rsp\<lparr>rs_body := Some (take (unat cl) (rx_bytes c)),
                                                             rs_body_len := cl\<rparr>, hc_state := HTTP_DONE\<rparr>\<rparr>)
         else Leave 0 r)"

definition rx_chunk :: "http_rx \<Rightarrow> rx_control" where
  "rx_chunk r =
     (let c = rx_conn r
      in case find_crlf (rx_bytes c) of
           None \<Rightarrow> Leave 0 r
         | Some n \<Rightarrow>
             let chunk_sz = (ucast (strtoul 16 (rx_bytes c)) :: u32); c = consume (word_of_nat n) c
             in if chunk_sz = 0
                then Again (r\<lparr>rx_conn := (consume 2 c)\<lparr>hc_state := HTTP_DONE\<rparr>\<rparr>)
                else if length (rx_bytes c) < unat (chunk_sz + 2) then Leave 0 (r\<lparr>rx_conn := c\<rparr>)
                else Again (r\<lparr>rx_conn := (consume (chunk_sz + 2) c)\<lparr>hc_rsp := (hc_rsp c)
                       \<lparr>rs_body := Some (take (unat chunk_sz) (rx_bytes c)), rs_body_len := chunk_sz\<rparr>\<rparr>\<rparr>))"

text \<open>A complete response is delivered and the buffer compacted; \<^verbatim>\<open>remaining\<close> would wrap when the parser
  has run past the received data.\<close>

definition rx_done :: "http_rx \<Rightarrow> rx_control" where
  "rx_done r =
     (let c = rx_conn r
      in if hc_rx_parsed c > hc_rx_head c then Crash
         else
           let depth = hc_pipeline_depth c - 1; rest = rx_bytes c
           in Again \<lparr>rx_conn = c\<lparr>hc_rx_buf := put_at 0 rest (hc_rx_buf c), hc_rx_head := hc_rx_head c - hc_rx_parsed c,
                               hc_rx_parsed := 0, hc_pipeline_depth := depth,
                               hc_state := (if depth > 0 then HTTP_WAIT_STATUS else HTTP_IDLE)\<rparr>,
                     rx_metrics = worker_metrics_add_http_rsp (uint (rs_status_code (hc_rsp c))) (rx_metrics r),
                     rx_delivered = rx_delivered r @ [hc_rsp c]\<rparr>)"

definition rx_step :: "http_rx \<Rightarrow> rx_control" where
  "rx_step r =
     (case hc_state (rx_conn r) of
        HTTP_IDLE \<Rightarrow> rx_status r
      | HTTP_WAIT_STATUS \<Rightarrow> rx_status r
      | HTTP_WAIT_HEADERS \<Rightarrow> rx_header r
      | HTTP_WAIT_BODY \<Rightarrow> rx_body r
      | HTTP_WAIT_CHUNK \<Rightarrow> rx_chunk r
      | HTTP_DONE \<Rightarrow> rx_done r)"

definition rx_more :: "http_rx \<Rightarrow> bool" where
  "rx_more r \<longleftrightarrow> hc_rx_parsed (rx_conn r) < hc_rx_head (rx_conn r) \<or> hc_state (rx_conn r) = HTTP_DONE"

text \<open>
  The loop ends: every turn that goes on either consumes received bytes or moves from the body to
  the delivery, and from there to the next response.
\<close>

lemma find_crlf_bounds: "find_crlf s = Some n \<Longrightarrow> 2 \<le> n \<and> n \<le> length s"
  by (induction s arbitrary: n rule: find_crlf.induct) (auto split: if_splits)

definition rx_left :: "http_rx \<Rightarrow> nat" where
  "rx_left r = unat (hc_rx_head (rx_conn r)) - unat (hc_rx_parsed (rx_conn r))"

definition rx_rank :: "http_rx \<Rightarrow> nat" where
  "rx_rank r = (case hc_state (rx_conn r) of HTTP_WAIT_BODY \<Rightarrow> 2 | HTTP_DONE \<Rightarrow> 1 | _ \<Rightarrow> 0)"

lemma rx_bytes_length: "length (rx_bytes c) \<le> unat (hc_rx_head c) - unat (hc_rx_parsed c)"
  by (simp add: rx_bytes_def)

lemma consume_left:
  assumes "0 < unat n" "unat n \<le> length (rx_bytes c)"
  shows "unat (hc_rx_head (consume n c)) - unat (hc_rx_parsed (consume n c)) < unat (hc_rx_head c) - unat (hc_rx_parsed c)"
    "unat (hc_rx_parsed (consume n c)) = unat (hc_rx_parsed c) + unat n" "hc_rx_head (consume n c) = hc_rx_head c"
proof -
  have le: "unat n \<le> unat (hc_rx_head c) - unat (hc_rx_parsed c)" using assms(2) rx_bytes_length [of c] by simp
  then have "unat (hc_rx_parsed c) + unat n < 2 ^ 32" using assms(1) unat_lt_u32 [of "hc_rx_head c"] by simp
  then show p: "unat (hc_rx_parsed (consume n c)) = unat (hc_rx_parsed c) + unat n"
    by (simp add: consume_def word_nat_add_no_wrap)
  show "hc_rx_head (consume n c) = hc_rx_head c" by (simp add: consume_def)
  then show "unat (hc_rx_head (consume n c)) - unat (hc_rx_parsed (consume n c)) < unat (hc_rx_head c) - unat (hc_rx_parsed c)"
    using p le assms(1) by simp
qed

lemma crlf_word:
  assumes "find_crlf (rx_bytes c) = Some n"
  shows "0 < unat (word_of_nat n :: u32)" "unat (word_of_nat n :: u32) \<le> length (rx_bytes c)" "unat (word_of_nat n :: u32) = n"
proof -
  have "2 \<le> n" "n \<le> length (rx_bytes c)" using find_crlf_bounds [OF assms] by simp_all
  moreover have "length (rx_bytes c) < 2 ^ 32" using rx_bytes_length [of c] unat_lt_u32 [of "hc_rx_head c"] by simp
  ultimately show "unat (word_of_nat n :: u32) = n" by (intro unat_word_of_nat) simp
  then show "0 < unat (word_of_nat n :: u32)" "unat (word_of_nat n :: u32) \<le> length (rx_bytes c)"
    using \<open>2 \<le> n\<close> \<open>n \<le> length (rx_bytes c)\<close> by simp_all
qed

lemma crlf_consume:
  assumes "find_crlf (rx_bytes c) = Some n"
  shows "unat (hc_rx_head (consume (word_of_nat n) c)) - unat (hc_rx_parsed (consume (word_of_nat n) c)) <
    unat (hc_rx_head c) - unat (hc_rx_parsed c)"
  using consume_left(1) [OF crlf_word(1,2) [OF assms]] .

lemma rx_status_again:
  "rx_status r = Again r' \<Longrightarrow> rx_left r' < rx_left r"
  using crlf_consume [of "rx_conn r"]
  by (auto simp: rx_status_def Let_def rx_left_def split: option.splits)

lemma rx_header_again:
  assumes "rx_header r = Again r'"
  shows "rx_left r' < rx_left r"
proof -
  obtain n where n: "find_crlf (rx_bytes (rx_conn r)) = Some n"
    using assms by (auto simp: rx_header_def Let_def split: option.splits)
  have "hc_rx_head (rx_conn r') = hc_rx_head (consume (word_of_nat n) (rx_conn r)) \<and>
      hc_rx_parsed (rx_conn r') = hc_rx_parsed (consume (word_of_nat n) (rx_conn r))"
    using assms n by (cases "n = 2") (auto simp: rx_header_def Let_def consume_def)
  then show ?thesis using crlf_consume [OF n] by (auto simp: rx_left_def)
qed

lemma rx_body_again:
  assumes "rx_body r = Again r'"
  shows "rx_left r' < rx_left r \<or> rx_left r' = rx_left r \<and> hc_state (rx_conn r') = HTTP_DONE"
proof (cases "rs_content_length (hc_rsp (rx_conn r)) = 0")
  case True
  then show ?thesis using assms by (auto simp: rx_body_def Let_def rx_left_def)
next
  case False
  then have "0 < unat (rs_content_length (hc_rsp (rx_conn r)))" by (simp add: unat_gt_0)
  with False assms consume_left(1) [of "rs_content_length (hc_rsp (rx_conn r))" "rx_conn r"] show ?thesis
    by (auto simp: rx_body_def Let_def rx_left_def split: if_splits)
qed

lemma rx_chunk_again:
  assumes "rx_chunk r = Again r'" and cap: "unat (hc_rx_head (rx_conn r)) \<le> HTTP_RX_CAP"
  shows "rx_left r' < rx_left r"
proof -
  obtain n where n: "find_crlf (rx_bytes (rx_conn r)) = Some n"
    using assms(1) by (auto simp: rx_chunk_def Let_def split: option.splits)
  define c where "c = consume (word_of_nat n) (rx_conn r)"
  define sz where "sz = (ucast (strtoul 16 (rx_bytes (rx_conn r))) :: u32)"
  have less: "unat (hc_rx_head c) - unat (hc_rx_parsed c) < rx_left r" and
    par: "unat (hc_rx_parsed c) \<le> unat (hc_rx_head c)" "hc_rx_head c = hc_rx_head (rx_conn r)"
    using consume_left [OF crlf_word(1,2) [OF n]] crlf_word(2) [OF n] rx_bytes_length [of "rx_conn r"]
      crlf_word(1) [OF n]
    by (simp_all add: c_def rx_left_def)
  consider (last) "sz = 0" | (empty) "sz \<noteq> 0" "unat (sz + 2) = 0" | (data) "sz \<noteq> 0" "0 < unat (sz + 2)" by blast
  then show ?thesis
  proof cases
    case last
    have "unat (hc_rx_parsed c) + unat (2::u32) < 2 ^ 32" using par cap by (simp add: HTTP_RX_CAP_def HTTP_MAX_BODY_def)
    then have "unat (hc_rx_parsed c + 2) = unat (hc_rx_parsed c) + 2" by (simp add: word_nat_add_no_wrap)
    with last less assms(1) n show ?thesis
      by (auto simp: rx_chunk_def Let_def sz_def [symmetric] c_def [symmetric] rx_left_def) (simp add: consume_def)
  next
    case empty
    then have z: "sz + 2 = 0" by (simp add: unat_eq_zero)
    have "rx_conn r' = (consume (sz + 2) c)\<lparr>hc_rsp := (hc_rsp c)
                       \<lparr>rs_body := Some (take (unat sz) (rx_bytes c)), rs_body_len := sz\<rparr>\<rparr>"
      using assms(1) n empty by (auto simp: rx_chunk_def Let_def sz_def [symmetric] c_def [symmetric] split: if_splits)
    moreover have "consume 0 c = c" by (simp add: consume_def)
    ultimately show ?thesis using less z by (simp add: rx_left_def)
  next
    case data
    then have "unat (sz + 2) \<le> length (rx_bytes c)"
      using assms(1) n by (auto simp: rx_chunk_def Let_def sz_def [symmetric] c_def [symmetric] split: if_splits)
    from consume_left(1) [OF data(2) this] have "unat (hc_rx_head (consume (sz + 2) c)) - unat (hc_rx_parsed (consume (sz + 2) c)) < rx_left r"
      using less by simp
    moreover have "r' = r\<lparr>rx_conn := (consume (sz + 2) c)\<lparr>hc_rsp := (hc_rsp c)
                       \<lparr>rs_body := Some (take (unat sz) (rx_bytes c)), rs_body_len := sz\<rparr>\<rparr>\<rparr>"
      using assms(1) n data(1) by (auto simp: rx_chunk_def Let_def sz_def [symmetric] c_def [symmetric] split: if_splits)
    ultimately show ?thesis by (simp add: rx_left_def)
  qed
qed

lemma rx_done_again:
  assumes "rx_done r = Again r'"
  shows "rx_left r' = rx_left r \<and> hc_state (rx_conn r') \<in> {HTTP_WAIT_STATUS, HTTP_IDLE}"
proof -
  have "\<not> hc_rx_parsed (rx_conn r) > hc_rx_head (rx_conn r)" using assms by (auto simp: rx_done_def Let_def)
  then have "unat (hc_rx_head (rx_conn r) - hc_rx_parsed (rx_conn r)) = rx_left r"
    by (simp add: rx_left_def word_nat_sub)
  then show ?thesis using assms by (auto simp: rx_done_def Let_def rx_left_def split: if_splits)
qed

lemma rx_step_decreases:
  assumes "rx_step r = Again r'" "unat (hc_rx_head (rx_conn r)) \<le> HTTP_RX_CAP"
  shows "(r', r) \<in> measures [rx_left, rx_rank]"
  using assms rx_status_again [of r r'] rx_header_again [of r r'] rx_body_again [of r r'] rx_chunk_again [of r r']
    rx_done_again [of r r']
  by (cases "hc_state (rx_conn r)") (auto simp: rx_step_def rx_rank_def)

text \<open>The receive index never exceeds the buffer, which \<open>http11_rx_data\<close> checks.\<close>

function rx_loop :: "http_rx \<Rightarrow> (int \<times> http_rx) option" where
  "rx_loop r =
     (if unat (hc_rx_head (rx_conn r)) > HTTP_RX_CAP then None
      else if \<not> rx_more r then Some (0, r)
      else case rx_step r of Again r' \<Rightarrow> rx_loop r' | Leave rc r' \<Rightarrow> Some (rc, r') | Crash \<Rightarrow> None)"
  by auto
termination
  by (relation "measures [rx_left, rx_rank]") (use rx_step_decreases in \<open>auto simp del: in_measures\<close>)

declare rx_loop.simps [simp del]

definition http11_rx_data ::
  "bytes \<Rightarrow> u32 \<Rightarrow> http_conn \<Rightarrow> worker_metrics \<Rightarrow> (int \<times> http_rx) option" where
  "http11_rx_data data len c mt =
     (let r = \<lparr>rx_conn = c, rx_metrics = mt, rx_delivered = []\<rparr>
      in if unat (hc_rx_head c + len) > HTTP_RX_CAP then Some (-ENOSPC, add_parse_err r)
         else if unat len > length data \<or> unat (hc_rx_head c) + unat len > HTTP_RX_CAP - HTTP_RSP_SIZE then None
         else rx_loop (r\<lparr>rx_conn := c\<lparr>hc_rx_buf := put_at (unat (hc_rx_head c)) (take (unat len) data) (hc_rx_buf c),
                                    hc_rx_head := hc_rx_head c + len\<rparr>\<rparr>))"

subsection \<open>Numbers written are numbers read\<close>

lemma hexdigit_val:
  assumes "v < base" "base \<le> 16"
  shows "digit_val base (of_char (hexdigit v)) = Some v"
proof -
  have "v < 16" using assms by simp
  then have "v = 0 \<or> v = 1 \<or> v = 2 \<or> v = 3 \<or> v = 4 \<or> v = 5 \<or> v = 6 \<or> v = 7 \<or> v = 8 \<or> v = 9 \<or> v = 10 \<or>
    v = 11 \<or> v = 12 \<or> v = 13 \<or> v = 14 \<or> v = 15" by presburger
  then show ?thesis using assms(1) by (elim disjE) (simp_all add: hexdigit_def digit_val_def)
qed

lemma number_val_digits:
  assumes "2 \<le> base" "base \<le> 16"
  shows "number_val base acc (digits base n @ s) = number_val base (acc * base ^ length (digits base n) + n) s"
proof (induction n arbitrary: acc s rule: less_induct)
  case (less n)
  show ?case
  proof (cases "n < base")
    case True
    then show ?thesis using assms hexdigit_val [OF True assms(2)] by (simp add: digits.simps [of base n])
  next
    case False
    then have "n div base < n" using assms by simp
    have d: "digits base n = digits base (n div base) @ [of_char (hexdigit (n mod base))]"
      using False assms by (simp add: digits.simps [of base n])
    have "n mod base < base" using assms by simp
    from less.IH [OF \<open>n div base < n\<close>] hexdigit_val [OF this assms(2)] show ?thesis
      unfolding d by (simp add: algebra_simps)
  qed
qed

lemma digits_nonspace:
  assumes "2 \<le> base" "base \<le> 16"
  shows "\<forall>c\<in>set (digits base n). digit_val base c \<noteq> None" "digits base n \<noteq> []"
proof -
  show "\<forall>c\<in>set (digits base n). digit_val base c \<noteq> None"
  proof (induction n rule: less_induct)
    case (less n)
    show ?case
    proof (cases "n < base")
      case True
      then show ?thesis using assms hexdigit_val [OF True assms(2)] by (simp add: digits.simps [of base n])
    next
      case False
      then have "n div base < n" using assms by simp
      moreover have "n mod base < base" using assms by simp
      ultimately show ?thesis using False less.IH [of "n div base"] hexdigit_val [of "n mod base", OF _ assms(2)] assms(1)
        by (auto simp: digits.simps [of base n])
    qed
  qed
  show "digits base n \<noteq> []" by (simp add: digits.simps [of base n])
qed

lemma digit_byte:
  assumes "digit_val base c \<noteq> None" "base \<le> 16"
  shows "\<not> is_space_byte c" "c \<noteq> 45" "c \<noteq> 43" "c \<noteq> 120" "c \<noteq> 88" "c \<noteq> 13" "c \<noteq> 58" "c \<noteq> 0"
  using assms by (auto simp: digit_val_def Let_def is_space_byte_def word_le_nat_alt split: if_splits)

lemma strtoul_digits:
  assumes "2 \<le> base" "base \<le> 16" "n < 2 ^ 64" "s = [] \<or> digit_val base (hd s) = None" "base = 16 \<longrightarrow> s = [] \<or> hd s \<notin> {120, 88}"
  shows "strtoul base (digits base n @ s) = word_of_nat n"
proof -
  note d = digits_nonspace [OF assms(1,2), of n]
  obtain c ds where cd: "digits base n = c # ds" using d(2) by (cases "digits base n") auto
  have c: "\<not> is_space_byte c" "c \<noteq> 45" "c \<noteq> 43" using d(1) digit_byte [of base c] assms(2) by (auto simp: cd)
  have "skip_0x base (digits base n @ s) = digits base n @ s"
  proof (cases ds)
    case Nil
    then show ?thesis using assms(5) by (cases s) (auto simp: cd skip_0x_def split: list.splits)
  next
    case (Cons b ds')
    then have "b \<noteq> 120" "b \<noteq> 88" using d(1) digit_byte [of base b] assms(2) by (auto simp: cd)
    then show ?thesis by (auto simp: cd Cons skip_0x_def split: list.splits)
  qed
  moreover have "number_val base n s = n"
    using assms(4) by (cases s) auto
  ultimately show ?thesis using c assms(3) number_val_digits [OF assms(1,2), of 0 n s]
    by (simp add: strtoul_def cd Let_def)
qed

subsection \<open>The parser and its buffer\<close>

lemma ucast_word_of_nat: "n < 2 ^ 64 \<Longrightarrow> ucast (word_of_nat n :: u64) = (word_of_nat n :: u32)"
  by (simp add: unsigned_of_nat take_bit_nat_eq_self)

lemma ucast_u64_len: "ucast (word_of_nat (unat len) :: u64) = (len :: u32)"
  by (subst ucast_word_of_nat) (use unat_lt_u32 [of len] in simp_all)

lemma ucast_u64_u32: "ucast (ucast len :: u64) = (len :: u32)"
  using ucast_u64_len [of len] by simp

text \<open>The buffer's indices are in order and within the buffer.\<close>

definition rx_ok :: "http_conn \<Rightarrow> bool" where
  "rx_ok c \<longleftrightarrow> hc_rx_parsed c \<le> hc_rx_head c \<and> unat (hc_rx_head c) \<le> length (hc_rx_buf c) \<and>
     unat (hc_rx_head c) \<le> HTTP_RX_CAP"

lemma rx_fields [simp]:
  "rx_bytes (c\<lparr>hc_rsp := x\<rparr>) = rx_bytes c" "rx_bytes (c\<lparr>hc_state := y\<rparr>) = rx_bytes c"
  "rx_ok (c\<lparr>hc_rsp := x\<rparr>) = rx_ok c" "rx_ok (c\<lparr>hc_state := y\<rparr>) = rx_ok c"
  "hc_state (consume n c) = hc_state c" "hc_rsp (consume n c) = hc_rsp c"
  "hc_pipeline_depth (consume n c) = hc_pipeline_depth c"
  by (simp_all add: rx_bytes_def rx_ok_def consume_def)

lemma rx_ok_length: "rx_ok c \<Longrightarrow> length (rx_bytes c) = unat (hc_rx_head c) - unat (hc_rx_parsed c)"
  by (auto simp: rx_ok_def rx_bytes_def min_def)

lemma rx_ok_rest:
  assumes "rx_ok c"
  shows "drop (unat (hc_rx_parsed c)) (hc_rx_buf c) = rx_bytes c @ drop (unat (hc_rx_head c)) (hc_rx_buf c)"
proof -
  have "unat (hc_rx_parsed c) \<le> unat (hc_rx_head c)" using assms by (simp add: rx_ok_def word_le_nat_alt)
  then show ?thesis by (simp add: rx_bytes_def) (metis append_take_drop_id drop_drop le_add_diff_inverse add.commute)
qed

lemma consume_ok:
  assumes "rx_ok c" "unat n \<le> length (rx_bytes c)"
  shows "rx_ok (consume n c)" "rx_bytes (consume n c) = drop (unat n) (rx_bytes c)"
proof -
  have le: "unat (hc_rx_parsed c) + unat n \<le> unat (hc_rx_head c)"
    using assms(2) rx_ok_length [OF assms(1)] assms(1) unfolding rx_ok_def word_le_nat_alt by linarith
  then have p: "unat (hc_rx_parsed c + n) = unat (hc_rx_parsed c) + unat n"
    using unat_lt_u32 [of "hc_rx_head c"] by (simp add: word_nat_add_no_wrap)
  then show "rx_ok (consume n c)" using le assms(1) by (simp add: rx_ok_def consume_def word_le_nat_alt)
  show "rx_bytes (consume n c) = drop (unat n) (rx_bytes c)"
    using p le by (simp add: rx_bytes_def consume_def drop_take add.commute)
qed

lemma find_crlf_line: "13 \<notin> set line \<Longrightarrow> find_crlf (line @ CRLF @ rest) = Some (length line + 2)"
  by (induction line rule: induct_list012) (auto simp: CRLF_def)

lemma rx_line:
  assumes "rx_ok c" "rx_bytes c = line @ CRLF @ rest" "13 \<notin> set line"
  shows "find_crlf (rx_bytes c) = Some (length line + 2)"
    "rx_ok (consume (word_of_nat (length line + 2)) c)" "rx_bytes (consume (word_of_nat (length line + 2)) c) = rest"
proof -
  show f: "find_crlf (rx_bytes c) = Some (length line + 2)" using assms(2,3) by (simp add: find_crlf_line)
  note w = crlf_word [OF f]
  show "rx_ok (consume (word_of_nat (length line + 2)) c)" "rx_bytes (consume (word_of_nat (length line + 2)) c) = rest"
    using consume_ok [OF assms(1) w(2)] w(3) assms(2) by (simp_all add: CRLF_def)
qed

lemma rx_loop_again:
  assumes "rx_ok (rx_conn r)" "rx_bytes (rx_conn r) \<noteq> [] \<or> hc_state (rx_conn r) = HTTP_DONE" "rx_step r = Again r'"
  shows "rx_loop r = rx_loop r'"
proof -
  have "rx_more r" using assms(1,2) by (auto simp: rx_more_def rx_ok_def rx_bytes_def word_less_nat_alt word_le_nat_alt)
  then show ?thesis using assms(1,3) by (subst rx_loop.simps) (simp add: rx_ok_def)
qed

end
