(* ===== verification/HttpClient.thy ===== *)
theory HttpClient
  imports TcpConn Http11
begin

text \<open>
  The HTTP client inside \<^verbatim>\<open>net/tcp_fsm.c\<close>: tracking the body of a response, and the next request of a
  connection that is kept alive.  \<open>app_ctx\<close> is the address of the prebuilt request, 0 for a null
  pointer and 1 for the marker of throughput mode; reading a request at any other address that holds
  none is \<open>None\<close>.
\<close>

subsection \<open>Scanning a response\<close>

fun memmem :: "bytes \<Rightarrow> bytes \<Rightarrow> nat option" where
  "memmem [] p = (if p = [] then Some 0 else None)"
| "memmem (c # s) p = (if take (length p) (c # s) = p then Some 0 else map_option Suc (memmem s p))"

fun content_digits :: "u32 \<Rightarrow> bytes \<Rightarrow> u32" where
  "content_digits val [] = val"
| "content_digits val (c # s) =
     (if 48 \<le> c \<and> c \<le> 57 then content_digits (val * 10 + (ucast c - 48)) s else val)"

definition http_parse_content_length :: "bytes \<Rightarrow> u32" where
  "http_parse_content_length buf =
     (case (case memmem buf (str ''Content-Length: '') of
              Some k \<Rightarrow> Some k | None \<Rightarrow> memmem buf (str ''content-length: '')) of
        None \<Rightarrow> 0
      | Some k \<Rightarrow> content_digits 0 (drop (k + 16) buf))"

definition http_body_offset :: "bytes \<Rightarrow> u32" where
  "http_body_offset buf =
     (case memmem buf (CRLF @ CRLF) of None \<Rightarrow> word_of_nat (length buf) | Some k \<Rightarrow> word_of_nat k + 4)"

subsection \<open>Response bodies\<close>

text \<open>The connection is closed or reset when the body is complete; the result says whether it was.\<close>

definition finish_response :: "env \<Rightarrow> nat \<Rightarrow> worker \<Rightarrow> (bool \<times> worker) option" where
  "finish_response e i w =
     (let w = upd_tcb i (\<lambda>t. t\<lparr>app_state := 0\<rparr>) w
      in if graceful_close (tcb_at w i)
         then do { (_, w) \<leftarrow> tcp_fsm_close e i w; Some (True, w) }
         else do { w \<leftarrow> tcp_fsm_reset e i w; Some (True, w) })"

definition http_rsp_body_start :: "env \<Rightarrow> nat \<Rightarrow> bytes \<Rightarrow> worker \<Rightarrow> (bool \<times> worker) option" where
  "http_rsp_body_start e i buf w =
     (let w = upd_tcb i (\<lambda>t. t\<lparr>http_content_length := http_parse_content_length buf\<rparr>) w
      in if http_content_length (tcb_at w i) = 0
         then Some (False, upd_tcb i (\<lambda>t. t\<lparr>app_state := 0\<rparr>) w)
         else
           let body_off = http_body_offset buf; buf_len = word_of_nat (length buf);
               w = upd_tcb i (\<lambda>t. t\<lparr>http_body_rx := (if buf_len > body_off then buf_len - body_off else 0)\<rparr>) w
           in if http_body_rx (tcb_at w i) \<ge> http_content_length (tcb_at w i) then finish_response e i w
              else Some (False, upd_tcb i (\<lambda>t. t\<lparr>app_state := 6\<rparr>) w))"

definition http_rsp_body_recv :: "env \<Rightarrow> nat \<Rightarrow> u32 \<Rightarrow> worker \<Rightarrow> (bool \<times> worker) option" where
  "http_rsp_body_recv e i data_len w =
     (let w = upd_tcb i (\<lambda>t. t\<lparr>http_body_rx := http_body_rx t + data_len\<rparr>) w
      in if http_body_rx (tcb_at w i) \<ge> http_content_length (tcb_at w i) then finish_response e i w
         else Some (False, w))"

subsection \<open>Keep-alive\<close>

definition http_req_of :: "env \<Rightarrow> tcb \<Rightarrow> http_prebuilt_req option option" where
  "http_req_of e t =
     (if app_ctx t = 0 then Some None
      else case e_http_req e (app_ctx t) of None \<Rightarrow> None | Some hp \<Rightarrow> Some (Some hp))"

definition http_next_txn :: "env \<Rightarrow> nat \<Rightarrow> worker \<Rightarrow> (nat \<times> worker) option" where
  "http_next_txn e i w =
     do { hpb \<leftarrow> http_req_of e (tcb_at w i);
          case hpb of
            None \<Rightarrow> Some (0, w)
          | Some hp \<Rightarrow>
              if \<not> hp_keep_alive hp then Some (0, w)
              else
                let w = upd_tcb i (\<lambda>t. t\<lparr>http_txn_count := http_txn_count t + 1\<rparr>) w
                in if hp_txn_per_conn hp > 0 \<and> http_txn_count (tcb_at w i) \<ge> hp_txn_per_conn hp then Some (0, w)
                   else if hp_think_time_us hp > 0 then
                     let (now, w) = rdtsc w;
                         w = upd_tcb i (\<lambda>t. t\<lparr>think_deadline_tsc :=
                                 now + ucast (hp_think_time_us hp) * e_g_tsc_hz e div 1000000\<rparr>) w
                     in Some (7, tcp_timer_resched i w)
                   else Some (4, w) }"

definition add_http_req :: "worker \<Rightarrow> worker" where
  "add_http_req = upd_metrics (\<lambda>m. m\<lparr>m_http_req_tx := m_http_req_tx m + 1\<rparr>)"

definition add_tls_tx :: "worker \<Rightarrow> worker" where
  "add_tls_tx = upd_metrics (\<lambda>m. m\<lparr>m_tls_records_tx := m_tls_records_tx m + 1\<rparr>)"

text \<open>Encrypting into a buffer of \<open>cap\<close> bytes and sending what came out.\<close>

definition tls_encrypt_send ::
  "env \<Rightarrow> nat \<Rightarrow> tls_session \<Rightarrow> bytes \<Rightarrow> nat \<Rightarrow> worker \<Rightarrow> (int \<times> worker) option" where
  "tls_encrypt_send e i ts plain cap w =
     (let (ct_len, ct, ts') = tls_encrypt (e_ssl e) ts plain cap; w = tls_session_put i ts' w
      in if ct_len > 0
         then do { (_, w) \<leftarrow> tcp_fsm_send e i ct (word_of_int ct_len) w; Some (ct_len, w) }
         else Some (ct_len, w))"

definition request_bytes :: "http_prebuilt_req \<Rightarrow> bytes option" where
  "request_bytes hp =
     (if unat (hp_hdr_len hp) > length (hp_hdr hp) then None else Some (take (unat (hp_hdr_len hp)) (hp_hdr hp)))"

definition http_send_next_request :: "env \<Rightarrow> nat \<Rightarrow> worker \<Rightarrow> worker option" where
  "http_send_next_request e i w =
     do { hpb \<leftarrow> http_req_of e (tcb_at w i);
          case hpb of
            None \<Rightarrow> Some w
          | Some hp \<Rightarrow>
              if hp_hdr_len hp = 0 then Some w
              else
                do { hdr \<leftarrow> request_bytes hp;
                     w \<leftarrow> (case tls_session_get i w of
                            Some ts \<Rightarrow> do { (_, w) \<leftarrow> tls_encrypt_send e i ts hdr 4096 w; Some (add_tls_tx w) }
                          | None \<Rightarrow> do { (_, w) \<leftarrow> tcp_fsm_send e i hdr (hp_hdr_len hp) w; Some w });
                     let w = add_http_req w; (now, w) = rdtsc w;
                         w = upd_tcb i (\<lambda>t. t\<lparr>http_req_sent_tsc := now, app_state := 5\<rparr>) w
                     in Some (tcp_timer_resched i w) } }"

definition tcp_fsm_http_send_next :: "env \<Rightarrow> nat \<Rightarrow> worker \<Rightarrow> worker option" where
  "tcp_fsm_http_send_next = http_send_next_request"

end
