(* ===== verification/Server.thy ===== *)
theory Server
  imports HttpClient
begin

text \<open>
  Server mode (\<^verbatim>\<open>app/server.c\<close>): the listener table of a worker and the handlers that run when a
  connection is established and when data arrives on it.
\<close>

definition SRV_MAX_LISTENERS :: nat where "SRV_MAX_LISTENERS = 16"
definition SRV_CHUNK_SIZE :: u32 where "SRV_CHUNK_SIZE = 4096"

subsection \<open>Listener table\<close>

record srv_listen_spec =
  ls_port :: u16
  ls_handler :: srv_handler

record srv_ipc_payload =
  sp_specs :: "srv_listen_spec list"
  sp_count :: u32
  sp_http_body_size :: u32

text \<open>The handler's index in the name table; every value of the enumeration has one.\<close>

fun srv_handler_name :: "srv_handler \<Rightarrow> string" where
  "srv_handler_name SRV_HANDLER_NONE = ''none''"
| "srv_handler_name SRV_HANDLER_ECHO = ''echo''"
| "srv_handler_name SRV_HANDLER_DISCARD = ''discard''"
| "srv_handler_name SRV_HANDLER_CHARGEN = ''chargen''"
| "srv_handler_name SRV_HANDLER_HTTP = ''http''"
| "srv_handler_name SRV_HANDLER_HTTPS = ''https''"
| "srv_handler_name SRV_HANDLER_TLS_ECHO = ''tls_echo''"

definition listener_zero :: srv_listener where
  "listener_zero = \<lparr>l_port = 0, l_handler = SRV_HANDLER_NONE, l_active = False, l_conns_accepted = 0,
     l_conns_active = 0, l_rx_bytes = 0, l_tx_bytes = 0, l_http_resps_sent = 0\<rparr>"

text \<open>The response is built into the 18000-byte buffer of the table.\<close>

definition srv_build_http_response :: "u32 \<Rightarrow> srv_table \<Rightarrow> srv_table option" where
  "srv_build_http_response body_size tbl =
     (let body_size = (if body_size = 0 then 1024 else body_size);
          tbl = tbl\<lparr>srv_chunked_body_size := body_size\<rparr>
      in do { (len, out) \<leftarrow>
                (if body_size \<le> 16384
                 then http11_tx_response 18000 200 (Some (str ''OK'')) (Some (str ''text/plain''))
                        (Some (replicate (unat body_size) 65)) body_size
                 else http11_tx_response_chunked_hdr 18000 200 (Some (str ''OK'')) (Some (str ''text/plain'')));
              Some (tbl\<lparr>srv_http_response := put_at 0 out (srv_http_response tbl),
                        srv_http_response_len := (if len > 0 then word_of_int len else 0)\<rparr>) })"

definition listener_of_spec :: "srv_listen_spec \<Rightarrow> srv_listener" where
  "listener_of_spec sp = listener_zero\<lparr>l_port := ls_port sp, l_handler := ls_handler sp, l_active := True\<rparr>"

definition srv_table_configure :: "srv_ipc_payload \<Rightarrow> srv_table \<Rightarrow> srv_table option" where
  "srv_table_configure cfg tbl =
     (let n = min (unat (sp_count cfg)) SRV_MAX_LISTENERS;
          tbl = tbl\<lparr>srv_listeners := map listener_of_spec (take n (sp_specs cfg)) @
                      replicate (SRV_MAX_LISTENERS - n) listener_zero, srv_count := n\<rparr>
      in if n > length (sp_specs cfg) then None
         else
           do { tbl \<leftarrow> srv_build_http_response (sp_http_body_size cfg) tbl;
                Some (tbl\<lparr>srv_chargen_buf := map (\<lambda>k. 32 + word_of_nat (k mod 95)) [0..<1460],
                          srv_serving := (srv_count tbl > 0)\<rparr>) })"

definition srv_table_stop_all :: "srv_table \<Rightarrow> srv_table" where
  "srv_table_stop_all tbl =
     tbl\<lparr>srv_listeners := map (\<lambda>l. l\<lparr>l_active := False\<rparr>) (take (srv_count tbl) (srv_listeners tbl)) @
                          drop (srv_count tbl) (srv_listeners tbl), srv_serving := False\<rparr>"

definition srv_table_stop_one :: "nat \<Rightarrow> srv_table \<Rightarrow> srv_table" where
  "srv_table_stop_one k tbl =
     (let tbl = (if k < srv_count tbl
                 then tbl\<lparr>srv_listeners := (srv_listeners tbl)[k := (srv_listeners tbl ! k)\<lparr>l_active := False\<rparr>]\<rparr>
                 else tbl)
      in tbl\<lparr>srv_serving := list_ex l_active (take (srv_count tbl) (srv_listeners tbl))\<rparr>)"

definition srv_lookup_port :: "u16 \<Rightarrow> srv_table \<Rightarrow> srv_handler" where
  "srv_lookup_port p tbl =
     (case find (\<lambda>l. l_port l = p \<and> l_active l) (take (srv_count tbl) (srv_listeners tbl)) of
        Some l \<Rightarrow> l_handler l | None \<Rightarrow> SRV_HANDLER_NONE)"

definition srv_find_listener :: "u16 \<Rightarrow> srv_table \<Rightarrow> nat option" where
  "srv_find_listener p tbl = find (\<lambda>k. l_port (srv_listeners tbl ! k) = p) [0..<srv_count tbl]"

definition upd_listener :: "nat \<Rightarrow> (srv_listener \<Rightarrow> srv_listener) \<Rightarrow> worker \<Rightarrow> worker" where
  "upd_listener k f w =
     w\<lparr>srv := (srv w)\<lparr>srv_listeners := (srv_listeners (srv w))[k := f (srv_listeners (srv w) ! k)]\<rparr>\<rparr>"

subsection \<open>Chunked streaming\<close>

text \<open>
  One chunk of the body per call, the final chunk when the whole body is queued.  The progress is
  counted even when the send buffer takes only part of the chunk.
\<close>

definition srv_stream_pump :: "env \<Rightarrow> nat \<Rightarrow> worker \<Rightarrow> worker option" where
  "srv_stream_pump e i w =
     (let t = tcb_at w i
      in if app_state t \<noteq> 12 \<or> srv_stream_total t = 0 then Some w
         else if (case snd_buf t of Some sb \<Rightarrow> sb_len sb > SRV_CHUNK_SIZE * 4 | None \<Rightarrow> False) then Some w
         else
           let remaining = srv_stream_total t - srv_stream_sent t
           in if remaining = 0 then
                do { w \<leftarrow> (let (elen, fin) = http11_tx_chunk_end 8
                          in if elen > 0 then map_option snd (tcp_fsm_send e i fin (word_of_int elen) w) else Some w);
                     Some (upd_tcb i (\<lambda>t. t\<lparr>app_state := 11, srv_stream_total := 0, srv_stream_sent := 0\<rparr>) w) }
              else
                let chunk_body = (if remaining < SRV_CHUNK_SIZE then remaining else SRV_CHUNK_SIZE)
                in do { (flen, ch) \<leftarrow> http11_tx_chunk 4112 (replicate (unat chunk_body) 65) chunk_body;
                        if flen > 0 then
                          do { (_, w) \<leftarrow> tcp_fsm_send e i ch (word_of_int flen) w;
                               let w = upd_tcb i (\<lambda>t. t\<lparr>srv_stream_sent := srv_stream_sent t + chunk_body\<rparr>) w;
                                   t = tcb_at w i;
                                   lport = (if active_open t then dst_port t else src_port t)
                               in Some (case srv_find_listener lport (srv w) of
                                          Some k \<Rightarrow> upd_listener k (\<lambda>l. l\<lparr>l_tx_bytes := l_tx_bytes l + word_of_int flen\<rparr>) w
                                        | None \<Rightarrow> w) }
                        else Some w })"

subsection \<open>A connection is established\<close>

definition send_chargen :: "env \<Rightarrow> nat \<Rightarrow> nat \<Rightarrow> worker \<Rightarrow> worker option" where
  "send_chargen e i k w =
     do { (_, w) \<leftarrow> tcp_fsm_send e i (srv_chargen_buf (srv w)) 1460 w;
          Some (upd_listener k (\<lambda>l. l\<lparr>l_tx_bytes := l_tx_bytes l + 1460\<rparr>) w) }"

definition srv_on_established :: "env \<Rightarrow> nat \<Rightarrow> u16 \<Rightarrow> worker \<Rightarrow> worker option" where
  "srv_on_established e i listen_port w =
     (case srv_find_listener listen_port (srv w) of
        None \<Rightarrow> Some w
      | Some k \<Rightarrow>
          let w = upd_listener k (\<lambda>l. l\<lparr>l_conns_accepted := l_conns_accepted l + 1,
                                        l_conns_active := l_conns_active l + 1\<rparr>) w;
              h = l_handler (srv_listeners (srv w) ! k)
          in if h = SRV_HANDLER_CHARGEN
             then send_chargen e i k (upd_tcb i (\<lambda>t. t\<lparr>app_state := 10\<rparr>) w)
             else if h = SRV_HANDLER_HTTPS \<or> h = SRV_HANDLER_TLS_ECHO then
               let (trc, w) = tls_session_attach e i True w
               in if trc = 0
                  then let w = upd_tcb i (\<lambda>t. t\<lparr>app_state := 20\<rparr>) w; (now, w) = rdtsc w
                       in Some (upd_tcb i (\<lambda>t. t\<lparr>tls_hs_start_tsc := now\<rparr>) w)
                  else tcp_fsm_reset e i w
             else if h = SRV_HANDLER_ECHO \<or> h = SRV_HANDLER_DISCARD \<or> h = SRV_HANDLER_HTTP
             then Some (upd_tcb i (\<lambda>t. t\<lparr>app_state := 11\<rparr>) w)
             else Some w)"

subsection \<open>Data arrives\<close>

text \<open>Recording a latency divides by \<^verbatim>\<open>rte_get_tsc_hz()\<close>.\<close>

definition latency_us :: "u64 \<Rightarrow> worker \<Rightarrow> (u64 \<times> worker) option" where
  "latency_us since w =
     (let (now, w) = rdtsc w in if tsc_hz w = 0 then None else Some ((now - since) * 1000000 div tsc_hz w, w))"

definition record_latency :: "u64 \<Rightarrow> worker \<Rightarrow> worker option" where
  "record_latency since w = do { (us, w) \<leftarrow> latency_us since w; Some (w\<lparr>latency := hist_record us (latency w)\<rparr>) }"

definition add_tls_ok :: "worker \<Rightarrow> worker" where
  "add_tls_ok = upd_metrics (\<lambda>m. m\<lparr>m_tls_handshake_ok := m_tls_handshake_ok m + 1\<rparr>)"

definition add_tls_fail :: "worker \<Rightarrow> worker" where
  "add_tls_fail = upd_metrics (\<lambda>m. m\<lparr>m_tls_handshake_fail := m_tls_handshake_fail m + 1\<rparr>)"

definition add_tls_rx :: "worker \<Rightarrow> worker" where
  "add_tls_rx = upd_metrics (\<lambda>m. m\<lparr>m_tls_records_rx := m_tls_records_rx m + 1\<rparr>)"

definition srv_http_request :: "env \<Rightarrow> nat \<Rightarrow> nat \<Rightarrow> bytes \<Rightarrow> worker \<Rightarrow> worker option" where
  "srv_http_request e i k data w =
     (let tbl = srv w; n = srv_http_response_len tbl
      in if memmem data (CRLF @ CRLF) = None \<or> n = 0 then Some w
         else
           do { (_, w) \<leftarrow> tcp_fsm_send e i (srv_http_response tbl) n w;
                let w = upd_listener k (\<lambda>l. l\<lparr>l_tx_bytes := l_tx_bytes l + ucast n\<rparr>) w
                in do { w \<leftarrow> (if srv_chunked_body_size tbl \<le> 16384 then Some w
                              else srv_stream_pump e i
                                     (upd_tcb i (\<lambda>t. t\<lparr>srv_stream_total := srv_chunked_body_size tbl,
                                                        srv_stream_sent := 0, app_state := 12\<rparr>) w));
                        Some (add_http_req (upd_listener k (\<lambda>l. l\<lparr>l_http_resps_sent := l_http_resps_sent l + 1\<rparr>) w)) } })"

definition srv_tls_handshake :: "env \<Rightarrow> nat \<Rightarrow> tls_session \<Rightarrow> bytes \<Rightarrow> worker \<Rightarrow> worker option" where
  "srv_tls_handshake e i ts data w =
     (let (hr, out, ts) = tls_handshake (e_ssl e) ts data 4096; w = tls_session_put i ts w
      in do { w \<leftarrow> (if out \<noteq> [] then map_option snd (tcp_fsm_send e i out (word_of_nat (length out)) w) else Some w);
              if hr = 1 then
                let w = add_tls_ok (upd_tcb i (\<lambda>t. t\<lparr>app_state := 21\<rparr>) w)
                in record_latency (tls_hs_start_tsc (tcb_at w i)) w
              else if hr < 0 then tcp_fsm_reset e i (add_tls_fail w)
              else Some w })"

text \<open>The plaintext of a record: echoed, or answered with the prebuilt response.\<close>

definition srv_tls_plain ::
  "env \<Rightarrow> nat \<Rightarrow> nat \<Rightarrow> srv_handler \<Rightarrow> tls_session \<Rightarrow> bytes \<Rightarrow> worker \<Rightarrow> worker option" where
  "srv_tls_plain e i k h ts plain w =
     (if h = SRV_HANDLER_TLS_ECHO then
        do { (ct_len, w) \<leftarrow> tls_encrypt_send e i ts plain 4096 w;
             if ct_len > 0
             then Some (add_tls_tx (upd_listener k (\<lambda>l. l\<lparr>l_tx_bytes := l_tx_bytes l + word_of_int ct_len\<rparr>) w))
             else Some w }
      else
        let tbl = srv w; n = srv_http_response_len tbl
        in if memmem plain (CRLF @ CRLF) = None \<or> n = 0 then Some w
           else if unat n > length (srv_http_response tbl) then None
           else
             do { (ct_len, w) \<leftarrow> tls_encrypt_send e i ts (take (unat n) (srv_http_response tbl)) 18000 w;
                  if ct_len > 0
                  then Some (add_http_req (add_tls_tx
                         (upd_listener k (\<lambda>l. l\<lparr>l_tx_bytes := l_tx_bytes l + word_of_int ct_len,
                                                l_http_resps_sent := l_http_resps_sent l + 1\<rparr>) w)))
                  else Some w })"

definition srv_tls_data ::
  "env \<Rightarrow> nat \<Rightarrow> nat \<Rightarrow> srv_handler \<Rightarrow> bytes \<Rightarrow> worker \<Rightarrow> worker option" where
  "srv_tls_data e i k h data w =
     (case tls_session_get i w of
        None \<Rightarrow> Some w
      | Some ts \<Rightarrow>
          if app_state (tcb_at w i) = 20 then srv_tls_handshake e i ts data w
          else if app_state (tcb_at w i) = 21 then
            let (plen, plain, ts) = tls_decrypt (e_ssl e) ts data 4096; w = tls_session_put i ts w
            in if plen \<le> 0 then Some w else srv_tls_plain e i k h ts plain (add_tls_rx w)
          else Some w)"

definition srv_on_data :: "env \<Rightarrow> nat \<Rightarrow> bytes \<Rightarrow> u16 \<Rightarrow> worker \<Rightarrow> worker option" where
  "srv_on_data e i data listen_port w =
     (case srv_find_listener listen_port (srv w) of
        None \<Rightarrow> Some w
      | Some k \<Rightarrow>
          let len = word_of_nat (length data);
              w = upd_listener k (\<lambda>l. l\<lparr>l_rx_bytes := l_rx_bytes l + ucast len\<rparr>) w;
              h = l_handler (srv_listeners (srv w) ! k)
          in if h = SRV_HANDLER_ECHO
             then do { (_, w) \<leftarrow> tcp_fsm_send e i data len w;
                       Some (upd_listener k (\<lambda>l. l\<lparr>l_tx_bytes := l_tx_bytes l + ucast len\<rparr>) w) }
             else if h = SRV_HANDLER_CHARGEN then send_chargen e i k w
             else if h = SRV_HANDLER_HTTP then srv_http_request e i k data w
             else if h = SRV_HANDLER_HTTPS \<or> h = SRV_HANDLER_TLS_ECHO then srv_tls_data e i k h data w
             else Some w)"

end
