(* ===== verification/AppStep.thy ===== *)
theory AppStep
  imports Server
begin

text \<open>
  What the applications do to a connection: HTTP client, server handlers and TLS only send on it,
  change its bookkeeping, close it or reset it.  \<open>stays\<close> holds between the worker before and after
  steps that leave the connection in its state, \<open>evolves\<close> also allows it to be closed or reset.
\<close>

subsection \<open>Invariant of the application layer\<close>

text \<open>The addresses in \<open>app_ctx\<close> denote prebuilt requests, and the tables of the server are as
  configured.\<close>

definition req_ok :: "env \<Rightarrow> nat \<Rightarrow> bool" where
  "req_ok e a \<longleftrightarrow> (case e_http_req e a of None \<Rightarrow> False | Some hp \<Rightarrow> unat (hp_hdr_len hp) \<le> length (hp_hdr hp))"

definition ctx_ok :: "env \<Rightarrow> tcb \<Rightarrow> bool" where
  "ctx_ok e t \<longleftrightarrow> (app_ctx t = 0 \<or> app_ctx t = 1 \<or> req_ok e (app_ctx t)) \<and>
     (app_state t = 4 \<or> app_state t = 5 \<or> app_state t = 7 \<longrightarrow> app_ctx t \<noteq> 1)"

definition srv_ok :: "srv_table \<Rightarrow> bool" where
  "srv_ok tbl \<longleftrightarrow> srv_count tbl \<le> length (srv_listeners tbl) \<and> length (srv_chargen_buf tbl) = 1460 \<and>
     unat (srv_http_response_len tbl) \<le> length (srv_http_response tbl)"

definition good :: "env \<Rightarrow> nat \<Rightarrow> worker \<Rightarrow> bool" where
  "good e i w \<longleftrightarrow> env_ok e \<and> worker_ok w \<and> i < capacity w \<and> ctx_ok e (tcb_at w i) \<and> srv_ok (srv w)"

text \<open>The transitions an application can cause.\<close>

inductive app_edge :: "tcp_state \<Rightarrow> tcp_state \<Rightarrow> bool" where
  close_active: "app_edge TCP_ESTABLISHED TCP_FIN_WAIT_1"
| close_passive: "app_edge TCP_CLOSE_WAIT TCP_LAST_ACK"
| abort: "app_edge s TCP_CLOSED"

inductive_cases app_edge_closedE: "app_edge TCP_CLOSED s"

definition stays :: "env \<Rightarrow> nat \<Rightarrow> worker \<Rightarrow> worker \<Rightarrow> bool" where
  "stays e i w w' \<longleftrightarrow> worker_ok w' \<and> conn_step i w w' \<and> ctx_ok e (tcb_at w' i) \<and> srv_ok (srv w') \<and>
     state (tcb_at w' i) = state (tcb_at w i) \<and> in_use (tcb_at w' i) = in_use (tcb_at w i) \<and>
     app_ctx (tcb_at w' i) = app_ctx (tcb_at w i)"

definition evolves :: "env \<Rightarrow> nat \<Rightarrow> worker \<Rightarrow> worker \<Rightarrow> bool" where
  "evolves e i w w' \<longleftrightarrow> worker_ok w' \<and> conn_step i w w' \<and> ctx_ok e (tcb_at w' i) \<and> srv_ok (srv w') \<and>
     app_edge\<^sup>*\<^sup>* (state (tcb_at w i)) (state (tcb_at w' i))"

lemma goodD:
  assumes "good e i w"
  shows "env_ok e" "worker_ok w" "i < capacity w" "ctx_ok e (tcb_at w i)" "srv_ok (srv w)" "i < length (tcbs w)"
    "tcb_ok (tcb_at w i)"
  using assms worker_okD(7) [of w] worker_okD(2) [of w i] by (auto simp: good_def)

lemma stays_refl: "good e i w \<Longrightarrow> stays e i w w"
  by (simp add: good_def stays_def)

lemma stays_trans: "stays e i a b \<Longrightarrow> stays e i b c \<Longrightarrow> stays e i a c"
  using conn_step_trans by (auto simp: stays_def)

lemma stays_good: "good e i w \<Longrightarrow> stays e i w w' \<Longrightarrow> good e i w'"
  using conn_step_capacity [of i w w'] by (auto simp: stays_def good_def)

lemma stays_evolves: "stays e i w w' \<Longrightarrow> evolves e i w w'"
  by (simp add: stays_def evolves_def)

lemma evolves_refl: "good e i w \<Longrightarrow> evolves e i w w"
  by (simp add: stays_evolves stays_refl)

lemma evolves_trans: "evolves e i a b \<Longrightarrow> evolves e i b c \<Longrightarrow> evolves e i a c"
  using conn_step_trans rtranclp_trans by (fastforce simp: evolves_def)

lemma evolves_good: "good e i w \<Longrightarrow> evolves e i w w' \<Longrightarrow> good e i w'"
  using conn_step_capacity [of i w w'] by (auto simp: evolves_def good_def)

lemma stays_in_use: "stays e i w w' \<Longrightarrow> in_use (tcb_at w' i) = in_use (tcb_at w i)"
  by (simp add: stays_def)

text \<open>A block with an application or in an open state is in use.\<close>

lemma good_in_use:
  assumes "good e i w" "app_state (tcb_at w i) \<noteq> 0 \<or> state (tcb_at w i) \<noteq> TCP_CLOSED"
  shows "in_use (tcb_at w i)"
  using goodD(7) [OF assms(1)] assms(2) by (auto simp: tcb_ok_def)

subsection \<open>Steps\<close>

lemma stays_fields [simp]:
  "stays e i w (upd_metrics f w') = stays e i w w'" "stays e i w (w'\<lparr>latency := h\<rparr>) = stays e i w w'"
  "stays e i w (w'\<lparr>tsc_pos := n\<rparr>) = stays e i w w'" "stays e i w (next_ext w') = stays e i w w'"
  by (simp_all add: stays_def conn_step_def next_ext_def)

lemma stays_rdtsc [simp]: "stays e i w (snd (rdtsc w')) = stays e i w w'"
  by (simp add: rdtsc_def)

lemma stays_session [simp]: "stays e i w (tls_session_put i ts w') = stays e i w w'"
  by (simp add: stays_def conn_step_def tls_session_put_def)

lemma stays_listener [simp]: "stays e i w (upd_listener k f w') = stays e i w w'"
  by (simp add: stays_def conn_step_def upd_listener_def srv_ok_def)

lemma tcb_at_fields [simp]:
  "tcb_at (tls_session_put j ts w) i = tcb_at w i" "tcb_at (upd_listener k f w) i = tcb_at w i"
  "tcb_at (snd (rdtsc w)) i = tcb_at w i"
  by (simp_all add: tls_session_put_def upd_listener_def rdtsc_def)

lemma stays_sends:
  assumes "good e i w" "worker_ok w'" "sends i w w'"
  shows "stays e i w w'"
  using assms sends_tcbD(15,16,17,19) [OF assms(3)] sendsD(5) [OF assms(3)] conn_step_sends [OF assms(3)]
  by (simp add: stays_def good_def ctx_ok_def)

text \<open>Updates of the block's own fields.\<close>

lemma stays_upd:
  assumes "good e i w" "link_neutral f" "tcb_ok (f (tcb_at w i))" "ctx_ok e (f (tcb_at w i))"
    "state (f (tcb_at w i)) = state (tcb_at w i)" "app_ctx (f (tcb_at w i)) = app_ctx (tcb_at w i)"
  shows "stays e i w (upd_tcb i f w)"
proof -
  note g = goodD [OF assms(1)]
  have "worker_ok (upd_tcb i f w)" by (rule worker_ok_upd_tcb [OF g(2) assms(2) g(3) assms(3)])
  moreover have "tcb_at (upd_tcb i f w) i = f (tcb_at w i)" using g(6) by simp
  ultimately show ?thesis using assms(2,4,5,6) g(5) by (simp add: stays_def link_neutral_def)
qed

lemmas upd_simps = link_neutral_def key_of_def tcb_ok_def cc_ok_def ctx_ok_def

text \<open>Fields that no invariant speaks about.\<close>

definition app_field :: "(tcb \<Rightarrow> tcb) \<Rightarrow> bool" where
  "app_field f \<longleftrightarrow> link_neutral f \<and> (\<forall>t. tcb_ok t \<longrightarrow> in_use t \<or> app_state (f t) = 0 \<longrightarrow> tcb_ok (f t)) \<and>
     (\<forall>t. state (f t) = state t \<and> app_ctx (f t) = app_ctx t)"

lemma stays_app_field:
  assumes "good e i w" "app_field f" "in_use (tcb_at w i) \<or> app_state (f (tcb_at w i)) = 0"
    and "app_state (f (tcb_at w i)) \<in> {4, 5, 7} \<Longrightarrow> app_ctx (tcb_at w i) \<noteq> 1"
  shows "stays e i w (upd_tcb i f w)"
  using assms goodD [OF assms(1)] by (intro stays_upd) (auto simp: app_field_def ctx_ok_def)

lemma app_fields:
  "app_field (\<lambda>t. t\<lparr>app_state := a\<rparr>)" "app_field (\<lambda>t. t\<lparr>http_content_length := b\<rparr>)" "app_field (\<lambda>t. t\<lparr>http_body_rx := c t\<rparr>)"
  "app_field (\<lambda>t. t\<lparr>http_txn_count := d t\<rparr>)" "app_field (\<lambda>t. t\<lparr>think_deadline_tsc := x\<rparr>)"
  "app_field (\<lambda>t. t\<lparr>http_req_sent_tsc := x, app_state := a\<rparr>)" "app_field (\<lambda>t. t\<lparr>tls_hs_start_tsc := x\<rparr>)"
  "app_field (\<lambda>t. t\<lparr>app_state := a, srv_stream_total := b, srv_stream_sent := b'\<rparr>)"
  "app_field (\<lambda>t. t\<lparr>srv_stream_total := b, srv_stream_sent := b', app_state := a\<rparr>)"
  "app_field (\<lambda>t. t\<lparr>srv_stream_sent := c t\<rparr>)"
  by (auto simp: app_field_def upd_simps)

lemma send_stays:
  assumes "good e i w" "unat len \<le> length data"
  shows "yields (tcp_fsm_send e i data len w) (\<lambda>r. stays e i w (snd r))"
proof (cases "in_use (tcb_at w i)")
  case True
  note g = goodD [OF assms(1)]
  show ?thesis
    by (rule yields_mono [OF tcp_fsm_send_ok [OF g(2,1,3) True assms(2)]]) (use stays_sends [OF assms(1)] in auto)
next
  case False
  then have "state (tcb_at w i) = TCP_CLOSED" using goodD(7) [OF assms(1)] by (auto simp: tcb_ok_def)
  then show ?thesis using stays_refl [OF assms(1)] by (simp add: tcp_fsm_send_def)
qed

lemma close_evolves:
  assumes "good e i w"
  shows "yields (tcp_fsm_close e i w) (\<lambda>r. evolves e i w (snd r))"
proof (cases "in_use (tcb_at w i)")
  case False
  then have "state (tcb_at w i) = TCP_CLOSED" using goodD(7) [OF assms(1)] by (auto simp: tcb_ok_def)
  then show ?thesis using evolves_refl [OF assms(1)] by (simp add: tcp_fsm_close_def)
next
  case True
  note g = goodD [OF assms(1)]
  show ?thesis
  proof (rule yields_mono [OF tcp_fsm_close_ok [OF g(2,1,3) True]], clarify)
    fix rc w'
    assume w': "worker_ok w'" "conn_step i w w'" "srv w' = srv w" "app_state (tcb_at w' i) = app_state (tcb_at w i)"
      "app_ctx (tcb_at w' i) = app_ctx (tcb_at w i)"
      and st: "state (tcb_at w' i) = (if state (tcb_at w i) = TCP_ESTABLISHED then TCP_FIN_WAIT_1
        else if state (tcb_at w i) = TCP_CLOSE_WAIT then TCP_LAST_ACK else state (tcb_at w i))"
    have "app_edge\<^sup>*\<^sup>* (state (tcb_at w i)) (state (tcb_at w' i))"
      unfolding st by (auto intro: close_active close_passive)
    then show "evolves e i w (snd (rc, w'))" using w' g(4,5) by (simp add: evolves_def ctx_ok_def)
  qed
qed

lemma ctx_ok_zero: "ctx_ok e tcb_zero"
  by (simp add: ctx_ok_def tcb_zero_def)

text \<open>A released block is closed.\<close>

lemma torn_down_evolves:
  assumes "good e i w" "torn_down i w w'"
  shows "evolves e i w w'"
proof -
  have "state (tcb_at w' i) = TCP_CLOSED" using assms(2) by (simp add: torn_down_def tcb_zero_def)
  then have "app_edge\<^sup>*\<^sup>* (state (tcb_at w i)) (state (tcb_at w' i))" by (simp add: abort r_into_rtranclp)
  then show ?thesis using assms conn_step_torn [OF assms(2)] goodD(5) [OF assms(1)] ctx_ok_zero
    by (simp add: evolves_def torn_down_def)
qed

lemma reset_evolves:
  assumes "good e i w" "in_use (tcb_at w i)"
  shows "yields (tcp_fsm_reset e i w) (evolves e i w)"
  using goodD [OF assms(1)] assms torn_down_evolves [OF assms(1)]
  by (intro yields_mono [OF tcp_fsm_reset_ok]) auto

text \<open>Composition: steps that stay, then one that may leave the state.\<close>

lemma yields_map [simp]: "yields (map_option f m) P = yields m (\<lambda>x. P (f x))"
  by (cases m) simp_all

lemma stays_then:
  assumes "good e i w" "yields m (\<lambda>x. stays e i w (g x))"
    and "\<And>x. good e i (g x) \<Longrightarrow> stays e i w (g x) \<Longrightarrow> yields (f x) (\<lambda>y. evolves e i (g x) (h y))"
  shows "yields (m \<bind> f) (\<lambda>y. evolves e i w (h y))"
proof (rule yields_bindI [OF assms(2)])
  fix x assume x: "stays e i w (g x)"
  show "yields (f x) (\<lambda>y. evolves e i w (h y))"
    by (rule yields_mono [OF assms(3) [OF stays_good [OF assms(1) x] x]]) (rule evolves_trans [OF stays_evolves [OF x]])
qed

lemma stays_chain:
  assumes "good e i w" "yields m (\<lambda>x. stays e i w (g x))"
    and "\<And>x. good e i (g x) \<Longrightarrow> stays e i w (g x) \<Longrightarrow> yields (f x) (\<lambda>y. stays e i (g x) (h y))"
  shows "yields (m \<bind> f) (\<lambda>y. stays e i w (h y))"
proof (rule yields_bindI [OF assms(2)])
  fix x assume x: "stays e i w (g x)"
  show "yields (f x) (\<lambda>y. stays e i w (h y))"
    by (rule yields_mono [OF assms(3) [OF stays_good [OF assms(1) x] x]]) (rule stays_trans [OF x])
qed

lemma after_stays:
  assumes "good e i w" "stays e i w w1" "good e i w1 \<Longrightarrow> yields m (\<lambda>y. evolves e i w1 (h y))"
  shows "yields m (\<lambda>y. evolves e i w (h y))"
  by (rule yields_mono [OF assms(3) [OF stays_good [OF assms(1,2)]]]) (rule evolves_trans [OF stays_evolves [OF assms(2)]])

lemma yields_stays: "yields m (\<lambda>y. stays e i w (h y)) \<Longrightarrow> yields m (\<lambda>y. evolves e i w (h y))"
  by (erule yields_mono) (rule stays_evolves)

subsection \<open>HTTP client\<close>

lemma finish_response_evolves:
  assumes "good e i w" "in_use (tcb_at w i)"
  shows "yields (finish_response e i w) (\<lambda>r. evolves e i w (snd r))"
proof -
  let ?w = "upd_tcb i (\<lambda>t. t\<lparr>app_state := 0\<rparr>) w"
  have s: "stays e i w ?w" by (rule stays_app_field [OF assms(1) app_fields(1)]) simp_all
  show ?thesis
  proof (rule after_stays [OF assms(1) s])
    assume g: "good e i ?w"
    have u: "in_use (tcb_at ?w i)" using stays_in_use [OF s] assms(2) by simp
    have "yields (tcp_fsm_close e i ?w \<bind> (\<lambda>(_, w). Some (True, w))) (\<lambda>r. evolves e i ?w (snd r))"
      by (rule yields_bindI [OF close_evolves [OF g]]) auto
    moreover have "yields (tcp_fsm_reset e i ?w \<bind> (\<lambda>w. Some (True, w))) (\<lambda>r. evolves e i ?w (snd r))"
      by (rule yields_bindI [OF reset_evolves [OF g u]]) simp
    ultimately show "yields (finish_response e i w) (\<lambda>r. evolves e i ?w (snd r))"
      by (simp add: finish_response_def Let_def)
  qed
qed

lemma body_recv_evolves:
  assumes "good e i w" "in_use (tcb_at w i)"
  shows "yields (http_rsp_body_recv e i n w) (\<lambda>r. evolves e i w (snd r))"
proof -
  let ?w = "upd_tcb i (\<lambda>t. t\<lparr>http_body_rx := http_body_rx t + n\<rparr>) w"
  have s: "stays e i w ?w" by (rule stays_app_field [OF assms(1) app_fields(3)]) (use assms goodD(4) [OF assms(1)] in \<open>auto simp: ctx_ok_def\<close>)
  have u: "in_use (tcb_at ?w i)" using stays_in_use [OF s] assms(2) by simp
  show ?thesis
    by (rule after_stays [OF assms(1) s])
      (use finish_response_evolves [of e i ?w] u evolves_refl [of e i ?w] in \<open>simp add: http_rsp_body_recv_def Let_def\<close>)
qed

lemma body_start_evolves:
  assumes "good e i w" "in_use (tcb_at w i)"
  shows "yields (http_rsp_body_start e i buf w) (\<lambda>r. evolves e i w (snd r))"
proof -
  let ?w = "upd_tcb i (\<lambda>t. t\<lparr>http_content_length := http_parse_content_length buf\<rparr>) w"
  define off where "off = http_body_offset buf"
  let ?x = "if word_of_nat (length buf) > off then word_of_nat (length buf) - off else 0"
  let ?v = "upd_tcb i (\<lambda>t. t\<lparr>http_body_rx := ?x\<rparr>) ?w"
  have s: "stays e i w ?w" by (rule stays_app_field [OF assms(1) app_fields(2)]) (use assms goodD(4) [OF assms(1)] in \<open>auto simp: ctx_ok_def\<close>)
  have u: "in_use (tcb_at ?w i)" using stays_in_use [OF s] assms(2) by simp
  note g = stays_good [OF assms(1) s]
  have s2: "stays e i ?w ?v" by (rule stays_app_field [OF g app_fields(3)]) (use u goodD(4) [OF g] in \<open>auto simp: ctx_ok_def\<close>)
  have u2: "in_use (tcb_at ?v i)" using stays_in_use [OF s2] u by simp
  note g2 = stays_good [OF g s2]
  note sv = stays_trans [OF s s2]
  have "stays e i ?w (upd_tcb i (\<lambda>t. t\<lparr>app_state := 0\<rparr>) ?w)" by (rule stays_app_field [OF g app_fields(1)]) simp_all
  then have a: "evolves e i w (upd_tcb i (\<lambda>t. t\<lparr>app_state := 0\<rparr>) ?w)" by (intro stays_evolves stays_trans [OF s])
  have "stays e i ?v (upd_tcb i (\<lambda>t. t\<lparr>app_state := 6\<rparr>) ?v)"
    by (rule stays_app_field [OF g2 app_fields(1)]) (use u2 in simp_all)
  then have c: "evolves e i w (upd_tcb i (\<lambda>t. t\<lparr>app_state := 6\<rparr>) ?v)" by (intro stays_evolves stays_trans [OF sv])
  have b: "yields (finish_response e i ?v) (\<lambda>r. evolves e i w (snd r))"
    by (rule after_stays [OF assms(1) sv]) (rule finish_response_evolves [OF _ u2])
  show ?thesis
    unfolding http_rsp_body_start_def Let_def off_def [symmetric] yields_if using a b c by simp
qed

lemma http_req_of_ok:
  assumes "ctx_ok e t" "app_ctx t \<noteq> 1"
  shows "\<exists>hpb. http_req_of e t = Some hpb \<and> (\<forall>hp. hpb = Some hp \<longrightarrow> unat (hp_hdr_len hp) \<le> length (hp_hdr hp))"
  using assms by (auto simp: ctx_ok_def req_ok_def http_req_of_def split: option.splits)

lemma resched_stays:
  assumes "good e i w" "in_use (tcb_at w i)"
  shows "stays e i w (tcp_timer_resched i w)"
  using stays_sends [OF assms(1)] resched_effect [of w i] goodD [OF assms(1)] assms(2) by auto

text \<open>Updates that keep \<open>app_state\<close>.\<close>

lemma stays_same_app:
  assumes "good e i w" "app_field f" "app_state (f (tcb_at w i)) = app_state (tcb_at w i)"
  shows "stays e i w (upd_tcb i f w)"
proof (rule stays_app_field [OF assms(1,2)])
  show "in_use (tcb_at w i) \<or> app_state (f (tcb_at w i)) = 0"
    using good_in_use [OF assms(1)] assms(3) by (cases "app_state (tcb_at w i) = 0") simp_all
  show "app_ctx (tcb_at w i) \<noteq> 1" if "app_state (f (tcb_at w i)) \<in> {4, 5, 7}"
    using that goodD(4) [OF assms(1)] by (auto simp: ctx_ok_def assms(3))
qed

lemma stays_set_app:
  assumes "good e i w" "app_field f" "in_use (tcb_at w i)" "app_state (f (tcb_at w i)) \<notin> {4, 5, 7} \<or> app_ctx (tcb_at w i) \<noteq> 1"
  shows "stays e i w (upd_tcb i f w)"
  by (rule stays_app_field [OF assms(1,2)]) (use assms(3,4) in auto)

lemma good_rdtsc: "good e i w \<Longrightarrow> good e i (snd (rdtsc w))"
  using stays_good [of e i w "snd (rdtsc w)"] stays_refl [of e i w] by simp

lemma next_txn_stays:
  assumes "good e i w" "in_use (tcb_at w i)" "app_ctx (tcb_at w i) \<noteq> 1"
  shows "yields (http_next_txn e i w) (\<lambda>r. stays e i w (snd r))"
proof -
  obtain hpb where h: "http_req_of e (tcb_at w i) = Some hpb" using http_req_of_ok [OF goodD(4) [OF assms(1)] assms(3)] by blast
  show ?thesis
  proof (cases hpb)
    case None
    then show ?thesis using h stays_refl [OF assms(1)] by (simp add: http_next_txn_def)
  next
    case (Some hp)
    let ?w = "upd_tcb i (\<lambda>t. t\<lparr>http_txn_count := http_txn_count t + 1\<rparr>) w"
    have s: "stays e i w ?w" by (rule stays_same_app [OF assms(1) app_fields(4)]) (use goodD(6) [OF assms(1)] in simp)
    note g = good_rdtsc [OF stays_good [OF assms(1) s]]
    define x where "x = fst (rdtsc ?w) + ucast (hp_think_time_us hp) * e_g_tsc_hz e div 1000000"
    let ?v = "upd_tcb i (\<lambda>t. t\<lparr>think_deadline_tsc := x\<rparr>) (snd (rdtsc ?w))"
    have s1: "stays e i (snd (rdtsc ?w)) ?v" by (rule stays_same_app [OF g app_fields(5)]) simp
    have "in_use (tcb_at ?v i)" using stays_in_use [OF s1] stays_in_use [OF s] assms(2) by simp
    from resched_stays [OF stays_good [OF g s1] this] have "stays e i w (tcp_timer_resched i ?v)"
      using stays_trans [OF stays_trans [OF _ s1]] s by simp
    then show ?thesis using h Some s stays_refl [OF assms(1)]
      by (simp add: http_next_txn_def Let_def case_prod_beta x_def)
  qed
qed

lemma unat_word_of_nat_le: "unat (word_of_nat n :: 'a::len word) \<le> n"
  by (simp add: unat_of_nat)

lemma unat_word_of_int_nat_le: "unat (word_of_int (int n) :: 'a::len word) \<le> n"
  using unat_word_of_nat_le [of n] by simp

lemma session_good: "good e i w \<Longrightarrow> good e i (tls_session_put i ts w)"
  using stays_good [of e i w "tls_session_put i ts w"] stays_refl [of e i w] by simp

lemma encrypt_send_stays:
  assumes "good e i w"
  shows "yields (tls_encrypt_send e i ts plain cap w) (\<lambda>r. stays e i w (snd r))"
proof -
  obtain ct_len ct ts' where t: "tls_encrypt (e_ssl e) ts plain cap = (ct_len, ct, ts')" by (cases "tls_encrypt (e_ssl e) ts plain cap")
  let ?w = "tls_session_put i ts' w"
  have s: "stays e i w ?w" using stays_refl [OF assms] by simp
  have "ct_len > 0 \<Longrightarrow> ct_len = int (length ct)"
    using t by (auto simp: tls_encrypt_def Let_def split: prod.splits if_splits)
  then have "ct_len > 0 \<Longrightarrow> unat (word_of_int ct_len :: u32) \<le> length ct" using unat_word_of_int_nat_le by metis
  then have "ct_len > 0 \<Longrightarrow> yields (tcp_fsm_send e i ct (word_of_int ct_len) ?w) (\<lambda>r. stays e i w (snd r))"
    by (intro yields_mono [OF send_stays [OF session_good [OF assms]]]) (use stays_trans [OF s] in auto)
  then show ?thesis using s
    unfolding tls_encrypt_send_def t prod.case Let_def yields_if yields_bind
    by (auto simp: case_prod_beta elim!: yields_mono)
qed

lemma send_next_stays:
  assumes "good e i w" "in_use (tcb_at w i)" "app_ctx (tcb_at w i) \<noteq> 1"
  shows "yields (http_send_next_request e i w) (stays e i w)"
proof -
  obtain hpb where h: "http_req_of e (tcb_at w i) = Some hpb" "\<forall>hp. hpb = Some hp \<longrightarrow> unat (hp_hdr_len hp) \<le> length (hp_hdr hp)"
    using http_req_of_ok [OF goodD(4) [OF assms(1)] assms(3)] by blast
  have send: "yields (case tls_session_get i w of
        Some ts \<Rightarrow> do { (_, w) \<leftarrow> tls_encrypt_send e i ts hdr 4096 w; Some (add_tls_tx w) }
      | None \<Rightarrow> do { (_, w) \<leftarrow> tcp_fsm_send e i hdr len w; Some w }) (stays e i w)" if "unat len \<le> length hdr" for len hdr
    using encrypt_send_stays [OF assms(1)] send_stays [OF assms(1) that]
    by (cases "tls_session_get i w") (auto simp: yields_bind case_prod_beta add_tls_tx_def elim!: yields_mono)
  have fin: "stays e i w (tcp_timer_resched i (upd_tcb i (\<lambda>t. t\<lparr>http_req_sent_tsc := x, app_state := 5\<rparr>) (snd (rdtsc (add_http_req v)))))"
    if v: "stays e i w v" for v x
  proof -
    let ?v = "snd (rdtsc (add_http_req v))"
    have s: "stays e i w ?v" using v by (simp add: add_http_req_def)
    note g = stays_good [OF assms(1) s]
    have u: "in_use (tcb_at ?v i)" "app_ctx (tcb_at ?v i) \<noteq> 1" using s assms(2,3) by (auto simp: stays_def)
    have s1: "stays e i ?v (upd_tcb i (\<lambda>t. t\<lparr>http_req_sent_tsc := x, app_state := 5\<rparr>) ?v)"
      by (rule stays_set_app [OF g app_fields(6) u(1)]) (use u(2) in simp)
    have "in_use (tcb_at (upd_tcb i (\<lambda>t. t\<lparr>http_req_sent_tsc := x, app_state := 5\<rparr>) ?v) i)" using stays_in_use [OF s1] u(1) by simp
    from resched_stays [OF stays_good [OF g s1] this] show ?thesis using stays_trans [OF stays_trans [OF s s1]] by blast
  qed
  show ?thesis
  proof (cases hpb)
    case None
    then show ?thesis using h(1) stays_refl [OF assms(1)] by (simp add: http_send_next_request_def)
  next
    case (Some hp)
    define hdr where "hdr = take (unat (hp_hdr_len hp)) (hp_hdr hp)"
    have r: "request_bytes hp = Some hdr" "unat (hp_hdr_len hp) \<le> length hdr" using h(2) Some by (simp_all add: request_bytes_def hdr_def)
    have "yields (http_send_next_request e i w) (stays e i w)" if "hp_hdr_len hp \<noteq> 0"
      using h(1) Some r(1) that yields_bindI [OF send [OF r(2)], where Q = "stays e i w"] fin
      by (simp add: http_send_next_request_def Let_def case_prod_beta)
    then show ?thesis using h(1) Some stays_refl [OF assms(1)] by (cases "hp_hdr_len hp = 0") (simp_all add: http_send_next_request_def)
  qed
qed

subsection \<open>Server handlers\<close>

lemma listener_good: "good e i w \<Longrightarrow> good e i (upd_listener k f w)"
  using stays_good [of e i w "upd_listener k f w"] stays_refl [of e i w] by simp

lemma tx_chunk_some:
  assumes "unat n \<le> length data"
  shows "\<exists>flen ch. http11_tx_chunk cap data n = Some (flen, ch) \<and> (flen > 0 \<longrightarrow> flen = int (length ch))"
  using assms by (auto simp: http11_tx_chunk_def Let_def ENOSPC_def CRLF_def)

lemma pump_stays:
  assumes "good e i w"
  shows "yields (srv_stream_pump e i w) (stays e i w)"
proof -
  let ?t = "tcb_at w i"
  define rest where "rest = srv_stream_total ?t - srv_stream_sent ?t"
  define n where "n = (if rest < SRV_CHUNK_SIZE then rest else SRV_CHUNK_SIZE)"
  obtain flen ch where ch: "http11_tx_chunk 4112 (replicate (unat n) 65) n = Some (flen, ch)" "flen > 0 \<longrightarrow> flen = int (length ch)"
    using tx_chunk_some [of n "replicate (unat n) 65" 4112] by auto
  have fin: "stays e i w (upd_tcb i (\<lambda>t. t\<lparr>app_state := 11, srv_stream_total := 0, srv_stream_sent := 0\<rparr>) v)"
    if "stays e i w v" "app_state ?t = 12" for v
  proof -
    note g = stays_good [OF assms that(1)]
    have "in_use (tcb_at v i)" using stays_in_use [OF that(1)] good_in_use [OF assms] that(2) by simp
    then show ?thesis by (intro stays_trans [OF that(1)] stays_set_app [OF g app_fields(8)]) simp_all
  qed
  have prog: "stays e i w (upd_tcb i (\<lambda>t. t\<lparr>srv_stream_sent := srv_stream_sent t + n\<rparr>) v)" if "stays e i w v" for v
    by (rule stays_trans [OF that stays_same_app [OF stays_good [OF assms that] app_fields(10)]]) simp
  have e: "unat (word_of_int (fst (http11_tx_chunk_end 8)) :: u32) \<le> length (snd (http11_tx_chunk_end 8))"
    by (simp add: http11_tx_chunk_end_def str_def CRLF_def)
  have c: "flen > 0 \<Longrightarrow> unat (word_of_int flen :: u32) \<le> length ch" using ch(2) unat_word_of_int_nat_le [of "length ch"] by simp
  note last = yields_mono [OF send_stays [OF assms e], of "\<lambda>r. stays e i w (snd r)"]
  show ?thesis
    unfolding srv_stream_pump_def Let_def rest_def [symmetric] n_def [symmetric] ch(1)
    using stays_refl [OF assms] fin prog last send_stays [OF assms c]
    by (auto simp: yields_bind case_prod_beta yields_if split: option.splits elim!: yields_mono)
qed

lemma send_chargen_stays:
  assumes "good e i w"
  shows "yields (send_chargen e i k w) (stays e i w)"
proof -
  have "unat (1460::u32) \<le> length (srv_chargen_buf (srv w))" using goodD(5) [OF assms] by (simp add: srv_ok_def)
  from send_stays [OF assms this] show ?thesis
    by (auto simp: send_chargen_def yields_bind case_prod_beta elim!: yields_mono)
qed

lemma attach_stays:
  assumes "good e i w" "tls_session_attach e i is_server w = (rc, w')"
  shows "stays e i w w'"
  using assms(2) stays_refl [OF assms(1)]
  by (auto simp: tls_session_attach_def split: if_splits prod.splits option.splits)

lemma latency_stays:
  assumes "good e i w"
  shows "yields (latency_us x w) (\<lambda>r. stays e i w (snd r))" "yields (record_latency x w) (stays e i w)"
proof -
  have "tsc_hz (snd (rdtsc w)) \<noteq> 0" using worker_okD(4) [OF goodD(2) [OF assms]] by (simp add: rdtsc_def)
  then show l: "yields (latency_us x w) (\<lambda>r. stays e i w (snd r))"
    using stays_refl [OF assms] by (simp add: latency_us_def case_prod_beta)
  show "yields (record_latency x w) (stays e i w)"
    using l by (auto simp: record_latency_def yields_bind case_prod_beta elim!: yields_mono)
qed

lemma http_request_stays:
  assumes "good e i w" "in_use (tcb_at w i)"
  shows "yields (srv_http_request e i k data w) (stays e i w)"
proof -
  define tbl where "tbl = srv w"
  define n where "n = srv_http_response_len tbl"
  have n: "unat n \<le> length (srv_http_response tbl)" using goodD(5) [OF assms(1)] by (simp add: srv_ok_def n_def tbl_def)
  let ?f = "\<lambda>t. t\<lparr>srv_stream_total := srv_chunked_body_size tbl, srv_stream_sent := 0, app_state := 12\<rparr>"
  have pump: "yields (srv_stream_pump e i (upd_tcb i ?f v)) (stays e i w)" if v: "stays e i w v" for v
  proof -
    note g = stays_good [OF assms(1) v]
    have s: "stays e i v (upd_tcb i ?f v)"
      by (rule stays_set_app [OF g app_fields(9)]) (use stays_in_use [OF v] assms(2) in simp_all)
    show ?thesis
      by (rule yields_mono [OF pump_stays [OF stays_good [OF g s]]]) (rule stays_trans [OF stays_trans [OF v s]])
  qed
  show ?thesis
    unfolding srv_http_request_def Let_def tbl_def [symmetric] n_def [symmetric]
    using stays_refl [OF assms(1)] send_stays [OF assms(1) n] pump
    by (auto simp: yields_bind case_prod_beta yields_if add_http_req_def elim!: yields_mono)
qed

lemma srv_handshake_evolves:
  assumes "good e i w" "in_use (tcb_at w i)"
  shows "yields (srv_tls_handshake e i ts data w) (evolves e i w)"
proof -
  obtain hr out ts' where t: "tls_handshake (e_ssl e) ts data 4096 = (hr, out, ts')" by (cases "tls_handshake (e_ssl e) ts data 4096")
  let ?w = "tls_session_put i ts' w"
  have send: "yields (if out \<noteq> [] then map_option snd (tcp_fsm_send e i out (word_of_nat (length out)) ?w) else Some ?w) (stays e i w)"
    using send_stays [OF session_good [OF assms(1)] unat_word_of_nat_le, of out ts'] stays_refl [OF assms(1)]
      stays_trans [of e i w ?w]
    by (auto elim!: yields_mono)
  show ?thesis unfolding srv_tls_handshake_def t prod.case Let_def
  proof (rule stays_then [where h = "\<lambda>x. x" and g = "\<lambda>x. x", OF assms(1) send])
    fix v assume g: "good e i v" and s: "stays e i w v"
    have u: "in_use (tcb_at v i)" using stays_in_use [OF s] assms(2) by simp
    let ?v = "add_tls_ok (upd_tcb i (\<lambda>t. t\<lparr>app_state := 21\<rparr>) v)"
    have s1: "stays e i v ?v"
      unfolding add_tls_ok_def stays_fields by (rule stays_set_app [OF g app_fields(1) u]) simp
    have "yields (record_latency x ?v) (evolves e i v)" for x
      by (rule yields_mono [OF latency_stays(2) [OF stays_good [OF g s1]]]) (rule stays_evolves [OF stays_trans [OF s1]])
    moreover have "yields (tcp_fsm_reset e i (add_tls_fail v)) (evolves e i v)"
    proof (rule after_stays [OF g, where h = "\<lambda>x. x"])
      show "stays e i v (add_tls_fail v)" using stays_refl [OF g] by (simp add: add_tls_fail_def)
    qed (rule reset_evolves, use u in \<open>simp_all add: add_tls_fail_def\<close>)
    ultimately show "yields (if hr = 1 then record_latency (tls_hs_start_tsc (tcb_at ?v i)) ?v
        else if hr < 0 then tcp_fsm_reset e i (add_tls_fail v) else Some v) (evolves e i v)"
      using evolves_refl [OF g] by simp
  qed
qed

lemma tls_plain_stays:
  assumes "good e i w"
  shows "yields (srv_tls_plain e i k h ts plain w) (stays e i w)"
proof -
  have "unat (srv_http_response_len (srv w)) \<le> length (srv_http_response (srv w))"
    using goodD(5) [OF assms] by (simp add: srv_ok_def)
  then show ?thesis using stays_refl [OF assms] encrypt_send_stays [OF assms]
    by (auto simp: srv_tls_plain_def Let_def yields_bind case_prod_beta yields_if add_http_req_def add_tls_tx_def
        elim!: yields_mono)
qed

lemma tls_data_evolves:
  assumes "good e i w"
  shows "yields (srv_tls_data e i k h data w) (evolves e i w)"
proof (cases "tls_session_get i w")
  case None
  then show ?thesis using evolves_refl [OF assms] by (simp add: srv_tls_data_def)
next
  case (Some ts)
  obtain n plain ts' where t: "tls_decrypt (e_ssl e) ts data 4096 = (n, plain, ts')" by (cases "tls_decrypt (e_ssl e) ts data 4096")
  have s: "stays e i w (add_tls_rx (tls_session_put i ts' w))" "stays e i w (tls_session_put i ts' w)"
    using stays_refl [OF assms] by (simp_all add: add_tls_rx_def)
  have "yields (srv_tls_plain e i k h ts' plain (add_tls_rx (tls_session_put i ts' w))) (evolves e i w)"
    by (rule yields_mono [OF tls_plain_stays [OF stays_good [OF assms s(1)]]]) (rule stays_evolves [OF stays_trans [OF s(1)]])
  moreover have "app_state (tcb_at w i) = 20 \<Longrightarrow> yields (srv_tls_handshake e i ts data w) (evolves e i w)"
    by (rule srv_handshake_evolves [OF assms]) (use good_in_use [OF assms] in simp)
  ultimately show ?thesis using Some t evolves_refl [OF assms] stays_evolves [OF s(2)] by (simp add: srv_tls_data_def Let_def)
qed

lemma srv_on_data_evolves:
  assumes "good e i w" "in_use (tcb_at w i)"
  shows "yields (srv_on_data e i data p w) (evolves e i w)"
proof (cases "srv_find_listener p (srv w)")
  case None
  then show ?thesis using evolves_refl [OF assms(1)] by (simp add: srv_on_data_def)
next
  case (Some k)
  define len :: u32 where "len = word_of_nat (length data)"
  define v where "v = upd_listener k (\<lambda>l. l\<lparr>l_rx_bytes := l_rx_bytes l + ucast len\<rparr>) w"
  have s: "stays e i w v" using stays_refl [OF assms(1)] by (simp add: v_def)
  note g = stays_good [OF assms(1) s]
  have u: "in_use (tcb_at v i)" using assms(2) by (simp add: v_def)
  have len: "unat len \<le> length data" by (simp add: len_def unat_word_of_nat_le)
  have ev: "evolves e i w x" if "stays e i v x" for x by (rule stays_evolves [OF stays_trans [OF s that]])
  have a: "yields (tcp_fsm_send e i data len v \<bind> (\<lambda>(_, w). Some (upd_listener k (\<lambda>l. l\<lparr>l_tx_bytes := l_tx_bytes l + ucast len\<rparr>) w)))
      (evolves e i w)"
    using send_stays [OF g len] ev by (auto simp: yields_bind case_prod_beta elim!: yields_mono)
  have b: "yields (send_chargen e i k v) (evolves e i w)" by (rule yields_mono [OF send_chargen_stays [OF g] ev])
  have c: "yields (srv_http_request e i k data v) (evolves e i w)" by (rule yields_mono [OF http_request_stays [OF g u] ev])
  have d: "yields (srv_tls_data e i k h data v) (evolves e i w)" for h
    by (rule yields_mono [OF tls_data_evolves [OF g]]) (rule evolves_trans [OF stays_evolves [OF s]])
  show ?thesis
    unfolding srv_on_data_def Some option.case Let_def len_def [symmetric] v_def [symmetric] yields_if
    using a b c d stays_evolves [OF s] by simp
qed

lemma srv_on_established_evolves:
  assumes "good e i w" "in_use (tcb_at w i)"
  shows "yields (srv_on_established e i p w) (evolves e i w)"
proof (cases "srv_find_listener p (srv w)")
  case None
  then show ?thesis using evolves_refl [OF assms(1)] by (simp add: srv_on_established_def)
next
  case (Some k)
  define v where "v = upd_listener k (\<lambda>l. l\<lparr>l_conns_accepted := l_conns_accepted l + 1, l_conns_active := l_conns_active l + 1\<rparr>) w"
  have s: "stays e i w v" using stays_refl [OF assms(1)] by (simp add: v_def)
  note g = stays_good [OF assms(1) s]
  have u: "in_use (tcb_at v i)" using assms(2) by (simp add: v_def)
  have app: "stays e i v (upd_tcb i (\<lambda>t. t\<lparr>app_state := a\<rparr>) v)" if "a \<notin> {4, 5, 7}" for a
    by (rule stays_set_app [OF g app_fields(1) u]) (use that in simp)
  have a: "yields (send_chargen e i k (upd_tcb i (\<lambda>t. t\<lparr>app_state := 10\<rparr>) v)) (evolves e i w)"
    by (rule yields_mono [OF send_chargen_stays [OF stays_good [OF g app]]])
      (simp, rule stays_evolves [OF stays_trans [OF stays_trans [OF s app]]], simp_all)
  obtain rc w2 where t: "tls_session_attach e i True v = (rc, w2)" by (cases "tls_session_attach e i True v")
  note s2 = attach_stays [OF g t] note g2 = stays_good [OF g s2]
  have u2: "in_use (tcb_at w2 i)" using stays_in_use [OF s2] u by simp
  let ?w3 = "snd (rdtsc (upd_tcb i (\<lambda>t. t\<lparr>app_state := 20\<rparr>) w2))"
  have s3: "stays e i w2 ?w3" unfolding stays_rdtsc by (rule stays_set_app [OF g2 app_fields(1) u2]) simp
  have "stays e i ?w3 (upd_tcb i (\<lambda>t. t\<lparr>tls_hs_start_tsc := x\<rparr>) ?w3)" for x
    by (rule stays_same_app [OF stays_good [OF g2 s3] app_fields(7)]) simp
  then have b: "evolves e i w (upd_tcb i (\<lambda>t. t\<lparr>tls_hs_start_tsc := x\<rparr>) ?w3)" for x
    by (intro stays_evolves stays_trans [OF stays_trans [OF stays_trans [OF s s2] s3]])
  have c: "yields (tcp_fsm_reset e i w2) (evolves e i w)"
    by (rule after_stays [OF assms(1) stays_trans [OF s s2], where h = "\<lambda>x. x"]) (rule reset_evolves [OF g2 u2])
  have d: "evolves e i w (upd_tcb i (\<lambda>t. t\<lparr>app_state := 11\<rparr>) v)" by (rule stays_evolves [OF stays_trans [OF s app]]) simp
  show ?thesis
    unfolding srv_on_established_def Some option.case Let_def v_def [symmetric] t prod.case case_prod_beta yields_if
    using a b c d stays_evolves [OF s] by simp
qed

end
