(* ===== verification/TcpInput.thy ===== *)
theory TcpInput
  imports Server
begin

text \<open>
  The receiving half of \<^verbatim>\<open>net/tcp_fsm.c\<close>: \<^verbatim>\<open>tcp_fsm_input\<close>, one definition per state of the connection.
  Every path of the C function ends with the release of the received buffer, so the buffer is an
  argument and not part of the state.  A result with the flag \<open>True\<close> is a jump to \<^verbatim>\<open>done\<close>, past the
  processing of RST.
\<close>

subsection \<open>The received segment\<close>

text \<open>
  \<open>mb_data\<close> is the segment (IP header stripped) and \<open>mb_tail\<close> the memory behind it, which the
  option parser reads when the header claims more bytes than were received.  \<open>mb_hash_usr\<close> and
  \<open>mb_dynfield0\<close> carry the addresses saved by the IP layer.
\<close>

record mbuf =
  mb_data :: bytes
  mb_tail :: bytes
  mb_hash_usr :: u32
  mb_dynfield0 :: u32
  mb_port :: u16
  mb_l4_bad :: bool

definition parse_tcp_hdr :: "bytes \<Rightarrow> tcp_hdr" where
  "parse_tcp_hdr d =
     \<lparr>th_src_port = be16 (d ! 0) (d ! 1), th_dst_port = be16 (d ! 2) (d ! 3), th_seq = be32_at d 4,
      th_ack = be32_at d 8, th_data_off = d ! 12, th_flags = d ! 13, th_win = be16 (d ! 14) (d ! 15),
      th_cksum = be16 (d ! 17) (d ! 16)\<rparr>"

definition data_len16 :: "mbuf \<Rightarrow> u16" where
  "data_len16 m = word_of_nat (length (mb_data m))"

definition hdr_len16 :: "tcp_hdr \<Rightarrow> u16" where
  "hdr_len16 h = ucast (drop_bit 4 (th_data_off h) AND 0x0F) * 4"

definition has_payload :: "mbuf \<Rightarrow> tcp_hdr \<Rightarrow> bool" where
  "has_payload m h \<longleftrightarrow> data_len16 m > hdr_len16 h"

definition seg_payload :: "mbuf \<Rightarrow> tcp_hdr \<Rightarrow> bytes" where
  "seg_payload m h = take (unat (data_len16 m) - unat (hdr_len16 h)) (drop (unat (hdr_len16 h)) (mb_data m))"

definition payload_len :: "mbuf \<Rightarrow> tcp_hdr \<Rightarrow> u32" where
  "payload_len m h = ucast (data_len16 m) - ucast (hdr_len16 h)"

text \<open>The window a segment advertises once window scaling is agreed.\<close>

definition scaled_win :: "tcp_hdr \<Rightarrow> tcb \<Rightarrow> u32" where
  "scaled_win h t = push_bit (unat (wscale_remote t)) (ucast (th_win h))"

definition send_ack :: "env \<Rightarrow> nat \<Rightarrow> worker \<Rightarrow> worker option" where
  "send_ack e i w =
     map_option snd (tcp_send_segment e i ACK_FLAG [] 0 (snd_nxt (tcb_at w i)) (rcv_nxt (tcb_at w i)) w)"

text \<open>The release of a connection: TLS session, port, block.\<close>

definition free_conn :: "nat \<Rightarrow> worker \<Rightarrow> worker" where
  "free_conn i w = tcb_free i (port_free_immediate i (tls_detach_if_needed i w))"

definition add_conn_close :: "worker \<Rightarrow> worker" where
  "add_conn_close = upd_metrics (\<lambda>m. m\<lparr>m_tcp_conn_close := m_tcp_conn_close m + 1\<rparr>)"

definition add_conn_open :: "worker \<Rightarrow> worker" where
  "add_conn_open = upd_metrics (\<lambda>m. m\<lparr>m_tcp_conn_open := m_tcp_conn_open m + 1\<rparr>)"

definition close_or_reset :: "env \<Rightarrow> nat \<Rightarrow> worker \<Rightarrow> worker option" where
  "close_or_reset e i w =
     (if graceful_close (tcb_at w i) then map_option snd (tcp_fsm_close e i w) else tcp_fsm_reset e i w)"

subsection \<open>Passive open\<close>

definition passive_init ::
  "env \<Rightarrow> mbuf \<Rightarrow> tcp_hdr \<Rightarrow> tcp_parsed_opts \<Rightarrow> bool \<Rightarrow> u32 \<Rightarrow> bytes \<Rightarrow> bytes \<Rightarrow> tcb \<Rightarrow> tcb" where
  "passive_init e m h opts v6 isn src6 dst6 t =
     (let t = t\<lparr>state := TCP_SYN_RECEIVED, rcv_nxt := th_seq h + 1, snd_nxt := isn, snd_una := isn,
                mss_remote := (if po_has_mss opts then po_mss opts else 536), mss_local := (if v6 then 1440 else 1460),
                wscale_remote := (if po_has_wscale opts then po_wscale opts else 0), wscale_local := 7,
                rcv_wnd := 65535 * 128, snd_wnd := 65535, cwnd := 65535, ssthresh := U32_MAX,
                sack_enabled := po_has_sack_perm opts, ts_enabled := po_has_timestamps opts,
                ts_ecr := po_ts_val opts, nagle_enabled := True, lcore_id := word_of_nat (e_lcore_id e),
                port_id := mb_port m, rto_us := TCP_INITIAL_RTO_US\<rparr>
      in if v6 then t\<lparr>ip_version := 6, src_ip6 := dst6, dst_ip6 := src6\<rparr> else t\<lparr>ip_version := 4\<rparr>)"

definition passive_open ::
  "env \<Rightarrow> mbuf \<Rightarrow> tcp_hdr \<Rightarrow> tcp_parsed_opts \<Rightarrow> bool \<Rightarrow> u32 \<Rightarrow> u32 \<Rightarrow> worker \<Rightarrow> worker option" where
  "passive_open e m h opts v6 sip dip w =
     (if has_flag (th_flags h) SYN_FLAG \<and> \<not> has_flag (th_flags h) ACK_FLAG then
        if srv_serving (srv w) \<and> srv_lookup_port (th_dst_port h) (srv w) = SRV_HANDLER_NONE then Some w
        else
          (case tcb_alloc (dip, th_dst_port h, sip, th_src_port h) w of
             (None, w) \<Rightarrow> Some (upd_metrics (\<lambda>m. m\<lparr>m_tcp_syn_queue_drops := m_tcp_syn_queue_drops m + 1\<rparr>) w)
           | (Some i, w) \<Rightarrow>
               let (isn, w) = isn_generate e dip (th_dst_port h) sip (th_src_port h) w;
                   mac = (if v6 then ndp_lookup (e_ndp e) (mb_port m) (saved_src6 w)
                          else arp_lookup (e_arp e) (mb_port m) (arp_nexthop (e_arp e) (mb_port m) sip));
                   w = upd_tcb i (preresolve mac \<circ> passive_init e m h opts v6 isn (saved_src6 w) (saved_dst6 w)) w
               in do { (_, w) \<leftarrow> tcp_send_segment e i (SYN_FLAG OR ACK_FLAG) [] 0
                                   (snd_nxt (tcb_at w i)) (rcv_nxt (tcb_at w i)) w;
                       let w = arm_rto e i (upd_tcb i (\<lambda>t. t\<lparr>snd_nxt := snd_nxt t + 1\<rparr>) w)
                       in Some (add_conn_open w) })
      else Some w)"

subsection \<open>The handshake of an active open\<close>

text \<open>The current time in microseconds, as the timestamp option counts it.\<close>

definition ts_now :: "env \<Rightarrow> worker \<Rightarrow> (u32 \<times> worker) option" where
  "ts_now e w =
     (let (now, w) = rdtsc w
      in if e_g_tsc_hz e div 1000000 = 0 then None else Some (ucast (now div (e_g_tsc_hz e div 1000000)), w))"

definition syn_rtt :: "env \<Rightarrow> nat \<Rightarrow> tcp_parsed_opts \<Rightarrow> worker \<Rightarrow> worker option" where
  "syn_rtt e i opts w =
     (if po_has_timestamps opts then
        do { (now, w) \<leftarrow> ts_now e w;
             let rtt = now - po_ts_ecr opts
             in Some (upd_tcb i (if rtt > 0 \<and> rtt < 60000000 then update_rtt rtt
                                 else (\<lambda>t. t\<lparr>rto_us := TCP_INITIAL_RTO_US\<rparr>)) w) }
      else Some (upd_tcb i (\<lambda>t. t\<lparr>rto_us := TCP_INITIAL_RTO_US\<rparr>) w))"

definition syn_acked :: "tcp_hdr \<Rightarrow> tcp_parsed_opts \<Rightarrow> tcb \<Rightarrow> tcb" where
  "syn_acked h opts t =
     t\<lparr>rcv_nxt := th_seq h + 1, snd_una := th_ack h,
       mss_remote := (if po_has_mss opts then po_mss opts else 536),
       wscale_remote := (if po_has_wscale opts then po_wscale opts else 0),
       sack_enabled := po_has_sack_perm opts, ts_enabled := po_has_timestamps opts, ts_ecr := po_ts_val opts,
       snd_wnd := ucast (th_win h), cwnd := ucast (th_win h), state := TCP_ESTABLISHED,
       retransmit_count := 0, rto_deadline_tsc := 0\<rparr>"

text \<open>
  The end of a TLS handshake: latency, and the encrypted HTTP request of an HTTPS connection.  Addresses
  up to 0x1000 are markers.
\<close>

definition https_request :: "env \<Rightarrow> nat \<Rightarrow> tls_session \<Rightarrow> worker \<Rightarrow> worker option" where
  "https_request e i ts w =
     (case e_http_req e (app_ctx (tcb_at w i)) of
        None \<Rightarrow> None
      | Some hp \<Rightarrow>
          if hp_hdr_len hp = 0 then Some w
          else
            do { hdr \<leftarrow> request_bytes hp;
                 (_, w) \<leftarrow> tls_encrypt_send e i ts hdr 4096 w;
                 let w = add_http_req w; (now, w) = rdtsc w
                 in Some (upd_tcb i (\<lambda>t. t\<lparr>http_req_sent_tsc := now, app_state := 5\<rparr>) w) })"

definition tls_established :: "env \<Rightarrow> nat \<Rightarrow> tls_session \<Rightarrow> worker \<Rightarrow> worker option" where
  "tls_established e i ts w =
     (let w = add_tls_ok (upd_tcb i (\<lambda>t. t\<lparr>app_state := 3\<rparr>) w)
      in do { w \<leftarrow> record_latency (tls_hs_start_tsc (tcb_at w i)) w;
              if app_ctx (tcb_at w i) > 0x1000 then https_request e i ts w else Some w })"

definition tls_failed :: "nat \<Rightarrow> worker \<Rightarrow> worker" where
  "tls_failed i w = add_tls_fail (upd_tcb i (\<lambda>t. t\<lparr>app_state := 0\<rparr>) w)"

definition send_if_any :: "env \<Rightarrow> nat \<Rightarrow> bytes \<Rightarrow> worker \<Rightarrow> worker option" where
  "send_if_any e i out w =
     (if out \<noteq> [] then map_option snd (tcp_fsm_send e i out (word_of_nat (length out)) w) else Some w)"

definition tls_client_start :: "env \<Rightarrow> nat \<Rightarrow> worker \<Rightarrow> worker option" where
  "tls_client_start e i w =
     (let (trc, w) = tls_session_attach e i False w
      in if trc \<noteq> 0 then Some (tls_failed i w)
         else
           let w = upd_tcb i (\<lambda>t. t\<lparr>app_state := 2\<rparr>) w; (now, w) = rdtsc w;
               w = upd_tcb i (\<lambda>t. t\<lparr>tls_hs_start_tsc := now\<rparr>) w
           in case tls_session_get i w of
                None \<Rightarrow> Some w
              | Some sess \<Rightarrow>
                  let (hr, out, sess) = tls_handshake (e_ssl e) sess [] 4096; w = tls_session_put i sess w
                  in do { w \<leftarrow> send_if_any e i out w;
                          if hr = 1 then tls_established e i sess w
                          else if hr < 0 then Some (tls_failed i w)
                          else Some w })"

definition http_client_start :: "env \<Rightarrow> nat \<Rightarrow> worker \<Rightarrow> worker option" where
  "http_client_start e i w =
     do { hpb \<leftarrow> http_req_of e (tcb_at w i);
          case hpb of
            None \<Rightarrow> Some w
          | Some hp \<Rightarrow>
              if hp_hdr_len hp = 0 then Some w
              else
                do { (_, w) \<leftarrow> tcp_fsm_send e i (hp_hdr hp) (hp_hdr_len hp) w;
                     let w = add_http_req w; (now, w) = rdtsc w
                     in Some (upd_tcb i (\<lambda>t. t\<lparr>http_req_sent_tsc := now, app_state := 5\<rparr>) w) } }"

definition established_app :: "env \<Rightarrow> nat \<Rightarrow> worker \<Rightarrow> worker option" where
  "established_app e i w =
     (let w = (if app_ctx (tcb_at w i) = 1 then upd_tcb i (\<lambda>t. t\<lparr>cwnd := U32_MAX\<rparr>) w else w)
      in do { w \<leftarrow> (if app_state (tcb_at w i) = 1 then tls_client_start e i w else Some w);
              if app_state (tcb_at w i) = 4 then http_client_start e i w else Some w })"

definition input_syn_sent ::
  "env \<Rightarrow> nat \<Rightarrow> tcp_hdr \<Rightarrow> tcp_parsed_opts \<Rightarrow> worker \<Rightarrow> (bool \<times> worker) option" where
  "input_syn_sent e i h opts w =
     (let t = tcb_at w i; flags = th_flags h
      in if has_flag flags SYN_FLAG \<and> has_flag flags ACK_FLAG then
           if th_ack h \<noteq> snd_nxt t then map_option (Pair True) (tcp_fsm_reset e i w)
           else
             do { w \<leftarrow> syn_rtt e i opts (tcp_timer_resched i (upd_tcb i (syn_acked h opts) w));
                  w \<leftarrow> send_ack e i (add_conn_open w);
                  if app_state (tcb_at w i) = 0 \<and> app_ctx (tcb_at w i) = 0
                  then map_option (Pair True) (close_or_reset e i w)
                  else map_option (Pair False) (established_app e i w) }
         else if has_flag flags ACK_FLAG \<and> \<not> has_flag flags RST_FLAG \<and> th_ack h = snd_nxt t
         then map_option (Pair True) (tcp_fsm_reset e i w)
         else Some (False, w))"

subsection \<open>The handshake of a passive open\<close>

definition input_syn_received :: "env \<Rightarrow> nat \<Rightarrow> tcp_hdr \<Rightarrow> worker \<Rightarrow> worker option" where
  "input_syn_received e i h w =
     (if has_flag (th_flags h) ACK_FLAG \<and> th_seq h = rcv_nxt (tcb_at w i) then
        let w = add_conn_open (upd_tcb i (\<lambda>t. t\<lparr>snd_una := th_ack h, state := TCP_ESTABLISHED,
                                                snd_wnd := scaled_win h t\<rparr>) w)
        in if srv_serving (srv w) then srv_on_established e i (src_port (tcb_at w i)) w else Some w
      else Some w)"

subsection \<open>Acknowledgements\<close>

definition ack_buf :: "u32 \<Rightarrow> tcb \<Rightarrow> tcb" where
  "ack_buf acked t = (case snd_buf t of None \<Rightarrow> t | Some sb \<Rightarrow> t\<lparr>snd_buf := Some (tcp_snd_buf_ack sb acked)\<rparr>)"

definition advance_una :: "u32 \<Rightarrow> tcb \<Rightarrow> tcb" where
  "advance_una ack t =
     (let t = t\<lparr>snd_una := ack\<rparr>; t = (if SEQ_GT (snd_una t) (snd_nxt t) then t\<lparr>snd_nxt := snd_una t\<rparr> else t)
      in t\<lparr>dup_ack_count := 0\<rparr>)"

definition rearm :: "env \<Rightarrow> nat \<Rightarrow> worker \<Rightarrow> worker" where
  "rearm e i w =
     (if snd_una (tcb_at w i) = snd_nxt (tcb_at w i)
      then tcp_timer_resched i (upd_tcb i (\<lambda>t. t\<lparr>rto_deadline_tsc := 0\<rparr>) w) else arm_rto e i w)"

text \<open>A new acknowledgement, as both \<^verbatim>\<open>ESTABLISHED\<close> and \<^verbatim>\<open>CLOSE_WAIT\<close> treat it.\<close>

definition new_ack :: "env \<Rightarrow> nat \<Rightarrow> u32 \<Rightarrow> worker \<Rightarrow> worker option" where
  "new_ack e i ack w =
     (let acked = ack - snd_una (tcb_at w i)
      in do { w \<leftarrow> congestion_on_ack (e_cubic e) i acked (upd_tcb i (advance_una ack) w);
              Some (rearm e i (upd_tcb i (\<lambda>t. ack_buf acked (t\<lparr>retransmit_count := 0\<rparr>)) w)) })"

definition ack_rtt :: "env \<Rightarrow> nat \<Rightarrow> tcp_parsed_opts \<Rightarrow> worker \<Rightarrow> worker option" where
  "ack_rtt e i opts w =
     (if po_has_timestamps opts \<and> ts_enabled (tcb_at w i) then
        do { (now, w) \<leftarrow> ts_now e w;
             let rtt = now - po_ts_ecr opts
             in Some (if rtt < 60000000 then upd_tcb i (update_rtt rtt) w else w) }
      else Some w)"

text \<open>The third duplicate retransmits the oldest unacknowledged segment.\<close>

definition dup_ack :: "env \<Rightarrow> nat \<Rightarrow> worker \<Rightarrow> worker option" where
  "dup_ack e i w =
     (let w = upd_tcb i (\<lambda>t. t\<lparr>dup_ack_count := dup_ack_count t + 1\<rparr>) w
      in if dup_ack_count (tcb_at w i) \<noteq> 3 then Some w
         else
           let w = upd_tcb i (congestion_fast_retransmit (e_cubic e)) w; t = tcb_at w i
           in case snd_buf t of
                None \<Rightarrow> Some w
              | Some sb \<Rightarrow>
                  if sb_len sb = 0 then Some w
                  else
                    do { (_, w) \<leftarrow> tcp_send_segment e i (ACK_FLAG OR PSH_FLAG) (sb_data sb)
                                     (min (sb_len sb) (tcb_effective_mss t)) (snd_una t) (rcv_nxt t) w;
                         Some (upd_metrics (\<lambda>m. m\<lparr>m_tcp_retransmit := m_tcp_retransmit m + 1\<rparr>) w) })"

definition set_snd_wnd :: "nat \<Rightarrow> tcp_hdr \<Rightarrow> worker \<Rightarrow> worker" where
  "set_snd_wnd i h = upd_tcb i (\<lambda>t. t\<lparr>snd_wnd := scaled_win h t\<rparr>)"

definition est_ack :: "env \<Rightarrow> nat \<Rightarrow> tcp_hdr \<Rightarrow> tcp_parsed_opts \<Rightarrow> worker \<Rightarrow> worker option" where
  "est_ack e i h opts w =
     (if \<not> has_flag (th_flags h) ACK_FLAG then Some w
      else
        do { w \<leftarrow> (if SEQ_GT (th_ack h) (snd_una (tcb_at w i)) then
                     do { w \<leftarrow> new_ack e i (th_ack h) w;
                          w \<leftarrow> ack_rtt e i opts w;
                          w \<leftarrow> snd_buf_drain e i w;
                          if app_state (tcb_at w i) = 12 then srv_stream_pump e i w else Some w }
                   else if th_ack h = snd_una (tcb_at w i) then dup_ack e i w
                   else Some w);
             Some (set_snd_wnd i h w) })"

subsection \<open>Data for a client\<close>

definition http_latency :: "env \<Rightarrow> nat \<Rightarrow> worker \<Rightarrow> worker option" where
  "http_latency e i w =
     (let sent = http_req_sent_tsc (tcb_at w i)
      in if sent = 0 then Some w
         else
           do { (us, w) \<leftarrow> latency_us sent w;
                hpb \<leftarrow> http_req_of e (tcb_at w i);
                let ei = (case hpb of Some hp \<Rightarrow> hp_expected_interval_us hp | None \<Rightarrow> 0)
                in Some (w\<lparr>latency := hist_record_corrected us ei (latency w)\<rparr>) })"

definition http_after_response :: "env \<Rightarrow> nat \<Rightarrow> bytes \<Rightarrow> worker \<Rightarrow> (bool \<times> worker) option" where
  "http_after_response e i buf w =
     do { (nxt, w) \<leftarrow> http_next_txn e i w;
          if nxt = 4 then map_option (Pair False) (http_send_next_request e i w)
          else if nxt = 7 then Some (False, upd_tcb i (\<lambda>t. t\<lparr>app_state := 7\<rparr>) w)
          else if \<not> graceful_close (tcb_at w i) then map_option (Pair True) (tcp_fsm_reset e i w)
          else http_rsp_body_start e i buf w }"

text \<open>The status line; \<open>mem\<close> is the memory behind the text, where \<^verbatim>\<open>atoi\<close> may read on.\<close>

definition is_http_response :: "bytes \<Rightarrow> bool" where
  "is_http_response buf \<longleftrightarrow> length buf \<ge> 12 \<and> take 7 buf = str ''HTTP/1.''"

definition count_response :: "bytes \<Rightarrow> bytes \<Rightarrow> worker \<Rightarrow> worker" where
  "count_response buf mem =
     upd_metrics (worker_metrics_add_http_rsp (uint (word_of_int (atoi_bytes (drop 9 (buf @ mem))) :: u16)))"

definition tls_hs_data :: "env \<Rightarrow> nat \<Rightarrow> tls_session \<Rightarrow> bytes \<Rightarrow> worker \<Rightarrow> (bool \<times> worker) option" where
  "tls_hs_data e i ts payload w =
     (let (hr, out, ts) = tls_handshake (e_ssl e) ts payload 4096; w = tls_session_put i ts w
      in do { w \<leftarrow> send_if_any e i out w;
              let w = (if out \<noteq> [] then add_tls_tx w else w)
              in if hr = 1 then
                   do { w \<leftarrow> tls_established e i ts w;
                        if app_ctx (tcb_at w i) \<noteq> 0 then Some (False, w)
                        else if graceful_close (tcb_at w i) then
                          let (cl, ts) = tls_shutdown (e_ssl e) ts 64; w = tls_session_put i ts w
                          in do { w \<leftarrow> send_if_any e i cl w;
                                  (_, w) \<leftarrow> tcp_fsm_close e i w;
                                  Some (True, w) }
                        else map_option (Pair True) (tcp_fsm_reset e i w) }
                 else if hr < 0 then Some (False, tls_failed i w)
                 else Some (False, w) })"

definition tls_app_data :: "env \<Rightarrow> nat \<Rightarrow> tls_session \<Rightarrow> bytes \<Rightarrow> worker \<Rightarrow> (bool \<times> worker) option" where
  "tls_app_data e i ts payload w =
     (let (n, plain, ts) = tls_decrypt (e_ssl e) ts payload 4096; w = tls_session_put i ts w
      in if n \<le> 0 then Some (False, w)
         else
           let w = add_tls_rx w
           in if app_state (tcb_at w i) = 5 \<and> is_http_response plain then
                do { w \<leftarrow> http_latency e i (count_response plain (e_uninit e (ext_pos w)) w);
                     http_after_response e i plain w }
              else if app_state (tcb_at w i) = 6 then http_rsp_body_recv e i (word_of_int n) w
              else Some (False, w))"

text \<open>Unencrypted HTTP, on a connection without a TLS session.\<close>

definition http_plain_data :: "env \<Rightarrow> nat \<Rightarrow> bytes \<Rightarrow> bytes \<Rightarrow> worker \<Rightarrow> (bool \<times> worker) option" where
  "http_plain_data e i payload tail w =
     (if app_state (tcb_at w i) = 5 \<and> tls_session_get i w = None then
        do { w \<leftarrow> (if is_http_response payload then http_latency e i (count_response payload tail w)
                    else Some (upd_metrics (\<lambda>m. m\<lparr>m_http_parse_err := m_http_parse_err m + 1\<rparr>) w));
             http_after_response e i payload w }
      else if app_state (tcb_at w i) = 6 \<and> tls_session_get i w = None
      then http_rsp_body_recv e i (word_of_nat (length payload)) w
      else Some (False, w))"

definition app_data :: "env \<Rightarrow> nat \<Rightarrow> bytes \<Rightarrow> worker \<Rightarrow> (bool \<times> worker) option" where
  "app_data e i payload w =
     (let t = tcb_at w i
      in if app_state t \<ge> 10 then
           do { w \<leftarrow> srv_on_data e i payload (src_port t) w;
                w \<leftarrow> send_ack e i w;
                Some (False, upd_tcb i (\<lambda>t. t\<lparr>pending_ack := False\<rparr>) w) }
         else if app_state t = 2 \<or> app_state t = 3 \<or> app_state t = 5 \<or> app_state t = 6 then
           (case tls_session_get i w of
              None \<Rightarrow> Some (False, w)
            | Some ts \<Rightarrow> if app_state t = 2 then tls_hs_data e i ts payload w else tls_app_data e i ts payload w)
         else Some (False, w))"

definition data_accepted :: "env \<Rightarrow> nat \<Rightarrow> u32 \<Rightarrow> worker \<Rightarrow> worker" where
  "data_accepted e i n w =
     (let w = upd_tcb i (\<lambda>t. t\<lparr>rcv_nxt := rcv_nxt t + n, pending_ack := True\<rparr>) w; (now, w) = rdtsc w;
          w = upd_tcb i (\<lambda>t. t\<lparr>delayed_ack_tsc := now + TCP_DELAYED_ACK_US * e_g_tsc_hz e div 1000000\<rparr>) w;
          w = tcp_timer_dack_add i w
      in upd_metrics (\<lambda>m. m\<lparr>m_tcp_payload_rx := m_tcp_payload_rx m + ucast n\<rparr>) w)"

definition est_data :: "env \<Rightarrow> nat \<Rightarrow> mbuf \<Rightarrow> tcp_hdr \<Rightarrow> worker \<Rightarrow> (bool \<times> worker) option" where
  "est_data e i m h w =
     (if has_payload m h \<and> th_seq h = rcv_nxt (tcb_at w i) then
        do { (fin, w) \<leftarrow> app_data e i (seg_payload m h) (data_accepted e i (payload_len m h) w);
             if fin then Some (True, w) else http_plain_data e i (seg_payload m h) (mb_tail m) w }
      else Some (False, w))"

definition est_fin :: "env \<Rightarrow> nat \<Rightarrow> tcp_hdr \<Rightarrow> worker \<Rightarrow> worker option" where
  "est_fin e i h w =
     (if has_flag (th_flags h) FIN_FLAG \<and> state (tcb_at w i) = TCP_ESTABLISHED then
        do { w \<leftarrow> send_ack e i (upd_tcb i (\<lambda>t. t\<lparr>rcv_nxt := rcv_nxt t + 1, state := TCP_CLOSE_WAIT\<rparr>) w);
             if app_ctx (tcb_at w i) \<noteq> 1 then map_option snd (tcp_fsm_close e i w) else Some w }
      else Some w)"

definition input_established ::
  "env \<Rightarrow> nat \<Rightarrow> mbuf \<Rightarrow> tcp_hdr \<Rightarrow> tcp_parsed_opts \<Rightarrow> worker \<Rightarrow> (bool \<times> worker) option" where
  "input_established e i m h opts w =
     (let w = (if po_has_timestamps opts \<and> ts_enabled (tcb_at w i)
               then upd_tcb i (\<lambda>t. t\<lparr>ts_ecr := po_ts_val opts\<rparr>) w else w)
      in do { w \<leftarrow> est_ack e i h opts w;
              (fin, w) \<leftarrow> est_data e i m h w;
              if fin then Some (True, w) else map_option (Pair False) (est_fin e i h w) })"

subsection \<open>Closing states\<close>

text \<open>Data that arrives while the connection closes is accepted and counted, not delivered.\<close>

definition closing_data :: "nat \<Rightarrow> mbuf \<Rightarrow> tcp_hdr \<Rightarrow> worker \<Rightarrow> worker" where
  "closing_data i m h w =
     (if has_payload m h \<and> th_seq h = rcv_nxt (tcb_at w i)
      then upd_metrics (\<lambda>mt. mt\<lparr>m_tcp_payload_rx := m_tcp_payload_rx mt + ucast (payload_len m h)\<rparr>)
             (upd_tcb i (\<lambda>t. t\<lparr>rcv_nxt := rcv_nxt t + payload_len m h\<rparr>) w)
      else w)"

definition input_fin_wait_1 :: "env \<Rightarrow> nat \<Rightarrow> mbuf \<Rightarrow> tcp_hdr \<Rightarrow> worker \<Rightarrow> worker option" where
  "input_fin_wait_1 e i m h w =
     (let newer = has_flag (th_flags h) ACK_FLAG \<and> SEQ_GT (th_ack h) (snd_una (tcb_at w i));
          w = (if newer then upd_tcb i (\<lambda>t. t\<lparr>snd_una := th_ack h\<rparr>) w else w);
          fin_acked = newer \<and> snd_una (tcb_at w i) = snd_nxt (tcb_at w i);
          w = closing_data i m h w
      in if has_flag (th_flags h) FIN_FLAG then
           do { w \<leftarrow> send_ack e i (upd_tcb i (\<lambda>t. t\<lparr>rcv_nxt := rcv_nxt t + 1\<rparr>) w);
                Some (if fin_acked then add_conn_close (free_conn i w)
                      else arm_rto e i (upd_tcb i (\<lambda>t. t\<lparr>state := TCP_CLOSING\<rparr>) w)) }
         else if fin_acked then
           let w = upd_tcb i (\<lambda>t. t\<lparr>state := TCP_FIN_WAIT_2\<rparr>) w; (now, w) = rdtsc w;
               w = tcp_timer_resched i (upd_tcb i (\<lambda>t. t\<lparr>timewait_deadline_tsc := now + 60 * tsc_hz w\<rparr>) w)
           in if has_payload m h then send_ack e i w else Some w
         else if has_payload m h then send_ack e i w else Some w)"

definition input_fin_wait_2 :: "env \<Rightarrow> nat \<Rightarrow> mbuf \<Rightarrow> tcp_hdr \<Rightarrow> worker \<Rightarrow> worker option" where
  "input_fin_wait_2 e i m h w =
     (let w = closing_data i m h w
      in if has_flag (th_flags h) FIN_FLAG then
           do { w \<leftarrow> send_ack e i (upd_tcb i (\<lambda>t. t\<lparr>rcv_nxt := rcv_nxt t + 1\<rparr>) w);
                Some (add_conn_close (free_conn i w)) }
         else if has_payload m h then send_ack e i w else Some w)"

definition input_closing :: "nat \<Rightarrow> tcp_hdr \<Rightarrow> worker \<Rightarrow> worker" where
  "input_closing i h w =
     (if has_flag (th_flags h) ACK_FLAG \<and> SEQ_GE (th_ack h) (snd_nxt (tcb_at w i))
      then add_conn_close (free_conn i w) else w)"

definition input_close_wait :: "env \<Rightarrow> nat \<Rightarrow> tcp_hdr \<Rightarrow> worker \<Rightarrow> worker option" where
  "input_close_wait e i h w =
     (if \<not> has_flag (th_flags h) ACK_FLAG then Some w
      else
        do { w \<leftarrow> (if SEQ_GT (th_ack h) (snd_una (tcb_at w i))
                    then do { w \<leftarrow> new_ack e i (th_ack h) w; snd_buf_drain e i w } else Some w);
             Some (set_snd_wnd i h w) })"

definition input_last_ack :: "nat \<Rightarrow> tcp_hdr \<Rightarrow> worker \<Rightarrow> worker" where
  "input_last_ack i h w =
     (if has_flag (th_flags h) ACK_FLAG
      then add_conn_close (tcb_free i (port_free_timewait i (tls_detach_if_needed i w))) else w)"

subsection \<open>RST, and the whole function\<close>

definition rst_valid :: "tcp_hdr \<Rightarrow> tcb \<Rightarrow> bool" where
  "rst_valid h t \<longleftrightarrow>
     (if state t = TCP_SYN_SENT then has_flag (th_flags h) ACK_FLAG \<and> th_ack h = snd_nxt t
      else SEQ_GE (th_seq h) (rcv_nxt t) \<and> SEQ_LT (th_seq h) (rcv_nxt t + rcv_wnd t))"

definition input_rst :: "nat \<Rightarrow> tcp_hdr \<Rightarrow> worker \<Rightarrow> worker" where
  "input_rst i h w =
     (let t = tcb_at w i
      in if has_flag (th_flags h) RST_FLAG \<and> in_use t \<and> state t \<noteq> TCP_TIME_WAIT \<and> rst_valid h t
         then upd_metrics (\<lambda>m. m\<lparr>m_tcp_reset_rx := m_tcp_reset_rx m + 1\<rparr>) (free_conn i w) else w)"

definition input_state ::
  "env \<Rightarrow> nat \<Rightarrow> mbuf \<Rightarrow> tcp_hdr \<Rightarrow> tcp_parsed_opts \<Rightarrow> worker \<Rightarrow> (bool \<times> worker) option" where
  "input_state e i m h opts w =
     (case state (tcb_at w i) of
        TCP_SYN_SENT \<Rightarrow> input_syn_sent e i h opts w
      | TCP_SYN_RECEIVED \<Rightarrow> map_option (Pair False) (input_syn_received e i h w)
      | TCP_ESTABLISHED \<Rightarrow> input_established e i m h opts w
      | TCP_FIN_WAIT_1 \<Rightarrow> map_option (Pair False) (input_fin_wait_1 e i m h w)
      | TCP_FIN_WAIT_2 \<Rightarrow> map_option (Pair False) (input_fin_wait_2 e i m h w)
      | TCP_CLOSING \<Rightarrow> Some (False, input_closing i h w)
      | TCP_CLOSE_WAIT \<Rightarrow> map_option (Pair False) (input_close_wait e i h w)
      | TCP_LAST_ACK \<Rightarrow> Some (False, input_last_ack i h w)
      | _ \<Rightarrow> Some (False, w))"

text \<open>
  The lookup of the connection a segment belongs to, with its own address as the source.  An IPv6
  segment is marked by the value 6 in \<^verbatim>\<open>hash.usr\<close>, its addresses are those the IPv6 layer saved.
\<close>

definition is_input_v6 :: "mbuf \<Rightarrow> bool" where
  "is_input_v6 m \<longleftrightarrow> mb_hash_usr m = 6"

definition input_lookup :: "mbuf \<Rightarrow> tcp_hdr \<Rightarrow> worker \<Rightarrow> nat option" where
  "input_lookup m h w =
     (let v6 = is_input_v6 m; sip = (if v6 then 0 else mb_hash_usr m); dip = (if v6 then 0 else mb_dynfield0 m)
      in case tcb_lookup (dip, th_dst_port h, sip, th_src_port h) w of
           None \<Rightarrow> None
         | Some i \<Rightarrow>
             if v6 \<and> ip_version (tcb_at w i) = 6 \<and>
                (src_ip6 (tcb_at w i) \<noteq> saved_dst6 w \<or> dst_ip6 (tcb_at w i) \<noteq> saved_src6 w)
             then None else Some i)"

definition tcp_fsm_input :: "env \<Rightarrow> mbuf \<Rightarrow> worker \<Rightarrow> worker option" where
  "tcp_fsm_input e m w =
     (if length (mb_data m) < 20 then Some w
      else if mb_l4_bad m then Some (upd_metrics (\<lambda>mt. mt\<lparr>m_tcp_bad_cksum := m_tcp_bad_cksum mt + 1\<rparr>) w)
      else
        let h = parse_tcp_hdr (mb_data m); v6 = is_input_v6 m;
            opts = snd (tcp_options_parse (th_data_off h) (drop 20 (mb_data m) @ mb_tail m))
        in case input_lookup m h w of
             None \<Rightarrow> passive_open e m h opts v6 (if v6 then 0 else mb_hash_usr m) (if v6 then 0 else mb_dynfield0 m) w
           | Some i \<Rightarrow>
               do { (fin, w) \<leftarrow> input_state e i m h opts w;
                    Some (if fin then w else input_rst i h w) })"

end
