(* ===== verification/TcpInputInv.thy ===== *)
theory TcpInputInv
  imports AppStep TcpInput
begin

text \<open>
  What a received segment does to its connection: \<open>tcp_fsm_input\<close> returns, keeps the worker's
  invariant, leaves other connections alone, and moves the connection only along the transitions of
  the state machine.
\<close>

subsection \<open>Acknowledgements\<close>

lemma cc_frame:
  "tcb_ok (t\<lparr>dup_ack_count := x\<rparr>) = tcb_ok t" "cc_ok (t\<lparr>dup_ack_count := x\<rparr>) = cc_ok t"
  "ctx_ok e (t\<lparr>dup_ack_count := x\<rparr>) = ctx_ok e t"
  by (simp_all add: tcb_ok_def cc_ok_def ctx_ok_def)

text \<open>Updates by the congestion algorithms: only their own fields change.\<close>

definition cc_fields :: "tcb \<Rightarrow> tcb" where
  "cc_fields t = t\<lparr>cwnd := 0, ssthresh := 0, in_fast_recovery := False, dup_ack_count := 0, cubic_wmax := 0,
     cubic_epoch_start := 0, cubic_origin_point := 0, cubic_k_us := 0\<rparr>"

lemma cc_fieldsD:
  assumes "cc_fields t' = cc_fields t"
  shows "in_use t' = in_use t" "key_of t' = key_of t" "tw_next t' = tw_next t" "tw_prev t' = tw_prev t" "tw_slot t' = tw_slot t"
    "state t' = state t" "app_ctx t' = app_ctx t" "app_state t' = app_state t" "snd_buf t' = snd_buf t"
    "mss_remote t' = mss_remote t"
proof -
  have "in_use (cc_fields t) = in_use t" "key_of (cc_fields t) = key_of t" "tw_next (cc_fields t) = tw_next t"
    "tw_prev (cc_fields t) = tw_prev t" "tw_slot (cc_fields t) = tw_slot t" "state (cc_fields t) = state t"
    "app_ctx (cc_fields t) = app_ctx t" "app_state (cc_fields t) = app_state t" "snd_buf (cc_fields t) = snd_buf t"
    "mss_remote (cc_fields t) = mss_remote t" for t by (simp_all add: cc_fields_def key_of_def)
  then show "in_use t' = in_use t" "key_of t' = key_of t" "tw_next t' = tw_next t" "tw_prev t' = tw_prev t" "tw_slot t' = tw_slot t"
    "state t' = state t" "app_ctx t' = app_ctx t" "app_state t' = app_state t" "snd_buf t' = snd_buf t"
    "mss_remote t' = mss_remote t" using assms by metis+
qed

lemma stays_const:
  assumes "good e i w" "cc_fields t' = cc_fields (tcb_at w i)" "cc_ok t'" "state (tcb_at w i) \<noteq> TCP_SYN_SENT"
  shows "stays e i w (upd_tcb i (\<lambda>_. t') w)"
proof -
  note g = goodD [OF assms(1)] and d = cc_fieldsD [OF assms(2)]
  have "worker_ok (upd_tcb i (\<lambda>_. t') w)"
  proof -
    have "upd_tcb i (\<lambda>_. t') w = upd_tcb i (\<lambda>t. if t = tcb_at w i then t' else t) w" by (simp add: upd_tcb_def tcb_at_def)
    moreover have "link_neutral (\<lambda>t. if t = tcb_at w i then t' else t)" using d by (simp add: link_neutral_def)
    moreover have "tcb_ok t'" using g(7) d assms(3,4) by (auto simp: tcb_ok_def)
    ultimately show ?thesis using worker_ok_upd_tcb [OF g(2) _ g(3)] by simp
  qed
  then show ?thesis using g d by (simp add: stays_def ctx_ok_def)
qed

lemma div32_some: "b \<noteq> 0 \<Longrightarrow> div32 a b = Some (a div b)"
  by (simp add: div32_def)

lemma cwnd_grows_ok:
  assumes "cc_ok t" "app_ctx t \<noteq> 1" "\<not> in_fast_recovery t" "\<not> cwnd t < ssthresh t"
  shows "cwnd t \<noteq> 0" "cc_ok (cwnd_capped (cwnd_add_inc (x div cwnd t) t))"
    "cc_fields (cwnd_capped (cwnd_add_inc (x div cwnd t) t)) = cc_fields t"
proof -
  show nz: "cwnd t \<noteq> 0" using assms by (auto simp: cc_ok_def word_gt_0)
  let ?t = "cwnd_capped (cwnd_add_inc (x div cwnd t) t)"
  show "cc_fields ?t = cc_fields t" by (simp add: cwnd_capped_def cwnd_add_inc_def cc_fields_def)
  show "cc_ok ?t"
  proof (cases "ssthresh t = 0")
    case True
    then have c: "2 \<le> unat (cwnd t)" "unat (cwnd t) \<le> 67108864"
      using assms(1,2) by (auto simp: cc_ok_def word_le_nat_alt CWND_CAP_def)
    have "unat (x div cwnd t) \<le> unat x div 2" using c(1) by (simp add: unat_div div_le_mono2)
    then have inc: "unat (x div cwnd t) < 2147483648" using unat_lt_u32 [of x] by simp
    then have "unat (cwnd (cwnd_add_inc (x div cwnd t) t)) \<ge> 2"
      using c by (auto simp: cwnd_add_inc_def word_nat_add_no_wrap)
    then have "2 \<le> unat (cwnd ?t)" "unat (cwnd ?t) \<le> 67108864" using cwnd_capped_nat [of "cwnd_add_inc (x div cwnd t) t"] by simp_all
    then show ?thesis using assms(1,3) True
      by (auto simp: cc_ok_def word_le_nat_alt CWND_CAP_def cwnd_capped_def cwnd_add_inc_def)
  next
    case False
    then show ?thesis using assms(1) by (auto simp: cc_ok_def cwnd_capped_def cwnd_add_inc_def)
  qed
qed

lemma cubic_ca_ok:
  assumes "cc_ok t" "app_ctx t \<noteq> 1" "\<not> in_fast_recovery t" "\<not> cwnd t < ssthresh t" "hz \<noteq> 0"
  shows "\<exists>t'. cubic_ca cm now hz t = Some t' \<and> cc_ok t' \<and> cc_fields t' = cc_fields t"
proof -
  have mss: "mss_remote t \<noteq> 0" using assms(1) by (simp add: cc_ok_def)
  then have "cubic_start_epoch cm now t \<noteq> None" by (simp add: cubic_start_epoch_def Let_def)
  then obtain t1 where t1: "cubic_start_epoch cm now t = Some t1" by blast
  have e: "cwnd t1 = cwnd t" "ssthresh t1 = ssthresh t" "in_fast_recovery t1 = in_fast_recovery t" "cc_fields t1 = cc_fields t"
    "app_ctx t1 = app_ctx t" "mss_remote t1 = mss_remote t"
    using t1 by (auto simp: cubic_start_epoch_def Let_def cc_fields_def split: if_splits)
  then have "cc_ok t1" using assms(1) by (simp add: cc_ok_def)
  note c = cwnd_grows_ok [OF this, unfolded e, OF assms(2-4)]
  show ?thesis using t1 assms(5) c e(1,4) by (auto simp: cubic_ca_def Let_def div32_some)
qed

lemma newreno_ok:
  assumes "cc_ok t" "app_ctx t \<noteq> 1"
  shows "\<exists>t'. newreno_on_ack acked t = Some t' \<and> cc_ok t' \<and> cc_fields t' = cc_fields t"
proof -
  consider "in_fast_recovery t" | "\<not> in_fast_recovery t" "cwnd t < ssthresh t" | "\<not> in_fast_recovery t" "\<not> cwnd t < ssthresh t" by blast
  then show ?thesis
  proof cases
    case 1
    then show ?thesis using assms by (auto simp: newreno_on_ack_def cc_ok_def cc_fields_def)
  next
    case 2
    then have "ssthresh t \<noteq> 0" by auto
    then show ?thesis using 2 assms by (auto simp: newreno_on_ack_def cc_ok_def cc_fields_def cwnd_capped_def)
  next
    case 3
    then show ?thesis using cwnd_grows_ok [OF assms 3] by (simp add: newreno_on_ack_def div32_some)
  qed
qed

lemma upd_tcb_at_const: "upd_tcb i f w = upd_tcb i (\<lambda>_. f (tcb_at w i)) w"
  by (simp add: upd_tcb_def tcb_at_def)

lemma congestion_on_ack_stays:
  assumes "good e i w" "cc_ok (tcb_at w i)" "state (tcb_at w i) \<noteq> TCP_SYN_SENT"
  shows "yields (congestion_on_ack cm i acked w) (stays e i w)"
proof -
  let ?w = "upd_tcb i (\<lambda>t. t\<lparr>dup_ack_count := 0\<rparr>) w"
  let ?t = "(tcb_at w i)\<lparr>dup_ack_count := 0\<rparr>"
  have t: "tcb_at ?w i = ?t" using goodD(6) [OF assms(1)] by simp
  have s: "stays e i w ?w"
    unfolding upd_tcb_at_const [of i "\<lambda>t. t\<lparr>dup_ack_count := 0\<rparr>"]
    by (rule stays_const [OF assms(1)]) (use assms in \<open>simp_all add: cc_fields_def cc_frame\<close>)
  note g = stays_good [OF assms(1) s]
  have to: "stays e i w (upd_tcb i (\<lambda>_. t') v)" if "cc_fields t' = cc_fields ?t" "cc_ok t'" "v = ?w \<or> v = snd (rdtsc ?w)" for t' v
  proof -
    have "stays e i w v" "good e i v" "tcb_at v i = ?t" using that(3) s g t good_rdtsc [OF g] by auto
    with stays_trans [OF this(1) stays_const [OF this(2)]] that assms(3) show ?thesis by simp
  qed
  have cc: "cc_ok ?t" using assms(2) by (simp add: cc_frame)
  have hz: "tsc_hz (snd (rdtsc ?w)) \<noteq> 0" using worker_okD(4) [OF goodD(2) [OF g]] by (simp add: rdtsc_def)
  consider (zero) "acked = 0" | (thr) "acked \<noteq> 0" "app_ctx ?t = 1" | (cubic) "acked \<noteq> 0" "app_ctx ?t \<noteq> 1" "cc_algo ?t = CC_CUBIC"
    | (reno) "acked \<noteq> 0" "app_ctx ?t \<noteq> 1" "cc_algo ?t \<noteq> CC_CUBIC" by blast
  then show ?thesis
  proof cases
    case zero
    then show ?thesis using stays_refl [OF assms(1)] by (simp add: congestion_on_ack_def)
  next
    case thr
    then show ?thesis
      using to [of "?t\<lparr>cwnd := U32_MAX\<rparr>" ?w] cc
      by (simp add: congestion_on_ack_def Let_def t upd_tcb_at_const [of i "\<lambda>t. t\<lparr>cwnd := _\<rparr>"] cc_fields_def cc_ok_def)
  next
    case reno
    obtain t' where "newreno_on_ack acked ?t = Some t'" "cc_ok t'" "cc_fields t' = cc_fields ?t"
      using newreno_ok [OF cc] reno(2) by auto
    then show ?thesis using reno to [of t' ?w] by (simp add: congestion_on_ack_def Let_def t)
  next
    case cubic
    have "yields (cubic_on_ack cm i acked ?w) (stays e i w)"
    proof (cases "in_fast_recovery ?t \<or> cwnd ?t < ssthresh ?t")
      case True
      have "cc_ok (?t\<lparr>cwnd := x\<rparr>)" if "\<not> in_fast_recovery ?t" for x using True that cc by (auto simp: cc_ok_def)
      moreover have "cc_ok (?t\<lparr>cwnd := ssthresh ?t, in_fast_recovery := False\<rparr>)" if "in_fast_recovery ?t"
        using that cc by (auto simp: cc_ok_def)
      ultimately show ?thesis using True
          to [of "?t\<lparr>cwnd := cwnd ?t + cc_min acked (ucast (mss_remote ?t))\<rparr>" ?w]
          to [of "?t\<lparr>cwnd := ssthresh ?t, in_fast_recovery := False\<rparr>" ?w]
        by (auto simp: cubic_on_ack_def Let_def t upd_tcb_at_const [of i "\<lambda>t. t\<lparr>cwnd := _ t\<rparr>"]
            upd_tcb_at_const [of i "\<lambda>t. t\<lparr>cwnd := _ t, in_fast_recovery := False\<rparr>"] cc_fields_def)
    next
      case False
      then obtain t' where "cubic_ca cm (fst (rdtsc ?w)) (tsc_hz (snd (rdtsc ?w))) ?t = Some t'" "cc_ok t'" "cc_fields t' = cc_fields ?t"
        using cubic_ca_ok [OF cc cubic(2) _ _ hz] by blast
      then show ?thesis using False to [of t' "snd (rdtsc ?w)"] by (simp add: cubic_on_ack_def Let_def t case_prod_beta)
    qed
    then show ?thesis using cubic by (simp add: congestion_on_ack_def Let_def t)
  qed
qed

text \<open>Updates that touch neither application nor congestion control.\<close>

definition io_field :: "(tcb \<Rightarrow> tcb) \<Rightarrow> bool" where
  "io_field f \<longleftrightarrow> link_neutral f \<and> (\<forall>t. (tcb_ok t \<longrightarrow> tcb_ok (f t)) \<and> state (f t) = state t \<and> app_state (f t) = app_state t \<and>
     app_ctx (f t) = app_ctx t)"

lemma stays_io:
  assumes "good e i w" "io_field f"
  shows "stays e i w (upd_tcb i f w)"
  using assms goodD [OF assms(1)] by (intro stays_upd) (auto simp: io_field_def ctx_ok_def)

lemma io_fields:
  "io_field (\<lambda>t. t\<lparr>retransmit_count := x\<rparr>)" "io_field (\<lambda>t. t\<lparr>rto_deadline_tsc := y\<rparr>)" "io_field (\<lambda>t. t\<lparr>rto_us := z\<rparr>)"
  "io_field (\<lambda>t. t\<lparr>snd_wnd := f1 t\<rparr>)" "io_field (\<lambda>t. t\<lparr>dup_ack_count := f2 t\<rparr>)" "io_field (\<lambda>t. t\<lparr>ts_ecr := z\<rparr>)"
  "io_field (\<lambda>t. t\<lparr>rcv_nxt := f3 t\<rparr>)" "io_field (\<lambda>t. t\<lparr>rcv_nxt := f3 t, pending_ack := b\<rparr>)" "io_field (\<lambda>t. t\<lparr>pending_ack := b\<rparr>)"
  "io_field (\<lambda>t. t\<lparr>delayed_ack_tsc := y\<rparr>)" "io_field (\<lambda>t. t\<lparr>snd_una := z\<rparr>)" "io_field (\<lambda>t. t\<lparr>timewait_deadline_tsc := y\<rparr>)"
  "io_field (\<lambda>t. t\<lparr>snd_nxt := f3 t\<rparr>)"
  by (simp_all add: io_field_def upd_simps)

lemma io_field_rtt: "io_field (update_rtt rtt)"
  by (auto simp: io_field_def upd_simps update_rtt_def Let_def)

lemma io_field_una: "io_field (advance_una ack)"
  by (auto simp: io_field_def upd_simps advance_una_def Let_def)

lemma io_field_ack_buf: "io_field (\<lambda>t. ack_buf acked (t\<lparr>retransmit_count := 0\<rparr>))"
  using snd_buf_ack_spec(1) by (auto simp: io_field_def upd_simps ack_buf_def split: option.splits)

lemma arm_stays:
  assumes "good e i w" "in_use (tcb_at w i)"
  shows "stays e i w (arm_rto e i w)"
  using stays_sends [OF assms(1)] arm_rto_effect(1,2) [of w i e] goodD [OF assms(1)] assms(2) by auto

lemma rearm_stays:
  assumes "good e i w" "in_use (tcb_at w i)"
  shows "stays e i w (rearm e i w)"
proof -
  let ?w = "upd_tcb i (\<lambda>t. t\<lparr>rto_deadline_tsc := 0\<rparr>) w"
  have s: "stays e i w ?w" by (rule stays_io [OF assms(1) io_fields(2)])
  have "stays e i ?w (tcp_timer_resched i ?w)"
    by (rule resched_stays [OF stays_good [OF assms(1) s]]) (use stays_in_use [OF s] assms(2) in simp)
  then show ?thesis using stays_trans [OF s] arm_stays [OF assms] by (simp add: rearm_def)
qed

lemma drain_stays:
  assumes "good e i w"
  shows "yields (snd_buf_drain e i w) (stays e i w)"
  using goodD [OF assms] stays_sends [OF assms] by (intro yields_mono [OF snd_buf_drain_ok]) auto

lemma send_ack_stays:
  assumes "good e i w"
  shows "yields (send_ack e i w) (stays e i w)"
  unfolding send_ack_def using goodD [OF assms] stays_sends [OF assms]
  by (intro yields_mono [OF send_control_sends]) auto

lemma new_ack_stays:
  assumes "good e i w" "in_use (tcb_at w i)" "cc_ok (tcb_at w i)" "state (tcb_at w i) \<noteq> TCP_SYN_SENT"
  shows "yields (new_ack e i ack w) (stays e i w)"
proof -
  let ?w = "upd_tcb i (advance_una ack) w"
  have s: "stays e i w ?w" by (rule stays_io [OF assms(1) io_field_una])
  note g = stays_good [OF assms(1) s]
  have "tcb_at ?w i = advance_una ack (tcb_at w i)" using goodD(6) [OF assms(1)] by simp
  then have "cc_ok (tcb_at ?w i)" "state (tcb_at ?w i) \<noteq> TCP_SYN_SENT"
    using assms(3,4) by (simp_all add: advance_una_def Let_def cc_ok_def)
  note c = yields_mono [OF congestion_on_ack_stays [OF g this] stays_trans [OF s]]
  show ?thesis unfolding new_ack_def Let_def
  proof (rule stays_chain [where g = "\<lambda>x. x" and h = "\<lambda>x. x", OF assms(1) c])
    fix v assume g: "good e i v" and sv: "stays e i w v"
    let ?v = "upd_tcb i (\<lambda>t. ack_buf (ack - snd_una (tcb_at w i)) (t\<lparr>retransmit_count := 0\<rparr>)) v"
    have s: "stays e i v ?v" by (rule stays_io [OF g io_field_ack_buf])
    have "stays e i ?v (rearm e i ?v)"
      by (rule rearm_stays [OF stays_good [OF g s]]) (use stays_in_use [OF s] stays_in_use [OF sv] assms(2) in simp)
    then show "yields (Some (rearm e i ?v)) (stays e i v)" using stays_trans [OF s] by simp
  qed
qed

lemma ts_now_stays:
  assumes "good e i w"
  shows "yields (ts_now e w) (\<lambda>r. stays e i w (snd r))"
  using goodD(1) [OF assms] stays_refl [OF assms] by (simp add: ts_now_def case_prod_beta env_ok_def)

lemma ack_rtt_stays:
  assumes "good e i w"
  shows "yields (ack_rtt e i opts w) (stays e i w)"
proof -
  have "yields (ts_now e w \<bind> (\<lambda>(now, v). Some (if now - po_ts_ecr opts < 60000000 then upd_tcb i (update_rtt (now - po_ts_ecr opts)) v else v)))
      (stays e i w)"
    by (rule stays_chain [where h = "\<lambda>x. x", OF assms ts_now_stays [OF assms]])
      (auto simp: case_prod_beta intro: stays_io io_field_rtt stays_refl)
  then show ?thesis using stays_refl [OF assms] by (simp add: ack_rtt_def Let_def)
qed

lemma cc_ok_fast: "cc_ok t \<Longrightarrow> cc_ok (congestion_fast_retransmit cm t)" "cc_fields (congestion_fast_retransmit cm t) = cc_fields t"
proof -
  assume c: "cc_ok t"
  then have "0 < unat (2 * (ucast (mss_remote t) :: u32))" by (simp add: unat_two_mss unat_gt_0 cc_ok_def)
  then have "cc_max y (2 * (ucast (mss_remote t) :: u32)) \<noteq> 0" for y
    using cc_max_ge(2) [of y "2 * ucast (mss_remote t)"] by (metis max.strict_coboundedI2 less_irrefl unat_0)
  then show "cc_ok (congestion_fast_retransmit cm t)"
    using c by (auto simp: congestion_fast_retransmit_def Let_def cc_ok_def)
qed (simp add: congestion_fast_retransmit_def Let_def cc_fields_def)

lemma dup_ack_stays:
  assumes "good e i w" "cc_ok (tcb_at w i)" "state (tcb_at w i) \<noteq> TCP_SYN_SENT"
  shows "yields (dup_ack e i w) (stays e i w)"
proof -
  let ?w = "upd_tcb i (\<lambda>t. t\<lparr>dup_ack_count := dup_ack_count t + 1\<rparr>) w"
  have s: "stays e i w ?w" by (rule stays_io [OF assms(1) io_fields(5)])
  note g = stays_good [OF assms(1) s]
  have t: "tcb_at ?w i = (tcb_at w i)\<lparr>dup_ack_count := dup_ack_count (tcb_at w i) + 1\<rparr>" using goodD(6) [OF assms(1)] by simp
  let ?v = "upd_tcb i (congestion_fast_retransmit (e_cubic e)) ?w"
  have s2: "stays e i ?w ?v"
    unfolding upd_tcb_at_const [of i "congestion_fast_retransmit (e_cubic e)"]
    by (rule stays_const [OF g cc_ok_fast(2) cc_ok_fast(1)]) (use assms in \<open>simp_all add: t cc_frame\<close>)
  note g2 = stays_good [OF g s2] and sv = stays_trans [OF s s2]
  have seg: "yields (tcp_send_segment e i (ACK_FLAG OR PSH_FLAG) (sb_data sb) (min (sb_len sb) (tcb_effective_mss (tcb_at ?v i))) sq ak ?v)
      (\<lambda>r. stays e i w (snd r))" if "snd_buf (tcb_at ?v i) = Some sb" for sb sq ak
  proof -
    note g3 = goodD [OF g2]
    have "snd_buf_ok sb" using g3(7) that by (simp add: tcb_ok_def)
    then have "unat (sb_len sb) \<le> length (sb_data sb)" by (simp add: snd_buf_ok_def word_le_nat_alt)
    then have "unat (min (sb_len sb) (tcb_effective_mss (tcb_at ?v i))) \<le> length (sb_data sb)"
      "unat (min (sb_len sb) (tcb_effective_mss (tcb_at ?v i))) \<le> MAX_MSS"
      using tcb_effective_mss_bound(2) [OF g3(7)] by (auto simp: min_def word_le_nat_alt)
    from send_segment_ok [OF g3(2,1,3) this] show ?thesis
      by (rule yields_mono) (use stays_sends [OF g2] stays_trans [OF sv] in \<open>auto simp: seg_post_def seg_sent_def\<close>)
  qed
  show ?thesis unfolding dup_ack_def Let_def
    using s sv seg by (auto simp: yields_bind case_prod_beta split: option.splits elim!: yields_mono)
qed

lemma est_ack_stays:
  assumes "good e i w" "state (tcb_at w i) = TCP_ESTABLISHED"
  shows "yields (est_ack e i h opts w) (stays e i w)"
proof -
  have u: "in_use (tcb_at w i)" by (rule good_in_use [OF assms(1)]) (simp add: assms(2))
  have c: "cc_ok (tcb_at w i)" using goodD(7) [OF assms(1)] assms(2) by (simp add: tcb_ok_def)
  have n: "state (tcb_at w i) \<noteq> TCP_SYN_SENT" by (simp add: assms(2))
  have "yields (do { w \<leftarrow> new_ack e i (th_ack h) w; w \<leftarrow> ack_rtt e i opts w; w \<leftarrow> snd_buf_drain e i w;
           if app_state (tcb_at w i) = 12 then srv_stream_pump e i w else Some w }) (stays e i w)"
    apply (rule stays_chain [where g = "\<lambda>x. x" and h = "\<lambda>x. x", OF assms(1) new_ack_stays [OF assms(1) u c n]])
    apply (rule stays_chain [where g = "\<lambda>x. x" and h = "\<lambda>x. x"], assumption, erule ack_rtt_stays)
    apply (rule stays_chain [where g = "\<lambda>x. x" and h = "\<lambda>x. x"], assumption, erule drain_stays)
    apply (simp add: pump_stays stays_refl)
    done
  moreover note dup_ack_stays [OF assms(1) c n]
  ultimately have a: "yields (if SEQ_GT (th_ack h) (snd_una (tcb_at w i)) then
        do { w \<leftarrow> new_ack e i (th_ack h) w; w \<leftarrow> ack_rtt e i opts w; w \<leftarrow> snd_buf_drain e i w;
             if app_state (tcb_at w i) = 12 then srv_stream_pump e i w else Some w }
      else if th_ack h = snd_una (tcb_at w i) then dup_ack e i w else Some w) (stays e i w)"
    using stays_refl [OF assms(1)] by simp
  have "yields (Some (set_snd_wnd i h v)) (stays e i v)" if "good e i v" for v
    using stays_io [OF that io_fields(4)] by (simp add: set_snd_wnd_def)
  from stays_chain [where g = "\<lambda>x. x" and h = "\<lambda>x. x", OF assms(1) a this] show ?thesis
    using stays_refl [OF assms(1)] by (simp add: est_ack_def)
qed

subsection \<open>Data\<close>

lemma dack_add_stays:
  assumes "good e i w"
  shows "stays e i w (tcp_timer_dack_add i w)"
proof (cases "in_dack_list (tcb_at w i)")
  case True
  then show ?thesis using stays_refl [OF assms] by (simp add: tcp_timer_dack_add_def)
next
  case False
  have head: "stays e i w (v\<lparr>tw_dack_head := n\<rparr>) = stays e i w v" for v n
  proof -
    have "conn_ok (v\<lparr>tw_dack_head := n\<rparr>) = conn_ok v" by (rule conn_ok_cong) simp_all
    then show ?thesis by (simp add: stays_def conn_step_def worker_ok_def tcb_at_def)
  qed
  have "io_field (\<lambda>t. t\<lparr>dack_next := x, in_dack_list := True\<rparr>)" for x by (simp add: io_field_def upd_simps)
  from stays_io [OF assms this] head False show ?thesis
    by (simp add: tcp_timer_dack_add_def)
qed

lemma data_accepted_stays:
  assumes "good e i w"
  shows "stays e i w (data_accepted e i n w)"
proof -
  let ?w1 = "snd (rdtsc (upd_tcb i (\<lambda>t. t\<lparr>rcv_nxt := rcv_nxt t + n, pending_ack := True\<rparr>) w))"
  have s1: "stays e i w ?w1" using stays_io [OF assms io_fields(8)] by simp
  note g1 = stays_good [OF assms s1]
  have s2: "stays e i ?w1 (upd_tcb i (\<lambda>t. t\<lparr>delayed_ack_tsc := x\<rparr>) ?w1)" for x by (rule stays_io [OF g1 io_fields(10)])
  note s3 = dack_add_stays [OF stays_good [OF g1 s2]]
  show ?thesis using stays_trans [OF s1 stays_trans [OF s2 s3]] by (simp add: data_accepted_def Let_def case_prod_beta)
qed

lemma http_latency_stays:
  assumes "good e i w" "app_ctx (tcb_at w i) \<noteq> 1"
  shows "yields (http_latency e i w) (stays e i w)"
proof -
  have "yields (do { hpb \<leftarrow> http_req_of e (tcb_at v i);
          Some (v\<lparr>latency := hist_record_corrected us (case hpb of Some hp \<Rightarrow> hp_expected_interval_us hp | None \<Rightarrow> 0) (latency v)\<rparr>) })
      (stays e i v)" if gv: "good e i v" and sv: "stays e i w v" for v us
  proof -
    have "app_ctx (tcb_at v i) \<noteq> 1" using sv assms(2) by (simp add: stays_def)
    then obtain hpb where "http_req_of e (tcb_at v i) = Some hpb" using http_req_of_ok [OF goodD(4) [OF gv]] by blast
    then show ?thesis using stays_refl [OF gv] by simp
  qed
  then have "yields (latency_us (http_req_sent_tsc (tcb_at w i)) w \<bind> (\<lambda>(us, v). do { hpb \<leftarrow> http_req_of e (tcb_at v i);
          Some (v\<lparr>latency := hist_record_corrected us (case hpb of Some hp \<Rightarrow> hp_expected_interval_us hp | None \<Rightarrow> 0) (latency v)\<rparr>) }))
      (stays e i w)"
    by (intro stays_chain [where h = "\<lambda>x. x", OF assms(1) latency_stays(1) [OF assms(1)]]) (simp add: case_prod_beta)
  then show ?thesis using stays_refl [OF assms(1)] by (simp add: http_latency_def Let_def)
qed

lemma after_response_evolves:
  assumes "good e i w" "in_use (tcb_at w i)" "app_ctx (tcb_at w i) \<noteq> 1"
  shows "yields (http_after_response e i buf w) (\<lambda>r. evolves e i w (snd r))"
  unfolding http_after_response_def
proof (rule stays_then [OF assms(1) next_txn_stays [OF assms]])
  fix r :: "nat \<times> worker" assume g: "good e i (snd r)" and s: "stays e i w (snd r)"
  obtain nxt v where r: "r = (nxt, v)" by (cases r)
  have u: "in_use (tcb_at v i)" "app_ctx (tcb_at v i) \<noteq> 1" using s assms(2,3) by (auto simp: stays_def r)
  have "stays e i v (upd_tcb i (\<lambda>t. t\<lparr>app_state := 7\<rparr>) v)"
    by (rule stays_set_app [OF g [unfolded r snd_conv] app_fields(1) u(1)]) (use u(2) in simp)
  moreover have "good e i v" using g by (simp add: r)
  ultimately show "yields (case r of (nxt, w) \<Rightarrow>
        if nxt = 4 then map_option (Pair False) (http_send_next_request e i w)
        else if nxt = 7 then Some (False, upd_tcb i (\<lambda>t. t\<lparr>app_state := 7\<rparr>) w)
        else if \<not> graceful_close (tcb_at w i) then map_option (Pair True) (tcp_fsm_reset e i w)
        else http_rsp_body_start e i buf w) (\<lambda>y. evolves e i (snd r) (snd y))"
    using yields_mono [OF send_next_stays stays_evolves, of e i v] reset_evolves [of e i v] body_start_evolves [of e i v buf] u stays_evolves
    by (simp add: r)
qed

lemma send_if_any_stays:
  assumes "good e i w"
  shows "yields (send_if_any e i out w) (stays e i w)"
  using send_stays [OF assms unat_word_of_nat_le, of out] stays_refl [OF assms]
  by (auto simp: send_if_any_def elim!: yields_mono)

lemma request_sent_stays:
  assumes "good e i w" "in_use (tcb_at w i)" "app_ctx (tcb_at w i) \<noteq> 1"
  shows "stays e i w (upd_tcb i (\<lambda>t. t\<lparr>http_req_sent_tsc := x, app_state := 5\<rparr>) (snd (rdtsc (add_http_req w))))"
proof -
  let ?w = "snd (rdtsc (add_http_req w))"
  have s: "stays e i w ?w" using stays_refl [OF assms(1)] by (simp add: add_http_req_def)
  show ?thesis
    by (rule stays_trans [OF s stays_set_app [OF stays_good [OF assms(1) s] app_fields(6)]])
      (use assms(2,3) in \<open>simp_all add: add_http_req_def\<close>)
qed

lemma https_request_stays:
  assumes "good e i w" "in_use (tcb_at w i)" "app_ctx (tcb_at w i) > 1"
  shows "yields (https_request e i ts w) (stays e i w)"
proof -
  obtain hp where hp: "e_http_req e (app_ctx (tcb_at w i)) = Some hp" "unat (hp_hdr_len hp) \<le> length (hp_hdr hp)"
    using goodD(4) [OF assms(1)] assms(3) by (auto simp: ctx_ok_def req_ok_def split: option.splits)
  define hdr where "hdr = take (unat (hp_hdr_len hp)) (hp_hdr hp)"
  have "yields (tls_encrypt_send e i ts hdr 4096 w \<bind> (\<lambda>(_, w). Some (upd_tcb i (\<lambda>t. t\<lparr>http_req_sent_tsc := fst (rdtsc (add_http_req w)), app_state := 5\<rparr>)
      (snd (rdtsc (add_http_req w)))))) (stays e i w)"
  proof (rule stays_chain [where h = "\<lambda>x. x", OF assms(1) encrypt_send_stays [OF assms(1)]])
    fix r :: "int \<times> worker" assume g: "good e i (snd r)" and s: "stays e i w (snd r)"
    have "in_use (tcb_at (snd r) i)" "app_ctx (tcb_at (snd r) i) \<noteq> 1" using s assms(2,3) by (auto simp: stays_def)
    from request_sent_stays [OF g this]
    show "yields (case r of (_, w) \<Rightarrow> Some (upd_tcb i (\<lambda>t. t\<lparr>http_req_sent_tsc := fst (rdtsc (add_http_req w)), app_state := 5\<rparr>)
      (snd (rdtsc (add_http_req w))))) (stays e i (snd r))" by (simp add: case_prod_beta)
  qed
  then show ?thesis using hp stays_refl [OF assms(1)]
    by (simp add: https_request_def request_bytes_def hdr_def Let_def case_prod_beta)
qed

lemma tls_established_stays:
  assumes "good e i w" "in_use (tcb_at w i)"
  shows "yields (tls_established e i ts w) (stays e i w)"
proof -
  let ?w = "add_tls_ok (upd_tcb i (\<lambda>t. t\<lparr>app_state := 3\<rparr>) w)"
  have s: "stays e i w ?w" unfolding add_tls_ok_def stays_fields by (rule stays_set_app [OF assms(1) app_fields(1) assms(2)]) simp
  note g = stays_good [OF assms(1) s]
  note l = yields_mono [OF latency_stays(2) [OF g] stays_trans [OF s]]
  show ?thesis unfolding tls_established_def Let_def
  proof (rule stays_chain [where g = "\<lambda>x. x" and h = "\<lambda>x. x", OF assms(1) l])
    fix v assume gv: "good e i v" and sv: "stays e i w v"
    have u: "in_use (tcb_at v i)" using stays_in_use [OF sv] assms(2) by simp
    show "yields (if app_ctx (tcb_at v i) > 0x1000 then https_request e i ts v else Some v) (stays e i v)"
      using https_request_stays [OF gv u] stays_refl [OF gv] by simp
  qed
qed

lemma tls_failed_stays:
  assumes "good e i w"
  shows "stays e i w (tls_failed i w)"
  unfolding tls_failed_def add_tls_fail_def stays_fields by (rule stays_app_field [OF assms app_fields(1)]) simp_all

lemma tls_hs_data_evolves:
  assumes "good e i w" "in_use (tcb_at w i)"
  shows "yields (tls_hs_data e i ts payload w) (\<lambda>r. evolves e i w (snd r))"
proof -
  obtain hr out ts' where t: "tls_handshake (e_ssl e) ts payload 4096 = (hr, out, ts')" by (cases "tls_handshake (e_ssl e) ts payload 4096")
  obtain cl ts2 where t2: "tls_shutdown (e_ssl e) ts' 64 = (cl, ts2)" by (cases "tls_shutdown (e_ssl e) ts' 64")
  have s0: "stays e i w (tls_session_put i ts' w)" using stays_refl [OF assms(1)] by simp
  note send = yields_mono [OF send_if_any_stays [OF stays_good [OF assms(1) s0], of out] stays_trans [OF s0]]
  have fin: "yields (send_if_any e i cl (tls_session_put i ts2 v) \<bind> (\<lambda>w. tcp_fsm_close e i w \<bind> (\<lambda>(_, w). Some (True, w))))
      (\<lambda>r. evolves e i v (snd r))" if g: "good e i v" for v
  proof (rule stays_then [where g = "\<lambda>x. x", OF g])
    have s: "stays e i v (tls_session_put i ts2 v)" using stays_refl [OF g] by simp
    show "yields (send_if_any e i cl (tls_session_put i ts2 v)) (stays e i v)"
      by (rule yields_mono [OF send_if_any_stays [OF stays_good [OF g s]] stays_trans [OF s]])
    fix x assume "good e i x"
    from close_evolves [OF this] show "yields (tcp_fsm_close e i x \<bind> (\<lambda>(_, w). Some (True, w))) (\<lambda>y. evolves e i x (snd y))"
      by (auto simp: yields_bind case_prod_beta elim!: yields_mono)
  qed
  have est: "yields (tls_established e i ts' v \<bind> (\<lambda>w. if app_ctx (tcb_at w i) \<noteq> 0 then Some (False, w)
        else if graceful_close (tcb_at w i) then
          send_if_any e i cl (tls_session_put i ts2 w) \<bind> (\<lambda>w. tcp_fsm_close e i w \<bind> (\<lambda>(_, w). Some (True, w)))
        else map_option (Pair True) (tcp_fsm_reset e i w))) (\<lambda>r. evolves e i v (snd r))"
    if g: "good e i v" and u: "in_use (tcb_at v i)" for v
  proof (rule stays_then [where g = "\<lambda>x. x", OF g tls_established_stays [OF g u]])
    fix x assume gx: "good e i x" and sx: "stays e i v x"
    have "in_use (tcb_at x i)" using stays_in_use [OF sx] u by simp
    then show "yields (if app_ctx (tcb_at x i) \<noteq> 0 then Some (False, x)
        else if graceful_close (tcb_at x i) then
          send_if_any e i cl (tls_session_put i ts2 x) \<bind> (\<lambda>w. tcp_fsm_close e i w \<bind> (\<lambda>(_, w). Some (True, w)))
        else map_option (Pair True) (tcp_fsm_reset e i x)) (\<lambda>r. evolves e i x (snd r))"
      unfolding yields_if using fin [OF gx] reset_evolves [OF gx] evolves_refl [OF gx] by simp
  qed
  show ?thesis unfolding tls_hs_data_def t t2 prod.case Let_def
  proof (rule stays_then [where g = "\<lambda>x. x", OF assms(1) send])
    fix x assume gx: "good e i x" and sx: "stays e i w x"
    define y where "y = (if out \<noteq> [] then add_tls_tx x else x)"
    have sy: "stays e i x y" using stays_refl [OF gx] by (simp add: y_def add_tls_tx_def)
    note gy = stays_good [OF gx sy]
    have u: "in_use (tcb_at y i)" using stays_in_use [OF sx] stays_in_use [OF sy] assms(2) by simp
    note a = after_stays [OF gx sy est [OF _ u]]
    have "evolves e i x (tls_failed i y)" "evolves e i x y"
      using stays_evolves [OF stays_trans [OF sy tls_failed_stays [OF gy]]] stays_evolves [OF sy] by simp_all
    then show "yields (if hr = 1 then tls_established e i ts' (if out \<noteq> [] then add_tls_tx x else x) \<bind>
        (\<lambda>w. if app_ctx (tcb_at w i) \<noteq> 0 then Some (False, w)
          else if graceful_close (tcb_at w i) then
            send_if_any e i cl (tls_session_put i ts2 w) \<bind> (\<lambda>w. tcp_fsm_close e i w \<bind> (\<lambda>(_, w). Some (True, w)))
          else map_option (Pair True) (tcp_fsm_reset e i w))
      else if hr < 0 then Some (False, tls_failed i (if out \<noteq> [] then add_tls_tx x else x))
      else Some (False, if out \<noteq> [] then add_tls_tx x else x)) (\<lambda>r. evolves e i x (snd r))"
      unfolding y_def [symmetric] yields_if using a by simp
  qed
qed

lemma response_counted:
  assumes "good e i w" "in_use (tcb_at w i)" "app_ctx (tcb_at w i) \<noteq> 1"
  shows "yields (http_latency e i (count_response buf mem w) \<bind> http_after_response e i buf') (\<lambda>r. evolves e i w (snd r))"
proof (rule stays_then [where g = "\<lambda>x. x", OF assms(1)])
  let ?w = "count_response buf mem w"
  have s: "stays e i w ?w" using stays_refl [OF assms(1)] by (simp add: count_response_def)
  show "yields (http_latency e i ?w) (stays e i w)"
    by (rule yields_mono [OF http_latency_stays stays_trans [OF s]])
      (use stays_good [OF assms(1) s] assms(3) in \<open>simp_all add: count_response_def\<close>)
  fix x assume "good e i x" "stays e i w x"
  then show "yields (http_after_response e i buf' x) (\<lambda>y. evolves e i x (snd y))"
    using after_response_evolves [of e i x] assms(2,3) by (simp add: stays_def)
qed

lemma tls_app_data_evolves:
  assumes "good e i w" "in_use (tcb_at w i)"
  shows "yields (tls_app_data e i ts payload w) (\<lambda>r. evolves e i w (snd r))"
proof -
  obtain n plain ts' where t: "tls_decrypt (e_ssl e) ts payload 4096 = (n, plain, ts')" by (cases "tls_decrypt (e_ssl e) ts payload 4096")
  let ?v = "tls_session_put i ts' w" let ?x = "add_tls_rx ?v"
  have s: "stays e i w ?v" "stays e i w ?x" using stays_refl [OF assms(1)] by (simp_all add: add_tls_rx_def)
  note g = stays_good [OF assms(1) s(2)]
  have x: "tcb_at ?x i = tcb_at w i" by (simp add: add_tls_rx_def)
  have a: "yields (http_latency e i (count_response plain mem ?x) \<bind> http_after_response e i plain) (\<lambda>r. evolves e i w (snd r))"
    if "app_state (tcb_at w i) = 5" for mem
    by (rule after_stays [OF assms(1) s(2)]) (rule response_counted, use assms(2) goodD(4) [OF assms(1)] that in \<open>simp_all add: x ctx_ok_def\<close>)
  have b: "yields (http_rsp_body_recv e i m ?x) (\<lambda>r. evolves e i w (snd r))" for m
    by (rule after_stays [OF assms(1) s(2)]) (rule body_recv_evolves, use assms(2) in \<open>simp_all add: x\<close>)
  show ?thesis unfolding tls_app_data_def t prod.case Let_def yields_if x
    using a b stays_evolves [OF s(1)] stays_evolves [OF s(2)] by simp
qed

lemma plain_data_evolves:
  assumes "good e i w"
  shows "yields (http_plain_data e i payload tail w) (\<lambda>r. evolves e i w (snd r))"
proof -
  let ?v = "upd_metrics (\<lambda>m. m\<lparr>m_http_parse_err := m_http_parse_err m + 1\<rparr>) w"
  have s: "stays e i w ?v" using stays_refl [OF assms] by simp
  have c: "app_ctx (tcb_at w i) \<noteq> 1" "in_use (tcb_at w i)" if "app_state (tcb_at w i) = 5"
    using goodD(4) [OF assms] good_in_use [OF assms] that by (simp_all add: ctx_ok_def)
  have "yields (http_after_response e i payload ?v) (\<lambda>r. evolves e i w (snd r))" if "app_state (tcb_at w i) = 5"
    by (rule after_stays [OF assms s]) (rule after_response_evolves, use c [OF that] in simp_all)
  moreover have "app_state (tcb_at w i) = 6 \<Longrightarrow> in_use (tcb_at w i)" using good_in_use [OF assms] by simp
  ultimately show ?thesis unfolding http_plain_data_def
    using response_counted [OF assms] body_recv_evolves [OF assms] evolves_refl [OF assms] c by simp
qed

lemma app_data_evolves:
  assumes "good e i w"
  shows "yields (app_data e i payload w) (\<lambda>r. evolves e i w (snd r))"
proof -
  let ?t = "tcb_at w i"
  have u: "in_use ?t" if "app_state ?t \<noteq> 0" using good_in_use [OF assms] that by simp
  have a: "yields (do { w \<leftarrow> srv_on_data e i payload p w; w \<leftarrow> send_ack e i w;
      Some (False, upd_tcb i (\<lambda>t. t\<lparr>pending_ack := False\<rparr>) w) }) (\<lambda>r. evolves e i w (snd r))" if "app_state ?t \<ge> 10" for p
  proof -
    have nz: "app_state ?t \<noteq> 0" using that by auto
    have ack: "yields (do { w \<leftarrow> send_ack e i v; Some (False, upd_tcb i (\<lambda>t. t\<lparr>pending_ack := False\<rparr>) w) }) (\<lambda>r. evolves e i v (snd r))"
      if g: "good e i v" for v
      by (rule yields_stays) (rule stays_chain [where g = "\<lambda>x. x", OF g send_ack_stays [OF g]], simp add: stays_io [OF _ io_fields(9)])
    show ?thesis
    proof (rule yields_bindI [OF srv_on_data_evolves [OF assms u [OF nz]]])
      fix x assume x: "evolves e i w x"
      show "yields (do { w \<leftarrow> send_ack e i x; Some (False, upd_tcb i (\<lambda>t. t\<lparr>pending_ack := False\<rparr>) w) }) (\<lambda>r. evolves e i w (snd r))"
        by (rule yields_mono [OF ack [OF evolves_good [OF assms x]] evolves_trans [OF x]])
    qed
  qed
  have b: "yields (tls_hs_data e i ts payload w) (\<lambda>r. evolves e i w (snd r))" if "app_state ?t = 2" for ts
    by (rule tls_hs_data_evolves [OF assms u]) (simp add: that)
  have c: "yields (tls_app_data e i ts payload w) (\<lambda>r. evolves e i w (snd r))" if "app_state ?t \<in> {3, 5, 6}" for ts
    by (rule tls_app_data_evolves [OF assms u]) (use that in auto)
  show ?thesis unfolding app_data_def Let_def
    using a b c evolves_refl [OF assms] by (auto split: option.splits)
qed

lemma est_data_evolves:
  assumes "good e i w"
  shows "yields (est_data e i m h w) (\<lambda>r. evolves e i w (snd r))"
proof -
  let ?v = "data_accepted e i (payload_len m h) w"
  note s = data_accepted_stays [OF assms, of "payload_len m h"] note g = stays_good [OF assms s]
  have "yields (app_data e i (seg_payload m h) ?v \<bind> (\<lambda>(fin, w). if fin then Some (True, w) else http_plain_data e i (seg_payload m h) (mb_tail m) w))
     (\<lambda>r. evolves e i ?v (snd r))"
  proof (rule yields_bindI [OF app_data_evolves [OF g]])
    fix r :: "bool \<times> worker" assume r: "evolves e i ?v (snd r)"
    show "yields (case r of (fin, w) \<Rightarrow> if fin then Some (True, w) else http_plain_data e i (seg_payload m h) (mb_tail m) w)
      (\<lambda>r. evolves e i ?v (snd r))"
      using r yields_mono [OF plain_data_evolves [OF evolves_good [OF g r]] evolves_trans [OF r]] by (cases r) auto
  qed
  from after_stays [OF assms s this] show ?thesis using evolves_refl [OF assms] by (simp add: est_data_def)
qed

subsection \<open>The state machine\<close>

text \<open>The states a connection may be in after one segment, by its state before.\<close>

fun next_states :: "tcp_state \<Rightarrow> tcp_state set" where
  "next_states TCP_SYN_SENT = {TCP_SYN_SENT, TCP_ESTABLISHED, TCP_FIN_WAIT_1, TCP_CLOSED}"
| "next_states TCP_SYN_RECEIVED = {TCP_SYN_RECEIVED, TCP_ESTABLISHED, TCP_FIN_WAIT_1, TCP_CLOSED}"
| "next_states TCP_ESTABLISHED = {TCP_ESTABLISHED, TCP_FIN_WAIT_1, TCP_CLOSE_WAIT, TCP_LAST_ACK, TCP_CLOSED}"
| "next_states TCP_FIN_WAIT_1 = {TCP_FIN_WAIT_1, TCP_FIN_WAIT_2, TCP_CLOSING, TCP_CLOSED}"
| "next_states TCP_FIN_WAIT_2 = {TCP_FIN_WAIT_2, TCP_CLOSED}"
| "next_states TCP_CLOSING = {TCP_CLOSING, TCP_CLOSED}"
| "next_states TCP_CLOSE_WAIT = {TCP_CLOSE_WAIT, TCP_CLOSED}"
| "next_states TCP_LAST_ACK = {TCP_LAST_ACK, TCP_CLOSED}"
| "next_states TCP_TIME_WAIT = {TCP_TIME_WAIT}"
| "next_states TCP_LISTEN = {TCP_LISTEN, TCP_CLOSED}"
| "next_states TCP_CLOSED = {TCP_CLOSED}"

definition moved :: "env \<Rightarrow> nat \<Rightarrow> tcp_state set \<Rightarrow> worker \<Rightarrow> worker \<Rightarrow> bool" where
  "moved e i S w w' \<longleftrightarrow> worker_ok w' \<and> conn_step i w w' \<and> ctx_ok e (tcb_at w' i) \<and> srv_ok (srv w') \<and> state (tcb_at w' i) \<in> S"

lemma moved_good: "good e i w \<Longrightarrow> moved e i S w w' \<Longrightarrow> good e i w'"
  using conn_step_capacity [of i w w'] by (auto simp: moved_def good_def)

lemma moved_trans: "moved e i S a b \<Longrightarrow> moved e i S' b c \<Longrightarrow> moved e i S' a c"
  using conn_step_trans by (auto simp: moved_def)

lemma moved_mono: "moved e i S w w' \<Longrightarrow> S \<subseteq> S' \<Longrightarrow> moved e i S' w w'"
  by (auto simp: moved_def)

lemma moved_metrics [simp]: "moved e i S w (upd_metrics f w') = moved e i S w w'"
  by (simp add: moved_def)

lemma app_edge_reach:
  assumes "app_edge\<^sup>*\<^sup>* s s'"
  shows "s' = s \<or> s' = TCP_CLOSED \<or> s = TCP_ESTABLISHED \<and> s' = TCP_FIN_WAIT_1 \<or> s = TCP_CLOSE_WAIT \<and> s' = TCP_LAST_ACK"
  using assms by (induction rule: rtranclp_induct) (auto elim: app_edge.cases)

lemma evolves_moved:
  assumes "evolves e i w w'"
  shows "moved e i ({state (tcb_at w i), TCP_CLOSED} \<union> (if state (tcb_at w i) = TCP_ESTABLISHED then {TCP_FIN_WAIT_1} else {}) \<union>
    (if state (tcb_at w i) = TCP_CLOSE_WAIT then {TCP_LAST_ACK} else {})) w w'"
  using assms app_edge_reach [of "state (tcb_at w i)" "state (tcb_at w' i)"] by (auto simp: evolves_def moved_def)

lemma stays_moved: "stays e i w w' \<Longrightarrow> moved e i {state (tcb_at w i)} w w'"
  by (simp add: stays_def moved_def)

lemma moved_upd:
  assumes "good e i w" "link_neutral f" "tcb_ok (f (tcb_at w i))" "ctx_ok e (f (tcb_at w i))"
  shows "moved e i {state (f (tcb_at w i))} w (upd_tcb i f w)" "tcb_at (upd_tcb i f w) i = f (tcb_at w i)"
proof -
  note g = goodD [OF assms(1)]
  show "tcb_at (upd_tcb i f w) i = f (tcb_at w i)" using g(6) by simp
  then show "moved e i {state (f (tcb_at w i))} w (upd_tcb i f w)"
    using assms(4) g(5) worker_ok_upd_tcb [OF g(2) assms(2) g(3) assms(3)] by (simp add: moved_def)
qed

lemma after_moved:
  assumes "good e i w" "moved e i T w w1" "good e i w1 \<Longrightarrow> yields m (\<lambda>y. moved e i S w1 (h y))"
  shows "yields m (\<lambda>y. moved e i S w (h y))"
  by (rule yields_mono [OF assms(3) [OF moved_good [OF assms(1,2)]]]) (rule moved_trans [OF assms(2)])

lemma moved_bind:
  assumes "good e i w" "yields m (\<lambda>x. moved e i T w (g x))"
    and "\<And>x. good e i (g x) \<Longrightarrow> state (tcb_at (g x) i) \<in> T \<Longrightarrow> yields (f x) (\<lambda>y. moved e i S (g x) (h y))"
  shows "yields (m \<bind> f) (\<lambda>y. moved e i S w (h y))"
proof (rule yields_bindI [OF assms(2)])
  fix x assume x: "moved e i T w (g x)"
  then have "state (tcb_at (g x) i) \<in> T" by (simp add: moved_def)
  from yields_mono [OF assms(3) [OF moved_good [OF assms(1) x] this] moved_trans [OF x]]
  show "yields (f x) (\<lambda>y. moved e i S w (h y))" .
qed

text \<open>The release of a connection.\<close>

lemma free_conn_torn:
  assumes "good e i w" "in_use (tcb_at w i)"
  shows "torn_down i w (free_conn i w)"
proof -
  note g = goodD [OF assms(1)] note d = tls_detach_effect [OF g(2,3)]
  let ?t = "tcb_at (tls_detach_if_needed i w) i"
  have "pool_ok (tcp_port_free_immediate (src_ip ?t) (src_port ?t) (ports w))"
    by (rule pool_ok_free_immediate [OF worker_okD(3) [OF g(2)]])
  from release_effect(1) [OF g(2,3) assms(2) this] show ?thesis
    by (simp add: free_conn_def port_free_immediate_def d(7))
qed

lemma free_timewait_torn:
  assumes "good e i w" "in_use (tcb_at w i)"
  shows "torn_down i w (tcb_free i (port_free_timewait i (tls_detach_if_needed i w)))"
proof -
  let ?w = "snd (rdtsc w)"
  have r: "rdtsc (tls_detach_if_needed i w) = (fst (rdtsc w), tls_detach_if_needed i ?w)"
    by (simp add: rdtsc_def tls_detach_if_needed_def tls_session_detach_def upd_tcb_def tcb_at_def)
  have s: "stays e i w ?w" using stays_refl [OF assms(1)] by simp
  note g = goodD [OF stays_good [OF assms(1) s]] note d = tls_detach_effect [OF g(2,3)]
  let ?t = "tcb_at (tls_detach_if_needed i ?w) i"
  have "pool_ok (tcp_port_free (fst (rdtsc w)) (src_ip ?t) (src_port ?t) (ports ?w))"
    by (rule pool_ok_free [OF worker_okD(3) [OF g(2)]])
  from release_effect(1) [OF g(2,3) _ this] assms(2)
  have "torn_down i ?w (tcb_free i (port_free_timewait i (tls_detach_if_needed i w)))"
    by (simp add: port_free_timewait_def r Let_def d(7))
  then show ?thesis by (simp add: torn_down_def rdtsc_def tcb_at_def)
qed

lemma free_moved:
  assumes "good e i w" "in_use (tcb_at w i)"
  shows "moved e i {TCP_CLOSED} w (free_conn i w)"
    "moved e i {TCP_CLOSED} w (tcb_free i (port_free_timewait i (tls_detach_if_needed i w)))"
  using torn_down_evolves [OF assms(1) free_conn_torn [OF assms]] torn_down_evolves [OF assms(1) free_timewait_torn [OF assms]]
    free_conn_torn [OF assms] free_timewait_torn [OF assms]
  by (simp_all add: evolves_def moved_def torn_down_def tcb_zero_def)

lemma est_fin_moved:
  assumes "good e i w" "state (tcb_at w i) \<in> {TCP_ESTABLISHED, TCP_FIN_WAIT_1, TCP_CLOSED}"
  shows "yields (est_fin e i h w) (moved e i (next_states TCP_ESTABLISHED) w)"
proof (cases "has_flag (th_flags h) FIN_FLAG \<and> state (tcb_at w i) = TCP_ESTABLISHED")
  case False
  then have "est_fin e i h w = Some w" by (auto simp: est_fin_def)
  then show ?thesis using moved_mono [OF stays_moved [OF stays_refl [OF assms(1)]], of "next_states TCP_ESTABLISHED"] assms(2) by auto
next
  case True
  let ?f = "\<lambda>t. t\<lparr>rcv_nxt := rcv_nxt t + 1, state := TCP_CLOSE_WAIT\<rparr>"
  have "tcb_ok (?f (tcb_at w i))" using goodD(7) [OF assms(1)] True by (auto simp: tcb_ok_def cc_ok_def)
  note u = moved_upd [where f = ?f, OF assms(1) _ this]
  have m: "moved e i {TCP_CLOSE_WAIT} w (upd_tcb i ?f w)"
    using u(1) goodD(4) [OF assms(1)] by (simp add: link_neutral_def key_of_def ctx_ok_def)
  have st: "state (tcb_at (upd_tcb i ?f w) i) = TCP_CLOSE_WAIT" using goodD(6) [OF assms(1)] by simp
  show ?thesis
  proof (rule after_moved [OF assms(1) m, where h = "\<lambda>x. x"])
    assume g: "good e i (upd_tcb i ?f w)"
    have "yields (send_ack e i (upd_tcb i ?f w) \<bind> (\<lambda>w. if app_ctx (tcb_at w i) \<noteq> 1 then map_option snd (tcp_fsm_close e i w) else Some w))
      (moved e i (next_states TCP_ESTABLISHED) (upd_tcb i ?f w))"
    proof (rule moved_bind [where g = "\<lambda>x. x" and h = "\<lambda>x. x", OF g yields_mono [OF send_ack_stays [OF g] stays_moved]])
      fix x assume gx: "good e i x" and sx: "state (tcb_at x i) \<in> {state (tcb_at (upd_tcb i ?f w) i)}"
      then have "state (tcb_at x i) = TCP_CLOSE_WAIT" using st by simp
      then show "yields (if app_ctx (tcb_at x i) \<noteq> 1 then map_option snd (tcp_fsm_close e i x) else Some x)
          (moved e i (next_states TCP_ESTABLISHED) x)"
        using yields_mono [OF close_evolves [OF gx] moved_mono [OF evolves_moved, of _ _ _ _ "next_states TCP_ESTABLISHED"]]
          moved_mono [OF stays_moved [OF stays_refl [OF gx]], of "next_states TCP_ESTABLISHED"] by simp
    qed
    then show "yields (est_fin e i h w) (moved e i (next_states TCP_ESTABLISHED) (upd_tcb i ?f w))"
      using True by (simp add: est_fin_def)
  qed
qed

lemma established_moved:
  assumes "good e i w" "state (tcb_at w i) = TCP_ESTABLISHED"
  shows "yields (input_established e i m h opts w) (\<lambda>r. moved e i (next_states TCP_ESTABLISHED) w (snd r))"
proof -
  define w0 where "w0 = (if po_has_timestamps opts \<and> ts_enabled (tcb_at w i) then upd_tcb i (\<lambda>t. t\<lparr>ts_ecr := po_ts_val opts\<rparr>) w else w)"
  have s0: "stays e i w w0" using stays_io [OF assms(1) io_fields(6)] stays_refl [OF assms(1)] by (simp add: w0_def)
  note g0 = stays_good [OF assms(1) s0]
  have st0: "state (tcb_at w0 i) = TCP_ESTABLISHED" using s0 assms(2) by (simp add: stays_def)
  have data: "yields (est_data e i m h x \<bind> (\<lambda>(fin, w). if fin then Some (True, w) else map_option (Pair False) (est_fin e i h w)))
      (\<lambda>r. moved e i (next_states TCP_ESTABLISHED) x (snd r))" if g: "good e i x" and st: "state (tcb_at x i) = TCP_ESTABLISHED" for x
  proof (rule moved_bind [where h = "snd :: bool \<times> worker \<Rightarrow> worker" and g = "snd :: bool \<times> worker \<Rightarrow> worker" and T = "{TCP_ESTABLISHED, TCP_FIN_WAIT_1, TCP_CLOSED}", OF g])
    show "yields (est_data e i m h x) (\<lambda>r. moved e i {TCP_ESTABLISHED, TCP_FIN_WAIT_1, TCP_CLOSED} x (snd r))"
      by (rule yields_mono [OF est_data_evolves [OF g]]) (drule evolves_moved, rule moved_mono, auto simp: st)
    fix r :: "bool \<times> worker" assume gr: "good e i (snd r)" and sr: "state (tcb_at (snd r) i) \<in> {TCP_ESTABLISHED, TCP_FIN_WAIT_1, TCP_CLOSED}"
    show "yields (case r of (fin, w) \<Rightarrow> if fin then Some (True, w) else map_option (Pair False) (est_fin e i h w))
        (\<lambda>y. moved e i (next_states TCP_ESTABLISHED) (snd r) (snd y))"
      using est_fin_moved [OF gr sr] moved_mono [OF stays_moved [OF stays_refl [OF gr]], of "next_states TCP_ESTABLISHED"] sr
      by (cases r) auto
  qed
  show ?thesis
    unfolding input_established_def Let_def w0_def [symmetric]
  proof (rule after_moved [OF assms(1) stays_moved [OF s0]], rule moved_bind [where g = "\<lambda>x. x", OF g0 yields_mono [OF est_ack_stays [OF g0 st0] stays_moved]])
    fix x assume "good e i x" "state (tcb_at x i) \<in> {state (tcb_at w0 i)}"
    then show "yields (est_data e i m h x \<bind> (\<lambda>(fin, w). if fin then Some (True, w) else map_option (Pair False) (est_fin e i h w)))
      (\<lambda>r. moved e i (next_states TCP_ESTABLISHED) x (snd r))" using data [of x] st0 by simp
  qed
qed

text \<open>
  What is asked of a peer, in its SYN and SYN-ACK segments only: a maximum segment size option of 1 to
  65400 bytes if there is one, and in a SYN-ACK a window of at least two bytes.  The code checks neither,
  and does not survive a peer that breaks them: a size of 0 or a window of 0 can lead to a division by zero
  (\<open>rto_with_zero_mss_traps\<close>, \<open>zero_window_traps\<close>) and a larger size to a write beyond the packet buffer
  (\<open>large_segment_traps\<close>).  A window of 1 is excluded because CUBIC's growth can wrap to an empty
  window from there.
\<close>

definition peer_ok :: "tcp_hdr \<Rightarrow> tcp_parsed_opts \<Rightarrow> bool" where
  "peer_ok h opts \<longleftrightarrow> (has_flag (th_flags h) SYN_FLAG \<longrightarrow>
     (po_has_mss opts \<longrightarrow> po_mss opts \<noteq> 0 \<and> unat (po_mss opts) \<le> MAX_MSS) \<and>
     (has_flag (th_flags h) ACK_FLAG \<longrightarrow> 2 \<le> th_win h))"

text \<open>A SYN that was retransmitted before the peer's options were known has left a slow start threshold of 0;
  a SYN-ACK with an empty window then makes the next acknowledgement divide by zero.\<close>

lemma zero_window_traps:
  assumes "mss_remote t = 0" "app_ctx t \<noteq> 1" "cc_algo t \<noteq> CC_CUBIC" "snd_nxt t - snd_una t \<le> 1" "th_win h = 0"
  shows "newreno_on_ack acked (syn_acked h opts (congestion_on_rto cm t)) = None"
proof -
  have "newreno_on_ack acked (congestion_on_rto cm t) = None" by (rule rto_with_zero_mss_traps [OF assms(1-4)])
  then show ?thesis using assms(5) by (simp add: newreno_traps_iff syn_acked_def)
qed

text \<open>The length of a frame is cut to 16 bits when its buffer is extended, so a payload near 64 KiB is
  written into a buffer of a few bytes.\<close>

lemma large_segment_traps:
  assumes "e_mbuf_alloc e (ext_pos w)" "unat plen \<le> length payload" "65482 \<le> unat plen" "unat plen \<le> 65535" "117 \<le> e_mbuf_tailroom e"
  shows "tcp_send_segment e i flags payload plen sq ak w = None"
proof -
  have t: "n mod 65536 \<le> 117 \<and> n mod 65536 < n" if "65536 \<le> n" "n \<le> 65653" for n :: nat
    using that by (simp add: le_mod_geq)
  have "(eth_hdr_sz t + ip_hdr_sz t + (20 + length (segment_options flags ts t) + unat plen)) mod 65536 \<le> 117 \<and>
    (eth_hdr_sz t + ip_hdr_sz t + (20 + length (segment_options flags ts t) + unat plen)) mod 65536
       < eth_hdr_sz t + ip_hdr_sz t + (20 + length (segment_options flags ts t) + unat plen)" for ts t
    by (rule t) (use assms(3,4) segment_options_length [of flags ts t] in \<open>auto simp: eth_hdr_sz_def ip_hdr_sz_def\<close>)
  then have "\<not> e_mbuf_tailroom e < (eth_hdr_sz t + ip_hdr_sz t + (20 + length (segment_options flags ts t) + unat plen)) mod 65536"
    "(eth_hdr_sz t + ip_hdr_sz t + (20 + length (segment_options flags ts t) + unat plen)) mod 65536
       < eth_hdr_sz t + ip_hdr_sz t + (20 + length (segment_options flags ts t) + unat plen)" for ts t
    using assms(5) by (simp_all only: not_less) (blast intro: order_trans)+
  then show ?thesis using assms(1,2)
    by (simp add: tcp_send_segment_def mbuf_alloc_def Let_def case_prod_beta min_absorb2 del: add.assoc group_cancel.add1 group_cancel.add2)
qed

lemma peer_mss: "peer_ok h opts \<Longrightarrow> has_flag (th_flags h) SYN_FLAG \<Longrightarrow> (if po_has_mss opts then po_mss opts else 536) \<noteq> 0 \<and>
    unat (if po_has_mss opts then po_mss opts else 536) \<le> MAX_MSS"
  by (simp add: peer_ok_def MAX_MSS_def)

lemma syn_acked_moved:
  assumes "good e i w" "state (tcb_at w i) = TCP_SYN_SENT" "peer_ok h opts"
    "has_flag (th_flags h) SYN_FLAG" "has_flag (th_flags h) ACK_FLAG"
  shows "moved e i {TCP_ESTABLISHED} w (upd_tcb i (syn_acked h opts) w)"
proof -
  let ?t = "tcb_at w i"
  have "2 \<le> unat (th_win h)" using assms(3-5) by (simp add: peer_ok_def word_le_nat_alt)
  then have win: "2 \<le> (ucast (th_win h) :: u32)" "(ucast (th_win h) :: u32) \<le> CWND_CAP"
    using unat_lt_u16 [of "th_win h"] by (simp_all add: word_le_nat_alt unat_mss CWND_CAP_def)
  have "tcb_ok (syn_acked h opts ?t)"
    using goodD(7) [OF assms(1)] assms(2) peer_mss [OF assms(3,4)] win by (simp add: tcb_ok_def cc_ok_def syn_acked_def)
  then show ?thesis using moved_upd(1) [where f = "syn_acked h opts", OF assms(1)] goodD(4) [OF assms(1)]
    by (simp add: link_neutral_def key_of_def ctx_ok_def syn_acked_def)
qed

lemma syn_rtt_stays:
  assumes "good e i w"
  shows "yields (syn_rtt e i opts w) (stays e i w)"
proof -
  have f: "stays e i v (upd_tcb i (if c then update_rtt r else (\<lambda>t. t\<lparr>rto_us := TCP_INITIAL_RTO_US\<rparr>)) v)" if "good e i v" for v c r
    using stays_io [OF that io_field_rtt] stays_io [OF that io_fields(3)] by simp
  have "yields (ts_now e w \<bind> (\<lambda>(now, v). Some (upd_tcb i (if now - po_ts_ecr opts > 0 \<and> now - po_ts_ecr opts < 60000000
      then update_rtt (now - po_ts_ecr opts) else (\<lambda>t. t\<lparr>rto_us := TCP_INITIAL_RTO_US\<rparr>)) v))) (stays e i w)"
    by (rule stays_chain [where h = "\<lambda>x. x", OF assms ts_now_stays [OF assms]]) (simp add: case_prod_beta f split del: if_split)
  then show ?thesis using stays_io [OF assms io_fields(3)] by (simp add: syn_rtt_def Let_def)
qed

lemma close_or_reset_evolves:
  assumes "good e i w" "in_use (tcb_at w i)"
  shows "yields (close_or_reset e i w) (evolves e i w)"
  using close_evolves [OF assms(1)] reset_evolves [OF assms] by (simp add: close_or_reset_def)

lemma tls_client_start_stays:
  assumes "good e i w" "in_use (tcb_at w i)"
  shows "yields (tls_client_start e i w) (stays e i w)"
proof -
  obtain rc w1 where t: "tls_session_attach e i False w = (rc, w1)" by (cases "tls_session_attach e i False w")
  note s1 = attach_stays [OF assms(1) t] note g1 = stays_good [OF assms(1) s1]
  have u1: "in_use (tcb_at w1 i)" using stays_in_use [OF s1] assms(2) by simp
  let ?w2 = "snd (rdtsc (upd_tcb i (\<lambda>t. t\<lparr>app_state := 2\<rparr>) w1))"
  have s2: "stays e i w1 ?w2" unfolding stays_rdtsc by (rule stays_set_app [OF g1 app_fields(1) u1]) simp
  note g2 = stays_good [OF g1 s2]
  define w3 where "w3 = upd_tcb i (\<lambda>t. t\<lparr>tls_hs_start_tsc := fst (rdtsc (upd_tcb i (\<lambda>t. t\<lparr>app_state := 2\<rparr>) w1))\<rparr>) ?w2"
  have s3: "stays e i ?w2 w3" unfolding w3_def by (rule stays_same_app [OF g2 app_fields(7)]) simp
  note g3 = stays_good [OF g2 s3] and s = stays_trans [OF stays_trans [OF s1 s2] s3]
  show ?thesis
  proof (cases "rc = 0 \<and> tls_session_get i w3 \<noteq> None")
    case False
    then show ?thesis using stays_trans [OF s1 tls_failed_stays [OF g1]] s
      by (auto simp: tls_client_start_def t Let_def case_prod_beta w3_def [symmetric])
  next
    case True
    then obtain sess where sess: "tls_session_get i w3 = Some sess" by blast
    obtain hr out sess' where hs: "tls_handshake (e_ssl e) sess [] 4096 = (hr, out, sess')" by (cases "tls_handshake (e_ssl e) sess [] 4096")
    have s4: "stays e i w (tls_session_put i sess' w3)" using s by simp
    note send = yields_mono [OF send_if_any_stays [OF stays_good [OF assms(1) s4], of out] stays_trans [OF s4]]
    have "yields (send_if_any e i out (tls_session_put i sess' w3) \<bind> (\<lambda>w. if hr = 1 then tls_established e i sess' w
        else if hr < 0 then Some (tls_failed i w) else Some w)) (stays e i w)"
    proof (rule stays_chain [where g = "\<lambda>x. x" and h = "\<lambda>x. x", OF assms(1) send])
      fix v assume g: "good e i v" and sv: "stays e i w v"
      have "in_use (tcb_at v i)" using stays_in_use [OF sv] assms(2) by simp
      then show "yields (if hr = 1 then tls_established e i sess' v else if hr < 0 then Some (tls_failed i v) else Some v) (stays e i v)"
        using tls_established_stays [OF g] tls_failed_stays [OF g] stays_refl [OF g] by simp
    qed
    then show ?thesis using True sess by (simp add: tls_client_start_def t Let_def case_prod_beta w3_def [symmetric] hs cong: if_cong)
  qed
qed

lemma http_client_start_stays:
  assumes "good e i w" "app_state (tcb_at w i) = 4"
  shows "yields (http_client_start e i w) (stays e i w)"
proof -
  have u: "in_use (tcb_at w i)" "app_ctx (tcb_at w i) \<noteq> 1"
    using good_in_use [OF assms(1)] goodD(4) [OF assms(1)] assms(2) by (simp_all add: ctx_ok_def)
  obtain hpb where h: "http_req_of e (tcb_at w i) = Some hpb" "\<forall>hp. hpb = Some hp \<longrightarrow> unat (hp_hdr_len hp) \<le> length (hp_hdr hp)"
    using http_req_of_ok [OF goodD(4) [OF assms(1)] u(2)] by blast
  have "yields (tcp_fsm_send e i (hp_hdr hp) (hp_hdr_len hp) w \<bind> (\<lambda>(_, w). Some (upd_tcb i
      (\<lambda>t. t\<lparr>http_req_sent_tsc := fst (rdtsc (add_http_req w)), app_state := 5\<rparr>) (snd (rdtsc (add_http_req w)))))) (stays e i w)"
    if hp: "hpb = Some hp" for hp
  proof (rule stays_chain [where h = "\<lambda>x. x", OF assms(1) send_stays [OF assms(1) h(2) [rule_format, OF hp]]])
    fix r :: "int \<times> worker" assume g: "good e i (snd r)" and s: "stays e i w (snd r)"
    have "in_use (tcb_at (snd r) i)" "app_ctx (tcb_at (snd r) i) \<noteq> 1" using s u by (auto simp: stays_def)
    from request_sent_stays [OF g this] show "yields (case r of (_, w) \<Rightarrow> Some (upd_tcb i
      (\<lambda>t. t\<lparr>http_req_sent_tsc := fst (rdtsc (add_http_req w)), app_state := 5\<rparr>) (snd (rdtsc (add_http_req w))))) (stays e i (snd r))"
      by (simp add: case_prod_beta)
  qed
  then show ?thesis using h(1) stays_refl [OF assms(1)]
    by (cases hpb) (simp_all add: http_client_start_def Let_def case_prod_beta)
qed

lemma established_app_stays:
  assumes "good e i w" "in_use (tcb_at w i)" "state (tcb_at w i) = TCP_ESTABLISHED"
  shows "yields (established_app e i w) (stays e i w)"
proof -
  define w0 where "w0 = (if app_ctx (tcb_at w i) = 1 then upd_tcb i (\<lambda>t. t\<lparr>cwnd := U32_MAX\<rparr>) w else w)"
  have s0: "stays e i w w0"
  proof (cases "app_ctx (tcb_at w i) = 1")
    case True
    have "stays e i w (upd_tcb i (\<lambda>t. t\<lparr>cwnd := U32_MAX\<rparr>) w)"
      by (rule stays_upd [OF assms(1)]) (use True goodD [OF assms(1)] in \<open>auto simp: upd_simps\<close>)
    then show ?thesis by (simp add: w0_def True)
  qed (use stays_refl [OF assms(1)] in \<open>simp add: w0_def\<close>)
  note g0 = stays_good [OF assms(1) s0]
  have u0: "in_use (tcb_at w0 i)" using stays_in_use [OF s0] assms(2) by simp
  have a: "yields (if app_state (tcb_at w0 i) = 1 then tls_client_start e i w0 else Some w0) (stays e i w)"
    using yields_mono [OF tls_client_start_stays [OF g0 u0] stays_trans [OF s0]] s0 by simp
  show ?thesis unfolding established_app_def Let_def w0_def [symmetric]
    by (rule stays_chain [where g = "\<lambda>x. x" and h = "\<lambda>x. x", OF assms(1) a]) (simp add: http_client_start_stays stays_refl)
qed


lemma reset_moved:
  assumes "good e i w" "in_use (tcb_at w i)" "{state (tcb_at w i), TCP_CLOSED, TCP_FIN_WAIT_1} \<subseteq> S" "state (tcb_at w i) \<noteq> TCP_CLOSE_WAIT"
  shows "yields (tcp_fsm_reset e i w) (moved e i S w)" "yields (close_or_reset e i w) (moved e i S w)"
proof -
  have m: "evolves e i w v \<Longrightarrow> moved e i S w v" for v
    by (drule evolves_moved) (rule moved_mono, use assms(3,4) in \<open>auto split: if_splits\<close>)
  show "yields (tcp_fsm_reset e i w) (moved e i S w)" by (rule yields_mono [OF reset_evolves [OF assms(1,2)] m])
  show "yields (close_or_reset e i w) (moved e i S w)" by (rule yields_mono [OF close_or_reset_evolves [OF assms(1,2)] m])
qed

lemma stays_within: "stays e i w w' \<Longrightarrow> state (tcb_at w i) \<in> S \<Longrightarrow> moved e i S w w'"
  by (simp add: stays_def moved_def)

lemma good_metrics [simp]: "good e i (upd_metrics f w) = good e i w"
  by (simp add: good_def)

lemma stays_from_metrics [simp]: "stays e i (upd_metrics f w) w' = stays e i w w'"
  by (simp add: stays_def conn_step_def tcb_at_def)

lemma moved_from_metrics [simp]: "moved e i S (upd_metrics f w) w' = moved e i S w w'"
  by (simp add: moved_def conn_step_def tcb_at_def)

lemma ack_moved:
  assumes "good e i w" "state (tcb_at w i) \<in> S"
  shows "yields (send_ack e i w) (moved e i S w)" "yields (send_ack e i (upd_metrics f w)) (moved e i S w)"
  using yields_mono [OF send_ack_stays [OF assms(1)] stays_within [OF _ assms(2)]]
    yields_mono [OF send_ack_stays [of e i "upd_metrics f w"], of "moved e i S w"] stays_within [OF _ assms(2)] assms(1)
  by simp_all

text \<open>A handshake completed by a SYN-ACK: the connection is established, and closed at once when it has nothing to do.\<close>

lemma syn_sent_moved:
  assumes "good e i w" "state (tcb_at w i) = TCP_SYN_SENT" "peer_ok h opts"
  shows "yields (input_syn_sent e i h opts w) (\<lambda>r. moved e i (next_states TCP_SYN_SENT) w (snd r))"
proof -
  let ?S = "next_states TCP_SYN_SENT"
  have u: "in_use (tcb_at w i)" by (rule good_in_use [OF assms(1)]) (simp add: assms(2))
  have r: "yields (tcp_fsm_reset e i w) (moved e i ?S w)" by (rule reset_moved(1) [OF assms(1) u]) (simp_all add: assms(2))
  have d: "moved e i ?S w w" by (rule stays_within [OF stays_refl [OF assms(1)]]) (simp add: assms(2))
  have up: "yields (do { w \<leftarrow> syn_rtt e i opts (tcp_timer_resched i (upd_tcb i (syn_acked h opts) w));
       w \<leftarrow> send_ack e i (add_conn_open w);
       if app_state (tcb_at w i) = 0 \<and> app_ctx (tcb_at w i) = 0 then map_option (Pair True) (close_or_reset e i w)
       else map_option (Pair False) (established_app e i w) }) (\<lambda>r. moved e i ?S w (snd r))"
    if syn: "has_flag (th_flags h) SYN_FLAG" "has_flag (th_flags h) ACK_FLAG"
  proof (rule after_moved [OF assms(1) syn_acked_moved [OF assms syn]])
    let ?w1 = "upd_tcb i (syn_acked h opts) w" and ?E = "{TCP_ESTABLISHED}"
    assume g1: "good e i ?w1"
    have st1: "state (tcb_at ?w1 i) \<in> ?E" using goodD(6) [OF assms(1)] by (simp add: syn_acked_def)
    have u1: "in_use (tcb_at ?w1 i)" by (rule good_in_use [OF g1]) (use st1 in simp)
    note s2 = resched_stays [OF g1 u1] note g2 = stays_good [OF g1 s2]
    have a: "yields (syn_rtt e i opts (tcp_timer_resched i ?w1)) (moved e i ?E ?w1)"
      by (rule yields_mono [OF syn_rtt_stays [OF g2]]) (rule stays_within [OF stays_trans [OF s2] st1])
    show "yields (do { w \<leftarrow> syn_rtt e i opts (tcp_timer_resched i ?w1);
       w \<leftarrow> send_ack e i (add_conn_open w);
       if app_state (tcb_at w i) = 0 \<and> app_ctx (tcb_at w i) = 0 then map_option (Pair True) (close_or_reset e i w)
       else map_option (Pair False) (established_app e i w) }) (\<lambda>r. moved e i ?S ?w1 (snd r))"
    proof (rule moved_bind [where g = "\<lambda>x. x", OF g1 a], rule moved_bind [where g = "\<lambda>x. x" and T = ?E])
      fix x assume gx: "good e i x" and sx: "state (tcb_at x i) \<in> ?E"
      then show "yields (send_ack e i (add_conn_open x)) (moved e i ?E x)" unfolding add_conn_open_def by (rule ack_moved)
    next
      fix x assume gx: "good e i x" and sx: "state (tcb_at x i) \<in> ?E"
      have ux: "in_use (tcb_at x i)" by (rule good_in_use [OF gx]) (use sx in simp)
      have ra: "yields (close_or_reset e i x) (moved e i ?S x)" by (rule reset_moved(2) [OF gx ux]) (use sx in simp_all)
      have es: "yields (established_app e i x) (moved e i ?S x)"
        by (rule yields_mono [OF established_app_stays [OF gx ux]]) (use sx in simp, rule stays_within, assumption, use sx in simp)
      show "yields (if app_state (tcb_at x i) = 0 \<and> app_ctx (tcb_at x i) = 0 then map_option (Pair True) (close_or_reset e i x)
         else map_option (Pair False) (established_app e i x)) (\<lambda>r. moved e i ?S x (snd r))"
        using ra es by simp
    qed
  qed
  show ?thesis unfolding input_syn_sent_def Let_def using r d up by (simp del: next_states.simps)
qed


lemma syn_received_moved:
  assumes "good e i w" "state (tcb_at w i) = TCP_SYN_RECEIVED"
  shows "yields (input_syn_received e i h w) (moved e i (next_states TCP_SYN_RECEIVED) w)"
proof (cases "has_flag (th_flags h) ACK_FLAG \<and> th_seq h = rcv_nxt (tcb_at w i)")
  case False
  then have "input_syn_received e i h w = Some w" by (auto simp: input_syn_received_def)
  then show ?thesis using stays_within [OF stays_refl [OF assms(1)], of "next_states TCP_SYN_RECEIVED"] assms(2) by simp
next
  case True
  let ?f = "\<lambda>t. t\<lparr>snd_una := th_ack h, state := TCP_ESTABLISHED, snd_wnd := scaled_win h t\<rparr>"
  let ?S = "next_states TCP_SYN_RECEIVED"
  have "tcb_ok (?f (tcb_at w i))" using goodD(7) [OF assms(1)] assms(2) by (auto simp: tcb_ok_def cc_ok_def)
  note u = moved_upd [where f = ?f, OF assms(1) _ this]
  have m: "moved e i {TCP_ESTABLISHED} w (upd_tcb i ?f w)"
    using u(1) goodD(4) [OF assms(1)] by (simp add: link_neutral_def key_of_def ctx_ok_def)
  have st: "state (tcb_at (upd_tcb i ?f w) i) = TCP_ESTABLISHED" using goodD(6) [OF assms(1)] by simp
  show ?thesis
  proof (rule after_moved [OF assms(1) m, where h = "\<lambda>x. x"])
    let ?w1 = "add_conn_open (upd_tcb i ?f w)"
    assume g: "good e i (upd_tcb i ?f w)"
    then have g1: "good e i ?w1" by (simp add: add_conn_open_def)
    have st1: "state (tcb_at ?w1 i) = TCP_ESTABLISHED" using st by (simp add: add_conn_open_def)
    have m1: "evolves e i ?w1 v \<Longrightarrow> moved e i ?S (upd_tcb i ?f w) v" for v
      by (drule evolves_moved, drule moved_mono [where S' = ?S]) (use st1 in \<open>auto simp: add_conn_open_def\<close>)
    have u1: "in_use (tcb_at ?w1 i)" by (rule good_in_use [OF g1]) (simp add: st1)
    show "yields (input_syn_received e i h w) (moved e i ?S (upd_tcb i ?f w))"
      using True yields_mono [OF srv_on_established_evolves [OF g1 u1] m1] m1 [OF evolves_refl [OF g1]]
      by (simp add: input_syn_received_def Let_def)
  qed
qed

lemma io_state_stays:
  assumes "good e i w" "io_field f"
  shows "stays e i w (upd_tcb i f w)" "good e i (upd_tcb i f w)" "state (tcb_at (upd_tcb i f w) i) = state (tcb_at w i)"
proof -
  show s: "stays e i w (upd_tcb i f w)" by (rule stays_io [OF assms])
  from stays_good [OF assms(1) this] show "good e i (upd_tcb i f w)" .
  from s show "state (tcb_at (upd_tcb i f w) i) = state (tcb_at w i)" by (simp add: stays_def)
qed

lemma closing_data_stays: "good e i w \<Longrightarrow> stays e i w (closing_data i m h w)"
  unfolding closing_data_def using stays_io [OF _ io_fields(7)] by (simp add: stays_refl)


lemma set_state_moved:
  assumes "good e i w" "state (tcb_at w i) \<notin> {TCP_CLOSED, TCP_LISTEN, TCP_SYN_SENT}" "s \<noteq> TCP_SYN_SENT"
  shows "moved e i {s} w (upd_tcb i (\<lambda>t. t\<lparr>state := s\<rparr>) w)" "good e i (upd_tcb i (\<lambda>t. t\<lparr>state := s\<rparr>) w)"
    "state (tcb_at (upd_tcb i (\<lambda>t. t\<lparr>state := s\<rparr>) w) i) = s"
proof -
  let ?f = "\<lambda>t. t\<lparr>state := s\<rparr>"
  have "in_use (tcb_at w i)" by (rule good_in_use [OF assms(1)]) (use assms(2) in auto)
  then have "tcb_ok (?f (tcb_at w i))" using goodD(7) [OF assms(1)] assms(2,3) by (auto simp: tcb_ok_def cc_ok_def)
  from moved_upd(1) [where f = ?f, OF assms(1) _ this]
  show m: "moved e i {s} w (upd_tcb i ?f w)"
    using goodD(4) [OF assms(1)] by (simp add: link_neutral_def key_of_def ctx_ok_def)
  show "good e i (upd_tcb i ?f w)" by (rule moved_good [OF assms(1) m])
  show "state (tcb_at (upd_tcb i ?f w) i) = s" using goodD(6) [OF assms(1)] by simp
qed

text \<open>The two transitions of \<open>FIN_WAIT_1\<close> that keep the connection.\<close>

lemma enter_closing_moved:
  assumes "good e i w" "state (tcb_at w i) = TCP_FIN_WAIT_1"
  shows "moved e i {TCP_CLOSING} w (arm_rto e i (upd_tcb i (\<lambda>t. t\<lparr>state := TCP_CLOSING\<rparr>) w))"
proof -
  note c = set_state_moved [of e i w TCP_CLOSING, OF assms(1)]
  have "in_use (tcb_at (upd_tcb i (\<lambda>t. t\<lparr>state := TCP_CLOSING\<rparr>) w) i)"
    by (rule good_in_use [OF c(2)]) (simp_all add: assms(2) c(3))
  then show ?thesis
    by (intro moved_trans [OF c(1)] stays_within [OF arm_stays]) (use c(2,3) assms(2) in simp_all)
qed

lemma enter_fin_wait_2_moved:
  assumes "good e i w" "state (tcb_at w i) = TCP_FIN_WAIT_1"
  shows "moved e i {TCP_FIN_WAIT_2} w (let w = upd_tcb i (\<lambda>t. t\<lparr>state := TCP_FIN_WAIT_2\<rparr>) w; (now, w) = rdtsc w
     in tcp_timer_resched i (upd_tcb i (\<lambda>t. t\<lparr>timewait_deadline_tsc := now + 60 * tsc_hz w\<rparr>) w))"
proof -
  let ?w1 = "upd_tcb i (\<lambda>t. t\<lparr>state := TCP_FIN_WAIT_2\<rparr>) w"
  let ?w2 = "snd (rdtsc ?w1)" and ?f = "\<lambda>d t. t\<lparr>timewait_deadline_tsc := d\<rparr>"
  have ns: "state (tcb_at w i) \<notin> {TCP_CLOSED, TCP_LISTEN, TCP_SYN_SENT}" by (simp add: assms(2))
  note c = set_state_moved [of e i w TCP_FIN_WAIT_2, OF assms(1) ns, simplified]
  note g2 = good_rdtsc [OF c(2)]
  have s2: "stays e i ?w1 ?w2" by (simp add: stays_refl c(2))
  note s3 = stays_trans [OF s2 io_state_stays(1) [OF g2 io_fields(12)]]
  have u: "in_use (tcb_at (upd_tcb i (?f d) ?w2) i)" for d
    by (rule good_in_use [OF io_state_stays(2) [OF g2 io_fields(12)]]) (simp add: io_state_stays(3) [OF g2 io_fields(12)] c(3))
  have "stays e i ?w1 (tcp_timer_resched i (upd_tcb i (?f d) ?w2))" for d
    by (rule stays_trans [OF s3 resched_stays [OF io_state_stays(2) [OF g2 io_fields(12)] u]])
  from moved_trans [OF c(1) stays_within [OF this]] show ?thesis by (simp add: Let_def case_prod_beta c(3))
qed

lemma fin_wait_1_moved:
  assumes "good e i w" "state (tcb_at w i) = TCP_FIN_WAIT_1"
  shows "yields (input_fin_wait_1 e i m h w) (moved e i (next_states TCP_FIN_WAIT_1) w)"
proof -
  let ?S = "next_states TCP_FIN_WAIT_1" and ?inc = "upd_tcb i (\<lambda>t. t\<lparr>rcv_nxt := rcv_nxt t + 1\<rparr>)"
  define newer where "newer \<longleftrightarrow> has_flag (th_flags h) ACK_FLAG \<and> SEQ_GT (th_ack h) (snd_una (tcb_at w i))"
  define w1 where "w1 = (if newer then upd_tcb i (\<lambda>t. t\<lparr>snd_una := th_ack h\<rparr>) w else w)"
  have s1: "stays e i w w1" using stays_io [OF assms(1) io_fields(11)] stays_refl [OF assms(1)] by (simp add: w1_def)
  let ?w2 = "closing_data i m h w1"
  note s2 = stays_trans [OF s1 closing_data_stays [OF stays_good [OF assms(1) s1], of m h]]
  note g2 = stays_good [OF assms(1) s2]
  have st2: "state (tcb_at ?w2 i) = TCP_FIN_WAIT_1" using s2 assms(2) by (simp add: stays_def)
  have fin: "yields (do { w \<leftarrow> send_ack e i (?inc ?w2);
       Some (if fa then add_conn_close (free_conn i w) else arm_rto e i (upd_tcb i (\<lambda>t. t\<lparr>state := TCP_CLOSING\<rparr>) w)) })
     (moved e i ?S ?w2)" for fa
  proof (rule after_moved [where h = "\<lambda>x. x", OF g2 stays_moved [OF stays_io [OF g2 io_fields(7)]]],
      rule moved_bind [where g = "\<lambda>x. x" and h = "\<lambda>x. x" and T = "{TCP_FIN_WAIT_1}"], assumption)
    note i3 = io_state_stays [OF g2 io_fields(7)]
    show "yields (send_ack e i (?inc ?w2)) (moved e i {TCP_FIN_WAIT_1} (?inc ?w2))"
      by (rule ack_moved(1) [OF i3(2)]) (simp add: i3(3) st2)
    fix x assume gx: "good e i x" and sx: "state (tcb_at x i) \<in> {TCP_FIN_WAIT_1}"
    have ux: "in_use (tcb_at x i)" by (rule good_in_use [OF gx]) (use sx in simp)
    show "yields (Some (if fa then add_conn_close (free_conn i x) else arm_rto e i (upd_tcb i (\<lambda>t. t\<lparr>state := TCP_CLOSING\<rparr>) x))) (moved e i ?S x)"
      using moved_mono [OF free_moved(1) [OF gx ux], of ?S] moved_mono [OF enter_closing_moved [OF gx], of ?S] sx by (simp add: add_conn_close_def)
  qed
  have acked: "yields (if has_payload m h then send_ack e i v else Some v) (moved e i ?S ?w2)"
    if v: "moved e i {TCP_FIN_WAIT_2} ?w2 v \<or> v = ?w2" for v
  proof -
    have mv: "moved e i ?S ?w2 v" using v moved_mono [of e i _ ?w2 v ?S] stays_within [OF stays_refl [OF g2], of ?S] st2 by auto
    have "yields (if has_payload m h then send_ack e i v else Some v) (moved e i ?S v)"
      using ack_moved(1) [OF moved_good [OF g2 mv], of ?S] stays_within [OF stays_refl [OF moved_good [OF g2 mv]], of ?S] mv
      by (simp add: moved_def del: next_states.simps)
    then show ?thesis by (rule yields_mono) (rule moved_trans [OF mv])
  qed
  have "yields (input_fin_wait_1 e i m h w) (moved e i ?S ?w2)"
    unfolding input_fin_wait_1_def newer_def [symmetric] Let_def w1_def [symmetric]
    using fin acked [OF disjI1 [OF enter_fin_wait_2_moved [OF g2 st2]]] acked [of ?w2]
    by (simp add: Let_def case_prod_beta del: next_states.simps cong: if_cong)
  then show ?thesis by (rule yields_mono) (rule moved_trans [OF stays_moved [OF s2]])
qed


lemma fin_wait_2_moved:
  assumes "good e i w" "state (tcb_at w i) = TCP_FIN_WAIT_2"
  shows "yields (input_fin_wait_2 e i m h w) (moved e i (next_states TCP_FIN_WAIT_2) w)"
proof -
  let ?S = "next_states TCP_FIN_WAIT_2" and ?inc = "upd_tcb i (\<lambda>t. t\<lparr>rcv_nxt := rcv_nxt t + 1\<rparr>)"
  let ?w2 = "closing_data i m h w"
  note s2 = closing_data_stays [OF assms(1), of m h] note g2 = stays_good [OF assms(1) s2]
  have st2: "state (tcb_at ?w2 i) = TCP_FIN_WAIT_2" using s2 assms(2) by (simp add: stays_def)
  have fin: "yields (do { w \<leftarrow> send_ack e i (?inc ?w2); Some (add_conn_close (free_conn i w)) }) (moved e i ?S ?w2)"
  proof (rule after_moved [where h = "\<lambda>x. x", OF g2 stays_moved [OF stays_io [OF g2 io_fields(7)]]],
      rule moved_bind [where g = "\<lambda>x. x" and h = "\<lambda>x. x" and T = "{TCP_FIN_WAIT_2}"], assumption)
    note i3 = io_state_stays [OF g2 io_fields(7)]
    show "yields (send_ack e i (?inc ?w2)) (moved e i {TCP_FIN_WAIT_2} (?inc ?w2))"
      by (rule ack_moved(1) [OF i3(2)]) (simp add: i3(3) st2)
    fix x assume gx: "good e i x" and sx: "state (tcb_at x i) \<in> {TCP_FIN_WAIT_2}"
    have ux: "in_use (tcb_at x i)" by (rule good_in_use [OF gx]) (use sx in simp)
    show "yields (Some (add_conn_close (free_conn i x))) (moved e i ?S x)"
      using moved_mono [OF free_moved(1) [OF gx ux], of ?S] by (simp add: add_conn_close_def)
  qed
  have "yields (input_fin_wait_2 e i m h w) (moved e i ?S ?w2)"
    unfolding input_fin_wait_2_def Let_def using fin ack_moved(1) [OF g2, of ?S] stays_within [OF stays_refl [OF g2], of ?S] st2
    by simp
  then show ?thesis by (rule yields_mono) (rule moved_trans [OF stays_moved [OF s2]])
qed

lemma closing_moved:
  assumes "good e i w" "state (tcb_at w i) \<in> S" "TCP_CLOSED \<in> S" "in_use (tcb_at w i)"
  shows "moved e i S w (input_closing i h w)" "moved e i S w (input_last_ack i h w)" "moved e i S w (input_rst i h w)"
  using moved_mono [OF free_moved(1) [OF assms(1,4)], of S] moved_mono [OF free_moved(2) [OF assms(1,4)], of S]
    stays_within [OF stays_refl [OF assms(1)] assms(2)] assms(3)
  by (simp_all add: input_closing_def input_last_ack_def input_rst_def add_conn_close_def Let_def)

lemma close_wait_stays:
  assumes "good e i w" "state (tcb_at w i) = TCP_CLOSE_WAIT"
  shows "yields (input_close_wait e i h w) (stays e i w)"
proof -
  have u: "in_use (tcb_at w i)" by (rule good_in_use [OF assms(1)]) (simp add: assms(2))
  have c: "cc_ok (tcb_at w i)" using goodD(7) [OF assms(1)] assms(2) by (simp add: tcb_ok_def)
  have d: "yields (do { w \<leftarrow> new_ack e i (th_ack h) w; snd_buf_drain e i w }) (stays e i w)"
    by (rule stays_chain [where g = "\<lambda>x. x" and h = "\<lambda>x. x", OF assms(1) new_ack_stays [OF assms(1) u c]])
      (simp_all add: drain_stays assms(2))
  have s: "yields (if SEQ_GT (th_ack h) (snd_una (tcb_at w i)) then do { w \<leftarrow> new_ack e i (th_ack h) w; snd_buf_drain e i w } else Some w) (stays e i w)"
    using d stays_refl [OF assms(1)] by simp
  have "yields (do { w \<leftarrow> (if SEQ_GT (th_ack h) (snd_una (tcb_at w i)) then do { w \<leftarrow> new_ack e i (th_ack h) w; snd_buf_drain e i w } else Some w);
      Some (set_snd_wnd i h w) }) (stays e i w)"
    by (rule stays_chain [where g = "\<lambda>x. x" and h = "\<lambda>x. x", OF assms(1) s]) (simp add: set_snd_wnd_def stays_io [OF _ io_fields(4)])
  then show ?thesis unfolding input_close_wait_def using stays_refl [OF assms(1)] by simp
qed

text \<open>Every state's handler, then the RST check.\<close>

lemma input_state_moved:
  assumes "good e i w" "peer_ok h opts"
  shows "yields (input_state e i m h opts w) (\<lambda>r. moved e i (next_states (state (tcb_at w i))) w (snd r))"
proof (cases "state (tcb_at w i)")
  case TCP_SYN_SENT then show ?thesis using syn_sent_moved [OF assms(1) _ assms(2)] by (simp add: input_state_def)
next
  case TCP_SYN_RECEIVED then show ?thesis using syn_received_moved [OF assms(1)] by (simp add: input_state_def)
next
  case TCP_ESTABLISHED then show ?thesis using established_moved [OF assms(1)] by (simp add: input_state_def)
next
  case TCP_FIN_WAIT_1 then show ?thesis using fin_wait_1_moved [OF assms(1)] by (simp add: input_state_def)
next
  case TCP_FIN_WAIT_2 then show ?thesis using fin_wait_2_moved [OF assms(1)] by (simp add: input_state_def)
next
  case TCP_CLOSING then show ?thesis using closing_moved(1) [OF assms(1)] good_in_use [OF assms(1)] by (simp add: input_state_def)
next
  case TCP_LAST_ACK then show ?thesis using closing_moved(2) [OF assms(1)] good_in_use [OF assms(1)] by (simp add: input_state_def)
next
  case TCP_CLOSE_WAIT
  then have "yields (input_close_wait e i h w) (moved e i (next_states TCP_CLOSE_WAIT) w)"
    using yields_mono [OF close_wait_stays [OF assms(1)] stays_within] by simp
  with TCP_CLOSE_WAIT show ?thesis by (simp add: input_state_def)
qed (use stays_within [OF stays_refl [OF assms(1)], of "next_states (state (tcb_at w i))"] in \<open>simp_all add: input_state_def\<close>)


lemma rst_moved:
  assumes "good e i w" "state (tcb_at w i) \<in> next_states s"
  shows "moved e i (next_states s) w (input_rst i h w)"
proof (cases "in_use (tcb_at w i) \<and> TCP_CLOSED \<in> next_states s")
  case True
  then show ?thesis using closing_moved(3) [OF assms] by simp
next
  case False
  then have "input_rst i h w = w" using assms(2) by (cases s) (auto simp: input_rst_def Let_def)
  then show ?thesis using stays_within [OF stays_refl [OF assms(1)] assms(2)] by simp
qed

text \<open>A segment for a known connection.\<close>

lemma segment_moved:
  assumes "good e i w" "input_lookup m (parse_tcp_hdr (mb_data m)) w = Some i"
    "peer_ok (parse_tcp_hdr (mb_data m)) (snd (tcp_options_parse (th_data_off (parse_tcp_hdr (mb_data m))) (drop 20 (mb_data m) @ mb_tail m)))"
  shows "yields (tcp_fsm_input e m w) (moved e i (next_states (state (tcb_at w i))) w)"
proof -
  let ?h = "parse_tcp_hdr (mb_data m)" and ?S = "next_states (state (tcb_at w i))"
  let ?o = "snd (tcp_options_parse (th_data_off ?h) (drop 20 (mb_data m) @ mb_tail m))"
  have self: "state (tcb_at w i) \<in> ?S" by (cases "state (tcb_at w i)") simp_all
  have "yields (do { (fin, w) \<leftarrow> input_state e i m ?h ?o w; Some (if fin then w else input_rst i ?h w) }) (moved e i ?S w)"
  proof (rule moved_bind [where h = "\<lambda>x. x", OF assms(1) input_state_moved [OF assms(1,3)]])
    fix r :: "bool \<times> worker" assume g: "good e i (snd r)" and st: "state (tcb_at (snd r) i) \<in> ?S"
    show "yields (case r of (fin, w) \<Rightarrow> Some (if fin then w else input_rst i ?h w)) (moved e i ?S (snd r))"
      using rst_moved [OF g st] stays_within [OF stays_refl [OF g] st] by (simp add: case_prod_beta)
  qed
  then show ?thesis unfolding tcp_fsm_input_def using stays_within [OF stays_refl [OF assms(1)] self] assms(2)
    by (simp add: Let_def)
qed

end
