(* ===== verification/Receive.thy ===== *)
theory Receive
  imports TcpInputInv
begin

text \<open>
  The receiving path as a whole: any segment, for a known connection or not, and any sequence of
  them; then what segments do that matter most: passive opens, resets and corrupt segments.
\<close>

subsection \<open>Allocation of a block\<close>

lemma alloc_step:
  assumes "worker_ok w" "tcb_alloc key w = (Some i, w')"
  shows "conn_step i w w'"
  using worker_alloc_effect [OF assms] by (simp add: conn_step_def)

lemma alloc_none: "tcb_alloc key w = (None, w') \<longleftrightarrow> free_top w = 0 \<and> w' = w"
  by (auto simp: tcb_alloc_eq Let_def)

subsection \<open>The invariant of a worker\<close>

definition sys_ok :: "env \<Rightarrow> worker \<Rightarrow> bool" where
  "sys_ok e w \<longleftrightarrow> env_ok e \<and> worker_ok w \<and> srv_ok (srv w) \<and> (\<forall>i<capacity w. ctx_ok e (tcb_at w i))"

lemma sys_okD:
  assumes "sys_ok e w"
  shows "env_ok e" "worker_ok w" "srv_ok (srv w)" "i < capacity w \<Longrightarrow> good e i w" "i < capacity w \<Longrightarrow> ctx_ok e (tcb_at w i)"
  using assms by (simp_all add: sys_ok_def good_def)

lemma ctx_ok_core: "tcb_core t' = tcb_core t \<Longrightarrow> ctx_ok e t' = ctx_ok e t"
  using tcb_appD(16,17) [OF tcb_coreD(4), of t' t] by (simp add: ctx_ok_def)

lemma moved_sys:
  assumes "sys_ok e w" "moved e i S w w'" "i < capacity w"
  shows "sys_ok e w'"
proof -
  have m: "worker_ok w'" "conn_step i w w'" "ctx_ok e (tcb_at w' i)" "srv_ok (srv w')" using assms(2) by (simp_all add: moved_def)
  have "ctx_ok e (tcb_at w' j)" if "j < capacity w" for j
  proof (cases "j = i")
    case False
    with that m(2) have "tcb_core (tcb_at w' j) = tcb_core (tcb_at w j)" by (simp add: conn_step_def)
    from ctx_ok_core [OF this] sys_okD(5) [OF assms(1) that] show ?thesis by simp
  qed (use m(3) in simp)
  then show ?thesis using m sys_okD(1) [OF assms(1)] conn_step_capacity [OF m(2)] by (simp add: sys_ok_def)
qed

subsection \<open>Passive open\<close>

lemma isn_generate_world: "snd (isn_generate e a b c d w) = snd (rdtsc w)"
  by (simp add: isn_generate_def case_prod_beta Let_def)

text \<open>The block of a passive open, ready for the SYN-ACK.\<close>

lemma passive_block:
  fixes t :: tcb
  assumes "t = (preresolve mac \<circ> passive_init e m h opts vs isn sa da) (fresh_tcb key)" "peer_ok h opts"
    "has_flag (th_flags h) SYN_FLAG"
  shows "tcb_ok t" "ctx_ok e t" "state t = TCP_SYN_RECEIVED" "key_of t = key" "snd_una t = isn" "snd_nxt t = isn"
    "rcv_nxt t = th_seq h + 1" "in_use t" "snd_buf t = None"
  using peer_mss [OF assms(2,3)] fresh_tcb_simps [of key] unfolding assms(1)
  by (auto simp: preresolve_def passive_init_def tcb_ok_def cc_ok_def ctx_ok_def key_of_def MAX_MSS_def Let_def split: option.splits)

lemma passive_neutral: "link_neutral (preresolve mac \<circ> passive_init e m h opts vs isn sa da)"
  by (auto simp: link_neutral_def preresolve_def passive_init_def key_of_def Let_def split: option.splits)

subsection \<open>The first segment of a connection\<close>

lemma handshake_sent:
  assumes "good e i w" "in_use (tcb_at w i)"
  shows "yields (tcp_send_segment e i flags [] 0 sq ak w \<bind> (\<lambda>(_, w). Some (arm_rto e i (upd_tcb i (\<lambda>t. t\<lparr>snd_nxt := snd_nxt t + 1\<rparr>) w))))
    (\<lambda>w'. stays e i w w' \<and> tcb_app (tcb_at w' i) = tcb_app (tcb_at w i) \<and> snd_nxt (tcb_at w' i) = snd_nxt (tcb_at w i) + 1)"
proof -
  note g = goodD [OF assms(1)]
  from send_control_ok [OF g(2,1,3), of flags sq ak] obtain rc v
    where s: "tcp_send_segment e i flags [] 0 sq ak w = Some (rc, v)" and p: "seg_post i flags [] sq ak w (rc, v)"
    by (auto simp: yields_def)
  note v = seg_postD [OF p] note d = seg_sentD [OF v(2)]
  let ?v = "upd_tcb i (\<lambda>t. t\<lparr>snd_nxt := snd_nxt t + 1\<rparr>) v"
  have sv: "stays e i w v" by (rule stays_sends [OF assms(1) v(1) d(1)])
  note gv = stays_good [OF assms(1) sv]
  note i1 = io_state_stays [OF gv io_fields(13)] note g1 = goodD [OF i1(2)]
  have at: "tcb_at ?v i = (tcb_at v i)\<lparr>snd_nxt := snd_nxt (tcb_at v i) + 1\<rparr>" using goodD(6) [OF gv] by simp
  have u: "in_use (tcb_at ?v i)" using stays_in_use [OF sv] assms(2) by (simp add: at)
  note a = arm_rto_effect [OF g1(2,3) u, of e]
  have "stays e i w (arm_rto e i ?v)"
    by (rule stays_trans [OF sv stays_trans [OF i1(1) arm_stays [OF i1(2) u]]])
  moreover have "tcb_app (tcb_at (arm_rto e i ?v) i) = tcb_app (tcb_at w i)"
    using sendsD(2) [OF a(2)] tcb_segD(1) [OF d(2)] unfolding at by (simp add: tcb_app_def)
  moreover have "snd_nxt (tcb_at (arm_rto e i ?v) i) = snd_nxt (tcb_at w i) + 1"
    unfolding a(3) at using tcb_segD(2) [OF d(2)] by simp
  ultimately show ?thesis by (simp add: s)
qed

text \<open>A block fresh from the store, filled in by \<open>f\<close>.\<close>

lemma fill_block:
  assumes "sys_ok e w" "tcb_alloc key w = (Some i, w1)" "link_neutral f" "tcb_ok (f (fresh_tcb key))" "ctx_ok e (f (fresh_tcb key))"
  shows "good e i (upd_tcb i f (snd (rdtsc w1)))" "tcb_at (upd_tcb i f (snd (rdtsc w1))) i = f (fresh_tcb key)"
    "conn_step i w (upd_tcb i f (snd (rdtsc w1)))"
proof -
  note a = worker_alloc_effect [OF sys_okD(2) [OF assms(1)] assms(2)]
  have i: "i < capacity (snd (rdtsc w1))" "i < length (tcbs w1)" using a(3,6) worker_okD(7) [OF a(1)] by simp_all
  show at: "tcb_at (upd_tcb i f (snd (rdtsc w1))) i = f (fresh_tcb key)" using i(2) a(2) by simp
  have "worker_ok (upd_tcb i f (snd (rdtsc w1)))"
    by (rule worker_ok_upd_tcb [OF _ assms(3) i(1)]) (use a(1,2) assms(4) in simp_all)
  then show "good e i (upd_tcb i f (snd (rdtsc w1)))"
    using at assms(5) i(1) sys_okD(1,3) [OF assms(1)] a(5) by (simp add: good_def)
  show "conn_step i w (upd_tcb i f (snd (rdtsc w1)))" using alloc_step [OF sys_okD(2) [OF assms(1)] assms(2)] by (simp add: conn_step_def)
qed

definition opened :: "env \<Rightarrow> tcp_state \<Rightarrow> tuple4 \<Rightarrow> worker \<Rightarrow> nat \<Rightarrow> worker \<Rightarrow> bool" where
  "opened e s key w i w' \<longleftrightarrow> moved e i {s} w w' \<and> i < capacity w \<and> \<not> in_use (tcb_at w i) \<and> in_use (tcb_at w' i) \<and>
     key_of (tcb_at w' i) = key \<and> snd_nxt (tcb_at w' i) = snd_una (tcb_at w' i) + 1"

lemma opened_metrics [simp]: "opened e s key w i (upd_metrics f w') = opened e s key w i w'"
  by (simp add: opened_def)

lemma open_block:
  assumes "good e i v" "conn_step i w v" "i < capacity w" "\<not> in_use (tcb_at w i)"
    "in_use (tcb_at v i)" "key_of (tcb_at v i) = key" "snd_nxt (tcb_at v i) = snd_una (tcb_at v i)"
  shows "yields (tcp_send_segment e i flags [] 0 sq ak v \<bind> (\<lambda>(_, w). Some (arm_rto e i (upd_tcb i (\<lambda>t. t\<lparr>snd_nxt := snd_nxt t + 1\<rparr>) w))))
    (\<lambda>w'. opened e (state (tcb_at v i)) key w i w' \<and> tcb_app (tcb_at w' i) = tcb_app (tcb_at v i))"
proof (rule yields_mono [OF handshake_sent [OF assms(1,5)]])
  fix w' assume "stays e i v w' \<and> tcb_app (tcb_at w' i) = tcb_app (tcb_at v i) \<and> snd_nxt (tcb_at w' i) = snd_nxt (tcb_at v i) + 1"
  then have w': "stays e i v w'" "tcb_app (tcb_at w' i) = tcb_app (tcb_at v i)" "snd_nxt (tcb_at w' i) = snd_nxt (tcb_at v i) + 1"
    by simp_all
  have "moved e i {state (tcb_at v i)} w w'"
    using w'(1) conn_step_trans [OF assms(2)] by (simp add: moved_def stays_def)
  then show "opened e (state (tcb_at v i)) key w i w' \<and> tcb_app (tcb_at w' i) = tcb_app (tcb_at v i)"
    using tcb_appD(6,19,20) [OF w'(2)] assms(3-7) w'(2,3) by (simp add: opened_def)
qed

lemma passive_open_ok:
  assumes "sys_ok e w" "peer_ok h opts" "has_flag (th_flags h) SYN_FLAG" "\<not> has_flag (th_flags h) ACK_FLAG"
    "\<not> (srv_serving (srv w) \<and> srv_lookup_port (th_dst_port h) (srv w) = SRV_HANDLER_NONE)"
    "tcb_alloc (dip, th_dst_port h, sip, th_src_port h) w = (Some i, w1)"
  shows "yields (passive_open e m h opts v6 sip dip w)
    (\<lambda>w'. opened e TCP_SYN_RECEIVED (dip, th_dst_port h, sip, th_src_port h) w i w' \<and> rcv_nxt (tcb_at w' i) = th_seq h + 1)"
proof -
  let ?key = "(dip, th_dst_port h, sip, th_src_port h)" and ?w2 = "snd (rdtsc w1)"
  define isn where "isn = fst (isn_generate e dip (th_dst_port h) sip (th_src_port h) w1)"
  define mac where "mac = (if v6 then ndp_lookup (e_ndp e) (mb_port m) (saved_src6 ?w2)
                          else arp_lookup (e_arp e) (mb_port m) (arp_nexthop (e_arp e) (mb_port m) sip))"
  define f where "f = preresolve mac \<circ> passive_init e m h opts v6 isn (saved_src6 ?w2) (saved_dst6 ?w2)"
  note a = worker_alloc_effect [OF sys_okD(2) [OF assms(1)] assms(6)]
  note b = passive_block [OF refl assms(2,3), where e = e and m = m and vs = v6 and isn = isn and mac = mac and key = ?key
      and sa = "saved_src6 ?w2" and da = "saved_dst6 ?w2", folded f_def]
  note v = fill_block [OF assms(1,6) passive_neutral [of mac e m h opts v6 isn "saved_src6 ?w2" "saved_dst6 ?w2", folded f_def] b(1,2)]
  have i: "isn_generate e dip (th_dst_port h) sip (th_src_port h) w1 = (isn, ?w2)"
    by (rule prod_eqI) (simp_all add: isn_def isn_generate_world)
  have "passive_open e m h opts v6 sip dip w = map_option add_conn_open (tcp_send_segment e i (SYN_FLAG OR ACK_FLAG) [] 0
      (snd_nxt (tcb_at (upd_tcb i f ?w2) i)) (rcv_nxt (tcb_at (upd_tcb i f ?w2) i)) (upd_tcb i f ?w2) \<bind>
      (\<lambda>(_, w). Some (arm_rto e i (upd_tcb i (\<lambda>t. t\<lparr>snd_nxt := snd_nxt t + 1\<rparr>) w))))"
    using assms(3-5) unfolding passive_open_def assms(6) prod.case option.case i Let_def mac_def [symmetric] f_def [symmetric]
    by (auto simp: split_def map_option_bind comp_def cong: if_cong)
  moreover have u: "in_use (tcb_at (upd_tcb i f ?w2) i)" "key_of (tcb_at (upd_tcb i f ?w2) i) = ?key"
    "snd_nxt (tcb_at (upd_tcb i f ?w2) i) = snd_una (tcb_at (upd_tcb i f ?w2) i)" unfolding v(2) by (simp_all add: b(4,5,6,8))
  note o = open_block [OF v(1,3) a(3,4) u]
  have "opened e TCP_SYN_RECEIVED ?key w i w' \<and> rcv_nxt (tcb_at w' i) = th_seq h + 1"
    if "opened e (state (tcb_at (upd_tcb i f ?w2) i)) ?key w i w' \<and> tcb_app (tcb_at w' i) = tcb_app (tcb_at (upd_tcb i f ?w2) i)" for w'
    using that tcb_appD(8) [of "tcb_at w' i" "tcb_at (upd_tcb i f ?w2) i"] unfolding v(2) b(3,7) by simp
  ultimately show ?thesis using yields_mono [OF o] by (simp add: add_conn_open_def)
qed


subsection \<open>Any segment, and any sequence of segments\<close>

definition seg_hdr :: "mbuf \<Rightarrow> tcp_hdr" where
  "seg_hdr m = parse_tcp_hdr (mb_data m)"

definition seg_opts :: "mbuf \<Rightarrow> tcp_parsed_opts" where
  "seg_opts m = snd (tcp_options_parse (th_data_off (seg_hdr m)) (drop 20 (mb_data m) @ mb_tail m))"

lemma input_eq:
  "tcp_fsm_input e m w =
     (if length (mb_data m) < 20 then Some w
      else if mb_l4_bad m then Some (upd_metrics (\<lambda>mt. mt\<lparr>m_tcp_bad_cksum := m_tcp_bad_cksum mt + 1\<rparr>) w)
      else case input_lookup m (seg_hdr m) w of
             None \<Rightarrow> passive_open e m (seg_hdr m) (seg_opts m) (is_input_v6 m) (if is_input_v6 m then 0 else mb_hash_usr m)
                       (if is_input_v6 m then 0 else mb_dynfield0 m) w
           | Some i \<Rightarrow> do { (fin, w) \<leftarrow> input_state e i m (seg_hdr m) (seg_opts m) w;
                             Some (if fin then w else input_rst i (seg_hdr m) w) })"
  unfolding tcp_fsm_input_def seg_opts_def seg_hdr_def Let_def by (rule refl)

lemma lookup_live:
  assumes "worker_ok w" "input_lookup m h w = Some i"
  shows "i < capacity w" "in_use (tcb_at w i)"
proof -
  obtain key where "tcb_lookup key w = Some i"
    using assms(2) by (auto simp: input_lookup_def Let_def split: option.splits if_splits)
  from lookup_sound [OF worker_okD(8) [OF assms(1)] this] show "i < capacity w" "in_use (tcb_at w i)" by simp_all
qed

lemma sys_ok_metrics [simp]: "sys_ok e (upd_metrics f w) = sys_ok e w"
  by (simp add: sys_ok_def)

text \<open>The invariant holds again and no block was added to or taken from the store.\<close>

definition same_store :: "env \<Rightarrow> worker \<Rightarrow> worker \<Rightarrow> bool" where
  "same_store e w w' \<longleftrightarrow> sys_ok e w' \<and> capacity w' = capacity w"

lemma same_store_refl: "sys_ok e w \<Longrightarrow> same_store e w w"
  by (simp add: same_store_def)

lemma same_store_metrics [simp]: "same_store e w (upd_metrics f v) = same_store e w v"
  by (simp add: same_store_def)

lemma moved_store: "sys_ok e w \<Longrightarrow> moved e i S w w' \<Longrightarrow> i < capacity w \<Longrightarrow> same_store e w w'"
  using moved_sys conn_step_capacity by (auto simp: same_store_def moved_def)

lemma passive_sys:
  assumes "sys_ok e w" "peer_ok h opts"
  shows "yields (passive_open e m h opts v6 sip dip w) (same_store e w)"
proof -
  let ?key = "(dip, th_dst_port h, sip, th_src_port h)"
  consider (no) "\<not> (has_flag (th_flags h) SYN_FLAG \<and> \<not> has_flag (th_flags h) ACK_FLAG) \<or>
      srv_serving (srv w) \<and> srv_lookup_port (th_dst_port h) (srv w) = SRV_HANDLER_NONE"
    | (full) "fst (tcb_alloc ?key w) = None"
    | (new) i w1 where "has_flag (th_flags h) SYN_FLAG" "\<not> has_flag (th_flags h) ACK_FLAG"
      "\<not> (srv_serving (srv w) \<and> srv_lookup_port (th_dst_port h) (srv w) = SRV_HANDLER_NONE)" "tcb_alloc ?key w = (Some i, w1)"
    by (cases "tcb_alloc ?key w"; cases "fst (tcb_alloc ?key w)") auto
  then show ?thesis
  proof cases
    case no
    then have "passive_open e m h opts v6 sip dip w = Some w" by (auto simp: passive_open_def)
    then show ?thesis using same_store_refl [OF assms(1)] by simp
  next
    case full
    then have "tcb_alloc ?key w = (None, w)" using alloc_none [of ?key w "snd (tcb_alloc ?key w)"] by (metis prod.collapse)
    then show ?thesis using same_store_refl [OF assms(1)] by (simp add: passive_open_def)
  next
    case new
    show ?thesis by (rule yields_mono [OF passive_open_ok [OF assms new]]) (auto simp: opened_def intro: moved_store [OF assms(1)])
  qed
qed

lemma input_sys:
  assumes "sys_ok e w" "peer_ok (seg_hdr m) (seg_opts m)"
  shows "yields (tcp_fsm_input e m w) (same_store e w)"
proof (cases "input_lookup m (seg_hdr m) w")
  case None
  then show ?thesis using passive_sys [OF assms] same_store_refl [OF assms(1)] by (simp add: input_eq)
next
  case (Some i)
  note l = lookup_live(1) [OF sys_okD(2) [OF assms(1)] Some]
  show ?thesis
    by (rule yields_mono [OF segment_moved [OF sys_okD(4) [OF assms(1) l]]])
      (use Some assms(2) in \<open>simp_all add: seg_hdr_def seg_opts_def moved_store [OF assms(1) _ l]\<close>)
qed

fun inputs :: "env \<Rightarrow> mbuf list \<Rightarrow> worker \<Rightarrow> worker option" where
  "inputs e [] w = Some w"
| "inputs e (m # ms) w = tcp_fsm_input e m w \<bind> inputs e ms"


text \<open>
  C1. Received segments of well-behaved peers never crash a worker.  Whatever sequence of segments arrives,
  for known connections or new ones, well formed or not, \<open>tcp_fsm_input\<close> processes every one of them and
  leaves the worker in a state that satisfies its invariant: connection table, timer wheel and port
  pool are consistent, no buffer is lost, and every connection is one that can go on.  The segments are
  free but for \<open>peer_ok\<close>, which bounds two fields of the handshake: the maximum segment size option of a
  SYN or SYN-ACK, if present, is 1 to 65400, and the window of a SYN-ACK is at least 2.  The code does
  not check these fields; with a peer that sends a size of 0, a size near 65535 or a window of 0 it can
  divide by zero or write beyond a buffer.
\<close>

theorem segments_keep_worker:
  assumes "sys_ok e w" "list_all (\<lambda>m. peer_ok (seg_hdr m) (seg_opts m)) ms"
  shows "\<exists>w'. inputs e ms w = Some w' \<and> sys_ok e w'"
  using assms
proof (induction ms arbitrary: w)
  case (Cons m ms)
  from input_sys [OF Cons.prems(1)] Cons.prems(2) obtain v where "tcp_fsm_input e m w = Some v" "sys_ok e v"
    by (auto simp: yields_def same_store_def)
  with Cons.IH [of v] Cons.prems(2) show ?case by simp
qed simp

text \<open>
  C2. A segment moves its connection only along the edges of the state machine of RFC 793 as this
  program implements it (\<open>next_states\<close>: no \<open>TIME_WAIT\<close>, the port is held back instead), and does not touch any
  other connection.
\<close>

theorem segment_follows_state_machine:
  assumes "sys_ok e w" "input_lookup m (seg_hdr m) w = Some i" "peer_ok (seg_hdr m) (seg_opts m)"
  shows "\<exists>w'. tcp_fsm_input e m w = Some w' \<and> state (tcb_at w' i) \<in> next_states (state (tcb_at w i)) \<and>
    (\<forall>j. j < capacity w \<and> j \<noteq> i \<longrightarrow> tcb_core (tcb_at w' j) = tcb_core (tcb_at w j) \<and> sessions w' j = sessions w j)"
proof -
  note l = lookup_live(1) [OF sys_okD(2) [OF assms(1)] assms(2)]
  from segment_moved [OF sys_okD(4) [OF assms(1) l]] assms(2,3) obtain w'
    where "tcp_fsm_input e m w = Some w'" "moved e i (next_states (state (tcb_at w i))) w w'"
    by (auto simp: yields_def seg_hdr_def seg_opts_def)
  then show ?thesis by (auto simp: moved_def conn_step_def)
qed

text \<open>An opened connection is the one a lookup of its addresses finds.\<close>

lemma opened_lookup:
  assumes "sys_ok e w" "opened e S key w i w'" "tcb_lookup key w = None"
  shows "tcb_lookup key w' = Some i"
proof -
  note o = assms(2)
  have ok: "store_ok w'" "store_ok w" "i < capacity w'" using o worker_okD(8) sys_okD(2) [OF assms(1)] conn_step_capacity
    by (auto simp: opened_def moved_def)
  have "in_use (tcb_at w' i)" "key_of (tcb_at w' i) = key" using o by (simp_all add: opened_def)
  from lookup_complete [OF ok(1,3) this(1)] this(2) obtain j where j: "tcb_lookup key w' = Some j" by auto
  note s = lookup_sound [OF ok(1) j]
  have "j = i"
  proof (rule ccontr)
    assume n: "j \<noteq> i"
    have c: "j < capacity w" "tcb_core (tcb_at w' j) = tcb_core (tcb_at w j)"
      using o s n conn_step_capacity [of i w w'] by (auto simp: opened_def moved_def conn_step_def)
    then have "in_use (tcb_at w j)" "key_of (tcb_at w j) = key" using s tcb_appD(19,20) [OF tcb_coreD(4) [OF c(2)]] by simp_all
    with lookup_complete [OF ok(2) c(1)] assms(3) show False by simp
  qed
  with j show ?thesis by simp
qed

text \<open>
  C8. What a SYN does over IPv4 when no connection has its addresses and its checksum is good, from a peer
  within \<open>peer_ok\<close>.  When the worker serves and has no listener on the port, nothing at all happens;
  when the store has no free block, the SYN is counted as dropped and nothing else changes.  Otherwise a connection is created: a block that was free now carries the
  segment's addresses, in \<open>SYN_RECEIVED\<close>, expecting the byte after the SYN; a lookup finds the
  connection, and no other one changed.  (IPv6 is excluded: the store is keyed there by ports alone, so that
  connections of different hosts collide.)
\<close>

theorem syn_opens_connection:
  assumes "sys_ok e w" "20 \<le> length (mb_data m)" "\<not> mb_l4_bad m" "\<not> is_input_v6 m" "input_lookup m (seg_hdr m) w = None"
    "has_flag (th_flags (seg_hdr m)) SYN_FLAG" "\<not> has_flag (th_flags (seg_hdr m)) ACK_FLAG" "peer_ok (seg_hdr m) (seg_opts m)"
  shows "if srv_serving (srv w) \<and> srv_lookup_port (th_dst_port (seg_hdr m)) (srv w) = SRV_HANDLER_NONE
   then tcp_fsm_input e m w = Some w
   else if free_top w = 0
   then tcp_fsm_input e m w = Some (upd_metrics (\<lambda>mt. mt\<lparr>m_tcp_syn_queue_drops := m_tcp_syn_queue_drops mt + 1\<rparr>) w)
   else \<exists>i w'. tcp_fsm_input e m w = Some w' \<and> \<not> in_use (tcb_at w i) \<and> state (tcb_at w' i) = TCP_SYN_RECEIVED \<and>
    rcv_nxt (tcb_at w' i) = th_seq (seg_hdr m) + 1 \<and> snd_nxt (tcb_at w' i) = snd_una (tcb_at w' i) + 1 \<and>
    key_of (tcb_at w' i) = (mb_dynfield0 m, th_dst_port (seg_hdr m), mb_hash_usr m, th_src_port (seg_hdr m)) \<and>
    input_lookup m (seg_hdr m) w' = Some i \<and> conn_step i w w'"
proof (cases "free_top w = 0 \<or> srv_serving (srv w) \<and> srv_lookup_port (th_dst_port (seg_hdr m)) (srv w) = SRV_HANDLER_NONE")
  case True
  then have "passive_open e m (seg_hdr m) (seg_opts m) (is_input_v6 m) (mb_hash_usr m) (mb_dynfield0 m) w =
    Some (if srv_serving (srv w) \<and> srv_lookup_port (th_dst_port (seg_hdr m)) (srv w) = SRV_HANDLER_NONE then w
          else upd_metrics (\<lambda>mt. mt\<lparr>m_tcp_syn_queue_drops := m_tcp_syn_queue_drops mt + 1\<rparr>) w)"
    using assms(6,7) by (auto simp: passive_open_def tcb_alloc_eq)
  then show ?thesis using True assms(2-5) by (auto simp: input_eq)
next
  case False
  let ?h = "seg_hdr m" let ?key = "(mb_dynfield0 m, th_dst_port ?h, mb_hash_usr m, th_src_port ?h)"
  obtain i w1 where a: "tcb_alloc ?key w = (Some i, w1)" using False by (simp add: tcb_alloc_eq Let_def)
  have none: "tcb_lookup ?key w = None"
    using assms(4,5) by (auto simp: input_lookup_def Let_def split: option.splits if_splits)
  from passive_open_ok [OF assms(1,8,6,7) _ a, of m "is_input_v6 m"] False obtain w'
    where p: "passive_open e m ?h (seg_opts m) (is_input_v6 m) (mb_hash_usr m) (mb_dynfield0 m) w = Some w'"
      and o: "opened e TCP_SYN_RECEIVED ?key w i w'" and r: "rcv_nxt (tcb_at w' i) = th_seq ?h + 1"
    by (auto simp: yields_def)
  have "tcb_lookup ?key w' = Some i" by (rule opened_lookup [OF assms(1) o none])
  then have "input_lookup m ?h w' = Some i" using assms(4) by (simp add: input_lookup_def Let_def)
  then show ?thesis using p o r assms(2-5) False
    by (simp only: de_Morgan_disj if_False) (intro exI [of _ i] exI [of _ w'], auto simp: input_eq opened_def moved_def)
qed

subsection \<open>Resets\<close>

text \<open>
  A RST without payload, in a state that does not process acknowledgements before it: any state when the RST
  carries no acknowledgement, \<open>SYN_SENT\<close>, \<open>LAST_ACK\<close> and \<open>CLOSING\<close> also when it carries one.  An
  established connection takes its timestamp.
\<close>

definition plain_rst :: "mbuf \<Rightarrow> tcb \<Rightarrow> bool" where
  "plain_rst m t \<longleftrightarrow> \<not> has_payload m (seg_hdr m) \<and> (th_flags (seg_hdr m) = RST_FLAG \<or>
     th_flags (seg_hdr m) = RST_FLAG OR ACK_FLAG \<and> state t \<in> {TCP_SYN_SENT, TCP_LAST_ACK, TCP_CLOSING})"

definition rst_seen :: "nat \<Rightarrow> mbuf \<Rightarrow> worker \<Rightarrow> worker" where
  "rst_seen i m w =
     (if state (tcb_at w i) = TCP_ESTABLISHED \<and> po_has_timestamps (seg_opts m) \<and> ts_enabled (tcb_at w i)
      then upd_tcb i (\<lambda>t. t\<lparr>ts_ecr := po_ts_val (seg_opts m)\<rparr>) w else w)"

text \<open>The acknowledgement that comes with the RST already releases a connection that waits for its last one.\<close>

definition last_acked :: "tcp_hdr \<Rightarrow> tcb \<Rightarrow> bool" where
  "last_acked h t \<longleftrightarrow> has_flag (th_flags h) ACK_FLAG \<and>
     (state t = TCP_LAST_ACK \<or> state t = TCP_CLOSING \<and> SEQ_GE (th_ack h) (snd_nxt t))"

lemma rst_flags:
  assumes "plain_rst m t"
  shows "has_flag (th_flags (seg_hdr m)) RST_FLAG" "\<not> has_flag (th_flags (seg_hdr m)) SYN_FLAG"
    "\<not> has_flag (th_flags (seg_hdr m)) FIN_FLAG"
    "has_flag (th_flags (seg_hdr m)) ACK_FLAG \<Longrightarrow> state t \<in> {TCP_SYN_SENT, TCP_LAST_ACK, TCP_CLOSING}"
  using assms by (auto simp: plain_rst_def has_flag_def tcp_flag_defs)

lemma rst_passes:
  assumes "plain_rst m (tcb_at w i)" "\<not> last_acked (seg_hdr m) (tcb_at w i)"
  shows "input_state e i m (seg_hdr m) (seg_opts m) w = Some (False, rst_seen i m w)"
  using rst_flags [OF assms(1)] assms(2) assms(1)
  by (cases "state (tcb_at w i)") (auto simp: plain_rst_def last_acked_def input_state_def rst_seen_def input_syn_sent_def input_syn_received_def
      input_established_def est_ack_def est_data_def est_fin_def input_fin_wait_1_def input_fin_wait_2_def closing_data_def
      input_closing_def input_close_wait_def input_last_ack_def Let_def)

lemma last_ack_releases:
  assumes "good e i w" "in_use (tcb_at w i)" "last_acked h (tcb_at w i)"
  shows "\<exists>v. input_state e i m h opts w = Some (False, v) \<and> torn_down i w v"
  using assms(3) free_conn_torn [OF assms(1,2)] free_timewait_torn [OF assms(1,2)]
  by (auto simp: last_acked_def input_state_def input_closing_def input_last_ack_def add_conn_close_def)

text \<open>
  C9. When a RST without payload releases a connection.  An unanswered SYN believes only a RST that
  acknowledges it; in every other state the RST must lie in the receive window (RFC 5961), except that in
  \<open>LAST_ACK\<close> and \<open>CLOSING\<close> the acknowledgement that comes with it already releases the connection.
  Then its block is free again and nothing of any other connection changes.  A RST that is not believed
  leaves the worker as it was, except for the timestamp an established connection echoes.  (A RST with an
  acknowledgement in a state that goes on to process it, or with payload, is not covered.)
\<close>

theorem rst_only_in_window:
  assumes "sys_ok e w" "input_lookup m (seg_hdr m) w = Some i" "20 \<le> length (mb_data m)" "\<not> mb_l4_bad m"
    "plain_rst m (tcb_at w i)"
  shows "\<exists>w'. tcp_fsm_input e m w = Some w' \<and>
    (if case state (tcb_at w i) of
          TCP_TIME_WAIT \<Rightarrow> False
        | TCP_SYN_SENT \<Rightarrow> has_flag (th_flags (seg_hdr m)) ACK_FLAG \<and> th_ack (seg_hdr m) = snd_nxt (tcb_at w i)
        | _ \<Rightarrow> last_acked (seg_hdr m) (tcb_at w i) \<or> SEQ_GE (th_seq (seg_hdr m)) (rcv_nxt (tcb_at w i)) \<and>
               SEQ_LT (th_seq (seg_hdr m)) (rcv_nxt (tcb_at w i) + rcv_wnd (tcb_at w i))
     then torn_down i w w' else w' = rst_seen i m w)"
proof -
  note l = lookup_live [OF sys_okD(2) [OF assms(1)] assms(2)]
  note g = sys_okD(4) [OF assms(1) l(1)]
  show ?thesis
  proof (cases "last_acked (seg_hdr m) (tcb_at w i)")
    case True
    then obtain v where v: "input_state e i m (seg_hdr m) (seg_opts m) w = Some (False, v)" "torn_down i w v"
      using last_ack_releases [OF g l(2)] by blast
    then have "input_rst i (seg_hdr m) v = v" by (simp add: input_rst_def torn_down_def Let_def tcb_zero_def)
    then have "tcp_fsm_input e m w = Some v" using assms(2-4) v(1) by (simp add: input_eq)
    moreover have "state (tcb_at w i) \<in> {TCP_LAST_ACK, TCP_CLOSING}" using True by (auto simp: last_acked_def)
    ultimately show ?thesis using True v(2) by auto
  next
    case False
    have s: "stays e i w (rst_seen i m w)" unfolding rst_seen_def using stays_io [OF g io_fields(6)] stays_refl [OF g] by simp
    have at: "tcb_at (rst_seen i m w) i = tcb_at w i \<or> tcb_at (rst_seen i m w) i = (tcb_at w i)\<lparr>ts_ecr := po_ts_val (seg_opts m)\<rparr>"
      using goodD(6) [OF g] by (simp add: rst_seen_def)
    then have f: "state (tcb_at (rst_seen i m w) i) = state (tcb_at w i)" "rcv_nxt (tcb_at (rst_seen i m w) i) = rcv_nxt (tcb_at w i)"
      "snd_nxt (tcb_at (rst_seen i m w) i) = snd_nxt (tcb_at w i)"
      "rcv_wnd (tcb_at (rst_seen i m w) i) = rcv_wnd (tcb_at w i)" "in_use (tcb_at (rst_seen i m w) i)" using l(2) by auto
    have "torn_down i (rst_seen i m w) (free_conn i (rst_seen i m w))" by (rule free_conn_torn [OF stays_good [OF g s] f(5)])
    then have t: "torn_down i w (free_conn i (rst_seen i m w))" by (simp add: torn_down_def rst_seen_def split: if_splits)
    have "tcp_fsm_input e m w = Some (input_rst i (seg_hdr m) (rst_seen i m w))"
      using assms(2-4) rst_passes [OF assms(5) False] by (simp add: input_eq)
    then show ?thesis using t rst_flags(1) [OF assms(5)] f False
      by (cases "state (tcb_at w i)") (simp_all add: input_rst_def rst_valid_def Let_def)
  qed
qed

text \<open>
  Segments that belong to no connection and may not open one - anything but a bare SYN, and a SYN for
  a port without a listener while the worker serves - are dropped without a trace: nothing is sent, counted or
  stored.
\<close>

theorem stray_segment_dropped:
  assumes "20 \<le> length (mb_data m)" "\<not> mb_l4_bad m" "input_lookup m (seg_hdr m) w = None"
    "\<not> has_flag (th_flags (seg_hdr m)) SYN_FLAG \<or> has_flag (th_flags (seg_hdr m)) ACK_FLAG \<or>
     srv_serving (srv w) \<and> srv_lookup_port (th_dst_port (seg_hdr m)) (srv w) = SRV_HANDLER_NONE"
  shows "tcp_fsm_input e m w = Some w"
  using assms by (auto simp: input_eq passive_open_def)

subsection \<open>Active opens\<close>

lemma connect_block:
  fixes t :: tcb
  assumes "t = (preresolve mac \<circ> connect_init e pid isn) (fresh_tcb key)"
  shows "tcb_ok t" "ctx_ok e t" "state t = TCP_SYN_SENT" "key_of t = key" "snd_una t = isn" "snd_nxt t = isn" "in_use t" "active_open t"
    "app_state t = 0"
  using fresh_tcb_simps [of key] unfolding assms
  by (auto simp: preresolve_def connect_init_def tcb_ok_def cc_ok_def ctx_ok_def key_of_def MAX_MSS_def Let_def split: option.splits)

lemma connect_neutral: "link_neutral (preresolve mac \<circ> connect_init e pid isn)"
  by (auto simp: link_neutral_def preresolve_def connect_init_def key_of_def split: option.splits)

lemma connect_ok:
  assumes "sys_ok e w" "sport \<noteq> 0" "tcb_alloc (sip, sport, dip, dport) w = (Some i, w1)"
  shows "yields (tcp_fsm_connect e sip sport dip dport pid w)
    (\<lambda>(r, w'). r = Some i \<and> opened e TCP_SYN_SENT (sip, sport, dip, dport) w i w' \<and> active_open (tcb_at w' i) \<and>
      app_state (tcb_at w' i) = 0)"
proof -
  let ?key = "(sip, sport, dip, dport)" and ?w2 = "snd (rdtsc w1)"
  define isn where "isn = fst (isn_generate e sip sport dip dport w1)"
  define f where "f = preresolve (arp_lookup (e_arp e) pid (arp_nexthop (e_arp e) pid dip)) \<circ> connect_init e pid isn"
  note a = worker_alloc_effect [OF sys_okD(2) [OF assms(1)] assms(3)]
  note b = connect_block [OF refl, where key = ?key and e = e and pid = pid and isn = isn
      and mac = "arp_lookup (e_arp e) pid (arp_nexthop (e_arp e) pid dip)", folded f_def]
  note v = fill_block [OF assms(1,3) connect_neutral [of "arp_lookup (e_arp e) pid (arp_nexthop (e_arp e) pid dip)" e pid isn, folded f_def] b(1,2)]
  let ?v = "upd_tcb i f ?w2"
  define x where "x = upd_tcb i (\<lambda>t. t\<lparr>timewait_deadline_tsc := fst (rdtsc ?v)\<rparr>) (snd (rdtsc ?v))"
  note i1 = io_state_stays [where f = "\<lambda>t. t\<lparr>timewait_deadline_tsc := fst (rdtsc ?v)\<rparr>", OF good_rdtsc [OF v(1)] io_fields(12), folded x_def]
  have sx: "stays e i ?v x" using stays_trans [OF _ i1(1), of ?v] stays_refl [OF v(1)] by simp
  have at: "tcb_at x i = (f (fresh_tcb ?key))\<lparr>timewait_deadline_tsc := fst (rdtsc ?v)\<rparr>"
    using v(2) goodD(6) [OF v(1)] by (simp add: x_def)
  have c: "conn_step i w x" using conn_step_trans [OF v(3)] sx by (simp add: stays_def)
  have u: "in_use (tcb_at x i)" "key_of (tcb_at x i) = ?key" "snd_nxt (tcb_at x i) = snd_una (tcb_at x i)"
    unfolding at using b(4-7) by (simp_all add: key_of_def)
  have isq: "isn_generate e sip sport dip dport w1 = (isn, ?w2)"
    by (rule prod_eqI) (simp_all add: isn_def isn_generate_world)
  have "tcp_fsm_connect e sip sport dip dport pid w =
      map_option (\<lambda>w. (Some i, upd_metrics (\<lambda>m. m\<lparr>m_tcp_syn_sent := m_tcp_syn_sent m + 1\<rparr>) w))
        (tcp_send_segment e i SYN_FLAG [] 0 (snd_nxt (tcb_at x i)) 0 x \<bind>
         (\<lambda>(_, w). Some (arm_rto e i (upd_tcb i (\<lambda>t. t\<lparr>snd_nxt := snd_nxt t + 1\<rparr>) w))))"
    using assms(2) unfolding tcp_fsm_connect_def
    by (simp add: assms(3) isq Let_def f_def x_def split_def map_option_bind comp_def)
  moreover note o = open_block [OF i1(2) c a(3,4) u]
  have "opened e TCP_SYN_SENT ?key w i w' \<and> active_open (tcb_at w' i) \<and> app_state (tcb_at w' i) = 0"
    if "opened e (state (tcb_at x i)) ?key w i w' \<and> tcb_app (tcb_at w' i) = tcb_app (tcb_at x i)" for w'
    using that tcb_appD(16,32) [of "tcb_at w' i" "tcb_at x i"] b(3,8,9) by (simp add: at)
  ultimately show ?thesis using yields_mono [OF o] by simp
qed

text \<open>
  C12. An active open with a given local port and a free block takes that block into \<open>SYN_SENT\<close> with the addresses it
  was asked for, has one sequence number in flight, keeps the worker's invariant and touches no other connection;
  when no block is free it reports failure and changes nothing.
\<close>

theorem connect_behaviour:
  assumes "sys_ok e w" "sport \<noteq> 0"
  shows "\<exists>r w'. tcp_fsm_connect e sip sport dip dport pid w = Some (r, w') \<and> sys_ok e w' \<and>
    (case r of None \<Rightarrow> free_top w = 0 \<and> w' = w
     | Some i \<Rightarrow> \<not> in_use (tcb_at w i) \<and> in_use (tcb_at w' i) \<and> state (tcb_at w' i) = TCP_SYN_SENT \<and>
         key_of (tcb_at w' i) = (sip, sport, dip, dport) \<and> snd_nxt (tcb_at w' i) = snd_una (tcb_at w' i) + 1 \<and> conn_step i w w')"
proof (cases "tcb_alloc (sip, sport, dip, dport) w")
  case (Pair r w1)
  show ?thesis
  proof (cases r)
    case None
    with Pair alloc_none [of _ w w1] have "w1 = w" "free_top w = 0" by simp_all
    with None Pair assms show ?thesis by (simp add: tcp_fsm_connect_def)
  next
    case (Some i)
    from connect_ok [OF assms Pair [unfolded Some], of pid] obtain w'
      where "tcp_fsm_connect e sip sport dip dport pid w = Some (Some i, w')" "opened e TCP_SYN_SENT (sip, sport, dip, dport) w i w'"
      by (auto simp: yields_def)
    then show ?thesis using moved_sys [OF assms(1)] by (auto simp: opened_def moved_def intro!: exI [of _ "Some i"])
  qed
qed

text \<open>
  C40. When the caller leaves the choice of the local port to the worker and no block is free, the open fails but
  the port that was allocated for it stays allocated: it is no longer among the ports available to that source address.
\<close>

theorem failed_connect_leaks_port:
  assumes "pool_ok (ports w)" "tcp_port_alloc sip (ports w) = (Some p, wp)" "free_top w = 0"
  shows "\<exists>w'. tcp_fsm_connect e sip 0 dip dport pid w = Some (None, w') \<and>
    unat p - TGEN_EPHEM_LO \<in> ports_for sip (ports w) \<and>
    ports_for sip (ports w') = ports_for sip (ports w) - {unat p - TGEN_EPHEM_LO}"
  using port_alloc_spec [OF assms(1,2)] assms(2,3) by (simp add: tcp_fsm_connect_def tcb_alloc_eq Let_def)

subsection \<open>Handshake\<close>

lemma handshake_done_stays:
  assumes "good e i w" "state (tcb_at w i) = TCP_ESTABLISHED" "app_ctx (tcb_at w i) \<noteq> 0"
  shows "yields (do { w \<leftarrow> syn_rtt e i opts (tcp_timer_resched i w); w \<leftarrow> send_ack e i (add_conn_open w);
       if app_state (tcb_at w i) = 0 \<and> app_ctx (tcb_at w i) = 0 then map_option (Pair True) (close_or_reset e i w)
       else map_option (Pair False) (established_app e i w) }) (\<lambda>r. \<not> fst r \<and> stays e i w (snd r))"
proof -
  have u: "in_use (tcb_at w i)" by (rule good_in_use [OF assms(1)]) (simp add: assms(2))
  note s1 = resched_stays [OF assms(1) u] note g1 = stays_good [OF assms(1) s1]
  have up: "yields (if app_state (tcb_at y i) = 0 \<and> app_ctx (tcb_at y i) = 0 then map_option (Pair True) (close_or_reset e i y)
       else map_option (Pair False) (established_app e i y)) (\<lambda>r. \<not> fst r \<and> stays e i w (snd r))" if y: "stays e i w y" for y
  proof -
    have "in_use (tcb_at y i)" "state (tcb_at y i) = TCP_ESTABLISHED" "app_ctx (tcb_at y i) \<noteq> 0"
      using y u assms(2,3) by (simp_all add: stays_def)
    then show ?thesis using yields_mono [OF established_app_stays [OF stays_good [OF assms(1) y]] stays_trans [OF y]] by simp
  qed
  show ?thesis
  proof (rule yields_bindI [OF syn_rtt_stays [OF g1]], rule yields_bindI)
    fix x assume "stays e i (tcp_timer_resched i w) x"
    from stays_trans [OF s1 this] have x: "stays e i w x" .
    have gx: "good e i (add_conn_open x)" using stays_good [OF assms(1) x] by (simp add: add_conn_open_def)
    show "yields (send_ack e i (add_conn_open x)) (stays e i w)"
      by (rule yields_mono [OF send_ack_stays [OF gx]]) (rule stays_trans [OF x], simp add: add_conn_open_def)
  qed (rule up)
qed

text \<open>
  C7. The SYN-ACK that answers the worker's SYN establishes the connection: when it acknowledges exactly the
  SYN, and the connection has a purpose (a request to send, or a stream), the connection is in \<open>ESTABLISHED\<close> after this
  one segment.
\<close>

theorem syn_ack_establishes:
  assumes "sys_ok e w" "input_lookup m (seg_hdr m) w = Some i" "20 \<le> length (mb_data m)" "\<not> mb_l4_bad m"
    "state (tcb_at w i) = TCP_SYN_SENT" "app_ctx (tcb_at w i) \<noteq> 0" "peer_ok (seg_hdr m) (seg_opts m)"
    "has_flag (th_flags (seg_hdr m)) SYN_FLAG" "has_flag (th_flags (seg_hdr m)) ACK_FLAG" "\<not> has_flag (th_flags (seg_hdr m)) RST_FLAG"
    "th_ack (seg_hdr m) = snd_nxt (tcb_at w i)"
  shows "\<exists>w'. tcp_fsm_input e m w = Some w' \<and> in_use (tcb_at w' i) \<and> state (tcb_at w' i) = TCP_ESTABLISHED"
proof -
  note l = lookup_live [OF sys_okD(2) [OF assms(1)] assms(2)] note g = sys_okD(4) [OF assms(1) l(1)]
  let ?h = "seg_hdr m" and ?o = "seg_opts m" let ?w1 = "upd_tcb i (syn_acked ?h ?o) w"
  note g1 = moved_good [OF g syn_acked_moved [OF g assms(5,7,8,9)]]
  have at: "tcb_at ?w1 i = syn_acked ?h ?o (tcb_at w i)" using goodD(6) [OF g] by simp
  have "state (tcb_at ?w1 i) = TCP_ESTABLISHED" "app_ctx (tcb_at ?w1 i) \<noteq> 0" "in_use (tcb_at ?w1 i)"
    unfolding at using assms(6) l(2) by (simp_all add: syn_acked_def)
  with handshake_done_stays [OF g1 this(1,2), of ?o] obtain r where
    r: "input_state e i m ?h ?o w = Some (False, r)" "in_use (tcb_at r i)" "state (tcb_at r i) = TCP_ESTABLISHED"
    using assms(5,8,9,11) by (auto simp: yields_def input_state_def input_syn_sent_def Let_def stays_def)
  then show ?thesis using assms(2-4,10) by (simp add: input_eq input_rst_def Let_def)
qed

subsection \<open>Witnesses\<close>

text \<open>A segment from 10.0.0.2:1234 to 10.0.0.1:80 with sequence number 6000 and acknowledgement 1000.\<close>

definition demo_seg :: "u8 \<Rightarrow> u16 \<Rightarrow> mbuf" where
  "demo_seg flags dport = \<lparr>mb_data = [4, 210, ucast (drop_bit 8 dport), ucast dport, 0, 0, 0x17, 0x70, 0, 0, 3, 0xE8, 0x50, flags, 0xFF, 0xFF, 0, 0, 0, 0],
     mb_tail = [], mb_hash_usr = 0x0a000002, mb_dynfield0 = 0x0a000001, mb_port = 0, mb_l4_bad = False\<rparr>"

lemma demo_seg_hdr:
  "th_flags (seg_hdr (demo_seg f 80)) = f" "th_src_port (seg_hdr (demo_seg f 80)) = 1234" "th_dst_port (seg_hdr (demo_seg f 80)) = 80"
  "th_seq (seg_hdr (demo_seg f 80)) = 6000" "th_ack (seg_hdr (demo_seg f 80)) = 1000" "th_win (seg_hdr (demo_seg f 80)) = 65535"
  "th_data_off (seg_hdr (demo_seg f 80)) = 0x50" "th_dst_port (seg_hdr (demo_seg f 81)) = 81"
  "th_flags (seg_hdr (demo_seg f 81)) = f" "th_src_port (seg_hdr (demo_seg f 81)) = 1234"
  by (simp_all add: seg_hdr_def parse_tcp_hdr_def demo_seg_def be16_def be32_at_def be32_def)

lemma demo_seg_opts: "seg_opts (demo_seg f 80) = po_zero" "seg_opts (demo_seg f 81) = po_zero"
  by (simp_all add: seg_opts_def demo_seg_hdr seg_hdr_def parse_tcp_hdr_def demo_seg_def tcp_options_parse_def)

lemma demo_peer_ok: "peer_ok (seg_hdr (demo_seg f 80)) (seg_opts (demo_seg f 80))"
  by (simp add: peer_ok_def demo_seg_hdr demo_seg_opts po_zero_def)

lemma demo_seg_simps: "20 \<le> length (mb_data (demo_seg f p))" "\<not> mb_l4_bad (demo_seg f p)" "\<not> is_input_v6 (demo_seg f p)"
  "\<not> has_payload (demo_seg f 80) (seg_hdr (demo_seg f 80))"
  by (simp_all add: demo_seg_def is_input_v6_def has_payload_def data_len16_def hdr_len16_def seg_hdr_def parse_tcp_hdr_def)

lemma demo_srv_ok: "srv_ok demo_srv"
  by (simp add: srv_ok_def demo_srv_def)

lemma demo_sys: "sys_ok demo_env demo_worker" "sys_ok demo_env (demo_live s)"
proof -
  have z: "ctx_ok demo_env tcb_zero" "ctx_ok demo_env (demo_set s (fresh_tcb demo_key))"
    by (simp_all add: ctx_ok_def demo_set_def) (simp_all add: tcb_zero_def)
  show "sys_ok demo_env demo_worker" using demo_blocks z(1) by (simp add: sys_ok_def demo_env_ok demo_worker_ok demo_srv_ok)
  show "sys_ok demo_env (demo_live s)"
    using z by (auto simp: sys_ok_def demo_env_ok demo_live(1,2,3,5) demo_srv_ok less_Suc_eq numeral_2_eq_2 demo_live(4) [simplified])
qed

lemma demo_input_lookup:
  "input_lookup (demo_seg f 80) (seg_hdr (demo_seg f 80)) (demo_live s) = Some 0"
  "input_lookup (demo_seg f 80) (seg_hdr (demo_seg f 80)) demo_worker = None"
  "input_lookup (demo_seg f 81) (seg_hdr (demo_seg f 81)) demo_worker = None"
proof -
  have n: "tcb_lookup k demo_worker = None" for k
    using lookup_sound [OF worker_okD(8) [OF demo_worker_ok], of k] demo_blocks
    by (cases "tcb_lookup k demo_worker") (fastforce simp: tcb_zero_def)+
  show "input_lookup (demo_seg f 80) (seg_hdr (demo_seg f 80)) (demo_live s) = Some 0"
    using demo_lookup [of s] demo_seg_simps(3) by (simp add: input_lookup_def demo_seg_hdr Let_def demo_key_def) (simp add: demo_seg_def)
  show "input_lookup (demo_seg f 80) (seg_hdr (demo_seg f 80)) demo_worker = None"
    "input_lookup (demo_seg f 81) (seg_hdr (demo_seg f 81)) demo_worker = None" by (simp_all add: input_lookup_def n Let_def)
qed

theorem segments_keep_worker_witness:
  "\<exists>w'. inputs demo_env [demo_seg SYN_FLAG 80, demo_seg ACK_FLAG 80] demo_worker = Some w' \<and> sys_ok demo_env w'"
  by (rule segments_keep_worker [OF demo_sys(1)]) (simp add: demo_peer_ok)

theorem segment_follows_state_machine_witness:
  "\<exists>w'. tcp_fsm_input demo_env (demo_seg FIN_FLAG 80) (demo_live TCP_FIN_WAIT_2) = Some w' \<and>
    state (tcb_at w' 0) \<in> {TCP_FIN_WAIT_2, TCP_CLOSED}"
  using segment_follows_state_machine [OF demo_sys(2) demo_input_lookup(1) demo_peer_ok, of FIN_FLAG TCP_FIN_WAIT_2]
  by (auto simp: demo_live(3) demo_set_def)

theorem syn_opens_connection_witness:
  "\<exists>i w'. tcp_fsm_input demo_env (demo_seg SYN_FLAG 80) demo_worker = Some w' \<and> state (tcb_at w' i) = TCP_SYN_RECEIVED \<and>
    rcv_nxt (tcb_at w' i) = 6001"
  using syn_opens_connection [OF demo_sys(1) demo_seg_simps(1-3) demo_input_lookup(2), of SYN_FLAG] demo_peer_ok
  by (auto simp: demo_seg_hdr has_flag_def tcp_flag_defs demo_srv_def demo_listener_def srv_lookup_port_def)

theorem rst_only_in_window_witness:
  "(\<exists>w'. tcp_fsm_input demo_env (demo_seg RST_FLAG 80) (demo_live TCP_ESTABLISHED) = Some w' \<and>
    torn_down 0 (demo_live TCP_ESTABLISHED) w') \<and>
   (\<exists>w'. tcp_fsm_input demo_env (demo_seg (RST_FLAG OR ACK_FLAG) 80) (demo_live TCP_LAST_ACK) = Some w' \<and>
    torn_down 0 (demo_live TCP_LAST_ACK) w')"
  using rst_only_in_window [OF demo_sys(2) demo_input_lookup(1) demo_seg_simps(1,2), of RST_FLAG TCP_ESTABLISHED] demo_seg_simps(4)
    rst_only_in_window [OF demo_sys(2) demo_input_lookup(1) demo_seg_simps(1,2), of "RST_FLAG OR ACK_FLAG" TCP_LAST_ACK]
  by (simp add: plain_rst_def demo_seg_hdr demo_live(3) demo_set_def SEQ_GE_def SEQ_LT_def last_acked_def has_flag_def tcp_flag_defs)

theorem stray_segment_dropped_witness: "tcp_fsm_input demo_env (demo_seg SYN_FLAG 81) demo_worker = Some demo_worker"
  by (rule stray_segment_dropped [OF demo_seg_simps(1,2) demo_input_lookup(3)])
    (simp add: demo_seg_hdr demo_srv_def demo_listener_def srv_lookup_port_def)

theorem connect_behaviour_witness:
  "\<exists>r w'. tcp_fsm_connect demo_env 0x0a000001 5555 0x0a000002 80 0 demo_worker = Some (r, w') \<and> sys_ok demo_env w' \<and> r \<noteq> None"
  using connect_behaviour [OF demo_sys(1), of 5555 "0x0a000001" "0x0a000002" 80 0] by (auto split: option.splits)

theorem failed_connect_leaks_port_witness:
  "\<exists>p w'. tcp_fsm_connect demo_env 0 0 0x0a000002 80 0 (demo_worker\<lparr>free_top := 0\<rparr>) = Some (None, w') \<and>
    p \<in> ports_for 0 (ports demo_worker) \<and> ports_for 0 (ports w') = ports_for 0 (ports demo_worker) - {p}"
proof -
  let ?w = "demo_worker\<lparr>free_top := 0\<rparr>"
  have ok: "pool_ok (ports ?w)" by (simp add: worker_pool_init_ok)
  obtain r wp where a: "tcp_port_alloc 0 (ports ?w) = (r, wp)" by force
  have "0 \<in> ports_for 0 (ports ?w)"
    using full_map_free [of 0] by (simp add: ports_for_def ip_pool_get_def pool_at_def worker_pool_init_def TGEN_EPHEM_CNT_def port_consts)
  with port_alloc_spec [OF ok a] obtain p where "r = Some p" by (cases r) auto
  from failed_connect_leaks_port [OF ok a [unfolded this], of demo_env "0x0a000002" 80 0] show ?thesis by auto
qed

definition demo_client :: worker where
  "demo_client = upd_tcb 0 (\<lambda>t. t\<lparr>app_ctx := 1\<rparr>) (demo_live TCP_SYN_SENT)"

lemma demo_client_ok: "sys_ok demo_env demo_client"
  "input_lookup (demo_seg f 80) (seg_hdr (demo_seg f 80)) demo_client = Some 0"
  "tcb_at demo_client 0 = (demo_set TCP_SYN_SENT (fresh_tcb demo_key))\<lparr>app_ctx := 1\<rparr>"
proof -
  let ?f = "\<lambda>t. t\<lparr>app_ctx := 1\<rparr>"
  note g = sys_okD(4) [OF demo_sys(2), of 0 TCP_SYN_SENT, unfolded demo_live(2), simplified]
  show at: "tcb_at demo_client 0 = (demo_set TCP_SYN_SENT (fresh_tcb demo_key))\<lparr>app_ctx := 1\<rparr>"
    using goodD(6) [OF g] by (simp add: demo_client_def demo_live(3))
  have "moved demo_env 0 {state (?f (tcb_at (demo_live TCP_SYN_SENT) 0))} (demo_live TCP_SYN_SENT) demo_client" unfolding demo_client_def
    by (rule moved_upd(1) [OF g]) (use goodD(7) [OF g] in \<open>auto simp: link_neutral_def key_of_def tcb_ok_def ctx_ok_def demo_live(3) demo_set_def\<close>)
  from moved_sys [OF demo_sys(2) this] show "sys_ok demo_env demo_client" by (simp add: demo_live(2))
  have "tcb_lookup k demo_client = tcb_lookup k (demo_live TCP_SYN_SENT)" for k
  proof -
    have u: "tcb_matches k (tcbs demo_client ! j) = tcb_matches k (tcbs (demo_live TCP_SYN_SENT) ! j)" for j
      using goodD(6) [OF g] by (cases "j = 0") (simp_all add: demo_client_def upd_tcb_def tcb_matches_def split: prod.splits)
    have "ht_find (tcbs demo_client) h k ps = ht_find (tcbs (demo_live TCP_SYN_SENT)) h k ps" for h ps
      by (induction ps) (simp_all add: u Let_def)
    then show ?thesis by (simp add: tcb_lookup_def demo_client_def probes_def upd_tcb_def)
  qed
  then show "input_lookup (demo_seg f 80) (seg_hdr (demo_seg f 80)) demo_client = Some 0"
    using demo_input_lookup(1) [of f TCP_SYN_SENT] demo_seg_simps(3) by (simp add: input_lookup_def Let_def split: option.splits)
qed

theorem syn_ack_establishes_witness:
  "\<exists>w'. tcp_fsm_input demo_env (demo_seg (SYN_FLAG OR ACK_FLAG) 80) demo_client = Some w' \<and> state (tcb_at w' 0) = TCP_ESTABLISHED"
  using syn_ack_establishes [OF demo_client_ok(1,2) demo_seg_simps(1,2), of "SYN_FLAG OR ACK_FLAG"] demo_peer_ok
  by (auto simp: demo_client_ok(3) demo_set_def demo_seg_hdr has_flag_def tcp_flag_defs)

end
