(* ===== verification/TcpTimer.thy ===== *)
theory TcpTimer
  imports Receive
begin

text \<open>
  The firing half of \<^verbatim>\<open>net/tcp_timer.c\<close>: what the expiry of a connection's timers does, and the
  periodic tick that advances the wheel, refills it from the overflow chain and flushes delayed
  acknowledgements.  The loops follow links between blocks, so they are partial functions: \<open>None\<close> also
  stands for a loop that does not end.
\<close>

subsection \<open>The expiry of one connection\<close>

definition drop_session :: "nat \<Rightarrow> worker \<Rightarrow> worker" where
  "drop_session i w = upd_tcb i (\<lambda>t. t\<lparr>app_state := 0\<rparr>) (tls_session_detach i w)"

definition tls_hs_pending :: "tcb \<Rightarrow> bool" where
  "tls_hs_pending t \<longleftrightarrow> state t = TCP_ESTABLISHED \<and> (app_state t = 1 \<or> app_state t = 2)"

definition tls_hs_expired :: "u64 \<Rightarrow> u64 \<Rightarrow> tcb \<Rightarrow> bool" where
  "tls_hs_expired now hz t \<longleftrightarrow> tls_hs_pending t \<and> (now - timewait_deadline_tsc t) div hz \<ge> TCP_TLS_HS_TIMEOUT_S"

definition think_expired :: "u64 \<Rightarrow> tcb \<Rightarrow> bool" where
  "think_expired now t \<longleftrightarrow> state t = TCP_ESTABLISHED \<and> app_state t = 7 \<and> think_deadline_tsc t \<noteq> 0 \<and> now \<ge> think_deadline_tsc t"

definition http_rsp_expired :: "u64 \<Rightarrow> u64 \<Rightarrow> tcb \<Rightarrow> bool" where
  "http_rsp_expired now hz t \<longleftrightarrow> state t = TCP_ESTABLISHED \<and> app_state t = 5 \<and> http_req_sent_tsc t \<noteq> 0 \<and>
     now - http_req_sent_tsc t \<ge> TCP_HTTP_RSP_TIMEOUT_US * (hz div 1000000)"

definition idle_expired :: "u64 \<Rightarrow> tcb \<Rightarrow> bool" where
  "idle_expired now t \<longleftrightarrow> timewait_deadline_tsc t \<noteq> 0 \<and> now \<ge> timewait_deadline_tsc t"

definition rto_due :: "u64 \<Rightarrow> tcb \<Rightarrow> bool" where
  "rto_due now t \<longleftrightarrow> rto_deadline_tsc t \<noteq> 0 \<and> now \<ge> rto_deadline_tsc t"

text \<open>The later checks of an open connection; each is skipped once the connection has been released.\<close>

definition fire_http_timeout :: "env \<Rightarrow> nat \<Rightarrow> u64 \<Rightarrow> worker \<Rightarrow> worker option" where
  "fire_http_timeout e i now w =
     (if in_use (tcb_at w i) \<and> http_rsp_expired now (tsc_hz w) (tcb_at w i)
      then tcp_fsm_reset e i (drop_session i w) else Some w)"

definition fire_stream :: "env \<Rightarrow> nat \<Rightarrow> worker \<Rightarrow> worker option" where
  "fire_stream e i w =
     (if in_use (tcb_at w i) \<and> state (tcb_at w i) = TCP_ESTABLISHED \<and> app_state (tcb_at w i) = 12
      then srv_stream_pump e i w else Some w)"

definition fire_think :: "env \<Rightarrow> nat \<Rightarrow> u64 \<Rightarrow> worker \<Rightarrow> worker option" where
  "fire_think e i now w =
     (if think_expired now (tcb_at w i)
      then tcp_fsm_http_send_next e i (upd_tcb i (\<lambda>t. t\<lparr>think_deadline_tsc := 0\<rparr>) w) else Some w)"

definition fire_open :: "env \<Rightarrow> nat \<Rightarrow> u64 \<Rightarrow> worker \<Rightarrow> worker option" where
  "fire_open e i now w =
     do { w \<leftarrow> (if rto_due now (tcb_at w i) then tcp_fsm_rto_expired e i w else Some w);
          if \<not> in_use (tcb_at w i) then Some w
          else if tls_hs_pending (tcb_at w i) \<and> tsc_hz w = 0 then None
          else if tls_hs_expired now (tsc_hz w) (tcb_at w i) then tcp_fsm_reset e i (drop_session i w)
          else do { w \<leftarrow> fire_think e i now w; w \<leftarrow> fire_stream e i w; fire_http_timeout e i now w } }"

definition timer_fire :: "env \<Rightarrow> nat \<Rightarrow> worker \<Rightarrow> worker option" where
  "timer_fire e i w =
     (if \<not> in_use (tcb_at w i) then Some w
      else
        let (now, w) = rdtsc w; t = tcb_at w i
        in if state t = TCP_TIME_WAIT then
             Some (if idle_expired now t then tcb_free i (port_free_timewait i (tls_detach_if_needed i w)) else w)
           else if state t = TCP_FIN_WAIT_2 then
             Some (if idle_expired now t
                   then tcb_free i (port_free_timewait i (add_conn_close (tls_detach_if_needed i w))) else w)
           else if state t \<in> {TCP_SYN_SENT, TCP_SYN_RECEIVED, TCP_ESTABLISHED, TCP_FIN_WAIT_1, TCP_CLOSING, TCP_LAST_ACK}
           then fire_open e i now w
           else Some w)"

subsection \<open>The tick\<close>

definition unlink :: "nat \<Rightarrow> worker \<Rightarrow> worker" where
  "unlink i = upd_tcb i (\<lambda>t. t\<lparr>tw_slot := TIMER_SLOT_NONE, tw_next := UINT32_MAX, tw_prev := UINT32_MAX\<rparr>)"

definition resched_live :: "nat \<Rightarrow> worker \<Rightarrow> worker" where
  "resched_live i w = (if in_use (tcb_at w i) then tcp_timer_resched i w else w)"

partial_function (option) fire_chain :: "env \<Rightarrow> nat \<Rightarrow> worker \<Rightarrow> worker option" where
  "fire_chain e idx w =
     (if idx = UINT32_MAX then Some w
      else if idx \<ge> capacity w then None
      else Option.bind (timer_fire e idx (unlink idx w))
             (\<lambda>w'. fire_chain e (tw_next (tcb_at w idx)) (resched_live idx w')))"

partial_function (option) drain_overflow :: "nat \<Rightarrow> worker \<Rightarrow> worker option" where
  "drain_overflow idx w =
     (if idx = UINT32_MAX then Some w
      else if idx \<ge> capacity w then None
      else drain_overflow (tw_next (tcb_at w idx)) (resched_live idx (unlink idx w)))"

text \<open>One slot after the other; the chain of a slot is detached before its blocks fire.\<close>

fun advance_slots :: "env \<Rightarrow> nat \<Rightarrow> worker \<Rightarrow> worker option" where
  "advance_slots e 0 w = Some w"
| "advance_slots e (Suc n) w =
     (let cur = (tw_current w + 1) AND TIMER_WHEEL_MASK; idx = tw_slots w ! cur
      in do { w \<leftarrow> fire_chain e idx (w\<lparr>tw_current := cur, tw_slots := (tw_slots w)[cur := UINT32_MAX]\<rparr>);
              advance_slots e n w })"

text \<open>
  The list of delayed acknowledgements.  \<open>tail\<close> is the block whose \<^verbatim>\<open>dack_next\<close> the pointer \<^verbatim>\<open>new_tail\<close>
  designates, \<open>None\<close> while it designates the head; the head is written back at once, as nothing reads it during the loop.
\<close>

definition dack_keep :: "nat \<Rightarrow> nat option \<Rightarrow> worker \<Rightarrow> worker" where
  "dack_keep idx tail w =
     upd_tcb idx (\<lambda>t. t\<lparr>in_dack_list := True\<rparr>)
       (case tail of None \<Rightarrow> w\<lparr>tw_dack_head := idx\<rparr> | Some j \<Rightarrow> upd_tcb j (\<lambda>t. t\<lparr>dack_next := idx\<rparr>) w)"

definition dack_visit :: "env \<Rightarrow> u64 \<Rightarrow> nat \<Rightarrow> nat option \<Rightarrow> worker \<Rightarrow> (nat option \<times> worker) option" where
  "dack_visit e now idx tail w =
     (let w = upd_tcb idx (\<lambda>t. t\<lparr>in_dack_list := False, dack_next := UINT32_MAX\<rparr>) w; t = tcb_at w idx
      in if in_use t \<and> pending_ack t then
           if now \<ge> delayed_ack_tsc t
           then do { w \<leftarrow> send_ack e idx w; Some (tail, upd_tcb idx (\<lambda>t. t\<lparr>pending_ack := False\<rparr>) w) }
           else Some (Some idx, dack_keep idx tail w)
         else Some (tail, w))"

partial_function (option) flush_dacks :: "env \<Rightarrow> u64 \<Rightarrow> nat \<Rightarrow> nat option \<Rightarrow> worker \<Rightarrow> worker option" where
  "flush_dacks e now idx tail w =
     (if idx = UINT32_MAX then Some w
      else if idx \<ge> capacity w then None
      else Option.bind (dack_visit e now idx tail w)
             (\<lambda>r. flush_dacks e now (dack_next (tcb_at w idx)) (fst r) (snd r)))"

definition tcp_timer_tick :: "env \<Rightarrow> worker \<Rightarrow> worker option" where
  "tcp_timer_tick e w =
     (let (now, w) = rdtsc w
      in if tw_tsc_per_slot w = 0 then None
         else
           let advance = ucast ((now - tw_last_tick_tsc w) div tw_tsc_per_slot w) :: u32
           in if advance = 0 then Some w
              else
                let advance = min advance (word_of_nat TIMER_WHEEL_SLOTS);
                    w = w\<lparr>tw_last_tick_tsc := tw_last_tick_tsc w + ucast advance * tw_tsc_per_slot w\<rparr>
                in do { w \<leftarrow> advance_slots e (unat advance) w;
                        w \<leftarrow> (if tw_current w < unat advance
                              then drain_overflow (tw_overflow w) (w\<lparr>tw_overflow := UINT32_MAX\<rparr>) else Some w);
                        flush_dacks e now (tw_dack_head w) None (w\<lparr>tw_dack_head := UINT32_MAX\<rparr>) })"

subsection \<open>What an expiry does to its connection\<close>

text \<open>A timer leaves its connection in its state, or releases it.\<close>

definition timed :: "env \<Rightarrow> nat \<Rightarrow> worker \<Rightarrow> worker \<Rightarrow> bool" where
  "timed e i w w' \<longleftrightarrow> moved e i {state (tcb_at w i), TCP_CLOSED} w w'"

lemma timed_good: "good e i w \<Longrightarrow> timed e i w w' \<Longrightarrow> good e i w'"
  by (simp add: timed_def moved_good)

lemma timed_refl: "good e i w \<Longrightarrow> timed e i w w"
  by (simp add: timed_def stays_within [OF stays_refl])

lemma timed_trans:
  assumes "timed e i a b" "timed e i b c"
  shows "timed e i a c"
proof -
  have "state (tcb_at b i) = state (tcb_at a i) \<or> state (tcb_at b i) = TCP_CLOSED" using assms(1) by (simp add: timed_def moved_def)
  then show ?thesis using moved_mono [OF moved_trans, of e i _ a b _ c "{state (tcb_at a i), TCP_CLOSED}"] assms
    by (auto simp: timed_def)
qed

lemma stays_timed: "stays e i w w' \<Longrightarrow> timed e i w w'"
  by (simp add: timed_def stays_within)

lemma timed_bind:
  assumes "good e i w" "yields m (timed e i w)" "\<And>x. good e i x \<Longrightarrow> timed e i w x \<Longrightarrow> yields (f x) (timed e i x)"
  shows "yields (m \<bind> f) (timed e i w)"
proof (rule yields_bindI [OF assms(2)])
  fix x assume x: "timed e i w x"
  show "yields (f x) (timed e i w)" by (rule yields_mono [OF assms(3) [OF timed_good [OF assms(1) x] x]]) (rule timed_trans [OF x])
qed

lemma rto_timed:
  assumes "good e i w" "in_use (tcb_at w i)"
  shows "yields (tcp_fsm_rto_expired e i w) (timed e i w)"
proof -
  note g = goodD [OF assms(1)]
  from rto_expired_ok [OF g(2,1,3) assms(2)] obtain w' where w': "tcp_fsm_rto_expired e i w = Some w'" "worker_ok w'" "conn_step i w w'"
    "srv w' = srv w" and c: "tcb_at w' i = tcb_zero \<or> app_state (tcb_at w' i) = app_state (tcb_at w i) \<and>
      app_ctx (tcb_at w' i) = app_ctx (tcb_at w i) \<and> state (tcb_at w' i) = state (tcb_at w i)"
    by (elim exE conjE) (rule that, assumption+, simp split: if_splits)
  have "ctx_ok e (tcb_at w' i)" "state (tcb_at w' i) \<in> {state (tcb_at w i), TCP_CLOSED}"
    using c
  proof (atomize (full), elim disjE)
    assume z: "tcb_at w' i = tcb_zero"
    show "ctx_ok e (tcb_at w' i) \<and> state (tcb_at w' i) \<in> {state (tcb_at w i), TCP_CLOSED}"
      unfolding z using ctx_ok_zero by (simp add: tcb_zero_def)
  qed (use g(4) in \<open>simp add: ctx_ok_def\<close>)
  then show ?thesis using w' g(5) by (simp add: timed_def moved_def)
qed

lemma reset_timed:
  assumes "good e i w" "in_use (tcb_at w i)"
  shows "yields (tcp_fsm_reset e i w) (timed e i w)"
proof -
  from tcp_fsm_reset_ok [OF goodD(2,1,3) [OF assms(1)] assms(2)] obtain w' where w': "tcp_fsm_reset e i w = Some w'" "torn_down i w w'"
    by (auto simp: yields_def)
  with torn_down_evolves [OF assms(1) w'(2)] show ?thesis
    by (simp add: timed_def moved_def evolves_def torn_down_def tcb_zero_def)
qed

lemma drop_session_timed:
  assumes "good e i w" "in_use (tcb_at w i)"
  shows "stays e i w (drop_session i w)" "in_use (tcb_at (drop_session i w) i)"
proof -
  have d: "tls_session_detach i w = w \<or> tls_session_detach i w = w\<lparr>sessions := (sessions w)(i := None)\<rparr>"
    by (simp add: tls_session_detach_def)
  then have s: "stays e i w (tls_session_detach i w)" using stays_refl [OF assms(1)]
    by (auto simp: stays_def conn_step_def)
  note g = stays_good [OF assms(1) s] and u = stays_in_use [OF s]
  show "stays e i w (drop_session i w)" unfolding drop_session_def
    by (rule stays_trans [OF s stays_set_app [OF g app_fields(1)]]) (use u assms(2) in simp_all)
  from stays_in_use [OF this] assms(2) show "in_use (tcb_at (drop_session i w) i)" by simp
qed

lemma abort_timed:
  assumes "good e i w" "in_use (tcb_at w i)"
  shows "yields (tcp_fsm_reset e i (drop_session i w)) (timed e i w)"
proof -
  note d = drop_session_timed [OF assms]
  show ?thesis by (rule yields_mono [OF reset_timed [OF stays_good [OF assms(1) d(1)] d(2)]]) (rule timed_trans [OF stays_timed [OF d(1)]])
qed

lemma fire_steps_timed:
  assumes "good e i w"
  shows "yields (fire_http_timeout e i now w) (timed e i w)" "yields (fire_stream e i w) (timed e i w)"
    "yields (fire_think e i now w) (timed e i w)"
proof -
  show "yields (fire_http_timeout e i now w) (timed e i w)" "yields (fire_stream e i w) (timed e i w)"
    using abort_timed [OF assms] timed_refl [OF assms] yields_mono [OF pump_stays [OF assms] stays_timed]
    by (simp_all add: fire_http_timeout_def fire_stream_def)
  show "yields (fire_think e i now w) (timed e i w)"
  proof (cases "think_expired now (tcb_at w i)")
    case True
    let ?w = "upd_tcb i (\<lambda>t. t\<lparr>think_deadline_tsc := 0\<rparr>) w"
    have io: "io_field (\<lambda>t. t\<lparr>think_deadline_tsc := 0\<rparr>)" by (simp add: io_field_def upd_simps)
    note s = stays_io [OF assms io]
    have u: "in_use (tcb_at w i)" by (rule good_in_use [OF assms]) (use True in \<open>simp add: think_expired_def\<close>)
    have c: "app_ctx (tcb_at w i) \<noteq> 1" using goodD(4) [OF assms] True by (simp add: ctx_ok_def think_expired_def)
    have "in_use (tcb_at ?w i)" "app_ctx (tcb_at ?w i) \<noteq> 1" using s u c by (simp_all add: stays_def)
    from send_next_stays [OF stays_good [OF assms s] this] have "yields (tcp_fsm_http_send_next e i ?w) (stays e i w)"
      unfolding tcp_fsm_http_send_next_def by (rule yields_mono) (rule stays_trans [OF s])
    then show ?thesis using True yields_mono [OF _ stays_timed] by (simp add: fire_think_def)
  qed (simp add: fire_think_def timed_refl [OF assms])
qed

lemma fire_open_timed:
  assumes "good e i w" "in_use (tcb_at w i)"
  shows "yields (fire_open e i now w) (timed e i w)"
proof -
  have r: "yields (if rto_due now (tcb_at w i) then tcp_fsm_rto_expired e i w else Some w) (timed e i w)"
    using rto_timed [OF assms] timed_refl [OF assms(1)] by simp
  show ?thesis unfolding fire_open_def
  proof (rule timed_bind [OF assms(1) r])
    fix x assume g: "good e i x"
    have "tsc_hz x \<noteq> 0" by (rule worker_okD(4) [OF goodD(2) [OF g]])
    moreover have "yields (do { w \<leftarrow> fire_think e i now x; w \<leftarrow> fire_stream e i w; fire_http_timeout e i now w }) (timed e i x)"
      by (rule timed_bind [OF g fire_steps_timed(3) [OF g]], rule timed_bind [OF _ fire_steps_timed(2)]) (simp_all add: fire_steps_timed(1))
    ultimately show "yields (if \<not> in_use (tcb_at x i) then Some x else if tls_hs_pending (tcb_at x i) \<and> tsc_hz x = 0 then None
        else if tls_hs_expired now (tsc_hz x) (tcb_at x i) then tcp_fsm_reset e i (drop_session i x)
        else do { w \<leftarrow> fire_think e i now x; w \<leftarrow> fire_stream e i w; fire_http_timeout e i now w }) (timed e i x)"
      using timed_refl [OF g] abort_timed [OF g] by simp
  qed
qed

lemma detach_counts: "add_conn_close (tls_detach_if_needed i w) = tls_detach_if_needed i (add_conn_close w)"
  by (simp add: add_conn_close_def upd_metrics_def tls_detach_if_needed_def tls_session_detach_def upd_tcb_def tcb_at_def)

lemma timer_fire_timed:
  assumes "good e i w" "in_use (tcb_at w i)"
  shows "yields (timer_fire e i w) (timed e i w)"
proof -
  let ?v = "snd (rdtsc w)"
  have s: "stays e i w ?v" using stays_refl [OF assms(1)] by simp
  note g = stays_good [OF assms(1) s]
  have u: "in_use (tcb_at ?v i)" using stays_in_use [OF s] assms(2) by simp
  have st: "state (tcb_at ?v i) = state (tcb_at w i)" by simp
  have ft: "timed e i ?v (tcb_free i (port_free_timewait i (tls_detach_if_needed i ?v)))"
    using moved_mono [OF free_moved(2) [OF g u]] by (simp add: timed_def)
  have fc: "timed e i ?v (tcb_free i (port_free_timewait i (add_conn_close (tls_detach_if_needed i ?v))))"
    unfolding detach_counts using free_moved(2) [of e i "add_conn_close ?v"] g u moved_mono [of e i "{TCP_CLOSED}" "?v" _ "{state (tcb_at ?v i), TCP_CLOSED}"]
    by (simp add: timed_def add_conn_close_def)
  note t = timed_trans [OF stays_timed [OF s]]
  show ?thesis using assms(2) t [OF ft] t [OF fc] t [OF timed_refl [OF g]] yields_mono [OF fire_open_timed [OF g u] t]
    by (simp add: timer_fire_def case_prod_beta Let_def)
qed

text \<open>
  C11. The expiry of a connection's timer returns, keeps the worker's invariant, touches no other connection, and leaves
  the connection in its state or releases it.  A connection that waits for the peer's FIN is released exactly when its
  idle deadline has passed; one whose peer has closed (\<open>CLOSE_WAIT\<close>) is never timed out.
\<close>

theorem timer_fire_behaviour:
  assumes "sys_ok e w" "i < capacity w" "in_use (tcb_at w i)"
  shows "\<exists>w'. timer_fire e i w = Some w' \<and> sys_ok e w' \<and> conn_step i w w' \<and>
    (state (tcb_at w' i) = state (tcb_at w i) \<or> state (tcb_at w' i) = TCP_CLOSED) \<and>
    (state (tcb_at w i) = TCP_FIN_WAIT_2 \<longrightarrow>
       (if idle_expired (fst (rdtsc w)) (tcb_at w i) then tcb_at w' i = tcb_zero else w' = snd (rdtsc w))) \<and>
    (state (tcb_at w i) = TCP_CLOSE_WAIT \<longrightarrow> w' = snd (rdtsc w))"
proof -
  note g = sys_okD(4) [OF assms(1,2)]
  from timer_fire_timed [OF g assms(3)] obtain w' where w': "timer_fire e i w = Some w'" "timed e i w w'"
    by (auto simp: yields_def)
  let ?v = "snd (rdtsc w)"
  have gv: "good e i (add_conn_close ?v)" "in_use (tcb_at (add_conn_close ?v) i)"
    using good_rdtsc [OF g] assms(3) by (simp_all add: add_conn_close_def)
  have f: "tcb_at (tcb_free i (port_free_timewait i (add_conn_close (tls_detach_if_needed i ?v)))) i = tcb_zero"
    unfolding detach_counts using free_timewait_torn [OF gv] by (simp add: torn_down_def)
  have "sys_ok e w'" by (rule moved_sys [OF assms(1) w'(2) [unfolded timed_def] assms(2)])
  with w' f assms(3) show ?thesis by (auto simp: timed_def moved_def timer_fire_def case_prod_beta Let_def)
qed

text \<open>A connection that waited a minute for the peer's FIN.\<close>

theorem timer_fire_behaviour_witness:
  "\<exists>w'. timer_fire demo_env 0 (upd_tcb 0 (\<lambda>t. t\<lparr>timewait_deadline_tsc := 60\<rparr>) (demo_live TCP_FIN_WAIT_2)\<lparr>tsc_reads := (\<lambda>_. 61)\<rparr>) = Some w' \<and>
    tcb_at w' 0 = tcb_zero"
proof -
  let ?f = "\<lambda>t. t\<lparr>timewait_deadline_tsc := 60\<rparr>"
  let ?u = "upd_tcb 0 ?f (demo_live TCP_FIN_WAIT_2)" let ?w = "?u\<lparr>tsc_reads := (\<lambda>_. 61)\<rparr>"
  note g = sys_okD(4) [OF demo_sys(2), of 0 TCP_FIN_WAIT_2, unfolded demo_live(2), simplified]
  have u: "sys_ok demo_env ?u"
    by (rule moved_sys [OF demo_sys(2) stays_moved [OF stays_io [OF g io_fields(12)]]]) (simp add: demo_live(2))
  have ok: "sys_ok demo_env ?w"
  proof -
    have "conn_ok ?w" using sys_okD(2) [OF u] by (subst conn_ok_cong [where st = ?u]) (simp_all add: worker_ok_def)
    then show ?thesis using u by (simp add: sys_ok_def worker_ok_def tcb_at_def)
  qed
  have at: "tcb_at ?w 0 = ?f (demo_set TCP_FIN_WAIT_2 (fresh_tcb demo_key))"
    using goodD(6) [OF g] demo_live(3) [of TCP_FIN_WAIT_2] by (simp add: tcb_at_def upd_tcb_def)
  have "in_use (tcb_at ?w 0)" "0 < capacity ?w" unfolding at by (simp_all add: demo_set_def demo_live(2))
  from timer_fire_behaviour [OF ok this(2,1)] show ?thesis unfolding at by (auto simp: demo_set_def rdtsc_def idle_expired_def)
qed

end
