(* ===== verification/TxGen.thy ===== *)
theory TxGen
  imports Receive
begin

text \<open>
  The traffic generator, \<^verbatim>\<open>core/tx_gen.c\<close>: a token bucket decides how much a burst may start, and the
  burst opens TCP connections, pumps data on throughput streams, or builds ICMP and UDP packets.

  The prebuilt HTTP request of the worker (\<^verbatim>\<open>g_http_req\<close>) is an argument and part of the result; \<open>e_http_req\<close> at the address
  \<open>addr\<close> is what the connections read.  A burst of packets also returns the packets the device took.
\<close>

subsection \<open>Configuration and state\<close>

definition TX_GEN_MAX_BURST :: nat where "TX_GEN_MAX_BURST = 32"
definition ICMP_HDR_LEN :: nat where "ICMP_HDR_LEN = 8"
definition TCP_MAX_INFLIGHT :: u32 where "TCP_MAX_INFLIGHT = 4096"

datatype tx_gen_proto = TX_GEN_PROTO_ICMP | TX_GEN_PROTO_UDP | TX_GEN_PROTO_TCP_SYN | TX_GEN_PROTO_HTTP
  | TX_GEN_PROTO_THROUGHPUT | TX_GEN_PROTO_MAX

record tx_gen_config =
  cfg_proto :: tx_gen_proto
  cfg_dst_ip :: u32
  cfg_src_ip :: u32
  cfg_dst_mac :: bytes
  cfg_src_mac :: bytes
  cfg_dst_port :: u16
  cfg_src_port :: u16
  cfg_pkt_size :: u16
  cfg_port_id :: u16
  cfg_rate_pps :: u64
  cfg_duration_s :: u32
  cfg_max_initiations :: u32
  cfg_enable_tls :: bool
  cfg_http_method :: u8
  cfg_throughput_streams :: u8
  cfg_ramp_s :: u32
  cfg_txn_per_conn :: u32
  cfg_think_time_us :: u32
  cfg_http_url :: bytes
  cfg_http_host :: bytes
  cfg_flow_idx :: u32
  cfg_dscp :: u8
  cfg_cc_algo :: u8
  cfg_vlan_id :: u16
  cfg_src_ip_count :: u32

record tx_gen_state =
  tg_active :: bool
  tg_cfg :: tx_gen_config
  tg_start_tsc :: u64
  tg_deadline_tsc :: u64
  tg_tokens :: u64
  tg_last_refill_tsc :: u64
  tg_pkts_sent :: u64
  tg_pkts_dropped :: u64
  tg_seq :: u16
  tg_ident :: u16
  tg_tx_queue_id :: u16
  tg_tp_tcbs :: "nat option list"
  tg_tp_n_streams :: nat
  tg_tp_phase :: u8
  tg_ip_pool_idx :: u32

definition tx_gen_configure :: "tx_gen_config \<Rightarrow> u16 \<Rightarrow> worker \<Rightarrow> tx_gen_state \<times> worker" where
  "tx_gen_configure cfg q w =
     (let (now, w) = rdtsc w
      in (\<lparr>tg_active = False, tg_cfg = cfg, tg_start_tsc = 0, tg_deadline_tsc = 0, tg_tokens = 0, tg_last_refill_tsc = 0,
           tg_pkts_sent = 0, tg_pkts_dropped = 0, tg_seq = 0, tg_ident = ucast (now AND 0xFFFF), tg_tx_queue_id = q,
           tg_tp_tcbs = replicate 16 None, tg_tp_n_streams = 0, tg_tp_phase = 0, tg_ip_pool_idx = 0\<rparr>, w))"

definition tx_gen_start :: "tx_gen_state \<Rightarrow> worker \<Rightarrow> tx_gen_state \<times> worker" where
  "tx_gen_start st w =
     (let (now, w) = rdtsc w; cfg = tg_cfg st
      in (st\<lparr>tg_start_tsc := now, tg_last_refill_tsc := now, tg_pkts_sent := 0, tg_pkts_dropped := 0, tg_seq := 0,
            tg_tokens := (if cfg_max_initiations cfg > 0 \<and> unat (cfg_max_initiations cfg) < TX_GEN_MAX_BURST
                          then ucast (cfg_max_initiations cfg) else word_of_nat TX_GEN_MAX_BURST),
            tg_deadline_tsc := (if cfg_duration_s cfg > 0 then now + ucast (cfg_duration_s cfg) * tsc_hz w else 0),
            tg_active := True\<rparr>, w))"

definition tx_gen_stop :: "tx_gen_state \<Rightarrow> tx_gen_state" where
  "tx_gen_stop st = st\<lparr>tg_active := False\<rparr>"

subsection \<open>Token bucket\<close>

definition effective_rate :: "u64 \<Rightarrow> u64 \<Rightarrow> tx_gen_state \<Rightarrow> u64" where
  "effective_rate now hz st =
     (let cfg = tg_cfg st; age = (now - tg_start_tsc st) div hz
      in if cfg_ramp_s cfg > 0 \<and> age < ucast (cfg_ramp_s cfg)
         then cfg_rate_pps cfg * (age + 1) div ucast (cfg_ramp_s cfg) else cfg_rate_pps cfg)"

definition refill :: "u64 \<Rightarrow> u64 \<Rightarrow> tx_gen_state \<Rightarrow> tx_gen_state" where
  "refill now hz st =
     (let new_tok = (now - tg_last_refill_tsc st) * effective_rate now hz st div hz
      in if new_tok > 0
         then st\<lparr>tg_tokens := min (tg_tokens st + new_tok) (word_of_nat TX_GEN_MAX_BURST), tg_last_refill_tsc := now\<rparr>
         else st)"

text \<open>How much a burst may start, and the state after the refill.\<close>

definition allowance :: "u64 \<Rightarrow> u64 \<Rightarrow> tx_gen_state \<Rightarrow> u32 \<times> tx_gen_state" where
  "allowance now hz st =
     (if cfg_rate_pps (tg_cfg st) > 0
      then let st = refill now hz st in (ucast (tg_tokens st), st)
      else (word_of_nat TX_GEN_MAX_BURST, st))"

subsection \<open>Opening connections\<close>

definition bswap32 :: "u32 \<Rightarrow> u32" where
  "bswap32 x = push_bit 24 x OR push_bit 8 (x AND 0xFF00) OR (drop_bit 8 x AND 0xFF00) OR drop_bit 24 x"

text \<open>The source address of the next packet or connection: round robin over the configured range.\<close>

definition next_src_ip :: "tx_gen_state \<Rightarrow> u32 \<times> tx_gen_state" where
  "next_src_ip st =
     (let cfg = tg_cfg st
      in if cfg_src_ip_count cfg > 1
         then (bswap32 (bswap32 (cfg_src_ip cfg) + tg_ip_pool_idx st mod cfg_src_ip_count cfg),
               st\<lparr>tg_ip_pool_idx := tg_ip_pool_idx st + 1\<rparr>)
         else (cfg_src_ip cfg, st))"

definition mark_conn :: "nat \<Rightarrow> tx_gen_config \<Rightarrow> tcb \<Rightarrow> tcb" where
  "mark_conn addr cfg t =
     (let t = t\<lparr>dscp := cfg_dscp cfg, vlan_id := cfg_vlan_id cfg, cc_algo := cfg_cc_algo cfg\<rparr>;
          t = (if cfg_max_initiations cfg > 0 then t\<lparr>graceful_close := True\<rparr> else t)
      in if cfg_proto cfg = TX_GEN_PROTO_HTTP
         then t\<lparr>app_ctx := addr, app_state := (if cfg_enable_tls cfg then 1 else 4)\<rparr>
         else if cfg_enable_tls cfg then t\<lparr>app_state := 1\<rparr> else t)"

text \<open>At most \<open>n\<close> connections; the loop stops when ports or blocks run out.\<close>

fun open_loop :: "env \<Rightarrow> nat \<Rightarrow> nat \<Rightarrow> tx_gen_state \<Rightarrow> worker \<Rightarrow> (nat \<times> tx_gen_state \<times> worker) option" where
  "open_loop e addr 0 st w = Some (0, st, w)"
| "open_loop e addr (Suc n) st w =
     (let (ip, st) = next_src_ip st; (port, wp) = tcp_port_alloc ip (ports w); w = w\<lparr>ports := wp\<rparr>; cfg = tg_cfg st
      in case port of
           None \<Rightarrow> Some (0, st, w)
         | Some p \<Rightarrow>
             do { (r, w) \<leftarrow> tcp_fsm_connect e ip p (cfg_dst_ip cfg) (cfg_dst_port cfg) (cfg_port_id cfg) w;
                  case r of
                    None \<Rightarrow> Some (0, st, w\<lparr>ports := tcp_port_free_immediate ip p (ports w)\<rparr>)
                  | Some i \<Rightarrow> do { (k, st, w) \<leftarrow> open_loop e addr n st (upd_tcb i (mark_conn addr cfg) w);
                                    Some (Suc k, st, w) } })"

definition method_of :: "u8 \<Rightarrow> http_method option" where
  "method_of x =
     (if x = 0 then Some HTTP_METHOD_GET else if x = 1 then Some HTTP_METHOD_POST else if x = 2 then Some HTTP_METHOD_PUT
      else if x = 3 then Some HTTP_METHOD_DELETE else if x = 4 then Some HTTP_METHOD_HEAD else None)"

text \<open>The HTTP request is built on the first burst; its buffer holds 1024 bytes.\<close>

definition prebuild :: "tx_gen_config \<Rightarrow> bytes \<Rightarrow> http_prebuilt_req \<Rightarrow> http_prebuilt_req option" where
  "prebuild cfg extra hp =
     (if cfg_proto cfg = TX_GEN_PROTO_HTTP \<and> hp_hdr_len hp = 0 then
        let ka = cfg_txn_per_conn cfg > 1
        in do { meth \<leftarrow> method_of (cfg_http_method cfg);
                (n, conn) \<leftarrow> http11_tx_request http11_conn_init
                  \<lparr>hr_method = meth, hr_url = Some (if cfg_http_url cfg \<noteq> [] then cfg_http_url cfg else str ''/''),
                   hr_host = Some (if cfg_http_host cfg \<noteq> [] then cfg_http_host cfg else str ''localhost''),
                   hr_content_type = None, hr_body = None, hr_body_len = 0, hr_keep_alive = ka,
                   hr_extra_headers = (if extra \<noteq> [] then Some extra else None)\<rparr>;
                if n > 0 then
                  if n > 1024 then None
                  else Some (hp\<lparr>hp_hdr := put_at 0 (take (nat n) (hc_tx_hdr conn)) (hp_hdr hp), hp_hdr_len := word_of_int n,
                                hp_keep_alive := ka, hp_txn_per_conn := cfg_txn_per_conn cfg,
                                hp_think_time_us := cfg_think_time_us cfg,
                                hp_expected_interval_us := (if cfg_rate_pps cfg > 0 then 1000000 div cfg_rate_pps cfg else 0)\<rparr>)
                else Some hp }
      else Some hp)"

definition consume_tokens :: "nat \<Rightarrow> tx_gen_state \<Rightarrow> tx_gen_state" where
  "consume_tokens initiated st =
     (if cfg_rate_pps (tg_cfg st) > 0
      then let consumed = (if initiated > 0 then word_of_nat initiated else 1)
           in st\<lparr>tg_tokens := (if consumed \<le> tg_tokens st then tg_tokens st - consumed else 0)\<rparr>
      else st)"

definition burst_connect ::
  "env \<Rightarrow> nat \<Rightarrow> bytes \<Rightarrow> u32 \<Rightarrow> http_prebuilt_req \<Rightarrow> tx_gen_state \<Rightarrow> worker \<Rightarrow> (nat \<times> http_prebuilt_req \<times> tx_gen_state \<times> worker) option" where
  "burst_connect e addr extra to_send hp st w =
     (if count w \<ge> TCP_MAX_INFLIGHT then Some (0, hp, st, w)
      else
        do { hp \<leftarrow> prebuild (tg_cfg st) extra hp;
             (k, st, w) \<leftarrow> open_loop e addr (unat (min to_send (TCP_MAX_INFLIGHT - count w))) st w;
             Some (k, hp, consume_tokens k (st\<lparr>tg_pkts_sent := tg_pkts_sent st + word_of_nat k\<rparr>), w) })"

subsection \<open>Throughput streams\<close>

definition TP_BUF :: bytes where "TP_BUF = replicate 1400 0"

definition mark_stream :: "tx_gen_config \<Rightarrow> tcb \<Rightarrow> tcb" where
  "mark_stream cfg t =
     (let t = t\<lparr>app_ctx := 1, dscp := cfg_dscp cfg, vlan_id := cfg_vlan_id cfg, cc_algo := cfg_cc_algo cfg\<rparr>
      in if cfg_enable_tls cfg then t\<lparr>app_state := 1\<rparr> else t)"

definition stream_count :: "tx_gen_config \<Rightarrow> nat" where
  "stream_count cfg =
     (let streams = unat (cfg_throughput_streams cfg); streams = (if streams = 0 then 1 else streams)
      in if streams > 16 then 16 else streams)"

text \<open>Phase 0: the streams from \<open>i\<close> on.\<close>

fun stream_loop :: "env \<Rightarrow> nat list \<Rightarrow> tx_gen_state \<Rightarrow> worker \<Rightarrow> (tx_gen_state \<times> worker) option" where
  "stream_loop e [] st w = Some (st, w)"
| "stream_loop e (i # is) st w =
     (let cfg = tg_cfg st; ip = cfg_src_ip cfg; (port, wp) = tcp_port_alloc ip (ports w); w = w\<lparr>ports := wp\<rparr>
      in case port of
           None \<Rightarrow> Some (st, w)
         | Some p \<Rightarrow>
             do { (r, w) \<leftarrow> tcp_fsm_connect e ip p (cfg_dst_ip cfg) (cfg_dst_port cfg) (cfg_port_id cfg) w;
                  case r of
                    None \<Rightarrow> let (now, w) = rdtsc w in Some (st, w\<lparr>ports := tcp_port_free now ip p (ports w)\<rparr>)
                  | Some t \<Rightarrow> stream_loop e is (st\<lparr>tg_tp_tcbs := (tg_tp_tcbs st)[i := Some t], tg_tp_n_streams := tg_tp_n_streams st + 1\<rparr>)
                                (upd_tcb t (mark_stream cfg) w) })"

text \<open>Phase 1: up to 32 segments on a plain stream, one record on an encrypted one.\<close>

fun pump_plain :: "env \<Rightarrow> nat \<Rightarrow> nat \<Rightarrow> worker \<Rightarrow> (nat \<times> worker) option" where
  "pump_plain e i 0 w = Some (0, w)"
| "pump_plain e i (Suc n) w =
     do { (rc, w) \<leftarrow> tcp_fsm_send e i TP_BUF 1400 w;
          if rc \<le> 0 then Some (0, w) else do { (k, w) \<leftarrow> pump_plain e i n w; Some (Suc k, w) } }"

definition pump_tls :: "env \<Rightarrow> nat \<Rightarrow> worker \<Rightarrow> (nat \<times> worker) option" where
  "pump_tls e i w =
     (case tls_session_get i w of
        None \<Rightarrow> Some (0, w)
      | Some sess \<Rightarrow>
          let (ct_len, ct, sess) = tls_encrypt (e_ssl e) sess TP_BUF 2048; w = tls_session_put i sess w
          in if ct_len > 0
             then do { (rc, w) \<leftarrow> tcp_fsm_send e i ct (word_of_int ct_len) w;
                       Some (if rc > 0 then (1, add_tls_tx w) else (0, w)) }
             else Some (0, w))"

definition stream_open :: "tcb \<Rightarrow> bool" where
  "stream_open t \<longleftrightarrow> state t = TCP_ESTABLISHED \<or> state t = TCP_CLOSE_WAIT"

definition pump_stream :: "env \<Rightarrow> bool \<Rightarrow> nat option \<Rightarrow> worker \<Rightarrow> (nat \<times> worker) option" where
  "pump_stream e tls r w =
     (case r of
        None \<Rightarrow> Some (0, w)
      | Some i \<Rightarrow>
          if \<not> stream_open (tcb_at w i) then Some (0, w)
          else if tls \<and> app_state (tcb_at w i) = 3 then pump_tls e i w
          else if \<not> tls then pump_plain e i 32 w
          else Some (0, w))"

fun pump_streams :: "env \<Rightarrow> bool \<Rightarrow> nat option list \<Rightarrow> worker \<Rightarrow> (nat \<times> worker) option" where
  "pump_streams e tls [] w = Some (0, w)"
| "pump_streams e tls (r # rs) w =
     do { (k, w) \<leftarrow> pump_stream e tls r w; (n, w) \<leftarrow> pump_streams e tls rs w; Some (k + n, w) }"

definition burst_throughput :: "env \<Rightarrow> tx_gen_state \<Rightarrow> worker \<Rightarrow> (nat \<times> tx_gen_state \<times> worker) option" where
  "burst_throughput e st w =
     (if tg_tp_phase st = 0
      then do { (st, w) \<leftarrow> stream_loop e [0..<stream_count (tg_cfg st)] (st\<lparr>tg_tp_n_streams := 0\<rparr>) w;
                Some (tg_tp_n_streams st, st\<lparr>tg_tp_phase := 1\<rparr>, w) }
      else do { (k, w) \<leftarrow> pump_streams e (cfg_enable_tls (tg_cfg st)) (take (tg_tp_n_streams st) (tg_tp_tcbs st)) w;
                Some (k, st\<lparr>tg_pkts_sent := tg_pkts_sent st + word_of_nat k\<rparr>, w) })"

text \<open>The end of the run closes the streams.\<close>

fun close_streams :: "env \<Rightarrow> nat option list \<Rightarrow> worker \<Rightarrow> worker option" where
  "close_streams e [] w = Some w"
| "close_streams e (r # rs) w =
     do { w \<leftarrow> (case r of None \<Rightarrow> Some w
                 | Some i \<Rightarrow> if stream_open (tcb_at w i) then map_option snd (tcp_fsm_close e i w) else Some w);
          close_streams e rs w }"

definition deadline_reached :: "env \<Rightarrow> tx_gen_state \<Rightarrow> worker \<Rightarrow> (tx_gen_state \<times> worker) option" where
  "deadline_reached e st w =
     (if cfg_proto (tg_cfg st) = TX_GEN_PROTO_THROUGHPUT
      then do { w \<leftarrow> close_streams e (take (tg_tp_n_streams st) (tg_tp_tcbs st)) w;
                Some (st\<lparr>tg_tp_tcbs := replicate (tg_tp_n_streams st) None @ drop (tg_tp_n_streams st) (tg_tp_tcbs st),
                         tg_tp_n_streams := 0, tg_tp_phase := 0, tg_active := False\<rparr>, w) }
      else Some (st\<lparr>tg_active := False\<rparr>, w))"

subsection \<open>ICMP and UDP packets\<close>

record gen_pkt =
  gp_eth_src :: bytes
  gp_eth_dst :: bytes
  gp_vlan_tci :: "u16 option"
  gp_ip :: ipv4_hdr
  gp_l4 :: bytes

definition gen_vlan :: "tx_gen_config \<Rightarrow> u16 option" where
  "gen_vlan cfg = (if cfg_vlan_id cfg \<noteq> 0 then Some (cfg_vlan_id cfg AND 0x0FFF) else None)"

definition gen_eth_sz :: "tx_gen_config \<Rightarrow> nat" where
  "gen_eth_sz cfg = 14 + (if cfg_vlan_id cfg \<noteq> 0 then 4 else 0)"

definition pkt_len :: "gen_pkt \<Rightarrow> nat" where
  "pkt_len p = unat (word_of_nat (14 + (if gp_vlan_tci p = None then 0 else 4) + 20 + length (gp_l4 p)) :: u16)"

definition gen_ip :: "env \<Rightarrow> u8 \<Rightarrow> nat \<Rightarrow> u32 \<Rightarrow> tx_gen_state \<Rightarrow> ipv4_hdr" where
  "gen_ip e proto l4_len src st =
     (let h = \<lparr>ip_tos = push_bit 2 (cfg_dscp (tg_cfg st)), ip_total_length = word_of_nat (20 + l4_len), ip_packet_id = tg_seq st,
               ip_fragment_offset = RTE_IPV4_HDR_DF_FLAG, ip_ttl = 64, ip_proto = proto, ip_hdr_cksum = 0, ip_src = src,
               ip_dst = cfg_dst_ip (tg_cfg st)\<rparr>
      in h\<lparr>ip_hdr_cksum := e_ipv4_cksum e h\<rparr>)"

text \<open>
  A packet buffer with room for \<open>len\<close> bytes: the length is cut to 16 bits before it is compared with the room, so a longer
  packet is written beyond the buffer.
\<close>

definition gen_alloc :: "env \<Rightarrow> nat \<Rightarrow> worker \<Rightarrow> (bool \<times> worker) option" where
  "gen_alloc e len w =
     (let (ok, w) = mbuf_alloc e w
      in if \<not> ok then Some (False, w)
         else if unat (word_of_nat len :: u16) > e_mbuf_tailroom e then Some (False, mbuf_free w)
         else if len > e_mbuf_tailroom e then None
         else Some (True, w))"

definition build_icmp_echo :: "env \<Rightarrow> tx_gen_state \<Rightarrow> worker \<Rightarrow> (gen_pkt option \<times> tx_gen_state \<times> worker) option" where
  "build_icmp_echo e st w =
     (let cfg = tg_cfg st; n = unat (cfg_pkt_size cfg)
      in do { (ok, w) \<leftarrow> gen_alloc e (gen_eth_sz cfg + 20 + ICMP_HDR_LEN + n) w;
              if \<not> ok then Some (None, st, w)
              else
                let (src, st) = next_src_ip st; ip = gen_ip e 1 (ICMP_HDR_LEN + n) src st;
                    rest = bytes16 (tg_ident st) @ bytes16 (tg_seq st) @ replicate n 0xAB;
                    ck = e_raw_cksum e ([8, 0, 0, 0] @ rest); ck = (if ck = 0xFFFF then ck else NOT ck)
                in Some (Some \<lparr>gp_eth_src = cfg_src_mac cfg, gp_eth_dst = cfg_dst_mac cfg, gp_vlan_tci = gen_vlan cfg, gp_ip = ip,
                               gp_l4 = [8, 0] @ le16 ck @ rest\<rparr>, st\<lparr>tg_seq := tg_seq st + 1\<rparr>, w) })"

definition build_udp_datagram :: "env \<Rightarrow> tx_gen_state \<Rightarrow> worker \<Rightarrow> (gen_pkt option \<times> tx_gen_state \<times> worker) option" where
  "build_udp_datagram e st w =
     (let cfg = tg_cfg st; n = unat (cfg_pkt_size cfg); udp_total = word_of_nat (8 + n) :: u16
      in do { (ok, w) \<leftarrow> gen_alloc e (gen_eth_sz cfg + 20 + unat udp_total) w;
              if \<not> ok then Some (None, st, w)
              else if gen_eth_sz cfg + 20 + 8 + n > e_mbuf_tailroom e then None
              else
                let (src, st) = next_src_ip st; ip = gen_ip e 17 (unat udp_total) src st;
                    hdr = bytes16 (cfg_src_port cfg) @ bytes16 (cfg_dst_port cfg) @ bytes16 udp_total;
                    ck = e_udptcp_cksum e ip (hdr @ [0, 0] @ replicate n 0xBE)
                in Some (Some \<lparr>gp_eth_src = cfg_src_mac cfg, gp_eth_dst = cfg_dst_mac cfg, gp_vlan_tci = gen_vlan cfg, gp_ip = ip,
                               gp_l4 = hdr @ le16 ck @ replicate n 0xBE\<rparr>, st\<lparr>tg_seq := tg_seq st + 1\<rparr>, w) })"

definition build_packet :: "env \<Rightarrow> tx_gen_state \<Rightarrow> worker \<Rightarrow> (gen_pkt option \<times> tx_gen_state \<times> worker) option" where
  "build_packet e st w =
     (case cfg_proto (tg_cfg st) of
        TX_GEN_PROTO_ICMP \<Rightarrow> build_icmp_echo e st w
      | TX_GEN_PROTO_UDP \<Rightarrow> build_udp_datagram e st w
      | _ \<Rightarrow> Some (None, st, w))"

fun build_burst :: "env \<Rightarrow> nat \<Rightarrow> tx_gen_state \<Rightarrow> worker \<Rightarrow> (gen_pkt list \<times> tx_gen_state \<times> worker) option" where
  "build_burst e 0 st w = Some ([], st, w)"
| "build_burst e (Suc n) st w =
     do { (p, st, w) \<leftarrow> build_packet e st w;
          case p of None \<Rightarrow> Some ([], st, w)
          | Some p \<Rightarrow> do { (ps, st, w) \<leftarrow> build_burst e n st w; Some (p # ps, st, w) } }"

definition count_proto :: "tx_gen_proto \<Rightarrow> nat \<Rightarrow> worker_metrics \<Rightarrow> worker_metrics" where
  "count_proto proto n m =
     (if proto = TX_GEN_PROTO_ICMP then m\<lparr>m_icmp_echo_tx := m_icmp_echo_tx m + word_of_nat n\<rparr>
      else if proto = TX_GEN_PROTO_UDP then m\<lparr>m_udp_tx := m_udp_tx m + word_of_nat n\<rparr> else m)"

definition burst_packets :: "env \<Rightarrow> u32 \<Rightarrow> tx_gen_state \<Rightarrow> worker \<Rightarrow> (nat \<times> gen_pkt list \<times> tx_gen_state \<times> worker) option" where
  "burst_packets e to_send st w =
     do { (ps, st, w) \<leftarrow> build_burst e (unat to_send) st w;
          if ps = [] then Some (0, [], st, w)
          else
            let sent = min (e_tx_burst e (ext_pos w) (length ps)) (length ps);
                w = (next_ext w)\<lparr>mbufs_held := mbufs_held w - int (length ps)\<rparr>;
                st = st\<lparr>tg_pkts_dropped := tg_pkts_dropped st + word_of_nat (length ps - sent),
                        tg_pkts_sent := tg_pkts_sent st + word_of_nat sent\<rparr>;
                st = (if cfg_rate_pps (tg_cfg st) > 0 \<and> word_of_nat sent \<le> tg_tokens st
                      then st\<lparr>tg_tokens := tg_tokens st - word_of_nat sent\<rparr> else st);
                bytes = sum_list (map (\<lambda>p. word_of_nat (pkt_len p)) (take sent ps))
            in Some (sent, take sent ps, st,
                     upd_metrics (count_proto (cfg_proto (tg_cfg st)) sent \<circ> worker_metrics_add_tx (word_of_nat sent) bytes) w) }"

subsection \<open>The burst\<close>

definition burst_proto ::
  "env \<Rightarrow> nat \<Rightarrow> bytes \<Rightarrow> u32 \<Rightarrow> http_prebuilt_req \<Rightarrow> tx_gen_state \<Rightarrow> worker \<Rightarrow>
     (nat \<times> gen_pkt list \<times> http_prebuilt_req \<times> tx_gen_state \<times> worker) option" where
  "burst_proto e addr extra to_send hp st w =
     (if cfg_proto (tg_cfg st) = TX_GEN_PROTO_TCP_SYN \<or> cfg_proto (tg_cfg st) = TX_GEN_PROTO_HTTP
      then do { (k, hp, st, w) \<leftarrow> burst_connect e addr extra to_send hp st w; Some (k, [], hp, st, w) }
      else if cfg_proto (tg_cfg st) = TX_GEN_PROTO_THROUGHPUT
      then do { (k, st, w) \<leftarrow> burst_throughput e st w; Some (k, [], hp, st, w) }
      else do { (k, ps, st, w) \<leftarrow> burst_packets e to_send st w; Some (k, ps, hp, st, w) })"

definition tx_gen_burst ::
  "env \<Rightarrow> nat \<Rightarrow> bytes \<Rightarrow> http_prebuilt_req \<Rightarrow> tx_gen_state \<Rightarrow> worker \<Rightarrow>
     (nat \<times> gen_pkt list \<times> http_prebuilt_req \<times> tx_gen_state \<times> worker) option" where
  "tx_gen_burst e addr extra hp st w =
     (if \<not> tg_active st then Some (0, [], hp, st, w)
      else
        let (now, w) = rdtsc w; cfg = tg_cfg st
        in if tg_deadline_tsc st > 0 \<and> now \<ge> tg_deadline_tsc st
           then do { (st, w) \<leftarrow> deadline_reached e st w; Some (0, [], hp, st, w) }
           else if cfg_max_initiations cfg > 0 \<and> tg_pkts_sent st \<ge> ucast (cfg_max_initiations cfg)
           then Some (0, [], hp, st\<lparr>tg_active := False\<rparr>, w)
           else if cfg_rate_pps cfg > 0 \<and> tsc_hz w = 0 then None
           else
             let (to_send, st) = allowance now (tsc_hz w) st
             in if to_send = 0 then Some (0, [], hp, st, w) else burst_proto e addr extra to_send hp st w)"

end
