(* ===== verification/HttpRoundtrip.thy ===== *)
theory HttpRoundtrip
  imports Http11
begin

text \<open>
  The server's response builder and chunk framing against the client's response parser: what is written is read
  back, and what happens to a chunk that a segment boundary cuts.
\<close>

subsection \<open>Chunks written are chunks read\<close>

text \<open>
  C35. A chunk written by the server's framing is read back by the parser as exactly its data, and
  the parser stands behind it, ready for the next chunk.
\<close>

theorem chunk_roundtrip:
  assumes "http11_tx_chunk cap data len = Some (n, out)" "0 < n" "0 < len"
    and "rx_ok (rx_conn r)" "hc_state (rx_conn r) = HTTP_WAIT_CHUNK" "rx_bytes (rx_conn r) = out @ rest"
  shows "\<exists>c'. rx_step r = Again (r\<lparr>rx_conn := c'\<rparr>) \<and> rx_ok c' \<and> hc_state c' = HTTP_WAIT_CHUNK \<and> rx_bytes c' = rest \<and>
    rs_body (hc_rsp c') = Some (take (unat len) data) \<and> rs_body_len (hc_rsp c') = len"
proof -
  let ?c = "rx_conn r" and ?d = "digits 16 (unat len)"
  have out: "out = ?d @ CRLF @ take (unat len) data @ CRLF" and le: "unat len \<le> length data"
    using assms(1,2) by (auto simp: http11_tx_chunk_def Let_def ENOSPC_def split: if_splits)
  then have rb: "rx_bytes ?c = ?d @ CRLF @ take (unat len) data @ CRLF @ rest" using assms(6) by simp
  have "\<forall>c\<in>set ?d. digit_val 16 c \<noteq> None" by (rule digits_nonspace) simp_all
  then have nc: "13 \<notin> set ?d" using digit_byte(6) [of 16 13] by auto
  note l = rx_line [OF assms(4) rb nc]
  define c1 where "c1 = consume (word_of_nat (length ?d + 2)) ?c"
  have len: "length (rx_bytes ?c) < 2 ^ 32" using rx_bytes_length [of ?c] unat_lt_u32 [of "hc_rx_head ?c"] by simp
  then have s: "unat (len + 2) = unat len + 2" using le unfolding rb by (simp add: CRLF_def word_nat_add_no_wrap)
  have sz: "ucast (strtoul 16 (rx_bytes ?c)) = len"
    unfolding rb by (subst strtoul_digits) (use unat_lt_u32 [of len] in \<open>simp_all add: CRLF_def digit_val_def ucast_u64_u32\<close>)
  have b1: "rx_bytes c1 = take (unat len) data @ CRLF @ rest" using l(3) by (simp add: c1_def)
  have ge: "unat (len + 2) \<le> length (rx_bytes c1)" unfolding b1 s using le by (simp add: CRLF_def)
  note c2 = consume_ok [OF l(2) ge [unfolded c1_def]]
  have "rx_step r = Again (r\<lparr>rx_conn := (consume (len + 2) c1)\<lparr>hc_rsp := (hc_rsp c1)
                       \<lparr>rs_body := Some (take (unat len) (rx_bytes c1)), rs_body_len := len\<rparr>\<rparr>\<rparr>)"
    using assms(3,5) l(1) ge unfolding rx_step_def rx_chunk_def Let_def sz c1_def by auto
  moreover have "rx_bytes (consume (len + 2) c1) = rest"
    using c2(2) le unfolding c1_def [symmetric] b1 s by (simp add: CRLF_def)
  moreover have "rx_ok (consume (len + 2) c1)" using c2(1) by (simp add: c1_def)
  moreover have "take (unat len) (rx_bytes c1) = take (unat len) data" using le by (simp add: b1)
  moreover have "hc_state c1 = HTTP_WAIT_CHUNK" using assms(5) by (simp add: c1_def)
  ultimately show ?thesis
    by (intro exI [of _ "(consume (len + 2) c1)\<lparr>hc_rsp := (hc_rsp c1)
                       \<lparr>rs_body := Some (take (unat len) (rx_bytes c1)), rs_body_len := len\<rparr>\<rparr>"]) simp
qed

subsection \<open>Responses written are responses read\<close>

text \<open>The bytes of a response, and that the builder writes them when they fit.\<close>

definition response_head :: "u16 \<Rightarrow> bytes \<Rightarrow> bytes option \<Rightarrow> nat \<Rightarrow> bytes" where
  "response_head status s ct n =
     status_line status (Some s) @
     (case ct of Some c \<Rightarrow> str ''Content-Type: '' @ c @ CRLF | None \<Rightarrow> []) @
     (str ''Content-Length: '' @ digits 10 n) @ CRLF @ str ''Connection: keep-alive'' @ CRLF @ CRLF"

lemma append_fits: "length out + length s < cap \<Longrightarrow> append_to cap s out = out @ s"
  by (simp add: append_to_def)

lemma appends_fit:
  "length out + length (concat ss) < cap \<Longrightarrow> appends cap ss out = out @ concat ss"
  by (induction ss arbitrary: out) (simp_all add: appends_def append_fits)

lemma tx_response_eq:
  assumes "length (status_line status (Some s)) < 128"
    and "length (response_head status s ct (unat len)) + unat len < cap" "0 < len" "unat len \<le> length body"
  shows "http11_tx_response cap status (Some s) ct (Some body) len =
    Some (int (length (response_head status s ct (unat len)) + unat len),
          response_head status s ct (unat len) @ take (unat len) body)"
proof -
  have a: "append_tmp 128 cap (status_line status (Some s)) [] = Some (status_line status (Some s))"
    using assms(1,2) by (simp add: append_tmp_def response_head_def)
  let ?ps = "type_pieces ct @ [str ''Content-Length: '' @ digits 10 (unat len) @ CRLF,
                str ''Connection: keep-alive'' @ CRLF, CRLF]"
  have h: "status_line status (Some s) @ concat ?ps = response_head status s ct (unat len)"
    by (simp add: response_head_def type_pieces_def split: option.splits)
  have "appends cap ?ps (status_line status (Some s)) = response_head status s ct (unat len)"
  proof -
    have "length (status_line status (Some s)) + length (concat ?ps) < cap"
      using assms(2) arg_cong [OF h, of length] by simp
    from appends_fit [OF this] show ?thesis using h by simp
  qed
  then show ?thesis using assms by (simp add: http11_tx_response_def a append_body_def has_body_def)
qed

lemma char_of_byte [simp]: "char_of (unat (of_char c :: u8)) = c"
proof -
  have "(of_char c :: u8) = word_of_nat (of_char c)" by (simp add: of_nat_of_char)
  moreover have "(of_char c :: nat) < 2 ^ LENGTH(8)" using of_char_mod_256 [of c, where 'a = nat] mod_less_divisor [of 256 "of_char c"] by simp
  ultimately have "unat (of_char c :: u8) = of_char c" by (simp only: unat_word_of_nat)
  then show ?thesis by simp
qed

lemma digit_cases: "v < 10 \<Longrightarrow> v = 0 \<or> v = 1 \<or> v = 2 \<or> v = 3 \<or> v = 4 \<or> v = 5 \<or> v = 6 \<or> v = 7 \<or> v = 8 \<or> v = (9::nat)"
  by presburger

lemma hexdigit_digit: "v < 10 \<Longrightarrow> is_digit (hexdigit v)"
  by (drule digit_cases, elim disjE) (simp_all add: hexdigit_def is_digit_def)

lemma hexdigit_int: "v < 10 \<Longrightarrow> (of_char (hexdigit v) :: int) = 48 + int v"
  by (drule digit_cases, elim disjE) (simp_all add: hexdigit_def)

lemma atoi_digits_digits: "atoi_digits acc (map (\<lambda>b. char_of (unat b)) (digits 10 n) @ s) =
    atoi_digits (acc * 10 ^ length (digits 10 n) + int n) s"
proof (induction n arbitrary: acc s rule: less_induct)
  case (less n)
  note d = hexdigit_digit hexdigit_int char_of_byte
  show ?case
  proof (cases "n < 10")
    case True
    then show ?thesis using d(1,2) [OF True] d(3) by (simp add: digits.simps [of 10 n])
  next
    case False
    then have "n div 10 < n" by simp
    have e: "digits 10 n = digits 10 (n div 10) @ [of_char (hexdigit (n mod 10))]"
      using False by (simp add: digits.simps [of 10 n])
    have "n mod 10 < 10" by simp
    have "int n = 10 * int (n div 10) + int (n mod 10)" by (metis of_nat_add of_nat_mult of_nat_numeral mult_div_mod_eq)
    with less.IH [OF \<open>n div 10 < n\<close>] d(1,2) [OF \<open>n mod 10 < 10\<close>] d(3) show ?thesis
      unfolding e by (simp add: algebra_simps)
  qed
qed

lemma digit_char: "is_digit ch \<Longrightarrow> \<not> is_space ch \<and> ch \<noteq> CHR ''-'' \<and> ch \<noteq> CHR ''+''"
  by (auto simp: is_digit_def is_space_def)

lemma status_parsed:
  assumes "13 \<notin> set s" "100 \<le> status"
  shows "parse_status_line (status_line status (Some s) @ rest) (length (status_line status (Some s)) - 2) rsp =
    Some (rsp\<lparr>rs_status_code := status\<rparr>)"
proof -
  let ?d = "digits 10 (unat status)"
  have "100 \<le> unat status" using assms(2) by (simp add: word_le_nat_alt)
  then have l: "length ?d \<ge> 2"
    by (subst digits.simps) (simp add: Suc_le_eq digits_nonspace [of 10])
  have h: "status_line status (Some s) @ rest = str ''HTTP/1.1 '' @ ?d @ str '' '' @ s @ CRLF @ rest"
    by (simp add: status_line_def)
  obtain c ds where cd: "?d = c # ds" using l by (cases ?d) auto
  have c: "digit_val 10 c \<noteq> None" using digits_nonspace(1) [of 10 "unat status"] by (simp add: cd)
  then have "is_digit (char_of (unat c))" by (auto simp: is_digit_def digit_val_def Let_def word_le_nat_alt split: if_splits)
  then have c': "\<not> is_space (char_of (unat c))" "char_of (unat c) \<noteq> CHR ''-''" "char_of (unat c) \<noteq> CHR ''+''"
    using digit_char [of "char_of (unat c)"] by simp_all
  have "atoi_bytes (?d @ str '' '' @ s @ CRLF @ rest) = int (unat status)"
    using c' atoi_digits_digits [of 0 "unat status" "map (\<lambda>b. char_of (unat b)) (str '' '' @ s @ CRLF @ rest)"]
    by (simp add: atoi_bytes_def atoi_def cd) (simp add: str_def is_digit_def)
  then have "word_of_int (atoi_bytes (drop 9 (status_line status (Some s) @ rest))) = status"
    unfolding h by (simp add: str_def)
  moreover have "length (status_line status (Some s)) - 2 \<ge> 12" using l by (simp add: status_line_def str_def CRLF_def)
  moreover have "take 7 (status_line status (Some s) @ rest) = str ''HTTP/1.''"
    unfolding h by (simp add: str_def)
  ultimately show ?thesis by (simp add: parse_status_line_def)
qed

definition count_header :: "http_response \<Rightarrow> http_response" where
  "count_header rsp = (if rs_header_count rsp < HTTP_MAX_HEADERS
     then rsp\<lparr>rs_header_count := rs_header_count rsp + 1\<rparr> else rsp)"

definition header_value :: "bytes \<Rightarrow> bytes" where
  "header_value v = rev (dropWhile (\<lambda>c. c = 13 \<or> c = 10) (rev (c_string (dropWhile (\<lambda>c. c = 32) v))))"

definition apply_header :: "bytes \<Rightarrow> bytes \<Rightarrow> http_response \<Rightarrow> http_response" where
  "apply_header name val rsp =
     (if name = str ''content-length'' then rsp\<lparr>rs_content_length := ucast (strtoul 10 val)\<rparr>
      else if name = str ''transfer-encoding'' \<and> contains (str ''chunked'') val then rsp\<lparr>rs_chunked := True\<rparr>
      else if name = str ''connection''
      then rsp\<lparr>rs_keep_alive := contains (str ''keep-alive'') (map to_lower val)\<rparr> else rsp)"

lemma parse_header_parts:
  assumes "58 \<notin> set name" "lower = map to_lower (c_string name)"
  shows "parse_header (name @ 58 # v) rsp = count_header (apply_header lower (header_value v) rsp)"
proof -
  have "takeWhile (\<lambda>c. c \<noteq> 58) (name @ 58 # v) = name"
    using assms(1) by (induction name) auto
  then show ?thesis
    by (simp add: parse_header_def Let_def count_header_def apply_header_def header_value_def assms(2))
qed

lemma type_parsed: "parse_header (take 511 (str ''Content-Type: '' @ c)) rsp = count_header rsp"
proof -
  have e: "take 511 (str ''Content-Type: '' @ c) = str ''Content-Type'' @ 58 # take 498 (32 # c)"
    by (simp add: str_def)
  show ?thesis unfolding e
    by (subst parse_header_parts [where lower = "str ''content-type''"])
      (simp_all add: str_def c_string_def to_lower_def apply_header_def)
qed

lemma connection_parsed:
  "parse_header (str ''Connection: keep-alive'') rsp = count_header (rsp\<lparr>rs_keep_alive := True\<rparr>)"
proof -
  have e: "str ''Connection: keep-alive'' = str ''Connection'' @ 58 # str '' keep-alive''" by (simp add: str_def)
  have v: "header_value (str '' keep-alive'') = str ''keep-alive''" by (simp add: str_def header_value_def c_string_def)
  show ?thesis unfolding e
    by (subst parse_header_parts [where lower = "str ''connection''"])
      (simp_all add: v, simp_all add: str_def c_string_def to_lower_def apply_header_def)
qed

lemma length_digits: "n < 10 ^ k \<Longrightarrow> 0 < k \<Longrightarrow> length (digits 10 n) \<le> k"
proof (induction k arbitrary: n)
  case (Suc k)
  show ?case
  proof (cases "n < 10")
    case False
    then have "0 < k" using Suc.prems(1) by (cases k) auto
    moreover have "n div 10 < 10 ^ k" using Suc.prems(1) by (simp add: div_less_iff_less_mult mult.commute)
    ultimately show ?thesis using Suc.IH [of "n div 10"] False by (simp add: digits.simps [of 10 n])
  qed (simp add: digits.simps [of 10 n])
qed simp

lemma length_parsed:
  assumes "n < 2 ^ 32"
  shows "parse_header (str ''Content-Length: '' @ digits 10 n) rsp = count_header (rsp\<lparr>rs_content_length := word_of_nat n\<rparr>)"
proof -
  let ?d = "digits 10 n"
  have d: "\<forall>c\<in>set ?d. c \<noteq> 0 \<and> c \<noteq> 13 \<and> c \<noteq> 10 \<and> c \<noteq> 32"
  proof
    fix c assume "c \<in> set ?d"
    then have "digit_val 10 c \<noteq> None" using digits_nonspace(1) [of 10 n] by simp
    from digit_byte [OF this] show "c \<noteq> 0 \<and> c \<noteq> 13 \<and> c \<noteq> 10 \<and> c \<noteq> 32" by (auto simp: is_space_byte_def)
  qed
  have "dropWhile (\<lambda>c. c = 32) ?d = ?d" using d by (cases ?d) auto
  moreover have "c_string ?d = ?d" using d by (simp add: c_string_def)
  moreover have "rev (dropWhile (\<lambda>c. c = 13 \<or> c = 10) (rev ?d)) = ?d"
    using d by (cases "rev ?d") (auto simp: rev_swap dropWhile_eq_self_iff)
  moreover have "ucast (strtoul 10 ?d) = (word_of_nat n :: u32)"
    using strtoul_digits [of 10 n "[]"] assms ucast_word_of_nat [of n] by simp
  moreover have "dropWhile (\<lambda>c. c = 32) (32 # ?d) = dropWhile (\<lambda>c. c = 32) ?d" by simp
  ultimately have "ucast (strtoul 10 (header_value (32 # ?d))) = (word_of_nat n :: u32)" by (simp only: header_value_def)
  moreover have "str ''Content-Length: '' @ ?d = str ''Content-Length'' @ 58 # 32 # ?d" by (simp add: str_def)
  moreover have "58 \<notin> set (str ''Content-Length'')" "str ''content-length'' = map to_lower (c_string (str ''Content-Length''))"
    by (simp_all add: str_def c_string_def to_lower_def)
  ultimately show ?thesis
    using parse_header_parts [of "str ''Content-Length''" "str ''content-length''" "32 # ?d" rsp] by (simp add: apply_header_def)
qed

text \<open>What the next turns of the parser depend on.\<close>

definition rx_view :: "http_conn \<Rightarrow> http_state \<times> http_response \<times> bytes \<times> u8" where
  "rx_view c = (hc_state c, hc_rsp c, rx_bytes c, hc_pipeline_depth c)"

lemma rx_viewD:
  assumes "rx_view c = (st, rsp, bs, d)"
  shows "hc_state c = st" "hc_rsp c = rsp" "rx_bytes c = bs" "hc_pipeline_depth c = d"
  using assms by (simp_all add: rx_view_def)

lemma loop_status:
  assumes "rx_ok c" "rx_view c = (st, rsp, line @ CRLF @ rest, d)" "st = HTTP_IDLE \<or> st = HTTP_WAIT_STATUS"
    and "13 \<notin> set line" "\<And>tail. parse_status_line (line @ CRLF @ tail) (length line) rsp_zero = Some rsp'"
  shows "\<exists>c'. rx_loop (r\<lparr>rx_conn := c\<rparr>) = rx_loop (r\<lparr>rx_conn := c'\<rparr>) \<and> rx_ok c' \<and>
    rx_view c' = (HTTP_WAIT_HEADERS, rsp', rest, d)"
proof -
  note v = rx_viewD [OF assms(2)] note l = rx_line [OF assms(1) v(3) assms(4)]
  let ?c = "(consume (word_of_nat (length line + 2)) c)\<lparr>hc_state := HTTP_WAIT_HEADERS, hc_rsp := rsp'\<rparr>"
  have "parse_status_line (drop (unat (hc_rx_parsed c)) (hc_rx_buf c)) (length line + 2 - 2) rsp_zero = Some rsp'"
    unfolding rx_ok_rest [OF assms(1)] v(3) using assms(5) [of "rest @ drop (unat (hc_rx_head c)) (hc_rx_buf c)"] by simp
  then have "rx_step (r\<lparr>rx_conn := c\<rparr>) = Again (r\<lparr>rx_conn := ?c\<rparr>)"
    using assms(3) v l(1) by (auto simp: rx_step_def rx_status_def)
  from rx_loop_again [OF _ _ this] have "rx_loop (r\<lparr>rx_conn := c\<rparr>) = rx_loop (r\<lparr>rx_conn := ?c\<rparr>)"
    using assms(1) v(3) by (simp add: CRLF_def)
  moreover have "rx_ok ?c" "rx_view ?c = (HTTP_WAIT_HEADERS, rsp', rest, d)" using l(2,3) v(4) by (simp_all add: rx_view_def)
  ultimately show ?thesis by blast
qed

lemma loop_header:
  assumes "rx_ok c" "rx_view c = (HTTP_WAIT_HEADERS, rsp, line @ CRLF @ rest, d)" "13 \<notin> set line" "line \<noteq> []"
  shows "\<exists>c'. rx_loop (r\<lparr>rx_conn := c\<rparr>) = rx_loop (r\<lparr>rx_conn := c'\<rparr>) \<and> rx_ok c' \<and>
    rx_view c' = (HTTP_WAIT_HEADERS, parse_header (take 511 line) rsp, rest, d)"
proof -
  note v = rx_viewD [OF assms(2)] note l = rx_line [OF assms(1) v(3) assms(3)]
  let ?c = "(consume (word_of_nat (length line + 2)) c)\<lparr>hc_rsp := parse_header (take 511 line) rsp\<rparr>"
  have t: "take (min (length line) 511) (rx_bytes c) = take 511 line" unfolding v(3) by (simp add: min_def)
  have "rx_step (r\<lparr>rx_conn := c\<rparr>) = Again (r\<lparr>rx_conn := ?c\<rparr>)"
    using v l(1) assms(4) t by (simp add: rx_step_def rx_header_def)
  from rx_loop_again [OF _ _ this] have "rx_loop (r\<lparr>rx_conn := c\<rparr>) = rx_loop (r\<lparr>rx_conn := ?c\<rparr>)"
    using assms(1) v(3) by (simp add: CRLF_def)
  moreover have "rx_ok ?c" "rx_view ?c = (HTTP_WAIT_HEADERS, parse_header (take 511 line) rsp, rest, d)"
    using l(2,3) v by (simp_all add: rx_view_def)
  ultimately show ?thesis by blast
qed

lemma loop_blank:
  assumes "rx_ok c" "rx_view c = (HTTP_WAIT_HEADERS, rsp, CRLF @ rest, d)" "\<not> rs_chunked rsp"
  shows "\<exists>c'. rx_loop (r\<lparr>rx_conn := c\<rparr>) = rx_loop (r\<lparr>rx_conn := c'\<rparr>) \<and> rx_ok c' \<and> rx_view c' = (HTTP_WAIT_BODY, rsp, rest, d)"
proof -
  note v = rx_viewD [OF assms(2)]
  have l: "find_crlf (rx_bytes c) = Some 2" "rx_ok (consume 2 c)" "rx_bytes (consume 2 c) = rest"
    using rx_line [OF assms(1), of "[]"] v(3) by simp_all
  have "rx_step (r\<lparr>rx_conn := c\<rparr>) = Again (r\<lparr>rx_conn := (consume 2 c)\<lparr>hc_state := HTTP_WAIT_BODY\<rparr>\<rparr>)"
    using v l(1) assms(3) by (simp add: rx_step_def rx_header_def)
  from rx_loop_again [OF _ _ this] have "rx_loop (r\<lparr>rx_conn := c\<rparr>) = rx_loop (r\<lparr>rx_conn := (consume 2 c)\<lparr>hc_state := HTTP_WAIT_BODY\<rparr>\<rparr>)"
    using assms(1) v(3) by (simp add: CRLF_def)
  moreover have "rx_ok ((consume 2 c)\<lparr>hc_state := HTTP_WAIT_BODY\<rparr>)"
    "rx_view ((consume 2 c)\<lparr>hc_state := HTTP_WAIT_BODY\<rparr>) = (HTTP_WAIT_BODY, rsp, rest, d)" using l v by (simp_all add: rx_view_def)
  ultimately show ?thesis by blast
qed

lemma loop_body_done:
  assumes "rx_ok c" "rx_view c = (HTTP_WAIT_BODY, rsp, body, d)" "length body = unat (rs_content_length rsp)" "body \<noteq> []"
  shows "\<exists>r'. rx_loop (r\<lparr>rx_conn := c\<rparr>) = Some (0, r') \<and> hc_rx_head (rx_conn r') = 0 \<and>
    rx_delivered r' = rx_delivered r @ [rsp\<lparr>rs_body := Some body, rs_body_len := rs_content_length rsp\<rparr>] \<and>
    hc_pipeline_depth (rx_conn r') = d - 1 \<and> hc_state (rx_conn r') = (if d - 1 > 0 then HTTP_WAIT_STATUS else HTTP_IDLE)"
proof -
  note v = rx_viewD [OF assms(2)]
  let ?cl = "rs_content_length rsp"
  let ?c = "(consume ?cl c)\<lparr>hc_rsp := rsp\<lparr>rs_body := Some body, rs_body_len := ?cl\<rparr>, hc_state := HTTP_DONE\<rparr>"
  have "0 < length body" using assms(4) by simp
  then have nz: "?cl \<noteq> 0" using assms(3) by (metis unat_0 less_irrefl)
  have k: "rx_ok (consume ?cl c)" "rx_bytes (consume ?cl c) = []" using consume_ok [OF assms(1), of ?cl] v(3) assms(3) by simp_all
  have s1: "rx_step (r\<lparr>rx_conn := c\<rparr>) = Again (r\<lparr>rx_conn := ?c\<rparr>)"
    using v assms(3) nz by (simp add: rx_step_def rx_body_def Let_def)
  from rx_loop_again [OF _ _ s1] have e1: "rx_loop (r\<lparr>rx_conn := c\<rparr>) = rx_loop (r\<lparr>rx_conn := ?c\<rparr>)"
    using assms(1,4) v(3) by simp
  have le: "hc_rx_parsed ?c \<le> hc_rx_head ?c" "hc_rx_head ?c - hc_rx_parsed ?c = 0"
    using k rx_ok_length [OF k(1)] by (simp_all add: rx_ok_def word_le_nat_alt unat_eq_zero [symmetric] word_nat_sub)
  obtain r' where r': "rx_step (r\<lparr>rx_conn := ?c\<rparr>) = Again r'" "hc_rx_head (rx_conn r') = 0" "hc_rx_parsed (rx_conn r') = 0"
    "rx_delivered r' = rx_delivered r @ [rsp\<lparr>rs_body := Some body, rs_body_len := ?cl\<rparr>]"
    "hc_pipeline_depth (rx_conn r') = d - 1" "hc_state (rx_conn r') = (if d - 1 > 0 then HTTP_WAIT_STATUS else HTTP_IDLE)"
    using le v(4) by (simp add: rx_step_def rx_done_def Let_def)
  from rx_loop_again [OF _ _ r'(1)] have "rx_loop (r\<lparr>rx_conn := ?c\<rparr>) = rx_loop r'" using k by simp
  also have "rx_loop r' = Some (0, r')"
    using r' by (subst rx_loop.simps) (auto simp: rx_more_def)
  finally show ?thesis using e1 r' by auto
qed

text \<open>Digits and fixed text hold no line end.\<close>

lemma no_cr_digits: "13 \<notin> set (digits 10 n)"
  using digits_nonspace(1) [of 10 n] digit_byte(6) [of 10 13] by auto

lemma count_header_simps [simp]:
  "rs_status_code (count_header rsp) = rs_status_code rsp" "rs_content_length (count_header rsp) = rs_content_length rsp"
  "rs_keep_alive (count_header rsp) = rs_keep_alive rsp" "rs_chunked (count_header rsp) = rs_chunked rsp"
  by (simp_all add: count_header_def)

lemma loop_type:
  assumes "rx_ok c" "rx_view c = (HTTP_WAIT_HEADERS, rsp, (case ct of Some x \<Rightarrow> str ''Content-Type: '' @ x @ CRLF | None \<Rightarrow> []) @ rest, d)"
    and "\<forall>x. ct = Some x \<longrightarrow> 13 \<notin> set x"
  shows "\<exists>c'. rx_loop (r\<lparr>rx_conn := c\<rparr>) = rx_loop (r\<lparr>rx_conn := c'\<rparr>) \<and> rx_ok c' \<and>
    rx_view c' = (HTTP_WAIT_HEADERS, if ct = None then rsp else count_header rsp, rest, d)"
proof (cases ct)
  case (Some x)
  have "13 \<notin> set (str ''Content-Type: '' @ x)" "str ''Content-Type: '' @ x \<noteq> []" using assms(3) Some by (simp_all add: str_def)
  from loop_header [OF assms(1) _ this, of rsp rest d r] show ?thesis
    using assms(2) Some by (simp only: type_parsed) simp
qed (use assms in auto)

lemma response_parsed:
  assumes "rx_ok c" "rx_view c = (st, rsp0, response_head status s ct (length body) @ body, d)" "st = HTTP_IDLE \<or> st = HTTP_WAIT_STATUS"
    and "100 \<le> status" "13 \<notin> set s" "\<forall>x. ct = Some x \<longrightarrow> 13 \<notin> set x" "length body < 2 ^ 32" "body \<noteq> []"
  shows "\<exists>r' rsp. rx_loop (r\<lparr>rx_conn := c\<rparr>) = Some (0, r') \<and> hc_rx_head (rx_conn r') = 0 \<and>
    rx_delivered r' = rx_delivered r @ [rsp] \<and> rs_status_code rsp = status \<and> rs_body rsp = Some body \<and> rs_keep_alive rsp \<and>
    rs_content_length rsp = word_of_nat (length body) \<and> rs_body_len rsp = word_of_nat (length body) \<and> \<not> rs_chunked rsp \<and>
    hc_pipeline_depth (rx_conn r') = d - 1 \<and> hc_state (rx_conn r') = (if d - 1 > 0 then HTTP_WAIT_STATUS else HTTP_IDLE)"
proof -
  define line where "line = str ''HTTP/1.1 '' @ digits 10 (unat status) @ str '' '' @ s"
  define cl where "cl = str ''Content-Length: '' @ digits 10 (length body)"
  define tl where "tl = (case ct of Some x \<Rightarrow> str ''Content-Type: '' @ x @ CRLF | None \<Rightarrow> [])"
  have sl: "status_line status (Some s) = line @ CRLF" by (simp add: line_def status_line_def)
  have b: "response_head status s ct (length body) @ body =
      line @ CRLF @ tl @ cl @ CRLF @ str ''Connection: keep-alive'' @ CRLF @ CRLF @ body"
    by (simp add: response_head_def sl tl_def cl_def)
  have n: "13 \<notin> set line" "13 \<notin> set cl" "cl \<noteq> []" using assms(5) no_cr_digits by (auto simp: line_def cl_def str_def)
  have p: "parse_status_line (line @ CRLF @ tail) (length line) rsp_zero = Some (rsp_zero\<lparr>rs_status_code := status\<rparr>)" for tail
    using status_parsed [OF assms(5,4), of tail rsp_zero] unfolding sl by (simp add: CRLF_def)
  from loop_status [OF assms(1) assms(2) [unfolded b] assms(3) n(1) p, of r] obtain c1 where
    c1: "rx_loop (r\<lparr>rx_conn := c\<rparr>) = rx_loop (r\<lparr>rx_conn := c1\<rparr>)" "rx_ok c1"
    "rx_view c1 = (HTTP_WAIT_HEADERS, rsp_zero\<lparr>rs_status_code := status\<rparr>, tl @ cl @ CRLF @ str ''Connection: keep-alive'' @ CRLF @ CRLF @ body, d)"
    by blast
  define r1 where "r1 = (if ct = None then rsp_zero\<lparr>rs_status_code := status\<rparr> else count_header (rsp_zero\<lparr>rs_status_code := status\<rparr>))"
  from loop_type [OF c1(2) c1(3) [unfolded tl_def] assms(6), of r, folded r1_def] obtain c2 where
    c2: "rx_loop (r\<lparr>rx_conn := c1\<rparr>) = rx_loop (r\<lparr>rx_conn := c2\<rparr>)" "rx_ok c2"
    "rx_view c2 = (HTTP_WAIT_HEADERS, r1, cl @ CRLF @ str ''Connection: keep-alive'' @ CRLF @ CRLF @ body, d)" by blast
  have "take 511 cl = cl" using length_digits [of "length body" 10] assms(7) by (simp add: cl_def str_def)
  moreover have "parse_header cl r1 = count_header (r1\<lparr>rs_content_length := word_of_nat (length body)\<rparr>)"
    unfolding cl_def by (rule length_parsed [OF assms(7)])
  ultimately obtain c3 where
    c3: "rx_loop (r\<lparr>rx_conn := c2\<rparr>) = rx_loop (r\<lparr>rx_conn := c3\<rparr>)" "rx_ok c3"
    "rx_view c3 = (HTTP_WAIT_HEADERS, count_header (r1\<lparr>rs_content_length := word_of_nat (length body)\<rparr>),
       str ''Connection: keep-alive'' @ CRLF @ CRLF @ body, d)"
    using loop_header [OF c2(2,3) n(2,3), of r] by auto
  have kn: "13 \<notin> set (str ''Connection: keep-alive'')" "str ''Connection: keep-alive'' \<noteq> []"
    "take 511 (str ''Connection: keep-alive'') = str ''Connection: keep-alive''" by (simp_all add: str_def)
  define rsp where "rsp = count_header ((count_header (r1\<lparr>rs_content_length := word_of_nat (length body)\<rparr>))\<lparr>rs_keep_alive := True\<rparr>)"
  from loop_header [OF c3(2,3) kn(1,2), of r] obtain c4 where
    c4: "rx_loop (r\<lparr>rx_conn := c3\<rparr>) = rx_loop (r\<lparr>rx_conn := c4\<rparr>)" "rx_ok c4" "rx_view c4 = (HTTP_WAIT_HEADERS, rsp, CRLF @ body, d)"
    unfolding kn(3) connection_parsed rsp_def [symmetric] by blast
  have "\<not> rs_chunked rsp" by (simp add: rsp_def r1_def rsp_zero_def)
  from loop_blank [OF c4(2,3) this, of r] obtain c5 where
    c5: "rx_loop (r\<lparr>rx_conn := c4\<rparr>) = rx_loop (r\<lparr>rx_conn := c5\<rparr>)" "rx_ok c5" "rx_view c5 = (HTTP_WAIT_BODY, rsp, body, d)" by blast
  have "rs_content_length rsp = word_of_nat (length body)" "rs_status_code rsp = status" "rs_keep_alive rsp" "\<not> rs_chunked rsp"
    by (simp_all add: rsp_def r1_def rsp_zero_def)
  with loop_body_done [OF c5(2,3) _ assms(8), of r] assms(7) show ?thesis
    unfolding c1(1) c2(1) c3(1) c4(1) c5(1) by (auto simp: unat_word_of_nat)
qed

text \<open>
  C34. A response with a body built by the server's builder is understood by the client's parser: whenever the builder has room for it and the status has three digits or more,
  feeding the bytes to a connection that waits for a response delivers exactly one response, with the status, the length and the body that were sent, and
  leaves the receive buffer empty and one request fewer outstanding.  The body must not be empty: a response without a body is not delivered until more bytes arrive.
  The text of the status and the content type hold no carriage return.
\<close>

theorem response_roundtrip:
  assumes "100 \<le> status" "13 \<notin> set s" "\<forall>x. ct = Some x \<longrightarrow> 13 \<notin> set x" "length (status_line status (Some s)) < 128"
    and "0 < len" "length body = unat len" "length (response_head status s ct (unat len)) + unat len < cap"
      "cap \<le> HTTP_RX_CAP - HTTP_RSP_SIZE"
    and "hc_rx_head c = 0" "hc_rx_parsed c = 0" "hc_state c = HTTP_IDLE \<or> hc_state c = HTTP_WAIT_STATUS"
  shows "\<exists>out r' rsp. http11_tx_response cap status (Some s) ct (Some body) len = Some (int (length out), out) \<and>
    http11_rx_data out (word_of_nat (length out)) c mt = Some (0, r') \<and> hc_rx_head (rx_conn r') = 0 \<and>
    rx_delivered r' = [rsp] \<and> rs_status_code rsp = status \<and> rs_content_length rsp = len \<and> rs_body_len rsp = len \<and>
    rs_body rsp = Some body \<and> rs_keep_alive rsp \<and> \<not> rs_chunked rsp \<and> hc_pipeline_depth (rx_conn r') = hc_pipeline_depth c - 1"
proof -
  let ?out = "response_head status s ct (unat len) @ body"
  have tx: "http11_tx_response cap status (Some s) ct (Some body) len = Some (int (length ?out), ?out)"
    using tx_response_eq [OF assms(4,7,5), of body] assms(6) by simp
  have cap: "length ?out < HTTP_RX_CAP - HTTP_RSP_SIZE" using assms(6,7,8) by simp
  then have w: "unat (word_of_nat (length ?out) :: u32) = length ?out"
    by (intro unat_word_of_nat) (simp add: HTTP_RX_CAP_def HTTP_MAX_BODY_def HTTP_RSP_SIZE_def)
  define c1 where "c1 = c\<lparr>hc_rx_buf := put_at 0 ?out (hc_rx_buf c), hc_rx_head := word_of_nat (length ?out)\<rparr>"
  have e: "http11_rx_data ?out (word_of_nat (length ?out)) c mt =
      rx_loop (\<lparr>rx_conn = c, rx_metrics = mt, rx_delivered = []\<rparr>\<lparr>rx_conn := c1\<rparr>)"
    using cap assms(9) w by (simp only: http11_rx_data_def Let_def c1_def) (simp add: HTTP_RX_CAP_def HTTP_MAX_BODY_def HTTP_RSP_SIZE_def)
  have ok: "rx_ok c1" using cap w assms(10) by (simp only: c1_def rx_ok_def) (simp add: put_at_def)
  have "rx_bytes c1 = ?out" using w assms(10) by (simp only: c1_def rx_bytes_def) (simp add: put_at_def)
  then have "rx_view c1 = (hc_state c, hc_rsp c, response_head status s ct (length body) @ body, hc_pipeline_depth c)"
    using assms(6) by (simp add: rx_view_def) (simp add: c1_def)
  moreover have "length body < 2 ^ 32" "body \<noteq> []" using assms(5,6) unat_lt_u32 [of len] by (auto simp: unat_eq_zero)
  ultimately obtain r' rsp where "rx_loop (\<lparr>rx_conn = c, rx_metrics = mt, rx_delivered = []\<rparr>\<lparr>rx_conn := c1\<rparr>) = Some (0, r')"
    "hc_rx_head (rx_conn r') = 0" "rx_delivered r' = [] @ [rsp]" "rs_status_code rsp = status" "rs_body rsp = Some body" "rs_keep_alive rsp"
    "rs_content_length rsp = word_of_nat (length body)" "rs_body_len rsp = word_of_nat (length body)" "\<not> rs_chunked rsp" "hc_pipeline_depth (rx_conn r') = hc_pipeline_depth c - 1"
    using response_parsed [OF ok _ assms(11,1,2,3), of "hc_rsp c" body "hc_pipeline_depth c" "\<lparr>rx_conn = c, rx_metrics = mt, rx_delivered = []\<rparr>"]
    by auto
  moreover have "word_of_nat (length body) = len" using assms(6) by simp
  ultimately show ?thesis using tx e by (intro exI [of _ ?out] exI [of _ r'] exI [of _ rsp]) simp
qed

subsection \<open>Chunks cut by a segment boundary\<close>

lemma rx_loop_chunk:
  assumes "rx_ok (rx_conn r)" "rx_bytes (rx_conn r) \<noteq> []" "hc_state (rx_conn r) = HTTP_WAIT_CHUNK"
  shows "rx_loop r = (case rx_chunk r of Again r' \<Rightarrow> rx_loop r' | Leave rc r' \<Rightarrow> Some (rc, r') | Crash \<Rightarrow> None)"
proof -
  have "rx_more r" using assms(1,2) by (auto simp: rx_more_def rx_ok_def rx_bytes_def word_less_nat_alt word_le_nat_alt)
  then show ?thesis using assms(1,3) by (subst rx_loop.simps) (simp add: rx_ok_def rx_step_def)
qed

text \<open>
  When the received data ends right behind the line of the last chunk, the parser steps over the
  final line end that has not arrived yet, and the compaction of the buffer then moves almost 4 GiB.
\<close>

lemma last_chunk_split_crashes:
  assumes "rx_ok (rx_conn r)" "hc_state (rx_conn r) = HTTP_WAIT_CHUNK" "rx_bytes (rx_conn r) = str ''0'' @ CRLF"
  shows "rx_loop r = None"
proof -
  let ?c = "rx_conn r"
  have "13 \<notin> set (str ''0'')" by (simp add: str_def)
  from rx_line [OF assms(1) _ this, of "[]"] assms(3)
  have l: "find_crlf (rx_bytes ?c) = Some 3" "rx_ok (consume 3 ?c)" "rx_bytes (consume 3 ?c) = []" by (simp_all add: str_def)
  have sz: "ucast (strtoul 16 (rx_bytes ?c)) = (0::u32)"
    unfolding assms(3) by (simp add: strtoul_def str_def CRLF_def is_space_byte_def skip_0x_def digit_val_def)
  define r1 where "r1 = r\<lparr>rx_conn := (consume 2 (consume 3 ?c))\<lparr>hc_state := HTTP_DONE\<rparr>\<rparr>"
  have a: "rx_chunk r = Again r1" using l(1) sz by (simp add: rx_chunk_def Let_def r1_def)
  define h where "h = hc_rx_head (consume 3 ?c)"
  have eq: "unat (hc_rx_parsed (consume 3 ?c)) = unat h" and cap: "unat h \<le> HTTP_RX_CAP"
    using rx_ok_length [OF l(2)] l(2,3) by (simp_all add: rx_ok_def word_le_nat_alt h_def)
  then have "hc_rx_parsed (consume 3 ?c) = h" by (metis word_of_nat_unat)
  then have p: "hc_rx_parsed (rx_conn r1) = h + 2" "hc_rx_head (rx_conn r1) = h" by (simp_all add: r1_def consume_def h_def)
  have "unat (h + 2) = unat h + 2" using cap by (simp add: word_nat_add_no_wrap HTTP_RX_CAP_def HTTP_MAX_BODY_def)
  then have "hc_rx_head (rx_conn r1) < hc_rx_parsed (rx_conn r1)" using p by (simp add: word_less_nat_alt)
  then have "rx_done r1 = Crash" by (simp add: rx_done_def)
  moreover have "hc_state (rx_conn r1) = HTTP_DONE" by (simp add: r1_def)
  ultimately have "rx_step r1 = Crash" by (simp add: rx_step_def)
  then have "rx_loop r1 = None" using \<open>hc_state (rx_conn r1) = HTTP_DONE\<close> by (subst rx_loop.simps) (simp add: rx_more_def)
  then show ?thesis using rx_loop_chunk [OF assms(1) _ assms(2)] assms(3) a by (simp add: CRLF_def)
qed

text \<open>
  A chunk that arrives in two pieces is lost: the first piece is left in the buffer without its
  size line, so that the parser will read the chunk's data as the size of the next chunk.
\<close>

theorem split_chunk_loses_size:
  fixes len :: u32
  assumes "rx_ok (rx_conn r)" "hc_state (rx_conn r) = HTTP_WAIT_CHUNK"
    and "rx_bytes (rx_conn r) = digits 16 (unat len) @ CRLF @ part" "0 < len" "unat len < 2 ^ 32 - 2" "length part < unat len + 2"
  shows "\<exists>r'. rx_loop r = Some (0, r') \<and> hc_state (rx_conn r') = HTTP_WAIT_CHUNK \<and> rx_bytes (rx_conn r') = part \<and>
    rx_delivered r' = rx_delivered r"
proof -
  let ?c = "rx_conn r" and ?d = "digits 16 (unat len)"
  have "\<forall>c\<in>set ?d. digit_val 16 c \<noteq> None" by (rule digits_nonspace) simp_all
  then have nc: "13 \<notin> set ?d" using digit_byte(6) [of 16 13] by auto
  note l = rx_line [OF assms(1,3) nc]
  have s: "unat (len + 2) = unat len + 2" using assms(5) word_nat_add_no_wrap [of len 2] by simp
  have sz: "ucast (strtoul 16 (rx_bytes ?c)) = len"
    unfolding assms(3) by (subst strtoul_digits) (use unat_lt_u32 [of len] in \<open>simp_all add: CRLF_def digit_val_def ucast_u64_u32\<close>)
  have "rx_chunk r = Leave 0 (r\<lparr>rx_conn := consume (word_of_nat (length ?d + 2)) ?c\<rparr>)"
    using l(1,3) assms(4,6) s unfolding rx_chunk_def Let_def sz by simp
  then show ?thesis using rx_loop_chunk [OF assms(1) _ assms(2)] assms(2,3) l(3) by (simp add: CRLF_def)
qed

subsection \<open>Witnesses\<close>

text \<open>A connection in the middle of a chunked body, with the given bytes not parsed yet.\<close>

definition demo_chunks :: "bytes \<Rightarrow> http_rx" where
  "demo_chunks bs = \<lparr>rx_conn = http11_conn_init\<lparr>hc_rx_buf := bs, hc_rx_head := word_of_nat (length bs),
     hc_state := HTTP_WAIT_CHUNK\<rparr>, rx_metrics = wm_zero, rx_delivered = []\<rparr>"

lemma demo_chunks_ok:
  assumes "length bs \<le> 100"
  shows "rx_ok (rx_conn (demo_chunks bs))" "rx_bytes (rx_conn (demo_chunks bs)) = bs"
    "hc_state (rx_conn (demo_chunks bs)) = HTTP_WAIT_CHUNK"
proof -
  have "unat (word_of_nat (length bs) :: u32) = length bs" using assms by (intro unat_word_of_nat) simp
  then show "rx_ok (rx_conn (demo_chunks bs))" "rx_bytes (rx_conn (demo_chunks bs)) = bs"
    "hc_state (rx_conn (demo_chunks bs)) = HTTP_WAIT_CHUNK"
    using assms by (simp_all add: rx_ok_def rx_bytes_def demo_chunks_def http11_conn_init_def HTTP_RX_CAP_def HTTP_MAX_BODY_def)
qed

theorem chunk_roundtrip_witness:
  "\<exists>c'. rx_step (demo_chunks (digits 16 2 @ CRLF @ [65, 66] @ CRLF)) =
      Again ((demo_chunks (digits 16 2 @ CRLF @ [65, 66] @ CRLF))\<lparr>rx_conn := c'\<rparr>) \<and>
    rx_ok c' \<and> hc_state c' = HTTP_WAIT_CHUNK \<and> rx_bytes c' = [] \<and> rs_body (hc_rsp c') = Some (take (unat (2::u32)) [65, 66, 67]) \<and>
    rs_body_len (hc_rsp c') = 2"
  by (rule chunk_roundtrip [where cap = 100 and n = 7 and out = "digits 16 2 @ CRLF @ [65, 66] @ CRLF"])
    (simp_all add: demo_chunks_ok http11_tx_chunk_def digits.simps [of 16 2] CRLF_def)

lemma last_chunk_split_crashes_witness: "rx_loop (demo_chunks (str ''0'' @ CRLF)) = None"
  by (rule last_chunk_split_crashes) (simp_all add: demo_chunks_ok str_def CRLF_def)

theorem split_chunk_loses_size_witness:
  "\<exists>r'. rx_loop (demo_chunks (digits 16 2 @ CRLF @ [65])) = Some (0, r') \<and> hc_state (rx_conn r') = HTTP_WAIT_CHUNK \<and>
    rx_bytes (rx_conn r') = [65] \<and> rx_delivered r' = rx_delivered (demo_chunks (digits 16 2 @ CRLF @ [65]))"
  by (rule split_chunk_loses_size [where len = 2]) (simp_all add: demo_chunks_ok digits.simps [of 16 2] CRLF_def)

theorem response_roundtrip_witness:
  "\<exists>out r' rsp. http11_tx_response 18000 200 (Some (str ''OK'')) (Some (str ''text/plain'')) (Some [65, 66, 67]) 3 =
      Some (int (length out), out) \<and>
    http11_rx_data out (word_of_nat (length out)) http11_conn_init wm_zero = Some (0, r') \<and> hc_rx_head (rx_conn r') = 0 \<and>
    rx_delivered r' = [rsp] \<and> rs_status_code rsp = 200 \<and> rs_content_length rsp = 3 \<and> rs_body_len rsp = 3 \<and> rs_body rsp = Some [65, 66, 67] \<and> rs_keep_alive rsp \<and>
    \<not> rs_chunked rsp \<and> hc_pipeline_depth (rx_conn r') = hc_pipeline_depth http11_conn_init - 1"
  by (rule response_roundtrip)
    (simp_all add: str_def status_line_def response_head_def digits.simps CRLF_def HTTP_RX_CAP_def HTTP_MAX_BODY_def
      HTTP_RSP_SIZE_def http11_conn_init_def)

end
