(* ===== verification/TxGenInv.thy ===== *)
theory TxGenInv
  imports TxGen HttpRoundtrip
begin

text \<open>
  The generator keeps the invariant of its worker and its rate: a burst returns, opens and feeds only valid
  connections, and starts no more than the token bucket allows.
\<close>

subsection \<open>Ports and opens\<close>

lemma sys_ok_ports: "sys_ok e w \<Longrightarrow> pool_ok wp \<Longrightarrow> sys_ok e (w\<lparr>ports := wp\<rparr>)"
  by (simp add: sys_ok_def worker_ok_def)

lemma sys_ok_rdtsc: "sys_ok e w \<Longrightarrow> sys_ok e (snd (rdtsc w))"
  by (simp add: sys_ok_def)

lemma connect_sys:
  assumes "sys_ok e w" "sport \<noteq> 0"
  shows "yields (tcp_fsm_connect e sip sport dip dport pid w) (\<lambda>(r, w'). sys_ok e w' \<and> capacity w' = capacity w \<and>
    (\<forall>i. r = Some i \<longrightarrow> i < capacity w \<and> in_use (tcb_at w' i) \<and> state (tcb_at w' i) = TCP_SYN_SENT \<and> app_state (tcb_at w' i) = 0))"
proof (cases "tcb_alloc (sip, sport, dip, dport) w")
  case (Pair r w1)
  show ?thesis
  proof (cases r)
    case None
    with Pair alloc_none [of _ w w1] have "w1 = w" by simp
    with None Pair assms show ?thesis by (simp add: tcp_fsm_connect_def)
  next
    case (Some i)
    show ?thesis
      by (rule yields_mono [OF connect_ok [OF assms Pair [unfolded Some], of pid]])
        (auto simp: opened_def moved_def conn_step_capacity intro: moved_sys [OF assms(1), of i "{TCP_SYN_SENT}"])
  qed
qed

text \<open>An allocated port is not zero, and both ways of giving it back keep the pool well formed.\<close>

lemma port_alloc_nonzero:
  assumes "pool_ok wp" "tcp_port_alloc ip wp = (Some p, wp')"
  shows "p \<noteq> 0" "pool_ok wp'"
proof -
  have "TGEN_EPHEM_LO \<le> unat p" and ok: "pool_ok wp'" using port_alloc_spec [OF assms] by simp_all
  then have "unat p \<noteq> 0" by (simp add: TGEN_EPHEM_LO_def)
  then show "p \<noteq> 0" by (rule contrapos_nn) simp
  show "pool_ok wp'" by (rule ok)
qed

lemma mark_moved:
  assumes "sys_ok e w" "i < capacity w" "in_use (tcb_at w i)" "state (tcb_at w i) = TCP_SYN_SENT"
    "link_neutral f" "state (f (tcb_at w i)) = TCP_SYN_SENT" "ctx_ok e (f (tcb_at w i))"
    "snd_buf (f (tcb_at w i)) = snd_buf (tcb_at w i)" "mss_remote (f (tcb_at w i)) = mss_remote (tcb_at w i)"
    "in_fast_recovery (f (tcb_at w i)) = in_fast_recovery (tcb_at w i)"
  shows "sys_ok e (upd_tcb i f w)"
proof -
  note g = sys_okD(4) [OF assms(1,2)]
  have "in_use (f (tcb_at w i))" using assms(3,5) by (simp add: link_neutral_def)
  then have "tcb_ok (f (tcb_at w i))" using goodD(7) [OF g] assms(4,6,8-10) by (simp add: tcb_ok_def)
  from moved_upd(1) [OF g assms(5) this assms(7)] show ?thesis by (rule moved_sys [OF assms(1) _ assms(2)])
qed

lemma mark_conn_sys:
  assumes "sys_ok e w" "i < capacity w" "in_use (tcb_at w i)" "state (tcb_at w i) = TCP_SYN_SENT" "req_ok e addr" "addr \<noteq> 1"
  shows "sys_ok e (upd_tcb i (mark_conn addr cfg) w)"
proof (rule mark_moved [OF assms(1-4)])
  have c: "ctx_ok e (tcb_at w i)" by (rule sys_okD(5) [OF assms(1,2)])
  show "ctx_ok e (mark_conn addr cfg (tcb_at w i))" using c assms(5,6) by (auto simp: ctx_ok_def mark_conn_def Let_def)
qed (use assms(4) in \<open>simp_all add: mark_conn_def link_neutral_def key_of_def Let_def\<close>)

lemma mark_stream_sys:
  assumes "sys_ok e w" "i < capacity w" "in_use (tcb_at w i)" "state (tcb_at w i) = TCP_SYN_SENT" "app_state (tcb_at w i) = 0"
  shows "sys_ok e (upd_tcb i (mark_stream cfg) w)"
  by (rule mark_moved [OF assms(1-4)])
    (use assms(4,5) in \<open>simp_all add: mark_stream_def link_neutral_def key_of_def Let_def ctx_ok_def\<close>)

lemma open_loop_ok:
  assumes "sys_ok e w" "req_ok e addr" "addr \<noteq> 1"
  shows "yields (open_loop e addr n st w) (\<lambda>(k, st', w'). k \<le> n \<and> sys_ok e w' \<and> capacity w' = capacity w \<and>
    (\<exists>x. st' = st\<lparr>tg_ip_pool_idx := x\<rparr>))"
  using assms(1)
proof (induction n arbitrary: st w)
  case 0
  then show ?case by (auto intro: exI [of _ "tg_ip_pool_idx st"])
next
  case (Suc n)
  obtain ip st1 where ip: "next_src_ip st = (ip, st1)" by force
  then have st1: "\<exists>x. st1 = st\<lparr>tg_ip_pool_idx := x\<rparr>" "tg_cfg st1 = tg_cfg st"
    by (auto simp: next_src_ip_def Let_def split: if_splits intro: exI [of _ "tg_ip_pool_idx st"])
  obtain port wp where a: "tcp_port_alloc ip (ports w) = (port, wp)" by force
  have pok: "pool_ok (ports w)" by (rule worker_okD(3) [OF sys_okD(2) [OF Suc.prems]])
  have wp: "pool_ok wp" using port_alloc_spec [OF pok a] by simp
  note s1 = sys_ok_ports [OF Suc.prems wp]
  show ?case
  proof (cases port)
    case None
    then show ?thesis using ip a st1(1) s1 by simp
  next
    case (Some p)
    note p = port_alloc_nonzero [OF pok a [unfolded Some]]
    from connect_sys [OF s1 p(1), of ip "cfg_dst_ip (tg_cfg st1)" "cfg_dst_port (tg_cfg st1)" "cfg_port_id (tg_cfg st1)"] obtain r w2
      where c: "tcp_fsm_connect e ip p (cfg_dst_ip (tg_cfg st1)) (cfg_dst_port (tg_cfg st1)) (cfg_port_id (tg_cfg st1)) (w\<lparr>ports := wp\<rparr>) = Some (r, w2)"
        and w2: "sys_ok e w2" "capacity w2 = capacity w"
        and r: "\<forall>i. r = Some i \<longrightarrow> i < capacity w \<and> in_use (tcb_at w2 i) \<and> state (tcb_at w2 i) = TCP_SYN_SENT \<and> app_state (tcb_at w2 i) = 0"
      by (auto simp: yields_def)
    show ?thesis
    proof (cases r)
      case None
      have "pool_ok (tcp_port_free_immediate ip p (ports w2))"
        by (rule pool_ok_free_immediate [OF worker_okD(3) [OF sys_okD(2) [OF w2(1)]]])
      with None Some ip a c st1(1) w2 show ?thesis by (simp add: sys_ok_ports)
    next
      case (Some i)
      let ?v = "upd_tcb i (mark_conn addr (tg_cfg st1)) w2"
      have "sys_ok e ?v" using r Some w2 assms(2,3) by (intro mark_conn_sys) auto
      from Suc.IH [OF this, of st1] obtain k st2 w3 where "open_loop e addr n st1 ?v = Some (k, st2, w3)" "k \<le> n" "sys_ok e w3"
        "capacity w3 = capacity ?v" "\<exists>x. st2 = st1\<lparr>tg_ip_pool_idx := x\<rparr>" by (auto simp: yields_def)
      with Some \<open>port = Some p\<close> ip a c st1(1) w2(2) show ?thesis by (auto simp: Let_def)
    qed
  qed
qed

subsection \<open>Token bucket\<close>

lemma refill_tokens: "tg_tokens st \<le> 32 \<Longrightarrow> tg_tokens (refill now hz st) \<le> 32"
  by (simp add: refill_def Let_def TX_GEN_MAX_BURST_def)

lemma refill_fields [simp]:
  "tg_cfg (refill now hz st) = tg_cfg st" "tg_tp_tcbs (refill now hz st) = tg_tp_tcbs st"
  "tg_tp_n_streams (refill now hz st) = tg_tp_n_streams st" "tg_tp_phase (refill now hz st) = tg_tp_phase st"
  by (simp_all add: refill_def Let_def)

lemma allowance_fields [simp]:
  "tg_cfg (snd (allowance now hz st)) = tg_cfg st" "tg_tp_tcbs (snd (allowance now hz st)) = tg_tp_tcbs st"
  "tg_tp_n_streams (snd (allowance now hz st)) = tg_tp_n_streams st" "tg_tp_phase (snd (allowance now hz st)) = tg_tp_phase st"
  by (simp_all add: allowance_def Let_def)

lemma small_tokens: "x \<le> 32 \<Longrightarrow> unat (ucast (x :: u64) :: u32) = unat x"
  by (simp add: unsigned_ucast_eq take_bit_nat_eq_self word_le_nat_alt)

lemma allowance_bound:
  assumes "tg_tokens st \<le> 32" "allowance now hz st = (n, st')"
  shows "unat n \<le> 32" "tg_tokens st' \<le> 32" "cfg_rate_pps (tg_cfg st) > 0 \<Longrightarrow> unat n = unat (tg_tokens st')"
proof -
  note r = refill_tokens [OF assms(1), of now hz]
  show "unat n \<le> 32" "tg_tokens st' \<le> 32" "cfg_rate_pps (tg_cfg st) > 0 \<Longrightarrow> unat n = unat (tg_tokens st')"
    using assms r small_tokens [OF r] by (auto simp: allowance_def Let_def TX_GEN_MAX_BURST_def word_le_nat_alt split: if_splits)
qed

lemma consume_fields [simp]:
  "tg_cfg (consume_tokens k st) = tg_cfg st" "tg_tp_tcbs (consume_tokens k st) = tg_tp_tcbs st"
  "tg_tp_n_streams (consume_tokens k st) = tg_tp_n_streams st"
  by (simp_all add: consume_tokens_def Let_def)

text \<open>What is started is paid for.\<close>

lemma take_tokens:
  fixes x :: u64
  assumes "k \<le> unat x" "x \<le> 32"
  shows "word_of_nat k \<le> x" "unat (x - word_of_nat k) + k = unat x"
proof -
  have k: "unat (word_of_nat k :: u64) = k" using assms by (simp add: unat_of_nat word_le_nat_alt)
  then show l: "word_of_nat k \<le> x" using assms(1) by (simp add: word_le_nat_alt)
  show "unat (x - word_of_nat k) + k = unat x" using unat_sub [OF l] k assms(1) by simp
qed

lemma consume_tokens_paid:
  assumes "tg_tokens st \<le> 32" "k \<le> unat (tg_tokens st)" "cfg_rate_pps (tg_cfg st) > 0"
  shows "unat (tg_tokens (consume_tokens k st)) + k \<le> unat (tg_tokens st)"
  using take_tokens [OF assms(2,1)] assms(3) word_sub_le [of 1 "tg_tokens st"] by (auto simp: consume_tokens_def Let_def word_le_nat_alt)

lemma consume_tokens_le: "tg_tokens (consume_tokens k st) \<le> tg_tokens st"
  by (auto simp: consume_tokens_def Let_def intro: word_sub_le)

subsection \<open>The prebuilt request\<close>

definition cfg_ok :: "env \<Rightarrow> bytes \<Rightarrow> tx_gen_config \<Rightarrow> bool" where
  "cfg_ok e extra cfg \<longleftrightarrow> cfg_http_method cfg \<le> 4 \<and> length (cfg_http_url cfg) \<le> 63 \<and> length (cfg_http_host cfg) \<le> 63 \<and>
     length extra \<le> 511 \<and> gen_eth_sz cfg + 28 + unat (cfg_pkt_size cfg) \<le> e_mbuf_tailroom e \<and> e_mbuf_tailroom e < 2 ^ 16"

definition req_built :: "http_prebuilt_req \<Rightarrow> bool" where
  "req_built hp \<longleftrightarrow> unat (hp_hdr_len hp) \<le> length (hp_hdr hp)"

lemma method_of_some: "x \<le> 4 \<Longrightarrow> \<exists>m. method_of x = Some m"
  by (auto simp: method_of_def word_unat_eq_iff word_le_nat_alt)

text \<open>The fields of the configuration are short enough for the 1024 bytes of the request buffer.\<close>

lemma request_short:
  assumes "length url \<le> 63" "length host \<le> 63" "length x \<le> 511"
    "req = \<lparr>hr_method = meth, hr_url = Some url, hr_host = Some host, hr_content_type = None, hr_body = None, hr_body_len = 0,
      hr_keep_alive = ka, hr_extra_headers = (if x \<noteq> [] then Some x else None)\<rparr>"
  shows "length (concat (request_pieces req)) \<le> 1024"
proof -
  have "length (method_str meth) \<le> 6" by (cases meth) (simp_all add: str_def)
  then show ?thesis using assms by (auto simp: request_pieces_def has_body_def str_def CRLF_def)
qed

lemma prebuild_ok:
  assumes "cfg_ok e extra cfg" "req_built hp"
  shows "yields (prebuild cfg extra hp) req_built"
proof (cases "cfg_proto cfg = TX_GEN_PROTO_HTTP \<and> hp_hdr_len hp = 0")
  case True
  obtain meth where m: "method_of (cfg_http_method cfg) = Some meth" using method_of_some assms(1) by (auto simp: cfg_ok_def)
  let ?url = "if cfg_http_url cfg \<noteq> [] then cfg_http_url cfg else str ''/''"
  let ?host = "if cfg_http_host cfg \<noteq> [] then cfg_http_host cfg else str ''localhost''"
  define req where "req = \<lparr>hr_method = meth, hr_url = Some ?url, hr_host = Some ?host, hr_content_type = None, hr_body = None, hr_body_len = 0,
    hr_keep_alive = cfg_txn_per_conn cfg > 1, hr_extra_headers = (if extra \<noteq> [] then Some extra else None)\<rparr>"
  define out where "out = concat (request_pieces req)"
  have l: "length out \<le> 1024" unfolding out_def
    by (rule request_short [OF _ _ _ req_def]) (use assms(1) in \<open>auto simp: cfg_ok_def str_def\<close>)
  have "appends 2048 (request_pieces req) [] = out" using appends_fit [of "[]" "request_pieces req" 2048] l by (simp add: out_def)
  moreover have "hr_body req = None" by (simp add: req_def)
  ultimately obtain conn where c: "http11_tx_request http11_conn_init req = Some (int (length out), conn)" "hc_tx_hdr conn = out"
    by (auto simp: http11_tx_request_def append_body_def has_body_def Let_def put_at_def http11_conn_init_def)
  have "unat (word_of_int (int (length out)) :: u32) \<le> length out" by (rule unat_word_of_int_nat_le)
  then show ?thesis using True m c l assms(2)
    by (auto simp: prebuild_def Let_def req_def [symmetric] req_built_def put_at_def)
next
  case False
  then show ?thesis using assms(2) by (auto simp: prebuild_def)
qed

lemma open_loop_yields:
  assumes "sys_ok e w" "req_ok e addr" "addr \<noteq> 1" "open_loop e addr n st w = Some (k, st', w')"
  shows "k \<le> n" "sys_ok e w'" "capacity w' = capacity w" "tg_cfg st' = tg_cfg st" "tg_tokens st' = tg_tokens st"
    "tg_tp_tcbs st' = tg_tp_tcbs st" "tg_tp_n_streams st' = tg_tp_n_streams st" "tg_pkts_sent st' = tg_pkts_sent st"
  using open_loop_ok [OF assms(1-3), of n st] assms(4) by (auto simp: yields_def)

text \<open>The invariant of the generator: the token bucket is within its size, and the streams are blocks of the store.\<close>

definition gen_ok :: "worker \<Rightarrow> tx_gen_state \<Rightarrow> bool" where
  "gen_ok w st \<longleftrightarrow> tg_tokens st \<le> 32 \<and> length (tg_tp_tcbs st) = 16 \<and> tg_tp_n_streams st \<le> 16 \<and>
     list_all (case_option True (\<lambda>i. i < capacity w)) (tg_tp_tcbs st)"

lemma gen_ok_fields:
  assumes "gen_ok w st" "tg_tokens st' \<le> 32" "tg_tp_tcbs st' = tg_tp_tcbs st" "tg_tp_n_streams st' = tg_tp_n_streams st" "capacity w' = capacity w"
  shows "gen_ok w' st'"
  using assms by (simp add: gen_ok_def)

lemma burst_connect_ok:
  assumes "sys_ok e w" "gen_ok w st" "req_ok e addr" "addr \<noteq> 1" "cfg_ok e extra (tg_cfg st)" "req_built hp"
  shows "yields (burst_connect e addr extra n hp st w) (\<lambda>(k, hp', st', w'). k \<le> unat n \<and> same_store e w w' \<and> gen_ok w' st' \<and> tg_cfg st' = tg_cfg st \<and> req_built hp' \<and>
    (k = 0 \<or> tg_tokens st' = tg_tokens (consume_tokens k st)) \<and> tg_tokens st' \<le> tg_tokens st)"
proof (cases "count w \<ge> TCP_MAX_INFLIGHT")
  case True
  then show ?thesis using assms by (simp add: burst_connect_def same_store_def)
next
  case False
  let ?n = "unat (min n (TCP_MAX_INFLIGHT - count w))"
  from prebuild_ok [OF assms(5,6)] obtain hp1 where h: "prebuild (tg_cfg st) extra hp = Some hp1" "req_built hp1" by (auto simp: yields_def)
  from open_loop_ok [OF assms(1,3,4), of ?n st] obtain k st1 w1 where o: "open_loop e addr ?n st w = Some (k, st1, w1)" by (auto simp: yields_def)
  note y = open_loop_yields [OF assms(1,3,4) o]
  let ?s = "st1\<lparr>tg_pkts_sent := tg_pkts_sent st1 + word_of_nat k\<rparr>"
  have "tg_tokens (consume_tokens k ?s) = tg_tokens (consume_tokens k st)" using y(4,5) by (simp add: consume_tokens_def Let_def)
  moreover have "tg_tokens (consume_tokens k st) \<le> 32" using consume_tokens_le [of k st] assms(2) by (auto simp: gen_ok_def)
  moreover have "k \<le> unat n" using y(1) by (simp add: min_def word_le_nat_alt split: if_splits)
  moreover have "gen_ok w1 (consume_tokens k ?s)" by (rule gen_ok_fields [OF assms(2)]) (use y calculation in simp_all)
  moreover have "tg_cfg (consume_tokens k ?s) = tg_cfg st" using y(4) by (simp add: consume_tokens_def Let_def)
  ultimately show ?thesis using False h o y(2,3) consume_tokens_le [of k st] by (simp add: burst_connect_def same_store_def)
qed

subsection \<open>Throughput streams\<close>

lemma stays_sys:
  assumes "sys_ok e w" "i < capacity w" "stays e i w w'"
  shows "sys_ok e w'" "capacity w' = capacity w"
  using moved_sys [OF assms(1) stays_moved [OF assms(3)] assms(2)] assms(3) conn_step_capacity by (auto simp: stays_def)

lemma evolves_sys:
  assumes "sys_ok e w" "i < capacity w" "evolves e i w w'"
  shows "sys_ok e w'" "capacity w' = capacity w"
  using moved_sys [OF assms(1) evolves_moved [OF assms(3)] assms(2)] assms(3) conn_step_capacity by (auto simp: evolves_def)

lemma send_sys:
  assumes "sys_ok e w" "i < capacity w" "unat len \<le> length data"
  shows "yields (tcp_fsm_send e i data len w) (\<lambda>r. same_store e w (snd r))"
  by (rule yields_mono [OF send_stays [OF sys_okD(4) [OF assms(1,2)] assms(3)]]) (simp add: same_store_def stays_sys [OF assms(1,2)])

lemma pump_plain_ok:
  assumes "sys_ok e w" "i < capacity w"
  shows "yields (pump_plain e i n w) (\<lambda>(k, w'). k \<le> n \<and> same_store e w w')"
  using assms
proof (induction n arbitrary: w)
  case 0
  then show ?case by (simp add: same_store_def)
next
  case (Suc n)
  have len: "unat (1400 :: u32) \<le> length TP_BUF" by (simp add: TP_BUF_def)
  from send_sys [OF Suc.prems len] obtain rc w1 where s: "tcp_fsm_send e i TP_BUF 1400 w = Some (rc, w1)" "same_store e w w1"
    by (auto simp: yields_def)
  from s(2) Suc.prems(2) Suc.IH [of w1] obtain k w2 where "pump_plain e i n w1 = Some (k, w2)" "k \<le> n" "same_store e w1 w2"
    by (auto simp: yields_def same_store_def)
  with s show ?case by (simp add: same_store_def)
qed

lemma pump_tls_ok:
  assumes "sys_ok e w" "i < capacity w"
  shows "yields (pump_tls e i w) (\<lambda>(k, w'). k \<le> 1 \<and> same_store e w w')"
proof (cases "tls_session_get i w")
  case None
  then show ?thesis using assms by (simp add: pump_tls_def same_store_def)
next
  case (Some sess)
  obtain ct_len ct sess' where t: "tls_encrypt (e_ssl e) sess TP_BUF 2048 = (ct_len, ct, sess')" by (cases "tls_encrypt (e_ssl e) sess TP_BUF 2048")
  let ?w = "tls_session_put i sess' w"
  have w: "sys_ok e ?w" "capacity ?w = capacity w"
    using stays_sys [OF assms, of ?w] stays_refl [OF sys_okD(4) [OF assms]] by simp_all
  have "ct_len > 0 \<Longrightarrow> ct_len = int (length ct)" using t by (auto simp: tls_encrypt_def Let_def split: prod.splits if_splits)
  then have "ct_len > 0 \<Longrightarrow> unat (word_of_int ct_len :: u32) \<le> length ct" using unat_word_of_int_nat_le by metis
  then have "ct_len > 0 \<Longrightarrow> yields (tcp_fsm_send e i ct (word_of_int ct_len) ?w) (\<lambda>r. same_store e w (snd r))"
    using send_sys [OF w(1), of i] w(2) assms(2) by (auto simp: same_store_def)
  then show ?thesis using Some w t
    by (cases "ct_len > 0") (auto simp: pump_tls_def yields_def add_tls_tx_def same_store_def Let_def)
qed

lemma pump_streams_ok:
  assumes "sys_ok e w" "list_all (case_option True (\<lambda>i. i < capacity w)) rs"
  shows "yields (pump_streams e tls rs w) (\<lambda>(k, w'). same_store e w w')"
  using assms
proof (induction rs arbitrary: w)
  case Nil
  then show ?case by (simp add: same_store_def)
next
  case (Cons r rs)
  have "yields (pump_stream e tls r w) (\<lambda>(k, w'). same_store e w w')"
  proof (cases r)
    case None
    then show ?thesis using Cons.prems(1) by (simp add: pump_stream_def same_store_def)
  next
    case (Some i)
    then have i: "i < capacity w" using Cons.prems(2) by simp
    then show ?thesis using Some Cons.prems(1) pump_plain_ok [OF Cons.prems(1) i, of 32] pump_tls_ok [OF Cons.prems(1) i]
      by (auto simp: pump_stream_def same_store_def elim!: yields_mono)
  qed
  then obtain k w1 where "pump_stream e tls r w = Some (k, w1)" "same_store e w w1" by (auto simp: yields_def)
  with Cons.prems(2) Cons.IH [of w1] show ?case by (auto simp: yields_def same_store_def)
qed

lemma close_streams_ok:
  assumes "sys_ok e w" "list_all (case_option True (\<lambda>i. i < capacity w)) rs"
  shows "yields (close_streams e rs w) (same_store e w)"
  using assms
proof (induction rs arbitrary: w)
  case Nil
  then show ?case by (simp add: same_store_def)
next
  case (Cons r rs)
  have "yields (case r of None \<Rightarrow> Some w | Some i \<Rightarrow> if stream_open (tcb_at w i) then map_option snd (tcp_fsm_close e i w) else Some w) (same_store e w)"
  proof (cases r)
    case (Some i)
    then have i: "i < capacity w" using Cons.prems(2) by simp
    note c = yields_mono [OF close_evolves [OF sys_okD(4) [OF Cons.prems(1) i]]]
    show ?thesis using Some Cons.prems(1) c [of "\<lambda>r. same_store e w (snd r)"] evolves_sys [OF Cons.prems(1) i] by (simp add: same_store_def)
  qed (use Cons.prems(1) in \<open>simp add: same_store_def\<close>)
  then obtain w1 where "(case r of None \<Rightarrow> Some w | Some i \<Rightarrow> if stream_open (tcb_at w i) then map_option snd (tcp_fsm_close e i w) else Some w) = Some w1"
    "same_store e w w1" by (auto simp: yields_def)
  with Cons.prems(2) Cons.IH [of w1] show ?case by (auto simp: yields_def same_store_def)
qed

lemma stream_loop_ok:
  assumes "sys_ok e w" "gen_ok w st" "tg_tp_n_streams st + length is \<le> 16"
  shows "yields (stream_loop e is st w) (\<lambda>(st', w'). same_store e w w' \<and> gen_ok w' st' \<and> tg_cfg st' = tg_cfg st \<and> tg_tokens st' = tg_tokens st)"
  using assms
proof (induction "is" arbitrary: st w)
  case Nil
  then show ?case by (simp add: same_store_def)
next
  case (Cons i "is")
  let ?cfg = "tg_cfg st" let ?ip = "cfg_src_ip ?cfg"
  obtain port wp where a: "tcp_port_alloc ?ip (ports w) = (port, wp)" by force
  have pok: "pool_ok (ports w)" by (rule worker_okD(3) [OF sys_okD(2) [OF Cons.prems(1)]])
  have wp: "pool_ok wp" using port_alloc_spec [OF pok a] by simp
  note s1 = sys_ok_ports [OF Cons.prems(1) wp]
  show ?case
  proof (cases port)
    case None
    then show ?thesis using a s1 Cons.prems(2) by (simp add: same_store_def gen_ok_def)
  next
    case (Some p)
    note p = port_alloc_nonzero [OF pok a [unfolded Some]]
    from connect_sys [OF s1 p(1), of ?ip "cfg_dst_ip ?cfg" "cfg_dst_port ?cfg" "cfg_port_id ?cfg"] obtain r w2
      where c: "tcp_fsm_connect e ?ip p (cfg_dst_ip ?cfg) (cfg_dst_port ?cfg) (cfg_port_id ?cfg) (w\<lparr>ports := wp\<rparr>) = Some (r, w2)"
        and w2: "sys_ok e w2" "capacity w2 = capacity w"
        and r: "\<forall>i. r = Some i \<longrightarrow> i < capacity w \<and> in_use (tcb_at w2 i) \<and> state (tcb_at w2 i) = TCP_SYN_SENT \<and> app_state (tcb_at w2 i) = 0"
      by (auto simp: yields_def)
    show ?thesis
    proof (cases r)
      case None
      have "pool_ok (ports (snd (rdtsc w2)))" by (rule worker_okD(3) [OF sys_okD(2) [OF sys_ok_rdtsc [OF w2(1)]]])
      from pool_ok_free [OF this] have "sys_ok e (snd (rdtsc w2)\<lparr>ports := tcp_port_free (fst (rdtsc w2)) ?ip p (ports (snd (rdtsc w2)))\<rparr>)"
        by (rule sys_ok_ports [OF sys_ok_rdtsc [OF w2(1)]])
      with None Some a c w2(2) Cons.prems(2) show ?thesis by (simp add: case_prod_beta same_store_def gen_ok_def)
    next
      case (Some t)
      let ?v = "upd_tcb t (mark_stream ?cfg) w2"
      let ?st = "st\<lparr>tg_tp_tcbs := (tg_tp_tcbs st)[i := Some t], tg_tp_n_streams := tg_tp_n_streams st + 1\<rparr>"
      have v: "sys_ok e ?v" using r Some w2 by (intro mark_stream_sys) auto
      have "gen_ok ?v ?st" using Cons.prems(2,3) r Some w2(2)
        by (auto simp: gen_ok_def list_all_iff dest!: set_update_subset_insert [THEN subsetD])
      from Cons.IH [OF v this] Cons.prems(3) obtain st2 w3 where "stream_loop e is ?st ?v = Some (st2, w3)" "same_store e ?v w3"
        "gen_ok w3 st2" "tg_cfg st2 = tg_cfg st" "tg_tokens st2 = tg_tokens st" by (auto simp: yields_def)
      with Some \<open>port = Some p\<close> a c w2(2) show ?thesis by (simp add: Let_def same_store_def)
    qed
  qed
qed

lemma stream_count_le: "stream_count cfg \<le> 16"
  by (simp add: stream_count_def Let_def)

lemma list_all_take: "list_all P xs \<Longrightarrow> list_all P (take n xs)"
  and list_all_drop: "list_all P xs \<Longrightarrow> list_all P (drop n xs)"
  by (auto simp: list_all_iff dest: in_set_takeD in_set_dropD)

lemma burst_throughput_ok:
  assumes "sys_ok e w" "gen_ok w st"
  shows "yields (burst_throughput e st w) (\<lambda>(k, st', w'). same_store e w w' \<and> gen_ok w' st' \<and> tg_cfg st' = tg_cfg st \<and> tg_tokens st' = tg_tokens st)"
proof (cases "tg_tp_phase st = 0")
  case True
  have "gen_ok w (st\<lparr>tg_tp_n_streams := 0\<rparr>)" using assms(2) by (simp add: gen_ok_def)
  from stream_loop_ok [OF assms(1) this, of "[0..<stream_count (tg_cfg st)]"] stream_count_le [of "tg_cfg st"]
  show ?thesis using True by (auto simp: burst_throughput_def yields_def gen_ok_def)
next
  case False
  let ?rs = "take (tg_tp_n_streams st) (tg_tp_tcbs st)"
  have "list_all (case_option True (\<lambda>i. i < capacity w)) ?rs" using assms(2) by (auto simp: gen_ok_def intro: list_all_take)
  from pump_streams_ok [OF assms(1) this, of "cfg_enable_tls (tg_cfg st)"] show ?thesis using False assms(2)
    by (auto simp: burst_throughput_def yields_def gen_ok_def same_store_def)
qed

lemma deadline_reached_ok:
  assumes "sys_ok e w" "gen_ok w st"
  shows "yields (deadline_reached e st w) (\<lambda>(st', w'). same_store e w w' \<and> gen_ok w' st' \<and> \<not> tg_active st' \<and> tg_tokens st' = tg_tokens st)"
proof (cases "cfg_proto (tg_cfg st) = TX_GEN_PROTO_THROUGHPUT")
  case True
  have "list_all (case_option True (\<lambda>i. i < capacity w)) (take (tg_tp_n_streams st) (tg_tp_tcbs st))"
    using assms(2) by (auto simp: gen_ok_def intro: list_all_take)
  from close_streams_ok [OF assms(1) this] show ?thesis using True assms(2)
    by (auto simp: deadline_reached_def yields_def gen_ok_def same_store_def list_all_drop) (simp add: list_all_length)
next
  case False
  then show ?thesis using assms by (simp add: deadline_reached_def gen_ok_def same_store_def)
qed

subsection \<open>Packets\<close>

lemma next_src_ip_fields:
  assumes "next_src_ip st = (ip, st')"
  shows "tg_cfg st' = tg_cfg st" "tg_tokens st' = tg_tokens st" "tg_tp_tcbs st' = tg_tp_tcbs st" "tg_tp_n_streams st' = tg_tp_n_streams st"
  using assms by (auto simp: next_src_ip_def Let_def split: if_splits)

definition built :: "tx_gen_state \<Rightarrow> worker \<Rightarrow> nat \<Rightarrow> tx_gen_state \<Rightarrow> worker \<Rightarrow> bool" where
  "built st w n st' w' \<longleftrightarrow> (\<exists>x. w' = w\<lparr>ext_pos := x, mbufs_held := mbufs_held w + int n\<rparr>) \<and> tg_cfg st' = tg_cfg st \<and>
     tg_tokens st' = tg_tokens st \<and> tg_tp_tcbs st' = tg_tp_tcbs st \<and> tg_tp_n_streams st' = tg_tp_n_streams st"

lemma gen_alloc_ok:
  assumes "len \<le> e_mbuf_tailroom e" "e_mbuf_tailroom e < 2 ^ 16"
  shows "yields (gen_alloc e len w) (\<lambda>(ok, w'). built st w (if ok then 1 else 0) st w')"
proof -
  have "unat (word_of_nat len :: u16) = len" using assms by (simp add: unat_of_nat take_bit_nat_eq_self)
  then show ?thesis using assms
    by (auto simp: gen_alloc_def built_def mbuf_alloc_def next_ext_def Let_def intro: exI [of _ "Suc (ext_pos w)"])
qed

lemma built_state: "built st w n st w' \<Longrightarrow> tg_cfg st' = tg_cfg st \<Longrightarrow> tg_tokens st' = tg_tokens st \<Longrightarrow>
  tg_tp_tcbs st' = tg_tp_tcbs st \<Longrightarrow> tg_tp_n_streams st' = tg_tp_n_streams st \<Longrightarrow> built st w n st' w'"
  by (simp add: built_def)

lemma build_packet_ok:
  assumes "cfg_ok e extra (tg_cfg st)"
  shows "yields (build_packet e st w) (\<lambda>(p, st', w'). built st w (if p = None then 0 else 1) st' w')"
proof -
  let ?cfg = "tg_cfg st" let ?len = "gen_eth_sz ?cfg + 20 + 8 + unat (cfg_pkt_size ?cfg)"
  have fit: "?len \<le> e_mbuf_tailroom e" "e_mbuf_tailroom e < 2 ^ 16" using assms by (simp_all add: cfg_ok_def)
  then have u: "unat (word_of_nat (8 + unat (cfg_pkt_size ?cfg)) :: u16) = 8 + unat (cfg_pkt_size ?cfg)"
    by (simp only: unat_of_nat) (simp add: take_bit_nat_eq_self)
  from gen_alloc_ok [OF fit, of w st] obtain ok w1 where g: "gen_alloc e ?len w = Some (ok, w1)" "built st w (if ok then 1 else 0) st w1"
    by (auto simp: yields_def)
  obtain ip st1 where n: "next_src_ip st = (ip, st1)" by force
  note f = next_src_ip_fields [OF n]
  have i: "yields (build_icmp_echo e st w) (\<lambda>(p, st', w'). built st w (if p = None then 0 else 1) st' w')"
    using g n f by (auto simp: build_icmp_echo_def ICMP_HDR_LEN_def Let_def intro: built_state)
  have "yields (build_udp_datagram e st w) (\<lambda>(p, st', w'). built st w (if p = None then 0 else 1) st' w')"
    using g n f fit(1) unfolding build_udp_datagram_def u Let_def by (auto simp: add.assoc intro: built_state)
  with i show ?thesis by (cases "cfg_proto ?cfg") (auto simp: build_packet_def built_def intro: exI [of _ "ext_pos w"])
qed

lemma build_burst_ok:
  assumes "cfg_ok e extra (tg_cfg st)"
  shows "yields (build_burst e n st w) (\<lambda>(ps, st', w'). length ps \<le> n \<and> built st w (length ps) st' w')"
  using assms
proof (induction n arbitrary: st w)
  case 0
  then show ?case by (auto simp: built_def intro: exI [of _ "ext_pos w"])
next
  case (Suc n)
  from build_packet_ok [OF Suc.prems, of w] obtain p st1 w1
    where p: "build_packet e st w = Some (p, st1, w1)" "built st w (if p = None then 0 else 1) st1 w1" by (auto simp: yields_def)
  have "cfg_ok e extra (tg_cfg st1)" using p(2) Suc.prems by (simp add: built_def)
  from Suc.IH [OF this, of w1] obtain ps st2 w2
    where "build_burst e n st1 w1 = Some (ps, st2, w2)" "length ps \<le> n" "built st1 w1 (length ps) st2 w2" by (auto simp: yields_def)
  with p show ?case by (cases p) (auto simp: built_def add.assoc)
qed

lemma sys_ok_ext: "sys_ok e w \<Longrightarrow> sys_ok e (w\<lparr>ext_pos := x\<rparr>)"
  by (simp add: sys_ok_def worker_ok_def)

text \<open>A burst of packets holds no buffer longer than the call, and is paid for with tokens.\<close>

lemma burst_packets_ok:
  assumes "sys_ok e w" "gen_ok w st" "cfg_ok e extra (tg_cfg st)"
  shows "yields (burst_packets e n st w) (\<lambda>(k, ps, st', w'). k \<le> unat n \<and> k = length ps \<and> same_store e w w' \<and> gen_ok w' st' \<and> tg_cfg st' = tg_cfg st \<and>
    tg_tokens st' \<le> tg_tokens st \<and>
    (cfg_rate_pps (tg_cfg st) > 0 \<and> unat n \<le> unat (tg_tokens st) \<longrightarrow> unat (tg_tokens st') + k = unat (tg_tokens st)))"
proof -
  from build_burst_ok [OF assms(3), of "unat n" w] obtain ps st1 w1
    where b: "build_burst e (unat n) st w = Some (ps, st1, w1)" "length ps \<le> unat n" "built st w (length ps) st1 w1" by (auto simp: yields_def)
  then obtain x where w1: "w1 = w\<lparr>ext_pos := x, mbufs_held := mbufs_held w + int (length ps)\<rparr>"
    and f: "tg_cfg st1 = tg_cfg st" "tg_tokens st1 = tg_tokens st" "tg_tp_tcbs st1 = tg_tp_tcbs st" "tg_tp_n_streams st1 = tg_tp_n_streams st"
    by (auto simp: built_def)
  show ?thesis
  proof (cases "ps = []")
    case True
    then have "w1 = w\<lparr>ext_pos := x\<rparr>" using w1 by simp
    then show ?thesis using True b(1) f assms(1,2) by (simp add: burst_packets_def same_store_def gen_ok_def sys_ok_ext)
  next
    case False
    define k where "k = min (e_tx_burst e (ext_pos w1) (length ps)) (length ps)"
    define st2 where "st2 = st1\<lparr>tg_pkts_dropped := tg_pkts_dropped st1 + word_of_nat (length ps - k), tg_pkts_sent := tg_pkts_sent st1 + word_of_nat k\<rparr>"
    define st3 where "st3 = (if cfg_rate_pps (tg_cfg st2) > 0 \<and> word_of_nat k \<le> tg_tokens st2
      then st2\<lparr>tg_tokens := tg_tokens st2 - word_of_nat k\<rparr> else st2)"
    have "(next_ext w1)\<lparr>mbufs_held := mbufs_held w1 - int (length ps)\<rparr> = w\<lparr>ext_pos := x + 1\<rparr>" by (simp add: w1 next_ext_def)
    then have e: "burst_packets e n st w = Some (k, take k ps, st3,
        upd_metrics (count_proto (cfg_proto (tg_cfg st3)) k \<circ>
          worker_metrics_add_tx (word_of_nat k) (sum_list (map (\<lambda>p. word_of_nat (pkt_len p)) (take k ps)))) (w\<lparr>ext_pos := x + 1\<rparr>))"
      using False b(1) unfolding burst_packets_def st3_def st2_def k_def by (simp add: Let_def)
    have kn: "k \<le> unat n" using b(2) by (simp add: k_def)
    have le: "tg_tokens st3 \<le> tg_tokens st" using f(2) by (auto simp: st3_def st2_def intro: word_sub_le)
    have t32: "tg_tokens st \<le> 32" using assms(2) by (simp add: gen_ok_def)
    have paid: "unat (tg_tokens st3) + k = unat (tg_tokens st)" if "cfg_rate_pps (tg_cfg st) > 0" "unat n \<le> unat (tg_tokens st)"
      using take_tokens [of k "tg_tokens st"] that kn t32 f(1,2) by (simp add: st3_def st2_def)
    have "gen_ok w st3" by (rule gen_ok_fields [OF assms(2)]) (use f le t32 in \<open>auto simp: st3_def st2_def\<close>)
    moreover have "tg_cfg st3 = tg_cfg st" "length (take k ps) = k" using f(1) by (simp_all add: st3_def st2_def k_def)
    ultimately show ?thesis unfolding e using kn le paid sys_ok_ext [OF assms(1)] by (auto simp: same_store_def gen_ok_def)
  qed
qed

subsection \<open>The burst\<close>

lemma burst_ok:
  assumes "sys_ok e w" "gen_ok w st" "req_ok e addr" "addr \<noteq> 1" "cfg_ok e extra (tg_cfg st)" "req_built hp"
  shows "yields (tx_gen_burst e addr extra hp st w) (\<lambda>(k, ps, hp', st', w'). same_store e w w' \<and> gen_ok w' st' \<and> req_built hp' \<and> (\<not> tg_active st' \<or> tg_cfg st' = tg_cfg st) \<and>
    (cfg_proto (tg_cfg st) \<noteq> TX_GEN_PROTO_THROUGHPUT \<longrightarrow> k \<le> 32))"
proof -
  obtain now w1 where r: "rdtsc w = (now, w1)" by force
  then have w1: "sys_ok e w1" "tsc_hz w1 \<noteq> 0" "capacity w1 = capacity w"
    using sys_ok_rdtsc [OF assms(1)] worker_okD(4) [OF sys_okD(2) [OF sys_ok_rdtsc [OF assms(1)]]] by (auto simp: rdtsc_def)
  obtain n st1 where a: "allowance now (tsc_hz w1) st = (n, st1)" by force
  have t32: "tg_tokens st \<le> 32" using assms(2) by (simp add: gen_ok_def)
  note b = allowance_bound [OF t32 a]
  have f: "tg_cfg st1 = tg_cfg st" using allowance_fields(1) [of now "tsc_hz w1" st] a by simp
  have g: "gen_ok w1 st" "gen_ok w1 st1" "gen_ok w1 (st\<lparr>tg_active := False\<rparr>)" using assms(2) b(2) w1(3) allowance_fields(2,3) [of now "tsc_hz w1" st] a
    by (simp_all add: gen_ok_def)
  consider (off) "\<not> tg_active st"
    | (dead) "tg_active st" "tg_deadline_tsc st > 0 \<and> now \<ge> tg_deadline_tsc st"
    | (max) "tg_active st" "\<not> (tg_deadline_tsc st > 0 \<and> now \<ge> tg_deadline_tsc st)"
        "cfg_max_initiations (tg_cfg st) > 0 \<and> tg_pkts_sent st \<ge> ucast (cfg_max_initiations (tg_cfg st))"
    | (go) "tg_active st" "\<not> (tg_deadline_tsc st > 0 \<and> now \<ge> tg_deadline_tsc st)"
        "\<not> (cfg_max_initiations (tg_cfg st) > 0 \<and> tg_pkts_sent st \<ge> ucast (cfg_max_initiations (tg_cfg st)))" by blast
  then show ?thesis
  proof cases
    case off
    then show ?thesis using assms by (simp add: tx_gen_burst_def same_store_def)
  next
    case dead
    then show ?thesis using deadline_reached_ok [OF w1(1) g(1)] assms(6) r w1(3) by (auto simp: tx_gen_burst_def yields_def same_store_def)
  next
    case max
    then have "tx_gen_burst e addr extra hp st w = Some (0, [], hp, st\<lparr>tg_active := False\<rparr>, w1)"
      using r unfolding tx_gen_burst_def by (auto simp: Let_def)
    then show ?thesis using w1(1,3) g(3) assms(6) by (simp add: same_store_def)
  next
    case go
    note c = burst_connect_ok [OF w1(1) g(2) assms(3,4) assms(5) [folded f] assms(6), of n]
    note t = burst_throughput_ok [OF w1(1) g(2)] note p = burst_packets_ok [OF w1(1) g(2) assms(5) [folded f], of n]
    have e: "tx_gen_burst e addr extra hp st w = (if n = 0 then Some (0, [], hp, st1, w1) else burst_proto e addr extra n hp st1 w1)"
      using go r w1(2) a unfolding tx_gen_burst_def by (auto simp: Let_def)
    show ?thesis unfolding e using c t p b(1) g(2) w1(1,3) assms(6) f by (auto simp: yields_def same_store_def burst_proto_def)
  qed
qed

text \<open>
  C13. A burst of the traffic generator always returns, whatever ports, buffers and blocks are available, and keeps
  the worker's invariant and its own: it holds no packet buffer, its streams are blocks of the store, the prebuilt request fits its
  buffer, and, streams apart, it starts at most 32 packets or connections.  This asks for the configuration's
  strings to be as long as their arrays allow and the packets to fit a packet buffer.
\<close>

theorem burst_keeps_worker:
  assumes "sys_ok e w" "gen_ok w st" "req_ok e addr" "addr \<noteq> 1" "cfg_ok e extra (tg_cfg st)" "req_built hp"
  shows "\<exists>k ps hp' st' w'. tx_gen_burst e addr extra hp st w = Some (k, ps, hp', st', w') \<and> sys_ok e w' \<and> gen_ok w' st' \<and> req_built hp' \<and>
    (cfg_proto (tg_cfg st) = TX_GEN_PROTO_THROUGHPUT \<or> k \<le> 32)"
  using burst_ok [OF assms] by (auto simp: yields_def same_store_def)

subsection \<open>The rate\<close>

text \<open>The fields that opening and building leave alone.\<close>

definition gen_core :: "tx_gen_state \<Rightarrow> tx_gen_config \<times> u64 \<times> u64 \<times> u64" where
  "gen_core st = (tg_cfg st, tg_start_tsc st, tg_tokens st, tg_last_refill_tsc st)"

lemma next_src_ip_frame: "gen_core (snd (next_src_ip st)) = gen_core st" "tg_cfg (snd (next_src_ip st)) = tg_cfg st"
  by (simp_all add: next_src_ip_def gen_core_def Let_def)

lemma open_loop_frame:
  "open_loop e addr n st w = Some (k, st', w') \<Longrightarrow> k \<le> n \<and> gen_core st' = gen_core st"
proof (induction n arbitrary: st w k)
  case (Suc n)
  obtain ip st1 where ip: "next_src_ip st = (ip, st1)" by force
  note f = next_src_ip_frame [of st, unfolded ip, simplified]
  show ?case using Suc.prems f ip
    by (auto simp: Let_def bind_eq_Some_conv split: prod.splits option.splits dest!: Suc.IH)
qed simp

lemma build_packet_frame:
  assumes "build_packet e st w = Some (p, st', w')"
  shows "gen_core st' = gen_core st"
proof -
  obtain ip st1 where ip: "next_src_ip st = (ip, st1)" by force
  note f = next_src_ip_frame [of st, unfolded ip, simplified]
  have "gen_core (st1\<lparr>tg_seq := y\<rparr>) = gen_core st" for y using f by (simp add: gen_core_def)
  then show ?thesis using assms ip
    by (auto simp: build_packet_def build_icmp_echo_def build_udp_datagram_def Let_def bind_eq_Some_conv split: tx_gen_proto.splits if_splits)
qed

lemma build_burst_frame:
  "build_burst e n st w = Some (ps, st', w') \<Longrightarrow> length ps \<le> n \<and> gen_core st' = gen_core st"
  by (induction n arbitrary: st w ps) (auto simp: bind_eq_Some_conv split: option.splits dest!: build_packet_frame)

text \<open>A burst that gets through the guards pays for what it starts.\<close>

definition pays :: "nat \<Rightarrow> tx_gen_state \<Rightarrow> tx_gen_state \<Rightarrow> bool" where
  "pays k st st' \<longleftrightarrow> tg_cfg st' = tg_cfg st \<and> tg_start_tsc st' = tg_start_tsc st \<and> tg_last_refill_tsc st' = tg_last_refill_tsc st \<and>
     unat (tg_tokens st') + k \<le> unat (tg_tokens st)"

lemma connect_pays:
  assumes "burst_connect e addr extra n hp st w = Some (k, hp', st', w')" "unat n \<le> unat (tg_tokens st)" "tg_tokens st \<le> 32" "cfg_rate_pps (tg_cfg st) > 0"
  shows "pays k st st'"
proof (cases "count w \<ge> TCP_MAX_INFLIGHT")
  case True
  then show ?thesis using assms(1) by (simp add: burst_connect_def pays_def)
next
  case False
  then obtain st1 where o: "open_loop e addr (unat (min n (TCP_MAX_INFLIGHT - count w))) st w = Some (k, st1, w')"
    and st': "st' = consume_tokens k (st1\<lparr>tg_pkts_sent := tg_pkts_sent st1 + word_of_nat k\<rparr>)"
    using assms(1) by (auto simp: burst_connect_def bind_eq_Some_conv)
  note f = open_loop_frame [OF o]
  have k: "k \<le> unat (tg_tokens st)" using f assms(2) by (auto simp: min_def word_le_nat_alt split: if_splits)
  have "unat (tg_tokens st') + k \<le> unat (tg_tokens st)" unfolding st'
    using consume_tokens_paid [of "st1\<lparr>tg_pkts_sent := tg_pkts_sent st1 + word_of_nat k\<rparr>" k] f k assms(3,4) by (simp add: gen_core_def)
  moreover have "tg_start_tsc st' = tg_start_tsc st1" "tg_last_refill_tsc st' = tg_last_refill_tsc st1" "tg_cfg st' = tg_cfg st1"
    unfolding st' by (simp_all add: consume_tokens_def Let_def)
  ultimately show ?thesis using f by (simp add: pays_def gen_core_def)
qed

lemma packets_pay:
  assumes "burst_packets e n st w = Some (k, ps, st', w')" "unat n \<le> unat (tg_tokens st)" "tg_tokens st \<le> 32" "cfg_rate_pps (tg_cfg st) > 0"
  shows "pays k st st'"
proof -
  obtain qs st1 w1 where b: "build_burst e (unat n) st w = Some (qs, st1, w1)" using assms(1) by (auto simp: burst_packets_def bind_eq_Some_conv)
  note f = build_burst_frame [OF b]
  show ?thesis
  proof (cases "qs = []")
    case True
    then show ?thesis using assms(1) b f by (simp add: burst_packets_def pays_def gen_core_def)
  next
    case False
    then have k: "k \<le> length qs" "tg_cfg st' = tg_cfg st1" "tg_start_tsc st' = tg_start_tsc st1" "tg_last_refill_tsc st' = tg_last_refill_tsc st1"
      "tg_tokens st' = (if cfg_rate_pps (tg_cfg st1) > 0 \<and> word_of_nat k \<le> tg_tokens st1 then tg_tokens st1 - word_of_nat k else tg_tokens st1)"
      using assms(1) b by (auto simp: burst_packets_def Let_def)
    then have "k \<le> unat (tg_tokens st)" using f assms(2) by simp
    from take_tokens [OF this assms(3)] show ?thesis using k f assms(4) by (simp add: pays_def gen_core_def)
  qed
qed

lemma burst_pays:
  assumes "tx_gen_burst e addr extra hp st w = Some (k, ps, hp', st', w')" "tg_tokens st \<le> 32" "cfg_rate_pps (tg_cfg st) > 0"
    "cfg_proto (tg_cfg st) \<noteq> TX_GEN_PROTO_THROUGHPUT"
  shows "pays k st st' \<or> pays k (refill (fst (rdtsc w)) (tsc_hz w) st) st'"
proof -
  obtain now w1 where r: "rdtsc w = (now, w1)" by force
  then have hz: "tsc_hz w1 = tsc_hz w" by (auto simp: rdtsc_def)
  let ?st = "refill now (tsc_hz w) st" and ?n = "ucast (tg_tokens (refill now (tsc_hz w) st)) :: u32"
  note t = refill_tokens [OF assms(2), of now "tsc_hz w"]
  have n: "unat ?n \<le> unat (tg_tokens ?st)" by (simp add: small_tokens [OF t])
  have a: "allowance now (tsc_hz w) st = (?n, ?st)" using assms(3) by (simp add: allowance_def Let_def)
  have p: "tg_cfg ?st = tg_cfg st" "cfg_rate_pps (tg_cfg ?st) > 0" using assms(3) by simp_all
  have self: "pays 0 s s" "pays 0 s (s\<lparr>tg_active := False\<rparr>)" for s by (simp_all add: pays_def)
  have "pays k ?st st'" if "burst_proto e addr extra ?n hp ?st w1 = Some (k, ps, hp', st', w')"
    using that assms(4) connect_pays [OF _ n t p(2)] packets_pay [OF _ n t p(2)]
    by (auto simp: burst_proto_def bind_eq_Some_conv split: if_splits)
  then show ?thesis using assms(1,4) r hz a self
    by (auto simp: tx_gen_burst_def deadline_reached_def Let_def split: if_splits)
qed

lemma word_mult_le: "unat (a * b :: 'a::len word) \<le> unat a * unat b"
  by (simp add: unat_word_ariths)

lemma effective_rate_le: "unat (effective_rate now hz st) \<le> unat (cfg_rate_pps (tg_cfg st))"
proof -
  define age where "age = (now - tg_start_tsc st) div hz"
  define ramp :: u64 where "ramp = ucast (cfg_ramp_s (tg_cfg st))"
  let ?r = "cfg_rate_pps (tg_cfg st)"
  have "unat (?r * (age + 1) div ramp) \<le> unat ?r" if "age < ramp"
  proof -
    have "unat (age + 1) \<le> unat ramp" using that by (simp add: word_less_nat_alt unat_word_ariths)
    then have "unat (?r * (age + 1)) \<le> unat ?r * unat ramp" using word_mult_le [of ?r "age + 1"] by (meson mult_le_mono2 order_trans)
    then have "unat (?r * (age + 1)) div unat ramp \<le> unat ?r * unat ramp div unat ramp" by (rule div_le_mono)
    then show ?thesis using that by (simp add: unat_div word_less_nat_alt)
  qed
  then show ?thesis by (simp add: effective_rate_def Let_def age_def ramp_def)
qed

text \<open>A refill adds no more than the rate allows for the time since the last one.\<close>

lemma refill_rate:
  assumes "tg_last_refill_tsc st \<le> now"
  shows "unat (tg_tokens (refill now hz st)) \<le> unat (tg_tokens st) +
      (unat (tg_last_refill_tsc (refill now hz st)) - unat (tg_last_refill_tsc st)) * unat (cfg_rate_pps (tg_cfg st)) div unat hz"
    "tg_last_refill_tsc st \<le> tg_last_refill_tsc (refill now hz st)"
proof -
  define new where "new = (now - tg_last_refill_tsc st) * effective_rate now hz st div hz"
  have d: "unat (now - tg_last_refill_tsc st) = unat now - unat (tg_last_refill_tsc st)" by (rule unat_sub [OF assms])
  have "unat ((now - tg_last_refill_tsc st) * effective_rate now hz st) \<le> (unat now - unat (tg_last_refill_tsc st)) * unat (cfg_rate_pps (tg_cfg st))"
    using word_mult_le [of "now - tg_last_refill_tsc st" "effective_rate now hz st"] effective_rate_le [of now hz st]
    unfolding d by (meson mult_le_mono2 order_trans)
  then have n: "unat new \<le> (unat now - unat (tg_last_refill_tsc st)) * unat (cfg_rate_pps (tg_cfg st)) div unat hz"
    unfolding new_def by (simp add: unat_div div_le_mono)
  have "unat (min (tg_tokens st + new) (word_of_nat TX_GEN_MAX_BURST)) \<le> unat (tg_tokens st) + unat new"
    by (simp add: min_def word_le_nat_alt unat_word_ariths) (meson le_trans mod_less_eq_dividend nat_le_linear)
  with n show "unat (tg_tokens (refill now hz st)) \<le> unat (tg_tokens st) +
      (unat (tg_last_refill_tsc (refill now hz st)) - unat (tg_last_refill_tsc st)) * unat (cfg_rate_pps (tg_cfg st)) div unat hz"
    by (simp add: refill_def Let_def new_def [symmetric])
  show "tg_last_refill_tsc st \<le> tg_last_refill_tsc (refill now hz st)" using assms by (simp add: refill_def Let_def)
qed

text \<open>
  A run of the generator: bursts at any times the clock goes through, with the worker in any state, and the number of
  packets or connections started so far.
\<close>

inductive gen_run :: "env \<Rightarrow> nat \<Rightarrow> bytes \<Rightarrow> u64 \<Rightarrow> tx_gen_config \<Rightarrow> tx_gen_state \<Rightarrow> nat \<Rightarrow> bool" for e addr extra hz cfg where
  start: "tg_cfg st0 = cfg \<Longrightarrow> tx_gen_start st0 w = (st, w') \<Longrightarrow> gen_run e addr extra hz cfg st 0"
| burst: "gen_run e addr extra hz cfg st n \<Longrightarrow> tsc_hz w = hz \<Longrightarrow> tg_last_refill_tsc st \<le> fst (rdtsc w) \<Longrightarrow>
    tx_gen_burst e addr extra hp st w = Some (k, ps, hp', st', w') \<Longrightarrow> gen_run e addr extra hz cfg st' (n + k)"
| stop: "gen_run e addr extra hz cfg st n \<Longrightarrow> gen_run e addr extra hz cfg (tx_gen_stop st) n"

definition rate_ok :: "u64 \<Rightarrow> tx_gen_state \<Rightarrow> nat \<Rightarrow> bool" where
  "rate_ok hz st n \<longleftrightarrow> tg_tokens st \<le> 32 \<and> tg_start_tsc st \<le> tg_last_refill_tsc st \<and>
     unat (tg_tokens st) + n \<le> 32 + (unat (tg_last_refill_tsc st) - unat (tg_start_tsc st)) * unat (cfg_rate_pps (tg_cfg st)) div unat hz"

lemma rate_ok_pays:
  assumes "rate_ok hz st n" "pays k st st'"
  shows "rate_ok hz st' (n + k)"
  using assms by (auto simp: rate_ok_def pays_def word_le_nat_alt)

lemma rate_ok_refill:
  assumes "rate_ok hz st n" "tg_last_refill_tsc st \<le> now"
  shows "rate_ok hz (refill now hz st) n"
proof -
  let ?r = "unat (cfg_rate_pps (tg_cfg st))" and ?l = "unat (tg_last_refill_tsc st)" and ?s = "unat (tg_start_tsc st)"
    and ?m = "unat (tg_last_refill_tsc (refill now hz st))"
  note r = refill_rate [OF assms(2), of hz]
  have l: "?s \<le> ?l" "?l \<le> ?m" using assms(1) r(2) by (simp_all add: rate_ok_def word_le_nat_alt)
  have st: "tg_start_tsc (refill now hz st) = tg_start_tsc st" by (simp add: refill_def Let_def)
  have "(?l - ?s) * ?r div unat hz + (?m - ?l) * ?r div unat hz \<le> ((?l - ?s) * ?r + (?m - ?l) * ?r) div unat hz"
    by (simp add: div_add1_eq [of "(?l - ?s) * ?r" "(?m - ?l) * ?r"])
  also have "(?l - ?s) * ?r + (?m - ?l) * ?r = (?m - ?s) * ?r" using l by (simp flip: add_mult_distrib)
  finally have "unat (tg_tokens (refill now hz st)) + n \<le> 32 + (?m - ?s) * ?r div unat hz"
    using r(1) assms(1) by (simp add: rate_ok_def)
  then show ?thesis using refill_tokens [of st now hz] assms(1) l st by (simp add: rate_ok_def word_le_nat_alt)
qed

lemma unat_widen_le: "unat (ucast (x :: u32) :: u64) \<le> unat x"
  by (simp add: unsigned_ucast_eq)

lemma start_tokens:
  assumes "tx_gen_start st0 w = (st, w')"
  shows "unat (tg_tokens st) \<le> 32" "tg_start_tsc st = tg_last_refill_tsc st" "tg_cfg st = tg_cfg st0"
  using assms le_trans [OF unat_widen_le, of "cfg_max_initiations (tg_cfg st0)" 32]
  by (auto simp: tx_gen_start_def Let_def TX_GEN_MAX_BURST_def split: prod.splits)

lemma gen_run_rate_ok:
  assumes "gen_run e addr extra hz cfg st n" "cfg_rate_pps cfg > 0" "cfg_proto cfg \<noteq> TX_GEN_PROTO_THROUGHPUT"
  shows "tg_cfg st = cfg \<and> rate_ok hz st n"
  using assms
proof (induction rule: gen_run.induct)
  case (start st0 w st w')
  then show ?case using start_tokens [OF start.hyps(2)] by (simp add: rate_ok_def word_le_nat_alt)
next
  case (burst st n w hp k ps hp' st' w')
  then have ih: "tg_cfg st = cfg" "rate_ok hz st n" by simp_all
  then have "tg_tokens st \<le> 32" by (simp add: rate_ok_def)
  from burst_pays [OF burst.hyps(4) this] have p: "pays k st st' \<or> pays k (refill (fst (rdtsc w)) hz st) st'"
    using ih(1) burst.hyps(2) burst.prems by simp
  then have "tg_cfg st' = cfg" using ih(1) by (auto simp: pays_def)
  then show ?case using p rate_ok_pays [OF ih(2)] rate_ok_pays [OF rate_ok_refill [OF ih(2) burst.hyps(3)]] by blast
next
  case (stop st n)
  then show ?case by (auto simp: tx_gen_stop_def rate_ok_def)
qed

text \<open>
  C14. The generator respects its rate.  Over a whole run, with bursts at any times and however the worker
  changes in between, the number of packets and connections started stays below the initial burst of 32 plus the
  configured rate times the time since the start, ramp-up and 64-bit overflow of the products included.  Only the clock
  must not run backwards.  (Throughput streams are not rate limited.)
\<close>

theorem generator_rate_limit:
  assumes "gen_run e addr extra hz cfg st n" "cfg_rate_pps cfg > 0" "cfg_proto cfg \<noteq> TX_GEN_PROTO_THROUGHPUT"
  shows "n \<le> 32 + (unat (tg_last_refill_tsc st) - unat (tg_start_tsc st)) * unat (cfg_rate_pps cfg) div unat hz"
  using gen_run_rate_ok [OF assms] by (auto simp: rate_ok_def)

subsection \<open>A generator\<close>

definition demo_cfg :: "tx_gen_proto \<Rightarrow> tx_gen_config" where
  "demo_cfg p = \<lparr>cfg_proto = p, cfg_dst_ip = 0x0200000a, cfg_src_ip = 0x0100000a, cfg_dst_mac = [], cfg_src_mac = [], cfg_dst_port = 80,
     cfg_src_port = 9, cfg_pkt_size = 2, cfg_port_id = 0, cfg_rate_pps = 1000, cfg_duration_s = 0, cfg_max_initiations = 2,
     cfg_enable_tls = False, cfg_http_method = 0, cfg_throughput_streams = 1, cfg_ramp_s = 0, cfg_txn_per_conn = 1, cfg_think_time_us = 0,
     cfg_http_url = [], cfg_http_host = [], cfg_flow_idx = 0, cfg_dscp = 0, cfg_cc_algo = 0, cfg_vlan_id = 0, cfg_src_ip_count = 1\<rparr>"

definition demo_req :: http_prebuilt_req where
  "demo_req = \<lparr>hp_hdr = [], hp_hdr_len = 0, hp_keep_alive = False, hp_txn_per_conn = 0, hp_think_time_us = 0, hp_expected_interval_us = 0\<rparr>"

definition gen_env :: env where
  "gen_env = demo_env\<lparr>e_http_req := (\<lambda>_. Some demo_req)\<rparr>"

definition demo_gen :: "tx_gen_proto \<Rightarrow> tx_gen_state" where
  "demo_gen p = fst (tx_gen_start (fst (tx_gen_configure (demo_cfg p) 0 demo_worker)) demo_worker)"

lemma demo_gen_ok:
  "sys_ok gen_env demo_worker" "gen_ok demo_worker (demo_gen p)" "req_ok gen_env 2" "cfg_ok gen_env [] (tg_cfg (demo_gen p))" "req_built demo_req"
proof -
  have "env_ok gen_env" using demo_env_ok by (simp add: gen_env_def env_ok_def)
  then show "sys_ok gen_env demo_worker" using demo_sys(1) by (simp add: sys_ok_def ctx_ok_def req_ok_def gen_env_def demo_blocks demo_req_def)
  show "gen_ok demo_worker (demo_gen p)" "cfg_ok gen_env [] (tg_cfg (demo_gen p))"
    by (simp_all add: demo_gen_def tx_gen_start_def tx_gen_configure_def rdtsc_def Let_def gen_ok_def cfg_ok_def gen_env_def demo_env_def
        demo_cfg_def gen_eth_sz_def TX_GEN_MAX_BURST_def list_all_length)
  show "req_ok gen_env 2" "req_built demo_req" by (simp_all add: req_ok_def gen_env_def demo_req_def req_built_def)
qed

theorem burst_keeps_worker_witness:
  "\<exists>k ps hp' st' w'. tx_gen_burst gen_env 2 [] demo_req (demo_gen TX_GEN_PROTO_HTTP) demo_worker = Some (k, ps, hp', st', w') \<and>
    sys_ok gen_env w' \<and> gen_ok w' st' \<and> req_built hp' \<and> (cfg_proto (tg_cfg (demo_gen TX_GEN_PROTO_HTTP)) = TX_GEN_PROTO_THROUGHPUT \<or> k \<le> 32)"
  by (rule burst_keeps_worker [OF demo_gen_ok(1,2,3) _ demo_gen_ok(4,5)]) simp

lemma demo_packet:
  assumes "tg_cfg st = demo_cfg TX_GEN_PROTO_UDP"
  shows "\<exists>p st' w'. build_packet gen_env st w = Some (Some p, st', w') \<and> tg_cfg st' = demo_cfg TX_GEN_PROTO_UDP"
proof -
  let ?cfg = "demo_cfg TX_GEN_PROTO_UDP"
  have c: "cfg_proto ?cfg = TX_GEN_PROTO_UDP" "cfg_pkt_size ?cfg = 2" "gen_eth_sz ?cfg = 14" by (simp_all add: demo_cfg_def gen_eth_sz_def)
  have "gen_alloc gen_env 44 w = Some (True, snd (mbuf_alloc gen_env w))"
    by (simp add: gen_alloc_def mbuf_alloc_def gen_env_def demo_env_def)
  moreover obtain ip st1 where "next_src_ip st = (ip, st1)" by force
  moreover have "e_mbuf_tailroom gen_env = 2048" by (simp add: gen_env_def demo_env_def)
  ultimately show ?thesis using next_src_ip_frame(2) [of st] assms
    by (simp add: build_packet_def c build_udp_datagram_def Let_def)
qed

lemma demo_packets:
  "tg_cfg st = demo_cfg TX_GEN_PROTO_UDP \<Longrightarrow> \<exists>ps st' w'. build_burst gen_env n st w = Some (ps, st', w') \<and> length ps = n"
proof (induction n arbitrary: st w)
  case (Suc n)
  from demo_packet [OF Suc.prems, of w] obtain p st1 w1
    where p: "build_packet gen_env st w = Some (Some p, st1, w1)" "tg_cfg st1 = demo_cfg TX_GEN_PROTO_UDP" by blast
  from Suc.IH [OF p(2), of w1] p(1) show ?case by auto
qed simp

lemma demo_burst:
  "\<exists>ps hp' st' w'. tx_gen_burst gen_env 2 [] demo_req (demo_gen TX_GEN_PROTO_UDP) demo_worker = Some (2, ps, hp', st', w')"
proof -
  let ?st = "demo_gen TX_GEN_PROTO_UDP" and ?w = "snd (rdtsc demo_worker)"
  have st: "tg_active ?st" "tg_deadline_tsc ?st = 0" "tg_pkts_sent ?st = 0" "tg_tokens ?st = 2" "tg_cfg ?st = demo_cfg TX_GEN_PROTO_UDP"
    "tg_last_refill_tsc ?st = fst (rdtsc demo_worker)"
    by (simp_all add: demo_gen_def tx_gen_start_def tx_gen_configure_def rdtsc_def Let_def demo_cfg_def TX_GEN_MAX_BURST_def)
  have hz: "tsc_hz ?w = 1000000" by (simp add: rdtsc_def)
  have a: "allowance (fst (rdtsc demo_worker)) 1000000 ?st = (2, ?st)"
    by (simp add: allowance_def refill_def st Let_def) (simp add: demo_cfg_def)
  from demo_packets [OF st(5), of 2 ?w] obtain ps st1 w1 where b: "build_burst gen_env 2 ?st ?w = Some (ps, st1, w1)" "length ps = 2" by blast
  have t: "e_tx_burst gen_env x n = n" for x n by (simp add: gen_env_def demo_env_def)
  have "ps \<noteq> []" using b(2) by auto
  then obtain qs st2 w2 where "burst_packets gen_env 2 ?st ?w = Some (2, qs, st2, w2)" using b by (simp add: burst_packets_def Let_def t)
  then have "burst_proto gen_env 2 [] 2 demo_req ?st ?w = Some (2, qs, demo_req, st2, w2)" by (simp add: burst_proto_def st(5)) (simp add: demo_cfg_def)
  then show ?thesis using st hz a by (simp add: tx_gen_burst_def case_prod_beta Let_def) (simp add: demo_cfg_def)
qed

theorem generator_rate_limit_witness:
  "\<exists>st. gen_run gen_env 2 [] 1000000 (demo_cfg TX_GEN_PROTO_UDP) st 2 \<and>
    2 \<le> 32 + (unat (tg_last_refill_tsc st) - unat (tg_start_tsc st)) * 1000 div 1000000"
proof -
  let ?st = "demo_gen TX_GEN_PROTO_UDP"
  let ?c = "fst (tx_gen_configure (demo_cfg TX_GEN_PROTO_UDP) 0 demo_worker)"
  have "tx_gen_start ?c demo_worker = (?st, snd (tx_gen_start ?c demo_worker))" by (simp add: demo_gen_def)
  moreover have "tg_cfg ?c = demo_cfg TX_GEN_PROTO_UDP" by (simp add: tx_gen_configure_def rdtsc_def)
  ultimately have s: "gen_run gen_env 2 [] 1000000 (demo_cfg TX_GEN_PROTO_UDP) ?st 0" by (intro gen_run.start)
  have l: "tg_last_refill_tsc ?st = fst (rdtsc demo_worker)"
    by (simp add: demo_gen_def tx_gen_start_def tx_gen_configure_def rdtsc_def Let_def)
  obtain ps hp' st' w' where "tx_gen_burst gen_env 2 [] demo_req ?st demo_worker = Some (2, ps, hp', st', w')" using demo_burst by blast
  from gen_run.burst [OF s _ _ this] l have r: "gen_run gen_env 2 [] 1000000 (demo_cfg TX_GEN_PROTO_UDP) st' 2" by (simp add: numeral_2_eq_2)
  from generator_rate_limit [OF r] have "2 \<le> 32 + (unat (tg_last_refill_tsc st') - unat (tg_start_tsc st')) * 1000 div (1000000::nat)"
    by (simp add: demo_cfg_def)
  with r show ?thesis by blast
qed

end
