(* ===== verification/NetInput.thy ===== *)
theory NetInput
  imports Receive
begin

text \<open>
  The layers below TCP: Ethernet framing (\<^verbatim>\<open>net/ethernet.c\<close>), IPv4 and IPv6 (\<^verbatim>\<open>net/ipv4.c\<close>, \<^verbatim>\<open>net/ipv6.c\<close>), the
  hand-over of ARP, ICMP, ICMPv6 and UDP to the management thread, and the classification of a received frame
  (\<^verbatim>\<open>core/worker_loop.c\<close>).  A received packet buffer extends the record \<open>mbuf\<close> of TCP input.  Reads beyond the received
  bytes return the memory behind them; loads of addresses are little endian, as the code keeps them in network order.
\<close>

subsection \<open>Packet buffers\<close>

record rx_mbuf = mbuf +
  mb_headroom :: nat
  mb_ip_good :: bool
  mb_no_buf :: bool

definition mb_mem :: "'a mbuf_scheme \<Rightarrow> bytes" where
  "mb_mem m = mb_data m @ mb_tail m"

definition pktmbuf_adj :: "nat \<Rightarrow> rx_mbuf \<Rightarrow> rx_mbuf option" where
  "pktmbuf_adj n m =
     (if n > length (mb_data m) then None
      else Some (m\<lparr>mb_data := drop n (mb_data m), mb_headroom := mb_headroom m + n\<rparr>))"

definition pktmbuf_trim_to :: "nat \<Rightarrow> rx_mbuf \<Rightarrow> rx_mbuf" where
  "pktmbuf_trim_to n m =
     (if length (mb_data m) > n then m\<lparr>mb_data := take n (mb_data m), mb_tail := drop n (mb_data m) @ mb_tail m\<rparr> else m)"

definition le32_at :: "bytes \<Rightarrow> nat \<Rightarrow> u32" where
  "le32_at d i = be32 (d ! (i + 3)) (d ! (i + 2)) (d ! (i + 1)) (d ! i)"

definition le32 :: "u32 \<Rightarrow> bytes" where
  "le32 x = [ucast x, ucast (drop_bit 8 x), ucast (drop_bit 16 x), ucast (drop_bit 24 x)]"

subsection \<open>Ethernet\<close>

definition ETH_VLAN :: u16 where "ETH_VLAN = 0x8100"
definition ETH_ARP :: u16 where "ETH_ARP = 0x0806"
definition ETH_IPV4 :: u16 where "ETH_IPV4 = 0x0800"
definition ETH_IPV6 :: u16 where "ETH_IPV6 = 0x86DD"

definition etype_at :: "nat \<Rightarrow> 'a mbuf_scheme \<Rightarrow> u16" where
  "etype_at i m = be16 (mb_mem m ! i) (mb_mem m ! (i + 1))"

text \<open>A failed removal leaves the frame as it was; its caller does not look at the result.\<close>

definition eth_pop_hdr :: "rx_mbuf \<Rightarrow> u16 \<times> rx_mbuf" where
  "eth_pop_hdr m =
     (let etype = etype_at 12 m;
          (etype, off) = (if etype = ETH_VLAN then (etype_at 16 m, 18) else (etype, 14))
      in case pktmbuf_adj off m of None \<Rightarrow> (0, m) | Some m \<Rightarrow> (etype, m))"

text \<open>Frames to transmit: the bytes, the room before them and the fields for the device.\<close>

record tx_mbuf =
  tm_data :: bytes
  tm_headroom :: nat
  tm_l2_len :: nat
  tm_l3_len :: nat
  tm_ip_offload :: bool

definition pktmbuf_prepend :: "bytes \<Rightarrow> tx_mbuf \<Rightarrow> tx_mbuf option" where
  "pktmbuf_prepend hdr m =
     (if length hdr > tm_headroom m then None
      else Some (m\<lparr>tm_data := hdr @ tm_data m, tm_headroom := tm_headroom m - length hdr\<rparr>))"

definition eth_push_hdr :: "bytes \<Rightarrow> bytes \<Rightarrow> u16 \<Rightarrow> u16 \<Rightarrow> tx_mbuf \<Rightarrow> tx_mbuf option" where
  "eth_push_hdr src dst ether_type vlan m =
     pktmbuf_prepend (dst @ src @ (if vlan \<noteq> 0 then bytes16 ETH_VLAN @ bytes16 (vlan AND 0x0FFF) @ bytes16 ether_type
                                   else bytes16 ether_type)) m"

subsection \<open>Rings to the management thread\<close>

text \<open>
  The rings are created with 512 slots, of which DPDK uses 511; \<open>None\<close> is a ring that was not created.  A
  packet that does not fit is freed.
\<close>

type_synonym ring = "rx_mbuf list option"

record net_rings =
  r_arp :: "ring list"
  r_icmp :: "ring list"
  r_icmpv6 :: "ring list"
  r_udp :: "ring list"

definition RING_CAP :: nat where "RING_CAP = 511"

definition ring_enqueue :: "rx_mbuf \<Rightarrow> ring \<Rightarrow> ring" where
  "ring_enqueue m r = (case r of None \<Rightarrow> None | Some q \<Rightarrow> Some (if length q < RING_CAP then q @ [m] else q))"

definition has_ring :: "ring list \<Rightarrow> rx_mbuf \<Rightarrow> bool" where
  "has_ring rs m \<longleftrightarrow> unat (mb_port m) < TGEN_MAX_PORTS \<and> rs ! unat (mb_port m) \<noteq> None"

definition to_ring :: "rx_mbuf \<Rightarrow> ring list \<Rightarrow> ring list" where
  "to_ring m rs = (if has_ring rs m then rs[unat (mb_port m) := ring_enqueue m (rs ! unat (mb_port m))] else rs)"

definition arp_input :: "rx_mbuf \<Rightarrow> net_rings \<Rightarrow> net_rings" where
  "arp_input m r = r\<lparr>r_arp := to_ring m (r_arp r)\<rparr>"

definition icmp_input :: "rx_mbuf \<Rightarrow> net_rings \<Rightarrow> net_rings" where
  "icmp_input m r = r\<lparr>r_icmp := to_ring m (r_icmp r)\<rparr>"

text \<open>The addresses travel in front of an ICMPv6 message.\<close>

definition icmpv6_input :: "rx_mbuf \<Rightarrow> net_rings \<Rightarrow> worker \<Rightarrow> net_rings" where
  "icmpv6_input m r w =
     (if mb_headroom m < 32 then r
      else r\<lparr>r_icmpv6 := to_ring (m\<lparr>mb_data := saved_src6 w @ saved_dst6 w @ mb_data m, mb_headroom := mb_headroom m - 32\<rparr>) (r_icmpv6 r)\<rparr>)"

definition udp_input :: "rx_mbuf \<Rightarrow> net_rings \<Rightarrow> worker \<Rightarrow> net_rings \<times> worker" where
  "udp_input m r w =
     (if has_ring (r_udp r) m
      then (r\<lparr>r_udp := to_ring m (r_udp r)\<rparr>, upd_metrics (\<lambda>mt. mt\<lparr>m_udp_rx := m_udp_rx mt + 1\<rparr>) w) else (r, w))"

subsection \<open>IPv4\<close>

definition lcore_metrics :: "env \<Rightarrow> (worker_metrics \<Rightarrow> worker_metrics) \<Rightarrow> worker \<Rightarrow> worker option" where
  "lcore_metrics e f w =
     (if e_lcore_id e \<ge> TGEN_MAX_WORKERS then None
      else Some (if e_lcore_id e = w_idx w then upd_metrics f w else w))"

record ipv4_tx_cfg =
  itc_src_ip :: u32
  itc_dst_ip :: u32
  itc_dscp_ecn :: u8
  itc_ttl :: u8
  itc_protocol :: u8
  itc_df :: bool

definition ipv4_push_hdr :: "env \<Rightarrow> ipv4_tx_cfg \<Rightarrow> u16 \<Rightarrow> bool \<Rightarrow> u32 option \<Rightarrow> tx_mbuf \<Rightarrow> (tx_mbuf \<times> u32 option) option" where
  "ipv4_push_hdr e cfg plen hw idc m =
     (let total_len = 20 + plen; pkt_id = (if idc = None then 0 else ucast (the idc AND 0xFFFF)) :: u16;
          front = [0x45, itc_dscp_ecn cfg] @ bytes16 total_len @ bytes16 pkt_id @ bytes16 (if itc_df cfg then 0x4000 else 0) @
                  [(if itc_ttl cfg \<noteq> 0 then itc_ttl cfg else 64), itc_protocol cfg];
          rear = le32 (itc_src_ip cfg) @ le32 (itc_dst_ip cfg);
          ck = (if hw then 0 else e_hdr_cksum e (front @ [0, 0] @ rear))
      in do { m \<leftarrow> pktmbuf_prepend (front @ le16 ck @ rear) m;
              Some ((if hw then m\<lparr>tm_l2_len := 14, tm_ip_offload := True, tm_l3_len := 20\<rparr> else m\<lparr>tm_l2_len := 14\<rparr>),
                    map_option (\<lambda>x. x + 1) idc) })"

text \<open>What validation decides: the protocol and the stripped packet, or why the packet is freed.\<close>

datatype ip_verdict = Pass u8 rx_mbuf | Drop | Drop_bad_cksum | Drop_fragment | Drop_not_for_us

definition ipv4_validate_and_strip :: "env \<Rightarrow> u32 \<Rightarrow> bool \<Rightarrow> rx_mbuf \<Rightarrow> ip_verdict" where
  "ipv4_validate_and_strip e local skip m =
     (let d = mb_data m
      in if length d < 20 then Drop
         else if drop_bit 4 (d ! 0) \<noteq> 4 then Drop
         else
           let ihl = d ! 0 AND 0x0F; total_len = be16 (d ! 2) (d ! 3); foff = be16 (d ! 6) (d ! 7); ip_hdr_len = ucast ihl * 4 :: u16
           in if ihl < 5 then Drop
              else if unat total_len > length d then Drop
              else if \<not> (skip \<and> mb_ip_good m) \<and> e_hdr_cksum e (mb_mem m) \<noteq> 0 then Drop_bad_cksum
              else if foff AND 0x2000 \<noteq> 0 \<or> foff AND 0x1FFF \<noteq> 0 then Drop_fragment
              else if local \<noteq> 0 \<and> le32_at d 16 \<noteq> local then Drop_not_for_us
              else case pktmbuf_adj (unat ip_hdr_len) m of
                     None \<Rightarrow> Drop
                   | Some m \<Rightarrow> Pass (d ! 9) (pktmbuf_trim_to (unat (total_len - ip_hdr_len)) m))"

text \<open>
  The counters of the IP layer are those of the core's number, not of the worker's: a slab of another worker, which
  is not part of this state, or none at all when the number is beyond the array.
\<close>

definition count_verdict :: "env \<Rightarrow> ip_verdict \<Rightarrow> worker \<Rightarrow> worker option" where
  "count_verdict e v w =
     (case v of
        Pass _ _ \<Rightarrow> Some w
      | Drop \<Rightarrow> Some w
      | Drop_bad_cksum \<Rightarrow> lcore_metrics e (\<lambda>mt. mt\<lparr>m_ip_bad_cksum := m_ip_bad_cksum mt + 1\<rparr>) w
      | Drop_fragment \<Rightarrow> lcore_metrics e (\<lambda>mt. mt\<lparr>m_ip_frag_dropped := m_ip_frag_dropped mt + 1\<rparr>) w
      | Drop_not_for_us \<Rightarrow> lcore_metrics e (\<lambda>mt. mt\<lparr>m_ip_not_for_us := m_ip_not_for_us mt + 1\<rparr>) w)"

definition ipv4_local :: "env \<Rightarrow> rx_mbuf \<Rightarrow> u32" where
  "ipv4_local e m = (if unat (mb_port m) < TGEN_MAX_PORTS then arp_local_ip (e_arp e ! unat (mb_port m)) else 0)"

definition ipv4_save :: "rx_mbuf \<Rightarrow> rx_mbuf" where
  "ipv4_save m =
     (if length (mb_data m) \<ge> 20 then m\<lparr>mb_hash_usr := le32_at (mb_data m) 12, mb_dynfield0 := le32_at (mb_data m) 16\<rparr> else m)"

definition ipv4_check :: "env \<Rightarrow> rx_mbuf \<Rightarrow> ip_verdict" where
  "ipv4_check e m = ipv4_validate_and_strip e (ipv4_local e m) (pc_has_ipv4_cksum_offload (e_port_caps e (unat (mb_port m)))) (ipv4_save m)"

definition ipv4_input :: "env \<Rightarrow> rx_mbuf \<Rightarrow> net_rings \<Rightarrow> worker \<Rightarrow> (net_rings \<times> worker) option" where
  "ipv4_input e m r w =
     (if unat (mb_port m) \<ge> TGEN_MAX_PORTS then None
      else
        do { w \<leftarrow> count_verdict e (ipv4_check e m) w;
             case ipv4_check e m of
               Pass proto m \<Rightarrow>
                 if proto = 1 then Some (icmp_input m r, w)
                 else if proto = 17 then Some (udp_input m r w)
                 else if proto = 6 then do { w \<leftarrow> tcp_fsm_input e (mbuf.truncate m) w; Some (r, w) }
                 else Some (r, w)
             | _ \<Rightarrow> Some (r, w) })"

subsection \<open>IPv6\<close>

definition ipv6_push_hdr :: "bytes \<Rightarrow> bytes \<Rightarrow> u8 \<Rightarrow> u16 \<Rightarrow> u8 \<Rightarrow> tx_mbuf \<Rightarrow> tx_mbuf option" where
  "ipv6_push_hdr src dst next_hdr plen hop m =
     do { m \<leftarrow> pktmbuf_prepend (bytes32 0x60000000 @ bytes16 plen @ [next_hdr, (if hop \<noteq> 0 then hop else 64)] @ src @ dst) m;
          Some (m\<lparr>tm_l2_len := 14, tm_l3_len := 40\<rparr>) }"

definition ipv6_validate_and_strip :: "bytes option \<Rightarrow> rx_mbuf \<Rightarrow> ip_verdict" where
  "ipv6_validate_and_strip local m =
     (let d = mb_data m
      in if length d < 40 then Drop
         else if drop_bit 28 (be32_at d 0) \<noteq> 6 then Drop
         else
           let plen = unat (be16 (d ! 4) (d ! 5)); dst = take 16 (drop 24 d)
           in if plen + 40 > length d then Drop
              else if local \<noteq> None \<and> \<not> (dst = the local \<or> d ! 24 = 0xFF) then Drop_not_for_us
              else case pktmbuf_adj 40 m of None \<Rightarrow> Drop | Some m \<Rightarrow> Pass (d ! 6) (pktmbuf_trim_to plen m))"

definition ipv6_local :: "env \<Rightarrow> rx_mbuf \<Rightarrow> bytes option" where
  "ipv6_local e m =
     (let p = unat (mb_port m)
      in if p < TGEN_MAX_PORTS \<and> ndp_has_ip6 (e_ndp e ! p) then Some (ndp_local_ip6 (e_ndp e ! p)) else None)"

definition ipv6_check :: "env \<Rightarrow> rx_mbuf \<Rightarrow> ip_verdict" where
  "ipv6_check e m = ipv6_validate_and_strip (ipv6_local e m) (if length (mb_data m) \<ge> 40 then m\<lparr>mb_hash_usr := 6\<rparr> else m)"

definition ipv6_save :: "rx_mbuf \<Rightarrow> worker \<Rightarrow> worker" where
  "ipv6_save m w =
     (if length (mb_data m) \<ge> 40
      then w\<lparr>saved_src6 := take 16 (drop 8 (mb_data m)), saved_dst6 := take 16 (drop 24 (mb_data m))\<rparr> else w)"

definition ipv6_input :: "env \<Rightarrow> rx_mbuf \<Rightarrow> net_rings \<Rightarrow> worker \<Rightarrow> (net_rings \<times> worker) option" where
  "ipv6_input e m r w =
     do { w \<leftarrow> count_verdict e (ipv6_check e m) (ipv6_save m w);
          case ipv6_check e m of
            Pass next_hdr m \<Rightarrow>
              if next_hdr = 58 then Some (icmpv6_input m r w, w)
              else if next_hdr = 17 then Some (udp_input m r w)
              else if next_hdr = 6 then do { w \<leftarrow> tcp_fsm_input e (mbuf.truncate m) w; Some (r, w) }
              else Some (r, w)
          | _ \<Rightarrow> Some (r, w) }"

subsection \<open>Classification of a frame\<close>

definition ether_type :: "rx_mbuf \<Rightarrow> u16" where
  "ether_type m = (if etype_at 12 m = ETH_VLAN then etype_at 16 m else etype_at 12 m)"

text \<open>The function's result, a reply to transmit, is \<^verbatim>\<open>NULL\<close> on every path.\<close>

definition classify_and_process :: "env \<Rightarrow> rx_mbuf \<Rightarrow> net_rings \<Rightarrow> worker \<Rightarrow> (net_rings \<times> worker) option" where
  "classify_and_process e m r w =
     (if length (mb_data m) < 14 \<or> mb_no_buf m then Some (r, w)
      else if ether_type m = ETH_ARP then Some (arp_input m r, w)
      else if ether_type m = ETH_IPV4 then ipv4_input e (snd (eth_pop_hdr m)) r w
      else if ether_type m = ETH_IPV6 then ipv6_input e (snd (eth_pop_hdr m)) r w
      else Some (r, w))"

fun receive_frames :: "env \<Rightarrow> rx_mbuf list \<Rightarrow> net_rings \<Rightarrow> worker \<Rightarrow> (net_rings \<times> worker) option" where
  "receive_frames e [] r w = Some (r, w)"
| "receive_frames e (m # ms) r w = do { (r, w) \<leftarrow> classify_and_process e m r w; receive_frames e ms r w }"

subsection \<open>Every frame is dealt with\<close>

definition rings_ok :: "net_rings \<Rightarrow> bool" where
  "rings_ok r \<longleftrightarrow> list_all (\<lambda>rs. length rs = TGEN_MAX_PORTS \<and> list_all (case_option True (\<lambda>q. length q \<le> RING_CAP)) rs)
     [r_arp r, r_icmp r, r_icmpv6 r, r_udp r]"

text \<open>The segment that a frame brings to TCP.\<close>

definition passed_tcp :: "ip_verdict \<Rightarrow> mbuf option" where
  "passed_tcp v = (case v of Pass proto m \<Rightarrow> if proto = 6 then Some (mbuf.truncate m) else None | _ \<Rightarrow> None)"

definition frame_tcp :: "env \<Rightarrow> rx_mbuf \<Rightarrow> mbuf option" where
  "frame_tcp e m =
     (if length (mb_data m) < 14 \<or> mb_no_buf m then None
      else if ether_type m = ETH_IPV4 then passed_tcp (ipv4_check e (snd (eth_pop_hdr m)))
      else if ether_type m = ETH_IPV6 then passed_tcp (ipv6_check e (snd (eth_pop_hdr m)))
      else None)"

definition frame_ok :: "env \<Rightarrow> rx_mbuf \<Rightarrow> bool" where
  "frame_ok e m \<longleftrightarrow> unat (mb_port m) < TGEN_MAX_PORTS \<and>
     (case frame_tcp e m of None \<Rightarrow> True | Some seg \<Rightarrow> peer_ok (seg_hdr seg) (seg_opts seg))"

lemma to_ring_ok:
  assumes "length rs = TGEN_MAX_PORTS" "list_all (case_option True (\<lambda>q. length q \<le> RING_CAP)) rs"
  shows "length (to_ring m rs) = TGEN_MAX_PORTS" "list_all (case_option True (\<lambda>q. length q \<le> RING_CAP)) (to_ring m rs)"
proof -
  show "length (to_ring m rs) = TGEN_MAX_PORTS" using assms(1) by (simp add: to_ring_def)
  have "case_option True (\<lambda>q. length q \<le> RING_CAP) (ring_enqueue m (rs ! unat (mb_port m)))" if "has_ring rs m"
    using that assms by (auto simp: ring_enqueue_def has_ring_def list_all_length)
  then show "list_all (case_option True (\<lambda>q. length q \<le> RING_CAP)) (to_ring m rs)"
    using assms set_update_subset_insert [of rs "unat (mb_port m)" "ring_enqueue m (rs ! unat (mb_port m))"]
    by (auto simp: to_ring_def list_all_iff)
qed

lemma rings_ok_inputs:
  assumes "rings_ok r"
  shows "rings_ok (arp_input m r)" "rings_ok (icmp_input m r)" "rings_ok (icmpv6_input m r w)" "rings_ok (fst (udp_input m r w))"
  using assms to_ring_ok by (auto simp: rings_ok_def arp_input_def icmp_input_def icmpv6_input_def udp_input_def)

lemma count_verdict_ok:
  assumes "sys_ok e w" "e_lcore_id e < TGEN_MAX_WORKERS"
  shows "yields (count_verdict e v w) (same_store e w)"
  using assms by (cases v) (simp_all add: count_verdict_def lcore_metrics_def same_store_def)

lemma sys_ok_saved: "sys_ok e w \<Longrightarrow> sys_ok e (ipv6_save m w)"
proof -
  have "conn_ok (ipv6_save m w) = conn_ok w" by (rule conn_ok_cong) (simp_all add: ipv6_save_def)
  moreover have "tcb_at (ipv6_save m w) i = tcb_at w i" for i by (simp add: tcb_at_def ipv6_save_def)
  ultimately show "sys_ok e w \<Longrightarrow> sys_ok e (ipv6_save m w)" by (simp add: sys_ok_def worker_ok_def) (simp add: ipv6_save_def)
qed

lemma same_store_saved [simp]: "same_store e (ipv6_save m w) = same_store e w"
  by (simp add: fun_eq_iff same_store_def ipv6_save_def)

lemma udp_input_sys: "sys_ok e (snd (udp_input m r w)) = sys_ok e w"
  by (simp add: udp_input_def)

text \<open>The two IP layers differ in the verdict and in what they do with a message of their own protocol.\<close>

lemma passed_ok:
  assumes "sys_ok e w" "rings_ok r" "e_lcore_id e < TGEN_MAX_WORKERS" "\<And>m w. rings_ok (f m w)"
    "\<And>seg. passed_tcp v = Some seg \<Longrightarrow> peer_ok (seg_hdr seg) (seg_opts seg)"
  shows "yields (do { w \<leftarrow> count_verdict e v w;
      case v of
        Pass proto m \<Rightarrow>
          if proto = x then Some (f m w, w)
          else if proto = 17 then Some (udp_input m r w)
          else if proto = 6 then do { w \<leftarrow> tcp_fsm_input e (mbuf.truncate m) w; Some (r, w) }
          else Some (r, w)
      | _ \<Rightarrow> Some (r, w) }) (\<lambda>(r', w'). rings_ok r' \<and> same_store e w w')"
proof -
  from count_verdict_ok [OF assms(1,3), of v] obtain w1 where w1: "count_verdict e v w = Some w1" "sys_ok e w1" "capacity w1 = capacity w"
    by (auto simp: yields_def same_store_def)
  show ?thesis
  proof (cases v)
    case (Pass proto m1)
    from udp_input_sys [of e m1 r w1] rings_ok_inputs(4) [OF assms(2), of m1 w1] w1(2,3)
    have u: "yields (Some (udp_input m1 r w1)) (\<lambda>(r', w'). rings_ok r' \<and> same_store e w w')" by (simp add: case_prod_beta same_store_def udp_input_def)
    have "yields (tcp_fsm_input e (mbuf.truncate m1) w1) (same_store e w1)" if "proto = 6"
      by (rule input_sys [OF w1(2) assms(5)]) (use Pass that in \<open>simp add: passed_tcp_def\<close>)
    then show ?thesis using Pass w1 assms(2,4) u by (auto simp: yields_def same_store_def)
  qed (use w1 assms(2) in \<open>simp_all add: same_store_def\<close>)
qed

lemma pop_port [simp]: "mb_port (snd (eth_pop_hdr m)) = mb_port m"
  by (simp add: eth_pop_hdr_def pktmbuf_adj_def Let_def split: option.splits)

lemma classify_ok:
  assumes "sys_ok e w" "rings_ok r" "e_lcore_id e < TGEN_MAX_WORKERS" "frame_ok e m"
  shows "yields (classify_and_process e m r w) (\<lambda>(r', w'). rings_ok r' \<and> same_store e w w')"
proof -
  note i = rings_ok_inputs [OF assms(2)]
  have p: "passed_tcp v = frame_tcp e m \<Longrightarrow> passed_tcp v = Some seg \<Longrightarrow> peer_ok (seg_hdr seg) (seg_opts seg)" for v seg
    using assms(4) by (auto simp: frame_ok_def split: option.splits)
  have "yields (ipv4_input e (snd (eth_pop_hdr m)) r w) (\<lambda>(r', w'). rings_ok r' \<and> same_store e w w')"
    if "\<not> (length (mb_data m) < 14 \<or> mb_no_buf m)" "ether_type m = ETH_IPV4"
    unfolding ipv4_input_def using passed_ok [OF assms(1-3), where f = "\<lambda>m w. icmp_input m r" and x = 1, OF i(2) p] assms(4) that
    by (simp add: frame_ok_def frame_tcp_def)
  moreover have "yields (ipv6_input e (snd (eth_pop_hdr m)) r w) (\<lambda>(r', w'). rings_ok r' \<and> same_store e w w')"
    if "\<not> (length (mb_data m) < 14 \<or> mb_no_buf m)" "ether_type m = ETH_IPV6"
    unfolding ipv6_input_def using passed_ok [OF sys_ok_saved [OF assms(1)] assms(2,3), where f = "\<lambda>m w. icmpv6_input m r w" and x = 58, OF i(3) p] that
    by (simp add: frame_tcp_def ETH_IPV4_def ETH_IPV6_def)
  ultimately show ?thesis using assms(1,2) i(1) by (auto simp: classify_and_process_def same_store_refl)
qed

lemma receive_frames_ok:
  assumes "sys_ok e w" "rings_ok r" "e_lcore_id e < TGEN_MAX_WORKERS" "list_all (frame_ok e) ms"
  shows "yields (receive_frames e ms r w) (\<lambda>(r', w'). rings_ok r' \<and> same_store e w w')"
  using assms
proof (induction ms arbitrary: r w)
  case (Cons m ms)
  from classify_ok [OF Cons.prems(1-3), of m] Cons.prems(4) obtain r1 w1
    where "classify_and_process e m r w = Some (r1, w1)" "rings_ok r1" "sys_ok e w1" "capacity w1 = capacity w" by (auto simp: yields_def same_store_def)
  with Cons.IH [of w1 r1] Cons.prems(3,4) show ?case by (simp add: same_store_def)
qed (simp add: same_store_def)

text \<open>
  C15. Frames of any type, length and content: the receive path deals with every one of them, keeps the worker's
  invariant and never overfills the rings to the management thread, under three conditions.  The worker's core has a
  number below 124, the size of the metrics array (the IP layer indexes it by core, see
  \<open>high_core_bad_cksum_traps\<close>); a frame carries the number of one of the 16 ports; and a frame that reaches TCP as a
  SYN or SYN-ACK is within \<open>peer_ok\<close>, that is, its maximum segment size option, if present, is 1 to 65400 and a SYN-ACK's
  window is at least 2, which the code does not check.
\<close>

theorem frames_keep_worker:
  assumes "sys_ok e w" "rings_ok r" "e_lcore_id e < TGEN_MAX_WORKERS" "list_all (frame_ok e) ms"
  shows "\<exists>r' w'. receive_frames e ms r w = Some (r', w') \<and> sys_ok e w' \<and> rings_ok r'"
  using receive_frames_ok [OF assms] by (auto simp: yields_def same_store_def)

text \<open>
  On a core whose number is beyond the metrics array, a packet with a wrong IPv4 header checksum makes the
  worker write outside that array: the IP layer indexes the counters by core instead of by worker.
\<close>

theorem high_core_bad_cksum_traps:
  assumes "TGEN_MAX_WORKERS \<le> e_lcore_id e" "unat (mb_port m) < TGEN_MAX_PORTS" "ipv4_check e m = Drop_bad_cksum"
  shows "ipv4_input e m r w = None"
  using assms by (simp add: ipv4_input_def count_verdict_def lcore_metrics_def)

subsection \<open>A frame written is a frame read\<close>

text \<open>
  The checksum that \<^verbatim>\<open>rte_ipv4_cksum\<close> computes over a header without options, inserted into that
  header, makes the checksum of the header zero.
\<close>

definition hdr_cksum_ok :: "env \<Rightarrow> bool" where
  "hdr_cksum_ok e \<longleftrightarrow> (\<forall>front rear rest. length front = 10 \<and> length rear = 8 \<and> front ! 0 = 0x45 \<longrightarrow>
     e_hdr_cksum e (front @ le16 (e_hdr_cksum e (front @ [0, 0] @ rear)) @ rear @ rest) = 0)"

lemma be32_le32: "be32 (ucast (drop_bit 24 x)) (ucast (drop_bit 16 x)) (ucast (drop_bit 8 x)) (ucast x) = x"
  by (rule be32_bytes32)

text \<open>Removing the Ethernet header that \<open>eth_push_hdr\<close> wrote.\<close>

lemma pop_pushed:
  assumes "eth_push_hdr src dst et vlan t = Some t'" "length src = 6" "length dst = 6" "et \<noteq> ETH_VLAN" "mb_data m = tm_data t' @ pad"
  shows "ether_type m = et" "14 \<le> length (mb_data m)"
    "\<exists>n. snd (eth_pop_hdr m) = m\<lparr>mb_data := tm_data t @ pad, mb_headroom := n\<rparr>"
proof -
  have v: "be16 0x81 0 = ETH_VLAN" by (simp add: be16_def ETH_VLAN_def)
  have d: "mb_data m = dst @ src @ (if vlan \<noteq> 0 then bytes16 ETH_VLAN @ bytes16 (vlan AND 0x0FFF) @ bytes16 et else bytes16 et) @ tm_data t @ pad"
    using assms(1,5) by (auto simp: eth_push_hdr_def pktmbuf_prepend_def split: if_splits)
  show "14 \<le> length (mb_data m)" using assms(2,3) by (simp add: d)
  have e: "etype_at 12 m = (if vlan \<noteq> 0 then ETH_VLAN else et)" "vlan \<noteq> 0 \<Longrightarrow> etype_at 16 m = et"
    using assms(2,3) be16_bytes16 [of et] be16_bytes16 [of ETH_VLAN] by (simp_all add: etype_at_def mb_mem_def d nth_append bytes16_def)
  then show "ether_type m = et" using assms(4) by (simp add: ether_type_def)
  show "\<exists>n. snd (eth_pop_hdr m) = m\<lparr>mb_data := tm_data t @ pad, mb_headroom := n\<rparr>"
    using e assms(2-4) by (auto simp: eth_pop_hdr_def pktmbuf_adj_def Let_def d bytes16_def)
qed

text \<open>Validating the IPv4 header that \<open>ipv4_push_hdr\<close> wrote.\<close>

lemma check_pushed:
  assumes "ipv4_push_hdr e cfg (word_of_nat (length (tm_data t))) False idc t = Some (t', idc')" "length (tm_data t) \<le> 65515" "hdr_cksum_ok e"
    "mb_data m = tm_data t' @ pad" "ipv4_local e m = 0 \<or> ipv4_local e m = itc_dst_ip cfg"
  shows "\<exists>n. ipv4_check e m = Pass (itc_protocol cfg) (m\<lparr>mb_data := tm_data t, mb_tail := pad @ mb_tail m,
    mb_hash_usr := itc_src_ip cfg, mb_dynfield0 := itc_dst_ip cfg, mb_headroom := n\<rparr>)"
proof -
  define L :: u16 where "L = 20 + word_of_nat (length (tm_data t))"
  define x :: u16 where "x = (if idc = None then 0 else ucast (the idc AND 0xFFFF))"
  define ttl where "ttl = (if itc_ttl cfg \<noteq> 0 then itc_ttl cfg else 64)"
  define off :: u16 where "off = (if itc_df cfg then 0x4000 else 0)"
  define front where "front = [0x45, itc_dscp_ecn cfg] @ bytes16 L @ bytes16 x @ bytes16 off @ [ttl, itc_protocol cfg]"
  define rear where "rear = le32 (itc_src_ip cfg) @ le32 (itc_dst_ip cfg)"
  define ck where "ck = e_hdr_cksum e (front @ [0, 0] @ rear)"
  have len: "unat L = 20 + length (tm_data t)" using assms(2) by (simp add: L_def unat_word_ariths unat_of_nat take_bit_nat_eq_self)
  have d: "mb_data m = front @ le16 ck @ rear @ tm_data t @ pad"
    using assms(1,4) unfolding front_def rear_def ck_def x_def ttl_def off_def L_def
    by (auto simp: ipv4_push_hdr_def pktmbuf_prepend_def Let_def bind_eq_Some_conv split: if_splits)
  have fl: "length front = 10" "length rear = 8" "front ! 0 = 0x45" by (simp_all add: front_def rear_def le32_def)
  then have ckz: "e_hdr_cksum e (front @ le16 ck @ rear @ rest) = 0" for rest using assms(3) by (simp add: hdr_cksum_ok_def ck_def)
  have ds: "mb_data m = [0x45, itc_dscp_ecn cfg, ucast (drop_bit 8 L), ucast L, ucast (drop_bit 8 x), ucast x, ucast (drop_bit 8 off), ucast off, ttl,
      itc_protocol cfg] @ le16 ck @ le32 (itc_src_ip cfg) @ le32 (itc_dst_ip cfg) @ tm_data t @ pad"
    unfolding d front_def rear_def by (simp add: bytes16_def)
  have n: "mb_data m ! 0 = 0x45" "be16 (mb_data m ! 2) (mb_data m ! 3) = L" "be16 (mb_data m ! 6) (mb_data m ! 7) = off" "mb_data m ! 9 = itc_protocol cfg"
    "le32_at (mb_data m) 12 = itc_src_ip cfg" "le32_at (mb_data m) 16 = itc_dst_ip cfg" "20 \<le> length (mb_data m)" "drop 20 (mb_data m) = tm_data t @ pad"
    unfolding ds by (simp_all add: le16_def le32_def le32_at_def be16_bytes16 be32_bytes32)
  have o: "off AND 0x2000 = 0" "off AND 0x1FFF = 0" by (simp_all add: off_def)
  have m: "mb_mem m = front @ le16 ck @ rear @ (tm_data t @ pad @ mb_tail m)" by (simp add: mb_mem_def d)
  have lm: "length (mb_data m) = 20 + length (tm_data t) + length pad" using arg_cong [OF n(8), of length] n(7) by simp
  let ?m = "m\<lparr>mb_hash_usr := itc_src_ip cfg, mb_dynfield0 := itc_dst_ip cfg\<rparr>"
  have s: "ipv4_save m = ?m" using n by (simp add: ipv4_save_def)
  have "mb_mem ?m = mb_mem m" by (simp add: mb_mem_def)
  then have c: "e_hdr_cksum e (mb_mem ?m) = 0" by (simp add: m ckz)
  have ihl: "0x45 AND 0x0F = (5 :: u8)" "drop_bit 4 (0x45 :: u8) = 4" "ucast (5 :: u8) * 4 = (20 :: u16)" "unat (20 :: u16) = 20" by simp_all
  have dm: "mb_data ?m = mb_data m" by simp
  have "\<not> length (mb_data m) < 20" "\<not> length (mb_data m) < unat L" using lm len n(7) by simp_all
  then have "ipv4_check e m = (case pktmbuf_adj 20 ?m of None \<Rightarrow> Drop
      | Some m1 \<Rightarrow> Pass (itc_protocol cfg) (pktmbuf_trim_to (unat (L - 20)) m1))"
    using assms(5) unfolding ipv4_check_def s ipv4_validate_and_strip_def Let_def dm c n(1-6) o ihl by auto
  moreover have "unat (L - 20) = length (tm_data t)" using assms(2) by (simp add: L_def unat_of_nat take_bit_nat_eq_self)
  ultimately show ?thesis using n(7,8)
    by (cases m) (auto simp: pktmbuf_adj_def pktmbuf_trim_to_def intro!: exI [of _ "mb_headroom m + 20"])
qed

text \<open>
  C18. What the framing functions write, the receive path reads: a TCP segment with an IPv4 header from
  \<open>ipv4_push_hdr\<close> and an Ethernet header from \<open>eth_push_hdr\<close>, with or without a VLAN tag and with any padding behind
  it, reaches TCP as exactly that segment with the addresses of its header.
\<close>

theorem frame_roundtrip:
  assumes "ipv4_push_hdr e cfg (word_of_nat (length (tm_data t))) False idc t = Some (t1, idc')" "eth_push_hdr src dst ETH_IPV4 vlan t1 = Some t2"
    "mb_data m = tm_data t2 @ pad" "length (tm_data t) \<le> 65515" "itc_protocol cfg = 6" "length src = 6" "length dst = 6" "hdr_cksum_ok e"
    "unat (mb_port m) < TGEN_MAX_PORTS" "arp_local_ip (e_arp e ! unat (mb_port m)) = 0 \<or> arp_local_ip (e_arp e ! unat (mb_port m)) = itc_dst_ip cfg"
    "\<not> mb_no_buf m"
  shows "classify_and_process e m r w = map_option (Pair r) (tcp_fsm_input e
    \<lparr>mb_data = tm_data t, mb_tail = pad @ mb_tail m, mb_hash_usr = itc_src_ip cfg, mb_dynfield0 = itc_dst_ip cfg, mb_port = mb_port m,
     mb_l4_bad = mb_l4_bad m\<rparr> w)"
proof -
  note p = pop_pushed [OF assms(2,6,7) _ assms(3)]
  have v: "ETH_IPV4 \<noteq> ETH_VLAN" "ETH_IPV4 \<noteq> ETH_ARP" by (simp_all add: ETH_IPV4_def ETH_VLAN_def ETH_ARP_def)
  obtain n where n: "snd (eth_pop_hdr m) = m\<lparr>mb_data := tm_data t1 @ pad, mb_headroom := n\<rparr>" using p(3) v(1) by blast
  let ?m = "m\<lparr>mb_data := tm_data t1 @ pad, mb_headroom := n\<rparr>"
  from check_pushed [OF assms(1,4,8), of ?m pad] assms(9,10) obtain k where c: "ipv4_check e ?m = Pass 6 (?m\<lparr>mb_data := tm_data t,
      mb_tail := pad @ mb_tail m, mb_hash_usr := itc_src_ip cfg, mb_dynfield0 := itc_dst_ip cfg, mb_headroom := k\<rparr>)"
    by (auto simp: ipv4_local_def assms(5))
  have "classify_and_process e m r w = ipv4_input e ?m r w" using p(1,2) v n assms(11) by (simp add: classify_and_process_def)
  also have "\<dots> = map_option (Pair r) (tcp_fsm_input e \<lparr>mb_data = tm_data t, mb_tail = pad @ mb_tail m, mb_hash_usr = itc_src_ip cfg,
      mb_dynfield0 = itc_dst_ip cfg, mb_port = mb_port m, mb_l4_bad = mb_l4_bad m\<rparr> w)"
    using assms(9) by (simp add: ipv4_input_def c count_verdict_def mbuf.truncate_def) (simp add: map_conv_bind_option comp_def)
  finally show ?thesis .
qed

subsection \<open>A frame\<close>

definition demo_tcp_cfg :: ipv4_tx_cfg where
  "demo_tcp_cfg = \<lparr>itc_src_ip = 0x0a000002, itc_dst_ip = 1, itc_dscp_ecn = 0, itc_ttl = 0, itc_protocol = 6, itc_df = True\<rparr>"

definition demo_tx :: tx_mbuf where
  "demo_tx = \<lparr>tm_data = mb_data (demo_seg SYN_FLAG 80), tm_headroom = 128, tm_l2_len = 0, tm_l3_len = 0, tm_ip_offload = False\<rparr>"

definition demo_frame :: "tx_mbuf \<Rightarrow> rx_mbuf" where
  "demo_frame t = \<lparr>mb_data = tm_data t @ [0, 0], mb_tail = [], mb_hash_usr = 0, mb_dynfield0 = 0, mb_port = 0, mb_l4_bad = False,
     mb_headroom = 128, mb_ip_good = False, mb_no_buf = False\<rparr>"

definition demo_rings :: net_rings where
  "demo_rings = \<lparr>r_arp = replicate 16 (Some []), r_icmp = replicate 16 (Some []), r_icmpv6 = replicate 16 (Some []), r_udp = replicate 16 (Some [])\<rparr>"

theorem frame_roundtrip_witness:
  "\<exists>t1 t2 idc. ipv4_push_hdr demo_env demo_tcp_cfg 20 False None demo_tx = Some (t1, idc) \<and>
    eth_push_hdr [0, 1, 2, 3, 4, 5] [6, 7, 8, 9, 10, 11] ETH_IPV4 7 t1 = Some t2 \<and>
    classify_and_process demo_env (demo_frame t2) demo_rings demo_worker = map_option (Pair demo_rings) (tcp_fsm_input demo_env
      \<lparr>mb_data = mb_data (demo_seg SYN_FLAG 80), mb_tail = [0, 0], mb_hash_usr = 0x0a000002, mb_dynfield0 = 1, mb_port = 0, mb_l4_bad = False\<rparr> demo_worker)"
proof -
  obtain t1 idc where i: "ipv4_push_hdr demo_env demo_tcp_cfg 20 False None demo_tx = Some (t1, idc)" "tm_headroom t1 = 108"
    by (simp add: ipv4_push_hdr_def pktmbuf_prepend_def demo_tx_def Let_def le16_def le32_def)
  obtain t2 where "eth_push_hdr [0, 1, 2, 3, 4, 5] [6, 7, 8, 9, 10, 11] ETH_IPV4 7 t1 = Some t2"
    using i(2) by (simp add: eth_push_hdr_def pktmbuf_prepend_def)
  moreover have "length (tm_data demo_tx) = 20" "hdr_cksum_ok demo_env" by (simp_all add: demo_tx_def demo_seg_def hdr_cksum_ok_def demo_env_def)
  ultimately show ?thesis
    using i(1) frame_roundtrip [of demo_env demo_tcp_cfg demo_tx None t1 idc _ _ 7 t2 "demo_frame t2" "[0, 0]" demo_rings demo_worker]
    by (auto simp: demo_frame_def demo_tcp_cfg_def demo_tx_def TGEN_MAX_PORTS_def demo_env_def demo_arp_def)
qed

text \<open>A SYN for port 80 in an IPv4 packet, with padding.\<close>

definition demo_syn_frame :: rx_mbuf where
  "demo_syn_frame = (demo_frame demo_tx)\<lparr>mb_data := [6, 7, 8, 9, 10, 11, 0, 1, 2, 3, 4, 5, 8, 0] @
     [0x45, 0, 0, 40, 0, 0, 0x40, 0, 64, 6, 0, 0, 2, 0, 0, 10, 1, 0, 0, 0] @ mb_data (demo_seg SYN_FLAG 80) @ [0, 0]\<rparr>"

lemma demo_syn_tcp: "frame_tcp demo_env demo_syn_frame = Some ((demo_seg SYN_FLAG 80)\<lparr>mb_tail := [0, 0], mb_hash_usr := 0x0a000002, mb_dynfield0 := 1, mb_port := 0\<rparr>)"
proof -
  have e: "ether_type demo_syn_frame = ETH_IPV4" "snd (eth_pop_hdr demo_syn_frame) = demo_syn_frame\<lparr>mb_data := drop 14 (mb_data demo_syn_frame), mb_headroom := 142\<rparr>"
    by (simp_all add: ether_type_def etype_at_def mb_mem_def demo_syn_frame_def be16_def ETH_VLAN_def ETH_IPV4_def eth_pop_hdr_def pktmbuf_adj_def demo_frame_def)
  have "ipv4_check demo_env (demo_syn_frame\<lparr>mb_data := drop 14 (mb_data demo_syn_frame), mb_headroom := 142\<rparr>) =
    Pass 6 (demo_syn_frame\<lparr>mb_data := mb_data (demo_seg SYN_FLAG 80), mb_tail := [0, 0], mb_hash_usr := 0x0a000002, mb_dynfield0 := 1, mb_headroom := 162\<rparr>)"
    by (simp add: ipv4_check_def ipv4_validate_and_strip_def ipv4_save_def ipv4_local_def demo_syn_frame_def demo_frame_def demo_seg_def be16_def le32_at_def
        be32_def pktmbuf_adj_def pktmbuf_trim_to_def demo_env_def demo_arp_def Let_def TGEN_MAX_PORTS_def)
  then show ?thesis using e
    by (simp add: frame_tcp_def passed_tcp_def mbuf.truncate_def) (simp add: demo_syn_frame_def demo_frame_def demo_seg_def)
qed

theorem frames_keep_worker_witness:
  "\<exists>r' w'. receive_frames demo_env [demo_syn_frame, demo_frame demo_tx] demo_rings demo_worker = Some (r', w') \<and> sys_ok demo_env w' \<and> rings_ok r'"
proof (rule frames_keep_worker [OF demo_sys(1)])
  show "rings_ok demo_rings" by (simp add: rings_ok_def demo_rings_def RING_CAP_def TGEN_MAX_PORTS_def) (simp add: list_all_length)
  show "e_lcore_id demo_env < TGEN_MAX_WORKERS" by (simp add: demo_env_def TGEN_MAX_WORKERS_def)
  have "peer_ok (seg_hdr m) (seg_opts m)" if "m = (demo_seg SYN_FLAG 80)\<lparr>mb_tail := [0, 0], mb_hash_usr := 0x0a000002, mb_dynfield0 := 1, mb_port := 0\<rparr>" for m
    using that by (simp add: peer_ok_def seg_hdr_def seg_opts_def parse_tcp_hdr_def demo_seg_def tcp_options_parse_def po_zero_def be16_def)
  then have "frame_ok demo_env demo_syn_frame" by (simp add: frame_ok_def demo_syn_tcp) (simp add: demo_syn_frame_def demo_frame_def TGEN_MAX_PORTS_def)
  moreover have "frame_ok demo_env (demo_frame demo_tx)"
    by (simp add: frame_ok_def frame_tcp_def ether_type_def etype_at_def mb_mem_def demo_frame_def demo_tx_def demo_seg_def be16_def ETH_VLAN_def
        ETH_IPV4_def ETH_IPV6_def TGEN_MAX_PORTS_def SYN_FLAG_def)
  ultimately show "list_all (frame_ok demo_env) [demo_syn_frame, demo_frame demo_tx]" by simp
qed

theorem high_core_bad_cksum_traps_witness:
  "ipv4_input (demo_env\<lparr>e_lcore_id := 125, e_hdr_cksum := (\<lambda>_. 1)\<rparr>)
    ((demo_frame demo_tx)\<lparr>mb_data := [0x45, 0, 0, 20, 0, 0, 0, 0, 64, 6, 0, 0, 1, 0, 0, 10, 1, 0, 0, 0]\<rparr>) demo_rings demo_worker = None"
  by (rule high_core_bad_cksum_traps)
    (simp_all add: TGEN_MAX_WORKERS_def TGEN_MAX_PORTS_def demo_frame_def ipv4_check_def ipv4_validate_and_strip_def ipv4_save_def Let_def be16_def demo_env_def
      demo_caps_def)

end
