(* ===== verification/NetMgmt.thy ===== *)
theory NetMgmt
  imports NetInput
begin

text \<open>
  The management thread's half of the network layer: its state, the transmission of single packets on the
  management queue, and ARP (\<^verbatim>\<open>net/arp.c\<close>).  The thread takes packets out of the rings that the workers fill.  The
  DPDK hash of the ARP cache is a parameter: \<open>me_hash_add\<close> gives the position of a key that is present or is
  added, and no position when there is no room.  \<open>me_tsc_hz\<close> is the program's calibrated clock rate, \<open>me_eal_hz\<close> that of DPDK;
  \<open>me_poll\<close> is what happens while the thread waits in a loop: its callback and the packets that workers put into the rings.
  \<open>nm_held\<close> counts the packet buffers the thread owns outside the rings.
\<close>

subsection \<open>State\<close>

record net_mgmt =
  nm_arp :: "arp_port list"
  nm_ndp :: "ndp_port list"
  nm_rings :: net_rings
  nm_ndp_rings :: "ring list"
  nm_metrics :: worker_metrics
  nm_wire :: "(nat \<times> u16 \<times> bytes) list"
  nm_held :: int
  nm_ext_pos :: nat
  nm_tsc_reads :: "nat \<Rightarrow> u64"
  nm_tsc_pos :: nat

record mgmt_env =
  me_port_caps :: "nat \<Rightarrow> port_caps"
  me_tsc_hz :: u64
  me_eal_hz :: u64
  me_n_ports :: nat
  me_pool :: bool
  me_mbuf_alloc :: "nat \<Rightarrow> bool"
  me_tailroom :: nat
  me_tx_burst :: "nat \<Rightarrow> nat \<Rightarrow> nat"
  me_hash_add :: "(u32 \<Rightarrow> nat option) \<Rightarrow> u32 \<Rightarrow> nat option"
  me_raw_cksum :: "bytes \<Rightarrow> u16"
  me_hdr_cksum :: "bytes \<Rightarrow> u16"
  me_poll :: "net_mgmt \<Rightarrow> net_mgmt option"

definition mgmt_rdtsc :: "net_mgmt \<Rightarrow> u64 \<times> net_mgmt" where
  "mgmt_rdtsc s = (nm_tsc_reads s (nm_tsc_pos s), s\<lparr>nm_tsc_pos := nm_tsc_pos s + 1\<rparr>)"

definition mgmt_free :: "net_mgmt \<Rightarrow> net_mgmt" where
  "mgmt_free s = s\<lparr>nm_held := nm_held s - 1\<rparr>"

text \<open>A buffer with \<open>n\<close> bytes appended; a buffer without that room is freed again.\<close>

definition mgmt_alloc :: "mgmt_env \<Rightarrow> nat \<Rightarrow> net_mgmt \<Rightarrow> bool \<times> net_mgmt" where
  "mgmt_alloc e n s =
     (let ok = (me_mbuf_alloc e (nm_ext_pos s) \<and> n \<le> me_tailroom e)
      in (ok, s\<lparr>nm_ext_pos := nm_ext_pos s + 1, nm_held := nm_held s + (if ok then 1 else 0)\<rparr>))"

text \<open>A burst of one packet on the management queue of a port; a packet that is not taken stays with the caller.\<close>

definition mgmt_tx :: "mgmt_env \<Rightarrow> nat \<Rightarrow> bytes \<Rightarrow> net_mgmt \<Rightarrow> bool \<times> net_mgmt" where
  "mgmt_tx e p f s =
     (let s1 = s\<lparr>nm_ext_pos := nm_ext_pos s + 1\<rparr>
      in if me_tx_burst e (nm_ext_pos s) 1 = 0 then (False, s1)
         else (True, s1\<lparr>nm_wire := nm_wire s @ [(p, pc_mgmt_tx_q (me_port_caps e p), f)], nm_held := nm_held s - 1\<rparr>))"

definition mgmt_metrics :: "(worker_metrics \<Rightarrow> worker_metrics) \<Rightarrow> net_mgmt \<Rightarrow> net_mgmt" where
  "mgmt_metrics f s = s\<lparr>nm_metrics := f (nm_metrics s)\<rparr>"

subsection \<open>ARP packets\<close>

definition TGEN_ARP_CACHE_SZ :: nat where "TGEN_ARP_CACHE_SZ = 1024"
definition ARP_CACHE_TTL_S :: u64 where "ARP_CACHE_TTL_S = 300"
definition ARP_PROBE_BEFORE_EXPIRY :: u64 where "ARP_PROBE_BEFORE_EXPIRY = 30"
definition ARP_MAX_PROBE_FAILURES :: u8 where "ARP_MAX_PROBE_FAILURES = 2"
definition ARP_OP_REQUEST :: u16 where "ARP_OP_REQUEST = 1"
definition ARP_OP_REPLY :: u16 where "ARP_OP_REPLY = 2"

definition arp_packet :: "bytes \<Rightarrow> bytes \<Rightarrow> u16 \<Rightarrow> u32 \<Rightarrow> bytes \<Rightarrow> u32 \<Rightarrow> bytes" where
  "arp_packet dst src op sip tha tip =
     dst @ src @ bytes16 ETH_ARP @ bytes16 1 @ bytes16 ETH_IPV4 @ [6, 4] @ bytes16 op @ src @ le32 sip @ tha @ le32 tip"

definition build_arp_request :: "mgmt_env \<Rightarrow> nat \<Rightarrow> u32 \<Rightarrow> net_mgmt \<Rightarrow> bytes option \<times> net_mgmt" where
  "build_arp_request e p target_ip s =
     (let a = nm_arp s ! p; (ok, s) = mgmt_alloc e 42 s
      in (if ok then Some (arp_packet (replicate 6 0xFF) (arp_local_mac a) ARP_OP_REQUEST (arp_local_ip a) (replicate 6 0) target_ip)
          else None, s))"

text \<open>The fields the receiver reads, at their offsets in an untagged frame.\<close>

record arp_msg =
  am_op :: u16
  am_sha :: bytes
  am_sip :: u32
  am_tip :: u32

definition arp_msg_of :: "bytes \<Rightarrow> arp_msg" where
  "arp_msg_of d = \<lparr>am_op = be16 (d ! 20) (d ! 21), am_sha = take 6 (drop 22 d), am_sip = le32_at d 28, am_tip = le32_at d 38\<rparr>"

definition build_arp_reply :: "mgmt_env \<Rightarrow> nat \<Rightarrow> arp_msg \<Rightarrow> net_mgmt \<Rightarrow> bytes option \<times> net_mgmt" where
  "build_arp_reply e p req s =
     (let a = nm_arp s ! p; (ok, s) = mgmt_alloc e 42 s
      in (if ok then Some (arp_packet (am_sha req) (arp_local_mac a) ARP_OP_REPLY (arp_local_ip a) (am_sha req) (am_sip req)) else None, s))"

subsection \<open>The ARP cache\<close>

definition upd_arp :: "nat \<Rightarrow> (arp_port \<Rightarrow> arp_port) \<Rightarrow> net_mgmt \<Rightarrow> net_mgmt" where
  "upd_arp p f s = s\<lparr>nm_arp := (nm_arp s)[p := f (nm_arp s ! p)]\<rparr>"

definition upd_arp_entry :: "nat \<Rightarrow> nat \<Rightarrow> (arp_entry \<Rightarrow> arp_entry) \<Rightarrow> net_mgmt \<Rightarrow> net_mgmt" where
  "upd_arp_entry p i f = upd_arp p (\<lambda>a. a\<lparr>arp_entries := (arp_entries a)[i := f (arp_entries a ! i)]\<rparr>)"

definition arp_add_key :: "mgmt_env \<Rightarrow> nat \<Rightarrow> u32 \<Rightarrow> net_mgmt \<Rightarrow> nat option \<times> net_mgmt" where
  "arp_add_key e p ip s =
     (case me_hash_add e (arp_table (nm_arp s ! p)) ip of
        None \<Rightarrow> (None, s)
      | Some i \<Rightarrow> (Some i, upd_arp p (\<lambda>a. a\<lparr>arp_table := (arp_table a)(ip \<mapsto> i)\<rparr>) s))"

definition arp_resolved :: "mgmt_env \<Rightarrow> bytes \<Rightarrow> u64 \<Rightarrow> arp_entry \<Rightarrow> arp_entry" where
  "arp_resolved e sha now x = x\<lparr>ae_mac := sha, ae_state := ARP_STATE_RESOLVED, ae_expire_tsc := now + me_tsc_hz e * ARP_CACHE_TTL_S, ae_fail_count := 0\<rparr>"

text \<open>A position beyond the table of entries is a write beyond the array.\<close>

definition arp_learn :: "mgmt_env \<Rightarrow> nat \<Rightarrow> arp_msg \<Rightarrow> net_mgmt \<Rightarrow> net_mgmt option" where
  "arp_learn e p am s =
     (let (i, s) = arp_add_key e p (am_sip am) s
      in case i of
           None \<Rightarrow> Some s
         | Some i \<Rightarrow>
             if i \<ge> length (arp_entries (nm_arp s ! p)) then None
             else let (now, s) = mgmt_rdtsc s in Some (upd_arp_entry p i (arp_resolved e (am_sha am) now) s))"

definition arp_send_reply :: "mgmt_env \<Rightarrow> nat \<Rightarrow> arp_msg \<Rightarrow> net_mgmt \<Rightarrow> net_mgmt" where
  "arp_send_reply e p am s =
     (let (f, s) = build_arp_reply e p am s
      in case f of
           None \<Rightarrow> s
         | Some f \<Rightarrow> mgmt_metrics (\<lambda>m. m\<lparr>m_arp_reply_tx := m_arp_reply_tx m + 1\<rparr>) (snd (mgmt_tx e p f s)))"

fun flush_hold :: "mgmt_env \<Rightarrow> nat \<Rightarrow> bytes list \<Rightarrow> net_mgmt \<Rightarrow> net_mgmt" where
  "flush_hold e p [] s = s"
| "flush_hold e p (f # fs) s = flush_hold e p fs (snd (mgmt_tx e p f s))"

definition arp_take_reply :: "mgmt_env \<Rightarrow> nat \<Rightarrow> arp_msg \<Rightarrow> net_mgmt \<Rightarrow> net_mgmt option" where
  "arp_take_reply e p am s =
     (case arp_table (nm_arp s ! p) (am_sip am) of
        None \<Rightarrow> Some s
      | Some i \<Rightarrow>
          if i \<ge> length (arp_entries (nm_arp s ! p)) then None
          else
            let (now, s) = mgmt_rdtsc s; s = upd_arp_entry p i (arp_resolved e (am_sha am) now) s;
                s = flush_hold e p (ae_hold (arp_entries (nm_arp s ! p) ! i)) s
            in Some (upd_arp_entry p i (\<lambda>x. x\<lparr>ae_hold := []\<rparr>) s))"

text \<open>The length of the frame is not checked: the fields are read from the memory of the buffer.\<close>

definition arp_mgmt_process :: "mgmt_env \<Rightarrow> nat \<Rightarrow> rx_mbuf \<Rightarrow> net_mgmt \<Rightarrow> net_mgmt option" where
  "arp_mgmt_process e p m s =
     (if p \<ge> length (nm_arp s) \<or> length (mb_mem m) < 42 then None
      else
        let am = arp_msg_of (mb_mem m)
        in do { s \<leftarrow> (if am_op am = ARP_OP_REQUEST \<and> am_tip am = arp_local_ip (nm_arp s ! p)
                       then map_option (arp_send_reply e p am) (arp_learn e p am s)
                       else if am_op am = ARP_OP_REQUEST then Some s
                       else if am_op am = ARP_OP_REPLY then arp_take_reply e p am s
                       else Some s);
                Some (mgmt_free s) })"

definition arp_request :: "mgmt_env \<Rightarrow> nat \<Rightarrow> u32 \<Rightarrow> net_mgmt \<Rightarrow> (int \<times> net_mgmt) option" where
  "arp_request e p ip s =
     (let (i, s) = arp_add_key e p ip s
      in do { s \<leftarrow> (case i of
                       None \<Rightarrow> Some s
                     | Some i \<Rightarrow>
                         if i \<ge> length (arp_entries (nm_arp s ! p)) then None
                         else Some (upd_arp_entry p i (\<lambda>x. if ae_state x \<noteq> ARP_STATE_RESOLVED
                                      then x\<lparr>ae_state := ARP_STATE_PENDING, ae_hold := [], ae_fail_count := 0\<rparr> else x) s));
              let (f, s) = build_arp_request e p ip s
              in case f of
                   None \<Rightarrow> Some (-1, s)
                 | Some f \<Rightarrow>
                     let (nb, s) = mgmt_tx e p f s
                     in Some (0, if nb then mgmt_metrics (\<lambda>m. m\<lparr>m_arp_request_tx := m_arp_request_tx m + 1\<rparr>) s else mgmt_free s) })"

subsection \<open>The periodic tick\<close>

definition arp_age :: "mgmt_env \<Rightarrow> u64 \<Rightarrow> arp_entry \<Rightarrow> arp_entry" where
  "arp_age e now x =
     (if ae_state x \<noteq> ARP_STATE_RESOLVED then x
      else
        let probe_tsc = ae_expire_tsc x - me_tsc_hz e * ARP_PROBE_BEFORE_EXPIRY
        in if now \<ge> probe_tsc \<and> now < ae_expire_tsc x then x\<lparr>ae_state := ARP_STATE_STALE\<rparr>
           else if now \<ge> ae_expire_tsc x then
             let fc = ae_fail_count x + 1
             in x\<lparr>ae_fail_count := fc, ae_state := (if fc \<ge> ARP_MAX_PROBE_FAILURES then ARP_STATE_FAILED else ae_state x)\<rparr>
           else x)"

text \<open>The packets of a ring are taken out one by one; the handlers of ARP put none back.\<close>

fun arp_drain :: "mgmt_env \<Rightarrow> nat \<Rightarrow> rx_mbuf list \<Rightarrow> net_mgmt \<Rightarrow> net_mgmt option" where
  "arp_drain e p [] s = Some s"
| "arp_drain e p (m # ms) s =
     do { s \<leftarrow> arp_mgmt_process e p m
                 (s\<lparr>nm_rings := (nm_rings s)\<lparr>r_arp := (r_arp (nm_rings s))[p := Some ms]\<rparr>, nm_held := nm_held s + 1\<rparr>);
          arp_drain e p ms s }"

definition arp_tick_port :: "mgmt_env \<Rightarrow> u64 \<Rightarrow> nat \<Rightarrow> net_mgmt \<Rightarrow> net_mgmt option" where
  "arp_tick_port e now p s =
     (case r_arp (nm_rings s) ! p of
        None \<Rightarrow> None
      | Some ms \<Rightarrow> do { s \<leftarrow> arp_drain e p ms s; Some (upd_arp p (\<lambda>a. a\<lparr>arp_entries := map (arp_age e now) (arp_entries a)\<rparr>) s) })"

fun for_ports :: "(nat \<Rightarrow> net_mgmt \<Rightarrow> net_mgmt option) \<Rightarrow> nat list \<Rightarrow> net_mgmt \<Rightarrow> net_mgmt option" where
  "for_ports f [] s = Some s"
| "for_ports f (p # ps) s = do { s \<leftarrow> f p s; for_ports f ps s }"

definition mgmt_ports :: "mgmt_env \<Rightarrow> nat list" where
  "mgmt_ports e = [0 ..< min (me_n_ports e) TGEN_MAX_PORTS]"

definition arp_mgmt_tick :: "mgmt_env \<Rightarrow> net_mgmt \<Rightarrow> net_mgmt option" where
  "arp_mgmt_tick e s = (let (now, s) = mgmt_rdtsc s in for_ports (arp_tick_port e now) (mgmt_ports e) s)"

text \<open>Initialisation; the hash tables and rings that DPDK fails to create are parameters.\<close>

definition arp_entry_zero :: arp_entry where
  "arp_entry_zero = \<lparr>ae_mac = replicate 6 0, ae_state = ARP_STATE_FREE, ae_expire_tsc = 0, ae_fail_count = 0, ae_hold = []\<rparr>"

definition arp_port_zero :: "bytes \<Rightarrow> arp_port" where
  "arp_port_zero mac = \<lparr>arp_table = (\<lambda>_. None), arp_entries = replicate TGEN_ARP_CACHE_SZ arp_entry_zero, arp_local_ip = 0,
     arp_gateway_ip = 0, arp_netmask = 0, arp_local_mac = mac\<rparr>"

fun arp_init_ports :: "(nat \<Rightarrow> bytes) \<Rightarrow> (nat \<Rightarrow> bool) \<Rightarrow> (nat \<Rightarrow> bool) \<Rightarrow> nat list \<Rightarrow> net_mgmt \<Rightarrow> int \<times> net_mgmt" where
  "arp_init_ports mac hash_ok ring_ok [] s = (0, s)"
| "arp_init_ports mac hash_ok ring_ok (p # ps) s =
     (if \<not> hash_ok p then (-1, s)
      else
        let s = upd_arp p (\<lambda>a. a\<lparr>arp_local_mac := mac p\<rparr>) s
        in if \<not> ring_ok p then (-1, s)
           else arp_init_ports mac hash_ok ring_ok ps (s\<lparr>nm_rings := (nm_rings s)\<lparr>r_arp := (r_arp (nm_rings s))[p := Some []]\<rparr>\<rparr>))"

definition arp_init :: "mgmt_env \<Rightarrow> (nat \<Rightarrow> bytes) \<Rightarrow> (nat \<Rightarrow> bool) \<Rightarrow> (nat \<Rightarrow> bool) \<Rightarrow> net_mgmt \<Rightarrow> int \<times> net_mgmt" where
  "arp_init e mac hash_ok ring_ok s =
     arp_init_ports mac hash_ok ring_ok (mgmt_ports e) (s\<lparr>nm_arp := replicate TGEN_MAX_PORTS (arp_port_zero (replicate 6 0))\<rparr>)"

subsection \<open>The cache stays well formed\<close>

text \<open>
  What DPDK documents of adding a key: a key that is present keeps its position, a new key gets a position of
  its own within the size of the table.
\<close>

definition hash_ok :: "mgmt_env \<Rightarrow> bool" where
  "hash_ok e \<longleftrightarrow> (\<forall>t ip i. me_hash_add e t ip = Some i \<longrightarrow>
     (case t ip of Some j \<Rightarrow> i = j | None \<Rightarrow> i < TGEN_ARP_CACHE_SZ \<and> i \<notin> ran t))"

definition arp_port_ok :: "arp_port \<Rightarrow> bool" where
  "arp_port_ok a \<longleftrightarrow> length (arp_entries a) = TGEN_ARP_CACHE_SZ \<and> length (arp_local_mac a) = 6 \<and> inj_on (arp_table a) (dom (arp_table a)) \<and>
     ran (arp_table a) \<subseteq> {..< TGEN_ARP_CACHE_SZ}"

definition arp_ok :: "net_mgmt \<Rightarrow> bool" where
  "arp_ok s \<longleftrightarrow> length (nm_arp s) = TGEN_MAX_PORTS \<and> list_all arp_port_ok (nm_arp s)"

lemma arp_okD:
  assumes "arp_ok s" "p < TGEN_MAX_PORTS"
  shows "p < length (nm_arp s)" "arp_port_ok (nm_arp s ! p)" "length (arp_entries (nm_arp s ! p)) = TGEN_ARP_CACHE_SZ"
    "length (arp_local_mac (nm_arp s ! p)) = 6"
    "arp_table (nm_arp s ! p) ip = Some i \<Longrightarrow> i < TGEN_ARP_CACHE_SZ"
proof -
  show "p < length (nm_arp s)" "arp_port_ok (nm_arp s ! p)" using assms by (auto simp: arp_ok_def list_all_length)
  then show "length (arp_entries (nm_arp s ! p)) = TGEN_ARP_CACHE_SZ" "length (arp_local_mac (nm_arp s ! p)) = 6"
    "arp_table (nm_arp s ! p) ip = Some i \<Longrightarrow> i < TGEN_ARP_CACHE_SZ"
    using ranI by (fastforce simp: arp_port_ok_def)+
qed

lemma mgmt_frames [simp]:
  "nm_arp (snd (mgmt_alloc e n s)) = nm_arp s" "nm_arp (snd (mgmt_tx e p f s)) = nm_arp s" "nm_arp (mgmt_free s) = nm_arp s"
  "nm_arp (mgmt_metrics g s) = nm_arp s" "nm_arp (snd (mgmt_rdtsc s)) = nm_arp s"
  "nm_ndp (snd (mgmt_alloc e n s)) = nm_ndp s" "nm_ndp (snd (mgmt_tx e p f s)) = nm_ndp s" "nm_ndp (mgmt_free s) = nm_ndp s"
  "nm_ndp (mgmt_metrics g s) = nm_ndp s" "nm_ndp (snd (mgmt_rdtsc s)) = nm_ndp s"
  "nm_rings (snd (mgmt_alloc e n s)) = nm_rings s" "nm_rings (snd (mgmt_tx e p f s)) = nm_rings s" "nm_rings (mgmt_free s) = nm_rings s"
  "nm_rings (mgmt_metrics g s) = nm_rings s" "nm_rings (snd (mgmt_rdtsc s)) = nm_rings s"
  "nm_wire (snd (mgmt_alloc e n s)) = nm_wire s" "nm_wire (mgmt_free s) = nm_wire s"
  "nm_wire (mgmt_metrics g s) = nm_wire s" "nm_wire (snd (mgmt_rdtsc s)) = nm_wire s"
  by (simp_all add: mgmt_alloc_def mgmt_tx_def mgmt_free_def mgmt_metrics_def mgmt_rdtsc_def Let_def)

lemma upd_arp_frames [simp]:
  "length (nm_arp (upd_arp p f s)) = length (nm_arp s)" "nm_rings (upd_arp p f s) = nm_rings s" "nm_wire (upd_arp p f s) = nm_wire s"
  "nm_ndp (upd_arp p f s) = nm_ndp s" "nm_held (upd_arp p f s) = nm_held s"
  "p < length (nm_arp s) \<Longrightarrow> nm_arp (upd_arp p f s) ! q = (if q = p then f (nm_arp s ! p) else nm_arp s ! q)"
  by (simp_all add: upd_arp_def nth_list_update)

lemma upd_arp_ok:
  assumes "arp_ok s" "p < TGEN_MAX_PORTS" "arp_port_ok (f (nm_arp s ! p))"
  shows "arp_ok (upd_arp p f s)"
  using assms by (auto simp: arp_ok_def list_all_length)

lemma upd_entry_ok:
  assumes "arp_ok s" "p < TGEN_MAX_PORTS"
  shows "arp_ok (upd_arp_entry p i f s)"
  unfolding upd_arp_entry_def using arp_okD(2) [OF assms] by (intro upd_arp_ok [OF assms]) (simp add: arp_port_ok_def)

lemma arp_ok_cong: "nm_arp s' = nm_arp s \<Longrightarrow> arp_ok s' = arp_ok s"
  by (simp add: arp_ok_def)

lemma add_key_ok:
  assumes "arp_ok s" "p < TGEN_MAX_PORTS" "hash_ok e"
  shows "arp_ok (snd (arp_add_key e p ip s))"
    "\<And>i. fst (arp_add_key e p ip s) = Some i \<Longrightarrow> i < TGEN_ARP_CACHE_SZ \<and> arp_table (nm_arp (snd (arp_add_key e p ip s)) ! p) ip = Some i"
proof -
  let ?t = "arp_table (nm_arp s ! p)"
  note a = arp_okD [OF assms(1,2)]
  have h: "i < TGEN_ARP_CACHE_SZ \<and> (?t ip = Some i \<or> ?t ip = None \<and> i \<notin> ran ?t)" if "me_hash_add e ?t ip = Some i" for i
    using assms(3) [unfolded hash_ok_def, rule_format, OF that] a(5) [of ip] by (auto split: option.splits)
  show "\<And>i. fst (arp_add_key e p ip s) = Some i \<Longrightarrow> i < TGEN_ARP_CACHE_SZ \<and> arp_table (nm_arp (snd (arp_add_key e p ip s)) ! p) ip = Some i"
    using h a(1) by (auto simp: arp_add_key_def split: option.splits)
  have "arp_port_ok ((nm_arp s ! p)\<lparr>arp_table := ?t(ip \<mapsto> i)\<rparr>)" if "me_hash_add e ?t ip = Some i" for i
  proof -
    have "inj_on (?t(ip \<mapsto> i)) (dom (?t(ip \<mapsto> i)))" using a(2) h [OF that]
      by (auto simp: arp_port_ok_def inj_on_def ran_def dom_def split: if_splits)
    moreover have "ran (?t(ip \<mapsto> i)) \<subseteq> {..< TGEN_ARP_CACHE_SZ}" using a(2) h [OF that] by (auto simp: arp_port_ok_def ran_def split: if_splits)
    ultimately show ?thesis using a(2) by (simp add: arp_port_ok_def)
  qed
  then show "arp_ok (snd (arp_add_key e p ip s))" using assms(1,2) by (auto simp: arp_add_key_def intro: upd_arp_ok split: option.splits)
qed

lemma upd_entry_frames [simp]:
  "length (nm_arp (upd_arp_entry p i f s)) = length (nm_arp s)" "nm_rings (upd_arp_entry p i f s) = nm_rings s"
  "nm_wire (upd_arp_entry p i f s) = nm_wire s" "nm_held (upd_arp_entry p i f s) = nm_held s"
  "p < length (nm_arp s) \<Longrightarrow> arp_table (nm_arp (upd_arp_entry p i f s) ! q) = arp_table (nm_arp s ! q)"
  "p < length (nm_arp s) \<Longrightarrow> arp_local_ip (nm_arp (upd_arp_entry p i f s) ! q) = arp_local_ip (nm_arp s ! q)"
  "p < length (nm_arp s) \<Longrightarrow> arp_local_mac (nm_arp (upd_arp_entry p i f s) ! q) = arp_local_mac (nm_arp s ! q)"
  "p < length (nm_arp s) \<Longrightarrow> length (arp_entries (nm_arp (upd_arp_entry p i f s) ! q)) = length (arp_entries (nm_arp s ! q))"
  "p < length (nm_arp s) \<Longrightarrow> i < length (arp_entries (nm_arp s ! p)) \<Longrightarrow> arp_entries (nm_arp (upd_arp_entry p i f s) ! p) ! j =
     (if j = i then f (arp_entries (nm_arp s ! p) ! i) else arp_entries (nm_arp s ! p) ! j)"
  by (simp_all add: upd_arp_entry_def)

lemma add_key_frames [simp]:
  "nm_rings (snd (arp_add_key e p ip s)) = nm_rings s" "nm_wire (snd (arp_add_key e p ip s)) = nm_wire s" "nm_held (snd (arp_add_key e p ip s)) = nm_held s"
  "length (nm_arp (snd (arp_add_key e p ip s))) = length (nm_arp s)"
  "p < length (nm_arp s) \<Longrightarrow> arp_local_ip (nm_arp (snd (arp_add_key e p ip s)) ! q) = arp_local_ip (nm_arp s ! q)"
  "p < length (nm_arp s) \<Longrightarrow> arp_local_mac (nm_arp (snd (arp_add_key e p ip s)) ! q) = arp_local_mac (nm_arp s ! q)"
  "p < length (nm_arp s) \<Longrightarrow> arp_entries (nm_arp (snd (arp_add_key e p ip s)) ! q) = arp_entries (nm_arp s ! q)"
  by (auto simp: arp_add_key_def split: option.splits)

lemma flush_hold_frames [simp]:
  "nm_arp (flush_hold e p fs s) = nm_arp s" "nm_rings (flush_hold e p fs s) = nm_rings s"
  by (induction fs arbitrary: s) simp_all

lemma send_reply_frames [simp]: "nm_arp (arp_send_reply e p am s) = nm_arp s" "nm_rings (arp_send_reply e p am s) = nm_rings s"
  by (simp_all add: arp_send_reply_def build_arp_reply_def case_prod_beta Let_def)

lemma arp_learn_ok:
  assumes "arp_ok s" "p < TGEN_MAX_PORTS" "hash_ok e"
  shows "yields (arp_learn e p am s) (\<lambda>s'. arp_ok s' \<and> nm_rings s' = nm_rings s)"
proof -
  note k = add_key_ok [OF assms, of "am_sip am"]
  show ?thesis using k(2) arp_okD(3) [OF k(1) assms(2)]
    by (auto simp: arp_learn_def case_prod_beta Let_def arp_ok_cong [OF mgmt_frames(5)] k(1) assms(2) intro!: upd_entry_ok split: option.splits)
qed

lemma take_reply_ok:
  assumes "arp_ok s" "p < TGEN_MAX_PORTS"
  shows "yields (arp_take_reply e p am s) (\<lambda>s'. arp_ok s' \<and> nm_rings s' = nm_rings s)"
  using arp_okD(3) [OF assms] arp_okD(5) [OF assms, of "am_sip am"] assms
  by (auto simp: arp_take_reply_def case_prod_beta Let_def not_le arp_ok_cong [OF mgmt_frames(5)] arp_ok_cong [OF flush_hold_frames(1)]
      intro!: upd_entry_ok split: option.splits)

lemma arp_process_ok:
  assumes "arp_ok s" "p < TGEN_MAX_PORTS" "hash_ok e" "42 \<le> length (mb_mem m)"
  shows "yields (arp_mgmt_process e p m s) (\<lambda>s'. arp_ok s' \<and> nm_rings s' = nm_rings s)"
proof -
  let ?am = "arp_msg_of (mb_mem m)"
  have "yields (map_option (arp_send_reply e p ?am) (arp_learn e p ?am s)) (\<lambda>s'. arp_ok s' \<and> nm_rings s' = nm_rings s)"
    using arp_learn_ok [OF assms(1-3), of ?am] by (auto simp: yields_def arp_ok_cong [OF send_reply_frames(1)])
  moreover have "\<not> (length (nm_arp s) \<le> p \<or> length (mb_mem m) < 42)" using arp_okD(1) [OF assms(1,2)] assms(4) by simp
  ultimately show ?thesis
    unfolding arp_mgmt_process_def Let_def using take_reply_ok [OF assms(1,2), of e ?am] assms(1)
    by (simp add: yields_bind arp_ok_cong [OF mgmt_frames(3)])
qed

subsection \<open>What a host knows of its neighbours\<close>

text \<open>
  The contract of a cache of neighbours: learning a binding keeps the cache well formed and shows in later lookups, except
  for a new address when the cache is full.
\<close>

locale neighbour_cache =
  fixes cache_ok :: "'s \<Rightarrow> bool" and look :: "'s \<Rightarrow> 'a \<Rightarrow> bytes option" and learn :: "'a \<Rightarrow> bytes \<Rightarrow> 's \<Rightarrow> 's option"
    and room :: "'s \<Rightarrow> 'a \<Rightarrow> bool"
  assumes learn_yields: "cache_ok s \<Longrightarrow> yields (learn a m s) (\<lambda>s'. cache_ok s' \<and> (\<forall>b. look s' b = (if b = a \<and> room s a then Some m else look s b)))"
    and known_room: "cache_ok s \<Longrightarrow> look s a \<noteq> None \<Longrightarrow> room s a"
begin

fun learn_all :: "('a \<times> bytes) list \<Rightarrow> 's \<Rightarrow> 's option" where
  "learn_all [] s = Some s"
| "learn_all (b # bs) s = do { s \<leftarrow> learn (fst b) (snd b) s; learn_all bs s }"

text \<open>An address that is known stays known, with the binding learned last.\<close>

lemma learn_all_latest:
  assumes "cache_ok s" "look s a = Some m"
  shows "yields (learn_all bs s) (\<lambda>s'. cache_ok s' \<and> look s' a = Some (last (m # map snd (filter (\<lambda>b. fst b = a) bs))))"
  using assms
proof (induction bs arbitrary: s m)
  case (Cons b bs)
  show ?case
  proof (simp only: learn_all.simps, rule yields_bindI [OF learn_yields [OF Cons.prems(1), of "fst b" "snd b"]])
    fix s' assume s': "cache_ok s' \<and> (\<forall>c. look s' c = (if c = fst b \<and> room s (fst b) then Some (snd b) else look s c))"
    let ?m = "if fst b = a then snd b else m"
    have "look s' a = Some ?m" using s' Cons.prems known_room [OF Cons.prems(1), of a] by auto
    from Cons.IH [OF _ this] s' show "yields (learn_all bs s')
      (\<lambda>s'. cache_ok s' \<and> look s' a = Some (last (m # map snd (filter (\<lambda>b. fst b = a) (b # bs)))))" by (auto elim!: yields_mono)
  qed
qed simp

end

definition arp_look :: "nat \<Rightarrow> net_mgmt \<Rightarrow> u32 \<Rightarrow> bytes option" where
  "arp_look p s ip = arp_lookup (nm_arp s) (word_of_nat p) ip"

lemma arp_look_eq:
  assumes "p < TGEN_MAX_PORTS"
  shows "arp_look p s ip = (case arp_table (nm_arp s ! p) ip of None \<Rightarrow> None
    | Some i \<Rightarrow> let x = arp_entries (nm_arp s ! p) ! i in if ae_state x = ARP_STATE_RESOLVED then Some (ae_mac x) else None)"
proof -
  have "unat (word_of_nat p :: u16) = p" using assms by (simp add: TGEN_MAX_PORTS_def unat_of_nat take_bit_nat_eq_self)
  then show ?thesis using assms by (simp add: arp_look_def arp_lookup_def Let_def split: option.split)
qed

text \<open>Storing a binding at the position of its key.\<close>

lemma resolve_look:
  assumes "arp_ok s" "p < TGEN_MAX_PORTS" "arp_table (nm_arp s ! p) a = Some i" "ae_state (f (arp_entries (nm_arp s ! p) ! i)) = ARP_STATE_RESOLVED"
    "ae_mac (f (arp_entries (nm_arp s ! p) ! i)) = m"
  shows "arp_look p (upd_arp_entry p i f s) b = (if b = a then Some m else arp_look p s b)"
proof -
  note k = arp_okD [OF assms(1,2)]
  have inj: "arp_table (nm_arp s ! p) b = Some i \<longleftrightarrow> b = a"
    using k(2) assms(3) by (auto simp: arp_port_ok_def inj_on_def dom_def)
  show ?thesis using k(1,3) k(5) [OF assms(3)] inj assms(3-5)
    by (auto simp: arp_look_eq [OF assms(2)] Let_def split: option.splits)
qed

lemma add_key_look:
  assumes "arp_ok s" "p < TGEN_MAX_PORTS" "hash_ok e" "fst (arp_add_key e p a s) = Some i" "b \<noteq> a"
  shows "arp_look p (snd (arp_add_key e p a s)) b = arp_look p s b"
  using arp_okD(1) [OF assms(1,2)] assms(4,5)
  by (auto simp: arp_look_eq [OF assms(2)] arp_add_key_def split: option.splits)

text \<open>There is room for an address when the hash finds a position for it.\<close>

definition arp_room :: "mgmt_env \<Rightarrow> nat \<Rightarrow> net_mgmt \<Rightarrow> u32 \<Rightarrow> bool" where
  "arp_room e p s a \<longleftrightarrow> me_hash_add e (arp_table (nm_arp s ! p)) a \<noteq> None"

definition hash_keeps :: "mgmt_env \<Rightarrow> bool" where
  "hash_keeps e \<longleftrightarrow> hash_ok e \<and> (\<forall>t a. t a \<noteq> None \<longrightarrow> me_hash_add e t a \<noteq> None)"

lemma learn_look:
  assumes "arp_ok s" "p < TGEN_MAX_PORTS" "hash_ok e"
  shows "yields (arp_learn e p am s) (\<lambda>s'. arp_ok s' \<and> nm_rings s' = nm_rings s \<and> nm_wire s' = nm_wire s \<and>
    (\<forall>b. arp_look p s' b = (if b = am_sip am \<and> arp_room e p s (am_sip am) then Some (am_sha am) else arp_look p s b)) \<and>
    arp_local_mac (nm_arp s' ! p) = arp_local_mac (nm_arp s ! p) \<and> arp_local_ip (nm_arp s' ! p) = arp_local_ip (nm_arp s ! p))"
proof (cases "fst (arp_add_key e p (am_sip am) s)")
  case None
  then have "\<not> arp_room e p s (am_sip am)" "snd (arp_add_key e p (am_sip am) s) = s"
    by (auto simp: arp_add_key_def arp_room_def split: option.splits)
  then show ?thesis using None assms(1) by (simp add: arp_learn_def case_prod_beta)
next
  case (Some i)
  let ?s = "snd (arp_add_key e p (am_sip am) s)"
  note k = add_key_ok(1) [OF assms, of "am_sip am"] add_key_ok(2) [OF assms Some]
  have r: "arp_room e p s (am_sip am)" using Some by (auto simp: arp_add_key_def arp_room_def split: option.splits)
  define s1 where "s1 = snd (mgmt_rdtsc ?s)"
  define f where "f = arp_resolved e (am_sha am) (fst (mgmt_rdtsc ?s))"
  have s1: "arp_ok s1" "nm_arp s1 = nm_arp ?s" "nm_rings s1 = nm_rings s" "nm_wire s1 = nm_wire s"
    using k(1) by (simp_all add: s1_def arp_ok_cong [OF mgmt_frames(5)])
  have lk: "arp_look p s1 b = arp_look p ?s b" for b by (simp add: arp_look_def s1(2))
  have "arp_look p (upd_arp_entry p i f s1) b = (if b = am_sip am then Some (am_sha am) else arp_look p s b)" for b
    using resolve_look [OF s1(1) assms(2), of "am_sip am" i f "am_sha am" b] k(2) add_key_look [OF assms Some, of b] s1(2)
    by (simp add: f_def arp_resolved_def lk)
  moreover have "arp_learn e p am s = Some (upd_arp_entry p i f s1)"
    using Some k(2) arp_okD(3) [OF k(1) assms(2)] by (simp add: arp_learn_def case_prod_beta s1_def f_def)
  ultimately show ?thesis using upd_entry_ok [OF s1(1) assms(2)] s1 r arp_okD(1) [OF assms(1,2)] arp_okD(1) [OF s1(1) assms(2)] by simp
qed

interpretation arp_cache: neighbour_cache "\<lambda>s. arp_ok s \<and> p < TGEN_MAX_PORTS \<and> hash_keeps e" "arp_look p"
  "\<lambda>ip mac. arp_learn e p \<lparr>am_op = ARP_OP_REQUEST, am_sha = mac, am_sip = ip, am_tip = 0\<rparr>" "arp_room e p" for e p
proof (unfold_locales, goal_cases)
  case (1 s a m)
  then show ?case using learn_look [of s p e "\<lparr>am_op = ARP_OP_REQUEST, am_sha = m, am_sip = a, am_tip = 0\<rparr>"]
    by (auto simp: hash_keeps_def elim!: yields_mono)
next
  case (2 s a)
  then show ?case by (auto simp: arp_look_eq hash_keeps_def arp_room_def split: option.splits)
qed

subsection \<open>Address resolution between two hosts\<close>

lemma arp_packet_msg:
  assumes "length dst = 6" "length src = 6" "length tha = 6"
  shows "arp_msg_of (arp_packet dst src op sip tha tip @ rest) = \<lparr>am_op = op, am_sha = src, am_sip = sip, am_tip = tip\<rparr>"
    "42 \<le> length (arp_packet dst src op sip tha tip @ rest)"
proof -
  let ?d = "arp_packet dst src op sip tha tip @ rest"
  have d: "drop 20 ?d = bytes16 op @ src @ le32 sip @ tha @ le32 tip @ rest" using assms by (simp add: arp_packet_def bytes16_def)
  have n: "?d ! (20 + k) = (bytes16 op @ src @ le32 sip @ tha @ le32 tip @ rest) ! k" if "k < 22" for k
    using nth_drop [of 20 ?d k] assms unfolding d by (simp add: arp_packet_def bytes16_def)
  have "le32_at ?d 28 = sip" "le32_at ?d 38 = tip"
    using assms n [of 8] n [of 9] n [of 10] n [of 11] n [of 18] n [of 19] n [of 20] n [of 21]
    by (simp_all add: le32_at_def nth_append bytes16_def le32_def be32_le32)
  moreover have "be16 (?d ! 20) (?d ! 21) = op" using n [of 0] n [of 1] by (simp add: bytes16_def be16_bytes16)
  moreover have "take 6 (drop 22 ?d) = src"
  proof -
    have "drop 22 ?d = drop 2 (drop 20 ?d)" by (simp only: drop_drop) simp
    then show ?thesis unfolding d using assms by (simp add: bytes16_def)
  qed
  ultimately show "arp_msg_of ?d = \<lparr>am_op = op, am_sha = src, am_sip = sip, am_tip = tip\<rparr>" by (simp add: arp_msg_of_def)
  show "42 \<le> length ?d" using assms by (simp add: arp_packet_def bytes16_def le32_def)
qed

text \<open>Buffers and the device are available.\<close>

definition reliable :: "mgmt_env \<Rightarrow> bool" where
  "reliable e \<longleftrightarrow> me_pool e \<and> (\<forall>n. me_mbuf_alloc e n) \<and> (\<forall>n. me_tx_burst e n 1 \<noteq> 0)"

lemma reliable_io:
  assumes "reliable e" "n \<le> me_tailroom e"
  shows "fst (mgmt_alloc e n s)" "nm_held (snd (mgmt_alloc e n s)) = nm_held s + 1" "fst (mgmt_tx e p f s)"
    "nm_wire (snd (mgmt_tx e p f s)) = nm_wire s @ [(p, pc_mgmt_tx_q (me_port_caps e p), f)]" "nm_held (snd (mgmt_tx e p f s)) = nm_held s - 1"
  using assms by (simp_all add: reliable_def mgmt_alloc_def mgmt_tx_def Let_def)

lemma send_reply_reliable:
  assumes "reliable e" "42 \<le> me_tailroom e"
  shows "nm_wire (arp_send_reply e p am s) = nm_wire s @ [(p, pc_mgmt_tx_q (me_port_caps e p),
    arp_packet (am_sha am) (arp_local_mac (nm_arp s ! p)) ARP_OP_REPLY (arp_local_ip (nm_arp s ! p)) (am_sha am) (am_sip am))]"
  using reliable_io [OF assms] by (simp add: arp_send_reply_def build_arp_reply_def case_prod_beta Let_def)

text \<open>A request makes its entry known to the hash, so that the reply can be stored, and broadcasts the question.\<close>

lemma arp_request_ok:
  assumes "arp_ok s" "p < TGEN_MAX_PORTS" "hash_ok e" "arp_room e p s ip" "reliable e" "42 \<le> me_tailroom e"
  shows "yields (arp_request e p ip s) (\<lambda>(rc, s'). rc = 0 \<and> arp_ok s' \<and> arp_table (nm_arp s' ! p) ip \<noteq> None \<and>
    nm_wire s' = nm_wire s @ [(p, pc_mgmt_tx_q (me_port_caps e p),
      arp_packet (replicate 6 0xFF) (arp_local_mac (nm_arp s ! p)) ARP_OP_REQUEST (arp_local_ip (nm_arp s ! p)) (replicate 6 0) ip)])"
proof -
  obtain i where i: "fst (arp_add_key e p ip s) = Some i" using assms(4) by (auto simp: arp_add_key_def arp_room_def)
  let ?s = "snd (arp_add_key e p ip s)"
  note k = add_key_ok(1) [OF assms(1-3), of ip] add_key_ok(2) [OF assms(1-3) i]
  define f where "f x = (if ae_state x \<noteq> ARP_STATE_RESOLVED then x\<lparr>ae_state := ARP_STATE_PENDING, ae_hold := [], ae_fail_count := 0\<rparr> else x)" for x :: arp_entry
  have "arp_ok (upd_arp_entry p i f ?s)" by (rule upd_entry_ok [OF k(1) assms(2)])
  then show ?thesis
    using i k(2) arp_okD(1) [OF assms(1,2)] arp_okD(1,3) [OF k(1) assms(2)] reliable_io [OF assms(5,6)]
    unfolding arp_request_def
    by (simp add: case_prod_beta Let_def build_arp_request_def f_def [symmetric] arp_ok_cong [OF mgmt_frames(4)] arp_ok_cong [OF mgmt_frames(2)]
        arp_ok_cong [OF mgmt_frames(1)])
qed

lemma take_reply_look:
  assumes "arp_ok s" "p < TGEN_MAX_PORTS" "arp_table (nm_arp s ! p) (am_sip am) \<noteq> None"
  shows "yields (arp_take_reply e p am s) (\<lambda>s'. arp_ok s' \<and> arp_look p s' (am_sip am) = Some (am_sha am))"
proof -
  obtain i where i: "arp_table (nm_arp s ! p) (am_sip am) = Some i" "i < TGEN_ARP_CACHE_SZ" using assms(3) arp_okD(5) [OF assms(1,2)] by auto
  note k = arp_okD [OF assms(1,2)]
  show ?thesis
    unfolding arp_take_reply_def using i k(1,3) assms(1,2)
    by (auto simp: case_prod_beta Let_def arp_look_eq [OF assms(2)] arp_resolved_def arp_ok_cong [OF mgmt_frames(5)] arp_ok_cong [OF flush_hold_frames(1)]
        intro!: upd_entry_ok)
qed

text \<open>
  C30. Address resolution works end to end: host A asks for the address of host B; B, on receiving the
  request, learns A's binding and answers; A, on receiving the answer, knows B's hardware address.  The frames may carry any
  padding.
\<close>

theorem arp_resolves:
  assumes "arp_ok A" "arp_ok B" "pa < TGEN_MAX_PORTS" "pb < TGEN_MAX_PORTS" "hash_ok ea" "hash_ok eb"
    "reliable ea" "42 \<le> me_tailroom ea" "reliable eb" "42 \<le> me_tailroom eb"
    "arp_room ea pa A (arp_local_ip (nm_arp B ! pb))" "arp_room eb pb B (arp_local_ip (nm_arp A ! pa))"
    "\<And>f. mb_mem (rx f) = f @ pad f"
  shows "\<exists>req A1 rep B1 A2.
    arp_request ea pa (arp_local_ip (nm_arp B ! pb)) A = Some (0, A1) \<and> nm_wire A1 = nm_wire A @ [(pa, pc_mgmt_tx_q (me_port_caps ea pa), req)] \<and>
    arp_mgmt_process eb pb (rx req) B = Some B1 \<and> nm_wire B1 = nm_wire B @ [(pb, pc_mgmt_tx_q (me_port_caps eb pb), rep)] \<and>
    arp_look pb B1 (arp_local_ip (nm_arp A ! pa)) = Some (arp_local_mac (nm_arp A ! pa)) \<and>
    arp_mgmt_process ea pa (rx rep) A1 = Some A2 \<and> arp_look pa A2 (arp_local_ip (nm_arp B ! pb)) = Some (arp_local_mac (nm_arp B ! pb))"
proof -
  let ?a = "nm_arp A ! pa" and ?b = "nm_arp B ! pb"
  note ma = arp_okD(4) [OF assms(1,3)] and mb = arp_okD(4) [OF assms(2,4)]
  define req where "req = arp_packet (replicate 6 0xFF) (arp_local_mac ?a) ARP_OP_REQUEST (arp_local_ip ?a) (replicate 6 0) (arp_local_ip ?b)"
  define am where "am = \<lparr>am_op = ARP_OP_REQUEST, am_sha = arp_local_mac ?a, am_sip = arp_local_ip ?a, am_tip = arp_local_ip ?b\<rparr>"
  define rep where "rep = arp_packet (arp_local_mac ?a) (arp_local_mac ?b) ARP_OP_REPLY (arp_local_ip ?b) (arp_local_mac ?a) (arp_local_ip ?a)"
  define bm where "bm = \<lparr>am_op = ARP_OP_REPLY, am_sha = arp_local_mac ?b, am_sip = arp_local_ip ?b, am_tip = arp_local_ip ?a\<rparr>"
  have q: "arp_msg_of (mb_mem (rx req)) = am" "42 \<le> length (mb_mem (rx req))"
    using arp_packet_msg ma unfolding req_def am_def assms(13) by simp_all
  have r: "arp_msg_of (mb_mem (rx rep)) = bm" "42 \<le> length (mb_mem (rx rep))"
    using arp_packet_msg ma mb unfolding rep_def bm_def assms(13) by simp_all
  obtain A1 where A1: "arp_request ea pa (arp_local_ip ?b) A = Some (0, A1)" "arp_ok A1" "arp_table (nm_arp A1 ! pa) (arp_local_ip ?b) \<noteq> None"
    "nm_wire A1 = nm_wire A @ [(pa, pc_mgmt_tx_q (me_port_caps ea pa), req)]"
    using arp_request_ok [OF assms(1,3,5,11,7,8)] by (auto simp: yields_def req_def)
  obtain B0 where B0: "arp_learn eb pb am B = Some B0" "nm_wire B0 = nm_wire B" "arp_look pb B0 (arp_local_ip ?a) = Some (arp_local_mac ?a)"
    "arp_local_mac (nm_arp B0 ! pb) = arp_local_mac ?b" "arp_local_ip (nm_arp B0 ! pb) = arp_local_ip ?b"
    using learn_look [OF assms(2,4,6), of am] assms(12) by (auto simp: yields_def am_def)
  let ?B1 = "mgmt_free (arp_send_reply eb pb am B0)"
  have "arp_mgmt_process eb pb (rx req) B = Some ?B1"
    using q arp_okD(1) [OF assms(2,4)] B0(1) by (simp add: arp_mgmt_process_def not_less) (simp add: am_def)
  moreover have "nm_wire ?B1 = nm_wire B @ [(pb, pc_mgmt_tx_q (me_port_caps eb pb), rep)]"
    using send_reply_reliable [OF assms(9,10), of pb am B0] B0 by (simp add: rep_def am_def)
  moreover have "arp_look pb ?B1 (arp_local_ip ?a) = Some (arp_local_mac ?a)" using B0(3) by (simp add: arp_look_def)
  moreover obtain A2 where A2: "arp_take_reply ea pa bm A1 = Some A2" "arp_look pa A2 (arp_local_ip ?b) = Some (arp_local_mac ?b)"
    using take_reply_look [OF A1(2) assms(3), of bm ea] A1(3) by (auto simp: yields_def bm_def)
  moreover have "arp_mgmt_process ea pa (rx rep) A1 = Some (mgmt_free A2)"
    using r arp_okD(1) [OF A1(2) assms(3)] A2(1) by (simp add: arp_mgmt_process_def not_less) (simp add: bm_def ARP_OP_REPLY_def ARP_OP_REQUEST_def)
  moreover have "arp_look pa (mgmt_free A2) (arp_local_ip ?b) = Some (arp_local_mac ?b)" using A2(2) by (simp add: arp_look_def)
  ultimately show ?thesis using A1(1,4) by blast
qed

subsection \<open>Ageing\<close>

lemma arp_age_frame [simp]: "ae_mac (arp_age e now x) = ae_mac x" "ae_hold (arp_age e now x) = ae_hold x" "ae_expire_tsc (arp_age e now x) = ae_expire_tsc x"
  by (simp_all add: arp_age_def Let_def)

lemma age_not_resolved: "ae_state x \<noteq> ARP_STATE_RESOLVED \<Longrightarrow> arp_age e now x = x"
  by (simp add: arp_age_def)

text \<open>A tick of a port whose ring is empty.\<close>

lemma tick_port_idle:
  assumes "r_arp (nm_rings s) ! p = Some []"
  shows "arp_tick_port e now p s = Some (upd_arp p (\<lambda>a. a\<lparr>arp_entries := map (arp_age e now) (arp_entries a)\<rparr>) s)"
  using assms by (simp add: arp_tick_port_def)

lemma tick_ports_idle:
  assumes "distinct ps" "\<forall>p\<in>set ps. r_arp (nm_rings s) ! p = Some [] \<and> p < length (nm_arp s)"
  shows "yields (for_ports (arp_tick_port e now) ps s) (\<lambda>s'. nm_wire s' = nm_wire s \<and> nm_rings s' = nm_rings s \<and> length (nm_arp s') = length (nm_arp s) \<and>
    (\<forall>q. nm_arp s' ! q = (if q \<in> set ps then (nm_arp s ! q)\<lparr>arp_entries := map (arp_age e now) (arp_entries (nm_arp s ! q))\<rparr> else nm_arp s ! q)))"
  using assms
proof (induction ps arbitrary: s)
  case (Cons p ps)
  define s1 where "s1 = upd_arp p (\<lambda>a. a\<lparr>arp_entries := map (arp_age e now) (arp_entries a)\<rparr>) s"
  have p: "p < length (nm_arp s)" "p \<notin> set ps" using Cons.prems by auto
  have s1: "nm_wire s1 = nm_wire s" "nm_rings s1 = nm_rings s" "length (nm_arp s1) = length (nm_arp s)"
    "nm_arp s1 ! q = (if q = p then (nm_arp s ! p)\<lparr>arp_entries := map (arp_age e now) (arp_entries (nm_arp s ! p))\<rparr> else nm_arp s ! q)" for q
    using p(1) by (simp_all add: s1_def)
  have "yields (for_ports (arp_tick_port e now) ps s1) (\<lambda>s'. nm_wire s' = nm_wire s1 \<and> nm_rings s' = nm_rings s1 \<and> length (nm_arp s') = length (nm_arp s1) \<and>
    (\<forall>q. nm_arp s' ! q = (if q \<in> set ps then (nm_arp s1 ! q)\<lparr>arp_entries := map (arp_age e now) (arp_entries (nm_arp s1 ! q))\<rparr> else nm_arp s1 ! q)))"
    using Cons.prems s1(2,3) by (intro Cons.IH) auto
  moreover have "for_ports (arp_tick_port e now) (p # ps) s = for_ports (arp_tick_port e now) ps s1"
    using Cons.prems tick_port_idle [of s p e now] by (simp add: s1_def)
  ultimately show ?case using p(2) by (elim yields_mono [where P = "\<lambda>s'. _ s'"] ssubst) (auto simp: s1)
qed simp

text \<open>
  The tick never probes: with no ARP packet waiting it transmits nothing, it resolves no address that was not resolved, and an
  address whose entry expires within the next 30 seconds is no longer resolved after it, although its neighbour may be alive.
  (The header announces that the tick probes stale entries and sends gratuitous requests.)
\<close>

theorem arp_tick_never_probes:
  assumes "arp_ok s" "me_n_ports e \<le> TGEN_MAX_PORTS" "p < me_n_ports e" "\<forall>q<me_n_ports e. r_arp (nm_rings s) ! q = Some []"
    "now = nm_tsc_reads s (nm_tsc_pos s)" "arp_table (nm_arp s ! p) ip = Some i" "x = arp_entries (nm_arp s ! p) ! i"
  shows "\<exists>s'. arp_mgmt_tick e s = Some s' \<and> nm_wire s' = nm_wire s \<and> (arp_look p s' ip \<noteq> None \<longrightarrow> arp_look p s' ip = arp_look p s ip) \<and>
    (ae_expire_tsc x - me_tsc_hz e * 30 \<le> now \<and> now < ae_expire_tsc x \<longrightarrow> arp_look p s' ip = None)"
proof -
  define s0 where "s0 = snd (mgmt_rdtsc s)"
  have s0: "nm_arp s0 = nm_arp s" "nm_rings s0 = nm_rings s" "nm_wire s0 = nm_wire s" by (simp_all add: s0_def)
  have ps: "mgmt_ports e = [0 ..< me_n_ports e]" using assms(2) by (simp add: mgmt_ports_def)
  have p: "p < TGEN_MAX_PORTS" using assms(2,3) by simp
  have t: "arp_mgmt_tick e s = for_ports (arp_tick_port e now) (mgmt_ports e) s0" using assms(5) by (simp add: arp_mgmt_tick_def s0_def mgmt_rdtsc_def)
  have "yields (arp_mgmt_tick e s) (\<lambda>s'. nm_wire s' = nm_wire s \<and> nm_arp s' ! p = (nm_arp s ! p)\<lparr>arp_entries := map (arp_age e now) (arp_entries (nm_arp s ! p))\<rparr>)"
    unfolding t ps by (rule yields_mono [OF tick_ports_idle]) (use assms s0 in \<open>auto simp: arp_ok_def\<close>)
  then obtain s' where s': "arp_mgmt_tick e s = Some s'" "nm_wire s' = nm_wire s"
    "nm_arp s' ! p = (nm_arp s ! p)\<lparr>arp_entries := map (arp_age e now) (arp_entries (nm_arp s ! p))\<rparr>" by (auto simp: yields_def)
  have i: "i < length (arp_entries (nm_arp s ! p))" using arp_okD(3) [OF assms(1) p] arp_okD(5) [OF assms(1) p assms(6)] by simp
  have l: "arp_look p s ip = (if ae_state x = ARP_STATE_RESOLVED then Some (ae_mac x) else None)"
    "arp_look p s' ip = (if ae_state (arp_age e now x) = ARP_STATE_RESOLVED then Some (ae_mac x) else None)"
    using i assms(6,7) s'(3) by (simp_all add: arp_look_eq [OF p] Let_def)
  have "ae_state x \<noteq> ARP_STATE_RESOLVED \<Longrightarrow> ae_state (arp_age e now x) \<noteq> ARP_STATE_RESOLVED" by (simp add: age_not_resolved)
  moreover have "ae_expire_tsc x - me_tsc_hz e * 30 \<le> now \<Longrightarrow> now < ae_expire_tsc x \<Longrightarrow> ae_state (arp_age e now x) \<noteq> ARP_STATE_RESOLVED"
    by (simp add: arp_age_def Let_def ARP_PROBE_BEFORE_EXPIRY_def)
  ultimately show ?thesis using s'(1,2) l by auto
qed

subsection \<open>Two hosts\<close>

text \<open>A hash table with room for one key.\<close>

definition demo_hash :: "(u32 \<Rightarrow> nat option) \<Rightarrow> u32 \<Rightarrow> nat option" where
  "demo_hash t a = (if t a \<noteq> None then t a else if 0 \<notin> ran t then Some 0 else None)"

definition demo_menv :: mgmt_env where
  "demo_menv = \<lparr>me_port_caps = (\<lambda>_. demo_caps), me_tsc_hz = 10, me_eal_hz = 10, me_n_ports = 1, me_pool = True, me_mbuf_alloc = (\<lambda>_. True), me_tailroom = 2048,
     me_tx_burst = (\<lambda>_ n. n), me_hash_add = demo_hash, me_raw_cksum = (\<lambda>_. 0xFFFF), me_hdr_cksum = (\<lambda>_. 0), me_poll = Some\<rparr>"

definition demo_host :: "u32 \<Rightarrow> bytes \<Rightarrow> net_mgmt" where
  "demo_host ip mac = \<lparr>nm_arp = replicate 16 ((arp_port_zero mac)\<lparr>arp_local_ip := ip\<rparr>),
     nm_ndp = replicate 16 \<lparr>ndp_entries = [], ndp_count = 0, ndp_local_ip6 = [], ndp_local_ip6_ll = [], ndp_local_mac = [], ndp_has_ip6 = False\<rparr>,
     nm_rings = demo_rings, nm_ndp_rings = replicate 16 (Some []), nm_metrics = wm_zero, nm_wire = [], nm_held = 0, nm_ext_pos = 0,
     nm_tsc_reads = (\<lambda>n. of_nat n), nm_tsc_pos = 0\<rparr>"

lemma demo_menv_ok: "hash_ok demo_menv" "hash_keeps demo_menv" "reliable demo_menv" "me_tailroom demo_menv = 2048"
  by (auto simp: hash_ok_def hash_keeps_def demo_menv_def demo_hash_def reliable_def TGEN_ARP_CACHE_SZ_def split: option.splits if_splits)

lemma demo_host_ok: "length mac = 6 \<Longrightarrow> arp_ok (demo_host ip mac)"
  by (simp add: arp_ok_def demo_host_def TGEN_MAX_PORTS_def list_all_length arp_port_ok_def arp_port_zero_def)

lemma demo_host_room: "p < 16 \<Longrightarrow> arp_room demo_menv p (demo_host ip mac) a"
  by (simp add: arp_room_def demo_menv_def demo_hash_def demo_host_def arp_port_zero_def)

definition demo_rx :: "bytes \<Rightarrow> rx_mbuf" where
  "demo_rx f = (demo_frame demo_tx)\<lparr>mb_data := f, mb_tail := []\<rparr>"

theorem arp_resolves_witness:
  "\<exists>req A1 rep B1 A2.
    arp_request demo_menv 0 2 (demo_host 1 [2, 0, 0, 0, 0, 1]) = Some (0, A1) \<and> nm_wire A1 = [(0, 3, req)] \<and>
    arp_mgmt_process demo_menv 0 (demo_rx req) (demo_host 2 [2, 0, 0, 0, 0, 2]) = Some B1 \<and> nm_wire B1 = [(0, 3, rep)] \<and>
    arp_look 0 B1 1 = Some [2, 0, 0, 0, 0, 1] \<and>
    arp_mgmt_process demo_menv 0 (demo_rx rep) A1 = Some A2 \<and> arp_look 0 A2 2 = Some [2, 0, 0, 0, 0, 2]"
proof -
  let ?A = "demo_host 1 [2, 0, 0, 0, 0, 1]" and ?B = "demo_host 2 [2, 0, 0, 0, 0, 2]"
  have l: "nm_wire (demo_host ip mac) = []" "arp_local_ip (nm_arp (demo_host ip mac) ! 0) = ip" "arp_local_mac (nm_arp (demo_host ip mac) ! 0) = mac" for ip mac
    by (simp_all add: demo_host_def arp_port_zero_def)
  have c: "pc_mgmt_tx_q (me_port_caps demo_menv 0) = 3" by (simp add: demo_menv_def demo_caps_def)
  show ?thesis
    using arp_resolves [of ?A ?B 0 0 demo_menv demo_menv demo_rx "\<lambda>_. []"] demo_menv_ok demo_host_ok demo_host_room
    by (simp add: l c TGEN_MAX_PORTS_def) (simp add: demo_rx_def mb_mem_def)
qed

text \<open>An entry that expires in 20 seconds, at a clock of 10 per second.\<close>

definition demo_aged :: net_mgmt where
  "demo_aged = upd_arp 0 (\<lambda>a. a\<lparr>arp_table := [7 \<mapsto> 0], arp_entries := (arp_entries a)
     [0 := arp_entry_zero\<lparr>ae_mac := [2, 0, 0, 0, 0, 7], ae_state := ARP_STATE_RESOLVED, ae_expire_tsc := 400\<rparr>]\<rparr>) ((demo_host 1 [2, 0, 0, 0, 0, 1])\<lparr>nm_tsc_pos := 200\<rparr>)"

theorem arp_tick_never_probes_witness:
  "arp_look 0 demo_aged 7 = Some [2, 0, 0, 0, 0, 7] \<and> (\<exists>s'. arp_mgmt_tick demo_menv demo_aged = Some s' \<and> nm_wire s' = [] \<and> arp_look 0 s' 7 = None)"
proof -
  let ?x = "arp_entry_zero\<lparr>ae_mac := [2, 0, 0, 0, 0, 7], ae_state := ARP_STATE_RESOLVED, ae_expire_tsc := 400\<rparr>"
  have p: "(0 :: nat) < TGEN_MAX_PORTS" by (simp add: TGEN_MAX_PORTS_def)
  have a: "nm_arp demo_aged ! 0 = (arp_port_zero [2, 0, 0, 0, 0, 1])\<lparr>arp_local_ip := 1, arp_table := [7 \<mapsto> 0],
      arp_entries := (replicate TGEN_ARP_CACHE_SZ arp_entry_zero)[0 := ?x]\<rparr>"
    by (simp add: demo_aged_def upd_arp_def demo_host_def) (simp add: arp_port_zero_def)
  have e: "arp_entries (nm_arp demo_aged ! 0) ! 0 = ?x" unfolding a by (simp add: TGEN_ARP_CACHE_SZ_def)
  have "arp_ok ((demo_host 1 [2, 0, 0, 0, 0, 1])\<lparr>nm_tsc_pos := 200\<rparr>)" using demo_host_ok [of "[2, 0, 0, 0, 0, 1]" 1] by (simp add: arp_ok_def)
  then have ok: "arp_ok demo_aged" unfolding demo_aged_def
    by (rule upd_arp_ok [OF _ p]) (simp add: arp_port_ok_def demo_host_def arp_port_zero_def inj_on_def TGEN_ARP_CACHE_SZ_def)
  have f: "nm_rings demo_aged = demo_rings" "nm_wire demo_aged = []" "nm_tsc_reads demo_aged (nm_tsc_pos demo_aged) = 200"
    by (simp_all add: demo_aged_def upd_arp_def demo_host_def)
  have "arp_look 0 demo_aged 7 = Some [2, 0, 0, 0, 0, 7]" using e by (simp add: arp_look_eq [OF p] a)
  moreover have "\<exists>s'. arp_mgmt_tick demo_menv demo_aged = Some s' \<and> nm_wire s' = nm_wire demo_aged \<and> arp_look 0 s' 7 = None"
  proof -
    have "me_n_ports demo_menv = 1" "me_tsc_hz demo_menv = 10" by (simp_all add: demo_menv_def)
    moreover have "r_arp (nm_rings demo_aged) ! 0 = Some []" by (simp add: f demo_rings_def)
    moreover have "arp_table (nm_arp demo_aged ! 0) 7 = Some 0" by (simp add: a)
    ultimately show ?thesis using arp_tick_never_probes [OF ok, of demo_menv 0 200 7 0 ?x] f(3) e p
      by (simp del: arp_entry.simps) auto
  qed
  ultimately show ?thesis using f(2) by simp
qed

end
