(* ===== verification/IcmpMgmt.thy ===== *)
theory IcmpMgmt
  imports NetMgmt
begin

text \<open>
  ICMP and UDP on the management thread (\<^verbatim>\<open>net/icmp.c\<close>, \<^verbatim>\<open>net/udp.c\<close>): answering echo requests, the periodic tick, and
  the ping client.  The workers strip the Ethernet and IPv4 headers and save the source address in \<open>mb_hash_usr\<close>.
\<close>

subsection \<open>Packets\<close>

definition ICMP_ECHO_REPLY :: u8 where "ICMP_ECHO_REPLY = 0"
definition ICMP_ECHO_REQUEST :: u8 where "ICMP_ECHO_REQUEST = 8"

definition icmp_ip_hdr :: "mgmt_env \<Rightarrow> u16 \<Rightarrow> u16 \<Rightarrow> u32 \<Rightarrow> u32 \<Rightarrow> bytes" where
  "icmp_ip_hdr e pkt_id len src dst =
     (let front = [0x45, 0] @ bytes16 (20 + 8 + len) @ bytes16 pkt_id @ bytes16 0x4000 @ [64, 1]; rear = le32 src @ le32 dst
      in front @ le16 (me_hdr_cksum e (front @ [0, 0] @ rear)) @ rear)"

definition icmp_message :: "mgmt_env \<Rightarrow> u8 \<Rightarrow> bytes \<Rightarrow> bytes" where
  "icmp_message e ty rest =
     (let ck = me_raw_cksum e ([ty, 0, 0, 0] @ rest)
      in [ty, 0] @ le16 (if ck = 0xFFFF then ck else NOT ck) @ rest)"

text \<open>
  The length of the frame is cut to 16 bits when the buffer is extended; a frame longer than that is written beyond the
  buffer.
\<close>

definition icmp_alloc :: "mgmt_env \<Rightarrow> u16 \<Rightarrow> net_mgmt \<Rightarrow> (bool \<times> net_mgmt) option" where
  "icmp_alloc e len s =
     (let n = 42 + unat len; (ok, s) = mgmt_alloc e (n mod 65536) s in if ok \<and> n \<ge> 65536 then None else Some (ok, s))"

definition echo_dst_mac :: "nat \<Rightarrow> u32 \<Rightarrow> net_mgmt \<Rightarrow> bytes" where
  "echo_dst_mac p ip s =
     (let g = nm_arp s; q = word_of_nat p
      in case arp_lookup g q (arp_nexthop g q ip) of Some mac \<Rightarrow> mac | None \<Rightarrow> replicate 6 0xFF)"

definition build_echo_reply :: "mgmt_env \<Rightarrow> nat \<Rightarrow> u32 \<Rightarrow> bytes \<Rightarrow> u16 \<Rightarrow> net_mgmt \<Rightarrow> (bytes option \<times> net_mgmt) option" where
  "build_echo_reply e p requester_ip req len s =
     (if \<not> me_pool e then Some (None, s)
      else
        do { (ok, s) \<leftarrow> icmp_alloc e len s;
             let a = nm_arp s ! p
             in Some (if ok
                      then Some (echo_dst_mac p requester_ip s @ arp_local_mac a @ bytes16 ETH_IPV4 @
                             icmp_ip_hdr e 0 len (arp_local_ip a) requester_ip @
                             icmp_message e ICMP_ECHO_REPLY (take (4 + unat len) (drop 4 req)))
                      else None, s) })"

subsection \<open>Received messages\<close>

definition icmp_mgmt_process :: "mgmt_env \<Rightarrow> nat \<Rightarrow> rx_mbuf \<Rightarrow> net_mgmt \<Rightarrow> net_mgmt option" where
  "icmp_mgmt_process e p m s =
     (let icmp_len = length (mb_data m)
      in if me_raw_cksum e (mb_data m) \<noteq> 0xFFFF
         then Some (mgmt_free (mgmt_metrics (\<lambda>mt. mt\<lparr>m_icmp_bad_cksum := m_icmp_bad_cksum mt + 1\<rparr>) s))
         else if p \<ge> length (nm_arp s) \<or> length (mb_mem m) < 8 then None
         else if mb_mem m ! 0 = ICMP_ECHO_REQUEST then
           do { (f, s) \<leftarrow> build_echo_reply e p (mb_hash_usr m) (mb_mem m) (if icmp_len > 8 then word_of_nat (icmp_len - 8) else 0) s;
                Some (mgmt_free (case f of
                        None \<Rightarrow> s
                      | Some f \<Rightarrow> mgmt_metrics (\<lambda>mt. mt\<lparr>m_icmp_echo_tx := m_icmp_echo_tx mt + 1\<rparr>) (snd (mgmt_tx e p f s)))) }
         else Some (mgmt_free s))"

definition set_icmp_ring :: "nat \<Rightarrow> ring \<Rightarrow> net_mgmt \<Rightarrow> net_mgmt" where
  "set_icmp_ring p r s = s\<lparr>nm_rings := (nm_rings s)\<lparr>r_icmp := (r_icmp (nm_rings s))[p := r]\<rparr>\<rparr>"

text \<open>Requests are answered, everything else goes back into the ring for the ping client.\<close>

definition icmp_tick_one :: "mgmt_env \<Rightarrow> nat \<Rightarrow> rx_mbuf \<Rightarrow> net_mgmt \<Rightarrow> net_mgmt option" where
  "icmp_tick_one e p m s =
     (if length (mb_data m) \<ge> 8 \<and> mb_data m ! 0 = ICMP_ECHO_REQUEST then icmp_mgmt_process e p m s
      else Some (mgmt_free (set_icmp_ring p (ring_enqueue m (r_icmp (nm_rings s) ! p)) s)))"

fun icmp_tick_all :: "mgmt_env \<Rightarrow> nat \<Rightarrow> rx_mbuf list \<Rightarrow> net_mgmt \<Rightarrow> net_mgmt option" where
  "icmp_tick_all e p [] s = Some s"
| "icmp_tick_all e p (m # ms) s = do { s \<leftarrow> icmp_tick_one e p m s; icmp_tick_all e p ms s }"

definition icmp_tick_port :: "mgmt_env \<Rightarrow> nat \<Rightarrow> net_mgmt \<Rightarrow> net_mgmt option" where
  "icmp_tick_port e p s =
     (case r_icmp (nm_rings s) ! p of
        None \<Rightarrow> Some s
      | Some q \<Rightarrow> icmp_tick_all e p (take 32 q) ((set_icmp_ring p (Some (drop 32 q)) s)\<lparr>nm_held := nm_held s + int (length (take 32 q))\<rparr>))"

definition icmp_mgmt_tick :: "mgmt_env \<Rightarrow> net_mgmt \<Rightarrow> net_mgmt option" where
  "icmp_mgmt_tick e s = for_ports (icmp_tick_port e) (mgmt_ports e) s"

definition icmp_mgmt_drain :: "nat \<Rightarrow> net_mgmt \<Rightarrow> rx_mbuf option \<times> net_mgmt" where
  "icmp_mgmt_drain p s =
     (if p \<ge> TGEN_MAX_PORTS then (None, s)
      else case r_icmp (nm_rings s) ! p of
             None \<Rightarrow> (None, s)
           | Some [] \<Rightarrow> (None, s)
           | Some (m # q) \<Rightarrow> (Some m, (set_icmp_ring p (Some q) s)\<lparr>nm_held := nm_held s + 1\<rparr>))"

text \<open>Unreachable and time-exceeded messages are not implemented: the original packet is freed.\<close>

definition icmp_send_unreachable :: "net_mgmt \<Rightarrow> int \<times> net_mgmt" where
  "icmp_send_unreachable s = (0, mgmt_free s)"

definition icmp_send_time_exceeded :: "net_mgmt \<Rightarrow> int \<times> net_mgmt" where
  "icmp_send_time_exceeded s = (0, mgmt_free s)"

subsection \<open>The ping client\<close>

definition ping_frame :: "mgmt_env \<Rightarrow> nat \<Rightarrow> bytes \<Rightarrow> u32 \<Rightarrow> u16 \<Rightarrow> u16 \<Rightarrow> u16 \<Rightarrow> net_mgmt \<Rightarrow> bytes" where
  "ping_frame e p mac dst ident seqn len s =
     (let a = nm_arp s ! p
      in mac @ arp_local_mac a @ bytes16 ETH_IPV4 @ icmp_ip_hdr e seqn len (arp_local_ip a) dst @
         icmp_message e ICMP_ECHO_REQUEST (bytes16 ident @ bytes16 seqn @ replicate (unat len) 0xAB))"

text \<open>Waiting loops end when the clock passes their deadline.\<close>

partial_function (option) arp_wait :: "mgmt_env \<Rightarrow> nat \<Rightarrow> u32 \<Rightarrow> u64 \<Rightarrow> net_mgmt \<Rightarrow> net_mgmt option" where
  "arp_wait e p ip deadline s =
     (if fst (mgmt_rdtsc s) \<ge> deadline then Some (snd (mgmt_rdtsc s))
      else Option.bind (arp_mgmt_tick e (snd (mgmt_rdtsc s)))
             (\<lambda>s. if arp_look p s ip \<noteq> None then Some s else Option.bind (me_poll e s) (arp_wait e p ip deadline)))"

partial_function (option) ping_wait :: "mgmt_env \<Rightarrow> nat \<Rightarrow> u64 \<Rightarrow> net_mgmt \<Rightarrow> (bool \<times> net_mgmt) option" where
  "ping_wait e p wait_end s =
     (if fst (mgmt_rdtsc s) \<ge> wait_end then Some (False, snd (mgmt_rdtsc s))
      else if fst (icmp_mgmt_drain p (snd (mgmt_rdtsc s))) \<noteq> None
      then Some (True, mgmt_free (snd (mgmt_rdtsc (snd (icmp_mgmt_drain p (snd (mgmt_rdtsc s)))))))
      else Option.bind (arp_mgmt_tick e (snd (icmp_mgmt_drain p (snd (mgmt_rdtsc s)))))
             (\<lambda>s. Option.bind (me_poll e s) (ping_wait e p wait_end)))"

partial_function (option) ping_pace :: "mgmt_env \<Rightarrow> u64 \<Rightarrow> net_mgmt \<Rightarrow> net_mgmt option" where
  "ping_pace e next_tsc s =
     (if fst (mgmt_rdtsc s) \<ge> next_tsc then Some (snd (mgmt_rdtsc s))
      else Option.bind (me_poll e (snd (mgmt_rdtsc s))) (ping_pace e next_tsc))"

fun ping_loop :: "mgmt_env \<Rightarrow> nat \<Rightarrow> bytes \<Rightarrow> u32 \<Rightarrow> u16 \<Rightarrow> u16 \<Rightarrow> u64 \<Rightarrow> nat \<Rightarrow> u16 \<Rightarrow> u32 \<Rightarrow> net_mgmt \<Rightarrow> (u32 \<times> net_mgmt) option" where
  "ping_loop e p mac dst ident len interval 0 seqn rcvd s = Some (rcvd, s)"
| "ping_loop e p mac dst ident len interval (Suc n) seqn rcvd s =
     do { (ok, s) \<leftarrow> icmp_alloc e len s;
          if \<not> ok then Some (rcvd, s)
          else
            let f = ping_frame e p mac dst ident seqn len s; (t0, s) = mgmt_rdtsc s; (nb, s) = mgmt_tx e p f s
            in if \<not> nb then ping_loop e p mac dst ident len interval n (seqn + 1) rcvd (mgmt_free s)
               else
                 do { (got, s) \<leftarrow> ping_wait e p (t0 + interval * me_eal_hz e div 1000) s;
                      s \<leftarrow> (if n > 0 then ping_pace e (t0 + interval * me_eal_hz e div 1000) s else Some s);
                      ping_loop e p mac dst ident len interval n (seqn + 1) (if got then rcvd + 1 else rcvd) s } }"

definition EHOSTUNREACH :: int where "EHOSTUNREACH = 113"
definition ENOMEM :: int where "ENOMEM = 12"

definition ping_resolve :: "mgmt_env \<Rightarrow> nat \<Rightarrow> u32 \<Rightarrow> net_mgmt \<Rightarrow> net_mgmt option" where
  "ping_resolve e p nexthop s =
     (if arp_look p s nexthop \<noteq> None then Some s
      else
        do { (rc, s) \<leftarrow> arp_request e p nexthop s;
             let (now, s) = mgmt_rdtsc s in arp_wait e p nexthop (now + 3 * me_eal_hz e) s })"

definition icmp_ping_start :: "mgmt_env \<Rightarrow> nat \<Rightarrow> u32 \<Rightarrow> u32 \<Rightarrow> u32 \<Rightarrow> u32 \<Rightarrow> net_mgmt \<Rightarrow> (int \<times> net_mgmt) option" where
  "icmp_ping_start e p dst cnt sz interval_ms s =
     (let cnt = (if cnt = 0 then 5 else cnt); sz = (if sz = 0 then 56 else sz); interval_ms = (if interval_ms = 0 then 1000 else interval_ms);
          nexthop = arp_nexthop (nm_arp s) (word_of_nat p) dst
      in do { s \<leftarrow> ping_resolve e p nexthop s;
              case arp_look p s nexthop of
                None \<Rightarrow> Some (- EHOSTUNREACH, s)
              | Some mac \<Rightarrow>
                  if \<not> me_pool e then Some (- ENOMEM, s)
                  else
                    let (now, s) = mgmt_rdtsc s
                    in do { (rcvd, s) \<leftarrow> ping_loop e p mac dst (ucast now) (ucast sz) (ucast interval_ms) (unat cnt) 0 0 s;
                            Some (sint rcvd, s) } })"

subsection \<open>UDP\<close>

text \<open>Nothing calls these two: datagrams stay in the ring.\<close>

definition udp_mgmt_process :: "rx_mbuf \<Rightarrow> net_mgmt \<Rightarrow> net_mgmt" where
  "udp_mgmt_process m s = mgmt_free s"

definition udp_mgmt_drain :: "nat \<Rightarrow> net_mgmt \<Rightarrow> rx_mbuf option \<times> net_mgmt" where
  "udp_mgmt_drain p s =
     (if p \<ge> TGEN_MAX_PORTS then (None, s)
      else case r_udp (nm_rings s) ! p of
             None \<Rightarrow> (None, s)
           | Some [] \<Rightarrow> (None, s)
           | Some (m # q) \<Rightarrow> (Some m, s\<lparr>nm_rings := (nm_rings s)\<lparr>r_udp := (r_udp (nm_rings s))[p := Some q]\<rparr>, nm_held := nm_held s + 1\<rparr>))"

subsection \<open>An echo between two hosts\<close>

text \<open>
  What DPDK documents of \<^verbatim>\<open>rte_raw_cksum\<close>, the sum without complement: a message whose second word is the complement of the sum
  over the rest adds up to all ones.
\<close>

definition raw_cksum_ok :: "mgmt_env \<Rightarrow> bool" where
  "raw_cksum_ok e \<longleftrightarrow> (\<forall>front rear ck. length front = 2 \<and> ck = me_raw_cksum e (front @ [0, 0] @ rear) \<longrightarrow>
     me_raw_cksum e (front @ le16 (if ck = 0xFFFF then ck else NOT ck) @ rear) = 0xFFFF)"

lemma icmp_message_cksum: "raw_cksum_ok e \<Longrightarrow> me_raw_cksum e (icmp_message e ty rest) = 0xFFFF"
  unfolding raw_cksum_ok_def icmp_message_def Let_def
  by (drule spec [of _ "[ty, 0]"], drule spec [of _ rest], drule spec [of _ "me_raw_cksum e ([ty, 0] @ [0, 0] @ rest)"]) (simp cong: if_cong split: if_splits)

lemma icmp_message_bytes:
  "length (icmp_message e ty rest) = 4 + length rest" "icmp_message e ty rest ! 0 = ty" "drop 4 (icmp_message e ty rest @ xs) = rest @ xs"
  by (simp_all add: icmp_message_def Let_def le16_def)

text \<open>The IPv4 header written here is the one \<open>ipv4_push_hdr\<close> writes.\<close>

definition icmp_tx_cfg :: "u32 \<Rightarrow> u32 \<Rightarrow> ipv4_tx_cfg" where
  "icmp_tx_cfg src dst = \<lparr>itc_src_ip = src, itc_dst_ip = dst, itc_dscp_ecn = 0, itc_ttl = 64, itc_protocol = 1, itc_df = True\<rparr>"

lemma icmp_hdr_pushed:
  assumes "e_hdr_cksum w = me_hdr_cksum e" "length msg = 8 + unat len" "length smac = 6" "length dmac = 6"
  shows "\<exists>t t1 i t2. tm_data t = msg \<and> ipv4_push_hdr w (icmp_tx_cfg src dst) (word_of_nat (length (tm_data t))) False (Some (ucast pid)) t = Some (t1, i) \<and>
    eth_push_hdr smac dmac ETH_IPV4 0 t1 = Some t2 \<and> tm_data t2 = dmac @ smac @ bytes16 ETH_IPV4 @ icmp_ip_hdr e pid len src dst @ msg"
proof -
  define t where "t = \<lparr>tm_data = msg, tm_headroom = 128, tm_l2_len = 0, tm_l3_len = 0, tm_ip_offload = False\<rparr>"
  have p: "ucast ((ucast pid :: u32) AND 0xFFFF) = pid"
  proof -
    have "(0xFFFF :: u32) = mask 16" by (simp add: mask_eq_exp_minus_1)
    then have "(ucast pid :: u32) AND 0xFFFF = take_bit 16 (ucast pid)" by (simp only: take_bit_eq_mask)
    then show ?thesis by (simp only:) (rule bit_word_eqI, simp add: bit_simps)
  qed
  have l: "20 + word_of_nat (length msg) = (20 + 8 + len :: u16)" using assms(2) by simp
  let ?h = "icmp_ip_hdr e pid len src dst"
  have "ipv4_push_hdr w (icmp_tx_cfg src dst) (word_of_nat (length (tm_data t))) False (Some (ucast pid)) t =
    Some (t\<lparr>tm_data := ?h @ msg, tm_headroom := 108, tm_l2_len := 14\<rparr>, Some (ucast pid + 1))"
    using l by (simp add: ipv4_push_hdr_def Let_def t_def icmp_tx_cfg_def pktmbuf_prepend_def icmp_ip_hdr_def assms(1) le16_def le32_def bytes16_def p)
  then show ?thesis using assms(3,4)
    by (intro exI [of _ t] exI) (auto simp: eth_push_hdr_def pktmbuf_prepend_def t_def)
qed

text \<open>A worker that receives an ICMP message in a frame hands it over as it was sent.\<close>

lemma icmp_frame_received:
  assumes "mb_data m = dmac @ smac @ bytes16 ETH_IPV4 @ icmp_ip_hdr e pid len src dst @ msg @ pad" "length smac = 6" "length dmac = 6"
    "length msg = 8 + unat len" "length msg \<le> 65515" "hdr_cksum_ok w" "e_hdr_cksum w = me_hdr_cksum e"
    "unat (mb_port m) < TGEN_MAX_PORTS" "arp_local_ip (e_arp w ! unat (mb_port m)) \<in> {0, dst}" "\<not> mb_no_buf m"
  shows "\<exists>n. classify_and_process w m r x = Some (icmp_input
    (m\<lparr>mb_data := msg, mb_tail := pad @ mb_tail m, mb_hash_usr := src, mb_dynfield0 := dst, mb_headroom := n\<rparr>) r, x)"
proof -
  from icmp_hdr_pushed [OF assms(7,4,2,3), of src dst pid] obtain t t1 i t2 where t: "tm_data t = msg"
    "ipv4_push_hdr w (icmp_tx_cfg src dst) (word_of_nat (length (tm_data t))) False (Some (ucast pid)) t = Some (t1, i)"
    "eth_push_hdr smac dmac ETH_IPV4 0 t1 = Some t2" "tm_data t2 = dmac @ smac @ bytes16 ETH_IPV4 @ icmp_ip_hdr e pid len src dst @ msg" by blast
  have v: "ETH_IPV4 \<noteq> ETH_VLAN" "ETH_IPV4 \<noteq> ETH_ARP" by (simp_all add: ETH_IPV4_def ETH_VLAN_def ETH_ARP_def)
  have "mb_data m = tm_data t2 @ pad" using assms(1) t(4) by simp
  note p = pop_pushed [OF t(3) assms(2,3) v(1) this]
  obtain n where n: "snd (eth_pop_hdr m) = m\<lparr>mb_data := tm_data t1 @ pad, mb_headroom := n\<rparr>" using p(3) by blast
  let ?m = "m\<lparr>mb_data := tm_data t1 @ pad, mb_headroom := n\<rparr>"
  have l: "length (tm_data t) \<le> 65515" "mb_data ?m = tm_data t1 @ pad" "ipv4_local w ?m = 0 \<or> ipv4_local w ?m = itc_dst_ip (icmp_tx_cfg src dst)"
    using assms(5,9) t(1) by (auto simp: ipv4_local_def icmp_tx_cfg_def)
  from check_pushed [OF t(2) l(1) assms(6) l(2,3)] t(1) obtain k where
    c: "ipv4_check w ?m = Pass 1 (?m\<lparr>mb_data := msg, mb_tail := pad @ mb_tail m, mb_hash_usr := src, mb_dynfield0 := dst, mb_headroom := k\<rparr>)"
    by (auto simp: icmp_tx_cfg_def)
  have "classify_and_process w m r x = ipv4_input w ?m r x" using p(1,2) v n assms(10) by (simp add: classify_and_process_def)
  also have "\<dots> = Some (icmp_input (m\<lparr>mb_data := msg, mb_tail := pad @ mb_tail m, mb_hash_usr := src, mb_dynfield0 := dst, mb_headroom := k\<rparr>) r, x)"
    using assms(8) by (simp add: ipv4_input_def c count_verdict_def)
  finally show ?thesis by blast
qed

text \<open>The answer to an echo request.\<close>

lemma echo_answered:
  assumes "arp_ok s" "p < TGEN_MAX_PORTS" "reliable e" "42 + unat len \<le> me_tailroom e" "42 + unat len < 65536" "raw_cksum_ok e"
    "length rest = 4 + unat len" "mb_data m = icmp_message e ICMP_ECHO_REQUEST rest"
  shows "yields (icmp_mgmt_process e p m s) (\<lambda>s'. nm_wire s' = nm_wire s @ [(p, pc_mgmt_tx_q (me_port_caps e p),
      echo_dst_mac p (mb_hash_usr m) s @ arp_local_mac (nm_arp s ! p) @ bytes16 ETH_IPV4 @
      icmp_ip_hdr e 0 len (arp_local_ip (nm_arp s ! p)) (mb_hash_usr m) @ icmp_message e ICMP_ECHO_REPLY rest)] \<and>
    nm_held s' = nm_held s - 1 \<and> m_icmp_echo_tx (nm_metrics s') = m_icmp_echo_tx (nm_metrics s) + 1)"
proof -
  have m: "mb_mem m ! 0 = ICMP_ECHO_REQUEST" "\<not> length (mb_mem m) < 8" "length (mb_data m) = 8 + unat len" "take (4 + unat len) (drop 4 (mb_mem m)) = rest"
    using assms(7,8) icmp_message_bytes [of e ICMP_ECHO_REQUEST rest] by (simp_all add: mb_mem_def nth_append)
  have len: "(if length (mb_data m) > 8 then word_of_nat (length (mb_data m) - 8) else 0) = len" using m(3) by (cases "len = 0") (simp_all add: unat_eq_0)
  have ck: "me_raw_cksum e (mb_data m) = 0xFFFF" using icmp_message_cksum [OF assms(6)] assms(8) by simp
  note io = reliable_io [OF assms(3,4)]
  let ?s = "snd (mgmt_alloc e (42 + unat len) s)"
  have al: "icmp_alloc e len s = Some (True, ?s)" using io(1) [of s] assms(5) by (simp add: icmp_alloc_def case_prod_beta)
  have "me_pool e" using assms(3) by (simp add: reliable_def)
  then have b: "build_echo_reply e p (mb_hash_usr m) (mb_mem m) len s = Some (Some (echo_dst_mac p (mb_hash_usr m) s @ arp_local_mac (nm_arp s ! p) @
      bytes16 ETH_IPV4 @ icmp_ip_hdr e 0 len (arp_local_ip (nm_arp s ! p)) (mb_hash_usr m) @ icmp_message e ICMP_ECHO_REPLY rest), ?s)"
    by (simp add: build_echo_reply_def al m(4) echo_dst_mac_def Let_def)
  have mt: "nm_metrics (snd (mgmt_tx e p f ?s)) = nm_metrics s" for f by (simp add: mgmt_tx_def mgmt_alloc_def Let_def)
  have "\<not> (length (nm_arp s) \<le> p \<or> length (mb_mem m) < 8)" using arp_okD(1) [OF assms(1,2)] m(2) by simp
  then show ?thesis unfolding icmp_mgmt_process_def Let_def len using ck m(1) io mt
    by (simp add: b mgmt_free_def mgmt_metrics_def)
qed

text \<open>
  C32. A ping is answered: the frame of an echo request, received by a worker of the other host and
  processed by that host's management thread, produces one frame, which a worker of the first host receives as an echo reply from
  the pinged address with the same identifier, sequence number and payload, and with a correct checksum.
\<close>

theorem ping_roundtrip:
  assumes "arp_ok A" "arp_ok B" "pa < TGEN_MAX_PORTS" "pb < TGEN_MAX_PORTS" "reliable eb" "42 + unat len \<le> me_tailroom eb" "unat len \<le> 65493"
    "raw_cksum_ok ea" "raw_cksum_ok eb" "me_raw_cksum ea = me_raw_cksum eb" "length mac = 6" "length (echo_dst_mac pb (arp_local_ip (nm_arp A ! pa)) B) = 6"
    "e_hdr_cksum wa = me_hdr_cksum eb" "e_hdr_cksum wb = me_hdr_cksum ea" "hdr_cksum_ok wa" "hdr_cksum_ok wb"
    "arp_local_ip (e_arp wa ! pa) = arp_local_ip (nm_arp A ! pa)" "arp_local_ip (e_arp wb ! pb) = arp_local_ip (nm_arp B ! pb)"
    "\<And>p f. mb_data (rx p f) = f @ pad p f" "\<And>p f. \<not> mb_no_buf (rx p f)" "\<And>p f. p < TGEN_MAX_PORTS \<Longrightarrow> unat (mb_port (rx p f)) = p"
  shows "\<exists>m B1 rep m'.
    classify_and_process wb (rx pb (ping_frame ea pa mac (arp_local_ip (nm_arp B ! pb)) ident seqn len A)) r x = Some (icmp_input m r, x) \<and>
    icmp_mgmt_process eb pb m B = Some B1 \<and> nm_wire B1 = nm_wire B @ [(pb, pc_mgmt_tx_q (me_port_caps eb pb), rep)] \<and>
    classify_and_process wa (rx pa rep) r' y = Some (icmp_input m' r', y) \<and> mb_hash_usr m' = arp_local_ip (nm_arp B ! pb) \<and>
    mb_data m' = icmp_message eb ICMP_ECHO_REPLY (bytes16 ident @ bytes16 seqn @ replicate (unat len) 0xAB) \<and> me_raw_cksum ea (mb_data m') = 0xFFFF"
proof -
  let ?a = "nm_arp A ! pa" and ?b = "nm_arp B ! pb"
  define rest where "rest = bytes16 ident @ bytes16 seqn @ replicate (unat len) 0xAB"
  have rl: "length rest = 4 + unat len" by (simp add: rest_def bytes16_def)
  note ma = arp_okD(4) [OF assms(1,3)] and mb = arp_okD(4) [OF assms(2,4)]
  have ml: "length (icmp_message e ty rest) = 8 + unat len" "8 + unat len \<le> 65515" "42 + unat len < 65536" for e ty
    using rl assms(7) by (simp_all add: icmp_message_bytes)
  let ?f = "ping_frame ea pa mac (arp_local_ip ?b) ident seqn len A"
  have d: "mb_data (rx pb ?f) = mac @ arp_local_mac ?a @ bytes16 ETH_IPV4 @ icmp_ip_hdr ea seqn len (arp_local_ip ?a) (arp_local_ip ?b) @
      icmp_message ea ICMP_ECHO_REQUEST rest @ pad pb ?f" unfolding assms(19) by (simp add: ping_frame_def rest_def Let_def)
  obtain m where m: "classify_and_process wb (rx pb ?f) r x = Some (icmp_input m r, x)" "mb_data m = icmp_message ea ICMP_ECHO_REQUEST rest"
    "mb_hash_usr m = arp_local_ip ?a"
    using icmp_frame_received [OF d ma assms(11) ml(1) _ assms(16,14), of r x] ml(2) assms(4,18,20,21) by (auto simp: icmp_message_bytes rl)
  have "icmp_message ea ty rest = icmp_message eb ty rest" for ty by (simp add: icmp_message_def assms(10))
  with m(2) have mb': "mb_data m = icmp_message eb ICMP_ECHO_REQUEST rest" by simp
  define rep where "rep = echo_dst_mac pb (mb_hash_usr m) B @ arp_local_mac ?b @ bytes16 ETH_IPV4 @
      icmp_ip_hdr eb 0 len (arp_local_ip ?b) (mb_hash_usr m) @ icmp_message eb ICMP_ECHO_REPLY rest"
  obtain B1 where B1: "icmp_mgmt_process eb pb m B = Some B1" "nm_wire B1 = nm_wire B @ [(pb, pc_mgmt_tx_q (me_port_caps eb pb), rep)]"
    using echo_answered [OF assms(2,4,5,6) ml(3) assms(9) rl mb'] by (auto simp: yields_def rep_def)
  have d': "mb_data (rx pa rep) = echo_dst_mac pb (mb_hash_usr m) B @ arp_local_mac ?b @ bytes16 ETH_IPV4 @
      icmp_ip_hdr eb 0 len (arp_local_ip ?b) (arp_local_ip ?a) @ icmp_message eb ICMP_ECHO_REPLY rest @ pad pa rep"
    unfolding assms(19) by (simp add: rep_def m(3))
  obtain m' where "classify_and_process wa (rx pa rep) r' y = Some (icmp_input m' r', y)" "mb_data m' = icmp_message eb ICMP_ECHO_REPLY rest"
    "mb_hash_usr m' = arp_local_ip ?b"
    using icmp_frame_received [OF d' mb _ ml(1) _ assms(15,13), of r' y] ml(2) assms(3,12,17,20,21) m(3) by (auto simp: icmp_message_bytes rl)
  then show ?thesis using m(1) B1 icmp_message_cksum [OF assms(9), of ICMP_ECHO_REPLY rest] assms(10) unfolding rest_def
    by (intro exI [of _ m] exI [of _ B1] exI [of _ rep] exI [of _ m']) simp
qed

subsection \<open>The ping client returns\<close>

text \<open>
  While it waits, the thread keeps the ARP cache well formed, its rings hold whole ARP frames, and its clock goes on.  \<open>poll_ok\<close> asks
  the same of everything that happens meanwhile.
\<close>

definition arp_rings_ok :: "mgmt_env \<Rightarrow> net_mgmt \<Rightarrow> bool" where
  "arp_rings_ok e s \<longleftrightarrow> length (r_arp (nm_rings s)) = TGEN_MAX_PORTS \<and>
     (\<forall>p<me_n_ports e. case r_arp (nm_rings s) ! p of None \<Rightarrow> False | Some q \<Rightarrow> list_all (\<lambda>m. 42 \<le> length (mb_mem m)) q)"

definition waiting :: "mgmt_env \<Rightarrow> net_mgmt \<Rightarrow> net_mgmt \<Rightarrow> bool" where
  "waiting e s s' \<longleftrightarrow> arp_ok s' \<and> arp_rings_ok e s' \<and> nm_tsc_reads s' = nm_tsc_reads s \<and> nm_tsc_pos s \<le> nm_tsc_pos s'"

definition poll_ok :: "mgmt_env \<Rightarrow> bool" where
  "poll_ok e \<longleftrightarrow> hash_ok e \<and> me_n_ports e \<le> TGEN_MAX_PORTS \<and> (\<forall>s. arp_ok s \<and> arp_rings_ok e s \<longrightarrow> yields (me_poll e s) (waiting e s))"

lemma waiting_trans: "waiting e a b \<Longrightarrow> waiting e b c \<Longrightarrow> waiting e a c"
  by (auto simp: waiting_def)

lemma waitingD: "waiting e s s' \<Longrightarrow> arp_ok s'" "waiting e s s' \<Longrightarrow> arp_rings_ok e s'"
  by (simp_all add: waiting_def)

lemma waiting_same:
  "arp_ok s \<Longrightarrow> arp_rings_ok e s \<Longrightarrow> nm_arp s' = nm_arp s \<Longrightarrow> r_arp (nm_rings s') = r_arp (nm_rings s) \<Longrightarrow> nm_tsc_reads s' = nm_tsc_reads s \<Longrightarrow>
   nm_tsc_pos s \<le> nm_tsc_pos s' \<Longrightarrow> waiting e s s'"
  by (simp add: waiting_def arp_ok_def arp_rings_ok_def)

lemma clock_frames [simp]:
  "nm_tsc_reads (snd (mgmt_alloc e n s)) = nm_tsc_reads s" "nm_tsc_pos (snd (mgmt_alloc e n s)) = nm_tsc_pos s"
  "nm_tsc_reads (snd (mgmt_tx e p f s)) = nm_tsc_reads s" "nm_tsc_pos (snd (mgmt_tx e p f s)) = nm_tsc_pos s"
  "nm_tsc_reads (mgmt_free s) = nm_tsc_reads s" "nm_tsc_pos (mgmt_free s) = nm_tsc_pos s"
  "nm_tsc_reads (mgmt_metrics g s) = nm_tsc_reads s" "nm_tsc_pos (mgmt_metrics g s) = nm_tsc_pos s"
  "nm_tsc_reads (snd (mgmt_rdtsc s)) = nm_tsc_reads s" "nm_tsc_pos (snd (mgmt_rdtsc s)) = nm_tsc_pos s + 1" "fst (mgmt_rdtsc s) = nm_tsc_reads s (nm_tsc_pos s)"
  "nm_tsc_reads (upd_arp p h s) = nm_tsc_reads s" "nm_tsc_pos (upd_arp p h s) = nm_tsc_pos s"
  "nm_tsc_reads (upd_arp_entry p i k s) = nm_tsc_reads s" "nm_tsc_pos (upd_arp_entry p i k s) = nm_tsc_pos s"
  "nm_tsc_reads (snd (arp_add_key e p ip s)) = nm_tsc_reads s" "nm_tsc_pos (snd (arp_add_key e p ip s)) = nm_tsc_pos s"
  "nm_tsc_reads (arp_send_reply e p am s) = nm_tsc_reads s" "nm_tsc_pos (arp_send_reply e p am s) = nm_tsc_pos s"
  by (auto simp: mgmt_alloc_def mgmt_tx_def mgmt_free_def mgmt_metrics_def mgmt_rdtsc_def upd_arp_def upd_arp_entry_def arp_add_key_def
      arp_send_reply_def build_arp_reply_def Let_def case_prod_beta split: option.splits)

lemma flush_hold_clock [simp]: "nm_tsc_reads (flush_hold e p fs s) = nm_tsc_reads s" "nm_tsc_pos (flush_hold e p fs s) = nm_tsc_pos s"
  by (induction fs arbitrary: s) simp_all

lemma process_clock:
  assumes "arp_mgmt_process e p m s = Some s'"
  shows "nm_tsc_reads s' = nm_tsc_reads s \<and> nm_tsc_pos s \<le> nm_tsc_pos s'"
  using assms
  by (auto simp: arp_mgmt_process_def arp_learn_def arp_take_reply_def Let_def case_prod_beta bind_eq_Some_conv split: if_splits option.splits)

lemma drain_waiting:
  assumes "arp_ok s" "arp_rings_ok e s" "hash_ok e" "p < me_n_ports e" "me_n_ports e \<le> TGEN_MAX_PORTS" "r_arp (nm_rings s) ! p = Some ms"
  shows "yields (arp_drain e p ms s) (waiting e s)"
  using assms
proof (induction ms arbitrary: s)
  case Nil
  then show ?case by (simp add: waiting_def)
next
  case (Cons m ms)
  define s1 where "s1 = s\<lparr>nm_rings := (nm_rings s)\<lparr>r_arp := (r_arp (nm_rings s))[p := Some ms]\<rparr>, nm_held := nm_held s + 1\<rparr>"
  have len: "length (r_arp (nm_rings s)) = TGEN_MAX_PORTS" using Cons.prems(2) by (simp add: arp_rings_ok_def)
  have q: "list_all (\<lambda>m. 42 \<le> length (mb_mem m)) (m # ms)" using Cons.prems(2,4,6) by (auto simp: arp_rings_ok_def)
  have s1: "arp_ok s1" "arp_rings_ok e s1" "nm_tsc_reads s1 = nm_tsc_reads s" "nm_tsc_pos s1 = nm_tsc_pos s" "r_arp (nm_rings s1) ! p = Some ms"
    using Cons.prems(1,2,4,5) q len by (auto simp: s1_def arp_ok_def arp_rings_ok_def nth_list_update)
  have "p < TGEN_MAX_PORTS" using Cons.prems(4,5) by simp
  with arp_process_ok [OF s1(1) _ Cons.prems(3), of p m] q obtain s2 where
    s2: "arp_mgmt_process e p m s1 = Some s2" "arp_ok s2" "nm_rings s2 = nm_rings s1" by (auto simp: yields_def)
  have w: "waiting e s s2" using process_clock [OF s2(1)] s1 s2 by (simp add: waiting_def arp_rings_ok_def)
  have "yields (arp_drain e p ms s2) (waiting e s2)" using Cons.prems(3-5) w s1(5) s2 by (intro Cons.IH) (simp_all add: waiting_def)
  then show ?case using s2(1) waiting_trans [OF w] by (auto simp: s1_def [symmetric] elim!: yields_mono)
qed

lemma tick_ports_waiting:
  assumes "arp_ok s" "arp_rings_ok e s" "hash_ok e" "me_n_ports e \<le> TGEN_MAX_PORTS" "\<forall>p\<in>set ps. p < me_n_ports e"
  shows "yields (for_ports (arp_tick_port e now) ps s) (waiting e s)"
  using assms
proof (induction ps arbitrary: s)
  case Nil
  then show ?case by (simp add: waiting_def)
next
  case (Cons p ps)
  then obtain ms where ms: "r_arp (nm_rings s) ! p = Some ms" "p < me_n_ports e" "p < TGEN_MAX_PORTS"
    by (fastforce simp: arp_rings_ok_def split: option.splits)
  from drain_waiting [OF Cons.prems(1-3) ms(2) Cons.prems(4) ms(1)] obtain s1 where s1: "arp_drain e p ms s = Some s1" "waiting e s s1"
    by (auto simp: yields_def)
  define s2 where "s2 = upd_arp p (\<lambda>a. a\<lparr>arp_entries := map (arp_age e now) (arp_entries a)\<rparr>) s1"
  have "arp_ok s2" unfolding s2_def
    using arp_okD(2) [OF waitingD(1) [OF s1(2)] ms(3)] by (intro upd_arp_ok [OF waitingD(1) [OF s1(2)] ms(3)]) (simp add: arp_port_ok_def)
  then have w: "waiting e s s2" using s1(2) by (simp add: waiting_def s2_def arp_rings_ok_def)
  have "yields (for_ports (arp_tick_port e now) ps s2) (waiting e s2)" using Cons.prems w by (intro Cons.IH) (auto dest: waitingD)
  moreover have "arp_tick_port e now p s = Some s2" using ms(1) s1(1) by (simp add: arp_tick_port_def s2_def)
  ultimately show ?case using waiting_trans [OF w] by (auto elim!: yields_mono)
qed

lemma tick_waiting:
  assumes "arp_ok s" "arp_rings_ok e s" "poll_ok e"
  shows "yields (arp_mgmt_tick e s) (waiting e s)"
proof -
  let ?s = "snd (mgmt_rdtsc s)"
  have w: "waiting e s ?s" using assms(1,2) by (intro waiting_same) simp_all
  have "yields (for_ports (arp_tick_port e (fst (mgmt_rdtsc s))) (mgmt_ports e) ?s) (waiting e ?s)"
    using assms(3) waitingD [OF w] by (intro tick_ports_waiting) (auto simp: poll_ok_def mgmt_ports_def)
  then show ?thesis by (auto simp: arp_mgmt_tick_def case_prod_beta elim!: yields_mono intro: waiting_trans [OF w])
qed

text \<open>
  Every deadline passes and stays passed.  This idealises the 64-bit clock as one that does not wrap around: for every deadline the reads
  are beyond it from some call on.
\<close>

definition clock_ok :: "net_mgmt \<Rightarrow> bool" where
  "clock_ok s \<longleftrightarrow> (\<forall>d. \<exists>N. \<forall>n\<ge>N. d \<le> nm_tsc_reads s n)"

lemma waiting_clock: "waiting e s s' \<Longrightarrow> clock_ok s' = clock_ok s"
  by (simp add: waiting_def clock_ok_def)

text \<open>
  A loop that reads the clock, ends when the deadline has passed and otherwise does something harmless before the next round.
\<close>

locale wait_loop =
  fixes e :: mgmt_env and deadline :: u64 and loop :: "net_mgmt \<Rightarrow> 'a option" and res :: "'a \<Rightarrow> net_mgmt" and body :: "net_mgmt \<Rightarrow> ('a + net_mgmt) option"
  assumes unfold: "loop s = (if fst (mgmt_rdtsc s) \<ge> deadline then loop s else Option.bind (body (snd (mgmt_rdtsc s))) (case_sum Some loop))"
    and stop: "fst (mgmt_rdtsc s) \<ge> deadline \<Longrightarrow> yields (loop s) (\<lambda>x. res x = snd (mgmt_rdtsc s))"
    and body: "poll_ok e \<Longrightarrow> arp_ok s \<Longrightarrow> arp_rings_ok e s \<Longrightarrow> yields (body s) (\<lambda>x. waiting e s (case_sum res (\<lambda>s. s) x))"
begin

lemma loop_returns:
  assumes "\<forall>n\<ge>N. deadline \<le> nm_tsc_reads s n" "arp_ok s" "arp_rings_ok e s" "poll_ok e"
  shows "yields (loop s) (\<lambda>x. waiting e s (res x))"
  using assms
proof (induction "N - nm_tsc_pos s" arbitrary: s rule: less_induct)
  case less
  let ?s = "snd (mgmt_rdtsc s)"
  have w: "waiting e s ?s" using less.prems(2,3) by (intro waiting_same) simp_all
  show ?case
  proof (cases "fst (mgmt_rdtsc s) \<ge> deadline")
    case True
    then show ?thesis using stop [OF True] w by (auto simp: yields_def)
  next
    case False
    then have N: "nm_tsc_pos s < N" using less.prems(1) [rule_format, of "nm_tsc_pos s"] by (cases "N \<le> nm_tsc_pos s") simp_all
    from body [OF less.prems(4) waitingD [OF w]] obtain x where x: "body ?s = Some x" "waiting e ?s (case_sum res (\<lambda>s. s) x)" by (auto simp: yields_def)
    have l: "loop s = case_sum Some loop x" using unfold [of s] False x(1) by simp
    show ?thesis
    proof (cases x)
      case (Inl a)
      then show ?thesis using l x(2) waiting_trans [OF w] by simp
    next
      case (Inr s')
      then have s': "waiting e ?s s'" using x(2) by simp
      have "N - nm_tsc_pos s' < N - nm_tsc_pos s" "nm_tsc_reads s' = nm_tsc_reads s" using s' N by (auto simp: waiting_def)
      then have "yields (loop s') (\<lambda>x. waiting e s' (res x))" using less.prems(1,4) waitingD [OF s'] by (intro less.hyps) simp_all
      then show ?thesis using l Inr waiting_trans [OF waiting_trans [OF w s']] by (auto elim!: yields_mono)
    qed
  qed
qed

lemma clock_returns: "poll_ok e \<Longrightarrow> clock_ok s \<Longrightarrow> arp_ok s \<Longrightarrow> arp_rings_ok e s \<Longrightarrow> yields (loop s) (\<lambda>x. waiting e s (res x))"
  using loop_returns unfolding clock_ok_def by blast

end

definition arp_wait_body :: "mgmt_env \<Rightarrow> nat \<Rightarrow> u32 \<Rightarrow> net_mgmt \<Rightarrow> (net_mgmt + net_mgmt) option" where
  "arp_wait_body e p ip s = do { s \<leftarrow> arp_mgmt_tick e s; if arp_look p s ip \<noteq> None then Some (Inl s) else map_option Inr (me_poll e s) }"

definition ping_wait_body :: "mgmt_env \<Rightarrow> nat \<Rightarrow> net_mgmt \<Rightarrow> (bool \<times> net_mgmt + net_mgmt) option" where
  "ping_wait_body e p s =
     (let (r, s) = icmp_mgmt_drain p s
      in if r \<noteq> None then Some (Inl (True, mgmt_free (snd (mgmt_rdtsc s))))
         else do { s \<leftarrow> arp_mgmt_tick e s; map_option Inr (me_poll e s) })"

lemma poll_waiting: "poll_ok e \<Longrightarrow> arp_ok s \<Longrightarrow> arp_rings_ok e s \<Longrightarrow> yields (me_poll e s) (waiting e s)"
  by (simp add: poll_ok_def)

lemma tick_poll_waiting:
  assumes "arp_ok s" "arp_rings_ok e s" "poll_ok e"
  shows "yields (do { s \<leftarrow> arp_mgmt_tick e s; map_option Inr (me_poll e s) }) (\<lambda>x. waiting e s (case_sum res (\<lambda>s. s) x))"
proof (rule yields_bindI [OF tick_waiting [OF assms]])
  fix s1 assume w: "waiting e s s1"
  show "yields (map_option Inr (me_poll e s1)) (\<lambda>x. waiting e s (case_sum res (\<lambda>s. s) x))"
    using poll_waiting [OF assms(3) waitingD [OF w]] waiting_trans [OF w] by (auto simp: yields_def)
qed

lemma drain_frames [simp]:
  "nm_arp (snd (icmp_mgmt_drain p s)) = nm_arp s" "r_arp (nm_rings (snd (icmp_mgmt_drain p s))) = r_arp (nm_rings s)"
  "nm_tsc_reads (snd (icmp_mgmt_drain p s)) = nm_tsc_reads s" "nm_tsc_pos (snd (icmp_mgmt_drain p s)) = nm_tsc_pos s"
  by (simp_all add: icmp_mgmt_drain_def set_icmp_ring_def split: option.splits list.splits)

interpretation arp_waiting: wait_loop e deadline "arp_wait e p ip deadline" "\<lambda>s. s" "arp_wait_body e p ip" for e p ip deadline
proof (unfold_locales, goal_cases)
  case (1 s)
  show ?case
  proof (cases "fst (mgmt_rdtsc s) \<ge> deadline")
    case False
    then show ?thesis by (subst arp_wait.simps)
        (cases "arp_mgmt_tick e (snd (mgmt_rdtsc s))"; simp add: arp_wait_body_def map_conv_bind_option comp_def)
  qed simp
next
  case (2 s)
  then show ?case by (subst arp_wait.simps) simp
next
  case (3 s)
  show ?case unfolding arp_wait_body_def
    by (rule yields_bindI [OF tick_waiting [OF 3(2,3,1)]])
      (use poll_waiting [OF 3(1)] waiting_trans in \<open>fastforce simp: yields_def dest: waitingD\<close>)
qed

interpretation ping_waiting: wait_loop e wait_end "ping_wait e p wait_end" snd "ping_wait_body e p" for e p wait_end
proof (unfold_locales, goal_cases)
  case (1 s)
  show ?case
  proof (cases "fst (mgmt_rdtsc s) \<ge> wait_end")
    case False
    then show ?thesis by (subst ping_wait.simps)
        (cases "arp_mgmt_tick e (snd (icmp_mgmt_drain p (snd (mgmt_rdtsc s))))"; simp add: ping_wait_body_def case_prod_beta map_conv_bind_option comp_def)
  qed simp
next
  case (2 s)
  then show ?case by (subst ping_wait.simps) simp
next
  case (3 s)
  let ?s = "snd (icmp_mgmt_drain p s)"
  have w: "waiting e s ?s" using 3 by (intro waiting_same) simp_all
  moreover have "waiting e s (mgmt_free (snd (mgmt_rdtsc ?s)))" using 3 by (intro waiting_same) simp_all
  ultimately show ?case using tick_poll_waiting [OF waitingD [OF w] 3(1), of snd] waiting_trans [OF w]
    by (auto simp: ping_wait_body_def case_prod_beta elim!: yields_mono)
qed

interpretation ping_pacing: wait_loop e next_tsc "ping_pace e next_tsc" "\<lambda>s. s" "\<lambda>s. map_option Inr (me_poll e s)" for e next_tsc
proof (unfold_locales, goal_cases)
  case (1 s)
  show ?case
  proof (cases "fst (mgmt_rdtsc s) \<ge> next_tsc")
    case False
    then show ?thesis by (subst ping_pace.simps) (simp add: map_conv_bind_option comp_def)
  qed simp
next
  case (2 s)
  then show ?case by (subst ping_pace.simps) simp
next
  case (3 s)
  then show ?case using poll_waiting [OF 3] by (auto simp: yields_def)
qed

lemma ping_loop_returns:
  assumes "poll_ok e" "clock_ok s" "arp_ok s" "arp_rings_ok e s" "unat len \<le> 65493"
  shows "yields (ping_loop e p mac dst ident len interval n seqn rcvd s) (\<lambda>(k, s'). waiting e s s' \<and> unat k \<le> unat rcvd + n)"
  using assms(2-4)
proof (induction n arbitrary: seqn rcvd s)
  case 0
  then show ?case by (simp add: waiting_def)
next
  case (Suc n)
  define s1 where "s1 = snd (mgmt_alloc e (42 + unat len) s)"
  have al: "icmp_alloc e len s = Some (fst (mgmt_alloc e (42 + unat len) s), s1)" using assms(5) by (simp add: icmp_alloc_def case_prod_beta s1_def)
  have w1: "waiting e s s1" using Suc.prems by (intro waiting_same) (simp_all add: s1_def)
  define s2 where "s2 = snd (mgmt_rdtsc s1)"
  define f where "f = ping_frame e p mac dst ident seqn len s1"
  define s3 where "s3 = snd (mgmt_tx e p f s2)"
  define d where "d = fst (mgmt_rdtsc s1) + interval * me_eal_hz e div 1000"
  have w3: "waiting e s s3" using Suc.prems by (intro waiting_same) (simp_all add: s1_def s2_def s3_def)
  have IH: "yields (ping_loop e p mac dst ident len interval n (seqn + 1) k t) (\<lambda>(k', s'). waiting e s s' \<and> unat k' \<le> unat rcvd + Suc n)"
    if "waiting e s t" "unat k \<le> unat rcvd + 1" for k t
    using Suc.IH [of t "seqn + 1" k] that waitingD [OF that(1)] waiting_clock [OF that(1)] Suc.prems(1)
    by (auto elim!: yields_mono intro: waiting_trans [OF that(1)])
  have r: "unat (if got then rcvd + 1 else rcvd) \<le> unat rcvd + 1" for got
    using mod_less_eq_dividend [of "unat rcvd + 1" "2 ^ 32"] by (simp add: unat_word_ariths)
  have l: "ping_loop e p mac dst ident len interval (Suc n) seqn rcvd s =
    (if \<not> fst (mgmt_alloc e (42 + unat len) s) then Some (rcvd, s1)
     else if \<not> fst (mgmt_tx e p f s2) then ping_loop e p mac dst ident len interval n (seqn + 1) rcvd (mgmt_free s3)
     else do { (got, t) \<leftarrow> ping_wait e p d s3; t \<leftarrow> (if n > 0 then ping_pace e d t else Some t);
               ping_loop e p mac dst ident len interval n (seqn + 1) (if got then rcvd + 1 else rcvd) t })"
    by (simp add: al f_def s2_def s3_def d_def Let_def case_prod_beta del: clock_frames cong: if_cong)
  have "yields (do { (got, t) \<leftarrow> ping_wait e p d s3; t \<leftarrow> (if n > 0 then ping_pace e d t else Some t);
      ping_loop e p mac dst ident len interval n (seqn + 1) (if got then rcvd + 1 else rcvd) t }) (\<lambda>(k, s'). waiting e s s' \<and> unat k \<le> unat rcvd + Suc n)"
  proof (rule yields_bindI [OF ping_waiting.clock_returns [OF assms(1)]], goal_cases)
    case 1
    show ?case using waiting_clock [OF w3] Suc.prems(1) by simp
  next
    case (4 gt)
    have w4: "waiting e s (snd gt)" using waiting_trans [OF w3 4] .
    have "yields (if n > 0 then ping_pace e d (snd gt) else Some (snd gt)) (waiting e s)"
      using ping_pacing.clock_returns [OF assms(1) _ waitingD [OF w4], of d] waiting_clock [OF w4] Suc.prems(1) w4 waiting_trans [OF w4]
      by (auto elim!: yields_mono)
    then show ?case unfolding case_prod_beta by (rule yields_bindI) (rule IH [unfolded case_prod_beta, OF _ r])
  qed (use waitingD [OF w3] in simp_all)
  moreover have "waiting e s (mgmt_free s3)" using Suc.prems by (intro waiting_same) (simp_all add: s1_def s2_def s3_def)
  ultimately show ?case unfolding l using w1 IH by (auto simp: le_SucI)
qed

lemma request_waiting:
  assumes "arp_ok s" "arp_rings_ok e s" "hash_ok e" "p < TGEN_MAX_PORTS"
  shows "yields (arp_request e p ip s) (\<lambda>r. waiting e s (snd r))"
proof -
  define t where "t = snd (arp_add_key e p ip s)"
  define f where "f = (\<lambda>x :: arp_entry. if ae_state x \<noteq> ARP_STATE_RESOLVED then x\<lparr>ae_state := ARP_STATE_PENDING, ae_hold := [], ae_fail_count := 0\<rparr> else x)"
  define u where "u = (case fst (arp_add_key e p ip s) of None \<Rightarrow> t | Some i \<Rightarrow> upd_arp_entry p i f t)"
  note k = add_key_ok [OF assms(1,4,3), of ip]
  have u: "arp_ok u" "nm_rings u = nm_rings s" "nm_tsc_reads u = nm_tsc_reads s" "nm_tsc_pos u = nm_tsc_pos s"
    using k(1) upd_entry_ok [OF k(1) assms(4)] by (auto simp: u_def t_def split: option.splits)
  define v where "v = snd (build_arp_request e p ip u)"
  have v: "nm_arp v = nm_arp u" "nm_rings v = nm_rings u" "nm_tsc_reads v = nm_tsc_reads u" "nm_tsc_pos v = nm_tsc_pos u"
    by (simp_all add: v_def build_arp_request_def case_prod_beta Let_def)
  have e: "arp_request e p ip s = (case fst (build_arp_request e p ip u) of None \<Rightarrow> Some (-1, v) | Some g \<Rightarrow> Some (0,
      if fst (mgmt_tx e p g v) then mgmt_metrics (\<lambda>m. m\<lparr>m_arp_request_tx := m_arp_request_tx m + 1\<rparr>) (snd (mgmt_tx e p g v))
      else mgmt_free (snd (mgmt_tx e p g v))))"
  proof (cases "fst (arp_add_key e p ip s)")
    case None
    then show ?thesis by (simp add: arp_request_def case_prod_beta u_def t_def v_def cong: if_cong option.case_cong)
  next
    case (Some i)
    then have "i < length (arp_entries (nm_arp t ! p))" using k(2) arp_okD(3) [OF k(1) assms(4)] by (simp add: t_def)
    then show ?thesis using Some by (simp add: arp_request_def case_prod_beta u_def t_def v_def f_def cong: if_cong option.case_cong)
  qed
  show ?thesis unfolding e using u v assms(2) by (auto simp: waiting_def arp_ok_def arp_rings_ok_def split: option.splits)
qed

lemma resolve_waiting:
  assumes "arp_ok s" "arp_rings_ok e s" "clock_ok s" "poll_ok e" "p < TGEN_MAX_PORTS"
  shows "yields (ping_resolve e p ip s) (waiting e s)"
proof (cases "arp_look p s ip = None")
  case True
  have h: "hash_ok e" using assms(4) by (simp add: poll_ok_def)
  have "yields (let (now, t) = mgmt_rdtsc (snd r) in arp_wait e p ip (now + 3 * me_eal_hz e) t) (waiting e s)" if r: "waiting e s (snd r)" for r :: "int \<times> net_mgmt"
  proof -
    have w: "waiting e s (snd (mgmt_rdtsc (snd r)))" using waiting_same [OF waitingD [OF r]] waiting_trans [OF r] by simp
    then have "clock_ok (snd (mgmt_rdtsc (snd r)))" using assms(3) by (simp add: waiting_clock)
    from arp_waiting.clock_returns [OF assms(4) this waitingD [OF w]] show ?thesis
      unfolding case_prod_beta Let_def by (rule yields_mono) (rule waiting_trans [OF w])
  qed
  moreover have "ping_resolve e p ip s = arp_request e p ip s \<bind> (\<lambda>r. let (now, t) = mgmt_rdtsc (snd r) in arp_wait e p ip (now + 3 * me_eal_hz e) t)"
    using True by (simp add: ping_resolve_def split_def)
  ultimately show ?thesis by (simp only:) (rule yields_bindI [OF request_waiting [OF assms(1,2) h assms(5)]])
next
  case False
  then show ?thesis using assms(1,2) by (auto simp: ping_resolve_def waiting_def)
qed

text \<open>
  C33. The ping client always returns: for every destination, count and interval and any payload that fits a frame it either
  reports an unresolved destination or a missing pool, or the number of replies it took, which is at most the number of requests
  asked for.  Its waiting loops end because every deadline passes; what the callback and the workers do in the
  meantime must keep the ARP cache well formed and the clock running.
\<close>

theorem ping_returns:
  assumes "arp_ok s" "arp_rings_ok e s" "clock_ok s" "poll_ok e" "p < TGEN_MAX_PORTS" "sz \<le> 65493" "cnt < 0x80000000"
  shows "\<exists>rc s'. icmp_ping_start e p dst cnt sz interval s = Some (rc, s') \<and> arp_ok s' \<and>
    (rc = - EHOSTUNREACH \<or> rc = - ENOMEM \<or> 0 \<le> rc \<and> rc \<le> (if cnt = 0 then 5 else uint cnt))"
proof -
  define c where "c = (if cnt = 0 then 5 else cnt)"
  define z where "z = (if sz = 0 then 56 else sz)"
  define iv where "iv = (if interval = 0 then 1000 else interval)"
  define nh where "nh = arp_nexthop (nm_arp s) (word_of_nat p) dst"
  have "unat z \<le> 65493" using assms(6) by (simp add: z_def word_le_nat_alt)
  then have z: "unat (ucast z :: u16) \<le> 65493" by (simp add: unsigned_ucast_eq le_trans [OF take_bit_nat_less_eq_self])
  have c: "unat c < 2 ^ 31" using assms(7) by (simp add: c_def word_less_nat_alt)
  from resolve_waiting [OF assms(1-5), of nh] obtain s1 where s1: "ping_resolve e p nh s = Some s1" "waiting e s s1" by (auto simp: yields_def)
  let ?s = "snd (mgmt_rdtsc s1)"
  have w: "waiting e s ?s" using waiting_same [OF waitingD [OF s1(2)]] waiting_trans [OF s1(2)] by simp
  have st: "icmp_ping_start e p dst cnt sz interval s = (case arp_look p s1 nh of None \<Rightarrow> Some (- EHOSTUNREACH, s1)
    | Some mac \<Rightarrow> if \<not> me_pool e then Some (- ENOMEM, s1)
        else map_option (\<lambda>(k, s). (sint k, s)) (ping_loop e p mac dst (ucast (fst (mgmt_rdtsc s1))) (ucast z) (ucast iv) (unat c) 0 0 ?s))"
    using s1(1) unfolding icmp_ping_start_def nh_def c_def z_def iv_def
    by (simp add: Let_def split_def map_conv_bind_option comp_def del: clock_frames split: option.split)
  have "\<exists>k s'. ping_loop e p mac dst (ucast (fst (mgmt_rdtsc s1))) (ucast z) (ucast iv) (unat c) 0 0 ?s = Some (k, s') \<and> waiting e s s' \<and> unat k \<le> unat c" for mac
    using ping_loop_returns [OF assms(4) _ waitingD [OF w] z, of p mac dst "ucast (fst (mgmt_rdtsc s1))" "ucast iv" "unat c" 0 0]
      waiting_clock [OF w] assms(3) waiting_trans [OF w] by (auto simp: yields_def)
  moreover have "sint k = uint k \<and> 0 \<le> uint k \<and> uint k \<le> (if cnt = 0 then 5 else uint cnt)" if "unat k \<le> unat c" for k :: u32
  proof -
    have "uint k < 2 ^ 31" "uint k \<le> uint c" using that c by (simp_all flip: uint_nat add: of_nat_less_iff [symmetric, where 'a = int] of_nat_le_iff [symmetric, where 'a = int])
    moreover from this(1) have "signed_take_bit 31 (uint k) = uint k" by (intro signed_take_bit_int_eq_self) (simp_all add: order_trans [of _ 0])
    ultimately show ?thesis by (cases "cnt = 0") (simp_all add: sint_uint c_def)
  qed
  ultimately show ?thesis unfolding st using waitingD(1) [OF s1(2)] waitingD(1) by (fastforce split: option.split)
qed

subsection \<open>Witnesses\<close>

definition demo_pinger :: net_mgmt where
  "demo_pinger = (demo_host 1 [2, 0, 0, 0, 0, 1])\<lparr>nm_tsc_reads := (\<lambda>n. if n < 1000 then of_nat n else - 1)\<rparr>"

lemma demo_pinger_ok: "arp_ok demo_pinger" "arp_rings_ok demo_menv demo_pinger" "clock_ok demo_pinger" "poll_ok demo_menv"
proof -
  show "arp_ok demo_pinger" using demo_host_ok [of "[2, 0, 0, 0, 0, 1]" 1] by (simp add: demo_pinger_def arp_ok_def)
  show "arp_rings_ok demo_menv demo_pinger" by (simp add: arp_rings_ok_def demo_menv_def demo_pinger_def demo_host_def demo_rings_def TGEN_MAX_PORTS_def)
  have "d \<le> nm_tsc_reads demo_pinger n" if "n \<ge> 1000" for d n using that by (simp add: demo_pinger_def)
  then show "clock_ok demo_pinger" unfolding clock_ok_def by blast
  show "poll_ok demo_menv" using demo_menv_ok(1) by (simp add: poll_ok_def) (simp add: demo_menv_def waiting_def TGEN_MAX_PORTS_def)
qed

theorem ping_returns_witness:
  "\<exists>rc s'. icmp_ping_start demo_menv 0 2 3 0 10 demo_pinger = Some (rc, s') \<and> arp_ok s' \<and> (rc = -113 \<or> rc = -12 \<or> 0 \<le> rc \<and> rc \<le> 3)"
  using ping_returns [OF demo_pinger_ok, of 0 0 3 2 10] by (simp add: TGEN_MAX_PORTS_def EHOSTUNREACH_def ENOMEM_def)

definition demo_rxp :: "nat \<Rightarrow> bytes \<Rightarrow> rx_mbuf" where
  "demo_rxp p f = (demo_frame demo_tx)\<lparr>mb_data := f @ [0], mb_port := word_of_nat p\<rparr>"

definition demo_wenv :: "u32 \<Rightarrow> env" where
  "demo_wenv ip = demo_env\<lparr>e_arp := replicate 16 (demo_arp\<lparr>arp_local_ip := ip\<rparr>)\<rparr>"

theorem ping_roundtrip_witness:
  "\<exists>m B1 rep m'.
    classify_and_process (demo_wenv 2) (demo_rxp 0 (ping_frame demo_menv 0 [2, 0, 0, 0, 0, 2] 2 7 1 4 (demo_host 1 [2, 0, 0, 0, 0, 1]))) demo_rings demo_worker =
      Some (icmp_input m demo_rings, demo_worker) \<and>
    icmp_mgmt_process demo_menv 0 m (demo_host 2 [2, 0, 0, 0, 0, 2]) = Some B1 \<and> nm_wire B1 = [(0, 3, rep)] \<and>
    classify_and_process (demo_wenv 1) (demo_rxp 0 rep) demo_rings demo_worker = Some (icmp_input m' demo_rings, demo_worker) \<and> mb_hash_usr m' = 2 \<and>
    mb_data m' = icmp_message demo_menv ICMP_ECHO_REPLY [0, 7, 0, 1, 0xAB, 0xAB, 0xAB, 0xAB]"
proof -
  let ?A = "demo_host 1 [2, 0, 0, 0, 0, 1]" and ?B = "demo_host 2 [2, 0, 0, 0, 0, 2]"
  have l: "nm_wire (demo_host ip mac) = []" "arp_local_ip (nm_arp (demo_host ip mac) ! 0) = ip" "arp_local_mac (nm_arp (demo_host ip mac) ! 0) = mac" for ip mac
    by (simp_all add: demo_host_def arp_port_zero_def)
  have r: "raw_cksum_ok demo_menv" by (simp add: raw_cksum_ok_def demo_menv_def)
  have m: "length (echo_dst_mac 0 1 ?B) = 6" by (simp add: echo_dst_mac_def arp_lookup_def arp_nexthop_def demo_host_def arp_port_zero_def TGEN_MAX_PORTS_def)
  have h: "hdr_cksum_ok (demo_wenv ip)" "e_hdr_cksum (demo_wenv ip) = me_hdr_cksum demo_menv" "arp_local_ip (e_arp (demo_wenv ip) ! 0) = ip" for ip
    by (simp_all add: hdr_cksum_ok_def demo_wenv_def demo_env_def demo_menv_def)
  have x: "mb_data (demo_rxp p f) = f @ [0]" "\<not> mb_no_buf (demo_rxp p f)" "p < TGEN_MAX_PORTS \<Longrightarrow> unat (mb_port (demo_rxp p f)) = p" for p f
    by (simp_all add: demo_rxp_def demo_frame_def TGEN_MAX_PORTS_def unat_of_nat take_bit_nat_eq_self)
  have c: "pc_mgmt_tx_q (me_port_caps demo_menv 0) = 3" by (simp add: demo_menv_def demo_caps_def)
  have b: "bytes16 7 @ bytes16 1 @ replicate 4 0xAB = [0, 7, 0, 1, 0xAB, 0xAB, 0xAB, 0xAB]" by (simp add: bytes16_def) (simp add: eval_nat_numeral)
  have "0 < TGEN_MAX_PORTS" by (simp add: TGEN_MAX_PORTS_def)
  then show ?thesis
    using ping_roundtrip [where A = ?A and B = ?B and pa = 0 and pb = 0 and ea = demo_menv and eb = demo_menv and len = 4 and mac = "[2, 0, 0, 0, 0, 2]" and
        wa = "demo_wenv 1" and wb = "demo_wenv 2" and rx = demo_rxp and pad = "\<lambda>_ _. [0]" and ident = 7 and seqn = 1 and r = demo_rings and x = demo_worker and
        r' = demo_rings and y = demo_worker] demo_host_ok demo_menv_ok(3,4) r m h x
    by (simp add: l c b) auto
qed

end
