(* ===== verification/NdpMgmt.thy ===== *)
theory NdpMgmt
  imports IcmpMgmt
begin

text \<open>
  ICMPv6 and neighbour discovery on the management thread (\<^verbatim>\<open>net/icmpv6.c\<close>, \<^verbatim>\<open>net/ndp.c\<close>).  A worker puts the two addresses of a packet in
  front of its ICMPv6 message.
\<close>

subsection \<open>Addresses\<close>

definition make_link_local :: "bytes \<Rightarrow> bytes" where
  "make_link_local mac = [0xfe, 0x80] @ replicate 6 0 @ [mac ! 0 XOR 0x02, mac ! 1, mac ! 2, 0xff, 0xfe, mac ! 3, mac ! 4, mac ! 5]"

definition ndp_solicited_node_mcast :: "bytes \<Rightarrow> bytes" where
  "ndp_solicited_node_mcast ip6 = [0xff, 0x02] @ replicate 9 0 @ [0x01, 0xff, ip6 ! 13, ip6 ! 14, ip6 ! 15]"

definition ndp_mcast_mac :: "bytes \<Rightarrow> bytes" where
  "ndp_mcast_mac mcast = [0x33, 0x33, mcast ! 12, mcast ! 13, mcast ! 14, mcast ! 15]"

definition ndp_local :: "ndp_port \<Rightarrow> bytes" where
  "ndp_local n = (if ndp_has_ip6 n then ndp_local_ip6 n else ndp_local_ip6_ll n)"

subsection \<open>The neighbour cache\<close>

definition TGEN_NDP_CACHE_SZ :: nat where "TGEN_NDP_CACHE_SZ = 1024"
definition NDP_CACHE_TTL_S :: u64 where "NDP_CACHE_TTL_S = 300"

definition upd_ndp :: "nat \<Rightarrow> (ndp_port \<Rightarrow> ndp_port) \<Rightarrow> net_mgmt \<Rightarrow> net_mgmt" where
  "upd_ndp p f s = s\<lparr>nm_ndp := (nm_ndp s)[p := f (nm_ndp s ! p)]\<rparr>"

definition ndp_find :: "ndp_port \<Rightarrow> bytes \<Rightarrow> nat option" where
  "ndp_find n ip6 = find (\<lambda>i. ne_ip6 (ndp_entries n ! i) = ip6) [0 ..< ndp_count n]"

definition ndp_set :: "nat \<Rightarrow> (ndp_entry \<Rightarrow> ndp_entry) \<Rightarrow> ndp_port \<Rightarrow> ndp_port" where
  "ndp_set i f n = n\<lparr>ndp_entries := (ndp_entries n)[i := f (ndp_entries n ! i)]\<rparr>"

definition ndp_store :: "bytes \<Rightarrow> bytes \<Rightarrow> u64 \<Rightarrow> ndp_port \<Rightarrow> ndp_port" where
  "ndp_store ip6 mac expire n =
     (case ndp_find n ip6 of
        Some i \<Rightarrow> ndp_set i (\<lambda>x. x\<lparr>ne_mac := mac, ne_state := NDP_STATE_REACHABLE, ne_expire_tsc := expire, ne_fail_count := 0\<rparr>) n
      | None \<Rightarrow>
          if ndp_count n < TGEN_NDP_CACHE_SZ
          then (ndp_set (ndp_count n) (\<lambda>_. \<lparr>ne_ip6 = ip6, ne_mac = mac, ne_state = NDP_STATE_REACHABLE, ne_expire_tsc = expire, ne_fail_count = 0\<rparr>) n)
                 \<lparr>ndp_count := ndp_count n + 1\<rparr>
          else n)"

text \<open>The clock is read only when there is an entry to fill.\<close>

definition ndp_cache_update :: "mgmt_env \<Rightarrow> nat \<Rightarrow> bytes \<Rightarrow> bytes \<Rightarrow> net_mgmt \<Rightarrow> net_mgmt" where
  "ndp_cache_update e p ip6 mac s =
     (if ndp_find (nm_ndp s ! p) ip6 = None \<and> ndp_count (nm_ndp s ! p) \<ge> TGEN_NDP_CACHE_SZ then s
      else let (now, s) = mgmt_rdtsc s in upd_ndp p (ndp_store ip6 mac (now + me_tsc_hz e * NDP_CACHE_TTL_S)) s)"

definition ndp_pending :: "bytes \<Rightarrow> ndp_port \<Rightarrow> ndp_port" where
  "ndp_pending ip6 n =
     (case ndp_find n ip6 of
        Some i \<Rightarrow> ndp_set i (\<lambda>x. if ne_state x \<noteq> NDP_STATE_REACHABLE then x\<lparr>ne_state := NDP_STATE_PENDING, ne_fail_count := 0\<rparr> else x) n
      | None \<Rightarrow>
          if ndp_count n < TGEN_NDP_CACHE_SZ
          then (ndp_set (ndp_count n) (\<lambda>x. x\<lparr>ne_ip6 := ip6, ne_mac := replicate 6 0, ne_state := NDP_STATE_PENDING, ne_fail_count := 0\<rparr>) n)
                 \<lparr>ndp_count := ndp_count n + 1\<rparr>
          else n)"

definition ndp_look :: "nat \<Rightarrow> net_mgmt \<Rightarrow> bytes \<Rightarrow> bytes option" where
  "ndp_look p s ip6 = ndp_lookup (nm_ndp s) (word_of_nat p) ip6"

subsection \<open>Packets\<close>

definition icmpv6_checksum :: "mgmt_env \<Rightarrow> bytes \<Rightarrow> bytes \<Rightarrow> bytes \<Rightarrow> u16" where
  "icmpv6_checksum e src dst msg =
     (let pseudo = src @ dst @ bytes32 (word_of_nat (length msg)) @ [0, 0, 0, 58];
          ck = ucast (me_raw_cksum e pseudo) + ucast (me_raw_cksum e msg) :: u32;
          ck = (drop_bit 16 ck AND 0xFFFF) + (ck AND 0xFFFF);
          ck = ck + drop_bit 16 ck
      in ucast (NOT ck AND 0xFFFF))"

definition icmpv6_message :: "mgmt_env \<Rightarrow> bytes \<Rightarrow> bytes \<Rightarrow> u8 \<Rightarrow> u8 \<Rightarrow> bytes \<Rightarrow> bytes" where
  "icmpv6_message e src dst ty code rest = [ty, code] @ le16 (icmpv6_checksum e src dst ([ty, code, 0, 0] @ rest)) @ rest"

definition ip6_frame :: "bytes \<Rightarrow> bytes \<Rightarrow> u8 \<Rightarrow> bytes \<Rightarrow> bytes \<Rightarrow> bytes \<Rightarrow> bytes" where
  "ip6_frame dmac smac hop src dst msg =
     dmac @ smac @ bytes16 ETH_IPV6 @ bytes32 0x60000000 @ bytes16 (word_of_nat (length msg)) @ [58, hop] @ src @ dst @ msg"

definition ICMPV6_ECHO_REQUEST :: u8 where "ICMPV6_ECHO_REQUEST = 128"
definition ICMPV6_ECHO_REPLY :: u8 where "ICMPV6_ECHO_REPLY = 129"
definition ICMPV6_NEIGHBOR_SOL :: u8 where "ICMPV6_NEIGHBOR_SOL = 135"
definition ICMPV6_NEIGHBOR_ADV :: u8 where "ICMPV6_NEIGHBOR_ADV = 136"
definition NDP_OPT_SRC_LLADDR :: u8 where "NDP_OPT_SRC_LLADDR = 1"
definition NDP_OPT_TGT_LLADDR :: u8 where "NDP_OPT_TGT_LLADDR = 2"

definition neighbor_sol :: "mgmt_env \<Rightarrow> ndp_port \<Rightarrow> bytes \<Rightarrow> bytes" where
  "neighbor_sol e n target =
     (let src = ndp_local n; dst = ndp_solicited_node_mcast target
      in ip6_frame (ndp_mcast_mac dst) (ndp_local_mac n) 255 src dst
           (icmpv6_message e src dst ICMPV6_NEIGHBOR_SOL 0 ([0, 0, 0, 0] @ target @ [NDP_OPT_SRC_LLADDR, 1] @ ndp_local_mac n)))"

definition ndp_solicit :: "mgmt_env \<Rightarrow> nat \<Rightarrow> bytes \<Rightarrow> net_mgmt \<Rightarrow> int \<times> net_mgmt" where
  "ndp_solicit e p target s =
     (if \<not> me_pool e then (-1, s)
      else
        let (ok, s) = mgmt_alloc e 86 s
        in if \<not> ok then (-1, s)
           else
             let f = neighbor_sol e (nm_ndp s ! p) target; s = upd_ndp p (ndp_pending target) s; (nb, s) = mgmt_tx e p f s
             in if nb then (0, s) else (-1, mgmt_free s))"

subsection \<open>Solicitations and advertisements\<close>

text \<open>
  The search for an option: the offset is kept in 16 bits, as in the code.  The result is the link-layer address of the first option of
  the wanted type.
\<close>

partial_function (option) nd_option :: "u8 \<Rightarrow> bytes \<Rightarrow> u16 \<Rightarrow> bytes option option" where
  "nd_option ty body off =
     (if unat off + 8 > length body then Some None
      else if body ! (unat off + 1) = 0 then Some None
      else if body ! unat off = ty then Some (Some (take 6 (drop (unat off + 2) body)))
      else nd_option ty body (off + ucast (body ! (unat off + 1)) * 8))"

definition ndp_process_na :: "mgmt_env \<Rightarrow> nat \<Rightarrow> bytes \<Rightarrow> net_mgmt \<Rightarrow> net_mgmt option" where
  "ndp_process_na e p body s =
     (if length body < 24 then Some s
      else do { mac \<leftarrow> nd_option NDP_OPT_TGT_LLADDR body 24;
                Some (case mac of None \<Rightarrow> s | Some mac \<Rightarrow> ndp_cache_update e p (take 16 (drop 8 body)) mac s) })"

definition ndp_for_us :: "ndp_port \<Rightarrow> bytes \<Rightarrow> bool" where
  "ndp_for_us n target \<longleftrightarrow> ndp_has_ip6 n \<and> target = ndp_local_ip6 n \<or> target = ndp_local_ip6_ll n"

definition neighbor_adv :: "mgmt_env \<Rightarrow> nat \<Rightarrow> bytes \<Rightarrow> bytes \<Rightarrow> net_mgmt \<Rightarrow> bytes" where
  "neighbor_adv e p target sender s =
     (let mac = ndp_local_mac (nm_ndp s ! p)
      in ip6_frame (case ndp_look p s sender of Some m \<Rightarrow> m | None \<Rightarrow> replicate 6 0xFF) mac 255 target sender
           (icmpv6_message e target sender ICMPV6_NEIGHBOR_ADV 0 ([0x60, 0, 0, 0] @ target @ [NDP_OPT_TGT_LLADDR, 1] @ mac)))"

definition ndp_process_ns :: "mgmt_env \<Rightarrow> nat \<Rightarrow> bytes \<Rightarrow> bytes \<Rightarrow> net_mgmt \<Rightarrow> net_mgmt option" where
  "ndp_process_ns e p body sender s =
     (let target = take 16 (drop 8 body)
      in if length body < 24 \<or> \<not> ndp_for_us (nm_ndp s ! p) target then Some s
         else
           do { mac \<leftarrow> nd_option NDP_OPT_SRC_LLADDR body 24;
                let s = (case mac of None \<Rightarrow> s | Some mac \<Rightarrow> ndp_cache_update e p sender mac s)
                in Some (if \<not> me_pool e then s
                         else let (ok, s) = mgmt_alloc e 86 s
                              in if ok then snd (mgmt_tx e p (neighbor_adv e p target sender s) s) else s) })"

subsection \<open>Received messages\<close>

text \<open>As for ICMP, the length of the frame is cut to 16 bits when the buffer is extended.\<close>

definition icmpv6_alloc :: "mgmt_env \<Rightarrow> nat \<Rightarrow> net_mgmt \<Rightarrow> (bool \<times> net_mgmt) option" where
  "icmpv6_alloc e n s = (let (ok, s) = mgmt_alloc e (n mod 65536) s in if ok \<and> n \<ge> 65536 then None else Some (ok, s))"

definition build_echo6_reply :: "mgmt_env \<Rightarrow> nat \<Rightarrow> bytes \<Rightarrow> bytes \<Rightarrow> bytes \<Rightarrow> net_mgmt \<Rightarrow> (bytes option \<times> net_mgmt) option" where
  "build_echo6_reply e p requester local body s =
     (if \<not> me_pool e then Some (None, s)
      else
        do { (ok, s) \<leftarrow> icmpv6_alloc e (54 + length body) s;
             Some (if ok
                   then Some (ip6_frame (case ndp_look p s requester of Some m \<Rightarrow> m | None \<Rightarrow> replicate 6 0xFF) (ndp_local_mac (nm_ndp s ! p)) 64 local requester
                          (icmpv6_message e local requester ICMPV6_ECHO_REPLY (body ! 1) (drop 4 body)))
                   else None, s) })"

definition set_icmpv6_ring :: "nat \<Rightarrow> ring \<Rightarrow> net_mgmt \<Rightarrow> net_mgmt" where
  "set_icmpv6_ring p r s = s\<lparr>nm_rings := (nm_rings s)\<lparr>r_icmpv6 := (r_icmpv6 (nm_rings s))[p := r]\<rparr>\<rparr>"

definition icmpv6_echo :: "mgmt_env \<Rightarrow> nat \<Rightarrow> bytes \<Rightarrow> bytes \<Rightarrow> net_mgmt \<Rightarrow> net_mgmt option" where
  "icmpv6_echo e p src6 body s =
     do { (f, s) \<leftarrow> build_echo6_reply e p src6 (ndp_local (nm_ndp s ! p)) body s;
          Some (case f of
                  None \<Rightarrow> s
                | Some f \<Rightarrow> mgmt_metrics (\<lambda>mt. mt\<lparr>m_icmp_echo_tx := m_icmp_echo_tx mt + 1\<rparr>) (snd (mgmt_tx e p f s))) }"

text \<open>Putting the addresses back in front of an echo reply always succeeds: they were just taken off.\<close>

definition icmpv6_mgmt_process :: "mgmt_env \<Rightarrow> nat \<Rightarrow> rx_mbuf \<Rightarrow> net_mgmt \<Rightarrow> net_mgmt option" where
  "icmpv6_mgmt_process e p m s =
     (let d = mb_data m
      in if length d < 32 + 8 then Some (mgmt_free s)
         else if p \<ge> length (nm_ndp s) then None
         else
           let src6 = take 16 d; body = drop 32 d; ty = body ! 0
           in if ty = ICMPV6_ECHO_REQUEST then map_option mgmt_free (icmpv6_echo e p src6 body s)
              else if ty = ICMPV6_NEIGHBOR_SOL then map_option mgmt_free (ndp_process_ns e p body src6 s)
              else if ty = ICMPV6_NEIGHBOR_ADV then map_option mgmt_free (ndp_process_na e p body s)
              else if ty = ICMPV6_ECHO_REPLY then
                (case r_icmpv6 (nm_rings s) ! p of
                   None \<Rightarrow> None
                 | Some q \<Rightarrow> Some (mgmt_free (set_icmpv6_ring p (ring_enqueue m (Some q)) s)))
              else Some (mgmt_free s))"

definition icmpv6_tick_one :: "mgmt_env \<Rightarrow> nat \<Rightarrow> rx_mbuf \<Rightarrow> net_mgmt \<Rightarrow> net_mgmt option" where
  "icmpv6_tick_one e p m s =
     (if length (mb_data m) < 32 + 8 then Some (mgmt_free s)
      else if mb_data m ! 32 \<in> {ICMPV6_ECHO_REQUEST, ICMPV6_NEIGHBOR_SOL, ICMPV6_NEIGHBOR_ADV} then icmpv6_mgmt_process e p m s
      else Some (mgmt_free (set_icmpv6_ring p (ring_enqueue m (r_icmpv6 (nm_rings s) ! p)) s)))"

fun each_mbuf :: "(rx_mbuf \<Rightarrow> net_mgmt \<Rightarrow> net_mgmt option) \<Rightarrow> rx_mbuf list \<Rightarrow> net_mgmt \<Rightarrow> net_mgmt option" where
  "each_mbuf f [] s = Some s"
| "each_mbuf f (m # ms) s = do { s \<leftarrow> f m s; each_mbuf f ms s }"

definition icmpv6_tick_port :: "mgmt_env \<Rightarrow> nat \<Rightarrow> net_mgmt \<Rightarrow> net_mgmt option" where
  "icmpv6_tick_port e p s =
     (case r_icmpv6 (nm_rings s) ! p of
        None \<Rightarrow> Some s
      | Some q \<Rightarrow> each_mbuf (icmpv6_tick_one e p) (take 32 q)
                    ((set_icmpv6_ring p (Some (drop 32 q)) s)\<lparr>nm_held := nm_held s + int (length (take 32 q))\<rparr>))"

definition icmpv6_mgmt_tick :: "mgmt_env \<Rightarrow> net_mgmt \<Rightarrow> net_mgmt option" where
  "icmpv6_mgmt_tick e s = for_ports (icmpv6_tick_port e) (mgmt_ports e) s"

definition icmpv6_mgmt_drain :: "nat \<Rightarrow> net_mgmt \<Rightarrow> rx_mbuf option \<times> net_mgmt" where
  "icmpv6_mgmt_drain p s =
     (if p \<ge> TGEN_MAX_PORTS then (None, s)
      else case r_icmpv6 (nm_rings s) ! p of
             None \<Rightarrow> (None, s)
           | Some [] \<Rightarrow> (None, s)
           | Some (m # q) \<Rightarrow> (Some m, (set_icmpv6_ring p (Some q) s)\<lparr>nm_held := nm_held s + 1\<rparr>))"

text \<open>A second set of rings for neighbour discovery exists, with its own input function and tick; no worker calls the input function.\<close>

definition ndp_input :: "rx_mbuf \<Rightarrow> net_mgmt \<Rightarrow> net_mgmt" where
  "ndp_input m s = s\<lparr>nm_ndp_rings := to_ring m (nm_ndp_rings s)\<rparr>"

definition ndp_tick_port :: "mgmt_env \<Rightarrow> nat \<Rightarrow> net_mgmt \<Rightarrow> net_mgmt option" where
  "ndp_tick_port e p s =
     (case nm_ndp_rings s ! p of
        None \<Rightarrow> Some s
      | Some q \<Rightarrow> each_mbuf (icmpv6_mgmt_process e p) (take 32 q)
                    (s\<lparr>nm_ndp_rings := (nm_ndp_rings s)[p := Some (drop 32 q)], nm_held := nm_held s + int (length (take 32 q))\<rparr>))"

definition ndp_mgmt_tick :: "mgmt_env \<Rightarrow> net_mgmt \<Rightarrow> net_mgmt option" where
  "ndp_mgmt_tick e s = for_ports (ndp_tick_port e) (mgmt_ports e) s"

text \<open>One round of the management thread's protocol work, \<^verbatim>\<open>mgmt_loop_run\<close>.\<close>

definition mgmt_protocols :: "mgmt_env \<Rightarrow> net_mgmt \<Rightarrow> net_mgmt option" where
  "mgmt_protocols e s = do { s \<leftarrow> arp_mgmt_tick e s; s \<leftarrow> icmp_mgmt_tick e s; s \<leftarrow> ndp_mgmt_tick e s; icmpv6_mgmt_tick e s }"

subsection \<open>The ping client\<close>

text \<open>The length of the message is computed in 16 bits; a payload for which it wraps around is written beyond the buffer.\<close>

definition ping6_alloc :: "mgmt_env \<Rightarrow> u16 \<Rightarrow> net_mgmt \<Rightarrow> (bool \<times> net_mgmt) option" where
  "ping6_alloc e len s =
     (let n = (54 + unat (8 + len)) mod 65536; (ok, s) = mgmt_alloc e n s in if ok \<and> n < 62 + unat len then None else Some (ok, s))"

definition ping6_frame :: "mgmt_env \<Rightarrow> nat \<Rightarrow> bytes \<Rightarrow> bytes \<Rightarrow> u16 \<Rightarrow> u16 \<Rightarrow> u16 \<Rightarrow> net_mgmt \<Rightarrow> bytes" where
  "ping6_frame e p mac dst ident seqn len s =
     (let n = nm_ndp s ! p; src = ndp_local n
      in ip6_frame mac (ndp_local_mac n) 64 src dst
           (icmpv6_message e src dst ICMPV6_ECHO_REQUEST 0 (bytes16 ident @ bytes16 seqn @ replicate (unat len) 0xAB)))"

partial_function (option) ndp_wait :: "mgmt_env \<Rightarrow> nat \<Rightarrow> bytes \<Rightarrow> u64 \<Rightarrow> net_mgmt \<Rightarrow> net_mgmt option" where
  "ndp_wait e p ip6 deadline s =
     (if fst (mgmt_rdtsc s) \<ge> deadline then Some (snd (mgmt_rdtsc s))
      else Option.bind (icmpv6_mgmt_tick e (snd (mgmt_rdtsc s)))
             (\<lambda>s. if ndp_look p s ip6 \<noteq> None then Some s else Option.bind (me_poll e s) (ndp_wait e p ip6 deadline)))"

partial_function (option) ping6_wait :: "mgmt_env \<Rightarrow> nat \<Rightarrow> u64 \<Rightarrow> net_mgmt \<Rightarrow> (bool \<times> net_mgmt) option" where
  "ping6_wait e p wait_end s =
     (if fst (mgmt_rdtsc s) \<ge> wait_end then Some (False, snd (mgmt_rdtsc s))
      else if fst (icmpv6_mgmt_drain p (snd (mgmt_rdtsc s))) \<noteq> None
      then Some (True, mgmt_free (snd (mgmt_rdtsc (snd (icmpv6_mgmt_drain p (snd (mgmt_rdtsc s)))))))
      else Option.bind (icmpv6_mgmt_tick e (snd (icmpv6_mgmt_drain p (snd (mgmt_rdtsc s)))))
             (\<lambda>s. Option.bind (me_poll e s) (ping6_wait e p wait_end)))"

fun ping6_loop :: "mgmt_env \<Rightarrow> nat \<Rightarrow> bytes \<Rightarrow> bytes \<Rightarrow> u16 \<Rightarrow> u16 \<Rightarrow> u64 \<Rightarrow> nat \<Rightarrow> u16 \<Rightarrow> u32 \<Rightarrow> net_mgmt \<Rightarrow> (u32 \<times> net_mgmt) option" where
  "ping6_loop e p mac dst ident len interval 0 seqn rcvd s = Some (rcvd, s)"
| "ping6_loop e p mac dst ident len interval (Suc n) seqn rcvd s =
     do { (ok, s) \<leftarrow> ping6_alloc e len s;
          if \<not> ok then Some (rcvd, s)
          else
            let f = ping6_frame e p mac dst ident seqn len s; (t0, s) = mgmt_rdtsc s; (nb, s) = mgmt_tx e p f s
            in if \<not> nb then ping6_loop e p mac dst ident len interval n (seqn + 1) rcvd (mgmt_free s)
               else
                 do { (got, s) \<leftarrow> ping6_wait e p (t0 + interval * me_eal_hz e div 1000) s;
                      s \<leftarrow> (if n > 0 then ping_pace e (t0 + interval * me_eal_hz e div 1000) s else Some s);
                      ping6_loop e p mac dst ident len interval n (seqn + 1) (if got then rcvd + 1 else rcvd) s } }"

definition icmpv6_ping_start :: "mgmt_env \<Rightarrow> nat \<Rightarrow> bytes \<Rightarrow> u32 \<Rightarrow> u32 \<Rightarrow> u32 \<Rightarrow> net_mgmt \<Rightarrow> (int \<times> net_mgmt) option" where
  "icmpv6_ping_start e p dst cnt sz interval_ms s =
     (let cnt = (if cnt = 0 then 5 else cnt); sz = (if sz = 0 then 56 else sz); interval_ms = (if interval_ms = 0 then 1000 else interval_ms)
      in do { s \<leftarrow> (if ndp_look p s dst \<noteq> None then Some s
                     else let (now, s) = mgmt_rdtsc (snd (ndp_solicit e p dst s)) in ndp_wait e p dst (now + 3 * me_eal_hz e) s);
              case ndp_look p s dst of
                None \<Rightarrow> Some (- EHOSTUNREACH, s)
              | Some mac \<Rightarrow>
                  if \<not> me_pool e then Some (- ENOMEM, s)
                  else
                    let (now, s) = mgmt_rdtsc s
                    in do { (rcvd, s) \<leftarrow> ping6_loop e p mac dst (ucast now) (ucast sz) (ucast interval_ms) (unat cnt) 0 0 s;
                            Some (sint rcvd, s) } })"

subsection \<open>The cache stays well formed\<close>

definition ndp_port_ok :: "ndp_port \<Rightarrow> bool" where
  "ndp_port_ok n \<longleftrightarrow> length (ndp_entries n) = TGEN_NDP_CACHE_SZ \<and> ndp_count n \<le> TGEN_NDP_CACHE_SZ \<and>
     distinct (map ne_ip6 (take (ndp_count n) (ndp_entries n))) \<and>
     length (ndp_local_ip6 n) = 16 \<and> length (ndp_local_ip6_ll n) = 16 \<and> length (ndp_local_mac n) = 6"

definition ndp_ok :: "net_mgmt \<Rightarrow> bool" where
  "ndp_ok s \<longleftrightarrow> length (nm_ndp s) = TGEN_MAX_PORTS \<and> list_all ndp_port_ok (nm_ndp s)"

lemma ndp_okD: "ndp_ok s \<Longrightarrow> p < TGEN_MAX_PORTS \<Longrightarrow> p < length (nm_ndp s) \<and> ndp_port_ok (nm_ndp s ! p)"
  by (auto simp: ndp_ok_def list_all_length)

lemma ndp_local_length: "ndp_port_ok n \<Longrightarrow> length (ndp_local n) = 16"
  by (simp add: ndp_local_def ndp_port_ok_def)

lemma ndp_find_iff:
  assumes "ndp_port_ok n"
  shows "ndp_find n a = Some i \<longleftrightarrow> i < ndp_count n \<and> ne_ip6 (ndp_entries n ! i) = a"
proof -
  have inj: "i = j" if "i < ndp_count n" "j < ndp_count n" "ne_ip6 (ndp_entries n ! i) = ne_ip6 (ndp_entries n ! j)" for i j
    using assms that nth_eq_iff_index_eq [of "map ne_ip6 (take (ndp_count n) (ndp_entries n))" i j] by (simp add: ndp_port_ok_def)
  have some: "i < ndp_count n \<and> ne_ip6 (ndp_entries n ! i) = a" if "ndp_find n a = Some i" for i
    using that by (auto simp: ndp_find_def find_Some_iff)
  have "ndp_find n a = Some i" if "i < ndp_count n \<and> ne_ip6 (ndp_entries n ! i) = a"
  proof (cases "ndp_find n a")
    case None
    then show ?thesis using that by (auto simp: ndp_find_def find_None_iff)
  next
    case (Some j)
    then show ?thesis using some [OF Some] that inj [of i j] by simp
  qed
  with some show ?thesis by blast
qed

lemma ndp_find_None: "ndp_find n a = None \<longleftrightarrow> (\<forall>i<ndp_count n. ne_ip6 (ndp_entries n ! i) \<noteq> a)"
  by (auto simp: ndp_find_def find_None_iff)

lemma ndp_look_eq:
  assumes "ndp_ok s" "p < TGEN_MAX_PORTS"
  shows "ndp_look p s a = (case ndp_find (nm_ndp s ! p) a of None \<Rightarrow> None
    | Some i \<Rightarrow> let x = ndp_entries (nm_ndp s ! p) ! i in if ne_state x = NDP_STATE_REACHABLE then Some (ne_mac x) else None)"
proof -
  let ?n = "nm_ndp s ! p"
  let ?P = "\<lambda>x. ne_state x = NDP_STATE_REACHABLE \<and> ne_ip6 x = a"
  have ok: "ndp_port_ok ?n" using ndp_okD [OF assms] by simp
  then have len: "length (take (ndp_count ?n) (ndp_entries ?n)) = ndp_count ?n" by (simp add: ndp_port_ok_def)
  have u: "unat (word_of_nat p :: u16) = p" using assms(2) by (simp add: TGEN_MAX_PORTS_def unat_of_nat take_bit_nat_eq_self)
  have l: "ndp_look p s a = map_option ne_mac (find ?P (take (ndp_count ?n) (ndp_entries ?n)))"
    using assms(2) by (simp add: ndp_look_def ndp_lookup_def u Let_def)
  show ?thesis
  proof (cases "ndp_find ?n a")
    case None
    then have "find ?P (take (ndp_count ?n) (ndp_entries ?n)) = None" using len by (auto simp: ndp_find_None find_None_iff in_set_conv_nth)
    then show ?thesis by (simp add: l None)
  next
    case (Some i)
    then have i: "i < ndp_count ?n" "ne_ip6 (ndp_entries ?n ! i) = a" using ndp_find_iff [OF ok, of a i] by simp_all
    have i3: "j = i" if "j < ndp_count ?n" "ne_ip6 (ndp_entries ?n ! j) = a" for j using ndp_find_iff [OF ok, of a j] that Some by simp
    have "find ?P (take (ndp_count ?n) (ndp_entries ?n)) =
      (if ne_state (ndp_entries ?n ! i) = NDP_STATE_REACHABLE then Some (ndp_entries ?n ! i) else None)"
    proof (cases "ne_state (ndp_entries ?n ! i) = NDP_STATE_REACHABLE")
      case True
      have "\<not> ?P (ndp_entries ?n ! j)" if "j < i" for j using i3 [of j] that i(1) by auto
      then show ?thesis using True i len by (simp add: find_Some_iff) (intro exI [of _ i], simp)
    next
      case False
      have "\<not> ?P x" if x: "x \<in> set (take (ndp_count ?n) (ndp_entries ?n))" for x
      proof -
        obtain j where "j < ndp_count ?n" "x = ndp_entries ?n ! j" using x len by (auto simp: in_set_conv_nth)
        then show ?thesis using i3 [of j] False by auto
      qed
      then show ?thesis using False by (simp add: find_None_iff)
    qed
    then show ?thesis by (simp add: l Some)
  qed
qed

lemma ndp_set_frames [simp]:
  "length (ndp_entries (ndp_set i f n)) = length (ndp_entries n)" "ndp_count (ndp_set i f n) = ndp_count n" "ndp_local_ip6 (ndp_set i f n) = ndp_local_ip6 n"
  "ndp_local_ip6_ll (ndp_set i f n) = ndp_local_ip6_ll n" "ndp_local_mac (ndp_set i f n) = ndp_local_mac n" "ndp_has_ip6 (ndp_set i f n) = ndp_has_ip6 n"
  "i < length (ndp_entries n) \<Longrightarrow> ndp_entries (ndp_set i f n) ! j = (if j = i then f (ndp_entries n ! i) else ndp_entries n ! j)"
  by (simp_all add: ndp_set_def nth_list_update)

text \<open>Both ways of entering an address, in one: an entry found is changed but keeps its address, a missing one is appended.\<close>

definition ndp_enter :: "bytes \<Rightarrow> (ndp_entry \<Rightarrow> ndp_entry) \<Rightarrow> (ndp_entry \<Rightarrow> ndp_entry) \<Rightarrow> ndp_port \<Rightarrow> ndp_port" where
  "ndp_enter a f g n =
     (case ndp_find n a of
        Some i \<Rightarrow> ndp_set i f n
      | None \<Rightarrow> if ndp_count n < TGEN_NDP_CACHE_SZ then (ndp_set (ndp_count n) g n)\<lparr>ndp_count := ndp_count n + 1\<rparr> else n)"

lemma enter_eqs:
  "ndp_store a mac ex = ndp_enter a (\<lambda>x. x\<lparr>ne_mac := mac, ne_state := NDP_STATE_REACHABLE, ne_expire_tsc := ex, ne_fail_count := 0\<rparr>)
     (\<lambda>_. \<lparr>ne_ip6 = a, ne_mac = mac, ne_state = NDP_STATE_REACHABLE, ne_expire_tsc = ex, ne_fail_count = 0\<rparr>)"
  "ndp_pending a = ndp_enter a (\<lambda>x. if ne_state x \<noteq> NDP_STATE_REACHABLE then x\<lparr>ne_state := NDP_STATE_PENDING, ne_fail_count := 0\<rparr> else x)
     (\<lambda>x. x\<lparr>ne_ip6 := a, ne_mac := replicate 6 0, ne_state := NDP_STATE_PENDING, ne_fail_count := 0\<rparr>)"
  by (simp_all add: fun_eq_iff ndp_store_def ndp_pending_def ndp_enter_def split: option.split)

definition ndp_room :: "ndp_port \<Rightarrow> bytes \<Rightarrow> bool" where
  "ndp_room n a \<longleftrightarrow> ndp_find n a \<noteq> None \<or> ndp_count n < TGEN_NDP_CACHE_SZ"

lemma enter_frames [simp]:
  "ndp_local_ip6 (ndp_enter a f g n) = ndp_local_ip6 n" "ndp_local_ip6_ll (ndp_enter a f g n) = ndp_local_ip6_ll n"
  "ndp_local_mac (ndp_enter a f g n) = ndp_local_mac n" "ndp_has_ip6 (ndp_enter a f g n) = ndp_has_ip6 n"
  by (simp_all add: ndp_enter_def split: option.split)

lemma enter_ok:
  assumes ok: "ndp_port_ok n" and f: "\<And>x. ne_ip6 (f x) = ne_ip6 x" and g: "\<And>x. ne_ip6 (g x) = a"
  shows "ndp_port_ok (ndp_enter a f g n)"
    "ndp_room n a \<Longrightarrow> \<exists>i. ndp_find (ndp_enter a f g n) a = Some i \<and> ndp_entries (ndp_enter a f g n) ! i = (if ndp_find n a = None then g else f) (ndp_entries n ! i)"
    "b \<noteq> a \<Longrightarrow> ndp_find (ndp_enter a f g n) b = ndp_find n b"
    "b \<noteq> a \<Longrightarrow> ndp_find n b = Some j \<Longrightarrow> ndp_entries (ndp_enter a f g n) ! j = ndp_entries n ! j"
proof -
  let ?n = "ndp_enter a f g n"
  have len: "length (ndp_entries n) = TGEN_NDP_CACHE_SZ" "ndp_count n \<le> TGEN_NDP_CACHE_SZ" using ok by (simp_all add: ndp_port_ok_def)
  note s = ok [unfolded ndp_port_ok_def] ndp_find_iff [OF ok] ndp_find_None
  show n: "ndp_port_ok ?n"
  proof (cases "ndp_find n a")
    case (Some i)
    have "?n = ndp_set i f n" using Some by (simp add: ndp_enter_def)
    with Some have i: "i < ndp_count n" "i < length (ndp_entries n)" "?n = ndp_set i f n" using s(2) [of a i] len by auto
    then have "map ne_ip6 (take (ndp_count ?n) (ndp_entries ?n)) = map ne_ip6 (take (ndp_count n) (ndp_entries n))" using len
      by (intro nth_equalityI) (simp_all add: f)
    then show ?thesis using i s(1) by (simp add: ndp_port_ok_def)
  next
    case None
    show ?thesis
    proof (cases "ndp_count n < TGEN_NDP_CACHE_SZ")
      case True
      with None have e: "?n = (ndp_set (ndp_count n) g n)\<lparr>ndp_count := ndp_count n + 1\<rparr>" by (simp add: ndp_enter_def)
      have "map ne_ip6 (take (ndp_count ?n) (ndp_entries ?n)) = map ne_ip6 (take (ndp_count n) (ndp_entries n)) @ [a]" using len True
        by (intro nth_equalityI) (auto simp: e g nth_append less_Suc_eq)
      moreover have "a \<notin> set (map ne_ip6 (take (ndp_count n) (ndp_entries n)))" using None len by (fastforce simp: ndp_find_None in_set_conv_nth)
      ultimately have "distinct (map ne_ip6 (take (ndp_count ?n) (ndp_entries ?n)))" using s(1) by simp
      then show ?thesis using e s(1) True by (simp add: ndp_port_ok_def)
    next
      case False
      with None ok show ?thesis by (simp add: ndp_enter_def)
    qed
  qed
  show "\<exists>i. ndp_find ?n a = Some i \<and> ndp_entries ?n ! i = (if ndp_find n a = None then g else f) (ndp_entries n ! i)" if "ndp_room n a"
  proof (cases "ndp_find n a")
    case (Some i)
    have "?n = ndp_set i f n" using Some by (simp add: ndp_enter_def)
    with Some have "i < ndp_count n" "i < length (ndp_entries n)" "?n = ndp_set i f n" "ne_ip6 (ndp_entries n ! i) = a" using s(2) [of a i] len by auto
    then show ?thesis using Some ndp_find_iff [OF n, of a i] by (simp add: f)
  next
    case None
    then have "?n = (ndp_set (ndp_count n) g n)\<lparr>ndp_count := ndp_count n + 1\<rparr>" "ndp_count n < length (ndp_entries n)"
      using that len by (auto simp: ndp_enter_def ndp_room_def)
    then show ?thesis using None ndp_find_iff [OF n, of a "ndp_count n"] by (simp add: g)
  qed
  have same: "(ndp_find ?n b = Some j \<longleftrightarrow> ndp_find n b = Some j) \<and> (ndp_find n b = Some j \<longrightarrow> ndp_entries ?n ! j = ndp_entries n ! j)" if "b \<noteq> a" for j
  proof (cases "ndp_find n a")
    case (Some i)
    then have "?n = ndp_set i f n" "i < length (ndp_entries n)" "ne_ip6 (ndp_entries n ! i) = a" using s(2) [of a i] len by (simp_all add: ndp_enter_def)
    then show ?thesis using that unfolding ndp_find_iff [OF n] s(2) by (auto simp: f)
  next
    case None
    show ?thesis
    proof (cases "ndp_count n < TGEN_NDP_CACHE_SZ")
      case True
      with None have "?n = (ndp_set (ndp_count n) g n)\<lparr>ndp_count := ndp_count n + 1\<rparr>" "ndp_count n < length (ndp_entries n)" using len by (simp_all add: ndp_enter_def)
      then show ?thesis using that unfolding ndp_find_iff [OF n] s(2) by (auto simp: g less_Suc_eq)
    next
      case False
      with None have "?n = n" by (simp add: ndp_enter_def)
      then show ?thesis by simp
    qed
  qed
  show "b \<noteq> a \<Longrightarrow> ndp_find ?n b = ndp_find n b" using same by (cases "ndp_find n b"; cases "ndp_find ?n b") auto
  show "b \<noteq> a \<Longrightarrow> ndp_find n b = Some j \<Longrightarrow> ndp_entries ?n ! j = ndp_entries n ! j" using same by blast
qed

lemma enter_found:
  assumes "ndp_port_ok n" "\<And>x. ne_ip6 (f x) = ne_ip6 x" "\<And>x. ne_ip6 (g x) = a" "ndp_room n a"
  shows "ndp_find (ndp_enter a f g n) a \<noteq> None"
  using enter_ok(2) [where f = f and g = g, OF assms] by auto

lemma upd_ndp_frames [simp]:
  "length (nm_ndp (upd_ndp p f s)) = length (nm_ndp s)" "nm_wire (upd_ndp p f s) = nm_wire s" "nm_rings (upd_ndp p f s) = nm_rings s"
  "p < length (nm_ndp s) \<Longrightarrow> nm_ndp (upd_ndp p f s) ! q = (if q = p then f (nm_ndp s ! p) else nm_ndp s ! q)"
  by (simp_all add: upd_ndp_def nth_list_update)

lemma upd_ndp_ok:
  assumes "ndp_ok s" "p < TGEN_MAX_PORTS" "ndp_port_ok (f (nm_ndp s ! p))"
  shows "ndp_ok (upd_ndp p f s)"
  using assms by (auto simp: ndp_ok_def list_all_length)

lemma ndp_ok_cong: "nm_ndp s' = nm_ndp s \<Longrightarrow> ndp_ok s' = ndp_ok s"
  by (simp add: ndp_ok_def)

lemma cache_update_look:
  assumes "ndp_ok s" "p < TGEN_MAX_PORTS"
  shows "ndp_ok (ndp_cache_update e p a mac s)" "nm_wire (ndp_cache_update e p a mac s) = nm_wire s" "nm_rings (ndp_cache_update e p a mac s) = nm_rings s"
    "ndp_look p (ndp_cache_update e p a mac s) b = (if b = a \<and> ndp_room (nm_ndp s ! p) a then Some mac else ndp_look p s b)"
    "ndp_local_mac (nm_ndp (ndp_cache_update e p a mac s) ! p) = ndp_local_mac (nm_ndp s ! p)"
proof -
  note k = ndp_okD [OF assms, THEN conjunct1] ndp_okD [OF assms, THEN conjunct2]
  let ?s = "ndp_cache_update e p a mac s"
  have "ndp_ok ?s \<and> nm_wire ?s = nm_wire s \<and> nm_rings ?s = nm_rings s \<and> ndp_look p ?s b = (if b = a \<and> ndp_room (nm_ndp s ! p) a then Some mac else ndp_look p s b) \<and>
    ndp_local_mac (nm_ndp ?s ! p) = ndp_local_mac (nm_ndp s ! p)"
  proof (cases "ndp_room (nm_ndp s ! p) a")
    case False
    then have "?s = s" by (auto simp: ndp_cache_update_def ndp_room_def)
    then show ?thesis using False assms(1) by simp
  next
    case True
    define t where "t = snd (mgmt_rdtsc s)"
    define h where "h = ndp_store a mac (fst (mgmt_rdtsc s) + me_tsc_hz e * NDP_CACHE_TTL_S)"
    have t: "nm_ndp t = nm_ndp s" "nm_wire t = nm_wire s" "nm_rings t = nm_rings s" by (simp_all add: t_def)
    have s: "?s = upd_ndp p h t" using True by (auto simp: ndp_cache_update_def ndp_room_def h_def t_def case_prod_beta)
    define ex where "ex = fst (mgmt_rdtsc s) + me_tsc_hz e * NDP_CACHE_TTL_S"
    define F where "F = (\<lambda>x :: ndp_entry. x\<lparr>ne_mac := mac, ne_state := NDP_STATE_REACHABLE, ne_expire_tsc := ex, ne_fail_count := 0\<rparr>)"
    define G where "G = (\<lambda>x :: ndp_entry. \<lparr>ne_ip6 = a, ne_mac = mac, ne_state = NDP_STATE_REACHABLE, ne_expire_tsc = ex, ne_fail_count = 0\<rparr>)"
    have en: "h = ndp_enter a F G" unfolding h_def F_def G_def ex_def by (rule enter_eqs(1))
    have FG: "ne_ip6 (F x) = ne_ip6 x" "ne_state (F x) = NDP_STATE_REACHABLE" "ne_mac (F x) = mac" "ne_ip6 (G x) = a" "ne_state (G x) = NDP_STATE_REACHABLE"
      "ne_mac (G x) = mac" for x by (simp_all add: F_def G_def)
    have ok: "ndp_port_ok (h (nm_ndp s ! p))" unfolding en using k(2) by (rule enter_ok(1)) (simp_all add: FG)
    then have ok': "ndp_ok ?s" unfolding s using assms t by (intro upd_ndp_ok) (simp_all add: ndp_ok_cong [OF t(1)])
    have "\<exists>i. ndp_find (ndp_enter a F G (nm_ndp s ! p)) a = Some i \<and>
        ndp_entries (ndp_enter a F G (nm_ndp s ! p)) ! i = (if ndp_find (nm_ndp s ! p) a = None then G else F) (ndp_entries (nm_ndp s ! p) ! i)"
      by (rule enter_ok(2) [OF k(2) _ _ True]) (simp_all add: FG)
    then obtain i where i: "ndp_find (h (nm_ndp s ! p)) a = Some i" "ne_state (ndp_entries (h (nm_ndp s ! p)) ! i) = NDP_STATE_REACHABLE"
      "ne_mac (ndp_entries (h (nm_ndp s ! p)) ! i) = mac"
      unfolding en by (auto simp: FG split: if_splits)
    have "ndp_look p ?s b = ndp_look p s b" if "b \<noteq> a"
    proof -
      have "ndp_find (h (nm_ndp s ! p)) b = ndp_find (nm_ndp s ! p) b" unfolding en by (rule enter_ok(3) [OF k(2) _ _ that]) (simp_all add: FG)
      moreover have "ndp_find (nm_ndp s ! p) b = Some j \<Longrightarrow> ndp_entries (h (nm_ndp s ! p)) ! j = ndp_entries (nm_ndp s ! p) ! j" for j
        unfolding en by (rule enter_ok(4) [OF k(2) _ _ that]) (simp_all add: FG)
      ultimately show ?thesis using k(1) t unfolding ndp_look_eq [OF ok' assms(2)] ndp_look_eq [OF assms] by (simp add: s Let_def split: option.split)
    qed
    moreover have "ndp_look p ?s a = Some mac" using i k(1) t unfolding ndp_look_eq [OF ok' assms(2)] by (simp add: s)
    moreover have "ndp_local_mac (nm_ndp ?s ! p) = ndp_local_mac (nm_ndp s ! p)" using k(1) t by (simp add: s en)
    ultimately show ?thesis using True ok' t by (simp add: s)
  qed
  then show "ndp_ok ?s" "nm_wire ?s = nm_wire s" "nm_rings ?s = nm_rings s" "ndp_look p ?s b = (if b = a \<and> ndp_room (nm_ndp s ! p) a then Some mac else ndp_look p s b)"
    "ndp_local_mac (nm_ndp ?s ! p) = ndp_local_mac (nm_ndp s ! p)" by simp_all
qed

interpretation ndp_cache: neighbour_cache "\<lambda>s. ndp_ok s \<and> p < TGEN_MAX_PORTS" "ndp_look p" "\<lambda>ip6 mac s. Some (ndp_cache_update e p ip6 mac s)"
  "\<lambda>s. ndp_room (nm_ndp s ! p)" for e p
proof (unfold_locales, goal_cases)
  case (1 s a m)
  then show ?case using cache_update_look [of s p e a m] by simp
next
  case (2 s a)
  then show ?case by (auto simp: ndp_look_eq ndp_room_def split: option.splits)
qed

subsection \<open>The search for an option ends\<close>

text \<open>
  The search for an option in a neighbour-discovery message ends for every message of at most 63495 bytes: up to that length the
  16-bit offset cannot wrap around.
\<close>

lemma nd_option_ends: "length body \<le> 63495 \<Longrightarrow> \<exists>r. nd_option ty body off = Some r"
proof (induction "length body - unat off" arbitrary: off rule: less_induct)
  case less
  show ?case
  proof (cases "unat off + 8 > length body \<or> body ! (unat off + 1) = 0 \<or> body ! unat off = ty")
    case True
    then show ?thesis by (subst nd_option.simps) auto
  next
    case False
    define l where "l = body ! (unat off + 1)"
    have l: "l \<noteq> 0" "unat off + 8 \<le> length body" using False by (simp_all add: l_def)
    have "unat (ucast l :: u16) = unat l" "unat l < 256" using unat_lt_u8 [of l] by (simp_all add: unsigned_ucast_eq take_bit_nat_eq_self)
    then have m: "unat (ucast l * 8 :: u16) = unat l * 8" by (simp add: unat_word_ariths)
    have "unat (off + ucast l * 8) = unat off + unat l * 8" using less.prems l(2) \<open>unat l < 256\<close> by (simp add: unat_word_ariths(1) m)
    moreover have "0 < unat l" using l(1) by (simp add: unat_gt_0)
    ultimately have "length body - unat (off + ucast l * 8) < length body - unat off" using l(2) by simp
    from less.hyps [OF this less.prems] show ?thesis using False by (subst nd_option.simps) (simp add: l_def)
  qed
qed

subsection \<open>Neighbour discovery between two hosts\<close>

lemma icmpv6_message_bytes:
  "length (icmpv6_message e src dst ty code rest) = 4 + length rest" "icmpv6_message e src dst ty code rest ! 0 = ty"
  "drop 4 (icmpv6_message e src dst ty code rest) = rest" "4 \<le> n \<Longrightarrow> drop n (icmpv6_message e src dst ty code rest) = drop (n - 4) rest"
proof -
  have m: "icmpv6_message e src dst ty code rest = [ty, code, ucast (icmpv6_checksum e src dst ([ty, code, 0, 0] @ rest)),
    ucast (drop_bit 8 (icmpv6_checksum e src dst ([ty, code, 0, 0] @ rest)))] @ rest" by (simp add: icmpv6_message_def le16_def)
  show "length (icmpv6_message e src dst ty code rest) = 4 + length rest" "icmpv6_message e src dst ty code rest ! 0 = ty"
    "drop 4 (icmpv6_message e src dst ty code rest) = rest" by (simp_all add: m)
  then show "4 \<le> n \<Longrightarrow> drop n (icmpv6_message e src dst ty code rest) = drop (n - 4) rest"
    using drop_drop [of "n - 4" 4 "icmpv6_message e src dst ty code rest"] by simp
qed

text \<open>A worker hands an ICMPv6 message over with the addresses of its packet in front.\<close>

lemma ip6_frame_received:
  assumes "mb_data m = ip6_frame dmac smac hop src dst msg @ pad" "length dmac = 6" "length smac = 6" "length src = 16" "length dst = 16" "length msg < 65536"
    "\<not> mb_no_buf m" "ipv6_local w m = None \<or> ipv6_local w m = Some dst \<or> dst ! 0 = 0xFF"
  shows "\<exists>m'. classify_and_process w m r x = Some (r\<lparr>r_icmpv6 := to_ring m' (r_icmpv6 r)\<rparr>, x\<lparr>saved_src6 := src, saved_dst6 := dst\<rparr>) \<and>
    mb_data m' = src @ dst @ msg \<and> mb_port m' = mb_port m"
proof -
  define L :: u16 where "L = word_of_nat (length msg)"
  have L: "unat L = length msg" using assms(6) by (simp add: L_def unat_of_nat take_bit_nat_eq_self)
  have v: "ETH_IPV6 \<noteq> ETH_VLAN" "ETH_IPV6 \<noteq> ETH_ARP" "ETH_IPV6 \<noteq> ETH_IPV4" by (simp_all add: ETH_IPV6_def ETH_VLAN_def ETH_ARP_def ETH_IPV4_def)
  define hdr where "hdr = bytes32 0x60000000 @ bytes16 L @ [58, hop] @ src @ dst"
  have hl: "length hdr = 40" using assms(4,5) by (simp add: hdr_def bytes32_def bytes16_def)
  have d: "mb_data m = dmac @ smac @ bytes16 ETH_IPV6 @ hdr @ msg @ pad" using assms(1) by (simp add: ip6_frame_def hdr_def L_def)
  have et: "etype_at 12 m = ETH_IPV6" using assms(2,3) be16_bytes16 [of ETH_IPV6] by (simp add: etype_at_def mb_mem_def d nth_append bytes16_def)
  let ?m = "m\<lparr>mb_data := hdr @ msg @ pad, mb_headroom := mb_headroom m + 14\<rparr>"
  have p: "eth_pop_hdr m = (ETH_IPV6, ?m)" using et v(1) assms(2,3) by (simp add: eth_pop_hdr_def pktmbuf_adj_def d bytes16_def Let_def)
  have c: "classify_and_process w m r x = ipv6_input w ?m r x"
    using et v p assms(2,3,7) by (simp add: classify_and_process_def ether_type_def) (simp add: d)
  have sv: "ipv6_save ?m x = x\<lparr>saved_src6 := src, saved_dst6 := dst\<rparr>" using hl assms(4,5) by (simp add: ipv6_save_def hdr_def bytes32_def bytes16_def)
  let ?m1 = "?m\<lparr>mb_hash_usr := 6\<rparr>"
  have fields: "drop_bit 28 (be32_at (mb_data ?m1) 0) = 6" "be16 (mb_data ?m1 ! 4) (mb_data ?m1 ! 5) = L" "take 16 (drop 24 (mb_data ?m1)) = dst"
    "mb_data ?m1 ! 6 = 58" "mb_data ?m1 ! 24 = dst ! 0"
    using assms(4,5) be16_bytes16 [of L] by (simp_all add: hdr_def bytes32_def bytes16_def be32_at_def be32_def nth_append)
  have lo: "ipv6_local w ?m = ipv6_local w m" by (simp add: ipv6_local_def Let_def)
  define m2 where "m2 = ?m1\<lparr>mb_data := msg @ pad, mb_headroom := mb_headroom m + 54\<rparr>"
  have "pktmbuf_adj 40 ?m1 = Some m2" using hl by (simp add: pktmbuf_adj_def m2_def)
  then have ck: "ipv6_check w ?m = Pass 58 (pktmbuf_trim_to (length msg) m2)"
    using fields hl L assms(8) unfolding ipv6_check_def lo ipv6_validate_and_strip_def Let_def by auto
  define m3 where "m3 = pktmbuf_trim_to (length msg) m2"
  have m3: "mb_data m3 = msg" "mb_headroom m3 = mb_headroom m + 54" "mb_port m3 = mb_port m" by (simp_all add: m3_def pktmbuf_trim_to_def m2_def)
  have "classify_and_process w m r x = Some (icmpv6_input m3 r (x\<lparr>saved_src6 := src, saved_dst6 := dst\<rparr>), x\<lparr>saved_src6 := src, saved_dst6 := dst\<rparr>)"
    unfolding c ipv6_input_def ck sv by (simp add: count_verdict_def m3_def)
  then show ?thesis using m3
    by (intro exI [of _ "m3\<lparr>mb_data := src @ dst @ msg, mb_headroom := mb_headroom m3 - 32\<rparr>"]) (simp add: icmpv6_input_def)
qed

text \<open>The option that both messages carry is found.\<close>

lemma nd_option_found:
  assumes "body = icmpv6_message e src dst mt 0 (flags @ target @ [ty, 1] @ mac)" "length flags = 4" "length target = 16" "length mac = 6"
  shows "nd_option ty body 24 = Some (Some mac)" "take 16 (drop 8 body) = target" "length body = 32"
proof -
  show l: "length body = 32" using assms by (simp add: icmpv6_message_bytes)
  have d: "drop 24 body = [ty, 1] @ mac" "drop 8 body = target @ [ty, 1] @ mac" using assms by (simp_all add: icmpv6_message_bytes(4))
  show "take 16 (drop 8 body) = target" using d(2) assms(3) by simp
  have "body ! 24 = ty" "body ! 25 = 1" using arg_cong [OF d(1), of "\<lambda>x. x ! 0"] arg_cong [OF d(1), of "\<lambda>x. x ! 1"] l by simp_all
  moreover have "drop 26 body = mac" using drop_drop [of 2 24 body] d(1) by simp
  ultimately show "nd_option ty body 24 = Some (Some mac)" using l assms(4) by (subst nd_option.simps) simp
qed

lemma solicit_ok:
  assumes "ndp_ok s" "p < TGEN_MAX_PORTS" "reliable e" "86 \<le> me_tailroom e" "ndp_room (nm_ndp s ! p) a"
  shows "\<exists>s'. ndp_solicit e p a s = (0, s') \<and> ndp_ok s' \<and> nm_wire s' = nm_wire s @ [(p, pc_mgmt_tx_q (me_port_caps e p), neighbor_sol e (nm_ndp s ! p) a)] \<and>
    ndp_room (nm_ndp s' ! p) a"
proof -
  note k = ndp_okD [OF assms(1,2), THEN conjunct1] ndp_okD [OF assms(1,2), THEN conjunct2]
  define t where "t = upd_ndp p (ndp_pending a) (snd (mgmt_alloc e 86 s))"
  define f where "f = neighbor_sol e (nm_ndp s ! p) a"
  define s' where "s' = snd (mgmt_tx e p f t)"
  note io = reliable_io [OF assms(3,4)]
  have ok: "ndp_port_ok (ndp_pending a (nm_ndp s ! p))" unfolding enter_eqs(2) by (rule enter_ok(1) [OF k(2)]) simp_all
  have t: "ndp_ok t" unfolding t_def using assms(1,2) ok by (intro upd_ndp_ok) (simp_all add: ndp_ok_cong [OF mgmt_frames(6)])
  have tp: "nm_ndp t ! p = ndp_pending a (nm_ndp s ! p)" using k(1) by (simp add: t_def)
  have "ndp_find (ndp_pending a (nm_ndp s ! p)) a \<noteq> None" unfolding enter_eqs(2) by (rule enter_found [OF k(2) _ _ assms(5)]) simp_all
  then have "ndp_room (nm_ndp t ! p) a" by (auto simp: tp ndp_room_def)
  moreover have "ndp_solicit e p a s = (0, s')" using io(1,3) assms(3) by (simp add: ndp_solicit_def reliable_def case_prod_beta t_def f_def s'_def Let_def)
  moreover have "nm_wire s' = nm_wire s @ [(p, pc_mgmt_tx_q (me_port_caps e p), f)]" using io(4) by (simp add: s'_def t_def)
  ultimately show ?thesis using t by (simp add: f_def) (simp add: s'_def ndp_ok_cong [OF mgmt_frames(7)])
qed

text \<open>What the solicited host does.\<close>

lemma process_ns_ok:
  assumes "ndp_ok s" "p < TGEN_MAX_PORTS" "reliable e" "86 \<le> me_tailroom e" "ndp_for_us (nm_ndp s ! p) target" "length target = 16" "length mac = 6"
    "body = icmpv6_message e0 src dst ICMPV6_NEIGHBOR_SOL 0 ([0, 0, 0, 0] @ target @ [NDP_OPT_SRC_LLADDR, 1] @ mac)" "ndp_room (nm_ndp s ! p) sender"
  shows "\<exists>s'. ndp_process_ns e p body sender s = Some s' \<and> ndp_look p s' sender = Some mac \<and>
    nm_wire s' = nm_wire s @ [(p, pc_mgmt_tx_q (me_port_caps e p), ip6_frame mac (ndp_local_mac (nm_ndp s ! p)) 255 target sender
      (icmpv6_message e target sender ICMPV6_NEIGHBOR_ADV 0 ([0x60, 0, 0, 0] @ target @ [NDP_OPT_TGT_LLADDR, 1] @ ndp_local_mac (nm_ndp s ! p))))]"
proof -
  note o = nd_option_found [OF assms(8) _ assms(6,7)]
  define t where "t = ndp_cache_update e p sender mac s"
  note t = cache_update_look [OF assms(1,2), of e sender mac, folded t_def]
  define u where "u = snd (mgmt_alloc e 86 t)"
  note io = reliable_io [OF assms(3,4)]
  have lk: "ndp_look p t sender = Some mac" using t(4) [of sender] assms(9) by simp
  have u: "nm_ndp u = nm_ndp t" "ndp_look p u sender = Some mac" "nm_wire u = nm_wire s" using lk t(2) by (simp_all add: u_def ndp_look_def)
  have "ndp_process_ns e p body sender s = Some (snd (mgmt_tx e p (neighbor_adv e p target sender u) u))"
    using o io(1) [of t] assms(3,5) by (simp add: ndp_process_ns_def case_prod_beta reliable_def t_def u_def Let_def)
  moreover have "ndp_look p (snd (mgmt_tx e p (neighbor_adv e p target sender u) u)) sender = Some mac" using u(2) by (simp add: ndp_look_def)
  ultimately show ?thesis using io(4) u t(5) by (simp add: neighbor_adv_def Let_def)
qed

text \<open>
  C31. IPv6 neighbour discovery works end to end: host A solicits an address of host B; a worker of B passes the message
  on, B learns A's binding and advertises its own; a worker of A passes the advertisement on, and A then knows B's hardware address.
\<close>

theorem ndp_resolves:
  assumes "ndp_ok A" "ndp_ok B" "pa < TGEN_MAX_PORTS" "pb < TGEN_MAX_PORTS" "reliable ea" "86 \<le> me_tailroom ea" "reliable eb" "86 \<le> me_tailroom eb"
    "ndp_for_us (nm_ndp B ! pb) target" "ndp_room (nm_ndp A ! pa) target" "ndp_room (nm_ndp B ! pb) (ndp_local (nm_ndp A ! pa))"
    "e_ndp wa ! pa = nm_ndp A ! pa" "\<And>p f. mb_data (rx p f) = f @ pad p f" "\<And>p f. \<not> mb_no_buf (rx p f)" "\<And>p f. p < TGEN_MAX_PORTS \<Longrightarrow> unat (mb_port (rx p f)) = p"
  shows "\<exists>req A1 m x' B1 rep m' y' A2.
    ndp_solicit ea pa target A = (0, A1) \<and> nm_wire A1 = nm_wire A @ [(pa, pc_mgmt_tx_q (me_port_caps ea pa), req)] \<and>
    classify_and_process wb (rx pb req) r x = Some (r\<lparr>r_icmpv6 := to_ring m (r_icmpv6 r)\<rparr>, x') \<and>
    icmpv6_mgmt_process eb pb m B = Some B1 \<and> nm_wire B1 = nm_wire B @ [(pb, pc_mgmt_tx_q (me_port_caps eb pb), rep)] \<and>
    ndp_look pb B1 (ndp_local (nm_ndp A ! pa)) = Some (ndp_local_mac (nm_ndp A ! pa)) \<and>
    classify_and_process wa (rx pa rep) r' y = Some (r'\<lparr>r_icmpv6 := to_ring m' (r_icmpv6 r')\<rparr>, y') \<and>
    icmpv6_mgmt_process ea pa m' A1 = Some A2 \<and> ndp_look pa A2 target = Some (ndp_local_mac (nm_ndp B ! pb))"
proof -
  let ?a = "nm_ndp A ! pa" and ?b = "nm_ndp B ! pb"
  note ka = ndp_okD [OF assms(1,3)] and kb = ndp_okD [OF assms(2,4)]
  have la: "length (ndp_local ?a) = 16" "length (ndp_local_mac ?a) = 6" using ka by (simp_all add: ndp_local_length) (simp add: ndp_port_ok_def)
  have lb: "length target = 16" "length (ndp_local_mac ?b) = 6" using kb assms(9) by (auto simp: ndp_port_ok_def ndp_for_us_def)
  define sn where "sn = ndp_solicited_node_mcast target"
  have sn: "length sn = 16" "sn ! 0 = 0xFF" "length (ndp_mcast_mac sn) = 6" by (simp_all add: sn_def ndp_solicited_node_mcast_def ndp_mcast_mac_def)
  define ns where "ns = icmpv6_message ea (ndp_local ?a) sn ICMPV6_NEIGHBOR_SOL 0 ([0, 0, 0, 0] @ target @ [NDP_OPT_SRC_LLADDR, 1] @ ndp_local_mac ?a)"
  define req where "req = ip6_frame (ndp_mcast_mac sn) (ndp_local_mac ?a) 255 (ndp_local ?a) sn ns"
  have rq: "neighbor_sol ea ?a target = req" by (simp add: neighbor_sol_def req_def ns_def sn_def Let_def)
  have nl: "length ns = 32" "ns ! 0 = ICMPV6_NEIGHBOR_SOL" using lb la by (simp_all add: ns_def icmpv6_message_bytes)
  obtain A1 where A1: "ndp_solicit ea pa target A = (0, A1)" "ndp_ok A1" "nm_wire A1 = nm_wire A @ [(pa, pc_mgmt_tx_q (me_port_caps ea pa), req)]"
    "ndp_room (nm_ndp A1 ! pa) target" using solicit_ok [OF assms(1,3,5,6,10)] by (auto simp: rq)
  obtain m where m: "classify_and_process wb (rx pb req) r x = Some (r\<lparr>r_icmpv6 := to_ring m (r_icmpv6 r)\<rparr>, x\<lparr>saved_src6 := ndp_local ?a, saved_dst6 := sn\<rparr>)"
    "mb_data m = ndp_local ?a @ sn @ ns"
    using ip6_frame_received [OF assms(13) [of pb req, unfolded req_def] sn(3) la(2,1) sn(1) _ assms(14), of wb r x] nl(1) sn(2) unfolding req_def by auto
  define na where "na = icmpv6_message eb target (ndp_local ?a) ICMPV6_NEIGHBOR_ADV 0 ([0x60, 0, 0, 0] @ target @ [NDP_OPT_TGT_LLADDR, 1] @ ndp_local_mac ?b)"
  define rep where "rep = ip6_frame (ndp_local_mac ?a) (ndp_local_mac ?b) 255 target (ndp_local ?a) na"
  have al: "length na = 32" "na ! 0 = ICMPV6_NEIGHBOR_ADV" using lb by (simp_all add: na_def icmpv6_message_bytes)
  obtain B1 where B1: "ndp_process_ns eb pb ns (ndp_local ?a) B = Some B1" "ndp_look pb B1 (ndp_local ?a) = Some (ndp_local_mac ?a)"
    "nm_wire B1 = nm_wire B @ [(pb, pc_mgmt_tx_q (me_port_caps eb pb), rep)]"
    using process_ns_ok [OF assms(2,4,7,8,9) lb(1) la(2) ns_def assms(11)] by (auto simp: rep_def na_def)
  have cs: "ICMPV6_NEIGHBOR_SOL \<noteq> ICMPV6_ECHO_REQUEST" "ICMPV6_NEIGHBOR_ADV \<noteq> ICMPV6_ECHO_REQUEST" "ICMPV6_NEIGHBOR_ADV \<noteq> ICMPV6_NEIGHBOR_SOL"
    by (simp_all add: ICMPV6_NEIGHBOR_SOL_def ICMPV6_NEIGHBOR_ADV_def ICMPV6_ECHO_REQUEST_def)
  have PB: "icmpv6_mgmt_process eb pb m B = Some (mgmt_free B1)"
    using m(2) la(1) sn(1) nl kb B1(1) cs by (simp add: icmpv6_mgmt_process_def Let_def)
  have il: "ipv6_local wa (rx pa rep) = None \<or> ipv6_local wa (rx pa rep) = Some (ndp_local ?a)"
    using assms(3,12,15) by (simp add: ipv6_local_def Let_def ndp_local_def)
  then obtain m' where m': "classify_and_process wa (rx pa rep) r' y = Some (r'\<lparr>r_icmpv6 := to_ring m' (r_icmpv6 r')\<rparr>, y\<lparr>saved_src6 := target, saved_dst6 := ndp_local ?a\<rparr>)"
    "mb_data m' = target @ ndp_local ?a @ na"
    using ip6_frame_received [OF assms(13) [of pa rep, unfolded rep_def] la(2) lb(2,1) la(1) _ assms(14), of wa r' y] al(1) unfolding rep_def by auto
  note na = nd_option_found [OF na_def _ lb]
  have "icmpv6_mgmt_process ea pa m' A1 = Some (mgmt_free (ndp_cache_update ea pa target (ndp_local_mac ?b) A1))"
    using m'(2) lb la(1) al ndp_okD [OF A1(2) assms(3)] na cs by (simp add: icmpv6_mgmt_process_def Let_def ndp_process_na_def)
  moreover have "ndp_look pa (mgmt_free (ndp_cache_update ea pa target (ndp_local_mac ?b) A1)) target = Some (ndp_local_mac ?b)"
    using cache_update_look(4) [OF A1(2) assms(3), of ea target "ndp_local_mac ?b" target] A1(4) by (simp add: ndp_look_def)
  moreover have "ndp_look pb (mgmt_free B1) (ndp_local ?a) = Some (ndp_local_mac ?a)" using B1(2) by (simp add: ndp_look_def)
  moreover have "nm_wire (mgmt_free B1) = nm_wire B @ [(pb, pc_mgmt_tx_q (me_port_caps eb pb), rep)]" using B1(3) by simp
  ultimately show ?thesis using A1(1,3) m(1) m'(1) PB by blast
qed

lemma nd_option_ends_witness: "\<exists>r. nd_option 2 (replicate 24 0 @ [1, 1, 0, 0, 0, 0, 0, 0, 2, 1, 7, 7, 7, 7, 7, 7]) 24 = Some r"
  by (rule nd_option_ends) simp

definition demo_ndp :: "bytes \<Rightarrow> bytes \<Rightarrow> ndp_port" where
  "demo_ndp ip6 mac = \<lparr>ndp_entries = replicate 1024 \<lparr>ne_ip6 = replicate 16 0, ne_mac = replicate 6 0, ne_state = NDP_STATE_FREE, ne_expire_tsc = 0, ne_fail_count = 0\<rparr>,
     ndp_count = 0, ndp_local_ip6 = ip6, ndp_local_ip6_ll = make_link_local mac, ndp_local_mac = mac, ndp_has_ip6 = True\<rparr>"

definition demo_host6 :: "bytes \<Rightarrow> bytes \<Rightarrow> net_mgmt" where
  "demo_host6 ip6 mac = (demo_host 1 mac)\<lparr>nm_ndp := replicate 16 (demo_ndp ip6 mac)\<rparr>"

lemma demo_host6_ok:
  assumes "length mac = 6" "length ip6 = 16"
  shows "ndp_ok (demo_host6 ip6 mac)" "nm_ndp (demo_host6 ip6 mac) ! 0 = demo_ndp ip6 mac" "nm_wire (demo_host6 ip6 mac) = []"
    "ndp_room (demo_ndp ip6 mac) a"
  using assms by (simp_all add: ndp_ok_def demo_host6_def demo_host_def TGEN_MAX_PORTS_def list_all_length ndp_port_ok_def demo_ndp_def TGEN_NDP_CACHE_SZ_def
      make_link_local_def ndp_room_def)

theorem ndp_resolves_witness:
  "\<exists>req A1 m x' B1 rep m' y' A2.
    ndp_solicit demo_menv 0 (replicate 16 2) (demo_host6 (replicate 16 1) [2, 0, 0, 0, 0, 1]) = (0, A1) \<and> nm_wire A1 = [(0, 3, req)] \<and>
    classify_and_process demo_env (demo_rxp 0 req) demo_rings demo_worker = Some (demo_rings\<lparr>r_icmpv6 := to_ring m (r_icmpv6 demo_rings)\<rparr>, x') \<and>
    icmpv6_mgmt_process demo_menv 0 m (demo_host6 (replicate 16 2) [2, 0, 0, 0, 0, 2]) = Some B1 \<and> nm_wire B1 = [(0, 3, rep)] \<and>
    ndp_look 0 B1 (replicate 16 1) = Some [2, 0, 0, 0, 0, 1] \<and>
    classify_and_process (demo_env\<lparr>e_ndp := [demo_ndp (replicate 16 1) [2, 0, 0, 0, 0, 1]]\<rparr>) (demo_rxp 0 rep) demo_rings demo_worker =
      Some (demo_rings\<lparr>r_icmpv6 := to_ring m' (r_icmpv6 demo_rings)\<rparr>, y') \<and>
    icmpv6_mgmt_process demo_menv 0 m' A1 = Some A2 \<and> ndp_look 0 A2 (replicate 16 2) = Some [2, 0, 0, 0, 0, 2]"
proof -
  let ?A = "demo_host6 (replicate 16 1) [2, 0, 0, 0, 0, 1]" and ?B = "demo_host6 (replicate 16 2) [2, 0, 0, 0, 0, 2]"
  let ?a = "demo_ndp (replicate 16 1) [2, 0, 0, 0, 0, 1]"
  have A: "ndp_ok ?A" "nm_ndp ?A ! 0 = ?a" "nm_wire ?A = []" "ndp_room ?a x" for x
    by (rule demo_host6_ok; simp)+
  have B: "ndp_ok ?B" "nm_ndp ?B ! 0 = demo_ndp (replicate 16 2) [2, 0, 0, 0, 0, 2]" "nm_wire ?B = []" "ndp_room (demo_ndp (replicate 16 2) [2, 0, 0, 0, 0, 2]) x" for x
    by (rule demo_host6_ok; simp)+
  have l: "ndp_local ?a = replicate 16 1" "ndp_local_mac (demo_ndp ip6 mac) = mac" "ndp_for_us (demo_ndp ip6 mac) ip6" for ip6 mac
    by (simp_all add: ndp_local_def demo_ndp_def ndp_for_us_def)
  have c: "pc_mgmt_tx_q (me_port_caps demo_menv 0) = 3" by (simp add: demo_menv_def demo_caps_def)
  have x: "mb_data (demo_rxp p f) = f @ [0]" "\<not> mb_no_buf (demo_rxp p f)" "p < TGEN_MAX_PORTS \<Longrightarrow> unat (mb_port (demo_rxp p f)) = p" for p f
    by (simp_all add: demo_rxp_def demo_frame_def TGEN_MAX_PORTS_def unat_of_nat take_bit_nat_eq_self)
  have p: "0 < TGEN_MAX_PORTS" "86 \<le> me_tailroom demo_menv" by (simp_all add: TGEN_MAX_PORTS_def demo_menv_def)
  have n: "e_ndp (demo_env\<lparr>e_ndp := [?a]\<rparr>) ! 0 = nm_ndp ?A ! 0" using A(2) by simp
  have fu: "ndp_for_us (nm_ndp ?B ! 0) (replicate 16 2)" "ndp_room (nm_ndp ?A ! 0) (replicate 16 2)" "ndp_room (nm_ndp ?B ! 0) (ndp_local (nm_ndp ?A ! 0))"
    unfolding A(2) B(2) using A(4) B(4) l(3) by blast+
  show ?thesis
    using ndp_resolves [where rx = demo_rxp and pad = "\<lambda>_ _. [0]" and wb = demo_env and r = demo_rings and x = demo_worker and r' = demo_rings and y = demo_worker,
        OF A(1) B(1) p(1,1) demo_menv_ok(3) p(2) demo_menv_ok(3) p(2) fu n x]
    unfolding A(2,3) B(2,3) c l append_Nil by assumption
qed

end
