(* ===== verification/CoreMap.thy ===== *)
theory CoreMap
  imports CoreAssign "HOL-Library.Monad_Syntax"
begin

text \<open>
  The construction of the core map, \<^verbatim>\<open>tgen_core_assign_init\<close> of \<^verbatim>\<open>core/core_assign.c\<close>.  What DPDK reports is the argument \<open>hw\<close>: the
  enabled cores in the order of iteration, the socket of each core and of each port.  \<open>None\<close> is a write beyond an array.
\<close>

subsection \<open>Definitions\<close>

record core_map =
  worker_lcores :: "nat list"
  mgmt_lcores :: "nat list"
  role :: "lcore_role list"
  num_workers :: nat
  num_mgmt :: nat
  socket_of_lcore :: "u32 list"
  port_socket :: "u32 list"
  port_workers :: "nat list list"
  port_num_workers :: "nat list"

record hardware =
  hw_lcores :: "nat list"
  hw_socket :: "nat \<Rightarrow> u32"
  hw_port_socket :: "nat \<Rightarrow> u32"

definition SOCKET_ID_ANY :: u32 where "SOCKET_ID_ANY = - 1"

definition core_map_zero :: core_map where
  "core_map_zero = \<lparr>worker_lcores = replicate TGEN_MAX_WORKERS 0, mgmt_lcores = replicate TGEN_MAX_MGMT_CORES 0,
     role = replicate TGEN_MAX_LCORES LCORE_ROLE_WORKER, num_workers = 0, num_mgmt = 0, socket_of_lcore = replicate TGEN_MAX_LCORES 0,
     port_socket = replicate TGEN_MAX_PORTS 0, port_workers = replicate TGEN_MAX_PORTS (replicate TGEN_MAX_WORKERS 0),
     port_num_workers = replicate TGEN_MAX_PORTS 0\<rparr>"

text \<open>Unused entries of the role table are 0, which is the role of a worker.\<close>

record tier_entry =
  lcore_lo :: nat
  lcore_hi :: nat
  tier_num_mgmt :: nat
  mgmt_roles :: "lcore_role list"

definition g_tiers :: "tier_entry list" where
  "g_tiers =
     [\<lparr>lcore_lo = 2, lcore_hi = 4, tier_num_mgmt = 1, mgmt_roles = [LCORE_ROLE_PRIMARY_MGMT, LCORE_ROLE_WORKER, LCORE_ROLE_WORKER, LCORE_ROLE_WORKER]\<rparr>,
      \<lparr>lcore_lo = 5, lcore_hi = 16, tier_num_mgmt = 1, mgmt_roles = [LCORE_ROLE_PRIMARY_MGMT, LCORE_ROLE_WORKER, LCORE_ROLE_WORKER, LCORE_ROLE_WORKER]\<rparr>,
      \<lparr>lcore_lo = 17, lcore_hi = 32, tier_num_mgmt = 2, mgmt_roles = [LCORE_ROLE_PRIMARY_MGMT, LCORE_ROLE_TELEMETRY, LCORE_ROLE_WORKER, LCORE_ROLE_WORKER]\<rparr>,
      \<lparr>lcore_lo = 33, lcore_hi = 64, tier_num_mgmt = 2, mgmt_roles = [LCORE_ROLE_PRIMARY_MGMT, LCORE_ROLE_TELEMETRY, LCORE_ROLE_WORKER, LCORE_ROLE_WORKER]\<rparr>,
      \<lparr>lcore_lo = 65, lcore_hi = 128, tier_num_mgmt = 3, mgmt_roles = [LCORE_ROLE_PRIMARY_MGMT, LCORE_ROLE_TELEMETRY, LCORE_ROLE_CLI_API, LCORE_ROLE_WORKER]\<rparr>,
      \<lparr>lcore_lo = 129, lcore_hi = UINT32_MAX, tier_num_mgmt = 4,
        mgmt_roles = [LCORE_ROLE_PRIMARY_MGMT, LCORE_ROLE_TELEMETRY, LCORE_ROLE_CLI_API, LCORE_ROLE_WATCHDOG]\<rparr>]"

definition select_tier :: "nat \<Rightarrow> tier_entry" where
  "select_tier n = (case find (\<lambda>t. lcore_lo t \<le> n \<and> n \<le> lcore_hi t) g_tiers of Some t \<Rightarrow> t | None \<Rightarrow> last g_tiers)"

fun populate_socket_map :: "hardware \<Rightarrow> nat list \<Rightarrow> core_map \<Rightarrow> core_map option" where
  "populate_socket_map hw [] c = Some c"
| "populate_socket_map hw (l # ls) c =
     (if l \<ge> TGEN_MAX_LCORES then None
      else populate_socket_map hw ls (c\<lparr>socket_of_lcore := (socket_of_lcore c)[l := hw_socket hw l]\<rparr>))"

text \<open>A core counts as unassigned while its role is idle or 0.\<close>

definition unassigned :: "core_map \<Rightarrow> nat \<Rightarrow> bool" where
  "unassigned c l \<longleftrightarrow> role c ! l \<in> {LCORE_ROLE_IDLE, LCORE_ROLE_WORKER}"

fun mgmt_pass :: "(core_map \<Rightarrow> nat \<Rightarrow> bool) \<Rightarrow> lcore_role list \<Rightarrow> nat \<Rightarrow> nat list \<Rightarrow> core_map \<Rightarrow> core_map" where
  "mgmt_pass ok roles n [] c = c"
| "mgmt_pass ok roles n (l # ls) c =
     (if num_mgmt c \<ge> n then c
      else if \<not> ok c l then mgmt_pass ok roles n ls c
      else mgmt_pass ok roles n ls (c\<lparr>mgmt_lcores := (mgmt_lcores c)[num_mgmt c := l], role := (role c)[l := roles ! num_mgmt c], num_mgmt := num_mgmt c + 1\<rparr>))"

fun worker_pass :: "nat \<Rightarrow> nat list \<Rightarrow> core_map \<Rightarrow> core_map option" where
  "worker_pass n [] c = Some c"
| "worker_pass n (l # ls) c =
     (if num_workers c \<ge> n then Some c
      else if \<not> unassigned c l then worker_pass n ls c
      else if num_workers c \<ge> TGEN_MAX_WORKERS then None
      else worker_pass n ls (c\<lparr>worker_lcores := (worker_lcores c)[num_workers c := l], role := (role c)[l := LCORE_ROLE_WORKER], num_workers := num_workers c + 1\<rparr>))"

definition same_socket :: "core_map \<Rightarrow> nat \<Rightarrow> nat \<Rightarrow> bool" where
  "same_socket c l p \<longleftrightarrow> port_socket c ! p = socket_of_lcore c ! l \<or> socket_of_lcore c ! l = SOCKET_ID_ANY \<or> port_socket c ! p = SOCKET_ID_ANY"

definition add_port_worker :: "nat \<Rightarrow> core_map \<Rightarrow> nat \<Rightarrow> core_map" where
  "add_port_worker l c p =
     (if same_socket c l p then
        let idx = port_num_workers c ! p; c = c\<lparr>port_num_workers := (port_num_workers c)[p := idx + 1]\<rparr>
        in if idx < TGEN_MAX_WORKERS then c\<lparr>port_workers := (port_workers c)[p := (port_workers c ! p)[idx := l]]\<rparr> else c
      else c)"

definition assign_ports :: "hardware \<Rightarrow> nat \<Rightarrow> core_map \<Rightarrow> core_map" where
  "assign_ports hw num_ports c =
     (let ps = [0 ..< min num_ports TGEN_MAX_PORTS];
          c = c\<lparr>port_socket := map (\<lambda>p. if p < num_ports then hw_port_socket hw p else port_socket c ! p) [0 ..< TGEN_MAX_PORTS]\<rparr>
      in foldl (\<lambda>c l. foldl (add_port_worker l) c ps) c (take (num_workers c) (worker_lcores c)))"

definition tgen_core_assign_init :: "hardware \<Rightarrow> nat \<Rightarrow> nat \<Rightarrow> bool \<Rightarrow> nat \<Rightarrow> (int \<times> core_map) option" where
  "tgen_core_assign_init hw num_worker_hint num_mgmt_hint manual num_ports =
     (let ls = hw_lcores hw; n = length ls
      in if n < 2 then Some (-1, core_map_zero)
         else
           do { c \<leftarrow> populate_socket_map hw ls core_map_zero;
                let tier = select_tier n; n_mgmt = max 1 (min (if manual then num_mgmt_hint else tier_num_mgmt tier) TGEN_MAX_MGMT_CORES);
                    n_workers = (if manual then num_worker_hint else n - n_mgmt)
                in if n_workers = 0 then Some (-1, c)
                   else
                     let c = mgmt_pass (\<lambda>c l. socket_of_lcore c ! l = 0) (mgmt_roles tier) n_mgmt ls c;
                         c = (if num_mgmt c < n_mgmt then mgmt_pass unassigned (mgmt_roles tier) n_mgmt ls c else c)
                     in do { c \<leftarrow> worker_pass n_workers ls c;
                             Some (0, if num_ports > 0 then assign_ports hw num_ports c else c) } })"

subsection \<open>The passes over the cores\<close>

definition put_mgmt :: "lcore_role list \<Rightarrow> core_map \<Rightarrow> nat \<Rightarrow> core_map" where
  "put_mgmt roles c l = c\<lparr>mgmt_lcores := (mgmt_lcores c)[num_mgmt c := l], role := (role c)[l := roles ! num_mgmt c], num_mgmt := num_mgmt c + 1\<rparr>"

definition put_worker :: "core_map \<Rightarrow> nat \<Rightarrow> core_map" where
  "put_worker c l = c\<lparr>worker_lcores := (worker_lcores c)[num_workers c := l], role := (role c)[l := LCORE_ROLE_WORKER], num_workers := num_workers c + 1\<rparr>"

lemma unassigned_put:
  "l \<noteq> x \<Longrightarrow> unassigned (put_mgmt roles c l) x = unassigned c x" "l \<noteq> x \<Longrightarrow> unassigned (put_worker c l) x = unassigned c x"
  by (simp_all add: unassigned_def put_mgmt_def put_worker_def)

text \<open>A pass takes the first cores that qualify; taking one does not change whether another qualifies.\<close>

lemma mgmt_pass_eq:
  assumes "distinct ls" "\<And>c l x. l \<noteq> x \<Longrightarrow> ok (put_mgmt roles c l) x = ok c x"
  shows "mgmt_pass ok roles n ls c = foldl (put_mgmt roles) c (take (n - num_mgmt c) (filter (ok c) ls))"
  using assms(1)
proof (induction ls arbitrary: c)
  case (Cons l ls)
  have f: "filter (ok (put_mgmt roles c l)) ls = filter (ok c) ls" using Cons.prems by (intro filter_cong) (auto intro!: assms(2))
  have "mgmt_pass ok roles n (l # ls) c = (if num_mgmt c \<ge> n then c else if \<not> ok c l then mgmt_pass ok roles n ls c else mgmt_pass ok roles n ls (put_mgmt roles c l))"
    by (simp add: put_mgmt_def)
  moreover have "n - num_mgmt c = Suc (n - num_mgmt (put_mgmt roles c l))" if "\<not> num_mgmt c \<ge> n" using that by (simp add: put_mgmt_def)
  ultimately show ?case using Cons.IH [of c] Cons.IH [of "put_mgmt roles c l"] Cons.prems f by auto
qed simp

lemma worker_pass_eq:
  assumes "distinct ls"
  shows "worker_pass n ls c =
    (let xs = take (n - num_workers c) (filter (unassigned c) ls)
     in if xs = [] \<or> num_workers c + length xs \<le> TGEN_MAX_WORKERS then Some (foldl put_worker c xs) else None)"
  using assms
proof (induction ls arbitrary: c)
  case (Cons l ls)
  let ?d = "put_worker c l"
  have f: "filter (unassigned ?d) ls = filter (unassigned c) ls" using Cons.prems by (intro filter_cong refl unassigned_put) auto
  have e: "worker_pass n (l # ls) c = (if num_workers c \<ge> n then Some c else if \<not> unassigned c l then worker_pass n ls c
      else if num_workers c \<ge> TGEN_MAX_WORKERS then None else worker_pass n ls ?d)" by (simp add: put_worker_def)
  have d: "n - num_workers c = Suc (n - num_workers ?d)" if "\<not> num_workers c \<ge> n" using that by (simp add: put_worker_def)
  have nd: "num_workers ?d = num_workers c + 1" by (simp add: put_worker_def)
  show ?case
  proof (cases "num_workers c \<ge> n \<or> \<not> unassigned c l")
    case True
    then show ?thesis using Cons.IH [of c] Cons.prems by (auto simp: e Let_def)
  next
    case False
    then show ?thesis using Cons.IH [of ?d] Cons.prems d by (auto simp: e Let_def f nd simp del: worker_pass.simps)
  qed
qed (simp add: Let_def)

lemma put_frames [simp]:
  "num_mgmt (put_mgmt roles c l) = num_mgmt c + 1" "length (mgmt_lcores (put_mgmt roles c l)) = length (mgmt_lcores c)" "length (role (put_mgmt roles c l)) = length (role c)"
  "worker_lcores (put_mgmt roles c l) = worker_lcores c" "num_workers (put_mgmt roles c l) = num_workers c" "socket_of_lcore (put_mgmt roles c l) = socket_of_lcore c"
  "port_workers (put_mgmt roles c l) = port_workers c" "port_num_workers (put_mgmt roles c l) = port_num_workers c"
  "num_workers (put_worker c l) = num_workers c + 1" "length (worker_lcores (put_worker c l)) = length (worker_lcores c)" "length (role (put_worker c l)) = length (role c)"
  "mgmt_lcores (put_worker c l) = mgmt_lcores c" "num_mgmt (put_worker c l) = num_mgmt c" "socket_of_lcore (put_worker c l) = socket_of_lcore c"
  "port_workers (put_worker c l) = port_workers c" "port_num_workers (put_worker c l) = port_num_workers c"
  by (simp_all add: put_mgmt_def put_worker_def)

lemma put_mgmts:
  fixes roles :: "lcore_role list"
  assumes "distinct xs" "num_mgmt c + length xs \<le> length (mgmt_lcores c)" "\<forall>l\<in>set xs. l < length (role c)"
  defines "d \<equiv> foldl (put_mgmt roles) c xs"
  shows "num_mgmt d = num_mgmt c + length xs" "take (num_mgmt d) (mgmt_lcores d) = take (num_mgmt c) (mgmt_lcores c) @ xs" "length (mgmt_lcores d) = length (mgmt_lcores c)"
    "length (role d) = length (role c)" "i < length xs \<Longrightarrow> role d ! (xs ! i) = roles ! (num_mgmt c + i)" "l \<notin> set xs \<Longrightarrow> role d ! l = role c ! l"
    "worker_lcores d = worker_lcores c" "num_workers d = num_workers c" "socket_of_lcore d = socket_of_lcore c" "port_workers d = port_workers c"
    "port_num_workers d = port_num_workers c"
proof -
  have "num_mgmt d = num_mgmt c + length xs \<and> take (num_mgmt d) (mgmt_lcores d) = take (num_mgmt c) (mgmt_lcores c) @ xs \<and> length (mgmt_lcores d) = length (mgmt_lcores c) \<and>
    length (role d) = length (role c) \<and> (\<forall>i<length xs. role d ! (xs ! i) = roles ! (num_mgmt c + i)) \<and> (\<forall>l. l \<notin> set xs \<longrightarrow> role d ! l = role c ! l) \<and>
    worker_lcores d = worker_lcores c \<and> num_workers d = num_workers c \<and> socket_of_lcore d = socket_of_lcore c \<and> port_workers d = port_workers c \<and>
    port_num_workers d = port_num_workers c"
    using assms(1-3) unfolding d_def
  proof (induction xs arbitrary: c)
    case (Cons x xs)
    let ?c = "put_mgmt roles c x"
    have t: "take (num_mgmt c + 1) (mgmt_lcores ?c) = take (num_mgmt c) (mgmt_lcores c) @ [x]"
      using Cons.prems(2) by (simp add: put_mgmt_def take_Suc_conv_app_nth)
    have r: "role ?c ! l = (if l = x then roles ! num_mgmt c else role c ! l)" for l using Cons.prems(3) by (simp add: put_mgmt_def)
    note IH = Cons.IH [of ?c]
    have "role (foldl (put_mgmt roles) c (x # xs)) ! ((x # xs) ! i) = roles ! (num_mgmt c + i)" if "i < length (x # xs)" for i
      using IH Cons.prems that r by (cases i) auto
    then show ?case using IH Cons.prems t r by auto
  qed simp
  then show "num_mgmt d = num_mgmt c + length xs" "take (num_mgmt d) (mgmt_lcores d) = take (num_mgmt c) (mgmt_lcores c) @ xs" "length (mgmt_lcores d) = length (mgmt_lcores c)"
    "length (role d) = length (role c)" "i < length xs \<Longrightarrow> role d ! (xs ! i) = roles ! (num_mgmt c + i)" "l \<notin> set xs \<Longrightarrow> role d ! l = role c ! l"
    "worker_lcores d = worker_lcores c" "num_workers d = num_workers c" "socket_of_lcore d = socket_of_lcore c" "port_workers d = port_workers c"
    "port_num_workers d = port_num_workers c" by blast+
qed

lemma put_workers:
  assumes "num_workers c + length xs \<le> length (worker_lcores c)" "\<forall>l\<in>set xs. l < length (role c)"
  defines "d \<equiv> foldl put_worker c xs"
  shows "num_workers d = num_workers c + length xs" "take (num_workers d) (worker_lcores d) = take (num_workers c) (worker_lcores c) @ xs"
    "length (role d) = length (role c)" "role d ! l = (if l \<in> set xs then LCORE_ROLE_WORKER else role c ! l)"
    "mgmt_lcores d = mgmt_lcores c" "num_mgmt d = num_mgmt c" "socket_of_lcore d = socket_of_lcore c" "port_workers d = port_workers c"
    "port_num_workers d = port_num_workers c"
proof -
  have "num_workers d = num_workers c + length xs \<and> take (num_workers d) (worker_lcores d) = take (num_workers c) (worker_lcores c) @ xs \<and>
    length (role d) = length (role c) \<and> (\<forall>l. role d ! l = (if l \<in> set xs then LCORE_ROLE_WORKER else role c ! l)) \<and>
    mgmt_lcores d = mgmt_lcores c \<and> num_mgmt d = num_mgmt c \<and> socket_of_lcore d = socket_of_lcore c \<and> port_workers d = port_workers c \<and>
    port_num_workers d = port_num_workers c"
    using assms(1,2) unfolding d_def
  proof (induction xs arbitrary: c)
    case (Cons x xs)
    let ?c = "put_worker c x"
    have t: "take (num_workers c + 1) (worker_lcores ?c) = take (num_workers c) (worker_lcores c) @ [x]"
      using Cons.prems(1) by (simp add: put_worker_def take_Suc_conv_app_nth)
    have "role ?c ! l = (if l = x then LCORE_ROLE_WORKER else role c ! l)" for l using Cons.prems(2) by (simp add: put_worker_def)
    then show ?case using Cons.IH [of ?c] Cons.prems t by auto
  qed simp
  then show "num_workers d = num_workers c + length xs" "take (num_workers d) (worker_lcores d) = take (num_workers c) (worker_lcores c) @ xs"
    "length (role d) = length (role c)" "role d ! l = (if l \<in> set xs then LCORE_ROLE_WORKER else role c ! l)"
    "mgmt_lcores d = mgmt_lcores c" "num_mgmt d = num_mgmt c" "socket_of_lcore d = socket_of_lcore c" "port_workers d = port_workers c"
    "port_num_workers d = port_num_workers c" by blast+
qed

subsection \<open>Ports\<close>

definition port_view :: "core_map \<Rightarrow> nat \<Rightarrow> nat \<times> nat list" where
  "port_view c p = (port_num_workers c ! p, port_workers c ! p)"

definition bump :: "nat \<Rightarrow> nat \<times> nat list \<Rightarrow> nat \<times> nat list" where
  "bump l v = (fst v + 1, if fst v < TGEN_MAX_WORKERS then (snd v)[fst v := l] else snd v)"

text \<open>What \<open>add_port_worker\<close> never changes.\<close>

definition same_cores :: "core_map \<Rightarrow> core_map \<Rightarrow> bool" where
  "same_cores c d \<longleftrightarrow> worker_lcores d = worker_lcores c \<and> mgmt_lcores d = mgmt_lcores c \<and> role d = role c \<and> num_workers d = num_workers c \<and> num_mgmt d = num_mgmt c \<and>
     socket_of_lcore d = socket_of_lcore c \<and> port_socket d = port_socket c \<and> length (port_workers d) = length (port_workers c) \<and>
     length (port_num_workers d) = length (port_num_workers c)"

lemma same_cores_refl: "same_cores c c"
  by (simp add: same_cores_def)

lemma same_cores_trans: "same_cores a b \<Longrightarrow> same_cores b c \<Longrightarrow> same_cores a c"
  by (simp add: same_cores_def)

lemma same_cores_socket: "same_cores c d \<Longrightarrow> same_socket d l p = same_socket c l p"
  by (simp add: same_cores_def same_socket_def)

lemma add_port_worker_view:
  "same_cores c (add_port_worker l c q)"
  "q < length (port_workers c) \<Longrightarrow> q < length (port_num_workers c) \<Longrightarrow>
     port_view (add_port_worker l c q) p = (if p = q \<and> same_socket c l p then bump l (port_view c p) else port_view c p)"
  by (auto simp: same_cores_def add_port_worker_def port_view_def bump_def Let_def nth_list_update)

lemma add_ports_view:
  assumes "distinct ps" "\<forall>q\<in>set ps. q < length (port_workers c) \<and> q < length (port_num_workers c)"
  shows "same_cores c (foldl (add_port_worker l) c ps) \<and>
    port_view (foldl (add_port_worker l) c ps) p = (if p \<in> set ps \<and> same_socket c l p then bump l (port_view c p) else port_view c p)"
  using assms
proof (induction ps arbitrary: c)
  case (Cons q ps)
  let ?c = "add_port_worker l c q"
  note v = add_port_worker_view [where c = c and l = l and q = q]
  have "\<forall>q\<in>set ps. q < length (port_workers ?c) \<and> q < length (port_num_workers ?c)" using Cons.prems(2) v(1) by (simp add: same_cores_def)
  with Cons.IH [of ?c] Cons.prems v same_cores_socket [OF v(1)] same_cores_trans [OF v(1)] show ?case by auto
qed (simp add: same_cores_refl)

lemma workers_view:
  fixes ws :: "nat list"
  assumes "distinct ps" "\<forall>q\<in>set ps. q < length (port_workers c) \<and> q < length (port_num_workers c)" "p \<in> set ps"
  defines "d \<equiv> foldl (\<lambda>c l. foldl (add_port_worker l) c ps) c ws"
  shows "same_cores c d \<and> port_view d p = foldl (\<lambda>v l. bump l v) (port_view c p) (filter (\<lambda>l. same_socket c l p) ws)"
  using assms(2) unfolding d_def
proof (induction ws arbitrary: c)
  case (Cons l ws)
  let ?c = "foldl (add_port_worker l) c ps"
  note v = add_ports_view [OF assms(1) Cons.prems, of l p]
  have "\<forall>q\<in>set ps. q < length (port_workers ?c) \<and> q < length (port_num_workers ?c)" using Cons.prems v by (simp add: same_cores_def)
  with Cons.IH [of ?c] v same_cores_trans [OF conjunct1 [OF v]] assms(3) show ?case by (auto simp: same_cores_socket [OF conjunct1 [OF v]])
qed (simp add: same_cores_refl)

lemma bumps:
  assumes "k + length xs \<le> TGEN_MAX_WORKERS" "length v = TGEN_MAX_WORKERS"
  shows "\<exists>v'. foldl (\<lambda>v l. bump l v) (k, v) xs = (k + length xs, v') \<and> take (k + length xs) v' = take k v @ xs \<and> length v' = TGEN_MAX_WORKERS"
  using assms
proof (induction xs arbitrary: k v)
  case (Cons x xs)
  have "bump x (k, v) = (k + 1, v[k := x])" "take (k + 1) (v[k := x]) = take k v @ [x]" "length (v[k := x]) = TGEN_MAX_WORKERS"
    using Cons.prems by (simp_all add: bump_def take_Suc_conv_app_nth)
  with Cons.IH [of "k + 1" "v[k := x]"] Cons.prems show ?case by auto
qed simp

text \<open>Each port gets the workers of its socket, in their order.\<close>

lemma assign_ports_ok:
  fixes hw :: hardware and np :: nat
  assumes "num_workers c \<le> TGEN_MAX_WORKERS" "port_workers c = replicate TGEN_MAX_PORTS (replicate TGEN_MAX_WORKERS 0)"
    "port_num_workers c = replicate TGEN_MAX_PORTS 0"
  defines "d \<equiv> assign_ports hw np c"
  shows "worker_lcores d = worker_lcores c" "mgmt_lcores d = mgmt_lcores c" "role d = role c" "num_workers d = num_workers c" "num_mgmt d = num_mgmt c"
    "socket_of_lcore d = socket_of_lcore c" "p < np \<Longrightarrow> p < TGEN_MAX_PORTS \<Longrightarrow> port_socket d ! p = hw_port_socket hw p"
    "p < np \<Longrightarrow> p < TGEN_MAX_PORTS \<Longrightarrow> take (port_num_workers d ! p) (port_workers d ! p) =
       filter (\<lambda>l. same_socket d l p) (take (num_workers d) (worker_lcores d))"
    "p < np \<Longrightarrow> p < TGEN_MAX_PORTS \<Longrightarrow> port_num_workers d ! p \<le> length (port_workers d ! p)"
proof -
  define ps where "ps = [0 ..< min np TGEN_MAX_PORTS]"
  define c0 where "c0 = c\<lparr>port_socket := map (\<lambda>p. if p < np then hw_port_socket hw p else port_socket c ! p) [0 ..< TGEN_MAX_PORTS]\<rparr>"
  define ws where "ws = take (num_workers c) (worker_lcores c)"
  have d: "d = foldl (\<lambda>c l. foldl (add_port_worker l) c ps) c0 ws" by (simp add: d_def assign_ports_def ps_def c0_def ws_def Let_def)
  have ps: "distinct ps" "\<forall>q\<in>set ps. q < length (port_workers c0) \<and> q < length (port_num_workers c0)" using assms(2,3) by (simp_all add: ps_def c0_def)
  have sc: "same_cores c0 d"
  proof (cases "ps = []")
    case True
    then have "d = c0" by (simp add: d) (induction ws, simp_all)
    then show ?thesis by (simp add: same_cores_refl)
  next
    case False
    then show ?thesis using workers_view [OF ps, of "hd ps" ws] by (simp add: d)
  qed
  then show "worker_lcores d = worker_lcores c" "mgmt_lcores d = mgmt_lcores c" "role d = role c" "num_workers d = num_workers c" "num_mgmt d = num_mgmt c"
    "socket_of_lcore d = socket_of_lcore c" by (simp_all add: same_cores_def c0_def)
  assume p: "p < np" "p < TGEN_MAX_PORTS"
  show "port_socket d ! p = hw_port_socket hw p" using sc p by (simp add: same_cores_def c0_def)
  let ?f = "filter (\<lambda>l. same_socket c0 l p) ws"
  have "length ?f \<le> TGEN_MAX_WORKERS" using length_filter_le [of "\<lambda>l. same_socket c0 l p" ws] assms(1) by (simp add: ws_def)
  moreover have "port_view c0 p = (0, replicate TGEN_MAX_WORKERS 0)" using p assms(2,3) by (simp add: port_view_def c0_def)
  moreover have "port_view d p = foldl (\<lambda>v l. bump l v) (port_view c0 p) ?f" using workers_view [OF ps, of p ws] p by (simp add: d ps_def)
  ultimately have r: "take (port_num_workers d ! p) (port_workers d ! p) = ?f" "port_num_workers d ! p \<le> length (port_workers d ! p)"
    using bumps [of 0 ?f "replicate TGEN_MAX_WORKERS 0"] by (auto simp: port_view_def)
  then show "port_num_workers d ! p \<le> length (port_workers d ! p)" by blast
  show "take (port_num_workers d ! p) (port_workers d ! p) = filter (\<lambda>l. same_socket d l p) (take (num_workers d) (worker_lcores d))"
    using r(1) same_cores_socket [OF sc] sc by (simp add: ws_def same_cores_def c0_def)
qed

subsection \<open>The whole assignment\<close>

lemma populate_socket_map_ok:
  assumes "\<forall>l\<in>set ls. l < TGEN_MAX_LCORES" "length (socket_of_lcore c) = TGEN_MAX_LCORES"
  shows "\<exists>s. populate_socket_map hw ls c = Some (c\<lparr>socket_of_lcore := s\<rparr>) \<and> length s = TGEN_MAX_LCORES \<and>
    (\<forall>l\<in>set ls. s ! l = hw_socket hw l)"
proof -
  have "\<exists>s. populate_socket_map hw ls c = Some (c\<lparr>socket_of_lcore := s\<rparr>) \<and> length s = TGEN_MAX_LCORES \<and>
    (\<forall>l. s ! l = (if l \<in> set ls then hw_socket hw l else socket_of_lcore c ! l))"
    using assms
  proof (induction ls arbitrary: c)
    case Nil
    show ?case by (rule exI [of _ "socket_of_lcore c"]) (use Nil in simp)
  next
    case (Cons x ls)
    then show ?case
      using Cons.IH [of "c\<lparr>socket_of_lcore := (socket_of_lcore c)[x := hw_socket hw x]\<rparr>"] by (auto simp: nth_list_update)
  qed
  then show ?thesis by auto
qed

lemma select_tier_eq:
  assumes "2 \<le> n" "n \<le> 128"
  shows "select_tier n = g_tiers ! (if n \<le> 4 then 0 else if n \<le> 16 then 1 else if n \<le> 32 then 2 else if n \<le> 64 then 3 else 4)"
  using assms by (simp add: select_tier_def g_tiers_def)

definition is_mgmt_role :: "lcore_role \<Rightarrow> bool" where
  "is_mgmt_role r \<longleftrightarrow> r \<in> {LCORE_ROLE_PRIMARY_MGMT, LCORE_ROLE_TELEMETRY, LCORE_ROLE_CLI_API, LCORE_ROLE_WATCHDOG}"

lemma tiers_ok:
  "\<forall>t\<in>set g_tiers. 1 \<le> tier_num_mgmt t \<and> tier_num_mgmt t \<le> TGEN_MAX_MGMT_CORES \<and> mgmt_roles t ! 0 = LCORE_ROLE_PRIMARY_MGMT \<and>
     tier_num_mgmt t < lcore_lo t \<and> list_all is_mgmt_role (take (tier_num_mgmt t) (mgmt_roles t)) \<and> tier_num_mgmt t \<le> length (mgmt_roles t)"
  by (simp add: g_tiers_def TGEN_MAX_MGMT_CORES_def is_mgmt_role_def)

lemma select_tier_cases:
  assumes "2 \<le> n" "n \<le> 128"
  shows "select_tier n \<in> set g_tiers" "tier_num_mgmt (select_tier n) < n"
proof -
  show t: "select_tier n \<in> set g_tiers" unfolding select_tier_eq [OF assms] by (rule nth_mem) (simp add: g_tiers_def)
  have "lcore_lo (select_tier n) \<le> n" using assms unfolding select_tier_eq [OF assms] by (auto simp: g_tiers_def)
  with t tiers_ok show "tier_num_mgmt (select_tier n) < n" by fastforce
qed

lemma tier_workers:
  assumes "2 \<le> n" "n \<le> 127"
  shows "n - tier_num_mgmt (select_tier n) \<le> TGEN_MAX_WORKERS"
  using assms by (auto simp: select_tier_eq g_tiers_def TGEN_MAX_WORKERS_def)

lemma length_filter_notin:
  assumes "distinct ls" "distinct xs" "set xs \<subseteq> set ls"
  shows "length (filter (\<lambda>l. l \<notin> set xs) ls) = length ls - length xs"
proof -
  have "set (filter (\<lambda>l. l \<notin> set xs) ls) = set ls - set xs" by auto
  then have "card (set (filter (\<lambda>l. l \<notin> set xs) ls)) = card (set ls) - card (set xs)" using assms(3) by (simp add: card_Diff_subset)
  then show ?thesis using distinct_card [OF assms(1)] distinct_card [OF assms(2)] distinct_card [OF distinct_filter [OF assms(1), of "\<lambda>l. l \<notin> set xs"]] by simp
qed

lemma unassigned_after:
  assumes "distinct xs" "num_mgmt c = 0" "length xs \<le> length (mgmt_lcores c)" "\<forall>l\<in>set xs. l < length (role c)" "\<forall>i<length xs. is_mgmt_role (roles ! i)"
    "role c ! l = LCORE_ROLE_WORKER"
  shows "unassigned (foldl (put_mgmt roles) c xs) l \<longleftrightarrow> l \<notin> set xs"
proof (cases "l \<in> set xs")
  case True
  then obtain i where i: "i < length xs" "xs ! i = l" by (auto simp: in_set_conv_nth)
  then have "role (foldl (put_mgmt roles) c xs) ! l = roles ! i" using put_mgmts(5) [OF assms(1) _ assms(4) i(1)] assms(2,3) by simp
  then have "is_mgmt_role (role (foldl (put_mgmt roles) c xs) ! l)" using assms(5) i(1) by simp
  then show ?thesis using True by (auto simp: unassigned_def is_mgmt_role_def)
next
  case False
  then show ?thesis using put_mgmts(6) [OF assms(1) _ assms(4) False] assms(2,3,6) by (simp add: unassigned_def)
qed

text \<open>
  Both management passes together: the cores of socket 0 first, then others, and no other core becomes assigned.
\<close>

definition mgmt_passes :: "lcore_role list \<Rightarrow> nat \<Rightarrow> nat list \<Rightarrow> core_map \<Rightarrow> core_map" where
  "mgmt_passes roles k ls c =
     (let c = mgmt_pass (\<lambda>c l. socket_of_lcore c ! l = 0) roles k ls c in if num_mgmt c < k then mgmt_pass unassigned roles k ls c else c)"

lemma mgmt_passes_ok:
  fixes c :: core_map
  assumes d: "distinct ls" and b: "\<forall>l\<in>set ls. l < length (role c)" and k: "k \<le> length ls" "k \<le> length (mgmt_lcores c)"
    and r: "\<forall>i<k. is_mgmt_role (roles ! i)" and z: "num_mgmt c = 0" "\<forall>l\<in>set ls. role c ! l = LCORE_ROLE_WORKER"
  obtains M where "mgmt_passes roles k ls c = foldl (put_mgmt roles) c M" "distinct M" "set M \<subseteq> set ls" "length M = k"
    "\<forall>l\<in>set ls. unassigned (foldl (put_mgmt roles) c M) l \<longleftrightarrow> l \<notin> set M"
proof -
  define ok where "ok = (\<lambda>(c :: core_map) l. socket_of_lcore c ! l = 0)"
  define xs where "xs = take k (filter (ok c) ls)"
  define c2 where "c2 = foldl (put_mgmt roles) c xs"
  have p1: "mgmt_pass ok roles k ls c = c2" using mgmt_pass_eq [OF d, of ok roles k c] by (simp add: ok_def z xs_def c2_def)
  have xs: "distinct xs" "set xs \<subseteq> set ls" "length xs \<le> k" using d by (auto simp: xs_def dest: in_set_takeD)
  have u: "unassigned (foldl (put_mgmt roles) c zs) l \<longleftrightarrow> l \<notin> set zs" if "distinct zs" "set zs \<subseteq> set ls" "length zs \<le> k" "l \<in> set ls" for zs l
    by (rule unassigned_after) (use that z k b r in auto)
  define M where "M = xs @ take (k - length xs) (filter (\<lambda>l. l \<notin> set xs) ls)"
  have n2: "num_mgmt c2 = length xs" using put_mgmts(1) [OF xs(1), of c] xs(2,3) k b by (auto simp: z c2_def)
  have "filter (unassigned c2) ls = filter (\<lambda>l. l \<notin> set xs) ls" using u [OF xs] by (intro filter_cong) (auto simp: c2_def)
  then have p2: "(if num_mgmt c2 < k then mgmt_pass unassigned roles k ls c2 else c2) = foldl (put_mgmt roles) c M"
    using mgmt_pass_eq [OF d, of unassigned roles k c2] by (simp add: unassigned_put n2 M_def c2_def [symmetric])
  have M: "distinct M" "set M \<subseteq> set ls" using xs d by (auto simp: M_def dest: in_set_takeD)
  have lM: "length M = k" using k(1) xs length_filter_notin [OF d xs(1,2)] by (simp add: M_def)
  show ?thesis by (rule that [OF _ M lM]) (use p1 p2 u [OF M] lM in \<open>simp_all add: mgmt_passes_def Let_def ok_def\<close>)
qed

text \<open>The automatic mode up to the worker pass.\<close>

lemma core_assign_mgmt:
  fixes hw :: hardware
  assumes d: "distinct (hw_lcores hw)" and b: "\<forall>l\<in>set (hw_lcores hw). l < TGEN_MAX_LCORES" and n: "2 \<le> length (hw_lcores hw)" "length (hw_lcores hw) \<le> 128"
  defines "t \<equiv> select_tier (length (hw_lcores hw))"
  obtains c M where
    "tgen_core_assign_init hw wh mh False np =
       worker_pass (length (hw_lcores hw) - length M) (hw_lcores hw) c \<bind> (\<lambda>c. Some (0, if np > 0 then assign_ports hw np c else c))"
    "M = take (num_mgmt c) (mgmt_lcores c)" "length M = tier_num_mgmt t" "distinct M" "set M \<subseteq> set (hw_lcores hw)"
    "filter (unassigned c) (hw_lcores hw) = filter (\<lambda>l. l \<notin> set M) (hw_lcores hw)" "\<forall>i<length M. role c ! (M ! i) = mgmt_roles t ! i"
    "num_workers c = 0" "length (worker_lcores c) = TGEN_MAX_WORKERS" "length (role c) = TGEN_MAX_LCORES"
    "port_workers c = replicate TGEN_MAX_PORTS (replicate TGEN_MAX_WORKERS 0)" "port_num_workers c = replicate TGEN_MAX_PORTS 0"
    "\<forall>l\<in>set (hw_lcores hw). socket_of_lcore c ! l = hw_socket hw l"
proof -
  define ls where "ls = hw_lcores hw"
  define k where "k = tier_num_mgmt t"
  have ls: "distinct ls" "\<forall>l\<in>set ls. l < TGEN_MAX_LCORES" using d b by (simp_all add: ls_def)
  note tc = select_tier_cases [OF n, folded t_def ls_def k_def]
  have t: "1 \<le> k" "k \<le> TGEN_MAX_MGMT_CORES" "\<forall>i<k. is_mgmt_role (mgmt_roles t ! i)" using tiers_ok tc(1) by (auto simp: k_def list_all_length)
  obtain s where s: "populate_socket_map hw ls core_map_zero = Some (core_map_zero\<lparr>socket_of_lcore := s\<rparr>)" "\<forall>l\<in>set ls. s ! l = hw_socket hw l"
    using populate_socket_map_ok [of ls core_map_zero hw] ls(2) by (auto simp: core_map_zero_def)
  define c1 where "c1 = core_map_zero\<lparr>socket_of_lcore := s\<rparr>"
  have c1: "num_mgmt c1 = 0" "num_workers c1 = 0" "length (mgmt_lcores c1) = TGEN_MAX_MGMT_CORES" "length (worker_lcores c1) = TGEN_MAX_WORKERS"
    "length (role c1) = TGEN_MAX_LCORES" "socket_of_lcore c1 = s" "port_workers c1 = replicate TGEN_MAX_PORTS (replicate TGEN_MAX_WORKERS 0)"
    "port_num_workers c1 = replicate TGEN_MAX_PORTS 0" "\<forall>l\<in>set ls. role c1 ! l = LCORE_ROLE_WORKER" using ls(2) by (simp_all add: c1_def core_map_zero_def)
  obtain M where M: "mgmt_passes (mgmt_roles t) k ls c1 = foldl (put_mgmt (mgmt_roles t)) c1 M" "distinct M" "set M \<subseteq> set ls" "length M = k"
    "\<forall>l\<in>set ls. unassigned (foldl (put_mgmt (mgmt_roles t)) c1 M) l \<longleftrightarrow> l \<notin> set M"
    by (rule mgmt_passes_ok [OF ls(1), of c1 k "mgmt_roles t"]) (use ls(2) tc(2) t c1 in auto)
  define c3 where "c3 = foldl (put_mgmt (mgmt_roles t)) c1 M"
  have "num_mgmt c1 + length M \<le> length (mgmt_lcores c1)" "\<forall>l\<in>set M. l < length (role c1)" using M(3,4) ls(2) t(2) by (auto simp: c1)
  note m = put_mgmts [OF M(2) this, where roles = "mgmt_roles t", folded c3_def]
  have f: "filter (unassigned c3) ls = filter (\<lambda>l. l \<notin> set M) ls" using M(5) by (intro filter_cong) (auto simp: c3_def)
  have mk: "max 1 (min k TGEN_MAX_MGMT_CORES) = k" "select_tier (length ls) = t" using t(1,2) by (simp_all add: t_def ls_def)
  have k0: "\<not> length ls < 2" "length ls - k \<noteq> 0" using n(1) tc(2) by (simp_all add: ls_def)
  have init: "tgen_core_assign_init hw wh mh False np = worker_pass (length ls - k) ls c3 \<bind> (\<lambda>c. Some (0, if np > 0 then assign_ports hw np c else c))"
    unfolding tgen_core_assign_init_def Let_def ls_def [symmetric] if_not_P [OF k0(1)] s(1) c1_def [symmetric] mk(2) k_def [symmetric] if_False mk(1) Option.bind.bind_lunit
      if_not_P [OF k0(2)] M(1) [unfolded mgmt_passes_def Let_def] c3_def ..
  show ?thesis by (rule that [OF init [folded ls_def, folded M(4), unfolded ls_def]]) (use M(2-4) m f s(2) in \<open>simp_all add: c1 k_def ls_def\<close>)
qed

lemma core_assign_auto:
  fixes hw :: hardware
  assumes d: "distinct (hw_lcores hw)" and b: "\<forall>l\<in>set (hw_lcores hw). l < TGEN_MAX_LCORES" and n: "2 \<le> length (hw_lcores hw)" "length (hw_lcores hw) \<le> 127"
  defines "t \<equiv> select_tier (length (hw_lcores hw))"
  obtains c M W where "tgen_core_assign_init hw wh mh False np = Some (0, if np > 0 then assign_ports hw np c else c)"
    "M = take (num_mgmt c) (mgmt_lcores c)" "W = take (num_workers c) (worker_lcores c)" "num_workers c = length W" "length M = tier_num_mgmt t"
    "distinct M" "set M \<subseteq> set (hw_lcores hw)" "W = filter (\<lambda>l. l \<notin> set M) (hw_lcores hw)"
    "\<forall>i<length M. role c ! (M ! i) = mgmt_roles t ! i" "\<forall>l\<in>set W. role c ! l = LCORE_ROLE_WORKER"
    "num_workers c \<le> TGEN_MAX_WORKERS" "port_workers c = replicate TGEN_MAX_PORTS (replicate TGEN_MAX_WORKERS 0)"
    "port_num_workers c = replicate TGEN_MAX_PORTS 0" "\<forall>l\<in>set (hw_lcores hw). socket_of_lcore c ! l = hw_socket hw l"
proof -
  define ls where "ls = hw_lcores hw"
  have n': "length (hw_lcores hw) \<le> 128" using n by simp
  obtain c3 M where init: "tgen_core_assign_init hw wh mh False np = worker_pass (length ls - length M) ls c3 \<bind> (\<lambda>c. Some (0, if np > 0 then assign_ports hw np c else c))"
    and M: "M = take (num_mgmt c3) (mgmt_lcores c3)" "length M = tier_num_mgmt t" "distinct M" "set M \<subseteq> set ls"
    and f: "filter (unassigned c3) ls = filter (\<lambda>l. l \<notin> set M) ls" and r: "\<forall>i<length M. role c3 ! (M ! i) = mgmt_roles t ! i"
    and c3: "num_workers c3 = 0" "length (worker_lcores c3) = TGEN_MAX_WORKERS" "length (role c3) = TGEN_MAX_LCORES"
      "port_workers c3 = replicate TGEN_MAX_PORTS (replicate TGEN_MAX_WORKERS 0)" "port_num_workers c3 = replicate TGEN_MAX_PORTS 0"
      "\<forall>l\<in>set ls. socket_of_lcore c3 ! l = hw_socket hw l"
    by (rule core_assign_mgmt [OF d b n(1) n', of wh mh np, folded t_def, folded ls_def])
  define W where "W = filter (\<lambda>l. l \<notin> set M) ls"
  have lW: "length W = length ls - length M" using length_filter_notin [OF d [folded ls_def] M(3,4)] by (simp add: W_def)
  have kW: "length W \<le> TGEN_MAX_WORKERS" using tier_workers [OF n] lW M(2) by (simp add: t_def ls_def)
  define c4 where "c4 = foldl put_worker c3 W"
  have p3: "worker_pass (length ls - length M) ls c3 = Some c4"
    using worker_pass_eq [OF d [folded ls_def], of "length ls - length M" c3] kW lW by (simp add: c3 f W_def [symmetric] c4_def Let_def)
  have w0: "num_workers c3 + length W \<le> length (worker_lcores c3)" "\<forall>l\<in>set W. l < length (role c3)" using kW b by (auto simp: c3 W_def ls_def)
  note w = put_workers [OF w0, folded c4_def]
  have "role c4 ! (M ! i) = mgmt_roles t ! i" if "i < length M" for i using nth_mem [OF that] r that w(4) by (simp add: W_def)
  then have r4: "\<forall>i<length M. role c4 ! (M ! i) = mgmt_roles t ! i" by blast
  have M4: "M = take (num_mgmt c4) (mgmt_lcores c4)" using M(1) by (simp only: w(5,6))
  show ?thesis
    by (rule that [OF _ M4 _ _ M(2,3) M(4) [unfolded ls_def] W_def [unfolded ls_def] r4]) (use init p3 w c3 kW in \<open>simp_all add: ls_def\<close>)
qed

lemma core_assign_split:
  fixes hw :: hardware
  assumes d: "distinct (hw_lcores hw)" and b: "\<forall>l\<in>set (hw_lcores hw). l < TGEN_MAX_LCORES"
    and n: "2 \<le> length (hw_lcores hw)" "length (hw_lcores hw) \<le> 127"
  shows "\<exists>c M W. tgen_core_assign_init hw wh mh False np = Some (0, c) \<and>
    M = take (num_mgmt c) (mgmt_lcores c) \<and> W = take (num_workers c) (worker_lcores c) \<and> num_workers c = length W \<and>
    distinct (M @ W) \<and> set (M @ W) = set (hw_lcores hw) \<and> length M = tier_num_mgmt (select_tier (length (hw_lcores hw))) \<and>
    M \<noteq> [] \<and> W \<noteq> [] \<and> role c ! hd M = LCORE_ROLE_PRIMARY_MGMT \<and> list_all (tgen_is_mgmt (role c)) M \<and> list_all (tgen_is_worker (role c)) W \<and>
    (\<forall>p<min np TGEN_MAX_PORTS. port_num_workers c ! p \<le> length (port_workers c ! p) \<and> take (port_num_workers c ! p) (port_workers c ! p) =
       filter (\<lambda>l. hw_port_socket hw p = hw_socket hw l \<or> hw_socket hw l = SOCKET_ID_ANY \<or> hw_port_socket hw p = SOCKET_ID_ANY) W)"
proof -
  define t where "t = select_tier (length (hw_lcores hw))"
  have n': "length (hw_lcores hw) \<le> 128" using n(2) by simp
  obtain c0 M W where c0: "tgen_core_assign_init hw wh mh False np = Some (0, if np > 0 then assign_ports hw np c0 else c0)"
    and M: "M = take (num_mgmt c0) (mgmt_lcores c0)" and W: "W = take (num_workers c0) (worker_lcores c0)" and nW: "num_workers c0 = length W" and lM: "length M = tier_num_mgmt t"
    and dM: "distinct M" "set M \<subseteq> set (hw_lcores hw)" and fW: "W = filter (\<lambda>l. l \<notin> set M) (hw_lcores hw)"
    and rM: "\<forall>i<length M. role c0 ! (M ! i) = mgmt_roles t ! i" and rW: "\<forall>l\<in>set W. role c0 ! l = LCORE_ROLE_WORKER"
    and nw: "num_workers c0 \<le> TGEN_MAX_WORKERS" "port_workers c0 = replicate TGEN_MAX_PORTS (replicate TGEN_MAX_WORKERS 0)" "port_num_workers c0 = replicate TGEN_MAX_PORTS 0"
    and so: "\<forall>l\<in>set (hw_lcores hw). socket_of_lcore c0 ! l = hw_socket hw l"
    by (rule core_assign_auto [OF d b n, of wh mh np, folded t_def])
  define c where "c = (if np > 0 then assign_ports hw np c0 else c0)"
  note a = assign_ports_ok [OF nw, where hw = hw and np = np]
  have c: "worker_lcores c = worker_lcores c0" "mgmt_lcores c = mgmt_lcores c0" "role c = role c0" "num_workers c = num_workers c0" "num_mgmt c = num_mgmt c0"
    "socket_of_lcore c = socket_of_lcore c0" using a(1-6) by (simp_all add: c_def)
  have t: "1 \<le> length M" "mgmt_roles t ! 0 = LCORE_ROLE_PRIMARY_MGMT" "\<forall>i<length M. is_mgmt_role (mgmt_roles t ! i)"
    using tiers_ok select_tier_cases(1) [OF n(1) n'] lM by (auto simp: t_def list_all_length)
  have W0: "length W = length (hw_lcores hw) - length M" unfolding fW by (rule length_filter_notin [OF d dM])
  have "filter (\<lambda>l. same_socket c l p) W =
      filter (\<lambda>l. hw_port_socket hw p = hw_socket hw l \<or> hw_socket hw l = SOCKET_ID_ANY \<or> hw_port_socket hw p = SOCKET_ID_ANY) W" if "p < min np TGEN_MAX_PORTS" for p
  proof -
    have "port_socket c ! p = hw_port_socket hw p" using that a(7) [of p] by (simp add: c_def)
    then show ?thesis using so fW by (intro filter_cong) (auto simp: same_socket_def c)
  qed
  then have ports: "\<forall>p<min np TGEN_MAX_PORTS. port_num_workers c ! p \<le> length (port_workers c ! p) \<and> take (port_num_workers c ! p) (port_workers c ! p) =
       filter (\<lambda>l. hw_port_socket hw p = hw_socket hw l \<or> hw_socket hw l = SOCKET_ID_ANY \<or> hw_port_socket hw p = SOCKET_ID_ANY) W"
    using a(8,9) W c by (auto simp: c_def)
  have mg: "list_all (tgen_is_mgmt (role c)) M"
  proof -
    have "M ! i < TGEN_MAX_LCORES" if "i < length M" for i using nth_mem [OF that] dM(2) b by blast
    then show ?thesis using rM t(3) unfolding list_all_length tgen_is_mgmt_def is_mgmt_role_def c by fastforce
  qed
  have wk: "list_all (tgen_is_worker (role c)) W" using rW b fW by (auto simp: list_all_iff tgen_is_worker_def c)
  have hd: "M \<noteq> []" "W \<noteq> []" using t(1) W0 lM select_tier_cases(2) [OF n(1) n'] by (auto simp: t_def)
  have "role c ! hd M = LCORE_ROLE_PRIMARY_MGMT" using t(1,2) rM hd(1) by (simp add: c hd_conv_nth)
  note hd = hd this
  have MW: "distinct (M @ W)" "set (M @ W) = set (hw_lcores hw)" using dM fW d by auto
  have eqs: "M = take (num_mgmt c) (mgmt_lcores c)" "W = take (num_workers c) (worker_lcores c)" "num_workers c = length W" using M W nW by (simp_all only: c)
  have init: "tgen_core_assign_init hw wh mh False np = Some (0, c)" using c0 by (simp only: c_def)
  show ?thesis using init eqs MW lM [unfolded t_def] hd mg wk ports by blast
qed

text \<open>
  C28. In the automatic mode, on 2 to 127 distinct cores with numbers below 128, the core assignment succeeds and splits the cores: the management cores (as many as
  the tier of the machine's size says) and the worker cores are disjoint, together they are exactly the enabled cores, the first management core is the primary one,
  the role table agrees with both lists, and every port is served by exactly the workers of its NUMA socket, in order.
\<close>

theorem core_assign_partition:
  fixes hw :: hardware
  assumes d: "distinct (hw_lcores hw)" and b: "\<forall>l\<in>set (hw_lcores hw). l < TGEN_MAX_LCORES"
    and n: "2 \<le> length (hw_lcores hw)" "length (hw_lcores hw) \<le> 127"
  shows "\<exists>c M W. tgen_core_assign_init hw wh mh False np = Some (0, c) \<and>
    M = take (num_mgmt c) (mgmt_lcores c) \<and> W = take (num_workers c) (worker_lcores c) \<and> num_workers c = length W \<and>
    distinct (M @ W) \<and> set (M @ W) = set (hw_lcores hw) \<and> length M = tier_num_mgmt (select_tier (length (hw_lcores hw))) \<and>
    M \<noteq> [] \<and> W \<noteq> [] \<and> role c ! hd M = LCORE_ROLE_PRIMARY_MGMT \<and> list_all (tgen_is_mgmt (role c)) M \<and> list_all (tgen_is_worker (role c)) W \<and>
    (\<forall>p<min np TGEN_MAX_PORTS. port_num_workers c ! p \<le> length (port_workers c ! p) \<and> take (port_num_workers c ! p) (port_workers c ! p) =
       filter (\<lambda>l. hw_port_socket hw p = hw_socket hw l \<or> hw_socket hw l = SOCKET_ID_ANY \<or> hw_port_socket hw p = SOCKET_ID_ANY) W)"
  by (rule core_assign_split [OF assms])

definition demo_hw :: hardware where
  "demo_hw = \<lparr>hw_lcores = [0, 1, 2, 3, 4], hw_socket = (\<lambda>l. if l < 2 then 0 else 1), hw_port_socket = (\<lambda>p. 1)\<rparr>"

lemma core_assign_partition_witness:
  "\<exists>c M W. tgen_core_assign_init demo_hw 0 0 False 1 = Some (0, c) \<and> M = take (num_mgmt c) (mgmt_lcores c) \<and> W = take (num_workers c) (worker_lcores c) \<and>
    set (M @ W) = {0, 1, 2, 3, 4} \<and> distinct (M @ W) \<and> length M = 1 \<and>
    take (port_num_workers c ! 0) (port_workers c ! 0) = filter (\<lambda>l. 2 \<le> l) W"
proof -
  have t: "tier_num_mgmt (select_tier 5) = 1" by (simp add: select_tier_eq g_tiers_def)
  have f: "filter (\<lambda>l. hw_port_socket demo_hw 0 = hw_socket demo_hw l \<or> hw_socket demo_hw l = SOCKET_ID_ANY \<or> hw_port_socket demo_hw 0 = SOCKET_ID_ANY) W = filter (\<lambda>l. 2 \<le> l) W" for W
    by (intro filter_cong) (auto simp: demo_hw_def SOCKET_ID_ANY_def)
  have h: "distinct (hw_lcores demo_hw)" "\<forall>l\<in>set (hw_lcores demo_hw). l < TGEN_MAX_LCORES" "2 \<le> length (hw_lcores demo_hw)" "length (hw_lcores demo_hw) \<le> 127"
    by (simp_all add: demo_hw_def TGEN_MAX_LCORES_def)
  have l: "set (hw_lcores demo_hw) = {0, 1, 2, 3, 4}" "length (hw_lcores demo_hw) = 5" by (auto simp: demo_hw_def)
  obtain c M W where "tgen_core_assign_init demo_hw 0 0 False 1 = Some (0, c)" "M = take (num_mgmt c) (mgmt_lcores c)" "W = take (num_workers c) (worker_lcores c)"
    "distinct (M @ W)" "set (M @ W) = set (hw_lcores demo_hw)" "length M = tier_num_mgmt (select_tier (length (hw_lcores demo_hw)))"
    and p: "\<forall>p<min 1 TGEN_MAX_PORTS. port_num_workers c ! p \<le> length (port_workers c ! p) \<and> take (port_num_workers c ! p) (port_workers c ! p) =
       filter (\<lambda>l. hw_port_socket demo_hw p = hw_socket demo_hw l \<or> hw_socket demo_hw l = SOCKET_ID_ANY \<or> hw_port_socket demo_hw p = SOCKET_ID_ANY) W"
    using core_assign_partition [OF h, of 0 0 1] by blast
  moreover from p have "take (port_num_workers c ! 0) (port_workers c ! 0) = filter (\<lambda>l. 2 \<le> l) W" by (simp add: f TGEN_MAX_PORTS_def)
  ultimately show ?thesis unfolding l t by blast
qed

text \<open>
  On a machine with 128 enabled cores the automatic mode assigns 3 management cores and 125 workers, but \<^verbatim>\<open>worker_lcores\<close> has room for
  124: the initialisation writes beyond the array.
\<close>

lemma core_assign_overflow:
  fixes hw :: hardware
  assumes d: "distinct (hw_lcores hw)" and b: "\<forall>l\<in>set (hw_lcores hw). l < TGEN_MAX_LCORES" and n: "length (hw_lcores hw) = 128"
  shows "tgen_core_assign_init hw wh mh False np = None"
proof -
  define ls where "ls = hw_lcores hw"
  have n': "2 \<le> length (hw_lcores hw)" "length (hw_lcores hw) \<le> 128" using n by simp_all
  have t: "tier_num_mgmt (select_tier (length ls)) = 3" using n by (simp add: ls_def select_tier_eq g_tiers_def)
  obtain c M where init: "tgen_core_assign_init hw wh mh False np = worker_pass (length ls - length M) ls c \<bind> (\<lambda>c. Some (0, if np > 0 then assign_ports hw np c else c))"
    and M: "length M = 3" "distinct M" "set M \<subseteq> set ls" and f: "filter (unassigned c) ls = filter (\<lambda>l. l \<notin> set M) ls" and c: "num_workers c = 0"
    by (rule core_assign_mgmt [OF d b n', of wh mh np, folded ls_def, unfolded t])
  have "length (filter (\<lambda>l. l \<notin> set M) ls) = 125" using length_filter_notin [OF d [folded ls_def] M(2,3)] n M(1) by (simp add: ls_def)
  then have "worker_pass (length ls - length M) ls c = None"
    using worker_pass_eq [OF d [folded ls_def], of "length ls - length M" c] f c n M(1) by (auto simp: Let_def ls_def TGEN_MAX_WORKERS_def)
  then show ?thesis by (simp add: init)
qed

lemma core_assign_overflow_witness:
  "tgen_core_assign_init (demo_hw\<lparr>hw_lcores := [0 ..< 128]\<rparr>) 0 0 False 1 = None"
  by (rule core_assign_overflow) (simp_all add: TGEN_MAX_LCORES_def)

text \<open>
  In the manual mode with two management cores on a machine of at most 16 cores (of one socket), the second management core gets the role 0, which is the role of
  a worker: the worker pass assigns the same core again, so it heads the list of the workers while it is the last of the management cores.
\<close>

theorem core_assign_manual_overlap:
  fixes hw :: hardware
  assumes ls: "hw_lcores hw = a # b # ls" and d: "distinct (hw_lcores hw)" and bd: "\<forall>l\<in>set (hw_lcores hw). l < TGEN_MAX_LCORES \<and> hw_socket hw l = 0"
    and n: "length (hw_lcores hw) \<le> 16" and w: "0 < wh"
  shows "\<exists>c. tgen_core_assign_init hw wh 2 True 0 = Some (0, c) \<and> take (num_mgmt c) (mgmt_lcores c) = [a, b] \<and>
    take (num_workers c) (worker_lcores c) = take wh (b # ls) \<and> tgen_is_worker (role c) b"
proof -
  let ?ls = "a # b # ls"
  define t where "t = select_tier (length ?ls)"
  have t: "mgmt_roles t ! 0 = LCORE_ROLE_PRIMARY_MGMT" "mgmt_roles t ! 1 = LCORE_ROLE_WORKER"
    using n by (simp_all add: ls t_def select_tier_eq) (simp_all add: g_tiers_def)
  have b: "\<forall>l\<in>set ?ls. l < TGEN_MAX_LCORES" "distinct ?ls" using bd d by (simp_all add: ls)
  obtain s where s: "populate_socket_map hw ?ls core_map_zero = Some (core_map_zero\<lparr>socket_of_lcore := s\<rparr>)" "\<forall>l\<in>set ?ls. s ! l = 0"
    using populate_socket_map_ok [OF b(1), of core_map_zero hw] bd by (auto simp: core_map_zero_def ls)
  define c1 where "c1 = core_map_zero\<lparr>socket_of_lcore := s\<rparr>"
  define c2 where "c2 = foldl (put_mgmt (mgmt_roles t)) c1 [a, b]"
  have f1: "filter (\<lambda>l. s ! l = 0) ?ls = ?ls" using s(2) by simp
  have "mgmt_pass (\<lambda>c l. socket_of_lcore c ! l = 0) (mgmt_roles t) 2 ?ls c1 = foldl (put_mgmt (mgmt_roles t)) c1 (take 2 (filter (\<lambda>l. s ! l = 0) ?ls))"
    using mgmt_pass_eq [OF b(2), of "\<lambda>c l. socket_of_lcore c ! l = 0" "mgmt_roles t" 2 c1] by (simp add: c1_def core_map_zero_def)
  then have p1: "mgmt_pass (\<lambda>c l. socket_of_lcore c ! l = 0) (mgmt_roles t) 2 ?ls c1 = c2" unfolding f1 by (simp add: c2_def)
  have c1: "num_mgmt c1 + length [a, b] \<le> length (mgmt_lcores c1)" "\<forall>l\<in>set [a, b]. l < length (role c1)" "\<forall>l\<in>set ?ls. role c1 ! l = LCORE_ROLE_WORKER"
    and z: "num_mgmt c1 = 0" "num_workers c1 = 0" "length (worker_lcores c1) = TGEN_MAX_WORKERS" "length (role c1) = TGEN_MAX_LCORES"
    using b(1) by (simp_all add: c1_def core_map_zero_def TGEN_MAX_MGMT_CORES_def)
  have "distinct [a, b]" using b(2) by simp
  note m = put_mgmts [OF this c1(1,2), where roles = "mgmt_roles t", folded c2_def]
  have "role c2 ! l = (if l = a then LCORE_ROLE_PRIMARY_MGMT else LCORE_ROLE_WORKER)" if "l \<in> set ?ls" for l
    using m(5) [of 0] m(5) [of 1] m(6) [of l] c1(3) that t by (cases "l = b") (auto simp: z)
  then have "filter (unassigned c2) ?ls = filter (\<lambda>l. l \<noteq> a) ?ls" by (intro filter_cong) (auto simp: unassigned_def)
  then have f2: "filter (unassigned c2) ?ls = b # ls" using b(2) by (auto simp: filter_id_conv)
  define W where "W = take wh (b # ls)"
  have lW: "length W \<le> TGEN_MAX_WORKERS" using n by (simp add: W_def ls TGEN_MAX_WORKERS_def)
  define c3 where "c3 = foldl put_worker c2 W"
  have p2: "worker_pass wh ?ls c2 = Some c3" using worker_pass_eq [OF b(2), of wh c2] lW f2 by (simp add: m z W_def c3_def Let_def del: worker_pass.simps filter.simps)
  have "set W \<subseteq> set ?ls" unfolding W_def using set_take_subset [of wh "b # ls"] by auto
  then have "num_workers c2 + length W \<le> length (worker_lcores c2)" "\<forall>l\<in>set W. l < length (role c2)" using lW b(1) by (auto simp: m z)
  note w3 = put_workers [OF this, folded c3_def]
  have e: "max 1 (min 2 TGEN_MAX_MGMT_CORES) = 2" "\<not> length ?ls < 2" "wh \<noteq> 0" "\<not> num_mgmt c2 < 2" using w by (simp_all add: TGEN_MAX_MGMT_CORES_def m z)
  have "tgen_core_assign_init hw wh 2 True 0 = Some (0, c3)"
    unfolding tgen_core_assign_init_def Let_def ls if_not_P [OF e(2)] s(1) c1_def [symmetric] t_def [symmetric] if_True e(1) Option.bind.bind_lunit if_not_P [OF e(3)] p1
      if_not_P [OF e(4)] p2 by simp
  moreover have "b \<in> set W" using w by (cases wh) (simp_all add: W_def)
  ultimately show ?thesis using w3 m bd ls by (intro exI [of _ c3]) (simp add: z tgen_is_worker_def W_def del: take_Cons')
qed

lemma core_assign_manual_overlap_witness:
  "\<exists>c. tgen_core_assign_init (demo_hw\<lparr>hw_lcores := [0, 1]\<rparr>) 1 2 True 0 = Some (0, c) \<and> take (num_mgmt c) (mgmt_lcores c) = [0, 1] \<and>
    take (num_workers c) (worker_lcores c) = [1] \<and> tgen_is_worker (role c) 1"
  using core_assign_manual_overlap [of "demo_hw\<lparr>hw_lcores := [0, 1]\<rparr>" 0 1 "[]" 1] by (simp add: demo_hw_def TGEN_MAX_LCORES_def)

end
