(* ===== verification/Ipc.thy ===== *)
theory Ipc
  imports CoreMap TxGen Server
begin

text \<open>
  The messages between the management thread and the workers, \<^verbatim>\<open>core/ipc.c\<close>: one ring of commands and one ring of acknowledgements per
  worker.  A command's payload of 248 bytes is read by the worker as one of several structs; the record has one field for each way of reading
  it.  \<open>ie_poll\<close> lists the workers that take a message between two attempts of a sender; \<open>ipc_log\<close> records what each worker has received and is read by no operation.
\<close>

subsection \<open>Messages and rings\<close>

datatype cfg_cmd = CFG_CMD_NOOP | CFG_CMD_SET_PROFILE | CFG_CMD_START | CFG_CMD_STOP | CFG_CMD_SET_RATE | CFG_CMD_SHUTDOWN | CFG_CMD_SERVE
  | CFG_CMD_STOP_LISTENER | CFG_CMD_RESET | CFG_CMD_STOP_FLOW

record config_update =
  cu_cmd :: cfg_cmd
  cu_seq :: u32
  cu_gen :: tx_gen_config
  cu_srv :: srv_ipc_payload
  cu_index :: u32
  cu_rate :: u64

record ipc_ack =
  ack_worker_idx :: u32
  ack_seq :: u32
  ack_rc :: int

record ipc =
  ipc_rings :: "config_update list option list"
  ack_rings :: "ipc_ack list option list"
  ipc_ring_sz :: nat
  ipc_boxes :: int
  ipc_log :: "config_update list list"
  ipc_ext_pos :: nat
  ipc_tsc_reads :: "nat \<Rightarrow> u64"
  ipc_tsc_pos :: nat

record ipc_env =
  ie_tsc_hz :: u64
  ie_malloc :: "nat \<Rightarrow> bool"
  ie_ring_create :: "nat \<Rightarrow> bool"
  ie_poll :: "nat \<Rightarrow> nat list"

definition IPC_SPIN_TIMEOUT_US :: u64 where "IPC_SPIN_TIMEOUT_US = 100"

definition ipc_rdtsc :: "ipc \<Rightarrow> u64 \<times> ipc" where
  "ipc_rdtsc s = (ipc_tsc_reads s (ipc_tsc_pos s), s\<lparr>ipc_tsc_pos := ipc_tsc_pos s + 1\<rparr>)"

definition ipc_box :: "ipc_env \<Rightarrow> ipc \<Rightarrow> bool \<times> ipc" where
  "ipc_box e s = (let ok = ie_malloc e (ipc_ext_pos s) in (ok, s\<lparr>ipc_ext_pos := ipc_ext_pos s + 1, ipc_boxes := ipc_boxes s + (if ok then 1 else 0)\<rparr>))"

definition ipc_unbox :: "ipc \<Rightarrow> ipc" where
  "ipc_unbox s = s\<lparr>ipc_boxes := ipc_boxes s - 1\<rparr>"

text \<open>A DPDK ring of \<open>n\<close> slots holds \<open>n - 1\<close> entries.\<close>

definition put_ring :: "nat \<Rightarrow> 'a \<Rightarrow> 'a list \<Rightarrow> 'a list option" where
  "put_ring n x q = (if length q < n - 1 then Some (q @ [x]) else None)"

subsection \<open>Operations\<close>

definition ipc_ring_size :: "u32 \<Rightarrow> u32" where
  "ipc_ring_size pipeline_depth =
     (let ring_sz = max 64 (ucast (tgen_next_pow2_u64 (ucast (pipeline_depth * 2)))) in if ring_sz < 64 then 64 else ring_sz)"

fun ipc_init_rings :: "ipc_env \<Rightarrow> nat list \<Rightarrow> ipc \<Rightarrow> int \<times> ipc" where
  "ipc_init_rings e [] s = (0, s)"
| "ipc_init_rings e (w # ws) s =
     (if \<not> ie_ring_create e (2 * w) then (-1, s)
      else
        let s = s\<lparr>ipc_rings := (ipc_rings s)[w := Some []]\<rparr>
        in if \<not> ie_ring_create e (2 * w + 1) then (-1, s)
           else ipc_init_rings e ws (s\<lparr>ack_rings := (ack_rings s)[w := Some []]\<rparr>))"

definition tgen_ipc_init :: "ipc_env \<Rightarrow> core_map \<Rightarrow> u32 \<Rightarrow> ipc \<Rightarrow> int \<times> ipc" where
  "tgen_ipc_init e cm pipeline_depth s =
     ipc_init_rings e [0 ..< num_workers cm]
       (s\<lparr>ipc_rings := replicate TGEN_MAX_WORKERS None, ack_rings := replicate TGEN_MAX_WORKERS None, ipc_ring_sz := unat (ipc_ring_size pipeline_depth)\<rparr>)"

definition tgen_ipc_destroy :: "ipc \<Rightarrow> ipc" where
  "tgen_ipc_destroy s = s\<lparr>ipc_rings := replicate TGEN_MAX_WORKERS None, ack_rings := replicate TGEN_MAX_WORKERS None\<rparr>"

definition tgen_ipc_recv :: "nat \<Rightarrow> ipc \<Rightarrow> config_update option \<times> ipc" where
  "tgen_ipc_recv w s =
     (case ipc_rings s ! w of
        Some (m # q) \<Rightarrow> (Some m, ipc_unbox (s\<lparr>ipc_rings := (ipc_rings s)[w := Some q], ipc_log := (ipc_log s)[w := ipc_log s ! w @ [m]]\<rparr>))
      | _ \<Rightarrow> (None, s))"

definition ipc_poll :: "ipc_env \<Rightarrow> ipc \<Rightarrow> ipc" where
  "ipc_poll e s = foldl (\<lambda>s w. snd (tgen_ipc_recv w s)) (s\<lparr>ipc_ext_pos := ipc_ext_pos s + 1\<rparr>) (ie_poll e (ipc_ext_pos s))"

definition ipc_enqueue :: "nat \<Rightarrow> config_update \<Rightarrow> ipc \<Rightarrow> ipc option" where
  "ipc_enqueue w msg s =
     (case ipc_rings s ! w of
        None \<Rightarrow> None
      | Some q \<Rightarrow> (case put_ring (ipc_ring_sz s) msg q of None \<Rightarrow> None | Some q' \<Rightarrow> Some (s\<lparr>ipc_rings := (ipc_rings s)[w := Some q']\<rparr>)))"

partial_function (option) ipc_spin :: "ipc_env \<Rightarrow> nat \<Rightarrow> config_update \<Rightarrow> u64 \<Rightarrow> u64 \<Rightarrow> ipc \<Rightarrow> (int \<times> ipc) option" where
  "ipc_spin e w msg t0 timeout_tsc s =
     (case ipc_enqueue w msg s of
        Some s' \<Rightarrow> Some (0, s')
      | None \<Rightarrow>
          if fst (ipc_rdtsc s) - t0 > timeout_tsc then Some (-1, ipc_unbox (snd (ipc_rdtsc s)))
          else ipc_spin e w msg t0 timeout_tsc (ipc_poll e (snd (ipc_rdtsc s))))"

definition spin_timeout :: "ipc_env \<Rightarrow> u64" where
  "spin_timeout e = (if ie_tsc_hz e \<noteq> 0 then ie_tsc_hz e * IPC_SPIN_TIMEOUT_US div 1000000 else IPC_SPIN_TIMEOUT_US * 1000)"

definition tgen_ipc_send :: "ipc_env \<Rightarrow> nat \<Rightarrow> config_update \<Rightarrow> ipc \<Rightarrow> (int \<times> ipc) option" where
  "tgen_ipc_send e w msg s =
     (if w \<ge> length (ipc_rings s) then None
      else if ipc_rings s ! w = None then Some (-1, s)
      else
        let (ok, s) = ipc_box e s
        in if \<not> ok then Some (-1, s)
           else let (t0, s) = ipc_rdtsc s in ipc_spin e w msg t0 (spin_timeout e) s)"

fun broadcast_to :: "ipc_env \<Rightarrow> config_update \<Rightarrow> nat list \<Rightarrow> nat \<Rightarrow> ipc \<Rightarrow> (nat \<times> ipc) option" where
  "broadcast_to e msg [] n s = Some (n, s)"
| "broadcast_to e msg (w # ws) n s = do { (rc, s) \<leftarrow> tgen_ipc_send e w msg s; broadcast_to e msg ws (if rc = 0 then n + 1 else n) s }"

definition tgen_ipc_broadcast :: "ipc_env \<Rightarrow> core_map \<Rightarrow> config_update \<Rightarrow> ipc \<Rightarrow> (nat \<times> ipc) option" where
  "tgen_ipc_broadcast e cm msg s = broadcast_to e msg [0 ..< num_workers cm] 0 s"

definition tgen_ipc_ack :: "ipc_env \<Rightarrow> nat \<Rightarrow> u32 \<Rightarrow> int \<Rightarrow> ipc \<Rightarrow> ipc" where
  "tgen_ipc_ack e w sq rc s =
     (case ack_rings s ! w of
        None \<Rightarrow> s
      | Some q \<Rightarrow>
          let (ok, s) = ipc_box e s
          in if \<not> ok then s
             else case put_ring (ipc_ring_sz s) \<lparr>ack_worker_idx = word_of_nat w, ack_seq = sq, ack_rc = rc\<rparr> q of
                    None \<Rightarrow> ipc_unbox s
                  | Some q' \<Rightarrow> s\<lparr>ack_rings := (ack_rings s)[w := Some q']\<rparr>)"

definition tgen_ipc_collect_ack :: "nat \<Rightarrow> ipc \<Rightarrow> ipc_ack option \<times> ipc" where
  "tgen_ipc_collect_ack w s =
     (case ack_rings s ! w of
        Some (a # q) \<Rightarrow> (Some a, ipc_unbox (s\<lparr>ack_rings := (ack_rings s)[w := Some q]\<rparr>))
      | _ \<Rightarrow> (None, s))"

text \<open>The management loop empties every acknowledgement ring; errors are only logged.\<close>

definition drain_acks :: "nat \<Rightarrow> ipc \<Rightarrow> ipc" where
  "drain_acks w s =
     (case ack_rings s ! w of
        None \<Rightarrow> s
      | Some q \<Rightarrow> foldl (\<lambda>s _. snd (tgen_ipc_collect_ack w s)) s q)"

definition ipc_ack_drain :: "core_map \<Rightarrow> ipc \<Rightarrow> ipc" where
  "ipc_ack_drain cm s = foldl (\<lambda>s w. drain_acks w s) s [0 ..< num_workers cm]"

subsection \<open>The rings keep their bounds and their messages\<close>

definition queued :: "'a list option list \<Rightarrow> nat" where
  "queued rs = sum_list (map (case_option 0 length) rs)"

definition ring_bound :: "nat \<Rightarrow> 'a list option list \<Rightarrow> bool" where
  "ring_bound n rs \<longleftrightarrow> length rs = TGEN_MAX_WORKERS \<and> list_all (case_option True (\<lambda>q. length q \<le> n - 1)) rs"

text \<open>Every boxed message is in exactly one ring: none is leaked or freed twice.\<close>

definition ipc_ok :: "ipc \<Rightarrow> bool" where
  "ipc_ok s \<longleftrightarrow> ring_bound (ipc_ring_sz s) (ipc_rings s) \<and> ring_bound (ipc_ring_sz s) (ack_rings s) \<and> length (ipc_log s) = TGEN_MAX_WORKERS \<and>
     ipc_boxes s = int (queued (ipc_rings s) + queued (ack_rings s))"

definition stream :: "nat \<Rightarrow> ipc \<Rightarrow> config_update list" where
  "stream w s = ipc_log s ! w @ case_option [] (\<lambda>q. q) (ipc_rings s ! w)"

lemma queued_update:
  assumes "w < length rs"
  shows "queued (rs[w := r]) + case_option 0 length (rs ! w) = queued rs + case_option 0 length r"
  using assms
proof (induction rs arbitrary: w)
  case (Cons x rs)
  then show ?case by (cases w) (auto simp: queued_def split: option.splits)
qed simp

lemma ring_bound_update: "ring_bound n rs \<Longrightarrow> case_option True (\<lambda>q. length q \<le> n - 1) r \<Longrightarrow> ring_bound n (rs[w := r])"
  by (auto simp: ring_bound_def list_all_iff simp del: One_nat_def dest!: set_update_subset_insert [THEN subsetD])

lemma ring_boundD: "ring_bound n rs \<Longrightarrow> w < TGEN_MAX_WORKERS \<Longrightarrow> rs ! w = Some q \<Longrightarrow> length q \<le> n - 1"
  by (auto simp: ring_bound_def list_all_length dest: spec [of _ w])

text \<open>What an operation may do to the streams of messages: each worker's stream grows by the messages \<open>g w\<close>, and what was received stays received.\<close>

definition ipc_step :: "ipc \<Rightarrow> ipc \<Rightarrow> (nat \<Rightarrow> config_update list) \<Rightarrow> bool" where
  "ipc_step s s' g \<longleftrightarrow> ipc_ok s' \<and> ipc_ring_sz s' = ipc_ring_sz s \<and> ipc_tsc_reads s' = ipc_tsc_reads s \<and> ipc_tsc_pos s \<le> ipc_tsc_pos s' \<and>
     (\<forall>w<TGEN_MAX_WORKERS. stream w s' = stream w s @ g w \<and> (ipc_rings s' ! w = None \<longleftrightarrow> ipc_rings s ! w = None) \<and>
       length (ipc_log s ! w) \<le> length (ipc_log s' ! w))"

lemma ipc_step_refl: "ipc_ok s \<Longrightarrow> ipc_step s s (\<lambda>_. [])"
  by (simp add: ipc_step_def)

lemma ipc_step_trans: "ipc_step a b f \<Longrightarrow> ipc_step b c g \<Longrightarrow> ipc_step a c (\<lambda>w. f w @ g w)"
  by (auto simp: ipc_step_def intro: order_trans)

lemma ipc_step_ok: "ipc_step s s' g \<Longrightarrow> ipc_ok s'"
  by (simp add: ipc_step_def)

lemma ipc_step_clock: "ipc_ok s \<Longrightarrow> ipc_step s (snd (ipc_rdtsc s)) (\<lambda>_. [])"
  by (simp add: ipc_step_def ipc_rdtsc_def ipc_ok_def stream_def)

lemma ipc_step_ext: "ipc_ok s \<Longrightarrow> ipc_step s (s\<lparr>ipc_ext_pos := x\<rparr>) (\<lambda>_. [])"
  by (simp add: ipc_step_def ipc_ok_def stream_def)

lemma recv_step:
  assumes "ipc_ok s" "w < TGEN_MAX_WORKERS"
  shows "ipc_step s (snd (tgen_ipc_recv w s)) (\<lambda>_. [])"
proof (cases "\<exists>m q. ipc_rings s ! w = Some (m # q)")
  case True
  then obtain m q where q: "ipc_rings s ! w = Some (m # q)" by blast
  have l: "w < length (ipc_rings s)" "w < length (ipc_log s)" using assms by (simp_all add: ipc_ok_def ring_bound_def)
  have "length (m # q) \<le> ipc_ring_sz s - 1" using assms q ring_boundD unfolding ipc_ok_def by blast
  then have "ring_bound (ipc_ring_sz s) ((ipc_rings s)[w := Some q])" using assms by (intro ring_bound_update) (auto simp: ipc_ok_def)
  then show ?thesis
    using assms queued_update [OF l(1), of "Some q"] q l by (auto simp: ipc_step_def ipc_ok_def tgen_ipc_recv_def ipc_unbox_def stream_def nth_list_update)
next
  case False
  then have "tgen_ipc_recv w s = (None, s)" by (auto simp: tgen_ipc_recv_def split: option.splits list.splits)
  then show ?thesis using assms ipc_step_refl by simp
qed

lemma poll_step:
  assumes "ipc_ok s" "\<forall>k. list_all (\<lambda>w. w < TGEN_MAX_WORKERS) (ie_poll e k)"
  shows "ipc_step s (ipc_poll e s) (\<lambda>_. [])"
proof -
  have "ipc_step s (foldl (\<lambda>s w. snd (tgen_ipc_recv w s)) s ws) (\<lambda>_. [])" if "ipc_ok s" "list_all (\<lambda>w. w < TGEN_MAX_WORKERS) ws" for s ws
    using that
  proof (induction ws arbitrary: s)
    case (Cons w ws)
    then have r: "ipc_step s (snd (tgen_ipc_recv w s)) (\<lambda>_. [])" by (intro recv_step) simp_all
    from ipc_step_trans [OF r Cons.IH [OF ipc_step_ok [OF r]]] Cons.prems show ?case by simp
  qed (simp add: ipc_step_refl)
  from ipc_step_trans [OF ipc_step_ext [OF assms(1)] this [OF ipc_step_ok [OF ipc_step_ext [OF assms(1)]]]] assms(2) show ?thesis
    unfolding ipc_poll_def by simp
qed

text \<open>Worker \<open>w\<close> is sure to get the next \<open>k\<close> messages: allocations succeed and its ring has room for them.\<close>

definition accepts :: "ipc_env \<Rightarrow> nat \<Rightarrow> ipc \<Rightarrow> nat \<Rightarrow> bool" where
  "accepts e k s w \<longleftrightarrow> (\<forall>j. ie_malloc e j) \<and> (case ipc_rings s ! w of None \<Rightarrow> False | Some q \<Rightarrow> length q + k \<le> ipc_ring_sz s - 1)"

text \<open>What has been sent in between takes its room away, nothing else does.\<close>

lemma accepts_step:
  assumes "ipc_step s s' g" "w < TGEN_MAX_WORKERS" "accepts e (length (g w) + k) s w"
  shows "accepts e k s' w"
proof -
  have st: "stream w s' = stream w s @ g w" "ipc_rings s' ! w = None \<longleftrightarrow> ipc_rings s ! w = None" "length (ipc_log s ! w) \<le> length (ipc_log s' ! w)"
    "ipc_ring_sz s' = ipc_ring_sz s" using assms(1,2) by (auto simp: ipc_step_def)
  from assms(3) st(2) obtain q q' where q: "ipc_rings s ! w = Some q" "ipc_rings s' ! w = Some q'" by (auto simp: accepts_def split: option.splits)
  have "length (ipc_log s' ! w) + length q' = length (ipc_log s ! w) + length q + length (g w)"
    using arg_cong [OF st(1), of length] q by (simp add: stream_def)
  then show ?thesis using assms(3) st(3,4) q by (simp add: accepts_def)
qed

lemma accepts_mono: "accepts e k s w \<Longrightarrow> j \<le> k \<Longrightarrow> accepts e j s w"
  by (auto simp: accepts_def split: option.splits)

subsection \<open>Sending\<close>

lemma poll_frame: "ipc_tsc_pos (ipc_poll e s) = ipc_tsc_pos s" "ipc_tsc_reads (ipc_poll e s) = ipc_tsc_reads s"
proof -
  have "ipc_tsc_pos (snd (tgen_ipc_recv w s)) = ipc_tsc_pos s \<and> ipc_tsc_reads (snd (tgen_ipc_recv w s)) = ipc_tsc_reads s" for w s
    by (simp add: tgen_ipc_recv_def ipc_unbox_def split: option.split list.split)
  then have "ipc_tsc_pos (foldl (\<lambda>s w. snd (tgen_ipc_recv w s)) s ws) = ipc_tsc_pos s \<and>
      ipc_tsc_reads (foldl (\<lambda>s w. snd (tgen_ipc_recv w s)) s ws) = ipc_tsc_reads s" for s ws
    by (induction ws arbitrary: s) simp_all
  then show "ipc_tsc_pos (ipc_poll e s) = ipc_tsc_pos s" "ipc_tsc_reads (ipc_poll e s) = ipc_tsc_reads s" by (simp_all add: ipc_poll_def)
qed

lemma enqueue_step:
  assumes "ipc_enqueue w m s = Some s'" "ipc_ok (ipc_unbox s)" "w < TGEN_MAX_WORKERS"
  shows "ipc_step (ipc_unbox s) s' (\<lambda>v. if v = w then [m] else [])"
proof -
  from assms(1) obtain q where q: "ipc_rings s ! w = Some q" "length q < ipc_ring_sz s - 1" "s' = s\<lparr>ipc_rings := (ipc_rings s)[w := Some (q @ [m])]\<rparr>"
    by (auto simp: ipc_enqueue_def put_ring_def split: option.splits if_splits)
  have l: "w < length (ipc_rings s)" using assms(2,3) by (simp add: ipc_ok_def ring_bound_def ipc_unbox_def)
  have "ring_bound (ipc_ring_sz s) ((ipc_rings s)[w := Some (q @ [m])])" using assms(2) q(2) by (intro ring_bound_update) (simp_all add: ipc_ok_def ipc_unbox_def)
  then show ?thesis
    using assms(2) queued_update [OF l, of "Some (q @ [m])"] q(1,3) l by (auto simp: ipc_step_def ipc_ok_def ipc_unbox_def stream_def nth_list_update)
qed

text \<open>After any read of the clock a later one shows that the timeout has passed.\<close>

definition ipc_clock :: "ipc_env \<Rightarrow> ipc \<Rightarrow> bool" where
  "ipc_clock e s \<longleftrightarrow> (\<forall>m. \<exists>n>m. spin_timeout e < ipc_tsc_reads s n - ipc_tsc_reads s m)"

lemma unbox_rdtsc: "ipc_unbox (snd (ipc_rdtsc s)) = snd (ipc_rdtsc (ipc_unbox s))"
  by (simp add: ipc_unbox_def ipc_rdtsc_def)

lemma unbox_recv: "ipc_unbox (snd (tgen_ipc_recv w s)) = snd (tgen_ipc_recv w (ipc_unbox s))"
  by (auto simp: ipc_unbox_def tgen_ipc_recv_def split: option.splits list.splits)

lemma unbox_poll: "ipc_unbox (ipc_poll e s) = ipc_poll e (ipc_unbox s)"
proof -
  have "ipc_unbox (foldl (\<lambda>s w. snd (tgen_ipc_recv w s)) s ws) = foldl (\<lambda>s w. snd (tgen_ipc_recv w s)) (ipc_unbox s) ws" for s ws
    by (induction ws arbitrary: s) (simp_all add: unbox_recv)
  moreover have "ipc_unbox (s\<lparr>ipc_ext_pos := x\<rparr>) = (ipc_unbox s)\<lparr>ipc_ext_pos := x\<rparr>" "ipc_ext_pos (ipc_unbox s) = ipc_ext_pos s" for x
    by (simp_all add: ipc_unbox_def)
  ultimately show ?thesis by (simp add: ipc_poll_def)
qed

text \<open>The spin ends, with the message in the ring or given back.\<close>

lemma spin_ok:
  assumes "ipc_ok (ipc_unbox s)" "w < TGEN_MAX_WORKERS" "\<forall>k. list_all (\<lambda>w. w < TGEN_MAX_WORKERS) (ie_poll e k)"
    "ipc_tsc_pos s \<le> n" "tmo < ipc_tsc_reads s n - t0"
  shows "yields (ipc_spin e w m t0 tmo s) (\<lambda>(rc, s'). ipc_step (ipc_unbox s) s' (\<lambda>v. if rc = 0 \<and> v = w then [m] else []))"
  using assms
proof (induction "n - ipc_tsc_pos s" arbitrary: s rule: less_induct)
  case less
  let ?u = "ipc_unbox s" and ?s = "snd (ipc_rdtsc s)"
  show ?case
  proof (cases "ipc_enqueue w m s")
    case (Some s')
    then show ?thesis using enqueue_step [OF Some less.prems(1,2)] by (simp add: ipc_spin.simps)
  next
    case None
    have c: "ipc_step ?u (ipc_unbox ?s) (\<lambda>_. [])" unfolding unbox_rdtsc by (rule ipc_step_clock [OF less.prems(1)])
    show ?thesis
    proof (cases "fst (ipc_rdtsc s) - t0 > tmo")
      case True
      then show ?thesis using None c by (simp add: ipc_spin.simps)
    next
      case False
      then have "ipc_tsc_pos s \<noteq> n" using less.prems(5) by (auto simp: ipc_rdtsc_def)
      then have n: "ipc_tsc_pos s < n" using less.prems(4) by simp
      let ?p = "ipc_poll e ?s"
      have p: "ipc_step (ipc_unbox ?s) (ipc_unbox ?p) (\<lambda>_. [])" unfolding unbox_poll by (rule poll_step [OF ipc_step_ok [OF c] less.prems(3)])
      have pp: "ipc_tsc_pos ?p = Suc (ipc_tsc_pos s)" "ipc_tsc_reads ?p = ipc_tsc_reads s"
        using poll_frame [of e ?s] by (simp_all add: ipc_rdtsc_def)
      have "yields (ipc_spin e w m t0 tmo ?p) (\<lambda>(rc, s'). ipc_step (ipc_unbox ?p) s' (\<lambda>v. if rc = 0 \<and> v = w then [m] else []))"
        using n pp less.prems(2,3,5) ipc_step_ok [OF p] by (intro less.hyps) auto
      moreover have "ipc_spin e w m t0 tmo s = ipc_spin e w m t0 tmo ?p" using None False by (subst ipc_spin.simps) simp
      ultimately show ?thesis using ipc_step_trans [OF ipc_step_trans [OF c p]] by (fastforce elim!: yields_mono)
    qed
  qed
qed

lemma send_ok:
  assumes "ipc_ok s" "w < TGEN_MAX_WORKERS" "\<forall>k. list_all (\<lambda>w. w < TGEN_MAX_WORKERS) (ie_poll e k)" "ipc_clock e s"
  shows "yields (tgen_ipc_send e w m s) (\<lambda>(rc, s'). ipc_step s s' (\<lambda>v. if rc = 0 \<and> v = w then [m] else []) \<and> (accepts e 1 s w \<longrightarrow> rc = 0))"
proof -
  have l: "w < length (ipc_rings s)" using assms(1,2) by (simp add: ipc_ok_def ring_bound_def)
  define s1 where "s1 = snd (ipc_box e s)"
  have b: "fst (ipc_box e s) \<Longrightarrow> ipc_step s (ipc_unbox s1) (\<lambda>_. [])" "\<not> fst (ipc_box e s) \<Longrightarrow> ipc_step s s1 (\<lambda>_. [])"
    using ipc_step_ext [OF assms(1), of "Suc (ipc_ext_pos s)"] by (simp_all add: s1_def ipc_box_def ipc_unbox_def Let_def ipc_step_def ipc_ok_def stream_def)
  let ?s2 = "snd (ipc_rdtsc s1)"
  have r: "ipc_tsc_reads s1 = ipc_tsc_reads s" by (simp add: s1_def ipc_box_def Let_def)
  obtain n where n: "n > ipc_tsc_pos s1" "spin_timeout e < ipc_tsc_reads s n - ipc_tsc_reads s (ipc_tsc_pos s1)" using assms(4) unfolding ipc_clock_def by blast
  show ?thesis
  proof (cases "ipc_rings s ! w = None \<or> \<not> fst (ipc_box e s)")
    case True
    then have "\<not> accepts e 1 s w" by (auto simp: accepts_def ipc_box_def)
    then show ?thesis using True l b(2) ipc_step_refl [OF assms(1)] by (auto simp: tgen_ipc_send_def s1_def split: prod.split)
  next
    case False
    then have f: "fst (ipc_box e s)" by simp
    have c: "ipc_step s (ipc_unbox ?s2) (\<lambda>_. [])" using ipc_step_trans [OF b(1) [OF f] ipc_step_clock [OF ipc_step_ok [OF b(1) [OF f]]]] by (simp add: unbox_rdtsc)
    have "yields (ipc_spin e w m (fst (ipc_rdtsc s1)) (spin_timeout e) ?s2) (\<lambda>(rc, s'). ipc_step (ipc_unbox ?s2) s' (\<lambda>v. if rc = 0 \<and> v = w then [m] else []))"
      using n r by (intro spin_ok [OF ipc_step_ok [OF c] assms(2,3), of n]) (simp_all add: ipc_rdtsc_def)
    moreover have "tgen_ipc_send e w m s = ipc_spin e w m (fst (ipc_rdtsc s1)) (spin_timeout e) ?s2"
      using False l by (auto simp: tgen_ipc_send_def s1_def split_def Let_def)
    moreover have "\<exists>s'. ipc_spin e w m (fst (ipc_rdtsc s1)) (spin_timeout e) ?s2 = Some (0, s')" if "accepts e 1 s w"
    proof -
      have "ipc_enqueue w m ?s2 \<noteq> None" using that by (auto simp: accepts_def ipc_enqueue_def put_ring_def s1_def ipc_box_def ipc_rdtsc_def Let_def split: option.splits)
      then show ?thesis by (auto simp: ipc_spin.simps)
    qed
    ultimately show ?thesis using ipc_step_trans [OF c] by (fastforce simp: yields_def)
  qed
qed

lemma ack_step:
  assumes "ipc_ok s" "w < TGEN_MAX_WORKERS"
  shows "ipc_step s (tgen_ipc_ack e w sq rc s) (\<lambda>_. [])" "ipc_step s (snd (tgen_ipc_collect_ack w s)) (\<lambda>_. [])"
proof -
  have l: "w < length (ack_rings s)" using assms by (simp add: ipc_ok_def ring_bound_def)
  have b: "ring_bound (ipc_ring_sz s) ((ack_rings s)[w := r])" if "case_option True (\<lambda>q. length q \<le> ipc_ring_sz s - 1) r" for r
    using assms(1) that by (intro ring_bound_update) (simp_all add: ipc_ok_def)
  note u = queued_update [OF l]
  show "ipc_step s (tgen_ipc_ack e w sq rc s) (\<lambda>_. [])"
  proof (cases "ack_rings s ! w")
    case None
    then show ?thesis by (simp add: tgen_ipc_ack_def ipc_step_refl [OF assms(1)])
  next
    case (Some q)
    define a where "a = \<lparr>ack_worker_idx = word_of_nat w, ack_seq = sq, ack_rc = rc\<rparr>"
    show ?thesis using assms u [of "Some (q @ [a])"] b [of "Some (q @ [a])"] Some unfolding tgen_ipc_ack_def a_def [symmetric]
      by (auto simp: ipc_box_def ipc_unbox_def put_ring_def Let_def ipc_step_def ipc_ok_def stream_def simp del: One_nat_def)
  qed
  show "ipc_step s (snd (tgen_ipc_collect_ack w s)) (\<lambda>_. [])"
  proof (cases "\<exists>a q. ack_rings s ! w = Some (a # q)")
    case True
    then obtain a q where q: "ack_rings s ! w = Some (a # q)" by blast
    then have "length (a # q) \<le> ipc_ring_sz s - 1" using assms ring_boundD unfolding ipc_ok_def by blast
    then show ?thesis using assms u [of "Some q"] b [of "Some q"] q
      by (auto simp: tgen_ipc_collect_ack_def ipc_unbox_def ipc_step_def ipc_ok_def stream_def)
  next
    case False
    then have "tgen_ipc_collect_ack w s = (None, s)" by (auto simp: tgen_ipc_collect_ack_def split: option.splits list.splits)
    then show ?thesis using ipc_step_refl [OF assms(1)] by simp
  qed
qed

subsection \<open>Runs\<close>

datatype ipc_op = Send nat config_update | Recv nat | Ack nat u32 int | Collect nat

fun op_worker :: "ipc_op \<Rightarrow> nat" where
  "op_worker (Send w m) = w" | "op_worker (Recv w) = w" | "op_worker (Ack w sq rc) = w" | "op_worker (Collect w) = w"

text \<open>A run of operations of both sides in any order, with the messages that a sender was told were accepted.\<close>

fun ipc_run :: "ipc_env \<Rightarrow> ipc_op list \<Rightarrow> ipc \<Rightarrow> ((nat \<times> config_update) list \<times> ipc) option" where
  "ipc_run e [] s = Some ([], s)"
| "ipc_run e (Send w m # ops) s =
     do { (rc, s) \<leftarrow> tgen_ipc_send e w m s; (acc, s) \<leftarrow> ipc_run e ops s; Some (if rc = 0 then (w, m) # acc else acc, s) }"
| "ipc_run e (Recv w # ops) s = ipc_run e ops (snd (tgen_ipc_recv w s))"
| "ipc_run e (Ack w sq rc # ops) s = ipc_run e ops (tgen_ipc_ack e w sq rc s)"
| "ipc_run e (Collect w # ops) s = ipc_run e ops (snd (tgen_ipc_collect_ack w s))"

definition sent_to :: "nat \<Rightarrow> (nat \<times> config_update) list \<Rightarrow> config_update list" where
  "sent_to w acc = map snd (filter (\<lambda>x. fst x = w) acc)"

lemma ipc_clock_step: "ipc_step s s' g \<Longrightarrow> ipc_clock e s \<Longrightarrow> ipc_clock e s'"
  by (simp add: ipc_step_def ipc_clock_def)

lemma ipc_run_ok:
  assumes "ipc_ok s" "list_all (\<lambda>x. op_worker x < TGEN_MAX_WORKERS) ops" "\<forall>k. list_all (\<lambda>w. w < TGEN_MAX_WORKERS) (ie_poll e k)" "ipc_clock e s"
  shows "yields (ipc_run e ops s) (\<lambda>(acc, s'). ipc_step s s' (\<lambda>w. sent_to w acc))"
  using assms
proof (induction e ops s rule: ipc_run.induct)
  case (1 e s)
  then show ?case by (simp add: sent_to_def ipc_step_refl)
next
  case (2 e w m ops s)
  from send_ok [OF 2(2) _ 2(4,5), of w m] 2(3) obtain rc s1 where s1: "tgen_ipc_send e w m s = Some (rc, s1)" "ipc_step s s1 (\<lambda>v. if rc = 0 \<and> v = w then [m] else [])"
    by (auto simp: yields_def)
  from 2(1) [OF s1(1) refl ipc_step_ok [OF s1(2)] _ 2(4) ipc_clock_step [OF s1(2) 2(5)]] 2(3)
  obtain acc s2 where s2: "ipc_run e ops s1 = Some (acc, s2)" "ipc_step s1 s2 (\<lambda>w. sent_to w acc)" by (auto simp: yields_def)
  have "(\<lambda>v. (if rc = 0 \<and> v = w then [m] else []) @ sent_to v acc) = (\<lambda>v. sent_to v (if rc = 0 then (w, m) # acc else acc))" by (auto simp: sent_to_def fun_eq_iff)
  then show ?case using ipc_step_trans [OF s1(2) s2(2)] s1(1) s2(1) by simp
next
  case (3 e w ops s)
  have r: "ipc_step s (snd (tgen_ipc_recv w s)) (\<lambda>_. [])" using 3(2,3) by (intro recv_step) simp_all
  from 3(1) [OF ipc_step_ok [OF r] _ 3(4) ipc_clock_step [OF r 3(5)]] 3(3) ipc_step_trans [OF r] show ?case by (fastforce elim!: yields_mono)
next
  case (4 e w sq rc ops s)
  have r: "ipc_step s (tgen_ipc_ack e w sq rc s) (\<lambda>_. [])" using 4(2,3) by (intro ack_step) simp_all
  from 4(1) [OF ipc_step_ok [OF r] _ 4(4) ipc_clock_step [OF r 4(5)]] 4(3) ipc_step_trans [OF r] show ?case by (fastforce elim!: yields_mono)
next
  case (5 e w ops s)
  have r: "ipc_step s (snd (tgen_ipc_collect_ack w s)) (\<lambda>_. [])" using 5(2,3) by (intro ack_step) simp_all
  from 5(1) [OF ipc_step_ok [OF r] _ 5(4) ipc_clock_step [OF r 5(5)]] 5(3) ipc_step_trans [OF r] show ?case by (fastforce elim!: yields_mono)
qed

text \<open>
  C19. The command rings are reliable queues.  Whatever operations the management thread and the workers perform, in any order, every one
  returns (a sender that finds a full ring gives up after its timeout), no ring holds more than its capacity, no message box is
  leaked or freed twice, and for every worker the messages it has received followed by those still queued are exactly the messages whose senders were told
  they were accepted, in the order of sending.
\<close>

theorem ipc_reliable_fifo:
  assumes "ipc_ok s" "list_all (\<lambda>x. op_worker x < TGEN_MAX_WORKERS) ops" "\<forall>k. list_all (\<lambda>w. w < TGEN_MAX_WORKERS) (ie_poll e k)" "ipc_clock e s"
  shows "\<exists>acc s'. ipc_run e ops s = Some (acc, s') \<and> ipc_ok s' \<and> (\<forall>w<TGEN_MAX_WORKERS. stream w s' = stream w s @ sent_to w acc)"
  using ipc_run_ok [OF assms] by (auto simp: yields_def ipc_step_def)

lemma ipc_ring_size_pow2: "\<exists>n. unat (ipc_ring_size d) = 2 ^ n"
proof (cases "d * 2 = 0")
  case True
  have "tgen_next_pow2_u64 0 = 1" by (simp add: tgen_next_pow2_u64_def)
  then have "unat (ipc_ring_size d) = 2 ^ 6" using True by (simp add: ipc_ring_size_def Let_def)
  then show ?thesis by blast
next
  case False
  let ?v = "ucast (d * 2) :: u64"
  have lt: "unat (d * 2) < 2 ^ 32" using unsigned_less [of "d * 2"] by simp
  then have u: "unat ?v = unat (d * 2)" by (simp add: unsigned_ucast_eq take_bit_nat_eq_self)
  from lt have "0 < unat ?v" "unat ?v \<le> 2 ^ 63" using False u by (auto simp: unat_gt_0)
  from next_pow2_in_range [OF this] obtain n where n: "unat (tgen_next_pow2_u64 ?v) = 2 ^ n" by blast
  define c where "c = (ucast (tgen_next_pow2_u64 ?v) :: u32)"
  have "unat c = 2 ^ n mod 2 ^ 32" using n by (simp add: c_def unsigned_ucast_eq take_bit_eq_mod)
  moreover have "(2 :: nat) ^ n < 2 ^ 32" if "n < 32" using that by (rule power_strict_increasing) simp
  moreover have "(2 :: nat) ^ n mod 2 ^ 32 = 0" if "\<not> n < 32" using that le_imp_power_dvd [of 32 n "2 :: nat"] by (simp add: not_less dvd_imp_mod_0)
  ultimately have c: "unat c = (if n < 32 then 2 ^ n else 0)" by simp
  have "ipc_ring_size d = max 64 c" by (simp add: ipc_ring_size_def c_def Let_def not_less)
  then have "unat (ipc_ring_size d) = max 64 (unat c)" by (simp add: max_def word_le_nat_alt)
  then have "unat (ipc_ring_size d) = 2 ^ 6 \<or> unat (ipc_ring_size d) = 2 ^ n" using c by (auto simp: max_def split: if_splits)
  then show ?thesis by blast
qed

lemma empty_rings_update: "list_all (\<lambda>r. r = None \<or> r = Some []) xs \<Longrightarrow> list_all (\<lambda>r. r = None \<or> r = Some []) (xs[w := Some []])"
  by (auto simp: list_all_iff dest!: set_update_subset_insert [THEN subsetD])

lemma empty_rings_bound: "length xs = TGEN_MAX_WORKERS \<Longrightarrow> list_all (\<lambda>r. r = None \<or> r = Some []) xs \<Longrightarrow> ring_bound n xs"
  by (auto simp: ring_bound_def list_all_iff split: option.splits)

lemma ipc_init_rings_ok:
  assumes "\<forall>k. ie_ring_create e k" "list_all (\<lambda>w. w < TGEN_MAX_WORKERS) ws" "length (ipc_rings s) = TGEN_MAX_WORKERS" "length (ack_rings s) = TGEN_MAX_WORKERS"
    "list_all (\<lambda>r. r = None \<or> r = Some []) (ipc_rings s)" "list_all (\<lambda>r. r = None \<or> r = Some []) (ack_rings s)"
  shows "\<exists>rs as. ipc_init_rings e ws s = (0, s\<lparr>ipc_rings := rs, ack_rings := as\<rparr>) \<and> length rs = TGEN_MAX_WORKERS \<and> length as = TGEN_MAX_WORKERS \<and>
    list_all (\<lambda>r. r = None \<or> r = Some []) rs \<and> list_all (\<lambda>r. r = None \<or> r = Some []) as \<and>
    (\<forall>w. rs ! w = (if w \<in> set ws then Some [] else ipc_rings s ! w)) \<and> (\<forall>w. as ! w = (if w \<in> set ws then Some [] else ack_rings s ! w))"
  using assms
proof (induction ws arbitrary: s)
  case Nil
  then show ?case by (intro exI [of _ "ipc_rings s"] exI [of _ "ack_rings s"]) simp
next
  case (Cons w ws)
  let ?s = "s\<lparr>ipc_rings := (ipc_rings s)[w := Some []], ack_rings := (ack_rings s)[w := Some []]\<rparr>"
  have "ipc_init_rings e (w # ws) s = ipc_init_rings e ws ?s" using Cons.prems(1) by (simp add: Let_def)
  moreover from Cons.IH [of ?s] Cons.prems obtain rs as where "ipc_init_rings e ws ?s = (0, ?s\<lparr>ipc_rings := rs, ack_rings := as\<rparr>)" "length rs = TGEN_MAX_WORKERS"
    "length as = TGEN_MAX_WORKERS" "list_all (\<lambda>r. r = None \<or> r = Some []) rs" "list_all (\<lambda>r. r = None \<or> r = Some []) as"
    "\<forall>v. rs ! v = (if v \<in> set ws then Some [] else (ipc_rings s)[w := Some []] ! v)" "\<forall>v. as ! v = (if v \<in> set ws then Some [] else (ack_rings s)[w := Some []] ! v)"
    by (auto simp: empty_rings_update)
  ultimately show ?case using Cons.prems by (intro exI [of _ rs] exI [of _ as]) (simp add: nth_list_update)
qed

lemma queued_empty: "list_all (\<lambda>r. r = None \<or> r = Some []) rs \<Longrightarrow> queued rs = 0"
  by (induction rs) (auto simp: queued_def)

text \<open>After the initialisation every worker has empty rings of a size that is a power of two, as DPDK asks.\<close>

lemma tgen_ipc_init_ok:
  assumes "\<forall>k. ie_ring_create e k" "num_workers cm \<le> TGEN_MAX_WORKERS" "ipc_boxes s = 0" "length (ipc_log s) = TGEN_MAX_WORKERS"
  shows "\<exists>s'. tgen_ipc_init e cm d s = (0, s') \<and> ipc_ok s' \<and> (\<exists>n. ipc_ring_sz s' = 2 ^ n) \<and> 64 \<le> ipc_ring_sz s' \<and> ipc_log s' = ipc_log s \<and>
    (\<forall>w<num_workers cm. ipc_rings s' ! w = Some [] \<and> ack_rings s' ! w = Some [])"
proof -
  let ?s = "s\<lparr>ipc_rings := replicate TGEN_MAX_WORKERS None, ack_rings := replicate TGEN_MAX_WORKERS None, ipc_ring_sz := unat (ipc_ring_size d)\<rparr>"
  have "list_all (\<lambda>w. w < TGEN_MAX_WORKERS) [0 ..< num_workers cm]" using assms(2) by (auto simp: list_all_iff)
  from ipc_init_rings_ok [OF assms(1) this, of ?s] obtain rs as where r: "tgen_ipc_init e cm d s = (0, ?s\<lparr>ipc_rings := rs, ack_rings := as\<rparr>)"
    "length rs = TGEN_MAX_WORKERS" "length as = TGEN_MAX_WORKERS" "list_all (\<lambda>r. r = None \<or> r = Some []) rs" "list_all (\<lambda>r. r = None \<or> r = Some []) as"
    "\<forall>w<num_workers cm. rs ! w = Some [] \<and> as ! w = Some []"
    by (auto simp: tgen_ipc_init_def list_all_iff)
  have "64 \<le> unat (ipc_ring_size d)" by (simp add: ipc_ring_size_def Let_def max_def word_le_nat_alt word_less_nat_alt)
  then show ?thesis using r empty_rings_bound [OF r(2,4)] empty_rings_bound [OF r(3,5)] ipc_ring_size_pow2 [of d] assms(3,4)
    by (intro exI [of _ "?s\<lparr>ipc_rings := rs, ack_rings := as\<rparr>"]) (simp add: ipc_ok_def queued_empty)
qed

definition demo_ipc_env :: ipc_env where
  "demo_ipc_env = \<lparr>ie_tsc_hz = 0, ie_malloc = (\<lambda>_. True), ie_ring_create = (\<lambda>_. True), ie_poll = (\<lambda>_. [])\<rparr>"

definition demo_ipc :: ipc where
  "demo_ipc = \<lparr>ipc_rings = replicate TGEN_MAX_WORKERS (Some []), ack_rings = replicate TGEN_MAX_WORKERS (Some []), ipc_ring_sz = 64, ipc_boxes = 0,
     ipc_log = replicate TGEN_MAX_WORKERS [], ipc_ext_pos = 0, ipc_tsc_reads = (\<lambda>n. if even n then 0 else 200000), ipc_tsc_pos = 0\<rparr>"

lemma demo_ipc_ok: "ipc_ok demo_ipc" "ipc_clock demo_ipc_env demo_ipc"
proof -
  show "ipc_ok demo_ipc" by (simp add: ipc_ok_def demo_ipc_def ring_bound_def list_all_length queued_def TGEN_MAX_WORKERS_def sum_list_replicate)
  have "spin_timeout demo_ipc_env < ipc_tsc_reads demo_ipc (Suc m) - ipc_tsc_reads demo_ipc m" for m
    by (simp add: spin_timeout_def demo_ipc_env_def demo_ipc_def IPC_SPIN_TIMEOUT_US_def)
  then show "ipc_clock demo_ipc_env demo_ipc" unfolding ipc_clock_def by blast
qed

lemma ipc_reliable_fifo_witness:
  "\<forall>m. \<exists>acc s'. ipc_run demo_ipc_env [Send 0 m, Send 1 m, Recv 0, Ack 1 7 0, Collect 1] demo_ipc = Some (acc, s') \<and> ipc_ok s' \<and>
     stream 0 s' = stream 0 demo_ipc @ sent_to 0 acc"
proof
  fix m
  have "list_all (\<lambda>x. op_worker x < TGEN_MAX_WORKERS) [Send 0 m, Send 1 m, Recv 0, Ack 1 7 0, Collect 1]" "\<forall>k. list_all (\<lambda>w. w < TGEN_MAX_WORKERS) (ie_poll demo_ipc_env k)"
    by (simp_all add: TGEN_MAX_WORKERS_def demo_ipc_env_def)
  from ipc_reliable_fifo [OF demo_ipc_ok(1) this demo_ipc_ok(2)]
  show "\<exists>acc s'. ipc_run demo_ipc_env [Send 0 m, Send 1 m, Recv 0, Ack 1 7 0, Collect 1] demo_ipc = Some (acc, s') \<and> ipc_ok s' \<and>
     stream 0 s' = stream 0 demo_ipc @ sent_to 0 acc"
    by (auto simp: TGEN_MAX_WORKERS_def simp del: ipc_run.simps)
qed

end
