(* ===== verification/WorkerCtx.thy ===== *)
theory WorkerCtx
  imports CoreMap Worker
begin

text \<open>
  The contexts of the workers, \<^verbatim>\<open>tgen_worker_ctx_init\<close> of \<^verbatim>\<open>core/worker_loop.c\<close>: which receive and transmit queue of which port a worker
  serves.  The arrays of a context are the lists of their filled entries, so that \<^verbatim>\<open>num_ports\<close> is their length.
\<close>

subsection \<open>Definitions\<close>

record worker_ctx =
  wc_worker_idx :: nat
  wc_lcore_id :: nat
  wc_socket_id :: u32
  wc_ports :: "u16 list"
  wc_rx_queues :: "u16 list"
  wc_tx_queues :: "u16 list"

text \<open>The worker's position in the list of a port; \<open>None\<close> when the search runs past the end of the array.\<close>

definition port_position :: "core_map \<Rightarrow> nat \<Rightarrow> nat \<Rightarrow> nat option option" where
  "port_position cm p l =
     (let n = port_num_workers cm ! p; ws = port_workers cm ! p
      in case find (\<lambda>pw. ws ! pw = l) [0 ..< min n (length ws)] of
           Some pw \<Rightarrow> Some (Some pw)
         | None \<Rightarrow> if n > length ws then None else Some None)"

definition at_least_one :: "u32 \<Rightarrow> u32" where
  "at_least_one n = (if n = 0 then 1 else n)"

definition ctx_add_port :: "(nat \<Rightarrow> port_caps) \<Rightarrow> core_map \<Rightarrow> nat \<Rightarrow> worker_ctx \<Rightarrow> worker_ctx option" where
  "ctx_add_port caps cm p ctx =
     do { pos \<leftarrow> port_position cm p (wc_lcore_id ctx);
          case pos of
            None \<Rightarrow> Some ctx
          | Some my_pw \<Rightarrow>
              let max_rxq = at_least_one (pc_max_rx_queues (caps p)); max_txq = at_least_one (pc_max_tx_queues (caps p))
              in Some (if my_pw \<ge> unat max_rxq then ctx
                       else ctx\<lparr>wc_ports := wc_ports ctx @ [word_of_nat p], wc_rx_queues := wc_rx_queues ctx @ [word_of_nat my_pw],
                                wc_tx_queues := wc_tx_queues ctx @ [word_of_nat (my_pw mod unat max_txq)]\<rparr>) }"

text \<open>The loop ends early when the context is full.\<close>

fun ctx_add_ports :: "(nat \<Rightarrow> port_caps) \<Rightarrow> core_map \<Rightarrow> nat list \<Rightarrow> worker_ctx \<Rightarrow> worker_ctx option" where
  "ctx_add_ports caps cm [] ctx = Some ctx"
| "ctx_add_ports caps cm (p # ps) ctx =
     do { ctx' \<leftarrow> ctx_add_port caps cm p ctx;
          if length (wc_ports ctx') > length (wc_ports ctx) \<and> length (wc_ports ctx') \<ge> TGEN_MAX_PORTS then Some ctx'
          else ctx_add_ports caps cm ps ctx' }"

definition worker_ctx_of :: "(nat \<Rightarrow> port_caps) \<Rightarrow> core_map \<Rightarrow> nat \<Rightarrow> nat \<Rightarrow> worker_ctx option" where
  "worker_ctx_of caps cm n_ports w =
     ctx_add_ports caps cm [0 ..< min n_ports TGEN_MAX_PORTS]
       \<lparr>wc_worker_idx = w, wc_lcore_id = worker_lcores cm ! w, wc_socket_id = socket_of_lcore cm ! (worker_lcores cm ! w), wc_ports = [], wc_rx_queues = [], wc_tx_queues = []\<rparr>"

fun all_ctxs :: "(nat \<Rightarrow> port_caps) \<Rightarrow> core_map \<Rightarrow> nat \<Rightarrow> nat list \<Rightarrow> worker_ctx list option" where
  "all_ctxs caps cm n_ports [] = Some []"
| "all_ctxs caps cm n_ports (w # ws) = do { c \<leftarrow> worker_ctx_of caps cm n_ports w; cs \<leftarrow> all_ctxs caps cm n_ports ws; Some (c # cs) }"

definition tgen_worker_ctx_init :: "(nat \<Rightarrow> port_caps) \<Rightarrow> core_map \<Rightarrow> nat \<Rightarrow> (int \<times> worker_ctx list) option" where
  "tgen_worker_ctx_init caps cm n_ports = do { cs \<leftarrow> all_ctxs caps cm n_ports [0 ..< num_workers cm]; Some (0, cs) }"

subsection \<open>The ports of a worker\<close>

definition port_list :: "core_map \<Rightarrow> nat \<Rightarrow> nat list" where
  "port_list cm p = take (port_num_workers cm ! p) (port_workers cm ! p)"

lemma find_position:
  assumes "distinct xs" "k < length xs"
  shows "find (\<lambda>i. xs ! i = xs ! k) [0 ..< length xs] = Some k"
proof -
  have "[0 ..< length xs] = [0 ..< k] @ k # [Suc k ..< length xs]" using assms(2) upt_conv_Cons [of k "length xs"] upt_add_eq_append [of 0 k "length xs - k"] by simp
  moreover have "find (\<lambda>i. xs ! i = xs ! k) [0 ..< k] = None" using assms by (auto simp: find_None_iff nth_eq_iff_index_eq)
  moreover have "find P (as @ bs) = (case find P as of None \<Rightarrow> find P bs | Some x \<Rightarrow> Some x)" for P and as bs :: "nat list"
    by (induction as) auto
  ultimately show ?thesis by simp
qed

lemma port_position_eq:
  assumes "port_num_workers cm ! p \<le> length (port_workers cm ! p)" "distinct (port_list cm p)"
  shows "\<exists>r. port_position cm p l = Some r \<and> (\<forall>k. r = Some k \<longleftrightarrow> k < length (port_list cm p) \<and> port_list cm p ! k = l)"
proof -
  let ?L = "port_list cm p"
  have n: "min (port_num_workers cm ! p) (length (port_workers cm ! p)) = length ?L" using assms(1) by (simp add: port_list_def)
  have f: "find (\<lambda>pw. port_workers cm ! p ! pw = l) [0 ..< length ?L] = find (\<lambda>i. ?L ! i = l) [0 ..< length ?L]"
    by (rule find_cong) (auto simp: port_list_def)
  show ?thesis
  proof (cases "l \<in> set ?L")
    case True
    then obtain k where k: "k < length ?L" "?L ! k = l" by (auto simp: in_set_conv_nth)
    then have "port_position cm p l = Some (Some k)" using find_position [OF assms(2) k(1)] by (simp add: port_position_def Let_def n f)
    then show ?thesis using k assms(2) by (auto simp: nth_eq_iff_index_eq)
  next
    case False
    then have "find (\<lambda>i. ?L ! i = l) [0 ..< length ?L] = None" by (auto simp: find_None_iff)
    then have "port_position cm p l = Some None" using assms(1) by (simp add: port_position_def Let_def n f)
    then show ?thesis using False by auto
  qed
qed

definition serves :: "(nat \<Rightarrow> port_caps) \<Rightarrow> core_map \<Rightarrow> nat \<Rightarrow> nat \<Rightarrow> nat \<Rightarrow> bool" where
  "serves caps cm l p k \<longleftrightarrow> k < length (port_list cm p) \<and> port_list cm p ! k = l \<and> k < unat (at_least_one (pc_max_rx_queues (caps p)))"

definition polls :: "worker_ctx \<Rightarrow> nat \<Rightarrow> nat \<Rightarrow> bool" where
  "polls ctx p q \<longleftrightarrow> (word_of_nat p, word_of_nat q) \<in> set (zip (wc_ports ctx) (wc_rx_queues ctx))"

text \<open>A core map whose port lists fit their arrays and name no core twice.\<close>

definition port_lists_ok :: "core_map \<Rightarrow> nat \<Rightarrow> bool" where
  "port_lists_ok cm n \<longleftrightarrow> (\<forall>p<n. port_num_workers cm ! p \<le> length (port_workers cm ! p) \<and> distinct (port_list cm p))"

lemma ctx_add_port_ok:
  assumes "port_lists_ok cm n" "p < n"
  shows "\<exists>ctx'. ctx_add_port caps cm p ctx = Some ctx' \<and> wc_lcore_id ctx' = wc_lcore_id ctx \<and> wc_worker_idx ctx' = wc_worker_idx ctx \<and>
    ((\<exists>k. serves caps cm (wc_lcore_id ctx) p k \<and> wc_ports ctx' = wc_ports ctx @ [word_of_nat p] \<and> wc_rx_queues ctx' = wc_rx_queues ctx @ [word_of_nat k]) \<or>
     (\<nexists>k. serves caps cm (wc_lcore_id ctx) p k) \<and> ctx' = ctx)"
proof -
  obtain r where r: "port_position cm p (wc_lcore_id ctx) = Some r" "\<forall>k. r = Some k \<longleftrightarrow> k < length (port_list cm p) \<and> port_list cm p ! k = wc_lcore_id ctx"
    using port_position_eq [of cm p "wc_lcore_id ctx"] assms unfolding port_lists_ok_def by blast
  show ?thesis
  proof (cases r)
    case None
    then show ?thesis using r by (auto simp: ctx_add_port_def serves_def)
  next
    case (Some k)
    have k: "k < length (port_list cm p)" "port_list cm p ! k = wc_lcore_id ctx" "j < length (port_list cm p) \<Longrightarrow> port_list cm p ! j = wc_lcore_id ctx \<Longrightarrow> k = j" for j
      using spec [OF r(2), of k] spec [OF r(2), of j] Some by simp_all
    then have sv: "serves caps cm (wc_lcore_id ctx) p j \<longleftrightarrow> j = k \<and> k < unat (at_least_one (pc_max_rx_queues (caps p)))" for j
      unfolding serves_def by blast
    show ?thesis
    proof (cases "k < unat (at_least_one (pc_max_rx_queues (caps p)))")
      case True
      then have "serves caps cm (wc_lcore_id ctx) p k" using sv by blast
      then show ?thesis using r(1) Some True by (simp add: ctx_add_port_def Let_def) blast
    next
      case False
      then have "\<nexists>j. serves caps cm (wc_lcore_id ctx) p j" using sv by blast
      moreover have "ctx_add_port caps cm p ctx = Some ctx" using r(1) Some False by (simp add: ctx_add_port_def Let_def)
      ultimately show ?thesis by blast
    qed
  qed
qed

lemma ctx_add_ports_ok:
  assumes "port_lists_ok cm n" "\<forall>p\<in>set ps. p < n" "length (wc_ports ctx) + length ps \<le> TGEN_MAX_PORTS" "length (wc_rx_queues ctx) = length (wc_ports ctx)"
  shows "\<exists>ctx'. ctx_add_ports caps cm ps ctx = Some ctx' \<and> wc_lcore_id ctx' = wc_lcore_id ctx \<and> wc_worker_idx ctx' = wc_worker_idx ctx \<and>
    set (zip (wc_ports ctx') (wc_rx_queues ctx')) =
      set (zip (wc_ports ctx) (wc_rx_queues ctx)) \<union> {(word_of_nat p, word_of_nat k) |p k. p \<in> set ps \<and> serves caps cm (wc_lcore_id ctx) p k}"
  using assms
proof (induction ps arbitrary: ctx)
  case (Cons p ps)
  let ?l = "wc_lcore_id ctx"
  have "p < n" using Cons.prems(2) by simp
  from ctx_add_port_ok [OF Cons.prems(1) this] obtain c where
    c: "ctx_add_port caps cm p ctx = Some c" "wc_lcore_id c = ?l" "wc_worker_idx c = wc_worker_idx ctx" and
    d: "(\<exists>k. serves caps cm ?l p k \<and> wc_ports c = wc_ports ctx @ [word_of_nat p] \<and> wc_rx_queues c = wc_rx_queues ctx @ [word_of_nat k]) \<or>
       (\<nexists>k. serves caps cm ?l p k) \<and> c = ctx" by blast
  have u: "k = j" if "serves caps cm ?l p k" "serves caps cm ?l p j" for k j
  proof -
    have "distinct (port_list cm p)" using Cons.prems(1) \<open>p < n\<close> by (simp add: port_lists_ok_def)
    from nth_eq_iff_index_eq [OF this, of k j] that show ?thesis by (simp add: serves_def)
  qed
  have z: "set (zip (wc_ports c) (wc_rx_queues c)) = set (zip (wc_ports ctx) (wc_rx_queues ctx)) \<union> {(word_of_nat p, word_of_nat k) |k. serves caps cm ?l p k}"
    using d
  proof (elim disjE exE conjE)
    fix k assume k: "serves caps cm ?l p k" "wc_ports c = wc_ports ctx @ [word_of_nat p]" "wc_rx_queues c = wc_rx_queues ctx @ [word_of_nat k]"
    have "{(word_of_nat p :: u16, word_of_nat j :: u16) |j. serves caps cm ?l p j} = {(word_of_nat p, word_of_nat k)}" using k(1) u by blast
    then show ?thesis using k(2,3) Cons.prems(4) by simp
  qed blast
  have l: "length (wc_ports c) + length ps \<le> TGEN_MAX_PORTS" "length (wc_rx_queues c) = length (wc_ports c)" using d Cons.prems(3,4) by auto
  have rest: "ps = []" if "length (wc_ports c) \<ge> TGEN_MAX_PORTS" using l(1) that by (cases ps) auto
  have ps: "\<forall>p\<in>set ps. p < n" using Cons.prems(2) by simp
  from Cons.IH [OF Cons.prems(1) ps l] obtain f where f: "ctx_add_ports caps cm ps c = Some f" "wc_lcore_id f = ?l" "wc_worker_idx f = wc_worker_idx ctx"
    "set (zip (wc_ports f) (wc_rx_queues f)) = set (zip (wc_ports c) (wc_rx_queues c)) \<union> {(word_of_nat p, word_of_nat k) |p k. p \<in> set ps \<and> serves caps cm ?l p k}"
    unfolding c(2,3) by blast
  have "ctx_add_ports caps cm (p # ps) ctx = Some f" using c(1) f(1) rest by auto
  moreover have "set (zip (wc_ports f) (wc_rx_queues f)) = set (zip (wc_ports ctx) (wc_rx_queues ctx)) \<union>
      {(word_of_nat p', word_of_nat k) |p' k. p' \<in> set (p # ps) \<and> serves caps cm ?l p' k}"
    using f(4) z by auto
  ultimately show ?case using f(2,3) by blast
qed simp

lemma u16_of_nat_inj: "a < 65536 \<Longrightarrow> b < 65536 \<Longrightarrow> (word_of_nat a :: u16) = word_of_nat b \<longleftrightarrow> a = b"
  by (simp add: word_unat_eq_iff unat_of_nat take_bit_nat_eq_self)

lemma worker_ctx_polls:
  assumes "port_lists_ok cm (min np TGEN_MAX_PORTS)"
  shows "\<exists>ctx. worker_ctx_of caps cm np w = Some ctx \<and> wc_worker_idx ctx = w \<and> wc_lcore_id ctx = worker_lcores cm ! w \<and>
    set (zip (wc_ports ctx) (wc_rx_queues ctx)) = {(word_of_nat p, word_of_nat k) |p k. p < min np TGEN_MAX_PORTS \<and> serves caps cm (worker_lcores cm ! w) p k}"
  using ctx_add_ports_ok [OF assms, of "[0 ..< min np TGEN_MAX_PORTS]"
      "\<lparr>wc_worker_idx = w, wc_lcore_id = worker_lcores cm ! w, wc_socket_id = socket_of_lcore cm ! (worker_lcores cm ! w), wc_ports = [], wc_rx_queues = [], wc_tx_queues = []\<rparr>" caps]
  by (simp add: worker_ctx_of_def) metis

lemma all_ctxs_ok:
  assumes "\<And>w. w \<in> set ws \<Longrightarrow> \<exists>c. worker_ctx_of caps cm np w = Some c \<and> P w c"
  shows "\<exists>cs. all_ctxs caps cm np ws = Some cs \<and> length cs = length ws \<and> (\<forall>i<length ws. P (ws ! i) (cs ! i))"
  using assms
proof (induction ws)
  case (Cons w ws)
  from Cons.IH Cons.prems obtain cs where cs: "all_ctxs caps cm np ws = Some cs" "length cs = length ws" "\<forall>i<length ws. P (ws ! i) (cs ! i)" by auto
  from Cons.prems [of w] obtain c where c: "worker_ctx_of caps cm np w = Some c" "P w c" by auto
  have "\<forall>i<length (w # ws). P ((w # ws) ! i) ((c # cs) ! i)" using c(2) cs(3) by (auto simp: less_Suc_eq_0_disj)
  then show ?case using c(1) cs(1,2) by (intro exI [of _ "c # cs"]) simp
qed simp

text \<open>
  C29. No receive queue is served twice, and it is exactly known which are served.  With the core map of the automatic mode, the list of a port holds the workers on the port's socket
  (a core or port without a known socket matches any), and a receive queue of the port whose number is below both the length of that list and the number of queues of the
  port is polled by exactly one worker.  Every other queue is polled by nobody: the queues beyond the number of local workers are idle, and so is a port without local
  workers, which is set up with one queue all the same.  At most 127 cores.
\<close>

theorem rx_queue_one_worker:
  fixes hw :: hardware
  assumes "distinct (hw_lcores hw)" "\<forall>l\<in>set (hw_lcores hw). l < TGEN_MAX_LCORES" "2 \<le> length (hw_lcores hw)" "length (hw_lcores hw) \<le> 127"
  shows "\<exists>cm cs. tgen_core_assign_init hw wh mh False np = Some (0, cm) \<and> tgen_worker_ctx_init caps cm np = Some (0, cs) \<and> length cs = num_workers cm \<and>
    (\<forall>p. p < min np TGEN_MAX_PORTS \<longrightarrow>
      port_list cm p = filter (\<lambda>l. hw_port_socket hw p = hw_socket hw l \<or> hw_socket hw l = SOCKET_ID_ANY \<or> hw_port_socket hw p = SOCKET_ID_ANY) (take (num_workers cm) (worker_lcores cm)) \<and>
      (\<forall>q<65536. if q < min (length (port_list cm p)) (unat (at_least_one (pc_max_rx_queues (caps p))))
         then \<exists>!w. w < num_workers cm \<and> polls (cs ! w) p q else \<not> (\<exists>w<num_workers cm. polls (cs ! w) p q)))"
proof -
  from core_assign_split [OF assms, of wh mh np] obtain cm M W where cm: "tgen_core_assign_init hw wh mh False np = Some (0, cm)"
    and W: "W = take (num_workers cm) (worker_lcores cm)" "num_workers cm = length W" "distinct (M @ W)" "set (M @ W) = set (hw_lcores hw)"
    and ports: "\<forall>p<min np TGEN_MAX_PORTS. port_num_workers cm ! p \<le> length (port_workers cm ! p) \<and> take (port_num_workers cm ! p) (port_workers cm ! p) =
       filter (\<lambda>l. hw_port_socket hw p = hw_socket hw l \<or> hw_socket hw l = SOCKET_ID_ANY \<or> hw_port_socket hw p = SOCKET_ID_ANY) W" by blast
  have lW: "length W \<le> 127" using distinct_card [OF W(3)] distinct_card [OF assms(1)] assms(4) unfolding W(4) by simp
  have pl: "distinct (port_list cm p)" "set (port_list cm p) \<subseteq> set W" "length (port_list cm p) \<le> 127" if "p < min np TGEN_MAX_PORTS" for p
  proof -
    note f = ports [rule_format, OF that]
    then show "distinct (port_list cm p)" "set (port_list cm p) \<subseteq> set W" using W(3) by (auto simp: port_list_def)
    show "length (port_list cm p) \<le> 127" unfolding port_list_def conjunct2 [OF f] by (rule order_trans [OF length_filter_le lW])
  qed
  have ok: "port_lists_ok cm (min np TGEN_MAX_PORTS)" using ports pl(1) by (simp add: port_lists_ok_def)
  obtain cs where cs: "all_ctxs caps cm np [0 ..< num_workers cm] = Some cs" "length cs = num_workers cm"
    and z: "\<forall>w<num_workers cm. set (zip (wc_ports (cs ! w)) (wc_rx_queues (cs ! w))) =
       {(word_of_nat p, word_of_nat k) |p k. p < min np TGEN_MAX_PORTS \<and> serves caps cm (worker_lcores cm ! w) p k}"
    using all_ctxs_ok [where ws = "[0 ..< num_workers cm]", OF worker_ctx_polls [OF ok], of caps] by auto
  have pq: "polls (cs ! w) p q \<longleftrightarrow> serves caps cm (worker_lcores cm ! w) p q" if "w < num_workers cm" "p < min np TGEN_MAX_PORTS" "q < 65536" for w p q
  proof -
    have "polls (cs ! w) p q \<longleftrightarrow> (\<exists>p' k. (word_of_nat p :: u16) = word_of_nat p' \<and> (word_of_nat q :: u16) = word_of_nat k \<and> p' < min np TGEN_MAX_PORTS \<and>
        serves caps cm (worker_lcores cm ! w) p' k)" unfolding polls_def z [rule_format, OF that(1)] by blast
    moreover have "p' = p \<and> k = q" if "(word_of_nat p :: u16) = word_of_nat p'" "(word_of_nat q :: u16) = word_of_nat k" "p' < min np TGEN_MAX_PORTS"
        "serves caps cm (worker_lcores cm ! w) p' k" for p' k
    proof -
      have "k < 65536" "p' < 65536" "p < 65536" using that(3,4) pl(3) [OF that(3)] \<open>p < min np TGEN_MAX_PORTS\<close> by (simp_all add: serves_def TGEN_MAX_PORTS_def)
      then show ?thesis using that(1,2) \<open>q < 65536\<close> by (simp add: u16_of_nat_inj)
    qed
    ultimately show ?thesis using that(2) by blast
  qed
  have "\<exists>!w. w < num_workers cm \<and> polls (cs ! w) p q"
    if pq': "p < min np TGEN_MAX_PORTS \<and> q < min (length (port_list cm p)) (unat (at_least_one (pc_max_rx_queues (caps p))))" for p q
  proof -
    have p: "p < min np TGEN_MAX_PORTS" "q < length (port_list cm p)" "q < unat (at_least_one (pc_max_rx_queues (caps p)))" using pq' by simp_all
    have q: "q < 65536" using p(2) pl(3) [OF p(1)] by simp
    have "port_list cm p ! q \<in> set W" using p(2) pl(2) [OF p(1)] by (meson nth_mem subsetD)
    then obtain w where w: "w < length W" "W ! w = port_list cm p ! q" by (auto simp: in_set_conv_nth)
    have Wn: "worker_lcores cm ! v = W ! v" if "v < length W" for v using that W(1,2) by (metis nth_take)
    have sv: "serves caps cm (worker_lcores cm ! v) p q \<longleftrightarrow> W ! v = W ! w" if "v < length W" for v using p(2,3) w(2) Wn [OF that] by (auto simp: serves_def)
    have "distinct W" using W(3) by simp
    then show ?thesis using w(1) sv pq [OF _ p(1) q] W(2) by (intro ex1I [of _ w]) (auto simp: nth_eq_iff_index_eq)
  qed
  moreover have "\<not> (\<exists>w<num_workers cm. polls (cs ! w) p q)"
    if "p < min np TGEN_MAX_PORTS" "q < 65536" "\<not> q < min (length (port_list cm p)) (unat (at_least_one (pc_max_rx_queues (caps p))))" for p q
    using pq [OF _ that(1,2)] that(3) by (auto simp: serves_def)
  moreover have "port_list cm p = filter (\<lambda>l. hw_port_socket hw p = hw_socket hw l \<or> hw_socket hw l = SOCKET_ID_ANY \<or> hw_port_socket hw p = SOCKET_ID_ANY) (take (num_workers cm) (worker_lcores cm))"
    if "p < min np TGEN_MAX_PORTS" for p using ports [rule_format, OF that] by (simp add: port_list_def W(1) [symmetric])
  moreover have "tgen_worker_ctx_init caps cm np = Some (0, cs)" using cs(1) by (simp add: tgen_worker_ctx_init_def)
  ultimately show ?thesis using cm cs(2) by (intro exI [of _ cm] exI [of _ cs]) simp
qed

definition demo_queues :: port_caps where
  "demo_queues = \<lparr>pc_has_ipv4_cksum_offload = False, pc_has_tcp_cksum_offload = False, pc_max_rx_queues = 2, pc_max_tx_queues = 2, pc_mgmt_tx_q = 0, pc_mac_addr = []\<rparr>"

lemma rx_queue_one_worker_witness:
  "\<exists>cm cs. tgen_core_assign_init demo_hw 0 0 False 1 = Some (0, cm) \<and> tgen_worker_ctx_init (\<lambda>_. demo_queues) cm 1 = Some (0, cs) \<and>
     (\<exists>!w. w < num_workers cm \<and> polls (cs ! w) 0 0) \<and> \<not> (\<exists>w<num_workers cm. polls (cs ! w) 0 2)"
proof -
  have h: "distinct (hw_lcores demo_hw)" "\<forall>l\<in>set (hw_lcores demo_hw). l < TGEN_MAX_LCORES" "2 \<le> length (hw_lcores demo_hw)" "length (hw_lcores demo_hw) \<le> 127"
    by (simp_all add: demo_hw_def TGEN_MAX_LCORES_def)
  have ls: "set (hw_lcores demo_hw) = {0, 1, 2, 3, 4}" "tier_num_mgmt (select_tier (length (hw_lcores demo_hw))) = 1"
    by (auto simp: demo_hw_def select_tier_eq g_tiers_def)
  from core_assign_split [OF h, of 0 0 1] obtain cm M W where cm: "tgen_core_assign_init demo_hw 0 0 False 1 = Some (0, cm)"
    and W: "set (M @ W) = {0, 1, 2, 3, 4}" "length M = 1" and
    ports: "\<forall>p<min 1 TGEN_MAX_PORTS. port_num_workers cm ! p \<le> length (port_workers cm ! p) \<and> take (port_num_workers cm ! p) (port_workers cm ! p) =
       filter (\<lambda>l. hw_port_socket demo_hw p = hw_socket demo_hw l \<or> hw_socket demo_hw l = SOCKET_ID_ANY \<or> hw_port_socket demo_hw p = SOCKET_ID_ANY) W"
    unfolding ls by blast
  obtain m where m: "M = [m]" using W(2) by (auto simp: length_Suc_conv)
  have "2 \<in> set (M @ W)" "3 \<in> set (M @ W)" unfolding W(1) by simp_all
  then have "2 \<in> set W \<or> 3 \<in> set W" unfolding m by auto
  then obtain l where l: "l \<in> set W" "\<not> l < 2" by (auto intro: that [of 2] that [of 3])
  then have "l \<in> set (port_list cm 0)" using ports by (simp add: port_list_def TGEN_MAX_PORTS_def demo_hw_def)
  then have "port_list cm 0 \<noteq> []" by auto
  then have q: "0 < min (length (port_list cm 0)) (unat (at_least_one (pc_max_rx_queues demo_queues)))"
    "\<not> 2 < min (length (port_list cm 0)) (unat (at_least_one (pc_max_rx_queues demo_queues)))" by (simp_all add: demo_queues_def at_least_one_def)
  have p0: "0 < min 1 TGEN_MAX_PORTS" by (simp add: TGEN_MAX_PORTS_def)
  from rx_queue_one_worker [OF h, of 0 0 1 "\<lambda>_. demo_queues"] show ?thesis
  proof (elim exE conjE, goal_cases)
    case (1 cm' cs)
    then have "cm' = cm" using cm by simp
    note u = 1(4) [unfolded this, rule_format, OF p0, THEN conjunct2]
    have "if 0 < min (length (port_list cm 0)) (unat (at_least_one (pc_max_rx_queues demo_queues)))
         then \<exists>!w. w < num_workers cm \<and> polls (cs ! w) 0 0 else \<not> (\<exists>w<num_workers cm. polls (cs ! w) 0 0)" by (rule u [rule_format]) simp
    moreover have "if 2 < min (length (port_list cm 0)) (unat (at_least_one (pc_max_rx_queues demo_queues)))
         then \<exists>!w. w < num_workers cm \<and> polls (cs ! w) 0 2 else \<not> (\<exists>w<num_workers cm. polls (cs ! w) 0 2)" by (rule u [rule_format]) simp
    ultimately show ?case using 1(1,2) q unfolding \<open>cm' = cm\<close> if_P [OF q(1)] if_not_P [OF q(2)] by blast
  qed
qed

end
