(* ===== verification/WorkerLoop.thy ===== *)
theory WorkerLoop
  imports Ipc WorkerCtx NetInput TxGenInv TcpTimer
begin

text \<open>
  The loop of a worker, \<^verbatim>\<open>tgen_worker_loop\<close> of \<^verbatim>\<open>core/worker_loop.c\<close>: commands from the management thread, received frames, traffic generation,
  timers.  \<open>loop_state\<close> is what the loop changes; \<open>loop_env\<close> is fixed: the surroundings, the worker's context, the address of its prebuilt
  request and the extra headers of the configuration.  Frames received on a port in one round are an argument.  The classifier never returns a
  reply (all its branches consume the packet), so the array of replies stays empty.
\<close>

subsection \<open>State\<close>

record loop_env =
  le_env :: env
  le_ctx :: worker_ctx
  le_addr :: nat
  le_extra :: bytes
  le_ipc :: ipc_env

record loop_state =
  lp_w :: worker
  lp_gens :: "tx_gen_state list"
  lp_hp :: http_prebuilt_req
  lp_rings :: net_rings
  lp_ipc :: ipc
  lp_run :: bool
  lp_cpu :: cpu_stats
  lp_pkts :: "gen_pkt list"

definition TGEN_MAX_CLIENT_FLOWS :: nat where "TGEN_MAX_CLIENT_FLOWS = 16"

text \<open>The surroundings with the current contents of the worker's prebuilt request.\<close>

definition loop_e :: "loop_env \<Rightarrow> loop_state \<Rightarrow> env" where
  "loop_e L s = (le_env L)\<lparr>e_http_req := (e_http_req (le_env L))(le_addr L := Some (lp_hp s))\<rparr>"

definition loop_rdtsc :: "loop_state \<Rightarrow> u64 \<times> loop_state" where
  "loop_rdtsc s = (let (t, w) = rdtsc (lp_w s) in (t, s\<lparr>lp_w := w\<rparr>))"

subsection \<open>Commands\<close>

definition reset_all :: "loop_env \<Rightarrow> loop_state \<Rightarrow> loop_state option" where
  "reset_all L s = map_option (\<lambda>w. s\<lparr>lp_w := w\<rparr>) (tcp_fsm_reset_all (loop_e L s) (lp_w s))"

definition upd_srv :: "(srv_table \<Rightarrow> srv_table) \<Rightarrow> loop_state \<Rightarrow> loop_state" where
  "upd_srv f s = s\<lparr>lp_w := (lp_w s)\<lparr>srv := f (srv (lp_w s))\<rparr>\<rparr>"

definition tx_queue_of :: "worker_ctx \<Rightarrow> u16 \<Rightarrow> u16" where
  "tx_queue_of ctx port = (case find (\<lambda>(p, q). p = port) (zip (wc_ports ctx) (wc_tx_queues ctx)) of Some (p, q) \<Rightarrow> q | None \<Rightarrow> -1)"

definition cmd_start :: "loop_env \<Rightarrow> tx_gen_config \<Rightarrow> loop_state \<Rightarrow> loop_state option" where
  "cmd_start L gcfg s =
     (let si = (if unat (cfg_flow_idx gcfg) \<ge> TGEN_MAX_CLIENT_FLOWS then 0 else unat (cfg_flow_idx gcfg));
          any_active = list_ex (\<lambda>k. k \<noteq> si \<and> tg_active (lp_gens s ! k)) [0 ..< TGEN_MAX_CLIENT_FLOWS]
      in do { s \<leftarrow> (if any_active then Some s else reset_all L s);
              let s = (if cfg_proto gcfg = TX_GEN_PROTO_HTTP then s\<lparr>lp_hp := (lp_hp s)\<lparr>hp_hdr_len := 0\<rparr>\<rparr> else s);
                  tx_q = tx_queue_of (le_ctx L) (cfg_port_id gcfg)
              in Some (if tx_q \<noteq> -1
                       then let (g, w) = tx_gen_configure gcfg tx_q (lp_w s); (g, w) = tx_gen_start g w
                            in s\<lparr>lp_gens := (lp_gens s)[si := g], lp_w := w\<rparr>
                       else s) })"

definition stop_gens :: "loop_state \<Rightarrow> loop_state" where
  "stop_gens s = s\<lparr>lp_gens := map tx_gen_stop (lp_gens s)\<rparr>"

definition cmd_stop :: "loop_env \<Rightarrow> loop_state \<Rightarrow> loop_state option" where
  "cmd_stop L s =
     (let s = stop_gens s
      in if srv_serving (srv (lp_w s)) then map_option (upd_srv srv_table_stop_all) (reset_all L s) else Some s)"

definition cmd_stop_flow :: "u32 \<Rightarrow> loop_state \<Rightarrow> loop_state" where
  "cmd_stop_flow si s =
     (if si = -1 then stop_gens s
      else if unat si < TGEN_MAX_CLIENT_FLOWS then s\<lparr>lp_gens := (lp_gens s)[unat si := tx_gen_stop (lp_gens s ! unat si)]\<rparr>
      else s)"

definition cmd_serve :: "loop_env \<Rightarrow> srv_ipc_payload \<Rightarrow> loop_state \<Rightarrow> loop_state option" where
  "cmd_serve L scfg s = do { s \<leftarrow> reset_all L s; tbl \<leftarrow> srv_table_configure scfg (srv (lp_w s)); Some (upd_srv (\<lambda>_. tbl) s) }"

definition cmd_set_rate :: "u64 \<Rightarrow> loop_state \<Rightarrow> loop_state" where
  "cmd_set_rate new_rate s = s\<lparr>lp_gens := map (\<lambda>g. g\<lparr>tg_cfg := (tg_cfg g)\<lparr>cfg_rate_pps := new_rate\<rparr>\<rparr>) (lp_gens s)\<rparr>"

definition cmd_stop_listener :: "loop_env \<Rightarrow> u32 \<Rightarrow> loop_state \<Rightarrow> loop_state option" where
  "cmd_stop_listener L li s =
     (if li = -1 then map_option (upd_srv srv_table_stop_all) (reset_all L s) else Some (upd_srv (srv_table_stop_one (unat li)) s))"

definition cmd_reset :: "loop_env \<Rightarrow> loop_state \<Rightarrow> loop_state option" where
  "cmd_reset L s = map_option (\<lambda>s. s\<lparr>lp_w := (lp_w s)\<lparr>ports := tcp_port_pool_reset (ports (lp_w s))\<rparr>\<rparr>) (reset_all L s)"

definition apply_cmd :: "loop_env \<Rightarrow> config_update \<Rightarrow> loop_state \<Rightarrow> loop_state option" where
  "apply_cmd L m s =
     (case cu_cmd m of
        CFG_CMD_START \<Rightarrow> cmd_start L (cu_gen m) s
      | CFG_CMD_STOP \<Rightarrow> cmd_stop L s
      | CFG_CMD_STOP_FLOW \<Rightarrow> Some (cmd_stop_flow (cu_index m) s)
      | CFG_CMD_SERVE \<Rightarrow> cmd_serve L (cu_srv m) s
      | CFG_CMD_SET_RATE \<Rightarrow> Some (cmd_set_rate (cu_rate m) s)
      | CFG_CMD_STOP_LISTENER \<Rightarrow> cmd_stop_listener L (cu_index m) s
      | CFG_CMD_RESET \<Rightarrow> cmd_reset L s
      | _ \<Rightarrow> Some s)"

text \<open>Every command but the shutdown is acknowledged.\<close>

definition handle_cmd :: "loop_env \<Rightarrow> config_update \<Rightarrow> loop_state \<Rightarrow> loop_state option" where
  "handle_cmd L m s =
     do { s \<leftarrow> apply_cmd L m s; Some (s\<lparr>lp_ipc := tgen_ipc_ack (le_ipc L) (wc_worker_idx (le_ctx L)) (cu_seq m) 0 (lp_ipc s)\<rparr>) }"

partial_function (option) drain_cmds :: "loop_env \<Rightarrow> loop_state \<Rightarrow> (bool \<times> loop_state) option" where
  "drain_cmds L s =
     (case tgen_ipc_recv (wc_worker_idx (le_ctx L)) (lp_ipc s) of
        (None, i) \<Rightarrow> Some (True, s\<lparr>lp_ipc := i\<rparr>)
      | (Some m, i) \<Rightarrow>
          if cu_cmd m = CFG_CMD_SHUTDOWN then Some (False, s\<lparr>lp_ipc := i, lp_run := False\<rparr>)
          else do { s \<leftarrow> handle_cmd L m (s\<lparr>lp_ipc := i\<rparr>); drain_cmds L s })"

subsection \<open>One round\<close>

definition rx_port :: "loop_env \<Rightarrow> rx_mbuf list \<Rightarrow> loop_state \<Rightarrow> loop_state option" where
  "rx_port L ms s =
     (if ms = [] then Some s
      else
        let n = word_of_nat (length ms); bytes = word_of_nat (sum_list (map (\<lambda>m. length (mb_data m)) ms));
            w = upd_metrics (worker_metrics_add_rx n bytes) (lp_w s)
        in do { (r, w) \<leftarrow> receive_frames (loop_e L s) ms (lp_rings s) w; Some (s\<lparr>lp_rings := r, lp_w := w\<rparr>) })"

fun rx_ports :: "loop_env \<Rightarrow> rx_mbuf list list \<Rightarrow> loop_state \<Rightarrow> loop_state option" where
  "rx_ports L [] s = Some s"
| "rx_ports L (ms # mss) s = do { s \<leftarrow> rx_port L ms s; rx_ports L mss s }"

definition loop_flush :: "loop_env \<Rightarrow> loop_state \<Rightarrow> loop_state" where
  "loop_flush L s = s\<lparr>lp_w := tcp_tx_flush (loop_e L s) (lp_w s)\<rparr>"

definition gen_burst :: "loop_env \<Rightarrow> nat \<Rightarrow> loop_state \<Rightarrow> loop_state option" where
  "gen_burst L k s =
     (let g = lp_gens s ! k
      in if tg_active g
         then do { (n, ps, hp, g, w) \<leftarrow> tx_gen_burst (loop_e L s) (le_addr L) (le_extra L) (lp_hp s) g (lp_w s);
                   Some (s\<lparr>lp_gens := (lp_gens s)[k := g], lp_hp := hp, lp_w := w, lp_pkts := lp_pkts s @ ps\<rparr>) }
         else Some s)"

fun gen_bursts :: "loop_env \<Rightarrow> nat list \<Rightarrow> loop_state \<Rightarrow> loop_state option" where
  "gen_bursts L [] s = Some s"
| "gen_bursts L (k # ks) s = do { s \<leftarrow> gen_burst L k s; gen_bursts L ks s }"

text \<open>Receiving and generating, the second and third part of a round; \<open>rx\<close> has one burst per port of the context.\<close>

definition rx_phase :: "loop_env \<Rightarrow> rx_mbuf list list \<Rightarrow> loop_state \<Rightarrow> loop_state option" where
  "rx_phase L rx s = map_option (loop_flush L) (rx_ports L rx s)"

definition gen_phase :: "loop_env \<Rightarrow> loop_state \<Rightarrow> loop_state option" where
  "gen_phase L s =
     map_option (loop_flush L) (if srv_serving (srv (lp_w s)) then Some s else gen_bursts L [0 ..< TGEN_MAX_CLIENT_FLOWS] s)"

definition timer_phase :: "loop_env \<Rightarrow> u64 \<Rightarrow> loop_state \<Rightarrow> loop_state option" where
  "timer_phase L t3 s =
     do { w \<leftarrow> tcp_timer_tick (loop_e L s) (lp_w s); Some (s\<lparr>lp_w := w\<lparr>ports := tcp_port_pool_tick t3 (ports w)\<rparr>\<rparr>) }"

definition account :: "u64 \<Rightarrow> u64 \<Rightarrow> u64 \<Rightarrow> u64 \<Rightarrow> u64 \<Rightarrow> bool \<Rightarrow> cpu_stats \<Rightarrow> cpu_stats" where
  "account t0 t1 t2 t3 t4 idle c =
     c\<lparr>cycles_ipc := cycles_ipc c + (t1 - t0), cycles_rx := cycles_rx c + (t2 - t1), cycles_tx := cycles_tx c + (t3 - t2),
       cycles_timer := cycles_timer c + (t4 - t3), cycles_total := cycles_total c + (t4 - t0),
       cycles_idle := (if idle then cycles_idle c + (t4 - t0) else cycles_idle c), loop_count := loop_count c + 1\<rparr>"

definition worker_round :: "loop_env \<Rightarrow> rx_mbuf list list \<Rightarrow> loop_state \<Rightarrow> loop_state option" where
  "worker_round L rx s =
     (let (t0, s) = loop_rdtsc s
      in do { (go, s) \<leftarrow> drain_cmds L s;
              if \<not> go then Some s
              else
                let (t1, s) = loop_rdtsc s
                in do { s \<leftarrow> rx_phase L rx s;
                        let (t2, s) = loop_rdtsc s
                        in do { s \<leftarrow> gen_phase L s;
                                let (t3, s) = loop_rdtsc s
                                in do { s \<leftarrow> timer_phase L t3 s;
                                        let (t4, s) = loop_rdtsc s; idle = (concat rx = [] \<and> \<not> list_ex tg_active (lp_gens s))
                                        in Some (s\<lparr>lp_cpu := account t0 t1 t2 t3 t4 idle (lp_cpu s)\<rparr>) } } } })"

definition tgen_workers_stop :: "loop_state \<Rightarrow> loop_state" where
  "tgen_workers_stop s = s\<lparr>lp_run := False\<rparr>"

end
