(* ===== verification/WorkerLoopInv.thy ===== *)
theory WorkerLoopInv
  imports WorkerLoop
begin

text \<open>
  The invariant of the worker loop: \<open>loop_ok\<close> joins the worker's invariant, that of its traffic generators, of the rings to the
  management thread and of the command rings.  Commands, received frames and generation keep it, and the command loop ends.
\<close>

subsection \<open>Dropping all connections\<close>

lemma detach_stays:
  assumes "good e i w"
  shows "stays e i w (tls_detach_if_needed i w)"
proof -
  note g = goodD [OF assms] and d = tls_detach_effect [OF goodD(2,3) [OF assms]]
  have "conn_step i w (tls_detach_if_needed i w)" using d(2,4,5,10) by (simp add: conn_step_def)
  then show ?thesis using g(4,5) d(1,3,9) by (simp add: stays_def ctx_ok_def)
qed

lemma drop_buffer_stays:
  assumes "good e i w"
  shows "stays e i w (upd_tcb i (\<lambda>t. t\<lparr>snd_buf := None\<rparr>) w)"
  using goodD [OF assms] by (intro stays_upd [OF assms]) (auto simp: upd_simps)

lemma reset_loop_ok:
  assumes "sys_ok e w" "\<forall>i\<in>set is. i < capacity w"
  shows "yields (reset_loop e is w) (\<lambda>w'. sys_ok e w' \<and> capacity w' = capacity w \<and> ports w' = ports w \<and> srv w' = srv w \<and> tsc_hz w' = tsc_hz w)"
  using assms
proof (induction "is" arbitrary: w)
  case (Cons i "is")
  show ?case
  proof (cases "in_use (tcb_at w i)")
    case False
    then show ?thesis using Cons by simp
  next
    case True
    have i: "i < capacity w" using Cons.prems(2) by simp
    note g = sys_okD(4) [OF Cons.prems(1) i]
    from send_segment_ok [OF goodD(2,1,3) [OF g], of 0 "[]" "RST_FLAG OR ACK_FLAG" "snd_nxt (tcb_at w i)" "rcv_nxt (tcb_at w i)"]
    obtain rc w1 where w1: "tcp_send_segment e i (RST_FLAG OR ACK_FLAG) [] 0 (snd_nxt (tcb_at w i)) (rcv_nxt (tcb_at w i)) w = Some (rc, w1)" "worker_ok w1" "sends i w w1"
      by (auto simp: yields_def seg_post_def seg_sent_def)
    let ?w2 = "tls_detach_if_needed i w1" and ?f = "upd_tcb i (\<lambda>t. t\<lparr>snd_buf := None\<rparr>)"
    have s1: "stays e i w w1" by (rule stays_sends [OF g w1(2,3)])
    note g1 = stays_good [OF g s1]
    have s2: "stays e i w1 ?w2" by (rule detach_stays [OF g1])
    have s3: "stays e i ?w2 (?f ?w2)" by (rule drop_buffer_stays [OF stays_good [OF g1 s2]])
    have s: "stays e i w (?f ?w2)" using stays_trans [OF stays_trans [OF s1 s2] s3] .
    have fr: "capacity (?f ?w2) = capacity w" "ports (?f ?w2) = ports w" "srv (?f ?w2) = srv w" "tsc_hz (?f ?w2) = tsc_hz w"
      using w1(3) tls_detach_effect(2,7,9) [OF goodD(2,3) [OF g1]] by (simp_all add: sends_def tls_detach_if_needed_def tls_session_detach_def)
    have "yields (reset_loop e is (?f ?w2)) (\<lambda>w'. sys_ok e w' \<and> capacity w' = capacity (?f ?w2) \<and> ports w' = ports (?f ?w2) \<and> srv w' = srv (?f ?w2) \<and> tsc_hz w' = tsc_hz (?f ?w2))"
      by (rule Cons.IH [OF stays_sys(1) [OF Cons.prems(1) i s]]) (use Cons.prems(2) fr(1) in simp)
    then show ?thesis using True w1(1) unfolding fr by simp
  qed
qed simp

lemma store_reset_ok:
  assumes "sys_ok e w"
  shows "sys_ok e (tcb_store_reset w)" "capacity (tcb_store_reset w) = capacity w" "ports (tcb_store_reset w) = ports w" "srv (tcb_store_reset w) = srv w"
    "tsc_hz (tcb_store_reset w) = tsc_hz w" "i < capacity w \<Longrightarrow> tcb_at (tcb_store_reset w) i = tcb_zero" "0 < capacity w \<Longrightarrow> count (tcb_store_reset w) = 0"
proof -
  note w = worker_okD [OF sys_okD(2) [OF assms]]
  show c: "capacity (tcb_store_reset w) = capacity w" "ports (tcb_store_reset w) = ports w" "srv (tcb_store_reset w) = srv w" "tsc_hz (tcb_store_reset w) = tsc_hz w"
    by (simp_all add: tcb_store_reset_def)
  show z: "tcb_at (tcb_store_reset w) i = tcb_zero" if "i < capacity w" for i using that w(7) by (auto simp: tcb_store_reset_def tcb_at_def)
  show "0 < capacity w \<Longrightarrow> count (tcb_store_reset w) = 0" using w(7) by (auto simp: tcb_store_reset_def)
  show "sys_ok e (tcb_store_reset w)"
  proof (cases "capacity w = 0")
    case True
    then have "tcb_store_reset w = w" using w(7) by (simp add: tcb_store_reset_def)
    then show ?thesis using assms by simp
  next
    case False
    have "conn_ok (tcb_store_reset w)" using w(1) False by (intro conn_ok_reset) simp_all
    moreover have "tcb_ok tcb_zero" by (rule tcb_ok_zero)
    moreover have "tx_buf (tcb_store_reset w) = tx_buf w" "mbufs_held (tcb_store_reset w) = mbufs_held w" by (simp_all add: tcb_store_reset_def)
    ultimately have "worker_ok (tcb_store_reset w)" using sys_okD(2) [OF assms] c z by (simp add: worker_ok_def)
    then show ?thesis using assms c z ctx_ok_zero by (simp add: sys_ok_def)
  qed
qed

lemma reset_all_sys:
  assumes "sys_ok e w"
  shows "yields (tcp_fsm_reset_all e w) (\<lambda>w'. sys_ok e w' \<and> capacity w' = capacity w \<and> ports w' = ports w \<and> srv w' = srv w \<and> tsc_hz w' = tsc_hz w \<and>
    (\<forall>i<capacity w. tcb_at w' i = tcb_zero) \<and> (0 < capacity w \<longrightarrow> count w' = 0))"
  unfolding tcp_fsm_reset_all_def yields_map
  by (rule yields_mono [OF reset_loop_ok [OF assms]]) (use store_reset_ok in auto)

subsection \<open>The invariant of the loop\<close>

text \<open>
  Fixed facts: the worker's number is one of the array, its core has a number within the metrics array, and the address of the prebuilt request is
  not the marker 1 of server connections.
\<close>

definition lenv_ok :: "loop_env \<Rightarrow> bool" where
  "lenv_ok L \<longleftrightarrow> le_addr L \<noteq> 1 \<and> e_lcore_id (le_env L) < TGEN_MAX_WORKERS \<and> wc_worker_idx (le_ctx L) < TGEN_MAX_WORKERS"

definition gens_ok :: "loop_env \<Rightarrow> loop_state \<Rightarrow> bool" where
  "gens_ok L s \<longleftrightarrow> length (lp_gens s) = TGEN_MAX_CLIENT_FLOWS \<and>
     list_all (\<lambda>g. gen_ok (lp_w s) g \<and> (\<not> tg_active g \<or> cfg_ok (le_env L) (le_extra L) (tg_cfg g))) (lp_gens s)"

definition core_ok :: "loop_env \<Rightarrow> loop_state \<Rightarrow> bool" where
  "core_ok L s \<longleftrightarrow> sys_ok (loop_e L s) (lp_w s) \<and> gens_ok L s \<and> req_built (lp_hp s) \<and> rings_ok (lp_rings s)"

text \<open>Commands whose payload is usable: strings and packet sizes of a flow fit, and a listener configuration has its array.\<close>

definition cmd_ok :: "loop_env \<Rightarrow> config_update \<Rightarrow> bool" where
  "cmd_ok L m \<longleftrightarrow> (cu_cmd m = CFG_CMD_START \<longrightarrow> cfg_ok (le_env L) (le_extra L) (cu_gen m)) \<and>
     (cu_cmd m = CFG_CMD_SERVE \<longrightarrow> SRV_MAX_LISTENERS \<le> length (sp_specs (cu_srv m)))"

definition my_cmds :: "loop_env \<Rightarrow> loop_state \<Rightarrow> config_update list" where
  "my_cmds L s = case_option [] (\<lambda>q. q) (ipc_rings (lp_ipc s) ! wc_worker_idx (le_ctx L))"

definition loop_ok :: "loop_env \<Rightarrow> loop_state \<Rightarrow> bool" where
  "loop_ok L s \<longleftrightarrow> core_ok L s \<and> ipc_ok (lp_ipc s) \<and> list_all (cmd_ok L) (my_cmds L s)"

lemma loop_e_fields [simp]: "loop_e L (s\<lparr>lp_w := w\<rparr>) = loop_e L s" "loop_e L (s\<lparr>lp_gens := g\<rparr>) = loop_e L s" "loop_e L (s\<lparr>lp_rings := r\<rparr>) = loop_e L s"
  "loop_e L (s\<lparr>lp_ipc := i\<rparr>) = loop_e L s" "loop_e L (s\<lparr>lp_run := b\<rparr>) = loop_e L s" "loop_e L (s\<lparr>lp_pkts := ps\<rparr>) = loop_e L s" "loop_e L (s\<lparr>lp_cpu := c\<rparr>) = loop_e L s"
  by (simp_all add: loop_e_def)

text \<open>The prebuilt request may be replaced by another that fits its buffer.\<close>

lemma sys_ok_hp:
  assumes "sys_ok (loop_e L s) w" "req_built (lp_hp s)" "req_built hp"
  shows "sys_ok (loop_e L (s\<lparr>lp_hp := hp\<rparr>)) w"
proof -
  have "req_ok (loop_e L (s\<lparr>lp_hp := hp\<rparr>)) a = req_ok (loop_e L s) a" for a using assms(2,3) by (simp add: req_ok_def loop_e_def req_built_def)
  then have "ctx_ok (loop_e L (s\<lparr>lp_hp := hp\<rparr>)) t = ctx_ok (loop_e L s) t" for t by (simp add: ctx_ok_def)
  moreover have "env_ok (loop_e L (s\<lparr>lp_hp := hp\<rparr>)) = env_ok (loop_e L s)" by (simp add: env_ok_def loop_e_def)
  ultimately show ?thesis using assms(1) by (simp add: sys_ok_def)
qed

lemma gens_ok_worker: "gens_ok L s \<Longrightarrow> capacity w = capacity (lp_w s) \<Longrightarrow> gens_ok L (s\<lparr>lp_w := w\<rparr>)"
  by (simp add: gens_ok_def gen_ok_def)

lemma core_ok_worker:
  assumes "core_ok L s" "sys_ok (loop_e L s) w" "capacity w = capacity (lp_w s)"
  shows "core_ok L (s\<lparr>lp_w := w\<rparr>)"
  using assms gens_ok_worker by (simp add: core_ok_def)

lemma core_ok_gens:
  assumes "core_ok L s" "length gs = TGEN_MAX_CLIENT_FLOWS"
    "list_all (\<lambda>g. gen_ok (lp_w s) g \<and> (\<not> tg_active g \<or> cfg_ok (le_env L) (le_extra L) (tg_cfg g))) gs"
  shows "core_ok L (s\<lparr>lp_gens := gs\<rparr>)"
  using assms by (simp add: core_ok_def gens_ok_def)

lemma core_ok_gen:
  assumes "core_ok L s" "gen_ok (lp_w s) g" "\<not> tg_active g \<or> cfg_ok (le_env L) (le_extra L) (tg_cfg g)"
  shows "core_ok L (s\<lparr>lp_gens := (lp_gens s)[k := g]\<rparr>)"
  using assms by (intro core_ok_gens) (auto simp: core_ok_def gens_ok_def list_all_iff dest!: set_update_subset_insert [THEN subsetD])

lemma core_ok_hp: "core_ok L s \<Longrightarrow> req_built hp \<Longrightarrow> core_ok L (s\<lparr>lp_hp := hp\<rparr>)"
  using sys_ok_hp by (auto simp: core_ok_def gens_ok_def)

lemma core_ok_srv: "core_ok L s \<Longrightarrow> srv_ok (f (srv (lp_w s))) \<Longrightarrow> core_ok L (upd_srv f s)"
  unfolding upd_srv_def by (rule core_ok_worker) (auto simp: core_ok_def sys_ok_def tcb_at_def)

lemma core_ok_ports: "core_ok L s \<Longrightarrow> pool_ok wp \<Longrightarrow> core_ok L (s\<lparr>lp_w := (lp_w s)\<lparr>ports := wp\<rparr>\<rparr>)"
  using sys_ok_ports by (intro core_ok_worker) (auto simp: core_ok_def)

text \<open>What the commands leave alone.\<close>

definition cmd_frame :: "loop_state \<Rightarrow> loop_state \<Rightarrow> bool" where
  "cmd_frame s s' \<longleftrightarrow> lp_ipc s' = lp_ipc s \<and> lp_run s' = lp_run s \<and> lp_rings s' = lp_rings s \<and> capacity (lp_w s') = capacity (lp_w s)"

lemma reset_all_core:
  assumes "core_ok L s"
  shows "yields (reset_all L s) (\<lambda>s'. core_ok L s' \<and> cmd_frame s s' \<and> ports (lp_w s') = ports (lp_w s) \<and> lp_gens s' = lp_gens s \<and> srv (lp_w s') = srv (lp_w s) \<and>
    (0 < capacity (lp_w s) \<longrightarrow> count (lp_w s') = 0))"
proof -
  have "sys_ok (loop_e L s) (lp_w s)" using assms by (simp add: core_ok_def)
  from reset_all_sys [OF this] show ?thesis unfolding reset_all_def yields_map
    by (rule yields_mono) (auto simp: cmd_frame_def intro!: core_ok_worker [OF assms])
qed

subsection \<open>The commands keep the invariant\<close>

lemma append_body_length:
  assumes "append_body cap body n out = Some (rc, out')" "0 < rc"
  shows "rc = int (length out')"
  using assms by (auto simp: append_body_def ENOSPC_def split: if_splits)

lemma status_ok_fits: "\<exists>out. append_tmp 128 18000 (status_line 200 (Some (str ''OK''))) [] = Some out"
  by (simp add: append_tmp_def status_line_def digits.simps str_def CRLF_def)

lemma response_written:
  "\<exists>rc out. http11_tx_response 18000 200 (Some (str ''OK'')) ty (Some (replicate (unat n) 65)) n = Some (rc, out) \<and> (0 < rc \<longrightarrow> rc = int (length out))"
  "\<exists>rc out. http11_tx_response_chunked_hdr 18000 200 (Some (str ''OK'')) ty = Some (rc, out) \<and> (0 < rc \<longrightarrow> rc = int (length out))"
proof -
  obtain out where out: "append_tmp 128 18000 (status_line 200 (Some (str ''OK''))) [] = Some out" using status_ok_fits by blast
  have "\<exists>rc out'. append_body 18000 (Some (replicate (unat n) 65)) n o1 = Some (rc, out')" for o1 by (auto simp: append_body_def)
  then have "\<exists>rc out'. append_body 18000 (Some (replicate (unat n) 65)) n o1 = Some (rc, out') \<and> (0 < rc \<longrightarrow> rc = int (length out'))" for o1
    using append_body_length by meson
  then show "\<exists>rc out. http11_tx_response 18000 200 (Some (str ''OK'')) ty (Some (replicate (unat n) 65)) n = Some (rc, out) \<and> (0 < rc \<longrightarrow> rc = int (length out))"
    unfolding http11_tx_response_def out option.case .
  show "\<exists>rc out. http11_tx_response_chunked_hdr 18000 200 (Some (str ''OK'')) ty = Some (rc, out) \<and> (0 < rc \<longrightarrow> rc = int (length out))"
    unfolding http11_tx_response_chunked_hdr_def out option.case Let_def by blast
qed

lemma build_response_ok:
  "yields (srv_build_http_response n tbl) (\<lambda>t. unat (srv_http_response_len t) \<le> length (srv_http_response t) \<and>
     srv_listeners t = srv_listeners tbl \<and> srv_count t = srv_count tbl)"
proof -
  define k where "k = (if n = 0 then 1024 else n)"
  define r where "r = (if k \<le> 16384
      then http11_tx_response 18000 200 (Some (str ''OK'')) (Some (str ''text/plain'')) (Some (replicate (unat k) 65)) k
      else http11_tx_response_chunked_hdr 18000 200 (Some (str ''OK'')) (Some (str ''text/plain'')))"
  obtain rc o1 where r: "r = Some (rc, o1)" "0 < rc \<longrightarrow> rc = int (length o1)" 
    unfolding r_def using response_written(1) [of "Some (str ''text/plain'')" k] response_written(2) [of "Some (str ''text/plain'')"] by (cases "k \<le> 16384") (meson | simp)+
  have l: "length o1 \<le> length (put_at 0 o1 xs)" for xs by (simp add: put_at_def)
  have "unat (if 0 < rc then word_of_int rc else 0 :: u32) \<le> length o1" using r(2) unat_word_of_int_nat_le [of "length o1", where ?'a = 32] by (cases "0 < rc") simp_all
  then show ?thesis unfolding srv_build_http_response_def Let_def k_def [symmetric] r_def [symmetric] r(1)
    using order_trans [OF _ l] by (simp add: yields_def)
qed

lemma configure_ok:
  assumes "SRV_MAX_LISTENERS \<le> length (sp_specs cfg)"
  shows "yields (srv_table_configure cfg tbl) srv_ok"
proof -
  let ?n = "min (unat (sp_count cfg)) SRV_MAX_LISTENERS"
  let ?t = "tbl\<lparr>srv_listeners := map listener_of_spec (take ?n (sp_specs cfg)) @ replicate (SRV_MAX_LISTENERS - ?n) listener_zero, srv_count := ?n\<rparr>"
  have n: "\<not> ?n > length (sp_specs cfg)" "length (srv_listeners ?t) = SRV_MAX_LISTENERS" using assms by simp_all
  show ?thesis unfolding srv_table_configure_def Let_def if_not_P [OF n(1)]
    by (rule yields_bindI [OF build_response_ok]) (use n(2) in \<open>simp add: srv_ok_def\<close>)
qed

lemma srv_ok_stops: "srv_ok t \<Longrightarrow> srv_ok (srv_table_stop_all t)" "srv_ok t \<Longrightarrow> srv_ok (srv_table_stop_one k t)"
  by (simp_all add: srv_ok_def srv_table_stop_all_def srv_table_stop_one_def Let_def)

lemma pool_ok_reset: "pool_ok wp \<Longrightarrow> pool_ok (tcp_port_pool_reset wp)"
  by (auto simp: pool_ok_def ip_pool_ok_def tcp_port_pool_reset_def full_map_def port_consts)

lemma core_ok_srv_ok: "core_ok L s \<Longrightarrow> srv_ok (srv (lp_w s))"
  by (simp add: core_ok_def sys_ok_def)

lemma stop_gens_core: "core_ok L s \<Longrightarrow> core_ok L (stop_gens s)"
  unfolding stop_gens_def by (rule core_ok_gens) (auto simp: core_ok_def gens_ok_def list_all_iff gen_ok_def tx_gen_stop_def)

lemma cmd_frame_trans: "cmd_frame a b \<Longrightarrow> cmd_frame b c \<Longrightarrow> cmd_frame a c"
  by (simp add: cmd_frame_def)

lemma cmd_frame_upds [simp]: "cmd_frame s (s'\<lparr>lp_gens := g\<rparr>) = cmd_frame s s'" "cmd_frame s (s'\<lparr>lp_hp := h\<rparr>) = cmd_frame s s'" "cmd_frame s (upd_srv f s') = cmd_frame s s'"
  "cmd_frame s (stop_gens s') = cmd_frame s s'" "cmd_frame (stop_gens s) s' = cmd_frame s s'" "cmd_frame s (s'\<lparr>lp_w := (lp_w s')\<lparr>ports := wp\<rparr>\<rparr>) = cmd_frame s s'" "cmd_frame s s"
  by (simp_all add: cmd_frame_def upd_srv_def stop_gens_def)

lemma start_gen:
  assumes "core_ok L s" "cfg_ok (le_env L) (le_extra L) cfg"
  shows "core_ok L (let (g, w) = tx_gen_configure cfg q (lp_w s); (g, w) = tx_gen_start g w in s\<lparr>lp_gens := (lp_gens s)[k := g], lp_w := w\<rparr>)"
    "cmd_frame s (let (g, w) = tx_gen_configure cfg q (lp_w s); (g, w) = tx_gen_start g w in s\<lparr>lp_gens := (lp_gens s)[k := g], lp_w := w\<rparr>)"
proof -
  obtain g1 w1 where 1: "tx_gen_configure cfg q (lp_w s) = (g1, w1)" by fastforce
  obtain g2 w2 where 2: "tx_gen_start g1 w1 = (g2, w2)" by fastforce
  have w1: "w1 = snd (rdtsc (lp_w s))" "tg_cfg g1 = cfg" "tg_tp_tcbs g1 = replicate 16 None" "tg_tp_n_streams g1 = 0"
    using 1 by (auto simp: tx_gen_configure_def Let_def split: prod.splits)
  have w2: "w2 = snd (rdtsc w1)" "tg_tp_tcbs g2 = tg_tp_tcbs g1" "tg_tp_n_streams g2 = tg_tp_n_streams g1"
    using 2 by (auto simp: tx_gen_start_def Let_def split: prod.splits)
  have "sys_ok (loop_e L s) (lp_w s)" using assms(1) by (simp add: core_ok_def)
  from sys_ok_rdtsc [OF sys_ok_rdtsc [OF this]] have s: "sys_ok (loop_e L s) w2" "capacity w2 = capacity (lp_w s)" unfolding w1(1) w2(1) by (simp_all add: rdtsc_def)
  note c = core_ok_worker [OF assms(1) s]
  have "gen_ok w2 g2" using start_tokens(1) [OF 2] w1 w2 by (simp add: gen_ok_def list_all_iff word_le_nat_alt)
  moreover have "tg_cfg g2 = cfg" using start_tokens(3) [OF 2] w1(2) by simp
  ultimately have "core_ok L (s\<lparr>lp_w := w2, lp_gens := (lp_gens s)[k := g2]\<rparr>)" using core_ok_gen [OF c, of g2 k] assms(2) by simp
  moreover have "s\<lparr>lp_w := w2, lp_gens := (lp_gens s)[k := g2]\<rparr> = s\<lparr>lp_gens := (lp_gens s)[k := g2], lp_w := w2\<rparr>" by simp
  ultimately have "core_ok L (s\<lparr>lp_gens := (lp_gens s)[k := g2], lp_w := w2\<rparr>)" by metis
  then show "core_ok L (let (g, w) = tx_gen_configure cfg q (lp_w s); (g, w) = tx_gen_start g w in s\<lparr>lp_gens := (lp_gens s)[k := g], lp_w := w\<rparr>)"
    by (simp add: 1 2 Let_def)
  show "cmd_frame s (let (g, w) = tx_gen_configure cfg q (lp_w s); (g, w) = tx_gen_start g w in s\<lparr>lp_gens := (lp_gens s)[k := g], lp_w := w\<rparr>)"
    using s(2) by (simp add: 1 2 Let_def cmd_frame_def)
qed


text \<open>The invariant after a command, and what the command left alone.\<close>

definition cmd_done :: "loop_env \<Rightarrow> loop_state \<Rightarrow> loop_state \<Rightarrow> bool" where
  "cmd_done L s s' \<longleftrightarrow> core_ok L s' \<and> cmd_frame s s'"

lemma reset_done: "core_ok L s \<Longrightarrow> yields (reset_all L s) (cmd_done L s)"
  by (rule yields_mono [OF reset_all_core]) (auto simp: cmd_done_def)

lemma done_trans: "cmd_done L a b \<Longrightarrow> cmd_done L b c \<Longrightarrow> cmd_done L a c"
  using cmd_frame_trans by (auto simp: cmd_done_def)

lemma done_core: "cmd_done L s s' \<Longrightarrow> core_ok L s'"
  by (simp add: cmd_done_def)

lemma start_done:
  assumes "core_ok L s" "cfg_ok (le_env L) (le_extra L) gcfg"
  shows "yields (cmd_start L gcfg s) (cmd_done L s)"
proof -
  define si where "si = (if unat (cfg_flow_idx gcfg) \<ge> TGEN_MAX_CLIENT_FLOWS then 0 else unat (cfg_flow_idx gcfg))"
  define act where "act = list_ex (\<lambda>k. k \<noteq> si \<and> tg_active (lp_gens s ! k)) [0 ..< TGEN_MAX_CLIENT_FLOWS]"
  define hp where "hp s = (if cfg_proto gcfg = TX_GEN_PROTO_HTTP then s\<lparr>lp_hp := (lp_hp s)\<lparr>hp_hdr_len := 0\<rparr>\<rparr> else s)" for s :: loop_state
  have "cmd_done L s s" using assms(1) by (simp add: cmd_done_def)
  then have 1: "yields (if act then Some s else reset_all L s) (cmd_done L s)" using reset_done [OF assms(1)] by simp
  have 2: "cmd_done L v (hp v)" if "core_ok L v" for v
    using that core_ok_hp [OF that, of "(lp_hp v)\<lparr>hp_hdr_len := 0\<rparr>"] by (simp add: hp_def cmd_done_def req_built_def)
  note st = start_gen [OF _ assms(2)]
  show ?thesis unfolding cmd_start_def Let_def si_def [symmetric] act_def [symmetric] hp_def [symmetric]
  proof (rule yields_bindI [OF 1])
    fix v assume v: "cmd_done L s v"
    note h = 2 [OF done_core [OF v]]
    have g: "cmd_done L (hp v) (let (g, w) = tx_gen_configure gcfg q (lp_w (hp v)); (g, w) = tx_gen_start g w in (hp v)\<lparr>lp_gens := (lp_gens (hp v))[si := g], lp_w := w\<rparr>)" for q
      unfolding cmd_done_def using st [OF done_core [OF h]] by blast
    show "yields (Some (if tx_queue_of (le_ctx L) (cfg_port_id gcfg) \<noteq> - 1
         then case tx_gen_configure gcfg (tx_queue_of (le_ctx L) (cfg_port_id gcfg)) (lp_w (hp v)) of
              (g, w) \<Rightarrow> case tx_gen_start g w of (g, w) \<Rightarrow> (hp v)\<lparr>lp_gens := (lp_gens (hp v))[si := g], lp_w := w\<rparr>
         else hp v)) (cmd_done L s)"
      using done_trans [OF v h] done_trans [OF done_trans [OF v h] g [unfolded Let_def]] by simp
  qed
qed

lemma srv_stop_done: "core_ok L s \<Longrightarrow> cmd_done L s (upd_srv srv_table_stop_all s)" "core_ok L s \<Longrightarrow> cmd_done L s (upd_srv (srv_table_stop_one k) s)"
  using core_ok_srv core_ok_srv_ok srv_ok_stops by (auto simp: cmd_done_def)

lemma reset_then:
  assumes "core_ok L s" "\<And>v. core_ok L v \<Longrightarrow> cmd_done L v (f v)"
  shows "yields (map_option f (reset_all L s)) (cmd_done L s)"
  unfolding yields_map by (rule yields_mono [OF reset_done [OF assms(1)]]) (blast intro: done_trans assms(2) done_core)

lemma stop_gens_done: "core_ok L s \<Longrightarrow> cmd_done L s (stop_gens s)"
  using stop_gens_core by (simp add: cmd_done_def)

lemma gens_map_done:
  assumes "core_ok L s" "\<And>g. tg_tokens (f g) = tg_tokens g \<and> tg_tp_tcbs (f g) = tg_tp_tcbs g \<and> tg_tp_n_streams (f g) = tg_tp_n_streams g"
    "\<And>g. tg_active (f g) \<longrightarrow> tg_active g \<and> (cfg_ok (le_env L) (le_extra L) (tg_cfg g) \<longrightarrow> cfg_ok (le_env L) (le_extra L) (tg_cfg (f g)))"
  shows "cmd_done L s (s\<lparr>lp_gens := map f (lp_gens s)\<rparr>)"
  unfolding cmd_done_def using assms by (auto simp: core_ok_def gens_ok_def list_all_iff gen_ok_def intro!: core_ok_gens [OF assms(1)])

lemma apply_done:
  assumes "core_ok L s" "cmd_ok L m"
  shows "yields (apply_cmd L m s) (cmd_done L s)"
proof -
  have stop: "yields (cmd_stop L s) (cmd_done L s)"
    unfolding cmd_stop_def Let_def
    using reset_then [OF stop_gens_core [OF assms(1)] srv_stop_done(1)] stop_gens_done [OF assms(1)]
    by (auto elim!: yields_mono intro: done_trans)
  have "gen_ok (lp_w s) (tx_gen_stop (lp_gens s ! k))" if "k < TGEN_MAX_CLIENT_FLOWS" for k
    using that assms(1) by (auto simp: core_ok_def gens_ok_def list_all_length gen_ok_def tx_gen_stop_def)
  then have "cmd_done L s (s\<lparr>lp_gens := (lp_gens s)[k := tx_gen_stop (lp_gens s ! k)]\<rparr>)" if "k < TGEN_MAX_CLIENT_FLOWS" for k
    using that core_ok_gen [OF assms(1), of "tx_gen_stop (lp_gens s ! k)" k] by (simp add: cmd_done_def tx_gen_stop_def)
  then have flow: "cmd_done L s (cmd_stop_flow si s)" for si
    using assms(1) stop_gens_done [OF assms(1)] by (auto simp: cmd_stop_flow_def cmd_done_def)
  have serve: "yields (cmd_serve L cfg s) (cmd_done L s)" if "SRV_MAX_LISTENERS \<le> length (sp_specs cfg)" for cfg
    unfolding cmd_serve_def
  proof (rule yields_bindI [OF reset_done [OF assms(1)]], rule yields_bindI [OF configure_ok [OF that]])
    fix v t assume v: "cmd_done L s v" "srv_ok t"
    have "cmd_done L v (upd_srv (\<lambda>_. t) v)" using core_ok_srv [OF done_core [OF v(1)], of "\<lambda>_. t"] v(2) by (simp add: cmd_done_def)
    then show "yields (Some (upd_srv (\<lambda>_. t) v)) (cmd_done L s)" using done_trans [OF v(1)] by simp
  qed
  have rate: "cmd_done L s (cmd_set_rate r s)" for r
    unfolding cmd_set_rate_def by (rule gens_map_done [OF assms(1)]) (auto simp: cfg_ok_def gen_eth_sz_def)
  have listener: "yields (cmd_stop_listener L k s) (cmd_done L s)" for k
    using reset_then [OF assms(1) srv_stop_done(1)] srv_stop_done(2) [OF assms(1)] by (simp add: cmd_stop_listener_def)
  have "cmd_done L v (v\<lparr>lp_w := (lp_w v)\<lparr>ports := tcp_port_pool_reset (ports (lp_w v))\<rparr>\<rparr>)" if "core_ok L v" for v
    using that core_ok_ports [OF that pool_ok_reset] worker_okD(3) sys_okD(2) by (auto simp: cmd_done_def core_ok_def)
  then have reset: "yields (cmd_reset L s) (cmd_done L s)" unfolding cmd_reset_def by (rule reset_then [OF assms(1)])
  show ?thesis using start_done [OF assms(1)] stop flow serve rate listener reset assms
    by (cases "cu_cmd m") (auto simp: apply_cmd_def cmd_ok_def cmd_done_def)
qed


subsection \<open>The command queue\<close>

lemma recv_my_cmds:
  assumes "ipc_ok (lp_ipc s)" "wc_worker_idx (le_ctx L) < TGEN_MAX_WORKERS" "tgen_ipc_recv (wc_worker_idx (le_ctx L)) (lp_ipc s) = (r, i)"
  shows "my_cmds L s = (case r of None \<Rightarrow> [] | Some m \<Rightarrow> m # my_cmds L (s\<lparr>lp_ipc := i\<rparr>))" "r = None \<Longrightarrow> i = lp_ipc s"
    "ipc_log i ! wc_worker_idx (le_ctx L) = ipc_log (lp_ipc s) ! wc_worker_idx (le_ctx L) @ (case r of None \<Rightarrow> [] | Some m \<Rightarrow> [m])"
    "ack_rings i = ack_rings (lp_ipc s)" "ipc_ring_sz i = ipc_ring_sz (lp_ipc s)"
proof -
  have "wc_worker_idx (le_ctx L) < length (ipc_rings (lp_ipc s))" "wc_worker_idx (le_ctx L) < length (ipc_log (lp_ipc s))" using assms(1,2) by (simp_all add: ipc_ok_def ring_bound_def)
  then show "my_cmds L s = (case r of None \<Rightarrow> [] | Some m \<Rightarrow> m # my_cmds L (s\<lparr>lp_ipc := i\<rparr>))" "r = None \<Longrightarrow> i = lp_ipc s"
    "ipc_log i ! wc_worker_idx (le_ctx L) = ipc_log (lp_ipc s) ! wc_worker_idx (le_ctx L) @ (case r of None \<Rightarrow> [] | Some m \<Rightarrow> [m])"
    "ack_rings i = ack_rings (lp_ipc s)" "ipc_ring_sz i = ipc_ring_sz (lp_ipc s)"
    using assms(3) by (auto simp: tgen_ipc_recv_def my_cmds_def ipc_unbox_def split: option.splits list.splits)
qed

lemma ack_frame: "ipc_rings (tgen_ipc_ack e k sq rc i) = ipc_rings i" "ipc_log (tgen_ipc_ack e k sq rc i) = ipc_log i"
  "ipc_ring_sz (tgen_ipc_ack e k sq rc i) = ipc_ring_sz i"
  by (auto simp: tgen_ipc_ack_def ipc_box_def ipc_unbox_def Let_def split: option.splits prod.splits)

lemma core_ok_ipc: "core_ok L (s\<lparr>lp_ipc := i\<rparr>) = core_ok L s" "core_ok L (s\<lparr>lp_run := b\<rparr>) = core_ok L s"
  by (simp_all add: core_ok_def gens_ok_def)

text \<open>The commands before a shutdown, in the order of the ring.\<close>

definition is_shutdown :: "config_update \<Rightarrow> bool" where
  "is_shutdown m \<longleftrightarrow> cu_cmd m = CFG_CMD_SHUTDOWN"

lemma handle_done:
  assumes "core_ok L s" "cmd_ok L m" "ipc_ok (lp_ipc s)" "wc_worker_idx (le_ctx L) < TGEN_MAX_WORKERS"
  shows "yields (handle_cmd L m s) (\<lambda>s'. core_ok L s' \<and> lp_ipc s' = tgen_ipc_ack (le_ipc L) (wc_worker_idx (le_ctx L)) (cu_seq m) 0 (lp_ipc s) \<and>
    ipc_ok (lp_ipc s') \<and> my_cmds L s' = my_cmds L s \<and> lp_run s' = lp_run s \<and> capacity (lp_w s') = capacity (lp_w s))"
  unfolding handle_cmd_def
proof (rule yields_bindI [OF apply_done [OF assms(1,2)]])
  fix v assume v: "cmd_done L s v"
  then have f: "lp_ipc v = lp_ipc s" "core_ok L v" "lp_run v = lp_run s" "capacity (lp_w v) = capacity (lp_w s)" by (simp_all add: cmd_done_def cmd_frame_def)
  show "yields (Some (v\<lparr>lp_ipc := tgen_ipc_ack (le_ipc L) (wc_worker_idx (le_ctx L)) (cu_seq m) 0 (lp_ipc v)\<rparr>))
      (\<lambda>s'. core_ok L s' \<and> lp_ipc s' = tgen_ipc_ack (le_ipc L) (wc_worker_idx (le_ctx L)) (cu_seq m) 0 (lp_ipc s) \<and>
        ipc_ok (lp_ipc s') \<and> my_cmds L s' = my_cmds L s \<and> lp_run s' = lp_run s \<and> capacity (lp_w s') = capacity (lp_w s))"
    using f ipc_step_ok [OF ack_step(1) [OF assms(3,4)]] by (simp add: core_ok_ipc my_cmds_def ack_frame)
qed

text \<open>The commands before a shutdown, and the acknowledgement of one; the ring has room for them and boxes are never refused.\<close>

definition to_serve :: "loop_env \<Rightarrow> loop_state \<Rightarrow> config_update list" where
  "to_serve L s = takeWhile (\<lambda>m. \<not> is_shutdown m) (my_cmds L s)"

definition cmd_ack :: "loop_env \<Rightarrow> config_update \<Rightarrow> ipc_ack" where
  "cmd_ack L m = \<lparr>ack_worker_idx = word_of_nat (wc_worker_idx (le_ctx L)), ack_seq = cu_seq m, ack_rc = 0\<rparr>"

definition ack_room :: "loop_env \<Rightarrow> ipc_ack list \<Rightarrow> nat \<Rightarrow> ipc \<Rightarrow> bool" where
  "ack_room L q n i \<longleftrightarrow> (\<forall>k. ie_malloc (le_ipc L) k) \<and> ack_rings i ! wc_worker_idx (le_ctx L) = Some q \<and> length q + n \<le> ipc_ring_sz i - 1"

lemma ack_room_step:
  assumes "ack_room L q (Suc n) i" "ipc_ok i" "wc_worker_idx (le_ctx L) < TGEN_MAX_WORKERS"
  shows "ack_room L (q @ [cmd_ack L m]) n (tgen_ipc_ack (le_ipc L) (wc_worker_idx (le_ctx L)) (cu_seq m) 0 i)"
proof -
  have "wc_worker_idx (le_ctx L) < length (ack_rings i)" using assms(2,3) by (simp add: ipc_ok_def ring_bound_def)
  then show ?thesis using assms(1) by (simp add: ack_room_def tgen_ipc_ack_def ipc_box_def put_ring_def cmd_ack_def Let_def)
qed

definition drained :: "loop_env \<Rightarrow> loop_state \<Rightarrow> bool \<Rightarrow> loop_state \<Rightarrow> bool" where
  "drained L s go s' \<longleftrightarrow> loop_ok L s' \<and> capacity (lp_w s') = capacity (lp_w s) \<and> ipc_step (lp_ipc s) (lp_ipc s') (\<lambda>_. []) \<and>
     go = (\<not> list_ex is_shutdown (my_cmds L s)) \<and> lp_run s' = (go \<and> lp_run s) \<and> my_cmds L s' = drop (Suc (length (to_serve L s))) (my_cmds L s) \<and>
     (\<forall>q. ack_room L q (length (to_serve L s)) (lp_ipc s) \<longrightarrow>
        ack_rings (lp_ipc s') ! wc_worker_idx (le_ctx L) = Some (q @ map (cmd_ack L) (to_serve L s)))"

text \<open>The loop takes one command and goes on.\<close>

lemma drain_step:
  assumes "loop_ok L s" "lenv_ok L" "my_cmds L s = c # cs" "\<not> is_shutdown c"
  shows "\<exists>i v. tgen_ipc_recv (wc_worker_idx (le_ctx L)) (lp_ipc s) = (Some c, i) \<and> ipc_ok i \<and> handle_cmd L c (s\<lparr>lp_ipc := i\<rparr>) = Some v \<and> loop_ok L v \<and>
    my_cmds L v = cs \<and> lp_run v = lp_run s \<and> capacity (lp_w v) = capacity (lp_w s) \<and>
    lp_ipc v = tgen_ipc_ack (le_ipc L) (wc_worker_idx (le_ctx L)) (cu_seq c) 0 i \<and> drain_cmds L s = drain_cmds L v"
proof -
  let ?k = "wc_worker_idx (le_ctx L)"
  have k: "?k < TGEN_MAX_WORKERS" using assms(2) by (simp add: lenv_ok_def)
  have ok: "core_ok L s" "ipc_ok (lp_ipc s)" "list_all (cmd_ok L) (my_cmds L s)" using assms(1) by (simp_all add: loop_ok_def)
  obtain r i where r: "tgen_ipc_recv ?k (lp_ipc s) = (r, i)" by fastforce
  note m = recv_my_cmds(1) [OF ok(2) k r]
  have rc: "r = Some c" "my_cmds L (s\<lparr>lp_ipc := i\<rparr>) = cs" using m assms(3) by (auto split: option.splits)
  have i: "ipc_ok i" using ipc_step_ok [OF recv_step [OF ok(2) k]] r by simp
  from handle_done [of L "s\<lparr>lp_ipc := i\<rparr>" c] ok assms(3) i k obtain v where v: "handle_cmd L c (s\<lparr>lp_ipc := i\<rparr>) = Some v" "core_ok L v" "ipc_ok (lp_ipc v)"
    "my_cmds L v = cs" "lp_run v = lp_run s" "capacity (lp_w v) = capacity (lp_w s)" "lp_ipc v = tgen_ipc_ack (le_ipc L) ?k (cu_seq c) 0 i"
    by (auto simp: yields_def core_ok_ipc rc(2))
  moreover have "drain_cmds L s = drain_cmds L v" using r rc(1) assms(4) v(1) by (subst drain_cmds.simps) (simp add: is_shutdown_def)
  moreover have "loop_ok L v" using v(2-4) ok(3) assms(3) by (simp add: loop_ok_def)
  ultimately show ?thesis using r rc(1) i by blast
qed

lemma drain_ok:
  assumes "loop_ok L s" "lenv_ok L"
  shows "yields (drain_cmds L s) (\<lambda>(go, s'). drained L s go s')"
  using assms(1)
proof (induction "my_cmds L s" arbitrary: s)
  case Nil
  let ?k = "wc_worker_idx (le_ctx L)"
  have k: "?k < TGEN_MAX_WORKERS" "ipc_ok (lp_ipc s)" using assms(2) Nil.prems by (simp_all add: lenv_ok_def loop_ok_def)
  obtain r i where r: "tgen_ipc_recv ?k (lp_ipc s) = (r, i)" by fastforce
  have "r = None" "i = lp_ipc s" using recv_my_cmds(1,2) [OF k(2,1) r] Nil.hyps by (auto split: option.splits)
  then have "drain_cmds L s = Some (True, s)" using r by (subst drain_cmds.simps) simp
  then show ?case using Nil ipc_step_refl [OF k(2)] by (simp add: drained_def to_serve_def ack_room_def)
next
  case (Cons c cs)
  let ?k = "wc_worker_idx (le_ctx L)"
  have k: "?k < TGEN_MAX_WORKERS" "ipc_ok (lp_ipc s)" using assms(2) Cons.prems by (simp_all add: lenv_ok_def loop_ok_def)
  note c = Cons.hyps(2) [symmetric]
  show ?case
  proof (cases "is_shutdown c")
    case True
    obtain r i where r: "tgen_ipc_recv ?k (lp_ipc s) = (r, i)" by fastforce
    note m = recv_my_cmds [OF k(2,1) r]
    let ?s = "s\<lparr>lp_ipc := i, lp_run := False\<rparr>"
    have rc: "r = Some c" "my_cmds L ?s = cs" using m(1) c by (auto simp: my_cmds_def split: option.splits)
    have "drain_cmds L s = Some (False, ?s)" using r rc(1) True by (subst drain_cmds.simps) (simp add: is_shutdown_def)
    moreover have i: "ipc_step (lp_ipc s) i (\<lambda>_. [])" using recv_step [OF k(2,1)] r by simp
    moreover have "to_serve L s = []" "list_all (cmd_ok L) cs" "core_ok L s" using c True Cons.prems by (simp_all add: to_serve_def loop_ok_def)
    ultimately show ?thesis using c rc m(4) True ipc_step_ok [OF i] by (simp add: drained_def loop_ok_def core_ok_ipc ack_room_def)
  next
    case False
    from drain_step [OF Cons.prems assms(2) c False] obtain i v where v: "tgen_ipc_recv ?k (lp_ipc s) = (Some c, i)" "ipc_ok i" "loop_ok L v" "my_cmds L v = cs"
      "lp_run v = lp_run s" "capacity (lp_w v) = capacity (lp_w s)" "lp_ipc v = tgen_ipc_ack (le_ipc L) ?k (cu_seq c) 0 i" "drain_cmds L s = drain_cmds L v" by blast
    from Cons.hyps(1) [OF v(4) [symmetric] v(3)] obtain go s' where d: "drain_cmds L v = Some (go, s')" "drained L v go s'" by (auto simp: yields_def)
    have ts: "to_serve L s = c # to_serve L v" "list_ex is_shutdown (my_cmds L s) = list_ex is_shutdown (my_cmds L v)" using c v(4) False by (simp_all add: to_serve_def)
    have i: "ipc_step (lp_ipc s) i (\<lambda>_. [])" using recv_step [OF k(2,1)] v(1) by simp
    have st: "ipc_step (lp_ipc s) (lp_ipc v) (\<lambda>_. [])" using ipc_step_trans [OF i ack_step(1) [OF v(2) k(1)]] v(7) by simp
    have "ipc_step (lp_ipc s) (lp_ipc s') (\<lambda>_. [])" using ipc_step_trans [OF st] d(2) by (auto simp: drained_def)
    moreover have "ack_rings (lp_ipc s') ! ?k = Some (q @ map (cmd_ack L) (to_serve L s))" if "ack_room L q (length (to_serve L s)) (lp_ipc s)" for q
    proof -
      have "ack_room L q (Suc (length (to_serve L v))) i" using that ts(1) recv_my_cmds(4,5) [OF k(2,1) v(1)] by (simp add: ack_room_def)
      from ack_room_step [OF this v(2) k(1), of c] have "ack_room L (q @ [cmd_ack L c]) (length (to_serve L v)) (lp_ipc v)" by (simp add: v(7))
      then show ?thesis using d(2) ts(1) by (simp add: drained_def)
    qed
    ultimately have "drained L s go s'" using d(2) v(4-6) c ts by (simp add: drained_def)
    then show ?thesis using d(1) v(8) by simp
  qed
qed

subsection \<open>Receiving and generating keep the invariant\<close>

lemma loop_ok_step:
  assumes "loop_ok L s" "core_ok L s'" "lp_ipc s' = lp_ipc s"
  shows "loop_ok L s'"
  using assms by (simp add: loop_ok_def my_cmds_def)

definition round_frame :: "loop_state \<Rightarrow> loop_state \<Rightarrow> bool" where
  "round_frame s s' \<longleftrightarrow> lp_ipc s' = lp_ipc s \<and> lp_run s' = lp_run s \<and> lp_cpu s' = lp_cpu s \<and> capacity (lp_w s') = capacity (lp_w s)"

definition advanced :: "loop_env \<Rightarrow> loop_state \<Rightarrow> loop_state \<Rightarrow> bool" where
  "advanced L s s' \<longleftrightarrow> core_ok L s' \<and> round_frame s s'"

lemma advanced_refl: "core_ok L s \<Longrightarrow> advanced L s s"
  by (simp add: advanced_def round_frame_def)

lemma advanced_core: "advanced L s s' \<Longrightarrow> core_ok L s'"
  by (simp add: advanced_def)

lemma advanced_trans: "advanced L a b \<Longrightarrow> advanced L b c \<Longrightarrow> advanced L a c"
  by (simp add: advanced_def round_frame_def)

lemma core_ok_rings:
  assumes "core_ok L s" "same_store (loop_e L s) (lp_w s) w" "rings_ok r"
  shows "advanced L s (s\<lparr>lp_rings := r, lp_w := w\<rparr>)"
proof -
  have "core_ok L (s\<lparr>lp_w := w\<rparr>)" using assms(1,2) by (intro core_ok_worker) (simp_all add: same_store_def)
  then show ?thesis using assms(2,3) by (simp add: advanced_def round_frame_def core_ok_def gens_ok_def same_store_def)
qed

text \<open>Received frames are checked without regard to the prebuilt request.\<close>

lemma checks_loop_e: "ipv4_check (loop_e L s) = ipv4_check (le_env L)" "ipv6_check (loop_e L s) = ipv6_check (le_env L)"
proof -
  have f: "e_hdr_cksum (loop_e L s) = e_hdr_cksum (le_env L)" "e_arp (loop_e L s) = e_arp (le_env L)" "e_ndp (loop_e L s) = e_ndp (le_env L)"
    "e_port_caps (loop_e L s) = e_port_caps (le_env L)" by (simp_all add: loop_e_def)
  show "ipv4_check (loop_e L s) = ipv4_check (le_env L)" unfolding fun_eq_iff ipv4_check_def ipv4_local_def ipv4_validate_and_strip_def f by simp
  show "ipv6_check (loop_e L s) = ipv6_check (le_env L)" unfolding fun_eq_iff ipv6_check_def ipv6_local_def f by simp
qed

lemma rx_port_ok:
  assumes "core_ok L s" "lenv_ok L" "list_all (frame_ok (le_env L)) ms"
  shows "yields (rx_port L ms s) (advanced L s)"
proof (cases "ms = []")
  case True
  then show ?thesis using advanced_refl [OF assms(1)] by (simp add: rx_port_def)
next
  case False
  let ?w = "upd_metrics (worker_metrics_add_rx (word_of_nat (length ms)) (word_of_nat (sum_list (map (\<lambda>m. length (mb_data m)) ms)))) (lp_w s)"
  have "frame_ok (loop_e L s) = frame_ok (le_env L)" by (simp add: fun_eq_iff frame_ok_def frame_tcp_def checks_loop_e)
  then have "yields (receive_frames (loop_e L s) ms (lp_rings s) ?w) (\<lambda>(r', w'). rings_ok r' \<and> same_store (loop_e L s) ?w w')"
    using assms by (intro receive_frames_ok) (simp_all add: core_ok_def lenv_ok_def loop_e_def)
  then show ?thesis unfolding rx_port_def Let_def if_not_P [OF False]
    by (rule yields_bindI) (use core_ok_rings [OF assms(1)] in \<open>auto simp: same_store_def\<close>)
qed

lemma rx_ports_ok:
  assumes "core_ok L s" "lenv_ok L" "list_all (list_all (frame_ok (le_env L))) mss"
  shows "yields (rx_ports L mss s) (advanced L s)"
  using assms(1,3)
proof (induction mss arbitrary: s)
  case (Cons ms mss)
  then have "list_all (frame_ok (le_env L)) ms" by simp
  from rx_port_ok [OF Cons.prems(1) assms(2) this] obtain v where v: "rx_port L ms s = Some v" "advanced L s v" by (auto simp: yields_def)
  have "core_ok L v" using v(2) by (simp add: advanced_def)
  from Cons.IH [OF this] Cons.prems(2) have "yields (rx_ports L mss v) (advanced L v)" by simp
  then show ?case using v advanced_trans [OF v(2)] by (auto elim!: yields_mono)
qed (simp add: advanced_refl)

lemma flush_store: "sys_ok e w \<Longrightarrow> same_store e w (tcp_tx_flush e w)"
proof -
  assume a: "sys_ok e w"
  note k = sys_okD(2) [OF a]
  have "held_ok 0 w" using worker_okD(5,6) [OF k] by (simp add: held_ok_def)
  from tcp_tx_flush_spec [OF this] have t: "tx_same w (tcp_tx_flush e w)" "held_ok 0 (tcp_tx_flush e w)" by simp_all
  have "worker_ok (tcp_tx_flush e w)" using k t(2) tx_sameD [OF t(1)] by (simp add: worker_ok_def held_ok_def)
  then show ?thesis using a tx_sameD(2,3) [OF t(1)] t(1) by (simp add: same_store_def sys_ok_def tx_same_def)
qed

lemma loop_flush_ok:
  assumes "core_ok L s"
  shows "advanced L s (loop_flush L s)"
proof -
  have "sys_ok (loop_e L s) (lp_w s)" using assms by (simp add: core_ok_def)
  note f = flush_store [OF this]
  then show ?thesis using core_ok_worker [OF assms] by (simp add: advanced_def loop_flush_def round_frame_def same_store_def)
qed


lemma gen_burst_ok:
  assumes "core_ok L s" "lenv_ok L" "k < TGEN_MAX_CLIENT_FLOWS"
  shows "yields (gen_burst L k s) (advanced L s)"
proof (cases "tg_active (lp_gens s ! k)")
  case False
  then show ?thesis using advanced_refl [OF assms(1)] by (simp add: gen_burst_def)
next
  case True
  let ?e = "loop_e L s" and ?g = "lp_gens s ! k"
  have ok: "sys_ok ?e (lp_w s)" "gens_ok L s" "req_built (lp_hp s)" using assms(1) by (simp_all add: core_ok_def)
  then have g: "gen_ok (lp_w s) ?g" "cfg_ok (le_env L) (le_extra L) (tg_cfg ?g)" using assms(3) True by (simp_all add: gens_ok_def list_all_length)
  have c: "cfg_ok ?e x c = cfg_ok (le_env L) x c" for x c by (simp add: cfg_ok_def loop_e_def)
  have "req_ok ?e (le_addr L)" using ok(3) by (simp add: req_ok_def loop_e_def req_built_def)
  from burst_ok [OF ok(1) g(1) this _ g(2) [folded c [of "le_extra L"]] ok(3)] assms(2)
  obtain n ps hp g1 w where b: "tx_gen_burst ?e (le_addr L) (le_extra L) (lp_hp s) ?g (lp_w s) = Some (n, ps, hp, g1, w)" "same_store ?e (lp_w s) w"
    "gen_ok w g1" "req_built hp" "\<not> tg_active g1 \<or> tg_cfg g1 = tg_cfg ?g" by (auto simp: yields_def lenv_ok_def)
  have "core_ok L (s\<lparr>lp_w := w\<rparr>)" using b(2) by (intro core_ok_worker [OF assms(1)]) (simp_all add: same_store_def)
  from core_ok_gen [OF this, of g1 k] b(3,5) g(2) have "core_ok L (s\<lparr>lp_w := w, lp_gens := (lp_gens s)[k := g1]\<rparr>)" by auto
  from core_ok_hp [OF this b(4)] have "core_ok L (s\<lparr>lp_gens := (lp_gens s)[k := g1], lp_hp := hp, lp_w := w, lp_pkts := lp_pkts s @ ps\<rparr>)"
    by (simp add: core_ok_def gens_ok_def loop_e_def)
  then show ?thesis using True b(1,2) by (simp add: gen_burst_def advanced_def round_frame_def same_store_def)
qed

lemma gen_bursts_ok:
  assumes "core_ok L s" "lenv_ok L" "list_all (\<lambda>k. k < TGEN_MAX_CLIENT_FLOWS) ks"
  shows "yields (gen_bursts L ks s) (advanced L s)"
  using assms(1,3)
proof (induction ks arbitrary: s)
  case (Cons k ks)
  then have "k < TGEN_MAX_CLIENT_FLOWS" by simp
  from gen_burst_ok [OF Cons.prems(1) assms(2) this] obtain v where v: "gen_burst L k s = Some v" "advanced L s v" by (auto simp: yields_def)
  have "core_ok L v" using v(2) by (simp add: advanced_def)
  from Cons.IH [OF this] Cons.prems(2) have "yields (gen_bursts L ks v) (advanced L v)" by simp
  then show ?case using v advanced_trans [OF v(2)] by (auto elim!: yields_mono)
qed (simp add: advanced_refl)

lemma flush_after:
  assumes "yields r (advanced L s)"
  shows "yields (map_option (loop_flush L) r) (advanced L s)"
  unfolding yields_map by (rule yields_mono [OF assms]) (blast intro: advanced_trans loop_flush_ok advanced_core)

lemma phases_ok:
  assumes "core_ok L s" "lenv_ok L"
  shows "list_all (list_all (frame_ok (le_env L))) rx \<Longrightarrow> yields (rx_phase L rx s) (advanced L s)" "yields (gen_phase L s) (advanced L s)"
proof -
  show "list_all (list_all (frame_ok (le_env L))) rx \<Longrightarrow> yields (rx_phase L rx s) (advanced L s)"
    unfolding rx_phase_def by (rule flush_after [OF rx_ports_ok [OF assms]])
  have "yields (gen_bursts L [0 ..< TGEN_MAX_CLIENT_FLOWS] s) (advanced L s)" by (rule gen_bursts_ok [OF assms]) (simp add: list_all_iff)
  then show "yields (gen_phase L s) (advanced L s)"
    unfolding gen_phase_def using advanced_refl [OF assms(1)] by (intro flush_after) simp
qed

lemma rdtsc_advanced: "core_ok L s \<Longrightarrow> advanced L s (snd (loop_rdtsc s))"
proof -
  assume a: "core_ok L s"
  have "sys_ok (loop_e L s) (snd (rdtsc (lp_w s)))" using a sys_ok_rdtsc by (simp add: core_ok_def)
  from core_ok_worker [OF a this] show ?thesis by (simp add: loop_rdtsc_def advanced_def round_frame_def rdtsc_def)
qed


subsection \<open>A round\<close>

lemma loop_ok_advanced: "loop_ok L s \<Longrightarrow> advanced L s s' \<Longrightarrow> loop_ok L s'"
  by (rule loop_ok_step) (simp_all add: advanced_def round_frame_def)


text \<open>
  C16. A round of the worker gets to its timers.  The queued commands are served, every frame that has arrived is dealt with and every
  active flow generates its burst, each of these phases keeping the worker's, the generators' and the rings' invariant; the round then
  completes if and only if its timer phase does, about whose invariant nothing is said here.  A shutdown ends the round before it receives.
  The conditions are: every queued start command carries a configuration that fits its buffers and every serve command its array of
  listeners (\<open>cmd_ok\<close>, which the command line ensures but for the packet size); the frames are within \<open>frame_ok\<close>, as for the receive path: a
  valid port number, and in SYN and SYN-ACK segments a maximum segment size of 1 to 65400 and a SYN-ACK window of at least 2; the worker's
  core and the worker have numbers below 124, and the prebuilt request is not at address 1 (\<open>lenv_ok\<close>).
\<close>

theorem round_reaches_timers:
  assumes "loop_ok L s" "lenv_ok L" "list_all (list_all (frame_ok (le_env L))) rx"
  shows "\<exists>go s1. drain_cmds L (snd (loop_rdtsc s)) = Some (go, s1) \<and> loop_ok L s1 \<and> (go \<or> worker_round L rx s = Some s1 \<and> \<not> lp_run s1) \<and>
    (\<not> go \<or> (\<exists>s2 s3. rx_phase L rx (snd (loop_rdtsc s1)) = Some s2 \<and> loop_ok L s2 \<and> gen_phase L (snd (loop_rdtsc s2)) = Some s3 \<and> loop_ok L s3 \<and>
       lp_run s3 = lp_run s \<and> (worker_round L rx s = None \<longleftrightarrow> timer_phase L (fst (loop_rdtsc s3)) (snd (loop_rdtsc s3)) = None)))"
proof -
  have adv: "loop_ok L (snd (loop_rdtsc v))" "lp_run (snd (loop_rdtsc v)) = lp_run v" if "loop_ok L v" for v
    using loop_ok_advanced [OF that rdtsc_advanced] that rdtsc_advanced [of L v] by (auto simp: loop_ok_def advanced_def round_frame_def)
  obtain t0 s0 where 0: "loop_rdtsc s = (t0, s0)" by fastforce
  from drain_ok [OF adv(1) [OF assms(1)] assms(2)] obtain go s1 where d: "drain_cmds L s0 = Some (go, s1)" "drained L s0 go s1" unfolding 0 by (auto simp: yields_def)
  have s1: "loop_ok L s1" "lp_run s1 = (go \<and> lp_run s)" using d(2) adv(2) [OF assms(1)] 0 by (simp_all add: drained_def)
  show ?thesis
  proof (cases go)
    case False
    then have "worker_round L rx s = Some s1" using 0 d(1) by (simp add: worker_round_def)
    then show ?thesis using 0 d(1) s1 False by (intro exI [of _ False] exI [of _ s1]) simp
  next
    case True
    obtain t1 u1 where 1: "loop_rdtsc s1 = (t1, u1)" by fastforce
    have u1: "loop_ok L u1" "lp_run u1 = lp_run s" using adv [OF s1(1)] s1(2) True 1 by simp_all
    then have "core_ok L u1" by (simp add: loop_ok_def)
    from phases_ok(1) [OF this assms(2,3)] obtain s2 where s2: "rx_phase L rx u1 = Some s2" "advanced L u1 s2" by (auto simp: yields_def)
    obtain t2 u2 where 2: "loop_rdtsc s2 = (t2, u2)" by fastforce
    have l2: "loop_ok L s2" by (rule loop_ok_advanced [OF u1(1) s2(2)])
    have u2: "loop_ok L u2" "lp_run u2 = lp_run s" using adv [OF l2] 2 s2(2) u1(2) by (simp_all add: advanced_def round_frame_def)
    then have "core_ok L u2" by (simp add: loop_ok_def)
    from phases_ok(2) [OF this assms(2)] obtain s3 where s3: "gen_phase L u2 = Some s3" "advanced L u2 s3" by (auto simp: yields_def)
    obtain t3 u3 where 3: "loop_rdtsc s3 = (t3, u3)" by fastforce
    have "worker_round L rx s = None \<longleftrightarrow> timer_phase L t3 u3 = None"
      using 0 1 2 3 d(1) s2(1) s3(1) True by (cases "timer_phase L t3 u3") (simp_all add: worker_round_def case_prod_beta Let_def)
    then show ?thesis using 0 1 2 3 d(1) s1(1) s2(1) s3 l2 True loop_ok_advanced [OF u2(1) s3(2)] u2(2)
      by (intro exI [of _ True] exI [of _ s1]) (simp add: advanced_def round_frame_def)
  qed
qed

subsection \<open>A worker with a flow and two commands\<close>

definition demo_loop_env :: loop_env where
  "demo_loop_env = \<lparr>le_env = gen_env, le_ctx = \<lparr>wc_worker_idx = 0, wc_lcore_id = 1, wc_socket_id = 0, wc_ports = [0], wc_rx_queues = [0], wc_tx_queues = [0]\<rparr>,
     le_addr = 2, le_extra = [], le_ipc = demo_ipc_env\<rparr>"

definition demo_cmd :: "cfg_cmd \<Rightarrow> u32 \<Rightarrow> config_update" where
  "demo_cmd c n = \<lparr>cu_cmd = c, cu_seq = n, cu_gen = demo_cfg TX_GEN_PROTO_HTTP, cu_srv = \<lparr>sp_specs = [], sp_count = 0, sp_http_body_size = 0\<rparr>, cu_index = -1, cu_rate = 5\<rparr>"

definition demo_loop :: "config_update list \<Rightarrow> loop_state" where
  "demo_loop ms = \<lparr>lp_w = demo_worker, lp_gens = replicate 16 (demo_gen TX_GEN_PROTO_UDP), lp_hp = demo_req, lp_rings = demo_rings,
     lp_ipc = demo_ipc\<lparr>ipc_rings := (ipc_rings demo_ipc)[0 := Some ms], ipc_boxes := int (length ms)\<rparr>, lp_run = True, lp_cpu = cpu_zero, lp_pkts = []\<rparr>"

lemma demo_loop_ok:
  assumes "length ms \<le> 63" "list_all (cmd_ok demo_loop_env) ms"
  shows "loop_ok demo_loop_env (demo_loop ms)" "lenv_ok demo_loop_env" "my_cmds demo_loop_env (demo_loop ms) = ms"
    "ack_room demo_loop_env [] (length (takeWhile P ms)) (lp_ipc (demo_loop ms))"
proof -
  have r: "ring_bound 64 (ipc_rings demo_ipc)" "queued (ipc_rings demo_ipc) = 0" "0 < length (ipc_rings demo_ipc)" "queued (ack_rings demo_ipc) = 0" "ring_bound 64 (ack_rings demo_ipc)"
    "ipc_rings demo_ipc ! 0 = Some []"
    by (simp_all add: ring_bound_def demo_ipc_def list_all_length queued_def TGEN_MAX_WORKERS_def sum_list_replicate)
  have "queued ((ipc_rings demo_ipc)[0 := Some ms]) = length ms" using queued_update [of 0 "ipc_rings demo_ipc" "Some ms"] r by simp
  moreover have "ring_bound 64 ((ipc_rings demo_ipc)[0 := Some ms])" using r(1) assms(1) by (intro ring_bound_update) simp_all
  ultimately have "ipc_ok (lp_ipc (demo_loop ms))" using r demo_ipc_ok(1) by (simp add: ipc_ok_def demo_loop_def) (simp add: demo_ipc_def)
  moreover show "my_cmds demo_loop_env (demo_loop ms) = ms" using r(3) by (simp add: my_cmds_def demo_loop_def demo_loop_env_def)
  moreover have "rings_ok demo_rings" by (simp add: rings_ok_def demo_rings_def RING_CAP_def TGEN_MAX_PORTS_def) (simp add: list_all_length)
  moreover have "loop_e demo_loop_env (demo_loop ms) = gen_env" by (simp add: loop_e_def demo_loop_env_def demo_loop_def gen_env_def fun_upd_idem)
  ultimately show "loop_ok demo_loop_env (demo_loop ms)" using assms(2) demo_gen_ok(1,2,4,5)
    by (simp add: loop_ok_def core_ok_def gens_ok_def demo_loop_def demo_loop_env_def TGEN_MAX_CLIENT_FLOWS_def list_all_length)
  show "lenv_ok demo_loop_env" by (simp add: lenv_ok_def demo_loop_env_def gen_env_def demo_env_def TGEN_MAX_WORKERS_def)
  have "length (takeWhile P ms) \<le> 63" using assms(1) length_takeWhile_le [of P ms] by simp
  then show "ack_room demo_loop_env [] (length (takeWhile P ms)) (lp_ipc (demo_loop ms))"
    by (simp add: ack_room_def demo_loop_env_def demo_ipc_env_def demo_loop_def demo_ipc_def TGEN_MAX_WORKERS_def)
qed

lemma demo_cmd_ok: "c \<noteq> CFG_CMD_SERVE \<Longrightarrow> cmd_ok demo_loop_env (demo_cmd c n)"
  using demo_gen_ok(4) [of TX_GEN_PROTO_HTTP] by (simp add: cmd_ok_def demo_cmd_def demo_loop_env_def cfg_ok_def demo_gen_def tx_gen_start_def tx_gen_configure_def rdtsc_def Let_def)


theorem round_reaches_timers_witness:
  "\<exists>s1 s2 s3. drain_cmds demo_loop_env (snd (loop_rdtsc (demo_loop [demo_cmd CFG_CMD_SET_RATE 1]))) = Some (True, s1) \<and>
    rx_phase demo_loop_env [[demo_frame demo_tx]] (snd (loop_rdtsc s1)) = Some s2 \<and> gen_phase demo_loop_env (snd (loop_rdtsc s2)) = Some s3 \<and> loop_ok demo_loop_env s3"
proof -
  let ?ms = "[demo_cmd CFG_CMD_SET_RATE 1]"
  have "length ?ms \<le> 63" "list_all (cmd_ok demo_loop_env) ?ms" by (simp_all add: demo_cmd_ok)
  note d = demo_loop_ok [OF this]
  have f: "frame_ok (le_env demo_loop_env) (demo_frame demo_tx)"
    by (simp add: frame_ok_def frame_tcp_def ether_type_def etype_at_def mb_mem_def demo_frame_def demo_tx_def demo_seg_def be16_def ETH_VLAN_def
        ETH_IPV4_def ETH_IPV6_def TGEN_MAX_PORTS_def SYN_FLAG_def)
  from round_reaches_timers [OF d(1,2), of "[[demo_frame demo_tx]]"] f
  obtain go s1 where g: "drain_cmds demo_loop_env (snd (loop_rdtsc (demo_loop ?ms))) = Some (go, s1)" "\<not> go \<or> (\<exists>s2 s3. rx_phase demo_loop_env [[demo_frame demo_tx]] (snd (loop_rdtsc s1)) = Some s2 \<and>
      gen_phase demo_loop_env (snd (loop_rdtsc s2)) = Some s3 \<and> loop_ok demo_loop_env s3)" by auto
  have l: "loop_ok demo_loop_env (snd (loop_rdtsc (demo_loop ?ms)))" using loop_ok_advanced [OF d(1) rdtsc_advanced] d(1) by (simp add: loop_ok_def)
  have "my_cmds demo_loop_env (snd (loop_rdtsc (demo_loop ?ms))) = ?ms" using d(3) by (simp add: my_cmds_def loop_rdtsc_def case_prod_beta)
  then have go using drain_ok [OF l d(2)] g(1) by (simp add: drained_def is_shutdown_def demo_cmd_def)
  then show ?thesis using g by auto
qed

end
