(* ===== verification/MgmtFlow.thy ===== *)
theory MgmtFlow
  imports NdpMgmt WorkerLoopInv
begin

text \<open>
  The traffic flows of the management thread, \<^verbatim>\<open>mgmt/mgmt_loop.c\<close>: the table of client flows, starting and stopping them, the tick
  that ends a flow after its time, and the round of the management loop.  What the thread prints is a list of events; the workers' metrics, which
  they change at any time, are a value for each snapshot.  Messages that the workers take while the thread waits are those of \<open>ie_poll\<close>.
\<close>

subsection \<open>State\<close>

record traffic_gen_state =
  tf_active :: bool
  tf_one_shot :: bool
  tf_reuse :: bool
  tf_is_tty :: bool
  tf_start_tsc :: u64
  tf_stop_tsc :: u64
  tf_duration_s :: u32
  tf_n_workers :: u32
  tf_port_id :: u16
  tf_last_progress :: u64
  tf_proto :: string
  tf_streams :: u32
  tf_rate :: u64
  tf_size :: u16
  tf_tls :: bool
  tf_flow_idx :: u32
  tf_dst_ip_str :: string
  tf_dst_port :: u16

text \<open>A result names the flow's start, stop and requested duration, from which the printed time is computed.\<close>

datatype flow_event =
    Flow_progress u32 u64 metrics_snapshot_t
  | Tty_progress u32 u64 u64
  | Flow_result u32 string u64 u64 u32 metrics_snapshot_t
  | Flow_line u32 u64 u64 u32
  | Metrics_cleared u32
  | No_active_flows
  | All_results metrics_snapshot_t

record mgmt_flows =
  mf_flows :: "traffic_gen_state list"
  mf_count :: u32
  mf_ipc :: ipc
  mf_snaps :: nat
  mf_out :: "flow_event list"

record flow_env =
  fe_ipc :: ipc_env
  fe_cores :: core_map
  fe_hz :: u64
  fe_metrics :: "nat \<Rightarrow> worker_metrics list"
  fe_hists :: "nat \<Rightarrow> histogram list"
  fe_msg :: config_update
  fe_output :: bool
  fe_can_print :: bool

definition flow_rdtsc :: "mgmt_flows \<Rightarrow> u64 \<times> mgmt_flows" where
  "flow_rdtsc s = (let (t, i) = ipc_rdtsc (mf_ipc s) in (t, s\<lparr>mf_ipc := i\<rparr>))"

definition upd_flow :: "nat \<Rightarrow> (traffic_gen_state \<Rightarrow> traffic_gen_state) \<Rightarrow> mgmt_flows \<Rightarrow> mgmt_flows" where
  "upd_flow k f s = s\<lparr>mf_flows := (mf_flows s)[k := f (mf_flows s ! k)]\<rparr>"

definition emit_event :: "flow_event \<Rightarrow> mgmt_flows \<Rightarrow> mgmt_flows" where
  "emit_event ev s = s\<lparr>mf_out := mf_out s @ [ev]\<rparr>"

definition flow_snapshot :: "flow_env \<Rightarrow> u32 \<Rightarrow> mgmt_flows \<Rightarrow> metrics_snapshot_t \<times> mgmt_flows" where
  "flow_snapshot e n s = (metrics_snapshot (fe_metrics e (mf_snaps s)) (fe_hists e (mf_snaps s)) (unat n), s\<lparr>mf_snaps := mf_snaps s + 1\<rparr>)"

definition client_any_active :: "mgmt_flows \<Rightarrow> bool" where
  "client_any_active s = list_ex (\<lambda>k. tf_active (mf_flows s ! k)) [0 ..< TGEN_MAX_CLIENT_FLOWS]"

subsection \<open>Waiting and broadcasting\<close>

partial_function (option) delay_until :: "flow_env \<Rightarrow> u64 \<Rightarrow> mgmt_flows \<Rightarrow> mgmt_flows option" where
  "delay_until e stop s =
     (if fst (flow_rdtsc s) < stop
      then delay_until e stop ((snd (flow_rdtsc s))\<lparr>mf_ipc := ipc_poll (fe_ipc e) (mf_ipc (snd (flow_rdtsc s)))\<rparr>)
      else Some (snd (flow_rdtsc s)))"

definition mgmt_delay_ms_flush :: "flow_env \<Rightarrow> u32 \<Rightarrow> mgmt_flows \<Rightarrow> mgmt_flows option" where
  "mgmt_delay_ms_flush e ms s = (let (t, s) = flow_rdtsc s in delay_until e (t + ucast ms * fe_hz e div 1000) s)"

definition flow_broadcast :: "flow_env \<Rightarrow> config_update \<Rightarrow> mgmt_flows \<Rightarrow> mgmt_flows option" where
  "flow_broadcast e m s = do { (n, i) \<leftarrow> tgen_ipc_broadcast (fe_ipc e) (fe_cores e) m (mf_ipc s); Some (s\<lparr>mf_ipc := i\<rparr>) }"

text \<open>The messages; the readings of the payload other than the index are those of \<open>fe_msg\<close>.\<close>

definition stop_flow_msg :: "flow_env \<Rightarrow> u32 \<Rightarrow> config_update" where
  "stop_flow_msg e si = (fe_msg e)\<lparr>cu_cmd := CFG_CMD_STOP_FLOW, cu_seq := 0, cu_index := si\<rparr>"

definition reset_msg :: "flow_env \<Rightarrow> config_update" where
  "reset_msg e = (fe_msg e)\<lparr>cu_cmd := CFG_CMD_RESET, cu_seq := 99\<rparr>"

subsection \<open>Flows\<close>

definition mgmt_traffic_start :: "traffic_gen_state \<Rightarrow> mgmt_flows \<Rightarrow> mgmt_flows" where
  "mgmt_traffic_start st s =
     (let si = tf_flow_idx st
      in if unat si \<ge> TGEN_MAX_CLIENT_FLOWS then s
         else
           let (t, s) = flow_rdtsc s; (t', s) = flow_rdtsc s;
               s = upd_flow (unat si) (\<lambda>_. st\<lparr>tf_active := True, tf_start_tsc := t, tf_last_progress := t'\<rparr>) s
           in if si \<ge> mf_count s then s\<lparr>mf_count := si + 1\<rparr> else s)"

definition mgmt_traffic_stop_flow :: "flow_env \<Rightarrow> u32 \<Rightarrow> mgmt_flows \<Rightarrow> mgmt_flows option" where
  "mgmt_traffic_stop_flow e flow_idx s =
     (let k = unat flow_idx
      in if k \<ge> TGEN_MAX_CLIENT_FLOWS then Some s
         else if \<not> tf_active (mf_flows s ! k) then Some s
         else
           let (t, s) = flow_rdtsc s; s = upd_flow k (\<lambda>f. f\<lparr>tf_active := False, tf_stop_tsc := t\<rparr>) s; ts = mf_flows s ! k
           in do { s \<leftarrow> flow_broadcast e (stop_flow_msg e flow_idx) s;
                   s \<leftarrow> mgmt_delay_ms_flush e (if tf_reuse ts then 1000 else 100) s;
                   let (snap, s) = flow_snapshot e (tf_n_workers ts) s;
                       s = emit_event (Flow_result flow_idx (tf_proto ts) (tf_start_tsc ts) (tf_stop_tsc ts) (tf_duration_s ts) snap) s
                   in if tf_one_shot ts \<and> \<not> client_any_active s
                      then do { s \<leftarrow> flow_broadcast e (reset_msg e) s; s \<leftarrow> mgmt_delay_ms_flush e 100 s;
                                Some (emit_event (Metrics_cleared (tf_n_workers ts)) s) }
                      else Some s })"

definition one_shot_done :: "string \<Rightarrow> worker_metrics \<Rightarrow> bool" where
  "one_shot_done proto tot =
     (if proto = ''icmp'' \<or> proto = ''udp'' then m_tx_pkts tot \<ge> 1
      else if proto = ''http'' \<or> proto = ''https''
      then m_http_rsp_rx tot \<ge> 1 \<and> m_tcp_conn_close tot \<ge> 1 \<or> m_tcp_reset_sent tot \<ge> 1 \<or> m_tcp_reset_rx tot \<ge> 1
      else m_tcp_conn_close tot \<ge> 1 \<or> m_tcp_reset_sent tot \<ge> 1 \<or> m_tcp_reset_rx tot \<ge> 1)"

definition report_progress :: "flow_env \<Rightarrow> nat \<Rightarrow> u64 \<Rightarrow> u64 \<Rightarrow> mgmt_flows \<Rightarrow> mgmt_flows" where
  "report_progress e k now elapsed_s s =
     (let ts = mf_flows s ! k
      in if (now - tf_last_progress ts) div fe_hz e \<ge> 1
         then
           let s = (if fe_output e then let (snap, s) = flow_snapshot e (tf_n_workers ts) s in emit_event (Flow_progress (tf_flow_idx ts) (elapsed_s + 1) snap) s else s);
               s = (if tf_is_tty ts \<and> \<not> tf_reuse ts \<and> \<not> tf_one_shot ts \<and> fe_can_print e
                    then let (snap, s) = flow_snapshot e (tf_n_workers ts) s in emit_event (Tty_progress (tf_flow_idx ts) (elapsed_s + 1) (m_tx_pkts (snap_total snap))) s
                    else s)
           in upd_flow k (\<lambda>f. f\<lparr>tf_last_progress := now\<rparr>) s
         else s)"

definition traffic_gen_tick_flow :: "flow_env \<Rightarrow> nat \<Rightarrow> mgmt_flows \<Rightarrow> mgmt_flows option" where
  "traffic_gen_tick_flow e k s =
     (let ts = mf_flows s ! k
      in if \<not> tf_active ts then Some s
         else if fe_hz e = 0 then None
         else
           let (now, s) = flow_rdtsc s; elapsed_s = (now - tf_start_tsc ts) div fe_hz e;
               (finished, s) = (if tf_one_shot ts then let (ms, s) = flow_snapshot e (tf_n_workers ts) s in (one_shot_done (tf_proto ts) (snap_total ms), s) else (False, s))
           in if finished then mgmt_traffic_stop_flow e (tf_flow_idx ts) s
              else if elapsed_s \<ge> ucast (tf_duration_s ts) then mgmt_traffic_stop_flow e (tf_flow_idx ts) s
              else Some (report_progress e k now elapsed_s s))"

fun tick_flows :: "flow_env \<Rightarrow> nat list \<Rightarrow> mgmt_flows \<Rightarrow> mgmt_flows option" where
  "tick_flows e [] s = Some s"
| "tick_flows e (k # ks) s = do { s \<leftarrow> traffic_gen_tick_flow e k s; tick_flows e ks s }"

definition traffic_gen_tick :: "flow_env \<Rightarrow> mgmt_flows \<Rightarrow> mgmt_flows option" where
  "traffic_gen_tick e s = tick_flows e [0 ..< TGEN_MAX_CLIENT_FLOWS] s"

fun stop_listed :: "u64 \<Rightarrow> nat list \<Rightarrow> u32 \<Rightarrow> mgmt_flows \<Rightarrow> bool \<times> u32 \<times> mgmt_flows" where
  "stop_listed t [] n s = (False, n, s)"
| "stop_listed t (k # ks) n s =
     (let ts = mf_flows s ! k
      in if \<not> tf_active ts then stop_listed t ks n s
         else
           let (b, n', s) = stop_listed t ks (tf_n_workers ts)
                 (emit_event (Flow_line (word_of_nat k) (tf_start_tsc ts) t (tf_duration_s ts)) (upd_flow k (\<lambda>f. f\<lparr>tf_active := False, tf_stop_tsc := t\<rparr>) s))
           in (True, n', s))"

definition mgmt_traffic_stop_all :: "flow_env \<Rightarrow> mgmt_flows \<Rightarrow> mgmt_flows option" where
  "mgmt_traffic_stop_all e s =
     do { s \<leftarrow> flow_broadcast e (stop_flow_msg e (-1)) s;
          let (t, s) = flow_rdtsc s; (any, n, s) = stop_listed t [0 ..< TGEN_MAX_CLIENT_FLOWS] (word_of_nat (num_workers (fe_cores e))) s
          in if \<not> any then Some (emit_event No_active_flows s)
             else do { s \<leftarrow> mgmt_delay_ms_flush e 100 s; let (snap, s) = flow_snapshot e n s in Some (emit_event (All_results snap) s) } }"

definition ipc_ack_drain :: "core_map \<Rightarrow> ipc \<Rightarrow> ipc" where
  "ipc_ack_drain cm s = foldl (\<lambda>s w. drain_acks w s) s [0 ..< num_workers cm]"

subsection \<open>The loop\<close>

record mgmt_cpu_stats =
  mc_cycles_cli :: u64
  mc_cycles_proto :: u64
  mc_cycles_bg :: u64
  mc_cycles_idle :: u64
  mc_cycles_total :: u64
  mc_loop_count :: u64

record mgmt_state =
  mg_net :: net_mgmt
  mg_flows :: mgmt_flows
  mg_cpu :: mgmt_cpu_stats

definition mgmt_rd :: "mgmt_state \<Rightarrow> u64 \<times> mgmt_state" where
  "mgmt_rd s = (let (t, f) = flow_rdtsc (mg_flows s) in (t, s\<lparr>mg_flows := f\<rparr>))"

text \<open>One round; \<open>user\<close> is the input of the user and of attached clients with the commands it runs, \<open>tracing\<close> whether a packet trace is active.\<close>

definition mgmt_round :: "mgmt_env \<Rightarrow> flow_env \<Rightarrow> (mgmt_state \<Rightarrow> mgmt_state option) \<Rightarrow> bool \<Rightarrow> mgmt_state \<Rightarrow> mgmt_state option" where
  "mgmt_round e fe user tracing s =
     (let (t0, s) = mgmt_rd s
      in do { s \<leftarrow> user s;
              let (t1, s) = mgmt_rd s
              in do { n \<leftarrow> mgmt_protocols e (mg_net s);
                      let s = s\<lparr>mg_net := n, mg_flows := (mg_flows s)\<lparr>mf_ipc := ipc_ack_drain (fe_cores fe) (mf_ipc (mg_flows s))\<rparr>\<rparr>; (t2, s) = mgmt_rd s
                      in do { f \<leftarrow> traffic_gen_tick fe (mg_flows s);
                              let (t3, s) = mgmt_rd (s\<lparr>mg_flows := f\<rparr>); c = mg_cpu s;
                                  s = s\<lparr>mg_cpu := c\<lparr>mc_cycles_cli := mc_cycles_cli c + (t1 - t0), mc_cycles_proto := mc_cycles_proto c + (t2 - t1),
                                         mc_cycles_bg := mc_cycles_bg c + (t3 - t2), mc_cycles_total := mc_cycles_total c + (t3 - t0), mc_loop_count := mc_loop_count c + 1\<rparr>\<rparr>
                              in if tracing \<or> client_any_active (mg_flows s) then Some s
                                 else
                                   let (idle_start, s) = mgmt_rd s; (idle_end, s) = mgmt_rd s
                                   in Some (s\<lparr>mg_cpu := (mg_cpu s)\<lparr>mc_cycles_idle := mc_cycles_idle (mg_cpu s) + (idle_end - idle_start)\<rparr>\<rparr>) } } })"

end
