(* ===== verification/MgmtFlowInv.thy ===== *)
theory MgmtFlowInv
  imports MgmtFlow
begin

text \<open>
  Correctness of the management thread's flows: waits and broadcasts end, a stop is queued to the workers and reported once, and the worker that serves
  the queued stop has the flow inactive.
\<close>

subsection \<open>Waiting and broadcasting end\<close>

text \<open>The worker numbers are within the rings, and the clock passes every deadline again and again (it wraps around).\<close>

definition fenv_ok :: "flow_env \<Rightarrow> bool" where
  "fenv_ok e \<longleftrightarrow> num_workers (fe_cores e) \<le> TGEN_MAX_WORKERS \<and> (\<forall>k. list_all (\<lambda>w. w < TGEN_MAX_WORKERS) (ie_poll (fe_ipc e) k)) \<and> fe_hz e \<noteq> 0"

definition flow_clock :: "flow_env \<Rightarrow> ipc \<Rightarrow> bool" where
  "flow_clock e i \<longleftrightarrow> ipc_clock (fe_ipc e) i \<and> (\<forall>n d. \<exists>m\<ge>n. d \<le> ipc_tsc_reads i m)"

lemma flow_clock_step: "ipc_step i i' g \<Longrightarrow> flow_clock e i \<Longrightarrow> flow_clock e i'"
  by (simp add: flow_clock_def ipc_step_def ipc_clock_def)

lemma flow_rdtsc_eq: "flow_rdtsc s = (ipc_tsc_reads (mf_ipc s) (ipc_tsc_pos (mf_ipc s)), s\<lparr>mf_ipc := snd (ipc_rdtsc (mf_ipc s))\<rparr>)"
  by (simp add: flow_rdtsc_def ipc_rdtsc_def)

definition sent :: "(nat \<Rightarrow> config_update list) \<Rightarrow> mgmt_flows \<Rightarrow> mgmt_flows \<Rightarrow> bool" where
  "sent g s s' \<longleftrightarrow> mf_flows s' = mf_flows s \<and> mf_out s' = mf_out s \<and> mf_snaps s' = mf_snaps s \<and> mf_count s' = mf_count s \<and> ipc_step (mf_ipc s) (mf_ipc s') g"

lemma sentD:
  assumes "sent g s s'"
  shows "mf_flows s' = mf_flows s" "mf_out s' = mf_out s" "mf_snaps s' = mf_snaps s" "mf_count s' = mf_count s" "ipc_step (mf_ipc s) (mf_ipc s') g"
  using assms by (simp_all add: sent_def)

lemma sent_trans: "sent f a b \<Longrightarrow> sent g b c \<Longrightarrow> sent (\<lambda>w. f w @ g w) a c"
  by (simp add: sent_def) (blast intro: ipc_step_trans)

lemma sent_rdtsc: "ipc_ok (mf_ipc s) \<Longrightarrow> sent (\<lambda>_. []) s (snd (flow_rdtsc s))"
  by (auto simp: sent_def flow_rdtsc_eq ipc_step_clock)

lemma delay_until_ok:
  assumes "fenv_ok e" "ipc_ok (mf_ipc s)" "ipc_tsc_pos (mf_ipc s) \<le> N" "stop \<le> ipc_tsc_reads (mf_ipc s) N"
  shows "yields (delay_until e stop s) (sent (\<lambda>_. []) s)"
  using assms(2-)
proof (induction "N - ipc_tsc_pos (mf_ipc s)" arbitrary: s rule: less_induct)
  case less
  let ?s = "snd (flow_rdtsc s)" let ?v = "?s\<lparr>mf_ipc := ipc_poll (fe_ipc e) (mf_ipc ?s)\<rparr>"
  note r = sent_rdtsc [OF less.prems(1)]
  show ?case
  proof (cases "fst (flow_rdtsc s) < stop")
    case False
    then show ?thesis using r by (simp add: delay_until.simps)
  next
    case True
    then have "ipc_tsc_pos (mf_ipc s) \<noteq> N" using less.prems(3) by (auto simp: flow_rdtsc_eq)
    then have n: "ipc_tsc_pos (mf_ipc s) < N" using less.prems(2) by simp
    have ok: "ipc_ok (mf_ipc ?s)" using ipc_step_ok [OF sentD(5) [OF r]] .
    have v: "sent (\<lambda>_. []) ?s ?v" using poll_step [OF ok] assms(1) by (auto simp: sent_def fenv_ok_def)
    have p: "ipc_tsc_pos (mf_ipc ?v) = Suc (ipc_tsc_pos (mf_ipc s))" "ipc_tsc_reads (mf_ipc ?v) = ipc_tsc_reads (mf_ipc s)"
      using poll_frame [of "fe_ipc e" "mf_ipc ?s"] by (simp_all add: flow_rdtsc_eq ipc_rdtsc_def)
    have "yields (delay_until e stop ?v) (sent (\<lambda>_. []) ?v)"
      by (rule less.hyps) (use n p less.prems(3) ipc_step_ok [OF sentD(5) [OF v]] in simp_all)
    moreover have "delay_until e stop s = delay_until e stop ?v" using True by (subst delay_until.simps) simp
    ultimately show ?thesis using sent_trans [OF sent_trans [OF r v]] by (auto elim!: yields_mono)
  qed
qed

lemma delay_ok:
  assumes "fenv_ok e" "ipc_ok (mf_ipc s)" "flow_clock e (mf_ipc s)"
  shows "yields (mgmt_delay_ms_flush e ms s) (sent (\<lambda>_. []) s)"
proof -
  let ?s = "snd (flow_rdtsc s)" let ?d = "fst (flow_rdtsc s) + ucast ms * fe_hz e div 1000"
  note r = sent_rdtsc [OF assms(2)]
  from assms(3) obtain N where N: "ipc_tsc_pos (mf_ipc ?s) \<le> N" "?d \<le> ipc_tsc_reads (mf_ipc s) N" unfolding flow_clock_def by blast
  have "ipc_tsc_reads (mf_ipc ?s) = ipc_tsc_reads (mf_ipc s)" by (simp add: flow_rdtsc_eq ipc_rdtsc_def)
  then have "yields (delay_until e ?d ?s) (sent (\<lambda>_. []) ?s)" using N ipc_step_ok [OF sentD(5) [OF r]] by (intro delay_until_ok [OF assms(1)]) simp_all
  then show ?thesis unfolding mgmt_delay_ms_flush_def case_prod_beta Let_def using sent_trans [OF r] by (auto elim!: yields_mono)
qed

text \<open>A message sent to the workers \<open>T\<close> reaches those of them that are sure to accept it (when \<open>k\<close> messages fit, the \<open>k\<close>th of a series), and nobody else than \<open>T\<close>.\<close>

definition reaches :: "ipc_env \<Rightarrow> nat \<Rightarrow> ipc \<Rightarrow> nat set \<Rightarrow> nat set \<Rightarrow> bool" where
  "reaches e k s T A \<longleftrightarrow> A \<subseteq> T \<and> (\<forall>w\<in>T. accepts e k s w \<longrightarrow> w \<in> A)"

lemma reachesD: "reaches e k s T A \<Longrightarrow> A \<subseteq> T" "reaches e k s T A \<Longrightarrow> w \<in> T \<Longrightarrow> accepts e k s w \<Longrightarrow> w \<in> A"
  by (simp_all add: reaches_def)

lemma reaches_all: "reaches e k s T T"
  by (simp add: reaches_def)

text \<open>Messages sent before take their room.\<close>

lemma reaches_step:
  assumes "reaches e k s' T A" "ipc_step s s' g" "T \<subseteq> {..<TGEN_MAX_WORKERS}" "\<And>w. length (g w) \<le> n"
  shows "reaches e (n + k) s T A"
proof -
  have "accepts e k s' w" if "w \<in> T" "accepts e (n + k) s w" for w
    using that assms(3,4) by (intro accepts_step [OF assms(2)]) (auto intro: accepts_mono)
  then show ?thesis using assms(1) by (simp add: reaches_def)
qed

lemma broadcast_to_ok:
  assumes "ipc_ok s" "list_all (\<lambda>w. w < TGEN_MAX_WORKERS) ws" "distinct ws" "\<forall>k. list_all (\<lambda>w. w < TGEN_MAX_WORKERS) (ie_poll e k)" "ipc_clock e s"
  shows "yields (broadcast_to e m ws n s) (\<lambda>(n', s'). \<exists>A. reaches e 1 s (set ws) A \<and> n' = n + card A \<and> ipc_step s s' (\<lambda>w. if w \<in> A then [m] else []))"
  using assms(1-3,5)
proof (induction ws arbitrary: n s)
  case Nil
  then show ?case using ipc_step_refl by (simp add: reaches_def)
next
  case (Cons w ws)
  from send_ok [OF Cons.prems(1) _ assms(4) Cons.prems(4), of w m] Cons.prems(2) obtain rc s1
    where s1: "tgen_ipc_send e w m s = Some (rc, s1)" "ipc_step s s1 (\<lambda>v. if rc = 0 \<and> v = w then [m] else [])"
      "accepts e 1 s w \<longrightarrow> rc = 0" by (auto simp: yields_def)
  from Cons.IH [OF ipc_step_ok [OF s1(2)] _ _ ipc_clock_step [OF s1(2) Cons.prems(4)], of "if rc = 0 then n + 1 else n"] Cons.prems(2,3)
  obtain n2 s2 A where s2: "broadcast_to e m ws (if rc = 0 then n + 1 else n) s1 = Some (n2, s2)" "reaches e 1 s1 (set ws) A" "n2 = (if rc = 0 then n + 1 else n) + card A"
    "ipc_step s1 s2 (\<lambda>w. if w \<in> A then [m] else [])" by (auto simp: yields_def)
  let ?B = "if rc = 0 then insert w A else A"
  note sub = reachesD(1) [OF s2(2)]
  have w: "w \<notin> A" "finite A" using Cons.prems(3) sub finite_subset by auto
  have "(\<lambda>v. (if rc = 0 \<and> v = w then [m] else []) @ (if v \<in> A then [m] else [])) = (\<lambda>v. if v \<in> ?B then [m] else [])" using w by (auto simp: fun_eq_iff)
  with ipc_step_trans [OF s1(2) s2(4)] have "ipc_step s s2 (\<lambda>v. if v \<in> ?B then [m] else [])" by simp
  moreover have "v \<in> ?B" if "v \<in> set (w # ws)" "accepts e 1 s v" for v
  proof (cases "v = w")
    case False
    then have "v \<in> set ws" using that(1) by simp
    moreover have "accepts e 1 s1 v" using that False Cons.prems(2) by (intro accepts_step [OF s1(2)]) (auto simp: list_all_iff)
    ultimately show ?thesis using reachesD(2) [OF s2(2)] by simp
  qed (use that s1(3) in simp)
  then have "reaches e 1 s (set (w # ws)) ?B" using sub by (auto simp: reaches_def)
  moreover have "n2 = n + card ?B" using s2(3) w by simp
  ultimately show ?case using s1(1) s2(1) by (auto simp del: list.set)
qed

definition to_workers :: "nat set \<Rightarrow> config_update \<Rightarrow> nat \<Rightarrow> config_update list" where
  "to_workers A m w = (if w \<in> A then [m] else [])"

lemma flow_broadcast_ok:
  assumes "fenv_ok e" "ipc_ok (mf_ipc s)" "flow_clock e (mf_ipc s)"
  shows "yields (flow_broadcast e m s) (\<lambda>s'. \<exists>A. reaches (fe_ipc e) 1 (mf_ipc s) {..<num_workers (fe_cores e)} A \<and> sent (to_workers A m) s s')"
proof -
  have "yields (broadcast_to (fe_ipc e) m [0 ..< num_workers (fe_cores e)] 0 (mf_ipc s))
      (\<lambda>(n', s'). \<exists>A. reaches (fe_ipc e) 1 (mf_ipc s) (set [0 ..< num_workers (fe_cores e)]) A \<and> n' = 0 + card A \<and> ipc_step (mf_ipc s) s' (\<lambda>w. if w \<in> A then [m] else []))"
    using assms by (intro broadcast_to_ok) (auto simp: fenv_ok_def flow_clock_def list_all_iff)
  then show ?thesis unfolding flow_broadcast_def tgen_ipc_broadcast_def
  proof (rule yields_bindI)
    fix x assume "case x of (n', s') \<Rightarrow> \<exists>A. reaches (fe_ipc e) 1 (mf_ipc s) (set [0 ..< num_workers (fe_cores e)]) A \<and> n' = 0 + card A \<and> ipc_step (mf_ipc s) s' (\<lambda>w. if w \<in> A then [m] else [])"
    then obtain n i A where x: "x = (n, i)" "reaches (fe_ipc e) 1 (mf_ipc s) {..<num_workers (fe_cores e)} A" "ipc_step (mf_ipc s) i (\<lambda>w. if w \<in> A then [m] else [])"
      by (cases x) (auto simp: atLeast0LessThan)
    have "(\<lambda>w. if w \<in> A then [m] else []) = to_workers A m" by (simp add: fun_eq_iff to_workers_def)
    with x have "sent (to_workers A m) s (s\<lparr>mf_ipc := i\<rparr>)" by (simp add: sent_def)
    with x show "yields (case x of (n, i) \<Rightarrow> Some (s\<lparr>mf_ipc := i\<rparr>)) (\<lambda>s'. \<exists>A. reaches (fe_ipc e) 1 (mf_ipc s) {..<num_workers (fe_cores e)} A \<and> sent (to_workers A m) s s')" by auto
  qed
qed

subsection \<open>Stopping a flow\<close>

definition flows_ok :: "mgmt_flows \<Rightarrow> bool" where
  "flows_ok s \<longleftrightarrow> length (mf_flows s) = TGEN_MAX_CLIENT_FLOWS \<and> ipc_ok (mf_ipc s) \<and>
     (\<forall>k<TGEN_MAX_CLIENT_FLOWS. tf_active (mf_flows s ! k) \<longrightarrow> unat (tf_flow_idx (mf_flows s ! k)) = k)"

text \<open>No other flow is active.\<close>

definition last_flow :: "nat \<Rightarrow> mgmt_flows \<Rightarrow> bool" where
  "last_flow k s \<longleftrightarrow> \<not> list_ex (\<lambda>j. j \<noteq> k \<and> tf_active (mf_flows s ! j)) [0 ..< TGEN_MAX_CLIENT_FLOWS]"

definition stopped :: "u64 \<Rightarrow> traffic_gen_state \<Rightarrow> traffic_gen_state" where
  "stopped t f = f\<lparr>tf_active := False, tf_stop_tsc := t\<rparr>"

lemma stopped_simps [simp]: "\<not> tf_active (stopped t f)" "tf_stop_tsc (stopped t f) = t" "tf_proto (stopped t f) = tf_proto f" "tf_start_tsc (stopped t f) = tf_start_tsc f"
  "tf_duration_s (stopped t f) = tf_duration_s f" "tf_n_workers (stopped t f) = tf_n_workers f" "tf_one_shot (stopped t f) = tf_one_shot f" "tf_reuse (stopped t f) = tf_reuse f"
  by (simp_all add: stopped_def)

lemma any_active_stopped:
  assumes "length (mf_flows s) = TGEN_MAX_CLIENT_FLOWS" "mf_flows s' = (mf_flows s)[k := stopped t (mf_flows s ! k)]"
  shows "client_any_active s' \<longleftrightarrow> \<not> last_flow k s"
proof -
  have "mf_flows s' ! j = (if j = k then stopped t (mf_flows s ! k) else mf_flows s ! j)" if "j < TGEN_MAX_CLIENT_FLOWS" for j
    using that assms by (simp add: nth_list_update)
  then show ?thesis by (auto simp: client_any_active_def last_flow_def list_ex_iff)
qed

lemma stop_flow_ok:
  assumes "flows_ok s" "fenv_ok e" "flow_clock e (mf_ipc s)" "unat k < TGEN_MAX_CLIENT_FLOWS" "tf_active (mf_flows s ! unat k)"
  shows "\<exists>s' A B snap. mgmt_traffic_stop_flow e k s = Some s' \<and> reaches (fe_ipc e) 1 (mf_ipc s) {..<num_workers (fe_cores e)} A \<and>
    reaches (fe_ipc e) 2 (mf_ipc s) {..<num_workers (fe_cores e)} B \<and>
    mf_flows s' = (mf_flows s)[unat k := stopped (fst (flow_rdtsc s)) (mf_flows s ! unat k)] \<and>
    mf_out s' = mf_out s @ [Flow_result k (tf_proto (mf_flows s ! unat k)) (tf_start_tsc (mf_flows s ! unat k)) (fst (flow_rdtsc s)) (tf_duration_s (mf_flows s ! unat k)) snap] @
      (if tf_one_shot (mf_flows s ! unat k) \<and> last_flow (unat k) s then [Metrics_cleared (tf_n_workers (mf_flows s ! unat k))] else []) \<and>
    ipc_step (mf_ipc s) (mf_ipc s') (\<lambda>w. to_workers A (stop_flow_msg e k) w @
      (if tf_one_shot (mf_flows s ! unat k) \<and> last_flow (unat k) s then to_workers B (reset_msg e) w else []))"
proof -
  let ?f = "mf_flows s ! unat k" and ?t = "fst (flow_rdtsc s)"
  define c where "c = (tf_one_shot ?f \<and> last_flow (unat k) s)"
  define s1 where "s1 = upd_flow (unat k) (\<lambda>f. f\<lparr>tf_active := False, tf_stop_tsc := ?t\<rparr>) (snd (flow_rdtsc s))"
  have len: "length (mf_flows s) = TGEN_MAX_CLIENT_FLOWS" "ipc_ok (mf_ipc s)" using assms(1) by (simp_all add: flows_ok_def)
  have fl1: "mf_flows s1 = (mf_flows s)[unat k := stopped ?t ?f]" "mf_out s1 = mf_out s" "mf_ipc s1 = snd (ipc_rdtsc (mf_ipc s))"
    by (simp_all add: s1_def upd_flow_def flow_rdtsc_eq stopped_def)
  have at: "mf_flows s1 ! unat k = stopped ?t ?f" using fl1(1) len(1) assms(4) by simp
  have i1: "ipc_step (mf_ipc s) (mf_ipc s1) (\<lambda>_. [])" unfolding fl1(3) by (rule ipc_step_clock [OF len(2)])
  from flow_broadcast_ok [OF assms(2) ipc_step_ok [OF i1] flow_clock_step [OF i1 assms(3)], of "stop_flow_msg e k"]
  obtain s2 A where s2: "flow_broadcast e (stop_flow_msg e k) s1 = Some s2" "reaches (fe_ipc e) 1 (mf_ipc s1) {..<num_workers (fe_cores e)} A" "sent (to_workers A (stop_flow_msg e k)) s1 s2"
    by (auto simp: yields_def)
  have T: "{..<num_workers (fe_cores e)} \<subseteq> {..<TGEN_MAX_WORKERS}" using assms(2) by (auto simp: fenv_ok_def)
  have A: "reaches (fe_ipc e) 1 (mf_ipc s) {..<num_workers (fe_cores e)} A" using reaches_step [OF s2(2) i1 T, of 0] by simp
  have i2: "ipc_step (mf_ipc s) (mf_ipc s2) (to_workers A (stop_flow_msg e k))" using ipc_step_trans [OF i1 sentD(5) [OF s2(3)]] by simp
  from delay_ok [OF assms(2) ipc_step_ok [OF i2] flow_clock_step [OF i2 assms(3)], of "if tf_reuse ?f then 1000 else 100"]
  obtain s3 where s3: "mgmt_delay_ms_flush e (if tf_reuse ?f then 1000 else 100) s2 = Some s3" "sent (\<lambda>_. []) s2 s3" by (auto simp: yields_def)
  have i3: "ipc_step (mf_ipc s) (mf_ipc s3) (to_workers A (stop_flow_msg e k))" using ipc_step_trans [OF i2 sentD(5) [OF s3(2)]] by simp
  define snap where "snap = fst (flow_snapshot e (tf_n_workers ?f) s3)"
  define s4 where "s4 = emit_event (Flow_result k (tf_proto ?f) (tf_start_tsc ?f) ?t (tf_duration_s ?f) snap) (snd (flow_snapshot e (tf_n_workers ?f) s3))"
  have s4: "mf_flows s4 = (mf_flows s)[unat k := stopped ?t ?f]" "mf_out s4 = mf_out s @ [Flow_result k (tf_proto ?f) (tf_start_tsc ?f) ?t (tf_duration_s ?f) snap]" "mf_ipc s4 = mf_ipc s3"
    using sentD(1,2) [OF s2(3)] sentD(1,2) [OF s3(2)] fl1(1,2) by (simp_all add: s4_def emit_event_def flow_snapshot_def)
  have any: "client_any_active s4 \<longleftrightarrow> \<not> last_flow (unat k) s" by (rule any_active_stopped [OF len(1) s4(1)])
  have e: "mgmt_traffic_stop_flow e k s = (if c then do { s \<leftarrow> flow_broadcast e (reset_msg e) s4; s \<leftarrow> mgmt_delay_ms_flush e 100 s; Some (emit_event (Metrics_cleared (tf_n_workers ?f)) s) } else Some s4)"
    using assms(4,5) s2(1) s3(1) any unfolding mgmt_traffic_stop_flow_def c_def s4_def snap_def by (simp add: Let_def case_prod_beta s1_def [symmetric] at)
  show ?thesis
  proof (cases c)
    case False
    then show ?thesis unfolding e c_def [symmetric] using s4 i3 A reaches_all [of "fe_ipc e" 2 "mf_ipc s" "{..<num_workers (fe_cores e)}"]
      by (intro exI [of _ s4] exI [of _ A] exI [of _ "{..<num_workers (fe_cores e)}"] exI [of _ snap]) simp
  next
    case True
    from flow_broadcast_ok [OF assms(2), of s4 "reset_msg e"] ipc_step_ok [OF i3] flow_clock_step [OF i3 assms(3)]
    obtain s5 B where s5: "flow_broadcast e (reset_msg e) s4 = Some s5" "reaches (fe_ipc e) 1 (mf_ipc s3) {..<num_workers (fe_cores e)} B" "sent (to_workers B (reset_msg e)) s4 s5"
      by (auto simp: yields_def s4(3))
    have B: "reaches (fe_ipc e) 2 (mf_ipc s) {..<num_workers (fe_cores e)} B" using reaches_step [OF s5(2) i3 T, of 1] by (simp add: to_workers_def numeral_2_eq_2)
    have i5: "ipc_step (mf_ipc s) (mf_ipc s5) (\<lambda>w. to_workers A (stop_flow_msg e k) w @ to_workers B (reset_msg e) w)"
      using ipc_step_trans [OF i3 sentD(5) [OF s5(3), unfolded s4(3)]] .
    from delay_ok [OF assms(2) ipc_step_ok [OF i5] flow_clock_step [OF i5 assms(3)], of 100]
    obtain s6 where s6: "mgmt_delay_ms_flush e 100 s5 = Some s6" "sent (\<lambda>_. []) s5 s6" by (auto simp: yields_def)
    let ?s = "emit_event (Metrics_cleared (tf_n_workers ?f)) s6"
    have "ipc_step (mf_ipc s) (mf_ipc ?s) (\<lambda>w. to_workers A (stop_flow_msg e k) w @ to_workers B (reset_msg e) w)"
      using ipc_step_trans [OF i5 sentD(5) [OF s6(2)]] by (simp add: emit_event_def)
    moreover have "mf_flows ?s = mf_flows s4" "mf_out ?s = mf_out s4 @ [Metrics_cleared (tf_n_workers ?f)]"
      using sentD(1,2) [OF s5(3)] sentD(1,2) [OF s6(2)] by (simp_all add: emit_event_def)
    ultimately show ?thesis unfolding e c_def [symmetric] using True s4 s5(1) s6(1) A B
      by (intro exI [of _ ?s] exI [of _ A] exI [of _ B] exI [of _ snap]) simp
  qed
qed

text \<open>
  C21. Stopping an active flow returns, with the flow inactive and every other flow as it was.  The stop is queued, behind everything queued before,
  to workers only, and to every worker whose ring has room for it (if message boxes can be allocated; a worker with a full ring may miss it, and nobody is told), and one result is printed that names the flow's own times.  If the flow was a one-shot and no other is active, a reset
  is queued behind the stop, to every worker whose ring had room for both, and the metrics are cleared after the result.
\<close>

theorem flow_stopped:
  assumes "flows_ok s" "fenv_ok e" "flow_clock e (mf_ipc s)" "unat k < TGEN_MAX_CLIENT_FLOWS" "tf_active (mf_flows s ! unat k)"
  shows "\<exists>s' A B snap. mgmt_traffic_stop_flow e k s = Some s' \<and> A \<subseteq> {..<num_workers (fe_cores e)} \<and> B \<subseteq> {..<num_workers (fe_cores e)} \<and>
    (\<forall>w<num_workers (fe_cores e). (accepts (fe_ipc e) 1 (mf_ipc s) w \<longrightarrow> w \<in> A) \<and> (accepts (fe_ipc e) 2 (mf_ipc s) w \<longrightarrow> w \<in> B)) \<and>
    mf_flows s' = (mf_flows s)[unat k := (mf_flows s ! unat k)\<lparr>tf_active := False, tf_stop_tsc := fst (flow_rdtsc s)\<rparr>] \<and>
    mf_out s' = mf_out s @ [Flow_result k (tf_proto (mf_flows s ! unat k)) (tf_start_tsc (mf_flows s ! unat k)) (fst (flow_rdtsc s)) (tf_duration_s (mf_flows s ! unat k)) snap] @
      (if tf_one_shot (mf_flows s ! unat k) \<and> last_flow (unat k) s then [Metrics_cleared (tf_n_workers (mf_flows s ! unat k))] else []) \<and>
    (\<forall>w. TGEN_MAX_WORKERS \<le> w \<or> stream w (mf_ipc s') = stream w (mf_ipc s) @ (if w \<in> A then [stop_flow_msg e k] else []) @
      (if tf_one_shot (mf_flows s ! unat k) \<and> last_flow (unat k) s \<and> w \<in> B then [reset_msg e] else []))"
proof -
  from stop_flow_ok [OF assms] obtain s' A B snap where
    *: "mgmt_traffic_stop_flow e k s = Some s'" "reaches (fe_ipc e) 1 (mf_ipc s) {..<num_workers (fe_cores e)} A" "reaches (fe_ipc e) 2 (mf_ipc s) {..<num_workers (fe_cores e)} B"
      "mf_flows s' = (mf_flows s)[unat k := stopped (fst (flow_rdtsc s)) (mf_flows s ! unat k)]"
      "mf_out s' = mf_out s @ [Flow_result k (tf_proto (mf_flows s ! unat k)) (tf_start_tsc (mf_flows s ! unat k)) (fst (flow_rdtsc s)) (tf_duration_s (mf_flows s ! unat k)) snap] @
        (if tf_one_shot (mf_flows s ! unat k) \<and> last_flow (unat k) s then [Metrics_cleared (tf_n_workers (mf_flows s ! unat k))] else [])"
      "ipc_step (mf_ipc s) (mf_ipc s') (\<lambda>w. to_workers A (stop_flow_msg e k) w @
        (if tf_one_shot (mf_flows s ! unat k) \<and> last_flow (unat k) s then to_workers B (reset_msg e) w else []))" by blast
  have st: "\<forall>w. TGEN_MAX_WORKERS \<le> w \<or> stream w (mf_ipc s') = stream w (mf_ipc s) @ (if w \<in> A then [stop_flow_msg e k] else []) @
      (if tf_one_shot (mf_flows s ! unat k) \<and> last_flow (unat k) s \<and> w \<in> B then [reset_msg e] else [])"
  proof
    fix w
    have "w < TGEN_MAX_WORKERS \<Longrightarrow> stream w (mf_ipc s') = stream w (mf_ipc s) @ to_workers A (stop_flow_msg e k) w @
      (if tf_one_shot (mf_flows s ! unat k) \<and> last_flow (unat k) s then to_workers B (reset_msg e) w else [])" using *(6) unfolding ipc_step_def by blast
    then show "TGEN_MAX_WORKERS \<le> w \<or> stream w (mf_ipc s') = stream w (mf_ipc s) @ (if w \<in> A then [stop_flow_msg e k] else []) @
      (if tf_one_shot (mf_flows s ! unat k) \<and> last_flow (unat k) s \<and> w \<in> B then [reset_msg e] else [])"
      by (cases "w < TGEN_MAX_WORKERS") (simp_all add: to_workers_def)
  qed
  show ?thesis
    by (intro exI [of _ s'] exI [of _ A] exI [of _ B] exI [of _ snap] conjI) (use * st reachesD(1) [OF *(2)] reachesD(1) [OF *(3)] reachesD(2) [OF *(2)] reachesD(2) [OF *(3)] in \<open>simp_all add: stopped_def\<close>)
qed

subsection \<open>Every flow is reported once\<close>

fun reports :: "nat \<Rightarrow> flow_event \<Rightarrow> bool" where
  "reports k (Flow_result j p a b d sn) \<longleftrightarrow> unat j = k"
| "reports k (Flow_line j a b d) \<longleftrightarrow> unat j = k"
| "reports k _ \<longleftrightarrow> False"

text \<open>Reports printed so far, and one more that is due if the flow is active.\<close>

definition owed :: "nat \<Rightarrow> mgmt_flows \<Rightarrow> nat" where
  "owed k s = length (filter (reports k) (mf_out s)) + (if tf_active (mf_flows s ! k) then 1 else 0)"

definition flow_move :: "flow_env \<Rightarrow> mgmt_flows \<Rightarrow> mgmt_flows \<Rightarrow> bool" where
  "flow_move e s s' \<longleftrightarrow> flows_ok s' \<and> ipc_tsc_reads (mf_ipc s') = ipc_tsc_reads (mf_ipc s) \<and> (\<forall>k<TGEN_MAX_CLIENT_FLOWS. owed k s' = owed k s)"

lemma flow_move_refl: "flows_ok s \<Longrightarrow> flow_move e s s"
  by (simp add: flow_move_def)

lemma flow_move_trans: "flow_move e a b \<Longrightarrow> flow_move e b c \<Longrightarrow> flow_move e a c"
  by (simp add: flow_move_def)

lemma flow_move_clock: "flow_move e s s' \<Longrightarrow> flow_clock e (mf_ipc s) \<Longrightarrow> flow_clock e (mf_ipc s')"
  by (simp add: flow_move_def flow_clock_def ipc_clock_def)

lemma flow_move_same:
  assumes "flows_ok s" "mf_flows s' = mf_flows s" "mf_out s' = mf_out s" "ipc_step (mf_ipc s) (mf_ipc s') g"
  shows "flow_move e s s'"
  using assms ipc_step_ok [OF assms(4)] by (simp add: flow_move_def flows_ok_def owed_def) (simp add: ipc_step_def)

lemma flow_move_sent: "flows_ok s \<Longrightarrow> sent g s s' \<Longrightarrow> flow_move e s s'"
  using flow_move_same [of s s' g] by (simp add: sent_def)

lemma flow_move_rdtsc: "flows_ok s \<Longrightarrow> flow_move e s (snd (flow_rdtsc s))"
  by (rule flow_move_sent [OF _ sent_rdtsc]) (simp_all add: flows_ok_def)

lemma flow_move_snapshot: "flows_ok s \<Longrightarrow> flow_move e s (snd (flow_snapshot e n s))"
  by (rule flow_move_same [where g = "\<lambda>_. []"]) (simp_all add: flow_snapshot_def ipc_step_refl flows_ok_def)

lemma flow_move_event: "flows_ok s \<Longrightarrow> \<forall>k. \<not> reports k ev \<Longrightarrow> flow_move e s (emit_event ev s)"
  by (simp add: flow_move_def emit_event_def flows_ok_def owed_def)

lemma flow_move_shown:
  assumes "flows_ok s" "\<forall>k. \<not> reports k ev"
  shows "flow_move e s (emit_event ev (snd (flow_snapshot e n s)))"
  using flow_move_trans [OF flow_move_snapshot flow_move_event] assms flow_move_snapshot [OF assms(1), of e n] by (simp add: flow_move_def)

lemma flow_move_ok: "flow_move e s s' \<Longrightarrow> flows_ok s'"
  by (simp add: flow_move_def)

text \<open>A flow that ends with one report.\<close>

lemma flow_move_stop:
  assumes "flows_ok s" "k < TGEN_MAX_CLIENT_FLOWS" "tf_active (mf_flows s ! k)" "mf_flows s' = (mf_flows s)[k := stopped t (mf_flows s ! k)]"
    "mf_out s' = mf_out s @ ev # evs" "\<And>j. j < TGEN_MAX_CLIENT_FLOWS \<Longrightarrow> reports j ev \<longleftrightarrow> j = k" "\<And>j. filter (reports j) evs = []" "ipc_step (mf_ipc s) (mf_ipc s') g"
  shows "flow_move e s s'"
proof -
  have at: "mf_flows s' ! j = (if j = k then stopped t (mf_flows s ! k) else mf_flows s ! j)" if "j < TGEN_MAX_CLIENT_FLOWS" for j
    using that assms(1,4) by (simp add: nth_list_update flows_ok_def)
  have "owed j s' = owed j s" if "j < TGEN_MAX_CLIENT_FLOWS" for j
    using at [OF that] assms(3,5) assms(6) [OF that] assms(7) [of j] by (cases "j = k") (simp_all add: owed_def)
  moreover have "length (mf_flows s') = TGEN_MAX_CLIENT_FLOWS" using assms(1,4) by (simp add: flows_ok_def)
  then have "flows_ok s'" using assms(1) at ipc_step_ok [OF assms(8)] by (simp add: flows_ok_def)
  ultimately show ?thesis using assms(8) by (simp add: flow_move_def ipc_step_def)
qed

lemma stop_flow_move:
  assumes "flows_ok s" "fenv_ok e" "flow_clock e (mf_ipc s)"
  shows "yields (mgmt_traffic_stop_flow e k s) (\<lambda>s'. flow_move e s s' \<and> (unat k < TGEN_MAX_CLIENT_FLOWS \<longrightarrow> \<not> tf_active (mf_flows s' ! unat k)))"
proof (cases "unat k < TGEN_MAX_CLIENT_FLOWS \<and> tf_active (mf_flows s ! unat k)")
  case False
  then show ?thesis using flow_move_refl [OF assms(1)] by (auto simp: mgmt_traffic_stop_flow_def Let_def)
next
  case True
  from stop_flow_ok [OF assms conjunct1 [OF True] conjunct2 [OF True]] obtain s' A B snap where
    *: "mgmt_traffic_stop_flow e k s = Some s'" "mf_flows s' = (mf_flows s)[unat k := stopped (fst (flow_rdtsc s)) (mf_flows s ! unat k)]"
      "mf_out s' = mf_out s @ [Flow_result k (tf_proto (mf_flows s ! unat k)) (tf_start_tsc (mf_flows s ! unat k)) (fst (flow_rdtsc s)) (tf_duration_s (mf_flows s ! unat k)) snap] @
        (if tf_one_shot (mf_flows s ! unat k) \<and> last_flow (unat k) s then [Metrics_cleared (tf_n_workers (mf_flows s ! unat k))] else [])"
      "ipc_step (mf_ipc s) (mf_ipc s') (\<lambda>w. to_workers A (stop_flow_msg e k) w @
        (if tf_one_shot (mf_flows s ! unat k) \<and> last_flow (unat k) s then to_workers B (reset_msg e) w else []))" by blast
  have "flow_move e s s'" by (rule flow_move_stop [OF assms(1) conjunct1 [OF True] conjunct2 [OF True] *(2) *(3) [simplified append_Cons append_Nil] _ _ *(4)]) auto
  moreover have "\<not> tf_active (mf_flows s' ! unat k)" using *(2) True assms(1) by (simp add: flows_ok_def)
  ultimately show ?thesis using *(1) by simp
qed

lemma report_progress_move:
  assumes "flows_ok s" "k < TGEN_MAX_CLIENT_FLOWS"
  shows "flow_move e s (report_progress e k now el s)" "tf_active (mf_flows (report_progress e k now el s) ! k) = tf_active (mf_flows s ! k)"
proof -
  let ?ts = "mf_flows s ! k"
  define a where "a s = (if fe_output e then emit_event (Flow_progress (tf_flow_idx ?ts) (el + 1) (fst (flow_snapshot e (tf_n_workers ?ts) s))) (snd (flow_snapshot e (tf_n_workers ?ts) s)) else s)" for s
  define b where "b s = (if tf_is_tty ?ts \<and> \<not> tf_reuse ?ts \<and> \<not> tf_one_shot ?ts \<and> fe_can_print e
    then emit_event (Tty_progress (tf_flow_idx ?ts) (el + 1) (m_tx_pkts (snap_total (fst (flow_snapshot e (tf_n_workers ?ts) s))))) (snd (flow_snapshot e (tf_n_workers ?ts) s)) else s)" for s
  have e: "report_progress e k now el s = (if (now - tf_last_progress ?ts) div fe_hz e \<ge> 1 then upd_flow k (\<lambda>f. f\<lparr>tf_last_progress := now\<rparr>) (b (a s)) else s)"
    by (simp add: report_progress_def a_def b_def Let_def case_prod_beta)
  have a: "flow_move e s (a s)" using flow_move_refl [OF assms(1)] flow_move_shown [OF assms(1)] by (simp add: a_def)
  have b: "flow_move e (a s) (b (a s))" using flow_move_refl flow_move_shown flow_move_ok [OF a] by (simp add: b_def)
  note ab = flow_move_trans [OF a b]
  have len: "length (mf_flows (b (a s))) = TGEN_MAX_CLIENT_FLOWS" using flow_move_ok [OF ab] by (simp add: flows_ok_def)
  have fl: "mf_flows (b (a s)) = mf_flows s" by (simp add: a_def b_def emit_event_def flow_snapshot_def)
  have u: "flow_move e v (upd_flow k (\<lambda>f. f\<lparr>tf_last_progress := now\<rparr>) v)" if "flows_ok v" for v
    using that assms(2) by (auto simp: flow_move_def flows_ok_def owed_def upd_flow_def nth_list_update)
  show "flow_move e s (report_progress e k now el s)" unfolding e using ab flow_move_trans [OF ab u [OF flow_move_ok [OF ab]]] flow_move_refl [OF assms(1)] by simp
  show "tf_active (mf_flows (report_progress e k now el s) ! k) = tf_active ?ts" unfolding e using len fl assms(2) by (simp add: upd_flow_def)
qed

text \<open>A flow ends with a tick when its time is over, or when a one-shot flow has completed.\<close>

definition flow_due :: "flow_env \<Rightarrow> nat \<Rightarrow> mgmt_flows \<Rightarrow> bool" where
  "flow_due e k s \<longleftrightarrow> ucast (tf_duration_s (mf_flows s ! k)) \<le> (fst (flow_rdtsc s) - tf_start_tsc (mf_flows s ! k)) div fe_hz e \<or>
     tf_one_shot (mf_flows s ! k) \<and> one_shot_done (tf_proto (mf_flows s ! k)) (snap_total (fst (flow_snapshot e (tf_n_workers (mf_flows s ! k)) s)))"

lemma tick_flow_move:
  assumes "flows_ok s" "fenv_ok e" "flow_clock e (mf_ipc s)" "k < TGEN_MAX_CLIENT_FLOWS"
  shows "yields (traffic_gen_tick_flow e k s) (\<lambda>s'. flow_move e s s' \<and> tf_active (mf_flows s' ! k) = (tf_active (mf_flows s ! k) \<and> \<not> flow_due e k s))"
proof (cases "tf_active (mf_flows s ! k)")
  case False
  then show ?thesis using flow_move_refl [OF assms(1)] by (simp add: traffic_gen_tick_flow_def)
next
  case True
  let ?ts = "mf_flows s ! k" and ?s1 = "snd (flow_rdtsc s)"
  define s2 where "s2 = (if tf_one_shot ?ts then snd (flow_snapshot e (tf_n_workers ?ts) ?s1) else ?s1)"
  have idx: "unat (tf_flow_idx ?ts) = k" "fe_hz e \<noteq> 0" using assms(1,2,4) True by (simp_all add: flows_ok_def fenv_ok_def)
  have m: "flow_move e s s2" unfolding s2_def
    using flow_move_rdtsc [OF assms(1)] flow_move_trans [OF flow_move_rdtsc [OF assms(1)] flow_move_snapshot [OF flow_move_ok [OF flow_move_rdtsc [OF assms(1)]]]] by simp
  have fl: "mf_flows s2 = mf_flows s" by (simp add: s2_def flow_rdtsc_eq flow_snapshot_def)
  have sn: "fst (flow_snapshot e n ?s1) = fst (flow_snapshot e n s)" for n by (simp add: flow_snapshot_def flow_rdtsc_eq)
  have e: "traffic_gen_tick_flow e k s = (if flow_due e k s then mgmt_traffic_stop_flow e (tf_flow_idx ?ts) s2
      else Some (report_progress e k (fst (flow_rdtsc s)) ((fst (flow_rdtsc s) - tf_start_tsc ?ts) div fe_hz e) s2))"
    using True idx(2) sn by (simp add: traffic_gen_tick_flow_def flow_due_def s2_def Let_def case_prod_beta)
  note ok = flow_move_ok [OF m]
  show ?thesis
  proof (cases "flow_due e k s")
    case True
    then show ?thesis unfolding e using stop_flow_move [OF ok assms(2) flow_move_clock [OF m assms(3)], of "tf_flow_idx ?ts"] idx(1) assms(4)
      by (auto elim!: yields_mono intro: flow_move_trans [OF m])
  next
    case False
    then show ?thesis unfolding e using report_progress_move [OF ok assms(4)] flow_move_trans [OF m] True fl by simp
  qed
qed

lemma tick_flows_move:
  assumes "flows_ok s" "fenv_ok e" "flow_clock e (mf_ipc s)" "list_all (\<lambda>k. k < TGEN_MAX_CLIENT_FLOWS) ks"
  shows "yields (tick_flows e ks s) (flow_move e s)"
  using assms(1,3,4)
proof (induction ks arbitrary: s)
  case (Cons k ks)
  from Cons.prems(3) have k: "k < TGEN_MAX_CLIENT_FLOWS" by simp
  from tick_flow_move [OF Cons.prems(1) assms(2) Cons.prems(2) k] obtain v where v: "traffic_gen_tick_flow e k s = Some v" "flow_move e s v" by (auto simp: yields_def)
  from Cons.IH [OF flow_move_ok [OF v(2)] flow_move_clock [OF v(2) Cons.prems(2)]] Cons.prems(3) have "yields (tick_flows e ks v) (flow_move e v)" by simp
  then show ?case using v flow_move_trans [OF v(2)] by (auto elim!: yields_mono)
qed (simp add: flow_move_refl)

lemma tick_move: "flows_ok s \<Longrightarrow> fenv_ok e \<Longrightarrow> flow_clock e (mf_ipc s) \<Longrightarrow> yields (traffic_gen_tick e s) (flow_move e s)"
  unfolding traffic_gen_tick_def by (rule tick_flows_move) (simp_all add: list_all_iff)

lemma stop_listed_move:
  assumes "flows_ok s" "list_all (\<lambda>k. k < TGEN_MAX_CLIENT_FLOWS) ks" "stop_listed t ks n s = (b, n', s')"
  shows "flow_move e s s'"
  using assms
proof (induction ks arbitrary: n s b n')
  case (Cons k ks)
  from Cons.prems(2) have k: "k < TGEN_MAX_CLIENT_FLOWS" by simp
  show ?case
  proof (cases "tf_active (mf_flows s ! k)")
    case False
    then show ?thesis using Cons by simp
  next
    case True
    let ?f = "mf_flows s ! k"
    let ?v = "emit_event (Flow_line (word_of_nat k) (tf_start_tsc ?f) t (tf_duration_s ?f)) (upd_flow k (\<lambda>f. f\<lparr>tf_active := False, tf_stop_tsc := t\<rparr>) s)"
    have "unat (word_of_nat k :: u32) = k" using k by (simp add: unat_of_nat TGEN_MAX_CLIENT_FLOWS_def)
    then have v: "flow_move e s ?v" using Cons.prems(1)
      by (intro flow_move_stop [OF Cons.prems(1) k True, where t = t and ev = "Flow_line (word_of_nat k) (tf_start_tsc ?f) t (tf_duration_s ?f)" and evs = "[]" and g = "\<lambda>_. []"])
        (auto simp: emit_event_def upd_flow_def stopped_def flows_ok_def ipc_step_refl)
    obtain b2 n2 where "stop_listed t ks (tf_n_workers ?f) ?v = (b2, n2, s')" using Cons.prems(3) True by (auto simp: Let_def split: prod.splits)
    from flow_move_trans [OF v Cons.IH [OF flow_move_ok [OF v] _ this]] Cons.prems(2) show ?thesis by simp
  qed
qed (simp add: flow_move_refl)

lemma stop_all_move:
  assumes "flows_ok s" "fenv_ok e" "flow_clock e (mf_ipc s)"
  shows "yields (mgmt_traffic_stop_all e s) (flow_move e s)"
proof -
  have "ipc_ok (mf_ipc s)" using assms(1) by (simp add: flows_ok_def)
  from flow_broadcast_ok [OF assms(2) this assms(3), of "stop_flow_msg e (-1)"] obtain s1 g where s1: "flow_broadcast e (stop_flow_msg e (-1)) s = Some s1" "sent g s s1"
    by (auto simp: yields_def)
  note m1 = flow_move_sent [OF assms(1) s1(2), of e]
  obtain t s2 where s2: "flow_rdtsc s1 = (t, s2)" by fastforce
  have m2: "flow_move e s s2" using flow_move_trans [OF m1 flow_move_rdtsc [OF flow_move_ok [OF m1]]] s2 by simp
  obtain any n s3 where s3: "stop_listed t [0 ..< TGEN_MAX_CLIENT_FLOWS] (word_of_nat (num_workers (fe_cores e))) s2 = (any, n, s3)" by (metis prod_cases3)
  have m3: "flow_move e s s3" by (rule flow_move_trans [OF m2 stop_listed_move [OF flow_move_ok [OF m2] _ s3]]) (simp add: list_all_iff)
  note ok = flow_move_ok [OF m3]
  have "yields (mgmt_delay_ms_flush e 100 s3) (sent (\<lambda>_. []) s3)" by (rule delay_ok [OF assms(2) _ flow_move_clock [OF m3 assms(3)]]) (use ok in \<open>simp add: flows_ok_def\<close>)
  then obtain s4 where s4: "mgmt_delay_ms_flush e 100 s3 = Some s4" "flow_move e s3 s4" using flow_move_sent [OF ok] by (auto simp: yields_def)
  have "flow_move e s (emit_event No_active_flows s3)" "flow_move e s (emit_event (All_results sn) (snd (flow_snapshot e n s4)))" for sn
    using flow_move_trans [OF m3 flow_move_event [OF ok]] flow_move_trans [OF flow_move_trans [OF m3 s4(2)] flow_move_shown [OF flow_move_ok [OF s4(2)]]] by simp_all
  then show ?thesis using s1(1) s2 s3 s4(1) by (cases any) (simp_all add: mgmt_traffic_stop_all_def case_prod_beta)
qed

lemma start_move:
  assumes "flows_ok s" "k < TGEN_MAX_CLIENT_FLOWS"
  shows "flows_ok (mgmt_traffic_start st s)" "ipc_tsc_reads (mf_ipc (mgmt_traffic_start st s)) = ipc_tsc_reads (mf_ipc s)"
    "owed k (mgmt_traffic_start st s) = owed k s + (if unat (tf_flow_idx st) = k \<and> \<not> tf_active (mf_flows s ! k) then 1 else 0)"
proof -
  have i: "ipc_ok (snd (ipc_rdtsc (snd (ipc_rdtsc (mf_ipc s)))))" using ipc_step_ok [OF ipc_step_clock [OF ipc_step_ok [OF ipc_step_clock]]] assms(1) by (simp add: flows_ok_def)
  show "flows_ok (mgmt_traffic_start st s)" "ipc_tsc_reads (mf_ipc (mgmt_traffic_start st s)) = ipc_tsc_reads (mf_ipc s)"
    "owed k (mgmt_traffic_start st s) = owed k s + (if unat (tf_flow_idx st) = k \<and> \<not> tf_active (mf_flows s ! k) then 1 else 0)"
    using assms i by (auto simp: mgmt_traffic_start_def flow_rdtsc_eq upd_flow_def flows_ok_def owed_def nth_list_update Let_def) (simp_all add: ipc_rdtsc_def)
qed

subsection \<open>Sequences of operations\<close>

datatype flow_op = Start_flow traffic_gen_state | Stop_flow u32 | Stop_all | Tick_flows

text \<open>A run returns the slots in which a flow was started while none was active there.\<close>

fun flow_run :: "flow_env \<Rightarrow> flow_op list \<Rightarrow> mgmt_flows \<Rightarrow> (nat list \<times> mgmt_flows) option" where
  "flow_run e [] s = Some ([], s)"
| "flow_run e (Start_flow st # ops) s =
     (let k = unat (tf_flow_idx st); new = (if k < TGEN_MAX_CLIENT_FLOWS \<and> \<not> tf_active (mf_flows s ! k) then [k] else [])
      in map_option (apfst ((@) new)) (flow_run e ops (mgmt_traffic_start st s)))"
| "flow_run e (Stop_flow k # ops) s = do { s \<leftarrow> mgmt_traffic_stop_flow e k s; flow_run e ops s }"
| "flow_run e (Stop_all # ops) s = do { s \<leftarrow> mgmt_traffic_stop_all e s; flow_run e ops s }"
| "flow_run e (Tick_flows # ops) s = do { s \<leftarrow> traffic_gen_tick e s; flow_run e ops s }"

definition run_post :: "mgmt_flows \<Rightarrow> nat list \<times> mgmt_flows \<Rightarrow> bool" where
  "run_post s r \<longleftrightarrow> flows_ok (snd r) \<and> (\<forall>k<TGEN_MAX_CLIENT_FLOWS. owed k (snd r) = owed k s + count_list (fst r) k)"

lemma run_move:
  assumes "flow_clock e (mf_ipc s)" "yields m (flow_move e s)" "\<And>v. flows_ok v \<Longrightarrow> flow_clock e (mf_ipc v) \<Longrightarrow> yields (f v) (run_post v)"
  shows "yields (m \<bind> f) (run_post s)"
proof (rule yields_bindI [OF assms(2)])
  fix v assume v: "flow_move e s v"
  show "yields (f v) (run_post s)"
    by (rule yields_mono [OF assms(3) [OF flow_move_ok [OF v] flow_move_clock [OF v assms(1)]]]) (use v in \<open>simp add: run_post_def flow_move_def\<close>)
qed

lemma flow_run_ok:
  assumes "flows_ok s" "fenv_ok e" "flow_clock e (mf_ipc s)"
  shows "yields (flow_run e ops s) (run_post s)"
  using assms(1,3)
proof (induction ops arbitrary: s)
  case Nil
  then show ?case by (simp add: run_post_def)
next
  case (Cons x ops)
  note ok = Cons.prems(1) assms(2) Cons.prems(2)
  show ?case
  proof (cases x)
    case (Start_flow st)
    have "flow_clock e (mf_ipc (mgmt_traffic_start st s))" using Cons.prems(2) start_move(2) [OF Cons.prems(1), of 0 st] by (simp add: flow_clock_def ipc_clock_def TGEN_MAX_CLIENT_FLOWS_def)
    from Cons.IH [OF start_move(1) [OF Cons.prems(1), of 0] this] obtain r where r: "flow_run e ops (mgmt_traffic_start st s) = Some r" "run_post (mgmt_traffic_start st s) r"
      by (auto simp: yields_def TGEN_MAX_CLIENT_FLOWS_def)
    then show ?thesis using start_move(3) [OF Cons.prems(1), of _ st] unfolding Start_flow by (cases r) (auto simp: run_post_def Let_def)
  qed (simp_all add: run_move [OF Cons.prems(2) yields_mono [OF stop_flow_move [OF ok]] Cons.IH] run_move [OF Cons.prems(2) stop_all_move [OF ok] Cons.IH]
      run_move [OF Cons.prems(2) tick_move [OF ok] Cons.IH])
qed

text \<open>
  C20. Every flow is reported exactly once.  Over any sequence of starts, stops and ticks, each of which returns, the reports printed for a slot together with the
  flow still running there are as many as the flows started in that slot while it was free, and the table keeps its invariant.  (A start in a
  slot that is busy replaces its flow, and the replaced flow is not reported.)
\<close>

theorem flows_reported_once:
  assumes "flows_ok s" "fenv_ok e" "flow_clock e (mf_ipc s)"
  shows "\<exists>new s'. flow_run e ops s = Some (new, s') \<and> flows_ok s' \<and>
    (\<forall>k. TGEN_MAX_CLIENT_FLOWS \<le> k \<or>
      length (filter (reports k) (mf_out s')) + (if tf_active (mf_flows s' ! k) then 1 else 0) =
      length (filter (reports k) (mf_out s)) + (if tf_active (mf_flows s ! k) then 1 else 0) + count_list new k)"
proof -
  from flow_run_ok [OF assms, of ops] obtain new s' where r: "flow_run e ops s = Some (new, s')" "flows_ok s'"
    "\<forall>k<TGEN_MAX_CLIENT_FLOWS. owed k s' = owed k s + count_list new k" by (auto simp: yields_def run_post_def)
  have "\<forall>k. TGEN_MAX_CLIENT_FLOWS \<le> k \<or> length (filter (reports k) (mf_out s')) + (if tf_active (mf_flows s' ! k) then 1 else 0) =
      length (filter (reports k) (mf_out s)) + (if tf_active (mf_flows s ! k) then 1 else 0) + count_list new k"
  proof
    fix k
    show "TGEN_MAX_CLIENT_FLOWS \<le> k \<or> length (filter (reports k) (mf_out s')) + (if tf_active (mf_flows s' ! k) then 1 else 0) =
        length (filter (reports k) (mf_out s)) + (if tf_active (mf_flows s ! k) then 1 else 0) + count_list new k"
      using r(3) [rule_format, of k] unfolding owed_def by (cases "k < TGEN_MAX_CLIENT_FLOWS") (simp_all only: not_less simp_thms)
  qed
  with r(1,2) show ?thesis by blast
qed

subsection \<open>The worker's side of a stop\<close>

text \<open>Commands other than a start activate no flow.\<close>

definition starts :: "config_update \<Rightarrow> bool" where
  "starts m \<longleftrightarrow> cu_cmd m = CFG_CMD_START"

definition quiet_flow :: "nat \<Rightarrow> loop_state \<Rightarrow> bool" where
  "quiet_flow k s \<longleftrightarrow> length (lp_gens s) = TGEN_MAX_CLIENT_FLOWS \<and> \<not> tg_active (lp_gens s ! k)"

lemma reset_all_gens: "reset_all L s = Some s' \<Longrightarrow> lp_gens s' = lp_gens s"
  by (auto simp: reset_all_def)

lemma apply_keeps_quiet:
  assumes "apply_cmd L m s = Some s'" "\<not> starts m" "quiet_flow k s" "k < TGEN_MAX_CLIENT_FLOWS"
  shows "quiet_flow k s'"
  using assms
  by (auto simp: apply_cmd_def starts_def quiet_flow_def cmd_stop_def cmd_stop_flow_def cmd_serve_def cmd_set_rate_def cmd_stop_listener_def cmd_reset_def stop_gens_def
      upd_srv_def tx_gen_stop_def nth_list_update bind_eq_Some_conv Let_def dest!: reset_all_gens split: cfg_cmd.splits if_splits)

lemma apply_stop_quiet:
  assumes "apply_cmd L m s = Some s'" "cu_cmd m = CFG_CMD_STOP_FLOW" "unat (cu_index m) = k \<or> cu_index m = -1" "length (lp_gens s) = TGEN_MAX_CLIENT_FLOWS" "k < TGEN_MAX_CLIENT_FLOWS"
  shows "quiet_flow k s'"
proof -
  have "cu_index m \<noteq> -1 \<Longrightarrow> unat (cu_index m) = k" using assms(3) by blast
  then show ?thesis using assms(1,2,4,5) by (cases "cu_index m = -1") (auto simp: apply_cmd_def quiet_flow_def cmd_stop_flow_def stop_gens_def tx_gen_stop_def)
qed

lemma handle_gens: "handle_cmd L m s = Some s' \<Longrightarrow> \<exists>v. apply_cmd L m s = Some v \<and> lp_gens s' = lp_gens v"
  by (auto simp: handle_cmd_def bind_eq_Some_conv)

lemma drain_keeps_quiet:
  assumes "loop_ok L s" "lenv_ok L" "\<not> list_ex is_shutdown (my_cmds L s)" "\<not> list_ex starts (my_cmds L s)" "quiet_flow k s" "k < TGEN_MAX_CLIENT_FLOWS" "drain_cmds L s = Some (go, s')"
  shows "quiet_flow k s'"
  using assms(1,3-5,7)
proof (induction "my_cmds L s" arbitrary: s)
  case Nil
  obtain r i where r: "tgen_ipc_recv (wc_worker_idx (le_ctx L)) (lp_ipc s) = (r, i)" by fastforce
  have "r = None" using recv_my_cmds(1) [OF _ _ r] Nil.hyps Nil.prems(1) assms(2) by (auto simp: loop_ok_def lenv_ok_def split: option.splits)
  then show ?case using r Nil.prems(4,5) by (subst (asm) drain_cmds.simps) (auto simp: quiet_flow_def)
next
  case (Cons c cs)
  note c = Cons.hyps(2) [symmetric]
  from Cons.prems(2) c have "\<not> is_shutdown c" by simp
  from drain_step [OF Cons.prems(1) assms(2) c this] obtain i v where v: "handle_cmd L c (s\<lparr>lp_ipc := i\<rparr>) = Some v" "loop_ok L v" "my_cmds L v = cs" "drain_cmds L s = drain_cmds L v" by blast
  from handle_gens [OF v(1)] obtain u where u: "apply_cmd L c (s\<lparr>lp_ipc := i\<rparr>) = Some u" "lp_gens v = lp_gens u" by blast
  have "quiet_flow k u" by (rule apply_keeps_quiet [OF u(1) _ _ assms(6)]) (use Cons.prems c in \<open>simp_all add: quiet_flow_def\<close>)
  then have "quiet_flow k v" using u(2) by (simp add: quiet_flow_def)
  then show ?case using Cons.hyps(1) [OF v(3) [symmetric] v(2)] v(3,4) Cons.prems c by simp
qed

lemma drain_stops:
  assumes "loop_ok L s" "lenv_ok L" "my_cmds L s = ms1 @ m # ms2" "\<not> list_ex is_shutdown (ms1 @ m # ms2)" "\<not> list_ex starts ms2" "cu_cmd m = CFG_CMD_STOP_FLOW"
    "unat (cu_index m) = k \<or> cu_index m = -1" "k < TGEN_MAX_CLIENT_FLOWS" "drain_cmds L s = Some (go, s')"
  shows "quiet_flow k s'"
  using assms(1,3,4,9)
proof (induction ms1 arbitrary: s)
  case Nil
  have "\<not> is_shutdown m" using assms(6) by (simp add: is_shutdown_def)
  from drain_step [OF Nil.prems(1) assms(2) Nil.prems(2) [simplified] this] obtain i v
    where v: "handle_cmd L m (s\<lparr>lp_ipc := i\<rparr>) = Some v" "loop_ok L v" "my_cmds L v = ms2" "drain_cmds L s = drain_cmds L v" by blast
  from handle_gens [OF v(1)] obtain u where u: "apply_cmd L m (s\<lparr>lp_ipc := i\<rparr>) = Some u" "lp_gens v = lp_gens u" by blast
  have "quiet_flow k u" by (rule apply_stop_quiet [OF u(1) assms(6,7) _ assms(8)]) (use Nil.prems(1) in \<open>simp add: loop_ok_def core_ok_def gens_ok_def\<close>)
  then have "quiet_flow k v" using u(2) by (simp add: quiet_flow_def)
  from drain_keeps_quiet [OF v(2) assms(2) _ _ this assms(8), of go s'] v(3,4) Nil.prems(3,4) assms(5) show ?case by simp
next
  case (Cons c ms1)
  have "\<not> is_shutdown c" using Cons.prems(3) by simp
  from drain_step [OF Cons.prems(1) assms(2) Cons.prems(2) [simplified] this] obtain i v
    where v: "loop_ok L v" "my_cmds L v = ms1 @ m # ms2" "drain_cmds L s = drain_cmds L v" by blast
  then show ?case using Cons.IH [OF v(1,2)] Cons.prems(3,4) by simp
qed

text \<open>
  C22. A stop takes effect.  When the stop of a flow that the management thread has queued is still in a worker's ring, whatever
  commands are before it and whatever other commands than a start or a shutdown follow it, the worker that serves its commands has that flow inactive.
\<close>

theorem stop_takes_effect:
  assumes "loop_ok L s" "lenv_ok L" "my_cmds L s = ms1 @ stop_flow_msg e k # ms2" "\<not> list_ex is_shutdown (ms1 @ ms2)" "\<not> list_ex starts ms2" "unat k < TGEN_MAX_CLIENT_FLOWS"
  shows "\<exists>s'. drain_cmds L s = Some (True, s') \<and> loop_ok L s' \<and> my_cmds L s' = [] \<and> \<not> tg_active (lp_gens s' ! unat k)"
proof -
  from drain_ok [OF assms(1,2)] obtain go s' where d: "drain_cmds L s = Some (go, s')" "drained L s go s'" by (auto simp: yields_def)
  have sd: "\<not> list_ex is_shutdown (my_cmds L s)" using assms(3,4) by (simp add: is_shutdown_def stop_flow_msg_def)
  then have "to_serve L s = my_cmds L s" unfolding to_serve_def by (simp add: list_ex_iff takeWhile_eq_all_conv)
  then have "go" "my_cmds L s' = []" "loop_ok L s'" using d(2) sd by (simp_all add: drained_def)
  moreover have "quiet_flow (unat k) s'"
    by (rule drain_stops [OF assms(1-3) sd [unfolded assms(3)] assms(5) _ _ assms(6) d(1)]) (simp_all add: stop_flow_msg_def)
  ultimately show ?thesis using d(1) by (simp add: quiet_flow_def)
qed

subsection \<open>A table with one flow\<close>

definition demo_flow_env :: flow_env where
  "demo_flow_env = \<lparr>fe_ipc = demo_ipc_env, fe_cores = core_map_zero\<lparr>num_workers := 2\<rparr>, fe_hz = 1000, fe_metrics = (\<lambda>_. []), fe_hists = (\<lambda>_. []), fe_msg = demo_cmd CFG_CMD_NOOP 0,
     fe_output = False, fe_can_print = False\<rparr>"

definition demo_flow :: "bool \<Rightarrow> traffic_gen_state" where
  "demo_flow b = \<lparr>tf_active = b, tf_one_shot = True, tf_reuse = False, tf_is_tty = False, tf_start_tsc = 0, tf_stop_tsc = 0, tf_duration_s = 5, tf_n_workers = 2, tf_port_id = 0,
     tf_last_progress = 0, tf_proto = ''tcp'', tf_streams = 1, tf_rate = 0, tf_size = 64, tf_tls = False, tf_flow_idx = 3, tf_dst_ip_str = ''10.0.0.2'', tf_dst_port = 80\<rparr>"

definition demo_table :: "bool \<Rightarrow> mgmt_flows" where
  "demo_table b = \<lparr>mf_flows = (replicate 16 (demo_flow False))[3 := demo_flow b], mf_count = 4,
     mf_ipc = demo_ipc\<lparr>ipc_tsc_reads := (\<lambda>n. if n mod 3 = 0 then 2 ^ 62 else if n mod 3 = 1 then 2 ^ 63 else -1)\<rparr>, mf_snaps = 0, mf_out = []\<rparr>"

lemma demo_table_ok: "flows_ok (demo_table b)" "fenv_ok demo_flow_env" "flow_clock demo_flow_env (mf_ipc (demo_table b))"
proof -
  have "ipc_ok (mf_ipc (demo_table b))" using demo_ipc_ok(1) by (simp add: demo_table_def ipc_ok_def)
  then show "flows_ok (demo_table b)" by (auto simp: flows_ok_def demo_table_def demo_flow_def TGEN_MAX_CLIENT_FLOWS_def nth_list_update)
  show "fenv_ok demo_flow_env" by (simp add: fenv_ok_def demo_flow_env_def demo_ipc_env_def TGEN_MAX_WORKERS_def)
  let ?r = "ipc_tsc_reads (mf_ipc (demo_table b))"
  have r: "?r n = (if n mod 3 = 0 then 2 ^ 62 else if n mod 3 = 1 then 2 ^ 63 else -1)" for n by (simp add: demo_table_def)
  have "spin_timeout demo_ipc_env < ?r (Suc m) - ?r m" for m
  proof -
    have "m mod 3 = 0 \<and> Suc m mod 3 = 1 \<or> m mod 3 = 1 \<and> Suc m mod 3 = 2 \<or> m mod 3 = 2 \<and> Suc m mod 3 = 0" by presburger
    then show ?thesis by (elim disjE conjE) (simp_all add: r spin_timeout_def demo_ipc_env_def IPC_SPIN_TIMEOUT_US_def word_less_nat_alt)
  qed
  moreover have "d \<le> ?r (3 * n + 2)" for d n
  proof -
    have "(3 * n + 2) mod 3 = 2" by presburger
    then show ?thesis unfolding r by simp
  qed
  moreover have "n \<le> 3 * n + 2" for n :: nat by simp
  ultimately show "flow_clock demo_flow_env (mf_ipc (demo_table b))" unfolding flow_clock_def ipc_clock_def demo_flow_env_def flow_env.simps by (meson lessI)
qed

lemma demo_accepts: "w < TGEN_MAX_WORKERS \<Longrightarrow> k \<le> 63 \<Longrightarrow> accepts demo_ipc_env k (mf_ipc (demo_table b)) w"
  by (simp add: accepts_def demo_ipc_env_def demo_table_def demo_ipc_def)

theorem flow_stopped_witness:
  "\<exists>s' snap. mgmt_traffic_stop_flow demo_flow_env 3 (demo_table True) = Some s' \<and> \<not> tf_active (mf_flows s' ! 3) \<and>
    mf_out s' = [Flow_result 3 ''tcp'' 0 0x4000000000000000 5 snap, Metrics_cleared 2] \<and>
    stream 0 (mf_ipc s') = [stop_flow_msg demo_flow_env 3, reset_msg demo_flow_env] \<and> stream 1 (mf_ipc s') = stream 0 (mf_ipc s') \<and> stream 2 (mf_ipc s') = []"
proof -
  have f: "mf_flows (demo_table True) ! 3 = demo_flow True" "length (mf_flows (demo_table True)) = 16" by (simp_all add: demo_table_def)
  have l: "last_flow 3 (demo_table True)" by (auto simp: last_flow_def list_ex_iff demo_table_def TGEN_MAX_CLIENT_FLOWS_def demo_flow_def)
  have n: "num_workers (fe_cores demo_flow_env) = 2" "fe_ipc demo_flow_env = demo_ipc_env" "2 < TGEN_MAX_WORKERS" by (simp_all add: demo_flow_env_def TGEN_MAX_WORKERS_def)
  have st: "w < TGEN_MAX_WORKERS \<Longrightarrow> stream w (mf_ipc (demo_table True)) = []" for w by (simp add: stream_def demo_table_def demo_ipc_def)
  from flow_stopped [OF demo_table_ok(1-3), of 3 True] f(1) obtain s' A B snap where
    *: "mgmt_traffic_stop_flow demo_flow_env 3 (demo_table True) = Some s'" "A \<subseteq> {..<2}" "B \<subseteq> {..<2}"
      "\<forall>w<2. (accepts demo_ipc_env 1 (mf_ipc (demo_table True)) w \<longrightarrow> w \<in> A) \<and> (accepts demo_ipc_env 2 (mf_ipc (demo_table True)) w \<longrightarrow> w \<in> B)"
      "mf_flows s' = (mf_flows (demo_table True))[3 := (demo_flow True)\<lparr>tf_active := False, tf_stop_tsc := fst (flow_rdtsc (demo_table True))\<rparr>]"
      "mf_out s' = [Flow_result 3 ''tcp'' 0 0x4000000000000000 5 snap, Metrics_cleared 2]"
      "\<forall>w. TGEN_MAX_WORKERS \<le> w \<or> stream w (mf_ipc s') = stream w (mf_ipc (demo_table True)) @ (if w \<in> A then [stop_flow_msg demo_flow_env 3] else []) @ (if w \<in> B then [reset_msg demo_flow_env] else [])"
    using l n by (auto simp: TGEN_MAX_CLIENT_FLOWS_def) (auto simp: demo_flow_def demo_table_def flow_rdtsc_eq demo_ipc_def)
  have AB: "A = {..<2}" "B = {..<2}" using *(2-4) demo_accepts n(3) by auto
  have "stream w (mf_ipc s') = (if w < 2 then [stop_flow_msg demo_flow_env 3, reset_msg demo_flow_env] else [])" if "w < TGEN_MAX_WORKERS" for w
    using *(7) [rule_format, of w] that st [OF that] unfolding AB by auto
  then show ?thesis using *(1,5,6) f(2) n(3) by (intro exI [of _ s'] exI [of _ snap]) simp
qed

theorem flows_reported_once_witness:
  "\<exists>new s'. flow_run demo_flow_env [Tick_flows, Stop_all, Start_flow (demo_flow False), Stop_flow 3] (demo_table True) = Some (new, s') \<and>
    length (filter (reports 3) (mf_out s')) + (if tf_active (mf_flows s' ! 3) then 1 else 0) = 1 + count_list new 3"
proof -
  have f: "tf_active (mf_flows (demo_table True) ! 3)" "mf_out (demo_table True) = []" by (simp_all add: demo_table_def demo_flow_def)
  show "\<exists>new s'. flow_run demo_flow_env [Tick_flows, Stop_all, Start_flow (demo_flow False), Stop_flow 3] (demo_table True) = Some (new, s') \<and>
      length (filter (reports 3) (mf_out s')) + (if tf_active (mf_flows s' ! 3) then 1 else 0) = 1 + count_list new 3"
    using flows_reported_once [OF demo_table_ok(1-3), of "[Tick_flows, Stop_all, Start_flow (demo_flow False), Stop_flow 3]" True] f
    by (elim exE conjE) (rule exI, rule exI, rule conjI, assumption, drule spec [of _ 3], simp add: TGEN_MAX_CLIENT_FLOWS_def)
qed

theorem stop_takes_effect_witness:
  "\<exists>s'. drain_cmds demo_loop_env (demo_loop [demo_cmd CFG_CMD_START 1, stop_flow_msg demo_flow_env 0, demo_cmd CFG_CMD_RESET 2]) = Some (True, s') \<and> \<not> tg_active (lp_gens s' ! 0)"
proof -
  let ?ms = "[demo_cmd CFG_CMD_START 1, stop_flow_msg demo_flow_env 0, demo_cmd CFG_CMD_RESET 2]"
  have "list_all (cmd_ok demo_loop_env) ?ms" by (simp add: demo_cmd_ok) (simp add: cmd_ok_def stop_flow_msg_def demo_cmd_def)
  note d = demo_loop_ok [of ?ms, OF _ this]
  show "\<exists>s'. drain_cmds demo_loop_env (demo_loop ?ms) = Some (True, s') \<and> \<not> tg_active (lp_gens s' ! 0)"
    using stop_takes_effect [OF d(1,2), of "[demo_cmd CFG_CMD_START 1]" demo_flow_env 0 "[demo_cmd CFG_CMD_RESET 2]"] d(3)
    by (auto simp: is_shutdown_def starts_def demo_cmd_def TGEN_MAX_CLIENT_FLOWS_def)
qed

end
