(* ===== verification/PktTrace.thy ===== *)
theory PktTrace
  imports Prelude "HOL-Library.Monad_Syntax" "HOL-Library.Sublist"
begin

text \<open>
  Packet capture, \<^verbatim>\<open>telemetry/pktrace.c\<close>: callbacks on a queue copy packets into a ring, and the management thread writes the ring
  to a file.  \<open>pt_nic\<close> lists the callbacks installed in the NIC driver, \<open>pt_file\<close> what the open writer has been given, \<open>pt_held\<close> counts copies
  that are not freed, \<open>pt_fds\<close> open descriptors.  The results of DPDK and of the file system are functions of a counter of calls.
  A callback or a flush runs without interruption.
\<close>

subsection \<open>State\<close>

datatype pcapng_dir = RTE_PCAPNG_DIRECTION_IN | RTE_PCAPNG_DIRECTION_OUT

type_synonym capture = "pcapng_dir \<times> bytes"

definition PKTRACE_RING_SZ :: nat where "PKTRACE_RING_SZ = 4096"
definition PKTRACE_BATCH :: nat where "PKTRACE_BATCH = 64"

definition PKTRACE_SNAP_LEN :: nat where "PKTRACE_SNAP_LEN = 1600"

definition PT_ENOMEM :: int where "PT_ENOMEM = 12"
definition EBUSY :: int where "EBUSY = 16"
definition EINVAL :: int where "EINVAL = 22"
definition EIO :: int where "EIO = 5"

record pktrace =
  pt_ring :: "capture list option"
  pt_mp :: bool
  pt_rx_cb :: "nat option"
  pt_tx_cb :: "nat option"
  pt_port :: u16
  pt_queue :: u16
  pt_max_pkts :: u32
  pt_active :: bool
  pt_captured :: u32
  pt_dropped :: u32
  pt_writer :: bool
  pt_out_fd :: bool
  pt_written :: u32
  pt_streaming :: bool
  pt_nic :: "(pcapng_dir \<times> u16 \<times> u16 \<times> nat) list"
  pt_file :: "capture list"
  pt_held :: int
  pt_fds :: int
  pt_calls :: nat

record pktrace_env =
  pe_ring :: bool
  pe_pool :: bool
  pe_copy :: "nat \<Rightarrow> bool"
  pe_open :: "nat \<Rightarrow> bool"
  pe_errno :: int
  pe_fdopen :: "nat \<Rightarrow> bool"
  pe_callback :: "nat \<Rightarrow> bool"
  pe_write :: "nat \<Rightarrow> bool"

definition ask :: "(nat \<Rightarrow> bool) \<Rightarrow> pktrace \<Rightarrow> bool \<times> pktrace" where
  "ask f s = (f (pt_calls s), s\<lparr>pt_calls := pt_calls s + 1\<rparr>)"

subsection \<open>The callbacks\<close>

text \<open>A copy is cut at the snap length.\<close>

definition snap :: "pcapng_dir \<Rightarrow> bytes \<Rightarrow> capture" where
  "snap d p = (d, take PKTRACE_SNAP_LEN p)"

text \<open>The copies of a burst; \<open>None\<close> when more than the array holds are made.\<close>

fun clone_burst :: "pktrace_env \<Rightarrow> pcapng_dir \<Rightarrow> bytes list \<Rightarrow> capture list \<Rightarrow> pktrace \<Rightarrow> (capture list \<times> pktrace) option" where
  "clone_burst e d [] clones s = Some (clones, s)"
| "clone_burst e d (p # ps) clones s =
     (let n = pt_captured s; s = s\<lparr>pt_captured := n + 1\<rparr>
      in if pt_max_pkts s \<noteq> 0 \<and> n \<ge> pt_max_pkts s then Some (clones, s\<lparr>pt_active := False, pt_captured := pt_captured s - 1\<rparr>)
         else
           let (ok, s) = ask (pe_copy e) s
           in if \<not> ok then clone_burst e d ps clones (s\<lparr>pt_dropped := pt_dropped s + 1, pt_captured := pt_captured s - 1\<rparr>)
              else if length clones \<ge> PKTRACE_BATCH then None
              else clone_burst e d ps (clones @ [snap d p]) (s\<lparr>pt_held := pt_held s + 1\<rparr>))"

text \<open>\<^verbatim>\<open>pktrace_rx_cb\<close> and \<^verbatim>\<open>pktrace_tx_cb\<close> differ in the direction only.  A ring of \<open>n\<close> slots holds \<open>n - 1\<close> entries.\<close>

definition pktrace_cb :: "pktrace_env \<Rightarrow> pcapng_dir \<Rightarrow> bytes list \<Rightarrow> pktrace \<Rightarrow> pktrace option" where
  "pktrace_cb e d pkts s =
     (if \<not> pt_active s then Some s
      else do { (clones, s) \<leftarrow> clone_burst e d pkts [] s;
                if clones = [] then Some s
                else case pt_ring s of
                       None \<Rightarrow> None
                     | Some q \<Rightarrow>
                         let sent = min (length clones) (PKTRACE_RING_SZ - 1 - length q); lost = length clones - sent
                         in Some (s\<lparr>pt_ring := Some (q @ take sent clones), pt_held := pt_held s - int lost,
                                    pt_dropped := pt_dropped s + word_of_nat lost, pt_captured := pt_captured s - word_of_nat lost\<rparr>) })"

subsection \<open>Operations of the management thread\<close>

definition streaming_close :: "pktrace \<Rightarrow> pktrace" where
  "streaming_close s =
     (let s = (if pt_writer s then s\<lparr>pt_writer := False\<rparr> else s);
          s = (if pt_out_fd s then s\<lparr>pt_out_fd := False, pt_fds := pt_fds s - 1\<rparr> else s)
      in s\<lparr>pt_streaming := False\<rparr>)"

definition pktrace_init :: "pktrace_env \<Rightarrow> pktrace \<Rightarrow> int \<times> pktrace" where
  "pktrace_init e s =
     (if \<not> pe_ring e then (-PT_ENOMEM, s\<lparr>pt_ring := None\<rparr>)
      else if \<not> pe_pool e then (-PT_ENOMEM, s\<lparr>pt_ring := None, pt_mp := False\<rparr>)
      else (0, s\<lparr>pt_ring := Some [], pt_mp := True\<rparr>))"

definition drop_ring :: "pktrace \<Rightarrow> pktrace" where
  "drop_ring s = (case pt_ring s of None \<Rightarrow> s | Some q \<Rightarrow> s\<lparr>pt_ring := Some [], pt_held := pt_held s - int (length q)\<rparr>)"

function flush_ring :: "pktrace_env \<Rightarrow> capture list \<Rightarrow> pktrace \<Rightarrow> pktrace" where
  "flush_ring e q s =
     (if q = [] then s\<lparr>pt_ring := Some []\<rparr>
      else
        let batch = take PKTRACE_BATCH q; (ok, s) = ask (pe_write e) s; s = s\<lparr>pt_held := pt_held s - int (length batch)\<rparr>
        in if \<not> ok then s\<lparr>pt_ring := Some (drop PKTRACE_BATCH q)\<rparr>
           else flush_ring e (drop PKTRACE_BATCH q) (s\<lparr>pt_file := pt_file s @ batch, pt_written := pt_written s + word_of_nat (length batch)\<rparr>))"
  by pat_completeness auto
termination by (relation "measure (\<lambda>(e, q, s). length q)") (auto simp: PKTRACE_BATCH_def)

declare flush_ring.simps [simp del]

definition pktrace_flush :: "pktrace_env \<Rightarrow> pktrace \<Rightarrow> pktrace option" where
  "pktrace_flush e s =
     (if \<not> pt_streaming s \<or> \<not> pt_writer s then Some s
      else case pt_ring s of None \<Rightarrow> None | Some q \<Rightarrow> Some (flush_ring e q s))"

definition remove_cb :: "pcapng_dir \<Rightarrow> nat option \<Rightarrow> pktrace \<Rightarrow> pktrace" where
  "remove_cb d h s = (case h of None \<Rightarrow> s | Some n \<Rightarrow> s\<lparr>pt_nic := filter (\<lambda>x. x \<noteq> (d, pt_port s, pt_queue s, n)) (pt_nic s)\<rparr>)"

definition pktrace_stop :: "pktrace_env \<Rightarrow> pktrace \<Rightarrow> pktrace option" where
  "pktrace_stop e s =
     (if \<not> pt_active s \<and> pt_rx_cb s = None \<and> pt_tx_cb s = None then Some (if pt_streaming s then streaming_close s else s)
      else
        let s = s\<lparr>pt_active := False\<rparr>; s = (remove_cb RTE_PCAPNG_DIRECTION_IN (pt_rx_cb s) s)\<lparr>pt_rx_cb := None\<rparr>;
            s = (remove_cb RTE_PCAPNG_DIRECTION_OUT (pt_tx_cb s) s)\<lparr>pt_tx_cb := None\<rparr>
        in if pt_streaming s then map_option streaming_close (pktrace_flush e s) else Some s)"

definition pktrace_destroy :: "pktrace_env \<Rightarrow> pktrace \<Rightarrow> pktrace option" where
  "pktrace_destroy e s = map_option (\<lambda>s. (drop_ring s)\<lparr>pt_ring := None, pt_mp := False\<rparr>) (pktrace_stop e s)"

text \<open>A callback that the driver installs has the number of the call as its handle.\<close>

definition add_cb :: "pktrace_env \<Rightarrow> pcapng_dir \<Rightarrow> pktrace \<Rightarrow> nat option \<times> pktrace" where
  "add_cb e d s =
     (let n = pt_calls s; (ok, s) = ask (pe_callback e) s
      in if ok then (Some n, s\<lparr>pt_nic := pt_nic s @ [(d, pt_port s, pt_queue s, n)]\<rparr>) else (None, s))"

definition install_cbs :: "pktrace_env \<Rightarrow> pktrace \<Rightarrow> (int \<times> pktrace) option" where
  "install_cbs e s =
     (let (rx, s) = add_cb e RTE_PCAPNG_DIRECTION_IN s; (tx, s) = add_cb e RTE_PCAPNG_DIRECTION_OUT (s\<lparr>pt_rx_cb := rx\<rparr>); s = s\<lparr>pt_tx_cb := tx\<rparr>
      in if rx = None \<or> tx = None then map_option (Pair (-EIO)) (pktrace_stop e s) else Some (0, s))"

definition pktrace_start :: "pktrace_env \<Rightarrow> u16 \<Rightarrow> u16 \<Rightarrow> u32 \<Rightarrow> bool \<Rightarrow> pktrace \<Rightarrow> (int \<times> pktrace) option" where
  "pktrace_start e port queue max_pkts path s =
     (if pt_ring s = None \<or> \<not> pt_mp s then Some (-EINVAL, s)
      else if pt_active s then Some (-EBUSY, s)
      else
        let s = (drop_ring s)\<lparr>pt_streaming := False, pt_written := 0\<rparr>; (err, s) =
              (if \<not> path then (None, s)
               else
                 let (ok, s) = ask (pe_open e) s
                 in if \<not> ok then (Some (- pe_errno e), s\<lparr>pt_out_fd := False\<rparr>)
                    else
                      let (ok, s) = ask (pe_fdopen e) (s\<lparr>pt_out_fd := True, pt_fds := pt_fds s + 1\<rparr>)
                      in if \<not> ok then (Some (-EIO), s\<lparr>pt_writer := False, pt_out_fd := False, pt_fds := pt_fds s - 1\<rparr>)
                         else (None, s\<lparr>pt_writer := True, pt_file := [], pt_streaming := True\<rparr>))
        in case err of
             Some rc \<Rightarrow> Some (rc, s)
           | None \<Rightarrow> install_cbs e (s\<lparr>pt_port := port, pt_queue := queue, pt_max_pkts := max_pkts, pt_captured := 0, pt_dropped := 0, pt_active := True\<rparr>))"

definition pktrace_count :: "pktrace \<Rightarrow> u32" where
  "pktrace_count s = pt_captured s"

definition pktrace_is_active :: "pktrace \<Rightarrow> bool" where
  "pktrace_is_active s = pt_active s"

subsection \<open>What a burst adds\<close>

text \<open>The packets that may still be captured.\<close>

definition quota :: "pktrace \<Rightarrow> 'a list \<Rightarrow> 'a list" where
  "quota s ps = (if pt_max_pkts s = 0 then ps else take (unat (pt_max_pkts s) - unat (pt_captured s)) ps)"

definition pt_rest :: "pktrace \<Rightarrow> _" where
  "pt_rest s = ((pt_ring s, pt_mp s, pt_rx_cb s, pt_tx_cb s, pt_port s, pt_queue s), (pt_max_pkts s, pt_writer s, pt_out_fd s, pt_written s, pt_streaming s), pt_nic s, pt_file s, pt_fds s)"

definition cloned :: "bytes list \<Rightarrow> pktrace \<Rightarrow> bytes list \<Rightarrow> nat \<Rightarrow> pktrace \<Rightarrow> bool" where
  "cloned ps s new j s' \<longleftrightarrow> pt_rest s' = pt_rest s \<and> pt_captured s' = pt_captured s + word_of_nat (length new) \<and> pt_dropped s' = pt_dropped s + word_of_nat j \<and>
     pt_held s' = pt_held s + int (length new) \<and> subseq new ps \<and> length new + j \<le> length ps \<and> (pt_active s' \<longrightarrow> pt_active s \<and> length new + j = length ps) \<and>
     (pt_max_pkts s = 0 \<longrightarrow> pt_active s' = pt_active s) \<and> (pt_active s \<and> \<not> pt_active s' \<longrightarrow> unat (pt_captured s) + length new = unat (pt_max_pkts s)) \<and>
     (pt_max_pkts s \<noteq> 0 \<longrightarrow> unat (pt_captured s) + length new \<le> unat (pt_max_pkts s)) \<and> (j = 0 \<longrightarrow> new = quota s ps)"

lemma u32_Suc: "unat (x :: u32) + 1 < 2 ^ 32 \<Longrightarrow> unat (x + 1) = unat x + 1"
  by (simp add: unat_word_ariths)

lemma clone_burst_ok:
  assumes "length cl + length ps \<le> PKTRACE_BATCH" "unat (pt_captured s) + unat (pt_dropped s) + length ps < 2 ^ 32" "pt_max_pkts s = 0 \<or> pt_captured s \<le> pt_max_pkts s"
  shows "\<exists>new j s'. clone_burst e d ps cl s = Some (cl @ map (snap d) new, s') \<and> cloned ps s new j s'"
  using assms
proof (induction ps arbitrary: cl s)
  case Nil
  have "cloned [] s [] 0 s" using Nil by (auto simp: cloned_def quota_def word_le_nat_alt)
  then show ?case by (intro exI [of _ "[]"] exI [of _ 0] exI [of _ s]) simp
next
  case (Cons p ps)
  let ?c = "pt_captured s"
  have u: "unat (?c + 1) = unat ?c + 1" using Cons.prems(2) by (intro u32_Suc) simp
  show ?case
  proof (cases "pt_max_pkts s \<noteq> 0 \<and> ?c \<ge> pt_max_pkts s")
    case True
    let ?s = "s\<lparr>pt_captured := ?c, pt_active := False\<rparr>"
    have "cloned (p # ps) s [] 0 ?s" using True Cons.prems(3) by (auto simp: cloned_def quota_def word_le_nat_alt pt_rest_def)
    moreover have "clone_burst e d (p # ps) cl s = Some (cl, ?s)" using True by (simp add: Let_def)
    ultimately show ?thesis by (intro exI [of _ "[]"] exI [of _ 0] exI [of _ ?s]) simp
  next
    case False
    then have le: "pt_max_pkts s = 0 \<or> unat ?c + 1 \<le> unat (pt_max_pkts s)" by (auto simp: word_le_nat_alt)
    show ?thesis
    proof (cases "pe_copy e (pt_calls s)")
      case True
      let ?s = "s\<lparr>pt_captured := ?c + 1, pt_calls := pt_calls s + 1, pt_held := pt_held s + 1\<rparr>"
      have "clone_burst e d (p # ps) cl s = clone_burst e d ps (cl @ [snap d p]) ?s" using False True Cons.prems(1) by (auto simp: Let_def ask_def)
      moreover obtain new j s' where r: "clone_burst e d ps (cl @ [snap d p]) ?s = Some ((cl @ [snap d p]) @ map (snap d) new, s')" "cloned ps ?s new j s'"
        using Cons.IH [of "cl @ [snap d p]" ?s] Cons.prems le u by (auto simp: word_le_nat_alt)
      moreover have "quota s (p # ps) = p # quota ?s ps" using le u by (auto simp: quota_def take_Cons')
      then have "cloned (p # ps) s (p # new) j s'" using r(2) u by (auto simp: cloned_def pt_rest_def add.assoc)
      ultimately show ?thesis by (intro exI [of _ "p # new"] exI [of _ j] exI [of _ s']) simp
    next
      case copy: False
      let ?s = "s\<lparr>pt_captured := ?c, pt_calls := pt_calls s + 1, pt_dropped := pt_dropped s + 1\<rparr>"
      have ud: "unat (pt_dropped s + 1) = unat (pt_dropped s) + 1" using Cons.prems(2) by (intro u32_Suc) simp
      have "clone_burst e d (p # ps) cl s = clone_burst e d ps cl ?s" using False copy by (auto simp: Let_def ask_def)
      moreover obtain new j s' where r: "clone_burst e d ps cl ?s = Some (cl @ map (snap d) new, s')" "cloned ps ?s new j s'"
        using Cons.IH [of cl ?s] Cons.prems ud by auto
      moreover have "cloned (p # ps) s new (Suc j) s'" using r(2) by (auto simp: cloned_def pt_rest_def add.assoc)
      ultimately show ?thesis by (intro exI [of _ new] exI [of _ "Suc j"] exI [of _ s']) simp
    qed
  qed
qed

subsection \<open>The file holds what was captured\<close>

text \<open>\<open>seen\<close> are the packets of all bursts since the start, with their direction.\<close>

definition trace_ok :: "capture list \<Rightarrow> pktrace \<Rightarrow> bool" where
  "trace_ok seen s \<longleftrightarrow> (\<exists>q. pt_ring s = Some q \<and> length q \<le> PKTRACE_RING_SZ - 1 \<and> pt_held s = int (length q) \<and> pt_streaming s \<and> pt_writer s \<and>
     unat (pt_captured s) = length (pt_file s @ q) \<and> unat (pt_written s) = length (pt_file s) \<and> subseq (pt_file s @ q) seen \<and>
     unat (pt_captured s) + unat (pt_dropped s) \<le> length seen \<and> (pt_max_pkts s = 0 \<or> pt_captured s \<le> pt_max_pkts s) \<and>
     (pt_max_pkts s = 0 \<longrightarrow> pt_active s) \<and> (pt_active s \<longrightarrow> unat (pt_captured s) + unat (pt_dropped s) = length seen) \<and>
     (\<not> pt_active s \<and> pt_dropped s = 0 \<longrightarrow> pt_file s @ q = take (unat (pt_max_pkts s)) seen \<and> length (pt_file s @ q) = unat (pt_max_pkts s)))"

definition pt_link :: "pktrace \<Rightarrow> _" where
  "pt_link s = ((pt_rx_cb s, pt_tx_cb s, pt_port s, pt_queue s), pt_max_pkts s, pt_mp s, pt_out_fd s, pt_nic s, pt_fds s)"

lemma subseq_full: "subseq xs ys \<Longrightarrow> length xs = length ys \<Longrightarrow> xs = ys"
  by (rule subseq_same_length)

lemma u32_sub: "n \<le> unat (x :: u32) \<Longrightarrow> unat (x - word_of_nat n) = unat x - n"
proof -
  assume a: "n \<le> unat x"
  then have n: "unat (word_of_nat n :: u32) = n" using unat_lt_u32 [of x] by (simp add: unat_of_nat take_bit_nat_eq_self)
  then have "word_of_nat n \<le> x" using a by (simp add: word_le_nat_alt)
  from unat_sub [OF this] show ?thesis unfolding n .
qed

lemma u32_add: "unat (x :: u32) + n < 2 ^ 32 \<Longrightarrow> unat (x + word_of_nat n) = unat x + n"
proof -
  assume a: "unat x + n < 2 ^ 32"
  then have "unat (word_of_nat n :: u32) = n" by (simp add: unat_of_nat take_bit_nat_eq_self)
  then show ?thesis using a by (simp add: unat_word_ariths)
qed

lemma cb_ok:
  assumes "trace_ok seen s" "length pkts \<le> PKTRACE_BATCH" "length seen + length pkts < 2 ^ 32"
  shows "\<exists>s'. pktrace_cb e d pkts s = Some s' \<and> trace_ok (seen @ map (snap d) pkts) s' \<and> pt_link s' = pt_link s"
proof (cases "pt_active s")
  case False
  then have "trace_ok (seen @ map (snap d) pkts) s" using assms(1) by (auto simp: trace_ok_def)
  then show ?thesis using False by (simp add: pktrace_cb_def)
next
  case True
  from assms(1) obtain q where q: "pt_ring s = Some q" "length q \<le> PKTRACE_RING_SZ - 1" "pt_held s = int (length q)" "pt_streaming s" "pt_writer s"
    "unat (pt_captured s) = length (pt_file s @ q)" "unat (pt_written s) = length (pt_file s)" "subseq (pt_file s @ q) seen"
    "unat (pt_captured s) + unat (pt_dropped s) = length seen" "pt_max_pkts s = 0 \<or> pt_captured s \<le> pt_max_pkts s"
    using True by (auto simp: trace_ok_def)
  have "\<exists>new j s'. clone_burst e d pkts [] s = Some ([] @ map (snap d) new, s') \<and> cloned pkts s new j s'"
    by (rule clone_burst_ok) (use assms(2,3) q(9,10) in simp_all)
  then obtain new j s1 where c: "clone_burst e d pkts [] s = Some (map (snap d) new, s1)" "cloned pkts s new j s1" by auto
  then have r: "pt_ring s1 = Some q" "pt_streaming s1" "pt_writer s1" "pt_file s1 = pt_file s" "pt_written s1 = pt_written s" "pt_max_pkts s1 = pt_max_pkts s"
    using q by (simp_all add: cloned_def pt_rest_def)
  have le: "length new + j \<le> length pkts" "subseq new pkts" using c(2) by (simp_all add: cloned_def)
  have uc: "unat (pt_captured s1) = unat (pt_captured s) + length new" "unat (pt_dropped s1) = unat (pt_dropped s) + j" "pt_held s1 = int (length q) + int (length new)"
    using c(2) q(3,9) assms(3) le by (auto simp: cloned_def intro!: u32_add)
  define k where "k = min (length new) (PKTRACE_RING_SZ - 1 - length q)"
  define l where "l = length new - k"
  define s' where "s' = s1\<lparr>pt_ring := Some (q @ map (snap d) (take k new)), pt_held := pt_held s1 - int l,
    pt_dropped := pt_dropped s1 + word_of_nat l, pt_captured := pt_captured s1 - word_of_nat l\<rparr>"
  have e: "pktrace_cb e d pkts s = Some (if new = [] then s1 else s')"
    using True c(1) r(1) by (simp add: pktrace_cb_def s'_def l_def k_def Let_def take_map)
  have k: "k + l = length new" "length q + k \<le> PKTRACE_RING_SZ - 1" using q(2) by (simp_all add: k_def l_def)
  have us: "unat (pt_captured s') = length (pt_file s @ q @ map (snap d) (take k new))" "unat (pt_dropped s') = unat (pt_dropped s) + j + l"
    using uc q(6,9) k(1) assms(3) le(1) by (simp_all add: s'_def u32_sub u32_add)
  have "subseq (take k new) pkts" using subseq_order.trans [OF prefix_imp_subseq [OF take_is_prefix] le(2)] .
  then have sub: "subseq (pt_file s @ q @ map (snap d) (take k new)) (seen @ map (snap d) pkts)"
    using list_emb_append_mono [OF q(8) subseq_map, of "take k new" pkts "snap d"] by simp
  have all: "pt_file s @ q = seen" if "pt_dropped s = 0" using that q(6,8,9) by (intro subseq_full) simp_all
  have mx: "pt_max_pkts s = 0 \<or> length (pt_file s @ q) + length new \<le> unat (pt_max_pkts s)" using c(2) q(6) by (auto simp: cloned_def)
  have act: "pt_active s1 \<Longrightarrow> length new + j = length pkts" "pt_max_pkts s = 0 \<Longrightarrow> pt_active s1" "\<not> pt_active s1 \<Longrightarrow> length (pt_file s @ q) + length new = unat (pt_max_pkts s)"
    "j = 0 \<Longrightarrow> new = quota s pkts" using c(2) True q(6) by (simp_all add: cloned_def)
  have last: "pt_file s @ q @ map (snap d) (take k new) = take (unat (pt_max_pkts s)) (seen @ map (snap d) pkts)" "length (pt_file s @ q @ map (snap d) (take k new)) = unat (pt_max_pkts s)"
    if "\<not> pt_active s1" "pt_dropped s' = 0"
  proof -
    have z: "pt_dropped s = 0" "j = 0" "l = 0" using us(2) that(2) by (simp_all add: unat_eq_0)
    then have n: "take k new = new" "new = take (unat (pt_max_pkts s) - length seen) pkts" using k(1) act(2,4) that(1) all q(6) by (auto simp: quota_def)
    show "pt_file s @ q @ map (snap d) (take k new) = take (unat (pt_max_pkts s)) (seen @ map (snap d) pkts)"
      using n all [OF z(1)] mx act(2) that(1) by (auto simp: take_map)
    show "length (pt_file s @ q @ map (snap d) (take k new)) = unat (pt_max_pkts s)" using act(3) [OF that(1)] n(1) by simp
  qed
  have "trace_ok (seen @ map (snap d) pkts) s'" unfolding trace_ok_def
  proof (intro exI [of _ "q @ map (snap d) (take k new)"] conjI impI)
    show "pt_ring s' = Some (q @ map (snap d) (take k new))" "pt_streaming s'" "pt_writer s'" "unat (pt_written s') = length (pt_file s')" using r q(7) by (simp_all add: s'_def)
    show "length (q @ map (snap d) (take k new)) \<le> PKTRACE_RING_SZ - 1" using k by simp
    show "pt_held s' = int (length (q @ map (snap d) (take k new)))" using uc(3) k(1) by (simp add: s'_def)
    show "unat (pt_captured s') = length (pt_file s' @ q @ map (snap d) (take k new))" using us(1) r(4) by (simp add: s'_def)
    show "subseq (pt_file s' @ q @ map (snap d) (take k new)) (seen @ map (snap d) pkts)" using sub r(4) by (simp add: s'_def)
    show "unat (pt_captured s') + unat (pt_dropped s') \<le> length (seen @ map (snap d) pkts)" using us k(1) le(1) q(6,9) by simp
    show "pt_max_pkts s' = 0 \<or> pt_captured s' \<le> pt_max_pkts s'" using us(1) mx k(1) r(6) by (auto simp: word_le_nat_alt s'_def)
    show "pt_max_pkts s' = 0 \<Longrightarrow> pt_active s'" using act(2) r(6) by (simp add: s'_def)
    show "pt_active s' \<Longrightarrow> unat (pt_captured s') + unat (pt_dropped s') = length (seen @ map (snap d) pkts)" using us k(1) act(1) q(6,9) by (simp add: s'_def)
    show "\<not> pt_active s' \<and> pt_dropped s' = 0 \<Longrightarrow> pt_file s' @ q @ map (snap d) (take k new) = take (unat (pt_max_pkts s')) (seen @ map (snap d) pkts)"
      "\<not> pt_active s' \<and> pt_dropped s' = 0 \<Longrightarrow> length (pt_file s' @ q @ map (snap d) (take k new)) = unat (pt_max_pkts s')"
      using last r(4,6) by (simp_all add: s'_def)
  qed
  moreover have "pktrace_cb e d pkts s = Some s'" if "new \<noteq> []" using e that by simp
  moreover have "trace_ok (seen @ map (snap d) pkts) s1" if "new = []"
  proof -
    have "k = 0" "l = 0" using that by (simp_all add: k_def l_def)
    then have "pt_ring s' = pt_ring s1" "pt_held s' = pt_held s1" "pt_dropped s' = pt_dropped s1" "pt_captured s' = pt_captured s1" "pt_rest s' = pt_rest s1" "pt_active s' = pt_active s1"
      using r(1) by (simp_all add: s'_def pt_rest_def)
    then show ?thesis using \<open>trace_ok (seen @ map (snap d) pkts) s'\<close> by (simp add: trace_ok_def pt_rest_def)
  qed
  moreover have "pt_link s1 = pt_link s" "pt_link s' = pt_link s" using c(2) by (simp_all add: cloned_def pt_rest_def pt_link_def s'_def)
  ultimately show ?thesis using e by (cases "new = []") auto
qed

text \<open>Flushing moves the ring to the file.\<close>

definition pt_ctl :: "pktrace \<Rightarrow> _" where
  "pt_ctl s = ((pt_mp s, pt_rx_cb s, pt_tx_cb s, pt_port s, pt_queue s), (pt_max_pkts s, pt_active s, pt_captured s, pt_dropped s), (pt_writer s, pt_out_fd s, pt_streaming s), pt_nic s, pt_fds s)"

lemma flush_ring_ok:
  assumes "\<forall>k. pe_write e k"
  shows "pt_ring (flush_ring e q s) = Some [] \<and> pt_held (flush_ring e q s) = pt_held s - int (length q) \<and> pt_file (flush_ring e q s) = pt_file s @ q \<and>
    pt_written (flush_ring e q s) = pt_written s + word_of_nat (length q) \<and> pt_ctl (flush_ring e q s) = pt_ctl s"
proof (induction q arbitrary: s rule: length_induct)
  case (1 q)
  show ?case
  proof (cases "q = []")
    case True
    then show ?thesis by (simp add: flush_ring.simps pt_ctl_def)
  next
    case False
    define a where "a = take PKTRACE_BATCH q"
    define b where "b = drop PKTRACE_BATCH q"
    have q: "q = a @ b" by (simp add: a_def b_def)
    define t where "t = s\<lparr>pt_calls := pt_calls s + 1, pt_held := pt_held s - int (length a), pt_file := pt_file s @ a, pt_written := pt_written s + word_of_nat (length a)\<rparr>"
    have e: "flush_ring e q s = flush_ring e b t" using False assms by (subst flush_ring.simps) (simp add: a_def b_def t_def ask_def Let_def)
    have "length b < length q" using False by (simp add: b_def PKTRACE_BATCH_def)
    from "1.IH" [rule_format, OF this, of t] show ?thesis unfolding e by (simp add: q t_def pt_ctl_def)
  qed
qed

lemma flush_ok:
  assumes "trace_ok seen s" "\<forall>k. pe_write e k" "length seen < 2 ^ 32"
  shows "\<exists>s'. pktrace_flush e s = Some s' \<and> trace_ok seen s' \<and> pt_link s' = pt_link s \<and> pt_ring s' = Some []"
proof -
  from assms(1) obtain q where q: "pt_ring s = Some q" "pt_streaming s" "pt_writer s" "pt_held s = int (length q)" "unat (pt_written s) = length (pt_file s)"
    "unat (pt_captured s) = length (pt_file s @ q)" "unat (pt_captured s) + unat (pt_dropped s) \<le> length seen" by (auto simp: trace_ok_def)
  let ?s = "flush_ring e q s"
  note f = flush_ring_ok [OF assms(2), of q s]
  have "unat (pt_written ?s) = length (pt_file s @ q)" using f q(5-7) assms(3) by (simp add: u32_add)
  then have "trace_ok seen ?s" using assms(1) f q(1,4) by (auto simp: trace_ok_def pt_ctl_def)
  then show ?thesis using q f by (simp add: pktrace_flush_def pt_link_def pt_ctl_def)
qed

subsection \<open>A capture\<close>

datatype trace_event = Rx_burst "bytes list" | Tx_burst "bytes list" | Flush_trace

fun trace_step :: "pktrace_env \<Rightarrow> trace_event \<Rightarrow> pktrace \<Rightarrow> pktrace option" where
  "trace_step e (Rx_burst ps) s = pktrace_cb e RTE_PCAPNG_DIRECTION_IN ps s"
| "trace_step e (Tx_burst ps) s = pktrace_cb e RTE_PCAPNG_DIRECTION_OUT ps s"
| "trace_step e Flush_trace s = pktrace_flush e s"

fun trace_run :: "pktrace_env \<Rightarrow> trace_event list \<Rightarrow> pktrace \<Rightarrow> pktrace option" where
  "trace_run e [] s = Some s"
| "trace_run e (x # xs) s = trace_step e x s \<bind> trace_run e xs"

fun traffic :: "trace_event \<Rightarrow> capture list" where
  "traffic (Rx_burst ps) = map (snap RTE_PCAPNG_DIRECTION_IN) ps"
| "traffic (Tx_burst ps) = map (snap RTE_PCAPNG_DIRECTION_OUT) ps"
| "traffic Flush_trace = []"

lemma trace_run_ok:
  assumes "trace_ok seen s" "\<forall>k. pe_write e k" "list_all (\<lambda>x. length (traffic x) \<le> PKTRACE_BATCH) xs" "length (seen @ concat (map traffic xs)) < 2 ^ 32"
  shows "\<exists>s'. trace_run e xs s = Some s' \<and> trace_ok (seen @ concat (map traffic xs)) s' \<and> pt_link s' = pt_link s"
  using assms(1,3,4)
proof (induction xs arbitrary: seen s)
  case (Cons x xs)
  have "\<exists>v. trace_step e x s = Some v \<and> trace_ok (seen @ traffic x) v \<and> pt_link v = pt_link s"
    using Cons.prems cb_ok [OF Cons.prems(1)] flush_ok [OF Cons.prems(1) assms(2)] by (cases x) auto
  then obtain v where v: "trace_step e x s = Some v" "trace_ok (seen @ traffic x) v" "pt_link v = pt_link s" by blast
  from Cons.IH [OF v(2)] Cons.prems(2,3) v(1,3) show ?case by simp
qed simp

text \<open>Starting with an idle tracer.\<close>

definition trace_idle :: "pktrace \<Rightarrow> bool" where
  "trace_idle s \<longleftrightarrow> (\<exists>q. pt_ring s = Some q \<and> pt_held s = int (length q)) \<and> pt_mp s \<and> \<not> pt_active s \<and> \<not> pt_out_fd s \<and> pt_nic s = [] \<and> pt_fds s = 0"

lemma start_ok:
  assumes "trace_idle s" "pktrace_start e port queue n True s = Some (0, s1)" "pe_errno e \<noteq> 0"
  shows "trace_ok [] s1" "pt_max_pkts s1 = n" "pt_active s1" "pt_out_fd s1" "pt_fds s1 = 1" "pt_rx_cb s1 \<noteq> None" "pt_tx_cb s1 \<noteq> None"
    "pt_nic s1 = [(RTE_PCAPNG_DIRECTION_IN, port, queue, the (pt_rx_cb s1)), (RTE_PCAPNG_DIRECTION_OUT, port, queue, the (pt_tx_cb s1))]" "pt_port s1 = port" "pt_queue s1 = queue" "pt_mp s1"
proof -
  obtain q where q: "pt_ring s = Some q" "pt_held s = int (length q)" "pt_mp s" "\<not> pt_active s" "\<not> pt_out_fd s" "pt_nic s = []" "pt_fds s = 0" using assms(1) by (auto simp: trace_idle_def)
  note d = pktrace_start_def ask_def drop_ring_def install_cbs_def add_cb_def
  have ok: "pe_open e (pt_calls s)" using assms(2,3) q by (auto simp: d Let_def split: if_splits)
  then have ok2: "pe_fdopen e (pt_calls s + 1)" using assms(2) q by (auto simp: d Let_def EIO_def split: if_splits)
  have ok3: "pe_callback e (Suc (Suc (pt_calls s))) \<and> pe_callback e (Suc (Suc (Suc (pt_calls s))))" using assms(2) q ok ok2
    by (auto simp: d Let_def EIO_def split: if_splits)
  show "trace_ok [] s1" "pt_max_pkts s1 = n" "pt_active s1" "pt_out_fd s1" "pt_fds s1 = 1" "pt_rx_cb s1 \<noteq> None" "pt_tx_cb s1 \<noteq> None"
    "pt_nic s1 = [(RTE_PCAPNG_DIRECTION_IN, port, queue, the (pt_rx_cb s1)), (RTE_PCAPNG_DIRECTION_OUT, port, queue, the (pt_tx_cb s1))]" "pt_port s1 = port" "pt_queue s1 = queue" "pt_mp s1"
    using assms(2) q ok ok2 ok3 by (auto simp: d Let_def trace_ok_def)
qed

lemma stop_ok:
  assumes "trace_ok seen s" "\<forall>k. pe_write e k" "length seen < 2 ^ 32" "pt_rx_cb s = Some a" "pt_tx_cb s = Some b" "pt_out_fd s" "pt_fds s = 1"
    "pt_nic s = [(RTE_PCAPNG_DIRECTION_IN, pt_port s, pt_queue s, a), (RTE_PCAPNG_DIRECTION_OUT, pt_port s, pt_queue s, b)]"
  shows "\<exists>s' v. pktrace_stop e s = Some s' \<and> trace_ok seen v \<and> pt_active v = pt_active s \<and> pt_ring v = Some [] \<and> pt_ring s' = Some [] \<and> pt_file s' = pt_file v \<and> pt_captured s' = pt_captured v \<and>
    pt_dropped s' = pt_dropped v \<and> pt_max_pkts v = pt_max_pkts s \<and> pt_held s' = pt_held v \<and> pt_fds s' = 0 \<and> pt_nic s' = [] \<and> pt_rx_cb s' = None \<and> pt_tx_cb s' = None \<and> \<not> pt_active s' \<and> \<not> pt_out_fd s' \<and> pt_mp s' = pt_mp s"
proof -
  obtain q where q: "pt_ring s = Some q" "pt_streaming s" "pt_writer s" using assms(1) by (auto simp: trace_ok_def)
  let ?u = "s\<lparr>pt_active := False, pt_rx_cb := None, pt_nic := [], pt_tx_cb := None\<rparr>"
  let ?v = "flush_ring e q s"
  note f = flush_ring_ok [OF assms(2), of q s] and g = flush_ring_ok [OF assms(2), of q ?u]
  from flush_ok [OF assms(1-3)] have t: "trace_ok seen ?v" using q by (auto simp: pktrace_flush_def)
  have "pktrace_stop e s = Some (streaming_close (flush_ring e q ?u))"
    using q assms(4,5,8) by (simp add: pktrace_stop_def remove_cb_def pktrace_flush_def Let_def)
  then show ?thesis using t f g assms(6,7) by (intro exI [of _ "streaming_close (flush_ring e q ?u)"] exI [of _ ?v]) (simp add: streaming_close_def pt_ctl_def Let_def)
qed

text \<open>A write that fails loses its batch: the packets are freed and stay counted as captured.\<close>

lemma failed_write_loses_batch:
  assumes "pt_ring s = Some q" "q \<noteq> []" "pt_streaming s" "pt_writer s" "\<not> pe_write e (pt_calls s)"
  shows "\<exists>s'. pktrace_flush e s = Some s' \<and> pt_file s' = pt_file s \<and> pt_ring s' = Some (drop PKTRACE_BATCH q) \<and> pktrace_count s' = pktrace_count s \<and> pt_dropped s' = pt_dropped s"
  using assms by (simp add: pktrace_flush_def flush_ring.simps [of e q s] ask_def Let_def pktrace_count_def)

text \<open>
  C26. The file of a capture is faithful as long as every write to the file succeeds.  After a capture to a file was started, whatever bursts of at most 64 packets are received and
  sent and however often the ring is flushed, no step fails, and stopping leaves a file with packets, cut at 1600 bytes, in the order they were seen: as many as are counted as
  captured, at most the limit, and every one (up to the limit) unless drops are counted; without a limit, captured and dropped add up to what was seen.
  Every copy is freed, the file closed and both callbacks removed.  Fewer than \<open>2 ^ 32\<close> packets are seen.  (A write that fails, for instance on a full disk, loses up to 64
  packets that stay counted as captured: \<open>failed_write_loses_batch\<close>.)
\<close>

theorem trace_file_faithful:
  assumes "trace_idle s" "pktrace_start e port queue n True s = Some (0, s1)" "pe_errno e \<noteq> 0" "\<forall>k. pe_write e k"
    "list_all (\<lambda>x. length (traffic x) \<le> PKTRACE_BATCH) xs" "length (concat (map traffic xs)) < 2 ^ 32"
  shows "\<exists>s2 s3. trace_run e xs s1 = Some s2 \<and> pktrace_stop e s2 = Some s3 \<and> subseq (pt_file s3) (concat (map traffic xs)) \<and>
    length (pt_file s3) = unat (pktrace_count s3) \<and> (n = 0 \<or> length (pt_file s3) \<le> unat n) \<and>
    (pt_dropped s3 \<noteq> 0 \<or> pt_file s3 = (if n = 0 then concat (map traffic xs) else take (unat n) (concat (map traffic xs)))) \<and>
    (n \<noteq> 0 \<or> length (pt_file s3) + unat (pt_dropped s3) = length (concat (map traffic xs))) \<and>
    pt_held s3 = 0 \<and> trace_idle s3"
proof -
  note st = start_ok [OF assms(1-3)]
  let ?t = "concat (map traffic xs)"
  have "\<exists>s'. trace_run e xs s1 = Some s' \<and> trace_ok ([] @ ?t) s' \<and> pt_link s' = pt_link s1" by (rule trace_run_ok [OF st(1) assms(4,5)]) (use assms(6) in simp)
  then obtain s2 where s2: "trace_run e xs s1 = Some s2" "trace_ok ?t s2" "pt_link s2 = pt_link s1" by auto
  obtain a b where ab: "pt_rx_cb s1 = Some a" "pt_tx_cb s1 = Some b" using st(6,7) by blast
  have "\<exists>s' v. pktrace_stop e s2 = Some s' \<and> trace_ok ?t v \<and> pt_active v = pt_active s2 \<and> pt_ring v = Some [] \<and> pt_ring s' = Some [] \<and> pt_file s' = pt_file v \<and> pt_captured s' = pt_captured v \<and>
    pt_dropped s' = pt_dropped v \<and> pt_max_pkts v = pt_max_pkts s2 \<and> pt_held s' = pt_held v \<and> pt_fds s' = 0 \<and> pt_nic s' = [] \<and> pt_rx_cb s' = None \<and> pt_tx_cb s' = None \<and> \<not> pt_active s' \<and> \<not> pt_out_fd s' \<and> pt_mp s' = pt_mp s2"
    by (rule stop_ok [OF s2(2) assms(4,6)]) (use s2(3) st ab in \<open>simp_all add: pt_link_def\<close>)
  then obtain s3 v where s3: "pktrace_stop e s2 = Some s3" "trace_ok ?t v" "pt_ring v = Some []" "pt_ring s3 = Some []" "pt_file s3 = pt_file v" "pt_captured s3 = pt_captured v"
    "pt_dropped s3 = pt_dropped v" "pt_max_pkts v = n" "pt_held s3 = pt_held v" "pt_fds s3 = 0" "pt_nic s3 = []" "\<not> pt_active s3" "\<not> pt_out_fd s3" "pt_mp s3"
    using s2(3) st(2,11) by (auto simp: pt_link_def)
  from s3(2,3,8) have v: "pt_held v = 0" "unat (pt_captured v) = length (pt_file v)" "subseq (pt_file v) ?t" "n = 0 \<or> pt_captured v \<le> n" "n = 0 \<longrightarrow> pt_active v"
    "pt_active v \<longrightarrow> unat (pt_captured v) + unat (pt_dropped v) = length ?t" "\<not> pt_active v \<and> pt_dropped v = 0 \<longrightarrow> pt_file v = take (unat n) ?t"
    by (auto simp: trace_ok_def)
  have full: "pt_file v = (if n = 0 then ?t else take (unat n) ?t)" if "pt_dropped v = 0"
  proof (cases "pt_active v")
    case True
    then have "length (pt_file v) = length ?t" using v(2,6) that by simp
    from subseq_full [OF v(3) this] show ?thesis using v(2,4) by (auto simp: word_le_nat_alt)
  qed (use v(5,7) that in simp)
  have "trace_idle s3" using s3 v(1) by (simp add: trace_idle_def)
  moreover have "length (pt_file s3) = unat (pktrace_count s3)" "subseq (pt_file s3) ?t" "pt_held s3 = 0" using v(1-3) by (simp_all add: pktrace_count_def s3(5,6,9))
  moreover have "n = 0 \<or> length (pt_file s3) \<le> unat n" using v(2,4) unfolding s3(5) by (auto simp: word_le_nat_alt)
  moreover have "pt_dropped s3 \<noteq> 0 \<or> pt_file s3 = (if n = 0 then ?t else take (unat n) ?t)" using full unfolding s3(5,7) by blast
  moreover have "n \<noteq> 0 \<or> length (pt_file s3) + unat (pt_dropped s3) = length ?t" using v(2,5,6) unfolding s3(5,7) by auto
  ultimately show ?thesis using s2(1) s3(1) by blast
qed

text \<open>
  A capture that has reached its limit is inactive but its callbacks and its file are still there; starting the next one without stopping it leaves them behind.
\<close>

lemma restart_leaks:
  assumes "trace_ok seen s" "\<not> pt_active s" "pt_mp s" "pktrace_start e port queue n True s = Some (0, s')" "pe_errno e \<noteq> 0"
  shows "pt_fds s' = pt_fds s + 1" "length (pt_nic s') = length (pt_nic s) + 2"
proof -
  obtain q where q: "pt_ring s = Some q" using assms(1) by (auto simp: trace_ok_def)
  note d = pktrace_start_def ask_def drop_ring_def install_cbs_def add_cb_def
  have ok: "pe_open e (pt_calls s)" using assms(2-5) q by (auto simp: d Let_def split: if_splits)
  then have ok2: "pe_fdopen e (pt_calls s + 1)" using assms(2-4) q by (auto simp: d Let_def EIO_def split: if_splits)
  have ok3: "pe_callback e (Suc (Suc (pt_calls s))) \<and> pe_callback e (Suc (Suc (Suc (pt_calls s))))" using assms(2-4) q ok ok2
    by (auto simp: d Let_def EIO_def split: if_splits)
  show "pt_fds s' = pt_fds s + 1" "length (pt_nic s') = length (pt_nic s) + 2" using assms(2-4) q ok ok2 ok3 by (auto simp: d Let_def)
qed

subsection \<open>A capture of at most two packets\<close>

definition demo_tracer :: pktrace where
  "demo_tracer = \<lparr>pt_ring = Some [], pt_mp = True, pt_rx_cb = None, pt_tx_cb = None, pt_port = 0, pt_queue = 0, pt_max_pkts = 0, pt_active = False, pt_captured = 0, pt_dropped = 0,
     pt_writer = False, pt_out_fd = False, pt_written = 0, pt_streaming = False, pt_nic = [], pt_file = [], pt_held = 0, pt_fds = 0, pt_calls = 0\<rparr>"

definition demo_trace_env :: pktrace_env where
  "demo_trace_env = \<lparr>pe_ring = True, pe_pool = True, pe_copy = (\<lambda>_. True), pe_open = (\<lambda>_. True), pe_errno = 2, pe_fdopen = (\<lambda>_. True), pe_callback = (\<lambda>_. True), pe_write = (\<lambda>_. True)\<rparr>"

theorem trace_file_faithful_witness:
  "\<exists>s1 s2 s3. pktrace_start demo_trace_env 0 0 2 True demo_tracer = Some (0, s1) \<and> trace_run demo_trace_env [Rx_burst [[1], [2]], Flush_trace, Tx_burst [[3]]] s1 = Some s2 \<and>
    pktrace_stop demo_trace_env s2 = Some s3 \<and> length (pt_file s3) \<le> 2 \<and> trace_idle s3"
proof -
  have i: "trace_idle demo_tracer" by (simp add: trace_idle_def demo_tracer_def)
  have "\<exists>s1. pktrace_start demo_trace_env 0 0 2 True demo_tracer = Some (0, s1)"
    by (simp add: pktrace_start_def demo_tracer_def demo_trace_env_def ask_def drop_ring_def install_cbs_def add_cb_def Let_def)
  then obtain s1 where s1: "pktrace_start demo_trace_env 0 0 2 True demo_tracer = Some (0, s1)" by blast
  have "pe_errno demo_trace_env \<noteq> 0" "\<forall>k. pe_write demo_trace_env k" by (simp_all add: demo_trace_env_def)
  from trace_file_faithful [OF i s1 this, of "[Rx_burst [[1], [2]], Flush_trace, Tx_burst [[3]]]"] s1 show ?thesis
    by (auto simp: PKTRACE_BATCH_def simp del: trace_run.simps)
qed

end
