(* ===== verification/Cli.thy ===== *)
theory Cli
  imports MgmtFlowInv PktTrace
begin

text \<open>
  The command line, \<^verbatim>\<open>mgmt/cli.c\<close>: the words of a line, the commands that change state, and the dispatch.  What commands print is not modelled, and
  neither is the flushing of a packet trace while a command waits (\<open>PktTrace\<close> covers flushes at any time).
  Parameters are the parsers of addresses and the TLS library, the hash of the NIC, what the workers' generators show, and \<open>ce_clients\<close>, the
  commands of attached clients that run while a command waits.  \<open>cl_tls\<close> is the server context of the TLS library: the certificate and the key it
  was made from and the cipher list set afterwards.  \<open>me_poll\<close> of \<open>ce_mgmt\<close> is the wait for a neighbour.
\<close>

subsection \<open>State\<close>

record cli_state =
  cl_net :: net_mgmt
  cl_flows :: mgmt_flows
  cl_trace :: pktrace
  cl_pools :: "worker_pool option list"
  cl_hdrs :: "string list"
  cl_server_mode :: bool
  cl_srv_cfg :: srv_ipc_payload
  cl_srv_active :: bool
  cl_cert_path :: string
  cl_key_path :: string
  cl_tls :: "(string \<times> string \<times> string option) option"
  cl_polls :: nat

record cli_env =
  ce_mgmt :: mgmt_env
  ce_flow :: flow_env
  ce_trace :: pktrace_env
  ce_inet_pton :: "string \<Rightarrow> u32 option"
  ce_inet_pton6 :: "string \<Rightarrow> bytes option"
  ce_run :: "nat \<Rightarrow> bool"
  ce_isatty :: bool
  ce_n_rxq :: "nat \<Rightarrow> nat"
  ce_softrss :: "u32 list \<Rightarrow> u32"
  ce_reta_size :: nat
  ce_reta :: "(nat \<Rightarrow> nat) option"
  ce_gen_active :: "nat \<Rightarrow> nat \<Rightarrow> bool"
  ce_srv0 :: srv_table
  ce_tls_load :: "string \<Rightarrow> string \<Rightarrow> bool"
  ce_tls_ciphers :: "string \<Rightarrow> bool"
  ce_clients :: "cli_state \<Rightarrow> cli_state option"

definition MAX_ARGS :: nat where "MAX_ARGS = 32"
definition MAX_CMDS :: nat where "MAX_CMDS = 64"

subsection \<open>Words of a line\<close>

definition is_blank :: "char \<Rightarrow> bool" where
  "is_blank c \<longleftrightarrow> c = CHR '' '' \<or> c = CHR 0x09 \<or> c = CHR 0x0D \<or> c = CHR 0x0A"

text \<open>At most \<open>n\<close> words; a quoted word ends at its quote or at the end of the line.\<close>

fun tokens :: "nat \<Rightarrow> string \<Rightarrow> string list" where
  "tokens 0 line = []"
| "tokens (Suc n) line =
     (case dropWhile is_blank line of
        [] \<Rightarrow> []
      | c # p \<Rightarrow>
          if c = CHR 0x22 \<or> c = CHR 0x27
          then let w = takeWhile (\<lambda>x. x \<noteq> c) p in w # tokens n (drop (length w + 1) p)
          else let w = takeWhile (\<lambda>x. \<not> is_blank x) (c # p) in w # tokens n (drop (length w + 1) (c # p)))"

subsection \<open>Numbers\<close>

definition number :: "string \<Rightarrow> u64" where
  "number s = strtoul 10 (str s)"

text \<open>A number in decimal, as \<^verbatim>\<open>%u\<close> prints it.\<close>

definition dec :: "nat \<Rightarrow> string" where
  "dec n = map (\<lambda>b. char_of (unat b)) (digits 10 n)"

text \<open>\<^verbatim>\<open>strtol\<close> with its end pointer, as value and rest; without digits the rest is the whole text.\<close>

definition strtol_rest :: "string \<Rightarrow> int \<times> string" where
  "strtol_rest s =
     (let t = dropWhile is_space s; neg = (t \<noteq> [] \<and> hd t = CHR ''-'');
          t = (if t \<noteq> [] \<and> (hd t = CHR ''-'' \<or> hd t = CHR ''+'') then tl t else t); ds = takeWhile is_digit t
      in if ds = [] then (0, s)
         else (max (- (2 ^ 63)) (min (2 ^ 63 - 1) (if neg then - atoi_digits 0 ds else atoi_digits 0 ds)), drop (length ds) t))"

subsection \<open>Options of start\<close>

record start_args =
  sa_ip :: "string option"
  sa_proto :: string
  sa_url :: string
  sa_host :: "string option"
  sa_port :: u16
  sa_duration :: u32
  sa_rate :: u64
  sa_size :: u16
  sa_streams :: u32
  sa_ramp :: u32
  sa_txn_per_conn :: u32
  sa_think_time :: u32
  sa_reuse :: bool
  sa_tls :: bool
  sa_one :: bool
  sa_has_ip :: bool
  sa_has_port :: bool
  sa_has_duration :: bool
  sa_dscp :: u8
  sa_vlan_id :: u16
  sa_cc :: "string option"
  sa_src_ip_count :: u32
  sa_custom_hdrs :: string

definition start_defaults :: start_args where
  "start_defaults = \<lparr>sa_ip = None, sa_proto = ''tcp'', sa_url = ''/'', sa_host = None, sa_port = 0, sa_duration = 0, sa_rate = 0, sa_size = 56, sa_streams = 1, sa_ramp = 0,
     sa_txn_per_conn = 0, sa_think_time = 0, sa_reuse = False, sa_tls = False, sa_one = False, sa_has_ip = False, sa_has_port = False, sa_has_duration = False, sa_dscp = 0,
     sa_vlan_id = 0, sa_cc = None, sa_src_ip_count = 0, sa_custom_hdrs = []\<rparr>"

datatype start_flag = F_ip | F_port | F_duration | F_proto | F_rate | F_ramp | F_txn_per_conn | F_think_time | F_size | F_streams | F_url | F_host
  | F_dscp | F_vlan | F_cc | F_src_ip_count | F_header

definition start_flags :: "(string \<times> start_flag) list" where
  "start_flags = [(''--ip'', F_ip), (''--port'', F_port), (''--duration'', F_duration), (''--proto'', F_proto), (''--rate'', F_rate), (''--cps'', F_rate), (''--ramp'', F_ramp),
     (''--txn-per-conn'', F_txn_per_conn), (''--think-time'', F_think_time), (''--size'', F_size), (''--streams'', F_streams), (''--url'', F_url), (''--host'', F_host),
     (''--dscp'', F_dscp), (''--vlan'', F_vlan), (''--cc'', F_cc), (''--src-ip-count'', F_src_ip_count), (''--header'', F_header)]"

text \<open>An option with its value; \<open>None\<close> when the value is refused.  A header that does not fit is left out.\<close>

fun set_option :: "start_flag \<Rightarrow> string \<Rightarrow> start_args \<Rightarrow> start_args option" where
  "set_option F_ip v a = Some (a\<lparr>sa_ip := Some v, sa_has_ip := True\<rparr>)"
| "set_option F_port v a = Some (a\<lparr>sa_port := ucast (number v), sa_has_port := True\<rparr>)"
| "set_option F_duration v a = Some (a\<lparr>sa_duration := ucast (number v), sa_has_duration := True\<rparr>)"
| "set_option F_proto v a = Some (a\<lparr>sa_proto := v\<rparr>)"
| "set_option F_rate v a = Some (a\<lparr>sa_rate := number v\<rparr>)"
| "set_option F_ramp v a = Some (a\<lparr>sa_ramp := ucast (number v)\<rparr>)"
| "set_option F_txn_per_conn v a = Some (a\<lparr>sa_txn_per_conn := ucast (number v)\<rparr>)"
| "set_option F_think_time v a = Some (a\<lparr>sa_think_time := ucast (number v)\<rparr>)"
| "set_option F_size v a = Some (a\<lparr>sa_size := ucast (number v)\<rparr>)"
| "set_option F_streams v a = Some (a\<lparr>sa_streams := ucast (number v)\<rparr>)"
| "set_option F_url v a = Some (a\<lparr>sa_url := v\<rparr>)"
| "set_option F_host v a = Some (a\<lparr>sa_host := Some v\<rparr>)"
| "set_option F_dscp v a = (if (ucast (number v) :: u8) > 63 then None else Some (a\<lparr>sa_dscp := ucast (number v)\<rparr>))"
| "set_option F_vlan v a = (if (ucast (number v) :: u16) > 4094 then None else Some (a\<lparr>sa_vlan_id := ucast (number v)\<rparr>))"
| "set_option F_cc v a = Some (a\<lparr>sa_cc := Some v\<rparr>)"
| "set_option F_src_ip_count v a = Some (a\<lparr>sa_src_ip_count := ucast (number v)\<rparr>)"
| "set_option F_header v a =
     Some (if length (sa_custom_hdrs a) + length v + 2 < 512 then a\<lparr>sa_custom_hdrs := sa_custom_hdrs a @ v @ [CHR 0x0D, CHR 0x0A]\<rparr> else a)"

definition set_switch :: "string \<Rightarrow> start_args \<Rightarrow> start_args option" where
  "set_switch f a =
     (if f = ''--reuse'' then Some (a\<lparr>sa_reuse := True\<rparr>)
      else if f = ''--tls'' then Some (a\<lparr>sa_tls := True\<rparr>)
      else if f = ''--one'' then Some (a\<lparr>sa_one := True\<rparr>) else None)"

fun parse_options :: "string list \<Rightarrow> start_args \<Rightarrow> start_args option" where
  "parse_options [] a = Some a"
| "parse_options [f] a = set_switch f a"
| "parse_options (f # v # rest) a =
     (case map_of start_flags f of
        Some fl \<Rightarrow> set_option fl v a \<bind> parse_options rest
      | None \<Rightarrow> set_switch f a \<bind> parse_options (v # rest))"

definition parse_start_args :: "string list \<Rightarrow> start_args option" where
  "parse_start_args argv =
     do { a \<leftarrow> parse_options (tl argv) start_defaults;
          let a = (if sa_proto a = ''https'' \<or> sa_proto a = ''tls'' then a\<lparr>sa_tls := True\<rparr> else a)
          in Some (if sa_host a = None then a\<lparr>sa_host := sa_ip a\<rparr> else a) }"

definition start_resolve_proto :: "start_args \<Rightarrow> tx_gen_proto" where
  "start_resolve_proto a =
     (if sa_reuse a then TX_GEN_PROTO_THROUGHPUT
      else if sa_proto a = ''icmp'' then TX_GEN_PROTO_ICMP
      else if sa_proto a = ''udp'' then TX_GEN_PROTO_UDP
      else if sa_proto a = ''http'' \<or> sa_proto a = ''https'' then TX_GEN_PROTO_HTTP
      else TX_GEN_PROTO_TCP_SYN)"

text \<open>Required options and the rules for a single request.\<close>

definition check_start :: "start_args \<Rightarrow> start_args option" where
  "check_start a =
     (if \<not> sa_has_ip a \<or> \<not> sa_has_port a then None
      else
        do { a \<leftarrow> (if sa_one a then if sa_has_duration a \<or> sa_rate a \<noteq> 0 then None else Some (a\<lparr>sa_duration := 10, sa_rate := 1, sa_has_duration := True\<rparr>) else Some a);
             if \<not> sa_has_duration a \<or> sa_duration a = 0 then None else Some a })"

subsection \<open>Starting a flow\<close>

definition free_slot :: "mgmt_flows \<Rightarrow> nat option" where
  "free_slot s = find (\<lambda>i. \<not> tf_active (mf_flows s ! i)) [0 ..< TGEN_MAX_CLIENT_FLOWS]"

definition on_link :: "u32 \<Rightarrow> arp_port \<Rightarrow> bool" where
  "on_link dst a \<longleftrightarrow> arp_local_ip a \<noteq> 0 \<and> arp_netmask a \<noteq> 0 \<and> dst AND arp_netmask a = arp_local_ip a AND arp_netmask a"

definition egress_port :: "mgmt_env \<Rightarrow> net_mgmt \<Rightarrow> u32 \<Rightarrow> nat" where
  "egress_port e s dst =
     (case find (\<lambda>p. on_link dst (nm_arp s ! p)) [0 ..< me_n_ports e] of
        Some p \<Rightarrow> p
      | None \<Rightarrow> (case find (\<lambda>p. arp_gateway_ip (nm_arp s ! p) \<noteq> 0) [0 ..< me_n_ports e] of Some p \<Rightarrow> p | None \<Rightarrow> 0))"

definition clamp_streams :: "start_args \<Rightarrow> start_args" where
  "clamp_streams a = (let a = (if sa_streams a > 16 then a\<lparr>sa_streams := 16\<rparr> else a) in if sa_streams a = 0 then a\<lparr>sa_streams := 1\<rparr> else a)"

text \<open>The configuration for the generators; the host is set whenever an address is.\<close>

definition start_config :: "start_args \<Rightarrow> u32 \<Rightarrow> nat \<Rightarrow> bytes \<Rightarrow> arp_port \<Rightarrow> nat \<Rightarrow> tx_gen_config option" where
  "start_config a dst p mac arp k =
     (let proto = start_resolve_proto a; http = (proto = TX_GEN_PROTO_HTTP)
      in if http \<and> sa_host a = None then None
         else Some \<lparr>cfg_proto = proto, cfg_dst_ip = dst, cfg_src_ip = arp_local_ip arp, cfg_dst_mac = mac, cfg_src_mac = arp_local_mac arp, cfg_dst_port = sa_port a,
           cfg_src_port = 12345, cfg_pkt_size = sa_size a, cfg_port_id = word_of_nat p, cfg_rate_pps = sa_rate a, cfg_duration_s = sa_duration a,
           cfg_max_initiations = (if sa_one a then 1 else 0), cfg_enable_tls = sa_tls a, cfg_http_method = 0,
           cfg_throughput_streams = (if sa_reuse a then ucast (sa_streams a) else 0), cfg_ramp_s = sa_ramp a, cfg_txn_per_conn = sa_txn_per_conn a,
           cfg_think_time_us = sa_think_time a * 1000, cfg_http_url = (if http then str (take 63 (sa_url a)) else []),
           cfg_http_host = (if http then str (take 63 (the (sa_host a))) else []), cfg_flow_idx = word_of_nat k, cfg_dscp = sa_dscp a,
           cfg_cc_algo = (if sa_cc a = Some ''cubic'' then CC_CUBIC else CC_NEWRENO), cfg_vlan_id = sa_vlan_id a, cfg_src_ip_count = sa_src_ip_count a\<rparr>)"

text \<open>The first flow clears the counters and the pools; a flow with connections gives every worker the ports whose answers arrive at it.\<close>

definition prepare_pools :: "cli_env \<Rightarrow> tx_gen_config \<Rightarrow> nat \<Rightarrow> bool \<Rightarrow> worker_pool option list \<Rightarrow> worker_pool option list" where
  "prepare_pools e cfg p first_flow pools =
     (if cfg_proto cfg \<in> {TX_GEN_PROTO_TCP_SYN, TX_GEN_PROTO_HTTP, TX_GEN_PROTO_THROUGHPUT}
      then
        let n = num_workers (fe_cores (ce_flow e)); pools = (if first_flow then map (map_option tcp_port_pool_reset) (take n pools) @ drop n pools else pools)
        in tcp_port_pool_apply_rss_filter (ce_softrss e) (ce_reta_size e) (ce_reta e) (ce_n_rxq e p) n
             (bswap32 (cfg_src_ip cfg)) (bswap32 (cfg_dst_ip cfg)) (cfg_dst_port cfg) pools
      else pools)"

definition start_msg :: "flow_env \<Rightarrow> tx_gen_config \<Rightarrow> config_update" where
  "start_msg e cfg = (fe_msg e)\<lparr>cu_cmd := CFG_CMD_START, cu_seq := 1, cu_gen := cfg\<rparr>"

text \<open>To worker 0 alone for a single request, otherwise to all.\<close>

definition push_start :: "flow_env \<Rightarrow> bool \<Rightarrow> tx_gen_config \<Rightarrow> mgmt_flows \<Rightarrow> mgmt_flows option" where
  "push_start e one cfg s =
     (if one then do { (rc, i) \<leftarrow> tgen_ipc_send (fe_ipc e) 0 (start_msg e cfg) (mf_ipc s); Some (s\<lparr>mf_ipc := i\<rparr>) }
      else flow_broadcast e (start_msg e cfg) s)"

definition start_state :: "cli_env \<Rightarrow> start_args \<Rightarrow> nat \<Rightarrow> nat \<Rightarrow> traffic_gen_state" where
  "start_state e a p k =
     \<lparr>tf_active = False, tf_one_shot = sa_one a, tf_reuse = sa_reuse a, tf_is_tty = ce_isatty e, tf_start_tsc = 0, tf_stop_tsc = 0, tf_duration_s = sa_duration a,
      tf_n_workers = word_of_nat (num_workers (fe_cores (ce_flow e))), tf_port_id = word_of_nat p, tf_last_progress = 0, tf_proto = take 15 (sa_proto a),
      tf_streams = sa_streams a, tf_rate = sa_rate a, tf_size = sa_size a, tf_tls = sa_tls a, tf_flow_idx = word_of_nat k,
      tf_dst_ip_str = take 15 (case sa_ip a of None \<Rightarrow> [] | Some s \<Rightarrow> s), tf_dst_port = sa_port a\<rparr>"

text \<open>The wait for a single request: one round with the stop of a flow that is done or has timed out, and the loop.\<close>

definition one_round :: "cli_env \<Rightarrow> start_args \<Rightarrow> nat \<Rightarrow> u64 \<Rightarrow> cli_state \<Rightarrow> (u64 \<times> bool \<times> cli_state) option" where
  "one_round e a k chk s =
     do { n \<leftarrow> arp_mgmt_tick (ce_mgmt e) (cl_net s);
          n \<leftarrow> icmp_mgmt_tick (ce_mgmt e) n;
          s \<leftarrow> ce_clients e (s\<lparr>cl_net := n\<rparr>);
          let (now, f) = flow_rdtsc (cl_flows s); s = s\<lparr>cl_flows := f\<rparr>; cs = mf_flows f ! k; stop = mgmt_traffic_stop_flow (ce_flow e) (word_of_nat k)
          in if now - chk < fe_hz (ce_flow e) div 100 then Some (chk, False, s)
             else if fe_hz (ce_flow e) = 0 then None
             else if (now - tf_start_tsc cs) div fe_hz (ce_flow e) \<ge> ucast (tf_duration_s cs) then map_option (\<lambda>f. (now, True, s\<lparr>cl_flows := f\<rparr>)) (stop f)
             else if tf_one_shot cs then
               let (ms, f) = flow_snapshot (ce_flow e) (word_of_nat (num_workers (fe_cores (ce_flow e)))) f
               in if one_shot_done (sa_proto a) (snap_total ms) then map_option (\<lambda>f. (now, True, s\<lparr>cl_flows := f\<rparr>)) (stop f)
                  else Some (now, False, s\<lparr>cl_flows := f\<rparr>)
             else Some (now, False, s) }"

partial_function (option) one_wait :: "cli_env \<Rightarrow> start_args \<Rightarrow> nat \<Rightarrow> u64 \<Rightarrow> cli_state \<Rightarrow> cli_state option" where
  "one_wait e a k chk s =
     (if tf_active (mf_flows (cl_flows s) ! k) \<and> ce_run e (cl_polls s)
      then Option.bind (one_round e a k chk (s\<lparr>cl_polls := cl_polls s + 1\<rparr>))
             (\<lambda>r. if fst (snd r) then Some (snd (snd r)) else one_wait e a k (fst r) (snd (snd r)))
      else Some s)"

definition begin_flow :: "cli_env \<Rightarrow> start_args \<Rightarrow> tx_gen_config \<Rightarrow> nat \<Rightarrow> nat \<Rightarrow> cli_state \<Rightarrow> cli_state option" where
  "begin_flow e a cfg p k s =
     (let hdrs = (cl_hdrs s)[k := sa_custom_hdrs a]; first_flow = \<not> client_any_active (cl_flows s);
          f = (if first_flow then emit_event (Metrics_cleared (word_of_nat (num_workers (fe_cores (ce_flow e))))) (cl_flows s) else cl_flows s)
      in do { f \<leftarrow> push_start (ce_flow e) (sa_one a) cfg f;
              Some (s\<lparr>cl_hdrs := hdrs, cl_pools := prepare_pools e cfg p first_flow (cl_pools s), cl_flows := mgmt_traffic_start (start_state e a p k) f\<rparr>) })"

text \<open>The command before the wait of a single request; \<open>None\<close> as the flow when the command was refused.\<close>

definition start_flow :: "cli_env \<Rightarrow> string list \<Rightarrow> cli_state \<Rightarrow> ((start_args \<times> nat) option \<times> cli_state) option" where
  "start_flow e argv s =
     (if length argv < 2 then Some (None, s)
      else case parse_start_args argv \<bind> check_start of
             None \<Rightarrow> Some (None, s)
           | Some a \<Rightarrow>
               (case free_slot (cl_flows s) of
                  None \<Rightarrow> Some (None, s)
                | Some k \<Rightarrow>
                    (case sa_ip a \<bind> tgen_parse_ipv4 (ce_inet_pton e) of
                       None \<Rightarrow> Some (None, s)
                     | Some dst \<Rightarrow>
                         let p = egress_port (ce_mgmt e) (cl_net s) dst; a = clamp_streams a; nexthop = arp_nexthop (nm_arp (cl_net s)) (word_of_nat p) dst
                         in do { n \<leftarrow> ping_resolve (ce_mgmt e) p nexthop (cl_net s);
                                 let s = s\<lparr>cl_net := n\<rparr>
                                 in case arp_look p n nexthop of
                                      None \<Rightarrow> Some (None, s)
                                    | Some mac \<Rightarrow>
                                        do { cfg \<leftarrow> start_config a dst p mac (nm_arp n ! p) k;
                                             s \<leftarrow> begin_flow e a cfg p k s;
                                             Some (Some (a, k), s) } })))"

definition cli_start :: "cli_env \<Rightarrow> string list \<Rightarrow> cli_state \<Rightarrow> cli_state option" where
  "cli_start e argv s =
     do { (r, s) \<leftarrow> start_flow e argv s;
          case r of
            Some (a, k) \<Rightarrow>
              if sa_one a then let (t, f) = flow_rdtsc (cl_flows s) in one_wait e a k (t - fe_hz (ce_flow e) div 100) (s\<lparr>cl_flows := f\<rparr>) else Some s
          | None \<Rightarrow> Some s }"

subsection \<open>Stopping, resetting, setting\<close>

definition with_flows :: "(mgmt_flows \<Rightarrow> mgmt_flows option) \<Rightarrow> cli_state \<Rightarrow> cli_state option" where
  "with_flows g s = map_option (\<lambda>f. s\<lparr>cl_flows := f\<rparr>) (g (cl_flows s))"

definition cli_stop_client :: "cli_env \<Rightarrow> string list \<Rightarrow> cli_state \<Rightarrow> cli_state option" where
  "cli_stop_client e argv s =
     (let stop_all = (if \<not> client_any_active (cl_flows s) then Some s else with_flows (mgmt_traffic_stop_all (ce_flow e)) s)
      in case argv of
           _ # w # _ \<Rightarrow>
             if w = ''all'' then stop_all
             else
               let (idx, rest) = strtol_rest w
               in if rest = [] \<and> 0 \<le> idx \<and> idx < int TGEN_MAX_CLIENT_FLOWS
                  then if \<not> tf_active (mf_flows (cl_flows s) ! nat idx) then Some s
                       else with_flows (mgmt_traffic_stop_flow (ce_flow e) (word_of_int idx)) s
                  else Some s
         | _ \<Rightarrow> stop_all)"

definition cli_reset :: "cli_env \<Rightarrow> cli_state \<Rightarrow> cli_state option" where
  "cli_reset e s =
     (let n = num_workers (fe_cores (ce_flow e))
      in if list_ex (\<lambda>w. list_ex (ce_gen_active e w) [0 ..< TGEN_MAX_CLIENT_FLOWS]) [0 ..< n] then Some s
         else with_flows (\<lambda>f. do { f \<leftarrow> flow_broadcast (ce_flow e) (reset_msg (ce_flow e)) f;
                                   f \<leftarrow> mgmt_delay_ms_flush (ce_flow e) 300 f;
                                   Some (emit_event (Metrics_cleared (word_of_nat n)) f) }) s)"

definition rate_msg :: "flow_env \<Rightarrow> u64 \<Rightarrow> config_update" where
  "rate_msg e r = (fe_msg e)\<lparr>cu_cmd := CFG_CMD_SET_RATE, cu_seq := 0, cu_rate := r\<rparr>"

definition set_ip :: "nat \<Rightarrow> u32 \<Rightarrow> u32 \<Rightarrow> u32 \<Rightarrow> net_mgmt \<Rightarrow> net_mgmt" where
  "set_ip p ip gw netm s = s\<lparr>nm_arp := (nm_arp s)[p := (nm_arp s ! p)\<lparr>arp_local_ip := ip, arp_gateway_ip := gw, arp_netmask := netm\<rparr>]\<rparr>"

definition cli_set :: "cli_env \<Rightarrow> string list \<Rightarrow> cli_state \<Rightarrow> cli_state option" where
  "cli_set e argv s =
     (if length argv < 2 then Some s
      else if argv ! 1 = ''rate'' then
        if length argv < 3 then Some s else with_flows (flow_broadcast (ce_flow e) (rate_msg (ce_flow e) (number (argv ! 2)))) s
      else if argv ! 1 \<noteq> ''ip'' \<or> length argv < 6 then Some s
      else
        let p = unat (ucast (number (argv ! 2)) :: u16)
        in if p \<ge> me_n_ports (ce_mgmt e) then Some s
           else case (tgen_parse_ipv4 (ce_inet_pton e) (argv ! 3), tgen_parse_ipv4 (ce_inet_pton e) (argv ! 4), tgen_parse_ipv4 (ce_inet_pton e) (argv ! 5)) of
                  (Some ip, Some gw, Some netm) \<Rightarrow>
                    if gw \<noteq> 0 \<and> ip AND netm \<noteq> gw AND netm then Some s else Some (s\<lparr>cl_net := set_ip p ip gw netm (cl_net s)\<rparr>)
                | _ \<Rightarrow> Some s)"

subsection \<open>Server mode\<close>

definition strtok :: "string \<Rightarrow> (string \<times> string) option" where
  "strtok s = (let s = dropWhile (\<lambda>c. c = CHR '':'') s; w = takeWhile (\<lambda>c. c \<noteq> CHR '':'') s in if w = [] then None else Some (w, drop (length w + 1) s))"

definition tcp_handler :: "string option \<Rightarrow> srv_handler option" where
  "tcp_handler h =
     (if h = None \<or> h = Some ''echo'' then Some SRV_HANDLER_ECHO
      else if h = Some ''discard'' then Some SRV_HANDLER_DISCARD
      else if h = Some ''chargen'' then Some SRV_HANDLER_CHARGEN else None)"

definition handler_of :: "string \<Rightarrow> string option \<Rightarrow> srv_handler option" where
  "handler_of proto h =
     (if proto = ''tcp'' then tcp_handler h
      else if proto = ''http'' then Some SRV_HANDLER_HTTP
      else if proto = ''https'' then Some SRV_HANDLER_HTTPS
      else if proto = ''tls'' then if h = None \<or> h = Some ''echo'' then Some SRV_HANDLER_TLS_ECHO else None
      else None)"

definition parse_listen_spec :: "string \<Rightarrow> srv_listen_spec option" where
  "parse_listen_spec spec =
     do { (proto, r) \<leftarrow> strtok (take 127 spec);
          (port, r) \<leftarrow> strtok r;
          let n = (word_of_int (atoi port) :: u16)
          in if n = 0 then None else map_option (\<lambda>h. \<lparr>ls_port = n, ls_handler = h\<rparr>) (handler_of proto (map_option fst (strtok r))) }"

text \<open>The text that \<^verbatim>\<open>show listeners\<close> prints for a listener.\<close>

definition listener_spec :: "srv_listen_spec \<Rightarrow> string" where
  "listener_spec l =
     (let h = ls_handler l;
          proto = (if h = SRV_HANDLER_HTTP then ''http'' else if h = SRV_HANDLER_HTTPS then ''https'' else if h = SRV_HANDLER_TLS_ECHO then ''tls'' else ''tcp'')
      in take 31 (if h = SRV_HANDLER_HTTP \<or> h = SRV_HANDLER_HTTPS then proto @ '':'' @ dec (unat (ls_port l))
                  else proto @ '':'' @ dec (unat (ls_port l)) @ '':'' @ srv_handler_name h))"

definition srv_zero :: srv_ipc_payload where
  "srv_zero = \<lparr>sp_specs = replicate SRV_MAX_LISTENERS \<lparr>ls_port = 0, ls_handler = SRV_HANDLER_NONE\<rparr>, sp_count = 0, sp_http_body_size = 1024\<rparr>"

record serve_args =
  sv_cfg :: srv_ipc_payload
  sv_cert :: "string option"
  sv_key :: "string option"
  sv_ciphers :: "string option"

definition add_listener :: "string \<Rightarrow> serve_args \<Rightarrow> serve_args option" where
  "add_listener spec a =
     (let c = sv_cfg a
      in if unat (sp_count c) \<ge> SRV_MAX_LISTENERS then None
         else map_option (\<lambda>l. a\<lparr>sv_cfg := c\<lparr>sp_specs := (sp_specs c)[unat (sp_count c) := l], sp_count := sp_count c + 1\<rparr>\<rparr>) (parse_listen_spec spec))"

fun parse_serve :: "string list \<Rightarrow> serve_args \<Rightarrow> serve_args option" where
  "parse_serve [] a = Some a"
| "parse_serve [f] a = None"
| "parse_serve (f # v # rest) a =
     (if f = ''--listen'' then add_listener v a \<bind> parse_serve rest
      else if f = ''--tls-cert'' then parse_serve rest (a\<lparr>sv_cert := Some v\<rparr>)
      else if f = ''--tls-key'' then parse_serve rest (a\<lparr>sv_key := Some v\<rparr>)
      else if f = ''--ciphers'' then parse_serve rest (a\<lparr>sv_ciphers := Some v\<rparr>)
      else if f = ''--http-body-size'' then parse_serve rest (a\<lparr>sv_cfg := (sv_cfg a)\<lparr>sp_http_body_size := word_of_int (atoi v)\<rparr>\<rparr>)
      else None)"

definition needs_tls :: "srv_ipc_payload \<Rightarrow> bool" where
  "needs_tls c = list_ex (\<lambda>l. ls_handler l = SRV_HANDLER_HTTPS \<or> ls_handler l = SRV_HANDLER_TLS_ECHO) (take (unat (sp_count c)) (sp_specs c))"

definition serve_msg :: "flow_env \<Rightarrow> srv_ipc_payload \<Rightarrow> config_update" where
  "serve_msg e c = (fe_msg e)\<lparr>cu_cmd := CFG_CMD_SERVE, cu_seq := 0, cu_srv := c\<rparr>"

text \<open>The old context is gone before the new certificate and key are tried; an unusable cipher list leaves the new context in place.\<close>

definition tls_server_ctx_load :: "cli_env \<Rightarrow> string \<Rightarrow> string \<Rightarrow> cli_state \<Rightarrow> bool \<times> cli_state" where
  "tls_server_ctx_load e cert_pem key_pem s =
     (let s = s\<lparr>cl_tls := None\<rparr> in if ce_tls_load e cert_pem key_pem then (True, s\<lparr>cl_tls := Some (cert_pem, key_pem, None)\<rparr>) else (False, s))"

definition tls_server_ctx_set_ciphers :: "cli_env \<Rightarrow> string \<Rightarrow> cli_state \<Rightarrow> bool \<times> cli_state" where
  "tls_server_ctx_set_ciphers e cipher_list s =
     (case cl_tls s of
        None \<Rightarrow> (False, s)
      | Some (cert, key, _) \<Rightarrow> if ce_tls_ciphers e cipher_list then (True, s\<lparr>cl_tls := Some (cert, key, Some cipher_list)\<rparr>) else (False, s))"

definition load_tls :: "cli_env \<Rightarrow> serve_args \<Rightarrow> cli_state \<Rightarrow> bool \<times> cli_state" where
  "load_tls e a s =
     (case (sv_cert a, sv_key a) of
        (Some cert, Some key) \<Rightarrow>
          let (ok, s) = tls_server_ctx_load e cert key s
          in if \<not> ok then (False, s) else (case sv_ciphers a of None \<Rightarrow> (True, s) | Some x \<Rightarrow> tls_server_ctx_set_ciphers e x s)
      | _ \<Rightarrow> (False, s))"

definition store_paths :: "serve_args \<Rightarrow> cli_state \<Rightarrow> cli_state" where
  "store_paths a s =
     (let s = (case sv_cert a of None \<Rightarrow> s | Some p \<Rightarrow> s\<lparr>cl_cert_path := take 255 p\<rparr>)
      in case sv_key a of None \<Rightarrow> s | Some p \<Rightarrow> s\<lparr>cl_key_path := take 255 p\<rparr>)"

definition cli_serve :: "cli_env \<Rightarrow> string list \<Rightarrow> cli_state \<Rightarrow> cli_state option" where
  "cli_serve e argv s =
     (if \<not> cl_server_mode s then Some s
      else case parse_serve (tl argv) \<lparr>sv_cfg = srv_zero, sv_cert = None, sv_key = None, sv_ciphers = None\<rparr> of
             None \<Rightarrow> Some s
           | Some a \<Rightarrow>
               let c = sv_cfg a
               in if sp_count c = 0 then Some s
                  else if needs_tls c \<and> (sv_cert a = None \<or> sv_key a = None) then Some s
                  else
                    let s = store_paths a s; (ok, s) = (if needs_tls c then load_tls e a s else (True, s))
                    in if \<not> ok then Some s
                       else with_flows (flow_broadcast (ce_flow e) (serve_msg (ce_flow e) c)) (s\<lparr>cl_srv_cfg := c, cl_srv_active := True\<rparr>))"

definition stop_listener_msg :: "flow_env \<Rightarrow> u32 \<Rightarrow> config_update" where
  "stop_listener_msg e i = (fe_msg e)\<lparr>cu_cmd := CFG_CMD_STOP_LISTENER, cu_seq := 0, cu_index := i\<rparr>"

definition stop_listener :: "cli_env \<Rightarrow> u32 \<Rightarrow> cli_state \<Rightarrow> cli_state option" where
  "stop_listener e i s = with_flows (flow_broadcast (ce_flow e) (stop_listener_msg (ce_flow e) i)) s"

definition cli_stop_server :: "cli_env \<Rightarrow> string list \<Rightarrow> cli_state \<Rightarrow> cli_state option" where
  "cli_stop_server e argv s =
     (let stop_all = map_option (\<lambda>s. s\<lparr>cl_srv_active := False\<rparr>) (stop_listener e (-1) s)
      in case argv of
           _ # w # _ \<Rightarrow>
             if w = ''all'' then stop_all
             else
               let (idx, rest) = strtol_rest w
               in if rest = [] \<and> 0 \<le> idx then stop_listener e (word_of_int idx) s
                  else case parse_listen_spec w of
                         None \<Rightarrow> Some s
                       | Some l \<Rightarrow> (case srv_find_listener (ls_port l) (ce_srv0 e) of None \<Rightarrow> Some s | Some i \<Rightarrow> stop_listener e (word_of_nat i) s)
         | _ \<Rightarrow> stop_all)"

definition cli_stop :: "cli_env \<Rightarrow> string list \<Rightarrow> cli_state \<Rightarrow> cli_state option" where
  "cli_stop e argv s = (if cl_server_mode s then cli_stop_server e argv s else cli_stop_client e argv s)"

subsection \<open>Traces and pings\<close>

definition cli_trace :: "cli_env \<Rightarrow> string list \<Rightarrow> cli_state \<Rightarrow> cli_state option" where
  "cli_trace e argv s =
     (let arg16 = (\<lambda>i. if i < length argv then ucast (number (argv ! i)) else 0 :: u16)
      in if length argv < 2 then Some s
         else if argv ! 1 = ''start''
         then if length argv < 3 then Some s
              else map_option (\<lambda>(rc, t). s\<lparr>cl_trace := t\<rparr>) (pktrace_start (ce_trace e) (arg16 3) (arg16 4) 0 True (cl_trace s))
         else if argv ! 1 = ''stop''
         then if \<not> pktrace_is_active (cl_trace s) then Some s else map_option (\<lambda>t. s\<lparr>cl_trace := t\<rparr>) (pktrace_stop (ce_trace e) (cl_trace s))
         else Some s)"

text \<open>During a ping the commands of attached clients may change the rest of the state.\<close>

definition cli_ping :: "cli_env \<Rightarrow> string list \<Rightarrow> cli_state \<Rightarrow> cli_state option" where
  "cli_ping e argv s =
     (let arg = (\<lambda>i d. if i < length argv then ucast (number (argv ! i)) else d :: u32); p = (if 5 < length argv then ucast (number (argv ! 5)) else 0 :: u16);
          run = (\<lambda>f. if unat p \<ge> me_n_ports (ce_mgmt e) then Some s
                     else do { (rc, n) \<leftarrow> f (ce_mgmt e) (unat p) (cl_net s); s \<leftarrow> ce_clients e s; Some (s\<lparr>cl_net := n\<rparr>) })
      in if cl_server_mode s \<or> length argv < 2 then Some s
         else if tgen_is_ipv6 (Some (argv ! 1))
         then case ce_inet_pton6 e (argv ! 1) of
                None \<Rightarrow> Some s
              | Some ip \<Rightarrow> run (\<lambda>m p. icmpv6_ping_start m p ip (arg 2 5) (arg 3 56) (arg 4 1000))
         else case tgen_parse_ipv4 (ce_inet_pton e) (argv ! 1) of
                None \<Rightarrow> Some s
              | Some ip \<Rightarrow> run (\<lambda>m p. icmp_ping_start m p ip (arg 2 5) (arg 3 56) (arg 4 1000)))"

subsection \<open>Dispatch\<close>

type_synonym command = "string list \<Rightarrow> cli_state \<Rightarrow> cli_state option"

definition cli_register :: "string \<times> command \<Rightarrow> (string \<times> command) list \<Rightarrow> (string \<times> command) list" where
  "cli_register c cmds = (if length cmds \<ge> MAX_CMDS then cmds else cmds @ [(take 63 (fst c), snd c)])"

text \<open>The commands in the order of their registration; those that only print leave the state.\<close>

definition builtins :: "cli_env \<Rightarrow> (string \<times> command) list" where
  "builtins e =
     fold cli_register
       [(''help'', \<lambda>_. Some), (''stat'', \<lambda>_. Some), (''stats'', \<lambda>_. Some), (''ping'', cli_ping e),
        (''start'', \<lambda>argv s. if cl_server_mode s then Some s else cli_start e argv s), (''stop'', cli_stop e), (''reset'', \<lambda>_. cli_reset e), (''trace'', cli_trace e),
        (''show'', \<lambda>_. Some), (''set'', cli_set e), (''serve'', cli_serve e)] []"

definition dispatch :: "(string \<times> command) list \<Rightarrow> string \<Rightarrow> cli_state \<Rightarrow> cli_state option" where
  "dispatch cmds line s =
     (case tokens MAX_ARGS line of
        [] \<Rightarrow> Some s
      | name # args \<Rightarrow> (case find (\<lambda>c. fst c = name) cmds of None \<Rightarrow> Some s | Some c \<Rightarrow> snd c (name # args) s))"

end
