(* ===== verification/CliInv.thy ===== *)
theory CliInv
  imports Cli
begin

text \<open>
  Correctness of the command line: what a user writes is what the command receives, a flow is started completely or not at all, and workers are sent only
  commands they can serve.
\<close>

subsection \<open>Words\<close>

text \<open>An argument in quotes, of the kind that does not occur in it.\<close>

definition quotable :: "string \<Rightarrow> bool" where
  "quotable w \<longleftrightarrow> CHR 0x22 \<notin> set w \<or> CHR 0x27 \<notin> set w"

definition quoted :: "string \<Rightarrow> string" where
  "quoted w = (let q = (if CHR 0x22 \<in> set w then CHR 0x27 else CHR 0x22) in q # w @ [q, CHR '' ''])"

lemma tokens_blank: "tokens n (CHR '' '' # s) = tokens n s"
  by (cases n) (simp_all add: is_blank_def)

lemma tokens_quoted: "quotable w \<Longrightarrow> tokens (Suc n) (quoted w @ s) = w # tokens n s"
proof -
  assume w: "quotable w"
  have t: "takeWhile (\<lambda>x. x \<noteq> q) (w @ q # r) = w" if "q \<notin> set w" for q r using that by (induction w) auto
  show ?thesis
  proof (cases "CHR 0x22 \<in> set w")
    case True
    then have "CHR 0x27 \<notin> set w" using w by (simp add: quotable_def)
    from t [OF this, of "CHR '' '' # s"] True show ?thesis by (simp add: quoted_def is_blank_def Let_def tokens_blank)
  next
    case False
    from t [OF this, of "CHR '' '' # s"] False show ?thesis by (simp add: quoted_def is_blank_def Let_def tokens_blank)
  qed
qed

text \<open>Words beyond the array are dropped.\<close>

lemma tokens_line: "list_all quotable ws \<Longrightarrow> tokens n (concat (map quoted ws)) = take n ws"
proof (induction ws arbitrary: n)
  case Nil
  then show ?case by (cases n) simp_all
next
  case (Cons w ws)
  then show ?case using tokens_quoted [of w] by (cases n) (simp_all del: tokens.simps(2))
qed

subsection \<open>Numbers\<close>

lemma of_char_byte: "of_char (char_of (unat b) :: char) = unat (b :: u8)"
  using unat_lt_u8 [of b] by (simp add: of_char_of)

lemma str_char: "str (map (\<lambda>b. char_of (unat b)) bs) = bs"
proof -
  have "of_char (char_of (unat b) :: char) = b" for b :: u8
  proof -
    have "of_char (char_of (unat b) :: char) = (of_nat (of_char (char_of (unat b) :: char)) :: u8)" by (simp only: of_nat_of_char)
    then show ?thesis unfolding of_char_byte by simp
  qed
  then show ?thesis by (simp add: str_def comp_def)
qed

lemma number_dec: "n < 2 ^ 64 \<Longrightarrow> number (dec n) = word_of_nat n"
  using strtoul_digits [of 10 n "[]"] by (simp add: number_def dec_def str_char)

lemma number_u64: "number (dec (unat (x :: u64))) = x"
  using unat_lt_u64 [of x] by (simp add: number_dec)

lemma number_ucast:
  "ucast (number (dec (unat (x :: u8)))) = x" "ucast (number (dec (unat (y :: u16)))) = y" "ucast (number (dec (unat (z :: u32)))) = z"
proof -
  have "number (dec (unat x)) = ucast x" "number (dec (unat y)) = ucast y" "number (dec (unat z)) = ucast z"
    using unat_lt_u8 [of x] unat_lt_u16 [of y] unat_lt_u32 [of z] by (simp_all add: number_dec)
  then show "ucast (number (dec (unat x))) = x" "ucast (number (dec (unat y))) = y" "ucast (number (dec (unat z))) = z"
    by (simp_all only:) (rule bit_word_eqI, simp add: bit_ucast_iff)+
qed

lemma quotable_dec: "quotable (dec n)"
proof -
  have "char_of (unat b) \<noteq> CHR 0x22" if "digit_val 10 b \<noteq> None" for b
  proof
    assume "char_of (unat b) = CHR 0x22"
    then have "unat b = of_char CHR 0x22" using of_char_byte [of b] by simp
    then have "b = 34" by (simp add: word_unat_eq_iff)
    then show False using that by (simp add: digit_val_def)
  qed
  then have "CHR 0x22 \<notin> set (dec n)" using digits_nonspace(1) [of 10 n] unfolding dec_def set_map by (fastforce simp: image_iff)
  then show ?thesis by (simp add: quotable_def)
qed

subsection \<open>Options\<close>

text \<open>The options that ask for \<open>a\<close>, with the custom headers \<open>hs\<close>.\<close>

definition show_options :: "start_args \<Rightarrow> string list \<Rightarrow> string list" where
  "show_options a hs =
     (case sa_ip a of None \<Rightarrow> [] | Some v \<Rightarrow> [''--ip'', v]) @
     (if sa_has_port a then [''--port'', dec (unat (sa_port a))] else []) @
     (if sa_has_duration a then [''--duration'', dec (unat (sa_duration a))] else []) @
     (if sa_proto a \<noteq> ''tcp'' then [''--proto'', sa_proto a] else []) @
     (if sa_rate a \<noteq> 0 then [''--rate'', dec (unat (sa_rate a))] else []) @
     (if sa_ramp a \<noteq> 0 then [''--ramp'', dec (unat (sa_ramp a))] else []) @
     (if sa_txn_per_conn a \<noteq> 0 then [''--txn-per-conn'', dec (unat (sa_txn_per_conn a))] else []) @
     (if sa_think_time a \<noteq> 0 then [''--think-time'', dec (unat (sa_think_time a))] else []) @
     (if sa_size a \<noteq> 56 then [''--size'', dec (unat (sa_size a))] else []) @
     (if sa_streams a \<noteq> 1 then [''--streams'', dec (unat (sa_streams a))] else []) @
     (if sa_url a \<noteq> ''/'' then [''--url'', sa_url a] else []) @
     (case sa_host a of None \<Rightarrow> [] | Some v \<Rightarrow> if sa_host a = sa_ip a then [] else [''--host'', v]) @
     (if sa_reuse a then [''--reuse''] else []) @
     (if sa_tls a then [''--tls''] else []) @
     (if sa_one a then [''--one''] else []) @
     (if sa_dscp a \<noteq> 0 then [''--dscp'', dec (unat (sa_dscp a))] else []) @
     (if sa_vlan_id a \<noteq> 0 then [''--vlan'', dec (unat (sa_vlan_id a))] else []) @
     (case sa_cc a of None \<Rightarrow> [] | Some v \<Rightarrow> [''--cc'', v]) @
     (if sa_src_ip_count a \<noteq> 0 then [''--src-ip-count'', dec (unat (sa_src_ip_count a))] else []) @
     concat (map (\<lambda>h. [''--header'', h]) hs)"

definition header_text :: "string list \<Rightarrow> string" where
  "header_text hs = concat (map (\<lambda>h. h @ [CHR 0x0D, CHR 0x0A]) hs)"

text \<open>What the options can express: unset numbers are zero, a host without an address is not defaulted, TLS goes with its protocols.\<close>

definition args_ok :: "start_args \<Rightarrow> string list \<Rightarrow> bool" where
  "args_ok a hs \<longleftrightarrow> sa_has_ip a = (sa_ip a \<noteq> None) \<and> (sa_has_port a \<or> sa_port a = 0) \<and> (sa_has_duration a \<or> sa_duration a = 0) \<and>
     (sa_host a \<noteq> None \<or> sa_ip a = None) \<and> (sa_tls a \<or> sa_proto a \<notin> {''https'', ''tls''}) \<and> sa_dscp a \<le> 63 \<and> sa_vlan_id a \<le> 4094 \<and>
     sa_custom_hdrs a = header_text hs \<and> length (header_text hs) < 512"

lemma parse_switch: "map_of start_flags f = None \<Longrightarrow> parse_options (f # rest) a = set_switch f a \<bind> parse_options rest"
  by (cases rest) (simp_all, simp split: Option.bind_split)

lemma switch_flags [simp]: "map_of start_flags ''--reuse'' = None" "map_of start_flags ''--tls'' = None" "map_of start_flags ''--one'' = None"
  by (simp_all add: start_flags_def)

lemma value_flags [simp]:
  "map_of start_flags ''--ip'' = Some F_ip" "map_of start_flags ''--port'' = Some F_port" "map_of start_flags ''--duration'' = Some F_duration"
  "map_of start_flags ''--proto'' = Some F_proto" "map_of start_flags ''--rate'' = Some F_rate" "map_of start_flags ''--ramp'' = Some F_ramp"
  "map_of start_flags ''--txn-per-conn'' = Some F_txn_per_conn" "map_of start_flags ''--think-time'' = Some F_think_time" "map_of start_flags ''--size'' = Some F_size"
  "map_of start_flags ''--streams'' = Some F_streams" "map_of start_flags ''--url'' = Some F_url" "map_of start_flags ''--host'' = Some F_host"
  "map_of start_flags ''--dscp'' = Some F_dscp" "map_of start_flags ''--vlan'' = Some F_vlan" "map_of start_flags ''--cc'' = Some F_cc"
  "map_of start_flags ''--src-ip-count'' = Some F_src_ip_count" "map_of start_flags ''--header'' = Some F_header"
  by (simp_all add: start_flags_def)

lemma parse_headers:
  "length (sa_custom_hdrs b) + length (header_text hs) < 512 \<Longrightarrow>
   parse_options (concat (map (\<lambda>h. [''--header'', h]) hs)) b = Some (b\<lparr>sa_custom_hdrs := sa_custom_hdrs b @ header_text hs\<rparr>)"
  by (induction hs arbitrary: b) (simp_all add: header_text_def)

text \<open>Each group of words sets its field to the value in \<open>a\<close>, when the field still has its default.\<close>

lemma parse_groups:
  "sa_ip x = None \<Longrightarrow> \<not> sa_has_ip x \<Longrightarrow> parse_options ((case sa_ip a of None \<Rightarrow> [] | Some v \<Rightarrow> [''--ip'', v]) @ rest) x = parse_options rest (x\<lparr>sa_ip := sa_ip a, sa_has_ip := (sa_ip a \<noteq> None)\<rparr>)"
  "sa_has_port a \<or> sa_port a = 0 \<Longrightarrow> sa_port x = 0 \<Longrightarrow> \<not> sa_has_port x \<Longrightarrow> parse_options ((if sa_has_port a then [''--port'', dec (unat (sa_port a))] else []) @ rest) x = parse_options rest (x\<lparr>sa_port := sa_port a, sa_has_port := sa_has_port a\<rparr>)"
  "sa_has_duration a \<or> sa_duration a = 0 \<Longrightarrow> sa_duration x = 0 \<Longrightarrow> \<not> sa_has_duration x \<Longrightarrow> parse_options ((if sa_has_duration a then [''--duration'', dec (unat (sa_duration a))] else []) @ rest) x = parse_options rest (x\<lparr>sa_duration := sa_duration a, sa_has_duration := sa_has_duration a\<rparr>)"
  "sa_proto x = ''tcp'' \<Longrightarrow> parse_options ((if sa_proto a \<noteq> ''tcp'' then [''--proto'', sa_proto a] else []) @ rest) x = parse_options rest (x\<lparr>sa_proto := sa_proto a\<rparr>)"
  "sa_rate x = 0 \<Longrightarrow> parse_options ((if sa_rate a \<noteq> 0 then [''--rate'', dec (unat (sa_rate a))] else []) @ rest) x = parse_options rest (x\<lparr>sa_rate := sa_rate a\<rparr>)"
  "sa_ramp x = 0 \<Longrightarrow> parse_options ((if sa_ramp a \<noteq> 0 then [''--ramp'', dec (unat (sa_ramp a))] else []) @ rest) x = parse_options rest (x\<lparr>sa_ramp := sa_ramp a\<rparr>)"
  "sa_txn_per_conn x = 0 \<Longrightarrow> parse_options ((if sa_txn_per_conn a \<noteq> 0 then [''--txn-per-conn'', dec (unat (sa_txn_per_conn a))] else []) @ rest) x = parse_options rest (x\<lparr>sa_txn_per_conn := sa_txn_per_conn a\<rparr>)"
  "sa_think_time x = 0 \<Longrightarrow> parse_options ((if sa_think_time a \<noteq> 0 then [''--think-time'', dec (unat (sa_think_time a))] else []) @ rest) x = parse_options rest (x\<lparr>sa_think_time := sa_think_time a\<rparr>)"
  "sa_size x = 56 \<Longrightarrow> parse_options ((if sa_size a \<noteq> 56 then [''--size'', dec (unat (sa_size a))] else []) @ rest) x = parse_options rest (x\<lparr>sa_size := sa_size a\<rparr>)"
  "sa_streams x = 1 \<Longrightarrow> parse_options ((if sa_streams a \<noteq> 1 then [''--streams'', dec (unat (sa_streams a))] else []) @ rest) x = parse_options rest (x\<lparr>sa_streams := sa_streams a\<rparr>)"
  "sa_url x = ''/'' \<Longrightarrow> parse_options ((if sa_url a \<noteq> ''/'' then [''--url'', sa_url a] else []) @ rest) x = parse_options rest (x\<lparr>sa_url := sa_url a\<rparr>)"
  "sa_host x = None \<Longrightarrow> parse_options ((case sa_host a of None \<Rightarrow> [] | Some v \<Rightarrow> if sa_host a = sa_ip a then [] else [''--host'', v]) @ rest) x = parse_options rest (x\<lparr>sa_host := (if sa_host a = sa_ip a then None else sa_host a)\<rparr>)"
  "\<not> sa_reuse x \<Longrightarrow> parse_options ((if sa_reuse a then [''--reuse''] else []) @ rest) x = parse_options rest (x\<lparr>sa_reuse := sa_reuse a\<rparr>)"
  "\<not> sa_tls x \<Longrightarrow> parse_options ((if sa_tls a then [''--tls''] else []) @ rest) x = parse_options rest (x\<lparr>sa_tls := sa_tls a\<rparr>)"
  "\<not> sa_one x \<Longrightarrow> parse_options ((if sa_one a then [''--one''] else []) @ rest) x = parse_options rest (x\<lparr>sa_one := sa_one a\<rparr>)"
  "sa_dscp a \<le> 63 \<Longrightarrow> sa_dscp x = 0 \<Longrightarrow> parse_options ((if sa_dscp a \<noteq> 0 then [''--dscp'', dec (unat (sa_dscp a))] else []) @ rest) x = parse_options rest (x\<lparr>sa_dscp := sa_dscp a\<rparr>)"
  "sa_vlan_id a \<le> 4094 \<Longrightarrow> sa_vlan_id x = 0 \<Longrightarrow> parse_options ((if sa_vlan_id a \<noteq> 0 then [''--vlan'', dec (unat (sa_vlan_id a))] else []) @ rest) x = parse_options rest (x\<lparr>sa_vlan_id := sa_vlan_id a\<rparr>)"
  "sa_cc x = None \<Longrightarrow> parse_options ((case sa_cc a of None \<Rightarrow> [] | Some v \<Rightarrow> [''--cc'', v]) @ rest) x = parse_options rest (x\<lparr>sa_cc := sa_cc a\<rparr>)"
  "sa_src_ip_count x = 0 \<Longrightarrow> parse_options ((if sa_src_ip_count a \<noteq> 0 then [''--src-ip-count'', dec (unat (sa_src_ip_count a))] else []) @ rest) x = parse_options rest (x\<lparr>sa_src_ip_count := sa_src_ip_count a\<rparr>)"
  by (cases x; auto simp: number_ucast number_u64 parse_switch set_switch_def split: option.split; fail)+

lemma options_parsed:
  assumes "args_ok a hs"
  shows "parse_options (show_options a hs) start_defaults = Some (a\<lparr>sa_host := (if sa_host a = sa_ip a then None else sa_host a)\<rparr>)"
proof -
  have c: "sa_has_ip a = (sa_ip a \<noteq> None)" "sa_has_port a \<or> sa_port a = 0" "sa_has_duration a \<or> sa_duration a = 0" "sa_dscp a \<le> 63" "sa_vlan_id a \<le> 4094"
    "sa_custom_hdrs a = header_text hs" "length (header_text hs) < 512" using assms by (simp_all add: args_ok_def)
  show ?thesis unfolding show_options_def start_defaults_def
    by (simp add: parse_groups parse_headers c del: if_split)
qed

definition texts :: "start_args \<Rightarrow> string list \<Rightarrow> string list" where
  "texts a hs = [sa_proto a, sa_url a] @ case_option [] (\<lambda>v. [v]) (sa_ip a) @ case_option [] (\<lambda>v. [v]) (sa_host a) @ case_option [] (\<lambda>v. [v]) (sa_cc a) @ hs"

lemma show_quotable:
  assumes "list_all quotable (texts a hs)"
  shows "list_all quotable (show_options a hs)"
proof -
  have h: "list_all quotable (concat (map (\<lambda>h. [''--header'', h]) hs)) = list_all quotable hs" by (induction hs) (simp_all add: quotable_def)
  have f: "quotable (CHR ''-'' # w) = quotable w" for w by (simp add: quotable_def)
  have q: "quotable ''ip''" "quotable ''port''" "quotable ''duration''" "quotable ''proto''" "quotable ''rate''" "quotable ''ramp''" "quotable ''txn-per-conn''"
    "quotable ''think-time''" "quotable ''size''" "quotable ''streams''" "quotable ''url''" "quotable ''host''" "quotable ''reuse''" "quotable ''tls''" "quotable ''one''"
    "quotable ''dscp''" "quotable ''vlan''" "quotable ''cc''" "quotable ''src-ip-count''" by (simp_all add: quotable_def)
  have i: "list_all P (if b then xs else []) \<longleftrightarrow> (b \<longrightarrow> list_all P xs)" for P :: "string \<Rightarrow> bool" and b xs by simp
  have o: "list_all P (case x of None \<Rightarrow> [] | Some v \<Rightarrow> g v) \<longleftrightarrow> (\<forall>v. x = Some v \<longrightarrow> list_all P (g v))" for P :: "string \<Rightarrow> bool" and x :: "string option" and g
    by (cases x) simp_all
  have "quotable (sa_proto a)" "quotable (sa_url a)" "\<forall>v. sa_ip a = Some v \<longrightarrow> quotable v" "\<forall>v. sa_host a = Some v \<longrightarrow> quotable v" "\<forall>v. sa_cc a = Some v \<longrightarrow> quotable v"
    "list_all quotable hs" using assms by (simp_all add: texts_def o)
  then show ?thesis unfolding show_options_def by (simp add: i o h f q quotable_dec del: if_split)
qed

text \<open>
  C25. What the user asks for is what the command gets.  Any set of options of \<^verbatim>\<open>start\<close> that the program can hold, written as a line of at most 32 quoted words, is read back
  unchanged: numbers, texts with blanks, switches, the default of the host and repeated headers.
\<close>

theorem start_line_roundtrip:
  assumes "args_ok a hs" "list_all quotable (texts a hs)" "length (show_options a hs) < MAX_ARGS"
  shows "parse_start_args (tokens MAX_ARGS (concat (map quoted (''start'' # show_options a hs)))) = Some a"
proof -
  have "list_all quotable (''start'' # show_options a hs)" using show_quotable [OF assms(2)] by (simp add: quotable_def)
  from tokens_line [OF this, of MAX_ARGS] have "tokens MAX_ARGS (concat (map quoted (''start'' # show_options a hs))) = ''start'' # show_options a hs"
    using assms(3) by (simp only: take_all_iff length_Cons Suc_leI)
  moreover have "sa_tls a \<or> sa_proto a \<noteq> ''https'' \<and> sa_proto a \<noteq> ''tls''" "sa_host a \<noteq> None \<or> sa_ip a = None" using assms(1) by (auto simp: args_ok_def)
  ultimately show ?thesis using options_parsed [OF assms(1)] by (cases a) (auto simp: parse_start_args_def)
qed

definition demo_start :: start_args where
  "demo_start = start_defaults\<lparr>sa_ip := Some ''10.0.0.2'', sa_has_ip := True, sa_host := Some ''10.0.0.2'', sa_port := 80, sa_has_port := True, sa_duration := 5, sa_has_duration := True,
     sa_proto := ''http'', sa_rate := 1000, sa_custom_hdrs := ''X-Trace: a b'' @ [CHR 0x0D, CHR 0x0A]\<rparr>"

theorem start_line_roundtrip_witness:
  "parse_start_args (tokens MAX_ARGS (concat (map quoted (''start'' # show_options demo_start [''X-Trace: a b''])))) = Some demo_start"
proof (rule start_line_roundtrip)
  show "args_ok demo_start [''X-Trace: a b'']" by (simp add: args_ok_def demo_start_def start_defaults_def header_text_def)
  show "list_all quotable (texts demo_start [''X-Trace: a b''])" by (simp add: texts_def demo_start_def start_defaults_def quotable_def)
  show "length (show_options demo_start [''X-Trace: a b'']) < MAX_ARGS" by (simp add: show_options_def demo_start_def start_defaults_def MAX_ARGS_def)
qed

subsection \<open>Starting a flow\<close>

definition cli_ok :: "cli_env \<Rightarrow> cli_state \<Rightarrow> bool" where
  "cli_ok e s \<longleftrightarrow> flows_ok (cl_flows s) \<and> fenv_ok (ce_flow e) \<and> flow_clock (ce_flow e) (mf_ipc (cl_flows s)) \<and> arp_ok (cl_net s) \<and>
     arp_rings_ok (ce_mgmt e) (cl_net s) \<and> clock_ok (cl_net s) \<and> poll_ok (ce_mgmt e) \<and> length (cl_hdrs s) = TGEN_MAX_CLIENT_FLOWS"

definition opts_ok :: "start_args \<Rightarrow> bool" where
  "opts_ok a \<longleftrightarrow> sa_dscp a \<le> 63 \<and> sa_vlan_id a \<le> 4094 \<and> length (sa_custom_hdrs a) \<le> 511 \<and> (sa_has_ip a \<longrightarrow> sa_ip a \<noteq> None)"





lemma clamp_fields [simp]: "opts_ok (clamp_streams a) = opts_ok a" "sa_host (clamp_streams a) = sa_host a" "sa_custom_hdrs (clamp_streams a) = sa_custom_hdrs a"
  "sa_one (clamp_streams a) = sa_one a" "sa_size (clamp_streams a) = sa_size a" "sa_duration (clamp_streams a) = sa_duration a"
  by (simp_all add: clamp_streams_def opts_ok_def Let_def)












subsection \<open>Listeners\<close>

lemma handler_of_some: "handler_of proto h = Some x \<Longrightarrow> x \<noteq> SRV_HANDLER_NONE"
  by (auto simp: handler_of_def tcp_handler_def split: if_splits)

definition listens :: "srv_listen_spec \<Rightarrow> bool" where
  "listens l \<longleftrightarrow> ls_port l \<noteq> 0 \<and> ls_handler l \<noteq> SRV_HANDLER_NONE"

lemma parse_listen_ok: "parse_listen_spec spec = Some l \<Longrightarrow> listens l"
  by (auto simp: parse_listen_spec_def listens_def bind_eq_Some_conv Let_def dest: handler_of_some split: if_splits)

definition srv_cfg_ok :: "srv_ipc_payload \<Rightarrow> bool" where
  "srv_cfg_ok c \<longleftrightarrow> length (sp_specs c) = SRV_MAX_LISTENERS \<and> unat (sp_count c) \<le> SRV_MAX_LISTENERS \<and> list_all listens (take (unat (sp_count c)) (sp_specs c))"

lemma add_listener_ok:
  assumes "add_listener spec a = Some b" "srv_cfg_ok (sv_cfg a)"
  shows "srv_cfg_ok (sv_cfg b)"
proof -
  let ?c = "sv_cfg a"
  from assms(1) obtain l where l: "parse_listen_spec spec = Some l" "unat (sp_count ?c) < SRV_MAX_LISTENERS"
    "sv_cfg b = ?c\<lparr>sp_specs := (sp_specs ?c)[unat (sp_count ?c) := l], sp_count := sp_count ?c + 1\<rparr>" by (auto simp: add_listener_def Let_def not_le split: if_splits)
  have n: "unat (sp_count ?c + 1) = unat (sp_count ?c) + 1" by (rule u32_Suc) (use l(2) in \<open>simp add: SRV_MAX_LISTENERS_def\<close>)
  have "take (unat (sp_count ?c) + 1) ((sp_specs ?c)[unat (sp_count ?c) := l]) = take (unat (sp_count ?c)) (sp_specs ?c) @ [l]"
    using assms(2) l(2) by (simp add: srv_cfg_ok_def take_Suc_conv_app_nth)
  then show ?thesis using assms(2) l parse_listen_ok [OF l(1)] n by (simp add: srv_cfg_ok_def)
qed

lemma parse_serve_ok: "parse_serve ws a = Some b \<Longrightarrow> srv_cfg_ok (sv_cfg a) \<Longrightarrow> srv_cfg_ok (sv_cfg b)"
proof (induction ws a arbitrary: b rule: parse_serve.induct)
  case (3 f v rest a)
  have c: "srv_cfg_ok ((sv_cfg a)\<lparr>sp_http_body_size := n\<rparr>)" for n using "3.prems"(2) by (simp add: srv_cfg_ok_def)
  show ?case using "3.prems" "3.IH" c add_listener_ok [OF _ "3.prems"(2)] by (auto simp: bind_eq_Some_conv split: if_splits)
qed simp_all

lemma cli_broadcast:
  assumes "cli_ok e s"
  shows "\<exists>f A. flow_broadcast (ce_flow e) m (cl_flows s) = Some f \<and> reaches (fe_ipc (ce_flow e)) 1 (mf_ipc (cl_flows s)) {..<num_workers (fe_cores (ce_flow e))} A \<and> mf_flows f = mf_flows (cl_flows s) \<and> cli_ok e (s\<lparr>cl_flows := f\<rparr>) \<and>
    (\<forall>w<TGEN_MAX_WORKERS. stream w (mf_ipc f) = stream w (mf_ipc (cl_flows s)) @ (if w \<in> A then [m] else []))"
proof -
  have ok: "fenv_ok (ce_flow e)" "ipc_ok (mf_ipc (cl_flows s))" "flow_clock (ce_flow e) (mf_ipc (cl_flows s))" using assms by (simp_all add: cli_ok_def flows_ok_def)
  from flow_broadcast_ok [OF ok, of m] obtain f A where
    f: "flow_broadcast (ce_flow e) m (cl_flows s) = Some f" "reaches (fe_ipc (ce_flow e)) 1 (mf_ipc (cl_flows s)) {..<num_workers (fe_cores (ce_flow e))} A" "sent (to_workers A m) (cl_flows s) f" by (auto simp: yields_def)
  note d = sentD [OF f(3)]
  have "cli_ok e (s\<lparr>cl_flows := f\<rparr>)" using assms d(1) ipc_step_ok [OF d(5)] flow_clock_step [OF d(5) ok(3)] by (simp add: cli_ok_def flows_ok_def)
  moreover have "\<forall>w<TGEN_MAX_WORKERS. stream w (mf_ipc f) = stream w (mf_ipc (cl_flows s)) @ (if w \<in> A then [m] else [])" using d(5) by (simp add: ipc_step_def to_workers_def)
  ultimately show ?thesis using f(1,2) d(1) by blast
qed

text \<open>The request of a serve command, and whether the certificate, the key and the ciphers it names are usable.\<close>

definition serve_request :: "string list \<Rightarrow> cli_state \<Rightarrow> serve_args option" where
  "serve_request argv s =
     (if cl_server_mode s then parse_serve (tl argv) \<lparr>sv_cfg = srv_zero, sv_cert = None, sv_key = None, sv_ciphers = None\<rparr> else None)"

definition tls_ready :: "cli_env \<Rightarrow> serve_args \<Rightarrow> bool" where
  "tls_ready e a =
     (case (sv_cert a, sv_key a) of
        (Some c, Some k) \<Rightarrow> ce_tls_load e c k \<and> (case sv_ciphers a of None \<Rightarrow> True | Some x \<Rightarrow> ce_tls_ciphers e x)
      | _ \<Rightarrow> False)"

lemma load_tls_spec:
  "\<exists>t. load_tls e a s = (tls_ready e a, s\<lparr>cl_tls := t\<rparr>) \<and> (tls_ready e a \<longrightarrow> (\<exists>cert key. sv_cert a = Some cert \<and> sv_key a = Some key \<and> t = Some (cert, key, sv_ciphers a)))"
proof (cases "\<exists>cert key. sv_cert a = Some cert \<and> sv_key a = Some key")
  case True
  then show ?thesis by (auto simp: load_tls_def tls_ready_def tls_server_ctx_load_def tls_server_ctx_set_ciphers_def Let_def split: option.split)
next
  case False
  then have "load_tls e a s = (False, s\<lparr>cl_tls := cl_tls s\<rparr>)" "\<not> tls_ready e a" by (auto simp: load_tls_def tls_ready_def split: option.splits)
  then show ?thesis by (intro exI [of _ "cl_tls s"]) simp
qed

text \<open>
  C24. Serving is all or nothing for the workers.  In every case the command returns.  It takes effect exactly when the program runs as a server, the words are a valid request with at
  least one listener, and, if one of the listeners needs TLS, the certificate, the key and the cipher list of the request are usable.  Then the configuration of the
  request is the one shown to the user and the one queued to the workers: between 1 and 16 listeners, each with a port and a handler; every worker whose ring has room gets
  it (if message boxes can be allocated) and can serve it, and if TLS is needed the library's server context is the one made from that certificate, key and cipher list.
  Otherwise nothing is sent and the configuration shown is the old one.  (A refused request may have replaced or removed the TLS context of running listeners.)
\<close>

theorem serve_all_or_nothing:
  assumes "cli_ok e s"
  shows "\<exists>s'. cli_serve e argv s = Some s' \<and> cli_ok e s' \<and>
    (case serve_request argv s of
       None \<Rightarrow> s' = s
     | Some a \<Rightarrow>
         if 0 < sp_count (sv_cfg a) \<and> (needs_tls (sv_cfg a) \<longrightarrow> tls_ready e a)
         then cl_srv_cfg s' = sv_cfg a \<and> cl_srv_active s' \<and> mf_flows (cl_flows s') = mf_flows (cl_flows s) \<and> sp_count (sv_cfg a) \<le> 16 \<and>
           list_all (\<lambda>l. ls_port l \<noteq> 0 \<and> ls_handler l \<noteq> SRV_HANDLER_NONE) (take (unat (sp_count (sv_cfg a))) (sp_specs (sv_cfg a))) \<and>
           (needs_tls (sv_cfg a) \<longrightarrow> (\<exists>cert key. sv_cert a = Some cert \<and> sv_key a = Some key \<and> cl_tls s' = Some (cert, key, sv_ciphers a))) \<and>
           (\<exists>A. A \<subseteq> {..<num_workers (fe_cores (ce_flow e))} \<and> (\<forall>w<num_workers (fe_cores (ce_flow e)). accepts (fe_ipc (ce_flow e)) 1 (mf_ipc (cl_flows s)) w \<longrightarrow> w \<in> A) \<and>
              (\<forall>w<TGEN_MAX_WORKERS. stream w (mf_ipc (cl_flows s')) = stream w (mf_ipc (cl_flows s)) @ (if w \<in> A then [serve_msg (ce_flow e) (sv_cfg a)] else []))) \<and>
           (\<forall>L. cmd_ok L (serve_msg (ce_flow e) (sv_cfg a)))
         else cl_flows s' = cl_flows s \<and> cl_srv_cfg s' = cl_srv_cfg s \<and> cl_srv_active s' = cl_srv_active s)"
proof (cases "serve_request argv s")
  case None
  then have "cli_serve e argv s = Some s" by (auto simp: cli_serve_def serve_request_def split: if_splits)
  then show ?thesis using assms None by simp
next
  case (Some a)
  let ?c = "sv_cfg a" let ?p = "store_paths a s"
  have paths: "cl_flows ?p = cl_flows s" "cl_srv_cfg ?p = cl_srv_cfg s" "cl_srv_active ?p = cl_srv_active s"
    by (simp_all add: store_paths_def Let_def split: option.split)
  have ok: "cli_ok e (?p\<lparr>cl_tls := t\<rparr>)" for t using assms by (simp add: store_paths_def cli_ok_def Let_def split: option.split)
  have rq: "cl_server_mode s" "parse_serve (tl argv) \<lparr>sv_cfg = srv_zero, sv_cert = None, sv_key = None, sv_ciphers = None\<rparr> = Some a"
    using Some by (simp_all add: serve_request_def split: if_splits)
  obtain t where t: "(if needs_tls ?c then load_tls e a ?p else (True, ?p)) = (needs_tls ?c \<longrightarrow> tls_ready e a, ?p\<lparr>cl_tls := t\<rparr>)"
    "needs_tls ?c \<and> tls_ready e a \<longrightarrow> (\<exists>cert key. sv_cert a = Some cert \<and> sv_key a = Some key \<and> t = Some (cert, key, sv_ciphers a))"
  proof (cases "needs_tls ?c")
    case True
    then show ?thesis using that load_tls_spec [of e a ?p] by auto
  next
    case False
    then show ?thesis using that [of "cl_tls ?p"] by simp
  qed
  have u: "\<not> (needs_tls ?c \<and> (sv_cert a = None \<or> sv_key a = None))" if "needs_tls ?c \<longrightarrow> tls_ready e a"
    using that by (auto simp: tls_ready_def split: option.splits)
  show ?thesis
  proof (cases "0 < sp_count ?c \<and> (needs_tls ?c \<longrightarrow> tls_ready e a)")
    case False
    have "\<exists>s'. cli_serve e argv s = Some s' \<and> cli_ok e s' \<and> cl_flows s' = cl_flows s \<and> cl_srv_cfg s' = cl_srv_cfg s \<and> cl_srv_active s' = cl_srv_active s"
    proof (cases "sp_count ?c = 0 \<or> needs_tls ?c \<and> (sv_cert a = None \<or> sv_key a = None)")
      case True
      then have "cli_serve e argv s = Some s" using rq by (auto simp: cli_serve_def Let_def)
      then show ?thesis using assms by simp
    next
      case F: False
      then have "needs_tls ?c" "\<not> tls_ready e a" using False by (auto simp: word_gt_0)
      then have "cli_serve e argv s = Some (?p\<lparr>cl_tls := t\<rparr>)" using F rq t(1) unfolding cli_serve_def by (auto simp: Let_def)
      then show ?thesis using ok [of t] paths by simp
    qed
    then show ?thesis unfolding Some option.case if_not_P [OF False] .
  next
    case True
    let ?s = "?p\<lparr>cl_tls := t, cl_srv_cfg := ?c, cl_srv_active := True\<rparr>"
    have v: "cli_ok e ?s" "cl_flows ?s = cl_flows s" using paths ok [of t] by (simp_all add: cli_ok_def)
    have e: "cli_serve e argv s = with_flows (flow_broadcast (ce_flow e) (serve_msg (ce_flow e) ?c)) ?s"
      using rq True u t(1) unfolding cli_serve_def by (auto simp: Let_def)
    from cli_broadcast [OF v(1), of "serve_msg (ce_flow e) ?c"] obtain f A where
      f: "flow_broadcast (ce_flow e) (serve_msg (ce_flow e) ?c) (cl_flows s) = Some f" "reaches (fe_ipc (ce_flow e)) 1 (mf_ipc (cl_flows s)) {..<num_workers (fe_cores (ce_flow e))} A"
        "mf_flows f = mf_flows (cl_flows s)" "cli_ok e (?s\<lparr>cl_flows := f\<rparr>)"
        "\<forall>w<TGEN_MAX_WORKERS. stream w (mf_ipc f) = stream w (mf_ipc (cl_flows s)) @ (if w \<in> A then [serve_msg (ce_flow e) ?c] else [])" unfolding v(2) by blast
    have c: "srv_cfg_ok ?c" by (rule parse_serve_ok [OF rq(2)]) (simp add: srv_cfg_ok_def srv_zero_def)
    have m: "cmd_ok L (serve_msg (ce_flow e) ?c)" for L using c by (simp add: cmd_ok_def serve_msg_def srv_cfg_ok_def)
    have n: "sp_count ?c \<le> 16" "list_all (\<lambda>l. ls_port l \<noteq> 0 \<and> ls_handler l \<noteq> SRV_HANDLER_NONE) (take (unat (sp_count ?c)) (sp_specs ?c))"
      using c by (simp_all add: srv_cfg_ok_def SRV_MAX_LISTENERS_def word_le_nat_alt listens_def [abs_def])
    have "cli_serve e argv s = Some (?s\<lparr>cl_flows := f\<rparr>)" using f(1) v(2) unfolding e by (simp add: with_flows_def)
    then show ?thesis unfolding Some option.case if_P [OF True] using f(3-5) n m t(2) True reachesD(1) [OF f(2)] reachesD(2) [OF f(2)]
      by (intro exI [of _ "?s\<lparr>cl_flows := f\<rparr>"] conjI exI [of _ A]) simp_all
  qed
qed

subsection \<open>The text of a listener\<close>

lemma dec_chars: "list_all is_digit (dec n)" "dec n \<noteq> []"
proof -
  have "is_digit (char_of (unat b))" if "digit_val 10 b \<noteq> None" for b
    using that by (auto simp: is_digit_def of_char_byte digit_val_def Let_def word_le_nat_alt split: if_splits)
  then show "list_all is_digit (dec n)" "dec n \<noteq> []" using digits_nonspace [of 10 n] by (auto simp: dec_def list_all_iff)
qed

lemma dec_length: "n < 10 ^ Suc k \<Longrightarrow> length (dec n) \<le> Suc k"
proof (induction k arbitrary: n)
  case 0
  then show ?case by (simp add: dec_def digits.simps [of 10 n])
next
  case (Suc k)
  show ?case
  proof (cases "n < 10")
    case False
    then have "length (dec n) = Suc (length (dec (n div 10)))" by (simp add: dec_def digits.simps [of 10 n])
    moreover have "n div 10 < 10 ^ Suc k" using Suc.prems by (simp add: less_mult_imp_div_less)
    ultimately show ?thesis using Suc.IH by simp
  qed (simp add: dec_def digits.simps [of 10 n])
qed

lemma atoi_dec: "atoi (dec n) = int n"
proof -
  obtain c cs where c: "dec n = c # cs" "is_digit c" using dec_chars [of n] by (cases "dec n") auto
  then show ?thesis using digit_char [OF c(2)] atoi_digits_digits [of 0 n "[]"] by (simp add: atoi_def dec_def)
qed

lemma strtok_word: "w \<noteq> [] \<Longrightarrow> CHR '':'' \<notin> set w \<Longrightarrow> strtok (w @ CHR '':'' # r) = Some (w, r)" "w \<noteq> [] \<Longrightarrow> CHR '':'' \<notin> set w \<Longrightarrow> strtok w = Some (w, [])"
proof -
  assume w: "w \<noteq> []" "CHR '':'' \<notin> set w"
  then have d: "dropWhile (\<lambda>c. c = CHR '':'') (w @ r) = w @ r" "dropWhile (\<lambda>c. c = CHR '':'') w = w" for r by (cases w; auto)+
  have t: "takeWhile (\<lambda>c. c \<noteq> CHR '':'') (w @ CHR '':'' # r) = w" "takeWhile (\<lambda>c. c \<noteq> CHR '':'') w = w" using w(2) by (induction w) auto
  show "strtok (w @ CHR '':'' # r) = Some (w, r)" unfolding strtok_def Let_def d t using w(1) by simp
  show "strtok w = Some (w, [])" unfolding strtok_def Let_def d t using w(1) by simp
qed

lemma parse_spec:
  assumes "p \<noteq> []" "CHR '':'' \<notin> set p" "h \<noteq> Some []" "\<forall>x. h = Some x \<longrightarrow> CHR '':'' \<notin> set x" "length p + length (case h of None \<Rightarrow> [] | Some x \<Rightarrow> x) \<le> 100" "n \<noteq> 0"
  shows "parse_listen_spec (p @ CHR '':'' # dec (unat n) @ (case h of None \<Rightarrow> [] | Some x \<Rightarrow> CHR '':'' # x)) = map_option (\<lambda>y. \<lparr>ls_port = n, ls_handler = y\<rparr>) (handler_of p h)"
proof -
  let ?h = "case h of None \<Rightarrow> [] | Some x \<Rightarrow> CHR '':'' # x" let ?s = "p @ CHR '':'' # dec (unat n) @ ?h"
  have "length (dec (unat n)) \<le> 5" using dec_length [of "unat n" 4] unat_lt_u16 [of n] by simp
  then have "take 127 ?s = ?s" using assms(5) by (simp split: option.splits)
  moreover have "CHR '':'' \<notin> set (dec (unat n))" using dec_chars(1) [of "unat n"] by (auto simp: list_all_iff is_digit_def)
  then have "strtok (dec (unat n) @ ?h) = Some (dec (unat n), case h of None \<Rightarrow> [] | Some x \<Rightarrow> x)" using strtok_word dec_chars(2) by (auto split: option.split)
  moreover have "map_option fst (strtok (case h of None \<Rightarrow> [] | Some x \<Rightarrow> x)) = h" using strtok_word(2) assms(3,4) by (cases h) (auto simp: strtok_def)
  ultimately show ?thesis using strtok_word(1) [OF assms(1,2)] assms(6) by (simp add: parse_listen_spec_def atoi_dec)
qed

text \<open>What is printed for a listener can be given back to the program, except for the TLS echo handler.\<close>

lemma listener_spec_parsed:
  assumes "listens l"
  shows "parse_listen_spec (listener_spec l) = (if ls_handler l = SRV_HANDLER_TLS_ECHO then None else Some l)"
proof -
  have n: "ls_port l \<noteq> 0" and h: "ls_handler l \<noteq> SRV_HANDLER_NONE" using assms by (simp_all add: listens_def)
  have d: "length (dec (unat (ls_port l))) \<le> 5" using dec_length [of "unat (ls_port l)" 4] unat_lt_u16 [of "ls_port l"] by simp
  have r: "listener_spec l = (if ls_handler l = SRV_HANDLER_HTTP then ''http'' @ '':'' @ dec (unat (ls_port l)) else if ls_handler l = SRV_HANDLER_HTTPS then ''https'' @ '':'' @ dec (unat (ls_port l))
    else (if ls_handler l = SRV_HANDLER_TLS_ECHO then ''tls'' else ''tcp'') @ '':'' @ dec (unat (ls_port l)) @ '':'' @ srv_handler_name (ls_handler l))"
    using d by (cases "ls_handler l") (simp_all add: listener_spec_def)
  note p = parse_spec [OF _ _ _ _ _ n, of "''http''" None] parse_spec [OF _ _ _ _ _ n, of "''https''" None] parse_spec [OF _ _ _ _ _ n, of "''tcp''" "Some (srv_handler_name (ls_handler l))"]
    parse_spec [OF _ _ _ _ _ n, of "''tls''" "Some (srv_handler_name (ls_handler l))"]
  show ?thesis
  proof (cases "ls_handler l")
    case SRV_HANDLER_NONE
    then show ?thesis using h by simp
  qed (use p in \<open>simp_all add: r handler_of_def tcp_handler_def\<close>)
qed

subsection \<open>A first flow\<close>

definition demo_cli_env :: cli_env where
  "demo_cli_env = \<lparr>ce_mgmt = demo_menv, ce_flow = demo_flow_env, ce_trace = demo_trace_env, ce_inet_pton = (\<lambda>s. if s = ''10.0.0.2'' then Some 2 else None), ce_inet_pton6 = (\<lambda>_. None),
     ce_run = (\<lambda>_. True), ce_isatty = False, ce_n_rxq = (\<lambda>_. 1), ce_softrss = (\<lambda>_. 0), ce_reta_size = 128, ce_reta = None, ce_gen_active = (\<lambda>_ _. False),
     ce_srv0 = \<lparr>srv_listeners = [], srv_count = 0, srv_serving = False, srv_http_response = [], srv_http_response_len = 0, srv_chunked_body_size = 0, srv_chargen_buf = []\<rparr>,
     ce_tls_load = (\<lambda>_ _. True), ce_tls_ciphers = (\<lambda>_. True), ce_clients = Some\<rparr>"

text \<open>A neighbour is known.\<close>

definition demo_known :: net_mgmt where
  "demo_known = demo_pinger\<lparr>nm_arp := (nm_arp demo_pinger)[0 := (nm_arp demo_pinger ! 0)\<lparr>arp_table := [2 \<mapsto> 0],
     arp_entries := (arp_entries (nm_arp demo_pinger ! 0))[0 := \<lparr>ae_mac = [2, 0, 0, 0, 0, 2], ae_state = ARP_STATE_RESOLVED, ae_expire_tsc = 0, ae_fail_count = 0, ae_hold = []\<rparr>]\<rparr>]\<rparr>"

definition demo_cli :: "bool \<Rightarrow> cli_state" where
  "demo_cli b = \<lparr>cl_net = demo_known, cl_flows = demo_table False, cl_trace = demo_tracer, cl_pools = [], cl_hdrs = replicate 16 [], cl_server_mode = b, cl_srv_cfg = srv_zero, cl_srv_active = False,
     cl_cert_path = [], cl_key_path = [], cl_tls = None, cl_polls = 0\<rparr>"

lemma demo_known_ok: "arp_ok demo_known" "arp_rings_ok demo_menv demo_known" "clock_ok demo_known"
  "egress_port demo_menv demo_known 2 = 0" "arp_look 0 demo_known (arp_nexthop (nm_arp demo_known) 0 2) = Some [2, 0, 0, 0, 0, 2]"
proof -
  have "arp_port_ok (nm_arp demo_pinger ! 0)" using arp_okD(2) [OF demo_pinger_ok(1), of 0] by (simp add: TGEN_MAX_PORTS_def)
  then have "arp_port_ok (nm_arp demo_known ! 0)" by (simp add: arp_port_ok_def demo_known_def demo_pinger_def demo_host_def arp_port_zero_def TGEN_ARP_CACHE_SZ_def)
  then show "arp_ok demo_known" using demo_pinger_ok(1) unfolding arp_ok_def list_all_length
    by (auto simp: demo_known_def nth_list_update demo_pinger_def demo_host_def)
  show "arp_rings_ok demo_menv demo_known" "clock_ok demo_known" using demo_pinger_ok(2,3) by (simp_all add: demo_known_def arp_rings_ok_def clock_ok_def)
  have a: "arp_gateway_ip (nm_arp demo_known ! 0) = 0" "arp_netmask (nm_arp demo_known ! 0) = 0"
    by (simp_all add: demo_known_def demo_pinger_def demo_host_def arp_port_zero_def)
  show "egress_port demo_menv demo_known 2 = 0" using a by (simp add: egress_port_def demo_menv_def)
  show "arp_look 0 demo_known (arp_nexthop (nm_arp demo_known) 0 2) = Some [2, 0, 0, 0, 0, 2]" using a
    by (simp add: arp_look_def arp_nexthop_def arp_lookup_def TGEN_MAX_PORTS_def demo_known_def demo_pinger_def demo_host_def arp_port_zero_def TGEN_ARP_CACHE_SZ_def)
qed

lemma demo_cli_ok: "cli_ok demo_cli_env (demo_cli b)"
  using demo_table_ok(1,3) [of False] demo_table_ok(2) demo_known_ok(1-3) demo_pinger_ok(4) by (simp add: cli_ok_def demo_cli_env_def demo_cli_def TGEN_MAX_CLIENT_FLOWS_def)

lemma demo_cli_simps: "cl_flows (demo_cli b) = demo_table False" "cl_net (demo_cli b) = demo_known" "ce_flow demo_cli_env = demo_flow_env" "ce_mgmt demo_cli_env = demo_menv"
  "fe_ipc demo_flow_env = demo_ipc_env" "num_workers (fe_cores demo_flow_env) = 2" "ce_inet_pton demo_cli_env ''10.0.0.2'' = Some 2"
  by (simp_all add: demo_cli_def demo_cli_env_def demo_flow_env_def)

lemma demo_stream: "w < TGEN_MAX_WORKERS \<Longrightarrow> stream w (mf_ipc (demo_table b)) = []"
  by (simp add: stream_def demo_table_def demo_ipc_def)




definition demo_serve :: "string list" where
  "demo_serve = [''serve'', ''--listen'', ''tcp:5000:echo'', ''--listen'', ''https:443'', ''--tls-cert'', ''c.pem'', ''--tls-key'', ''k.pem'']"

lemma demo_serve_parsed:
  "\<exists>a. serve_request demo_serve (demo_cli True) = Some a \<and> sp_count (sv_cfg a) = 2 \<and> needs_tls (sv_cfg a) \<and> sv_cert a = Some ''c.pem'' \<and> sv_key a = Some ''k.pem'' \<and> sv_ciphers a = None"
proof -
  have "case parse_serve (tl demo_serve) \<lparr>sv_cfg = srv_zero, sv_cert = None, sv_key = None, sv_ciphers = None\<rparr> of None \<Rightarrow> False
    | Some a \<Rightarrow> sp_count (sv_cfg a) = 2 \<and> needs_tls (sv_cfg a) \<and> sv_cert a = Some ''c.pem'' \<and> sv_key a = Some ''k.pem'' \<and> sv_ciphers a = None" by code_simp
  then show ?thesis by (auto simp: serve_request_def demo_cli_def split: option.splits)
qed

theorem serve_all_or_nothing_witness:
  "\<exists>s' c. cli_serve demo_cli_env demo_serve (demo_cli True) = Some s' \<and> cli_ok demo_cli_env s' \<and> cl_srv_active s' \<and> cl_srv_cfg s' = c \<and> sp_count c = 2 \<and>
    cl_tls s' = Some (''c.pem'', ''k.pem'', None) \<and> stream 0 (mf_ipc (cl_flows s')) = [serve_msg demo_flow_env c] \<and> stream 1 (mf_ipc (cl_flows s')) = [serve_msg demo_flow_env c]"
proof -
  from demo_serve_parsed obtain a where a: "serve_request demo_serve (demo_cli True) = Some a" "sp_count (sv_cfg a) = 2" "needs_tls (sv_cfg a)" "sv_cert a = Some ''c.pem''"
    "sv_key a = Some ''k.pem''" "sv_ciphers a = None" by blast
  have t: "0 < sp_count (sv_cfg a) \<and> (needs_tls (sv_cfg a) \<longrightarrow> tls_ready demo_cli_env a)" using a by (simp add: tls_ready_def demo_cli_env_def)
  from serve_all_or_nothing [OF demo_cli_ok [of True], of demo_serve] show ?thesis
  proof (elim exE conjE, goal_cases)
    case (1 s')
    note r = 1(1,2) and c = 1(3) [unfolded a(1) option.case if_P [OF t] demo_cli_simps]
    from c obtain A where A: "A \<subseteq> {..<2}" "\<forall>w<2. accepts demo_ipc_env 1 (mf_ipc (demo_table False)) w \<longrightarrow> w \<in> A"
      "\<forall>w<TGEN_MAX_WORKERS. stream w (mf_ipc (cl_flows s')) = stream w (mf_ipc (demo_table False)) @ (if w \<in> A then [serve_msg demo_flow_env (sv_cfg a)] else [])" by blast
    have "A = {..<2}" using A(1,2) demo_accepts [of _ 1 False] by (auto simp: TGEN_MAX_WORKERS_def)
    then have "stream 0 (mf_ipc (cl_flows s')) = [serve_msg demo_flow_env (sv_cfg a)]" "stream 1 (mf_ipc (cl_flows s')) = [serve_msg demo_flow_env (sv_cfg a)]"
      using A(3) demo_stream by (simp_all add: TGEN_MAX_WORKERS_def)
    moreover have "cl_srv_cfg s' = sv_cfg a" "cl_srv_active s'" "cl_tls s' = Some (''c.pem'', ''k.pem'', None)" using c a(3-6) by auto
    ultimately show ?case using r a(2) by (intro exI [of _ s'] exI [of _ "sv_cfg a"]) simp
  qed
qed

end
