(* ===== verification/Lpm.thy ===== *)
theory Lpm
  imports TxGen
begin

text \<open>
  Routes, \<^verbatim>\<open>net/lpm.c\<close>.  The longest-prefix-match library of DPDK is a parameter: \<open>lpm_lib\<close> are its calls, and \<open>lib_ok\<close> states its documentation over the
  rules that a table of the library holds.  A route is the index of an entry of \<^verbatim>\<open>g_routes\<close>.
\<close>

subsection \<open>State and operations\<close>

definition LPM_MAX_ROUTES :: nat where "LPM_MAX_ROUTES = 1024"

record lpm_route =
  rt_prefix :: u32
  rt_prefix_len :: u8
  rt_next_hop_ip :: u32
  rt_egress_port :: u16

record 't lpm_lib =
  lib_create :: "'t option"
  lib_add :: "'t \<Rightarrow> u32 \<Rightarrow> u8 \<Rightarrow> u32 \<Rightarrow> int \<times> 't"
  lib_delete :: "'t \<Rightarrow> u32 \<Rightarrow> u8 \<Rightarrow> int \<times> 't"
  lib_lookup :: "'t \<Rightarrow> u32 \<Rightarrow> int \<times> u32"

record 't lpm_state =
  g_lpm :: "'t option"
  g_routes :: "lpm_route list"
  g_n_routes :: nat

definition route_zero :: lpm_route where
  "route_zero = \<lparr>rt_prefix = 0, rt_prefix_len = 0, rt_next_hop_ip = 0, rt_egress_port = 0\<rparr>"

definition lpm_init :: "'t lpm_lib \<Rightarrow> int \<times> 't lpm_state" where
  "lpm_init lib =
     (case lib_create lib of
        None \<Rightarrow> (-1, \<lparr>g_lpm = None, g_routes = replicate LPM_MAX_ROUTES route_zero, g_n_routes = 0\<rparr>)
      | Some t \<Rightarrow> (0, \<lparr>g_lpm = Some t, g_routes = replicate LPM_MAX_ROUTES route_zero, g_n_routes = 0\<rparr>))"

definition lpm_add :: "'t lpm_lib \<Rightarrow> lpm_route \<Rightarrow> 't lpm_state \<Rightarrow> int \<times> 't lpm_state" where
  "lpm_add lib route s =
     (case g_lpm s of
        None \<Rightarrow> (-1, s)
      | Some t \<Rightarrow>
          if g_n_routes s \<ge> LPM_MAX_ROUTES then (-1, s)
          else
            let idx = g_n_routes s; s = s\<lparr>g_routes := (g_routes s)[idx := route]\<rparr>;
                (rc, t) = lib_add lib t (bswap32 (rt_prefix route)) (rt_prefix_len route) (word_of_nat idx); s = s\<lparr>g_lpm := Some t\<rparr>
            in if rc < 0 then (-1, s) else (0, s\<lparr>g_n_routes := g_n_routes s + 1\<rparr>))"

definition lpm_del :: "'t lpm_lib \<Rightarrow> u32 \<Rightarrow> u8 \<Rightarrow> 't lpm_state \<Rightarrow> int \<times> 't lpm_state" where
  "lpm_del lib prefix_net prefix_len s =
     (case g_lpm s of
        None \<Rightarrow> (-1, s)
      | Some t \<Rightarrow> let (rc, t) = lib_delete lib t (bswap32 prefix_net) prefix_len in (rc, s\<lparr>g_lpm := Some t\<rparr>))"

text \<open>The outputs are written only when a route with a valid index was found.\<close>

definition lpm_lookup :: "'t lpm_lib \<Rightarrow> u32 \<Rightarrow> 't lpm_state \<Rightarrow> int \<times> (u32 \<times> u16) option" where
  "lpm_lookup lib dst_ip_net s =
     (case g_lpm s of
        None \<Rightarrow> (-1, None)
      | Some t \<Rightarrow>
          let (rc, idx) = lib_lookup lib t (bswap32 dst_ip_net)
          in if rc = 0 \<and> unat idx < g_n_routes s
             then if unat idx < length (g_routes s) then (rc, Some (rt_next_hop_ip (g_routes s ! unat idx), rt_egress_port (g_routes s ! unat idx))) else (rc, None)
             else (rc, None))"

definition lpm_destroy :: "'t lpm_state \<Rightarrow> 't lpm_state" where
  "lpm_destroy s = (if g_lpm s \<noteq> None then s\<lparr>g_lpm := None\<rparr> else s)"

definition ipv4_route_lookup :: "'t lpm_lib \<Rightarrow> u32 \<Rightarrow> 't lpm_state \<Rightarrow> int \<times> (u32 \<times> u16) option" where
  "ipv4_route_lookup lib dst_ip_net s = lpm_lookup lib dst_ip_net s"

subsection \<open>Longest match\<close>

text \<open>A rule is a network of a given length.\<close>

definition net_of :: "u32 \<Rightarrow> nat \<Rightarrow> u32 \<times> nat" where
  "net_of a l = (push_bit (32 - l) (drop_bit (32 - l) a), l)"

definition longest :: "(u32 \<times> nat \<Rightarrow> 'v option) \<Rightarrow> u32 \<Rightarrow> 'v option" where
  "longest r a = (case find (\<lambda>l. r (net_of a l) \<noteq> None) (rev [0 ..< 33]) of None \<Rightarrow> None | Some l \<Rightarrow> r (net_of a l))"

definition lib_ok :: "'t lpm_lib \<Rightarrow> ('t \<Rightarrow> u32 \<times> nat \<Rightarrow> u32 option) \<Rightarrow> bool" where
  "lib_ok lib rules \<longleftrightarrow> (\<forall>t. lib_create lib = Some t \<longrightarrow> rules t = (\<lambda>_. None)) \<and>
     (\<forall>t p l i. unat i < 2 ^ 24 \<longrightarrow> rules (snd (lib_add lib t p l i)) = (if fst (lib_add lib t p l i) < 0 then rules t else (rules t)(net_of p (unat l) := Some i))) \<and>
     (\<forall>t p l. rules (snd (lib_delete lib t p l)) = (if fst (lib_delete lib t p l) < 0 then rules t else (rules t)(net_of p (unat l) := None))) \<and>
     (\<forall>t a. case longest (rules t) a of None \<Rightarrow> fst (lib_lookup lib t a) \<noteq> 0 | Some i \<Rightarrow> lib_lookup lib t a = (0, i))"

lemma longest_host: "r (net_of a 32) = Some v \<Longrightarrow> longest r a = Some v"
proof -
  have "rev [0 ..< 33] = 32 # rev [0 ..< 32 :: nat]" using upt_Suc_append [of 0 32] by simp
  then show "r (net_of a 32) = Some v \<Longrightarrow> longest r a = Some v" by (simp only: longest_def find.simps option.simps if_True simp_thms)
qed

lemma longest_map: "longest (\<lambda>k. map_option f (r k)) a = map_option f (longest r a)"
  by (simp add: longest_def split: option.split)

subsection \<open>The table of routes\<close>

datatype lpm_op = Add_route lpm_route | Del_route u32 u8

fun lpm_step :: "'t lpm_lib \<Rightarrow> lpm_op \<Rightarrow> 't lpm_state \<Rightarrow> int \<times> 't lpm_state" where
  "lpm_step lib (Add_route r) s = lpm_add lib r s"
| "lpm_step lib (Del_route p l) s = lpm_del lib p l s"

text \<open>A routing table, and the effect on it of an operation that succeeded.\<close>

type_synonym table = "u32 \<times> nat \<Rightarrow> (u32 \<times> u16) option"

fun route_op :: "lpm_op \<Rightarrow> int \<Rightarrow> table \<Rightarrow> table" where
  "route_op (Add_route r) rc m = (if rc < 0 then m else m(net_of (bswap32 (rt_prefix r)) (unat (rt_prefix_len r)) := Some (rt_next_hop_ip r, rt_egress_port r)))"
| "route_op (Del_route p l) rc m = (if rc < 0 then m else m(net_of (bswap32 p) (unat l) := None))"

fun lpm_run :: "'t lpm_lib \<Rightarrow> lpm_op list \<Rightarrow> table \<Rightarrow> 't lpm_state \<Rightarrow> table \<times> 't lpm_state" where
  "lpm_run lib [] m s = (m, s)"
| "lpm_run lib (x # xs) m s = (let (rc, s') = lpm_step lib x s in lpm_run lib xs (route_op x rc m) s')"

definition routes_ok :: "('t \<Rightarrow> u32 \<times> nat \<Rightarrow> u32 option) \<Rightarrow> table \<Rightarrow> 't lpm_state \<Rightarrow> bool" where
  "routes_ok rules m s \<longleftrightarrow> length (g_routes s) = LPM_MAX_ROUTES \<and> g_n_routes s \<le> LPM_MAX_ROUTES \<and>
     (\<exists>t. g_lpm s = Some t \<and> (\<forall>k i. rules t k = Some i \<longrightarrow> unat i < g_n_routes s) \<and>
        m = (\<lambda>k. map_option (\<lambda>i. (rt_next_hop_ip (g_routes s ! unat i), rt_egress_port (g_routes s ! unat i))) (rules t k)))"

lemma lpm_step_ok:
  assumes "lib_ok lib rules" "routes_ok rules m s" "lpm_step lib x s = (rc, s')"
  shows "routes_ok rules (route_op x rc m) s'"
proof -
  obtain t where t: "g_lpm s = Some t" "\<forall>k i. rules t k = Some i \<longrightarrow> unat i < g_n_routes s" "length (g_routes s) = LPM_MAX_ROUTES" "g_n_routes s \<le> LPM_MAX_ROUTES"
    "m = (\<lambda>k. map_option (\<lambda>i. (rt_next_hop_ip (g_routes s ! unat i), rt_egress_port (g_routes s ! unat i))) (rules t k))" using assms(2) by (auto simp: routes_ok_def)
  show ?thesis
  proof (cases x)
    case (Del_route p l)
    obtain t' where a: "lib_delete lib t (bswap32 p) l = (rc, t')" "s' = s\<lparr>g_lpm := Some t'\<rparr>" using assms(3) Del_route t(1) by (auto simp: lpm_del_def split: prod.splits)
    have ru: "rules t' = (if rc < 0 then rules t else (rules t)(net_of (bswap32 p) (unat l) := None))" using assms(1) a(1) unfolding lib_ok_def by (metis fst_conv snd_conv)
    have "route_op x rc m = (\<lambda>k. map_option (\<lambda>i. (rt_next_hop_ip (g_routes s' ! unat i), rt_egress_port (g_routes s' ! unat i))) (rules t' k))"
      using Del_route ru a(2) t(5) by (auto simp: fun_eq_iff simp del: split_paired_All)
    moreover have "\<forall>k i. rules t' k = Some i \<longrightarrow> unat i < g_n_routes s" using ru t(2) by (auto simp del: split_paired_All)
    ultimately show ?thesis using a(2) t(3,4) by (auto simp: routes_ok_def simp del: split_paired_All)
  next
    case (Add_route r)
    show ?thesis
    proof (cases "g_n_routes s \<ge> LPM_MAX_ROUTES")
      case True
      then show ?thesis using assms(2,3) t(1) Add_route by (auto simp: lpm_add_def)
    next
      case False
      let ?i = "word_of_nat (g_n_routes s) :: u32" and ?p = "bswap32 (rt_prefix r)" and ?l = "rt_prefix_len r"
      have i: "unat ?i = g_n_routes s" using False by (simp add: unat_of_nat LPM_MAX_ROUTES_def)
      have i24: "unat ?i < 2 ^ 24" using False unfolding i by (simp add: LPM_MAX_ROUTES_def)
      obtain c t' where a: "lib_add lib t ?p ?l ?i = (c, t')" by fastforce
      have ru: "rules t' = (if c < 0 then rules t else (rules t)(net_of ?p (unat ?l) := Some ?i))" using assms(1) a i24 unfolding lib_ok_def by (metis fst_conv snd_conv)
      have old: "(g_routes s)[g_n_routes s := r] ! unat j = g_routes s ! unat j" if "rules t k = Some j" for j k
        by (rule nth_list_update_neq) (use t(2) that less_irrefl in metis)
      show ?thesis
      proof (cases "c < 0")
        case True
        then have "rc = -1" "s' = s\<lparr>g_routes := (g_routes s)[g_n_routes s := r], g_lpm := Some t'\<rparr>" using assms(3) Add_route t(1) False a by (simp_all add: lpm_add_def Let_def)
        then show ?thesis using Add_route True ru t(2-5) old by (auto simp: routes_ok_def fun_eq_iff intro!: option.map_cong)
      next
        case c: False
        then have s': "rc = 0" "s' = s\<lparr>g_routes := (g_routes s)[g_n_routes s := r], g_lpm := Some t', g_n_routes := g_n_routes s + 1\<rparr>"
          using assms(3) Add_route t(1) False a by (simp_all add: lpm_add_def Let_def)
        have "\<forall>k j. rules t' k = Some j \<longrightarrow> unat j < g_n_routes s + 1" using ru c t(2) i by (auto simp: less_Suc_eq)
        moreover have "route_op x rc m = (\<lambda>k. map_option (\<lambda>j. (rt_next_hop_ip (g_routes s' ! unat j), rt_egress_port (g_routes s' ! unat j))) (rules t' k))"
          using Add_route s' ru c old i t(3,5) False by (auto simp: fun_eq_iff intro!: option.map_cong)
        ultimately show ?thesis using s' t(3) False by (auto simp: routes_ok_def)
      qed
    qed
  qed
qed

lemma lpm_run_ok: "lib_ok lib rules \<Longrightarrow> routes_ok rules m s \<Longrightarrow> lpm_run lib xs m s = (m', s') \<Longrightarrow> routes_ok rules m' s'"
proof (induction xs arbitrary: m s)
  case (Cons x xs)
  obtain rc v where v: "lpm_step lib x s = (rc, v)" by fastforce
  from Cons.IH [OF Cons.prems(1) lpm_step_ok [OF Cons.prems(1,2) v]] Cons.prems(3) v show ?case by simp
qed simp

text \<open>
  C27. Routing is by the longest match.  After any sequence of additions and deletions the lookup of an address returns next hop and port of
  the most specific network among those of the table, which is what the successful operations have made of it, and fails when there is none.
\<close>

theorem lookup_longest_match:
  assumes "lib_ok lib rules" "lpm_init lib = (0, s)" "lpm_run lib xs (\<lambda>_. None) s = (m, s')"
  shows "case longest m (bswap32 a) of None \<Rightarrow> fst (lpm_lookup lib a s') \<noteq> 0 | Some hop \<Rightarrow> lpm_lookup lib a s' = (0, Some hop)"
proof -
  have "routes_ok rules (\<lambda>_. None) s" using assms(1,2) by (auto simp: lpm_init_def routes_ok_def lib_ok_def split: option.splits)
  from lpm_run_ok [OF assms(1) this assms(3)] obtain t where t: "g_lpm s' = Some t" "\<forall>k i. rules t k = Some i \<longrightarrow> unat i < g_n_routes s'" "length (g_routes s') = LPM_MAX_ROUTES"
    "g_n_routes s' \<le> LPM_MAX_ROUTES" "m = (\<lambda>k. map_option (\<lambda>i. (rt_next_hop_ip (g_routes s' ! unat i), rt_egress_port (g_routes s' ! unat i))) (rules t k))"
    by (auto simp: routes_ok_def)
  have l: "case longest (rules t) (bswap32 a) of None \<Rightarrow> fst (lib_lookup lib t (bswap32 a)) \<noteq> 0 | Some i \<Rightarrow> lib_lookup lib t (bswap32 a) = (0, i)"
    using assms(1) by (simp add: lib_ok_def)
  show ?thesis
  proof (cases "longest (rules t) (bswap32 a)")
    case None
    then show ?thesis using l t(1) unfolding t(5) longest_map by (simp add: lpm_lookup_def case_prod_beta)
  next
    case (Some i)
    then have "unat i < g_n_routes s'" using t(2) by (auto simp: longest_def simp del: split_paired_All split: option.splits)
    then show ?thesis using Some l t(1,3,4) unfolding t(5) longest_map by (simp add: lpm_lookup_def)
  qed
qed

text \<open>Deleted routes do not give their slot back: a table that has seen 1024 additions takes no further route.\<close>

lemma lpm_full: "g_n_routes s \<ge> LPM_MAX_ROUTES \<Longrightarrow> lpm_step lib x s = (rc, s') \<Longrightarrow> g_n_routes s' = g_n_routes s \<and> fst (lpm_add lib r s') = -1"
  by (cases x) (auto simp: lpm_add_def lpm_del_def split: option.splits prod.splits)

subsection \<open>A host route inside a network\<close>

definition demo_lpm :: "(u32 \<times> nat \<Rightarrow> u32 option) lpm_lib" where
  "demo_lpm = \<lparr>lib_create = Some (\<lambda>_. None), lib_add = (\<lambda>t p l i. (0, t(net_of p (unat l) := Some i))), lib_delete = (\<lambda>t p l. (0, t(net_of p (unat l) := None))),
     lib_lookup = (\<lambda>t a. case longest t a of None \<Rightarrow> (-2, 0) | Some i \<Rightarrow> (0, i))\<rparr>"

definition demo_routes :: "lpm_op list" where
  "demo_routes = [Add_route \<lparr>rt_prefix = 0x0000000A, rt_prefix_len = 8, rt_next_hop_ip = 1, rt_egress_port = 0\<rparr>,
                  Add_route \<lparr>rt_prefix = 0x0100000A, rt_prefix_len = 32, rt_next_hop_ip = 2, rt_egress_port = 1\<rparr>]"

theorem lookup_longest_match_witness:
  "lpm_lookup demo_lpm 0x0100000A (snd (lpm_run demo_lpm demo_routes (\<lambda>_. None) (snd (lpm_init demo_lpm)))) = (0, Some (2, 1))"
proof -
  let ?s = "snd (lpm_init demo_lpm)" and ?m = "\<lambda>_. None"
  have lib: "lib_ok demo_lpm (\<lambda>t. t)" by (simp add: lib_ok_def demo_lpm_def split: option.split)
  have init: "lpm_init demo_lpm = (0, ?s)" by (simp add: lpm_init_def demo_lpm_def)
  have run: "lpm_run demo_lpm demo_routes ?m ?s = (fst (lpm_run demo_lpm demo_routes ?m ?s), snd (lpm_run demo_lpm demo_routes ?m ?s))" by simp
  have b: "bswap32 0x0100000A = 0x0A000001" "bswap32 0x0000000A = 0x0A000000" by (code_simp, code_simp)
  have m: "fst (lpm_run demo_lpm demo_routes ?m ?s) (net_of 0x0A000001 32) = Some (2, 1)"
    by (simp add: demo_routes_def lpm_init_def demo_lpm_def lpm_add_def LPM_MAX_ROUTES_def b net_of_def Let_def)
  have "longest (fst (lpm_run demo_lpm demo_routes ?m ?s)) (bswap32 0x0100000A) = Some (2, 1)"
    using m by (simp only: b longest_host)
  then show ?thesis using lookup_longest_match [OF lib init run, of "0x0100000A"] by simp
qed

end
