(* ===== verification/Spec2Isabelle.thy ===== *)
theory Spec2Isabelle
  imports TcpTimer TxGenInv NetInput CliInv Lpm
begin

text \<open>
  \<^bold>\<open>vaigAI: a verification of a TCP/TLS/HTTP traffic generator\<close>

  \<^bold>\<open>The program.\<close>  vaigAI (\<^verbatim>\<open>src/vaigAI\<close>) is a traffic generator on DPDK.  Each worker thread owns a
  TCB store, a timer wheel, a port pool, a listener table, TLS sessions, counters and a transmit batch,
  shares none of them, and runs one loop: take commands, receive frames, process them up to the TCP state machine, generate
  new connections, fire timers, flush the batch.  The state machine calls the applications (HTTP client,
  TLS, server handlers), which send on the connection, close it or reset it.  A management thread answers ARP, ICMP and neighbour
  discovery, from rings that the workers fill, starts and stops flows by messages to the workers, and reads their counters.

  \<^bold>\<open>Theories, bottom up.\<close>
  \<^item> \<open>Prelude\<close>: words, lists, options; \<open>Util\<close>: \<^verbatim>\<open>common/util.[ch]\<close> and \<^verbatim>\<open>common/types.h\<close>.
  \<^item> \<open>SndBuf\<close>: \<^verbatim>\<open>net/tcp_snd_buf.[ch]\<close>.  \<open>TcpOptions\<close>: \<^verbatim>\<open>net/tcp_options.[ch]\<close>.
  \<^item> \<open>TcbTypes\<close>, \<open>TimerWheel\<close>, \<open>TcbStore\<close>: \<^verbatim>\<open>net/tcp_tcb.[ch]\<close> and the wheel of \<^verbatim>\<open>net/tcp_timer.[ch]\<close>, as records
    that the worker extends.  \<open>PortPool\<close>: \<^verbatim>\<open>net/tcp_port_pool.[ch]\<close>.
  \<^item> \<open>Histogram\<close>, \<open>Metrics\<close>: \<^verbatim>\<open>telemetry/histogram.[ch]\<close>, \<^verbatim>\<open>metrics.[ch]\<close>, \<^verbatim>\<open>cpu_stats.[ch]\<close>.
  \<^item> \<open>Congestion\<close>: \<^verbatim>\<open>net/tcp_congestion.c\<close>.  \<open>Neighbor\<close>: the lookups of \<^verbatim>\<open>net/arp.c\<close> and \<^verbatim>\<open>net/ndp.c\<close>.
    \<open>CoreAssign\<close>, \<open>CoreMap\<close>: \<^verbatim>\<open>core/core_assign.[ch]\<close>.
  \<^item> \<open>Worker\<close>: the record \<open>worker\<close> and its surroundings \<open>env\<close> (DPDK, OpenSSL, allocator, other threads' tables).
    \<open>TlsSession\<close>: \<^verbatim>\<open>tls/tls_session.c\<close> and the engine of \<^verbatim>\<open>tls/tls_engine.c\<close> over an OpenSSL parameter.
  \<^item> \<open>TcpSend\<close>: the sending half of \<^verbatim>\<open>net/tcp_fsm.c\<close> (segments, batch, drain, send, close, reset, connect,
    retransmission) and \<^verbatim>\<open>net/tcp_checksum.h\<close>; \<open>TcpSendInv\<close> its invariant, \<open>Scenario\<close> a small worker to evaluate
    on, \<open>TcpConn\<close> the effect of each call.
  \<^item> \<open>Http11\<close>, \<open>HttpRoundtrip\<close>: \<^verbatim>\<open>app/http11.[ch]\<close>.  \<open>HttpClient\<close>: the HTTP client inside \<^verbatim>\<open>net/tcp_fsm.c\<close>.
    \<open>Server\<close>: \<^verbatim>\<open>app/server.[ch]\<close>.
  \<^item> \<open>TcpInput\<close>: \<^verbatim>\<open>tcp_fsm_input\<close>, one definition per state.  \<open>AppStep\<close>, \<open>TcpInputInv\<close>, \<open>Receive\<close>: what applications and
    segments do to a worker.  \<open>TcpTimer\<close>: the firing of timers and the tick of \<^verbatim>\<open>net/tcp_timer.c\<close>.
  \<^item> \<open>TxGen\<close>: \<^verbatim>\<open>core/tx_gen.[ch]\<close>, token bucket, connections, streams and packets; \<open>TxGenInv\<close> its invariant and rate.
  \<^item> \<open>NetInput\<close>: frames, \<^verbatim>\<open>net/ethernet.[ch]\<close>, \<^verbatim>\<open>ipv4.[ch]\<close>, \<^verbatim>\<open>ipv6.[ch]\<close>, the workers' side of \<^verbatim>\<open>arp.c\<close>, \<^verbatim>\<open>icmp.c\<close>,
    \<^verbatim>\<open>icmpv6.c\<close>, \<^verbatim>\<open>udp.c\<close>, and the classifier of \<^verbatim>\<open>core/worker_loop.c\<close>.
  \<^item> \<open>NetMgmt\<close>, \<open>IcmpMgmt\<close>, \<open>NdpMgmt\<close>: the management thread's side of ARP, ICMP with the ping client, ICMPv6 and neighbour discovery.
  \<^item> \<open>Ipc\<close>: \<^verbatim>\<open>core/ipc.[ch]\<close>.  \<open>WorkerCtx\<close>, \<open>WorkerLoop\<close>: \<^verbatim>\<open>core/worker_loop.[ch]\<close>, the distribution of queues and the loop;
    \<open>WorkerLoopInv\<close> its invariant.  \<open>MgmtFlow\<close>: the flows and the round of \<^verbatim>\<open>mgmt/mgmt_loop.[ch]\<close>; \<open>MgmtFlowInv\<close> their correctness.
  \<^item> \<open>PktTrace\<close>: \<^verbatim>\<open>telemetry/pktrace.[ch]\<close>, the capture of packets.  \<open>Lpm\<close>: \<^verbatim>\<open>net/lpm.[ch]\<close>, routes over the DPDK library as a parameter.
  \<^item> \<open>Cli\<close>: the words of a line and the commands of \<^verbatim>\<open>mgmt/cli.[ch]\<close> that change state; \<open>CliInv\<close> their correctness.

  \<^bold>\<open>Interfaces.\<close>  Contracts between components are locales, interpreted on the definitions that provide them: \<open>byte_queue\<close> (the send buffer),
  \<open>timer_service\<close> (the wheel), \<open>conn_table\<close> (the store), \<open>port_source\<close> (the pool), \<open>neighbour_cache\<close> (both the ARP and the neighbour cache), \<open>wait_loop\<close> (the
  three waiting loops of the ping client).

  \<^bold>\<open>How state and effects are modelled.\<close>  Structs are records with the field names of the source, machine
  integers are words of their width, a pointer to a block is its index, and \<open>UINT32_MAX\<close> is the null index
  as in the code.  Operations pass the worker explicitly.  \<open>None\<close> as the result of an operation is a division by
  zero, an access through an invalid pointer or beyond a buffer, or a loop that does not end.  Clock reads and results
  of DPDK, OpenSSL and the allocator come from functions in \<open>env\<close> or the worker, indexed by a counter of
  calls, so that every theorem holds for all behaviours of the surroundings; the assumptions on them are in \<open>env_ok\<close>.

  \<^bold>\<open>What is shown.\<close>
  \<^item> Memory safety and invariant: \<open>sys_ok\<close> collects the invariant of a worker (store and wheel well
    formed, pool well formed, buffers accounted for, congestion windows usable, application pointers valid).
    Any sequence of segments or frames keeps it and never crashes, provided that peers keep to \<open>peer_ok\<close> in their SYN and SYN-ACK
    segments (a maximum segment size of 1 to 65400, a window of at least 2) and that the core has a number below 124; active opens, timer
    expiries and bursts of the generator keep it as well.  \<open>loop_ok\<close> extends it to the loop: commands, reception and generation of a round keep it.
  \<^item> State machine: a segment moves its connection only along \<open>next_states\<close> and changes no other
    connection; SYN, SYN-ACK, RST and stray segments have a stated effect, or are dropped.
  \<^item> Distribution: the cores are split into management and worker cores, each receive queue up to the number of local workers has
    one worker and the others none, each port of the pool goes to the worker that the NIC's hash selects.
  \<^item> Messages and flows: command rings are reliable queues, and a broadcast reaches every worker whose ring has room (\<open>accepts\<close>, \<open>reaches\<close>); a worker serves and acknowledges its commands in order; every flow is
    reported once; a stop that the management thread queues takes effect in the worker.
  \<^item> Commands: a line is read as it was meant; starting a flow and serving are all or nothing, and what they send can be served by a worker.
  \<^item> Protocol exchanges: ARP and neighbour discovery resolve an address between two hosts, an echo request is answered
    with its own payload, the ping client returns.
  \<^item> Refinement and equivalence: the store is a bounded set of connections; the send buffer a stream less its
    acknowledged prefix; routing is by the longest match; the bitmap search is a search over ports; the wheel is a family of chains.
  \<^item> Round trips: TCP options, frames, HTTP responses and chunks, the file of a capture.  Bounds: histogram percentiles, option fields,
    the rate of the generator over a run (step relation \<open>gen_run\<close>).
  \<^item> Error behaviour that the code has and a caller should know: see the property on failed opens and the lemmas on
    split chunks, 128 cores, restarted captures, failed writes of a capture, and the handshakes outside \<open>peer_ok\<close> (\<open>rto_with_zero_mss_traps\<close>,
    \<open>zero_window_traps\<close>, \<open>large_segment_traps\<close>).

  \<^bold>\<open>Fuel and bounds.\<close>  Loops over lists recurse on them; the drain and send loops and the HTTP parser are functions with
  termination proofs; loops that follow links between blocks are partial functions with \<open>None\<close> for divergence.
  \<open>MAX_MSS\<close> (65400) is a segment size for which a frame's length fits its 16-bit field with all headers and options.

  The waits of the management thread end because the clock passes their deadline (\<open>flow_clock\<close>, \<open>clock_ok\<close>, \<open>ipc_clock\<close>).

  \<^bold>\<open>Not shown.\<close>  That the tick of the timers always ends and keeps the invariant: its expiries are covered one by one, but during the tick the
  blocks of the detached chain still name their slot, and the list of delayed acknowledgements loses blocks when a connection on it is
  freed (\<open>TcbStore.tcb_free_dack_next\<close>), so a round is followed up to its timers.

  \<^bold>\<open>Not modelled.\<close>  Floating-point results of CUBIC and of percentile ranks are parameters.  Log output.  The
  unused \<^verbatim>\<open>tcp_send_rst_no_tcb\<close>.  Initialisation of DPDK, ports and memory (\<^verbatim>\<open>core/eal_init.c\<close>, \<^verbatim>\<open>core/mempool.c\<close>,
  \<^verbatim>\<open>port/*\<close>, \<^verbatim>\<open>main.c\<close>), the rest of the management plane (\<^verbatim>\<open>mgmt/*\<close>: terminal, sockets, configuration files, commands that only print), the printing of results
  (\<^verbatim>\<open>telemetry/export.c\<close>, \<^verbatim>\<open>output.c\<close>, \<^verbatim>\<open>log.c\<close>, \<^verbatim>\<open>mem_stats.c\<close>), certificates and crypto devices are text and socket
  input and output and calls of libraries.  \<^verbatim>\<open>src/asuran\<close> is a separate Python program.
\<close>

end
